(* ===== verification/Prelude.thy ===== *)
theory Prelude
  imports Main "HOL-Library.Word" "HOL-Library.Monad_Syntax"
begin

unbundle bit_operations_syntax

text \<open>
  Shared vocabulary of the development: the machine integer types of \<^verbatim>\<open>common.h\<close>, the
  outcome of a \<^verbatim>\<open>verify\<close> assertion, and the generic facts on options, lists and words
  that the component theories use.

  A computation that may abort has type \<open>'a option\<close>: \<open>None\<close> is the process calling
  \<^verbatim>\<open>abort()\<close> inside \<^verbatim>\<open>verify\<close>. Such computations are sequenced by the option monad.
\<close>

named_theorems model_defs \<open>unfolding equations of the small accessors of the model\<close>
named_theorems word_fields \<open>how masks and shifts read the fields of a word\<close>

type_synonym u8 = "8 word"
type_synonym u16 = "16 word"
type_synonym u32 = "32 word"
type_synonym u64 = "64 word"

subsection \<open>Assertions\<close>

definition verify :: "bool \<Rightarrow> unit option" where
  "verify cond = (if cond then Some () else None)"

lemma verify_eq_Some [simp]: "verify c = Some u \<longleftrightarrow> c"
  by (simp add: verify_def)

lemma verify_eq_None [simp]: "verify c = None \<longleftrightarrow> \<not> c"
  by (simp add: verify_def)

lemma verify_True [simp]: "verify True = Some ()"
  by (simp add: verify_def)

lemma verify_False [simp]: "verify False = None"
  by (simp add: verify_def)

lemma bind_verify [simp]: "Option.bind (verify c) f = (if c then f () else None)"
  by (simp add: verify_def)

lemma bind_eq_SomeE:
  assumes "Option.bind m f = Some y"
  obtains x where "m = Some x" and "f x = Some y"
  using assms by (cases m) auto

end
