(* ===== verification/Common.thy ===== *)
theory Common
  imports Prelude
begin

text \<open>
  \<^verbatim>\<open>include/common.h\<close> and the constants of \<^verbatim>\<open>include/config.h\<close> that the modelled components read:
  exception and interrupt numbers, alignment, and the sign extension every decoder and
  every load goes through.
\<close>

subsection \<open>Exception and interrupt numbers\<close>

datatype riscv_exception_t =
    instruction_address_misaligned
  | instruction_access_fault
  | illegal_instruction
  | breakpoint
  | load_address_misaligned
  | load_access_fault
  | store_amo_address_misaligned
  | store_amo_access_fault
  | environment_call_from_u_mode
  | environment_call_from_s_mode
  | reserved_10
  | environment_call_from_m_mode
  | instruction_page_fault
  | load_page_fault
  | reserved_14
  | store_amo_page_fault

fun exception_code :: "riscv_exception_t \<Rightarrow> u32" where
  "exception_code instruction_address_misaligned = 0"
| "exception_code instruction_access_fault = 1"
| "exception_code illegal_instruction = 2"
| "exception_code breakpoint = 3"
| "exception_code load_address_misaligned = 4"
| "exception_code load_access_fault = 5"
| "exception_code store_amo_address_misaligned = 6"
| "exception_code store_amo_access_fault = 7"
| "exception_code environment_call_from_u_mode = 8"
| "exception_code environment_call_from_s_mode = 9"
| "exception_code reserved_10 = 10"
| "exception_code environment_call_from_m_mode = 11"
| "exception_code instruction_page_fault = 12"
| "exception_code load_page_fault = 13"
| "exception_code reserved_14 = 14"
| "exception_code store_amo_page_fault = 15"

datatype riscv_interrupt_t =
    user_software
  | supervisor_software
  | reserved_software
  | machine_software
  | user_timer
  | supervisor_timer
  | reserved_timer
  | machine_timer
  | user_external
  | supervisor_external
  | reserved_external
  | machine_external

fun interrupt_code :: "riscv_interrupt_t \<Rightarrow> u32" where
  "interrupt_code user_software = 0"
| "interrupt_code supervisor_software = 1"
| "interrupt_code reserved_software = 2"
| "interrupt_code machine_software = 3"
| "interrupt_code user_timer = 4"
| "interrupt_code supervisor_timer = 5"
| "interrupt_code reserved_timer = 6"
| "interrupt_code machine_timer = 7"
| "interrupt_code user_external = 8"
| "interrupt_code supervisor_external = 9"
| "interrupt_code reserved_external = 10"
| "interrupt_code machine_external = 11"

subsection \<open>Alignment and sign extension\<close>

definition is_align :: "u32 \<Rightarrow> u32 \<Rightarrow> bool" where
  "is_align x access_size \<longleftrightarrow> x AND (access_size - 1) = 0"

text \<open>
  \<^verbatim>\<open>sign_extend\<close> aborts unless \<open>0 < imm_length < 32\<close>. The bits of \<open>imm\<close> above
  \<open>imm_length\<close> are not cleared: the source shifts the whole of \<open>imm\<close> down to get the
  sign bit.
\<close>

definition sign_extend :: "u32 \<Rightarrow> nat \<Rightarrow> u32 option" where
  "sign_extend imm imm_length =
     do {
       verify (0 < imm_length \<and> imm_length < 32);
       let sign_bit = drop_bit (imm_length - 1) imm;
       let extended_imm =
         (if sign_bit = 0 then 0
          else push_bit imm_length (push_bit (32 - imm_length) sign_bit - 1)) OR imm;
       Some extended_imm
     }"

subsection \<open>Configuration constants\<close>

definition INIT_PC :: u32 where "INIT_PC = 0x80000000"
definition MEMORY_BASE :: u32 where "MEMORY_BASE = 0x80000000"
definition MEMORY_SIZE :: u32 where "MEMORY_SIZE = 1048576"
definition CLINT_BASE :: u32 where "CLINT_BASE = 0x20000000"
definition CLINT_SIZE :: u32 where "CLINT_SIZE = 0x10000"
definition ARCH_REG_NUM :: nat where "ARCH_REG_NUM = 32"
definition PHY_REG_NUM :: nat where "PHY_REG_NUM = 128"
definition ROB_SIZE :: nat where "ROB_SIZE = 64"
definition DECODE_WIDTH :: nat where "DECODE_WIDTH = 4"
definition RENAME_WIDTH :: nat where "RENAME_WIDTH = 4"
definition DISPATCH_WIDTH :: nat where "DISPATCH_WIDTH = 4"
definition COMMIT_WIDTH :: nat where "COMMIT_WIDTH = 4"
definition STORE_BUFFER_SIZE :: nat where "STORE_BUFFER_SIZE = 16"
definition CHECKPOINT_BUFFER_SIZE :: nat where "CHECKPOINT_BUFFER_SIZE = 64"
definition LOAD_QUEUE_SIZE :: nat where "LOAD_QUEUE_SIZE = 32"
definition DECODE_RENAME_FIFO_SIZE :: nat where "DECODE_RENAME_FIFO_SIZE = 16"
definition DIV_LATENCY :: nat where "DIV_LATENCY = 8"

lemmas config_defs [model_defs] =
  INIT_PC_def MEMORY_BASE_def MEMORY_SIZE_def CLINT_BASE_def CLINT_SIZE_def
  ARCH_REG_NUM_def PHY_REG_NUM_def ROB_SIZE_def DECODE_WIDTH_def RENAME_WIDTH_def DISPATCH_WIDTH_def COMMIT_WIDTH_def
  STORE_BUFFER_SIZE_def CHECKPOINT_BUFFER_SIZE_def LOAD_QUEUE_SIZE_def DECODE_RENAME_FIFO_SIZE_def DIV_LATENCY_def

subsection \<open>What sign extension computes\<close>

lemma drop_bit_top:
  fixes w :: "'a::len word"
  assumes "take_bit (Suc n) w = w"
  shows "drop_bit n w = of_bool (bit w n)"
proof (rule bit_word_eqI)
  fix m assume "m < LENGTH('a)"
  have "bit w (n + m) \<longleftrightarrow> n + m < Suc n \<and> bit w (n + m)"
    using assms by (metis bit_take_bit_iff)
  then show "bit (drop_bit n w) m = bit (of_bool (bit w n) :: 'a word) m"
    by (auto simp: bit_simps)
qed

lemma push_bit_ones:
  assumes "len < 32"
  shows "push_bit len (push_bit (32 - len) (1::u32) - 1) = NOT (mask len)"
proof -
  have "push_bit (32 - len) (1::u32) - 1 = mask (32 - len)"
    by (simp add: mask_eq_exp_minus_1 push_bit_eq_mult)
  then show ?thesis using assms by (auto intro!: bit_word_eqI simp: bit_simps)
qed

lemma sign_extend_signed_take_bit:
  fixes imm :: u32
  assumes "0 < len" and "len < 32" and "take_bit len imm = imm"
  shows "sign_extend imm len = Some (signed_take_bit (len - 1) imm)"
proof -
  obtain n where n: "len = Suc n" using assms(1) by (cases len) auto
  have top: "drop_bit n imm = of_bool (bit imm n)"
    using assms(3) by (simp add: n drop_bit_top)
  have hi: "bit imm m \<Longrightarrow> m < len" for m
    using assms(3) by (metis bit_take_bit_iff)
  show ?thesis
  proof (cases "bit imm n")
    case True
    then have "(NOT (mask len) :: u32) OR imm = signed_take_bit n imm"
      using hi n
      by (auto intro!: bit_word_eqI simp: bit_simps less_Suc_eq min_def not_less_eq split: if_splits)
    with True show ?thesis using assms top n push_bit_ones[of len]
      by (simp add: sign_extend_def)
  next
    case False
    have "imm = signed_take_bit n imm"
    proof (rule bit_word_eqI)
      fix m assume "m < LENGTH(32)"
      then show "bit imm m \<longleftrightarrow> bit (signed_take_bit n imm) m"
        using hi[of m] False n
        by (cases "n \<le> m") (auto simp: bit_simps min_def le_less_Suc_eq)
    qed
    with False show ?thesis using assms top n
      by (simp add: sign_extend_def)
  qed
qed

lemma sign_extend_total: "0 < n \<Longrightarrow> n < 32 \<Longrightarrow> \<exists>v. sign_extend imm n = Some v"
  by (simp add: sign_extend_def Let_def)

lemma sint_signed_take_bit:
  fixes w :: u32
  assumes "n < 31"
  shows "sint (signed_take_bit n w) = signed_take_bit n (uint w)"
  by (rule bit_eqI) (use assms in \<open>auto simp: bit_simps min_def\<close>)

text \<open>
  Sign extension of a field of \<open>len\<close> bits: the call aborts unless \<open>0 < len < 32\<close>;
  otherwise the result, read as a signed number, is the value of the field as a two's
  complement number of \<open>len\<close> bits.
\<close>

theorem sign_extend_correct:
  fixes imm :: u32
  assumes "take_bit len imm = imm"
  shows "map_option sint (sign_extend imm len) =
    (if 0 < len \<and> len < 32 then Some (signed_take_bit (len - 1) (uint imm)) else None)"
proof (cases "0 < len \<and> len < 32")
  case True
  then show ?thesis
    using sign_extend_signed_take_bit[OF _ _ assms] sint_signed_take_bit[of "len - 1" imm]
    by auto
qed (auto simp: sign_extend_def)

end
