(* ===== verification/Ops.thy ===== *)
theory Ops
  imports Common
begin

text \<open>
  The operation names of the two models (\<^verbatim>\<open>isa_model.h\<close>, \<^verbatim>\<open>pipeline_common.h\<close>) and
  the instruction fields both decoders extract. The enumerations that are literally the
  same in both models are one type here; the load and store operations differ and are
  separate types.
\<close>

subsection \<open>Enumerations\<close>

datatype op_t =
    Op_add | Op_addi | Op_and | Op_andi | Op_auipc | Op_csrrc | Op_csrrci | Op_csrrs
  | Op_csrrsi | Op_csrrw | Op_csrrwi | Op_ebreak | Op_ecall | Op_fence | Op_fence_i | Op_lui
  | Op_or | Op_ori | Op_sll | Op_slli | Op_slt | Op_slti | Op_sltiu | Op_sltu | Op_sra
  | Op_srai | Op_srl | Op_srli | Op_sub | Op_xor | Op_xori | Op_beq | Op_bge | Op_bgeu | Op_blt
  | Op_bltu | Op_bne | Op_jal | Op_jalr | Op_div | Op_divu | Op_rem | Op_remu | Op_lb | Op_lbu
  | Op_lh | Op_lhu | Op_lw | Op_sb | Op_sh | Op_sw | Op_mul | Op_mulh | Op_mulhsu | Op_mulhu
  | Op_mret

datatype arg_src_t =
    Arg_reg | Arg_imm | Arg_disable

datatype alu_op_t =
    Alu_add | Alu_and | Alu_auipc | Alu_ebreak | Alu_ecall | Alu_fence | Alu_fence_i | Alu_lui
  | Alu_or | Alu_sll | Alu_slt | Alu_sltu | Alu_sra | Alu_srl | Alu_sub | Alu_xor

datatype bru_op_t =
    Bru_beq | Bru_bge | Bru_bgeu | Bru_blt | Bru_bltu | Bru_bne | Bru_jal | Bru_jalr | Bru_mret

datatype div_op_t =
    Div_div | Div_divu | Div_rem | Div_remu

datatype mul_op_t =
    Mul_mul | Mul_mulh | Mul_mulhsu | Mul_mulhu

datatype csr_op_t =
    Csr_csrrc | Csr_csrrs | Csr_csrrw

datatype lsu_op_t =
    Lsu_lb | Lsu_lbu | Lsu_lh | Lsu_lhu | Lsu_lw | Lsu_sb | Lsu_sh | Lsu_sw

datatype lu_op_t =
    Lu_lb | Lu_lbu | Lu_lh | Lu_lhu | Lu_lw

datatype sau_op_t =
    Sau_stab | Sau_stah | Sau_staw

datatype sdu_op_t =
    Sdu_sb | Sdu_sh | Sdu_sw

subsection \<open>Instruction fields\<close>

definition opcode_of :: "u32 \<Rightarrow> u32" where "opcode_of w = w AND 0x7f"
definition rd_of :: "u32 \<Rightarrow> u32" where "rd_of w = drop_bit 7 w AND 0x1f"
definition funct3_of :: "u32 \<Rightarrow> u32" where "funct3_of w = drop_bit 12 w AND 0x07"
definition rs1_of :: "u32 \<Rightarrow> u32" where "rs1_of w = drop_bit 15 w AND 0x1f"
definition rs2_of :: "u32 \<Rightarrow> u32" where "rs2_of w = drop_bit 20 w AND 0x1f"
definition funct7_of :: "u32 \<Rightarrow> u32" where "funct7_of w = drop_bit 25 w AND 0x7f"
definition imm_i_of :: "u32 \<Rightarrow> u32" where "imm_i_of w = drop_bit 20 w AND 0xfff"

definition imm_s_of :: "u32 \<Rightarrow> u32" where
  "imm_s_of w = (drop_bit 7 w AND 0x1f) OR push_bit 5 (drop_bit 25 w AND 0x7f)"

definition imm_b_of :: "u32 \<Rightarrow> u32" where
  "imm_b_of w = push_bit 1 (drop_bit 8 w AND 0x0f) OR push_bit 5 (drop_bit 25 w AND 0x3f) OR
     push_bit 11 (drop_bit 7 w AND 0x01) OR push_bit 12 (drop_bit 31 w AND 0x01)"

definition imm_u_of :: "u32 \<Rightarrow> u32" where "imm_u_of w = w AND NOT 0xfff"

definition imm_j_of :: "u32 \<Rightarrow> u32" where
  "imm_j_of w = push_bit 12 (drop_bit 12 w AND 0xff) OR push_bit 11 (drop_bit 20 w AND 0x01) OR
     push_bit 1 (drop_bit 21 w AND 0x3ff) OR push_bit 20 (drop_bit 31 w AND 0x01)"

end
