(* ===== verification/Isa_Decode.thy ===== *)
theory Isa_Decode
  imports Ops
begin

text \<open>
  \<^verbatim>\<open>isa_model::decode\<close> of \<^verbatim>\<open>isa_model.cpp\<close>, one definition per opcode of the outer
  \<^verbatim>\<open>switch\<close>. The union \<^verbatim>\<open>sub_op\<close> is a sum type that records which member was written
  last. The decoder writes into an \<open>isa_state_t\<close>; it leaves \<open>arg2_src\<close> as it was when
  no case sets it.
\<close>

datatype op_unit_t = Unit_alu | Unit_bru | Unit_csr | Unit_div | Unit_mul | Unit_lsu

datatype sub_op_t =
    Sub_alu alu_op_t | Sub_bru bru_op_t | Sub_div div_op_t | Sub_lsu lsu_op_t
  | Sub_mul mul_op_t | Sub_csr csr_op_t

record isa_state_t =
  i_value :: u32
  i_valid :: bool
  i_pc :: u32
  i_imm :: u32
  i_has_exception :: bool
  i_exception_id :: riscv_exception_t
  i_exception_value :: u32
  i_rs1 :: u32
  i_arg1_src :: arg_src_t
  i_src1_value :: u32
  i_rs2 :: u32
  i_arg2_src :: arg_src_t
  i_src2_value :: u32
  i_rd :: u32
  i_rd_enable :: bool
  i_rd_value :: u32
  i_csr :: u32
  i_op :: op_t
  i_op_unit :: op_unit_t
  i_sub_op :: sub_op_t

definition isa_state_make :: isa_state_t where
  "isa_state_make =
     \<lparr>i_value = 0, i_valid = False, i_pc = 0, i_imm = 0, i_has_exception = False,
      i_exception_id = instruction_address_misaligned, i_exception_value = 0,
      i_rs1 = 0, i_arg1_src = Arg_reg, i_src1_value = 0,
      i_rs2 = 0, i_arg2_src = Arg_reg, i_src2_value = 0,
      i_rd = 0, i_rd_enable = False, i_rd_value = 0, i_csr = 0,
      i_op = Op_add, i_op_unit = Unit_alu, i_sub_op = Sub_alu Alu_add\<rparr>"

definition isa_decode_init :: "isa_state_t \<Rightarrow> isa_state_t" where
  "isa_decode_init s =
     s\<lparr>i_value := 0, i_valid := \<not> i_has_exception s, i_imm := 0, i_rs1 := 0, i_arg1_src := Arg_reg,
       i_rs2 := 0, i_rd := 0, i_rd_enable := False, i_csr := 0,
       i_op := Op_add, i_op_unit := Unit_alu, i_sub_op := Sub_alu Alu_add\<rparr>"

definition isa_decode_lui :: "u32 \<Rightarrow> isa_state_t \<Rightarrow> isa_state_t" where
  "isa_decode_lui w s =
     s\<lparr>i_op := Op_lui, i_op_unit := Unit_alu, i_sub_op := Sub_alu Alu_lui,
       i_arg1_src := Arg_disable, i_arg2_src := Arg_disable, i_imm := imm_u_of w,
       i_rd := rd_of w, i_rd_enable := True\<rparr>"

definition isa_decode_auipc :: "u32 \<Rightarrow> isa_state_t \<Rightarrow> isa_state_t" where
  "isa_decode_auipc w s =
     s\<lparr>i_op := Op_auipc, i_op_unit := Unit_alu, i_sub_op := Sub_alu Alu_auipc,
       i_arg1_src := Arg_disable, i_arg2_src := Arg_disable, i_imm := imm_u_of w,
       i_rd := rd_of w, i_rd_enable := True\<rparr>"

definition isa_decode_jal :: "u32 \<Rightarrow> isa_state_t \<Rightarrow> isa_state_t option" where
  "isa_decode_jal w s =
     do {
       imm \<leftarrow> sign_extend (imm_j_of w) 21;
       Some (s\<lparr>i_op := Op_jal, i_op_unit := Unit_bru, i_sub_op := Sub_bru Bru_jal,
         i_arg1_src := Arg_disable, i_arg2_src := Arg_disable, i_imm := imm,
         i_rd := rd_of w, i_rd_enable := True\<rparr>)
     }"

definition isa_decode_jalr :: "u32 \<Rightarrow> isa_state_t \<Rightarrow> isa_state_t option" where
  "isa_decode_jalr w s =
     do {
       imm \<leftarrow> sign_extend (imm_i_of w) 12;
       Some (s\<lparr>i_op := Op_jalr, i_op_unit := Unit_bru, i_sub_op := Sub_bru Bru_jalr,
         i_arg1_src := Arg_reg, i_rs1 := rs1_of w, i_arg2_src := Arg_disable, i_imm := imm,
         i_rd := rd_of w, i_rd_enable := True\<rparr>)
     }"

definition isa_decode_branch :: "u32 \<Rightarrow> isa_state_t \<Rightarrow> isa_state_t option" where
  "isa_decode_branch w s =
     do {
       imm \<leftarrow> sign_extend (imm_b_of w) 13;
       let s' = s\<lparr>i_op_unit := Unit_bru, i_arg1_src := Arg_reg, i_rs1 := rs1_of w,
                  i_arg2_src := Arg_reg, i_rs2 := rs2_of w, i_imm := imm\<rparr>;
       Some (
         if funct3_of w = 0x0 then s'\<lparr>i_op := Op_beq, i_sub_op := Sub_bru Bru_beq\<rparr>
         else if funct3_of w = 0x1 then s'\<lparr>i_op := Op_bne, i_sub_op := Sub_bru Bru_bne\<rparr>
         else if funct3_of w = 0x4 then s'\<lparr>i_op := Op_blt, i_sub_op := Sub_bru Bru_blt\<rparr>
         else if funct3_of w = 0x5 then s'\<lparr>i_op := Op_bge, i_sub_op := Sub_bru Bru_bge\<rparr>
         else if funct3_of w = 0x6 then s'\<lparr>i_op := Op_bltu, i_sub_op := Sub_bru Bru_bltu\<rparr>
         else if funct3_of w = 0x7 then s'\<lparr>i_op := Op_bgeu, i_sub_op := Sub_bru Bru_bgeu\<rparr>
         else s'\<lparr>i_valid := False\<rparr>)
     }"

definition isa_decode_load :: "u32 \<Rightarrow> isa_state_t \<Rightarrow> isa_state_t option" where
  "isa_decode_load w s =
     do {
       imm \<leftarrow> sign_extend (imm_i_of w) 12;
       let s' = s\<lparr>i_op_unit := Unit_lsu, i_arg1_src := Arg_reg, i_rs1 := rs1_of w,
                  i_arg2_src := Arg_disable, i_imm := imm, i_rd := rd_of w, i_rd_enable := True\<rparr>;
       Some (
         if funct3_of w = 0x0 then s'\<lparr>i_op := Op_lb, i_sub_op := Sub_lsu Lsu_lb\<rparr>
         else if funct3_of w = 0x1 then s'\<lparr>i_op := Op_lh, i_sub_op := Sub_lsu Lsu_lh\<rparr>
         else if funct3_of w = 0x2 then s'\<lparr>i_op := Op_lw, i_sub_op := Sub_lsu Lsu_lw\<rparr>
         else if funct3_of w = 0x4 then s'\<lparr>i_op := Op_lbu, i_sub_op := Sub_lsu Lsu_lbu\<rparr>
         else if funct3_of w = 0x5 then s'\<lparr>i_op := Op_lhu, i_sub_op := Sub_lsu Lsu_lhu\<rparr>
         else s'\<lparr>i_valid := False\<rparr>)
     }"

definition isa_decode_store :: "u32 \<Rightarrow> isa_state_t \<Rightarrow> isa_state_t option" where
  "isa_decode_store w s =
     do {
       imm \<leftarrow> sign_extend (imm_s_of w) 12;
       let s' = s\<lparr>i_op_unit := Unit_lsu, i_arg1_src := Arg_reg, i_rs1 := rs1_of w,
                  i_arg2_src := Arg_reg, i_rs2 := rs2_of w, i_imm := imm\<rparr>;
       Some (
         if funct3_of w = 0x0 then s'\<lparr>i_op := Op_sb, i_sub_op := Sub_lsu Lsu_sb\<rparr>
         else if funct3_of w = 0x1 then s'\<lparr>i_op := Op_sh, i_sub_op := Sub_lsu Lsu_sh\<rparr>
         else if funct3_of w = 0x2 then s'\<lparr>i_op := Op_sw, i_sub_op := Sub_lsu Lsu_sw\<rparr>
         else s'\<lparr>i_valid := False\<rparr>)
     }"

definition isa_decode_op_imm :: "u32 \<Rightarrow> isa_state_t \<Rightarrow> isa_state_t option" where
  "isa_decode_op_imm w s =
     do {
       imm \<leftarrow> sign_extend (imm_i_of w) 12;
       let s' = s\<lparr>i_op_unit := Unit_alu, i_arg1_src := Arg_reg, i_rs1 := rs1_of w,
                  i_arg2_src := Arg_imm, i_imm := imm, i_rd := rd_of w, i_rd_enable := True\<rparr>;
       Some (
         if funct3_of w = 0x0 then s'\<lparr>i_op := Op_addi, i_sub_op := Sub_alu Alu_add\<rparr>
         else if funct3_of w = 0x2 then s'\<lparr>i_op := Op_slti, i_sub_op := Sub_alu Alu_slt\<rparr>
         else if funct3_of w = 0x3 then s'\<lparr>i_op := Op_sltiu, i_sub_op := Sub_alu Alu_sltu\<rparr>
         else if funct3_of w = 0x4 then s'\<lparr>i_op := Op_xori, i_sub_op := Sub_alu Alu_xor\<rparr>
         else if funct3_of w = 0x6 then s'\<lparr>i_op := Op_ori, i_sub_op := Sub_alu Alu_or\<rparr>
         else if funct3_of w = 0x7 then s'\<lparr>i_op := Op_andi, i_sub_op := Sub_alu Alu_and\<rparr>
         else if funct3_of w = 0x1 then 
           (if funct7_of w = 0x00 then s'\<lparr>i_op := Op_slli, i_sub_op := Sub_alu Alu_sll\<rparr> else s'\<lparr>i_valid := False\<rparr>)
         else if funct3_of w = 0x5 then 
           (if funct7_of w = 0x00 then s'\<lparr>i_op := Op_srli, i_sub_op := Sub_alu Alu_srl\<rparr>
            else if funct7_of w = 0x20 then s'\<lparr>i_op := Op_srai, i_sub_op := Sub_alu Alu_sra\<rparr>
            else s'\<lparr>i_valid := False\<rparr>)
         else s'\<lparr>i_valid := False\<rparr>)
     }"

definition isa_decode_op :: "u32 \<Rightarrow> isa_state_t \<Rightarrow> isa_state_t" where
  "isa_decode_op w s =
     (let s' = s\<lparr>i_op_unit := Unit_alu, i_arg1_src := Arg_reg, i_rs1 := rs1_of w,
                 i_arg2_src := Arg_reg, i_rs2 := rs2_of w, i_rd := rd_of w, i_rd_enable := True\<rparr>
      in if funct3_of w = 0x0 then 
          (if funct7_of w = 0x00 then s'\<lparr>i_op := Op_add, i_sub_op := Sub_alu Alu_add\<rparr>
           else if funct7_of w = 0x20 then s'\<lparr>i_op := Op_sub, i_sub_op := Sub_alu Alu_sub\<rparr>
           else if funct7_of w = 0x01 then s'\<lparr>i_op := Op_mul, i_op_unit := Unit_mul, i_sub_op := Sub_mul Mul_mul\<rparr>
           else s'\<lparr>i_valid := False\<rparr>)
         else if funct3_of w = 0x1 then 
          (if funct7_of w = 0x00 then s'\<lparr>i_op := Op_sll, i_sub_op := Sub_alu Alu_sll\<rparr>
           else if funct7_of w = 0x01 then s'\<lparr>i_op := Op_mulh, i_op_unit := Unit_mul, i_sub_op := Sub_mul Mul_mulh\<rparr>
           else s'\<lparr>i_valid := False\<rparr>)
         else if funct3_of w = 0x2 then 
          (if funct7_of w = 0x00 then s'\<lparr>i_op := Op_slt, i_sub_op := Sub_alu Alu_slt\<rparr>
           else if funct7_of w = 0x01 then s'\<lparr>i_op := Op_mulhsu, i_op_unit := Unit_mul, i_sub_op := Sub_mul Mul_mulhsu\<rparr>
           else s'\<lparr>i_valid := False\<rparr>)
         else if funct3_of w = 0x3 then 
          (if funct7_of w = 0x00 then s'\<lparr>i_op := Op_sltu, i_sub_op := Sub_alu Alu_sltu\<rparr>
           else if funct7_of w = 0x01 then s'\<lparr>i_op := Op_mulhu, i_op_unit := Unit_mul, i_sub_op := Sub_mul Mul_mulhu\<rparr>
           else s'\<lparr>i_valid := False\<rparr>)
         else if funct3_of w = 0x4 then 
          (if funct7_of w = 0x00 then s'\<lparr>i_op := Op_xor, i_sub_op := Sub_alu Alu_xor\<rparr>
           else if funct7_of w = 0x01 then s'\<lparr>i_op := Op_div, i_op_unit := Unit_div, i_sub_op := Sub_div Div_div\<rparr>
           else s'\<lparr>i_valid := False\<rparr>)
         else if funct3_of w = 0x5 then 
          (if funct7_of w = 0x00 then s'\<lparr>i_op := Op_srl, i_sub_op := Sub_alu Alu_srl\<rparr>
           else if funct7_of w = 0x20 then s'\<lparr>i_op := Op_sra, i_sub_op := Sub_alu Alu_sra\<rparr>
           else if funct7_of w = 0x01 then s'\<lparr>i_op := Op_divu, i_op_unit := Unit_div, i_sub_op := Sub_div Div_divu\<rparr>
           else s'\<lparr>i_valid := False\<rparr>)
         else if funct3_of w = 0x6 then 
          (if funct7_of w = 0x00 then s'\<lparr>i_op := Op_or, i_sub_op := Sub_alu Alu_or\<rparr>
           else if funct7_of w = 0x01 then s'\<lparr>i_op := Op_rem, i_op_unit := Unit_div, i_sub_op := Sub_div Div_rem\<rparr>
           else s'\<lparr>i_valid := False\<rparr>)
         else if funct3_of w = 0x7 then 
          (if funct7_of w = 0x00 then s'\<lparr>i_op := Op_and, i_sub_op := Sub_alu Alu_and\<rparr>
           else if funct7_of w = 0x01 then s'\<lparr>i_op := Op_remu, i_op_unit := Unit_div, i_sub_op := Sub_div Div_remu\<rparr>
           else s'\<lparr>i_valid := False\<rparr>)
         else s'\<lparr>i_valid := False\<rparr>)"

definition isa_decode_fence :: "u32 \<Rightarrow> isa_state_t \<Rightarrow> isa_state_t" where
  "isa_decode_fence w s =
     (if funct3_of w = 0x0 then
        (if rd_of w = 0x00 \<and> rs1_of w = 0x00 \<and> (drop_bit 28 w AND 0x0f) = 0x00
         then s\<lparr>i_op := Op_fence, i_op_unit := Unit_alu, i_sub_op := Sub_alu Alu_fence,
              i_arg1_src := Arg_disable, i_arg2_src := Arg_disable, i_imm := imm_i_of w\<rparr>
         else s\<lparr>i_valid := False\<rparr>)
      else if funct3_of w = 0x1 then
        (if rd_of w = 0x00 \<and> rs1_of w = 0x00 \<and> imm_i_of w = 0x00
         then s\<lparr>i_op := Op_fence_i, i_op_unit := Unit_alu, i_sub_op := Sub_alu Alu_fence_i,
              i_arg1_src := Arg_disable, i_arg2_src := Arg_disable\<rparr>
         else s\<lparr>i_valid := False\<rparr>)
      else s\<lparr>i_valid := False\<rparr>)"

definition isa_decode_priv :: "u32 \<Rightarrow> isa_state_t \<Rightarrow> isa_state_t" where
  "isa_decode_priv w s =
     (if rd_of w = 0x00 \<and> rs1_of w = 0x00 then
        (if funct7_of w = 0x00 then
           (if rs2_of w = 0x00
            then s\<lparr>i_op := Op_ecall, i_op_unit := Unit_alu, i_sub_op := Sub_alu Alu_ecall,
              i_arg1_src := Arg_disable, i_arg2_src := Arg_disable\<rparr>
            else if rs2_of w = 0x01
            then s\<lparr>i_op := Op_ebreak, i_op_unit := Unit_alu, i_sub_op := Sub_alu Alu_ebreak,
              i_arg1_src := Arg_disable, i_arg2_src := Arg_disable\<rparr>
            else s\<lparr>i_valid := False\<rparr>)
         else if funct7_of w = 0x18 then
           (if rs2_of w = 0x02
            then s\<lparr>i_op := Op_mret, i_op_unit := Unit_bru, i_sub_op := Sub_bru Bru_mret,
              i_arg1_src := Arg_disable, i_arg2_src := Arg_disable\<rparr>
            else s\<lparr>i_valid := False\<rparr>)
         else s\<lparr>i_valid := False\<rparr>)
      else s\<lparr>i_valid := False\<rparr>)"

definition isa_decode_system :: "u32 \<Rightarrow> isa_state_t \<Rightarrow> isa_state_t" where
  "isa_decode_system w s =
     (if funct3_of w = 0x0 then isa_decode_priv w s
      else if funct3_of w = 0x1 then 
        s\<lparr>i_op := Op_csrrw, i_op_unit := Unit_csr, i_sub_op := Sub_csr Csr_csrrw, i_arg1_src := Arg_reg, i_rs1 := rs1_of w,
          i_arg2_src := Arg_disable, i_csr := imm_i_of w, i_rd := rd_of w, i_rd_enable := True\<rparr>
      else if funct3_of w = 0x2 then 
        s\<lparr>i_op := Op_csrrs, i_op_unit := Unit_csr, i_sub_op := Sub_csr Csr_csrrs, i_arg1_src := Arg_reg, i_rs1 := rs1_of w,
          i_arg2_src := Arg_disable, i_csr := imm_i_of w, i_rd := rd_of w, i_rd_enable := True\<rparr>
      else if funct3_of w = 0x3 then 
        s\<lparr>i_op := Op_csrrc, i_op_unit := Unit_csr, i_sub_op := Sub_csr Csr_csrrc, i_arg1_src := Arg_reg, i_rs1 := rs1_of w,
          i_arg2_src := Arg_disable, i_csr := imm_i_of w, i_rd := rd_of w, i_rd_enable := True\<rparr>
      else if funct3_of w = 0x5 then 
        s\<lparr>i_op := Op_csrrwi, i_op_unit := Unit_csr, i_sub_op := Sub_csr Csr_csrrw, i_arg1_src := Arg_imm, i_imm := rs1_of w,
          i_arg2_src := Arg_disable, i_csr := imm_i_of w, i_rd := rd_of w, i_rd_enable := True\<rparr>
      else if funct3_of w = 0x6 then 
        s\<lparr>i_op := Op_csrrsi, i_op_unit := Unit_csr, i_sub_op := Sub_csr Csr_csrrs, i_arg1_src := Arg_imm, i_imm := rs1_of w,
          i_arg2_src := Arg_disable, i_csr := imm_i_of w, i_rd := rd_of w, i_rd_enable := True\<rparr>
      else if funct3_of w = 0x7 then 
        s\<lparr>i_op := Op_csrrci, i_op_unit := Unit_csr, i_sub_op := Sub_csr Csr_csrrc, i_arg1_src := Arg_imm, i_imm := rs1_of w,
          i_arg2_src := Arg_disable, i_csr := imm_i_of w, i_rd := rd_of w, i_rd_enable := True\<rparr>
      else s\<lparr>i_valid := False\<rparr>)"

definition isa_decode_opcode :: "u32 \<Rightarrow> isa_state_t \<Rightarrow> isa_state_t option" where
  "isa_decode_opcode w s =
     (if opcode_of w = 0x37 then Some (isa_decode_lui w s)
      else if opcode_of w = 0x17 then Some (isa_decode_auipc w s)
      else if opcode_of w = 0x6f then isa_decode_jal w s
      else if opcode_of w = 0x67 then isa_decode_jalr w s
      else if opcode_of w = 0x63 then isa_decode_branch w s
      else if opcode_of w = 0x03 then isa_decode_load w s
      else if opcode_of w = 0x23 then isa_decode_store w s
      else if opcode_of w = 0x13 then isa_decode_op_imm w s
      else if opcode_of w = 0x33 then Some (isa_decode_op w s)
      else if opcode_of w = 0x0f then Some (isa_decode_fence w s)
      else if opcode_of w = 0x73 then Some (isa_decode_system w s)
      else Some (s\<lparr>i_valid := False\<rparr>))"

definition isa_decode :: "isa_state_t \<Rightarrow> isa_state_t option" where
  "isa_decode s = isa_decode_opcode (i_value s) (isa_decode_init s)"

end
