(* ===== verification/Isa_Csr.thy ===== *)
theory Isa_Csr
  imports Common
begin

text \<open>
  The CSRs of the ISA model: \<^verbatim>\<open>isa_model/component/csr_base.h\<close>, the register classes under
  \<^verbatim>\<open>isa_model/component/csr/\<close>, \<^verbatim>\<open>csrfile.h\<close>, \<^verbatim>\<open>csr_all.h\<close> and
  \<^verbatim>\<open>interrupt_interface.h\<close>.

  A register object is its class, its initial value and its value; the class selects the
  virtual functions \<^verbatim>\<open>filter\<close> and \<^verbatim>\<open>read\<close>. The static objects of \<^verbatim>\<open>csr_inst\<close> are the
  ones the constructor of the ISA model puts into the table under their address, so
  \<^verbatim>\<open>csr_inst::mepc.write(v)\<close> is a write to the entry \<open>CSR_MEPC\<close>. The two character queues
  are shared with a terminal thread: what is sent is a stream that only grows, what was
  received is a list whose head is the front. Printing is not modelled.
\<close>

subsection \<open>Register classes\<close>

datatype csr_class =
    marchid | mcause | mconfigptr | mcounteren | mcycle | mcycleh | mepc | mhartid | mie | mimpid
  | minstret | minstreth | mip | misa | mscratch | mstatus | mstatush | mtval | mtvec | mvendorid
  | pmpaddr | pmpcfg | charfifo | finish | mhpmcounter | mhpmcounterh

fun csr_init_value :: "csr_class \<Rightarrow> u32" where
  "csr_init_value marchid = 0x19981001"
| "csr_init_value mimpid = 0x20220201"
| "csr_init_value misa = 0x40001100"
| "csr_init_value finish = 0xFFFFFFFF"
| "csr_init_value _ = 0"

fun csr_filter :: "csr_class \<Rightarrow> u32 \<Rightarrow> u32" where
  "csr_filter mstatus v = v AND 0x88"
| "csr_filter mie v = v AND 0x888"
| "csr_filter mip v = v AND 0x888"
| "csr_filter mcounteren v = v AND 0x07"
| "csr_filter mepc v = v AND NOT 0x03"
| "csr_filter mtvec v = v AND NOT 0x03"
| "csr_filter mstatush v = 0"
| "csr_filter pmpaddr v = 0"
| "csr_filter pmpcfg v = 0"
| "csr_filter charfifo v = 0"
| "csr_filter _ v = v"

record csr_base =
  csr_cls :: csr_class
  csr_value :: u32

definition csr_make :: "csr_class \<Rightarrow> csr_base" where
  "csr_make c = \<lparr>csr_cls = c, csr_value = csr_init_value c\<rparr>"

definition csr_reset :: "csr_base \<Rightarrow> csr_base" where
  "csr_reset c = c\<lparr>csr_value := csr_init_value (csr_cls c)\<rparr>"

text \<open>The queues behind \<^verbatim>\<open>charfifo\<close>; a \<^verbatim>\<open>char\<close> is signed.\<close>

record char_io =
  send_fifo :: "8 word list"
  rev_fifo :: "8 word list"

definition charfifo_filter :: "u32 \<Rightarrow> char_io \<Rightarrow> char_io" where
  "charfifo_filter v io =
     (if v AND 0x80000000 \<noteq> 0
      then (if rev_fifo io \<noteq> [] then io\<lparr>rev_fifo := tl (rev_fifo io)\<rparr> else io)
      else io\<lparr>send_fifo := send_fifo io @ [ucast (v AND 0xff)]\<rparr>)"

definition csr_write :: "u32 \<Rightarrow> csr_base \<times> char_io \<Rightarrow> csr_base \<times> char_io" where
  "csr_write v c =
     ((fst c)\<lparr>csr_value := csr_filter (csr_cls (fst c)) v\<rparr>,
      if csr_cls (fst c) = charfifo then charfifo_filter v (snd c) else snd c)"

definition csr_read :: "csr_base \<Rightarrow> char_io \<Rightarrow> u32" where
  "csr_read c io =
     (if csr_cls c = charfifo
      then (case rev_fifo io of [] \<Rightarrow> 0 | ch # _ \<Rightarrow> 0x80000000 OR scast ch)
      else csr_value c)"

text \<open>
  \<^verbatim>\<open>setbit\<close> and \<^verbatim>\<open>getbit\<close> on a local copy of a register, as the interrupt code uses
  them after \<^verbatim>\<open>load\<close>.
\<close>

definition csr_setbit :: "csr_class \<Rightarrow> nat \<Rightarrow> bool \<Rightarrow> u32 \<Rightarrow> u32" where
  "csr_setbit c n v x =
     csr_filter c ((x AND NOT (push_bit n 1)) OR push_bit n (if v then 1 else 0))"

definition csr_getbit :: "nat \<Rightarrow> u32 \<Rightarrow> bool" where
  "csr_getbit n x \<longleftrightarrow> x AND push_bit n 1 \<noteq> 0"

definition mstatus_set_mie :: "bool \<Rightarrow> u32 \<Rightarrow> u32" where "mstatus_set_mie = csr_setbit mstatus 3"
definition mstatus_get_mie :: "u32 \<Rightarrow> bool" where "mstatus_get_mie = csr_getbit 3"
definition mstatus_set_mpie :: "bool \<Rightarrow> u32 \<Rightarrow> u32" where "mstatus_set_mpie = csr_setbit mstatus 7"
definition mstatus_get_mpie :: "u32 \<Rightarrow> bool" where "mstatus_get_mpie = csr_getbit 7"
definition mie_get_msie :: "u32 \<Rightarrow> bool" where "mie_get_msie = csr_getbit 3"
definition mie_get_mtie :: "u32 \<Rightarrow> bool" where "mie_get_mtie = csr_getbit 7"
definition mie_get_meie :: "u32 \<Rightarrow> bool" where "mie_get_meie = csr_getbit 11"
definition mip_set_msip :: "bool \<Rightarrow> u32 \<Rightarrow> u32" where "mip_set_msip = csr_setbit mip 3"
definition mip_set_mtip :: "bool \<Rightarrow> u32 \<Rightarrow> u32" where "mip_set_mtip = csr_setbit mip 7"
definition mip_set_meip :: "bool \<Rightarrow> u32 \<Rightarrow> u32" where "mip_set_meip = csr_setbit mip 11"

lemmas csr_bit_defs =
  mstatus_set_mie_def mstatus_get_mie_def mstatus_set_mpie_def mstatus_get_mpie_def
  mie_get_msie_def mie_get_mtie_def mie_get_meie_def
  mip_set_msip_def mip_set_mtip_def mip_set_meip_def

subsection \<open>The CSR file\<close>

record csr_item_t =
  csr_readonly :: bool
  csr_obj :: csr_base

text \<open>An address without an entry is one whose \<^verbatim>\<open>enable\<close> is false.\<close>

record csrfile =
  csr_map_table :: "u32 \<rightharpoonup> csr_item_t"
  csr_io :: char_io

definition CSR_TABLE_SIZE :: u32 where "CSR_TABLE_SIZE = 4096"

definition csrfile_make :: "8 word list \<Rightarrow> 8 word list \<Rightarrow> csrfile" where
  "csrfile_make s r = \<lparr>csr_map_table = Map.empty, csr_io = \<lparr>send_fifo = s, rev_fifo = r\<rparr>\<rparr>"

definition csrfile_enabled :: "csrfile \<Rightarrow> u32 \<Rightarrow> bool" where
  "csrfile_enabled f addr \<longleftrightarrow> addr < CSR_TABLE_SIZE \<and> csr_map_table f addr \<noteq> None"

definition csrfile_reset :: "csrfile \<Rightarrow> csrfile" where
  "csrfile_reset f = f\<lparr>csr_map_table :=
     (\<lambda>a. map_option (\<lambda>i. i\<lparr>csr_obj := csr_reset (csr_obj i)\<rparr>) (csr_map_table f a))\<rparr>"

definition csrfile_map :: "u32 \<Rightarrow> bool \<Rightarrow> csr_base \<Rightarrow> csrfile \<Rightarrow> csrfile option" where
  "csrfile_map addr ro c f =
     do {
       verify (addr < CSR_TABLE_SIZE);
       verify (csr_map_table f addr = None);
       Some (f\<lparr>csr_map_table := (csr_map_table f)(addr \<mapsto> \<lparr>csr_readonly = ro, csr_obj = c\<rparr>)\<rparr>)
     }"

definition csrfile_store :: "u32 \<Rightarrow> u32 \<Rightarrow> csrfile \<Rightarrow> csrfile" where
  "csrfile_store addr v f =
     (case csr_map_table f addr of
        None \<Rightarrow> f
      | Some i \<Rightarrow>
          (case csr_write v (csr_obj i, csr_io f) of (c, io) \<Rightarrow>
             f\<lparr>csr_map_table := (csr_map_table f)(addr \<mapsto> i\<lparr>csr_obj := c\<rparr>), csr_io := io\<rparr>))"

definition csrfile_load :: "u32 \<Rightarrow> csrfile \<Rightarrow> u32" where
  "csrfile_load addr f =
     (case csr_map_table f addr of None \<Rightarrow> 0 | Some i \<Rightarrow> csr_read (csr_obj i) (csr_io f))"

definition csrfile_write_sys :: "u32 \<Rightarrow> u32 \<Rightarrow> csrfile \<Rightarrow> csrfile option" where
  "csrfile_write_sys addr v f =
     do { verify (csrfile_enabled f addr); Some (csrfile_store addr v f) }"

definition csrfile_read_sys :: "u32 \<Rightarrow> csrfile \<Rightarrow> u32 option" where
  "csrfile_read_sys addr f =
     do { verify (csrfile_enabled f addr); Some (csrfile_load addr f) }"

definition csrfile_write_check :: "u32 \<Rightarrow> u32 \<Rightarrow> csrfile \<Rightarrow> bool" where
  "csrfile_write_check addr v f =
     (if \<not> csrfile_enabled f addr then False
      else if csr_readonly (the (csr_map_table f addr)) then False
      else True)"

definition csrfile_write :: "u32 \<Rightarrow> u32 \<Rightarrow> csrfile \<Rightarrow> bool \<times> csrfile" where
  "csrfile_write addr v f =
     (if \<not> csrfile_write_check addr v f then (False, f) else (True, csrfile_store addr v f))"

definition csrfile_read :: "u32 \<Rightarrow> csrfile \<Rightarrow> u32 option" where
  "csrfile_read addr f =
     (if \<not> csrfile_enabled f addr then None else Some (csrfile_load addr f))"

subsection \<open>Addresses\<close>

definition CSR_MVENDORID :: u32 where "CSR_MVENDORID = 0xf11"
definition CSR_MARCHID :: u32 where "CSR_MARCHID = 0xf12"
definition CSR_MIMPID :: u32 where "CSR_MIMPID = 0xf13"
definition CSR_MHARTID :: u32 where "CSR_MHARTID = 0xf14"
definition CSR_MCONFIGPTR :: u32 where "CSR_MCONFIGPTR = 0xf15"
definition CSR_MSTATUS :: u32 where "CSR_MSTATUS = 0x300"
definition CSR_MISA :: u32 where "CSR_MISA = 0x301"
definition CSR_MIE :: u32 where "CSR_MIE = 0x304"
definition CSR_MTVEC :: u32 where "CSR_MTVEC = 0x305"
definition CSR_MCOUNTEREN :: u32 where "CSR_MCOUNTEREN = 0x306"
definition CSR_MSTATUSH :: u32 where "CSR_MSTATUSH = 0x310"
definition CSR_MSCRATCH :: u32 where "CSR_MSCRATCH = 0x340"
definition CSR_MEPC :: u32 where "CSR_MEPC = 0x341"
definition CSR_MCAUSE :: u32 where "CSR_MCAUSE = 0x342"
definition CSR_MTVAL :: u32 where "CSR_MTVAL = 0x343"
definition CSR_MIP :: u32 where "CSR_MIP = 0x344"
definition CSR_CHARFIFO :: u32 where "CSR_CHARFIFO = 0x800"
definition CSR_FINISH :: u32 where "CSR_FINISH = 0x804"
definition CSR_MCYCLE :: u32 where "CSR_MCYCLE = 0xB00"
definition CSR_MINSTRET :: u32 where "CSR_MINSTRET = 0xB02"
definition CSR_MCYCLEH :: u32 where "CSR_MCYCLEH = 0xB80"
definition CSR_MINSTRETH :: u32 where "CSR_MINSTRETH = 0xB82"
definition CSR_BRANCHNUM :: u32 where "CSR_BRANCHNUM = 0xB03"
definition CSR_BRANCHNUMH :: u32 where "CSR_BRANCHNUMH = 0xB83"
definition CSR_BRANCHPREDICTED :: u32 where "CSR_BRANCHPREDICTED = 0xB04"
definition CSR_BRANCHPREDICTEDH :: u32 where "CSR_BRANCHPREDICTEDH = 0xB84"
definition CSR_BRANCHHIT :: u32 where "CSR_BRANCHHIT = 0xB05"
definition CSR_BRANCHHITH :: u32 where "CSR_BRANCHHITH = 0xB85"
definition CSR_BRANCHMISS :: u32 where "CSR_BRANCHMISS = 0xB06"
definition CSR_BRANCHMISSH :: u32 where "CSR_BRANCHMISSH = 0xB86"

lemmas csr_addr_defs [model_defs] =
  CSR_MVENDORID_def CSR_MARCHID_def CSR_MIMPID_def CSR_MHARTID_def CSR_MCONFIGPTR_def
  CSR_MSTATUS_def CSR_MISA_def CSR_MIE_def CSR_MTVEC_def CSR_MCOUNTEREN_def CSR_MSTATUSH_def
  CSR_MSCRATCH_def CSR_MEPC_def CSR_MCAUSE_def CSR_MTVAL_def CSR_MIP_def CSR_CHARFIFO_def
  CSR_FINISH_def CSR_MCYCLE_def CSR_MINSTRET_def CSR_MCYCLEH_def CSR_MINSTRETH_def
  CSR_BRANCHNUM_def CSR_BRANCHNUMH_def CSR_BRANCHPREDICTED_def CSR_BRANCHPREDICTEDH_def
  CSR_BRANCHHIT_def CSR_BRANCHHITH_def CSR_BRANCHMISS_def CSR_BRANCHMISSH_def

subsection \<open>The interrupt interface\<close>

record interrupt_interface =
  ii_meip :: bool
  ii_msip :: bool
  ii_mtip :: bool

definition interrupt_make :: interrupt_interface where
  "interrupt_make = \<lparr>ii_meip = False, ii_msip = False, ii_mtip = False\<rparr>"

definition interrupt_get_cause ::
    "interrupt_interface \<Rightarrow> csrfile \<Rightarrow> riscv_interrupt_t option option" where
  "interrupt_get_cause ii f =
     do {
       mie_v \<leftarrow> csrfile_read_sys CSR_MIE f;
       mstatus_v \<leftarrow> csrfile_read_sys CSR_MSTATUS f;
       Some (if \<not> mstatus_get_mie mstatus_v then None
             else if ii_meip ii \<and> mie_get_meie mie_v then Some machine_external
             else if ii_msip ii \<and> mie_get_msie mie_v then Some machine_software
             else if ii_mtip ii \<and> mie_get_mtie mie_v then Some machine_timer
             else None)
     }"

definition interrupt_has_interrupt :: "interrupt_interface \<Rightarrow> csrfile \<Rightarrow> bool option" where
  "interrupt_has_interrupt ii f =
     do {
       mie_v \<leftarrow> csrfile_read_sys CSR_MIE f;
       mstatus_v \<leftarrow> csrfile_read_sys CSR_MSTATUS f;
       Some (mstatus_get_mie mstatus_v \<and>
             ((ii_meip ii \<and> mie_get_meie mie_v) \<or> (ii_msip ii \<and> mie_get_msie mie_v) \<or>
              (ii_mtip ii \<and> mie_get_mtie mie_v)))
     }"

fun interrupt_set_pending ::
    "riscv_interrupt_t \<Rightarrow> bool \<Rightarrow> interrupt_interface \<Rightarrow> interrupt_interface option" where
  "interrupt_set_pending machine_external pending ii = Some (ii\<lparr>ii_meip := pending\<rparr>)"
| "interrupt_set_pending machine_software pending ii = Some (ii\<lparr>ii_msip := pending\<rparr>)"
| "interrupt_set_pending machine_timer pending ii = Some (ii\<lparr>ii_mtip := pending\<rparr>)"
| "interrupt_set_pending _ pending ii = None"

definition interrupt_run :: "interrupt_interface \<Rightarrow> csrfile \<Rightarrow> csrfile option" where
  "interrupt_run ii f =
     do {
       mip_v \<leftarrow> csrfile_read_sys CSR_MIP f;
       csrfile_write_sys CSR_MIP
         (mip_set_mtip (ii_mtip ii) (mip_set_msip (ii_msip ii) (mip_set_meip (ii_meip ii) mip_v))) f
     }"

end
