(* ===== verification/Isa_Bus.thy ===== *)
theory Isa_Bus
  imports Isa_Csr
begin

text \<open>
  The bus of the ISA model and its two slaves: \<^verbatim>\<open>isa_model/component/slave_base.h\<close>,
  \<^verbatim>\<open>slave/memory.h\<close>, \<^verbatim>\<open>slave/clint.h\<close>, \<^verbatim>\<open>bus.h\<close>, and the register file
  \<^verbatim>\<open>isa_model/component/regfile.h\<close>.

  The slave objects the bus points to are kept in the bus record, and an entry of the
  slave list names the object. Memory is the byte array of the slave, indexed by the
  address relative to its base; 16 and 32 bit accesses go through a pointer cast, which on
  the little-endian host reads and writes the bytes in increasing order.
\<close>

subsection \<open>Slaves\<close>

definition slave_check :: "u32 \<Rightarrow> u32 \<Rightarrow> u32 \<Rightarrow> unit option" where
  "slave_check sz addr access_size =
     do {
       verify (addr AND (access_size - 1) = 0);
       verify (addr < sz);
       verify (sz - addr \<ge> access_size)
     }"

record memory =
  mem_size :: u32
  mem :: "u32 \<Rightarrow> u8"

definition memory_init :: "u32 \<Rightarrow> memory" where
  "memory_init sz = \<lparr>mem_size = sz, mem = (\<lambda>_. 0)\<rparr>"

definition memory_reset :: "memory \<Rightarrow> memory" where
  "memory_reset m = m\<lparr>mem := (\<lambda>_. 0)\<rparr>"

definition memory_write8 :: "u32 \<Rightarrow> u8 \<Rightarrow> memory \<Rightarrow> memory" where
  "memory_write8 addr v m = m\<lparr>mem := (mem m)(addr := v)\<rparr>"

definition memory_write16 :: "u32 \<Rightarrow> u16 \<Rightarrow> memory \<Rightarrow> memory" where
  "memory_write16 addr v m =
     m\<lparr>mem := (mem m)(addr := ucast v, addr + 1 := ucast (drop_bit 8 v))\<rparr>"

definition memory_write32 :: "u32 \<Rightarrow> u32 \<Rightarrow> memory \<Rightarrow> memory" where
  "memory_write32 addr v m =
     m\<lparr>mem := (mem m)(addr := ucast v, addr + 1 := ucast (drop_bit 8 v),
                      addr + 2 := ucast (drop_bit 16 v), addr + 3 := ucast (drop_bit 24 v))\<rparr>"

definition memory_read8 :: "u32 \<Rightarrow> memory \<Rightarrow> u8" where
  "memory_read8 addr m = mem m addr"

definition memory_read16 :: "u32 \<Rightarrow> memory \<Rightarrow> u16" where
  "memory_read16 addr m = ucast (mem m addr) OR push_bit 8 (ucast (mem m (addr + 1)))"

definition memory_read32 :: "u32 \<Rightarrow> memory \<Rightarrow> u32" where
  "memory_read32 addr m =
     ucast (mem m addr) OR push_bit 8 (ucast (mem m (addr + 1))) OR
     push_bit 16 (ucast (mem m (addr + 2))) OR push_bit 24 (ucast (mem m (addr + 3)))"

record clint =
  clint_size :: u32
  clint_msip :: bool
  mtimecmp :: u64
  mtime :: u64
  mtime_changed :: bool

definition MSIP_ADDR :: u32 where "MSIP_ADDR = 0x0"
definition MTIMECMP_ADDR :: u32 where "MTIMECMP_ADDR = 0x4000"
definition MTIME_ADDR :: u32 where "MTIME_ADDR = 0xBFF8"

lemmas clint_addr_defs [model_defs] = MSIP_ADDR_def MTIMECMP_ADDR_def MTIME_ADDR_def

definition clint_reset :: "clint \<Rightarrow> clint" where
  "clint_reset c = c\<lparr>clint_msip := False, mtimecmp := 0, mtime := 0, mtime_changed := False\<rparr>"

definition clint_init :: "u32 \<Rightarrow> clint" where
  "clint_init sz =
     \<lparr>clint_size = sz, clint_msip = False, mtimecmp = 0, mtime = 0, mtime_changed = False\<rparr>"

definition clint_write32 :: "u32 \<Rightarrow> u32 \<Rightarrow> clint \<Rightarrow> clint" where
  "clint_write32 addr v c =
     (if addr = MSIP_ADDR then c\<lparr>clint_msip := (v AND 0x01 \<noteq> 0)\<rparr>
      else if addr = MTIMECMP_ADDR
      then c\<lparr>mtimecmp := (mtimecmp c AND 0xFFFFFFFF00000000) OR ucast v\<rparr>
      else if addr = MTIMECMP_ADDR + 4
      then c\<lparr>mtimecmp := (mtimecmp c AND 0xFFFFFFFF) OR push_bit 32 (ucast v)\<rparr>
      else if addr = MTIME_ADDR
      then c\<lparr>mtime := (mtime c AND 0xFFFFFFFF00000000) OR ucast v\<rparr>
      else if addr = MTIME_ADDR + 4
      then c\<lparr>mtime := (mtime c AND 0xFFFFFFFF) OR push_bit 32 (ucast v)\<rparr>
      else c)"

definition clint_read32 :: "u32 \<Rightarrow> clint \<Rightarrow> u32" where
  "clint_read32 addr c =
     (if addr = MSIP_ADDR then (if clint_msip c then 1 else 0)
      else if addr = MTIMECMP_ADDR then ucast (mtimecmp c AND 0xFFFFFFFF)
      else if addr = MTIMECMP_ADDR + 4 then ucast (drop_bit 32 (mtimecmp c))
      else if addr = MTIME_ADDR then ucast (mtime c AND 0xFFFFFFFF)
      else if addr = MTIME_ADDR + 4 then ucast (drop_bit 32 (mtime c))
      else 0)"

definition clint_set_mtime :: "u64 \<Rightarrow> clint \<Rightarrow> clint" where
  "clint_set_mtime v c = c\<lparr>mtime := v, mtime_changed := True\<rparr>"

definition clint_set_mtimecmp :: "u64 \<Rightarrow> clint \<Rightarrow> clint" where
  "clint_set_mtimecmp v c = c\<lparr>mtimecmp := v\<rparr>"

definition clint_set_msip :: "u32 \<Rightarrow> clint \<Rightarrow> clint" where
  "clint_set_msip v c = c\<lparr>clint_msip := (v \<noteq> 0)\<rparr>"

definition clint_tick :: "clint \<Rightarrow> clint" where
  "clint_tick c =
     (if \<not> mtime_changed c then c\<lparr>mtime := mtime c + 1, mtime_changed := False\<rparr> else c)"

definition clint_run :: "clint \<Rightarrow> interrupt_interface \<Rightarrow> (clint \<times> interrupt_interface) option" where
  "clint_run c ii =
     do {
       let c' = clint_tick c;
       ii1 \<leftarrow> interrupt_set_pending machine_timer (mtime c' \<ge> mtimecmp c') ii;
       ii2 \<leftarrow> interrupt_set_pending machine_software (clint_msip c') ii1;
       Some (c', ii2)
     }"

subsection \<open>The bus\<close>

datatype slave_obj = Slave_memory | Slave_clint

record slave_info_t =
  si_base :: u32
  si_size :: u32
  si_slave :: slave_obj
  si_support_fetch :: bool

record error_msg_t =
  err_addr :: u32
  err_size :: u32
  err_value :: u32
  err_is_write :: bool
  err_is_fetch :: bool

record isa_bus =
  slave_info_list :: "slave_info_t list"
  error_msg_queue :: "error_msg_t list"
  bus_memory :: memory
  bus_clint :: clint

definition in_slave :: "u32 \<Rightarrow> slave_info_t \<Rightarrow> bool" where
  "in_slave addr s \<longleftrightarrow> addr \<ge> si_base s \<and> addr < si_base s + si_size s"

definition check_addr_override :: "u32 \<Rightarrow> u32 \<Rightarrow> isa_bus \<Rightarrow> bool" where
  "check_addr_override base sz b \<longleftrightarrow>
     (\<exists>s \<in> set (slave_info_list b).
        (base \<ge> si_base s \<and> base < si_base s + si_size s) \<or> (base < si_base s \<and> base + sz > si_base s))"

definition find_slave_info :: "u32 \<Rightarrow> bool \<Rightarrow> isa_bus \<Rightarrow> slave_info_t option" where
  "find_slave_info addr is_fetch b =
     List.find (\<lambda>s. in_slave addr s \<and> (\<not> is_fetch \<or> si_support_fetch s)) (slave_info_list b)"

definition get_slave_obj :: "u32 \<Rightarrow> bool \<Rightarrow> isa_bus \<Rightarrow> slave_obj option" where
  "get_slave_obj addr is_fetch b = map_option si_slave (find_slave_info addr is_fetch b)"

definition convert_to_slave_addr :: "u32 \<Rightarrow> bool \<Rightarrow> isa_bus \<Rightarrow> u32" where
  "convert_to_slave_addr addr is_fetch b =
     (case find_slave_info addr is_fetch b of None \<Rightarrow> addr | Some s \<Rightarrow> addr - si_base s)"

definition bus_make :: isa_bus where
  "bus_make = \<lparr>slave_info_list = [], error_msg_queue = [],
               bus_memory = memory_init 0, bus_clint = clint_init 0\<rparr>"

fun slave_init :: "slave_obj \<Rightarrow> u32 \<Rightarrow> isa_bus \<Rightarrow> isa_bus" where
  "slave_init Slave_memory sz b = b\<lparr>bus_memory := memory_init sz\<rparr>"
| "slave_init Slave_clint sz b = b\<lparr>bus_clint := (bus_clint b)\<lparr>clint_size := sz\<rparr>\<rparr>"

definition bus_map :: "u32 \<Rightarrow> u32 \<Rightarrow> slave_obj \<Rightarrow> bool \<Rightarrow> isa_bus \<Rightarrow> isa_bus option" where
  "bus_map base sz slave support_fetch b =
     do {
       verify (\<not> check_addr_override base sz b);
       let b' = slave_init slave sz b;
       Some (b'\<lparr>slave_info_list := slave_info_list b' @
         [\<lparr>si_base = base, si_size = sz, si_slave = slave, si_support_fetch = support_fetch\<rparr>]\<rparr>)
     }"

definition bus_error :: "u32 \<Rightarrow> u32 \<Rightarrow> u32 \<Rightarrow> bool \<Rightarrow> bool \<Rightarrow> isa_bus \<Rightarrow> isa_bus" where
  "bus_error addr sz v is_write is_fetch b =
     b\<lparr>error_msg_queue := error_msg_queue b @
       [\<lparr>err_addr = addr, err_size = sz, err_value = v, err_is_write = is_write,
         err_is_fetch = is_fetch\<rparr>]\<rparr>"

fun slave_write8 :: "slave_obj \<Rightarrow> u32 \<Rightarrow> u8 \<Rightarrow> isa_bus \<Rightarrow> isa_bus option" where
  "slave_write8 Slave_memory addr v b =
     do { slave_check (mem_size (bus_memory b)) addr 1;
          Some (b\<lparr>bus_memory := memory_write8 addr v (bus_memory b)\<rparr>) }"
| "slave_write8 Slave_clint addr v b =
     do { slave_check (clint_size (bus_clint b)) addr 1; Some b }"

fun slave_write16 :: "slave_obj \<Rightarrow> u32 \<Rightarrow> u16 \<Rightarrow> isa_bus \<Rightarrow> isa_bus option" where
  "slave_write16 Slave_memory addr v b =
     do { slave_check (mem_size (bus_memory b)) addr 2;
          Some (b\<lparr>bus_memory := memory_write16 addr v (bus_memory b)\<rparr>) }"
| "slave_write16 Slave_clint addr v b =
     do { slave_check (clint_size (bus_clint b)) addr 2; Some b }"

fun slave_write32 :: "slave_obj \<Rightarrow> u32 \<Rightarrow> u32 \<Rightarrow> isa_bus \<Rightarrow> isa_bus option" where
  "slave_write32 Slave_memory addr v b =
     do { slave_check (mem_size (bus_memory b)) addr 4;
          Some (b\<lparr>bus_memory := memory_write32 addr v (bus_memory b)\<rparr>) }"
| "slave_write32 Slave_clint addr v b =
     do { slave_check (clint_size (bus_clint b)) addr 4;
          Some (b\<lparr>bus_clint := clint_write32 addr v (bus_clint b)\<rparr>) }"

fun slave_read8 :: "slave_obj \<Rightarrow> u32 \<Rightarrow> isa_bus \<Rightarrow> u8 option" where
  "slave_read8 Slave_memory addr b =
     do { slave_check (mem_size (bus_memory b)) addr 1; Some (memory_read8 addr (bus_memory b)) }"
| "slave_read8 Slave_clint addr b =
     do { slave_check (clint_size (bus_clint b)) addr 1; Some 0 }"

fun slave_read16 :: "slave_obj \<Rightarrow> u32 \<Rightarrow> isa_bus \<Rightarrow> u16 option" where
  "slave_read16 Slave_memory addr b =
     do { slave_check (mem_size (bus_memory b)) addr 2; Some (memory_read16 addr (bus_memory b)) }"
| "slave_read16 Slave_clint addr b =
     do { slave_check (clint_size (bus_clint b)) addr 2; Some 0 }"

fun slave_read32 :: "slave_obj \<Rightarrow> u32 \<Rightarrow> isa_bus \<Rightarrow> u32 option" where
  "slave_read32 Slave_memory addr b =
     do { slave_check (mem_size (bus_memory b)) addr 4; Some (memory_read32 addr (bus_memory b)) }"
| "slave_read32 Slave_clint addr b =
     do { slave_check (clint_size (bus_clint b)) addr 4; Some (clint_read32 addr (bus_clint b)) }"

definition bus_write8 :: "u32 \<Rightarrow> u8 \<Rightarrow> isa_bus \<Rightarrow> isa_bus option" where
  "bus_write8 addr v b =
     (case find_slave_info addr False b of
        Some s \<Rightarrow> slave_write8 (si_slave s) (addr - si_base s) v b
      | None \<Rightarrow> Some (bus_error addr 1 (ucast v) True False b))"

definition bus_write16 :: "u32 \<Rightarrow> u16 \<Rightarrow> isa_bus \<Rightarrow> isa_bus option" where
  "bus_write16 addr v b =
     (case find_slave_info addr False b of
        Some s \<Rightarrow> slave_write16 (si_slave s) (addr - si_base s) v b
      | None \<Rightarrow> Some (bus_error addr 2 (ucast v) True False b))"

definition bus_write32 :: "u32 \<Rightarrow> u32 \<Rightarrow> isa_bus \<Rightarrow> isa_bus option" where
  "bus_write32 addr v b =
     (case find_slave_info addr False b of
        Some s \<Rightarrow> slave_write32 (si_slave s) (addr - si_base s) v b
      | None \<Rightarrow> Some (bus_error addr 4 v True False b))"

definition bus_read8 :: "u32 \<Rightarrow> bool \<Rightarrow> isa_bus \<Rightarrow> (u8 \<times> isa_bus) option" where
  "bus_read8 addr is_fetch b =
     (case find_slave_info addr is_fetch b of
        Some s \<Rightarrow> do { v \<leftarrow> slave_read8 (si_slave s) (addr - si_base s) b; Some (v, b) }
      | None \<Rightarrow> Some (0, bus_error addr 1 0 False is_fetch b))"

definition bus_read16 :: "u32 \<Rightarrow> bool \<Rightarrow> isa_bus \<Rightarrow> (u16 \<times> isa_bus) option" where
  "bus_read16 addr is_fetch b =
     (case find_slave_info addr is_fetch b of
        Some s \<Rightarrow> do { v \<leftarrow> slave_read16 (si_slave s) (addr - si_base s) b; Some (v, b) }
      | None \<Rightarrow> Some (0, bus_error addr 2 0 False is_fetch b))"

text \<open>\<^verbatim>\<open>read32\<close> looks the slave up with \<^verbatim>\<open>is_fetch\<close> false whatever its argument is.\<close>

definition bus_read32 :: "u32 \<Rightarrow> bool \<Rightarrow> isa_bus \<Rightarrow> (u32 \<times> isa_bus) option" where
  "bus_read32 addr is_fetch b =
     (case find_slave_info addr False b of
        Some s \<Rightarrow> do { v \<leftarrow> slave_read32 (si_slave s) (addr - si_base s) b; Some (v, b) }
      | None \<Rightarrow> Some (0, bus_error addr 4 0 False is_fetch b))"

subsection \<open>The architectural register file\<close>

definition arch_regfile_reset :: "u32 list \<Rightarrow> u32 list" where
  "arch_regfile_reset r = map (\<lambda>_. 0) r"

definition arch_regfile_make :: "nat \<Rightarrow> u32 list" where
  "arch_regfile_make n = arch_regfile_reset (replicate n 0)"

definition arch_regfile_write :: "u32 \<Rightarrow> u32 \<Rightarrow> u32 list \<Rightarrow> u32 list option" where
  "arch_regfile_write addr v r =
     do { verify (unat addr < length r); Some (r[unat addr := v]) }"

definition arch_regfile_read :: "u32 \<Rightarrow> u32 list \<Rightarrow> u32 option" where
  "arch_regfile_read addr r = do { verify (unat addr < length r); Some (r ! unat addr) }"

subsection \<open>Memory is a byte store\<close>

lemma memory_rw8 [simp]: "memory_read8 a (memory_write8 b v m) = (if a = b then v else memory_read8 a m)"
  by (simp add: memory_read8_def memory_write8_def)

lemma neq_small_add [simp]:
  fixes a :: u32
  shows "a + 1 \<noteq> a" "a + 2 \<noteq> a" "a + 3 \<noteq> a" "a + 2 \<noteq> a + 1" "a + 3 \<noteq> a + 1" "a + 3 \<noteq> a + 2"
    "a \<noteq> a + 1" "a \<noteq> a + 2" "a \<noteq> a + 3" "a + 1 \<noteq> a + 2" "a + 1 \<noteq> a + 3" "a + 2 \<noteq> a + 3"
  by simp_all

lemma ucast_pair: "ucast (ucast v :: u8) OR push_bit 8 (ucast (ucast (drop_bit 8 v) :: u8)) = (v :: u16)"
  by (rule bit_word_eqI) (auto simp: bit_simps)

lemma ucast_quad:
  "ucast (ucast v :: u8) OR push_bit 8 (ucast (ucast (drop_bit 8 v) :: u8)) OR
   push_bit 16 (ucast (ucast (drop_bit 16 v) :: u8)) OR
   push_bit 24 (ucast (ucast (drop_bit 24 v) :: u8)) = (v :: u32)" (is "?l = v")
proof (rule bit_word_eqI)
  fix n assume "n < LENGTH(32)"
  then consider "n < 8" | "8 \<le> n \<and> n < 16" | "16 \<le> n \<and> n < 24" | "24 \<le> n \<and> n < 32" by fastforce
  then show "bit ?l n = bit v n" by cases (auto simp: bit_simps)
qed

lemma memory_rw16: "memory_read16 a (memory_write16 a v m) = v"
  by (simp add: memory_read16_def memory_write16_def ucast_pair)

lemma memory_rw32: "memory_read32 a (memory_write32 a v m) = v"
  by (simp add: memory_read32_def memory_write32_def ucast_quad)

subsection \<open>The bus as a memory port\<close>

text \<open>
  What a client of the bus relies on: in a well-formed bus, an access to a mapped address
  succeeds, a read changes nothing and returns what was written last. The client lemma
  covers any sequence of writes.
\<close>

locale memory_port =
  fixes inv :: "'b \<Rightarrow> bool"
    and mapped :: "'a \<Rightarrow> bool"
    and rd :: "'a \<Rightarrow> 'b \<Rightarrow> ('v \<times> 'b) option"
    and wr :: "'a \<Rightarrow> 'v \<Rightarrow> 'b \<Rightarrow> 'b option"
  assumes rd_law: "inv b \<Longrightarrow> mapped a \<Longrightarrow> \<exists>v. rd a b = Some (v, b)"
    and wr_law: "inv b \<Longrightarrow> mapped a \<Longrightarrow> \<exists>b'. wr a v b = Some b' \<and> inv b'"
    and rd_wr: "inv b \<Longrightarrow> mapped a \<Longrightarrow> mapped a' \<Longrightarrow> wr a v b = Some b' \<Longrightarrow>
      map_option fst (rd a' b') = (if a' = a then Some v else map_option fst (rd a' b))"
begin

primrec wr_all :: "('a \<times> 'v) list \<Rightarrow> 'b \<Rightarrow> 'b option" where
  "wr_all [] b = Some b"
| "wr_all (x # xs) b = do { b' \<leftarrow> wr (fst x) (snd x) b; wr_all xs b' }"

lemma wr_all_law:
  assumes "inv b" and "\<forall>(a, v) \<in> set xs. mapped a"
  shows "\<exists>b'. wr_all xs b = Some b' \<and> inv b' \<and> (\<forall>a. mapped a \<longrightarrow>
    map_option fst (rd a b') = (case map_of (rev xs) a of None \<Rightarrow> map_option fst (rd a b) | Some v \<Rightarrow> Some v))"
  using assms
proof (induction xs arbitrary: b)
  case (Cons x xs)
  obtain a v where x: "x = (a, v)" by fastforce
  obtain b1 where b1: "wr a v b = Some b1" "inv b1" using wr_law Cons.prems x by fastforce
  obtain b' where b': "wr_all xs b1 = Some b'" "inv b'" "\<forall>a. mapped a \<longrightarrow>
    map_option fst (rd a b') = (case map_of (rev xs) a of None \<Rightarrow> map_option fst (rd a b1) | Some v \<Rightarrow> Some v)"
    using Cons.IH[OF b1(2)] Cons.prems by auto
  have "map_option fst (rd a' b') = (case map_of (rev (x # xs)) a' of None \<Rightarrow> map_option fst (rd a' b) | Some v \<Rightarrow> Some v)"
    if "mapped a'" for a'
    using b'(3) that rd_wr[OF Cons.prems(1) _ that b1(1)] Cons.prems(2) x
    by (auto simp: map_add_def split: option.split)
  then show ?case using b1 b' x by auto
qed simp

lemma rd_eq:
  assumes "inv b" and "mapped a" and "map_option fst (rd a b) = Some v"
  shows "rd a b = Some (v, b)"
  using rd_law[OF assms(1,2)] assms(3) by auto

end

text \<open>The slave map the constructor of the ISA model sets up.\<close>

definition bus_wf :: "isa_bus \<Rightarrow> bool" where
  "bus_wf b \<longleftrightarrow>
     slave_info_list b =
       [\<lparr>si_base = MEMORY_BASE, si_size = MEMORY_SIZE, si_slave = Slave_memory, si_support_fetch = True\<rparr>,
        \<lparr>si_base = CLINT_BASE, si_size = CLINT_SIZE, si_slave = Slave_clint, si_support_fetch = False\<rparr>] \<and>
     mem_size (bus_memory b) = MEMORY_SIZE \<and> clint_size (bus_clint b) = CLINT_SIZE"

definition in_ram :: "u32 \<Rightarrow> bool" where
  "in_ram a \<longleftrightarrow> MEMORY_BASE \<le> a \<and> a < MEMORY_BASE + MEMORY_SIZE"

definition in_clint :: "u32 \<Rightarrow> bool" where
  "in_clint a \<longleftrightarrow> CLINT_BASE \<le> a \<and> a < CLINT_BASE + CLINT_SIZE"

lemma find_slave:
  assumes "bus_wf b"
  shows "find_slave_info a False b =
    (if in_ram a then Some (slave_info_list b ! 0) else if in_clint a then Some (slave_info_list b ! 1) else None)"
  using assms by (simp add: bus_wf_def find_slave_info_def in_slave_def in_ram_def in_clint_def)

lemma ram_offset:
  assumes "in_ram a"
  shows "a - MEMORY_BASE < MEMORY_SIZE"
  using assms unfolding in_ram_def config_defs by uint_arith

lemma clint_offset:
  assumes "in_clint a"
  shows "a - CLINT_BASE < CLINT_SIZE"
  using assms unfolding in_clint_def config_defs by uint_arith

lemma unat_and_mask: "unat ((a :: u32) AND mask n) = unat a mod 2 ^ n"
  by (simp only: take_bit_eq_mask[symmetric] unsigned_take_bit_eq) (simp add: take_bit_eq_mod)

text \<open>Access sizes of the bus are powers of two.\<close>

lemma access_mask: "(1 - 1 :: u32) = mask 0" "(2 - 1 :: u32) = mask 1" "(4 - 1 :: u32) = mask 2"
  by (simp_all add: mask_eq_exp_minus_1)

lemma aligned_unat: "(a :: u32) AND mask n = 0 \<longleftrightarrow> unat a mod 2 ^ n = 0"
  by (metis unat_and_mask unat_eq_zero unsigned_0)

lemma slave_check_aligned:
  fixes sz addr :: u32
  assumes "unat sz mod 2 ^ n = 0" and "addr < sz" and "unat addr mod 2 ^ n = 0" and "n \<le> 2"
  shows "sz - addr \<ge> 2 ^ n"
proof -
  have lt: "unat addr < unat sz" using assms(2) by (simp add: word_less_nat_alt)
  have "2 ^ n dvd unat sz - unat addr"
    using assms(1,3) by (simp add: dvd_diff_nat mod_eq_0_iff_dvd)
  then have "2 ^ n \<le> unat sz - unat addr" using lt by (auto dest: dvd_imp_le)
  moreover have "unat (sz - addr) = unat sz - unat addr"
    using assms(2) by (intro unat_sub) (simp add: less_imp_le)
  moreover have "n = 0 \<or> n = 1 \<or> n = 2" using assms(4) by linarith
  then have "unat (2 ^ n :: u32) = 2 ^ n" by auto
  ultimately show ?thesis by (simp only: word_le_nat_alt)
qed

lemma slave_check_simps:
  assumes "unat sz mod 4 = 0" and "addr < sz"
  shows "slave_check sz addr 1 = Some ()"
    and "slave_check sz addr 2 = verify (unat addr mod 2 = 0)"
    and "slave_check sz addr 4 = verify (unat addr mod 4 = 0)"
proof -
  have s2: "unat sz mod 2 = 0" using assms(1) by presburger
  show "slave_check sz addr 1 = Some ()"
    using assms(2) slave_check_aligned[of sz 0 addr] by (simp add: slave_check_def)
  show "slave_check sz addr 2 = verify (unat addr mod 2 = 0)"
    using assms(2) slave_check_aligned[of sz 1 addr] s2 aligned_unat[of addr 1] access_mask(2)
    by (auto simp: slave_check_def verify_def)
  show "slave_check sz addr 4 = verify (unat addr mod 4 = 0)"
    using assms slave_check_aligned[of sz 2 addr] aligned_unat[of addr 2] access_mask(3)
    by (auto simp: slave_check_def verify_def)
qed

lemma unat_offset:
  assumes "in_ram a"
  shows "unat (a - MEMORY_BASE) = unat a - 2147483648" and "unat a \<ge> 2147483648"
  using assms unfolding in_ram_def config_defs
  by (simp_all add: word_le_nat_alt unat_sub)

lemma ram_size_4: "unat MEMORY_SIZE mod 4 = 0" "unat CLINT_SIZE mod 4 = 0"
  by (simp_all add: config_defs)

definition ram_off :: "u32 \<Rightarrow> u32" where "ram_off a = a - MEMORY_BASE"

lemma ram_off_mod:
  assumes "in_ram a"
  shows "unat (ram_off a) mod 4 = unat a mod 4" "unat (ram_off a) mod 2 = unat a mod 2"
proof -
  obtain k where "unat a = 2147483648 + k" "unat (ram_off a) = k"
    using unat_offset[OF assms] le_Suc_ex by (auto simp: ram_off_def)
  then show "unat (ram_off a) mod 4 = unat a mod 4" "unat (ram_off a) mod 2 = unat a mod 2"
    by presburger+
qed

lemma bus_ram:
  assumes "bus_wf b" and "in_ram a"
  shows "bus_read8 a False b = Some (memory_read8 (ram_off a) (bus_memory b), b)"
    and "bus_write8 a v8 b = Some (b\<lparr>bus_memory := memory_write8 (ram_off a) v8 (bus_memory b)\<rparr>)"
    and "bus_read16 a False b = do { verify (unat a mod 2 = 0); Some (memory_read16 (ram_off a) (bus_memory b), b) }"
    and "bus_write16 a v16 b =
      do { verify (unat a mod 2 = 0); Some (b\<lparr>bus_memory := memory_write16 (ram_off a) v16 (bus_memory b)\<rparr>) }"
    and "bus_read32 a fe b = do { verify (unat a mod 4 = 0); Some (memory_read32 (ram_off a) (bus_memory b), b) }"
    and "bus_write32 a v32 b =
      do { verify (unat a mod 4 = 0); Some (b\<lparr>bus_memory := memory_write32 (ram_off a) v32 (bus_memory b)\<rparr>) }"
proof -
  have f: "find_slave_info a False b = Some \<lparr>si_base = MEMORY_BASE, si_size = MEMORY_SIZE,
      si_slave = Slave_memory, si_support_fetch = True\<rparr>"
    using assms find_slave[OF assms(1), of a] by (simp add: bus_wf_def)
  have z: "mem_size (bus_memory b) = MEMORY_SIZE" using assms(1) by (simp add: bus_wf_def)
  note c = slave_check_simps[OF ram_size_4(1) ram_offset[OF assms(2)]]
  note m = ram_off_mod[OF assms(2), unfolded ram_off_def]
  show "bus_read8 a False b = Some (memory_read8 (ram_off a) (bus_memory b), b)"
    "bus_write8 a v8 b = Some (b\<lparr>bus_memory := memory_write8 (ram_off a) v8 (bus_memory b)\<rparr>)"
    by (simp_all add: bus_read8_def bus_write8_def f z c ram_off_def)
  show "bus_read16 a False b = do { verify (unat a mod 2 = 0); Some (memory_read16 (ram_off a) (bus_memory b), b) }"
    "bus_write16 a v16 b =
      do { verify (unat a mod 2 = 0); Some (b\<lparr>bus_memory := memory_write16 (ram_off a) v16 (bus_memory b)\<rparr>) }"
    by (simp_all add: bus_read16_def bus_write16_def f z c m ram_off_def)
  show "bus_read32 a fe b = do { verify (unat a mod 4 = 0); Some (memory_read32 (ram_off a) (bus_memory b), b) }"
    "bus_write32 a v32 b =
      do { verify (unat a mod 4 = 0); Some (b\<lparr>bus_memory := memory_write32 (ram_off a) v32 (bus_memory b)\<rparr>) }"
    by (simp_all add: bus_read32_def bus_write32_def f z c m ram_off_def)
qed

lemma bus_wf_mem [simp]:
  "bus_wf (b\<lparr>bus_memory := memory_write8 x v8 (bus_memory b)\<rparr>) = bus_wf b"
  "bus_wf (b\<lparr>bus_memory := memory_write16 x v16 (bus_memory b)\<rparr>) = bus_wf b"
  "bus_wf (b\<lparr>bus_memory := memory_write32 x v32 (bus_memory b)\<rparr>) = bus_wf b"
  by (simp_all add: bus_wf_def memory_write8_def memory_write16_def memory_write32_def)

lemma aligned_add:
  assumes "unat (a :: u32) mod 4 = 0" and "j < 4"
  shows "unat (a + of_nat j) = unat a + j"
proof -
  have "unat a < 4294967296" using unsigned_less[of a] by simp
  then have "unat a + j < 4294967296" using assms by presburger
  then show ?thesis using assms(2) by (simp add: unat_word_ariths unat_of_nat)
qed

lemma aligned_disjoint:
  assumes "unat (a :: u32) mod 4 = 0" and "unat (c :: u32) mod 4 = 0" and "a \<noteq> c" and "j < 4" and "k < 4"
  shows "a + of_nat j \<noteq> c + of_nat k"
proof
  assume "a + of_nat j = c + of_nat k"
  then have "unat a + j = unat c + k" using aligned_add assms by metis
  then have "unat a = unat c" using assms(1,2,4,5) by presburger
  then show False using assms(3) by (simp add: word_unat_eq_iff)
qed

lemma memory_rw32_other:
  assumes "unat (a :: u32) mod 4 = 0" and "unat (c :: u32) mod 4 = 0" and "a \<noteq> c"
  shows "memory_read32 c (memory_write32 a v m) = memory_read32 c m"
proof -
  have d: "c + of_nat k \<noteq> a + of_nat j" if "j < 4" "k < 4" for j k
    using aligned_disjoint[OF assms that] by metis
  have "c + of_nat k \<noteq> a" "c + of_nat k \<noteq> a + 1" "c + of_nat k \<noteq> a + 2" "c + of_nat k \<noteq> a + 3" if "k < 4" for k
    using d[of 0 k] d[of 1 k] d[of 2 k] d[of 3 k] that by simp_all
  from this[of 0] this[of 1] this[of 2] this[of 3] show ?thesis
    by (simp add: memory_read32_def memory_write32_def)
qed

definition ram_word :: "u32 \<Rightarrow> bool" where
  "ram_word a \<longleftrightarrow> in_ram a \<and> unat a mod 4 = 0"

interpretation byte_port: memory_port bus_wf in_ram "\<lambda>a. bus_read8 a False" bus_write8
  by unfold_locales (auto simp: bus_ram ram_off_def)

interpretation word_port: memory_port bus_wf ram_word "\<lambda>a. bus_read32 a False" bus_write32
proof
  fix b :: isa_bus and a a' v b'
  assume b: "bus_wf b" and a: "ram_word a"
  show "\<exists>v. bus_read32 a False b = Some (v, b)" "\<exists>b'. bus_write32 a v b = Some b' \<and> bus_wf b'"
    using a b by (simp_all add: ram_word_def bus_ram)
  assume a': "ram_word a'" and w: "bus_write32 a v b = Some b'"
  have "memory_read32 (ram_off a') (memory_write32 (ram_off a) v (bus_memory b)) =
      (if a' = a then v else memory_read32 (ram_off a') (bus_memory b))"
    using a a' memory_rw32_other[of "ram_off a" "ram_off a'"]
    by (auto simp: memory_rw32 ram_word_def ram_off_mod) (auto simp: ram_off_def)
  then show "map_option fst (bus_read32 a' False b') =
      (if a' = a then Some v else map_option fst (bus_read32 a' False b))"
    using a a' b w by (auto simp: ram_word_def bus_ram)
qed

end
