(* ===== verification/Isa_Model.thy ===== *)
theory Isa_Model
  imports Isa_Decode Isa_Bus "HOL-Library.Signed_Division"
begin

text \<open>
  \<^verbatim>\<open>isa_model.cpp\<close> apart from its decoder: construction, reset, program load, fetch,
  execute and its units, interrupt entry and the instruction step \<^verbatim>\<open>run\<close>. The build of
  \<^verbatim>\<open>config.h\<close> compares the two models, so \<^verbatim>\<open>run\<close> does not take interrupts itself and
  \<^verbatim>\<open>interrupt_sync\<close> is told which one the cycle model took; the code of the stand-alone
  build is modelled beside it. The calls into the debugger's CSR breakpoints and the branch
  dump are left out.
\<close>

record isa_model =
  m_cpu_clock_cycle :: u64
  m_committed_instruction_num :: u64
  m_branch_num :: u64
  m_branch_predicted :: u64
  m_branch_hit :: u64
  m_branch_miss :: u64
  m_pc :: u32
  m_commit_num :: u64
  m_bus :: isa_bus
  m_csr_file :: csrfile
  m_interrupt_interface :: interrupt_interface
  m_arch_regfile :: "u32 list"

subsection \<open>Access to single registers\<close>

definition csr_inst_write :: "u32 \<Rightarrow> u32 \<Rightarrow> isa_model \<Rightarrow> isa_model option" where
  "csr_inst_write addr v m =
     do { f \<leftarrow> csrfile_write_sys addr v (m_csr_file m); Some (m\<lparr>m_csr_file := f\<rparr>) }"

definition csr_inst_read :: "u32 \<Rightarrow> isa_model \<Rightarrow> u32 option" where
  "csr_inst_read addr m = csrfile_read_sys addr (m_csr_file m)"

subsection \<open>Execution units\<close>

text \<open>
  C++ conversions: \<^verbatim>\<open>(int32_t)x\<close> is \<open>sint x\<close>, \<^verbatim>\<open>>>\<close> on a signed value is an arithmetic
  shift, \<^verbatim>\<open>/\<close> and \<^verbatim>\<open>%\<close> on signed values truncate.
\<close>

fun alu_result :: "alu_op_t \<Rightarrow> u32 \<Rightarrow> u32 \<Rightarrow> u32 \<Rightarrow> u32 \<Rightarrow> u32" where
  "alu_result Alu_add pc imm a b = a + b"
| "alu_result Alu_and pc imm a b = a AND b"
| "alu_result Alu_auipc pc imm a b = imm + pc"
| "alu_result Alu_ebreak pc imm a b = 0"
| "alu_result Alu_ecall pc imm a b = 0"
| "alu_result Alu_fence pc imm a b = 0"
| "alu_result Alu_fence_i pc imm a b = 0"
| "alu_result Alu_lui pc imm a b = imm"
| "alu_result Alu_or pc imm a b = a OR b"
| "alu_result Alu_sll pc imm a b = push_bit (unat (b AND 0x1f)) a"
| "alu_result Alu_slt pc imm a b = (if sint a < sint b then 1 else 0)"
| "alu_result Alu_sltu pc imm a b = (if a < b then 1 else 0)"
| "alu_result Alu_sra pc imm a b = word_of_int (drop_bit (unat (b AND 0x1f)) (sint a))"
| "alu_result Alu_srl pc imm a b = drop_bit (unat (b AND 0x1f)) a"
| "alu_result Alu_sub pc imm a b = a - b"
| "alu_result Alu_xor pc imm a b = a XOR b"

fun isa_alu_op :: "alu_op_t \<Rightarrow> isa_state_t \<Rightarrow> isa_state_t" where
  "isa_alu_op Alu_ebreak s =
     s\<lparr>i_rd_value := 0, i_has_exception := True, i_exception_id := breakpoint,
       i_exception_value := 0\<rparr>"
| "isa_alu_op Alu_ecall s =
     s\<lparr>i_rd_value := 0, i_has_exception := True, i_exception_id := environment_call_from_m_mode,
       i_exception_value := 0\<rparr>"
| "isa_alu_op f s = s\<lparr>i_rd_value := alu_result f (i_pc s) (i_imm s) (i_src1_value s) (i_src2_value s)\<rparr>"

definition execute_alu :: "isa_state_t \<Rightarrow> isa_state_t option" where
  "execute_alu s =
     (if \<not> i_has_exception s
      then (if i_valid s
            then (case i_sub_op s of Sub_alu f \<Rightarrow> Some (isa_alu_op f s) | _ \<Rightarrow> None)
            else Some (s\<lparr>i_has_exception := True, i_exception_id := illegal_instruction,
                         i_exception_value := 0\<rparr>))
      else Some s)"

fun bru_taken :: "bru_op_t \<Rightarrow> u32 \<Rightarrow> u32 \<Rightarrow> bool" where
  "bru_taken Bru_beq a b = (a = b)"
| "bru_taken Bru_bge a b = (sint a \<ge> sint b)"
| "bru_taken Bru_bgeu a b = (a \<ge> b)"
| "bru_taken Bru_blt a b = (sint a < sint b)"
| "bru_taken Bru_bltu a b = (a < b)"
| "bru_taken Bru_bne a b = (a \<noteq> b)"
| "bru_taken Bru_jal a b = True"
| "bru_taken Bru_jalr a b = True"
| "bru_taken Bru_mret a b = True"

definition isa_mret :: "isa_model \<Rightarrow> (u32 \<times> isa_model) option" where
  "isa_mret m =
     do {
       next_pc \<leftarrow> csr_inst_read CSR_MEPC m;
       v \<leftarrow> csr_inst_read CSR_MSTATUS m;
       m' \<leftarrow> csr_inst_write CSR_MSTATUS (mstatus_set_mie (mstatus_get_mpie v) v) m;
       Some (next_pc, m')
     }"

fun isa_bru_op :: "bru_op_t \<Rightarrow> isa_state_t \<Rightarrow> isa_model \<Rightarrow> (isa_state_t \<times> u32 \<times> isa_model) option" where
  "isa_bru_op Bru_jal s m = Some (s\<lparr>i_rd_value := i_pc s + 4\<rparr>, i_pc s + i_imm s, m)"
| "isa_bru_op Bru_jalr s m =
     Some (s\<lparr>i_rd_value := i_pc s + 4\<rparr>, (i_imm s + i_src1_value s) AND NOT 0x01, m)"
| "isa_bru_op Bru_mret s m = do { (next_pc, m') \<leftarrow> isa_mret m; Some (s, next_pc, m') }"
| "isa_bru_op f s m = Some (s, i_pc s + i_imm s, m)"

definition execute_bru :: "isa_state_t \<Rightarrow> isa_model \<Rightarrow> (isa_state_t \<times> isa_model) option" where
  "execute_bru s m =
     do {
       verify (i_valid s \<and> \<not> i_has_exception s);
       f \<leftarrow> (case i_sub_op s of Sub_bru f \<Rightarrow> Some f | _ \<Rightarrow> None);
       (s', bru_next_pc, m') \<leftarrow> isa_bru_op f s m;
       Some (s', if bru_taken f (i_src1_value s) (i_src2_value s) then m'\<lparr>m_pc := bru_next_pc\<rparr> else m')
     }"

fun csr_new_value :: "csr_op_t \<Rightarrow> u32 \<Rightarrow> u32 \<Rightarrow> u32" where
  "csr_new_value Csr_csrrc old src = old AND NOT src"
| "csr_new_value Csr_csrrs old src = old OR src"
| "csr_new_value Csr_csrrw old src = src"

definition execute_csr :: "isa_state_t \<Rightarrow> isa_model \<Rightarrow> (isa_state_t \<times> isa_model) option" where
  "execute_csr s m =
     do {
       verify (i_valid s \<and> \<not> i_has_exception s);
       let read_ret = csrfile_read (i_csr s) (m_csr_file m);
       let csr_value = (case read_ret of None \<Rightarrow> 0 | Some v \<Rightarrow> v);
       let illegal = (\<lambda>s. s\<lparr>i_has_exception := True, i_exception_id := illegal_instruction,
                            i_exception_value := i_value s\<rparr>);
       if i_rd_enable s \<and> i_rd s \<noteq> 0 \<and> read_ret = None then Some (illegal s, m)
       else do {
         let s' = s\<lparr>i_rd_value := csr_value\<rparr>;
         if \<not> (i_arg1_src s = Arg_reg \<and> i_rs1 s = 0) then do {
           f \<leftarrow> (case i_sub_op s of Sub_csr f \<Rightarrow> Some f | _ \<Rightarrow> None);
           Some (case csrfile_write (i_csr s) (csr_new_value f csr_value (i_src1_value s)) (m_csr_file m) of
                   (ok, cf) \<Rightarrow> if \<not> ok then (illegal s', m) else (s', m\<lparr>m_csr_file := cf\<rparr>))
         } else Some (s', m)
       }
     }"

fun div_result :: "div_op_t \<Rightarrow> u32 \<Rightarrow> u32 \<Rightarrow> u32" where
  "div_result Div_div a b =
     (if b = 0 then 0xFFFFFFFF
      else if a = 0x80000000 \<and> b = 0xFFFFFFFF then 0x80000000
      else word_of_int (sint a sdiv sint b))"
| "div_result Div_divu a b = (if b = 0 then 0xFFFFFFFF else a div b)"
| "div_result Div_rem a b =
     (if b = 0 then a
      else if a = 0x80000000 \<and> b = 0xFFFFFFFF then 0
      else word_of_int (sint a smod sint b))"
| "div_result Div_remu a b = (if b = 0 then a else a mod b)"

definition execute_div :: "isa_state_t \<Rightarrow> isa_state_t option" where
  "execute_div s =
     do {
       verify (i_valid s \<and> \<not> i_has_exception s);
       f \<leftarrow> (case i_sub_op s of Sub_div f \<Rightarrow> Some f | _ \<Rightarrow> None);
       Some (s\<lparr>i_rd_value := div_result f (i_src1_value s) (i_src2_value s)\<rparr>)
     }"

fun mul_result :: "mul_op_t \<Rightarrow> u32 \<Rightarrow> u32 \<Rightarrow> u32" where
  "mul_result Mul_mul a b = ucast (((scast a :: u64) * scast b) AND 0xffffffff)"
| "mul_result Mul_mulh a b = ucast (drop_bit 32 ((scast a :: u64) * scast b) AND 0xffffffff)"
| "mul_result Mul_mulhsu a b = ucast (drop_bit 32 ((scast a :: u64) * ucast b) AND 0xffffffff)"
| "mul_result Mul_mulhu a b = ucast (drop_bit 32 ((ucast a :: u64) * ucast b) AND 0xffffffff)"

definition execute_mul :: "isa_state_t \<Rightarrow> isa_state_t option" where
  "execute_mul s =
     do {
       verify (i_valid s \<and> \<not> i_has_exception s);
       f \<leftarrow> (case i_sub_op s of Sub_mul f \<Rightarrow> Some f | _ \<Rightarrow> None);
       Some (s\<lparr>i_rd_value := mul_result f (i_src1_value s) (i_src2_value s)\<rparr>)
     }"

fun isa_lsu_op :: "lsu_op_t \<Rightarrow> u32 \<Rightarrow> u32 \<Rightarrow> isa_bus \<Rightarrow> (u32 option \<times> isa_bus) option" where
  "isa_lsu_op Lsu_lb addr src2 b =
     do { (v, b') \<leftarrow> bus_read8 addr False b; r \<leftarrow> sign_extend (ucast v) 8; Some (Some r, b') }"
| "isa_lsu_op Lsu_lbu addr src2 b =
     do { (v, b') \<leftarrow> bus_read8 addr False b; Some (Some (ucast v), b') }"
| "isa_lsu_op Lsu_lh addr src2 b =
     do { (v, b') \<leftarrow> bus_read16 addr False b; r \<leftarrow> sign_extend (ucast v) 16; Some (Some r, b') }"
| "isa_lsu_op Lsu_lhu addr src2 b =
     do { (v, b') \<leftarrow> bus_read16 addr False b; Some (Some (ucast v), b') }"
| "isa_lsu_op Lsu_lw addr src2 b =
     do { (v, b') \<leftarrow> bus_read32 addr False b; Some (Some v, b') }"
| "isa_lsu_op Lsu_sb addr src2 b =
     do { b' \<leftarrow> bus_write8 addr (ucast (src2 AND 0xff)) b; Some (None, b') }"
| "isa_lsu_op Lsu_sh addr src2 b =
     do { b' \<leftarrow> bus_write16 addr (ucast (src2 AND 0xffff)) b; Some (None, b') }"
| "isa_lsu_op Lsu_sw addr src2 b =
     do { b' \<leftarrow> bus_write32 addr src2 b; Some (None, b') }"

definition execute_lsu :: "isa_state_t \<Rightarrow> isa_model \<Rightarrow> (isa_state_t \<times> isa_model) option" where
  "execute_lsu s m =
     do {
       verify (i_valid s \<and> \<not> i_has_exception s);
       let addr = i_src1_value s + i_imm s;
       f \<leftarrow> (case i_sub_op s of Sub_lsu f \<Rightarrow> Some f | _ \<Rightarrow> None);
       (r, b) \<leftarrow> isa_lsu_op f addr (i_src2_value s) (m_bus m);
       Some ((case r of None \<Rightarrow> s | Some v \<Rightarrow> s\<lparr>i_rd_value := v\<rparr>), m\<lparr>m_bus := b\<rparr>)
     }"

subsection \<open>Fetch and execute\<close>

definition isa_fetch :: "isa_state_t \<Rightarrow> isa_model \<Rightarrow> (isa_state_t \<times> isa_model) option" where
  "isa_fetch s m =
     do {
       let s1 = s\<lparr>i_pc := m_pc m, i_value := 0, i_has_exception := False,
                  i_exception_id := instruction_access_fault, i_exception_value := 0\<rparr>;
       let s2 = (if \<not> is_align (m_pc m) 4
                 then s1\<lparr>i_has_exception := True, i_exception_id := instruction_address_misaligned,
                         i_exception_value := m_pc m\<rparr>
                 else s1);
       (v, b) \<leftarrow> bus_read32 (m_pc m) True (m_bus m);
       Some (s2\<lparr>i_value := v\<rparr>, m\<lparr>m_bus := b, m_pc := m_pc m + 4\<rparr>)
     }"

definition isa_read_args :: "isa_state_t \<Rightarrow> u32 list \<Rightarrow> isa_state_t option" where
  "isa_read_args s regs =
     do {
       s1 \<leftarrow> (case i_arg1_src s of
                Arg_reg \<Rightarrow> do { v \<leftarrow> arch_regfile_read (i_rs1 s) regs; Some (s\<lparr>i_src1_value := v\<rparr>) }
              | Arg_imm \<Rightarrow> Some (s\<lparr>i_src1_value := i_imm s\<rparr>)
              | Arg_disable \<Rightarrow> Some s);
       (case i_arg2_src s of
          Arg_reg \<Rightarrow> do { v \<leftarrow> arch_regfile_read (i_rs2 s) regs; Some (s1\<lparr>i_src2_value := v\<rparr>) }
        | Arg_imm \<Rightarrow> Some (s1\<lparr>i_src2_value := i_imm s\<rparr>)
        | Arg_disable \<Rightarrow> Some s1)
     }"

definition isa_dispatch :: "isa_state_t \<Rightarrow> isa_model \<Rightarrow> (isa_state_t \<times> isa_model) option" where
  "isa_dispatch s m =
     (case i_op_unit s of
        Unit_alu \<Rightarrow> do { s' \<leftarrow> execute_alu s; Some (s', m) }
      | Unit_bru \<Rightarrow> execute_bru s m
      | Unit_csr \<Rightarrow> execute_csr s m
      | Unit_div \<Rightarrow> do { s' \<leftarrow> execute_div s; Some (s', m) }
      | Unit_mul \<Rightarrow> do { s' \<leftarrow> execute_mul s; Some (s', m) }
      | Unit_lsu \<Rightarrow> execute_lsu s m)"

definition isa_writeback :: "isa_state_t \<Rightarrow> isa_model \<Rightarrow> isa_model option" where
  "isa_writeback s m =
     (if i_has_exception s then
        do {
          m1 \<leftarrow> csr_inst_write CSR_MEPC (i_pc s) m;
          m2 \<leftarrow> csr_inst_write CSR_MTVAL (i_exception_value s) m1;
          m3 \<leftarrow> csr_inst_write CSR_MCAUSE (exception_code (i_exception_id s)) m2;
          tvec \<leftarrow> csr_inst_read CSR_MTVEC m3;
          Some (m3\<lparr>m_pc := tvec\<rparr>)
        }
      else if i_rd_enable s \<and> i_rd s \<noteq> 0 then
        do {
          r \<leftarrow> arch_regfile_write (i_rd s) (i_rd_value s) (m_arch_regfile m);
          Some (m\<lparr>m_arch_regfile := r\<rparr>)
        }
      else Some m)"

definition isa_execute :: "isa_state_t \<Rightarrow> isa_model \<Rightarrow> isa_model option" where
  "isa_execute s m =
     do {
       s1 \<leftarrow> (if i_valid s \<and> \<not> i_has_exception s then isa_read_args s (m_arch_regfile m) else Some s);
       (s2, m2) \<leftarrow> isa_dispatch s1 m;
       isa_writeback s2 m2
     }"

subsection \<open>Interrupt entry and the instruction step\<close>

definition isa_interrupt_entry :: "riscv_interrupt_t \<Rightarrow> isa_model \<Rightarrow> isa_model option" where
  "isa_interrupt_entry interrupt_id m =
     do {
       m1 \<leftarrow> csr_inst_write CSR_MEPC (m_pc m) m;
       m2 \<leftarrow> csr_inst_write CSR_MTVAL 0 m1;
       m3 \<leftarrow> csr_inst_write CSR_MCAUSE (0x80000000 OR interrupt_code interrupt_id) m2;
       v \<leftarrow> csr_inst_read CSR_MSTATUS m3;
       let v1 = mstatus_set_mpie (mstatus_get_mie v) v;
       let v2 = mstatus_set_mie False v1;
       m4 \<leftarrow> csr_inst_write CSR_MSTATUS v2 m3;
       tvec \<leftarrow> csr_inst_read CSR_MTVEC m4;
       Some (m4\<lparr>m_pc := tvec\<rparr>)
     }"

definition interrupt_sync_compare :: "bool \<Rightarrow> riscv_interrupt_t \<Rightarrow> isa_model \<Rightarrow> isa_model option" where
  "interrupt_sync_compare has_interrupt new_interrupt_id m =
     do {
       f \<leftarrow> interrupt_run (m_interrupt_interface m) (m_csr_file m);
       let m' = m\<lparr>m_csr_file := f\<rparr>;
       if has_interrupt then isa_interrupt_entry new_interrupt_id m' else Some m'
     }"

definition interrupt_sync :: "isa_model \<Rightarrow> isa_model option" where
  "interrupt_sync m =
     do {
       f \<leftarrow> interrupt_run (m_interrupt_interface m) (m_csr_file m);
       let m' = m\<lparr>m_csr_file := f\<rparr>;
       cause \<leftarrow> interrupt_get_cause (m_interrupt_interface m') (m_csr_file m');
       (case cause of None \<Rightarrow> Some m' | Some interrupt_id \<Rightarrow> isa_interrupt_entry interrupt_id m')
     }"

definition isa_write_counters :: "isa_model \<Rightarrow> isa_model option" where
  "isa_write_counters m =
     do {
       m \<leftarrow> csr_inst_write CSR_MCYCLE (ucast (m_cpu_clock_cycle m AND 0xffffffff)) m;
       m \<leftarrow> csr_inst_write CSR_MCYCLEH (ucast (drop_bit 32 (m_cpu_clock_cycle m))) m;
       m \<leftarrow> csr_inst_write CSR_MINSTRET (ucast (m_committed_instruction_num m AND 0xffffffff)) m;
       m \<leftarrow> csr_inst_write CSR_MINSTRETH (ucast (drop_bit 32 (m_committed_instruction_num m))) m;
       m \<leftarrow> csr_inst_write CSR_BRANCHNUM (ucast (m_branch_num m AND 0xffffffff)) m;
       m \<leftarrow> csr_inst_write CSR_BRANCHNUMH (ucast (drop_bit 32 (m_branch_num m))) m;
       m \<leftarrow> csr_inst_write CSR_BRANCHPREDICTED (ucast (m_branch_predicted m AND 0xffffffff)) m;
       m \<leftarrow> csr_inst_write CSR_BRANCHPREDICTEDH (ucast (drop_bit 32 (m_branch_predicted m))) m;
       m \<leftarrow> csr_inst_write CSR_BRANCHHIT (ucast (m_branch_hit m AND 0xffffffff)) m;
       m \<leftarrow> csr_inst_write CSR_BRANCHHITH (ucast (drop_bit 32 (m_branch_hit m))) m;
       m \<leftarrow> csr_inst_write CSR_BRANCHMISS (ucast (m_branch_miss m AND 0xffffffff)) m;
       csr_inst_write CSR_BRANCHMISSH (ucast (drop_bit 32 (m_branch_miss m))) m
     }"

definition isa_clint_run :: "isa_model \<Rightarrow> isa_model option" where
  "isa_clint_run m =
     do {
       (c, ii) \<leftarrow> clint_run (bus_clint (m_bus m)) (m_interrupt_interface m);
       Some (m\<lparr>m_bus := (m_bus m)\<lparr>bus_clint := c\<rparr>, m_interrupt_interface := ii\<rparr>)
     }"

definition isa_step :: "isa_model \<Rightarrow> isa_model option" where
  "isa_step m =
     do {
       (s, m1) \<leftarrow> isa_fetch isa_state_make m;
       s1 \<leftarrow> isa_decode s;
       m2 \<leftarrow> isa_execute s1 m1;
       isa_clint_run m2
     }"

definition isa_count :: "isa_model \<Rightarrow> isa_model option" where
  "isa_count m =
     isa_write_counters (m\<lparr>m_cpu_clock_cycle := m_cpu_clock_cycle m + 1,
       m_committed_instruction_num := m_committed_instruction_num m + 1,
       m_commit_num := m_commit_num m + 1\<rparr>)"

definition isa_run :: "isa_model \<Rightarrow> isa_model option" where
  "isa_run m = do { m1 \<leftarrow> isa_step m; isa_count m1 }"

definition isa_run_standalone :: "isa_model \<Rightarrow> isa_model option" where
  "isa_run_standalone m = do { m1 \<leftarrow> isa_step m; m2 \<leftarrow> interrupt_sync m1; isa_count m2 }"

subsection \<open>Construction, reset and program load\<close>

definition isa_csr_list :: "(u32 \<times> bool \<times> csr_class) list" where
  "isa_csr_list =
     [(CSR_MVENDORID, True, mvendorid), (CSR_MARCHID, True, marchid), (CSR_MIMPID, True, mimpid),
      (CSR_MHARTID, True, mhartid), (CSR_MCONFIGPTR, True, mconfigptr),
      (CSR_MSTATUS, False, mstatus), (CSR_MISA, False, misa), (CSR_MIE, False, mie),
      (CSR_MTVEC, False, mtvec), (CSR_MCOUNTEREN, False, mcounteren),
      (CSR_MSTATUSH, False, mstatush), (CSR_MSCRATCH, False, mscratch), (CSR_MEPC, False, mepc),
      (CSR_MCAUSE, False, mcause), (CSR_MTVAL, False, mtval), (CSR_MIP, False, mip),
      (CSR_CHARFIFO, False, charfifo), (CSR_FINISH, False, finish), (CSR_MCYCLE, False, mcycle),
      (CSR_MINSTRET, False, minstret), (CSR_MCYCLEH, False, mcycleh),
      (CSR_MINSTRETH, False, minstreth), (CSR_BRANCHNUM, True, mhpmcounter),
      (CSR_BRANCHNUMH, True, mhpmcounterh), (CSR_BRANCHPREDICTED, True, mhpmcounter),
      (CSR_BRANCHPREDICTEDH, True, mhpmcounterh), (CSR_BRANCHHIT, True, mhpmcounter),
      (CSR_BRANCHHITH, True, mhpmcounterh), (CSR_BRANCHMISS, True, mhpmcounter),
      (CSR_BRANCHMISSH, True, mhpmcounterh)]
     @ map (\<lambda>i. (0x3A0 + of_nat i, False, pmpcfg)) [0..<16]
     @ map (\<lambda>i. (0x3B0 + of_nat i, False, pmpaddr)) [0..<64]"

fun csrfile_map_all :: "(u32 \<times> bool \<times> csr_class) list \<Rightarrow> csrfile \<Rightarrow> csrfile option" where
  "csrfile_map_all [] f = Some f"
| "csrfile_map_all ((addr, ro, c) # xs) f =
     do { f' \<leftarrow> csrfile_map addr ro (csr_make c) f; csrfile_map_all xs f' }"

definition isa_reset :: "isa_model \<Rightarrow> isa_model option" where
  "isa_reset m =
     do {
       verify (get_slave_obj 0x80000000 False (m_bus m) = Some Slave_memory);
       let b = m_bus m;
       Some (m\<lparr>m_arch_regfile := arch_regfile_reset (m_arch_regfile m),
               m_csr_file := csrfile_reset (m_csr_file m),
               m_bus := b\<lparr>bus_memory := memory_reset (bus_memory b), bus_clint := clint_reset (bus_clint b)\<rparr>,
               m_cpu_clock_cycle := 0, m_committed_instruction_num := 0, m_branch_num := 1,
               m_branch_predicted := 0, m_branch_hit := 0, m_branch_miss := 0, m_pc := INIT_PC\<rparr>)
     }"

definition isa_make :: "8 word list \<Rightarrow> 8 word list \<Rightarrow> isa_model option" where
  "isa_make snd_fifo rcv_fifo =
     do {
       b1 \<leftarrow> bus_map MEMORY_BASE MEMORY_SIZE Slave_memory True bus_make;
       b2 \<leftarrow> bus_map CLINT_BASE CLINT_SIZE Slave_clint False b1;
       cf \<leftarrow> csrfile_map_all isa_csr_list (csrfile_make snd_fifo rcv_fifo);
       isa_reset
         \<lparr>m_cpu_clock_cycle = 0, m_committed_instruction_num = 0, m_branch_num = 0,
          m_branch_predicted = 0, m_branch_hit = 0, m_branch_miss = 0, m_pc = INIT_PC,
          m_commit_num = 0, m_bus = b2, m_csr_file = cf,
          m_interrupt_interface = interrupt_make, m_arch_regfile = arch_regfile_make ARCH_REG_NUM\<rparr>
     }"

fun isa_load_loop :: "u32 \<Rightarrow> u8 list \<Rightarrow> isa_bus \<Rightarrow> isa_bus option" where
  "isa_load_loop addr [] b = Some b"
| "isa_load_loop addr (x # xs) b = do { b' \<leftarrow> bus_write8 addr x b; isa_load_loop (addr + 1) xs b' }"

definition isa_load :: "u8 list \<Rightarrow> isa_model \<Rightarrow> isa_model option" where
  "isa_load buf m =
     do {
       verify (length buf < unat MEMORY_SIZE);
       b \<leftarrow> isa_load_loop MEMORY_BASE buf (m_bus m);
       Some (m\<lparr>m_bus := b\<rparr>)
     }"

end
