(* ===== verification/Riscv_Spec.thy ===== *)
theory Riscv_Spec
  imports Isa_Model
begin

text \<open>
  An independent reading of the RV32IM, Zicsr and machine-mode instructions the project
  implements: an abstract syntax whose operands have the width of their encoding fields,
  its encoding into 32-bit words by the instruction formats of the RISC-V manual, and the
  meaning of the arithmetic operations over unbounded integers. The decoders and the
  execution units of both models are compared with it.
\<close>

subsection \<open>Instruction formats\<close>

text \<open>The six fields of a 32-bit instruction, from bit 0 upwards.\<close>

definition enc :: "7 word \<Rightarrow> 5 word \<Rightarrow> 3 word \<Rightarrow> 5 word \<Rightarrow> 5 word \<Rightarrow> 7 word \<Rightarrow> u32" where
  "enc op rd f3 rs1 rs2 f7 =
     ucast op OR push_bit 7 (ucast rd) OR push_bit 12 (ucast f3) OR push_bit 15 (ucast rs1) OR
     push_bit 20 (ucast rs2) OR push_bit 25 (ucast f7)"

lemma word32_eqI:
  fixes a b :: u32
  assumes
    "bit a 0 = bit b 0" "bit a 1 = bit b 1" "bit a 2 = bit b 2" "bit a 3 = bit b 3"
    "bit a 4 = bit b 4" "bit a 5 = bit b 5" "bit a 6 = bit b 6" "bit a 7 = bit b 7"
    "bit a 8 = bit b 8" "bit a 9 = bit b 9" "bit a 10 = bit b 10" "bit a 11 = bit b 11"
    "bit a 12 = bit b 12" "bit a 13 = bit b 13" "bit a 14 = bit b 14" "bit a 15 = bit b 15"
    "bit a 16 = bit b 16" "bit a 17 = bit b 17" "bit a 18 = bit b 18" "bit a 19 = bit b 19"
    "bit a 20 = bit b 20" "bit a 21 = bit b 21" "bit a 22 = bit b 22" "bit a 23 = bit b 23"
    "bit a 24 = bit b 24" "bit a 25 = bit b 25" "bit a 26 = bit b 26" "bit a 27 = bit b 27"
    "bit a 28 = bit b 28" "bit a 29 = bit b 29" "bit a 30 = bit b 30" "bit a 31 = bit b 31"
  shows "a = b"
proof (rule bit_word_eqI)
  fix n assume "n < LENGTH(32)"
  then have "n \<in> {..<32}" by simp
  then show "bit a n = bit b n" using assms by (auto simp: lessThan_nat_numeral lessThan_Suc)
qed

lemma bit_beyond:
  fixes w :: "'a::len word"
  shows "LENGTH('a) \<le> n \<Longrightarrow> \<not> bit w n"
  by (auto dest: bit_imp_le_length)

lemma masks: "(0x7f::u32) = mask 7" "(0x1f::u32) = mask 5" "(0x07::u32) = mask 3" "(0xfff::u32) = mask 12" 
 "(0x0f::u32) = mask 4" "(0x3f::u32) = mask 6" "(0xff::u32) = mask 8" "(0x3ff::u32) = mask 10"
  by (simp_all add: mask_eq_exp_minus_1)

lemma drop_and_1: "drop_bit k (w::u32) AND 1 = of_bool (bit w k)"
  by (simp add: bit_iff_odd_drop_bit and_one_eq mod_2_eq_odd)

lemmas field_defs = opcode_of_def rd_of_def funct3_of_def rs1_of_def rs2_of_def funct7_of_def imm_i_of_def
 imm_s_of_def imm_b_of_def imm_j_of_def imm_u_of_def

lemma bit_enc:
  "bit (enc op rd f3 rs1 rs2 f7) n \<longleftrightarrow> n < 32 \<and>
    (bit op n \<or> 7 \<le> n \<and> bit rd (n - 7) \<or> 12 \<le> n \<and> bit f3 (n - 12)
     \<or> 15 \<le> n \<and> bit rs1 (n - 15) \<or> 20 \<le> n \<and> bit rs2 (n - 20) \<or> 25 \<le> n \<and> bit f7 (n - 25))"
  unfolding enc_def by (cases "n < 32") (simp_all add: bit_simps less_imp_diff_less)

lemma enc_fields:
  "opcode_of (enc op rd f3 rs1 rs2 f7) = ucast op"
  "rd_of (enc op rd f3 rs1 rs2 f7) = ucast rd"
  "funct3_of (enc op rd f3 rs1 rs2 f7) = ucast f3"
  "rs1_of (enc op rd f3 rs1 rs2 f7) = ucast rs1"
  "rs2_of (enc op rd f3 rs1 rs2 f7) = ucast rs2"
  "funct7_of (enc op rd f3 rs1 rs2 f7) = ucast f7"
  by ((rule word32_eqI; simp add: field_defs masks bit_enc bit_simps bit_beyond))+

lemma enc_imm_i:
  "imm_i_of (enc op rd f3 rs1 (ucast imm) (ucast (drop_bit 5 imm))) = ucast (imm :: 12 word)"
  by (rule word32_eqI; simp add: field_defs masks bit_enc bit_simps bit_beyond)

lemma enc_split: "enc (ucast w) (ucast (drop_bit 7 w)) (ucast (drop_bit 12 w)) (ucast (drop_bit 15 w))
   (ucast (drop_bit 20 w)) (ucast (drop_bit 25 w)) = w"
  by (rule word32_eqI; simp add: bit_enc bit_simps bit_beyond)

lemma enc_imm_s: "imm_s_of (enc op (ucast imm) f3 rs1 rs2 (ucast (drop_bit 5 imm))) = ucast (imm :: 12 word)"
  by (rule word32_eqI; simp add: field_defs masks bit_enc bit_simps bit_beyond)

text \<open>How the offset of a branch (bit \<open>k\<close> stands for bit \<open>k + 1\<close> of the offset) is spread.\<close>

definition b_rd :: "12 word \<Rightarrow> 5 word" where
  "b_rd i = push_bit 1 (ucast (take_bit 4 i)) OR ucast (take_bit 1 (drop_bit 10 i))"
definition b_f7 :: "12 word \<Rightarrow> 7 word" where
  "b_f7 i = ucast (take_bit 6 (drop_bit 4 i)) OR push_bit 6 (ucast (drop_bit 11 i))"

lemma enc_imm_b_push: "imm_b_of (enc op (b_rd imm) f3 rs1 rs2 (b_f7 imm)) = push_bit 1 (ucast imm)" 
  unfolding imm_b_of_def drop_and_1 by (rule word32_eqI; simp add: field_defs masks bit_enc bit_simps bit_beyond b_rd_def b_f7_def del: One_nat_def push_bit_Suc take_bit_Suc_0)

definition j_f7 :: "20 word \<Rightarrow> 7 word" where
  "j_f7 i = ucast (take_bit 6 (drop_bit 4 i)) OR push_bit 6 (ucast (drop_bit 19 i))"
definition j_rs2 :: "20 word \<Rightarrow> 5 word" where
  "j_rs2 i = ucast (take_bit 1 (drop_bit 10 i)) OR push_bit 1 (ucast (take_bit 4 i))"
definition j_rs1 :: "20 word \<Rightarrow> 5 word" where "j_rs1 i = ucast (drop_bit 14 i)"
definition j_f3 :: "20 word \<Rightarrow> 3 word" where "j_f3 i = ucast (drop_bit 11 i)"

lemma enc_imm_j_push: "imm_j_of (enc op rd (j_f3 imm) (j_rs1 imm) (j_rs2 imm) (j_f7 imm)) = push_bit 1 (ucast imm)"
  unfolding imm_j_of_def drop_and_1 by (rule word32_eqI; simp add: field_defs masks bit_enc bit_simps bit_beyond j_f7_def j_rs2_def j_rs1_def j_f3_def del: One_nat_def push_bit_Suc take_bit_Suc_0)

lemma enc_imm_u:
  "imm_u_of (enc op rd (ucast imm) (ucast (drop_bit 3 imm)) (ucast (drop_bit 8 imm)) (ucast (drop_bit 13 imm))) = push_bit 12 (ucast (imm :: 20 word))"
  by (rule word32_eqI; simp add: field_defs masks bit_enc bit_simps bit_beyond)

lemma sext12: "sign_extend (ucast (imm :: 12 word)) 12 = Some (scast imm)"
proof -
  have "take_bit 12 (ucast imm :: u32) = ucast imm"
    by (rule word32_eqI; simp add: bit_simps bit_beyond)
  then have "sign_extend (ucast imm) 12 = Some (signed_take_bit 11 (ucast imm))"
    using sign_extend_signed_take_bit[of 12 "ucast imm"] by simp
  moreover have "signed_take_bit 11 (ucast imm :: u32) = scast imm"
    by (rule word32_eqI; simp add: bit_simps)
  ultimately show ?thesis by simp
qed

lemma sext13_push: "sign_extend (push_bit 1 (ucast (imm :: 12 word))) 13 = Some (push_bit 1 (scast imm))"
proof -
  have "take_bit 13 (push_bit 1 (ucast imm) :: u32) = push_bit 1 (ucast imm)"
    by (rule word32_eqI; simp add: bit_simps bit_beyond del: push_bit_Suc One_nat_def)
  then have "sign_extend (push_bit 1 (ucast imm)) 13 = Some (signed_take_bit 12 (push_bit 1 (ucast imm)))"
    using sign_extend_signed_take_bit[of 13 "push_bit 1 (ucast imm)"] by simp
  moreover have "signed_take_bit 12 (push_bit 1 (ucast imm) :: u32) = push_bit 1 (scast imm)"
    by (rule word32_eqI; simp add: bit_simps del: push_bit_Suc One_nat_def)
  ultimately show ?thesis by simp
qed

lemma sext21_push: "sign_extend (push_bit 1 (ucast (imm :: 20 word))) 21 = Some (push_bit 1 (scast imm))"
proof -
  have "take_bit 21 (push_bit 1 (ucast imm) :: u32) = push_bit 1 (ucast imm)"
    by (rule word32_eqI; simp add: bit_simps bit_beyond del: push_bit_Suc One_nat_def)
  then have "sign_extend (push_bit 1 (ucast imm)) 21 = Some (signed_take_bit 20 (push_bit 1 (ucast imm)))"
    using sign_extend_signed_take_bit[of 21 "push_bit 1 (ucast imm)"] by simp
  moreover have "signed_take_bit 20 (push_bit 1 (ucast imm) :: u32) = push_bit 1 (scast imm)"
    by (rule word32_eqI; simp add: bit_simps del: push_bit_Suc One_nat_def)
  ultimately show ?thesis by simp
qed

lemmas enc_imm_b = enc_imm_b_push[simplified]
lemmas enc_imm_j = enc_imm_j_push[simplified]
lemmas sext13 = sext13_push[simplified]
lemmas sext21 = sext21_push[simplified]

subsection \<open>Abstract syntax and encoding\<close>

datatype branch_cond = BEQ | BNE | BLT | BGE | BLTU | BGEU
datatype load_kind = LB | LH | LW | LBU | LHU
datatype store_kind = SB | SH | SW
datatype imm_kind = ADDI | SLTI | SLTIU | XORI | ORI | ANDI
datatype shift_kind = SLLI | SRLI | SRAI
datatype reg_kind =
    ADD | SUB | SLL | SLT | SLTU | XOR_op | SRL | SRA | OR_op | AND_op
  | MUL | MULH | MULHSU | MULHU | DIV | DIVU | REM | REMU
datatype csr_access = CSRRW | CSRRS | CSRRC

datatype instr =
    LUI "5 word" "20 word"
  | AUIPC "5 word" "20 word"
  | JAL "5 word" "20 word"
  | JALR "5 word" "5 word" "12 word"
  | Branch branch_cond "5 word" "5 word" "12 word"
  | Load load_kind "5 word" "5 word" "12 word"
  | Store store_kind "5 word" "5 word" "12 word"
  | Op_Imm imm_kind "5 word" "5 word" "12 word"
  | Shift_Imm shift_kind "5 word" "5 word" "5 word"
  | Op_Reg reg_kind "5 word" "5 word" "5 word"
  | FENCE "8 word"
  | FENCE_I
  | ECALL
  | EBREAK
  | MRET
  | Csr_Reg csr_access "5 word" "5 word" "12 word"
  | Csr_Imm csr_access "5 word" "5 word" "12 word"

fun branch_f3 :: "branch_cond \<Rightarrow> 3 word" where
  "branch_f3 BEQ = 0" | "branch_f3 BNE = 1" | "branch_f3 BLT = 4" | "branch_f3 BGE = 5"
| "branch_f3 BLTU = 6" | "branch_f3 BGEU = 7"

fun load_f3 :: "load_kind \<Rightarrow> 3 word" where
  "load_f3 LB = 0" | "load_f3 LH = 1" | "load_f3 LW = 2" | "load_f3 LBU = 4" | "load_f3 LHU = 5"

fun store_f3 :: "store_kind \<Rightarrow> 3 word" where
  "store_f3 SB = 0" | "store_f3 SH = 1" | "store_f3 SW = 2"

fun imm_f3 :: "imm_kind \<Rightarrow> 3 word" where
  "imm_f3 ADDI = 0" | "imm_f3 SLTI = 2" | "imm_f3 SLTIU = 3" | "imm_f3 XORI = 4" | "imm_f3 ORI = 6"
| "imm_f3 ANDI = 7"

fun shift_f3_f7 :: "shift_kind \<Rightarrow> 3 word \<times> 7 word" where
  "shift_f3_f7 SLLI = (1, 0)" | "shift_f3_f7 SRLI = (5, 0)" | "shift_f3_f7 SRAI = (5, 0x20)"

fun reg_f3_f7 :: "reg_kind \<Rightarrow> 3 word \<times> 7 word" where
  "reg_f3_f7 ADD = (0, 0)" | "reg_f3_f7 SUB = (0, 0x20)" | "reg_f3_f7 SLL = (1, 0)"
| "reg_f3_f7 SLT = (2, 0)" | "reg_f3_f7 SLTU = (3, 0)" | "reg_f3_f7 XOR_op = (4, 0)"
| "reg_f3_f7 SRL = (5, 0)" | "reg_f3_f7 SRA = (5, 0x20)" | "reg_f3_f7 OR_op = (6, 0)"
| "reg_f3_f7 AND_op = (7, 0)" | "reg_f3_f7 MUL = (0, 1)" | "reg_f3_f7 MULH = (1, 1)"
| "reg_f3_f7 MULHSU = (2, 1)" | "reg_f3_f7 MULHU = (3, 1)" | "reg_f3_f7 DIV = (4, 1)"
| "reg_f3_f7 DIVU = (5, 1)" | "reg_f3_f7 REM = (6, 1)" | "reg_f3_f7 REMU = (7, 1)"

fun csr_f3 :: "csr_access \<Rightarrow> 3 word" where
  "csr_f3 CSRRW = 1" | "csr_f3 CSRRS = 2" | "csr_f3 CSRRC = 3"

definition enc_i :: "7 word \<Rightarrow> 5 word \<Rightarrow> 3 word \<Rightarrow> 5 word \<Rightarrow> 12 word \<Rightarrow> u32" where
  "enc_i op rd f3 rs1 imm = enc op rd f3 rs1 (ucast imm) (ucast (drop_bit 5 imm))"

definition enc_u :: "7 word \<Rightarrow> 5 word \<Rightarrow> 20 word \<Rightarrow> u32" where
  "enc_u op rd imm =
     enc op rd (ucast imm) (ucast (drop_bit 3 imm)) (ucast (drop_bit 8 imm)) (ucast (drop_bit 13 imm))"

fun encode :: "instr \<Rightarrow> u32" where
  "encode (LUI rd imm) = enc_u 0x37 rd imm"
| "encode (AUIPC rd imm) = enc_u 0x17 rd imm"
| "encode (JAL rd imm) = enc 0x6f rd (j_f3 imm) (j_rs1 imm) (j_rs2 imm) (j_f7 imm)"
| "encode (JALR rd rs1 imm) = enc_i 0x67 rd 0 rs1 imm"
| "encode (Branch c rs1 rs2 imm) = enc 0x63 (b_rd imm) (branch_f3 c) rs1 rs2 (b_f7 imm)"
| "encode (Load k rd rs1 imm) = enc_i 0x03 rd (load_f3 k) rs1 imm"
| "encode (Store k rs1 rs2 imm) = enc 0x23 (ucast imm) (store_f3 k) rs1 rs2 (ucast (drop_bit 5 imm))"
| "encode (Op_Imm k rd rs1 imm) = enc_i 0x13 rd (imm_f3 k) rs1 imm"
| "encode (Shift_Imm k rd rs1 shamt) = enc 0x13 rd (fst (shift_f3_f7 k)) rs1 shamt (snd (shift_f3_f7 k))"
| "encode (Op_Reg k rd rs1 rs2) = enc 0x33 rd (fst (reg_f3_f7 k)) rs1 rs2 (snd (reg_f3_f7 k))"
| "encode (FENCE ps) = enc_i 0x0f 0 0 0 (ucast ps)"
| "encode FENCE_I = enc_i 0x0f 0 1 0 0"
| "encode ECALL = enc 0x73 0 0 0 0 0"
| "encode EBREAK = enc 0x73 0 0 0 1 0"
| "encode MRET = enc 0x73 0 0 0 2 0x18"
| "encode (Csr_Reg k rd rs1 a) = enc_i 0x73 rd (csr_f3 k) rs1 a"
| "encode (Csr_Imm k rd z a) = enc_i 0x73 rd (csr_f3 k + 4) z a"

subsection \<open>What the decoder is to produce\<close>

fun branch_ops :: "branch_cond \<Rightarrow> op_t \<times> bru_op_t" where
  "branch_ops BEQ = (Op_beq, Bru_beq)" | "branch_ops BNE = (Op_bne, Bru_bne)"
| "branch_ops BLT = (Op_blt, Bru_blt)" | "branch_ops BGE = (Op_bge, Bru_bge)"
| "branch_ops BLTU = (Op_bltu, Bru_bltu)" | "branch_ops BGEU = (Op_bgeu, Bru_bgeu)"

fun load_ops :: "load_kind \<Rightarrow> op_t \<times> lsu_op_t" where
  "load_ops LB = (Op_lb, Lsu_lb)" | "load_ops LH = (Op_lh, Lsu_lh)" | "load_ops LW = (Op_lw, Lsu_lw)"
| "load_ops LBU = (Op_lbu, Lsu_lbu)" | "load_ops LHU = (Op_lhu, Lsu_lhu)"

fun store_ops :: "store_kind \<Rightarrow> op_t \<times> lsu_op_t" where
  "store_ops SB = (Op_sb, Lsu_sb)" | "store_ops SH = (Op_sh, Lsu_sh)" | "store_ops SW = (Op_sw, Lsu_sw)"

fun imm_ops :: "imm_kind \<Rightarrow> op_t \<times> alu_op_t" where
  "imm_ops ADDI = (Op_addi, Alu_add)" | "imm_ops SLTI = (Op_slti, Alu_slt)"
| "imm_ops SLTIU = (Op_sltiu, Alu_sltu)" | "imm_ops XORI = (Op_xori, Alu_xor)"
| "imm_ops ORI = (Op_ori, Alu_or)" | "imm_ops ANDI = (Op_andi, Alu_and)"

fun shift_ops :: "shift_kind \<Rightarrow> op_t \<times> alu_op_t" where
  "shift_ops SLLI = (Op_slli, Alu_sll)" | "shift_ops SRLI = (Op_srli, Alu_srl)"
| "shift_ops SRAI = (Op_srai, Alu_sra)"

fun reg_ops :: "reg_kind \<Rightarrow> op_t \<times> op_unit_t \<times> sub_op_t" where
  "reg_ops ADD = (Op_add, Unit_alu, Sub_alu Alu_add)"
| "reg_ops SUB = (Op_sub, Unit_alu, Sub_alu Alu_sub)"
| "reg_ops SLL = (Op_sll, Unit_alu, Sub_alu Alu_sll)"
| "reg_ops SLT = (Op_slt, Unit_alu, Sub_alu Alu_slt)"
| "reg_ops SLTU = (Op_sltu, Unit_alu, Sub_alu Alu_sltu)"
| "reg_ops XOR_op = (Op_xor, Unit_alu, Sub_alu Alu_xor)"
| "reg_ops SRL = (Op_srl, Unit_alu, Sub_alu Alu_srl)"
| "reg_ops SRA = (Op_sra, Unit_alu, Sub_alu Alu_sra)"
| "reg_ops OR_op = (Op_or, Unit_alu, Sub_alu Alu_or)"
| "reg_ops AND_op = (Op_and, Unit_alu, Sub_alu Alu_and)"
| "reg_ops MUL = (Op_mul, Unit_mul, Sub_mul Mul_mul)"
| "reg_ops MULH = (Op_mulh, Unit_mul, Sub_mul Mul_mulh)"
| "reg_ops MULHSU = (Op_mulhsu, Unit_mul, Sub_mul Mul_mulhsu)"
| "reg_ops MULHU = (Op_mulhu, Unit_mul, Sub_mul Mul_mulhu)"
| "reg_ops DIV = (Op_div, Unit_div, Sub_div Div_div)"
| "reg_ops DIVU = (Op_divu, Unit_div, Sub_div Div_divu)"
| "reg_ops REM = (Op_rem, Unit_div, Sub_div Div_rem)"
| "reg_ops REMU = (Op_remu, Unit_div, Sub_div Div_remu)"

fun csr_ops :: "csr_access \<Rightarrow> csr_op_t" where
  "csr_ops CSRRW = Csr_csrrw" | "csr_ops CSRRS = Csr_csrrs" | "csr_ops CSRRC = Csr_csrrc"

fun csr_op :: "csr_access \<Rightarrow> bool \<Rightarrow> op_t" where
  "csr_op CSRRW False = Op_csrrw" | "csr_op CSRRS False = Op_csrrs" | "csr_op CSRRC False = Op_csrrc"
| "csr_op CSRRW True = Op_csrrwi" | "csr_op CSRRS True = Op_csrrsi" | "csr_op CSRRC True = Op_csrrci"

text \<open>The sign-extended shift amount field of \<open>SRAI\<close> has bit 10 set; only its low bits are used.\<close>

fun shift_field :: "shift_kind \<Rightarrow> 5 word \<Rightarrow> 12 word" where
  "shift_field k shamt = ucast shamt OR push_bit 5 (ucast (snd (shift_f3_f7 k)))"

fun decoded :: "instr \<Rightarrow> isa_state_t \<Rightarrow> isa_state_t" where
  "decoded (LUI rd imm) s =
     s\<lparr>i_op := Op_lui, i_sub_op := Sub_alu Alu_lui, i_arg1_src := Arg_disable, i_arg2_src := Arg_disable,
       i_imm := push_bit 12 (ucast imm), i_rd := ucast rd, i_rd_enable := True\<rparr>"
| "decoded (AUIPC rd imm) s =
     s\<lparr>i_op := Op_auipc, i_sub_op := Sub_alu Alu_auipc, i_arg1_src := Arg_disable,
       i_arg2_src := Arg_disable, i_imm := push_bit 12 (ucast imm), i_rd := ucast rd, i_rd_enable := True\<rparr>"
| "decoded (JAL rd imm) s =
     s\<lparr>i_op := Op_jal, i_op_unit := Unit_bru, i_sub_op := Sub_bru Bru_jal, i_arg1_src := Arg_disable,
       i_arg2_src := Arg_disable, i_imm := scast imm * 2, i_rd := ucast rd, i_rd_enable := True\<rparr>"
| "decoded (JALR rd rs1 imm) s =
     s\<lparr>i_op := Op_jalr, i_op_unit := Unit_bru, i_sub_op := Sub_bru Bru_jalr, i_rs1 := ucast rs1,
       i_arg2_src := Arg_disable, i_imm := scast imm, i_rd := ucast rd, i_rd_enable := True\<rparr>"
| "decoded (Branch c rs1 rs2 imm) s =
     s\<lparr>i_op := fst (branch_ops c), i_op_unit := Unit_bru, i_sub_op := Sub_bru (snd (branch_ops c)),
       i_rs1 := ucast rs1, i_arg2_src := Arg_reg, i_rs2 := ucast rs2, i_imm := scast imm * 2\<rparr>"
| "decoded (Load k rd rs1 imm) s =
     s\<lparr>i_op := fst (load_ops k), i_op_unit := Unit_lsu, i_sub_op := Sub_lsu (snd (load_ops k)),
       i_rs1 := ucast rs1, i_arg2_src := Arg_disable, i_imm := scast imm, i_rd := ucast rd,
       i_rd_enable := True\<rparr>"
| "decoded (Store k rs1 rs2 imm) s =
     s\<lparr>i_op := fst (store_ops k), i_op_unit := Unit_lsu, i_sub_op := Sub_lsu (snd (store_ops k)),
       i_rs1 := ucast rs1, i_arg2_src := Arg_reg, i_rs2 := ucast rs2, i_imm := scast imm\<rparr>"
| "decoded (Op_Imm k rd rs1 imm) s =
     s\<lparr>i_op := fst (imm_ops k), i_sub_op := Sub_alu (snd (imm_ops k)), i_rs1 := ucast rs1,
       i_arg2_src := Arg_imm, i_imm := scast imm, i_rd := ucast rd, i_rd_enable := True\<rparr>"
| "decoded (Shift_Imm k rd rs1 shamt) s =
     s\<lparr>i_op := fst (shift_ops k), i_sub_op := Sub_alu (snd (shift_ops k)), i_rs1 := ucast rs1,
       i_arg2_src := Arg_imm, i_imm := scast (shift_field k shamt), i_rd := ucast rd,
       i_rd_enable := True\<rparr>"
| "decoded (Op_Reg k rd rs1 rs2) s =
     s\<lparr>i_op := fst (reg_ops k), i_op_unit := fst (snd (reg_ops k)), i_sub_op := snd (snd (reg_ops k)),
       i_rs1 := ucast rs1, i_arg2_src := Arg_reg, i_rs2 := ucast rs2, i_rd := ucast rd,
       i_rd_enable := True\<rparr>"
| "decoded (FENCE ps) s =
     s\<lparr>i_op := Op_fence, i_sub_op := Sub_alu Alu_fence, i_arg1_src := Arg_disable,
       i_arg2_src := Arg_disable, i_imm := ucast ps\<rparr>"
| "decoded FENCE_I s =
     s\<lparr>i_op := Op_fence_i, i_sub_op := Sub_alu Alu_fence_i, i_arg1_src := Arg_disable,
       i_arg2_src := Arg_disable\<rparr>"
| "decoded ECALL s =
     s\<lparr>i_op := Op_ecall, i_sub_op := Sub_alu Alu_ecall, i_arg1_src := Arg_disable,
       i_arg2_src := Arg_disable\<rparr>"
| "decoded EBREAK s =
     s\<lparr>i_op := Op_ebreak, i_sub_op := Sub_alu Alu_ebreak, i_arg1_src := Arg_disable,
       i_arg2_src := Arg_disable\<rparr>"
| "decoded MRET s =
     s\<lparr>i_op := Op_mret, i_op_unit := Unit_bru, i_sub_op := Sub_bru Bru_mret,
       i_arg1_src := Arg_disable, i_arg2_src := Arg_disable\<rparr>"
| "decoded (Csr_Reg k rd rs1 a) s =
     s\<lparr>i_op := csr_op k False, i_op_unit := Unit_csr, i_sub_op := Sub_csr (csr_ops k), i_rs1 := ucast rs1,
       i_arg2_src := Arg_disable, i_csr := ucast a, i_rd := ucast rd, i_rd_enable := True\<rparr>"
| "decoded (Csr_Imm k rd z a) s =
     s\<lparr>i_op := csr_op k True, i_op_unit := Unit_csr, i_sub_op := Sub_csr (csr_ops k),
       i_arg1_src := Arg_imm, i_imm := ucast z,
       i_arg2_src := Arg_disable, i_csr := ucast a, i_rd := ucast rd, i_rd_enable := True\<rparr>"

lemmas isa_decode_defs =
  isa_decode_lui_def isa_decode_auipc_def isa_decode_jal_def isa_decode_jalr_def
  isa_decode_branch_def isa_decode_load_def isa_decode_store_def isa_decode_op_imm_def
  isa_decode_op_def isa_decode_fence_def isa_decode_priv_def isa_decode_system_def

lemma enc_i_fields:
  "opcode_of (enc_i op rd f3 rs1 imm) = ucast op"
  "rd_of (enc_i op rd f3 rs1 imm) = ucast rd"
  "funct3_of (enc_i op rd f3 rs1 imm) = ucast f3"
  "rs1_of (enc_i op rd f3 rs1 imm) = ucast rs1"
  "imm_i_of (enc_i op rd f3 rs1 imm) = ucast imm"
  by (simp_all add: enc_i_def enc_fields enc_imm_i)

lemma enc_u_fields:
  "opcode_of (enc_u op rd imm) = ucast op" "rd_of (enc_u op rd imm) = ucast rd"
  "imm_u_of (enc_u op rd imm) = push_bit 12 (ucast imm)"
  by (simp_all add: enc_u_def enc_fields enc_imm_u)

lemma enc_shift_imm: "imm_i_of (enc op rd f3 rs1 shamt f7) = ucast (ucast shamt OR push_bit 5 (ucast f7) :: 12 word)"
  by (rule word32_eqI; simp add: field_defs masks bit_enc bit_simps bit_beyond)

lemma fence_fm: "drop_bit 28 (enc_i op rd f3 rs1 (ucast (ps :: 8 word))) AND 15 = 0"
  by (rule word32_eqI; simp add: enc_i_def masks bit_enc bit_simps bit_beyond)

lemma ucast_8_12: "ucast (ucast (ps :: 8 word) :: 12 word) = (ucast ps :: u32)"
  by (rule word32_eqI; simp add: bit_simps bit_beyond)

lemma ucast_8_32_12: "ucast (ucast (ps :: 8 word) :: u32) = (ucast ps :: 12 word)"
  by (rule bit_word_eqI) (simp add: bit_simps)

lemmas encode_fields = enc_fields enc_i_fields enc_u_fields enc_imm_s enc_imm_b enc_imm_j
  sext12 sext13 sext21

lemma isa_decode_encode:
  assumes "i_arg1_src s = Arg_reg" and "i_op_unit s = Unit_alu"
  shows "isa_decode_opcode (encode i) s = Some (decoded i s)"
proof -
  have s: "s\<lparr>i_arg1_src := Arg_reg\<rparr> = s" "s\<lparr>i_op_unit := Unit_alu\<rparr> = s"
    using assms by (cases s, simp)+
  show ?thesis
  proof (cases i)
    case (Branch c rs1 rs2 imm)
    then show ?thesis using assms by (cases s; cases c)
       (simp_all add: isa_decode_opcode_def isa_decode_branch_def encode_fields)
  next
    case (Load k rd rs1 imm)
    then show ?thesis using assms by (cases s; cases k)
       (simp_all add: isa_decode_opcode_def isa_decode_load_def encode_fields)
  next
    case (Store k rs1 rs2 imm)
    then show ?thesis using assms by (cases s; cases k)
       (simp_all add: isa_decode_opcode_def isa_decode_store_def encode_fields)
  next
    case (Op_Imm k rd rs1 imm)
    then show ?thesis using assms by (cases s; cases k)
       (simp_all add: isa_decode_opcode_def isa_decode_op_imm_def encode_fields)
  next
    case (Shift_Imm k rd rs1 imm)
    then show ?thesis using assms by (cases s; cases k)
       (simp_all add: isa_decode_opcode_def isa_decode_op_imm_def encode_fields enc_shift_imm)
  next
    case (Op_Reg k rd rs1 imm)
    then show ?thesis using assms by (cases s; cases k)
       (simp_all add: isa_decode_opcode_def isa_decode_op_def encode_fields)
  next
    case (Csr_Reg k rd rs1 imm)
    then show ?thesis using assms by (cases s; cases k)
       (simp_all add: isa_decode_opcode_def isa_decode_system_def encode_fields)
  next
    case (Csr_Imm k rd rs1 imm)
    then show ?thesis using assms by (cases s; cases k)
       (simp_all add: isa_decode_opcode_def isa_decode_system_def encode_fields)
  next
    case (FENCE ps)
    then show ?thesis using assms by (cases s)
       (simp add: isa_decode_opcode_def isa_decode_fence_def encode_fields fence_fm ucast_8_12)
  qed (use assms in \<open>cases s, simp add: isa_decode_opcode_def isa_decode_defs encode_fields\<close>)+
qed

subsection \<open>Every word the decoder accepts is an encoding\<close>

lemma enc_of_fields:
  "enc (ucast (opcode_of w)) (ucast (rd_of w)) (ucast (funct3_of w)) (ucast (rs1_of w))
     (ucast (rs2_of w)) (ucast (funct7_of w)) = w"
  by (rule word32_eqI; simp add: field_defs masks bit_enc bit_simps bit_beyond)

lemma enc_i_of_fields:
  "enc_i (ucast (opcode_of w)) (ucast (rd_of w)) (ucast (funct3_of w)) (ucast (rs1_of w))
     (ucast (imm_i_of w)) = w"
  by (rule word32_eqI; simp add: enc_i_def field_defs masks bit_enc bit_simps bit_beyond)

lemma enc_u_of_fields:
  "enc_u (ucast (opcode_of w)) (ucast (rd_of w)) (ucast (drop_bit 12 w)) = w"
  by (rule word32_eqI; simp add: enc_u_def field_defs masks bit_enc bit_simps bit_beyond)

lemma enc_s_of_fields:
  "enc (ucast (opcode_of w)) (ucast (ucast (imm_s_of w) :: 12 word)) (ucast (funct3_of w)) (ucast (rs1_of w))
     (ucast (rs2_of w)) (ucast (drop_bit 5 (ucast (imm_s_of w) :: 12 word))) = w"
  by (rule word32_eqI; simp add: field_defs masks bit_enc bit_simps bit_beyond)

definition b_imm :: "u32 \<Rightarrow> 12 word" where
  "b_imm w = ucast (drop_bit 8 w AND mask 4) OR push_bit 4 (ucast (drop_bit 25 w AND mask 6)) OR
     push_bit 10 (of_bool (bit w 7)) OR push_bit 11 (of_bool (bit w 31))"

lemma enc_b_of_fields:
  "enc (ucast (opcode_of w)) (b_rd (b_imm w)) (ucast (funct3_of w)) (ucast (rs1_of w))
     (ucast (rs2_of w)) (b_f7 (b_imm w)) = w"
  by (rule word32_eqI; simp add: b_imm_def b_rd_def b_f7_def field_defs masks bit_enc bit_simps
      bit_beyond del: One_nat_def push_bit_Suc take_bit_Suc_0)

definition j_imm :: "u32 \<Rightarrow> 20 word" where
  "j_imm w = ucast (drop_bit 21 w AND mask 10) OR push_bit 10 (of_bool (bit w 20)) OR
     push_bit 11 (ucast (drop_bit 12 w AND mask 8)) OR push_bit 19 (of_bool (bit w 31))"

lemma enc_j_of_fields:
  "enc (ucast (opcode_of w)) (ucast (rd_of w)) (j_f3 (j_imm w)) (j_rs1 (j_imm w)) (j_rs2 (j_imm w))
     (j_f7 (j_imm w)) = w"
  by (rule word32_eqI; simp add: j_imm_def j_f3_def j_rs1_def j_rs2_def j_f7_def field_defs masks
      bit_enc bit_simps bit_beyond del: One_nat_def push_bit_Suc take_bit_Suc_0)

lemma fence_of_fields:
  assumes "drop_bit 28 w AND 0x0f = 0"
  shows "imm_i_of w = ucast (ucast (drop_bit 20 w) :: 8 word)"
proof -
  have "\<not> bit w 28" "\<not> bit w 29" "\<not> bit w 30" "\<not> bit w 31"
    using arg_cong[OF assms, of "\<lambda>x. bit x 0"] arg_cong[OF assms, of "\<lambda>x. bit x 1"]
      arg_cong[OF assms, of "\<lambda>x. bit x 2"] arg_cong[OF assms, of "\<lambda>x. bit x 3"]
    by (simp_all add: masks bit_simps)
  then show ?thesis
    by (intro word32_eqI) (simp_all add: field_defs masks bit_simps bit_beyond)
qed

definition is_encoding :: "u32 \<Rightarrow> bool" where
  "is_encoding w \<longleftrightarrow> w \<in> range encode"

lemma is_encodingI: "encode i = w \<Longrightarrow> is_encoding w"
  by (auto simp: is_encoding_def)

lemma branch_accepts:
  assumes "opcode_of w = 0x63" and "isa_decode_branch w s = Some s'" and "i_valid s'"
  shows "is_encoding w"
proof -
  have "funct3_of w \<in> {0, 1, 4, 5, 6, 7}"
    using assms(2,3) by (auto simp: isa_decode_branch_def Let_def split: if_splits elim!: bind_eq_SomeE)
  then obtain c where "ucast (funct3_of w) = branch_f3 c"
    by (auto intro: that[of BEQ] that[of BNE] that[of BLT] that[of BGE] that[of BLTU] that[of BGEU])
  then have "encode (Branch c (ucast (rs1_of w)) (ucast (rs2_of w)) (b_imm w)) = w"
    using enc_b_of_fields[of w] assms(1) by simp
  then show ?thesis by (rule is_encodingI)
qed

lemma load_accepts:
  assumes "opcode_of w = 0x03" and "isa_decode_load w s = Some s'" and "i_valid s'"
  shows "is_encoding w"
proof -
  have "funct3_of w \<in> {0, 1, 2, 4, 5}"
    using assms(2,3)
    by (auto simp: isa_decode_load_def Let_def split: if_splits elim!: bind_eq_SomeE)
  then obtain c where "ucast (funct3_of w) = load_f3 c"
    by (auto intro: that[of LB] that[of LH] that[of LW] that[of LBU] that[of LHU])
  then have "encode (Load c (ucast (rd_of w)) (ucast (rs1_of w)) (ucast (imm_i_of w))) = w"
    using enc_i_of_fields[of w] assms(1) by simp
  then show ?thesis by (rule is_encodingI)
qed

lemma store_accepts:
  assumes "opcode_of w = 0x23" and "isa_decode_store w s = Some s'" and "i_valid s'"
  shows "is_encoding w"
proof -
  have "funct3_of w \<in> {0, 1, 2}"
    using assms(2,3)
    by (auto simp: isa_decode_store_def Let_def split: if_splits elim!: bind_eq_SomeE)
  then obtain c where "ucast (funct3_of w) = store_f3 c"
    by (auto intro: that[of SB] that[of SH] that[of SW])
  then have "encode (Store c (ucast (rs1_of w)) (ucast (rs2_of w)) (ucast (imm_s_of w))) = w"
    using enc_s_of_fields[of w] assms(1) by simp
  then show ?thesis by (rule is_encodingI)
qed

lemma op_imm_accepts:
  assumes "opcode_of w = 0x13" and "isa_decode_op_imm w s = Some s'" and "i_valid s'"
  shows "is_encoding w"
proof -
  have "funct3_of w \<in> {0, 2, 3, 4, 6, 7} \<or> (funct3_of w, funct7_of w) \<in> {(1, 0), (5, 0), (5, 0x20)}"
    using assms(2,3)
    by (auto simp: isa_decode_op_imm_def Let_def split: if_splits elim!: bind_eq_SomeE)
  then show ?thesis
  proof
    assume "funct3_of w \<in> {0, 2, 3, 4, 6, 7}"
    then obtain k where "ucast (funct3_of w) = imm_f3 k"
      by (auto intro: that[of ADDI] that[of SLTI] that[of SLTIU] that[of XORI] that[of ORI] that[of ANDI])
    then have "encode (Op_Imm k (ucast (rd_of w)) (ucast (rs1_of w)) (ucast (imm_i_of w))) = w"
      using enc_i_of_fields[of w] assms(1) by simp
    then show ?thesis by (rule is_encodingI)
  next
    assume "(funct3_of w, funct7_of w) \<in> {(1, 0), (5, 0), (5, 0x20)}"
    then obtain k where "(ucast (funct3_of w), ucast (funct7_of w)) = shift_f3_f7 k"
      by (auto intro: that[of SLLI] that[of SRLI] that[of SRAI])
    then have "fst (shift_f3_f7 k) = ucast (funct3_of w)" "snd (shift_f3_f7 k) = ucast (funct7_of w)"
      by (metis fst_conv, metis snd_conv)
    then have "encode (Shift_Imm k (ucast (rd_of w)) (ucast (rs1_of w)) (ucast (rs2_of w))) = w"
      using enc_of_fields[of w] assms(1) by simp
    then show ?thesis by (rule is_encodingI)
  qed
qed

lemma op_accepts:
  assumes "opcode_of w = 0x33" and "i_valid (isa_decode_op w s)"
  shows "is_encoding w"
proof -
  have "(funct3_of w, funct7_of w) \<in>
      {(0, 0), (0, 32), (1, 0), (2, 0), (3, 0), (4, 0), (5, 0), (5, 32), (6, 0), (7, 0), (0, 1), (1, 1), (2, 1), (3, 1), (4, 1), (5, 1), (6, 1), (7, 1)}"
    using assms(2) by (auto simp: isa_decode_op_def Let_def split: if_splits)
  then obtain k where "(ucast (funct3_of w), ucast (funct7_of w)) = reg_f3_f7 k"
    by (auto intro: that[of ADD] that[of SUB] that[of SLL] that[of SLT] that[of SLTU] that[of XOR_op] that[of SRL] that[of SRA] that[of OR_op] that[of AND_op] that[of MUL] that[of MULH] that[of MULHSU] that[of MULHU] that[of DIV] that[of DIVU] that[of REM] that[of REMU])
  then have "fst (reg_f3_f7 k) = ucast (funct3_of w)" "snd (reg_f3_f7 k) = ucast (funct7_of w)"
    by (metis fst_conv, metis snd_conv)
  then have "encode (Op_Reg k (ucast (rd_of w)) (ucast (rs1_of w)) (ucast (rs2_of w))) = w"
    using enc_of_fields[of w] assms(1) by simp
  then show ?thesis by (rule is_encodingI)
qed

lemma fence_accepts:
  assumes "opcode_of w = 0x0f" and "i_valid (isa_decode_fence w s)"
  shows "is_encoding w"
proof -
  have z: "rd_of w = 0" "rs1_of w = 0"
    using assms(2) by (auto simp: isa_decode_fence_def split: if_splits)
  have "funct3_of w = 0 \<and> drop_bit 28 w AND 0x0f = 0 \<or> funct3_of w = 1 \<and> imm_i_of w = 0"
    using assms(2) by (auto simp: isa_decode_fence_def split: if_splits)
  then show ?thesis
  proof
    assume f: "funct3_of w = 0 \<and> drop_bit 28 w AND 0x0f = 0"
    have "ucast (imm_i_of w) = (ucast (ucast (drop_bit 20 w) :: 8 word) :: 12 word)"
      using fence_of_fields[of w] f by (simp add: ucast_8_32_12)
    then have "encode (FENCE (ucast (drop_bit 20 w))) = w"
      using enc_i_of_fields[of w] assms(1) z f by simp
    then show ?thesis by (rule is_encodingI)
  next
    assume "funct3_of w = 1 \<and> imm_i_of w = 0"
    then have "encode FENCE_I = w" using enc_i_of_fields[of w] assms(1) z by simp
    then show ?thesis by (rule is_encodingI)
  qed
qed

lemma priv_accepts:
  assumes "opcode_of w = 0x73" and "funct3_of w = 0" and "i_valid (isa_decode_priv w s)"
  shows "is_encoding w"
proof -
  have z: "rd_of w = 0" "rs1_of w = 0"
    using assms(3) by (auto simp: isa_decode_priv_def split: if_splits)
  have "(funct7_of w, rs2_of w) \<in> {(0, 0), (0, 1), (0x18, 2)}"
    using assms(3) by (auto simp: isa_decode_priv_def split: if_splits)
  then have "w \<in> {encode ECALL, encode EBREAK, encode MRET}"
    using enc_of_fields[of w] assms(1,2) z by auto
  then show ?thesis unfolding is_encoding_def by blast
qed

lemma system_accepts:
  assumes "opcode_of w = 0x73" and "i_valid (isa_decode_system w s)"
  shows "is_encoding w"
proof (cases "funct3_of w = 0")
  case True
  then show ?thesis using assms priv_accepts by (simp add: isa_decode_system_def)
next
  case False
  then have "funct3_of w \<in> {1, 2, 3, 5, 6, 7}"
    using assms(2) by (auto simp: isa_decode_system_def split: if_splits)
  then obtain k where "ucast (funct3_of w) = csr_f3 k \<or> ucast (funct3_of w) = csr_f3 k + 4"
    by (auto intro: that[of CSRRW] that[of CSRRS] that[of CSRRC])
  then have "encode (Csr_Reg k (ucast (rd_of w)) (ucast (rs1_of w)) (ucast (imm_i_of w))) = w \<or>
      encode (Csr_Imm k (ucast (rd_of w)) (ucast (rs1_of w)) (ucast (imm_i_of w))) = w"
    using enc_i_of_fields[of w] assms(1) by auto
  then show ?thesis unfolding is_encoding_def by (metis rangeI)
qed

lemma upper_accepts:
  assumes "opcode_of w \<in> {0x37, 0x17, 0x6f}"
  shows "is_encoding w"
proof -
  have "w \<in> {encode (LUI (ucast (rd_of w)) (ucast (drop_bit 12 w))),
      encode (AUIPC (ucast (rd_of w)) (ucast (drop_bit 12 w))), encode (JAL (ucast (rd_of w)) (j_imm w))}"
    using enc_u_of_fields[of w] enc_j_of_fields[of w] assms by auto
  then show ?thesis unfolding is_encoding_def by blast
qed

lemma isa_decode_accepts:
  assumes "isa_decode_opcode w s = Some s'" and "i_valid s'"
  shows "is_encoding w \<or> opcode_of w = 0x67"
  using assms branch_accepts load_accepts store_accepts op_imm_accepts op_accepts fence_accepts
    system_accepts upper_accepts
  by (auto simp: isa_decode_opcode_def split: if_splits)

end
