(* ===== verification/Isa_Sem.thy ===== *)
theory Isa_Sem
  imports Riscv_Spec
begin

text \<open>
  The arithmetic, branch and access meaning of the instructions of \<open>Riscv_Spec\<close>, stated over unbounded
  integers, and a closed form of what fetch, decode and execute of \<^verbatim>\<open>isa_model.cpp\<close> do with each
  instruction (\<open>code_sem\<close>), with the proof that they do. The closed form describes the code: \<open>code_csr\<close>,
  \<open>code_mret\<close> and \<open>code_trap\<close> follow it where it departs from the RISC-V manual. What the manual asks for
  is in \<open>Riscv_Effect\<close>, and the two are compared there.
\<close>

subsection \<open>Arithmetic over the integers\<close>

definition trunc_div :: "int \<Rightarrow> int \<Rightarrow> int" where
  "trunc_div x y = sgn x * sgn y * (\<bar>x\<bar> div \<bar>y\<bar>)"

definition trunc_rem :: "int \<Rightarrow> int \<Rightarrow> int" where
  "trunc_rem x y = x - y * trunc_div x y"

fun reg_sem :: "reg_kind \<Rightarrow> u32 \<Rightarrow> u32 \<Rightarrow> u32" where
  "reg_sem ADD a b = word_of_int (sint a + sint b)"
| "reg_sem SUB a b = word_of_int (sint a - sint b)"
| "reg_sem SLL a b = word_of_int (uint a * 2 ^ (unat b mod 32))"
| "reg_sem SLT a b = (if sint a < sint b then 1 else 0)"
| "reg_sem SLTU a b = (if uint a < uint b then 1 else 0)"
| "reg_sem XOR_op a b = a XOR b"
| "reg_sem SRL a b = word_of_int (uint a div 2 ^ (unat b mod 32))"
| "reg_sem SRA a b = word_of_int (sint a div 2 ^ (unat b mod 32))"
| "reg_sem OR_op a b = a OR b"
| "reg_sem AND_op a b = a AND b"
| "reg_sem MUL a b = word_of_int (sint a * sint b)"
| "reg_sem MULH a b = word_of_int ((sint a * sint b) div 2 ^ 32)"
| "reg_sem MULHSU a b = word_of_int ((sint a * uint b) div 2 ^ 32)"
| "reg_sem MULHU a b = word_of_int ((uint a * uint b) div 2 ^ 32)"
| "reg_sem DIV a b = (if b = 0 then word_of_int (- 1) else word_of_int (trunc_div (sint a) (sint b)))"
| "reg_sem DIVU a b = (if b = 0 then word_of_int (2 ^ 32 - 1) else word_of_int (uint a div uint b))"
| "reg_sem REM a b = (if b = 0 then a else word_of_int (trunc_rem (sint a) (sint b)))"
| "reg_sem REMU a b = (if b = 0 then a else word_of_int (uint a mod uint b))"

lemma shamt: "unat (b AND 0x1f :: u32) = unat b mod 32"
proof -
  have "b AND 0x1f = take_bit 5 b" by (simp add: take_bit_eq_mask masks)
  then show ?thesis by (simp add: take_bit_eq_mod unat_mod_distrib)
qed

lemma sdiv_trunc: "x sdiv y = trunc_div x y" for x y :: int
  by (simp add: trunc_div_def signed_divide_int_def)

lemma smod_trunc: "x smod y = trunc_rem x y" for x y :: int
proof -
  have "x = y * (x sdiv y) + x smod y"
    by (metis mult_sdiv_smod_eq mult.commute)
  then show ?thesis by (simp add: trunc_rem_def sdiv_trunc)
qed

lemma low_half:
  fixes p :: u64
  shows "ucast (p AND 0xffffffff) = (word_of_int (uint p) :: u32)"
proof -
  have m: "(0xffffffff::u64) = mask 32" by (simp add: mask_eq_exp_minus_1)
  have "ucast (p AND mask 32) = (ucast p :: u32)"
    by (rule bit_word_eqI) (simp add: bit_simps)
  then show ?thesis by (simp only: m ucast_eq)
qed

lemma mul_int: "(scast (a::u32) :: u64) * scast b = word_of_int (sint a * sint (b::u32))"
  by (simp only: scast_eq of_int_mult)

lemma mulhsu_int: "(scast (a::u32) :: u64) * ucast b = word_of_int (sint a * uint (b::u32))"
  by (simp only: scast_eq ucast_eq of_int_mult)

lemma mulhu_int: "(ucast (a::u32) :: u64) * ucast b = word_of_int (uint a * uint (b::u32))"
  by (simp only: ucast_eq of_int_mult)

lemma high_half_of_int:
  "ucast (drop_bit 32 (word_of_int x :: u64) AND 0xffffffff) = (word_of_int (x div 2 ^ 32) :: u32)"
proof -
  have "bit (drop_bit 32 (word_of_int x :: u64)) n = bit (drop_bit 32 x) n" if "n < 32" for n
    using that by (simp add: bit_simps bit_word_of_int_iff)
  then have "ucast (drop_bit 32 (word_of_int x :: u64)) = (word_of_int (drop_bit 32 x) :: u32)"
    by (intro bit_word_eqI) (simp add: bit_ucast_iff bit_word_of_int_iff)
  moreover have "ucast (drop_bit 32 (word_of_int x :: u64) AND 0xffffffff) = (ucast (drop_bit 32 (word_of_int x :: u64)) :: u32)"
    using low_half[of "drop_bit 32 (word_of_int x)"] by (simp only: ucast_eq)
  ultimately show ?thesis by (simp only: drop_bit_eq_div)
qed

lemma low_half_of_int:
  "ucast ((word_of_int x :: u64) AND 0xffffffff) = (word_of_int x :: u32)"
proof -
  have "ucast (word_of_int x :: u64) = (word_of_int x :: u32)"
    by (rule bit_word_eqI) (simp add: bit_ucast_iff bit_word_of_int_iff)
  then show ?thesis using low_half[of "word_of_int x"] by (simp only: ucast_eq)
qed

lemma mul_result_sem:
  "mul_result Mul_mul a b = reg_sem MUL a b" "mul_result Mul_mulh a b = reg_sem MULH a b"
  "mul_result Mul_mulhsu a b = reg_sem MULHSU a b" "mul_result Mul_mulhu a b = reg_sem MULHU a b"
  by (simp_all only: mul_result.simps reg_sem.simps mul_int mulhsu_int mulhu_int low_half_of_int high_half_of_int)

lemma div_result_sem:
  "div_result Div_div a b = reg_sem DIV a b" "div_result Div_divu a b = reg_sem DIVU a b"
  "div_result Div_rem a b = reg_sem REM a b" "div_result Div_remu a b = reg_sem REMU a b"
proof -
  have o: "sint (0x80000000 :: u32) = - 2147483648" "sint (0xFFFFFFFF :: u32) = - 1" by simp_all
  show "div_result Div_div a b = reg_sem DIV a b"
    by (simp add: sdiv_trunc) (simp add: trunc_div_def)
  show "div_result Div_rem a b = reg_sem REM a b"
    by (simp add: smod_trunc) (simp add: trunc_rem_def trunc_div_def)
  show "div_result Div_divu a b = reg_sem DIVU a b"
    by (simp add: word_div_def)
  show "div_result Div_remu a b = reg_sem REMU a b"
    by (simp add: word_mod_def)
qed

lemma alu_result_sem:
  "alu_result Alu_add pc imm a b = reg_sem ADD a b" "alu_result Alu_sub pc imm a b = reg_sem SUB a b"
  "alu_result Alu_sll pc imm a b = reg_sem SLL a b" "alu_result Alu_slt pc imm a b = reg_sem SLT a b"
  "alu_result Alu_sltu pc imm a b = reg_sem SLTU a b" "alu_result Alu_xor pc imm a b = reg_sem XOR_op a b"
  "alu_result Alu_srl pc imm a b = reg_sem SRL a b" "alu_result Alu_sra pc imm a b = reg_sem SRA a b"
  "alu_result Alu_or pc imm a b = reg_sem OR_op a b" "alu_result Alu_and pc imm a b = reg_sem AND_op a b"
proof -
  show "alu_result Alu_sll pc imm a b = reg_sem SLL a b"
    by (simp add: shamt push_bit_eq_mult)
  show "alu_result Alu_srl pc imm a b = reg_sem SRL a b"
  proof -
    have "uint (drop_bit n a) = uint a div 2 ^ n" for n
      unfolding unsigned_drop_bit_eq by (simp add: drop_bit_eq_div bintr_uint)
    then have "drop_bit n a = word_of_int (uint a div 2 ^ n)" for n
      by (metis word_of_int_uint)
    then show ?thesis by (simp add: shamt)
  qed
  show "alu_result Alu_sra pc imm a b = reg_sem SRA a b"
    by (simp add: shamt drop_bit_eq_div)
qed (simp_all add: word_less_def)

subsection \<open>What the code does with an instruction\<close>

definition get_x :: "5 word \<Rightarrow> isa_model \<Rightarrow> u32" where
  "get_x r m = (if r = 0 then 0 else m_arch_regfile m ! unat r)"

definition set_x :: "5 word \<Rightarrow> u32 \<Rightarrow> isa_model \<Rightarrow> isa_model" where
  "set_x r v m = (if r = 0 then m else m\<lparr>m_arch_regfile := (m_arch_regfile m)[unat r := v]\<rparr>)"

definition csr_val :: "u32 \<Rightarrow> isa_model \<Rightarrow> u32" where
  "csr_val a m = csrfile_load a (m_csr_file m)"

definition csr_put :: "u32 \<Rightarrow> u32 \<Rightarrow> isa_model \<Rightarrow> isa_model" where
  "csr_put a v m = m\<lparr>m_csr_file := csrfile_store a v (m_csr_file m)\<rparr>"

definition goto :: "u32 \<Rightarrow> isa_model \<Rightarrow> isa_model" where
  "goto a m = m\<lparr>m_pc := a\<rparr>"

definition code_trap :: "riscv_exception_t \<Rightarrow> u32 \<Rightarrow> isa_model \<Rightarrow> isa_model" where
  "code_trap e tval m =
     (let m' = csr_put CSR_MCAUSE (exception_code e) (csr_put CSR_MTVAL tval (csr_put CSR_MEPC (m_pc m) m))
      in goto (csr_val CSR_MTVEC m') m')"

fun branch_sem :: "branch_cond \<Rightarrow> u32 \<Rightarrow> u32 \<Rightarrow> bool" where
  "branch_sem BEQ a b = (uint a = uint b)" | "branch_sem BNE a b = (uint a \<noteq> uint b)"
| "branch_sem BLT a b = (sint a < sint b)" | "branch_sem BGE a b = (sint b \<le> sint a)"
| "branch_sem BLTU a b = (uint a < uint b)" | "branch_sem BGEU a b = (uint b \<le> uint a)"

fun load_sem :: "load_kind \<Rightarrow> u32 \<Rightarrow> isa_bus \<Rightarrow> (u32 \<times> isa_bus) option" where
  "load_sem LB a b = map_option (\<lambda>(v, b'). (word_of_int (sint v), b')) (bus_read8 a False b)"
| "load_sem LBU a b = map_option (\<lambda>(v, b'). (word_of_int (uint v), b')) (bus_read8 a False b)"
| "load_sem LH a b = map_option (\<lambda>(v, b'). (word_of_int (sint v), b')) (bus_read16 a False b)"
| "load_sem LHU a b = map_option (\<lambda>(v, b'). (word_of_int (uint v), b')) (bus_read16 a False b)"
| "load_sem LW a b = bus_read32 a False b"

fun store_sem :: "store_kind \<Rightarrow> u32 \<Rightarrow> u32 \<Rightarrow> isa_bus \<Rightarrow> isa_bus option" where
  "store_sem SB a v b = bus_write8 a (word_of_int (uint v mod 2 ^ 8)) b"
| "store_sem SH a v b = bus_write16 a (word_of_int (uint v mod 2 ^ 16)) b"
| "store_sem SW a v b = bus_write32 a v b"

fun imm_reg :: "imm_kind \<Rightarrow> reg_kind" where
  "imm_reg ADDI = ADD" | "imm_reg SLTI = SLT" | "imm_reg SLTIU = SLTU" | "imm_reg XORI = XOR_op"
| "imm_reg ORI = OR_op" | "imm_reg ANDI = AND_op"

fun shift_reg :: "shift_kind \<Rightarrow> reg_kind" where
  "shift_reg SLLI = SLL" | "shift_reg SRLI = SRL" | "shift_reg SRAI = SRA"

fun csr_sem_value :: "csr_access \<Rightarrow> u32 \<Rightarrow> u32 \<Rightarrow> u32" where
  "csr_sem_value CSRRW old src = src"
| "csr_sem_value CSRRS old src = old OR src"
| "csr_sem_value CSRRC old src = old AND NOT src"

definition code_csr :: "csr_access \<Rightarrow> 5 word \<Rightarrow> bool \<Rightarrow> u32 \<Rightarrow> u32 \<Rightarrow> isa_model \<Rightarrow> isa_model" where
  "code_csr k rd wr src a m =
     (let old = csrfile_read a (m_csr_file m);
          oldv = (case old of None \<Rightarrow> 0 | Some v \<Rightarrow> v);
          ok = (old \<noteq> None \<or> rd = 0) \<and> (wr \<longrightarrow> csrfile_write_check a 0 (m_csr_file m))
      in if \<not> ok then code_trap illegal_instruction 0 m
         else goto (m_pc m + 4)
                (set_x rd oldv (if wr then csr_put a (csr_sem_value k oldv src) m else m)))"

definition code_mret :: "isa_model \<Rightarrow> isa_model" where
  "code_mret m =
     (let st = csr_val CSR_MSTATUS m
      in goto (csr_val CSR_MEPC m)
           (csr_put CSR_MSTATUS ((if bit st 7 then set_bit else unset_bit) 3 st) m))"

fun code_sem :: "instr \<Rightarrow> isa_model \<Rightarrow> isa_model option" where
  "code_sem (LUI rd imm) m = Some (goto (m_pc m + 4) (set_x rd (word_of_int (uint imm * 2 ^ 12)) m))"
| "code_sem (AUIPC rd imm) m =
     Some (goto (m_pc m + 4) (set_x rd (m_pc m + word_of_int (uint imm * 2 ^ 12)) m))"
| "code_sem (JAL rd imm) m =
     Some (goto (word_of_int (uint (m_pc m) + sint imm * 2)) (set_x rd (m_pc m + 4) m))"
| "code_sem (JALR rd rs1 imm) m =
     Some (goto (word_of_int ((uint (get_x rs1 m) + sint imm) div 2 * 2)) (set_x rd (m_pc m + 4) m))"
| "code_sem (Branch c rs1 rs2 imm) m =
     Some (goto (if branch_sem c (get_x rs1 m) (get_x rs2 m)
                 then word_of_int (uint (m_pc m) + sint imm * 2) else m_pc m + 4) m)"
| "code_sem (Load k rd rs1 imm) m =
     do {
       (v, b) \<leftarrow> load_sem k (word_of_int (uint (get_x rs1 m) + sint imm)) (m_bus m);
       Some (goto (m_pc m + 4) (set_x rd v (m\<lparr>m_bus := b\<rparr>)))
     }"
| "code_sem (Store k rs1 rs2 imm) m =
     do {
       b \<leftarrow> store_sem k (word_of_int (uint (get_x rs1 m) + sint imm)) (get_x rs2 m) (m_bus m);
       Some (goto (m_pc m + 4) (m\<lparr>m_bus := b\<rparr>))
     }"
| "code_sem (Op_Imm k rd rs1 imm) m =
     Some (goto (m_pc m + 4) (set_x rd (reg_sem (imm_reg k) (get_x rs1 m) (word_of_int (sint imm))) m))"
| "code_sem (Shift_Imm k rd rs1 shamt) m =
     Some (goto (m_pc m + 4) (set_x rd (reg_sem (shift_reg k) (get_x rs1 m) (word_of_int (uint shamt))) m))"
| "code_sem (Op_Reg k rd rs1 rs2) m =
     Some (goto (m_pc m + 4) (set_x rd (reg_sem k (get_x rs1 m) (get_x rs2 m)) m))"
| "code_sem (FENCE ps) m = Some (goto (m_pc m + 4) m)"
| "code_sem FENCE_I m = Some (goto (m_pc m + 4) m)"
| "code_sem ECALL m = Some (code_trap environment_call_from_m_mode 0 m)"
| "code_sem EBREAK m = Some (code_trap breakpoint 0 m)"
| "code_sem MRET m = Some (code_mret m)"
| "code_sem (Csr_Reg k rd rs1 a) m = Some (code_csr k rd (rs1 \<noteq> 0) (get_x rs1 m) (ucast a) m)"
| "code_sem (Csr_Imm k rd z a) m = Some (code_csr k rd True (ucast z) (ucast a) m)"

subsection \<open>Well-formed states\<close>

definition csr_item_ok :: "csrfile \<Rightarrow> u32 \<times> bool \<times> csr_class \<Rightarrow> bool" where
  "csr_item_ok f = (\<lambda>(a, ro, c).
     a < CSR_TABLE_SIZE \<and>
     (case csr_map_table f a of
        None \<Rightarrow> False
      | Some i \<Rightarrow> csr_readonly i = ro \<and> csr_cls (csr_obj i) = c \<and>
                  csr_filter c (csr_value (csr_obj i)) = csr_value (csr_obj i)))"

definition isa_wf :: "isa_model \<Rightarrow> bool" where
  "isa_wf m \<longleftrightarrow>
     length (m_arch_regfile m) = 32 \<and> m_arch_regfile m ! 0 = 0 \<and>
     list_all (csr_item_ok (m_csr_file m)) isa_csr_list \<and>
     dom (csr_map_table (m_csr_file m)) \<subseteq> fst ` set isa_csr_list"

lemma csr_item_okE:
  assumes "csr_item_ok f (a, ro, c)"
  obtains i where "csr_map_table f a = Some i" and "csr_readonly i = ro" and "csr_cls (csr_obj i) = c"
    and "csr_filter c (csr_value (csr_obj i)) = csr_value (csr_obj i)" and "csrfile_enabled f a"
  using assms by (auto simp: csr_item_ok_def csrfile_enabled_def split: option.splits)

lemma csr_filter_idem: "csr_filter c (csr_filter c v) = csr_filter c v"
  by (cases c) (simp_all add: and.assoc)

lemma csr_item_ok_store:
  assumes "csr_item_ok f e"
  shows "csr_item_ok (csrfile_store a v f) e"
  using assms
  by (auto simp: csr_item_ok_def csrfile_store_def csr_write_def csr_filter_idem split: option.splits if_splits)

lemma csr_store_dom: "dom (csr_map_table (csrfile_store a v f)) = dom (csr_map_table f)"
  by (auto simp: csrfile_store_def split: option.splits prod.splits)

lemma csr_addrs_enabled:
  assumes "list_all (csr_item_ok f) isa_csr_list"
  shows "a \<in> fst ` set isa_csr_list \<Longrightarrow> csrfile_enabled f a"
  using assms by (auto simp: list_all_iff elim!: csr_item_okE)

lemma enabled_store [simp]: "csrfile_enabled (csrfile_store a v f) b = csrfile_enabled f b"
  by (auto simp: csrfile_enabled_def csrfile_store_def split: option.splits prod.splits)

subsection \<open>Fetch, decode and execute in closed form\<close>

definition isa_exec_one :: "isa_model \<Rightarrow> isa_model option" where
  "isa_exec_one m =
     do { (s, m1) \<leftarrow> isa_fetch isa_state_make m; s1 \<leftarrow> isa_decode s; isa_execute s1 m1 }"

lemma isa_step_exec: "isa_step m = do { m2 \<leftarrow> isa_exec_one m; isa_clint_run m2 }"
proof (cases "isa_fetch isa_state_make m")
  case (Some x)
  then show ?thesis
    by (cases x; cases "isa_decode (fst x)") (simp_all add: isa_step_def isa_exec_one_def)
qed (simp add: isa_step_def isa_exec_one_def)

text \<open>The state of an instruction after a fetch without exception, ready for the decoder's cases.\<close>

definition fetched :: "u32 \<Rightarrow> isa_state_t" where
  "fetched pc = isa_decode_init (isa_state_make\<lparr>i_pc := pc, i_exception_id := instruction_access_fault\<rparr>)"

lemma fetched_sel [simp]:
  "i_value (fetched pc) = 0" "i_valid (fetched pc) = True" "i_pc (fetched pc) = pc"
  "i_imm (fetched pc) = 0" "i_has_exception (fetched pc) = False" "i_rs1 (fetched pc) = 0"
  "i_arg1_src (fetched pc) = Arg_reg" "i_rs2 (fetched pc) = 0" "i_arg2_src (fetched pc) = Arg_reg"
  "i_rd (fetched pc) = 0" "i_rd_enable (fetched pc) = False" "i_csr (fetched pc) = 0"
  "i_op_unit (fetched pc) = Unit_alu" "i_sub_op (fetched pc) = Sub_alu Alu_add"
  "i_rd_value (fetched pc) = 0" "i_src1_value (fetched pc) = 0" "i_src2_value (fetched pc) = 0"
  by (simp_all add: fetched_def isa_decode_init_def isa_state_make_def)

lemma isa_exec_one_fetch:
  assumes "is_align (m_pc m) 4" and "bus_read32 (m_pc m) True (m_bus m) = Some (encode i, b)"
  shows "isa_exec_one m = isa_execute (decoded i (fetched (m_pc m))) (m\<lparr>m_bus := b, m_pc := m_pc m + 4\<rparr>)"
proof -
  let ?s = "isa_state_make\<lparr>i_pc := m_pc m, i_exception_id := instruction_access_fault, i_value := encode i\<rparr>"
  have "isa_fetch isa_state_make m = Some (?s, m\<lparr>m_bus := b, m_pc := m_pc m + 4\<rparr>)"
    using assms by (simp add: isa_fetch_def isa_state_make_def)
  moreover have "isa_decode ?s = Some (decoded i (fetched (m_pc m)))"
    using isa_decode_encode[of "fetched (m_pc m)" i]
    by (simp add: isa_decode_def fetched_def isa_decode_init_def isa_state_make_def)
  ultimately show ?thesis by (simp add: isa_exec_one_def)
qed

lemma reg_bound [simp]: "unat (r :: 5 word) < 32"
  using unsigned_less[of r] by simp

lemma reg_index [simp]: "unat (ucast (r :: 5 word) :: u32) = unat r"
  using less_trans[OF reg_bound[of r], of "2 ^ 32"]
  by (simp add: unsigned_ucast_eq take_bit_nat_eq_self)

lemma reg_nonzero [simp]: "(ucast (r :: 5 word) :: u32) = 0 \<longleftrightarrow> r = 0"
  by (metis reg_index unat_eq_zero)

lemma read_x:
  assumes "isa_wf m"
  shows "arch_regfile_read (ucast r) (m_arch_regfile m) = Some (get_x r m)"
  using assms by (auto simp: arch_regfile_read_def get_x_def isa_wf_def)

lemma writeback_x:
  assumes "isa_wf m" and "\<not> i_has_exception s" and "i_rd_enable s" and "i_rd s = ucast rd"
  shows "isa_writeback s m = Some (set_x rd (i_rd_value s) m)"
  using assms by (auto simp: isa_writeback_def arch_regfile_write_def set_x_def isa_wf_def)

lemma writeback_none:
  assumes "\<not> i_has_exception s" and "\<not> i_rd_enable s"
  shows "isa_writeback s m = Some m"
  using assms by (simp add: isa_writeback_def)

lemma csr_inst_wf:
  assumes "list_all (csr_item_ok (m_csr_file m)) isa_csr_list" and "a \<in> fst ` set isa_csr_list"
  shows "csr_inst_read a m = Some (csr_val a m)" and "csr_inst_write a v m = Some (csr_put a v m)"
  using csr_addrs_enabled[OF assms]
  by (simp_all add: csr_inst_read_def csr_inst_write_def csrfile_read_sys_def csrfile_write_sys_def
      csr_val_def csr_put_def)

lemma csr_ok_put:
  "list_all (csr_item_ok (m_csr_file m)) isa_csr_list \<Longrightarrow>
   list_all (csr_item_ok (m_csr_file (csr_put a v m))) isa_csr_list"
  by (auto simp: list_all_iff csr_put_def csr_item_ok_store)

lemma named_csrs:
  "CSR_MEPC \<in> fst ` set isa_csr_list" "CSR_MTVAL \<in> fst ` set isa_csr_list"
  "CSR_MCAUSE \<in> fst ` set isa_csr_list" "CSR_MTVEC \<in> fst ` set isa_csr_list"
  "CSR_MSTATUS \<in> fst ` set isa_csr_list" "CSR_MIP \<in> fst ` set isa_csr_list"
  "CSR_MIE \<in> fst ` set isa_csr_list"
  by (simp_all add: isa_csr_list_def)

lemma writeback_trap:
  assumes "list_all (csr_item_ok (m_csr_file m)) isa_csr_list" and "i_has_exception s"
  shows "isa_writeback s m =
    Some (code_trap (i_exception_id s) (i_exception_value s) (m\<lparr>m_pc := i_pc s\<rparr>))"
  using assms named_csrs
  by (simp add: isa_writeback_def csr_inst_wf csr_ok_put code_trap_def goto_def Let_def)
     (simp add: csr_put_def csr_val_def)

lemma pc_update [simp]:
  "isa_wf (m\<lparr>m_pc := p\<rparr>) = isa_wf m" "isa_wf (m\<lparr>m_bus := b\<rparr>) = isa_wf m"
  "get_x r (m\<lparr>m_pc := p\<rparr>) = get_x r m" "get_x r (m\<lparr>m_bus := b\<rparr>) = get_x r m"
  "set_x r v (m\<lparr>m_pc := p\<rparr>) = (set_x r v m)\<lparr>m_pc := p\<rparr>"
  "set_x r v (m\<lparr>m_bus := b\<rparr>) = (set_x r v m)\<lparr>m_bus := b\<rparr>"
  "m_pc (set_x r v m) = m_pc m" "m_bus (set_x r v m) = m_bus m" "m_csr_file (set_x r v m) = m_csr_file m"
  by (simp_all add: isa_wf_def get_x_def set_x_def)

lemmas exec_simps = isa_execute_def isa_dispatch_def isa_read_args_def read_x

text \<open>Offsets: the decoder's word addition is the addition of the signed offset.\<close>

lemma offset12: "a + scast (imm :: 12 word) = word_of_int (uint (a :: u32) + sint imm)"
  by (simp only: scast_eq of_int_add of_int_mult word_of_int_uint of_int_numeral)

lemma offset12_2: "a + scast (imm :: 12 word) * 2 = word_of_int (uint (a :: u32) + sint imm * 2)"
  by (simp only: scast_eq of_int_add of_int_mult word_of_int_uint of_int_numeral)

lemma offset20_2: "a + scast (imm :: 20 word) * 2 = word_of_int (uint (a :: u32) + sint imm * 2)"
  by (simp only: scast_eq of_int_add of_int_mult word_of_int_uint of_int_numeral)

lemma upper20: "push_bit 12 (ucast (imm :: 20 word)) = (word_of_int (uint imm * 2 ^ 12) :: u32)"
  by (simp only: push_bit_eq_mult ucast_eq of_int_mult of_int_power of_int_numeral)

lemma clear_bit0: "(word_of_int x :: u32) AND NOT 1 = word_of_int (x div 2 * 2)"
proof (rule bit_word_eqI)
  fix n assume n: "n < LENGTH(32)"
  have "bit (x div 2 * 2) n \<longleftrightarrow> n \<noteq> 0 \<and> bit x n"
    by (cases n) (simp_all add: bit_Suc bit_0)
  moreover have "bit (word_of_int (x div 2 * 2) :: u32) n = bit (x div 2 * 2) n"
    using n by (simp only: bit_word_of_int_iff simp_thms)
  moreover have "bit ((word_of_int x :: u32) AND NOT 1) n \<longleftrightarrow> n \<noteq> 0 \<and> bit x n"
    using n by (auto simp: bit_simps bit_word_of_int_iff)
  ultimately show "bit ((word_of_int x :: u32) AND NOT 1) n = bit (word_of_int (x div 2 * 2) :: u32) n"
    by simp
qed

lemma exec_upper:
  assumes "isa_wf m" and "i \<in> {LUI rd imm, AUIPC rd imm}"
  shows "isa_execute (decoded i (fetched (m_pc m))) (m\<lparr>m_pc := m_pc m + 4\<rparr>) = code_sem i m"
  using assms(2)
  by (elim insertE; simp add: exec_simps execute_alu_def assms(1) upper20
      goto_def add.commute writeback_x[where rd=rd])

lemma exec_jal:
  assumes "isa_wf m" and "i = JAL rd imm"
  shows "isa_execute (decoded i (fetched (m_pc m))) (m\<lparr>m_pc := m_pc m + 4\<rparr>) = code_sem i m"
  unfolding assms(2) code_sem.simps offset20_2[symmetric]
  by (simp add: exec_simps execute_bru_def assms(1) goto_def writeback_x[where rd=rd])

lemma exec_jalr:
  assumes "isa_wf m" and "i = JALR rd rs1 imm"
  shows "isa_execute (decoded i (fetched (m_pc m))) (m\<lparr>m_pc := m_pc m + 4\<rparr>) = code_sem i m"
  unfolding assms(2) code_sem.simps clear_bit0[symmetric] offset12[symmetric]
  by (simp add: exec_simps execute_bru_def assms(1) goto_def add.commute writeback_x[where rd=rd])

lemma branch_ops_sem: "bru_taken (snd (branch_ops c)) a b = branch_sem c a b"
  by (cases c) (simp_all add: word_less_def word_le_def flip: word_uint_eq_iff)

lemma exec_branch:
  assumes "isa_wf m" and "i = Branch c rs1 rs2 imm"
  shows "isa_execute (decoded i (fetched (m_pc m))) (m\<lparr>m_pc := m_pc m + 4\<rparr>) = code_sem i m"
proof -
  have "isa_bru_op (snd (branch_ops c)) t m' = Some (t, i_pc t + i_imm t, m')" for t m'
    by (cases c) simp_all
  then show ?thesis
    unfolding assms(2) code_sem.simps offset12_2[symmetric]
    using assms(1) by (simp add: exec_simps execute_bru_def branch_ops_sem goto_def writeback_none)
qed

lemma exec_imm:
  assumes "isa_wf m" and "i = Op_Imm k rd rs1 imm"
  shows "isa_execute (decoded i (fetched (m_pc m))) (m\<lparr>m_pc := m_pc m + 4\<rparr>) = code_sem i m"
  using assms
  by (cases k) (simp_all add: exec_simps execute_alu_def goto_def writeback_x[where rd=rd]
      alu_result_sem del: alu_result.simps reg_sem.simps flip: scast_eq)

lemma shift_amount: "scast (shift_field k shamt) AND 0x1f = (ucast shamt AND 0x1f :: u32)"
  by (cases k; rule word32_eqI; simp add: masks bit_simps bit_beyond)

lemma shift_result:
  "alu_result (snd (shift_ops k)) pc imm a (scast (shift_field k shamt)) =
   reg_sem (shift_reg k) a (ucast shamt)"
proof -
  have "alu_result (snd (shift_ops k)) pc imm a (scast (shift_field k shamt)) =
      alu_result (snd (shift_ops k)) pc imm a (ucast shamt)"
    by (cases k) (simp_all only: shift_ops.simps snd_conv alu_result.simps shift_amount)
  also have "\<dots> = reg_sem (shift_reg k) a (ucast shamt)"
    by (cases k) (simp_all only: shift_ops.simps snd_conv alu_result_sem shift_reg.simps)
  finally show ?thesis .
qed

lemma exec_shift:
  assumes "isa_wf m" and "i = Shift_Imm k rd rs1 shamt"
  shows "isa_execute (decoded i (fetched (m_pc m))) (m\<lparr>m_pc := m_pc m + 4\<rparr>) = code_sem i m"
proof -
  have "isa_alu_op (snd (shift_ops k)) t = t\<lparr>i_rd_value := alu_result (snd (shift_ops k)) (i_pc t) (i_imm t)
      (i_src1_value t) (i_src2_value t)\<rparr>" for t
    by (cases k) simp_all
  then show ?thesis
    using assms by (simp add: exec_simps execute_alu_def goto_def writeback_x[where rd=rd]
        shift_result del: shift_field.simps)
qed

lemma exec_reg:
  assumes "isa_wf m" and "i = Op_Reg k rd rs1 rs2"
  shows "isa_execute (decoded i (fetched (m_pc m))) (m\<lparr>m_pc := m_pc m + 4\<rparr>) = code_sem i m"
  using assms
  by (cases k) (simp_all add: exec_simps execute_alu_def execute_mul_def execute_div_def goto_def
      writeback_x[where rd=rd] alu_result_sem mul_result_sem div_result_sem
      del: alu_result.simps mul_result.simps div_result.simps reg_sem.simps)

lemma exec_fence:
  assumes "isa_wf m" and "i \<in> {FENCE ps, FENCE_I}"
  shows "isa_execute (decoded i (fetched (m_pc m))) (m\<lparr>m_pc := m_pc m + 4\<rparr>) = code_sem i m"
  using assms(2) by (elim insertE; simp add: exec_simps execute_alu_def goto_def writeback_none)

lemma exec_trap:
  assumes "isa_wf m" and "i \<in> {ECALL, EBREAK}"
  shows "isa_execute (decoded i (fetched (m_pc m))) (m\<lparr>m_pc := m_pc m + 4\<rparr>) = code_sem i m"
  using assms by (auto simp: exec_simps execute_alu_def isa_wf_def writeback_trap)

lemma sext_byte: "sign_extend (ucast (v :: u8)) 8 = Some (scast v)"
proof -
  have "take_bit 8 (ucast v :: u32) = ucast v"
    by (rule word32_eqI; simp add: bit_simps bit_beyond)
  then have "sign_extend (ucast v) 8 = Some (signed_take_bit 7 (ucast v))"
    using sign_extend_signed_take_bit[of 8 "ucast v"] by simp
  moreover have "signed_take_bit 7 (ucast v :: u32) = scast v"
    by (rule word32_eqI; simp add: bit_simps)
  ultimately show ?thesis by simp
qed

lemma sext_half: "sign_extend (ucast (v :: u16)) 16 = Some (scast v)"
proof -
  have "take_bit 16 (ucast v :: u32) = ucast v"
    by (rule word32_eqI; simp add: bit_simps bit_beyond)
  then have "sign_extend (ucast v) 16 = Some (signed_take_bit 15 (ucast v))"
    using sign_extend_signed_take_bit[of 16 "ucast v"] by simp
  moreover have "signed_take_bit 15 (ucast v :: u32) = scast v"
    by (rule word32_eqI; simp add: bit_simps)
  ultimately show ?thesis by simp
qed

lemma load_ops_sem:
  "isa_lsu_op (snd (load_ops k)) a v b = map_option (\<lambda>(r, b'). (Some r, b')) (load_sem k a b)"
proof -
  have "isa_lsu_op Lsu_lw a v b = map_option (\<lambda>(r, b'). (Some r, b')) (bus_read32 a False b)"
    by (cases "bus_read32 a False b") auto
  then show ?thesis
    by (cases k; cases "bus_read8 a False b"; cases "bus_read16 a False b")
      (auto simp: sext_byte sext_half)
qed

lemma low_byte: "ucast (v AND 0xff) = (word_of_int (uint (v :: u32) mod 2 ^ 8) :: u8)"
  unfolding take_bit_eq_mod[symmetric] masks
  by (rule bit_word_eqI) (simp add: bit_simps bit_word_of_int_iff)

lemma low_half16: "ucast (v AND 0xffff) = (word_of_int (uint (v :: u32) mod 2 ^ 16) :: u16)"
proof -
  have m: "(0xffff :: u32) = mask 16" by (simp add: mask_eq_exp_minus_1)
  show ?thesis
    unfolding take_bit_eq_mod[symmetric] m
    by (rule bit_word_eqI) (simp add: bit_simps bit_word_of_int_iff)
qed

lemma store_ops_sem:
  "isa_lsu_op (snd (store_ops k)) a v b = map_option (\<lambda>b'. (None, b')) (store_sem k a v b)"
  by (cases k) (simp_all only: store_ops.simps snd_conv isa_lsu_op.simps store_sem.simps low_byte
      low_half16 map_conv_bind_option comp_def)

lemma exec_load:
  assumes "isa_wf m" and "i = Load k rd rs1 imm"
  shows "isa_execute (decoded i (fetched (m_pc m))) (m\<lparr>m_pc := m_pc m + 4\<rparr>) = code_sem i m"
  unfolding assms(2) code_sem.simps offset12[symmetric]
  using assms(1)
  by (cases "load_sem k (get_x rs1 m + scast imm) (m_bus m)")
     (auto simp: exec_simps execute_lsu_def goto_def load_ops_sem writeback_x[where rd=rd])

lemma exec_store:
  assumes "isa_wf m" and "i = Store k rs1 rs2 imm"
  shows "isa_execute (decoded i (fetched (m_pc m))) (m\<lparr>m_pc := m_pc m + 4\<rparr>) = code_sem i m"
  unfolding assms(2) code_sem.simps offset12[symmetric]
  using assms(1)
  by (cases "store_sem k (get_x rs1 m + scast imm) (get_x rs2 m) (m_bus m)")
     (auto simp: exec_simps execute_lsu_def goto_def store_ops_sem writeback_none)

lemma csr_getbit_bit: "csr_getbit n x = bit x n"
  by (simp add: csr_getbit_def bit_iff_and_push_bit_not_eq_0)

lemma csr_setbit_bit: "csr_setbit c n v x = csr_filter c (if v then set_bit n x else unset_bit n x)"
proof -
  have "(x AND NOT (push_bit n 1)) OR push_bit n 1 = set_bit n x"
    by (rule bit_word_eqI) (auto simp: bit_simps)
  moreover have "x AND NOT (push_bit n 1) = unset_bit n x"
    by (rule bit_word_eqI) (auto simp: bit_simps)
  ultimately show ?thesis by (simp add: csr_setbit_def)
qed

lemma csr_store_filter:
  assumes "csr_item_ok f (a, ro, c)" and "c \<noteq> charfifo"
  shows "csrfile_store a (csr_filter c v) f = csrfile_store a v f"
  using assms by (auto elim!: csr_item_okE simp: csrfile_store_def csr_write_def csr_filter_idem)

lemma exec_mret:
  assumes "isa_wf m" and "i = MRET"
  shows "isa_execute (decoded i (fetched (m_pc m))) (m\<lparr>m_pc := m_pc m + 4\<rparr>) = code_sem i m"
proof -
  have l: "list_all (csr_item_ok (m_csr_file m)) isa_csr_list" using assms(1) by (simp add: isa_wf_def)
  then have "csr_item_ok (m_csr_file m) (CSR_MSTATUS, False, mstatus)"
    by (auto simp: list_all_iff isa_csr_list_def)
  then have "csrfile_store CSR_MSTATUS (mstatus_set_mie (mstatus_get_mpie v) v) (m_csr_file m) =
      csrfile_store CSR_MSTATUS ((if bit v 7 then set_bit else unset_bit) 3 v) (m_csr_file m)" for v
    using csr_store_filter[of "m_csr_file m" CSR_MSTATUS False mstatus]
    by (simp add: csr_bit_defs csr_getbit_bit csr_setbit_bit del: csr_filter.simps)
  then show ?thesis
    unfolding assms(2) using l named_csrs
    by (simp add: exec_simps execute_bru_def isa_mret_def csr_inst_wf code_mret_def Let_def
        csr_put_def csr_val_def goto_def writeback_none)
qed

lemma write_check_value: "csrfile_write_check a v f = csrfile_write_check a 0 f"
  by (simp add: csrfile_write_check_def)

lemma csr_ops_sem: "csr_new_value (csr_ops k) old src = csr_sem_value k old src"
  by (cases k) simp_all

lemma execute_csr_sem:
  assumes "isa_wf m" and "i_valid s" and "\<not> i_has_exception s" and "i_sub_op s = Sub_csr (csr_ops k)"
    and "i_rd_enable s" and "i_rd s = ucast rd" and "i_csr s = a" and "i_value s = 0"
    and "i_pc s = m_pc m"
    and wr: "wr \<longleftrightarrow> \<not> (i_arg1_src s = Arg_reg \<and> i_rs1 s = 0)"
  shows "do { (s', m') \<leftarrow> execute_csr s (m\<lparr>m_pc := m_pc m + 4\<rparr>); isa_writeback s' m' } =
    Some (code_csr k rd wr (i_src1_value s) a m)"
proof -
  let ?old = "csrfile_read a (m_csr_file m)"
  have l: "list_all (csr_item_ok (m_csr_file m)) isa_csr_list" and r: "length (m_arch_regfile m) = 32"
    using assms(1) by (simp_all add: isa_wf_def)
  have wb: "isa_writeback t m' = Some (set_x rd (i_rd_value t) m')"
    if "\<not> i_has_exception t" "i_rd_enable t" "i_rd t = ucast rd" "length (m_arch_regfile m') = 32" for t m'
    using that by (auto simp: isa_writeback_def arch_regfile_write_def set_x_def)
  consider "rd \<noteq> 0 \<and> ?old = None" | "\<not> (rd \<noteq> 0 \<and> ?old = None)" "wr" "\<not> csrfile_write_check a 0 (m_csr_file m)"
    | "\<not> (rd \<noteq> 0 \<and> ?old = None)" "wr" "csrfile_write_check a 0 (m_csr_file m)"
    | "\<not> (rd \<noteq> 0 \<and> ?old = None)" "\<not> wr" by blast
  then show ?thesis
  proof cases
    case 1
    then show ?thesis
      using assms l by (simp add: execute_csr_def code_csr_def writeback_trap)
  next
    case 2
    then have "\<not> csrfile_write_check a v (m_csr_file m)" for v using write_check_value by metis
    then show ?thesis
      using 2 assms l
      by (auto simp: execute_csr_def code_csr_def csrfile_write_def
          writeback_trap split: option.splits)
  next
    case 3
    then have "csrfile_write_check a v (m_csr_file m)" for v using write_check_value by metis
    then show ?thesis
      using 3 assms r
      by (auto simp: execute_csr_def code_csr_def csrfile_write_def wb
          csr_ops_sem csr_put_def goto_def set_x_def split: option.splits)
  next
    case 4
    then show ?thesis
      using assms r wr by (auto simp: execute_csr_def code_csr_def wb goto_def set_x_def split: option.splits)
  qed
qed

lemma exec_csr:
  assumes "isa_wf m" and "i \<in> {Csr_Reg k rd rs1 a, Csr_Imm k rd rs1 a}"
  shows "isa_execute (decoded i (fetched (m_pc m))) (m\<lparr>m_pc := m_pc m + 4\<rparr>) = code_sem i m"
  using assms(2)
proof (elim insertE emptyE)
  assume "i = Csr_Reg k rd rs1 a"
  then show ?thesis
    using assms(1) by (simp add: exec_simps execute_csr_sem[where rd=rd and k=k and a="ucast a" and wr="rs1 \<noteq> 0"])
next
  assume "i = Csr_Imm k rd rs1 a"
  then show ?thesis
    using assms(1) by (simp add: exec_simps execute_csr_sem[where rd=rd and k=k and a="ucast a" and wr=True])
qed

lemma exec_instr:
  assumes "isa_wf m"
  shows "isa_execute (decoded i (fetched (m_pc m))) (m\<lparr>m_pc := m_pc m + 4\<rparr>) = code_sem i m"
proof (cases i)
  case (LUI rd imm)
  then show ?thesis using exec_upper[OF assms, of i rd imm] by blast
next
  case (AUIPC rd imm)
  then show ?thesis using exec_upper[OF assms, of i rd imm] by blast
next
  case (JAL rd imm)
  then show ?thesis using exec_jal[OF assms] by blast
next
  case (JALR rd rs1 imm)
  then show ?thesis using exec_jalr[OF assms] by blast
next
  case (Branch c rs1 rs2 imm)
  then show ?thesis using exec_branch[OF assms] by blast
next
  case (Load k rd rs1 imm)
  then show ?thesis using exec_load[OF assms] by blast
next
  case (Store k rs1 rs2 imm)
  then show ?thesis using exec_store[OF assms] by blast
next
  case (Op_Imm k rd rs1 imm)
  then show ?thesis using exec_imm[OF assms] by blast
next
  case (Shift_Imm k rd rs1 sh)
  then show ?thesis using exec_shift[OF assms] by blast
next
  case (Op_Reg k rd rs1 rs2)
  then show ?thesis using exec_reg[OF assms] by blast
next
  case (FENCE ps)
  then show ?thesis using exec_fence[OF assms, of i ps] by blast
next
  case FENCE_I
  then show ?thesis using exec_fence[OF assms, of i 0] by blast
next
  case ECALL
  then show ?thesis using exec_trap[OF assms, of i] by blast
next
  case EBREAK
  then show ?thesis using exec_trap[OF assms, of i] by blast
next
  case MRET
  then show ?thesis using exec_mret[OF assms] by blast
next
  case (Csr_Reg k rd rs1 a)
  then show ?thesis using exec_csr[OF assms, of i k rd rs1 a] by blast
next
  case (Csr_Imm k rd z a)
  then show ?thesis using exec_csr[OF assms, of i k rd z a] by blast
qed

lemma isa_exec_one_sem:
  assumes "isa_wf m" and "is_align (m_pc m) 4"
    and "bus_read32 (m_pc m) True (m_bus m) = Some (encode i, b)"
  shows "isa_exec_one m = code_sem i (m\<lparr>m_bus := b\<rparr>)"
  using isa_exec_one_fetch[OF assms(2,3)] exec_instr[of "m\<lparr>m_bus := b\<rparr>" i] assms(1) by simp

end
