(* ===== verification/Isa_Inv.thy ===== *)
theory Isa_Inv
  imports Isa_Sem
begin

text \<open>
  What holds in every state the ISA model reaches: the register file keeps its size and
  \<open>x0\<close> its zero, every CSR the constructor maps stays mapped with its class and holds
  only bits its filter lets through, and the bus keeps its slave map. The constructor
  establishes this, every instruction step keeps it, the program image is where
  \<^verbatim>\<open>load\<close> put it, and a step on a legal instruction with an aligned access does not abort.
\<close>

subsection \<open>The invariant\<close>

lemma wf_regs_csr: "isa_wf m \<Longrightarrow> m_arch_regfile m' = m_arch_regfile m \<Longrightarrow> m_csr_file m' = m_csr_file m \<Longrightarrow> isa_wf m'"
  by (simp add: isa_wf_def)

lemma csr_store_ok: "list_all (csr_item_ok f) xs \<Longrightarrow> list_all (csr_item_ok (csrfile_store a v f)) xs"
  by (auto simp: list_all_iff csr_item_ok_store)

lemma wf_csr_store: "isa_wf m \<Longrightarrow> isa_wf (m\<lparr>m_csr_file := csrfile_store a v (m_csr_file m)\<rparr>)"
  by (simp add: isa_wf_def csr_store_ok csr_store_dom)

lemma wf_csr_inst_write: "csr_inst_write a v m = Some m' \<Longrightarrow> isa_wf m \<Longrightarrow> isa_wf m'"
  by (auto simp: csr_inst_write_def csrfile_write_sys_def wf_csr_store split: if_splits)

lemma wf_set_pc: "isa_wf m \<Longrightarrow> isa_wf (m\<lparr>m_pc := p\<rparr>)" "isa_wf m \<Longrightarrow> isa_wf (m\<lparr>m_bus := b\<rparr>)"
  by simp_all

lemma wf_fetch: "isa_fetch s m = Some (s', m') \<Longrightarrow> isa_wf m \<Longrightarrow> isa_wf m'"
  by (auto simp: isa_fetch_def Let_def elim!: bind_eq_SomeE split: prod.splits)

lemma wf_mret: "isa_mret m = Some (p, m') \<Longrightarrow> isa_wf m \<Longrightarrow> isa_wf m'"
  by (auto simp: isa_mret_def elim!: bind_eq_SomeE intro: wf_csr_inst_write)

lemma wf_bru_op: "isa_bru_op f s m = Some (s', p, m') \<Longrightarrow> isa_wf m \<Longrightarrow> isa_wf m'"
  by (cases f) (auto elim!: bind_eq_SomeE intro: wf_mret)

lemma wf_bru: "execute_bru s m = Some (s', m') \<Longrightarrow> isa_wf m \<Longrightarrow> isa_wf m'"
  by (auto simp: execute_bru_def elim!: bind_eq_SomeE split: if_splits dest: wf_bru_op)

lemma wf_csr: "execute_csr s m = Some (s', m') \<Longrightarrow> isa_wf m \<Longrightarrow> isa_wf m'"
  by (auto simp: execute_csr_def csrfile_write_def Let_def wf_csr_store
      elim!: bind_eq_SomeE split: if_splits option.splits prod.splits)

lemma wf_lsu: "execute_lsu s m = Some (s', m') \<Longrightarrow> isa_wf m \<Longrightarrow> isa_wf m'"
  by (auto simp: execute_lsu_def Let_def elim!: bind_eq_SomeE split: if_splits option.splits prod.splits)

lemma wf_dispatch: "isa_dispatch s m = Some (s', m') \<Longrightarrow> isa_wf m \<Longrightarrow> isa_wf m'"
  by (auto simp: isa_dispatch_def elim!: bind_eq_SomeE split: op_unit_t.splits dest: wf_bru wf_csr wf_lsu)

lemma wf_writeback:
  assumes "isa_writeback s m = Some m'" and "isa_wf m"
  shows "isa_wf m'"
proof (cases "i_has_exception s")
  case True
  then show ?thesis
    using assms by (auto simp: isa_writeback_def elim!: bind_eq_SomeE) (metis wf_csr_inst_write)
next
  case False
  then show ?thesis
    using assms
    by (auto simp: isa_writeback_def arch_regfile_write_def isa_wf_def nth_list_update unat_eq_zero
        elim!: bind_eq_SomeE split: if_splits)
qed

lemma wf_execute: "isa_execute s m = Some m' \<Longrightarrow> isa_wf m \<Longrightarrow> isa_wf m'"
  by (auto simp: isa_execute_def elim!: bind_eq_SomeE dest: wf_dispatch wf_writeback)

lemma wf_clint_run: "isa_clint_run m = Some m' \<Longrightarrow> isa_wf m \<Longrightarrow> isa_wf m'"
  by (auto simp: isa_clint_run_def elim!: bind_eq_SomeE intro: wf_regs_csr)

lemma wf_step: "isa_step m = Some m' \<Longrightarrow> isa_wf m \<Longrightarrow> isa_wf m'"
  by (auto simp: isa_step_def elim!: bind_eq_SomeE dest: wf_fetch wf_execute wf_clint_run)

lemma wf_count: "isa_count m = Some m' \<Longrightarrow> isa_wf m \<Longrightarrow> isa_wf m'"
  unfolding isa_count_def isa_write_counters_def
  by (erule bind_eq_SomeE wf_csr_inst_write | (erule wf_regs_csr; simp))+

lemma wf_run: "isa_run m = Some m' \<Longrightarrow> isa_wf m \<Longrightarrow> isa_wf m'"
  by (auto simp: isa_run_def elim!: bind_eq_SomeE dest: wf_step wf_count)


subsection \<open>Construction and program load\<close>

lemma csrfile_map_all_ok:
  assumes "csrfile_map_all xs f = Some f'" and "list_all (csr_item_ok f) ys"
  shows "list_all (csr_item_ok f') (xs @ ys)"
  using assms
proof (induction xs arbitrary: f ys)
  case (Cons x xs)
  obtain a ro c where x: "x = (a, ro, c)" by (cases x)
  from Cons.prems(1)[unfolded x] obtain f1 where f1: "csrfile_map a ro (csr_make c) f = Some f1"
    and r: "csrfile_map_all xs f1 = Some f'"
    by (auto elim: bind_eq_SomeE)
  from f1 have d: "a < CSR_TABLE_SIZE" "csr_map_table f a = None"
    and m: "csr_map_table f1 = (csr_map_table f)(a \<mapsto> \<lparr>csr_readonly = ro, csr_obj = csr_make c\<rparr>)"
    by (auto simp: csrfile_map_def split: if_splits)
  have init: "csr_filter c (csr_init_value c) = csr_init_value c" by (cases c) simp_all
  have "csr_item_ok f1 x" using d m init by (simp add: x csr_item_ok_def csr_make_def)
  moreover have "csr_item_ok f1 y" if "csr_item_ok f y" for y
    using that d m by (cases y) (auto simp: csr_item_ok_def)
  ultimately have "list_all (csr_item_ok f1) (x # ys)"
    using Cons.prems(2) by (auto simp: list_all_iff)
  then have "list_all (csr_item_ok f') (xs @ x # ys)" by (rule Cons.IH[OF r])
  then show ?case by (auto simp: list_all_iff)
qed simp

lemma csrfile_map_all_dom:
  "csrfile_map_all xs f = Some f' \<Longrightarrow> dom (csr_map_table f') = fst ` set xs \<union> dom (csr_map_table f)"
proof (induction xs arbitrary: f)
  case (Cons x xs)
  obtain a ro c where x: "x = (a, ro, c)" by (cases x)
  obtain f1 where f1: "csrfile_map a ro (csr_make c) f = Some f1" "csrfile_map_all xs f1 = Some f'"
    using Cons.prems by (auto simp: x elim: bind_eq_SomeE)
  then have "dom (csr_map_table f1) = insert a (dom (csr_map_table f))" by (auto simp: csrfile_map_def split: if_splits)
  then show ?case using Cons.IH[OF f1(2)] by (simp add: x)
qed simp

lemma csr_reset_dom: "dom (csr_map_table (csrfile_reset f)) = dom (csr_map_table f)"
  by (auto simp: csrfile_reset_def)

lemma csr_reset_mapped: "csr_map_table (csrfile_reset f) a = Some i \<Longrightarrow> a \<in> dom (csr_map_table f)"
  by (metis csr_reset_dom domI)

lemma csr_item_ok_reset: "csr_item_ok f e \<Longrightarrow> csr_item_ok (csrfile_reset f) e"
proof -
  have "csr_filter c (csr_init_value c) = csr_init_value c" for c by (cases c) simp_all
  then show "csr_item_ok f e \<Longrightarrow> csr_item_ok (csrfile_reset f) e"
    by (auto simp: csr_item_ok_def csrfile_reset_def csr_reset_def split: option.splits)
qed

lemma csrfile_map_all_Some:
  assumes "distinct (map fst xs)" and "\<forall>x \<in> set xs. fst x < CSR_TABLE_SIZE"
    and "\<forall>a \<in> fst ` set xs. csr_map_table f a = None"
  shows "\<exists>f'. csrfile_map_all xs f = Some f'"
  using assms
proof (induction xs arbitrary: f)
  case (Cons x xs)
  obtain a ro c where x: "x = (a, ro, c)" by (cases x)
  have "\<exists>f'. csrfile_map_all xs g = Some f'"
    if "csr_map_table g = (csr_map_table f)(a \<mapsto> i)" for g i
    by (rule Cons.IH) (use Cons.prems that x in auto)
  then show ?case using Cons.prems by (simp add: x csrfile_map_def)
qed simp

lemma isa_csr_addrs: "distinct (map fst isa_csr_list)" "\<forall>x \<in> set isa_csr_list. fst x < CSR_TABLE_SIZE"
  by code_simp+

lemma isa_make_wf:
  "\<exists>m. isa_make snd_fifo rcv_fifo = Some m \<and> isa_wf m \<and> bus_wf (m_bus m) \<and>
     m_pc m = INIT_PC \<and> m_arch_regfile m = replicate 32 0"
proof -
  obtain cf where cf: "csrfile_map_all isa_csr_list (csrfile_make snd_fifo rcv_fifo) = Some cf"
    using csrfile_map_all_Some[OF isa_csr_addrs, of "csrfile_make snd_fifo rcv_fifo"]
    by (auto simp: csrfile_make_def)
  have ok: "list_all (csr_item_ok cf) isa_csr_list"
    using csrfile_map_all_ok[OF cf, where ys = "[]"] by simp
  have known: "dom (csr_map_table cf) \<subseteq> fst ` set isa_csr_list"
    using csrfile_map_all_dom[OF cf] by (simp add: csrfile_make_def)
  have regs: "arch_regfile_make ARCH_REG_NUM = replicate 32 0"
    by (simp add: arch_regfile_make_def arch_regfile_reset_def ARCH_REG_NUM_def map_replicate_const)
  obtain b2 where b2: "do { b1 \<leftarrow> bus_map MEMORY_BASE MEMORY_SIZE Slave_memory True bus_make;
      bus_map CLINT_BASE CLINT_SIZE Slave_clint False b1 } = Some b2" and w: "bus_wf b2"
    by (simp add: bus_map_def check_addr_override_def bus_make_def bus_wf_def memory_init_def
        clint_init_def config_defs)
  have g: "get_slave_obj 0x80000000 False b2 = Some Slave_memory"
    using find_slave[OF w] w
    by (simp add: get_slave_obj_def in_ram_def bus_wf_def config_defs)
  have w': "bus_wf (b2\<lparr>bus_memory := memory_reset (bus_memory b2), bus_clint := clint_reset (bus_clint b2)\<rparr>)"
    using w by (simp add: bus_wf_def memory_reset_def clint_reset_def)
  have "isa_make snd_fifo rcv_fifo = isa_reset
         \<lparr>m_cpu_clock_cycle = 0, m_committed_instruction_num = 0, m_branch_num = 0,
          m_branch_predicted = 0, m_branch_hit = 0, m_branch_miss = 0, m_pc = INIT_PC,
          m_commit_num = 0, m_bus = b2, m_csr_file = cf,
          m_interrupt_interface = interrupt_make, m_arch_regfile = arch_regfile_make ARCH_REG_NUM\<rparr>"
    using b2 cf by (auto simp: isa_make_def elim!: bind_eq_SomeE)
  then show ?thesis
    using g w' ok regs known
    by (simp add: isa_reset_def isa_wf_def arch_regfile_reset_def list_all_iff csr_item_ok_reset csr_reset_dom Let_def)
qed

lemma isa_load_loop_writes:
  "isa_load_loop a xs b = byte_port.wr_all (zip (map (\<lambda>i. a + of_nat i) [0..<length xs]) xs) b"
proof (induction xs arbitrary: a b)
  case (Cons x xs)
  have "map (\<lambda>i. a + of_nat i) [0..<length (x # xs)] = a # map (\<lambda>i. a + 1 + of_nat i) [0..<length xs]"
    by (simp add: upt_conv_Cons map_Suc_upt[symmetric] add.assoc del: upt_Suc)
  moreover have "isa_load_loop (a + 1) xs =
      byte_port.wr_all (zip (map (\<lambda>i. a + 1 + of_nat i) [0..<length xs]) xs)"
    using Cons.IH by (rule ext)
  ultimately show ?case by simp
qed simp

lemma in_ram_add: "w < MEMORY_SIZE \<Longrightarrow> in_ram (MEMORY_BASE + w)"
  unfolding in_ram_def config_defs by uint_arith auto

lemma in_ram_image:
  assumes "i < unat MEMORY_SIZE"
  shows "in_ram (MEMORY_BASE + of_nat i)"
proof -
  have "i < 1048576" using assms by (simp add: MEMORY_SIZE_def)
  moreover from this have "unat (of_nat i :: u32) = i"
    by (simp add: unat_of_nat take_bit_nat_eq_self)
  ultimately have "(of_nat i :: u32) < MEMORY_SIZE" by (simp add: word_less_nat_alt MEMORY_SIZE_def)
  then show ?thesis by (rule in_ram_add)
qed

lemma map_of_rev_zip:
  assumes "distinct ks" and "length ks = length vs" and "i < length ks"
  shows "map_of (rev (zip ks vs)) (ks ! i) = Some (vs ! i)"
proof -
  have "distinct (map fst (rev (zip ks vs)))" using assms by (simp add: rev_map[symmetric])
  moreover have "(ks ! i, vs ! i) \<in> set (rev (zip ks vs))"
    using assms by (auto simp: set_zip)
  ultimately show ?thesis by (rule map_of_is_SomeI)
qed

lemma image_addrs_distinct:
  assumes "n < unat MEMORY_SIZE"
  shows "distinct (map (\<lambda>i. MEMORY_BASE + of_nat i) [0..<n])"
proof -
  have "inj_on (\<lambda>i. MEMORY_BASE + of_nat i :: u32) {0..<n}"
  proof (rule inj_onI)
    fix i j assume ij: "i \<in> {0..<n}" "j \<in> {0..<n}" and e: "MEMORY_BASE + (of_nat i :: u32) = MEMORY_BASE + of_nat j"
    have "k < n \<Longrightarrow> unat (of_nat k :: u32) = k" for k
      using assms by (simp add: unat_of_nat take_bit_nat_eq_self MEMORY_SIZE_def)
    then show "i = j" using ij e by (metis add_left_cancel atLeastLessThan_iff)
  qed
  then show ?thesis by (simp add: distinct_map)
qed

lemma isa_load_image_bus:
  assumes "bus_wf b" and "length buf < unat MEMORY_SIZE"
  shows "\<exists>b'. isa_load_loop MEMORY_BASE buf b = Some b' \<and> bus_wf b' \<and>
    (\<forall>i < length buf. bus_read8 (MEMORY_BASE + of_nat i) False b' = Some (buf ! i, b'))"
proof -
  let ?ks = "map (\<lambda>i. MEMORY_BASE + of_nat i :: u32) [0..<length buf]"
  have m: "\<forall>(a, v) \<in> set (zip ?ks buf). in_ram a"
    using assms(2) by (auto simp: set_zip intro!: in_ram_image)
  obtain b' where b': "isa_load_loop MEMORY_BASE buf b = Some b'" "bus_wf b'"
    and r: "\<forall>a. in_ram a \<longrightarrow> map_option fst (bus_read8 a False b') =
      (case map_of (rev (zip ?ks buf)) a of None \<Rightarrow> map_option fst (bus_read8 a False b) | Some v \<Rightarrow> Some v)"
    using byte_port.wr_all_law[OF assms(1) m] unfolding isa_load_loop_writes by blast
  have "bus_read8 (MEMORY_BASE + of_nat i) False b' = Some (buf ! i, b')" if "i < length buf" for i
  proof -
    have "map_of (rev (zip ?ks buf)) (?ks ! i) = Some (buf ! i)"
      by (rule map_of_rev_zip[OF image_addrs_distinct[OF assms(2)]]) (use that in simp_all)
    moreover have ok: "in_ram (?ks ! i)" using that assms(2) by (simp add: in_ram_image)
    ultimately have "map_option fst (bus_read8 (?ks ! i) False b') = Some (buf ! i)" using r by simp
    then show ?thesis using byte_port.rd_eq[OF b'(2) ok] that by simp
  qed
  then show ?thesis using b' by blast
qed

subsection \<open>A step on a legal instruction does not abort\<close>

fun access_aligned :: "instr \<Rightarrow> isa_model \<Rightarrow> bool" where
  "access_aligned (Load k rd rs1 imm) m \<longleftrightarrow>
     unat (get_x rs1 m + scast imm) mod (case k of LB \<Rightarrow> 1 | LBU \<Rightarrow> 1 | LH \<Rightarrow> 2 | LHU \<Rightarrow> 2 | LW \<Rightarrow> 4) = 0"
| "access_aligned (Store k rs1 rs2 imm) m \<longleftrightarrow>
     unat (get_x rs1 m + scast imm) mod (case k of SB \<Rightarrow> 1 | SH \<Rightarrow> 2 | SW \<Rightarrow> 4) = 0"
| "access_aligned _ m \<longleftrightarrow> True"

definition clint_off :: "u32 \<Rightarrow> u32" where "clint_off a = a - CLINT_BASE"

lemma clint_off_mod:
  assumes "in_clint a"
  shows "unat (clint_off a) mod 4 = unat a mod 4" "unat (clint_off a) mod 2 = unat a mod 2"
proof -
  have "unat (clint_off a) = unat a - 536870912" "unat a \<ge> 536870912"
    using assms unfolding in_clint_def config_defs clint_off_def
    by (simp_all add: word_le_nat_alt unat_sub)
  then obtain k where "unat a = 536870912 + k" "unat (clint_off a) = k"
    using le_Suc_ex by auto
  then show "unat (clint_off a) mod 4 = unat a mod 4" "unat (clint_off a) mod 2 = unat a mod 2"
    by presburger+
qed

lemma bus_clint_access:
  assumes "bus_wf b" and "\<not> in_ram a" and "in_clint a"
  shows "bus_read8 a False b = Some (0, b)" and "bus_write8 a v8 b = Some b"
    and "bus_read16 a False b = do { verify (unat a mod 2 = 0); Some (0, b) }"
    and "bus_write16 a v16 b = do { verify (unat a mod 2 = 0); Some b }"
    and "bus_read32 a fe b = do { verify (unat a mod 4 = 0); Some (clint_read32 (clint_off a) (bus_clint b), b) }"
    and "bus_write32 a v32 b =
      do { verify (unat a mod 4 = 0); Some (b\<lparr>bus_clint := clint_write32 (clint_off a) v32 (bus_clint b)\<rparr>) }"
proof -
  have f: "find_slave_info a False b = Some \<lparr>si_base = CLINT_BASE, si_size = CLINT_SIZE,
      si_slave = Slave_clint, si_support_fetch = False\<rparr>"
    using assms find_slave[OF assms(1), of a] by (simp add: bus_wf_def)
  have z: "clint_size (bus_clint b) = CLINT_SIZE" using assms(1) by (simp add: bus_wf_def)
  note c = slave_check_simps[OF ram_size_4(2) clint_offset[OF assms(3)]]
  note m = clint_off_mod[OF assms(3), unfolded clint_off_def]
  show "bus_read8 a False b = Some (0, b)" "bus_write8 a v8 b = Some b"
    "bus_read16 a False b = do { verify (unat a mod 2 = 0); Some (0, b) }"
    "bus_write16 a v16 b = do { verify (unat a mod 2 = 0); Some b }"
    "bus_read32 a fe b = do { verify (unat a mod 4 = 0); Some (clint_read32 (clint_off a) (bus_clint b), b) }"
    "bus_write32 a v32 b =
      do { verify (unat a mod 4 = 0); Some (b\<lparr>bus_clint := clint_write32 (clint_off a) v32 (bus_clint b)\<rparr>) }"
    by (simp_all add: bus_read8_def bus_write8_def bus_read16_def bus_write16_def bus_read32_def
        bus_write32_def f z c m clint_off_def)
qed

lemma bus_unmapped:
  assumes "bus_wf b" and "\<not> in_ram a" and "\<not> in_clint a"
  shows "bus_read8 a False b = Some (0, bus_error a 1 0 False False b)"
    and "bus_write8 a v8 b = Some (bus_error a 1 (ucast v8) True False b)"
    and "bus_read16 a False b = Some (0, bus_error a 2 0 False False b)"
    and "bus_write16 a v16 b = Some (bus_error a 2 (ucast v16) True False b)"
    and "bus_read32 a fe b = Some (0, bus_error a 4 0 False fe b)"
    and "bus_write32 a v32 b = Some (bus_error a 4 v32 True False b)"
  using assms find_slave[OF assms(1), of a]
  by (simp_all add: bus_read8_def bus_write8_def bus_read16_def bus_write16_def bus_read32_def
      bus_write32_def)

lemma bus_wf_keep [simp]:
  "bus_wf (b\<lparr>bus_clint := clint_write32 x v (bus_clint b)\<rparr>) = bus_wf b"
  "bus_wf (bus_error a n v w f b) = bus_wf b"
  by (auto simp: bus_wf_def clint_write32_def bus_error_def)

text \<open>
  Aligned accesses succeed wherever they go; an access outside both slaves reads 0 and is
  reported in the error queue. Without alignment the slave's assertion stops the process.
\<close>

lemma bus_aligned:
  assumes "bus_wf b"
  shows "\<exists>v b'. bus_read8 a False b = Some (v, b') \<and> bus_wf b'"
    and "\<exists>b'. bus_write8 a v8 b = Some b' \<and> bus_wf b'"
    and "unat a mod 2 = 0 \<Longrightarrow> \<exists>v b'. bus_read16 a False b = Some (v, b') \<and> bus_wf b'"
    and "unat a mod 2 = 0 \<Longrightarrow> \<exists>b'. bus_write16 a v16 b = Some b' \<and> bus_wf b'"
    and "unat a mod 4 = 0 \<Longrightarrow> \<exists>v b'. bus_read32 a fe b = Some (v, b') \<and> bus_wf b'"
    and "unat a mod 4 = 0 \<Longrightarrow> \<exists>b'. bus_write32 a v32 b = Some b' \<and> bus_wf b'"
proof -
  consider "in_ram a" | "\<not> in_ram a" "in_clint a" | "\<not> in_ram a" "\<not> in_clint a" by blast
  note c = this
  show "\<exists>v b'. bus_read8 a False b = Some (v, b') \<and> bus_wf b'"
    by (rule c) (simp_all add: assms bus_ram bus_clint_access bus_unmapped)
  show "\<exists>b'. bus_write8 a v8 b = Some b' \<and> bus_wf b'"
    by (rule c) (simp_all add: assms bus_ram bus_clint_access bus_unmapped)
  show "\<exists>v b'. bus_read16 a False b = Some (v, b') \<and> bus_wf b'" if "unat a mod 2 = 0"
    by (rule c) (use that in \<open>simp_all add: assms bus_ram bus_clint_access bus_unmapped\<close>)
  show "\<exists>b'. bus_write16 a v16 b = Some b' \<and> bus_wf b'" if "unat a mod 2 = 0"
    by (rule c) (use that in \<open>simp_all add: assms bus_ram bus_clint_access bus_unmapped\<close>)
  show "\<exists>v b'. bus_read32 a fe b = Some (v, b') \<and> bus_wf b'" if "unat a mod 4 = 0"
    by (rule c) (use that in \<open>simp_all add: assms bus_ram bus_clint_access bus_unmapped\<close>)
  show "\<exists>b'. bus_write32 a v32 b = Some b' \<and> bus_wf b'" if "unat a mod 4 = 0"
    by (rule c) (use that in \<open>simp_all add: assms bus_ram bus_clint_access bus_unmapped\<close>)
qed

lemma load_aligned:
  assumes "bus_wf b" and "unat a mod (case k of LB \<Rightarrow> 1 | LBU \<Rightarrow> 1 | LH \<Rightarrow> 2 | LHU \<Rightarrow> 2 | LW \<Rightarrow> 4) = 0"
  shows "\<exists>v b'. load_sem k a b = Some (v, b') \<and> bus_wf b'"
  using assms bus_aligned(1,3,5)[OF assms(1), of a] by (cases k) fastforce+

lemma store_aligned:
  assumes "bus_wf b" and "unat a mod (case k of SB \<Rightarrow> 1 | SH \<Rightarrow> 2 | SW \<Rightarrow> 4) = 0"
  shows "\<exists>b'. store_sem k a v b = Some b' \<and> bus_wf b'"
  using assms bus_aligned(2,4,6)[OF assms(1), of a] by (cases k) auto

lemma sem_bus [simp]: "m_bus (goto a m) = m_bus m" "m_bus (csr_put a v m) = m_bus m"
  "m_bus (code_trap e t m) = m_bus m" "m_bus (code_mret m) = m_bus m" "m_bus (code_csr k rd wr s a m) = m_bus m"
  by (simp_all add: goto_def csr_put_def code_trap_def code_mret_def code_csr_def Let_def)

lemma code_sem_succeeds:
  assumes "bus_wf (m_bus m)" and "access_aligned i m"
  shows "\<exists>m'. code_sem i m = Some m' \<and> bus_wf (m_bus m')"
proof (cases i)
  case (Load k rd rs1 imm)
  then show ?thesis
    using assms load_aligned[OF assms(1), of "get_x rs1 m + scast imm" k]
    unfolding Load code_sem.simps offset12[symmetric] by auto
next
  case (Store k rs1 rs2 imm)
  then show ?thesis
    using assms store_aligned[OF assms(1), of "get_x rs1 m + scast imm" k "get_x rs2 m"]
    unfolding Store code_sem.simps offset12[symmetric] by auto
qed (use assms in simp_all)

lemma clint_run_succeeds: "\<exists>m'. isa_clint_run m = Some m' \<and> (bus_wf (m_bus m') = bus_wf (m_bus m))"
  by (simp add: isa_clint_run_def clint_run_def clint_tick_def bus_wf_def Let_def)

lemma counters_succeed:
  assumes "isa_wf m"
  shows "\<exists>m'. isa_count m = Some m'"
proof -
  have in_list: "CSR_MCYCLE \<in> fst ` set isa_csr_list" "CSR_MCYCLEH \<in> fst ` set isa_csr_list"
    "CSR_MINSTRET \<in> fst ` set isa_csr_list" "CSR_MINSTRETH \<in> fst ` set isa_csr_list"
    "CSR_BRANCHNUM \<in> fst ` set isa_csr_list" "CSR_BRANCHNUMH \<in> fst ` set isa_csr_list"
    "CSR_BRANCHPREDICTED \<in> fst ` set isa_csr_list" "CSR_BRANCHPREDICTEDH \<in> fst ` set isa_csr_list"
    "CSR_BRANCHHIT \<in> fst ` set isa_csr_list" "CSR_BRANCHHITH \<in> fst ` set isa_csr_list"
    "CSR_BRANCHMISS \<in> fst ` set isa_csr_list" "CSR_BRANCHMISSH \<in> fst ` set isa_csr_list"
    by (simp_all add: isa_csr_list_def)
  have l: "list_all (csr_item_ok (m_csr_file m)) isa_csr_list" using assms by (simp add: isa_wf_def)
  show ?thesis
    using l in_list by (simp add: isa_count_def isa_write_counters_def csr_inst_wf csr_ok_put)
qed

lemma isa_run_succeeds:
  assumes "isa_wf m" and "bus_wf (m_bus m)" and "is_align (m_pc m) 4"
    and "bus_read32 (m_pc m) True (m_bus m) = Some (encode i, m_bus m)" and "access_aligned i m"
  shows "\<exists>m'. isa_run m = Some m' \<and> isa_wf m'"
proof -
  obtain m1 where m1: "isa_exec_one m = Some m1"
    using isa_exec_one_sem[OF assms(1,3,4)] code_sem_succeeds[OF assms(2,5)] by auto
  obtain m2 where "isa_clint_run m1 = Some m2" using clint_run_succeeds by blast
  then have m2: "isa_step m = Some m2" using m1 by (simp add: isa_step_exec)
  obtain m3 where m3: "isa_count m2 = Some m3"
    using counters_succeed[OF wf_step[OF m2 assms(1)]] by blast
  have "isa_run m = Some m3" using m2 m3 by (simp add: isa_run_def)
  then show ?thesis using wf_run[OF _ assms(1)] by blast
qed

end
