(* ===== verification/Isa_Reach.thy ===== *)
theory Isa_Reach
  imports Isa_Inv
begin

text \<open>
  The reachable states of the ISA model: what construction, program load, reset, the
  instruction step and interrupt entry can produce. The invariant of the register file, the
  CSR file and the slave map is proved by rule induction, and a small loaded program gives
  a concrete reachable state.
\<close>

inductive isa_reachable :: "isa_model \<Rightarrow> bool" where
  make: "isa_make s r = Some m \<Longrightarrow> isa_reachable m"
| load: "isa_reachable m \<Longrightarrow> isa_load buf m = Some m' \<Longrightarrow> isa_reachable m'"
| reset: "isa_reachable m \<Longrightarrow> isa_reset m = Some m' \<Longrightarrow> isa_reachable m'"
| run: "isa_reachable m \<Longrightarrow> isa_run m = Some m' \<Longrightarrow> isa_reachable m'"
| run_standalone: "isa_reachable m \<Longrightarrow> isa_run_standalone m = Some m' \<Longrightarrow> isa_reachable m'"
| sync: "isa_reachable m \<Longrightarrow> interrupt_sync_compare h i m = Some m' \<Longrightarrow> isa_reachable m'"

definition isa_ok :: "isa_model \<Rightarrow> bool" where
  "isa_ok m \<longleftrightarrow> isa_wf m \<and> bus_wf (m_bus m)"

subsection \<open>The slave map never changes\<close>

lemma slave_write_wf:
  "slave_write8 s a v8 b = Some b' \<Longrightarrow> bus_wf b \<Longrightarrow> bus_wf b'"
  "slave_write16 s a v16 b = Some b' \<Longrightarrow> bus_wf b \<Longrightarrow> bus_wf b'"
  "slave_write32 s a v32 b = Some b' \<Longrightarrow> bus_wf b \<Longrightarrow> bus_wf b'"
  by (cases s; auto elim!: bind_eq_SomeE)+

lemma bus_write_wf:
  "bus_write8 a v8 b = Some b' \<Longrightarrow> bus_wf b \<Longrightarrow> bus_wf b'"
  "bus_write16 a v16 b = Some b' \<Longrightarrow> bus_wf b \<Longrightarrow> bus_wf b'"
  "bus_write32 a v32 b = Some b' \<Longrightarrow> bus_wf b \<Longrightarrow> bus_wf b'"
  by (auto simp: bus_write8_def bus_write16_def bus_write32_def split: option.splits
      dest: slave_write_wf)

lemma bus_read_wf:
  "bus_read8 a f b = Some (v8, b') \<Longrightarrow> bus_wf b \<Longrightarrow> bus_wf b'"
  "bus_read16 a f b = Some (v16, b') \<Longrightarrow> bus_wf b \<Longrightarrow> bus_wf b'"
  "bus_read32 a f b = Some (v32, b') \<Longrightarrow> bus_wf b \<Longrightarrow> bus_wf b'"
  by (auto simp: bus_read8_def bus_read16_def bus_read32_def split: option.splits elim!: bind_eq_SomeE)


lemma lsu_op_wf: "isa_lsu_op f a v b = Some (r, b') \<Longrightarrow> bus_wf b \<Longrightarrow> bus_wf b'"
  by (cases f) (auto elim!: bind_eq_SomeE dest: bus_read_wf bus_write_wf)

lemma csr_inst_write_bus: "csr_inst_write a v m = Some m' \<Longrightarrow> m_bus m' = m_bus m"
  by (auto simp: csr_inst_write_def elim!: bind_eq_SomeE)

lemma mret_bus: "isa_mret m = Some (p, m') \<Longrightarrow> m_bus m' = m_bus m"
  by (auto simp: isa_mret_def elim!: bind_eq_SomeE dest: csr_inst_write_bus)

lemma bru_bus: "execute_bru s m = Some (s', m') \<Longrightarrow> m_bus m' = m_bus m"
proof -
  have "isa_bru_op f s m = Some (s', p, m') \<Longrightarrow> m_bus m' = m_bus m" for f p m'
    by (cases f) (auto elim!: bind_eq_SomeE dest: mret_bus)
  then show "execute_bru s m = Some (s', m') \<Longrightarrow> m_bus m' = m_bus m"
    by (auto simp: execute_bru_def elim!: bind_eq_SomeE split: if_splits)
qed

lemma csr_bus: "execute_csr s m = Some (s', m') \<Longrightarrow> m_bus m' = m_bus m"
  by (auto simp: execute_csr_def Let_def elim!: bind_eq_SomeE split: if_splits prod.splits)

lemma dispatch_bus_wf: "isa_dispatch s m = Some (s', m') \<Longrightarrow> bus_wf (m_bus m) \<Longrightarrow> bus_wf (m_bus m')"
  by (auto simp: isa_dispatch_def execute_lsu_def elim!: bind_eq_SomeE split: op_unit_t.splits if_splits
      dest: bru_bus csr_bus lsu_op_wf)

lemma writeback_bus: "isa_writeback s m = Some m' \<Longrightarrow> m_bus m' = m_bus m"
  by (auto simp: isa_writeback_def elim!: bind_eq_SomeE split: if_splits dest!: csr_inst_write_bus)

lemma step_bus_wf: "isa_step m = Some m' \<Longrightarrow> bus_wf (m_bus m) \<Longrightarrow> bus_wf (m_bus m')"
proof -
  have clint: "isa_clint_run m = Some m' \<Longrightarrow> bus_wf (m_bus m) \<Longrightarrow> bus_wf (m_bus m')" for m m'
    using clint_run_succeeds[of m] by auto
  have fetch: "isa_fetch s m = Some (s', m') \<Longrightarrow> bus_wf (m_bus m) \<Longrightarrow> bus_wf (m_bus m')" for s s' m m'
    by (auto simp: isa_fetch_def Let_def elim!: bind_eq_SomeE dest: bus_read_wf)
  have exec: "isa_execute s m = Some m' \<Longrightarrow> bus_wf (m_bus m) \<Longrightarrow> bus_wf (m_bus m')" for s m m'
    by (auto simp: isa_execute_def elim!: bind_eq_SomeE dest: dispatch_bus_wf dest!: writeback_bus)
  show "isa_step m = Some m' \<Longrightarrow> bus_wf (m_bus m) \<Longrightarrow> bus_wf (m_bus m')"
    unfolding isa_step_def by (auto elim!: bind_eq_SomeE dest: fetch exec clint)
qed

lemma count_bus: "isa_count m = Some m' \<Longrightarrow> m_bus m' = m_bus m"
  unfolding isa_count_def isa_write_counters_def
  by (auto elim!: bind_eq_SomeE dest!: csr_inst_write_bus)

lemma interrupt_entry_keeps:
  assumes "isa_interrupt_entry i m = Some m'"
  shows "m_bus m' = m_bus m" and "isa_wf m \<Longrightarrow> isa_wf m'"
  using assms unfolding isa_interrupt_entry_def Let_def
  by (auto elim!: bind_eq_SomeE dest!: csr_inst_write_bus)[1]
    (use assms in \<open>auto simp: isa_interrupt_entry_def Let_def elim!: bind_eq_SomeE
      dest: wf_csr_inst_write intro!: wf_set_pc\<close>)

lemma interrupt_run_wf:
  "interrupt_run ii (m_csr_file m) = Some f \<Longrightarrow> isa_wf m \<Longrightarrow> isa_wf (m\<lparr>m_csr_file := f\<rparr>)"
  by (auto simp: interrupt_run_def csrfile_write_sys_def elim!: bind_eq_SomeE split: if_splits intro: wf_csr_store)

subsection \<open>Every operation keeps the invariant\<close>

lemma isa_ok_run: "isa_run m = Some m' \<Longrightarrow> isa_ok m \<Longrightarrow> isa_ok m'"
  using wf_run[of m m'] by (auto simp: isa_ok_def isa_run_def elim!: bind_eq_SomeE
      dest: step_bus_wf dest!: count_bus)

lemma isa_ok_sync: "interrupt_sync_compare h i m = Some m' \<Longrightarrow> isa_ok m \<Longrightarrow> isa_ok m'"
  unfolding interrupt_sync_compare_def Let_def isa_ok_def
  by (erule bind_eq_SomeE, frule interrupt_run_wf)
    (auto split: if_splits simp: interrupt_entry_keeps(1) dest: interrupt_entry_keeps(2))

lemma isa_ok_interrupt: "interrupt_sync m = Some m' \<Longrightarrow> isa_ok m \<Longrightarrow> isa_ok m'"
  unfolding interrupt_sync_def Let_def isa_ok_def
  by (erule bind_eq_SomeE, frule interrupt_run_wf)
    (auto split: option.splits elim!: bind_eq_SomeE simp: interrupt_entry_keeps(1)
      dest: interrupt_entry_keeps(2))

lemma isa_ok_standalone: "isa_run_standalone m = Some m' \<Longrightarrow> isa_ok m \<Longrightarrow> isa_ok m'"
proof -
  have step: "isa_step m = Some m' \<Longrightarrow> isa_ok m \<Longrightarrow> isa_ok m'" for m m'
    by (auto simp: isa_ok_def dest: wf_step step_bus_wf)
  have count: "isa_count m = Some m' \<Longrightarrow> isa_ok m \<Longrightarrow> isa_ok m'" for m m'
    using wf_count[of m m'] count_bus[of m m'] by (auto simp: isa_ok_def)
  show "isa_run_standalone m = Some m' \<Longrightarrow> isa_ok m \<Longrightarrow> isa_ok m'"
    by (auto simp: isa_run_standalone_def elim!: bind_eq_SomeE dest: step count isa_ok_interrupt)
qed

lemma isa_ok_load: "isa_load buf m = Some m' \<Longrightarrow> isa_ok m \<Longrightarrow> isa_ok m'"
proof -
  have "isa_load_loop a xs b = Some b' \<Longrightarrow> bus_wf b \<Longrightarrow> bus_wf b'" for a xs b b'
    by (induction xs arbitrary: a b) (auto elim!: bind_eq_SomeE dest: bus_write_wf)
  then show "isa_load buf m = Some m' \<Longrightarrow> isa_ok m \<Longrightarrow> isa_ok m'"
    by (auto simp: isa_load_def isa_ok_def elim!: bind_eq_SomeE split: if_splits intro: wf_set_pc)
qed

lemma isa_ok_reset: "isa_reset m = Some m' \<Longrightarrow> isa_ok m \<Longrightarrow> isa_ok m'"
  by (auto simp: isa_reset_def isa_ok_def isa_wf_def bus_wf_def Let_def arch_regfile_reset_def
      memory_reset_def clint_reset_def list_all_iff csr_item_ok_reset split: if_splits dest!: csr_reset_mapped)

lemma isa_ok_make: "isa_make s r = Some m \<Longrightarrow> isa_ok m"
  using isa_make_wf[of s r] by (auto simp: isa_ok_def)

lemma reachable_ok: "isa_reachable m \<Longrightarrow> isa_ok m"
  by (induction rule: isa_reachable.induct)
    (simp_all add: isa_ok_make isa_ok_load isa_ok_reset isa_ok_run isa_ok_standalone isa_ok_sync)


subsection \<open>A loaded program\<close>

text \<open>\<^verbatim>\<open>addi x1, x0, 5\<close> followed by \<^verbatim>\<open>div x2, x1, x0\<close> and \<^verbatim>\<open>jal x0, 0\<close>.\<close>

definition demo_image :: "u8 list" where
  "demo_image = [0x93, 0x00, 0x50, 0x00, 0x33, 0xc1, 0x00, 0x02, 0x6f, 0x00, 0x00, 0x00]"

definition demo_model :: isa_model where
  "demo_model = the (do { m \<leftarrow> isa_make [] []; isa_load demo_image m })"

lemma demo_ok:
  "isa_ok demo_model" "m_pc demo_model = INIT_PC" "isa_reachable demo_model"
  "\<forall>i < 12. bus_read8 (MEMORY_BASE + of_nat i) False (m_bus demo_model) =
     Some (demo_image ! i, m_bus demo_model)"
proof -
  obtain m where m: "isa_make [] [] = Some m" "isa_wf m" "bus_wf (m_bus m)" "m_pc m = INIT_PC"
    using isa_make_wf by blast
  obtain b' where b': "isa_load_loop MEMORY_BASE demo_image (m_bus m) = Some b'"
    "\<forall>i < length demo_image. bus_read8 (MEMORY_BASE + of_nat i) False b' = Some (demo_image ! i, b')"
    using isa_load_image_bus[OF m(3), of demo_image] by (auto simp: demo_image_def MEMORY_SIZE_def)
  have ld: "isa_load demo_image m = Some (m\<lparr>m_bus := b'\<rparr>)"
    using b' by (simp add: isa_load_def) (simp add: demo_image_def MEMORY_SIZE_def)
  then have d: "demo_model = m\<lparr>m_bus := b'\<rparr>" by (simp add: demo_model_def m)
  show "isa_reachable demo_model" unfolding d using ld m by (auto intro: isa_reachable.intros)
  then show "isa_ok demo_model" by (rule reachable_ok)
  show "m_pc demo_model = INIT_PC" by (simp add: d m)
  have "length demo_image = 12" by (simp add: demo_image_def)
  then show "\<forall>i < 12. bus_read8 (MEMORY_BASE + of_nat i) False (m_bus demo_model) =
     Some (demo_image ! i, m_bus demo_model)"
    using b'(2) by (simp add: d)
qed

text \<open>A word read is the four byte reads put together, lowest byte first.\<close>

lemma bus_read32_bytes:
  assumes "bus_wf b" and "ram_word a"
    and "bus_read8 a False b = Some (b0, b)" and "bus_read8 (a + 1) False b = Some (b1, b)"
    and "bus_read8 (a + 2) False b = Some (b2, b)" and "bus_read8 (a + 3) False b = Some (b3, b)"
    and "in_ram (a + 1)" and "in_ram (a + 2)" and "in_ram (a + 3)"
  shows "bus_read32 a f b =
    Some (ucast b0 OR push_bit 8 (ucast b1) OR push_bit 16 (ucast b2) OR push_bit 24 (ucast b3), b)"
proof -
  have "memory_read8 (ram_off a) (bus_memory b) = b0"
    "memory_read8 (ram_off a + 1) (bus_memory b) = b1" "memory_read8 (ram_off a + 2) (bus_memory b) = b2"
    "memory_read8 (ram_off a + 3) (bus_memory b) = b3"
    using assms by (simp_all add: bus_ram ram_word_def ram_off_def diff_add_eq)
  then show ?thesis
    using assms(1,2) by (simp add: bus_ram ram_word_def memory_read32_def memory_read8_def)
qed

lemma demo_first:
  "bus_read32 (m_pc demo_model) f (m_bus demo_model) =
     Some (encode (Op_Imm ADDI 1 0 5), m_bus demo_model)"
proof -
  let ?b = "m_bus demo_model"
  have r: "bus_read8 (MEMORY_BASE + of_nat i) False ?b = Some (demo_image ! i, ?b)" if "i < 12" for i
    using demo_ok(4) that by blast
  have "bus_read8 MEMORY_BASE False ?b = Some (0x93, ?b)" "bus_read8 (MEMORY_BASE + 1) False ?b = Some (0x00, ?b)"
    "bus_read8 (MEMORY_BASE + 2) False ?b = Some (0x50, ?b)" "bus_read8 (MEMORY_BASE + 3) False ?b = Some (0x00, ?b)"
    using r[of 0] r[of 1] r[of 2] r[of 3] by (simp_all add: demo_image_def)
  moreover have "ram_word MEMORY_BASE" "in_ram (MEMORY_BASE + 1)" "in_ram (MEMORY_BASE + 2)" "in_ram (MEMORY_BASE + 3)"
    by (simp_all add: ram_word_def in_ram_def config_defs)
  moreover have "bus_wf ?b" using demo_ok(1) by (simp add: isa_ok_def)
  moreover have "encode (Op_Imm ADDI 1 0 5) = (0x00500093 :: u32)" by code_simp
  ultimately show ?thesis
    using bus_read32_bytes[of ?b MEMORY_BASE "0x93" 0 "0x50" 0 f] by (simp add: demo_ok(2) INIT_PC_def flip: MEMORY_BASE_def)
qed

end
