(* ===== verification/Riscv_Effect.thy ===== *)
theory Riscv_Effect
  imports Isa_Inv
begin

text \<open>
  The effect the RISC-V manual gives to each instruction in machine mode, written without the code: an instruction retires in a
  new state or raises an exception with a trap value, and \<open>riscv_trap\<close> is the trap entry. Memory is read and written byte by byte,
  lowest byte first, and the access of a device register is left to the device. The manual leaves to the implementation which
  CSRs exist and which bits they hold; these are taken from the model (\<open>csrfile_enabled\<close>, \<open>csr_filter\<close>).

  \<open>conforms\<close> names the cases in which the model departs from the manual, and \<open>code_conforms\<close> shows that in all
  others the code computes the effect, but for \<open>mstatus\<close> at a trap, which it leaves as it was.
\<close>

subsection \<open>Memory\<close>

fun bytes_uint :: "u8 list \<Rightarrow> int" where
  "bytes_uint [] = 0"
| "bytes_uint (x # xs) = uint x + 2 ^ 8 * bytes_uint xs"

definition ram_uint :: "nat \<Rightarrow> u32 \<Rightarrow> isa_bus \<Rightarrow> int" where
  "ram_uint n a b = bytes_uint (map (\<lambda>k. mem (bus_memory b) (a - MEMORY_BASE + of_nat k)) [0..<n])"

definition ram_put :: "nat \<Rightarrow> u32 \<Rightarrow> u32 \<Rightarrow> isa_bus \<Rightarrow> isa_bus" where
  "ram_put n a v b =
     b\<lparr>bus_memory := (bus_memory b)\<lparr>mem :=
       fold (\<lambda>k f. f(a - MEMORY_BASE + of_nat k := word_of_int (uint v div 2 ^ (8 * k)))) [0..<n] (mem (bus_memory b))\<rparr>\<rparr>"

fun load_width :: "load_kind \<Rightarrow> nat" where
  "load_width LB = 1" | "load_width LBU = 1" | "load_width LH = 2" | "load_width LHU = 2" | "load_width LW = 4"

fun store_width :: "store_kind \<Rightarrow> nat" where
  "store_width SB = 1" | "store_width SH = 2" | "store_width SW = 4"

definition as_signed :: "nat \<Rightarrow> int \<Rightarrow> int" where
  "as_signed n x = (if x < 2 ^ (8 * n - 1) then x else x - 2 ^ (8 * n))"

fun load_value :: "load_kind \<Rightarrow> int \<Rightarrow> u32" where
  "load_value LB x = word_of_int (as_signed 1 x)"
| "load_value LH x = word_of_int (as_signed 2 x)"
| "load_value _ x = word_of_int x"

definition riscv_load :: "load_kind \<Rightarrow> u32 \<Rightarrow> isa_bus \<Rightarrow> (u32 \<times> isa_bus) option" where
  "riscv_load k a b =
     (if in_ram a then Some (load_value k (ram_uint (load_width k) a b), b)
      else if in_clint a then load_sem k a b else None)"

definition riscv_store :: "store_kind \<Rightarrow> u32 \<Rightarrow> u32 \<Rightarrow> isa_bus \<Rightarrow> isa_bus option" where
  "riscv_store k a v b =
     (if in_ram a then Some (ram_put (store_width k) a v b)
      else if in_clint a then store_sem k a v b else None)"

subsection \<open>Effects\<close>

datatype effect = Retire isa_model | Raise riscv_exception_t u32

definition jump_to :: "u32 \<Rightarrow> isa_model \<Rightarrow> effect" where
  "jump_to t m = (if uint t mod 4 = 0 then Retire (goto t m) else Raise instruction_address_misaligned t)"

text \<open>The top two bits of the address of a CSR say that it is read only.\<close>

definition read_only_address :: "u32 \<Rightarrow> bool" where
  "read_only_address a \<longleftrightarrow> uint a div 2 ^ 10 mod 4 = 3"

text \<open>
  A CSR instruction with the number \<open>field\<close> of its source register, or its immediate: \<open>csrrw\<close> always writes, the others
  unless the field is 0. Reads of the model's registers have no side effect, so that it does not matter that
  \<open>csrrw\<close> with \<open>x0\<close> as its destination does not read.
\<close>

definition csr_effect :: "csr_access \<Rightarrow> 5 word \<Rightarrow> 5 word \<Rightarrow> u32 \<Rightarrow> u32 \<Rightarrow> isa_model \<Rightarrow> effect" where
  "csr_effect k rd field src a m =
     (let writes = (k = CSRRW \<or> field \<noteq> 0); old = csr_val a m in
      if \<not> csrfile_enabled (m_csr_file m) a \<or> writes \<and> read_only_address a then Raise illegal_instruction 0
      else Retire (goto (m_pc m + 4) (set_x rd old (if writes then csr_put a (csr_sem_value k old src) m else m))))"

fun riscv_effect :: "instr \<Rightarrow> isa_model \<Rightarrow> effect" where
  "riscv_effect (LUI rd imm) m = Retire (goto (m_pc m + 4) (set_x rd (word_of_int (uint imm * 2 ^ 12)) m))"
| "riscv_effect (AUIPC rd imm) m = Retire (goto (m_pc m + 4) (set_x rd (word_of_int (uint (m_pc m) + uint imm * 2 ^ 12)) m))"
| "riscv_effect (JAL rd imm) m = jump_to (word_of_int (uint (m_pc m) + sint imm * 2)) (set_x rd (m_pc m + 4) m)"
| "riscv_effect (JALR rd rs1 imm) m =
     jump_to (word_of_int ((uint (get_x rs1 m) + sint imm) div 2 * 2)) (set_x rd (m_pc m + 4) m)"
| "riscv_effect (Branch c rs1 rs2 imm) m =
     (if branch_sem c (get_x rs1 m) (get_x rs2 m) then jump_to (word_of_int (uint (m_pc m) + sint imm * 2)) m
      else Retire (goto (m_pc m + 4) m))"
| "riscv_effect (Load k rd rs1 imm) m =
     (let a = word_of_int (uint (get_x rs1 m) + sint imm) in
      if unat a mod load_width k \<noteq> 0 then Raise load_address_misaligned a
      else case riscv_load k a (m_bus m) of
             None \<Rightarrow> Raise load_access_fault a
           | Some (v, b) \<Rightarrow> Retire (goto (m_pc m + 4) (set_x rd v (m\<lparr>m_bus := b\<rparr>))))"
| "riscv_effect (Store k rs1 rs2 imm) m =
     (let a = word_of_int (uint (get_x rs1 m) + sint imm) in
      if unat a mod store_width k \<noteq> 0 then Raise store_amo_address_misaligned a
      else case riscv_store k a (get_x rs2 m) (m_bus m) of
             None \<Rightarrow> Raise store_amo_access_fault a
           | Some b \<Rightarrow> Retire (goto (m_pc m + 4) (m\<lparr>m_bus := b\<rparr>)))"
| "riscv_effect (Op_Imm k rd rs1 imm) m =
     Retire (goto (m_pc m + 4) (set_x rd (reg_sem (imm_reg k) (get_x rs1 m) (word_of_int (sint imm))) m))"
| "riscv_effect (Shift_Imm k rd rs1 shamt) m =
     Retire (goto (m_pc m + 4) (set_x rd (reg_sem (shift_reg k) (get_x rs1 m) (word_of_int (uint shamt))) m))"
| "riscv_effect (Op_Reg k rd rs1 rs2) m =
     Retire (goto (m_pc m + 4) (set_x rd (reg_sem k (get_x rs1 m) (get_x rs2 m)) m))"
| "riscv_effect (FENCE ps) m = Retire (goto (m_pc m + 4) m)"
| "riscv_effect FENCE_I m = Retire (goto (m_pc m + 4) m)"
| "riscv_effect ECALL m = Raise environment_call_from_m_mode 0"
| "riscv_effect EBREAK m = Raise breakpoint 0"
| "riscv_effect MRET m =
     (let st = csr_val CSR_MSTATUS m
      in Retire (goto (csr_val CSR_MEPC m)
           (csr_put CSR_MSTATUS (set_bit 7 ((if bit st 7 then set_bit else unset_bit) 3 st)) m)))"
| "riscv_effect (Csr_Reg k rd rs1 a) m = csr_effect k rd rs1 (get_x rs1 m) (ucast a) m"
| "riscv_effect (Csr_Imm k rd z a) m = csr_effect k rd z (ucast z) (ucast a) m"

text \<open>
  Trap entry: the cause, the trap value and the address of the instruction are saved, the interrupt enable bit moves to bit 7
  of \<open>mstatus\<close> and is cleared, and the program goes on at the base address of \<open>mtvec\<close>.
\<close>

definition riscv_trap :: "riscv_exception_t \<Rightarrow> u32 \<Rightarrow> isa_model \<Rightarrow> isa_model" where
  "riscv_trap e tval m =
     (let st = csr_val CSR_MSTATUS m;
          st' = unset_bit 3 ((if bit st 3 then set_bit else unset_bit) 7 st)
      in goto (csr_val CSR_MTVEC m AND NOT 3)
           (csr_put CSR_MSTATUS st' (csr_put CSR_MCAUSE (exception_code e) (csr_put CSR_MTVAL tval (csr_put CSR_MEPC (m_pc m) m)))))"

subsection \<open>Where the model departs\<close>

text \<open>Counters that the model maps read only at addresses for reading and writing.\<close>

definition hpm_counters :: "u32 list" where
  "hpm_counters = [CSR_BRANCHNUM, CSR_BRANCHNUMH, CSR_BRANCHPREDICTED, CSR_BRANCHPREDICTEDH, CSR_BRANCHHIT, CSR_BRANCHHITH,
     CSR_BRANCHMISS, CSR_BRANCHMISSH]"

definition misaligned_jump :: "effect \<Rightarrow> bool" where
  "misaligned_jump e \<longleftrightarrow> (case e of Retire _ \<Rightarrow> False | Raise x _ \<Rightarrow> x = instruction_address_misaligned)"

definition bad_access :: "effect \<Rightarrow> bool" where
  "bad_access e \<longleftrightarrow> (case e of Retire _ \<Rightarrow> False | Raise _ _ \<Rightarrow> True)"

text \<open>
  The model does not trap at a jump to a misaligned address (but at the fetch from it), aborts on a misaligned access, and answers
  one outside memory and devices with 0; \<open>mret\<close> does not set bit 7 of \<open>mstatus\<close>. \<open>csrrw\<close> from \<open>x0\<close>
  does not write; \<open>csrrs\<close> and \<open>csrrc\<close> with \<open>x0\<close> on both sides do not notice that the register is missing; and
  \<open>csrrsi\<close> and \<open>csrrci\<close> with the immediate 0 write the value read back, which is refused by a read only register and sent
  by the character queue.
\<close>

fun conforms :: "instr \<Rightarrow> isa_model \<Rightarrow> bool" where
  "conforms MRET m \<longleftrightarrow> bit (csr_val CSR_MSTATUS m) 7"
| "conforms (Csr_Reg k rd rs1 a) m \<longleftrightarrow>
     (k = CSRRW \<longrightarrow> rs1 \<noteq> 0) \<and> (rs1 = 0 \<and> rd = 0 \<longrightarrow> csrfile_enabled (m_csr_file m) (ucast a)) \<and>
     (rs1 \<noteq> 0 \<longrightarrow> ucast a \<notin> set hpm_counters)"
| "conforms (Csr_Imm k rd z a) m \<longleftrightarrow>
     (k \<noteq> CSRRW \<and> z = 0 \<longrightarrow> \<not> read_only_address (ucast a) \<and> ucast a \<noteq> CSR_CHARFIFO) \<and> ucast a \<notin> set hpm_counters"
| "conforms (Load k rd rs1 imm) m \<longleftrightarrow> \<not> bad_access (riscv_effect (Load k rd rs1 imm) m)"
| "conforms (Store k rs1 rs2 imm) m \<longleftrightarrow> \<not> bad_access (riscv_effect (Store k rs1 rs2 imm) m)"
| "conforms i m \<longleftrightarrow> \<not> misaligned_jump (riscv_effect i m)"

subsection \<open>Bytes\<close>

lemma or_plus8: "(uint (x :: u8)) OR push_bit 8 y = uint x + 2 ^ 8 * y" for y :: int
proof -
  have "bit (uint x) n \<longrightarrow> \<not> bit (push_bit 8 y) n" for n by (auto simp: bit_simps dest: bit_imp_le_length)
  then have "uint x + push_bit 8 y = uint x OR push_bit 8 y" by (intro disjunctive_add) blast
  then show ?thesis by (simp add: push_bit_eq_mult)
qed

lemma bytes_word:
  "ucast a OR push_bit 8 (ucast b) = (word_of_int (bytes_uint [a, b]) :: u16)"
  "ucast a OR push_bit 8 (ucast b) OR push_bit 16 (ucast c) OR push_bit 24 (ucast d) = (word_of_int (bytes_uint [a, b, c, d]) :: u32)"
proof -
  have e: "bytes_uint [a, b] = uint a OR push_bit 8 (uint b)"
    "bytes_uint [a, b, c, d] = uint a OR push_bit 8 (uint b OR push_bit 8 (uint c OR push_bit 8 (uint d)))"
    by (simp_all add: or_plus8)
  show "ucast a OR push_bit 8 (ucast b) = (word_of_int (bytes_uint [a, b]) :: u16)" unfolding e
    by (rule bit_word_eqI) (auto simp: bit_simps bit_word_of_int_iff)
  show "ucast a OR push_bit 8 (ucast b) OR push_bit 16 (ucast c) OR push_bit 24 (ucast d) = (word_of_int (bytes_uint [a, b, c, d]) :: u32)"
    unfolding e by (rule bit_word_eqI) (auto simp: bit_simps bit_word_of_int_iff)
qed

lemma bytes_range: "0 \<le> bytes_uint xs \<and> bytes_uint xs < 2 ^ (8 * length xs)"
proof (induction xs)
  case (Cons x xs)
  have "0 \<le> uint x" "uint x < 2 ^ 8" using unsigned_less[of x] by simp_all
  moreover have "(2 :: int) ^ (8 * length (x # xs)) = 2 ^ 8 * 2 ^ (8 * length xs)" by (simp add: power_add)
  ultimately show ?case using Cons by simp
qed simp

lemma signed_take_range:
  assumes "0 \<le> (x :: int)" and "x < 2 ^ Suc n"
  shows "signed_take_bit n x = (if x < 2 ^ n then x else x - 2 ^ Suc n)"
proof (cases "x < 2 ^ n")
  case True
  then show ?thesis using assms(1) by (simp add: signed_take_bit_int_eq_self)
next
  case False
  have "signed_take_bit n x = signed_take_bit n (x - 2 ^ Suc n)"
    unfolding signed_take_bit_eq_iff_take_bit_eq take_bit_eq_mod by (simp add: mod_diff_right_eq[symmetric] del: power_Suc)
  also have "\<dots> = x - 2 ^ Suc n" using assms False by (intro signed_take_bit_int_eq_self) auto
  finally show ?thesis using False by simp
qed

lemma sint_as_signed:
  "sint (v :: u8) = as_signed 1 (uint v)" "sint (w :: u16) = as_signed 2 (uint w)"
proof -
  have "uint v < 2 ^ Suc 7" "uint w < 2 ^ Suc 15" using unsigned_less[of v] unsigned_less[of w] by simp_all
  then have "signed_take_bit 7 (uint v) = (if uint v < 2 ^ 7 then uint v else uint v - 2 ^ Suc 7)"
    "signed_take_bit 15 (uint w) = (if uint w < 2 ^ 15 then uint w else uint w - 2 ^ Suc 15)"
    using signed_take_range[of "uint v" 7] signed_take_range[of "uint w" 15] by simp_all
  then show "sint v = as_signed 1 (uint v)" "sint w = as_signed 2 (uint w)" by (simp_all add: as_signed_def sint_uint)
qed

lemma ram_uint_simps:
  "ram_uint 1 a b = uint (memory_read8 (ram_off a) (bus_memory b))"
  "ram_uint 2 a b = uint (memory_read16 (ram_off a) (bus_memory b))"
  "ram_uint 4 a b = uint (memory_read32 (ram_off a) (bus_memory b))"
proof -
  let ?m = "\<lambda>k. mem (bus_memory b) (ram_off a + k)"
  have u: "[0..<1] = [0]" "[0..<2] = [0, 1]" "[0..<4] = [0, 1, 2, 3]" by (simp_all add: upt_rec)
  have w: "uint (word_of_int (bytes_uint xs) :: u16) = bytes_uint xs" if "length xs = 2" for xs
    using bytes_range[of xs] that by (simp add: uint_word_of_int)
  have v: "uint (word_of_int (bytes_uint xs) :: u32) = bytes_uint xs" if "length xs = 4" for xs
    using bytes_range[of xs] that by (simp add: uint_word_of_int)
  show "ram_uint 1 a b = uint (memory_read8 (ram_off a) (bus_memory b))"
    unfolding ram_uint_def u by (simp add: memory_read8_def ram_off_def)
  have "ram_uint 2 a b = bytes_uint [?m 0, ?m 1]" unfolding ram_uint_def u by (simp add: ram_off_def)
  moreover have "memory_read16 (ram_off a) (bus_memory b) = word_of_int (bytes_uint [?m 0, ?m 1])"
    unfolding memory_read16_def bytes_word by simp
  ultimately show "ram_uint 2 a b = uint (memory_read16 (ram_off a) (bus_memory b))" using w[of "[?m 0, ?m 1]"] by simp
  have "ram_uint 4 a b = bytes_uint [?m 0, ?m 1, ?m 2, ?m 3]" unfolding ram_uint_def u by (simp add: ram_off_def)
  moreover have "memory_read32 (ram_off a) (bus_memory b) = word_of_int (bytes_uint [?m 0, ?m 1, ?m 2, ?m 3])"
    unfolding memory_read32_def bytes_word by simp
  ultimately show "ram_uint 4 a b = uint (memory_read32 (ram_off a) (bus_memory b))" using v[of "[?m 0, ?m 1, ?m 2, ?m 3]"] by simp
qed

lemma ram_load:
  assumes "bus_wf b" and "in_ram a" and "unat a mod load_width k = 0"
  shows "load_sem k a b = Some (load_value k (ram_uint (load_width k) a b), b)"
  using assms by (cases k) (simp_all add: bus_ram ram_uint_simps ram_uint_simps(1)[unfolded One_nat_def] sint_as_signed)

lemma ram_put_simps:
  "ram_put 1 a v b = b\<lparr>bus_memory := memory_write8 (ram_off a) (word_of_int (uint v mod 2 ^ 8)) (bus_memory b)\<rparr>"
  "ram_put 2 a v b = b\<lparr>bus_memory := memory_write16 (ram_off a) (word_of_int (uint v mod 2 ^ 16)) (bus_memory b)\<rparr>"
  "ram_put 4 a v b = b\<lparr>bus_memory := memory_write32 (ram_off a) v (bus_memory b)\<rparr>"
proof -
  have u: "[0..<1] = [0]" "[0..<2] = [0, 1]" "[0..<4] = [0, 1, 2, 3]" by (simp_all add: upt_rec)
  have low: "(word_of_int (uint v div 2 ^ (8 * 0)) :: u8) = word_of_int (uint v mod 2 ^ 8)"
    "(word_of_int (uint v div 2 ^ (8 * 0)) :: u8) = ucast (word_of_int (uint v mod 2 ^ 16) :: u16)"
    "(word_of_int (uint v div 2 ^ (8 * 1)) :: u8) = ucast (drop_bit 8 (word_of_int (uint v mod 2 ^ 16) :: u16))"
    "(word_of_int (uint v div 2 ^ (8 * 0)) :: u8) = ucast v" "(word_of_int (uint v div 2 ^ (8 * 1)) :: u8) = ucast (drop_bit 8 v)"
    "(word_of_int (uint v div 2 ^ (8 * 2)) :: u8) = ucast (drop_bit 16 v)" "(word_of_int (uint v div 2 ^ (8 * 3)) :: u8) = ucast (drop_bit 24 v)"
    unfolding drop_bit_eq_div[symmetric] take_bit_eq_mod[symmetric]
    by (rule bit_word_eqI; simp add: bit_simps bit_word_of_int_iff)+
  show "ram_put 1 a v b = b\<lparr>bus_memory := memory_write8 (ram_off a) (word_of_int (uint v mod 2 ^ 8)) (bus_memory b)\<rparr>"
    unfolding ram_put_def u memory_write8_def low(1)[symmetric] by (simp add: ram_off_def)
  show "ram_put 2 a v b = b\<lparr>bus_memory := memory_write16 (ram_off a) (word_of_int (uint v mod 2 ^ 16)) (bus_memory b)\<rparr>"
    unfolding ram_put_def u memory_write16_def low(2,3)[symmetric] by (simp add: ram_off_def)
  show "ram_put 4 a v b = b\<lparr>bus_memory := memory_write32 (ram_off a) v (bus_memory b)\<rparr>"
    unfolding ram_put_def u memory_write32_def low(4-7)[symmetric] by (simp add: ram_off_def)
qed

lemma ram_store:
  assumes "bus_wf b" and "in_ram a" and "unat a mod store_width k = 0"
  shows "store_sem k a v b = Some (ram_put (store_width k) a v b)"
  using assms by (cases k) (simp_all add: bus_ram ram_put_simps ram_put_simps(1)[unfolded One_nat_def])

text \<open>An aligned access of memory or device is what the bus of the code does.\<close>

lemma riscv_load_code:
  assumes "bus_wf b" and "unat a mod load_width k = 0" and "riscv_load k a b = Some r"
  shows "load_sem k a b = Some r"
  using assms ram_load[OF assms(1) _ assms(2)] by (auto simp: riscv_load_def split: if_splits)

lemma riscv_store_code:
  assumes "bus_wf b" and "unat a mod store_width k = 0" and "riscv_store k a v b = Some r"
  shows "store_sem k a v b = Some r"
  using assms ram_store[OF assms(1) _ assms(2)] by (auto simp: riscv_store_def split: if_splits)

subsection \<open>CSRs\<close>

lemma csr_list_flags:
  "\<forall>(a, ro, c) \<in> set isa_csr_list. ro = (read_only_address a \<or> a \<in> set hpm_counters) \<and> (c = charfifo \<longrightarrow> a = CSR_CHARFIFO)"
proof -
  have "list_all (\<lambda>(a, ro, c). ro = (read_only_address a \<or> a \<in> set hpm_counters) \<and> (c = charfifo \<longrightarrow> a = CSR_CHARFIFO)) isa_csr_list"
    by code_simp
  then show ?thesis by (simp add: list_all_iff)
qed

lemma known_csr:
  assumes "isa_wf m" and "csrfile_enabled (m_csr_file m) a"
  obtains i where "csr_map_table (m_csr_file m) a = Some i" "csr_readonly i \<longleftrightarrow> read_only_address a \<or> a \<in> set hpm_counters"
    "csr_cls (csr_obj i) = charfifo \<longrightarrow> a = CSR_CHARFIFO"
    "csr_filter (csr_cls (csr_obj i)) (csr_value (csr_obj i)) = csr_value (csr_obj i)"
proof -
  have "a \<in> fst ` set isa_csr_list" using assms by (auto simp: isa_wf_def csrfile_enabled_def)
  then obtain ro c where e: "(a, ro, c) \<in> set isa_csr_list" by auto
  then have "csr_item_ok (m_csr_file m) (a, ro, c)" using assms(1) by (auto simp: isa_wf_def list_all_iff)
  then obtain i where "csr_map_table (m_csr_file m) a = Some i" "csr_readonly i = ro" "csr_cls (csr_obj i) = c"
    "csr_filter c (csr_value (csr_obj i)) = csr_value (csr_obj i)" by (rule csr_item_okE)
  then show thesis using that csr_list_flags e by fastforce
qed

lemma write_check_known:
  assumes "isa_wf m"
  shows "csrfile_write_check a v (m_csr_file m) \<longleftrightarrow>
    csrfile_enabled (m_csr_file m) a \<and> \<not> read_only_address a \<and> a \<notin> set hpm_counters"
proof (cases "csrfile_enabled (m_csr_file m) a")
  case True
  obtain i where "csr_map_table (m_csr_file m) a = Some i" "csr_readonly i \<longleftrightarrow> read_only_address a \<or> a \<in> set hpm_counters"
    by (rule known_csr[OF assms True])
  then show ?thesis using True by (simp add: csrfile_write_check_def)
qed (simp add: csrfile_write_check_def)

text \<open>Writing a register's own value changes nothing, and of two writes the last one counts.\<close>

lemma csr_put_own:
  assumes "isa_wf m" and "csrfile_enabled (m_csr_file m) a" and "a \<noteq> CSR_CHARFIFO"
  shows "csr_put a (csr_val a m) m = m"
proof -
  obtain i where i: "csr_map_table (m_csr_file m) a = Some i" "csr_cls (csr_obj i) = charfifo \<longrightarrow> a = CSR_CHARFIFO"
    "csr_filter (csr_cls (csr_obj i)) (csr_value (csr_obj i)) = csr_value (csr_obj i)" by (rule known_csr[OF assms(1,2)])
  have n: "csr_cls (csr_obj i) \<noteq> charfifo" using i(2) assms(3) by blast
  then have "csr_val a m = csr_value (csr_obj i)" using i(1) by (simp add: csr_val_def csrfile_load_def csr_read_def)
  then show ?thesis using i n by (simp add: csr_put_def csrfile_store_def csr_write_def fun_upd_idem)
qed

lemma csr_put_twice:
  assumes "a \<noteq> CSR_CHARFIFO" and "isa_wf m"
  shows "csr_put a v (csr_put a w m) = csr_put a v m"
proof (cases "csr_map_table (m_csr_file m) a")
  case (Some i)
  then have "csrfile_enabled (m_csr_file m) a \<or> \<not> a < CSR_TABLE_SIZE" by (simp add: csrfile_enabled_def)
  moreover have "a \<in> fst ` set isa_csr_list" using assms(2) Some by (auto simp: isa_wf_def)
  then have "a < CSR_TABLE_SIZE" using isa_csr_addrs(2) by auto
  ultimately have "csr_cls (csr_obj i) \<noteq> charfifo" using known_csr[OF assms(2), of a] Some assms(1) by (metis option.inject)
  then show ?thesis using Some by (simp add: csr_put_def csrfile_store_def csr_write_def)
qed (simp add: csr_put_def csrfile_store_def)

lemma wf_csr_put: "isa_wf m \<Longrightarrow> isa_wf (csr_put a v m)"
  unfolding csr_put_def by (rule wf_csr_store)

lemma csr_val_put_other:
  assumes "isa_wf m" and "a \<noteq> b" and "csrfile_enabled (m_csr_file m) a" and "a \<noteq> CSR_CHARFIFO"
  shows "csr_val a (csr_put b v m) = csr_val a m"
proof -
  obtain i where "csr_map_table (m_csr_file m) a = Some i" "csr_cls (csr_obj i) = charfifo \<longrightarrow> a = CSR_CHARFIFO"
    by (rule known_csr[OF assms(1,3)])
  then show ?thesis using assms(2,4)
    by (simp add: csr_val_def csr_put_def csrfile_load_def csrfile_store_def csr_read_def split: option.split prod.split)
qed

lemma csr_put_enabled [simp]: "csrfile_enabled (m_csr_file (csr_put a v m)) b = csrfile_enabled (m_csr_file m) b"
  by (simp add: csr_put_def)

lemma csr_code_conforms:
  assumes "isa_wf m" and "wr \<longleftrightarrow> k = CSRRW \<or> field \<noteq> 0"
    and "\<not> wr \<and> rd = 0 \<longrightarrow> csrfile_enabled (m_csr_file m) a" and "wr \<longrightarrow> a \<notin> set hpm_counters"
  shows "code_csr k rd wr src a m =
    (case csr_effect k rd field src a m of Retire m' \<Rightarrow> m' | Raise e v \<Rightarrow> code_trap e v m)"
  using assms(2-4) write_check_known[OF assms(1), of a 0]
  by (auto simp: code_csr_def csr_effect_def csrfile_read_def csr_val_def Let_def)

text \<open>The immediate forms of the code always write; with the immediate 0 they write the value back.\<close>

lemma csr_code_zero:
  assumes "isa_wf m" and "k \<noteq> CSRRW" and "a \<notin> set hpm_counters" and "\<not> read_only_address a" and "a \<noteq> CSR_CHARFIFO"
  shows "code_csr k rd True 0 a m =
    (case csr_effect k rd 0 0 a m of Retire m' \<Rightarrow> m' | Raise e v \<Rightarrow> code_trap e v m)"
proof (cases "csrfile_enabled (m_csr_file m) a")
  case True
  have "csr_sem_value k (csr_val a m) 0 = csr_val a m" using assms(2) by (cases k) simp_all
  then show ?thesis
    using True assms write_check_known[OF assms(1), of a 0] csr_put_own[OF assms(1) True assms(5)]
    by (simp add: code_csr_def csr_effect_def csrfile_read_def csr_val_def)
qed (use assms(1) in \<open>simp add: code_csr_def csr_effect_def csrfile_read_def csrfile_write_check_def Let_def\<close>)

subsection \<open>The comparison\<close>

lemma code_trap_riscv:
  assumes "isa_wf m"
  shows "code_trap e v m = csr_put CSR_MSTATUS (csr_val CSR_MSTATUS m) (riscv_trap e v m)"
proof -
  have on: "csrfile_enabled (m_csr_file m) CSR_MSTATUS" "csrfile_enabled (m_csr_file m) CSR_MTVEC"
    using assms named_csrs csr_addrs_enabled by (auto simp: isa_wf_def)
  have d: "CSR_MSTATUS \<notin> {CSR_MCAUSE, CSR_MTVAL, CSR_MEPC, CSR_CHARFIFO}" "CSR_MTVEC \<notin> {CSR_MCAUSE, CSR_MTVAL, CSR_MEPC, CSR_CHARFIFO}"
    by (simp_all add: csr_addr_defs)
  let ?m = "csr_put CSR_MCAUSE (exception_code e) (csr_put CSR_MTVAL v (csr_put CSR_MEPC (m_pc m) m))"
  have wf: "isa_wf ?m" using assms by (intro wf_csr_put)
  have keep: "csr_val CSR_MSTATUS ?m = csr_val CSR_MSTATUS m" "csr_val CSR_MTVEC ?m = csr_val CSR_MTVEC m"
    using csr_val_put_other wf_csr_put assms on d by simp_all
  have base: "csr_val CSR_MTVEC m AND NOT 3 = csr_val CSR_MTVEC m"
  proof -
    have "csr_item_ok (m_csr_file m) (CSR_MTVEC, False, mtvec)" using assms by (auto simp: isa_wf_def list_all_iff isa_csr_list_def)
    then obtain i where "csr_map_table (m_csr_file m) CSR_MTVEC = Some i" "csr_cls (csr_obj i) = mtvec"
      "csr_filter mtvec (csr_value (csr_obj i)) = csr_value (csr_obj i)" by (rule csr_item_okE)
    then show ?thesis by (simp add: csr_val_def csrfile_load_def csr_read_def)
  qed
  have put: "csr_put a x (goto p n) = goto p (csr_put a x n)" for a x p n by (simp add: csr_put_def goto_def)
  have st: "csr_put CSR_MSTATUS (csr_val CSR_MSTATUS m) ?m = ?m"
    using csr_put_own[OF wf, of CSR_MSTATUS] on d keep by simp
  have "code_trap e v m = goto (csr_val CSR_MTVEC m) ?m" using keep by (simp add: code_trap_def Let_def)
  then show ?thesis
    unfolding riscv_trap_def Let_def put base using csr_put_twice[OF _ wf, of CSR_MSTATUS] d st by simp
qed

lemma mret_conforms:
  assumes "bit (csr_val CSR_MSTATUS m) 7"
  shows "Retire (code_mret m) = riscv_effect MRET m"
proof -
  have "set_bit 7 (set_bit 3 v) = set_bit 3 v" if "bit v 7" for v :: u32
    using that by (intro bit_word_eqI) (auto simp: bit_simps)
  then show ?thesis using assms by (simp add: code_mret_def Let_def)
qed

lemma code_conforms:
  assumes "isa_wf m" and "bus_wf (m_bus m)" and "conforms i m"
  shows "code_sem i m = Some (case riscv_effect i m of
    Retire m' \<Rightarrow> m' | Raise e v \<Rightarrow> csr_put CSR_MSTATUS (csr_val CSR_MSTATUS m) (riscv_trap e v m))"
  unfolding code_trap_riscv[OF assms(1), symmetric]
proof (cases i)
  case (Load k rd rs1 imm)
  let ?a = "word_of_int (uint (get_x rs1 m) + sint imm) :: u32"
  have c: "unat ?a mod load_width k = 0" "riscv_load k ?a (m_bus m) \<noteq> None"
    using assms(3) unfolding Load by (auto simp: bad_access_def Let_def split: if_splits option.splits)
  then obtain v b where r: "riscv_load k ?a (m_bus m) = Some (v, b)" by auto
  show "code_sem i m = Some (case riscv_effect i m of Retire m' \<Rightarrow> m' | Raise e v \<Rightarrow> code_trap e v m)"
    unfolding Load code_sem.simps riscv_effect.simps Let_def riscv_load_code[OF assms(2) c(1) r] r using c(1) by simp
next
  case (Store k rs1 rs2 imm)
  let ?a = "word_of_int (uint (get_x rs1 m) + sint imm) :: u32"
  have c: "unat ?a mod store_width k = 0" "riscv_store k ?a (get_x rs2 m) (m_bus m) \<noteq> None"
    using assms(3) unfolding Store by (auto simp: bad_access_def Let_def split: if_splits option.splits)
  then obtain b where r: "riscv_store k ?a (get_x rs2 m) (m_bus m) = Some b" by auto
  show "code_sem i m = Some (case riscv_effect i m of Retire m' \<Rightarrow> m' | Raise e v \<Rightarrow> code_trap e v m)"
    unfolding Store code_sem.simps riscv_effect.simps Let_def riscv_store_code[OF assms(2) c(1) r] r using c(1) by simp
next
  case MRET
  then show "code_sem i m = Some (case riscv_effect i m of Retire m' \<Rightarrow> m' | Raise e v \<Rightarrow> code_trap e v m)"
    using assms(3) mret_conforms[of m] by (metis code_sem.simps(15) conforms.simps(1) effect.simps(5))
next
  case (Csr_Reg k rd rs1 a)
  then show "code_sem i m = Some (case riscv_effect i m of Retire m' \<Rightarrow> m' | Raise e v \<Rightarrow> code_trap e v m)"
    using assms(3) csr_code_conforms[OF assms(1), of "rs1 \<noteq> 0" k rs1 rd "ucast a" "get_x rs1 m"] by auto
next
  case (Csr_Imm k rd z a)
  show "code_sem i m = Some (case riscv_effect i m of Retire m' \<Rightarrow> m' | Raise e v \<Rightarrow> code_trap e v m)"
  proof (cases "k = CSRRW \<or> z \<noteq> 0")
    case True
    then show ?thesis using assms(3) Csr_Imm csr_code_conforms[OF assms(1), of True k z rd "ucast a" "ucast z"] by simp
  next
    case False
    then show ?thesis using assms(3) Csr_Imm csr_code_zero[OF assms(1), of k "ucast a" rd] by simp
  qed
qed (use assms(3) in \<open>auto simp: jump_to_def misaligned_jump_def split: if_splits\<close>)

end
