(* ===== verification/Isa_Laws.thy ===== *)
theory Isa_Laws
  imports Isa_Reach Riscv_Effect
begin

text \<open>
  The properties of the ISA model: its instruction step has the effect the RISC-V manual gives to
  the instruction, outside the cases that \<open>Riscv_Effect\<close> names, its decoder accepts exactly the encodings, its state
  invariant holds in every reachable state, interrupt entry and \<^verbatim>\<open>mret\<close> undo each other,
  and the bus and CSR file return what was stored.
\<close>

subsection \<open>CSR values after a write\<close>

lemma csr_val_put:
  assumes "csr_item_ok (m_csr_file m) (a, ro, c)" and "c \<noteq> charfifo"
  shows "csr_val a (csr_put b v m) = (if a = b then csr_filter c v else csr_val a m)"
  using assms
  by (auto elim!: csr_item_okE simp: csr_val_def csr_put_def csrfile_load_def csrfile_store_def
      csr_write_def csr_read_def split: option.splits)

lemma item_ok_wf:
  assumes "isa_wf m" and "(a, ro, c) \<in> set isa_csr_list"
  shows "csr_item_ok (m_csr_file m) (a, ro, c)"
  using assms by (auto simp: isa_wf_def list_all_iff)

lemma item_ok_put: "csr_item_ok (m_csr_file m) x \<Longrightarrow> csr_item_ok (m_csr_file (csr_put b v m)) x"
  by (simp add: csr_put_def csr_item_ok_store)

lemma trap_items:
  "(CSR_MEPC, False, mepc) \<in> set isa_csr_list" "(CSR_MTVAL, False, mtval) \<in> set isa_csr_list"
  "(CSR_MCAUSE, False, mcause) \<in> set isa_csr_list" "(CSR_MTVEC, False, mtvec) \<in> set isa_csr_list"
  "(CSR_MSTATUS, False, mstatus) \<in> set isa_csr_list"
  by (simp_all add: isa_csr_list_def)

lemma csr_put_other [simp]:
  "m_arch_regfile (csr_put a v m) = m_arch_regfile m" "m_pc (csr_put a v m) = m_pc m"
  by (simp_all add: csr_put_def)

lemma csr_val_pc [simp]: "csr_val a (m\<lparr>m_pc := p\<rparr>) = csr_val a m"
  by (simp add: csr_val_def)

lemma aligned_pc: "is_align p 4 \<Longrightarrow> p AND NOT 3 = p"
proof -
  assume "is_align p 4"
  then have "p AND 3 = 0" by (simp add: is_align_def)
  then have "bit p n \<Longrightarrow> \<not> bit (3 :: u32) n" for n
    by (metis bit_and_iff bit_0_eq bot_apply bot_bool_def)
  then show ?thesis by (intro bit_word_eqI) (auto simp: bit_simps)
qed

lemma mstatus_bits:
  "mstatus_get_mie (mstatus_set_mie x v) = x" "mstatus_get_mpie (mstatus_set_mpie x v) = x"
  "mstatus_get_mpie (mstatus_set_mie x v) = mstatus_get_mpie v"
  "mstatus_get_mie (csr_filter mstatus v) = mstatus_get_mie v"
  "mstatus_get_mpie (csr_filter mstatus v) = mstatus_get_mpie v"
proof -
  have "\<forall>n \<in> set [0..<32]. bit (0x88 :: u32) n \<longleftrightarrow> n = 3 \<or> n = 7" by code_simp
  then have b: "n < 32 \<Longrightarrow> bit (0x88 :: u32) n \<longleftrightarrow> n = 3 \<or> n = 7" for n by simp
  show "mstatus_get_mie (mstatus_set_mie x v) = x" "mstatus_get_mpie (mstatus_set_mpie x v) = x"
    "mstatus_get_mpie (mstatus_set_mie x v) = mstatus_get_mpie v"
    "mstatus_get_mie (csr_filter mstatus v) = mstatus_get_mie v"
    "mstatus_get_mpie (csr_filter mstatus v) = mstatus_get_mpie v"
    by (auto simp: csr_bit_defs csr_getbit_bit csr_setbit_bit bit_simps b)
qed

subsection \<open>Interrupt entry\<close>

lemma interrupt_entry_wf:
  assumes "isa_wf m"
  shows "isa_interrupt_entry i m =
    (let m3 = csr_put CSR_MCAUSE (0x80000000 OR interrupt_code i) (csr_put CSR_MTVAL 0
                (csr_put CSR_MEPC (m_pc m) m));
         v = csr_val CSR_MSTATUS m3;
         m4 = csr_put CSR_MSTATUS (mstatus_set_mie False (mstatus_set_mpie (mstatus_get_mie v) v)) m3
     in Some (m4\<lparr>m_pc := csr_val CSR_MTVEC m4\<rparr>))"
  using assms named_csrs
  by (simp add: isa_interrupt_entry_def isa_wf_def csr_inst_wf csr_ok_put Let_def)

lemma interrupt_entry_effect:
  assumes "isa_wf m" and "is_align (m_pc m) 4"
  shows "\<exists>m1. isa_interrupt_entry i m = Some m1 \<and> isa_wf m1 \<and> m_pc m1 = csr_val CSR_MTVEC m \<and>
    csr_val CSR_MEPC m1 = m_pc m \<and> csr_val CSR_MCAUSE m1 = (0x80000000 OR interrupt_code i) \<and>
    csr_val CSR_MTVAL m1 = 0 \<and> \<not> mstatus_get_mie (csr_val CSR_MSTATUS m1) \<and>
    mstatus_get_mpie (csr_val CSR_MSTATUS m1) = mstatus_get_mie (csr_val CSR_MSTATUS m) \<and>
    m_arch_regfile m1 = m_arch_regfile m \<and> m_bus m1 = m_bus m"
proof -
  note ok = item_ok_wf[OF assms(1)]
  note v = csr_val_put[OF ok, OF trap_items(1)] csr_val_put[OF ok, OF trap_items(2)]
  have addrs: "distinct [CSR_MEPC, CSR_MTVAL, CSR_MCAUSE, CSR_MTVEC, CSR_MSTATUS]"
    by (simp add: csr_addr_defs)
  have val: "csr_val a (csr_put b x n) = (if a = b then csr_filter c x else csr_val a n)"
    if "csr_item_ok (m_csr_file n) (a, False, c)" "c \<noteq> charfifo" for a b c x n
    using csr_val_put[OF that] .
  have put: "csr_item_ok (m_csr_file (csr_put b x n)) e" if "csr_item_ok (m_csr_file n) e" for b x n e
    using that by (rule item_ok_put)
  obtain m1 where m1: "isa_interrupt_entry i m = Some m1"
    using interrupt_entry_wf[OF assms(1), of i] by (simp add: Let_def)
  have wf: "isa_wf m1" by (rule interrupt_entry_keeps(2)[OF m1 assms(1)])
  have eqs: "m_pc m1 = csr_val CSR_MTVEC m" "csr_val CSR_MEPC m1 = m_pc m"
    "csr_val CSR_MCAUSE m1 = (0x80000000 OR interrupt_code i)" "csr_val CSR_MTVAL m1 = 0"
    "\<not> mstatus_get_mie (csr_val CSR_MSTATUS m1)"
    "mstatus_get_mpie (csr_val CSR_MSTATUS m1) = mstatus_get_mie (csr_val CSR_MSTATUS m)"
    "m_arch_regfile m1 = m_arch_regfile m" "m_bus m1 = m_bus m"
    using m1 addrs aligned_pc[OF assms(2)] ok[OF trap_items(1)] ok[OF trap_items(2)]
      ok[OF trap_items(3)] ok[OF trap_items(4)] ok[OF trap_items(5)]
    by (auto simp: interrupt_entry_wf[OF assms(1)] Let_def val[where c=mepc] val[where c=mtval]
        val[where c=mcause] val[where c=mtvec] val[where c=mstatus] put mstatus_bits
        simp del: csr_filter.simps(1))
  then show ?thesis using m1 wf by blast
qed


lemma mret_effect:
  assumes "isa_wf m"
  shows "\<exists>m2. isa_mret m = Some (csr_val CSR_MEPC m, m2) \<and>
    mstatus_get_mie (csr_val CSR_MSTATUS m2) = mstatus_get_mpie (csr_val CSR_MSTATUS m) \<and>
    m_arch_regfile m2 = m_arch_regfile m \<and> m_bus m2 = m_bus m"
  using assms named_csrs csr_val_put[OF item_ok_wf[OF assms trap_items(5)]]
  by (simp add: isa_mret_def isa_wf_def csr_inst_wf mstatus_bits del: csr_filter.simps(1))

subsection \<open>The division instructions\<close>

lemma trunc_rem_abs: "trunc_rem x y = sgn x * (\<bar>x\<bar> mod \<bar>y\<bar>)"
proof -
  have "y * trunc_div x y = sgn x * (\<bar>y\<bar> * (\<bar>x\<bar> div \<bar>y\<bar>))"
    by (simp add: trunc_div_def abs_sgn[of y] mult.commute mult.left_commute)
  also have "\<dots> = sgn x * (\<bar>x\<bar> - \<bar>x\<bar> mod \<bar>y\<bar>)" by (simp add: minus_mod_eq_mult_div)
  also have "\<dots> = x - sgn x * (\<bar>x\<bar> mod \<bar>y\<bar>)"
    by (simp only: right_diff_distrib sgn_mult_abs)
  finally show ?thesis by (simp add: trunc_rem_def)
qed

lemma trunc_rem_bounds:
  fixes x y :: int
  assumes "y \<noteq> 0"
  shows "\<bar>trunc_rem x y\<bar> < \<bar>y\<bar>" and "trunc_rem x y = 0 \<or> sgn (trunc_rem x y) = sgn x"
proof -
  have r: "0 \<le> \<bar>x\<bar> mod \<bar>y\<bar>" "\<bar>x\<bar> mod \<bar>y\<bar> < \<bar>y\<bar>" using assms by simp_all
  show "\<bar>trunc_rem x y\<bar> < \<bar>y\<bar>"
    using r by (cases "x = 0") (simp_all add: trunc_rem_abs abs_mult abs_sgn_eq assms)
  show "trunc_rem x y = 0 \<or> sgn (trunc_rem x y) = sgn x"
    using r(1) by (auto simp: trunc_rem_abs sgn_mult)
qed

lemma rem_result_int:
  assumes "b \<noteq> 0"
  shows "sint (div_result Div_rem a b) = trunc_rem (sint a) (sint b)"
proof -
  have "sint b \<noteq> 0" using assms by (metis signed_0 signed_word_eqI)
  moreover have "\<bar>sint b\<bar> \<le> 2 ^ 31" using sint_range_size[of b] by (auto simp: word_size)
  ultimately have "\<bar>trunc_rem (sint a) (sint b)\<bar> < 2 ^ 31"
    using trunc_rem_bounds(1)[of "sint b" "sint a"] by linarith
  then have "signed_take_bit 31 (trunc_rem (sint a) (sint b)) = trunc_rem (sint a) (sint b)"
    by (intro signed_take_bit_int_eq_self) auto
  then show ?thesis
    using assms unfolding div_result_sem(3) by (simp add: signed_of_int)
qed

lemma div_rem_identity:
  "div_result Div_div a b * b + div_result Div_rem a b = a"
  "div_result Div_divu a b * b + div_result Div_remu a b = a"
proof -
  have "word_of_int (trunc_div (sint a) (sint b)) * b + word_of_int (trunc_rem (sint a) (sint b))
      = (word_of_int (trunc_div (sint a) (sint b) * sint b + trunc_rem (sint a) (sint b)) :: u32)"
    by simp
  also have "\<dots> = a" by (simp add: trunc_rem_def mult.commute)
  finally show "div_result Div_div a b * b + div_result Div_rem a b = a"
    by (simp add: sdiv_trunc smod_trunc)
  show "div_result Div_divu a b * b + div_result Div_remu a b = a"
    by (simp add: word_mod_div_equality)
qed


subsection \<open>Interrupts and CSRs\<close>

lemma cause_values:
  assumes "isa_wf m"
  shows "interrupt_get_cause ii (m_csr_file m) =
     Some (if \<not> mstatus_get_mie (csr_val CSR_MSTATUS m) then None
           else if ii_meip ii \<and> mie_get_meie (csr_val CSR_MIE m) then Some machine_external
           else if ii_msip ii \<and> mie_get_msie (csr_val CSR_MIE m) then Some machine_software
           else if ii_mtip ii \<and> mie_get_mtie (csr_val CSR_MIE m) then Some machine_timer
           else None)"
    and "interrupt_has_interrupt ii (m_csr_file m) =
     Some (mstatus_get_mie (csr_val CSR_MSTATUS m) \<and>
             ((ii_meip ii \<and> mie_get_meie (csr_val CSR_MIE m)) \<or> (ii_msip ii \<and> mie_get_msie (csr_val CSR_MIE m)) \<or>
              (ii_mtip ii \<and> mie_get_mtie (csr_val CSR_MIE m))))"
proof -
  have "csrfile_enabled (m_csr_file m) CSR_MIE" "csrfile_enabled (m_csr_file m) CSR_MSTATUS"
    using assms named_csrs csr_addrs_enabled by (auto simp: isa_wf_def)
  then have r: "csrfile_read_sys CSR_MIE (m_csr_file m) = Some (csr_val CSR_MIE m)"
    "csrfile_read_sys CSR_MSTATUS (m_csr_file m) = Some (csr_val CSR_MSTATUS m)"
    by (simp_all add: csrfile_read_sys_def csr_val_def)
  show "interrupt_get_cause ii (m_csr_file m) =
     Some (if \<not> mstatus_get_mie (csr_val CSR_MSTATUS m) then None
           else if ii_meip ii \<and> mie_get_meie (csr_val CSR_MIE m) then Some machine_external
           else if ii_msip ii \<and> mie_get_msie (csr_val CSR_MIE m) then Some machine_software
           else if ii_mtip ii \<and> mie_get_mtie (csr_val CSR_MIE m) then Some machine_timer
           else None)"
    "interrupt_has_interrupt ii (m_csr_file m) =
     Some (mstatus_get_mie (csr_val CSR_MSTATUS m) \<and>
             ((ii_meip ii \<and> mie_get_meie (csr_val CSR_MIE m)) \<or> (ii_msip ii \<and> mie_get_msie (csr_val CSR_MIE m)) \<or>
              (ii_mtip ii \<and> mie_get_mtie (csr_val CSR_MIE m))))"
    using r by (simp_all add: interrupt_get_cause_def interrupt_has_interrupt_def)
qed

lemma csrfile_write_read:
  assumes "csrfile_write a v f = (True, f')"
  shows "csrfile_read b f' =
    (if a = b \<and> csr_cls (csr_obj (the (csr_map_table f a))) \<noteq> charfifo
     then Some (csr_filter (csr_cls (csr_obj (the (csr_map_table f a)))) v)
     else if csrfile_enabled f b \<and> csr_cls (csr_obj (the (csr_map_table f b))) = charfifo
     then Some (csr_read (csr_obj (the (csr_map_table f b))) (csr_io f'))
     else csrfile_read b f)"
proof -
  obtain i where i: "csr_map_table f a = Some i" "a < CSR_TABLE_SIZE" "f' = csrfile_store a v f"
    using assms by (auto simp: csrfile_write_def csrfile_write_check_def csrfile_enabled_def split: if_splits)
  then show ?thesis
    by (auto simp: csrfile_store_def csr_write_def csrfile_read_def csrfile_enabled_def
        csrfile_load_def csr_read_def split: option.splits)
qed


subsection \<open>The decoder\<close>

lemma decoded_valid: "i_valid (decoded i s) = i_valid s"
  by (cases i) simp_all

lemma isa_decode_total: "\<exists>s'. isa_decode_opcode w s = Some s'"
proof -
  obtain i1 i2 i3 i4 where "sign_extend (imm_i_of w) 12 = Some i1" "sign_extend (imm_s_of w) 12 = Some i2"
    "sign_extend (imm_b_of w) 13 = Some i3" "sign_extend (imm_j_of w) 21 = Some i4"
    using sign_extend_total[of 12 "imm_i_of w"] sign_extend_total[of 12 "imm_s_of w"]
      sign_extend_total[of 13 "imm_b_of w"] sign_extend_total[of 21 "imm_j_of w"] by auto
  then show ?thesis
    by (simp add: isa_decode_opcode_def isa_decode_jal_def isa_decode_jalr_def isa_decode_branch_def
        isa_decode_load_def isa_decode_store_def isa_decode_op_imm_def Let_def)
qed

lemma isa_decode_valid_le: "isa_decode_opcode w s = Some s' \<Longrightarrow> i_valid s' \<Longrightarrow> i_valid s"
  by (auto simp: isa_decode_opcode_def isa_decode_defs Let_def split: if_splits elim!: bind_eq_SomeE)

lemma isa_decode_encoding_valid:
  assumes "is_encoding w \<or> opcode_of w = 0x67" and "i_arg1_src s = Arg_reg" and "i_op_unit s = Unit_alu"
    and "isa_decode_opcode w s = Some s'"
  shows "i_valid s' = i_valid s"
proof (cases "opcode_of w = 0x67")
  case True
  then show ?thesis
    using assms(4) by (auto simp: isa_decode_opcode_def isa_decode_jalr_def elim!: bind_eq_SomeE)
next
  case False
  then obtain i where "w = encode i" using assms(1) by (auto simp: is_encoding_def)
  then show ?thesis using isa_decode_encode[OF assms(2,3), of i] assms(4) by (auto simp: decoded_valid)
qed

subsection \<open>Properties\<close>

text \<open>
  C1. In every reachable state whose program counter is aligned and points at the encoding
  of an instruction, one step of the ISA model has the effect that the RISC-V manual gives to that
  instruction (registers, program counter, memory by bytes, CSRs, traps; \<open>riscv_effect\<close> is written without the code
  and over unbounded integers), followed by one tick of the timer. This covers all of RV32IM, the CSR instructions,
  \<^verbatim>\<open>ecall\<close>, \<^verbatim>\<open>ebreak\<close>, \<^verbatim>\<open>mret\<close> and the fences, with these exceptions. On a trap the step leaves
  \<^verbatim>\<open>mstatus\<close> as it was; all else of the trap entry is done. And the cases that \<open>conforms\<close> excludes, where the model departs
  from the manual: a jump or taken branch to a misaligned address, a load or store that is misaligned or goes neither to the memory nor
  to the clint, \<^verbatim>\<open>mret\<close> while bit 7 of \<^verbatim>\<open>mstatus\<close> is clear, \<^verbatim>\<open>csrrw\<close> from \<^verbatim>\<open>x0\<close>, \<^verbatim>\<open>csrrs\<close> and
  \<^verbatim>\<open>csrrc\<close> of a missing register with \<^verbatim>\<open>x0\<close> on both sides, \<^verbatim>\<open>csrrsi\<close> and \<^verbatim>\<open>csrrci\<close> with the immediate 0 on
  a read-only register or the character queue, and writes to the counters of branches, which the model refuses. Which CSRs exist and
  which bits they hold is the model's choice, as the manual allows.
\<close>

theorem isa_step_refines_riscv:
  assumes "isa_reachable m" and "is_align (m_pc m) 4"
    and "bus_read32 (m_pc m) True (m_bus m) = Some (encode i, b)"
    and "m1 = m\<lparr>m_bus := b\<rparr>" and "conforms i m1"
  shows "isa_step m = isa_clint_run
    (case riscv_effect i m1 of
       Retire m' \<Rightarrow> m'
     | Raise e v \<Rightarrow> csr_put CSR_MSTATUS (csr_val CSR_MSTATUS m1) (riscv_trap e v m1))"
proof -
  have ok: "isa_wf m" "bus_wf (m_bus m)" using reachable_ok[OF assms(1)] by (simp_all add: isa_ok_def)
  then have "isa_wf m1" "bus_wf (m_bus m1)" using bus_read_wf(3)[OF assms(3)] by (simp_all add: assms(4))
  from code_conforms[OF this assms(5)] show ?thesis
    using isa_exec_one_sem[OF ok(1) assms(2,3)] by (simp add: isa_step_exec assms(4))
qed

theorem isa_step_refines_riscv_witness:
  "isa_step demo_model =
     isa_clint_run (goto (INIT_PC + 4) (set_x 1 (reg_sem ADD (get_x 0 demo_model) 5) demo_model))"
  using isa_step_refines_riscv[OF demo_ok(3) _ demo_first]
  by (simp add: demo_ok(2) is_align_def INIT_PC_def misaligned_jump_def)

text \<open>
  C3. Every state that construction, program load, reset, instruction steps and interrupt
  entry can produce has 32 registers with \<open>x0\<close> zero, every CSR of the constructor's list
  still mapped at its address with its read-only flag, class and a value its filter lets
  through, and the two slaves at their addresses with their sizes.
\<close>

theorem isa_reachable_invariant:
  assumes "isa_reachable m"
  shows "length (m_arch_regfile m) = 32 \<and> m_arch_regfile m ! 0 = 0 \<and>
    list_all (csr_item_ok (m_csr_file m)) isa_csr_list \<and> bus_wf (m_bus m)"
  using reachable_ok[OF assms] by (simp add: isa_ok_def isa_wf_def)

theorem isa_reachable_invariant_witness:
  "length (m_arch_regfile demo_model) = 32 \<and> m_arch_regfile demo_model ! 0 = 0
    \<and> bus_wf (m_bus demo_model)"
  using isa_reachable_invariant[OF demo_ok(3)] by simp

text \<open>
  C2. From a reachable state, one run of the ISA model on an encoded instruction whose memory
  access, if it has one, is aligned does not abort, and the state it produces is reachable
  and well-formed again: loads and stores to unmapped addresses, CSR instructions on missing
  or read-only registers, traps and all counters included.
\<close>

theorem isa_run_never_aborts:
  assumes "isa_reachable m" and "is_align (m_pc m) 4"
    and "bus_read32 (m_pc m) True (m_bus m) = Some (encode i, m_bus m)" and "access_aligned i m"
  shows "\<exists>m'. isa_run m = Some m' \<and> isa_reachable m' \<and> isa_ok m'"
proof -
  have ok: "isa_wf m" "bus_wf (m_bus m)" using reachable_ok[OF assms(1)] by (simp_all add: isa_ok_def)
  obtain m' where "isa_run m = Some m'" using isa_run_succeeds[OF ok assms(2-4)] by blast
  then show ?thesis using assms(1) by (auto intro: isa_reachable.run reachable_ok)
qed

theorem isa_run_never_aborts_witness: "\<exists>m'. isa_run demo_model = Some m' \<and> isa_ok m'"
  using isa_run_never_aborts[OF demo_ok(3) _ demo_first]
  by (auto simp: demo_ok(2) is_align_def INIT_PC_def)

text \<open>
  The constructor succeeds whatever the character queues hold (no CSR is mapped twice, no
  two slaves overlap, the reset finds its memory) and yields the reset state: program counter
  \<^verbatim>\<open>INIT_PC\<close>, all registers zero, the invariant established.
\<close>

theorem isa_make_succeeds:
  "\<exists>m. isa_make snd_fifo rcv_fifo = Some m \<and> isa_ok m \<and> m_pc m = INIT_PC
     \<and> m_arch_regfile m = replicate 32 0"
  using isa_make_wf[of snd_fifo rcv_fifo] by (auto simp: isa_ok_def)

text \<open>
  After \<^verbatim>\<open>load\<close> of a program image smaller than the memory, every byte of the image is
  read back from its address, and registers, program counter and CSRs are untouched.
\<close>

theorem isa_load_image:
  assumes "isa_reachable m" and "length buf < unat MEMORY_SIZE"
  shows "\<exists>m'. isa_load buf m = Some m' \<and> m_pc m' = m_pc m \<and> m_arch_regfile m' = m_arch_regfile m \<and>
    m_csr_file m' = m_csr_file m \<and>
    (\<forall>i < length buf. bus_read8 (MEMORY_BASE + of_nat i) False (m_bus m') = Some (buf ! i, m_bus m'))"
proof -
  have "bus_wf (m_bus m)" using reachable_ok[OF assms(1)] by (simp add: isa_ok_def)
  from isa_load_image_bus[OF this assms(2)] show ?thesis using assms(2) by (auto simp: isa_load_def)
qed

text \<open>
  C4. The instruction decoder never aborts, and for an instruction fetched without exception
  it reports a 32-bit word as valid exactly when the word is the encoding of an instruction
  or has the \<^verbatim>\<open>jalr\<close> opcode: of that opcode the decoder does not check \<^verbatim>\<open>funct3\<close>.
\<close>

theorem isa_decode_accepts_exactly:
  "map_option i_valid (isa_decode s) =
     Some (\<not> i_has_exception s \<and> (is_encoding (i_value s) \<or> opcode_of (i_value s) = 0x67))"
proof -
  let ?s = "isa_decode_init s"
  obtain s' where s': "isa_decode s = Some s'"
    using isa_decode_total[of "i_value s" ?s] by (auto simp: isa_decode_def)
  have "i_valid s' \<longrightarrow> \<not> i_has_exception s"
    using s' isa_decode_valid_le[of "i_value s" ?s s'] by (auto simp: isa_decode_def isa_decode_init_def)
  moreover have "i_valid s' = (\<not> i_has_exception s)" if "is_encoding (i_value s) \<or> opcode_of (i_value s) = 0x67"
    using that s' isa_decode_encoding_valid[of "i_value s" ?s s'] by (auto simp: isa_decode_def isa_decode_init_def)
  ultimately show ?thesis
    using s' isa_decode_accepts[of "i_value s" ?s s'] by (auto simp: isa_decode_def)
qed

text \<open>
  C5. Decoding is the inverse of encoding: on the encoding of any instruction the decoder
  produces the operation, execution unit, operand sources, register numbers and the
  sign-extended immediate of that instruction.
\<close>

theorem isa_decode_inverts_encode:
  assumes "i_value s = encode i"
  shows "isa_decode s = Some (decoded i (isa_decode_init s))"
  using isa_decode_encode[of "isa_decode_init s" i] assms
  by (simp add: isa_decode_def isa_decode_init_def)

theorem isa_decode_inverts_encode_witness:
  "isa_decode (isa_state_make\<lparr>i_value := encode (Op_Imm ADDI 1 0 5)\<rparr>) =
     Some (decoded (Op_Imm ADDI 1 0 5)
       (isa_decode_init (isa_state_make\<lparr>i_value := encode (Op_Imm ADDI 1 0 5)\<rparr>)))"
  by (rule isa_decode_inverts_encode) simp

text \<open>
  C40. An interrupt taken and returned from leaves the interrupted program where it was: entry
  saves the program counter in \<^verbatim>\<open>mepc\<close>, records the cause with its top bit set, saves
  the interrupt enable in \<^verbatim>\<open>mpie\<close>, disables interrupts and jumps to \<^verbatim>\<open>mtvec\<close>; a
  following \<^verbatim>\<open>mret\<close> returns to the saved program counter and restores the enable bit, and
  registers and memory are untouched throughout.
\<close>

theorem interrupt_mret_roundtrip:
  assumes "isa_reachable m" and "is_align (m_pc m) 4"
  shows "\<exists>m1 m2. isa_interrupt_entry i m = Some m1 \<and> m_pc m1 = csr_val CSR_MTVEC m \<and>
    csr_val CSR_MCAUSE m1 = (0x80000000 OR interrupt_code i) \<and>
    \<not> mstatus_get_mie (csr_val CSR_MSTATUS m1) \<and>
    isa_mret m1 = Some (m_pc m, m2) \<and>
    mstatus_get_mie (csr_val CSR_MSTATUS m2) = mstatus_get_mie (csr_val CSR_MSTATUS m) \<and>
    m_arch_regfile m2 = m_arch_regfile m \<and> m_bus m2 = m_bus m"
proof -
  have wf: "isa_wf m" using reachable_ok[OF assms(1)] by (simp add: isa_ok_def)
  obtain m1 where m1: "isa_interrupt_entry i m = Some m1" "isa_wf m1" "m_pc m1 = csr_val CSR_MTVEC m"
    "csr_val CSR_MEPC m1 = m_pc m" "csr_val CSR_MCAUSE m1 = (0x80000000 OR interrupt_code i)"
    "\<not> mstatus_get_mie (csr_val CSR_MSTATUS m1)"
    "mstatus_get_mpie (csr_val CSR_MSTATUS m1) = mstatus_get_mie (csr_val CSR_MSTATUS m)"
    "m_arch_regfile m1 = m_arch_regfile m" "m_bus m1 = m_bus m"
    using interrupt_entry_effect[OF wf assms(2), of i] by blast
  show ?thesis using m1 mret_effect[OF m1(2)] by auto
qed

theorem interrupt_mret_roundtrip_witness:
  "\<exists>m1 m2. isa_interrupt_entry machine_timer demo_model = Some m1
     \<and> csr_val CSR_MCAUSE m1 = 0x80000007 \<and> isa_mret m1 = Some (INIT_PC, m2)"
  using interrupt_mret_roundtrip[OF demo_ok(3), of machine_timer]
  by (auto simp: demo_ok(2) is_align_def INIT_PC_def)

text \<open>
  Signed and unsigned division obey the RISC-V laws for all operands, zero divisor and
  overflow included: dividend = quotient * divisor + remainder in 32-bit arithmetic; a zero
  divisor gives the all-ones quotient and the dividend as remainder; otherwise the remainder is
  smaller than the divisor and a signed one is zero or has the sign of the dividend.
\<close>

theorem division_laws:
  "div_result Div_div a b * b + div_result Div_rem a b = a
   \<and> div_result Div_divu a b * b + div_result Div_remu a b = a
   \<and> (if b = 0 then div_result Div_div a b = - 1 \<and> div_result Div_divu a b = - 1
                    \<and> div_result Div_rem a b = a \<and> div_result Div_remu a b = a
      else \<bar>sint (div_result Div_rem a b)\<bar> < \<bar>sint b\<bar> \<and> div_result Div_remu a b < b
           \<and> (sint (div_result Div_rem a b) = 0 \<or> sgn (sint (div_result Div_rem a b)) = sgn (sint a)))"
proof (cases "b = 0")
  case False
  then have nz: "sint b \<noteq> 0" by (metis signed_0 signed_word_eqI)
  have "a mod b < b" using False by (simp add: word_mod_less_divisor word_gt_0)
  then show ?thesis
    using div_rem_identity[of a b] rem_result_int[OF False, of a] trunc_rem_bounds[OF nz, of "sint a"] False
    by simp
qed (use div_rem_identity[of a b] in simp)

text \<open>
  The interrupt interface: an interrupt is reported exactly when \<^verbatim>\<open>mstatus.mie\<close> is set and
  some pending source is enabled in \<^verbatim>\<open>mie\<close>, the cause is then that of the enabled pending
  source of highest priority (external before software before timer), and the two queries
  never disagree.
\<close>

theorem interrupt_priority:
  assumes "isa_reachable m"
  shows "\<exists>c. interrupt_get_cause ii (m_csr_file m) = Some c \<and>
    interrupt_has_interrupt ii (m_csr_file m) = Some (c \<noteq> None) \<and>
    (let en = mstatus_get_mie (csr_val CSR_MSTATUS m);
         ext = ii_meip ii \<and> mie_get_meie (csr_val CSR_MIE m);
         soft = ii_msip ii \<and> mie_get_msie (csr_val CSR_MIE m);
         tim = ii_mtip ii \<and> mie_get_mtie (csr_val CSR_MIE m)
     in (c = Some machine_external) = (en \<and> ext) \<and>
        (c = Some machine_software) = (en \<and> \<not> ext \<and> soft) \<and>
        (c = Some machine_timer) = (en \<and> \<not> ext \<and> \<not> soft \<and> tim) \<and>
        (c = None) = (\<not> (en \<and> (ext \<or> soft \<or> tim))))"
proof -
  have wf: "isa_wf m" using reachable_ok[OF assms] by (simp add: isa_ok_def)
  show ?thesis unfolding cause_values[OF wf] by (auto simp: Let_def)
qed

text \<open>
  Word stores through the bus behave as an array: after any sequence of aligned word
  stores to the memory, which never fails, a word load returns the last value stored to its
  address, or what was there before if none of them went there.
\<close>

theorem bus_store_load_sequence:
  assumes "bus_wf b" and "\<forall>(a, v) \<in> set xs. ram_word a" and "ram_word a"
  shows "\<exists>b'. word_port.wr_all xs b = Some b' \<and> bus_wf b' \<and>
    (case map_of (rev xs) a of
       Some v \<Rightarrow> bus_read32 a False b' = Some (v, b')
     | None \<Rightarrow> map_option fst (bus_read32 a False b') = map_option fst (bus_read32 a False b))"
proof -
  obtain b' where b': "word_port.wr_all xs b = Some b'" "bus_wf b'"
    "map_option fst (bus_read32 a False b') =
      (case map_of (rev xs) a of None \<Rightarrow> map_option fst (bus_read32 a False b) | Some v \<Rightarrow> Some v)"
    using word_port.wr_all_law[OF assms(1,2)] assms(3) by blast
  then show ?thesis
    using word_port.rd_eq[OF b'(2) assms(3)] by (auto split: option.splits)
qed

text \<open>
  Writes of CSR instructions: a write is refused, and changes nothing, exactly when the
  address has no register or a read-only one; an accepted write is read back through the
  register's filter and leaves every other register as it was (the character queue register
  apart, whose reads depend on the queue).
\<close>

theorem csr_write_read:
  assumes "csrfile_write a v f = (ok, f')"
  shows "ok = (csrfile_enabled f a \<and> \<not> csr_readonly (the (csr_map_table f a)))
    \<and> (\<not> ok \<longrightarrow> f' = f)
    \<and> (ok \<and> csr_cls (csr_obj (the (csr_map_table f a))) \<noteq> charfifo \<longrightarrow>
         csrfile_read a f' = Some (csr_filter (csr_cls (csr_obj (the (csr_map_table f a)))) v))
    \<and> (b \<noteq> a \<and> csr_cls (csr_obj (the (csr_map_table f b))) \<noteq> charfifo \<longrightarrow>
         csrfile_read b f' = csrfile_read b f)"
proof (cases ok)
  case True
  then have "csrfile_write_check a v f" using assms by (auto simp: csrfile_write_def split: if_splits)
  then show ?thesis
    using True csrfile_write_read[of a v f f'] assms by (auto simp: csrfile_write_check_def split: if_splits)
next
  case False
  then show ?thesis using assms
    by (auto simp: csrfile_write_def csrfile_write_check_def split: if_splits)
qed

definition demo_csrfile :: csrfile where
  "demo_csrfile = \<lparr>csr_map_table =
       [CSR_MEPC \<mapsto> \<lparr>csr_readonly = False, csr_obj = csr_make mepc\<rparr>,
        CSR_MVENDORID \<mapsto> \<lparr>csr_readonly = True, csr_obj = csr_make mvendorid\<rparr>],
     csr_io = \<lparr>send_fifo = [], rev_fifo = []\<rparr>\<rparr>"

end
