(* ===== verification/Dff.thy ===== *)
theory Dff
  imports Common
begin

text \<open>
  \<^verbatim>\<open>component/dff.h\<close>, \<^verbatim>\<open>component/port.h\<close> and \<^verbatim>\<open>component/handshake_dff.h\<close>: the registers
  of the cycle model. A \<^verbatim>\<open>dff\<close> holds the value visible in this clock cycle
  (\<open>cur_value\<close>, read by \<^verbatim>\<open>get\<close>) and the value of the next one (\<open>new_value\<close>, written
  by \<^verbatim>\<open>set\<close>); \<^verbatim>\<open>dff_base::sync_all\<close> is the clock edge. The registry of all \<^verbatim>\<open>dff\<close>
  objects is not modelled as such: each component has a \<open>_sync\<close> operation that applies
  \<open>dff_sync\<close> to each register it owns, which is what one \<^verbatim>\<open>sync_all\<close> does to it.
\<close>

record 'a dff =
  init_value :: 'a
  cur_value :: 'a
  new_value :: 'a
  changed :: bool

definition dff_make :: "'a \<Rightarrow> 'a dff" where
  "dff_make v = \<lparr>init_value = v, cur_value = v, new_value = v, changed = False\<rparr>"

definition dff_sync :: "'a dff \<Rightarrow> 'a dff" where
  "dff_sync d = d\<lparr>cur_value := new_value d, changed := False\<rparr>"

definition dff_reset :: "'a dff \<Rightarrow> 'a dff" where
  "dff_reset d = d\<lparr>cur_value := init_value d, new_value := init_value d, changed := False\<rparr>"

definition dff_set :: "'a \<Rightarrow> 'a dff \<Rightarrow> 'a dff" where
  "dff_set v d = d\<lparr>new_value := v, changed := True\<rparr>"

definition dff_get :: "'a dff \<Rightarrow> 'a" where
  "dff_get d = cur_value d"

definition dff_get_new :: "'a dff \<Rightarrow> 'a" where
  "dff_get_new d = new_value d"

definition dff_revert :: "'a dff \<Rightarrow> 'a dff" where
  "dff_revert d = d\<lparr>new_value := cur_value d\<rparr>"

definition dff_is_changed :: "'a dff \<Rightarrow> bool" where
  "dff_is_changed d = changed d"

text \<open>\<^verbatim>\<open>port<T>\<close>: a register with an initial value that \<^verbatim>\<open>reset\<close> writes back.\<close>

record 'a port =
  port_value :: "'a dff"
  port_init_value :: 'a

definition port_make :: "'a \<Rightarrow> 'a port" where
  "port_make v = \<lparr>port_value = dff_make v, port_init_value = v\<rparr>"

definition port_reset :: "'a port \<Rightarrow> 'a port" where
  "port_reset p = p\<lparr>port_value := dff_set (port_init_value p) (port_value p)\<rparr>"

definition port_set :: "'a \<Rightarrow> 'a port \<Rightarrow> 'a port" where
  "port_set v p = p\<lparr>port_value := dff_set v (port_value p)\<rparr>"

definition port_get :: "'a port \<Rightarrow> 'a" where
  "port_get p = dff_get (port_value p)"

definition port_get_new :: "'a port \<Rightarrow> 'a" where
  "port_get_new p = dff_get_new (port_value p)"

definition port_sync :: "'a port \<Rightarrow> 'a port" where
  "port_sync p = p\<lparr>port_value := dff_sync (port_value p)\<rparr>"

text \<open>
  \<^verbatim>\<open>handshake_dff<T>\<close>: one slot between two pipeline stages. The consumer tests the
  current flag, the producer the new one, so a slot popped in this cycle can be refilled
  in this cycle.
\<close>

record 'a handshake_dff =
  hs_has_data :: "bool dff"
  hs_data :: "'a dff"

definition hs_make :: "'a \<Rightarrow> 'a handshake_dff" where
  "hs_make v = \<lparr>hs_has_data = dff_set False (dff_make False), hs_data = dff_make v\<rparr>"

definition hs_reset :: "'a handshake_dff \<Rightarrow> 'a handshake_dff" where
  "hs_reset h = h\<lparr>hs_has_data := dff_set False (hs_has_data h)\<rparr>"

definition hs_flush :: "'a handshake_dff \<Rightarrow> 'a handshake_dff" where
  "hs_flush h = h\<lparr>hs_has_data := dff_set False (hs_has_data h)\<rparr>"

definition hs_is_empty :: "'a handshake_dff \<Rightarrow> bool" where
  "hs_is_empty h \<longleftrightarrow> \<not> dff_get (hs_has_data h)"

definition hs_is_full :: "'a handshake_dff \<Rightarrow> bool" where
  "hs_is_full h \<longleftrightarrow> dff_get_new (hs_has_data h)"

definition hs_push :: "'a \<Rightarrow> 'a handshake_dff \<Rightarrow> bool \<times> 'a handshake_dff" where
  "hs_push element h =
     (if hs_is_full h then (False, h)
      else (True, h\<lparr>hs_data := dff_set element (hs_data h),
                    hs_has_data := dff_set True (hs_has_data h)\<rparr>))"

definition hs_pop :: "'a handshake_dff \<Rightarrow> 'a option \<times> 'a handshake_dff" where
  "hs_pop h =
     (if hs_is_empty h then (None, h)
      else (Some (dff_get (hs_data h)), h\<lparr>hs_has_data := dff_set False (hs_has_data h)\<rparr>))"

definition hs_get_data :: "'a handshake_dff \<Rightarrow> 'a option" where
  "hs_get_data h = (if hs_is_empty h then None else Some (dff_get (hs_data h)))"

definition hs_sync :: "'a handshake_dff \<Rightarrow> 'a handshake_dff" where
  "hs_sync h = h\<lparr>hs_has_data := dff_sync (hs_has_data h), hs_data := dff_sync (hs_data h)\<rparr>"

lemmas dff_defs [model_defs] =
  dff_make_def dff_sync_def dff_reset_def dff_set_def dff_get_def dff_get_new_def
  dff_revert_def dff_is_changed_def

lemmas port_defs [model_defs] =
  port_make_def port_reset_def port_set_def port_get_def port_get_new_def port_sync_def

lemmas hs_defs [model_defs] =
  hs_make_def hs_reset_def hs_flush_def hs_is_empty_def hs_is_full_def hs_push_def hs_pop_def
  hs_get_data_def hs_sync_def

subsection \<open>Registers: writes become visible at the clock edge\<close>

lemma dff_get_simps [simp]:
  "dff_get (dff_make v) = v"
  "dff_get (dff_sync d) = dff_get_new d"
  "dff_get (dff_set v d) = dff_get d"
  "dff_get (dff_revert d) = dff_get d"
  "dff_get (dff_reset d) = init_value d"
  by (simp_all add: dff_defs)

lemma dff_get_new_simps [simp]:
  "dff_get_new (dff_make v) = v"
  "dff_get_new (dff_sync d) = dff_get_new d"
  "dff_get_new (dff_set v d) = v"
  "dff_get_new (dff_revert d) = dff_get d"
  "dff_get_new (dff_reset d) = init_value d"
  by (simp_all add: dff_defs)

text \<open>
  What the consumer of a handshake slot sees in the next cycle. A push that succeeds is
  delivered; a push into a slot that still holds data is refused and leaves the slot
  untouched, also in the cycle after.
\<close>

lemma hs_push_pop_next:
  "hs_push x h = (ok, h') \<Longrightarrow>
     fst (hs_pop (hs_sync h')) =
       (if ok then Some x
        else if dff_get_new (hs_has_data h) then Some (dff_get_new (hs_data h)) else None)"
  by (auto simp: hs_defs split: if_splits)

text \<open>
  A handshake slot passes values on without loss: what is pushed into a slot that is
  free, or that its consumer empties in the same cycle, is popped in the next one; a push into
  a slot that still holds a value is refused and the next pop returns that value.
\<close>

theorem handshake_delivers:
  "fst (hs_pop (hs_sync (snd (hs_push x h)))) =
     (if fst (hs_push x h) then Some x else Some (dff_get_new (hs_data h)))
   \<and> fst (hs_push x h) = (\<not> hs_is_full h)
   \<and> fst (hs_push x (snd (hs_pop (hs_sync h)))) = True"
  by (auto simp: hs_defs)

end
