(* ===== verification/Ring.thy ===== *)
theory Ring
  imports Prelude
begin

text \<open>
  Arithmetic of the ring positions every queue of the cycle model uses: a slot number
  below the size together with a stage bit that flips at each wrap-around. A position is
  the image of an unbounded counter \<open>c\<close>: slot \<open>c mod sz\<close>, stage the parity of
  \<open>c div sz\<close>. Two counters at most one size apart are told apart by slot and stage
  together, which is what makes the empty and full tests of the source exact.
\<close>

definition ring_at :: "nat \<Rightarrow> nat \<Rightarrow> nat \<times> bool" where
  "ring_at sz c = (c mod sz, odd (c div sz))"

definition ring_pos :: "nat \<Rightarrow> nat \<times> bool \<Rightarrow> nat" where
  "ring_pos sz a = fst a + (if snd a then sz else 0)"

definition ring_dist :: "nat \<Rightarrow> nat \<times> bool \<Rightarrow> nat \<times> bool \<Rightarrow> nat" where
  "ring_dist sz a b = (ring_pos sz b + 2 * sz - ring_pos sz a) mod (2 * sz)"

definition ring_slots :: "nat \<Rightarrow> nat \<Rightarrow> nat \<Rightarrow> nat list" where
  "ring_slots sz p n = map (\<lambda>i. (p + i) mod sz) [0..<n]"

subsection \<open>Positions and counters\<close>

lemma ring_pos_at: "0 < sz \<Longrightarrow> ring_pos sz (ring_at sz c) = c mod (2 * sz)"
  by (auto simp: ring_pos_def ring_at_def mod_mult2_eq mult.commute[of 2] odd_iff_mod_2_eq_one)

lemma ring_pos_less: "fst a < sz \<Longrightarrow> ring_pos sz a < 2 * sz"
  by (auto simp: ring_pos_def)

lemma ring_at_pos: "fst a < sz \<Longrightarrow> ring_at sz (ring_pos sz a) = a"
  by (cases a) (auto simp: ring_pos_def ring_at_def div_add_self2)

lemma ring_at_eq_iff_mod:
  assumes "0 < sz"
  shows "ring_at sz a = ring_at sz b \<longleftrightarrow> a mod (2 * sz) = b mod (2 * sz)"
proof
  assume "ring_at sz a = ring_at sz b"
  then show "a mod (2 * sz) = b mod (2 * sz)"
    using ring_pos_at[OF assms] by metis
next
  assume m: "a mod (2 * sz) = b mod (2 * sz)"
  have "ring_at sz c = ring_at sz (c mod (2 * sz))" for c
    using assms
    by (simp add: ring_at_def mod_mult2_eq mult.commute[of 2] odd_iff_mod_2_eq_one)
  then show "ring_at sz a = ring_at sz b" using m by metis
qed

lemma mod_diff_nat:
  fixes a b m :: nat
  assumes "0 < m" and "a \<le> b"
  shows "(b mod m + m - a mod m) mod m = (b - a) mod m"
proof -
  have "a mod m \<le> b mod m + m" using assms(1) by (simp add: trans_le_add2)
  then have "int ((b mod m + m - a mod m) mod m) = (int b mod int m + int m - int a mod int m) mod int m"
    by (simp add: zmod_int of_nat_diff)
  also have "\<dots> = (int b - int a) mod int m"
    by (metis add_diff_cancel_right' add_diff_eq diff_add_eq mod_add_self2 mod_diff_eq)
  also have "\<dots> = int ((b - a) mod m)"
    using assms(2) by (simp add: zmod_int of_nat_diff)
  finally show ?thesis by simp
qed

lemma ring_dist_at:
  assumes "0 < sz" and "a \<le> b" and "b < a + 2 * sz"
  shows "ring_dist sz (ring_at sz a) (ring_at sz b) = b - a"
  using assms mod_diff_nat[of "2 * sz" a b] by (simp add: ring_dist_def ring_pos_at)

lemma ring_at_dist:
  assumes "fst a < sz" and "fst b < sz"
  shows "ring_at sz (ring_pos sz a + ring_dist sz a b) = b"
proof -
  have "(ring_pos sz a + ring_dist sz a b) mod (2 * sz) = ring_pos sz b mod (2 * sz)"
    using ring_pos_less[OF assms(1)] ring_pos_less[OF assms(2)]
    by (simp add: ring_dist_def mod_add_right_eq)
  moreover have "0 < sz" using assms(1) by simp
  ultimately show ?thesis
    using ring_at_eq_iff_mod ring_at_pos[OF assms(2)] by metis
qed

lemma ring_at_eq_near:
  assumes "0 < sz" and "a \<le> b" and "b \<le> a + sz"
  shows "ring_at sz a = ring_at sz b \<longleftrightarrow> a = b"
proof
  assume "ring_at sz a = ring_at sz b"
  then have "ring_dist sz (ring_at sz a) (ring_at sz a) = b - a"
    using ring_dist_at[OF assms(1,2)] assms by simp
  moreover have "ring_dist sz (ring_at sz a) (ring_at sz a) = 0"
    using ring_dist_at[of sz a a] assms(1) by simp
  ultimately show "a = b" using assms(2) by simp
qed simp

lemma ring_at_add_size: "0 < sz \<Longrightarrow> ring_at sz (a + sz) = (a mod sz, even (a div sz))"
  by (simp add: ring_at_def div_add_self2)

lemma mod_eq_near:
  fixes a b sz :: nat
  assumes "0 < sz" and "a \<le> b" and "b < a + sz" and "a mod sz = b mod sz"
  shows "a = b"
proof -
  obtain q where "b - a = sz * q"
    using assms(2,4) by (metis mod_eq_dvd_iff_nat dvdE)
  with assms show ?thesis by (cases q) auto
qed

text \<open>The full test of the source: the slots agree and the stages do not.\<close>

lemma ring_full_near:
  assumes "0 < sz" and "a \<le> b" and "b \<le> a + sz"
  shows "fst (ring_at sz a) = fst (ring_at sz b) \<and> snd (ring_at sz a) \<noteq> snd (ring_at sz b)
    \<longleftrightarrow> b = a + sz"
proof
  assume d: "fst (ring_at sz a) = fst (ring_at sz b) \<and> snd (ring_at sz a) \<noteq> snd (ring_at sz b)"
  show "b = a + sz"
  proof (rule ccontr)
    assume "b \<noteq> a + sz"
    then have "b < a + sz" using assms(3) by simp
    then have "a = b"
      by (rule mod_eq_near[OF assms(1,2)]) (use d in \<open>simp add: ring_at_def\<close>)
    with d show False by simp
  qed
qed (use assms(1) in \<open>simp add: ring_at_def div_add_self2\<close>)

text \<open>Advancing a pointer the way the source does it.\<close>

lemma ring_at_Suc:
  assumes "0 < sz"
  shows "ring_at sz (Suc c) =
    (if c mod sz \<ge> sz - 1 then (0, \<not> odd (c div sz)) else (c mod sz + 1, odd (c div sz)))"
proof (cases "c mod sz \<ge> sz - 1")
  case True
  then have "Suc (c mod sz) = sz"
    using mod_less_divisor[OF assms, of c] assms by linarith
  then show ?thesis using True by (simp add: ring_at_def mod_Suc div_Suc)
next
  case False
  then have "Suc (c mod sz) \<noteq> sz" by simp
  then show ?thesis using False by (simp add: ring_at_def mod_Suc div_Suc)
qed

lemma ring_at_add_mod: "fst (ring_at sz (c + i)) = (fst (ring_at sz c) + i) mod sz"
  by (simp add: ring_at_def mod_add_left_eq)

subsection \<open>The slots of a window\<close>

lemma length_ring_slots [simp]: "length (ring_slots sz p n) = n"
  by (simp add: ring_slots_def)

lemma nth_ring_slots [simp]: "i < n \<Longrightarrow> ring_slots sz p n ! i = (p + i) mod sz"
  by (simp add: ring_slots_def)

lemma ring_slots_0 [simp]: "ring_slots sz p 0 = []"
  by (simp add: ring_slots_def)

lemma ring_slots_Suc: "ring_slots sz p (Suc n) = ring_slots sz p n @ [(p + n) mod sz]"
  by (simp add: ring_slots_def)

lemma ring_slots_Cons:
  "p < sz \<Longrightarrow> ring_slots sz p (Suc n) = p # ring_slots sz ((p + 1) mod sz) n"
  by (rule nth_equalityI) (auto simp: nth_Cons mod_add_left_eq mod_Suc_eq split: nat.split)

lemma set_ring_slots: "0 < sz \<Longrightarrow> i \<in> set (ring_slots sz p n) \<Longrightarrow> i < sz"
  by (auto simp: ring_slots_def)

lemma distinct_ring_slots:
  assumes "0 < sz" and "n \<le> sz"
  shows "distinct (ring_slots sz p n)"
proof -
  have "(p + i) mod sz \<noteq> (p + j) mod sz" if "i < j" "j < n" for i j
    using mod_eq_near[OF assms(1), of "p + i" "p + j"] that assms(2) by auto
  then show ?thesis
    by (simp add: distinct_conv_nth) (metis linorder_neqE_nat)
qed

end
