(* ===== verification/Fifo.thy ===== *)
theory Fifo
  imports Dff Ring
begin

text \<open>
  \<^verbatim>\<open>component/fifo.h\<close>: the circular queue all buffers of the cycle model are built from
  (fetch and decode queues, reorder buffer, free list, checkpoint buffer, load queue, store
  buffers). Both pointers and every slot are clocked registers: the producer compares the
  new write pointer with the current read pointer, the consumer the current write pointer
  with the new read pointer, so neither sees what the other does in the same cycle.

  Slot numbers and sizes are \<open>nat\<close>: every size in \<^verbatim>\<open>config.h\<close> is at most 1024, so no
  expression over them reaches the 32-bit bound. Out parameters with a \<^verbatim>\<open>bool\<close> result are
  \<open>option\<close> results. Accesses by a slot number from outside (\<^verbatim>\<open>get_item\<close>, \<^verbatim>\<open>set_item\<close>)
  beyond the array are undefined behaviour in C++; they are \<open>None\<close> here.
\<close>

record 'a fifo =
  buffer :: "'a dff list"
  fsize :: nat
  wptr :: "nat dff"
  wstage :: "bool dff"
  rptr :: "nat dff"
  rstage :: "bool dff"

definition fifo_reset :: "'a fifo \<Rightarrow> 'a fifo" where
  "fifo_reset f = f\<lparr>wptr := dff_set 0 (wptr f), wstage := dff_set False (wstage f),
                    rptr := dff_set 0 (rptr f), rstage := dff_set False (rstage f)\<rparr>"

definition fifo_flush :: "'a fifo \<Rightarrow> 'a fifo" where
  "fifo_flush f = fifo_reset f"

definition fifo_make :: "nat \<Rightarrow> 'a \<Rightarrow> 'a fifo" where
  "fifo_make n v = fifo_reset
     \<lparr>buffer = replicate n (dff_make v), fsize = n,
      wptr = dff_make 0, wstage = dff_make False, rptr = dff_make 0, rstage = dff_make False\<rparr>"

definition fifo_sync :: "'a fifo \<Rightarrow> 'a fifo" where
  "fifo_sync f = f\<lparr>buffer := map dff_sync (buffer f),
                   wptr := dff_sync (wptr f), wstage := dff_sync (wstage f),
                   rptr := dff_sync (rptr f), rstage := dff_sync (rstage f)\<rparr>"

subsection \<open>Empty and full, as seen by producer and consumer\<close>

definition producer_is_empty :: "'a fifo \<Rightarrow> bool" where
  "producer_is_empty f \<longleftrightarrow>
     dff_get_new (wptr f) = dff_get (rptr f) \<and> dff_get_new (wstage f) = dff_get (rstage f)"

definition customer_is_empty :: "'a fifo \<Rightarrow> bool" where
  "customer_is_empty f \<longleftrightarrow>
     dff_get (wptr f) = dff_get_new (rptr f) \<and> dff_get (wstage f) = dff_get_new (rstage f)"

definition new_is_empty :: "'a fifo \<Rightarrow> bool" where
  "new_is_empty f \<longleftrightarrow>
     dff_get_new (wptr f) = dff_get_new (rptr f) \<and> dff_get_new (wstage f) = dff_get_new (rstage f)"

definition producer_is_full :: "'a fifo \<Rightarrow> bool" where
  "producer_is_full f \<longleftrightarrow>
     dff_get_new (wptr f) = dff_get (rptr f) \<and> dff_get_new (wstage f) \<noteq> dff_get (rstage f)"

definition customer_is_full :: "'a fifo \<Rightarrow> bool" where
  "customer_is_full f \<longleftrightarrow>
     dff_get (wptr f) = dff_get_new (rptr f) \<and> dff_get (wstage f) \<noteq> dff_get_new (rstage f)"

definition new_is_full :: "'a fifo \<Rightarrow> bool" where
  "new_is_full f \<longleftrightarrow>
     dff_get_new (wptr f) = dff_get_new (rptr f) \<and> dff_get_new (wstage f) \<noteq> dff_get_new (rstage f)"

definition producer_get_used_space :: "'a fifo \<Rightarrow> nat" where
  "producer_get_used_space f =
     (if producer_is_full f then fsize f
      else (dff_get_new (wptr f) + fsize f - dff_get (rptr f)) mod fsize f)"

definition customer_get_used_space :: "'a fifo \<Rightarrow> nat" where
  "customer_get_used_space f =
     (if customer_is_full f then fsize f
      else (dff_get (wptr f) + fsize f - dff_get_new (rptr f)) mod fsize f)"

definition new_get_used_space :: "'a fifo \<Rightarrow> nat" where
  "new_get_used_space f =
     (if new_is_full f then fsize f
      else (dff_get_new (wptr f) + fsize f - dff_get_new (rptr f)) mod fsize f)"

definition producer_get_free_space :: "'a fifo \<Rightarrow> nat" where
  "producer_get_free_space f = fsize f - producer_get_used_space f"

definition customer_get_free_space :: "'a fifo \<Rightarrow> nat" where
  "customer_get_free_space f = fsize f - customer_get_used_space f"

subsection \<open>Push and pop\<close>

definition fifo_advance_wptr :: "'a fifo \<Rightarrow> 'a fifo" where
  "fifo_advance_wptr f =
     (if dff_get_new (wptr f) \<ge> fsize f - 1
      then f\<lparr>wptr := dff_set 0 (wptr f), wstage := dff_set (\<not> dff_get_new (wstage f)) (wstage f)\<rparr>
      else f\<lparr>wptr := dff_set (dff_get_new (wptr f) + 1) (wptr f)\<rparr>)"

definition fifo_advance_rptr :: "'a fifo \<Rightarrow> 'a fifo" where
  "fifo_advance_rptr f =
     (if dff_get_new (rptr f) \<ge> fsize f - 1
      then f\<lparr>rptr := dff_set 0 (rptr f), rstage := dff_set (\<not> dff_get_new (rstage f)) (rstage f)\<rparr>
      else f\<lparr>rptr := dff_set (dff_get_new (rptr f) + 1) (rptr f)\<rparr>)"

definition fifo_write_slot :: "nat \<Rightarrow> 'a \<Rightarrow> 'a fifo \<Rightarrow> 'a fifo" where
  "fifo_write_slot i v f = f\<lparr>buffer := (buffer f)[i := dff_set v (buffer f ! i)]\<rparr>"

definition new_push :: "'a \<Rightarrow> 'a fifo \<Rightarrow> bool \<times> 'a fifo" where
  "new_push element f =
     (if new_is_full f then (False, f)
      else (True, fifo_advance_wptr (fifo_write_slot (dff_get_new (wptr f)) element f)))"

definition fifo_push :: "'a \<Rightarrow> 'a fifo \<Rightarrow> bool \<times> 'a fifo" where
  "fifo_push element f =
     (if producer_is_full f then (False, f)
      else (True, fifo_advance_wptr (fifo_write_slot (dff_get_new (wptr f)) element f)))"

definition fifo_pop :: "'a fifo \<Rightarrow> 'a option \<times> 'a fifo" where
  "fifo_pop f =
     (if customer_is_empty f then (None, f)
      else (Some (dff_get (buffer f ! dff_get_new (rptr f))), fifo_advance_rptr f))"

subsection \<open>Front, tail and neighbours\<close>

definition producer_get_front :: "'a fifo \<Rightarrow> 'a option" where
  "producer_get_front f =
     (if producer_is_empty f then None else Some (dff_get (buffer f ! dff_get (rptr f))))"

definition customer_get_front :: "'a fifo \<Rightarrow> 'a option" where
  "customer_get_front f =
     (if customer_is_empty f then None else Some (dff_get (buffer f ! dff_get_new (rptr f))))"

definition producer_get_tail :: "'a fifo \<Rightarrow> 'a option" where
  "producer_get_tail f =
     (if producer_is_empty f then None
      else Some (dff_get (buffer f ! ((dff_get_new (wptr f) + fsize f - 1) mod fsize f))))"

definition customer_get_tail :: "'a fifo \<Rightarrow> 'a option" where
  "customer_get_tail f =
     (if customer_is_empty f then None
      else Some (dff_get (buffer f ! ((dff_get (wptr f) + fsize f - 1) mod fsize f))))"

definition producer_get_front_id :: "'a fifo \<Rightarrow> nat option" where
  "producer_get_front_id f = (if producer_is_empty f then None else Some (dff_get (rptr f)))"

definition customer_get_front_id :: "'a fifo \<Rightarrow> nat option" where
  "customer_get_front_id f = (if customer_is_empty f then None else Some (dff_get_new (rptr f)))"

definition producer_get_front_id_stage :: "'a fifo \<Rightarrow> (nat \<times> bool) option" where
  "producer_get_front_id_stage f =
     (if producer_is_empty f then None else Some (dff_get (rptr f), dff_get (rstage f)))"

definition customer_get_front_id_stage :: "'a fifo \<Rightarrow> (nat \<times> bool) option" where
  "customer_get_front_id_stage f =
     (if customer_is_empty f then None else Some (dff_get_new (rptr f), dff_get_new (rstage f)))"

definition producer_get_tail_id :: "'a fifo \<Rightarrow> nat option" where
  "producer_get_tail_id f =
     (if producer_is_empty f then None else Some ((dff_get_new (wptr f) + fsize f - 1) mod fsize f))"

definition customer_get_tail_id :: "'a fifo \<Rightarrow> nat option" where
  "customer_get_tail_id f =
     (if customer_is_empty f then None else Some ((dff_get (wptr f) + fsize f - 1) mod fsize f))"

definition producer_get_tail_id_stage :: "'a fifo \<Rightarrow> (nat \<times> bool) option" where
  "producer_get_tail_id_stage f =
     (if producer_is_empty f then None
      else Some ((dff_get_new (wptr f) + fsize f - 1) mod fsize f,
                 if dff_get_new (wptr f) = 0 then \<not> dff_get_new (wstage f)
                 else dff_get_new (wstage f)))"

definition customer_get_tail_id_stage :: "'a fifo \<Rightarrow> (nat \<times> bool) option" where
  "customer_get_tail_id_stage f =
     (if customer_is_empty f then None
      else Some ((dff_get (wptr f) + fsize f - 1) mod fsize f,
                 if dff_get (wptr f) = 0 then \<not> dff_get (wstage f) else dff_get (wstage f)))"

definition producer_check_id_valid :: "'a fifo \<Rightarrow> nat \<Rightarrow> bool" where
  "producer_check_id_valid f i =
     (if producer_is_empty f then False
      else if dff_get_new (wstage f) = dff_get (rstage f)
      then i \<ge> dff_get (rptr f) \<and> i < dff_get_new (wptr f)
      else (i \<ge> dff_get (rptr f) \<and> i < fsize f) \<or> i < dff_get_new (wptr f))"

definition customer_check_id_valid :: "'a fifo \<Rightarrow> nat \<Rightarrow> bool" where
  "customer_check_id_valid f i =
     (if customer_is_empty f then False
      else if dff_get (wstage f) = dff_get_new (rstage f)
      then i \<ge> dff_get_new (rptr f) \<and> i < dff_get (wptr f)
      else (i \<ge> dff_get_new (rptr f) \<and> i < fsize f) \<or> i < dff_get (wptr f))"

text \<open>The result is the next slot and whether it is valid; the call aborts on an invalid slot.\<close>

definition producer_get_next_id :: "'a fifo \<Rightarrow> nat \<Rightarrow> (nat \<times> bool) option" where
  "producer_get_next_id f i =
     do {
       verify (producer_check_id_valid f i);
       let next_id = (i + 1) mod fsize f;
       Some (next_id, producer_check_id_valid f next_id)
     }"

definition customer_get_next_id :: "'a fifo \<Rightarrow> nat \<Rightarrow> (nat \<times> bool) option" where
  "customer_get_next_id f i =
     do {
       verify (customer_check_id_valid f i);
       let next_id = (i + 1) mod fsize f;
       Some (next_id, customer_check_id_valid f next_id)
     }"

definition static_get_next_id_stage :: "'a fifo \<Rightarrow> nat \<Rightarrow> bool \<Rightarrow> nat \<times> bool" where
  "static_get_next_id_stage f i stage = ((i + 1) mod fsize f, (i + 1 \<ge> fsize f) \<noteq> stage)"

definition producer_get_next_id_stage ::
    "'a fifo \<Rightarrow> nat \<Rightarrow> bool \<Rightarrow> (nat \<times> bool \<times> bool) option" where
  "producer_get_next_id_stage f i stage =
     do {
       verify (producer_check_id_valid f i);
       let next_id = (i + 1) mod fsize f;
       let next_stage = ((i + 1 \<ge> fsize f) \<noteq> stage);
       Some (next_id, next_stage, producer_check_id_valid f next_id)
     }"

definition customer_get_next_id_stage ::
    "'a fifo \<Rightarrow> nat \<Rightarrow> bool \<Rightarrow> (nat \<times> bool \<times> bool) option" where
  "customer_get_next_id_stage f i stage =
     do {
       verify (customer_check_id_valid f i);
       let next_id = (i + 1) mod fsize f;
       let next_stage = ((i + 1 \<ge> fsize f) \<noteq> stage);
       Some (next_id, next_stage, customer_check_id_valid f next_id)
     }"

definition producer_get_item :: "'a fifo \<Rightarrow> nat \<Rightarrow> 'a option" where
  "producer_get_item f i =
     (if i < length (buffer f) then Some (dff_get_new (buffer f ! i)) else None)"

definition customer_get_item :: "'a fifo \<Rightarrow> nat \<Rightarrow> 'a option" where
  "customer_get_item f i =
     (if i < length (buffer f) then Some (dff_get (buffer f ! i)) else None)"

definition fifo_set_item :: "nat \<Rightarrow> 'a \<Rightarrow> 'a fifo \<Rightarrow> 'a fifo option" where
  "fifo_set_item i v f =
     (if i < length (buffer f) then Some (fifo_write_slot i v f) else None)"

definition producer_get_wptr :: "'a fifo \<Rightarrow> nat" where
  "producer_get_wptr f = dff_get_new (wptr f)"

definition producer_get_wstage :: "'a fifo \<Rightarrow> bool" where
  "producer_get_wstage f = dff_get_new (wstage f)"

definition customer_get_wptr :: "'a fifo \<Rightarrow> nat" where
  "customer_get_wptr f = dff_get (wptr f)"

definition customer_get_wstage :: "'a fifo \<Rightarrow> bool" where
  "customer_get_wstage f = dff_get (wstage f)"

definition update_wptr :: "nat \<Rightarrow> bool \<Rightarrow> 'a fifo \<Rightarrow> 'a fifo" where
  "update_wptr p s f = f\<lparr>wptr := dff_set p (wptr f), wstage := dff_set s (wstage f)\<rparr>"

text \<open>
  \<^verbatim>\<open>customer_foreach\<close> walks from the current read pointer to the current write pointer and
  stops early when the callback returns false. The callback's effects are a state
  \<open>'s\<close>. Whether the walk ends depends on the pointers, so a walk that does not end is
  \<open>None\<close>.
\<close>

partial_function (option) foreach_loop ::
    "'a fifo \<Rightarrow> (nat \<Rightarrow> bool \<Rightarrow> 'a \<Rightarrow> 's \<Rightarrow> bool \<times> 's) \<Rightarrow> nat \<Rightarrow> bool \<Rightarrow> 's \<Rightarrow> 's option" where
  "foreach_loop f func cur cur_stage s =
     (case func cur cur_stage (dff_get (buffer f ! cur)) s of (continue, s') \<Rightarrow>
       if \<not> continue then Some s'
       else (let cur' = (if cur + 1 \<ge> fsize f then 0 else cur + 1);
                 cur_stage' = (if cur + 1 \<ge> fsize f then \<not> cur_stage else cur_stage)
             in if cur' = dff_get (wptr f) \<and> cur_stage' = dff_get (wstage f) then Some s'
                else foreach_loop f func cur' cur_stage' s'))"

definition customer_foreach ::
    "'a fifo \<Rightarrow> (nat \<Rightarrow> bool \<Rightarrow> 'a \<Rightarrow> 's \<Rightarrow> bool \<times> 's) \<Rightarrow> 's \<Rightarrow> 's option" where
  "customer_foreach f func s =
     (if \<not> customer_is_empty f then foreach_loop f func (dff_get (rptr f)) (dff_get (rstage f)) s
      else Some s)"

subsection \<open>Abstract view and invariant\<close>

definition w_cur :: "'a fifo \<Rightarrow> nat \<times> bool" where "w_cur f = (dff_get (wptr f), dff_get (wstage f))"
definition w_new :: "'a fifo \<Rightarrow> nat \<times> bool" where "w_new f = (dff_get_new (wptr f), dff_get_new (wstage f))"
definition r_cur :: "'a fifo \<Rightarrow> nat \<times> bool" where "r_cur f = (dff_get (rptr f), dff_get (rstage f))"
definition r_new :: "'a fifo \<Rightarrow> nat \<times> bool" where "r_new f = (dff_get_new (rptr f), dff_get_new (rstage f))"

lemmas pos_defs = w_cur_def w_new_def r_cur_def r_new_def

text \<open>
  \<open>fifo_start\<close>: the items held at the start of the cycle; \<open>fifo_avail\<close>: those the consumer can
  still pop in this cycle; \<open>fifo_next\<close>: the items held after the clock edge.
\<close>

definition fifo_start :: "'a fifo \<Rightarrow> 'a list" where
  "fifo_start f = map (\<lambda>i. dff_get (buffer f ! i))
     (ring_slots (fsize f) (fst (r_cur f)) (ring_dist (fsize f) (r_cur f) (w_cur f)))"

definition fifo_avail :: "'a fifo \<Rightarrow> 'a list" where
  "fifo_avail f = map (\<lambda>i. dff_get (buffer f ! i))
     (ring_slots (fsize f) (fst (r_new f)) (ring_dist (fsize f) (r_new f) (w_cur f)))"

definition fifo_next :: "'a fifo \<Rightarrow> 'a list" where
  "fifo_next f = map (\<lambda>i. dff_get_new (buffer f ! i))
     (ring_slots (fsize f) (fst (r_new f)) (ring_dist (fsize f) (r_new f) (w_new f)))"

text \<open>
  The invariant: seen from the current read pointer, the new read pointer, the current and the new
  write pointer follow in this order within one round of the ring.
\<close>

definition fifo_inv :: "'a fifo \<Rightarrow> bool" where
  "fifo_inv f \<longleftrightarrow>
     0 < fsize f \<and> length (buffer f) = fsize f \<and>
     fst (r_cur f) < fsize f \<and> fst (r_new f) < fsize f \<and>
     fst (w_cur f) < fsize f \<and> fst (w_new f) < fsize f \<and>
     ring_dist (fsize f) (r_cur f) (r_new f) \<le> ring_dist (fsize f) (r_cur f) (w_cur f) \<and>
     ring_dist (fsize f) (r_cur f) (w_cur f) \<le> ring_dist (fsize f) (r_cur f) (w_new f) \<and>
     ring_dist (fsize f) (r_cur f) (w_new f) \<le> fsize f"

text \<open>The same in terms of unbounded counters of all pops and pushes so far.\<close>

definition fifo_window :: "'a fifo \<Rightarrow> nat \<Rightarrow> nat \<Rightarrow> nat \<Rightarrow> nat \<Rightarrow> bool" where
  "fifo_window f rc rn wc wn \<longleftrightarrow>
     0 < fsize f \<and> length (buffer f) = fsize f \<and>
     rc \<le> rn \<and> rn \<le> wc \<and> wc \<le> wn \<and> wn \<le> rc + fsize f \<and>
     r_cur f = ring_at (fsize f) rc \<and> r_new f = ring_at (fsize f) rn \<and>
     w_cur f = ring_at (fsize f) wc \<and> w_new f = ring_at (fsize f) wn"

lemma fifo_inv_window: "fifo_inv f \<longleftrightarrow> (\<exists>rc rn wc wn. fifo_window f rc rn wc wn)"
proof
  assume inv: "fifo_inv f"
  let ?d = "ring_dist (fsize f) (r_cur f)" and ?p = "ring_pos (fsize f) (r_cur f)"
  have "fifo_window f ?p (?p + ?d (r_new f)) (?p + ?d (w_cur f)) (?p + ?d (w_new f))"
    using inv by (simp add: fifo_inv_def fifo_window_def ring_at_dist ring_at_pos)
  then show "\<exists>rc rn wc wn. fifo_window f rc rn wc wn" by blast
next
  assume "\<exists>rc rn wc wn. fifo_window f rc rn wc wn"
  then obtain rc rn wc wn where w: "fifo_window f rc rn wc wn" by blast
  have less: "fst (ring_at (fsize f) c) < fsize f" for c
    using w by (simp add: fifo_window_def ring_at_def)
  show "fifo_inv f"
    using w unfolding fifo_window_def by (auto simp: fifo_inv_def ring_dist_at less)
qed

lemma fifo_windowE:
  assumes "fifo_inv f"
  obtains rc rn wc wn where "fifo_window f rc rn wc wn"
  using assms fifo_inv_window by blast

lemma window_inv: "fifo_window f rc rn wc wn \<Longrightarrow> fifo_inv f"
  using fifo_inv_window by blast

lemma ptr_eq_ring:
  "(a = fst x \<and> b = snd x) = ((a, b) = x)"
  by (cases x) auto

subsection \<open>The tests and the counts are exact\<close>

lemma window_flags:
  assumes "fifo_window f rc rn wc wn"
  shows "producer_is_full f \<longleftrightarrow> wn = rc + fsize f"
    and "producer_is_empty f \<longleftrightarrow> wn = rc"
    and "customer_is_full f \<longleftrightarrow> wc = rn + fsize f"
    and "customer_is_empty f \<longleftrightarrow> wc = rn"
    and "new_is_full f \<longleftrightarrow> wn = rn + fsize f"
    and "new_is_empty f \<longleftrightarrow> wn = rn"
proof -
  note w = assms[unfolded fifo_window_def]
  have pos: "0 < fsize f" using w by simp
  have eq: "a \<le> b \<Longrightarrow> b \<le> a + fsize f \<Longrightarrow> ring_at (fsize f) b = ring_at (fsize f) a \<longleftrightarrow> b = a" for a b
    using ring_at_eq_near[OF pos, of a b] by metis
  have full: "a \<le> b \<Longrightarrow> b \<le> a + fsize f \<Longrightarrow>
      fst (ring_at (fsize f) b) = fst (ring_at (fsize f) a) \<and>
      snd (ring_at (fsize f) b) \<noteq> snd (ring_at (fsize f) a) \<longleftrightarrow> b = a + fsize f" for a b
    using ring_full_near[OF pos, of a b] by metis
  have e: "producer_is_empty f \<longleftrightarrow> w_new f = r_cur f" "customer_is_empty f \<longleftrightarrow> w_cur f = r_new f"
      "new_is_empty f \<longleftrightarrow> w_new f = r_new f"
    by (auto simp: producer_is_empty_def customer_is_empty_def new_is_empty_def pos_defs)
  have fl: "producer_is_full f \<longleftrightarrow> fst (w_new f) = fst (r_cur f) \<and> snd (w_new f) \<noteq> snd (r_cur f)"
      "customer_is_full f \<longleftrightarrow> fst (w_cur f) = fst (r_new f) \<and> snd (w_cur f) \<noteq> snd (r_new f)"
      "new_is_full f \<longleftrightarrow> fst (w_new f) = fst (r_new f) \<and> snd (w_new f) \<noteq> snd (r_new f)"
    by (auto simp: producer_is_full_def customer_is_full_def new_is_full_def pos_defs)
  show "producer_is_full f \<longleftrightarrow> wn = rc + fsize f" using w full[of rc wn] fl by simp
  show "producer_is_empty f \<longleftrightarrow> wn = rc" using w eq[of rc wn] e by simp
  show "customer_is_full f \<longleftrightarrow> wc = rn + fsize f" using w full[of rn wc] fl by simp
  show "customer_is_empty f \<longleftrightarrow> wc = rn" using w eq[of rn wc] e by simp
  show "new_is_full f \<longleftrightarrow> wn = rn + fsize f" using w full[of rn wn] fl by simp
  show "new_is_empty f \<longleftrightarrow> wn = rn" using w eq[of rn wn] e by simp
qed

lemma mod_sub_near:
  fixes a b s :: nat
  assumes "0 < s" and "a \<le> b" and "b < a + s"
  shows "(b mod s + s - a mod s) mod s = b - a"
proof -
  have "b - a < s" using assms(2,3) by arith
  then show ?thesis using mod_diff_nat[OF assms(1,2)] by simp
qed

lemma window_used:
  assumes "fifo_window f rc rn wc wn"
  shows "producer_get_used_space f = wn - rc"
    and "customer_get_used_space f = wc - rn"
    and "new_get_used_space f = wn - rn"
proof -
  note w = assms[unfolded fifo_window_def]
  have p: "dff_get_new (wptr f) = wn mod fsize f" "dff_get (wptr f) = wc mod fsize f"
      "dff_get_new (rptr f) = rn mod fsize f" "dff_get (rptr f) = rc mod fsize f"
    using w by (simp_all add: pos_defs ring_at_def)
  show "producer_get_used_space f = wn - rc"
    using w mod_sub_near[of "fsize f" rc wn]
    by (simp add: producer_get_used_space_def window_flags[OF assms] p)
  show "customer_get_used_space f = wc - rn"
    using w mod_sub_near[of "fsize f" rn wc]
    by (simp add: customer_get_used_space_def window_flags[OF assms] p)
  show "new_get_used_space f = wn - rn"
    using w mod_sub_near[of "fsize f" rn wn]
    by (simp add: new_get_used_space_def window_flags[OF assms] p)
qed

lemma window_lists:
  assumes "fifo_window f rc rn wc wn"
  shows "fifo_start f = map (\<lambda>c. dff_get (buffer f ! (c mod fsize f))) [rc..<wc]"
    and "fifo_avail f = map (\<lambda>c. dff_get (buffer f ! (c mod fsize f))) [rn..<wc]"
    and "fifo_next f = map (\<lambda>c. dff_get_new (buffer f ! (c mod fsize f))) [rn..<wn]"
proof -
  note w = assms[unfolded fifo_window_def]
  have slots: "ring_slots (fsize f) (a mod fsize f) (b - a) = map (\<lambda>c. c mod fsize f) [a..<b]" for a b
    by (rule nth_equalityI) (auto simp: mod_add_left_eq)
  have d: "a \<le> b \<Longrightarrow> b \<le> a + fsize f \<Longrightarrow>
      ring_dist (fsize f) (ring_at (fsize f) a) (ring_at (fsize f) b) = b - a" for a b
    using w ring_dist_at[of "fsize f" a b] by simp
  show "fifo_start f = map (\<lambda>c. dff_get (buffer f ! (c mod fsize f))) [rc..<wc]"
    using w d[of rc wc] slots[of rc wc] by (simp add: fifo_start_def ring_at_def)
  show "fifo_avail f = map (\<lambda>c. dff_get (buffer f ! (c mod fsize f))) [rn..<wc]"
    using w d[of rn wc] slots[of rn wc] by (simp add: fifo_avail_def ring_at_def)
  show "fifo_next f = map (\<lambda>c. dff_get_new (buffer f ! (c mod fsize f))) [rn..<wn]"
    using w d[of rn wn] slots[of rn wn] by (simp add: fifo_next_def ring_at_def)
qed

subsection \<open>What each operation does to the window\<close>

lemma window_advance_wptr:
  assumes "fifo_window f rc rn wc wn" and "wn < rc + fsize f"
  shows "fifo_window (fifo_advance_wptr (fifo_write_slot i x f)) rc rn wc (Suc wn)"
  using assms ring_at_Suc[of "fsize f" wn]
  by (auto simp: fifo_window_def fifo_advance_wptr_def fifo_write_slot_def pos_defs ring_at_def)

lemma window_advance_rptr:
  assumes "fifo_window f rc rn wc wn" and "rn < wc"
  shows "fifo_window (fifo_advance_rptr f) rc (Suc rn) wc wn"
  using assms ring_at_Suc[of "fsize f" rn]
  by (auto simp: fifo_window_def fifo_advance_rptr_def pos_defs ring_at_def)

lemma window_sync:
  assumes "fifo_window f rc rn wc wn"
  shows "fifo_window (fifo_sync f) rn rn wn wn"
  using assms by (auto simp: fifo_window_def fifo_sync_def pos_defs)

lemma window_write_slot:
  assumes "fifo_window f rc rn wc wn"
  shows "fifo_window (fifo_write_slot i x f) rc rn wc wn"
  using assms by (auto simp: fifo_window_def fifo_write_slot_def pos_defs)

lemma window_update_wptr:
  assumes "fifo_window f rc rn wc wn" and "wc \<le> c" and "c \<le> rc + fsize f"
  shows "fifo_window (update_wptr (c mod fsize f) (odd (c div fsize f)) f) rc rn wc c"
  using assms by (auto simp: fifo_window_def update_wptr_def pos_defs ring_at_def)

lemma advance_wptr_buffer [simp]:
  "buffer (fifo_advance_wptr f) = buffer f" "fsize (fifo_advance_wptr f) = fsize f"
  by (auto simp: fifo_advance_wptr_def)

lemma advance_rptr_buffer [simp]:
  "buffer (fifo_advance_rptr f) = buffer f" "fsize (fifo_advance_rptr f) = fsize f"
  by (auto simp: fifo_advance_rptr_def)

lemma write_slot_buffer [simp]:
  "buffer (fifo_write_slot i x f) = (buffer f)[i := dff_set x (buffer f ! i)]"
  "fsize (fifo_write_slot i x f) = fsize f"
  by (auto simp: fifo_write_slot_def)

lemma sync_buffer [simp]:
  "buffer (fifo_sync f) = map dff_sync (buffer f)" "fsize (fifo_sync f) = fsize f"
  by (auto simp: fifo_sync_def)

lemma write_slot_get: "dff_get ((buffer f)[i := dff_set x (buffer f ! i)] ! j) = dff_get (buffer f ! j)"
  by (cases "i < length (buffer f)"; cases "i = j") (simp_all add: list_update_beyond)

lemma slot_other:
  assumes "fifo_window f rc rn wc wn" and "rc \<le> c" and "c < d" and "d < rc + fsize f"
  shows "c mod fsize f \<noteq> d mod fsize f"
proof
  assume "c mod fsize f = d mod fsize f"
  then have "c = d"
    using assms by (intro mod_eq_near[of "fsize f" c d]) (auto simp: fifo_window_def)
  then show False using assms(3) by simp
qed

subsection \<open>Push and pop on the abstract view\<close>

lemma fifo_push_window:
  assumes w: "fifo_window f rc rn wc wn"
  shows "fifo_push x f =
    (if wn = rc + fsize f then (False, f)
     else (True, fifo_advance_wptr (fifo_write_slot (wn mod fsize f) x f)))"
proof -
  have "dff_get_new (wptr f) = wn mod fsize f"
    using w by (simp add: fifo_window_def pos_defs ring_at_def)
  then show ?thesis by (simp add: fifo_push_def window_flags[OF w])
qed

lemma fifo_pop_window:
  assumes w: "fifo_window f rc rn wc wn"
  shows "fifo_pop f =
    (if wc = rn then (None, f)
     else (Some (dff_get (buffer f ! (rn mod fsize f))), fifo_advance_rptr f))"
proof -
  have "dff_get_new (rptr f) = rn mod fsize f"
    using w by (simp add: fifo_window_def pos_defs ring_at_def)
  then show ?thesis by (simp add: fifo_pop_def window_flags[OF w])
qed

lemma window_push_lists:
  fixes x :: 'a
  assumes w: "fifo_window f rc rn wc wn" and room: "wn < rc + fsize f"
  defines "f' \<equiv> fifo_advance_wptr (fifo_write_slot (wn mod fsize f) x f)"
  shows "fifo_avail f' = fifo_avail f" and "fifo_start f' = fifo_start f"
    and "fifo_next f' = fifo_next f @ [x]"
proof -
  have w': "fifo_window f' rc rn wc (Suc wn)"
    unfolding f'_def by (rule window_advance_wptr[OF w room])
  have len: "wn mod fsize f < length (buffer f)" "rn \<le> wn"
    using w by (auto simp: fifo_window_def)
  show "fifo_avail f' = fifo_avail f" "fifo_start f' = fifo_start f"
    by (simp_all add: window_lists[OF w] window_lists[OF w'], simp_all add: f'_def write_slot_get)
  have "dff_get_new (buffer f' ! (c mod fsize f)) = dff_get_new (buffer f ! (c mod fsize f))"
    if "c \<in> set [rn..<wn]" for c
  proof -
    have "wn mod fsize f \<noteq> c mod fsize f"
      using slot_other[OF w, of c wn] w room that by (auto simp: fifo_window_def)
    then show ?thesis by (simp add: f'_def)
  qed
  then have "map (\<lambda>c. dff_get_new (buffer f' ! (c mod fsize f))) [rn..<wn]
      = map (\<lambda>c. dff_get_new (buffer f ! (c mod fsize f))) [rn..<wn]"
    by (intro map_cong) auto
  moreover have "dff_get_new (buffer f' ! (wn mod fsize f)) = x"
    using len by (simp add: f'_def)
  moreover have "fsize f' = fsize f" by (simp add: f'_def)
  ultimately show "fifo_next f' = fifo_next f @ [x]"
    using len by (simp add: window_lists[OF w] window_lists[OF w'])
qed

lemma window_pop_lists:
  assumes w: "fifo_window f rc rn wc wn" and ne: "rn < wc"
  shows "fifo_avail f = dff_get (buffer f ! (rn mod fsize f)) # fifo_avail (fifo_advance_rptr f)"
    and "fifo_next (fifo_advance_rptr f) = tl (fifo_next f)"
    and "fifo_start (fifo_advance_rptr f) = fifo_start f"
proof -
  note w' = window_advance_rptr[OF w ne]
  have le: "rn < wn" using w ne by (auto simp: fifo_window_def)
  show "fifo_avail f = dff_get (buffer f ! (rn mod fsize f)) # fifo_avail (fifo_advance_rptr f)"
    "fifo_start (fifo_advance_rptr f) = fifo_start f"
    "fifo_next (fifo_advance_rptr f) = tl (fifo_next f)"
    using ne le by (simp_all add: window_lists[OF w] window_lists[OF w'] upt_conv_Cons)
qed

lemma fifo_push_abs:
  assumes "fifo_inv f" and "fifo_push x f = (ok, f')"
  shows "ok \<longleftrightarrow> producer_get_used_space f < fsize f"
    and "fifo_inv f'" and "fsize f' = fsize f"
    and "fifo_avail f' = fifo_avail f" and "fifo_start f' = fifo_start f"
    and "fifo_next f' = (if ok then fifo_next f @ [x] else fifo_next f)"
    and "producer_get_used_space f' = producer_get_used_space f + (if ok then 1 else 0)"
proof -
  obtain rc rn wc wn where w: "fifo_window f rc rn wc wn" using assms(1) by (rule fifo_windowE)
  have le: "wn \<le> rc + fsize f" "rc \<le> wn" using w by (auto simp: fifo_window_def)
  note eq = assms(2)[unfolded fifo_push_window[OF w]]
  show ok: "ok \<longleftrightarrow> producer_get_used_space f < fsize f"
    using eq le by (auto simp: window_used[OF w] split: if_splits)
  have "fifo_inv f' \<and> fsize f' = fsize f \<and> fifo_avail f' = fifo_avail f \<and>
      fifo_start f' = fifo_start f \<and>
      fifo_next f' = (if ok then fifo_next f @ [x] else fifo_next f) \<and>
      producer_get_used_space f' = producer_get_used_space f + (if ok then 1 else 0)"
  proof (cases "wn < rc + fsize f")
    case True
    with eq have f': "ok" "f' = fifo_advance_wptr (fifo_write_slot (wn mod fsize f) x f)"
      by (auto split: if_splits)
    have w': "fifo_window f' rc rn wc (Suc wn)"
      unfolding f' by (rule window_advance_wptr[OF w True])
    have "producer_get_used_space f' = producer_get_used_space f + 1"
      using le by (simp add: window_used[OF w] window_used[OF w'] Suc_diff_le)
    then show ?thesis
      using f' window_inv[OF w'] window_push_lists[OF w True, of x] by simp
  next
    case False
    then show ?thesis using eq le assms(1) by (auto split: if_splits)
  qed
  then show "fifo_inv f'" "fsize f' = fsize f"
    "fifo_avail f' = fifo_avail f" "fifo_start f' = fifo_start f"
    "fifo_next f' = (if ok then fifo_next f @ [x] else fifo_next f)"
    "producer_get_used_space f' = producer_get_used_space f + (if ok then 1 else 0)"
    by blast+
qed

lemma fifo_pop_abs:
  assumes "fifo_inv f" and "fifo_pop f = (r, f')"
  shows "r = (case fifo_avail f of [] \<Rightarrow> None | x # xs \<Rightarrow> Some x)"
    and "fifo_inv f'" and "fsize f' = fsize f"
    and "fifo_avail f' = tl (fifo_avail f)" and "fifo_start f' = fifo_start f"
    and "fifo_next f' = (if fifo_avail f = [] then fifo_next f else tl (fifo_next f))"
    and "producer_get_used_space f' = producer_get_used_space f"
proof -
  obtain rc rn wc wn where w: "fifo_window f rc rn wc wn" using assms(1) by (rule fifo_windowE)
  note eq = assms(2)[unfolded fifo_pop_window[OF w]]
  have "r = (case fifo_avail f of [] \<Rightarrow> None | x # xs \<Rightarrow> Some x) \<and> fifo_inv f' \<and>
      fsize f' = fsize f \<and> fifo_avail f' = tl (fifo_avail f) \<and> fifo_start f' = fifo_start f \<and>
      fifo_next f' = (if fifo_avail f = [] then fifo_next f else tl (fifo_next f)) \<and>
      producer_get_used_space f' = producer_get_used_space f"
  proof (cases "rn < wc")
    case True
    with eq have f': "r = Some (dff_get (buffer f ! (rn mod fsize f)))" "f' = fifo_advance_rptr f"
      by (auto split: if_splits)
    note w' = window_advance_rptr[OF w True]
    show ?thesis
      unfolding f' using window_inv[OF w'] window_pop_lists[OF w True]
      by (simp add: window_used[OF w] window_used[OF w'])
  next
    case False
    then have "wc = rn" using w by (simp add: fifo_window_def)
    moreover from this have "fifo_avail f = []" by (simp add: window_lists[OF w])
    ultimately show ?thesis using eq assms(1) by auto
  qed
  then show "r = (case fifo_avail f of [] \<Rightarrow> None | x # xs \<Rightarrow> Some x)"
    "fifo_inv f'" "fsize f' = fsize f" "fifo_avail f' = tl (fifo_avail f)"
    "fifo_start f' = fifo_start f"
    "fifo_next f' = (if fifo_avail f = [] then fifo_next f else tl (fifo_next f))"
    "producer_get_used_space f' = producer_get_used_space f"
    by blast+
qed

lemma fifo_sync_abs:
  assumes "fifo_inv f"
  shows "fifo_inv (fifo_sync f)" and "fsize (fifo_sync f) = fsize f"
    and "fifo_start (fifo_sync f) = fifo_next f"
    and "fifo_avail (fifo_sync f) = fifo_next f" and "fifo_next (fifo_sync f) = fifo_next f"
proof -
  obtain rc rn wc wn where w: "fifo_window f rc rn wc wn" using assms(1) by (rule fifo_windowE)
  note w' = window_sync[OF w]
  have len: "c mod fsize f < length (buffer f)" for c using w by (simp add: fifo_window_def)
  show "fifo_inv (fifo_sync f)" by (rule window_inv[OF w'])
  show "fsize (fifo_sync f) = fsize f" by simp
  show "fifo_start (fifo_sync f) = fifo_next f" "fifo_avail (fifo_sync f) = fifo_next f"
    "fifo_next (fifo_sync f) = fifo_next f"
    by (simp_all add: window_lists[OF w] window_lists[OF w'] len)
qed

lemma fifo_flush_abs:
  assumes "fifo_inv f"
  shows "fifo_inv (fifo_sync (fifo_flush f))" and "fifo_avail (fifo_sync (fifo_flush f)) = []"
    and "fifo_next (fifo_sync (fifo_flush f)) = []"
proof -
  have w: "fifo_window (fifo_sync (fifo_flush f)) 0 0 0 0"
    using assms by (simp add: fifo_window_def fifo_inv_def fifo_flush_def fifo_reset_def
        fifo_sync_def pos_defs ring_at_def)
  show "fifo_inv (fifo_sync (fifo_flush f))" by (rule window_inv[OF w])
  show "fifo_avail (fifo_sync (fifo_flush f)) = []" "fifo_next (fifo_sync (fifo_flush f)) = []"
    by (simp_all add: window_lists[OF w])
qed

lemma fifo_make_window: "0 < n \<Longrightarrow> fifo_window (fifo_make n v) 0 0 0 0"
  by (simp add: fifo_window_def fifo_make_def fifo_reset_def pos_defs ring_at_def)

lemma fifo_make_abs [simp]:
  "0 < n \<Longrightarrow> fifo_inv (fifo_make n v)" "0 < n \<Longrightarrow> fifo_avail (fifo_make n v) = []"
  "0 < n \<Longrightarrow> fifo_next (fifo_make n v) = []" "fsize (fifo_make n v) = n"
  using fifo_make_window[of n v]
  by (auto intro: window_inv simp: window_lists) (simp add: fifo_make_def fifo_reset_def)

subsection \<open>The queue as an interface\<close>

text \<open>
  A clocked queue: pushes of a cycle become available at the clock edge, pops of a cycle
  are taken out at the clock edge. The client lemma needs only these laws: over any
  sequence of pushes, pops and clock edges, what comes out and what is left are what was
  there and what was accepted, in this order.
\<close>

datatype 'a queue_op = Push 'a | Pop | Clock

fun queue_run :: "('a \<Rightarrow> 'q \<Rightarrow> bool \<times> 'q) \<Rightarrow> ('q \<Rightarrow> 'a option \<times> 'q) \<Rightarrow> ('q \<Rightarrow> 'q) \<Rightarrow>
    'a queue_op list \<Rightarrow> 'q \<Rightarrow> 'a list \<times> 'a list \<times> 'q" where
  "queue_run push pop clock [] q = ([], [], q)"
| "queue_run push pop clock (Push x # ops) q =
     (case push x q of (ok, q') \<Rightarrow>
       case queue_run push pop clock ops q' of (ins, outs, q'') \<Rightarrow>
         (if ok then x # ins else ins, outs, q''))"
| "queue_run push pop clock (Pop # ops) q =
     (case pop q of (r, q') \<Rightarrow>
       case queue_run push pop clock ops q' of (ins, outs, q'') \<Rightarrow>
         (ins, (case r of None \<Rightarrow> outs | Some x \<Rightarrow> x # outs), q''))"
| "queue_run push pop clock (Clock # ops) q = queue_run push pop clock ops (clock q)"

locale clocked_queue =
  fixes inv :: "'q \<Rightarrow> bool"
    and avail :: "'q \<Rightarrow> 'a list"
    and held :: "'q \<Rightarrow> 'a list"
    and push :: "'a \<Rightarrow> 'q \<Rightarrow> bool \<times> 'q"
    and pop :: "'q \<Rightarrow> 'a option \<times> 'q"
    and clock :: "'q \<Rightarrow> 'q"
  assumes avail_held: "inv q \<Longrightarrow> take (length (avail q)) (held q) = avail q"
    and push_law: "inv q \<Longrightarrow> push x q = (ok, q') \<Longrightarrow>
      inv q' \<and> avail q' = avail q \<and> held q' = (if ok then held q @ [x] else held q)"
    and pop_law: "inv q \<Longrightarrow> pop q = (r, q') \<Longrightarrow>
      inv q' \<and> avail q' = tl (avail q) \<and>
      (case avail q of [] \<Rightarrow> r = None \<and> held q' = held q
                     | x # xs \<Rightarrow> r = Some x \<and> held q' = tl (held q))"
    and clock_law: "inv q \<Longrightarrow> inv (clock q) \<and> avail (clock q) = held q \<and> held (clock q) = held q"
begin

lemma run_inv:
  "inv q \<Longrightarrow> queue_run push pop clock ops q = (ins, outs, q') \<Longrightarrow> inv q'"
proof (induction ops arbitrary: q ins outs)
  case (Cons a ops)
  then show ?case
    by (cases a) (auto split: prod.splits dest: push_law pop_law clock_law)
qed simp

lemma pop_held:
  assumes "inv q" and "pop q = (r, q')"
  shows "held q = (case r of None \<Rightarrow> [] | Some x \<Rightarrow> [x]) @ held q'"
proof (cases "avail q")
  case Nil
  then show ?thesis using pop_law[OF assms] by simp
next
  case (Cons x xs)
  with avail_held[OF assms(1)] have "held q = x # tl (held q)"
    by (cases "held q") auto
  then show ?thesis using pop_law[OF assms] Cons by simp
qed

lemma run_order:
  "inv q \<Longrightarrow> queue_run push pop clock ops q = (ins, outs, q') \<Longrightarrow> held q @ ins = outs @ held q'"
proof (induction ops arbitrary: q ins outs)
  case (Cons a ops)
  show ?case
  proof (cases a)
    case (Push x)
    with Cons.prems(2) obtain ok q1 ins1 where p: "push x q = (ok, q1)"
      and r: "queue_run push pop clock ops q1 = (ins1, outs, q')"
      and i: "ins = (if ok then x # ins1 else ins1)"
      by (auto split: prod.splits)
    have "held q1 @ ins1 = outs @ held q'"
      using Cons.IH[OF _ r] push_law[OF Cons.prems(1) p] by simp
    then show ?thesis using push_law[OF Cons.prems(1) p] i by (auto split: if_splits)
  next
    case Pop
    with Cons.prems(2) obtain r1 q1 outs1 where p: "pop q = (r1, q1)"
      and r: "queue_run push pop clock ops q1 = (ins, outs1, q')"
      and o: "outs = (case r1 of None \<Rightarrow> outs1 | Some x \<Rightarrow> x # outs1)"
      by (auto split: prod.splits)
    have "held q1 @ ins = outs1 @ held q'"
      using Cons.IH[OF _ r] pop_law[OF Cons.prems(1) p] by simp
    then show ?thesis using pop_held[OF Cons.prems(1) p] o by (auto split: option.splits)
  next
    case Clock
    then show ?thesis
      using Cons.IH[of "clock q" ins outs] Cons.prems clock_law[OF Cons.prems(1)] by simp
  qed
qed simp

end

text \<open>
  The queue of the source satisfies the laws as long as no slot that is still to be
  popped is overwritten by \<^verbatim>\<open>set_item\<close> in this cycle.
\<close>

definition fifo_settled :: "'a fifo \<Rightarrow> bool" where
  "fifo_settled f \<longleftrightarrow> fifo_inv f \<and> take (length (fifo_avail f)) (fifo_next f) = fifo_avail f"

lemma take_length_le: "take (length xs) ys = xs \<Longrightarrow> length xs \<le> length ys"
  by (metis length_take min.absorb_iff1 min.commute)

lemma take_length_tl: "take (length xs) ys = xs \<Longrightarrow> take (length (tl xs)) (tl ys) = tl xs"
  by (cases xs; cases ys) auto

interpretation fq: clocked_queue fifo_settled fifo_avail fifo_next fifo_push fifo_pop fifo_sync
proof
  fix q :: "'a fifo"
  assume s: "fifo_settled q"
  then have inv: "fifo_inv q" and pre: "take (length (fifo_avail q)) (fifo_next q) = fifo_avail q"
    by (simp_all add: fifo_settled_def)
  show "take (length (fifo_avail q)) (fifo_next q) = fifo_avail q" by (fact pre)
  show "fifo_settled (fifo_sync q) \<and> fifo_avail (fifo_sync q) = fifo_next q
      \<and> fifo_next (fifo_sync q) = fifo_next q"
    using fifo_sync_abs[OF inv] by (simp add: fifo_settled_def)
  show "fifo_settled q' \<and> fifo_avail q' = fifo_avail q
      \<and> fifo_next q' = (if ok then fifo_next q @ [x] else fifo_next q)"
    if "fifo_push x q = (ok, q')" for x ok q'
    using fifo_push_abs[OF inv that] take_length_le[OF pre] pre
    by (simp add: fifo_settled_def)
  show "fifo_settled q' \<and> fifo_avail q' = tl (fifo_avail q) \<and>
      (case fifo_avail q of [] \<Rightarrow> r = None \<and> fifo_next q' = fifo_next q
        | x # xs \<Rightarrow> r = Some x \<and> fifo_next q' = tl (fifo_next q))"
    if "fifo_pop q = (r, q')" for r q'
    using fifo_pop_abs[OF inv that] take_length_tl[OF pre] pre
    by (cases "fifo_avail q") (simp_all add: fifo_settled_def)
qed

subsection \<open>Slot numbers\<close>

lemma window_mem_slots:
  fixes sz a b i :: nat
  assumes "0 < sz" and "a \<le> b" and "b \<le> a + sz"
  shows "i \<in> (\<lambda>c. c mod sz) ` {a..<b} \<longleftrightarrow>
     a \<noteq> b \<and> (if odd (b div sz) = odd (a div sz) then a mod sz \<le> i \<and> i < b mod sz
      else (a mod sz \<le> i \<and> i < sz) \<or> i < b mod sz)"
proof -
  define q where "q = a div sz"
  define p where "p = a mod sz"
  have a: "a = q * sz + p" and p: "p < sz" by (simp_all add: q_def p_def assms(1))
  consider "b < (q + 1) * sz" | "(q + 1) * sz \<le> b" by linarith
  then show ?thesis
  proof cases
    case 1
    define t where "t = b - q * sz"
    have b: "b = q * sz + t" "t < sz" "p \<le> t" using 1 a assms(2) by (auto simp: t_def)
    have "i \<in> (\<lambda>c. c mod sz) ` {a..<b} \<longleftrightarrow> p \<le> i \<and> i < t"
    proof
      assume "p \<le> i \<and> i < t"
      then show "i \<in> (\<lambda>c. c mod sz) ` {a..<b}"
        using a b by (intro image_eqI[of _ _ "q * sz + i"]) auto
    next
      assume "i \<in> (\<lambda>c. c mod sz) ` {a..<b}"
      then obtain c where c: "a \<le> c" "c < b" "i = c mod sz" by auto
      then have "c - q * sz < sz" "c = q * sz + (c - q * sz)" using a b by auto
      then have "i = c - q * sz" using c(3) by (metis mod_less mod_mult_self3 add.commute)
      then show "p \<le> i \<and> i < t" using a b c by auto
    qed
    moreover have "b div sz = q" "b mod sz = t" using b by simp_all
    ultimately show ?thesis using a b p by (auto simp: q_def[symmetric])
  next
    case 2
    define t where "t = b - (q + 1) * sz"
    have b: "b = (q + 1) * sz + t" "t \<le> p" using 2 a assms(3) by (auto simp: t_def)
    have "i \<in> (\<lambda>c. c mod sz) ` {a..<b} \<longleftrightarrow> (p \<le> i \<and> i < sz) \<or> i < t"
    proof
      assume "(p \<le> i \<and> i < sz) \<or> i < t"
      then show "i \<in> (\<lambda>c. c mod sz) ` {a..<b}"
      proof
        assume "p \<le> i \<and> i < sz"
        then show ?thesis using a b by (intro image_eqI[of _ _ "q * sz + i"]) auto
      next
        assume "i < t"
        then have "i = ((q + 1) * sz + i) mod sz"
          using b p by (simp only: mod_mult_self3) simp
        then show ?thesis
          using \<open>i < t\<close> a b p by (intro image_eqI[of _ _ "(q + 1) * sz + i"]) auto
      qed
    next
      assume "i \<in> (\<lambda>c. c mod sz) ` {a..<b}"
      then obtain c where c: "a \<le> c" "c < b" "i = c mod sz" by auto
      show "(p \<le> i \<and> i < sz) \<or> i < t"
      proof (cases "c < (q + 1) * sz")
        case True
        then have "c - q * sz < sz" "c = q * sz + (c - q * sz)" using a c by auto
        then have "i = c - q * sz" using c(3) by (metis mod_less mod_mult_self3 add.commute)
        then show ?thesis using a True c by auto
      next
        case False
        then have "c - (q + 1) * sz < sz" "c = (q + 1) * sz + (c - (q + 1) * sz)"
          using b c p by auto
        then have "i = c - (q + 1) * sz" using c(3) by (metis mod_less mod_mult_self3 add.commute)
        then show ?thesis using False b c by auto
      qed
    qed
    moreover have "b div sz = q + 1" "b mod sz = t"
      unfolding b(1) using b(2) p by (simp_all only: div_mult_self3 mod_mult_self3) simp_all
    ultimately show ?thesis using a b p assms(1) by (auto simp: q_def[symmetric])
  qed
qed

lemma window_check_id:
  assumes w: "fifo_window f rc rn wc wn"
  shows "producer_check_id_valid f i \<longleftrightarrow> i \<in> (\<lambda>c. c mod fsize f) ` {rc..<wn}"
    and "customer_check_id_valid f i \<longleftrightarrow> i \<in> (\<lambda>c. c mod fsize f) ` {rn..<wc}"
proof -
  note d = w[unfolded fifo_window_def pos_defs ring_at_def]
  have m: "0 < fsize f" "rc \<le> wn" "wn \<le> rc + fsize f" "rn \<le> wc" "wc \<le> rn + fsize f"
    using d by auto
  show "producer_check_id_valid f i \<longleftrightarrow> i \<in> (\<lambda>c. c mod fsize f) ` {rc..<wn}"
    unfolding window_mem_slots[OF m(1-3)] producer_check_id_valid_def window_flags[OF w]
    using d by auto
  show "customer_check_id_valid f i \<longleftrightarrow> i \<in> (\<lambda>c. c mod fsize f) ` {rn..<wc}"
    unfolding window_mem_slots[OF m(1) m(4,5)] customer_check_id_valid_def window_flags[OF w]
    using d by auto
qed

subsection \<open>Walking over the queue\<close>

text \<open>What \<^verbatim>\<open>customer_foreach\<close> is meant to do: call the function on each item until it declines.\<close>

fun walk :: "(nat \<Rightarrow> bool \<Rightarrow> 'a \<Rightarrow> 's \<Rightarrow> bool \<times> 's) \<Rightarrow> (nat \<times> bool \<times> 'a) list \<Rightarrow> 's \<Rightarrow> 's" where
  "walk func [] s = s"
| "walk func ((i, st, v) # xs) s =
     (case func i st v s of (continue, s') \<Rightarrow> if continue then walk func xs s' else s')"

definition fifo_entry :: "'a fifo \<Rightarrow> nat \<Rightarrow> nat \<times> bool \<times> 'a" where
  "fifo_entry f c = (c mod fsize f, odd (c div fsize f), dff_get (buffer f ! (c mod fsize f)))"

definition fifo_entries :: "'a fifo \<Rightarrow> (nat \<times> bool \<times> 'a) list" where
  "fifo_entries f = map (\<lambda>i. fifo_entry f (ring_pos (fsize f) (r_cur f) + i))
     [0..<ring_dist (fsize f) (r_cur f) (w_cur f)]"

lemma foreach_loop_window:
  assumes w: "fifo_window f rc rn wc wn" and "rc \<le> c" and "c < wc"
  shows "foreach_loop f func (c mod fsize f) (odd (c div fsize f)) s
    = Some (walk func (map (fifo_entry f) [c..<wc]) s)"
  using assms(2,3)
proof (induction "wc - c" arbitrary: c s)
  case (Suc n)
  note d = w[unfolded fifo_window_def]
  obtain go s' where g: "func (c mod fsize f) (odd (c div fsize f)) (dff_get (buffer f ! (c mod fsize f))) s
      = (go, s')" by fastforce
  have nxt: "(if c mod fsize f + 1 \<ge> fsize f then 0 else c mod fsize f + 1) = Suc c mod fsize f"
    "(if c mod fsize f + 1 \<ge> fsize f then \<not> odd (c div fsize f) else odd (c div fsize f))
      = odd (Suc c div fsize f)"
    using ring_at_Suc[of "fsize f" c] d by (auto simp: ring_at_def split: if_splits)
  have stop: "Suc c mod fsize f = dff_get (wptr f) \<and> odd (Suc c div fsize f) = dff_get (wstage f)
      \<longleftrightarrow> Suc c = wc"
    using ring_at_eq_near[of "fsize f" "Suc c" wc] d Suc.prems by (auto simp: ring_at_def pos_defs)
  have list: "map (fifo_entry f) [c..<wc] = fifo_entry f c # map (fifo_entry f) [Suc c..<wc]"
    using Suc.prems by (simp add: upt_conv_Cons)
  have step: "foreach_loop f func (c mod fsize f) (odd (c div fsize f)) s =
      (if \<not> go then Some s' else if Suc c = wc then Some s'
       else foreach_loop f func (Suc c mod fsize f) (odd (Suc c div fsize f)) s')"
    by (subst foreach_loop.simps) (simp only: g nxt stop Let_def prod.case)
  have "foreach_loop f func (Suc c mod fsize f) (odd (Suc c div fsize f)) s'
      = Some (walk func (map (fifo_entry f) [Suc c..<wc]) s')" if "Suc c \<noteq> wc"
    using Suc that by (intro Suc.hyps) auto
  then show ?case
    unfolding list step by (cases "Suc c = wc") (simp_all add: fifo_entry_def g)
qed simp

lemma window_entries:
  assumes w: "fifo_window f rc rn wc wn"
  shows "fifo_entries f = map (fifo_entry f) [rc..<wc]"
proof -
  note d = w[unfolded fifo_window_def]
  have "ring_at (fsize f) (ring_pos (fsize f) (r_cur f) + i) = ring_at (fsize f) (rc + i)" for i
    using d by (simp add: ring_at_eq_iff_mod ring_pos_at mod_add_left_eq)
  then have "fifo_entry f (ring_pos (fsize f) (r_cur f) + i) = fifo_entry f (rc + i)" for i
    by (simp add: fifo_entry_def ring_at_def)
  moreover have "ring_dist (fsize f) (r_cur f) (w_cur f) = wc - rc"
    using d ring_dist_at[of "fsize f" rc wc] by simp
  ultimately show ?thesis
    by (auto simp: fifo_entries_def intro: nth_equalityI)
qed

subsection \<open>Overwriting a slot\<close>

lemma window_set_item_next:
  assumes w: "fifo_window f rc rn wc wn" and "rn \<le> c" and "c < wn"
  shows "fifo_next (fifo_write_slot (c mod fsize f) x f) = (fifo_next f)[c - rn := x]"
proof -
  note d = w[unfolded fifo_window_def]
  note w' = window_write_slot[OF w, of "c mod fsize f" x]
  have same: "(rn + j) mod fsize f = c mod fsize f \<longleftrightarrow> j = c - rn" if "j < wn - rn" for j
  proof
    assume m: "(rn + j) mod fsize f = c mod fsize f"
    show "j = c - rn"
      using mod_eq_near[of "fsize f" "rn + j" c] mod_eq_near[of "fsize f" c "rn + j"]
        d assms(2,3) that m by (cases "rn + j \<le> c") linarith+
  qed (use assms(2) in simp)
  have len: "c mod fsize f < length (buffer f)" using d by simp
  have "dff_get_new ((buffer f)[c mod fsize f := dff_set x (buffer f ! (c mod fsize f))]
        ! ((rn + j) mod fsize f))
      = (if j = c - rn then x else dff_get_new (buffer f ! ((rn + j) mod fsize f)))"
    if "j < wn - rn" for j
    using same[OF that] len by (auto simp: nth_list_update)
  then show ?thesis
    using assms(2,3)
    by (intro nth_equalityI)
      (auto simp: window_lists[OF w] window_lists[OF w'] nth_list_update intro!: diff_less_mono)
qed

subsection \<open>The tests in terms of the abstract view\<close>

lemma customer_is_empty_avail: "fifo_inv f \<Longrightarrow> customer_is_empty f \<longleftrightarrow> fifo_avail f = []"
proof (elim fifo_windowE)
  fix rc rn wc wn assume w: "fifo_window f rc rn wc wn"
  then have "rn \<le> wc" by (simp add: fifo_window_def)
  then show ?thesis by (auto simp: window_flags[OF w] window_lists[OF w])
qed

lemma producer_is_full_free: "fifo_inv f \<Longrightarrow> producer_is_full f \<longleftrightarrow> producer_get_free_space f = 0"
proof (elim fifo_windowE)
  fix rc rn wc wn assume w: "fifo_window f rc rn wc wn"
  then have "rc \<le> wn" "wn \<le> rc + fsize f" by (auto simp: fifo_window_def)
  then show ?thesis by (auto simp: window_flags[OF w] window_used[OF w] producer_get_free_space_def)
qed

lemma customer_get_front_avail:
  assumes "fifo_inv f"
  shows "customer_get_front f = (case fifo_avail f of [] \<Rightarrow> None | x # xs \<Rightarrow> Some x)"
proof -
  have "customer_get_front f = fst (fifo_pop f)"
    by (simp add: customer_get_front_def fifo_pop_def)
  then show ?thesis using fifo_pop_abs(1)[OF assms] by (metis prod.collapse)
qed

lemma push_free_space:
  assumes "fifo_inv f" and "fifo_push x f = (ok, f')"
  shows "ok \<longleftrightarrow> 0 < producer_get_free_space f"
    and "producer_get_free_space f' = producer_get_free_space f - (if ok then 1 else 0)"
  using fifo_push_abs[OF assms] by (auto simp: producer_get_free_space_def)

subsection \<open>Properties\<close>

lemma settled_make: "0 < n \<Longrightarrow> fifo_settled (fifo_make n v)"
  by (simp add: fifo_settled_def)

lemma fifo_run_size:
  "queue_run fifo_push fifo_pop fifo_sync ops f = (ins, outs, f') \<Longrightarrow> fsize f' = fsize f"
proof (induction ops arbitrary: f ins outs)
  case (Cons a ops)
  have "fsize (snd (fifo_push x f)) = fsize f" "fsize (snd (fifo_pop f)) = fsize f"
    "fsize (fifo_sync f) = fsize f" for x
    by (simp_all add: fifo_push_def fifo_pop_def)
  then show ?case
    using Cons by (cases a) (auto split: prod.splits, (metis prod.sel(2))+)
qed simp

lemma fifo_next_length: "fifo_inv f \<Longrightarrow> length (fifo_next f) \<le> fsize f"
proof (elim fifo_windowE)
  fix rc rn wc wn assume w: "fifo_window f rc rn wc wn"
  then show ?thesis by (auto simp: window_lists[OF w]) (auto simp: fifo_window_def)
qed

text \<open>
  C23. First in, first out, over any sequence of pushes, pops and clock edges from a new queue
  of any positive size: the values popped followed by those still held are exactly the values
  the accepted pushes brought, in their order; nothing is lost, repeated or reordered
  across wrap-arounds of the pointers, and at most \<open>n\<close> values are held.
\<close>

theorem fifo_order:
  assumes "0 < n" and "queue_run fifo_push fifo_pop fifo_sync ops (fifo_make n v) = (ins, outs, f)"
  shows "ins = outs @ fifo_next f \<and> length (fifo_next f) \<le> n"
proof -
  have "fifo_settled f" using fq.run_inv[OF settled_make[OF assms(1)] assms(2)] .
  then have "length (fifo_next f) \<le> n"
    using fifo_next_length[of f] fifo_run_size[OF assms(2)] assms(1) by (simp add: fifo_settled_def)
  then show ?thesis
    using fq.run_order[OF settled_make[OF assms(1)] assms(2)] assms(1) by simp
qed

definition demo_ops :: "nat queue_op list" where
  "demo_ops = [Push 1, Push 2, Push 3, Clock, Pop, Clock, Push 4, Pop, Pop, Clock, Pop]"

theorem fifo_order_witness:
  "\<exists>f. queue_run fifo_push fifo_pop fifo_sync demo_ops (fifo_make 2 0) = ([1, 2, 4], [1, 2, 4], f)
     \<and> fifo_next f = []"
proof -
  let ?r = "queue_run fifo_push fifo_pop fifo_sync demo_ops (fifo_make 2 0)"
  have "fst ?r = [1, 2, 4]" "fst (snd ?r) = [1, 2, 4]" by code_simp+
  then have "?r = ([1, 2, 4], [1, 2, 4], snd (snd ?r))" by (metis prod.collapse)
  then show ?thesis using fifo_order[of 2 demo_ops 0 "[1, 2, 4]" "[1, 2, 4]" "snd (snd ?r)"] by auto
qed

text \<open>
  What a push and a pop do: a push is refused exactly when the queue is full as the producer
  sees it (what was popped in this cycle still counts), otherwise it appends; a pop returns the
  oldest value that was there at the last clock edge and is still unpopped. Both keep the
  invariant, and a pushed value can be popped from the next clock edge on.
\<close>

theorem fifo_push_pop_effect:
  assumes "fifo_inv f" and "fifo_push x f = (ok, f1)" and "fifo_pop f = (r, f2)"
  shows "(ok \<longleftrightarrow> producer_get_used_space f < fsize f) \<and> fifo_inv f1 \<and> fifo_inv f2
    \<and> fifo_avail f1 = fifo_avail f \<and> fifo_next f1 = fifo_next f @ (if ok then [x] else [])
    \<and> r = (if fifo_avail f = [] then None else Some (hd (fifo_avail f)))
    \<and> fifo_avail f2 = tl (fifo_avail f)
    \<and> fifo_next f2 = (if r = None then fifo_next f else tl (fifo_next f))
    \<and> fifo_avail (fifo_sync f1) = fifo_next f1 \<and> fifo_avail (fifo_sync f2) = fifo_next f2"
  using fifo_push_abs[OF assms(1,2)] fifo_pop_abs[OF assms(1,3)]
    fifo_sync_abs[of f1] fifo_sync_abs[of f2]
  by (auto split: list.splits)

text \<open>
  Producer and consumer of a queue do not see each other within a cycle: whether a push
  is accepted does not depend on a pop in the same cycle, what a pop returns does not depend on
  a push, and the state afterwards is the same in both orders. The order in which the stages of
  the pipeline are evaluated therefore does not matter to a queue between them.
\<close>

theorem fifo_push_pop_commute:
  "fst (fifo_push x (snd (fifo_pop f))) = fst (fifo_push x f)
   \<and> fst (fifo_pop (snd (fifo_push x f))) = fst (fifo_pop f)
   \<and> snd (fifo_push x (snd (fifo_pop f))) = snd (fifo_pop (snd (fifo_push x f)))"
proof -
  have e: "producer_is_full (fifo_advance_rptr f) = producer_is_full f"
    "customer_is_empty (fifo_advance_wptr (fifo_write_slot i x f)) = customer_is_empty f" for i
    by (simp_all add: producer_is_full_def customer_is_empty_def fifo_advance_rptr_def
        fifo_advance_wptr_def fifo_write_slot_def)
  have "fst (fifo_push x (snd (fifo_pop f))) = fst (fifo_push x f)"
    by (simp add: fifo_push_def fifo_pop_def e)
  moreover have "fst (fifo_pop (snd (fifo_push x f))) = fst (fifo_pop f)"
    by (simp add: fifo_push_def fifo_pop_def e write_slot_get)
      (simp add: fifo_advance_wptr_def fifo_write_slot_def write_slot_get)
  moreover have "snd (fifo_push x (snd (fifo_pop f))) = snd (fifo_pop (snd (fifo_push x f)))"
    by (simp add: fifo_push_def fifo_pop_def e)
      (simp add: fifo_advance_wptr_def fifo_advance_rptr_def fifo_write_slot_def)
  ultimately show ?thesis by simp
qed

text \<open>
  The slot tests are exact: \<^verbatim>\<open>producer_check_id_valid\<close> and \<^verbatim>\<open>customer_check_id_valid\<close>
  accept a slot number exactly when the slot holds a value between the two pointers their side
  sees, and empty, full, used and free space agree with the number of such slots.
\<close>

theorem fifo_slot_tests_exact:
  assumes "fifo_inv f"
  shows "(\<forall>i. customer_check_id_valid f i \<longleftrightarrow>
           i \<in> set (ring_slots (fsize f) (fst (r_new f)) (length (fifo_avail f))))
    \<and> (\<forall>i. producer_check_id_valid f i \<longleftrightarrow>
           i \<in> set (ring_slots (fsize f) (fst (r_cur f)) (producer_get_used_space f)))
    \<and> customer_get_used_space f = length (fifo_avail f)
    \<and> (customer_is_empty f \<longleftrightarrow> fifo_avail f = [])
    \<and> (producer_is_full f \<longleftrightarrow> producer_get_free_space f = 0)
    \<and> (producer_is_empty f \<longleftrightarrow> producer_get_used_space f = 0)
    \<and> new_get_used_space f = length (fifo_next f)"
proof -
  obtain rc rn wc wn where w: "fifo_window f rc rn wc wn" using assms by (rule fifo_windowE)
  note d = w[unfolded fifo_window_def]
  have slots: "i \<in> set (ring_slots (fsize f) (fst (ring_at (fsize f) a)) (b - a))
      \<longleftrightarrow> i \<in> (\<lambda>c. c mod fsize f) ` {a..<b}" if "a \<le> b" for a b i
  proof -
    have "set (ring_slots (fsize f) (fst (ring_at (fsize f) a)) (b - a)) =
        (\<lambda>j. (a + j) mod fsize f) ` {0..<b - a}"
      by (simp add: ring_slots_def ring_at_def mod_add_left_eq)
    also have "\<dots> = (\<lambda>c. c mod fsize f) ` ((\<lambda>j. a + j) ` {0..<b - a})" by (simp only: image_image)
    also have "(\<lambda>j. a + j) ` {0..<b - a} = {a..<b}" using that by (simp add: image_add_atLeastLessThan)
    finally show ?thesis by simp
  qed
  have lens: "length (fifo_avail f) = wc - rn" "length (fifo_next f) = wn - rn"
    by (simp_all add: window_lists[OF w])
  show ?thesis
    using d assms slots[of rn wc] slots[of rc wn]
    by (simp add: window_check_id[OF w] window_used[OF w] lens customer_is_empty_avail
        producer_is_full_free) (auto simp: window_flags[OF w])
qed

text \<open>
  C24. The walk \<^verbatim>\<open>customer_foreach\<close> always ends. Unless every value has been popped in this
  cycle, it calls its function on exactly the entries held at the start of the cycle, oldest
  first, each with its slot number and stage, until the function declines; the values it sees
  are \<open>fifo_start\<close>.
\<close>

theorem fifo_foreach_terminates:
  assumes "fifo_inv f"
  shows "customer_foreach f func s = Some (if fifo_avail f = [] then s else walk func (fifo_entries f) s)
    \<and> map (\<lambda>(i, st, v). v) (fifo_entries f) = fifo_start f"
proof -
  obtain rc rn wc wn where w: "fifo_window f rc rn wc wn" using assms(1) by (rule fifo_windowE)
  note d = w[unfolded fifo_window_def]
  have start: "dff_get (rptr f) = rc mod fsize f" "dff_get (rstage f) = odd (rc div fsize f)"
    using d by (simp_all add: pos_defs ring_at_def)
  have "customer_foreach f func s = Some (if fifo_avail f = [] then s else walk func (fifo_entries f) s)"
  proof (cases "wc = rn")
    case True
    then show ?thesis by (simp add: customer_foreach_def window_flags[OF w] window_lists[OF w])
  next
    case False
    then have "rc < wc" using d by simp
    then show ?thesis
      using foreach_loop_window[OF w order_refl, of func s] False d
      by (simp add: customer_foreach_def start window_flags[OF w] window_lists[OF w] window_entries[OF w])
  qed
  moreover have "map (\<lambda>(i, st, v). v) (fifo_entries f) = fifo_start f"
    by (simp add: window_entries[OF w] window_lists[OF w] fifo_entry_def comp_def)
  ultimately show ?thesis by simp
qed

theorem fifo_foreach_terminates_witness:
  "customer_foreach (fifo_sync (snd (fifo_push 7 (fifo_make 2 (0 :: nat)))))
     (\<lambda>i st v s. (True, s + v)) 1 = Some 8"
proof -
  let ?f = "fifo_sync (snd (fifo_push 7 (fifo_make 2 (0 :: nat))))"
  have "fifo_inv (snd (fifo_push 7 (fifo_make 2 (0 :: nat))))"
    using fifo_push_abs(2)[of "fifo_make 2 0" 7] by (metis fifo_make_abs(1) prod.collapse zero_less_numeral)
  then have "fifo_inv ?f" by (rule fifo_sync_abs(1))
  moreover have "fifo_avail ?f = [7]" "fifo_entries ?f = [(0, False, 7)]" by code_simp+
  ultimately show ?thesis
    using fifo_foreach_terminates[of ?f "\<lambda>i st v s. (True, s + v)" 1] by simp
qed

end
