(* ===== verification/Cycle_Decode.thy ===== *)
theory Cycle_Decode
  imports Fifo Riscv_Spec
begin

text \<open>
  \<^verbatim>\<open>cycle_model/pipeline/decode.cpp\<close>: the decode stage of the cycle model. It takes up
  to \<^verbatim>\<open>DECODE_WIDTH\<close> instructions a cycle from \<^verbatim>\<open>fetch2_decode_fifo\<close>, turns each
  into a micro-operation and pushes it into \<^verbatim>\<open>decode_rename_fifo\<close>. The record of the
  branch predictor is carried along unread and is the type parameter \<open>'b\<close>.

  The last part shows that its instruction decoder is the one of the ISA model, apart from
  the split of the load/store unit and the unit of instructions that are not valid, and
  that the stage moves a prefix of the fetched instructions, in order and none twice.
\<close>

datatype cycle_unit_t =
    Cunit_alu | Cunit_bru | Cunit_csr | Cunit_div | Cunit_mul | Cunit_lu | Cunit_sau | Cunit_sdu

datatype cycle_sub_op_t =
    Csub_alu alu_op_t | Csub_bru bru_op_t | Csub_csr csr_op_t | Csub_div div_op_t
  | Csub_mul mul_op_t | Csub_lu lu_op_t | Csub_sau sau_op_t | Csub_sdu sdu_op_t

record inst_common_info_t =
  inst_id :: u64

record 'b fetch2_decode_pack_t =
  f_inst_common_info :: inst_common_info_t
  f_enable :: bool
  f_pc :: u32
  f_value :: u32
  f_has_exception :: bool
  f_exception_id :: riscv_exception_t
  f_exception_value :: u32
  f_branch_predictor_info_pack :: 'b

record 'b decode_rename_pack_t =
  d_inst_common_info :: inst_common_info_t
  d_enable :: bool
  d_value :: u32
  d_valid :: bool
  d_last_uop :: bool
  d_pc :: u32
  d_imm :: u32
  d_has_exception :: bool
  d_exception_id :: riscv_exception_t
  d_exception_value :: u32
  d_branch_predictor_info_pack :: 'b
  d_rs1 :: u32
  d_arg1_src :: arg_src_t
  d_rs1_need_map :: bool
  d_rs2 :: u32
  d_arg2_src :: arg_src_t
  d_rs2_need_map :: bool
  d_rd :: u32
  d_rd_enable :: bool
  d_need_rename :: bool
  d_csr :: u32
  d_op :: op_t
  d_op_unit :: cycle_unit_t
  d_sub_op :: cycle_sub_op_t

definition MAX_UOP_NUM :: nat where "MAX_UOP_NUM = 2"

subsection \<open>The fields before the opcode is looked at\<close>

text \<open>A default-constructed pack, then the assignments at the head of the loop body.\<close>

definition decode_rename_pack_make :: "'b \<Rightarrow> 'b decode_rename_pack_t" where
  "decode_rename_pack_make bp =
     \<lparr>d_inst_common_info = \<lparr>inst_id = 0\<rparr>, d_enable = False, d_value = 0, d_valid = False,
      d_last_uop = False, d_pc = 0, d_imm = 0, d_has_exception = False,
      d_exception_id = instruction_address_misaligned, d_exception_value = 0,
      d_branch_predictor_info_pack = bp, d_rs1 = 0, d_arg1_src = Arg_reg, d_rs1_need_map = False,
      d_rs2 = 0, d_arg2_src = Arg_reg, d_rs2_need_map = False, d_rd = 0, d_rd_enable = False,
      d_need_rename = False, d_csr = 0, d_op = Op_add, d_op_unit = Cunit_alu,
      d_sub_op = Csub_alu Alu_add\<rparr>"

definition decode_init :: "'b fetch2_decode_pack_t \<Rightarrow> 'b decode_rename_pack_t \<Rightarrow> 'b decode_rename_pack_t" where
  "decode_init rev_pack s =
     s\<lparr>d_enable := False, d_value := 0, d_valid := \<not> f_has_exception rev_pack, d_last_uop := False,
       d_pc := f_pc rev_pack, d_imm := 0, d_has_exception := False,
       d_exception_id := instruction_address_misaligned, d_exception_value := 0,
       d_branch_predictor_info_pack := f_branch_predictor_info_pack rev_pack,
       d_rs1 := 0, d_arg1_src := Arg_reg, d_rs1_need_map := False, d_rs2 := 0, d_rs2_need_map := False,
       d_rd := 0, d_rd_enable := False, d_need_rename := False, d_csr := 0,
       d_op := Op_add, d_op_unit := Cunit_alu, d_sub_op := Csub_alu Alu_add\<rparr>"

subsection \<open>One definition per opcode\<close>

definition decode_lui :: "u32 \<Rightarrow> 'b decode_rename_pack_t \<Rightarrow> 'b decode_rename_pack_t" where
  "decode_lui w s =
     s\<lparr>d_op := Op_lui, d_op_unit := Cunit_alu, d_sub_op := Csub_alu Alu_lui,
       d_arg1_src := Arg_disable, d_arg2_src := Arg_disable, d_imm := imm_u_of w,
       d_rd := rd_of w, d_rd_enable := True\<rparr>"

definition decode_auipc :: "u32 \<Rightarrow> 'b decode_rename_pack_t \<Rightarrow> 'b decode_rename_pack_t" where
  "decode_auipc w s =
     s\<lparr>d_op := Op_auipc, d_op_unit := Cunit_alu, d_sub_op := Csub_alu Alu_auipc,
       d_arg1_src := Arg_disable, d_arg2_src := Arg_disable, d_imm := imm_u_of w,
       d_rd := rd_of w, d_rd_enable := True\<rparr>"

definition decode_jal :: "u32 \<Rightarrow> 'b decode_rename_pack_t \<Rightarrow> 'b decode_rename_pack_t option" where
  "decode_jal w s =
     do {
       imm \<leftarrow> sign_extend (imm_j_of w) 21;
       Some (s\<lparr>d_op := Op_jal, d_op_unit := Cunit_bru, d_sub_op := Csub_bru Bru_jal,
         d_arg1_src := Arg_disable, d_arg2_src := Arg_disable, d_imm := imm,
         d_rd := rd_of w, d_rd_enable := True\<rparr>)
     }"

definition decode_jalr :: "u32 \<Rightarrow> 'b decode_rename_pack_t \<Rightarrow> 'b decode_rename_pack_t option" where
  "decode_jalr w s =
     do {
       imm \<leftarrow> sign_extend (imm_i_of w) 12;
       Some (s\<lparr>d_op := Op_jalr, d_op_unit := Cunit_bru, d_sub_op := Csub_bru Bru_jalr,
         d_arg1_src := Arg_reg, d_rs1 := rs1_of w, d_arg2_src := Arg_disable, d_imm := imm,
         d_rd := rd_of w, d_rd_enable := True\<rparr>)
     }"

definition decode_branch :: "u32 \<Rightarrow> 'b decode_rename_pack_t \<Rightarrow> 'b decode_rename_pack_t option" where
  "decode_branch w s =
     do {
       imm \<leftarrow> sign_extend (imm_b_of w) 13;
       let s' = s\<lparr>d_op_unit := Cunit_bru, d_arg1_src := Arg_reg, d_rs1 := rs1_of w,
                  d_arg2_src := Arg_reg, d_rs2 := rs2_of w, d_imm := imm\<rparr>;
       Some (
         if funct3_of w = 0x0 then s'\<lparr>d_op := Op_beq, d_sub_op := Csub_bru Bru_beq\<rparr>
         else if funct3_of w = 0x1 then s'\<lparr>d_op := Op_bne, d_sub_op := Csub_bru Bru_bne\<rparr>
         else if funct3_of w = 0x4 then s'\<lparr>d_op := Op_blt, d_sub_op := Csub_bru Bru_blt\<rparr>
         else if funct3_of w = 0x5 then s'\<lparr>d_op := Op_bge, d_sub_op := Csub_bru Bru_bge\<rparr>
         else if funct3_of w = 0x6 then s'\<lparr>d_op := Op_bltu, d_sub_op := Csub_bru Bru_bltu\<rparr>
         else if funct3_of w = 0x7 then s'\<lparr>d_op := Op_bgeu, d_sub_op := Csub_bru Bru_bgeu\<rparr>
         else s'\<lparr>d_valid := False\<rparr>)
     }"

definition decode_load :: "u32 \<Rightarrow> 'b decode_rename_pack_t \<Rightarrow> 'b decode_rename_pack_t option" where
  "decode_load w s =
     do {
       imm \<leftarrow> sign_extend (imm_i_of w) 12;
       let s' = s\<lparr>d_op_unit := Cunit_lu, d_arg1_src := Arg_reg, d_rs1 := rs1_of w,
                  d_arg2_src := Arg_disable, d_imm := imm, d_rd := rd_of w, d_rd_enable := True\<rparr>;
       Some (
         if funct3_of w = 0x0 then s'\<lparr>d_op := Op_lb, d_sub_op := Csub_lu Lu_lb\<rparr>
         else if funct3_of w = 0x1 then s'\<lparr>d_op := Op_lh, d_sub_op := Csub_lu Lu_lh\<rparr>
         else if funct3_of w = 0x2 then s'\<lparr>d_op := Op_lw, d_sub_op := Csub_lu Lu_lw\<rparr>
         else if funct3_of w = 0x4 then s'\<lparr>d_op := Op_lbu, d_sub_op := Csub_lu Lu_lbu\<rparr>
         else if funct3_of w = 0x5 then s'\<lparr>d_op := Op_lhu, d_sub_op := Csub_lu Lu_lhu\<rparr>
         else s'\<lparr>d_valid := False\<rparr>)
     }"

definition decode_store :: "u32 \<Rightarrow> 'b decode_rename_pack_t \<Rightarrow> 'b decode_rename_pack_t option" where
  "decode_store w s =
     do {
       imm \<leftarrow> sign_extend (imm_s_of w) 12;
       let s' = s\<lparr>d_op_unit := Cunit_sdu, d_arg1_src := Arg_reg, d_rs1 := rs1_of w,
                  d_arg2_src := Arg_reg, d_rs2 := rs2_of w, d_imm := imm\<rparr>;
       Some (
         if funct3_of w = 0x0 then s'\<lparr>d_op := Op_sb, d_sub_op := Csub_sdu Sdu_sb\<rparr>
         else if funct3_of w = 0x1 then s'\<lparr>d_op := Op_sh, d_sub_op := Csub_sdu Sdu_sh\<rparr>
         else if funct3_of w = 0x2 then s'\<lparr>d_op := Op_sw, d_sub_op := Csub_sdu Sdu_sw\<rparr>
         else s'\<lparr>d_valid := False\<rparr>)
     }"

definition decode_op_imm :: "u32 \<Rightarrow> 'b decode_rename_pack_t \<Rightarrow> 'b decode_rename_pack_t option" where
  "decode_op_imm w s =
     do {
       imm \<leftarrow> sign_extend (imm_i_of w) 12;
       let s' = s\<lparr>d_op_unit := Cunit_alu, d_arg1_src := Arg_reg, d_rs1 := rs1_of w,
                  d_arg2_src := Arg_imm, d_imm := imm, d_rd := rd_of w, d_rd_enable := True\<rparr>;
       Some (
         if funct3_of w = 0x0 then s'\<lparr>d_op := Op_addi, d_sub_op := Csub_alu Alu_add\<rparr>
         else if funct3_of w = 0x2 then s'\<lparr>d_op := Op_slti, d_sub_op := Csub_alu Alu_slt\<rparr>
         else if funct3_of w = 0x3 then s'\<lparr>d_op := Op_sltiu, d_sub_op := Csub_alu Alu_sltu\<rparr>
         else if funct3_of w = 0x4 then s'\<lparr>d_op := Op_xori, d_sub_op := Csub_alu Alu_xor\<rparr>
         else if funct3_of w = 0x6 then s'\<lparr>d_op := Op_ori, d_sub_op := Csub_alu Alu_or\<rparr>
         else if funct3_of w = 0x7 then s'\<lparr>d_op := Op_andi, d_sub_op := Csub_alu Alu_and\<rparr>
         else if funct3_of w = 0x1 then 
           (if funct7_of w = 0x00 then s'\<lparr>d_op := Op_slli, d_sub_op := Csub_alu Alu_sll\<rparr> else s'\<lparr>d_valid := False\<rparr>)
         else if funct3_of w = 0x5 then 
           (if funct7_of w = 0x00 then s'\<lparr>d_op := Op_srli, d_sub_op := Csub_alu Alu_srl\<rparr>
            else if funct7_of w = 0x20 then s'\<lparr>d_op := Op_srai, d_sub_op := Csub_alu Alu_sra\<rparr>
            else s'\<lparr>d_valid := False\<rparr>)
         else s'\<lparr>d_valid := False\<rparr>)
     }"

definition decode_op :: "u32 \<Rightarrow> 'b decode_rename_pack_t \<Rightarrow> 'b decode_rename_pack_t" where
  "decode_op w s =
     (let s' = s\<lparr>d_op_unit := Cunit_alu, d_arg1_src := Arg_reg, d_rs1 := rs1_of w,
                 d_arg2_src := Arg_reg, d_rs2 := rs2_of w, d_rd := rd_of w, d_rd_enable := True\<rparr>
      in if funct3_of w = 0x0 then 
          (if funct7_of w = 0x00 then s'\<lparr>d_op := Op_add, d_sub_op := Csub_alu Alu_add\<rparr>
           else if funct7_of w = 0x20 then s'\<lparr>d_op := Op_sub, d_sub_op := Csub_alu Alu_sub\<rparr>
           else if funct7_of w = 0x01 then s'\<lparr>d_op := Op_mul, d_op_unit := Cunit_mul, d_sub_op := Csub_mul Mul_mul\<rparr>
           else s'\<lparr>d_valid := False\<rparr>)
         else if funct3_of w = 0x1 then 
          (if funct7_of w = 0x00 then s'\<lparr>d_op := Op_sll, d_sub_op := Csub_alu Alu_sll\<rparr>
           else if funct7_of w = 0x01 then s'\<lparr>d_op := Op_mulh, d_op_unit := Cunit_mul, d_sub_op := Csub_mul Mul_mulh\<rparr>
           else s'\<lparr>d_valid := False\<rparr>)
         else if funct3_of w = 0x2 then 
          (if funct7_of w = 0x00 then s'\<lparr>d_op := Op_slt, d_sub_op := Csub_alu Alu_slt\<rparr>
           else if funct7_of w = 0x01 then s'\<lparr>d_op := Op_mulhsu, d_op_unit := Cunit_mul, d_sub_op := Csub_mul Mul_mulhsu\<rparr>
           else s'\<lparr>d_valid := False\<rparr>)
         else if funct3_of w = 0x3 then 
          (if funct7_of w = 0x00 then s'\<lparr>d_op := Op_sltu, d_sub_op := Csub_alu Alu_sltu\<rparr>
           else if funct7_of w = 0x01 then s'\<lparr>d_op := Op_mulhu, d_op_unit := Cunit_mul, d_sub_op := Csub_mul Mul_mulhu\<rparr>
           else s'\<lparr>d_valid := False\<rparr>)
         else if funct3_of w = 0x4 then 
          (if funct7_of w = 0x00 then s'\<lparr>d_op := Op_xor, d_sub_op := Csub_alu Alu_xor\<rparr>
           else if funct7_of w = 0x01 then s'\<lparr>d_op := Op_div, d_op_unit := Cunit_div, d_sub_op := Csub_div Div_div\<rparr>
           else s'\<lparr>d_valid := False\<rparr>)
         else if funct3_of w = 0x5 then 
          (if funct7_of w = 0x00 then s'\<lparr>d_op := Op_srl, d_sub_op := Csub_alu Alu_srl\<rparr>
           else if funct7_of w = 0x20 then s'\<lparr>d_op := Op_sra, d_sub_op := Csub_alu Alu_sra\<rparr>
           else if funct7_of w = 0x01 then s'\<lparr>d_op := Op_divu, d_op_unit := Cunit_div, d_sub_op := Csub_div Div_divu\<rparr>
           else s'\<lparr>d_valid := False\<rparr>)
         else if funct3_of w = 0x6 then 
          (if funct7_of w = 0x00 then s'\<lparr>d_op := Op_or, d_sub_op := Csub_alu Alu_or\<rparr>
           else if funct7_of w = 0x01 then s'\<lparr>d_op := Op_rem, d_op_unit := Cunit_div, d_sub_op := Csub_div Div_rem\<rparr>
           else s'\<lparr>d_valid := False\<rparr>)
         else if funct3_of w = 0x7 then 
          (if funct7_of w = 0x00 then s'\<lparr>d_op := Op_and, d_sub_op := Csub_alu Alu_and\<rparr>
           else if funct7_of w = 0x01 then s'\<lparr>d_op := Op_remu, d_op_unit := Cunit_div, d_sub_op := Csub_div Div_remu\<rparr>
           else s'\<lparr>d_valid := False\<rparr>)
         else s'\<lparr>d_valid := False\<rparr>)"

definition decode_fence :: "u32 \<Rightarrow> 'b decode_rename_pack_t \<Rightarrow> 'b decode_rename_pack_t" where
  "decode_fence w s =
     (if funct3_of w = 0x0 then
        (if rd_of w = 0x00 \<and> rs1_of w = 0x00 \<and> (drop_bit 28 w AND 0x0f) = 0x00
         then s\<lparr>d_op := Op_fence, d_op_unit := Cunit_alu, d_sub_op := Csub_alu Alu_fence,
              d_arg1_src := Arg_disable, d_arg2_src := Arg_disable, d_imm := imm_i_of w\<rparr>
         else s\<lparr>d_valid := False\<rparr>)
      else if funct3_of w = 0x1 then
        (if rd_of w = 0x00 \<and> rs1_of w = 0x00 \<and> imm_i_of w = 0x00
         then s\<lparr>d_op := Op_fence_i, d_op_unit := Cunit_alu, d_sub_op := Csub_alu Alu_fence_i,
              d_arg1_src := Arg_disable, d_arg2_src := Arg_disable\<rparr>
         else s\<lparr>d_valid := False\<rparr>)
      else s\<lparr>d_valid := False\<rparr>)"

definition decode_priv :: "u32 \<Rightarrow> 'b decode_rename_pack_t \<Rightarrow> 'b decode_rename_pack_t" where
  "decode_priv w s =
     (if rd_of w = 0x00 \<and> rs1_of w = 0x00 then
        (if funct7_of w = 0x00 then
           (if rs2_of w = 0x00
            then s\<lparr>d_op := Op_ecall, d_op_unit := Cunit_alu, d_sub_op := Csub_alu Alu_ecall,
              d_arg1_src := Arg_disable, d_arg2_src := Arg_disable\<rparr>
            else if rs2_of w = 0x01
            then s\<lparr>d_op := Op_ebreak, d_op_unit := Cunit_alu, d_sub_op := Csub_alu Alu_ebreak,
              d_arg1_src := Arg_disable, d_arg2_src := Arg_disable\<rparr>
            else s\<lparr>d_valid := False\<rparr>)
         else if funct7_of w = 0x18 then
           (if rs2_of w = 0x02
            then s\<lparr>d_op := Op_mret, d_op_unit := Cunit_bru, d_sub_op := Csub_bru Bru_mret,
              d_arg1_src := Arg_disable, d_arg2_src := Arg_disable\<rparr>
            else s\<lparr>d_valid := False\<rparr>)
         else s\<lparr>d_valid := False\<rparr>)
      else s\<lparr>d_valid := False\<rparr>)"

definition decode_system :: "u32 \<Rightarrow> 'b decode_rename_pack_t \<Rightarrow> 'b decode_rename_pack_t" where
  "decode_system w s =
     (if funct3_of w = 0x0 then decode_priv w s
      else if funct3_of w = 0x1 then 
        s\<lparr>d_op := Op_csrrw, d_op_unit := Cunit_csr, d_sub_op := Csub_csr Csr_csrrw, d_arg1_src := Arg_reg, d_rs1 := rs1_of w,
          d_arg2_src := Arg_disable, d_csr := imm_i_of w, d_rd := rd_of w, d_rd_enable := True\<rparr>
      else if funct3_of w = 0x2 then 
        s\<lparr>d_op := Op_csrrs, d_op_unit := Cunit_csr, d_sub_op := Csub_csr Csr_csrrs, d_arg1_src := Arg_reg, d_rs1 := rs1_of w,
          d_arg2_src := Arg_disable, d_csr := imm_i_of w, d_rd := rd_of w, d_rd_enable := True\<rparr>
      else if funct3_of w = 0x3 then 
        s\<lparr>d_op := Op_csrrc, d_op_unit := Cunit_csr, d_sub_op := Csub_csr Csr_csrrc, d_arg1_src := Arg_reg, d_rs1 := rs1_of w,
          d_arg2_src := Arg_disable, d_csr := imm_i_of w, d_rd := rd_of w, d_rd_enable := True\<rparr>
      else if funct3_of w = 0x5 then 
        s\<lparr>d_op := Op_csrrwi, d_op_unit := Cunit_csr, d_sub_op := Csub_csr Csr_csrrw, d_arg1_src := Arg_imm, d_imm := rs1_of w,
          d_arg2_src := Arg_disable, d_csr := imm_i_of w, d_rd := rd_of w, d_rd_enable := True\<rparr>
      else if funct3_of w = 0x6 then 
        s\<lparr>d_op := Op_csrrsi, d_op_unit := Cunit_csr, d_sub_op := Csub_csr Csr_csrrs, d_arg1_src := Arg_imm, d_imm := rs1_of w,
          d_arg2_src := Arg_disable, d_csr := imm_i_of w, d_rd := rd_of w, d_rd_enable := True\<rparr>
      else if funct3_of w = 0x7 then 
        s\<lparr>d_op := Op_csrrci, d_op_unit := Cunit_csr, d_sub_op := Csub_csr Csr_csrrc, d_arg1_src := Arg_imm, d_imm := rs1_of w,
          d_arg2_src := Arg_disable, d_csr := imm_i_of w, d_rd := rd_of w, d_rd_enable := True\<rparr>
      else s\<lparr>d_valid := False\<rparr>)"

definition decode_opcode :: "u32 \<Rightarrow> 'b decode_rename_pack_t \<Rightarrow> 'b decode_rename_pack_t option" where
  "decode_opcode w s =
     (if opcode_of w = 0x37 then Some (decode_lui w s)
      else if opcode_of w = 0x17 then Some (decode_auipc w s)
      else if opcode_of w = 0x6f then decode_jal w s
      else if opcode_of w = 0x67 then decode_jalr w s
      else if opcode_of w = 0x63 then decode_branch w s
      else if opcode_of w = 0x03 then decode_load w s
      else if opcode_of w = 0x23 then decode_store w s
      else if opcode_of w = 0x13 then decode_op_imm w s
      else if opcode_of w = 0x33 then Some (decode_op w s)
      else if opcode_of w = 0x0f then Some (decode_fence w s)
      else if opcode_of w = 0x73 then Some (decode_system w s)
      else Some (s\<lparr>d_valid := False\<rparr>))"

subsection \<open>The stage\<close>

definition decode_finish :: "'b fetch2_decode_pack_t \<Rightarrow> 'b decode_rename_pack_t \<Rightarrow> 'b decode_rename_pack_t" where
  "decode_finish rev_pack s =
     s\<lparr>d_inst_common_info := f_inst_common_info rev_pack,
       d_rs1_need_map := (d_arg1_src s = Arg_reg \<and> d_rs1 s > 0),
       d_rs2_need_map := (d_arg2_src s = Arg_reg \<and> d_rs2 s > 0),
       d_need_rename := (d_rd_enable s \<and> d_rd s > 0),
       d_value := f_value rev_pack, d_has_exception := f_has_exception rev_pack,
       d_exception_id := f_exception_id rev_pack, d_exception_value := f_exception_value rev_pack\<rparr>"

text \<open>The two slots \<^verbatim>\<open>op_info\<close>; only the first is ever enabled.\<close>

definition decode_uops :: "'b fetch2_decode_pack_t \<Rightarrow> 'b decode_rename_pack_t list option" where
  "decode_uops rev_pack =
     (let fresh = decode_rename_pack_make (f_branch_predictor_info_pack rev_pack) in
      if f_enable rev_pack then
        do {
          let other = decode_init rev_pack fresh;
          s \<leftarrow> decode_opcode (f_value rev_pack) ((decode_init rev_pack fresh)\<lparr>d_enable := True\<rparr>);
          let s' = (if \<not> d_valid s then s\<lparr>d_op_unit := Cunit_alu\<rparr> else s);
          Some [decode_finish rev_pack s', decode_finish rev_pack other]
        }
      else Some (replicate MAX_UOP_NUM fresh))"

fun push_all :: "'a list \<Rightarrow> 'a fifo \<Rightarrow> 'a fifo option" where
  "push_all [] f = Some f"
| "push_all (x # xs) f = (case fifo_push x f of (ok, f') \<Rightarrow> do { verify ok; push_all xs f' })"

fun decode_loop :: "nat \<Rightarrow> nat \<Rightarrow> 'b fetch2_decode_pack_t fifo \<Rightarrow> 'b decode_rename_pack_t fifo \<Rightarrow>
    ('b fetch2_decode_pack_t fifo \<times> 'b decode_rename_pack_t fifo) option" where
  "decode_loop 0 send_uop_num a b = Some (a, b)"
| "decode_loop (Suc n) send_uop_num a b =
     (if send_uop_num = DECODE_WIDTH then Some (a, b)
      else if \<not> customer_is_empty a \<and> \<not> producer_is_full b then
        do {
          rev_pack \<leftarrow> customer_get_front a;
          op_info \<leftarrow> decode_uops rev_pack;
          let cur_uop_num = length (filter d_enable op_info);
          verify (cur_uop_num > 0);
          let op_info' = op_info[cur_uop_num - 1 := (op_info ! (cur_uop_num - 1))\<lparr>d_last_uop := True\<rparr>];
          if producer_get_free_space b < cur_uop_num then Some (a, b)
          else (case fifo_pop a of (r, a') \<Rightarrow>
            do {
              verify (r \<noteq> None);
              b' \<leftarrow> push_all (take cur_uop_num op_info') b;
              decode_loop n (send_uop_num + cur_uop_num) a' b'
            })
        }
      else decode_loop n send_uop_num a b)"

record decode_feedback_pack_t =
  df_idle :: bool

definition decode_run :: "bool \<Rightarrow> bool \<Rightarrow> bool \<Rightarrow>
    'b fetch2_decode_pack_t fifo \<Rightarrow> 'b decode_rename_pack_t fifo \<Rightarrow>
    (decode_feedback_pack_t \<times> 'b fetch2_decode_pack_t fifo \<times> 'b decode_rename_pack_t fifo) option" where
  "decode_run bru_flush sau_flush commit_flush a b =
     do {
       let feedback = \<lparr>df_idle = customer_is_empty a\<rparr>;
       (a', b') \<leftarrow>
         (if \<not> commit_flush \<and> \<not> bru_flush \<and> \<not> sau_flush
          then decode_loop DECODE_WIDTH 0 a b
          else Some (a, fifo_flush b));
       Some (feedback, a', b')
     }"

subsection \<open>The two decoders agree\<close>

fun isa_unit :: "cycle_unit_t \<Rightarrow> op_unit_t" where
  "isa_unit Cunit_alu = Unit_alu" | "isa_unit Cunit_bru = Unit_bru" | "isa_unit Cunit_csr = Unit_csr"
| "isa_unit Cunit_div = Unit_div" | "isa_unit Cunit_mul = Unit_mul" | "isa_unit Cunit_lu = Unit_lsu"
| "isa_unit Cunit_sau = Unit_lsu" | "isa_unit Cunit_sdu = Unit_lsu"

fun isa_lu :: "lu_op_t \<Rightarrow> lsu_op_t" where
  "isa_lu Lu_lb = Lsu_lb" | "isa_lu Lu_lbu = Lsu_lbu" | "isa_lu Lu_lh = Lsu_lh" | "isa_lu Lu_lhu = Lsu_lhu"
| "isa_lu Lu_lw = Lsu_lw"

fun isa_sdu :: "sdu_op_t \<Rightarrow> lsu_op_t" where
  "isa_sdu Sdu_sb = Lsu_sb" | "isa_sdu Sdu_sh = Lsu_sh" | "isa_sdu Sdu_sw = Lsu_sw"

fun isa_sau :: "sau_op_t \<Rightarrow> lsu_op_t" where
  "isa_sau Sau_stab = Lsu_sb" | "isa_sau Sau_stah = Lsu_sh" | "isa_sau Sau_staw = Lsu_sw"

fun isa_sub_op :: "cycle_sub_op_t \<Rightarrow> sub_op_t" where
  "isa_sub_op (Csub_alu f) = Sub_alu f" | "isa_sub_op (Csub_bru f) = Sub_bru f"
| "isa_sub_op (Csub_csr f) = Sub_csr f" | "isa_sub_op (Csub_div f) = Sub_div f"
| "isa_sub_op (Csub_mul f) = Sub_mul f" | "isa_sub_op (Csub_lu f) = Sub_lsu (isa_lu f)"
| "isa_sub_op (Csub_sau f) = Sub_lsu (isa_sau f)" | "isa_sub_op (Csub_sdu f) = Sub_lsu (isa_sdu f)"

text \<open>The ISA model's view of a micro-operation; the fields a micro-operation lacks are zero.\<close>

definition isa_view :: "'b decode_rename_pack_t \<Rightarrow> isa_state_t" where
  "isa_view s =
     \<lparr>i_value = d_value s, i_valid = d_valid s, i_pc = d_pc s, i_imm = d_imm s,
      i_has_exception = d_has_exception s, i_exception_id = d_exception_id s,
      i_exception_value = d_exception_value s, i_rs1 = d_rs1 s, i_arg1_src = d_arg1_src s,
      i_src1_value = 0, i_rs2 = d_rs2 s, i_arg2_src = d_arg2_src s, i_src2_value = 0,
      i_rd = d_rd s, i_rd_enable = d_rd_enable s, i_rd_value = 0, i_csr = d_csr s,
      i_op = d_op s, i_op_unit = isa_unit (d_op_unit s), i_sub_op = isa_sub_op (d_sub_op s)\<rparr>"

lemma decode_upper_view:
  "isa_decode_lui w (isa_view s) = isa_view (decode_lui w s)"
  "isa_decode_auipc w (isa_view s) = isa_view (decode_auipc w s)"
  by (simp_all add: isa_view_def isa_decode_lui_def decode_lui_def isa_decode_auipc_def decode_auipc_def)

lemma decode_jump_view:
  "isa_decode_jal w (isa_view s) = map_option isa_view (decode_jal w s)"
  "isa_decode_jalr w (isa_view s) = map_option isa_view (decode_jalr w s)"
  by (simp_all add: isa_view_def isa_decode_jal_def decode_jal_def isa_decode_jalr_def decode_jalr_def
      map_option_bind comp_def)

lemma decode_branch_view: "isa_decode_branch w (isa_view s) = map_option isa_view (decode_branch w s)"
  by (cases "sign_extend (imm_b_of w) 13")
    (simp_all add: isa_view_def isa_decode_branch_def decode_branch_def Let_def)

lemma decode_mem_view:
  "isa_decode_load w (isa_view s) = map_option isa_view (decode_load w s)"
  "isa_decode_store w (isa_view s) = map_option isa_view (decode_store w s)"
  by (cases "sign_extend (imm_i_of w) 12",
      simp_all add: isa_view_def isa_decode_load_def decode_load_def Let_def)
    (cases "sign_extend (imm_s_of w) 12",
      simp_all add: isa_view_def isa_decode_store_def decode_store_def Let_def)

lemma decode_op_imm_view: "isa_decode_op_imm w (isa_view s) = map_option isa_view (decode_op_imm w s)"
  by (cases "sign_extend (imm_i_of w) 12")
    (simp_all add: isa_view_def isa_decode_op_imm_def decode_op_imm_def Let_def)

lemma decode_op_view: "isa_decode_op w (isa_view s) = isa_view (decode_op w s)"
  by (simp add: isa_view_def isa_decode_op_def decode_op_def Let_def)

lemma decode_fence_view: "isa_decode_fence w (isa_view s) = isa_view (decode_fence w s)"
  by (simp add: isa_view_def isa_decode_fence_def decode_fence_def)

lemma decode_system_view: "isa_decode_system w (isa_view s) = isa_view (decode_system w s)"
  by (simp add: isa_view_def isa_decode_system_def decode_system_def isa_decode_priv_def decode_priv_def)

lemma decode_opcode_view: "isa_decode_opcode w (isa_view s) = map_option isa_view (decode_opcode w s)"
proof -
  have "(isa_view s)\<lparr>i_valid := False\<rparr> = isa_view (s\<lparr>d_valid := False\<rparr>)" by (simp add: isa_view_def)
  then show ?thesis
    by (simp add: isa_decode_opcode_def decode_opcode_def decode_upper_view decode_jump_view
        decode_branch_view decode_mem_view decode_op_imm_view decode_op_view decode_fence_view
        decode_system_view)
qed

subsection \<open>What the stage does to the two queues\<close>

definition decode_result :: "'b fetch2_decode_pack_t \<Rightarrow> 'b decode_rename_pack_t" where
  "decode_result rev_pack = (the (decode_uops rev_pack) ! 0)\<lparr>d_last_uop := True\<rparr>"

lemma decode_enable_pure:
  "d_enable (decode_lui w s) = d_enable s" "d_enable (decode_auipc w s) = d_enable s"
  "d_enable (decode_op w s) = d_enable s" "d_enable (decode_fence w s) = d_enable s"
  "d_enable (decode_system w s) = d_enable s"
  by (simp_all add: decode_lui_def decode_auipc_def decode_op_def decode_fence_def decode_system_def
      decode_priv_def Let_def)

lemma decode_enable_imm:
  "map_option d_enable (decode_jal w s) = Some (d_enable s)"
  "map_option d_enable (decode_jalr w s) = Some (d_enable s)"
  "map_option d_enable (decode_branch w s) = Some (d_enable s)"
  "map_option d_enable (decode_load w s) = Some (d_enable s)"
  "map_option d_enable (decode_store w s) = Some (d_enable s)"
  "map_option d_enable (decode_op_imm w s) = Some (d_enable s)"
proof -
  obtain i1 i2 i3 i4 where i: "sign_extend (imm_i_of w) 12 = Some i1" "sign_extend (imm_s_of w) 12 = Some i2"
    "sign_extend (imm_b_of w) 13 = Some i3" "sign_extend (imm_j_of w) 21 = Some i4"
    using sign_extend_total[of 12 "imm_i_of w"] sign_extend_total[of 12 "imm_s_of w"]
      sign_extend_total[of 13 "imm_b_of w"] sign_extend_total[of 21 "imm_j_of w"] by auto
  show "map_option d_enable (decode_jal w s) = Some (d_enable s)"
    "map_option d_enable (decode_jalr w s) = Some (d_enable s)"
    "map_option d_enable (decode_branch w s) = Some (d_enable s)"
    "map_option d_enable (decode_load w s) = Some (d_enable s)"
    "map_option d_enable (decode_store w s) = Some (d_enable s)"
    "map_option d_enable (decode_op_imm w s) = Some (d_enable s)"
    by (simp_all add: i decode_jal_def decode_jalr_def decode_branch_def decode_load_def
        decode_store_def decode_op_imm_def Let_def)
qed

lemma decode_opcode_total: "\<exists>s'. decode_opcode w s = Some s' \<and> d_enable s' = d_enable s"
proof -
  have "map_option d_enable (decode_opcode w s) = Some (d_enable s)"
    using decode_enable_imm[of w s] by (auto simp: decode_opcode_def decode_enable_pure)
  then show ?thesis by auto
qed

lemma decode_uops_enabled:
  assumes "f_enable r"
  shows "\<exists>x y. decode_uops r = Some [x, y] \<and> d_enable x \<and> \<not> d_enable y"
proof -
  let ?s = "(decode_init r (decode_rename_pack_make (f_branch_predictor_info_pack r)))\<lparr>d_enable := True\<rparr>"
  obtain s' where "decode_opcode (f_value r) ?s = Some s'" "d_enable s'"
    using decode_opcode_total[of "f_value r" ?s] by auto
  then show ?thesis
    using assms by (auto simp: decode_uops_def decode_finish_def decode_init_def Let_def)
qed

lemma decode_loop_moves:
  assumes "fifo_inv a" and "fifo_inv b" and "list_all f_enable (fifo_avail a)"
    and "n + sent = DECODE_WIDTH"
    and "k = min n (min (length (fifo_avail a)) (producer_get_free_space b))"
  shows "\<exists>a' b'. decode_loop n sent a b = Some (a', b') \<and> fifo_inv a' \<and> fifo_inv b' \<and>
    fifo_avail a' = drop k (fifo_avail a) \<and> fifo_next a' = drop k (fifo_next a) \<and>
    fifo_avail b' = fifo_avail b \<and>
    fifo_next b' = fifo_next b @ map decode_result (take k (fifo_avail a))"
  using assms
proof (induction n arbitrary: sent a b k)
  case (Suc n)
  show ?case
  proof (cases "customer_is_empty a \<or> producer_is_full b")
    case True
    then have k: "min m (min (length (fifo_avail a)) (producer_get_free_space b)) = 0" for m
      using Suc.prems by (auto simp: customer_is_empty_avail producer_is_full_free)
    have sent: "sent \<noteq> DECODE_WIDTH" using Suc.prems(4) by simp
    have "decode_loop (Suc n) sent a b = decode_loop n sent a b" using True sent by auto
    moreover have "decode_loop i sent a b = Some (a, b)" for i
      using True by (induction i) auto
    ultimately show ?thesis using Suc.prems k by simp
  next
    case False
    then obtain x xs where av: "fifo_avail a = x # xs"
      using Suc.prems(1) by (cases "fifo_avail a") (auto simp: customer_is_empty_avail)
    have free: "0 < producer_get_free_space b"
      using False Suc.prems(2) by (auto simp: producer_is_full_free)
    have front: "customer_get_front a = Some x"
      using customer_get_front_avail[OF Suc.prems(1)] av by simp
    obtain u v where uops: "decode_uops x = Some [u, v]" "d_enable u" "\<not> d_enable v"
      using decode_uops_enabled[of x] Suc.prems(3) av by auto
    obtain r a1 where pop: "fifo_pop a = (r, a1)" by fastforce
    note pa = fifo_pop_abs[OF Suc.prems(1) pop]
    obtain ok b1 where push: "fifo_push (decode_result x) b = (ok, b1)" by fastforce
    note pb = fifo_push_abs[OF Suc.prems(2) push] push_free_space[OF Suc.prems(2) push]
    have res: "u\<lparr>d_last_uop := True\<rparr> = decode_result x" by (simp add: decode_result_def uops)
    have step: "decode_loop (Suc n) sent a b = decode_loop n (Suc sent) a1 b1"
      using Suc.prems(4) False front uops free pop push pa(1) pb(8) av
      by (simp add: res)
    let ?k = "min n (min (length (fifo_avail a1)) (producer_get_free_space b1))"
    have k: "k = Suc ?k" using Suc.prems(5) pa(4) pb(8,9) free av by (simp add: min_Suc_Suc[symmetric])
    obtain a' b' where "decode_loop n (Suc sent) a1 b1 = Some (a', b')" "fifo_inv a'" "fifo_inv b'"
      "fifo_avail a' = drop ?k (fifo_avail a1)" "fifo_next a' = drop ?k (fifo_next a1)"
      "fifo_avail b' = fifo_avail b1"
      "fifo_next b' = fifo_next b1 @ map decode_result (take ?k (fifo_avail a1))"
      using Suc.IH[OF pa(2) pb(2), of "Suc sent" ?k] pa(4) av Suc.prems(3,4) by auto
    then show ?thesis
      using step k pa(4,6) pb(4,6,8) av free by (simp add: drop_Suc)
  qed
qed simp

subsection \<open>Properties\<close>

text \<open>
  C9. The cycle model and the ISA model decode alike: on every 32-bit word and every
  micro-operation, the decoder of the cycle model gives the same operation, operand sources,
  registers, immediate, CSR and validity as the decoder of the ISA model gives on the same
  fields (loads and stores are one unit there and three here).
\<close>

theorem decoders_agree:
  "isa_decode_opcode w (isa_view s) = map_option isa_view (decode_opcode w s)"
  by (rule decode_opcode_view)

text \<open>
  C10. One cycle of the decode stage without a flush takes as many instructions as the decode
  width, the fetched instructions and the room in the rename queue allow, and appends their
  micro-operations in program order; it never aborts and both queues keep their invariant.
  With a flush from commit, the branch unit or the store address unit it takes nothing and
  empties the rename queue.
\<close>

theorem decode_stage_moves_prefix:
  assumes "fifo_inv a" and "fifo_inv b" and "list_all f_enable (fifo_avail a)"
  shows "\<exists>a' b'. decode_run bru sau commit a b = Some (\<lparr>df_idle = (fifo_avail a = [])\<rparr>, a', b') \<and>
    (if bru \<or> sau \<or> commit then a' = a \<and> fifo_avail (fifo_sync b') = []
     else let k = min DECODE_WIDTH (min (length (fifo_avail a)) (producer_get_free_space b)) in
       fifo_inv a' \<and> fifo_inv b' \<and> fifo_avail a' = drop k (fifo_avail a) \<and>
       fifo_next b' = fifo_next b @ map decode_result (take k (fifo_avail a)))"
proof (cases "bru \<or> sau \<or> commit")
  case True
  then show ?thesis
    using fifo_flush_abs[OF assms(2)] assms(1) by (auto simp: decode_run_def customer_is_empty_avail)
next
  case False
  obtain a' b' where "decode_loop DECODE_WIDTH 0 a b = Some (a', b')" "fifo_inv a'" "fifo_inv b'"
    "fifo_avail a' = drop (min DECODE_WIDTH (min (length (fifo_avail a)) (producer_get_free_space b))) (fifo_avail a)"
    "fifo_next b' = fifo_next b @ map decode_result
       (take (min DECODE_WIDTH (min (length (fifo_avail a)) (producer_get_free_space b))) (fifo_avail a))"
    using decode_loop_moves[OF assms, of DECODE_WIDTH 0, OF _ refl] by auto
  then show ?thesis
    using False assms(1) by (auto simp: decode_run_def customer_is_empty_avail Let_def)
qed

definition demo_fetched :: "unit fetch2_decode_pack_t" where
  "demo_fetched = \<lparr>f_inst_common_info = \<lparr>inst_id = 1\<rparr>, f_enable = True, f_pc = 0x80000000,
     f_value = 0x00500093, f_has_exception = False, f_exception_id = illegal_instruction,
     f_exception_value = 0, f_branch_predictor_info_pack = ()\<rparr>"

theorem decode_stage_moves_prefix_witness:
  "\<exists>a' b'. decode_run False False False
       (fifo_sync (snd (fifo_push demo_fetched (fifo_make 4 demo_fetched))))
       (fifo_make 4 (decode_rename_pack_make ())) = Some (\<lparr>df_idle = False\<rparr>, a', b')
     \<and> fifo_avail a' = [] \<and> fifo_next b' = [decode_result demo_fetched]"
proof -
  let ?p = "fifo_push demo_fetched (fifo_make 4 demo_fetched)" and ?b = "fifo_make 4 (decode_rename_pack_make ())"
  have ok: "fst ?p" by code_simp
  have e: "?p = (fst ?p, snd ?p)" by simp
  have i: "fifo_inv (fifo_make 4 demo_fetched)" by simp
  have a: "fifo_inv (fifo_sync (snd ?p))" "fifo_avail (fifo_sync (snd ?p)) = [demo_fetched]"
    using fifo_push_abs[OF i e] ok fifo_sync_abs[of "snd ?p"] by simp_all
  have "producer_get_free_space ?b = 4" by code_simp
  then show ?thesis
    using decode_stage_moves_prefix[OF a(1), of ?b False False False] a(2)
    by (auto simp: demo_fetched_def[THEN arg_cong, of f_enable] DECODE_WIDTH_def Let_def)
qed

end
