(* ===== verification/Age_Compare.thy ===== *)
theory Age_Compare
  imports Common Ring
begin

text \<open>
  \<^verbatim>\<open>component/age_compare.h\<close>: the age of an instruction is its reorder buffer slot with the
  stage bit. The C++ operators read \<open>a < b\<close> as ``\<open>a\<close> is younger than \<open>b\<close>''. They are
  no order on all positions; the theorem says where they are one: between positions less
  than one buffer size apart, \<open>a < b\<close> holds exactly when \<open>a\<close> was allocated after \<open>b\<close>.
\<close>

record age_compare =
  ac_rob_id :: nat
  ac_rob_id_stage :: bool

definition age :: "nat \<Rightarrow> bool \<Rightarrow> age_compare" where
  "age i s = \<lparr>ac_rob_id = i, ac_rob_id_stage = s\<rparr>"

definition age_less :: "age_compare \<Rightarrow> age_compare \<Rightarrow> bool" where
  "age_less a b =
     (if ac_rob_id_stage a = ac_rob_id_stage b then ac_rob_id a > ac_rob_id b
      else ac_rob_id a < ac_rob_id b)"

definition age_equal :: "age_compare \<Rightarrow> age_compare \<Rightarrow> bool" where
  "age_equal a b \<longleftrightarrow> ac_rob_id a = ac_rob_id b \<and> ac_rob_id_stage a = ac_rob_id_stage b"

definition age_not_equal :: "age_compare \<Rightarrow> age_compare \<Rightarrow> bool" where
  "age_not_equal a b \<longleftrightarrow> ac_rob_id a \<noteq> ac_rob_id b \<or> ac_rob_id_stage a \<noteq> ac_rob_id_stage b"

definition age_greater :: "age_compare \<Rightarrow> age_compare \<Rightarrow> bool" where
  "age_greater a b =
     (if ac_rob_id_stage a = ac_rob_id_stage b then ac_rob_id a < ac_rob_id b
      else ac_rob_id a > ac_rob_id b)"

definition age_less_equal :: "age_compare \<Rightarrow> age_compare \<Rightarrow> bool" where
  "age_less_equal a b \<longleftrightarrow> age_less a b \<or> age_equal a b"

definition age_greater_equal :: "age_compare \<Rightarrow> age_compare \<Rightarrow> bool" where
  "age_greater_equal a b \<longleftrightarrow> age_greater a b \<or> age_equal a b"

lemmas age_defs = age_less_def age_equal_def age_not_equal_def age_greater_def age_less_equal_def
  age_greater_equal_def age_def

definition age_at :: "nat \<Rightarrow> nat \<Rightarrow> age_compare" where
  "age_at sz c = age (fst (ring_at sz c)) (snd (ring_at sz c))"

subsection \<open>Age is allocation order\<close>

text \<open>Two counters of one window: one of them is at most \<open>sz - 1\<close> allocations ahead.\<close>

lemma age_less_ahead:
  assumes "0 < sz" and "a \<le> b" and "b < a + sz"
  shows "age_less (age_at sz b) (age_at sz a) \<longleftrightarrow> a \<noteq> b"
    and "\<not> age_less (age_at sz a) (age_at sz b)"
proof -
  define q where "q = a div sz"
  define p where "p = a mod sz"
  have a: "a = q * sz + p" and p: "p < sz" by (simp_all add: q_def p_def assms(1))
  have "age_less (age_at sz b) (age_at sz a) = (a \<noteq> b) \<and> \<not> age_less (age_at sz a) (age_at sz b)"
  proof (cases "b < (q + 1) * sz")
    case True
    define t where "t = b - q * sz"
    have "b = q * sz + t" "t < sz" "p \<le> t" using True a assms(2) by (auto simp: t_def)
    then show ?thesis
      using a p by (auto simp: age_defs age_at_def ring_at_def)
  next
    case False
    define t where "t = b - (q + 1) * sz"
    have b: "b = (q + 1) * sz + t" "t < p" using False a assms(3) by (auto simp: t_def)
    have bd: "b div sz = q + 1" "b mod sz = t"
      unfolding b(1) using b(2) p by (simp_all only: div_mult_self3 mod_mult_self3) simp_all
    have ad: "a div sz = q" "a mod sz = p" by (simp_all add: q_def p_def)
    show ?thesis
      using b(2) bd ad by (auto simp: age_defs age_at_def ring_at_def)
  qed
  then show "age_less (age_at sz b) (age_at sz a) \<longleftrightarrow> a \<noteq> b"
    "\<not> age_less (age_at sz a) (age_at sz b)" by simp_all
qed

lemma age_less_iff:
  assumes "0 < sz" and "a < b + sz" and "b < a + sz"
  shows "age_less (age_at sz a) (age_at sz b) \<longleftrightarrow> b < a"
  using age_less_ahead[OF assms(1), of a b] age_less_ahead[OF assms(1), of b a] assms
  by (cases "a \<le> b") auto

lemma age_equal_iff:
  assumes "0 < sz" and "a < b + sz" and "b < a + sz"
  shows "age_equal (age_at sz a) (age_at sz b) \<longleftrightarrow> a = b"
proof -
  have "age_equal (age_at sz a) (age_at sz b) \<longleftrightarrow> ring_at sz a = ring_at sz b"
    by (auto simp: age_defs age_at_def prod_eq_iff)
  also have "\<dots> \<longleftrightarrow> a = b"
    using ring_at_eq_near[of sz a b] ring_at_eq_near[of sz b a] assms by (cases "a \<le> b") auto
  finally show ?thesis .
qed

lemma age_greater_flip: "age_greater a b = age_less b a"
  by (auto simp: age_defs)

subsection \<open>The order every flush decision rests on\<close>

text \<open>
  The six comparison operators decide allocation order: for two reorder buffer
  positions less than one buffer size apart (as any two instructions in flight are),
  \<open><\<close> is ``allocated later'', \<open>==\<close> is ``the same instruction'', and the other four
  operators follow from these two, across every wrap-around of the slot number.
\<close>

theorem age_order_exact:
  assumes "0 < sz" and "a < b + sz" and "b < a + sz"
  shows "age_less (age_at sz a) (age_at sz b) = (b < a)
    \<and> age_equal (age_at sz a) (age_at sz b) = (a = b)
    \<and> age_not_equal (age_at sz a) (age_at sz b) = (a \<noteq> b)
    \<and> age_greater (age_at sz a) (age_at sz b) = (a < b)
    \<and> age_less_equal (age_at sz a) (age_at sz b) = (b \<le> a)
    \<and> age_greater_equal (age_at sz a) (age_at sz b) = (a \<le> b)"
proof -
  note l = age_less_iff[OF assms] and g = age_less_iff[OF assms(1,3,2)] and e = age_equal_iff[OF assms]
  have "age_not_equal x y = (\<not> age_equal x y)" for x y by (auto simp: age_defs)
  then show ?thesis
    by (auto simp: l g e age_greater_flip age_less_equal_def age_greater_equal_def)
qed

end
