(* ===== verification/Free_List.thy ===== *)
theory Free_List
  imports Fifo
begin

text \<open>
  \<^verbatim>\<open>component/free_list.h\<close>: the queue of free physical registers. The rename stage pops a
  register for each destination, commit pushes the register that became dead, and a flush
  moves the read pointer back to where it was saved. The set \<^verbatim>\<open>free_list_set\<close> repeats
  the contents and is what the assertions of the class compare with; \<^verbatim>\<open>std::unordered_set\<close>
  is a set of register numbers here.
\<close>

record free_list =
  fl_fifo :: "nat fifo"
  fl_set :: "nat set"

definition free_list_check :: "free_list \<Rightarrow> bool" where
  "free_list_check fl \<longleftrightarrow> new_get_used_space (fl_fifo fl) = card (fl_set fl)"

fun free_list_fill :: "nat list \<Rightarrow> free_list \<Rightarrow> free_list" where
  "free_list_fill [] fl = fl"
| "free_list_fill (i # is) fl =
     free_list_fill is (fl\<lparr>fl_fifo := snd (new_push i (fl_fifo fl)), fl_set := insert i (fl_set fl)\<rparr>)"

definition free_list_reset :: "free_list \<Rightarrow> free_list option" where
  "free_list_reset fl =
     do {
       let fl' = free_list_fill [0..<fsize (fl_fifo fl)]
                   (fl\<lparr>fl_fifo := fifo_reset (fl_fifo fl), fl_set := {}\<rparr>);
       verify (free_list_check fl');
       Some fl'
     }"

definition free_list_make :: "nat \<Rightarrow> free_list option" where
  "free_list_make n = free_list_reset \<lparr>fl_fifo = fifo_make n 0, fl_set = {}\<rparr>"

definition free_list_flush :: "free_list \<Rightarrow> free_list option" where
  "free_list_flush fl = free_list_reset fl"

definition free_list_push :: "nat \<Rightarrow> free_list \<Rightarrow> (bool \<times> free_list) option" where
  "free_list_push data fl =
     do {
       verify (data < fsize (fl_fifo fl));
       verify (data \<notin> fl_set fl);
       let (ret, f) = fifo_push data (fl_fifo fl);
       let fl' = fl\<lparr>fl_fifo := f, fl_set := (if ret then insert data (fl_set fl) else fl_set fl)\<rparr>;
       verify (free_list_check fl');
       Some (ret, fl')
     }"

definition free_list_pop :: "free_list \<Rightarrow> (nat option \<times> free_list) option" where
  "free_list_pop fl =
     (case fifo_pop (fl_fifo fl) of
        (Some data, f) \<Rightarrow>
          do {
            verify (data < fsize (fl_fifo fl));
            verify (data \<in> fl_set fl);
            let fl' = fl\<lparr>fl_fifo := f, fl_set := fl_set fl - {data}\<rparr>;
            verify (free_list_check fl');
            Some (Some data, fl')
          }
      | (None, f) \<Rightarrow>
          do {
            let fl' = fl\<lparr>fl_fifo := f\<rparr>;
            verify (free_list_check fl');
            Some (None, fl')
          })"

definition free_list_save :: "free_list \<Rightarrow> nat \<times> bool" where
  "free_list_save fl = (dff_get_new (rptr (fl_fifo fl)), dff_get_new (rstage (fl_fifo fl)))"

text \<open>
  The loop of \<^verbatim>\<open>restore\<close> inserts the registers between the restored position and the current
  read pointer; \<open>None\<close> is a failed assertion or a loop that does not end.
\<close>

partial_function (option) free_list_restore_loop ::
    "nat fifo \<Rightarrow> nat \<Rightarrow> bool \<Rightarrow> nat set \<Rightarrow> nat set option" where
  "free_list_restore_loop f cur_rptr cur_rstage s =
     (if cur_rptr \<noteq> dff_get (rptr f) \<or> cur_rstage \<noteq> dff_get (rstage f) then
        (if dff_get (buffer f ! cur_rptr) \<in> s then None
         else free_list_restore_loop f (if cur_rptr + 1 \<ge> fsize f then 0 else cur_rptr + 1)
                (if cur_rptr + 1 \<ge> fsize f then \<not> cur_rstage else cur_rstage)
                (insert (dff_get (buffer f ! cur_rptr)) s))
      else Some s)"

definition free_list_restore :: "nat \<Rightarrow> bool \<Rightarrow> free_list \<Rightarrow> free_list option" where
  "free_list_restore p st fl =
     do {
       verify (p < fsize (fl_fifo fl));
       let f = (fl_fifo fl)\<lparr>rptr := dff_set p (rptr (fl_fifo fl)), rstage := dff_set st (rstage (fl_fifo fl))\<rparr>;
       verify (producer_get_used_space f = card (fl_set fl));
       s \<leftarrow> free_list_restore_loop f p st (fl_set fl);
       let fl' = fl\<lparr>fl_fifo := f, fl_set := s\<rparr>;
       verify (free_list_check fl');
       Some fl'
     }"

definition free_list_sync :: "free_list \<Rightarrow> free_list" where
  "free_list_sync fl = fl\<lparr>fl_fifo := fifo_sync (fl_fifo fl)\<rparr>"

subsection \<open>Invariant\<close>

text \<open>The registers that are free after the clock edge, in the order they will be handed out.\<close>

definition free_regs :: "free_list \<Rightarrow> nat list" where
  "free_regs fl = fifo_next (fl_fifo fl)"

definition free_list_inv :: "free_list \<Rightarrow> bool" where
  "free_list_inv fl \<longleftrightarrow> fifo_settled (fl_fifo fl) \<and> fl_set fl = set (free_regs fl) \<and>
     distinct (free_regs fl) \<and> (\<forall>x \<in> set (free_regs fl). x < fsize (fl_fifo fl))"

lemma new_used_next: "fifo_inv f \<Longrightarrow> new_get_used_space f = length (fifo_next f)"
proof (elim fifo_windowE)
  fix rc rn wc wn assume w: "fifo_window f rc rn wc wn"
  then show ?thesis by (simp add: window_used[OF w] window_lists[OF w])
qed

lemma free_list_inv_check: "free_list_inv fl \<Longrightarrow> free_list_check fl"
  by (simp add: free_list_inv_def free_list_check_def free_regs_def fifo_settled_def new_used_next
      distinct_card)

lemma free_list_push_abs:
  assumes "free_list_inv fl" and "data < fsize (fl_fifo fl)" and "data \<notin> set (free_regs fl)"
  shows "\<exists>ret fl'. free_list_push data fl = Some (ret, fl') \<and> free_list_inv fl' \<and>
    ret = (producer_get_used_space (fl_fifo fl) < fsize (fl_fifo fl)) \<and>
    free_regs fl' = free_regs fl @ (if ret then [data] else []) \<and>
    fifo_push data (fl_fifo fl) = (ret, fl_fifo fl')"
proof -
  obtain ret f where p: "fifo_push data (fl_fifo fl) = (ret, f)" by fastforce
  have s: "fifo_settled (fl_fifo fl)" using assms(1) by (simp add: free_list_inv_def)
  then have i: "fifo_inv (fl_fifo fl)" by (simp add: fifo_settled_def)
  note a = fifo_push_abs[OF i p]
  let ?fl = "fl\<lparr>fl_fifo := f, fl_set := (if ret then insert data (fl_set fl) else fl_set fl)\<rparr>"
  have f: "fifo_settled f" "fsize f = fsize (fl_fifo fl)"
    "fifo_next f = fifo_next (fl_fifo fl) @ (if ret then [data] else [])"
    using a(3,6) fq.push_law[OF s p] by simp_all
  have inv: "free_list_inv ?fl"
    using assms f by (cases ret) (simp_all add: free_list_inv_def free_regs_def)
  have "data \<notin> fl_set fl" using assms by (simp add: free_list_inv_def)
  then have "free_list_push data fl = Some (ret, ?fl)"
    using assms(2) p free_list_inv_check[OF inv] by (simp add: free_list_push_def)
  then show ?thesis using inv a(1) f(3) p by (simp add: free_regs_def)
qed

lemma free_list_pop_abs:
  assumes "free_list_inv fl"
  shows "\<exists>r fl'. free_list_pop fl = Some (r, fl') \<and> free_list_inv fl' \<and>
    free_regs fl = (case r of None \<Rightarrow> [] | Some d \<Rightarrow> [d]) @ free_regs fl' \<and>
    fifo_pop (fl_fifo fl) = (r, fl_fifo fl') \<and> (r = None \<longleftrightarrow> fifo_avail (fl_fifo fl) = [])"
proof -
  obtain r f where p: "fifo_pop (fl_fifo fl) = (r, f)" by fastforce
  have s: "fifo_settled (fl_fifo fl)" using assms(1) by (simp add: free_list_inv_def)
  then have i: "fifo_inv (fl_fifo fl)" by (simp add: fifo_settled_def)
  note a = fifo_pop_abs[OF i p] and h = fq.pop_held[OF s p] and l = fq.pop_law[OF s p]
  show ?thesis
  proof (cases r)
    case None
    let ?fl = "fl\<lparr>fl_fifo := f\<rparr>"
    have inv: "free_list_inv ?fl"
      using assms a(3) h None l by (auto simp: free_list_inv_def free_regs_def)
    then show ?thesis
      using p None h a(1) free_list_inv_check[OF inv]
      by (auto simp: free_list_pop_def free_regs_def split: list.splits)
  next
    case (Some d)
    let ?fl = "fl\<lparr>fl_fifo := f, fl_set := fl_set fl - {d}\<rparr>"
    have inv: "free_list_inv ?fl"
      using assms a(3) h Some l by (auto simp: free_list_inv_def free_regs_def)
    then show ?thesis
      using p Some h a(1) free_list_inv_check[OF inv] assms
      by (auto simp: free_list_pop_def free_regs_def free_list_inv_def split: list.splits)
  qed
qed

lemma free_list_sync_abs:
  "free_list_inv fl \<Longrightarrow> free_list_inv (free_list_sync fl) \<and> free_regs (free_list_sync fl) = free_regs fl"
  using fq.clock_law[of "fl_fifo fl"]
  by (auto simp: free_list_inv_def free_list_sync_def free_regs_def)

subsection \<open>Reset: every register is free\<close>

lemma new_push_window:
  assumes "fifo_window f rc rn wc wn" and "wn < rc + fsize f" and "wn < rn + fsize f"
  shows "new_push x f = (True, fifo_advance_wptr (fifo_write_slot (wn mod fsize f) x f))"
  using assms window_flags(5)[OF assms(1)]
  by (simp add: new_push_def) (auto simp: fifo_window_def pos_defs ring_at_def)

lemma free_list_fill_abs:
  assumes "fifo_settled (fl_fifo fl)" and "fifo_window (fl_fifo fl) 0 0 0 n" and "n + length xs \<le> fsize (fl_fifo fl)"
    and "fl_set fl = set (free_regs fl)"
  shows "fifo_settled (fl_fifo (free_list_fill xs fl)) \<and> free_regs (free_list_fill xs fl) = free_regs fl @ xs \<and>
    fl_set (free_list_fill xs fl) = set (free_regs fl @ xs) \<and>
    fsize (fl_fifo (free_list_fill xs fl)) = fsize (fl_fifo fl)"
  using assms
proof (induction xs arbitrary: fl n)
  case (Cons x xs)
  let ?f = "fl_fifo fl"
  let ?g = "fifo_advance_wptr (fifo_write_slot (n mod fsize ?f) x ?f)"
  let ?fl = "fl\<lparr>fl_fifo := ?g, fl_set := insert x (fl_set fl)\<rparr>"
  have lt: "n < 0 + fsize ?f" using Cons.prems(3) by simp
  have np: "snd (new_push x ?f) = ?g" using new_push_window[OF Cons.prems(2) lt] lt by simp
  have w: "fifo_window ?g 0 0 0 (Suc n)" by (rule window_advance_wptr[OF Cons.prems(2) lt])
  have l: "fifo_next ?g = fifo_next ?f @ [x]" "fifo_avail ?g = fifo_avail ?f"
    using window_push_lists[OF Cons.prems(2) lt, of x] by simp_all
  have set: "fifo_settled ?g"
    using w Cons.prems(1) l by (auto simp: fifo_settled_def window_inv dest: take_length_le)
  have sz: "fsize ?g = fsize ?f" by simp
  have "fifo_settled (fl_fifo (free_list_fill xs ?fl)) \<and> free_regs (free_list_fill xs ?fl) = free_regs ?fl @ xs \<and>
    fl_set (free_list_fill xs ?fl) = set (free_regs ?fl @ xs) \<and>
    fsize (fl_fifo (free_list_fill xs ?fl)) = fsize (fl_fifo ?fl)"
    by (rule Cons.IH[of ?fl "Suc n"]) (use set w Cons.prems(3,4) l in \<open>simp_all add: free_regs_def\<close>)
  then show ?case using l by (simp add: np free_regs_def)
qed (simp add: free_regs_def)

lemma free_list_make_abs:
  assumes "0 < n"
  shows "\<exists>fl. free_list_make n = Some fl \<and> free_list_inv fl \<and> free_regs fl = [0..<n] \<and>
    fsize (fl_fifo fl) = n"
proof -
  let ?f = "fifo_make n (0 :: nat)"
  let ?fl = "free_list_fill [0..<n] \<lparr>fl_fifo = fifo_reset ?f, fl_set = {}\<rparr>"
  have r: "fifo_reset ?f = ?f" by (simp add: fifo_make_def fifo_reset_def dff_set_def)
  have s: "fifo_settled ?f" by (rule settled_make[OF assms])
  have a: "fifo_settled (fl_fifo ?fl)" "free_regs ?fl = [0..<n]" "fl_set ?fl = set [0..<n]"
    "fsize (fl_fifo ?fl) = n"
    using free_list_fill_abs[of "\<lparr>fl_fifo = ?f, fl_set = {}\<rparr>" 0 "[0..<n]"] s assms
      fifo_make_window[OF assms, of "0 :: nat"]
    by (simp_all add: r free_regs_def)
  then have inv: "free_list_inv ?fl" by (simp add: free_list_inv_def)
  have "free_list_make n = Some ?fl"
    using free_list_inv_check[OF inv] by (simp add: free_list_make_def free_list_reset_def)
  then show ?thesis using inv a by blast
qed

subsection \<open>Restoring the read pointer\<close>

text \<open>
  \<open>fifo_log f c L\<close>: counted from position \<open>c\<close>, at or before the read pointer, the ring still holds
  the values \<open>L\<close>; those before the read pointer have been popped and not yet overwritten.
\<close>

definition fifo_log :: "'a fifo \<Rightarrow> nat \<Rightarrow> 'a list \<Rightarrow> nat \<Rightarrow> nat \<Rightarrow> nat \<Rightarrow> bool" where
  "fifo_log f c L rc rn wc \<longleftrightarrow>
     fifo_window f rc rn wc (c + length L) \<and> c \<le> rn \<and> length L \<le> fsize f \<and>
     (\<forall>i < length L. dff_get_new (buffer f ! ((c + i) mod fsize f)) = L ! i) \<and>
     (\<forall>i. c + i < wc \<longrightarrow> dff_get (buffer f ! ((c + i) mod fsize f)) = L ! i)"

lemma window_nth:
  assumes "fifo_window f rc rn wc wn"
  shows "rn + i < wn \<Longrightarrow> fifo_next f ! i = dff_get_new (buffer f ! ((rn + i) mod fsize f))"
    and "rn + i < wc \<Longrightarrow> fifo_avail f ! i = dff_get (buffer f ! ((rn + i) mod fsize f))"
  unfolding window_lists[OF assms] by (subst nth_map; simp)+

lemma log_lists:
  assumes "fifo_log f c L rc rn wc"
  shows "fifo_next f = drop (rn - c) L" and "fifo_avail f = take (wc - rn) (drop (rn - c) L)"
proof -
  note l = assms[unfolded fifo_log_def]
  note w = conjunct1[OF l]
  have d: "c \<le> rn" "rn \<le> wc" "wc \<le> c + length L" using l by (auto simp: fifo_window_def)
  have new: "\<And>i. i < length L \<Longrightarrow> dff_get_new (buffer f ! ((c + i) mod fsize f)) = L ! i"
    and cur: "\<And>i. c + i < wc \<Longrightarrow> dff_get (buffer f ! ((c + i) mod fsize f)) = L ! i"
    using l by blast+
  show "fifo_next f = drop (rn - c) L"
  proof (rule nth_equalityI)
    show "length (fifo_next f) = length (drop (rn - c) L)" using d by (simp add: window_lists[OF w])
    fix i assume "i < length (fifo_next f)"
    then have i: "rn + i < c + length L" by (simp add: window_lists[OF w])
    then show "fifo_next f ! i = drop (rn - c) L ! i"
      using new[of "rn - c + i"] d by (simp add: window_nth[OF w])
  qed
  show "fifo_avail f = take (wc - rn) (drop (rn - c) L)"
  proof (rule nth_equalityI)
    show "length (fifo_avail f) = length (take (wc - rn) (drop (rn - c) L))"
      using d by (simp add: window_lists[OF w])
    fix i assume "i < length (fifo_avail f)"
    then have i: "rn + i < wc" by (simp add: window_lists[OF w])
    then show "fifo_avail f ! i = take (wc - rn) (drop (rn - c) L) ! i"
      using cur[of "rn - c + i"] d by (simp add: window_nth[OF w])
  qed
qed

lemma log_push:
  assumes "fifo_log f c L rc rn wc" and "length L < fsize f" and "fifo_push x f = (True, f')"
  shows "fifo_log f' c (L @ [x]) rc rn wc"
proof -
  note l = assms(1)[unfolded fifo_log_def]
  note w = conjunct1[OF l]
  let ?wn = "c + length L"
  have d: "c \<le> rn" "rc \<le> rn" "rn \<le> wc" "wc \<le> ?wn" "length (buffer f) = fsize f" "0 < fsize f"
    using l by (auto simp: fifo_window_def)
  have lt: "?wn < rc + fsize f" and f': "f' = fifo_advance_wptr (fifo_write_slot (?wn mod fsize f) x f)"
    using assms(3) w by (auto simp: fifo_push_window[OF w] fifo_window_def split: if_splits)
  have w': "fifo_window f' rc rn wc (c + length (L @ [x]))"
    unfolding f' using window_advance_wptr[OF w lt] by simp
  have other: "(c + i) mod fsize f \<noteq> ?wn mod fsize f" if "i < length L" for i
    using mod_eq_near[of "fsize f" "c + i" ?wn] that assms(2) d by auto
  have len: "?wn mod fsize f < length (buffer f)" using d by simp
  have new: "dff_get_new (buffer f' ! ((c + i) mod fsize f)) = (L @ [x]) ! i" if "i < length (L @ [x])" for i
  proof (cases "i < length L")
    case True
    then show ?thesis using l other[OF True] by (simp add: f' nth_append)
  next
    case False
    then have "i = length L" using that by simp
    then show ?thesis using len by (simp add: f')
  qed
  have cur: "dff_get (buffer f' ! ((c + i) mod fsize f)) = (L @ [x]) ! i" if "c + i < wc" for i
    using l that d by (simp add: f' write_slot_get nth_append)
  show ?thesis using w' new cur l assms(2) by (simp add: fifo_log_def f')
qed

lemma log_pop:
  assumes "fifo_log f c L rc rn wc" and "fifo_pop f = (Some x, f')"
  shows "fifo_log f' c L rc (Suc rn) wc"
proof -
  note l = assms(1)[unfolded fifo_log_def]
  note w = conjunct1[OF l]
  have "rn < wc" "f' = fifo_advance_rptr f"
    using assms(2) w by (auto simp: fifo_pop_window[OF w] fifo_window_def split: if_splits)
  then show ?thesis using l window_advance_rptr[OF w] by (simp add: fifo_log_def)
qed

lemma log_sync:
  assumes "fifo_log f c L rc rn wc"
  shows "fifo_log (fifo_sync f) c L rn rn (c + length L)"
proof -
  note l = assms(1)[unfolded fifo_log_def]
  have "length (buffer f) = fsize f" "0 < fsize f" using l by (auto simp: fifo_window_def)
  then show ?thesis using l window_sync[OF conjunct1[OF l]] by (simp add: fifo_log_def)
qed

lemma log_start:
  assumes "fifo_settled f"
  obtains rc rn wc where "fifo_log f rn (fifo_next f) rc rn wc"
    and "(dff_get_new (rptr f), dff_get_new (rstage f)) = ring_at (fsize f) rn"
proof -
  have "fifo_inv f" using assms by (simp add: fifo_settled_def)
  then obtain rc rn wc wn where w: "fifo_window f rc rn wc wn" by (rule fifo_windowE)
  have d: "rn \<le> wc" "wc \<le> wn" "rc \<le> rn" "wn \<le> rc + fsize f" using w by (auto simp: fifo_window_def)
  have wn: "wn = rn + length (fifo_next f)" using d by (simp add: window_lists[OF w])
  have pre: "take (length (fifo_avail f)) (fifo_next f) = fifo_avail f" using assms by (simp add: fifo_settled_def)
  have "dff_get (buffer f ! ((rn + i) mod fsize f)) = fifo_next f ! i" if "rn + i < wc" for i
  proof -
    have "fifo_avail f ! i = fifo_next f ! i"
      using that d arg_cong[OF pre, of "\<lambda>l. l ! i"] by (simp add: window_lists[OF w])
    moreover have "fifo_avail f ! i = dff_get (buffer f ! ((rn + i) mod fsize f))"
      using that by (simp add: window_nth[OF w])
    ultimately show ?thesis by simp
  qed
  moreover have "dff_get_new (buffer f ! ((rn + i) mod fsize f)) = fifo_next f ! i" if "i < length (fifo_next f)" for i
    using that by (simp add: window_lists[OF w])
  ultimately have "fifo_log f rn (fifo_next f) rc rn wc"
    using w d wn by (simp add: fifo_log_def)
  moreover have "(dff_get_new (rptr f), dff_get_new (rstage f)) = ring_at (fsize f) rn"
    using w by (simp add: fifo_window_def pos_defs)
  ultimately show ?thesis by (rule that)
qed

lemma restore_loop_log:
  assumes "0 < fsize f" and "dff_get (rptr f) = rc mod fsize f" and "dff_get (rstage f) = odd (rc div fsize f)"
    and "\<forall>i. c + i < rc \<longrightarrow> dff_get (buffer f ! ((c + i) mod fsize f)) = L ! i"
    and "rc \<le> c + length L" and "length L \<le> fsize f" and "distinct L"
    and "c \<le> k" and "k \<le> rc" and "s = set (drop (rc - c) L) \<union> set (take (k - c) L)"
  shows "free_list_restore_loop f (k mod fsize f) (odd (k div fsize f)) s = Some (set L)"
  using assms(8-10)
proof (induction "rc - k" arbitrary: k s)
  case 0
  then have "k = rc" by simp
  moreover have "set (take (rc - c) L) \<union> set (drop (rc - c) L) = set L"
    by (metis append_take_drop_id set_append)
  ultimately show ?case using assms 0 by (subst free_list_restore_loop.simps) (simp add: Un_commute)
next
  case (Suc n)
  let ?x = "L ! (k - c)"
  have k: "k < rc" using Suc.hyps(2) by simp
  have idx: "k - c < length L" "k - c < rc - c" using k Suc.prems(1) assms(5) by auto
  have val: "dff_get (buffer f ! (k mod fsize f)) = ?x" using assms(4) k Suc.prems(1) by (metis le_add_diff_inverse)
  have fresh: "?x \<notin> s"
  proof -
    have "?x \<in> set (take (rc - c) L)" using idx by (auto simp: in_set_conv_nth)
    then have "?x \<notin> set (drop (rc - c) L)" using assms(7) set_take_disj_set_drop_if_distinct[of L "rc - c" "rc - c"] by auto
    moreover have "?x \<notin> set (take (k - c) L)"
      using idx(1) assms(7) by (auto simp: in_set_conv_nth nth_eq_iff_index_eq)
    ultimately show ?thesis using Suc.prems(3) by simp
  qed
  have ne: "\<not> (k mod fsize f = rc mod fsize f \<and> odd (k div fsize f) = odd (rc div fsize f))"
    using ring_at_eq_near[OF assms(1), of k rc] k assms(5,6) Suc.prems(1) by (auto simp: ring_at_def)
  have nxt: "(if k mod fsize f + 1 \<ge> fsize f then 0 else k mod fsize f + 1) = Suc k mod fsize f"
    "(if k mod fsize f + 1 \<ge> fsize f then \<not> odd (k div fsize f) else odd (k div fsize f)) = odd (Suc k div fsize f)"
    using ring_at_Suc[OF assms(1), of k] by (auto simp: ring_at_def split: if_splits)
  have step: "free_list_restore_loop f (k mod fsize f) (odd (k div fsize f)) s =
      free_list_restore_loop f (Suc k mod fsize f) (odd (Suc k div fsize f)) (insert ?x s)"
    using fresh ne assms(2,3) by (subst free_list_restore_loop.simps) (simp only: nxt val, auto)
  have "insert ?x s = set (drop (rc - c) L) \<union> set (take (Suc k - c) L)"
    using Suc.prems(1,3) idx(1) by (simp add: Suc_diff_le take_Suc_conv_app_nth)
  then show ?case
    unfolding step using Suc.hyps k Suc.prems(1) by (intro Suc.hyps(1)) auto
qed

lemma free_list_restore_log:
  assumes "fifo_log (fl_fifo fl) c L rc rc wc" and "c \<le> rc" and "distinct L"
    and "fl_set fl = set (free_regs fl)" and "\<forall>x \<in> set L. x < fsize (fl_fifo fl)"
  shows "\<exists>fl'. free_list_restore (c mod fsize (fl_fifo fl)) (odd (c div fsize (fl_fifo fl))) fl = Some fl' \<and>
    fl_set fl' = set L \<and> free_list_inv (free_list_sync fl') \<and> free_regs (free_list_sync fl') = L"
proof -
  let ?f = "fl_fifo fl" and ?sz = "fsize (fl_fifo fl)"
  note l = assms(1)[unfolded fifo_log_def]
  note w = conjunct1[OF l]
  note d = w[unfolded fifo_window_def]
  let ?g = "?f\<lparr>rptr := dff_set (c mod ?sz) (rptr ?f), rstage := dff_set (odd (c div ?sz)) (rstage ?f)\<rparr>"
  have len: "rc \<le> c + length L" "length L \<le> ?sz" using l d by auto
  have cur: "\<forall>i. c + i < rc \<longrightarrow> dff_get (buffer ?g ! ((c + i) mod fsize ?g)) = L ! i" using l d by auto
  have ptr: "dff_get (rptr ?g) = rc mod fsize ?g" "dff_get (rstage ?g) = odd (rc div fsize ?g)"
    using d by (simp_all add: pos_defs ring_at_def)
  have set: "fl_set fl = set (drop (rc - c) L) \<union> set (take (c - c) L)"
    using assms(4) log_lists(1)[OF assms(1)] by (simp add: free_regs_def)
  have loop: "free_list_restore_loop ?g (c mod ?sz) (odd (c div ?sz)) (fl_set fl) = Some (set L)"
    using restore_loop_log[of ?g rc c L c, OF _ ptr cur len(1) _ assms(3) order_refl assms(2) set] d len by simp
  have used: "producer_get_used_space ?g = card (fl_set fl)"
  proof -
    have "producer_get_used_space ?g = producer_get_used_space ?f"
      by (simp add: producer_get_used_space_def producer_is_full_def)
    also have "\<dots> = length L - (rc - c)" using window_used(1)[OF w] assms(2) by simp
    finally show ?thesis using set assms(3) by (simp add: distinct_card)
  qed
  let ?fl = "fl\<lparr>fl_fifo := ?g, fl_set := set L\<rparr>"
  have ws: "fifo_window (fifo_sync ?g) c c (c + length L) (c + length L)"
    using d len by (auto simp: fifo_window_def fifo_sync_def pos_defs ring_at_def)
  have "fifo_log (fifo_sync ?g) c L c c (c + length L)"
    using l d ws by (simp add: fifo_log_def)
  from log_lists[OF this] have nx: "fifo_next (fifo_sync ?g) = L" "fifo_avail (fifo_sync ?g) = L"
    by simp_all
  have inv: "free_list_inv (free_list_sync ?fl)" "free_regs (free_list_sync ?fl) = L"
    using nx window_inv[OF ws] assms(3,5)
    by (simp_all add: free_list_inv_def free_list_sync_def free_regs_def fifo_settled_def)
  have "new_get_used_space ?g = new_get_used_space (fifo_sync ?g)"
    by (simp add: new_get_used_space_def new_is_full_def fifo_sync_def)
  then have "free_list_check ?fl"
    using free_list_inv_check[OF inv(1)] by (simp add: free_list_check_def free_list_sync_def)
  then have "free_list_restore (c mod ?sz) (odd (c div ?sz)) fl = Some ?fl"
    using d used loop by (simp add: free_list_restore_def)
  then show ?thesis using inv by auto
qed

subsection \<open>Sequences of operations\<close>

fun free_list_run :: "nat queue_op list \<Rightarrow> free_list \<Rightarrow> (nat list \<times> nat list \<times> free_list) option" where
  "free_list_run [] fl = Some ([], [], fl)"
| "free_list_run (Push x # ops) fl =
     do {
       (ret, fl') \<leftarrow> free_list_push x fl;
       (ins, outs, fl'') \<leftarrow> free_list_run ops fl';
       Some (if ret then x # ins else ins, outs, fl'')
     }"
| "free_list_run (Pop # ops) fl =
     do {
       (r, fl') \<leftarrow> free_list_pop fl;
       (ins, outs, fl'') \<leftarrow> free_list_run ops fl';
       Some (ins, (case r of None \<Rightarrow> outs | Some x \<Rightarrow> x # outs), fl'')
     }"
| "free_list_run (Clock # ops) fl = free_list_run ops (free_list_sync fl)"

lemma free_list_run_log:
  assumes "free_list_run ops fl = Some (ins, outs, fl')" and "free_list_inv fl"
    and "fifo_log (fl_fifo fl) c L rc rn wc" and "length (L @ ins) \<le> fsize (fl_fifo fl)"
  shows "free_list_inv fl' \<and> fsize (fl_fifo fl') = fsize (fl_fifo fl) \<and>
    (\<exists>rc rn wc. fifo_log (fl_fifo fl') c (L @ ins) rc rn wc) \<and> free_regs fl @ ins = outs @ free_regs fl'"
  using assms
proof (induction ops fl arbitrary: ins outs L rc rn wc rule: free_list_run.induct)
  case (2 x ops fl)
  from 2(2) obtain ret fl1 ins1 where p: "free_list_push x fl = Some (ret, fl1)"
    and r: "free_list_run ops fl1 = Some (ins1, outs, fl')" and i: "ins = (if ret then x # ins1 else ins1)"
    by (auto elim!: bind_eq_SomeE)
  have pre: "x < fsize (fl_fifo fl)" "x \<notin> fl_set fl"
    using p by (auto simp: free_list_push_def split: if_splits)
  then have "x \<notin> set (free_regs fl)" using 2(3) by (simp add: free_list_inv_def)
  from free_list_push_abs[OF 2(3) pre(1) this] p have fl1: "free_list_inv fl1"
    "free_regs fl1 = free_regs fl @ (if ret then [x] else [])" "fifo_push x (fl_fifo fl) = (ret, fl_fifo fl1)"
    by auto
  have sz: "fsize (fl_fifo fl1) = fsize (fl_fifo fl)"
    using fifo_push_abs(3)[OF _ fl1(3)] 2(3) by (simp add: free_list_inv_def fifo_settled_def)
  show ?case
  proof (cases ret)
    case True
    have lt: "length L < fsize (fl_fifo fl)" using 2(5) i True by simp
    have lg: "fifo_log (fl_fifo fl1) c (L @ [x]) rc rn wc"
      using log_push[OF 2(4) lt] fl1(3) True by simp
    show ?thesis using 2(1)[OF _ _ r fl1(1) lg] p 2(5) i True sz fl1(2) by auto
  next
    case False
    then have "fl_fifo fl1 = fl_fifo fl" using fl1(3) by (auto simp: fifo_push_def split: if_splits)
    then have lg: "fifo_log (fl_fifo fl1) c L rc rn wc" using 2(4) by simp
    show ?thesis using 2(1)[OF _ _ r fl1(1) lg] p 2(5) i False sz fl1(2) by auto
  qed
next
  case (3 ops fl)
  from 3(2) obtain q fl1 outs1 where p: "free_list_pop fl = Some (q, fl1)"
    and r: "free_list_run ops fl1 = Some (ins, outs1, fl')"
    and o: "outs = (case q of None \<Rightarrow> outs1 | Some x \<Rightarrow> x # outs1)"
    by (auto elim!: bind_eq_SomeE)
  from free_list_pop_abs[OF 3(3)] p have fl1: "free_list_inv fl1"
    "free_regs fl = (case q of None \<Rightarrow> [] | Some d \<Rightarrow> [d]) @ free_regs fl1"
    "fifo_pop (fl_fifo fl) = (q, fl_fifo fl1)"
    by auto
  have sz: "fsize (fl_fifo fl1) = fsize (fl_fifo fl)"
    using fifo_pop_abs(3)[OF _ fl1(3)] 3(3) by (simp add: free_list_inv_def fifo_settled_def)
  have "\<exists>rn. fifo_log (fl_fifo fl1) c L rc rn wc"
  proof (cases q)
    case None
    then have "fl_fifo fl1 = fl_fifo fl" using fl1(3) by (auto simp: fifo_pop_def split: if_splits)
    then show ?thesis using 3(4) by auto
  next
    case (Some d)
    then show ?thesis using log_pop[OF 3(4)] fl1(3) by auto
  qed
  then obtain rn' where lg: "fifo_log (fl_fifo fl1) c L rc rn' wc" by blast
  show ?case using 3(1)[OF _ _ r fl1(1) lg] p 3(5) sz fl1(2) o by (auto split: option.splits)
next
  case (4 ops fl)
  have s: "free_list_inv (free_list_sync fl)" "free_regs (free_list_sync fl) = free_regs fl"
    using free_list_sync_abs[OF 4(3)] by simp_all
  have "fifo_log (fl_fifo (free_list_sync fl)) c L rn rn (c + length L)"
    using log_sync[OF 4(4)] by (simp add: free_list_sync_def)
  then show ?case using 4(1)[OF _ s(1)] 4(2,5) s(2) by (simp add: free_list_sync_def)
qed auto

subsection \<open>Properties\<close>

text \<open>
  Registers are handed out at most once: from a state that satisfies the invariant, a pop
  returns a register that was free and is no longer free afterwards, a push of a register that
  is not free makes it free, neither aborts, and no register is ever listed twice. A new list
  holds every register once.
\<close>

theorem free_list_hands_out_once:
  assumes "free_list_inv fl" and "data < fsize (fl_fifo fl)" and "data \<notin> set (free_regs fl)"
  shows "(\<exists>r fl'. free_list_pop fl = Some (r, fl') \<and> free_list_inv fl' \<and>
      (case r of None \<Rightarrow> fl' = fl
       | Some d \<Rightarrow> d \<in> set (free_regs fl) \<and> d < fsize (fl_fifo fl) \<and> set (free_regs fl') = set (free_regs fl) - {d}))
    \<and> (\<exists>ret fl'. free_list_push data fl = Some (ret, fl') \<and> free_list_inv fl' \<and>
      (if ret then set (free_regs fl') = insert data (set (free_regs fl)) else free_regs fl' = free_regs fl))
    \<and> (\<forall>n > 0. \<exists>fl0. free_list_make n = Some fl0 \<and> free_list_inv fl0 \<and> free_regs fl0 = [0..<n])"
proof -
  obtain r fl1 where pop: "free_list_pop fl = Some (r, fl1)" "free_list_inv fl1"
    "free_regs fl = (case r of None \<Rightarrow> [] | Some d \<Rightarrow> [d]) @ free_regs fl1"
    "fifo_pop (fl_fifo fl) = (r, fl_fifo fl1)"
    using free_list_pop_abs[OF assms(1)] by blast
  have same: "r = None \<Longrightarrow> fl1 = fl"
    using pop(1,4) by (cases fl; cases fl1) (auto simp: free_list_pop_def fifo_pop_def Let_def split: if_splits)
  have d: "distinct (free_regs fl)" "\<forall>x \<in> set (free_regs fl). x < fsize (fl_fifo fl)"
    using assms(1) by (auto simp: free_list_inv_def)
  have "\<exists>r fl'. free_list_pop fl = Some (r, fl') \<and> free_list_inv fl' \<and>
      (case r of None \<Rightarrow> fl' = fl
       | Some d \<Rightarrow> d \<in> set (free_regs fl) \<and> d < fsize (fl_fifo fl) \<and> set (free_regs fl') = set (free_regs fl) - {d})"
  proof (cases r)
    case None
    then show ?thesis using pop(1,2) same by (intro exI[of _ r] exI[of _ fl1]) simp
  next
    case (Some x)
    have e: "free_regs fl = x # free_regs fl1" using pop(3) Some by simp
    have "x \<notin> set (free_regs fl1)" "x < fsize (fl_fifo fl)" using d unfolding e by simp_all
    then have "x \<in> set (free_regs fl)" "x < fsize (fl_fifo fl)" "set (free_regs fl1) = set (free_regs fl) - {x}"
      unfolding e by simp_all
    then show ?thesis using pop(1,2) Some by (intro exI[of _ r] exI[of _ fl1]) simp
  qed
  moreover have "\<exists>ret fl'. free_list_push data fl = Some (ret, fl') \<and> free_list_inv fl' \<and>
      (if ret then set (free_regs fl') = insert data (set (free_regs fl)) else free_regs fl' = free_regs fl)"
  proof -
    obtain ret fl' where p: "free_list_push data fl = Some (ret, fl')" "free_list_inv fl'"
      and r: "free_regs fl' = free_regs fl @ (if ret then [data] else [])"
      using free_list_push_abs[OF assms] by blast
    then show ?thesis by (intro exI[of _ ret] exI[of _ fl']) (cases ret, simp_all)
  qed
  moreover have "\<forall>n > 0. \<exists>fl0. free_list_make n = Some fl0 \<and> free_list_inv fl0 \<and> free_regs fl0 = [0..<n]"
    using free_list_make_abs by blast
  ultimately show ?thesis by (intro conjI)
qed

definition demo_free :: free_list where
  "demo_free = free_list_sync (the (free_list_make 3))"

lemma demo_free_ok: "free_list_inv demo_free" "free_regs demo_free = [0, 1, 2]" "fsize (fl_fifo demo_free) = 3"
proof -
  obtain fl where fl: "free_list_make 3 = Some fl" "free_list_inv fl" "free_regs fl = [0..<3]" "fsize (fl_fifo fl) = 3"
    using free_list_make_abs[of 3] by auto
  then show "free_list_inv demo_free" "free_regs demo_free = [0, 1, 2]" "fsize (fl_fifo demo_free) = 3"
    using free_list_sync_abs[OF fl(2)]
    by (simp_all add: demo_free_def free_list_sync_def upt_rec)
qed

text \<open>
  C25. Restoring a saved read pointer undoes every allocation since it was saved: after any
  sequence of pushes, pops and clock edges, at a clock edge, \<^verbatim>\<open>restore\<close> ends without a
  failed assertion and leaves exactly the registers that were free when the pointer was saved,
  followed by those pushed since, and the invariant holds again. The hypothesis is that no
  register was freed since that was already free at the save.
\<close>

theorem free_list_restore_undoes:
  assumes "free_list_inv fl" and "free_list_save fl = (p, st)"
    and "free_list_run ops fl = Some (ins, outs, fl1)" and "distinct (free_regs fl @ ins)"
    and "\<forall>x \<in> set ins. x < fsize (fl_fifo fl)"
  shows "\<exists>fl2. free_list_restore p st (free_list_sync fl1) = Some fl2 \<and> fl_set fl2 = set (free_regs fl @ ins) \<and>
    free_regs (free_list_sync fl2) = free_regs fl @ ins \<and> free_list_inv (free_list_sync fl2)"
proof -
  have all: "\<forall>x \<in> set (free_regs fl @ ins). x < fsize (fl_fifo fl)"
    using assms(1,5) by (auto simp: free_list_inv_def)
  have len: "length (free_regs fl @ ins) \<le> fsize (fl_fifo fl)"
    using distinct_card[OF assms(4)] all card_mono[of "{..<fsize (fl_fifo fl)}" "set (free_regs fl @ ins)"]
    by (simp add: subset_eq)
  have "fifo_settled (fl_fifo fl)" using assms(1) by (simp add: free_list_inv_def)
  then obtain rc rn wc where l0: "fifo_log (fl_fifo fl) rn (free_regs fl) rc rn wc"
    and pos: "(dff_get_new (rptr (fl_fifo fl)), dff_get_new (rstage (fl_fifo fl))) = ring_at (fsize (fl_fifo fl)) rn"
    unfolding free_regs_def by (rule log_start)
  obtain rc1 rn1 wc1 where l1: "fifo_log (fl_fifo fl1) rn (free_regs fl @ ins) rc1 rn1 wc1"
    and i1: "free_list_inv fl1" "fsize (fl_fifo fl1) = fsize (fl_fifo fl)"
    using free_list_run_log[OF assms(3,1) l0 len] by blast
  have l2: "fifo_log (fl_fifo (free_list_sync fl1)) rn (free_regs fl @ ins) rn1 rn1 (rn + length (free_regs fl @ ins))"
    using log_sync[OF l1] by (simp add: free_list_sync_def)
  have le: "rn \<le> rn1" using l1 by (simp add: fifo_log_def)
  have sz: "fsize (fl_fifo (free_list_sync fl1)) = fsize (fl_fifo fl)" using i1 by (simp add: free_list_sync_def)
  have st: "p = rn mod fsize (fl_fifo fl)" "st = odd (rn div fsize (fl_fifo fl))"
    using pos assms(2) by (simp_all add: free_list_save_def ring_at_def)
  have "fl_set (free_list_sync fl1) = set (free_regs (free_list_sync fl1))"
    using free_list_sync_abs[OF i1(1)] by (simp add: free_list_inv_def)
  then show ?thesis
    using free_list_restore_log[OF l2 le assms(4)] all unfolding st sz by auto
qed

theorem free_list_restore_undoes_witness:
  "\<exists>fl1 fl2. free_list_run [Pop, Clock, Pop] demo_free = Some ([], [0, 1], fl1) \<and>
     free_list_restore 0 False (free_list_sync fl1) = Some fl2 \<and> free_regs (free_list_sync fl2) = [0, 1, 2]"
proof -
  have "map_option (\<lambda>x. (fst x, fst (snd x))) (free_list_run [Pop, Clock, Pop] demo_free) = Some ([], [0, 1])"
    by code_simp
  then obtain fl1 where r: "free_list_run [Pop, Clock, Pop] demo_free = Some ([], [0, 1], fl1)" by auto
  have sv: "free_list_save demo_free = (0, False)" by code_simp
  show ?thesis
    using free_list_restore_undoes[OF demo_free_ok(1) sv r] r demo_free_ok(2) by auto
qed

end
