(* ===== verification/Reg_Alias.thy ===== *)
theory Reg_Alias
  imports Dff
begin

text \<open>
  \<^verbatim>\<open>component/rat.h\<close> and \<^verbatim>\<open>component/checkpoint.h\<close>: the register alias table. It is
  indexed by physical register: entry \<open>i\<close> holds the architectural register that \<open>i\<close>
  stands for and whether it currently does. The abstraction is a partial map from
  architectural to physical registers; \<^verbatim>\<open>set_map\<close> is the update of that map, and
  restoring the valid bits that a checkpoint saved brings the saved map back.
\<close>

record checkpoint_t =
  cp_phy_map_table_valid :: "bool list"
  cp_old_phy_id_free_list_rptr :: nat
  cp_old_phy_id_free_list_rstage :: bool
  cp_new_phy_id_free_list_rptr :: nat
  cp_new_phy_id_free_list_rstage :: bool
  cp_old_checkpoint_buffer_wptr :: nat
  cp_old_checkpoint_buffer_wstage :: bool
  cp_new_checkpoint_buffer_wptr :: nat
  cp_new_checkpoint_buffer_wstage :: bool
  cp_old_load_queue_wptr :: nat
  cp_old_load_queue_wstage :: bool
  cp_old_store_buffer_wptr :: nat
  cp_old_store_buffer_wstage :: bool

text \<open>\<^verbatim>\<open>clone_to\<close> leaves the four \<^verbatim>\<open>old_\<close> fields of the free list and the checkpoint buffer alone.\<close>

definition clone_to :: "checkpoint_t \<Rightarrow> checkpoint_t \<Rightarrow> checkpoint_t" where
  "clone_to src cp =
     cp\<lparr>cp_phy_map_table_valid := cp_phy_map_table_valid src,
        cp_new_phy_id_free_list_rptr := cp_new_phy_id_free_list_rptr src,
        cp_new_phy_id_free_list_rstage := cp_new_phy_id_free_list_rstage src,
        cp_new_checkpoint_buffer_wptr := cp_new_checkpoint_buffer_wptr src,
        cp_new_checkpoint_buffer_wstage := cp_new_checkpoint_buffer_wstage src,
        cp_old_load_queue_wptr := cp_old_load_queue_wptr src,
        cp_old_load_queue_wstage := cp_old_load_queue_wstage src,
        cp_old_store_buffer_wptr := cp_old_store_buffer_wptr src,
        cp_old_store_buffer_wstage := cp_old_store_buffer_wstage src\<rparr>"

record rat =
  phy_reg_num :: nat
  arch_reg_num :: nat
  phy_map_table :: "nat dff list"
  phy_map_table_valid :: "bool dff list"
  init_rat :: bool

definition rat_reset :: "rat \<Rightarrow> rat" where
  "rat_reset r =
     r\<lparr>phy_map_table := map (dff_set 0) (phy_map_table r),
       phy_map_table_valid := map (dff_set False) (phy_map_table_valid r)\<rparr>"

definition rat_make :: "nat \<Rightarrow> nat \<Rightarrow> rat" where
  "rat_make phys archs =
     rat_reset \<lparr>phy_reg_num = phys, arch_reg_num = archs,
       phy_map_table = replicate phys (dff_make 0),
       phy_map_table_valid = replicate phys (dff_make False), init_rat = False\<rparr>"

definition rat_init_start :: "rat \<Rightarrow> rat" where
  "rat_init_start r =
     r\<lparr>phy_map_table := map (dff_set 0) (phy_map_table r),
       phy_map_table_valid := map (dff_set False) (phy_map_table_valid r),
       init_rat := True\<rparr>"

definition rat_init_finish :: "rat \<Rightarrow> rat" where
  "rat_init_finish r = r\<lparr>init_rat := False\<rparr>"

definition rat_sync :: "rat \<Rightarrow> rat" where
  "rat_sync r =
     r\<lparr>phy_map_table := map dff_sync (phy_map_table r),
       phy_map_table_valid := map dff_sync (phy_map_table_valid r)\<rparr>"

definition set_valid :: "nat \<Rightarrow> bool \<Rightarrow> rat \<Rightarrow> rat option" where
  "set_valid phy_id v r =
     do {
       verify (phy_id < phy_reg_num r);
       Some (r\<lparr>phy_map_table_valid :=
         (phy_map_table_valid r)[phy_id := dff_set v (phy_map_table_valid r ! phy_id)]\<rparr>)
     }"

definition producer_get_valid :: "rat \<Rightarrow> nat \<Rightarrow> bool option" where
  "producer_get_valid r phy_id =
     do { verify (phy_id < phy_reg_num r); Some (dff_get_new (phy_map_table_valid r ! phy_id)) }"

definition customer_get_valid :: "rat \<Rightarrow> nat \<Rightarrow> bool option" where
  "customer_get_valid r phy_id =
     do { verify (phy_id < phy_reg_num r); Some (dff_get (phy_map_table_valid r ! phy_id)) }"

definition rat_load :: "rat \<Rightarrow> rat \<Rightarrow> rat" where
  "rat_load element r =
     r\<lparr>phy_map_table := map (\<lambda>i. dff_set (dff_get_new (phy_map_table element ! i)) (phy_map_table r ! i))
         [0..<phy_reg_num r],
       phy_map_table_valid := map (\<lambda>i. dff_set (dff_get_new (phy_map_table_valid element ! i))
         (phy_map_table_valid r ! i)) [0..<phy_reg_num r]\<rparr>"

text \<open>
  The search loop of \<^verbatim>\<open>producer_get_phy_id\<close> and \<^verbatim>\<open>customer_get_phy_id\<close>: it visits every entry,
  counts the hits and leaves the last one in \<^verbatim>\<open>*phy_id\<close>, which keeps its old value when there is none.
\<close>

primrec phy_id_loop :: "(nat \<Rightarrow> bool) \<Rightarrow> nat list \<Rightarrow> nat \<Rightarrow> nat \<Rightarrow> nat \<times> nat" where
  "phy_id_loop hit [] cnt phy_id = (cnt, phy_id)"
| "phy_id_loop hit (i # is) cnt phy_id =
     (if hit i then phy_id_loop hit is (cnt + 1) i else phy_id_loop hit is cnt phy_id)"

definition producer_hit :: "rat \<Rightarrow> nat \<Rightarrow> nat \<Rightarrow> bool" where
  "producer_hit r arch_id i \<longleftrightarrow>
     producer_get_valid r i = Some True \<and> dff_get_new (phy_map_table r ! i) = arch_id"

definition customer_hit :: "rat \<Rightarrow> nat \<Rightarrow> nat \<Rightarrow> bool" where
  "customer_hit r arch_id i \<longleftrightarrow>
     customer_get_valid r i = Some True \<and> dff_get (phy_map_table r ! i) = arch_id"

definition producer_get_phy_id :: "rat \<Rightarrow> nat \<Rightarrow> nat \<Rightarrow> (bool \<times> nat) option" where
  "producer_get_phy_id r arch_id phy_id =
     do {
       verify (0 < arch_id \<and> arch_id < arch_reg_num r);
       let (cnt, phy_id') = phy_id_loop (producer_hit r arch_id) [0..<phy_reg_num r] 0 phy_id;
       verify (cnt \<le> 1);
       Some (cnt = 1, phy_id')
     }"

definition customer_get_phy_id :: "rat \<Rightarrow> nat \<Rightarrow> nat \<Rightarrow> (bool \<times> nat) option" where
  "customer_get_phy_id r arch_id phy_id =
     do {
       verify (0 < arch_id \<and> arch_id < arch_reg_num r);
       let (cnt, phy_id') = phy_id_loop (customer_hit r arch_id) [0..<phy_reg_num r] 0 phy_id;
       verify (cnt \<le> 1);
       Some (cnt = 1, phy_id')
     }"

definition set_map :: "nat \<Rightarrow> nat \<Rightarrow> rat \<Rightarrow> (nat \<times> rat) option" where
  "set_map arch_id phy_id r =
     do {
       verify (phy_id < phy_reg_num r);
       verify (0 < arch_id \<and> arch_id < arch_reg_num r);
       v \<leftarrow> producer_get_valid r phy_id;
       verify (\<not> v);
       (ret, old_phy_id) \<leftarrow> producer_get_phy_id r arch_id 0;
       (if init_rat r then Some ()
        else do { verify ret; ov \<leftarrow> producer_get_valid r old_phy_id; verify ov });
       r1 \<leftarrow> set_valid phy_id True
          (r\<lparr>phy_map_table := (phy_map_table r)[phy_id := dff_set arch_id (phy_map_table r ! phy_id)]\<rparr>);
       r2 \<leftarrow> (if ret then set_valid old_phy_id False r1 else Some r1);
       Some (old_phy_id, r2)
     }"

text \<open>
  \<^verbatim>\<open>restore_map\<close> assigns an integer to a \<^verbatim>\<open>dff\<close>, which replaces the whole register by a
  freshly constructed one.
\<close>

definition restore_map :: "nat \<Rightarrow> nat \<Rightarrow> rat \<Rightarrow> rat option" where
  "restore_map new_phy_id old_phy_id r =
     do {
       verify (new_phy_id < phy_reg_num r);
       verify (old_phy_id < phy_reg_num r);
       vn \<leftarrow> producer_get_valid r new_phy_id;
       verify vn;
       vo \<leftarrow> producer_get_valid r old_phy_id;
       verify vo;
       r1 \<leftarrow> set_valid new_phy_id False (r\<lparr>phy_map_table := (phy_map_table r)[new_phy_id := dff_make 0]\<rparr>);
       set_valid old_phy_id True r1
     }"

text \<open>
  The checkpoint loops run over the constant \<^verbatim>\<open>PHY_REG_NUM\<close>; on a table with fewer entries they
  would leave the array, which is \<open>None\<close>.
\<close>

definition producer_save_to_checkpoint :: "rat \<Rightarrow> checkpoint_t \<Rightarrow> checkpoint_t option" where
  "producer_save_to_checkpoint r cp =
     (if PHY_REG_NUM \<le> phy_reg_num r
      then Some (cp\<lparr>cp_phy_map_table_valid :=
             map (\<lambda>i. dff_get_new (phy_map_table_valid r ! i)) [0..<PHY_REG_NUM]\<rparr>)
      else None)"

definition restore_from_checkpoint :: "checkpoint_t \<Rightarrow> rat \<Rightarrow> rat option" where
  "restore_from_checkpoint cp r =
     (if PHY_REG_NUM \<le> phy_reg_num r
      then Some (r\<lparr>phy_map_table_valid :=
             map (\<lambda>i. if i < PHY_REG_NUM
                then dff_set (cp_phy_map_table_valid cp ! i) (phy_map_table_valid r ! i)
                else phy_map_table_valid r ! i) [0..<phy_reg_num r]\<rparr>)
      else None)"

subsection \<open>The map a table stands for\<close>

definition rat_shape :: "rat \<Rightarrow> bool" where
  "rat_shape r \<longleftrightarrow> length (phy_map_table r) = phy_reg_num r \<and> length (phy_map_table_valid r) = phy_reg_num r"

definition vld :: "rat \<Rightarrow> nat \<Rightarrow> bool" where
  "vld r i \<longleftrightarrow> i < phy_reg_num r \<and> dff_get_new (phy_map_table_valid r ! i)"

definition arch_of :: "rat \<Rightarrow> nat \<Rightarrow> nat" where
  "arch_of r i = dff_get_new (phy_map_table r ! i)"

definition rat_inv :: "rat \<Rightarrow> bool" where
  "rat_inv r \<longleftrightarrow> rat_shape r
     \<and> (\<forall>i < phy_reg_num r. vld r i \<longrightarrow> 0 < arch_of r i \<and> arch_of r i < arch_reg_num r)
     \<and> (\<forall>i < phy_reg_num r. \<forall>j < phy_reg_num r. vld r i \<longrightarrow> vld r j \<longrightarrow> arch_of r i = arch_of r j \<longrightarrow> i = j)"

definition rat_abs :: "rat \<Rightarrow> nat \<Rightarrow> nat option" where
  "rat_abs r a = find (\<lambda>i. vld r i \<and> arch_of r i = a) [0..<phy_reg_num r]"

text \<open>What the consumer side reads: the table as of the last clock edge.\<close>

definition rat_abs_cur :: "rat \<Rightarrow> nat \<Rightarrow> nat option" where
  "rat_abs_cur r a =
     find (\<lambda>i. dff_get (phy_map_table_valid r ! i) \<and> dff_get (phy_map_table r ! i) = a) [0..<phy_reg_num r]"

lemma producer_hit_iff: "producer_hit r a i \<longleftrightarrow> vld r i \<and> arch_of r i = a"
  by (auto simp: producer_hit_def producer_get_valid_def vld_def arch_of_def split: if_splits)

lemma producer_get_valid_eq: "i < phy_reg_num r \<Longrightarrow> producer_get_valid r i = Some (vld r i)"
  by (simp add: producer_get_valid_def vld_def)

lemma phy_id_loop_none: "\<forall>i \<in> set is. \<not> hit i \<Longrightarrow> phy_id_loop hit is cnt p = (cnt, p)"
  by (induction "is" arbitrary: cnt p) auto

lemma phy_id_loop_one:
  assumes "distinct is" and "i \<in> set is" and "\<And>j. hit j \<longleftrightarrow> j = i"
  shows "phy_id_loop hit is cnt p = (Suc cnt, i)"
  using assms(1,2)
proof (induction "is" arbitrary: cnt p)
  case (Cons x xs)
  then show ?case by (cases "x = i") (auto simp: assms(3) intro!: phy_id_loop_none)
qed simp

lemma rat_abs_iff:
  assumes "rat_inv r"
  shows "rat_abs r a = Some p \<longleftrightarrow> vld r p \<and> arch_of r p = a"
proof
  assume "rat_abs r a = Some p"
  then show "vld r p \<and> arch_of r p = a"
    unfolding rat_abs_def find_Some_iff by auto
next
  assume h: "vld r p \<and> arch_of r p = a"
  have "rat_abs r a \<noteq> None" using h by (auto simp: rat_abs_def find_None_iff vld_def)
  then obtain q where q: "rat_abs r a = Some q" by auto
  then have "vld r q \<and> arch_of r q = a" "q < phy_reg_num r" unfolding rat_abs_def find_Some_iff by auto
  then have "p = q" using assms h by (auto simp: rat_inv_def vld_def)
  then show "rat_abs r a = Some p" using q by simp
qed

lemma rat_abs_none: "rat_abs r a = None \<longleftrightarrow> (\<forall>p. \<not> (vld r p \<and> arch_of r p = a))"
  by (auto simp: rat_abs_def find_None_iff vld_def)

lemma rat_abs_ran: "rat_inv r \<Longrightarrow> ran (rat_abs r) = {p. vld r p}"
  by (auto simp: ran_def rat_abs_iff)

lemma rat_abs_bounds: "rat_inv r \<Longrightarrow> rat_abs r a = Some p \<Longrightarrow> p < phy_reg_num r \<and> 0 < a \<and> a < arch_reg_num r"
  by (auto simp: rat_abs_iff rat_inv_def vld_def)

lemma rat_abs_inj: "rat_inv r \<Longrightarrow> rat_abs r a = Some p \<Longrightarrow> rat_abs r b = Some p \<Longrightarrow> a = b"
  by (auto simp: rat_abs_iff)

lemma producer_get_phy_id_abs:
  assumes "rat_inv r" and "0 < a" and "a < arch_reg_num r"
  shows "producer_get_phy_id r a p = Some (rat_abs r a \<noteq> None, case rat_abs r a of None \<Rightarrow> p | Some q \<Rightarrow> q)"
proof (cases "rat_abs r a")
  case None
  then have "phy_id_loop (producer_hit r a) [0..<phy_reg_num r] 0 p = (0, p)"
    by (intro phy_id_loop_none) (simp add: producer_hit_iff rat_abs_none)
  then show ?thesis using None assms by (simp add: producer_get_phy_id_def)
next
  case (Some q)
  then have q: "vld r q" "arch_of r q = a" "q < phy_reg_num r"
    using rat_abs_iff[OF assms(1)] by (auto simp: vld_def)
  have "producer_hit r a j \<longleftrightarrow> j = q" for j
    using rat_abs_iff[OF assms(1), of a j] Some by (auto simp: producer_hit_iff)
  then have "phy_id_loop (producer_hit r a) [0..<phy_reg_num r] 0 p = (Suc 0, q)"
    using q(3) by (intro phy_id_loop_one) simp_all
  then show ?thesis using Some assms by (simp add: producer_get_phy_id_def)
qed

subsection \<open>Updates\<close>

lemma set_valid_eq:
  "i < phy_reg_num r \<Longrightarrow> set_valid i v r = Some (r\<lparr>phy_map_table_valid :=
     (phy_map_table_valid r)[i := dff_set v (phy_map_table_valid r ! i)]\<rparr>)"
  by (simp add: set_valid_def)

lemma dff_set_read [simp]:
  "dff_get_new (dff_set v d) = v" "dff_get (dff_set v d) = dff_get d"
  "dff_get_new (dff_sync d) = dff_get_new d" "dff_get (dff_sync d) = dff_get_new d"
  by (simp_all add: dff_get_new_def dff_get_def dff_set_def dff_sync_def)

text \<open>The entry-wise effect of \<^verbatim>\<open>set_map\<close>, from which both the map and the invariant follow.\<close>

definition remapped :: "nat \<Rightarrow> nat \<Rightarrow> rat \<Rightarrow> rat \<Rightarrow> bool" where
  "remapped a p r r' \<longleftrightarrow> rat_shape r' \<and> phy_reg_num r' = phy_reg_num r \<and> arch_reg_num r' = arch_reg_num r \<and>
     init_rat r' = init_rat r \<and>
     (\<forall>i. vld r' i \<longleftrightarrow> i = p \<or> vld r i \<and> rat_abs r a \<noteq> Some i) \<and>
     (\<forall>i < phy_reg_num r. arch_of r' i = (if i = p then a else arch_of r i)) \<and>
     rat_abs_cur r' = rat_abs_cur r"

lemma set_map_entries:
  assumes "rat_inv r" and "0 < a" and "a < arch_reg_num r" and "p < phy_reg_num r" and "\<not> vld r p"
    and "init_rat r \<or> rat_abs r a \<noteq> None"
  shows "\<exists>r'. set_map a p r = Some (case rat_abs r a of None \<Rightarrow> 0 | Some q \<Rightarrow> q, r') \<and> remapped a p r r'"
proof (cases "rat_abs r a")
  case None
  let ?r1 = "r\<lparr>phy_map_table := (phy_map_table r)[p := dff_set a (phy_map_table r ! p)],
    phy_map_table_valid := (phy_map_table_valid r)[p := dff_set True (phy_map_table_valid r ! p)]\<rparr>"
  have sh: "rat_shape r" using assms(1) by (simp add: rat_inv_def)
  have "set_map a p r = Some (0, ?r1)"
    using None assms by (simp add: set_map_def producer_get_valid_eq producer_get_phy_id_abs set_valid_eq)
  moreover have "rat_abs_cur ?r1 = rat_abs_cur r"
    using sh assms(4) by (auto simp: rat_abs_cur_def rat_shape_def nth_list_update fun_eq_iff intro!: arg_cong2[where f = find])
  moreover have "vld ?r1 i \<longleftrightarrow> i = p \<or> vld r i" for i
    using sh assms(4) by (auto simp: vld_def rat_shape_def nth_list_update)
  moreover have "i < phy_reg_num r \<Longrightarrow> arch_of ?r1 i = (if i = p then a else arch_of r i)" for i
    using sh assms(4) by (simp add: arch_of_def rat_shape_def)
  ultimately show ?thesis using None sh by (simp add: remapped_def rat_shape_def)
next
  case (Some q)
  let ?r1 = "r\<lparr>phy_map_table := (phy_map_table r)[p := dff_set a (phy_map_table r ! p)],
    phy_map_table_valid := (phy_map_table_valid r)[p := dff_set True (phy_map_table_valid r ! p)]\<rparr>"
  let ?r2 = "?r1\<lparr>phy_map_table_valid :=
    (phy_map_table_valid ?r1)[q := dff_set False (phy_map_table_valid ?r1 ! q)]\<rparr>"
  have sh: "rat_shape r" using assms(1) by (simp add: rat_inv_def)
  have q: "vld r q" "q < phy_reg_num r" "q \<noteq> p"
    using Some assms(5) rat_abs_iff[OF assms(1), of a q] by (auto simp: vld_def)
  have "set_map a p r = Some (q, ?r2)"
    using Some assms q by (simp add: set_map_def producer_get_valid_eq producer_get_phy_id_abs set_valid_eq)
  moreover have "rat_abs_cur ?r2 = rat_abs_cur r"
    using sh assms(4) q by (auto simp: rat_abs_cur_def rat_shape_def nth_list_update fun_eq_iff intro!: arg_cong2[where f = find])
  moreover have "vld ?r2 i \<longleftrightarrow> i = p \<or> vld r i \<and> i \<noteq> q" for i
    using sh assms(4) q by (auto simp: vld_def rat_shape_def nth_list_update)
  moreover have "i < phy_reg_num r \<Longrightarrow> arch_of ?r2 i = (if i = p then a else arch_of r i)" for i
    using sh assms(4) by (simp add: arch_of_def rat_shape_def)
  ultimately show ?thesis using Some sh by (auto simp: remapped_def rat_shape_def)
qed

lemma remapped_inv:
  assumes "rat_inv r" and "remapped a p r r'" and "0 < a" and "a < arch_reg_num r" and "p < phy_reg_num r"
    and "\<not> vld r p"
  shows "rat_inv r'" and "rat_abs r' = (rat_abs r)(a \<mapsto> p)"
proof -
  have v: "vld r' i \<longleftrightarrow> i = p \<or> vld r i \<and> rat_abs r a \<noteq> Some i" for i
    using assms(2) by (simp add: remapped_def)
  have ar: "i < phy_reg_num r \<Longrightarrow> arch_of r' i = (if i = p then a else arch_of r i)" for i
    using assms(2) by (simp add: remapped_def)
  have sz: "phy_reg_num r' = phy_reg_num r" "arch_reg_num r' = arch_reg_num r" "rat_shape r'"
    using assms(2) by (simp_all add: remapped_def)
  have in_range: "vld r i \<Longrightarrow> 0 < arch_of r i \<and> arch_of r i < arch_reg_num r" for i
    using assms(1) by (auto simp: rat_inv_def vld_def)
  have inj: "vld r i \<Longrightarrow> vld r j \<Longrightarrow> arch_of r i = arch_of r j \<Longrightarrow> i = j" for i j
    using assms(1) by (auto simp: rat_inv_def vld_def)
  have moved: "vld r i \<Longrightarrow> rat_abs r a \<noteq> Some i \<Longrightarrow> arch_of r i \<noteq> a" for i
    using rat_abs_iff[OF assms(1)] by blast
  have bnd: "vld r i \<Longrightarrow> i < phy_reg_num r" for i by (simp add: vld_def)
  have "0 < arch_of r' i \<and> arch_of r' i < arch_reg_num r" if "vld r' i" for i
    using that ar[of i] bnd[of i] in_range[of i] assms(3-5) by (cases "i = p") (simp_all add: v)
  moreover have "i = j" if "vld r' i" "vld r' j" "arch_of r' i = arch_of r' j" for i j
    using that ar bnd inj moved assms(5) by (metis v)
  ultimately show i: "rat_inv r'" unfolding rat_inv_def sz(1,2) using sz(3) by blast
  have hit: "vld r' i \<and> arch_of r' i = b \<longleftrightarrow> (if b = a then i = p else vld r i \<and> arch_of r i = b)" for i b
  proof -
    have "vld r i \<Longrightarrow> i < phy_reg_num r" by (simp add: vld_def)
    then show ?thesis
      using ar[of i] assms(5,6) moved[of i] rat_abs_iff[OF assms(1), of a i]
      by (cases "i = p") (auto simp: v)
  qed
  show "rat_abs r' = (rat_abs r)(a \<mapsto> p)"
  proof
    fix b
    show "rat_abs r' b = ((rat_abs r)(a \<mapsto> p)) b"
    proof (cases "((rat_abs r)(a \<mapsto> p)) b")
      case None
      then show ?thesis using hit[of _ b] rat_abs_none[of r b] rat_abs_none[of r' b] by (simp split: if_splits)
    next
      case (Some q)
      then have "vld r' q \<and> arch_of r' q = b"
        using hit[of q b] rat_abs_iff[OF assms(1), of b q] by (simp split: if_splits)
      then show ?thesis using Some rat_abs_iff[OF i, of b q] by simp
    qed
  qed
qed

lemma shape_sync: "rat_shape r \<Longrightarrow> rat_shape (rat_sync r)"
  by (simp add: rat_shape_def rat_sync_def)

lemma rat_sync_views:
  "rat_shape r \<Longrightarrow> rat_abs (rat_sync r) = rat_abs r" "rat_shape r \<Longrightarrow> rat_abs_cur (rat_sync r) = rat_abs r"
  "rat_shape r \<Longrightarrow> rat_inv (rat_sync r) = rat_inv r"
proof -
  assume sh: "rat_shape r"
  have v: "vld (rat_sync r) i = vld r i" "i < phy_reg_num r \<Longrightarrow> arch_of (rat_sync r) i = arch_of r i" for i
    using sh by (auto simp: vld_def arch_of_def rat_sync_def rat_shape_def)
  have n: "phy_reg_num (rat_sync r) = phy_reg_num r" "arch_reg_num (rat_sync r) = arch_reg_num r"
    by (simp_all add: rat_sync_def)
  show "rat_abs (rat_sync r) = rat_abs r"
    by (auto simp: rat_abs_def n v fun_eq_iff intro!: find_cong)
  show "rat_abs_cur (rat_sync r) = rat_abs r"
    using sh by (auto simp: rat_abs_def rat_abs_cur_def rat_sync_def rat_shape_def vld_def arch_of_def fun_eq_iff
        intro!: find_cong)
  show "rat_inv (rat_sync r) = rat_inv r"
    using shape_sync[OF sh] sh unfolding rat_inv_def n by (auto simp: v)
qed

lemma shape_load: "rat_shape (rat_load e r)"
  by (simp add: rat_shape_def rat_load_def)

lemma rat_load_views:
  assumes "rat_inv e" and "phy_reg_num r = phy_reg_num e" and "arch_reg_num r = arch_reg_num e"
  shows "rat_abs (rat_load e r) = rat_abs e" and "rat_inv (rat_load e r)"
proof -
  have v: "vld (rat_load e r) i = vld e i" "i < phy_reg_num e \<Longrightarrow> arch_of (rat_load e r) i = arch_of e i" for i
    using assms(2) by (auto simp: vld_def arch_of_def rat_load_def)
  have n: "phy_reg_num (rat_load e r) = phy_reg_num e" "arch_reg_num (rat_load e r) = arch_reg_num e"
    using assms by (simp_all add: rat_load_def)
  show "rat_abs (rat_load e r) = rat_abs e" by (auto simp: rat_abs_def n v fun_eq_iff intro!: find_cong)
  show "rat_inv (rat_load e r)"
    using assms shape_load[of e r] unfolding rat_inv_def n by (auto simp: v)
qed

lemma rat_init_views:
  assumes "rat_shape r"
  shows "rat_inv (rat_init_start r)" and "rat_abs (rat_init_start r) = Map.empty"
    and "rat_inv (rat_reset r)" and "rat_abs (rat_reset r) = Map.empty"
  using assms
  by (auto simp: rat_inv_def rat_shape_def rat_init_start_def rat_reset_def vld_def rat_abs_none fun_eq_iff)

lemma rat_make_shape: "rat_shape (rat_make n m)"
  by (simp add: rat_shape_def rat_make_def rat_reset_def)

subsection \<open>The contract of a register map\<close>

text \<open>
  The rename stage and the commit stage see a register alias table only through an update that
  returns the register it replaced. The client lemma is about a group of updates, as one cycle
  of rename or of commit makes: the map is updated in order, and every register that was live
  or newly mapped is either still live or returned exactly once.
\<close>

primrec map_run :: "(nat \<Rightarrow> nat \<Rightarrow> 's \<Rightarrow> (nat \<times> 's) option) \<Rightarrow> (nat \<times> nat) list \<Rightarrow> 's \<Rightarrow> (nat list \<times> 's) option" where
  "map_run upd [] s = Some ([], s)"
| "map_run upd (m # ms) s =
     do { (old, s1) \<leftarrow> upd (fst m) (snd m) s; (olds, s2) \<leftarrow> map_run upd ms s1; Some (old # olds, s2) }"

locale register_map =
  fixes inv :: "'s \<Rightarrow> bool" and abs :: "'s \<Rightarrow> nat \<Rightarrow> nat option" and legal :: "'s \<Rightarrow> nat \<Rightarrow> nat \<Rightarrow> bool"
    and upd :: "nat \<Rightarrow> nat \<Rightarrow> 's \<Rightarrow> (nat \<times> 's) option"
  assumes upd_law: "inv s \<Longrightarrow> legal s a p \<Longrightarrow> p \<notin> ran (abs s) \<Longrightarrow>
      \<exists>old s'. upd a p s = Some (old, s') \<and> abs s a = Some old \<and> inv s' \<and> abs s' = (abs s)(a \<mapsto> p) \<and>
        (\<forall>b q. legal s b q \<longrightarrow> legal s' b q)"
    and abs_inj: "inv s \<Longrightarrow> abs s a = Some p \<Longrightarrow> abs s b = Some p \<Longrightarrow> a = b"
begin

lemma upd_ran:
  assumes "inv s" and "abs s a = Some old" and "p \<notin> ran (abs s)"
  shows "ran ((abs s)(a \<mapsto> p)) = insert p (ran (abs s) - {old})"
proof (intro subset_antisym subsetI)
  fix x
  assume "x \<in> ran ((abs s)(a \<mapsto> p))"
  then obtain b where b: "((abs s)(a \<mapsto> p)) b = Some x" by (auto simp: ran_def)
  show "x \<in> insert p (ran (abs s) - {old})"
  proof (cases "b = a")
    case False
    then have "x \<noteq> old" using abs_inj[OF assms(1), of b old a] b assms(2) by auto
    then show ?thesis using b False by (auto simp: ran_def)
  qed (use b in simp)
next
  fix x
  assume x: "x \<in> insert p (ran (abs s) - {old})"
  show "x \<in> ran ((abs s)(a \<mapsto> p))"
  proof (cases "x = p")
    case False
    then obtain b where b: "abs s b = Some x" "x \<noteq> old" using x by (auto simp: ran_def)
    then have "b \<noteq> a" using assms(2) by auto
    with b(1) show ?thesis by (auto simp: ran_def)
  qed (auto simp: ran_def)
qed

lemma group_law:
  assumes "inv s" and "\<forall>m \<in> set ms. legal s (fst m) (snd m)" and "distinct (map snd ms)"
    and "snd ` set ms \<inter> ran (abs s) = {}"
  shows "\<exists>olds s'. map_run upd ms s = Some (olds, s') \<and> inv s' \<and> abs s' = abs s ++ map_of (rev ms) \<and>
    distinct olds \<and> set olds \<subseteq> ran (abs s) \<union> snd ` set ms \<and>
    ran (abs s') = (ran (abs s) \<union> snd ` set ms) - set olds"
  using assms
proof (induction ms arbitrary: s)
  case (Cons m ms)
  obtain a p where m: "m = (a, p)" by fastforce
  obtain old s1 where u: "upd a p s = Some (old, s1)" "abs s a = Some old" "inv s1" "abs s1 = (abs s)(a \<mapsto> p)"
    "\<forall>b q. legal s b q \<longrightarrow> legal s1 b q"
    using upd_law[of s a p] Cons.prems m by auto
  have old: "old \<in> ran (abs s)" using u(2) by (auto simp: ran_def)
  have r1: "ran (abs s1) = insert p (ran (abs s) - {old})"
    using upd_ran[OF Cons.prems(1) u(2)] u(4) Cons.prems(4) m by auto
  have prem: "\<forall>m \<in> set ms. legal s1 (fst m) (snd m)" "distinct (map snd ms)" "snd ` set ms \<inter> ran (abs s1) = {}"
    using Cons.prems(2-4) u(5) r1 m by auto
  obtain olds s2 where g: "map_run upd ms s1 = Some (olds, s2)" "inv s2" "abs s2 = abs s1 ++ map_of (rev ms)"
    "distinct olds" "set olds \<subseteq> ran (abs s1) \<union> snd ` set ms"
    "ran (abs s2) = (ran (abs s1) \<union> snd ` set ms) - set olds"
    using Cons.IH[OF u(3) prem] by blast
  have oo: "old \<notin> set olds" "old \<noteq> p" "old \<notin> snd ` set ms"
    using old g(5) Cons.prems(4) m unfolding r1 by auto
  have "map_run upd (m # ms) s = Some (old # olds, s2)" using u(1) g(1) m by simp
  moreover have "abs s2 = abs s ++ map_of (rev (m # ms))"
    using g(3) u(4) m by (simp add: fun_eq_iff map_add_def split: option.splits)
  moreover have "ran (abs s2) = (ran (abs s) \<union> snd ` set (m # ms)) - set (old # olds)"
    unfolding g(6) r1 using oo m by auto
  moreover have "set (old # olds) \<subseteq> ran (abs s) \<union> snd ` set (m # ms)" using g(5) r1 old m by auto
  ultimately show ?case using g(2,4) oo(1) by auto
qed simp

end

definition rat_legal :: "rat \<Rightarrow> nat \<Rightarrow> nat \<Rightarrow> bool" where
  "rat_legal r a p \<longleftrightarrow> rat_abs r a \<noteq> None \<and> p < phy_reg_num r"

lemma set_map_law:
  assumes "rat_inv r" and "rat_legal r a p" and "p \<notin> ran (rat_abs r)"
  shows "\<exists>old r'. set_map a p r = Some (old, r') \<and> rat_abs r a = Some old \<and> rat_inv r' \<and>
    rat_abs r' = (rat_abs r)(a \<mapsto> p) \<and> remapped a p r r'"
proof -
  obtain old where old: "rat_abs r a = Some old" using assms(2) by (auto simp: rat_legal_def)
  have a: "0 < a" "a < arch_reg_num r" using rat_abs_bounds[OF assms(1) old] by simp_all
  have p: "p < phy_reg_num r" "\<not> vld r p" using assms rat_abs_ran[OF assms(1)] by (auto simp: rat_legal_def)
  obtain r' where r': "set_map a p r = Some (old, r')" "remapped a p r r'"
    using set_map_entries[OF assms(1) a p] old by auto
  then show ?thesis using remapped_inv[OF assms(1) r'(2) a p] old by auto
qed

interpretation rm: register_map rat_inv rat_abs rat_legal set_map
proof
  fix s a p
  assume h: "rat_inv s" "rat_legal s a p" "p \<notin> ran (rat_abs s)"
  show "\<exists>old s'. set_map a p s = Some (old, s') \<and> rat_abs s a = Some old \<and> rat_inv s' \<and>
    rat_abs s' = (rat_abs s)(a \<mapsto> p) \<and> (\<forall>b q. rat_legal s b q \<longrightarrow> rat_legal s' b q)"
    using set_map_law[OF h] by (force simp: rat_legal_def remapped_def)
qed (rule rat_abs_inj)

text \<open>A call of \<^verbatim>\<open>set_map\<close> that does not abort met all its preconditions.\<close>

lemma set_map_success:
  assumes "rat_inv r" and "set_map a p r = Some (old, r')"
  shows "rat_inv r'" and "rat_abs r' = (rat_abs r)(a \<mapsto> p)" and "remapped a p r r'"
    and "p < phy_reg_num r" and "\<not> vld r p"
proof -
  have p: "p < phy_reg_num r" "0 < a" "a < arch_reg_num r"
    using assms(2) by (auto simp: set_map_def split: if_splits)
  have v: "\<not> vld r p" using assms(2) p by (auto simp: set_map_def producer_get_valid_eq split: if_splits)
  have i: "init_rat r \<or> rat_abs r a \<noteq> None"
    using assms p v by (auto simp: set_map_def producer_get_valid_eq producer_get_phy_id_abs split: if_splits)
  obtain r1 where "set_map a p r = Some (case rat_abs r a of None \<Rightarrow> 0 | Some q \<Rightarrow> q, r1)" "remapped a p r r1"
    using set_map_entries[OF assms(1) p(2,3,1) v i] by blast
  then have m: "remapped a p r r'" using assms(2) by simp
  show "rat_inv r'" "rat_abs r' = (rat_abs r)(a \<mapsto> p)" using remapped_inv[OF assms(1) m p(2,3,1) v] .
  show "remapped a p r r'" "p < phy_reg_num r" "\<not> vld r p" by fact+
qed

subsection \<open>Checkpoints\<close>

text \<open>Cycles of renaming: in each, a group of updates, then the clock edge.\<close>

primrec rat_cycles :: "(nat \<times> nat) list list \<Rightarrow> rat \<Rightarrow> rat option" where
  "rat_cycles [] r = Some r"
| "rat_cycles (g # gs) r = do { (olds, r1) \<leftarrow> map_run set_map g r; rat_cycles gs (rat_sync r1) }"

text \<open>\<open>r1\<close> still carries the saved entries of \<open>r\<close>.\<close>

definition keeps :: "rat \<Rightarrow> rat \<Rightarrow> bool" where
  "keeps r r1 \<longleftrightarrow> rat_inv r1 \<and> phy_reg_num r1 = phy_reg_num r \<and> arch_reg_num r1 = arch_reg_num r \<and>
     (\<forall>i. vld r i \<longrightarrow> arch_of r1 i = arch_of r i)"

lemma keeps_group:
  assumes "map_run set_map ms r1 = Some (olds, r2)" and "keeps r r1" and "\<forall>m \<in> set ms. \<not> vld r (snd m)"
  shows "keeps r r2"
  using assms
proof (induction ms arbitrary: r1 olds)
  case (Cons m ms)
  obtain old r1' olds' where u: "set_map (fst m) (snd m) r1 = Some (old, r1')" "map_run set_map ms r1' = Some (olds', r2)"
    using Cons.prems(1) by (auto elim!: bind_eq_SomeE)
  have i: "rat_inv r1" using Cons.prems(2) by (simp add: keeps_def)
  have "arch_of r1' i = arch_of r i" if "vld r i" for i
    using that set_map_success(3)[OF i u(1)] Cons.prems(2,3) by (auto simp: keeps_def remapped_def vld_def)
  then have "keeps r r1'"
    using set_map_success(1,3)[OF i u(1)] Cons.prems(2) by (simp add: keeps_def remapped_def)
  then show ?case using Cons.IH u(2) Cons.prems(3) by simp
qed simp

lemma keeps_sync: "keeps r r1 \<Longrightarrow> keeps r (rat_sync r1)"
  using rat_sync_views(3)[of r1]
  by (auto simp: keeps_def rat_inv_def arch_of_def vld_def rat_sync_def rat_shape_def)

lemma keeps_cycles:
  assumes "rat_cycles gs r1 = Some r2" and "keeps r r1" and "\<forall>g \<in> set gs. \<forall>m \<in> set g. \<not> vld r (snd m)"
  shows "keeps r r2"
  using assms
proof (induction gs arbitrary: r1)
  case (Cons g gs)
  obtain olds r1' where u: "map_run set_map g r1 = Some (olds, r1')" "rat_cycles gs (rat_sync r1') = Some r2"
    using Cons.prems(1) by (auto elim!: bind_eq_SomeE)
  have "keeps r r1'" using keeps_group[OF u(1)] Cons.prems by simp
  then show ?case using Cons.IH[OF u(2)] keeps_sync Cons.prems(3) by simp
qed simp

lemma rat_inv_transfer:
  assumes "rat_shape r2" and "rat_inv r" and "\<And>i. vld r2 i = vld r i" and "\<And>i. vld r i \<Longrightarrow> arch_of r2 i = arch_of r i"
    and "phy_reg_num r2 = phy_reg_num r" and "arch_reg_num r2 = arch_reg_num r"
  shows "rat_inv r2"
  using assms(2) unfolding rat_inv_def assms(3,5,6) by (simp add: assms(1,4))

lemma rat_abs_transfer:
  assumes "\<And>i. vld r2 i = vld r i" and "\<And>i. vld r i \<Longrightarrow> arch_of r2 i = arch_of r i"
    and "phy_reg_num r2 = phy_reg_num r"
  shows "rat_abs r2 = rat_abs r"
proof -
  have "vld r2 i \<and> arch_of r2 i = a \<longleftrightarrow> vld r i \<and> arch_of r i = a" for i a using assms(1,2) by metis
  then show ?thesis unfolding rat_abs_def assms(3) by simp
qed

lemma restore_kept:
  assumes "rat_inv r" and "keeps r r1" and "phy_reg_num r = PHY_REG_NUM"
    and "producer_save_to_checkpoint r cp0 = Some cp"
  shows "\<exists>r2. restore_from_checkpoint cp r1 = Some r2 \<and> rat_abs r2 = rat_abs r \<and> rat_inv r2"
proof -
  define r2 where "r2 = r1\<lparr>phy_map_table_valid := map (\<lambda>i. if i < PHY_REG_NUM
     then dff_set (cp_phy_map_table_valid cp ! i) (phy_map_table_valid r1 ! i)
     else phy_map_table_valid r1 ! i) [0..<phy_reg_num r1]\<rparr>"
  have n: "phy_reg_num r1 = PHY_REG_NUM" "arch_reg_num r1 = arch_reg_num r" using assms(2,3) by (simp_all add: keeps_def)
  have cp: "cp_phy_map_table_valid cp = map (\<lambda>i. dff_get_new (phy_map_table_valid r ! i)) [0..<PHY_REG_NUM]"
    using assms(3,4) by (auto simp: producer_save_to_checkpoint_def)
  have r2: "restore_from_checkpoint cp r1 = Some r2" by (simp add: restore_from_checkpoint_def n r2_def)
  have v: "vld r2 i = vld r i" for i using n assms(3) by (auto simp: vld_def cp r2_def)
  have a: "vld r i \<Longrightarrow> arch_of r2 i = arch_of r i" for i using assms(2) by (simp add: keeps_def arch_of_def r2_def)
  have sh: "rat_shape r2" using assms(2) by (simp add: keeps_def rat_inv_def rat_shape_def r2_def)
  have n2: "phy_reg_num r2 = phy_reg_num r" "arch_reg_num r2 = arch_reg_num r" using n assms(3) by (simp_all add: r2_def)
  show ?thesis
    using r2 rat_inv_transfer[OF sh assms(1) v a n2] rat_abs_transfer[OF v a n2(1)] by blast
qed

subsection \<open>Properties\<close>

lemma customer_after_sync:
  assumes "rat_shape r"
  shows "customer_get_phy_id (rat_sync r) a p = producer_get_phy_id r a p"
proof -
  have "phy_id_loop (customer_hit (rat_sync r) a) is c q = phy_id_loop (producer_hit r a) is c q"
    if "\<forall>i \<in> set is. i < phy_reg_num r" for "is" c q
    using that
  proof (induction "is" arbitrary: c q)
    case (Cons i "is")
    then show ?case using assms
      by (simp add: customer_hit_def producer_hit_def customer_get_valid_def producer_get_valid_def rat_sync_def rat_shape_def)
  qed simp
  then have "phy_id_loop (customer_hit (rat_sync r) a) [0..<phy_reg_num r] 0 p
      = phy_id_loop (producer_hit r a) [0..<phy_reg_num r] 0 p" by simp
  then show ?thesis
    unfolding customer_get_phy_id_def producer_get_phy_id_def by (simp add: rat_sync_def)
qed

text \<open>
  C26. A cycle of renaming updates the map in program order and loses no register: mapping a group
  of architectural registers to distinct physical registers that are not live never fails an
  assertion; afterwards a lookup of any architectural register gives the last physical register
  the group gave it, or else the one it had, on the producer side at once and on the consumer
  side after the clock edge; the registers returned as replaced are distinct, and the live
  registers are exactly the old live ones and the new ones without those returned.
\<close>

theorem rat_group_renames:
  assumes "rat_inv r" and "\<forall>m \<in> set ms. rat_legal r (fst m) (snd m)" and "distinct (map snd ms)"
    and "snd ` set ms \<inter> ran (rat_abs r) = {}"
  shows "\<exists>olds r'. map_run set_map ms r = Some (olds, r') \<and> rat_inv r' \<and>
    (\<forall>a. 0 < a \<and> a < arch_reg_num r' \<longrightarrow>
       producer_get_phy_id r' a 0 = Some (case (rat_abs r ++ map_of (rev ms)) a of None \<Rightarrow> (False, 0) | Some p \<Rightarrow> (True, p)) \<and>
       customer_get_phy_id (rat_sync r') a 0 = producer_get_phy_id r' a 0) \<and>
    distinct olds \<and> ran (rat_abs r') = (ran (rat_abs r) \<union> snd ` set ms) - set olds"
proof -
  obtain olds r' where g: "map_run set_map ms r = Some (olds, r')" "rat_inv r'" "rat_abs r' = rat_abs r ++ map_of (rev ms)"
    "distinct olds" "ran (rat_abs r') = (ran (rat_abs r) \<union> snd ` set ms) - set olds"
    using rm.group_law[OF assms] by blast
  have "rat_shape r'" using g(2) by (simp add: rat_inv_def)
  then have "customer_get_phy_id (rat_sync r') a 0 = producer_get_phy_id r' a 0" for a by (rule customer_after_sync)
  moreover have "producer_get_phy_id r' a 0
      = Some (case (rat_abs r ++ map_of (rev ms)) a of None \<Rightarrow> (False, 0) | Some p \<Rightarrow> (True, p))"
    if "0 < a" "a < arch_reg_num r'" for a
    unfolding producer_get_phy_id_abs[OF g(2) that] g(3)[symmetric] by (cases "rat_abs r' a") simp_all
  ultimately show ?thesis using g(1,2,4,5) by blast
qed

definition demo_rat :: rat where
  "demo_rat = rat_init_finish (snd (the (set_map 1 5 (rat_init_start (rat_make PHY_REG_NUM ARCH_REG_NUM)))))"

lemma demo_rat_ok: "rat_inv demo_rat" "rat_abs demo_rat = [1 \<mapsto> 5]" "phy_reg_num demo_rat = PHY_REG_NUM"
proof -
  let ?r0 = "rat_init_start (rat_make PHY_REG_NUM ARCH_REG_NUM)"
  have i: "rat_inv ?r0" "rat_abs ?r0 = Map.empty" "init_rat ?r0" "phy_reg_num ?r0 = PHY_REG_NUM" "arch_reg_num ?r0 = ARCH_REG_NUM"
    using rat_init_views(1,2)[OF rat_make_shape]
    by (simp_all add: rat_init_start_def rat_make_def rat_reset_def)
  have v: "\<not> vld ?r0 5" using rat_abs_none[of ?r0 "arch_of ?r0 5"] i(2) by auto
  obtain r' where s: "set_map 1 5 ?r0 = Some (0, r')" "remapped 1 5 ?r0 r'"
    using set_map_entries[OF i(1) _ _ _ v, of 1] i by (auto simp: config_defs)
  have f: "vld (rat_init_finish r') i = vld r' i" "arch_of (rat_init_finish r') i = arch_of r' i"
    "rat_shape (rat_init_finish r') = rat_shape r'"
    "phy_reg_num (rat_init_finish r') = phy_reg_num r'" "arch_reg_num (rat_init_finish r') = arch_reg_num r'" for i
    by (simp_all add: rat_init_finish_def vld_def arch_of_def rat_shape_def)
  have m: "rat_inv r'" "rat_abs r' = [1 \<mapsto> 5]"
    using set_map_success(1,2)[OF i(1) s(1)] i(2) by simp_all
  have "rat_shape r'" using m(1) by (simp add: rat_inv_def)
  then show "rat_inv demo_rat" "rat_abs demo_rat = [1 \<mapsto> 5]"
    using rat_inv_transfer[of "rat_init_finish r'" r'] rat_abs_transfer[of "rat_init_finish r'" r'] m s(1)
    by (simp_all add: f demo_rat_def)
  show "phy_reg_num demo_rat = PHY_REG_NUM" using s i(4) by (simp add: demo_rat_def rat_init_finish_def remapped_def)
qed

theorem rat_group_renames_witness:
  "\<exists>olds r'. map_run set_map [(1, 7), (1, 8)] demo_rat = Some (olds, r') \<and> rat_inv r' \<and> ran (rat_abs r') = {5, 7, 8} - set olds"
proof -
  have "\<forall>m \<in> set [(1, 7), (1, 8)]. rat_legal demo_rat (fst m) (snd m)"
    by (simp add: rat_legal_def demo_rat_ok config_defs)
  moreover have "ran (rat_abs demo_rat) \<union> snd ` set [(1 :: nat, 7 :: nat), (1, 8)] = {5, 7, 8}"
    by (auto simp: demo_rat_ok)
  ultimately show ?thesis
    using rat_group_renames[OF demo_rat_ok(1), of "[(1, 7), (1, 8)]"] by (auto simp: demo_rat_ok(2))
qed

text \<open>
  C27. A checkpoint brings the register map back: after any number of cycles of renaming to registers
  that were not live when the checkpoint was taken, \<^verbatim>\<open>restore_from_checkpoint\<close> makes every lookup
  give what it gave then, and the invariant holds.
\<close>

theorem rat_checkpoint_roundtrip:
  assumes "rat_inv r" and "phy_reg_num r = PHY_REG_NUM" and "producer_save_to_checkpoint r cp0 = Some cp"
    and "rat_cycles gs r = Some r1" and "\<forall>g \<in> set gs. \<forall>m \<in> set g. snd m \<notin> ran (rat_abs r)"
  shows "\<exists>r2. restore_from_checkpoint cp r1 = Some r2 \<and> rat_inv r2 \<and> rat_abs r2 = rat_abs r \<and>
    (\<forall>a p. 0 < a \<longrightarrow> a < arch_reg_num r2 \<longrightarrow> producer_get_phy_id r2 a p = producer_get_phy_id r a p)"
proof -
  have "keeps r r1"
    using keeps_cycles[OF assms(4), of r] assms(1,5) by (simp add: keeps_def rat_abs_ran[OF assms(1)])
  then have k: "keeps r r1" .
  obtain r2 where r2: "restore_from_checkpoint cp r1 = Some r2" "rat_abs r2 = rat_abs r" "rat_inv r2"
    using restore_kept[OF assms(1) k assms(2,3)] by blast
  have "arch_reg_num r2 = arch_reg_num r"
    using r2(1) k by (auto simp: restore_from_checkpoint_def keeps_def split: if_splits)
  then show ?thesis
    using r2 producer_get_phy_id_abs[OF r2(3)] producer_get_phy_id_abs[OF assms(1)] by simp
qed

theorem rat_checkpoint_roundtrip_witness:
  "\<exists>cp r1 r2. rat_cycles [[(1, 7)], [(1, 8)]] demo_rat = Some r1 \<and> restore_from_checkpoint cp r1 = Some r2 \<and>
     rat_abs r2 = [1 \<mapsto> 5]"
proof -
  obtain cp0 :: checkpoint_t where True by simp
  obtain cp where cp: "producer_save_to_checkpoint demo_rat cp0 = Some cp"
    using demo_rat_ok(3) by (simp add: producer_save_to_checkpoint_def)
  have lg: "rat_legal demo_rat 1 7" "rat_legal demo_rat 1 8" by (simp_all add: rat_legal_def demo_rat_ok config_defs)
  obtain o1 a1 where s1: "set_map 1 7 demo_rat = Some (o1, a1)" "rat_inv a1" "rat_abs a1 = [1 \<mapsto> 7]" "remapped 1 7 demo_rat a1"
    using set_map_law[OF demo_rat_ok(1) lg(1)] by (auto simp: demo_rat_ok(2))
  have sh: "rat_shape a1" using s1(2) by (simp add: rat_inv_def)
  have i1: "rat_inv (rat_sync a1)" "rat_abs (rat_sync a1) = [1 \<mapsto> 7]" using rat_sync_views[OF sh] s1(2,3) by simp_all
  have "rat_legal (rat_sync a1) 1 8"
    using s1(4) i1(2) demo_rat_ok(3) by (simp add: rat_legal_def remapped_def rat_sync_def config_defs)
  then obtain o2 a2 where s2: "set_map 1 8 (rat_sync a1) = Some (o2, a2)"
    using set_map_law[OF i1(1), of 1 8] by (auto simp: i1(2))
  have run: "rat_cycles [[(1, 7)], [(1, 8)]] demo_rat = Some (rat_sync a2)" using s1(1) s2 by simp
  have "\<forall>g \<in> set [[(1 :: nat, 7 :: nat)], [(1, 8)]]. \<forall>m \<in> set g. snd m \<notin> ran (rat_abs demo_rat)" by (simp add: demo_rat_ok(2))
  then show ?thesis
    using rat_checkpoint_roundtrip[OF demo_rat_ok(1,3) cp run] run demo_rat_ok(2) by auto
qed

end
