(* ===== verification/Phy_Regfile.thy ===== *)
theory Phy_Regfile
  imports Reg_Alias Age_Compare
begin

text \<open>
  \<^verbatim>\<open>component/regfile.h\<close> of the cycle model: the physical register file. Besides its data each
  register has a valid bit and the reorder buffer position of the instruction that wrote it,
  so that a flush can invalidate what younger instructions have written. \<open>oldest\<close> marks
  a register whose writer has retired.
\<close>

record 'a phy_regfile =
  reg_data :: "'a dff list"
  reg_data_valid :: "bool dff list"
  reg_rob_id :: "nat dff list"
  reg_rob_id_stage :: "bool dff list"
  reg_oldest :: "bool dff list"
  rf_size :: nat

definition reg_put :: "nat \<Rightarrow> 'v \<Rightarrow> 'v dff list \<Rightarrow> 'v dff list" where
  "reg_put i v xs = xs[i := dff_set v (xs ! i)]"

definition phy_regfile_reset :: "'a :: zero phy_regfile \<Rightarrow> 'a phy_regfile" where
  "phy_regfile_reset rf =
     rf\<lparr>reg_data := map (dff_set 0) (reg_data rf), reg_data_valid := map (dff_set False) (reg_data_valid rf),
        reg_rob_id := map (dff_set 0) (reg_rob_id rf), reg_rob_id_stage := map (dff_set False) (reg_rob_id_stage rf),
        reg_oldest := map (dff_set True) (reg_oldest rf)\<rparr>"

definition phy_regfile_make :: "nat \<Rightarrow> 'a :: zero phy_regfile" where
  "phy_regfile_make n =
     phy_regfile_reset \<lparr>reg_data = replicate n (dff_make 0), reg_data_valid = replicate n (dff_make False),
       reg_rob_id = replicate n (dff_make 0), reg_rob_id_stage = replicate n (dff_make False),
       reg_oldest = replicate n (dff_make False), rf_size = n\<rparr>"

definition phy_regfile_sync :: "'a phy_regfile \<Rightarrow> 'a phy_regfile" where
  "phy_regfile_sync rf =
     rf\<lparr>reg_data := map dff_sync (reg_data rf), reg_data_valid := map dff_sync (reg_data_valid rf),
        reg_rob_id := map dff_sync (reg_rob_id rf), reg_rob_id_stage := map dff_sync (reg_rob_id_stage rf),
        reg_oldest := map dff_sync (reg_oldest rf)\<rparr>"

definition phy_regfile_write ::
    "nat \<Rightarrow> 'a \<Rightarrow> bool \<Rightarrow> nat \<Rightarrow> bool \<Rightarrow> bool \<Rightarrow> 'a phy_regfile \<Rightarrow> 'a phy_regfile option" where
  "phy_regfile_write addr value valid rob_id rob_id_stage oldest rf =
     do {
       verify (addr < rf_size rf);
       Some (rf\<lparr>reg_data := reg_put addr value (reg_data rf),
                reg_data_valid := reg_put addr valid (reg_data_valid rf),
                reg_rob_id := reg_put addr rob_id (reg_rob_id rf),
                reg_rob_id_stage := reg_put addr rob_id_stage (reg_rob_id_stage rf),
                reg_oldest := reg_put addr oldest (reg_oldest rf)\<rparr>)
     }"

definition phy_regfile_read :: "'a phy_regfile \<Rightarrow> nat \<Rightarrow> 'a option" where
  "phy_regfile_read rf addr = do { verify (addr < rf_size rf); Some (dff_get (reg_data rf ! addr)) }"

definition read_data_valid :: "'a phy_regfile \<Rightarrow> nat \<Rightarrow> bool option" where
  "read_data_valid rf addr = do { verify (addr < rf_size rf); Some (dff_get (reg_data_valid rf ! addr)) }"

definition write_age_information :: "nat \<Rightarrow> nat \<Rightarrow> bool \<Rightarrow> bool \<Rightarrow> 'a phy_regfile \<Rightarrow> 'a phy_regfile option" where
  "write_age_information addr rob_id rob_id_stage oldest rf =
     do {
       verify (addr < rf_size rf);
       Some (rf\<lparr>reg_rob_id := reg_put addr rob_id (reg_rob_id rf),
                reg_rob_id_stage := reg_put addr rob_id_stage (reg_rob_id_stage rf),
                reg_oldest := reg_put addr oldest (reg_oldest rf)\<rparr>)
     }"

definition read_age_information :: "'a phy_regfile \<Rightarrow> nat \<Rightarrow> (nat \<times> bool \<times> bool) option" where
  "read_age_information rf addr =
     do {
       verify (addr < rf_size rf);
       Some (dff_get (reg_rob_id rf ! addr), dff_get (reg_rob_id_stage rf ! addr), dff_get (reg_oldest rf ! addr))
     }"

text \<open>
  The three \<^verbatim>\<open>restore\<close> loops. The first copies the valid bits of a register alias table; the
  other two invalidate the registers whose writer is younger than, or at least as young as, the
  given instruction. \<^verbatim>\<open>producer_get_valid\<close> aborts when the table is smaller than the file.
\<close>

fun restore_rat_loop :: "rat \<Rightarrow> nat list \<Rightarrow> 'a phy_regfile \<Rightarrow> 'a phy_regfile option" where
  "restore_rat_loop element [] rf = Some rf"
| "restore_rat_loop element (i # is) rf =
     do {
       v \<leftarrow> producer_get_valid element i;
       restore_rat_loop element is (rf\<lparr>reg_data_valid := reg_put i v (reg_data_valid rf)\<rparr>)
     }"

definition phy_regfile_restore_rat :: "rat \<Rightarrow> 'a phy_regfile \<Rightarrow> 'a phy_regfile option" where
  "phy_regfile_restore_rat element rf = restore_rat_loop element [0..<rf_size rf] rf"

definition reg_age :: "'a phy_regfile \<Rightarrow> nat \<Rightarrow> age_compare" where
  "reg_age rf i = age (dff_get (reg_rob_id rf ! i)) (dff_get (reg_rob_id_stage rf ! i))"

fun restore_loop :: "(age_compare \<Rightarrow> age_compare \<Rightarrow> bool) \<Rightarrow> age_compare \<Rightarrow> nat list \<Rightarrow> 'a phy_regfile \<Rightarrow> 'a phy_regfile" where
  "restore_loop cmp t [] rf = rf"
| "restore_loop cmp t (i # is) rf =
     restore_loop cmp t is
       (if dff_get (reg_data_valid rf ! i) \<and> \<not> dff_get (reg_oldest rf ! i) \<and> cmp (reg_age rf i) t
        then rf\<lparr>reg_data_valid := reg_put i False (reg_data_valid rf),
                reg_oldest := reg_put i True (reg_oldest rf)\<rparr>
        else rf)"

definition phy_regfile_restore :: "nat \<Rightarrow> bool \<Rightarrow> 'a phy_regfile \<Rightarrow> 'a phy_regfile" where
  "phy_regfile_restore rob_id rob_id_stage rf =
     restore_loop age_less (age rob_id rob_id_stage) [0..<rf_size rf] rf"

definition phy_regfile_restore_equal :: "nat \<Rightarrow> bool \<Rightarrow> 'a phy_regfile \<Rightarrow> 'a phy_regfile" where
  "phy_regfile_restore_equal rob_id rob_id_stage rf =
     restore_loop age_less_equal (age rob_id rob_id_stage) [0..<rf_size rf] rf"

definition phy_regfile_shape :: "'a phy_regfile \<Rightarrow> bool" where
  "phy_regfile_shape rf \<longleftrightarrow> length (reg_data rf) = rf_size rf \<and> length (reg_data_valid rf) = rf_size rf \<and>
     length (reg_rob_id rf) = rf_size rf \<and> length (reg_rob_id_stage rf) = rf_size rf \<and> length (reg_oldest rf) = rf_size rf"

subsection \<open>What the operations do\<close>

lemma reg_put_length [simp]: "length (reg_put i v xs) = length xs"
  by (simp add: reg_put_def)

lemma reg_put_get [simp]: "dff_get (reg_put i v xs ! j) = dff_get (xs ! j)"
  by (cases "i < length xs") (simp_all add: reg_put_def nth_list_update list_update_beyond not_less)

lemma reg_put_get_new:
  "i < length xs \<Longrightarrow> dff_get_new (reg_put i v xs ! j) = (if i = j then v else dff_get_new (xs ! j))"
  by (simp add: reg_put_def nth_list_update)

lemma phy_regfile_make_shape: "phy_regfile_shape (phy_regfile_make n)"
  by (simp add: phy_regfile_shape_def phy_regfile_make_def phy_regfile_reset_def)

lemma restore_rat_loop_eq:
  assumes "phy_regfile_shape rf" and "rf_size rf \<le> phy_reg_num r" and "\<forall>i \<in> set is. i < rf_size rf"
  shows "\<exists>v. restore_rat_loop r is rf = Some (rf\<lparr>reg_data_valid := v\<rparr>) \<and> length v = rf_size rf \<and>
    (\<forall>i. dff_get (v ! i) = dff_get (reg_data_valid rf ! i)) \<and>
    (\<forall>i < rf_size rf. dff_get_new (v ! i) = (if i \<in> set is then vld r i else dff_get_new (reg_data_valid rf ! i)))"
  using assms
proof (induction "is" arbitrary: rf)
  case Nil
  have "rf = rf\<lparr>reg_data_valid := reg_data_valid rf\<rparr>" by simp
  then show ?case using Nil(1) by (intro exI[of _ "reg_data_valid rf"]) (simp add: phy_regfile_shape_def)
next
  case (Cons i "is")
  let ?rf = "rf\<lparr>reg_data_valid := reg_put i (vld r i) (reg_data_valid rf)\<rparr>"
  have i: "i < rf_size rf" "i < length (reg_data_valid rf)" using Cons.prems by (simp_all add: phy_regfile_shape_def)
  have "phy_regfile_shape ?rf" using Cons.prems(1) by (simp add: phy_regfile_shape_def)
  then obtain v where v: "restore_rat_loop r is ?rf = Some (?rf\<lparr>reg_data_valid := v\<rparr>)" "length v = rf_size rf"
    "\<forall>j. dff_get (v ! j) = dff_get (reg_data_valid rf ! j)"
    "\<forall>j < rf_size rf. dff_get_new (v ! j) = (if j \<in> set is then vld r j else dff_get_new (reg_data_valid ?rf ! j))"
    using Cons.IH[of ?rf] Cons.prems by auto
  have "restore_rat_loop r (i # is) rf = Some (rf\<lparr>reg_data_valid := v\<rparr>)"
    using v(1) i Cons.prems(2) by (simp add: producer_get_valid_eq)
  moreover have "\<forall>j < rf_size rf. dff_get_new (v ! j)
      = (if j \<in> set (i # is) then vld r j else dff_get_new (reg_data_valid rf ! j))"
    using v(4) i(2) by (simp add: reg_put_get_new)
  ultimately show ?case using v(2,3) by blast
qed

text \<open>
  The loop decides on the values of the cycle, so the order in which it visits the registers does
  not matter: every register it visits is judged as if it were the only one.
\<close>

definition squashed :: "(age_compare \<Rightarrow> age_compare \<Rightarrow> bool) \<Rightarrow> age_compare \<Rightarrow> 'a phy_regfile \<Rightarrow> nat \<Rightarrow> bool" where
  "squashed cmp t rf i \<longleftrightarrow>
     dff_get (reg_data_valid rf ! i) \<and> \<not> dff_get (reg_oldest rf ! i) \<and> cmp (reg_age rf i) t"

definition same_view :: "'a phy_regfile \<Rightarrow> 'a phy_regfile \<Rightarrow> bool" where
  "same_view rf rf' \<longleftrightarrow> phy_regfile_shape rf' \<and> rf_size rf' = rf_size rf \<and> reg_data rf' = reg_data rf \<and>
     reg_rob_id rf' = reg_rob_id rf \<and> reg_rob_id_stage rf' = reg_rob_id_stage rf \<and>
     (\<forall>i. dff_get (reg_data_valid rf' ! i) = dff_get (reg_data_valid rf ! i)) \<and>
     (\<forall>i. dff_get (reg_oldest rf' ! i) = dff_get (reg_oldest rf ! i))"

lemma same_view_squashed: "same_view rf rf' \<Longrightarrow> squashed cmp t rf' i = squashed cmp t rf i"
  by (simp add: same_view_def squashed_def reg_age_def)

lemma restore_loop_eq:
  assumes "phy_regfile_shape rf" and "\<forall>i \<in> set is. i < rf_size rf"
  shows "same_view rf (restore_loop cmp t is rf) \<and>
    (\<forall>i < rf_size rf.
       dff_get_new (reg_data_valid (restore_loop cmp t is rf) ! i)
         = (if i \<in> set is \<and> squashed cmp t rf i then False else dff_get_new (reg_data_valid rf ! i)) \<and>
       dff_get_new (reg_oldest (restore_loop cmp t is rf) ! i)
         = (if i \<in> set is \<and> squashed cmp t rf i then True else dff_get_new (reg_oldest rf ! i)))"
  using assms
proof (induction "is" arbitrary: rf)
  case Nil
  then show ?case by (simp add: same_view_def)
next
  case (Cons i "is")
  define rf1 where "rf1 = (if squashed cmp t rf i
     then rf\<lparr>reg_data_valid := reg_put i False (reg_data_valid rf), reg_oldest := reg_put i True (reg_oldest rf)\<rparr>
     else rf)"
  have i: "i < rf_size rf" using Cons.prems by simp
  have step: "restore_loop cmp t (i # is) rf = restore_loop cmp t is rf1" by (simp add: squashed_def rf1_def)
  have view: "same_view rf rf1" using Cons.prems(1) by (simp add: same_view_def phy_regfile_shape_def rf1_def)
  have sh: "phy_regfile_shape rf1" "\<forall>j \<in> set is. j < rf_size rf1" and n: "rf_size rf1 = rf_size rf"
    using view Cons.prems(2) by (simp_all add: same_view_def)
  have bits: "dff_get_new (reg_data_valid rf1 ! j) = (if j = i \<and> squashed cmp t rf i then False else dff_get_new (reg_data_valid rf ! j))"
    "dff_get_new (reg_oldest rf1 ! j) = (if j = i \<and> squashed cmp t rf i then True else dff_get_new (reg_oldest rf ! j))" for j
    using i Cons.prems(1) by (auto simp: reg_put_get_new phy_regfile_shape_def rf1_def)
  note ih = Cons.IH[OF sh, unfolded n bits same_view_squashed[OF view]]
  have "same_view rf (restore_loop cmp t is rf1)"
    using view conjunct1[OF ih] by (simp add: same_view_def)
  then show ?case unfolding step using conjunct2[OF ih] by auto
qed

text \<open>A register written by an instruction that has not retired.\<close>

definition in_flight :: "'a phy_regfile \<Rightarrow> nat \<Rightarrow> bool" where
  "in_flight rf i \<longleftrightarrow> dff_get (reg_data_valid rf ! i) \<and> \<not> dff_get (reg_oldest rf ! i)"

lemma sync_valid:
  "phy_regfile_shape rf \<Longrightarrow> i < rf_size rf \<Longrightarrow>
     read_data_valid (phy_regfile_sync rf) i = Some (dff_get_new (reg_data_valid rf ! i))"
  by (simp add: read_data_valid_def phy_regfile_sync_def phy_regfile_shape_def)

lemma restore_loop_valid:
  assumes "phy_regfile_shape rf" and "i < rf_size rf"
  shows "read_data_valid (phy_regfile_sync (restore_loop cmp t [0..<rf_size rf] rf)) i
      = map_option (\<lambda>v. v \<and> \<not> (in_flight rf i \<and> cmp (reg_age rf i) t)) (read_data_valid (phy_regfile_sync rf) i)"
    and "reg_data (restore_loop cmp t [0..<rf_size rf] rf) = reg_data rf"
proof -
  let ?rf = "restore_loop cmp t [0..<rf_size rf] rf"
  have b: "\<forall>i \<in> set [0..<rf_size rf]. i < rf_size rf" by simp
  note r = restore_loop_eq[OF assms(1) b, of cmp t]
  have v: "same_view rf ?rf" using r by blast
  have "dff_get_new (reg_data_valid ?rf ! i) = (\<not> squashed cmp t rf i \<and> dff_get_new (reg_data_valid rf ! i))"
    using r assms(2) by simp
  then show "read_data_valid (phy_regfile_sync ?rf) i
      = map_option (\<lambda>v. v \<and> \<not> (in_flight rf i \<and> cmp (reg_age rf i) t)) (read_data_valid (phy_regfile_sync rf) i)"
    using sync_valid[OF assms] sync_valid[of ?rf i] v assms(2)
    by (auto simp: same_view_def squashed_def in_flight_def)
  show "reg_data ?rf = reg_data rf" using v by (simp add: same_view_def)
qed

subsection \<open>Properties\<close>

text \<open>
  A flush invalidates exactly the registers written by younger instructions: when every
  register written by an instruction in flight carries the reorder buffer position of that
  instruction, less than one buffer size from the instruction the flush refers to,
  \<^verbatim>\<open>restore\<close> clears, at the clock edge, the valid bit of the registers written by instructions
  allocated after that one and \<^verbatim>\<open>restore_equal\<close> those and its own; every other register becomes
  what it would have become anyway, and no data changes.
\<close>

theorem phy_regfile_flush_exact:
  assumes "phy_regfile_shape rf" and "0 < sz" and "i < rf_size rf"
    and "in_flight rf i \<longrightarrow> reg_age rf i = age_at sz pos \<and> pos < t + sz \<and> t < pos + sz"
  shows "read_data_valid (phy_regfile_sync (phy_regfile_restore (t mod sz) (odd (t div sz)) rf)) i
      = map_option (\<lambda>v. v \<and> \<not> (in_flight rf i \<and> t < pos)) (read_data_valid (phy_regfile_sync rf) i)
    \<and> read_data_valid (phy_regfile_sync (phy_regfile_restore_equal (t mod sz) (odd (t div sz)) rf)) i
      = map_option (\<lambda>v. v \<and> \<not> (in_flight rf i \<and> t \<le> pos)) (read_data_valid (phy_regfile_sync rf) i)
    \<and> reg_data (phy_regfile_restore (t mod sz) (odd (t div sz)) rf) = reg_data rf
    \<and> reg_data (phy_regfile_restore_equal (t mod sz) (odd (t div sz)) rf) = reg_data rf"
proof -
  have t: "age (t mod sz) (odd (t div sz)) = age_at sz t" by (simp add: age_at_def ring_at_def)
  have cmp: "in_flight rf i \<and> age_less (reg_age rf i) (age_at sz t) \<longleftrightarrow> in_flight rf i \<and> t < pos"
    "in_flight rf i \<and> age_less_equal (reg_age rf i) (age_at sz t) \<longleftrightarrow> in_flight rf i \<and> t \<le> pos"
    using assms(4) age_less_iff[OF assms(2), of pos t] age_equal_iff[OF assms(2), of pos t]
    by (auto simp: age_less_equal_def)
  show ?thesis
    unfolding phy_regfile_restore_def phy_regfile_restore_equal_def t restore_loop_valid[OF assms(1,3)] cmp
    by simp
qed

definition demo_regs :: "u32 phy_regfile" where
  "demo_regs = phy_regfile_sync (the (phy_regfile_write 0 7 True 1 True False
     (the (phy_regfile_write 1 8 True 60 False False (phy_regfile_make 4)))))"

text \<open>
  Copying the valid bits of an alias table, as a flush does after it has reloaded the table,
  makes at the clock edge exactly the registers valid that the table maps, for every register of
  the file, and never aborts on a table at least as large as the file.
\<close>

theorem phy_regfile_restore_rat_exact:
  assumes "phy_regfile_shape rf" and "rf_size rf \<le> phy_reg_num r" and "rat_inv r"
  shows "\<exists>rf'. phy_regfile_restore_rat r rf = Some rf' \<and> reg_data rf' = reg_data rf \<and>
    (\<forall>i < rf_size rf. read_data_valid (phy_regfile_sync rf') i = Some (i \<in> ran (rat_abs r)))"
proof -
  obtain v where v: "restore_rat_loop r [0..<rf_size rf] rf = Some (rf\<lparr>reg_data_valid := v\<rparr>)" "length v = rf_size rf"
    "\<forall>i < rf_size rf. dff_get_new (v ! i) = (if i \<in> set [0..<rf_size rf] then vld r i else dff_get_new (reg_data_valid rf ! i))"
    using restore_rat_loop_eq[OF assms(1,2), of "[0..<rf_size rf]"] by auto
  have "phy_regfile_shape (rf\<lparr>reg_data_valid := v\<rparr>)" using assms(1) v(2) by (simp add: phy_regfile_shape_def)
  then show ?thesis
    using v(1,3) sync_valid[of "rf\<lparr>reg_data_valid := v\<rparr>"] rat_abs_ran[OF assms(3)]
    by (simp add: phy_regfile_restore_rat_def)
qed

end
