(* ===== verification/Rob.thy ===== *)
theory Rob
  imports Cycle_Decode Age_Compare
begin

text \<open>
  \<^verbatim>\<open>component/rob.h\<close>: the reorder buffer. It is a \<^verbatim>\<open>fifo\<close> of \<^verbatim>\<open>rob_item_t\<close> with the
  commit counters and with functions that name slots: the slot the next push will use, its
  successors, and the neighbours of a slot in use. The record that the branch predictor
  attaches to an instruction is modelled here as well, from \<^verbatim>\<open>branch_predictor_base.h\<close>.
\<close>

record branch_predictor_info_pack_t =
  bp_bi_mode_global_history :: u32
  bp_bi_mode_pht_value :: u32
  bp_predicted :: bool
  bp_jump :: bool
  bp_next_pc :: u32
  bp_uncondition_indirect_jump :: bool
  bp_condition_jump :: bool
  bp_checkpoint_id_valid :: bool
  bp_checkpoint_id :: nat

definition branch_predictor_info_pack_make :: branch_predictor_info_pack_t where
  "branch_predictor_info_pack_make =
     \<lparr>bp_bi_mode_global_history = 0, bp_bi_mode_pht_value = 0, bp_predicted = False, bp_jump = False,
      bp_next_pc = 0, bp_uncondition_indirect_jump = False, bp_condition_jump = False,
      bp_checkpoint_id_valid = False, bp_checkpoint_id = 0\<rparr>"

record rob_item_t =
  ri_inst_common_info :: inst_common_info_t
  ri_new_phy_reg_id :: nat
  ri_old_phy_reg_id :: nat
  ri_old_phy_reg_id_valid :: bool
  ri_finish :: bool
  ri_pc :: u32
  ri_inst_value :: u32
  ri_last_uop :: bool
  ri_rd :: u32
  ri_has_exception :: bool
  ri_exception_id :: riscv_exception_t
  ri_exception_value :: u32
  ri_bru_op :: bool
  ri_bru_jump :: bool
  ri_bru_next_pc :: u32
  ri_is_mret :: bool
  ri_csr_addr :: u32
  ri_csr_newvalue :: u32
  ri_csr_newvalue_valid :: bool
  ri_old_phy_id_free_list_rptr :: nat
  ri_old_phy_id_free_list_rstage :: bool
  ri_new_phy_id_free_list_rptr :: nat
  ri_new_phy_id_free_list_rstage :: bool
  ri_branch_predictor_info_pack :: branch_predictor_info_pack_t
  ri_load_queue_id_valid :: bool
  ri_load_queue_id :: nat
  ri_store_buffer_id_valid :: bool
  ri_store_buffer_id :: nat

definition rob_item_make :: rob_item_t where
  "rob_item_make =
     \<lparr>ri_inst_common_info = \<lparr>inst_id = 0\<rparr>, ri_new_phy_reg_id = 0, ri_old_phy_reg_id = 0,
      ri_old_phy_reg_id_valid = False, ri_finish = False, ri_pc = 0, ri_inst_value = 0, ri_last_uop = False,
      ri_rd = 0, ri_has_exception = False, ri_exception_id = instruction_address_misaligned,
      ri_exception_value = 0, ri_bru_op = False, ri_bru_jump = False, ri_bru_next_pc = 0, ri_is_mret = False,
      ri_csr_addr = 0, ri_csr_newvalue = 0, ri_csr_newvalue_valid = False, ri_old_phy_id_free_list_rptr = 0,
      ri_old_phy_id_free_list_rstage = False, ri_new_phy_id_free_list_rptr = 0,
      ri_new_phy_id_free_list_rstage = False, ri_branch_predictor_info_pack = branch_predictor_info_pack_make,
      ri_load_queue_id_valid = False, ri_load_queue_id = 0, ri_store_buffer_id_valid = False,
      ri_store_buffer_id = 0\<rparr>"

record rob =
  rob_fifo :: "rob_item_t fifo"
  rob_committed :: bool
  rob_commit_num :: u32
  rob_global_commit_num :: u64

definition rob_reset :: "rob \<Rightarrow> rob" where
  "rob_reset r = r\<lparr>rob_fifo := fifo_reset (rob_fifo r), rob_committed := False, rob_commit_num := 0,
                   rob_global_commit_num := 0\<rparr>"

definition rob_make :: "nat \<Rightarrow> rob" where
  "rob_make n = rob_reset \<lparr>rob_fifo = fifo_make n rob_item_make, rob_committed = False, rob_commit_num = 0,
     rob_global_commit_num = 0\<rparr>"

definition rob_sync :: "rob \<Rightarrow> rob" where
  "rob_sync r = r\<lparr>rob_fifo := fifo_sync (rob_fifo r)\<rparr>"

definition rob_set_committed :: "bool \<Rightarrow> rob \<Rightarrow> rob" where
  "rob_set_committed value r = r\<lparr>rob_committed := value\<rparr>"

definition add_commit_num :: "u32 \<Rightarrow> rob \<Rightarrow> rob" where
  "add_commit_num add_num r =
     r\<lparr>rob_commit_num := rob_commit_num r + add_num,
       rob_global_commit_num := rob_global_commit_num r + ucast add_num\<rparr>"

definition clear_commit_num :: "rob \<Rightarrow> rob" where
  "clear_commit_num r = r\<lparr>rob_commit_num := 0\<rparr>"

definition rob_push :: "rob_item_t \<Rightarrow> rob \<Rightarrow> bool \<times> rob" where
  "rob_push element r = (case fifo_push element (rob_fifo r) of (ret, f) \<Rightarrow> (ret, r\<lparr>rob_fifo := f\<rparr>))"

definition rob_pop :: "rob \<Rightarrow> rob_item_t option \<times> rob" where
  "rob_pop r = (case fifo_pop (rob_fifo r) of (x, f) \<Rightarrow> (x, r\<lparr>rob_fifo := f\<rparr>))"

definition rob_get_item :: "rob \<Rightarrow> nat \<Rightarrow> rob_item_t option" where
  "rob_get_item r item_id = customer_get_item (rob_fifo r) item_id"

definition check_new_id_valid :: "rob \<Rightarrow> nat \<Rightarrow> bool" where
  "check_new_id_valid r i =
     (let f = rob_fifo r in
      if producer_is_full f then False
      else if dff_get_new (wstage f) = dff_get (rstage f)
      then \<not> (i \<ge> dff_get (rptr f) \<and> i < dff_get_new (wptr f))
      else \<not> ((i \<ge> dff_get (rptr f) \<and> i < fsize f) \<or> i < dff_get_new (wptr f)))"

definition get_new_id :: "rob \<Rightarrow> nat option" where
  "get_new_id r = (if producer_is_full (rob_fifo r) then None else Some (dff_get_new (wptr (rob_fifo r))))"

definition get_new_id_stage :: "rob \<Rightarrow> bool option" where
  "get_new_id_stage r = (if producer_is_full (rob_fifo r) then None else Some (dff_get_new (wstage (rob_fifo r))))"

text \<open>
  \<^verbatim>\<open>get_next_new_id\<close> returns false without a result when the given slot is in use; otherwise it
  gives the next slot and whether that one is free.
\<close>

definition get_next_new_id :: "rob \<Rightarrow> nat \<Rightarrow> (nat \<times> bool) option" where
  "get_next_new_id r cur_new_id =
     (if \<not> check_new_id_valid r cur_new_id then None
      else (let next_new_id = (cur_new_id + 1) mod fsize (rob_fifo r)
            in Some (next_new_id, check_new_id_valid r next_new_id)))"

definition get_front_id :: "rob \<Rightarrow> nat option" where
  "get_front_id r = customer_get_front_id (rob_fifo r)"

definition get_tail_id :: "rob \<Rightarrow> nat option" where
  "get_tail_id r = customer_get_tail_id (rob_fifo r)"

definition get_prev_id :: "rob \<Rightarrow> nat \<Rightarrow> (nat \<times> bool) option" where
  "get_prev_id r i =
     do {
       verify (customer_check_id_valid (rob_fifo r) i);
       let prev_id = (i + fsize (rob_fifo r) - 1) mod fsize (rob_fifo r);
       Some (prev_id, customer_check_id_valid (rob_fifo r) prev_id)
     }"

definition get_next_id :: "rob \<Rightarrow> nat \<Rightarrow> (nat \<times> bool) option" where
  "get_next_id r i =
     do {
       verify (customer_check_id_valid (rob_fifo r) i);
       let next_id = (i + 1) mod fsize (rob_fifo r);
       Some (next_id, customer_check_id_valid (rob_fifo r) next_id)
     }"

subsection \<open>Slots and allocation counters\<close>

abbreviation rob_window :: "rob \<Rightarrow> nat \<Rightarrow> nat \<Rightarrow> nat \<Rightarrow> nat \<Rightarrow> bool" where
  "rob_window r \<equiv> fifo_window (rob_fifo r)"

lemma rob_new_id_window:
  assumes "rob_window r rc rn wc wn" and "wn < rc + fsize (rob_fifo r)"
  shows "get_new_id r = Some (wn mod fsize (rob_fifo r))" and "get_new_id_stage r = Some (odd (wn div fsize (rob_fifo r)))"
  using assms window_flags(1)[OF assms(1)]
  by (auto simp: get_new_id_def get_new_id_stage_def fifo_window_def pos_defs ring_at_def)

lemma check_new_id_valid_window:
  assumes "rob_window r rc rn wc wn"
  shows "check_new_id_valid r i \<longleftrightarrow>
    wn < rc + fsize (rob_fifo r) \<and> (i \<notin> (\<lambda>c. c mod fsize (rob_fifo r)) ` {rc..<wn})"
proof -
  let ?f = "rob_fifo r"
  note d = assms[unfolded fifo_window_def pos_defs ring_at_def]
  have m: "0 < fsize ?f" "rc \<le> wn" "wn \<le> rc + fsize ?f" using d by auto
  show ?thesis
    unfolding window_mem_slots[OF m] check_new_id_valid_def window_flags[OF assms] Let_def
    using d by auto
qed

lemma slot_free_ahead:
  fixes sz rc c wn :: nat
  assumes "0 < sz" and "wn \<le> c" and "c < rc + sz"
  shows "c mod sz \<notin> (\<lambda>c. c mod sz) ` {rc..<wn}"
proof
  assume "c mod sz \<in> (\<lambda>c. c mod sz) ` {rc..<wn}"
  then obtain b where b: "rc \<le> b" "b < wn" "c mod sz = b mod sz" by auto
  then show False using mod_eq_near[of sz b c] assms by simp
qed

lemma rob_push_item:
  assumes w: "rob_window r rc rn wc wn" and "wn < rc + fsize (rob_fifo r)"
  obtains r' where "rob_push x r = (True, r')" "rob_window r' rc rn wc (Suc wn)" "fsize (rob_fifo r') = fsize (rob_fifo r)"
    "rob_get_item (rob_sync r') (wn mod fsize (rob_fifo r)) = Some x"
    "customer_check_id_valid (rob_fifo (rob_sync r')) (wn mod fsize (rob_fifo r))"
proof -
  let ?f = "rob_fifo r"
  let ?f' = "fifo_advance_wptr (fifo_write_slot (dff_get_new (wptr ?f)) x ?f)"
  note d = w[unfolded fifo_window_def]
  have p: "dff_get_new (wptr ?f) = wn mod fsize ?f" using d by (simp add: pos_defs ring_at_def)
  have nf: "\<not> producer_is_full ?f" using window_flags(1)[OF w] assms(2) by simp
  have push: "rob_push x r = (True, r\<lparr>rob_fifo := ?f'\<rparr>)" using nf by (simp add: rob_push_def fifo_push_def)
  have w': "fifo_window ?f' rc rn wc (Suc wn)" by (rule window_advance_wptr[OF w assms(2)])
  have sz: "fsize ?f' = fsize ?f" by (simp add: fifo_advance_wptr_def fifo_write_slot_def)
  have i: "wn mod fsize ?f < length (buffer ?f)" using d by simp
  have "rob_get_item (rob_sync (r\<lparr>rob_fifo := ?f'\<rparr>)) (wn mod fsize ?f) = Some x"
    using i by (simp add: rob_get_item_def rob_sync_def customer_get_item_def fifo_sync_def p dff_get_def dff_sync_def
        fifo_advance_wptr_def fifo_write_slot_def dff_set_def)
  moreover have "customer_check_id_valid (rob_fifo (rob_sync (r\<lparr>rob_fifo := ?f'\<rparr>))) (wn mod fsize ?f)"
    using window_check_id(2)[OF window_sync[OF w'], of "wn mod fsize ?f"] d sz
    by (simp add: rob_sync_def fifo_sync_def)
  ultimately show thesis using that[of "r\<lparr>rob_fifo := ?f'\<rparr>"] push w' sz by simp
qed

text \<open>The slots that commit visits: the front, then one successor after the other.\<close>

fun rob_walk :: "rob \<Rightarrow> nat \<Rightarrow> nat option" where
  "rob_walk r 0 = get_front_id r"
| "rob_walk r (Suc k) =
     do { i \<leftarrow> rob_walk r k; (j, valid) \<leftarrow> get_next_id r i; if valid then Some j else None }"

lemma rob_walk_window:
  assumes w: "rob_window r rc rn wc wn" and "k < wc - rn"
  shows "rob_walk r k = Some ((rn + k) mod fsize (rob_fifo r))"
  using assms(2)
proof (induction k)
  case 0
  then show ?case using window_flags(4)[OF w] w
    by (simp add: get_front_id_def customer_get_front_id_def fifo_window_def pos_defs ring_at_def)
next
  case (Suc k)
  let ?sz = "fsize (rob_fifo r)"
  have "customer_check_id_valid (rob_fifo r) ((rn + k) mod ?sz)"
    "customer_check_id_valid (rob_fifo r) ((rn + Suc k) mod ?sz)"
    using Suc.prems by (auto simp: window_check_id(2)[OF w])
  moreover have "((rn + k) mod ?sz + 1) mod ?sz = (rn + Suc k) mod ?sz" by (simp add: mod_Suc_eq)
  ultimately show ?case using Suc by (simp add: get_next_id_def)
qed

subsection \<open>Properties\<close>

text \<open>
  The slot number that rename writes into an instruction before the push is the slot the
  instruction gets: when the buffer is not full, \<^verbatim>\<open>get_new_id\<close> names the slot where the next
  \<^verbatim>\<open>push\<close> puts its item (readable there after the clock edge, and reported valid), and
  \<^verbatim>\<open>get_next_new_id\<close> announces the slot of the push after that one, or that there will be none.
\<close>

theorem rob_new_id_exact:
  assumes "fifo_inv (rob_fifo r)" and "1 < fsize (rob_fifo r)" and "get_new_id r = Some i"
  shows "\<exists>r' j valid. rob_push x r = (True, r') \<and> fifo_inv (rob_fifo r') \<and>
    rob_get_item (rob_sync r') i = Some x \<and> customer_check_id_valid (rob_fifo (rob_sync r')) i \<and>
    get_next_new_id r i = Some (j, valid) \<and> get_new_id r' = (if valid then Some j else None)"
proof -
  let ?sz = "fsize (rob_fifo r)"
  obtain rc rn wc wn where w: "rob_window r rc rn wc wn" using assms(1) by (rule fifo_windowE)
  have d: "0 < ?sz" "rc \<le> wn" "wn \<le> rc + ?sz" using w by (auto simp: fifo_window_def)
  have nf: "wn < rc + ?sz" using assms(3) window_flags(1)[OF w] d(3) by (auto simp: get_new_id_def split: if_splits)
  have i: "i = wn mod ?sz" using rob_new_id_window(1)[OF w nf] assms(3) by simp
  obtain r' where r': "rob_push x r = (True, r')" "rob_window r' rc rn wc (Suc wn)" "fsize (rob_fifo r') = ?sz"
    "rob_get_item (rob_sync r') i = Some x" "customer_check_id_valid (rob_fifo (rob_sync r')) i"
    using rob_push_item[OF w nf] i by blast
  have j: "(i + 1) mod ?sz = Suc wn mod ?sz" by (simp add: i mod_Suc_eq)
  have "check_new_id_valid r i"
    using check_new_id_valid_window[OF w] slot_free_ahead[OF d(1), of wn wn rc] nf i by simp
  moreover have "check_new_id_valid r (Suc wn mod ?sz) \<longleftrightarrow> Suc wn < rc + ?sz"
  proof (cases "Suc wn < rc + ?sz")
    case True
    then show ?thesis
      using check_new_id_valid_window[OF w] slot_free_ahead[OF d(1), of wn "Suc wn" rc] nf by simp
  next
    case False
    then have e: "Suc wn = rc + ?sz" using nf by simp
    then have "Suc wn mod ?sz = rc mod ?sz" "rc < wn" using assms(2) by simp_all
    then have "Suc wn mod ?sz \<in> (\<lambda>c. c mod ?sz) ` {rc..<wn}" by auto
    then show ?thesis using False check_new_id_valid_window[OF w] by simp
  qed
  ultimately have "get_next_new_id r i = Some (Suc wn mod ?sz, Suc wn < rc + ?sz)"
    by (simp add: get_next_new_id_def j[simplified])
  moreover have "get_new_id r' = (if Suc wn < rc + ?sz then Some (Suc wn mod ?sz) else None)"
    using rob_new_id_window(1)[OF r'(2)] window_flags(1)[OF r'(2)] r'(3) nf by (auto simp: get_new_id_def)
  ultimately show ?thesis using r' window_inv[OF r'(2)] by blast
qed

text \<open>
  Commit sees the instructions in program order: starting at \<^verbatim>\<open>get_front_id\<close> and following
  \<^verbatim>\<open>get_next_id\<close>, step \<open>k\<close> reaches the \<open>k\<close>-th oldest instruction of the buffer, no call aborts,
  and, unless the buffer is full, the walk ends after the youngest. In a full buffer the successor
  of the youngest is reported to be the oldest, so the walk has to be bounded by its caller.
\<close>

theorem rob_walk_in_order:
  assumes "fifo_inv (rob_fifo r)"
  shows "(\<forall>k < length (fifo_avail (rob_fifo r)). \<exists>i. rob_walk r k = Some i \<and>
      rob_get_item r i = Some (fifo_avail (rob_fifo r) ! k))
    \<and> rob_walk r (length (fifo_avail (rob_fifo r))) =
        (if customer_is_full (rob_fifo r) then get_front_id r else None)"
proof -
  let ?f = "rob_fifo r"
  let ?sz = "fsize ?f"
  obtain rc rn wc wn where w: "rob_window r rc rn wc wn" using assms by (rule fifo_windowE)
  note d = w[unfolded fifo_window_def]
  have len: "length (fifo_avail ?f) = wc - rn" by (simp add: window_lists[OF w])
  have "rob_walk r k = Some ((rn + k) mod ?sz) \<and> rob_get_item r ((rn + k) mod ?sz) = Some (fifo_avail ?f ! k)"
    if "k < wc - rn" for k
    using rob_walk_window[OF w that] that d by (simp add: rob_get_item_def customer_get_item_def window_lists[OF w])
  moreover have "rob_walk r (wc - rn) = (if customer_is_full ?f then get_front_id r else None)"
  proof (cases "wc - rn")
    case 0
    then have "wc = rn" using d by simp
    then show ?thesis using window_flags(3,4)[OF w] d by (simp add: get_front_id_def customer_get_front_id_def)
  next
    case (Suc k)
    have at: "rob_walk r k = Some ((rn + k) mod ?sz)" using rob_walk_window[OF w, of k] Suc by simp
    have v: "customer_check_id_valid ?f ((rn + k) mod ?sz)" using Suc by (auto simp: window_check_id(2)[OF w])
    have nx: "Suc ((rn + k) mod ?sz) mod ?sz = wc mod ?sz" using Suc d by (simp add: mod_Suc_eq) (metis Suc add_Suc_right le_add_diff_inverse)
    have nxt: "rob_walk r (Suc k) = (if customer_check_id_valid ?f (wc mod ?sz) then Some (wc mod ?sz) else None)"
      using at v nx by (simp add: get_next_id_def)
    show ?thesis
    proof (cases "wc = rn + ?sz")
      case True
      then have "wc mod ?sz = rn mod ?sz" by simp
      moreover have "customer_check_id_valid ?f (rn mod ?sz)" using Suc by (auto simp: window_check_id(2)[OF w])
      moreover have "get_front_id r = Some (rn mod ?sz)"
        using window_flags(4)[OF w] True d by (simp add: get_front_id_def customer_get_front_id_def pos_defs ring_at_def)
      ultimately show ?thesis unfolding Suc nxt using True window_flags(3)[OF w] by simp
    next
      case False
      then have "\<not> customer_check_id_valid ?f (wc mod ?sz)"
        using slot_free_ahead[of ?sz wc wc rn] d unfolding window_check_id(2)[OF w] by auto
      then show ?thesis unfolding Suc nxt using False window_flags(3)[OF w] by simp
    qed
  qed
  ultimately show ?thesis unfolding len by blast
qed

end
