(* ===== verification/Store_Forward.thy ===== *)
theory Store_Forward
  imports Prelude
begin

text \<open>
  Byte-wise reading of the bit manipulation by which \<^verbatim>\<open>store_buffer\<close> and
  \<^verbatim>\<open>retired_store_buffer\<close> collect the data that a load takes from stores still on their way to
  memory. A store of \<open>n\<close> bytes at \<open>a\<close> covers the addresses \<open>a\<close> to \<open>a + n - 1\<close>; what a load
  has to see at an address is the byte of the last store that covers it.
\<close>

definition byte_of :: "u32 \<Rightarrow> nat \<Rightarrow> u8" where
  "byte_of w k = ucast (drop_bit (8 * k) w)"

lemma bit_byte_of: "bit (byte_of w k) j \<longleftrightarrow> j < 8 \<and> bit w (8 * k + j)"
  by (simp add: byte_of_def bit_simps)

lemma byte_eqI: "(\<And>j. j < 8 \<Longrightarrow> bit x j = bit y j) \<Longrightarrow> x = (y :: u8)"
  by (rule bit_word_eqI) simp

lemma byte_of_0 [simp]: "byte_of 0 k = 0"
  by (simp add: byte_of_def)

lemma in_bytes:
  fixes j k d n :: nat
  assumes "j < 8"
  shows "8 * d \<le> 8 * k + j \<and> 8 * k + j < 8 * d + 8 * n \<longleftrightarrow> d \<le> k \<and> k < d + n"
  using assms by auto

lemma bit_mask_at:
  fixes i :: nat
  assumes "i < 32"
  shows "bit (push_bit p (mask l :: u32)) i \<longleftrightarrow> p \<le> i \<and> i < p + l"
  using assms by (auto simp: bit_simps)

lemma byte_insert:
  assumes "k < 4" and "d + n \<le> 4"
  shows "byte_of ((res AND NOT (push_bit (8 * d) (mask (8 * n)))) OR push_bit (8 * d) (data AND mask (8 * n))) k
      = (if d \<le> k \<and> k < d + n then byte_of data (k - d) else byte_of res k)"
proof (rule byte_eqI)
  fix j :: nat
  assume j: "j < 8"
  have i: "8 * k + j < 32" using assms(1) j by simp
  have in_range: "bit (push_bit (8 * d) (mask (8 * n) :: u32)) (8 * k + j) \<longleftrightarrow> d \<le> k \<and> k < d + n"
    using bit_mask_at[OF i, of "8 * d" "8 * n"] in_bytes[OF j, of d k n] by simp
  have "8 * k + j - 8 * d = 8 * (k - d) + j" if "d \<le> k" using that by simp
  then have "bit (push_bit (8 * d) (data AND mask (8 * n))) (8 * k + j) \<longleftrightarrow> d \<le> k \<and> k < d + n \<and> bit data (8 * (k - d) + j)"
    using i in_bytes[OF j, of d k n] by (auto simp: bit_simps)
  then show "bit (byte_of ((res AND NOT (push_bit (8 * d) (mask (8 * n)))) OR push_bit (8 * d) (data AND mask (8 * n))) k) j
      = bit (if d \<le> k \<and> k < d + n then byte_of data (k - d) else byte_of res k) j"
    using j i in_range by (auto simp: bit_byte_of bit_or_iff bit_and_iff bit_not_iff)
qed

lemma byte_insert_low:
  assumes "k < 4" and "n + e \<le> 4"
  shows "byte_of ((res AND NOT (mask (8 * n))) OR (drop_bit (8 * e) data AND mask (8 * n))) k
      = (if k < n then byte_of data (k + e) else byte_of res k)"
proof (rule byte_eqI)
  fix j :: nat
  assume j: "j < 8"
  have i: "8 * k + j < 32" using assms(1) j by simp
  have in_range: "bit (mask (8 * n) :: u32) (8 * k + j) \<longleftrightarrow> k < n"
    using bit_mask_at[OF i, of 0 "8 * n"] in_bytes[OF j, of 0 k n] by simp
  have "8 * e + (8 * k + j) = 8 * (k + e) + j" by simp
  then have "bit (drop_bit (8 * e) data) (8 * k + j) \<longleftrightarrow> bit data (8 * (k + e) + j)"
    by (simp only: bit_drop_bit_eq comp_def)
  then show "bit (byte_of ((res AND NOT (mask (8 * n))) OR (drop_bit (8 * e) data AND mask (8 * n))) k) j
      = bit (if k < n then byte_of data (k + e) else byte_of res k) j"
    using j i in_range by (auto simp: bit_byte_of bit_or_iff bit_and_iff bit_not_iff)
qed

lemma byte_mask:
  assumes "k < 4" and "d + n \<le> 4"
  shows "byte_of (m OR push_bit (8 * d) (mask (8 * n))) k = (if d \<le> k \<and> k < d + n then - 1 else byte_of m k)"
proof (rule byte_eqI)
  fix j :: nat
  assume j: "j < 8"
  have i: "8 * k + j < 32" using assms(1) j by simp
  have "bit (push_bit (8 * d) (mask (8 * n) :: u32)) (8 * k + j) \<longleftrightarrow> d \<le> k \<and> k < d + n"
    using bit_mask_at[OF i, of "8 * d" "8 * n"] in_bytes[OF j, of d k n] by simp
  then show "bit (byte_of (m OR push_bit (8 * d) (mask (8 * n))) k) j
      = bit (if d \<le> k \<and> k < d + n then - 1 else byte_of m k) j"
    using j by (auto simp: bit_byte_of bit_or_iff)
qed

subsection \<open>What a load has to see\<close>

record store_access =
  sa_addr :: u32
  sa_size :: u32
  sa_data :: u32

definition covers :: "store_access \<Rightarrow> nat \<Rightarrow> bool" where
  "covers s x \<longleftrightarrow> unat (sa_addr s) \<le> x \<and> x < unat (sa_addr s) + unat (sa_size s)"

definition store_byte :: "store_access \<Rightarrow> nat \<Rightarrow> u8" where
  "store_byte s x = byte_of (sa_data s) (x - unat (sa_addr s))"

text \<open>The last of the stores that covers an address, in the order of the list.\<close>

fun last_store :: "store_access list \<Rightarrow> nat \<Rightarrow> u8 option" where
  "last_store [] x = None"
| "last_store (s # ss) x =
     (case last_store ss x of Some b \<Rightarrow> Some b | None \<Rightarrow> if covers s x then Some (store_byte s x) else None)"

lemma last_store_snoc:
  "last_store (ss @ [s]) x = (if covers s x then Some (store_byte s x) else last_store ss x)"
  by (induction ss) (auto split: option.splits)

text \<open>
  A result and a mask that carry a function from byte offsets to bytes: the offsets with a byte have
  it in the result and all ones in the mask, the others are zero in both.
\<close>

definition carries :: "u32 \<times> u32 \<Rightarrow> (nat \<Rightarrow> u8 option) \<Rightarrow> bool" where
  "carries rm g \<longleftrightarrow> (\<forall>k < 4. case g k of
      Some b \<Rightarrow> byte_of (fst rm) k = b \<and> byte_of (snd rm) k = - 1
    | None \<Rightarrow> byte_of (fst rm) k = 0 \<and> byte_of (snd rm) k = 0)"

lemma carries_step:
  assumes "carries rm g"
    and "\<And>k. k < 4 \<Longrightarrow> byte_of r k = (if P k then f k else byte_of (fst rm) k)"
    and "\<And>k. k < 4 \<Longrightarrow> byte_of m k = (if P k then - 1 else byte_of (snd rm) k)"
  shows "carries (r, m) (\<lambda>k. if P k then Some (f k) else g k)"
  unfolding carries_def fst_conv snd_conv
proof (intro allI impI)
  fix k :: nat
  assume k: "k < 4"
  show "case if P k then Some (f k) else g k of
      None \<Rightarrow> byte_of r k = 0 \<and> byte_of m k = 0 | Some b \<Rightarrow> byte_of r k = b \<and> byte_of m k = - 1"
    using assms(1)[unfolded carries_def, rule_format, OF k]
    by (cases "P k"; cases "g k") (simp_all add: assms(2,3)[OF k])
qed

lemma carriesD:
  assumes "carries rm g" and "k < 4"
  shows "g k = Some b \<Longrightarrow> byte_of (fst rm) k = b \<and> byte_of (snd rm) k = - 1"
    and "g k = None \<Longrightarrow> byte_of (fst rm) k = 0 \<and> byte_of (snd rm) k = 0"
  using assms(1)[unfolded carries_def, rule_format, OF assms(2)] by simp_all

definition access_size :: "u32 \<Rightarrow> bool" where
  "access_size n \<longleftrightarrow> n \<in> {1, 2, 4}"

lemma access_sizeE:
  assumes "access_size n"
  obtains "n = 1" "unat n = 1" | "n = 2" "unat n = 2" | "n = 4" "unat n = 4"
  using assms by (auto simp: access_size_def)

definition no_wrap :: "u32 \<Rightarrow> u32 \<Rightarrow> bool" where
  "no_wrap a n \<longleftrightarrow> unat a + unat n < 2 ^ 32"

lemma no_wrap_add: "no_wrap a n \<Longrightarrow> unat (a + n) = unat a + unat n"
  by (simp add: no_wrap_def unat_add_lem[symmetric])

lemma bit_length_mask:
  assumes "0 < n" and "n \<le> 4"
  shows "(if push_bit 3 (of_nat n :: u32) = 32 then 0xffffffff else push_bit (unat (push_bit 3 (of_nat n :: u32))) 1 - 1)
    = (mask (8 * n) :: u32)"
proof -
  consider "n = 1" | "n = 2" | "n = 3" | "n = 4" using assms by linarith
  then show ?thesis by cases (simp_all add: mask_eq_exp_minus_1)
qed

subsection \<open>The two ways a store meets a load\<close>

text \<open>
  The bodies of the two branches, the same in both buffers: the store starts inside the load, or
  it starts below the load and reaches into it.
\<close>

definition bit_mask_of :: "u32 \<Rightarrow> u32" where
  "bit_mask_of bit_length = (if bit_length = 32 then 0xffffffff else push_bit (unat bit_length) 1 - 1)"

definition overlay_inside :: "u32 \<Rightarrow> u32 \<Rightarrow> store_access \<Rightarrow> u32 \<times> u32 \<Rightarrow> u32 \<times> u32" where
  "overlay_inside addr sz s rm =
     (let bit_offset = push_bit 3 (sa_addr s - addr);
          bit_length = push_bit 3 (min (sa_size s) (addr + sz - sa_addr s));
          bit_mask = bit_mask_of bit_length
      in ((fst rm AND NOT (push_bit (unat bit_offset) bit_mask)) OR push_bit (unat bit_offset) (sa_data s AND bit_mask),
          snd rm OR push_bit (unat bit_offset) bit_mask))"

definition overlay_below :: "u32 \<Rightarrow> u32 \<Rightarrow> store_access \<Rightarrow> u32 \<times> u32 \<Rightarrow> u32 \<times> u32" where
  "overlay_below addr sz s rm =
     (let bit_offset = push_bit 3 (addr - sa_addr s);
          bit_length = push_bit 3 (min sz (sa_addr s + sa_size s - addr));
          bit_mask = bit_mask_of bit_length
      in ((fst rm AND NOT bit_mask) OR (drop_bit (unat bit_offset) (sa_data s) AND bit_mask), snd rm OR bit_mask))"

lemma of_nat_unat_id: "of_nat (unat w) = (w :: u32)"
  by simp

lemma eightfold: "d < 5 \<Longrightarrow> unat (push_bit 3 (of_nat d :: u32)) = 8 * d"
proof -
  assume "d < 5"
  then consider "d = 0" | "d = 1" | "d = 2" | "d = 3" | "d = 4" by linarith
  then show ?thesis by cases simp_all
qed

lemma overlay_inside_bytes:
  assumes "access_size sz" and "access_size (sa_size s)" and "no_wrap addr sz" and "no_wrap (sa_addr s) (sa_size s)"
    and "unat addr \<le> unat (sa_addr s)" and "unat (sa_addr s) < unat addr + unat sz" and "carries rm g"
  shows "carries (overlay_inside addr sz s rm)
    (\<lambda>k. if k < unat sz \<and> covers s (unat addr + k) then Some (store_byte s (unat addr + k)) else g k)"
proof -
  define d where "d = unat (sa_addr s) - unat addr"
  define n where "n = min (unat (sa_size s)) (unat sz - d)"
  have pos: "0 < unat sz" "unat sz \<le> 4" "0 < unat (sa_size s)" using assms(1,2) by (auto elim!: access_sizeE)
  have le: "addr \<le> sa_addr s" "sa_addr s \<le> addr + sz"
    using assms(5,6) no_wrap_add[OF assms(3)] by (simp_all add: word_le_nat_alt)
  have off: "sa_addr s - addr = of_nat d" using le(1) by (simp add: d_def word_le_nat_alt flip: unat_sub)
  have len: "min (sa_size s) (addr + sz - sa_addr s) = of_nat n"
  proof -
    have "unat (addr + sz - sa_addr s) = unat sz - d"
      using le(2) no_wrap_add[OF assms(3)] assms(5) by (simp add: unat_sub d_def)
    then have "unat (min (sa_size s) (addr + sz - sa_addr s)) = n"
      by (simp add: n_def min_def word_le_nat_alt)
    then show ?thesis using of_nat_unat_id by metis
  qed
  have dn: "d + n \<le> 4" "0 < n" "n \<le> 4" "d < 5" using pos assms(6) by (auto simp: d_def n_def)
  have mk: "bit_mask_of (push_bit 3 (of_nat n)) = mask (8 * n)"
    using bit_length_mask[OF dn(2,3)] by (simp add: bit_mask_of_def)
  have at: "unat (push_bit 3 (sa_addr s - addr)) = 8 * d" unfolding off by (rule eightfold[OF dn(4)])
  have o: "overlay_inside addr sz s rm =
      ((fst rm AND NOT (push_bit (8 * d) (mask (8 * n)))) OR push_bit (8 * d) (sa_data s AND mask (8 * n)),
       snd rm OR push_bit (8 * d) (mask (8 * n)))"
    unfolding overlay_inside_def Let_def len mk at ..
  have c: "k < unat sz \<and> covers s (unat addr + k) \<longleftrightarrow> d \<le> k \<and> k < d + n" for k
    using assms(5,6) by (auto simp: covers_def d_def n_def)
  have b: "store_byte s (unat addr + k) = byte_of (sa_data s) (k - d)" if "d \<le> k" for k
    using that assms(5) by (simp add: store_byte_def d_def add.commute)
  show ?thesis
    unfolding o c
  proof (rule carries_step[OF assms(7)])
    fix k :: nat
    assume k: "k < 4"
    show "byte_of ((fst rm AND NOT (push_bit (8 * d) (mask (8 * n)))) OR push_bit (8 * d) (sa_data s AND mask (8 * n))) k
        = (if d \<le> k \<and> k < d + n then store_byte s (unat addr + k) else byte_of (fst rm) k)"
      unfolding byte_insert[OF k dn(1)] using b[of k] by simp
    show "byte_of (snd rm OR push_bit (8 * d) (mask (8 * n))) k
        = (if d \<le> k \<and> k < d + n then - 1 else byte_of (snd rm) k)"
      by (rule byte_mask[OF k dn(1)])
  qed
qed

lemma overlay_below_bytes:
  assumes "access_size sz" and "access_size (sa_size s)" and "no_wrap addr sz" and "no_wrap (sa_addr s) (sa_size s)"
    and "unat (sa_addr s) < unat addr" and "unat addr < unat (sa_addr s) + unat (sa_size s)" and "carries rm g"
  shows "carries (overlay_below addr sz s rm)
    (\<lambda>k. if k < unat sz \<and> covers s (unat addr + k) then Some (store_byte s (unat addr + k)) else g k)"
proof -
  define e where "e = unat addr - unat (sa_addr s)"
  define n where "n = min (unat sz) (unat (sa_size s) - e)"
  have pos: "0 < unat sz" "unat (sa_size s) \<le> 4" "0 < unat (sa_size s)" using assms(1,2) by (auto elim!: access_sizeE)
  have le: "sa_addr s \<le> addr" "addr \<le> sa_addr s + sa_size s"
    using assms(5,6) no_wrap_add[OF assms(4)] by (simp_all add: word_le_nat_alt)
  have off: "addr - sa_addr s = of_nat e" using le(1) by (simp add: e_def word_le_nat_alt flip: unat_sub)
  have len: "min sz (sa_addr s + sa_size s - addr) = of_nat n"
  proof -
    have "unat (sa_addr s + sa_size s - addr) = unat (sa_size s) - e"
      using le(2) no_wrap_add[OF assms(4)] assms(5) by (simp add: unat_sub e_def)
    then have "unat (min sz (sa_addr s + sa_size s - addr)) = n"
      by (simp add: n_def min_def word_le_nat_alt)
    then show ?thesis using of_nat_unat_id by metis
  qed
  have dn: "n + e \<le> 4" "0 < n" "n \<le> 4" "e < 5" "0 + n \<le> 4" using pos assms(6) by (auto simp: e_def n_def)
  have mk: "bit_mask_of (push_bit 3 (of_nat n)) = mask (8 * n)"
    using bit_length_mask[OF dn(2,3)] by (simp add: bit_mask_of_def)
  have at: "unat (push_bit 3 (addr - sa_addr s)) = 8 * e" unfolding off by (rule eightfold[OF dn(4)])
  have o: "overlay_below addr sz s rm =
      ((fst rm AND NOT (mask (8 * n))) OR (drop_bit (8 * e) (sa_data s) AND mask (8 * n)), snd rm OR mask (8 * n))"
    unfolding overlay_below_def Let_def len mk at ..
  have c: "k < unat sz \<and> covers s (unat addr + k) \<longleftrightarrow> k < n" for k
    using assms(5,6) by (auto simp: covers_def e_def n_def)
  have b: "store_byte s (unat addr + k) = byte_of (sa_data s) (k + e)" for k
    using assms(5) by (simp add: store_byte_def e_def add.commute)
  have m: "byte_of (snd rm OR mask (8 * n)) k = (if k < n then - 1 else byte_of (snd rm) k)" if "k < 4" for k
    using byte_mask[OF that dn(5), of "snd rm"] by simp
  show ?thesis
    unfolding o c
  proof (rule carries_step[OF assms(7)])
    fix k :: nat
    assume k: "k < 4"
    show "byte_of ((fst rm AND NOT (mask (8 * n))) OR (drop_bit (8 * e) (sa_data s) AND mask (8 * n))) k
        = (if k < n then store_byte s (unat addr + k) else byte_of (fst rm) k)"
      unfolding byte_insert_low[OF k dn(1)] b ..
    show "byte_of (snd rm OR mask (8 * n)) k = (if k < n then - 1 else byte_of (snd rm) k)"
      by (rule m[OF k])
  qed
qed

lemma covers_none:
  assumes "\<not> (unat addr \<le> unat (sa_addr s) \<and> unat (sa_addr s) < unat addr + unat sz)"
    and "\<not> (unat (sa_addr s) < unat addr \<and> unat addr < unat (sa_addr s) + unat (sa_size s))"
  shows "\<not> (k < unat sz \<and> covers s (unat addr + k))"
  using assms by (auto simp: covers_def)

end
