(* ===== verification/Fifo_Walk.thy ===== *)
theory Fifo_Walk
  imports Fifo
begin

text \<open>
  The loop that \<^verbatim>\<open>load_queue\<close>, \<^verbatim>\<open>store_buffer\<close> and \<^verbatim>\<open>retired_store_buffer\<close> share: start at
  the front of the producer's view and follow \<^verbatim>\<open>producer_get_next_id\<close> until it reports no
  further slot or comes back to the first one. The body either returns from the whole function
  (\<open>Inl\<close>) or goes on with a new state (\<open>Inr\<close>). On a queue that satisfies its invariant the loop
  visits each slot in use once, oldest first.
\<close>

partial_function (option) producer_walk ::
    "'a fifo \<Rightarrow> (nat \<Rightarrow> 's \<Rightarrow> 'r + 's) \<Rightarrow> nat \<Rightarrow> nat \<Rightarrow> 's \<Rightarrow> ('r + 's) option" where
  "producer_walk f body first_id cur_id s =
     (case body cur_id s of
        Inl r \<Rightarrow> Some (Inl r)
      | Inr s' \<Rightarrow>
          do {
            (next_id, valid) \<leftarrow> producer_get_next_id f cur_id;
            if valid \<and> next_id \<noteq> first_id then producer_walk f body first_id next_id s' else Some (Inr s')
          })"

partial_function (option) producer_walk_stage ::
    "'a fifo \<Rightarrow> (nat \<Rightarrow> bool \<Rightarrow> 's \<Rightarrow> 'r + 's) \<Rightarrow> nat \<Rightarrow> nat \<Rightarrow> bool \<Rightarrow> 's \<Rightarrow> ('r + 's) option" where
  "producer_walk_stage f body first_id cur_id cur_stage s =
     (case body cur_id cur_stage s of
        Inl r \<Rightarrow> Some (Inl r)
      | Inr s' \<Rightarrow>
          do {
            (next_id, next_stage, valid) \<leftarrow> producer_get_next_id_stage f cur_id cur_stage;
            if valid \<and> next_id \<noteq> first_id then producer_walk_stage f body first_id next_id next_stage s'
            else Some (Inr s')
          })"

text \<open>What the loop is meant to do: run the body over a list of positions until it returns.\<close>

fun body_fold :: "('c \<Rightarrow> 's \<Rightarrow> 'r + 's) \<Rightarrow> 'c list \<Rightarrow> 's \<Rightarrow> 'r + 's" where
  "body_fold body [] s = Inr s"
| "body_fold body (c # cs) s = (case body c s of Inl r \<Rightarrow> Inl r | Inr s' \<Rightarrow> body_fold body cs s')"

lemma window_next_slot:
  assumes w: "fifo_window f rc rn wc wn" and "rc \<le> c" and "c < wn"
  shows "producer_get_next_id f (c mod fsize f) = Some (Suc c mod fsize f, producer_check_id_valid f (Suc c mod fsize f))"
    and "producer_get_next_id_stage f (c mod fsize f) (odd (c div fsize f))
      = Some (Suc c mod fsize f, odd (Suc c div fsize f), producer_check_id_valid f (Suc c mod fsize f))"
    and "producer_check_id_valid f (Suc c mod fsize f) \<and> Suc c mod fsize f \<noteq> rc mod fsize f \<longleftrightarrow> Suc c < wn"
proof -
  let ?sz = "fsize f"
  have d: "0 < ?sz" "rc \<le> wn" "wn \<le> rc + ?sz" using w by (auto simp: fifo_window_def)
  have v: "producer_check_id_valid f (c mod ?sz)" using assms(2,3) by (auto simp: window_check_id(1)[OF w])
  have m: "Suc (c mod ?sz) mod ?sz = Suc c mod ?sz" by (simp add: mod_Suc_eq)
  show "producer_get_next_id f (c mod ?sz) = Some (Suc c mod ?sz, producer_check_id_valid f (Suc c mod ?sz))"
    using v m by (simp add: producer_get_next_id_def Let_def)
  have "(?sz \<le> Suc (c mod ?sz)) = (odd (c div ?sz) \<noteq> odd (Suc c div ?sz))"
    using ring_at_Suc[OF d(1), of c] by (auto simp: ring_at_def split: if_splits)
  then have "((?sz \<le> Suc (c mod ?sz)) \<noteq> odd (c div ?sz)) = odd (Suc c div ?sz)" by auto
  then show "producer_get_next_id_stage f (c mod ?sz) (odd (c div ?sz))
      = Some (Suc c mod ?sz, odd (Suc c div ?sz), producer_check_id_valid f (Suc c mod ?sz))"
    using v m by (simp add: producer_get_next_id_stage_def Let_def)
  show "producer_check_id_valid f (Suc c mod ?sz) \<and> Suc c mod ?sz \<noteq> rc mod ?sz \<longleftrightarrow> Suc c < wn"
  proof
    assume "Suc c < wn"
    then show "producer_check_id_valid f (Suc c mod ?sz) \<and> Suc c mod ?sz \<noteq> rc mod ?sz"
      using mod_eq_near[of ?sz rc "Suc c"] assms(2) d unfolding window_check_id(1)[OF w] by auto
  next
    assume h: "producer_check_id_valid f (Suc c mod ?sz) \<and> Suc c mod ?sz \<noteq> rc mod ?sz"
    show "Suc c < wn"
    proof (rule ccontr)
      assume "\<not> Suc c < wn"
      then have c: "Suc c = wn" using assms(3) by simp
      obtain b where b: "rc \<le> b" "b < wn" "wn mod ?sz = b mod ?sz"
        using h unfolding window_check_id(1)[OF w] c by auto
      then have "wn = b + ?sz \<or> wn = b" using mod_eq_near[of ?sz b wn] d by linarith
      then have "b = rc" using b d by linarith
      then show False using h b(3) c by simp
    qed
  qed
qed

lemma producer_walk_window:
  assumes w: "fifo_window f rc rn wc wn" and "rc \<le> c" and "c < wn"
  shows "producer_walk f body (rc mod fsize f) (c mod fsize f) s
    = Some (body_fold (\<lambda>c. body (c mod fsize f)) [c..<wn] s)"
  using assms(2,3)
proof (induction "wn - c" arbitrary: c s)
  case (Suc n)
  note nx = window_next_slot[OF w Suc.prems]
  have list: "[c..<wn] = c # [Suc c..<wn]" using Suc.prems by (simp add: upt_conv_Cons)
  show ?case
  proof (cases "body (c mod fsize f) s")
    case (Inl r)
    then show ?thesis unfolding list by (subst producer_walk.simps) simp
  next
    case (Inr s')
    have step: "producer_walk f body (rc mod fsize f) (c mod fsize f) s =
        (if Suc c < wn then producer_walk f body (rc mod fsize f) (Suc c mod fsize f) s' else Some (Inr s'))"
      by (subst producer_walk.simps) (simp only: Inr nx(1) nx(3) sum.case Option.bind.simps prod.case)
    show ?thesis
    proof (cases "Suc c < wn")
      case True
      then show ?thesis using Suc.hyps(1)[of "Suc c" s'] Suc.hyps(2) Suc.prems unfolding step list by (simp add: Inr)
    next
      case False
      then show ?thesis unfolding step list by (simp add: Inr)
    qed
  qed
qed simp

lemma producer_walk_stage_window:
  assumes w: "fifo_window f rc rn wc wn" and "rc \<le> c" and "c < wn"
  shows "producer_walk_stage f body (rc mod fsize f) (c mod fsize f) (odd (c div fsize f)) s
    = Some (body_fold (\<lambda>c. body (c mod fsize f) (odd (c div fsize f))) [c..<wn] s)"
  using assms(2,3)
proof (induction "wn - c" arbitrary: c s)
  case (Suc n)
  note nx = window_next_slot[OF w Suc.prems]
  have list: "[c..<wn] = c # [Suc c..<wn]" using Suc.prems by (simp add: upt_conv_Cons)
  show ?case
  proof (cases "body (c mod fsize f) (odd (c div fsize f)) s")
    case (Inl r)
    then show ?thesis unfolding list by (subst producer_walk_stage.simps) simp
  next
    case (Inr s')
    have step: "producer_walk_stage f body (rc mod fsize f) (c mod fsize f) (odd (c div fsize f)) s =
        (if Suc c < wn then producer_walk_stage f body (rc mod fsize f) (Suc c mod fsize f) (odd (Suc c div fsize f)) s'
         else Some (Inr s'))"
      by (subst producer_walk_stage.simps) (simp only: Inr nx(2) nx(3) sum.case Option.bind.simps prod.case)
    show ?thesis
    proof (cases "Suc c < wn")
      case True
      then show ?thesis using Suc.hyps(1)[of "Suc c" s'] Suc.hyps(2) Suc.prems unfolding step list by (simp add: Inr)
    next
      case False
      then show ?thesis unfolding step list by (simp add: Inr)
    qed
  qed
qed simp

text \<open>The positions of the producer's view, oldest first.\<close>

definition producer_slots :: "'a fifo \<Rightarrow> nat list" where
  "producer_slots f = ring_slots (fsize f) (fst (r_cur f)) (ring_dist (fsize f) (r_cur f) (w_new f))"

lemma producer_slots_window:
  assumes w: "fifo_window f rc rn wc wn"
  shows "producer_slots f = map (\<lambda>c. c mod fsize f) [rc..<wn]"
proof -
  note d = w[unfolded fifo_window_def]
  have "ring_dist (fsize f) (r_cur f) (w_new f) = wn - rc" using d ring_dist_at[of "fsize f" rc wn] by simp
  then show ?thesis
    using d unfolding producer_slots_def
    by (intro nth_equalityI) (auto simp: ring_at_def mod_add_left_eq)
qed

lemma body_fold_map: "body_fold body (map g cs) s = body_fold (\<lambda>c. body (g c)) cs s"
  by (induction cs arbitrary: s) (auto split: sum.split)

text \<open>The loop as its callers write it, with the test for an empty queue in front.\<close>

lemma producer_walk_front:
  assumes "fifo_inv f"
  shows "(case producer_get_front_id f of None \<Rightarrow> Some (Inr s) | Some cur_id \<Rightarrow> producer_walk f body cur_id cur_id s)
    = Some (body_fold body (producer_slots f) s)"
proof -
  obtain rc rn wc wn where w: "fifo_window f rc rn wc wn" using assms by (rule fifo_windowE)
  have d: "dff_get (rptr f) = rc mod fsize f" "rc \<le> wn" using w by (auto simp: fifo_window_def pos_defs ring_at_def)
  show ?thesis
  proof (cases "rc = wn")
    case True
    then show ?thesis using window_flags(2)[OF w]
      by (simp add: producer_get_front_id_def producer_slots_window[OF w])
  next
    case False
    then show ?thesis using window_flags(2)[OF w] d producer_walk_window[OF w, of rc]
      by (simp add: producer_get_front_id_def producer_slots_window[OF w] body_fold_map)
  qed
qed

end
