(* ===== verification/Store_Buffer.thy ===== *)
theory Store_Buffer
  imports Store_Forward Fifo_Walk Rob
begin

text \<open>
  \<^verbatim>\<open>component/store_buffer.h\<close> and \<^verbatim>\<open>component/retired_store_buffer.h\<close>: the stores in flight and
  the stores that have retired but are not in memory yet. A load asks both for the bytes it needs
  (\<^verbatim>\<open>get_feedback_value\<close>); the answer is a value and a mask of the bytes that are known, or, from
  the store buffer, that an older store to those bytes has no data yet. The part of
  \<^verbatim>\<open>retired_store_buffer\<close> that drives the bus is in Store\_Drain.
\<close>

record store_buffer_item_t =
  sb_inst_common_info :: inst_common_info_t
  sb_data_valid :: bool
  sb_committed :: bool
  sb_rob_id :: nat
  sb_rob_id_stage :: bool
  sb_pc :: u32
  sb_data :: u32
  sb_cycle :: u64

definition store_buffer_item_make :: store_buffer_item_t where
  "store_buffer_item_make =
     \<lparr>sb_inst_common_info = \<lparr>inst_id = 0\<rparr>, sb_data_valid = False, sb_committed = False, sb_rob_id = 0,
      sb_rob_id_stage = False, sb_pc = 0, sb_data = 0, sb_cycle = 0\<rparr>"

record store_buffer =
  sb_fifo :: "store_buffer_item_t fifo"
  sb_item_addr_valid :: "bool dff list"
  sb_item_addr :: "u32 dff list"
  sb_item_size :: "u32 dff list"

definition store_buffer_reset :: "store_buffer \<Rightarrow> store_buffer" where
  "store_buffer_reset b = b\<lparr>sb_fifo := fifo_reset (sb_fifo b)\<rparr>"

definition store_buffer_make :: "nat \<Rightarrow> store_buffer" where
  "store_buffer_make n =
     store_buffer_reset \<lparr>sb_fifo = fifo_make n store_buffer_item_make, sb_item_addr_valid = replicate n (dff_make False),
       sb_item_addr = replicate n (dff_make 0), sb_item_size = replicate n (dff_make 0)\<rparr>"

definition store_buffer_sync :: "store_buffer \<Rightarrow> store_buffer" where
  "store_buffer_sync b =
     b\<lparr>sb_fifo := fifo_sync (sb_fifo b), sb_item_addr_valid := map dff_sync (sb_item_addr_valid b),
       sb_item_addr := map dff_sync (sb_item_addr b), sb_item_size := map dff_sync (sb_item_size b)\<rparr>"

text \<open>\<^verbatim>\<open>check_id_valid\<close> repeats \<^verbatim>\<open>customer_check_id_valid\<close> of the base class.\<close>

definition sb_check_id_valid :: "'a fifo \<Rightarrow> nat \<Rightarrow> bool" where
  "sb_check_id_valid f i =
     (if customer_is_empty f then False
      else if dff_get (wstage f) = dff_get_new (rstage f)
      then i \<ge> dff_get_new (rptr f) \<and> i < dff_get (wptr f)
      else (i \<ge> dff_get_new (rptr f) \<and> i < fsize f) \<or> i < dff_get (wptr f))"

definition sb_set_item :: "nat \<Rightarrow> store_buffer_item_t \<Rightarrow> store_buffer \<Rightarrow> store_buffer option" where
  "sb_set_item i value b =
     do { verify (sb_check_id_valid (sb_fifo b) i); Some (b\<lparr>sb_fifo := fifo_write_slot i value (sb_fifo b)\<rparr>) }"

text \<open>\<^verbatim>\<open>write_addr\<close> has no test; a slot beyond the arrays is \<open>None\<close>.\<close>

definition sb_write_addr :: "nat \<Rightarrow> u32 \<Rightarrow> u32 \<Rightarrow> bool \<Rightarrow> store_buffer \<Rightarrow> store_buffer option" where
  "sb_write_addr i addr sz addr_valid b =
     (if i < length (sb_item_addr b)
      then Some (b\<lparr>sb_item_addr := (sb_item_addr b)[i := dff_set addr (sb_item_addr b ! i)],
                   sb_item_size := (sb_item_size b)[i := dff_set sz (sb_item_size b ! i)],
                   sb_item_addr_valid := (sb_item_addr_valid b)[i := dff_set addr_valid (sb_item_addr_valid b ! i)]\<rparr>)
      else None)"

definition sb_get_addr :: "store_buffer \<Rightarrow> nat \<Rightarrow> u32 option" where
  "sb_get_addr b i = do { verify (sb_check_id_valid (sb_fifo b) i); Some (dff_get (sb_item_addr b ! i)) }"

definition sb_get_size :: "store_buffer \<Rightarrow> nat \<Rightarrow> u32 option" where
  "sb_get_size b i = do { verify (sb_check_id_valid (sb_fifo b) i); Some (dff_get (sb_item_size b ! i)) }"

definition sb_get_item :: "store_buffer \<Rightarrow> nat \<Rightarrow> store_buffer_item_t option" where
  "sb_get_item b i = do { verify (sb_check_id_valid (sb_fifo b) i); Some (dff_get (buffer (sb_fifo b) ! i)) }"

text \<open>The body of the loop of \<^verbatim>\<open>get_feedback_value\<close>; \<open>Inl ()\<close> is the early \<^verbatim>\<open>return std::nullopt\<close>.\<close>

definition sb_access :: "store_buffer \<Rightarrow> nat \<Rightarrow> store_access" where
  "sb_access b i = \<lparr>sa_addr = dff_get_new (sb_item_addr b ! i), sa_size = dff_get_new (sb_item_size b ! i),
     sa_data = sb_data (dff_get_new (buffer (sb_fifo b) ! i))\<rparr>"

definition sb_feedback_body :: "store_buffer \<Rightarrow> u32 \<Rightarrow> u32 \<Rightarrow> age_compare \<Rightarrow> nat \<Rightarrow> u32 \<times> u32 \<Rightarrow> unit + (u32 \<times> u32)" where
  "sb_feedback_body b addr sz load_age cur_id rm =
     (let cur_item = dff_get_new (buffer (sb_fifo b) ! cur_id);
          s = sb_access b cur_id;
          cur_item_addr_valid = dff_get_new (sb_item_addr_valid b ! cur_id);
          item_age = age (sb_rob_id cur_item) (sb_rob_id_stage cur_item)
      in if \<not> sb_data_valid cur_item \<and> cur_item_addr_valid \<and> age_greater item_age load_age \<and>
            max (sa_addr s) addr < min (sa_addr s + sa_size s) (addr + sz)
         then Inl ()
         else if cur_item_addr_valid \<and> age_less item_age load_age then Inr rm
         else if sb_data_valid cur_item \<and> cur_item_addr_valid
         then (if sa_addr s \<ge> addr \<and> sa_addr s \<le> addr + sz - 1 then Inr (overlay_inside addr sz s rm)
               else if sa_addr s < addr \<and> sa_addr s + sa_size s - 1 \<ge> addr then Inr (overlay_below addr sz s rm)
               else Inr rm)
         else Inr rm)"

definition sb_get_feedback_value :: "store_buffer \<Rightarrow> u32 \<Rightarrow> u32 \<Rightarrow> nat \<Rightarrow> bool \<Rightarrow> (u32 \<times> u32) option option" where
  "sb_get_feedback_value b addr sz rob_id rob_id_stage =
     map_option (\<lambda>r. case r of Inl u \<Rightarrow> None | Inr rm \<Rightarrow> Some rm)
       (case producer_get_front_id (sb_fifo b) of
          None \<Rightarrow> Some (Inr (0, 0))
        | Some cur_id \<Rightarrow> producer_walk (sb_fifo b) (sb_feedback_body b addr sz (age rob_id rob_id_stage)) cur_id cur_id (0, 0))"

subsection \<open>Retired stores\<close>

record retired_store_buffer_item_t =
  rs_inst_common_info :: inst_common_info_t
  rs_addr :: u32
  rs_size :: u32
  rs_data :: u32

definition rs_access :: "retired_store_buffer_item_t fifo \<Rightarrow> nat \<Rightarrow> store_access" where
  "rs_access f i = (let item = dff_get_new (buffer f ! i)
     in \<lparr>sa_addr = rs_addr item, sa_size = rs_size item, sa_data = rs_data item\<rparr>)"

definition rs_feedback_body :: "retired_store_buffer_item_t fifo \<Rightarrow> u32 \<Rightarrow> u32 \<Rightarrow> nat \<Rightarrow> u32 \<times> u32 \<Rightarrow> unit + (u32 \<times> u32)" where
  "rs_feedback_body f addr sz cur_id rm =
     (let s = rs_access f cur_id
      in if sa_addr s \<ge> addr \<and> sa_addr s < addr + sz then Inr (overlay_inside addr sz s rm)
         else if sa_addr s < addr \<and> sa_addr s + sa_size s > addr then Inr (overlay_below addr sz s rm)
         else Inr rm)"

definition rs_get_feedback_value :: "retired_store_buffer_item_t fifo \<Rightarrow> u32 \<Rightarrow> u32 \<Rightarrow> (u32 \<times> u32) option" where
  "rs_get_feedback_value f addr sz =
     map_option (\<lambda>r. case r of Inl u \<Rightarrow> (0, 0) | Inr rm \<Rightarrow> rm)
       (case producer_get_front_id f of
          None \<Rightarrow> Some (Inr (0, 0))
        | Some cur_id \<Rightarrow> producer_walk f (rs_feedback_body f addr sz) cur_id cur_id (0, 0))"

subsection \<open>Forwarding is the last older store of each byte\<close>

definition good_access :: "store_access \<Rightarrow> bool" where
  "good_access s \<longleftrightarrow> access_size (sa_size s) \<and> no_wrap (sa_addr s) (sa_size s)"

text \<open>The bytes a load of \<open>sz\<close> bytes at \<open>addr\<close> takes from a list of stores.\<close>

definition load_bytes :: "u32 \<Rightarrow> u32 \<Rightarrow> store_access list \<Rightarrow> nat \<Rightarrow> u8 option" where
  "load_bytes addr sz ss k = (if k < unat sz then last_store ss (unat addr + k) else None)"

lemma carries_start: "carries (0, 0) (load_bytes addr sz [])"
  by (simp add: carries_def load_bytes_def)

lemma load_bytes_snoc:
  "load_bytes addr sz (ss @ [s]) =
     (\<lambda>k. if k < unat sz \<and> covers s (unat addr + k) then Some (store_byte s (unat addr + k)) else load_bytes addr sz ss k)"
  by (auto simp: load_bytes_def last_store_snoc fun_eq_iff)

lemma carries_overlay:
  assumes "access_size sz" and "no_wrap addr sz" and "good_access s" and "carries rm (load_bytes addr sz ss)"
  shows "carries
    (if addr \<le> sa_addr s \<and> sa_addr s < addr + sz then overlay_inside addr sz s rm
     else if sa_addr s < addr \<and> addr < sa_addr s + sa_size s then overlay_below addr sz s rm else rm)
    (load_bytes addr sz (ss @ [s]))"
proof -
  have g: "access_size (sa_size s)" "no_wrap (sa_addr s) (sa_size s)" using assms(3) by (simp_all add: good_access_def)
  note n = no_wrap_add[OF assms(2)] no_wrap_add[OF g(2)]
  have i: "addr \<le> sa_addr s \<and> sa_addr s < addr + sz \<longleftrightarrow> unat addr \<le> unat (sa_addr s) \<and> unat (sa_addr s) < unat addr + unat sz"
    "sa_addr s < addr \<and> addr < sa_addr s + sa_size s \<longleftrightarrow> unat (sa_addr s) < unat addr \<and> unat addr < unat (sa_addr s) + unat (sa_size s)"
    by (simp_all add: word_le_nat_alt word_less_nat_alt n)
  have none: "(\<lambda>k. if k < unat sz \<and> covers s (unat addr + k) then Some (store_byte s (unat addr + k)) else load_bytes addr sz ss k)
      = load_bytes addr sz ss"
    if "\<And>k. \<not> (k < unat sz \<and> covers s (unat addr + k))"
    using that by (intro ext) auto
  show ?thesis
    unfolding i load_bytes_snoc
    using overlay_inside_bytes[OF assms(1) g(1) assms(2) g(2) _ _ assms(4)]
      overlay_below_bytes[OF assms(1) g(1) assms(2) g(2) _ _ assms(4)]
      none[OF covers_none[of addr s sz]] assms(4)
    by auto
qed

lemma last_byte_forms:
  assumes "access_size sz" and "no_wrap addr sz"
  shows "(x \<le> addr + sz - 1) = (x < addr + sz)" and "(addr + sz - 1 \<ge> x) = (x < addr + sz)"
proof -
  have "0 < unat sz" using assms(1) by (auto elim: access_sizeE)
  then have p: "0 < unat (addr + sz)" using no_wrap_add[OF assms(2)] by simp
  then have "addr + sz \<noteq> 0" by (metis less_irrefl unat_0)
  then have "unat (addr + sz - 1) = unat addr + unat sz - 1"
    using no_wrap_add[OF assms(2)] by (simp add: unat_minus_one)
  with p show "(x \<le> addr + sz - 1) = (x < addr + sz)" "(addr + sz - 1 \<ge> x) = (x < addr + sz)"
    using no_wrap_add[OF assms(2)] by (auto simp: word_le_nat_alt word_less_nat_alt)
qed

lemma overlap_iff:
  assumes "access_size sz" and "no_wrap addr sz" and "good_access s"
  shows "max (sa_addr s) addr < min (sa_addr s + sa_size s) (addr + sz) \<longleftrightarrow> (\<exists>k < unat sz. covers s (unat addr + k))"
proof -
  have g: "access_size (sa_size s)" "no_wrap (sa_addr s) (sa_size s)" using assms(3) by (simp_all add: good_access_def)
  have pos: "0 < unat sz" "0 < unat (sa_size s)" using assms(1) g(1) by (auto elim: access_sizeE)
  have "max (sa_addr s) addr < min (sa_addr s + sa_size s) (addr + sz) \<longleftrightarrow>
      unat (sa_addr s) < unat addr + unat sz \<and> unat addr < unat (sa_addr s) + unat (sa_size s)"
    unfolding max_less_iff_conj min_less_iff_conj
    using pos by (auto simp: word_less_nat_alt no_wrap_add[OF assms(2)] no_wrap_add[OF g(2)])
  also have "\<dots> \<longleftrightarrow> (\<exists>k < unat sz. covers s (unat addr + k))"
  proof
    assume h: "unat (sa_addr s) < unat addr + unat sz \<and> unat addr < unat (sa_addr s) + unat (sa_size s)"
    show "\<exists>k < unat sz. covers s (unat addr + k)"
      using h pos by (intro exI[of _ "unat (sa_addr s) - unat addr"]) (auto simp: covers_def)
  qed (auto simp: covers_def)
  finally show ?thesis .
qed

text \<open>
  The stores a load may take data from, and those it has to wait for: with a known address, and
  with data and not younger than the load, or without data and older.
\<close>

definition sb_visible :: "store_buffer \<Rightarrow> age_compare \<Rightarrow> nat \<Rightarrow> bool" where
  "sb_visible b load_age i \<longleftrightarrow>
     (let item = dff_get_new (buffer (sb_fifo b) ! i) in
      sb_data_valid item \<and> dff_get_new (sb_item_addr_valid b ! i) \<and>
      \<not> age_less (age (sb_rob_id item) (sb_rob_id_stage item)) load_age)"

definition sb_pending :: "store_buffer \<Rightarrow> u32 \<Rightarrow> u32 \<Rightarrow> age_compare \<Rightarrow> nat \<Rightarrow> bool" where
  "sb_pending b addr sz load_age i \<longleftrightarrow>
     (let item = dff_get_new (buffer (sb_fifo b) ! i) in
      \<not> sb_data_valid item \<and> dff_get_new (sb_item_addr_valid b ! i) \<and>
      age_greater (age (sb_rob_id item) (sb_rob_id_stage item)) load_age \<and>
      (\<exists>k < unat sz. covers (sb_access b i) (unat addr + k)))"

lemma sb_body_step:
  assumes "access_size sz" and "no_wrap addr sz"
    and "dff_get_new (sb_item_addr_valid b ! i) \<Longrightarrow> good_access (sb_access b i)"
    and "carries rm (load_bytes addr sz ss)"
  shows "case sb_feedback_body b addr sz t i rm of
      Inl u \<Rightarrow> sb_pending b addr sz t i
    | Inr rm' \<Rightarrow> \<not> sb_pending b addr sz t i \<and>
        carries rm' (load_bytes addr sz (ss @ (if sb_visible b t i then [sb_access b i] else [])))"
proof (cases "dff_get_new (sb_item_addr_valid b ! i)")
  case False
  then show ?thesis using assms(4) by (simp add: sb_feedback_body_def sb_pending_def sb_visible_def Let_def)
next
  case True
  let ?s = "sb_access b i"
  have g: "good_access ?s" using assms(3) True by simp
  have g2: "access_size (sa_size ?s)" "no_wrap (sa_addr ?s) (sa_size ?s)" using g by (simp_all add: good_access_def)
  note forms = last_byte_forms(1)[OF assms(1,2)] last_byte_forms(2)[OF g2] overlap_iff[OF assms(1,2) g]
  note c = carries_overlay[OF assms(1,2) g assms(4)]
  show ?thesis
  proof (cases "sb_data_valid (dff_get_new (buffer (sb_fifo b) ! i))")
    case False
    then show ?thesis using assms(4) True
      unfolding sb_feedback_body_def sb_pending_def sb_visible_def Let_def forms by simp
  next
    case d: True
    have "\<not> sb_pending b addr sz t i" using d by (simp add: sb_pending_def Let_def)
    moreover have "sb_feedback_body b addr sz t i rm = (if sb_visible b t i then Inr
        (if addr \<le> sa_addr ?s \<and> sa_addr ?s < addr + sz then overlay_inside addr sz ?s rm
         else if sa_addr ?s < addr \<and> addr < sa_addr ?s + sa_size ?s then overlay_below addr sz ?s rm else rm)
        else Inr rm)"
      using d True by (simp add: sb_feedback_body_def sb_visible_def Let_def forms)
    ultimately show ?thesis using c assms(4) by simp
  qed
qed

lemma sb_body_fold:
  assumes "access_size sz" and "no_wrap addr sz"
    and "\<forall>i \<in> set is. dff_get_new (sb_item_addr_valid b ! i) \<longrightarrow> good_access (sb_access b i)"
    and "carries rm (load_bytes addr sz ss)"
  shows "case body_fold (sb_feedback_body b addr sz t) is rm of
      Inl u \<Rightarrow> \<exists>i \<in> set is. sb_pending b addr sz t i
    | Inr rm' \<Rightarrow> (\<forall>i \<in> set is. \<not> sb_pending b addr sz t i) \<and>
        carries rm' (load_bytes addr sz (ss @ map (sb_access b) (filter (sb_visible b t) is)))"
  using assms(3,4)
proof (induction "is" arbitrary: rm ss)
  case (Cons i "is")
  have step: "case sb_feedback_body b addr sz t i rm of
      Inl u \<Rightarrow> sb_pending b addr sz t i
    | Inr rm' \<Rightarrow> \<not> sb_pending b addr sz t i \<and>
        carries rm' (load_bytes addr sz (ss @ (if sb_visible b t i then [sb_access b i] else [])))"
    using Cons.prems by (intro sb_body_step[OF assms(1,2)]) auto
  show ?case
  proof (cases "sb_feedback_body b addr sz t i rm")
    case (Inl u)
    then show ?thesis using step by simp
  next
    case (Inr rm1)
    have c: "\<not> sb_pending b addr sz t i"
      "carries rm1 (load_bytes addr sz (ss @ (if sb_visible b t i then [sb_access b i] else [])))"
      using step Inr by simp_all
    have "case body_fold (sb_feedback_body b addr sz t) is rm1 of
        Inl u \<Rightarrow> \<exists>i \<in> set is. sb_pending b addr sz t i
      | Inr rm' \<Rightarrow> (\<forall>i \<in> set is. \<not> sb_pending b addr sz t i) \<and> carries rm' (load_bytes addr sz
          ((ss @ (if sb_visible b t i then [sb_access b i] else [])) @ map (sb_access b) (filter (sb_visible b t) is)))"
      using Cons.prems(1) by (intro Cons.IH[OF _ c(2)]) simp
    then show ?thesis
      using Inr c(1) by (cases "sb_visible b t i"; cases "body_fold (sb_feedback_body b addr sz t) is rm1") auto
  qed
qed simp

lemma rs_body_fold:
  assumes "access_size sz" and "no_wrap addr sz" and "\<forall>i \<in> set is. good_access (rs_access f i)"
    and "carries rm (load_bytes addr sz ss)"
  shows "\<exists>rm'. body_fold (rs_feedback_body f addr sz) is rm = Inr rm' \<and>
    carries rm' (load_bytes addr sz (ss @ map (rs_access f) is))"
  using assms(3,4)
proof (induction "is" arbitrary: rm ss)
  case (Cons i "is")
  let ?s = "rs_access f i"
  let ?rm = "if addr \<le> sa_addr ?s \<and> sa_addr ?s < addr + sz then overlay_inside addr sz ?s rm
     else if sa_addr ?s < addr \<and> addr < sa_addr ?s + sa_size ?s then overlay_below addr sz ?s rm else rm"
  have b: "rs_feedback_body f addr sz i rm = Inr ?rm" by (simp add: rs_feedback_body_def Let_def)
  have "carries ?rm (load_bytes addr sz (ss @ [?s]))" using Cons.prems by (intro carries_overlay[OF assms(1,2)]) auto
  then show ?case using Cons.IH[of ?rm "ss @ [?s]"] Cons.prems(1) b by simp
qed simp

subsection \<open>Properties\<close>

text \<open>
  C28. Store-to-load forwarding from the stores in flight is exact, byte by byte: the search always
  ends; it reports that the load has to wait exactly if some older store whose address is known to
  overlap the load has no data yet; and otherwise the value and the mask carry, for each byte of the load,
  the byte of the youngest store that is not younger than the load, has address and data, and covers
  that byte, and zero in both where there is none.
\<close>

theorem store_buffer_forwarding:
  assumes "fifo_inv (sb_fifo b)" and "access_size sz" and "no_wrap addr sz"
    and "\<forall>i \<in> set (producer_slots (sb_fifo b)). dff_get_new (sb_item_addr_valid b ! i) \<longrightarrow> good_access (sb_access b i)"
  shows "\<exists>r. sb_get_feedback_value b addr sz rob_id rob_id_stage = Some r \<and>
    (case r of
       None \<Rightarrow> \<exists>i \<in> set (producer_slots (sb_fifo b)). sb_pending b addr sz (age rob_id rob_id_stage) i
     | Some rm \<Rightarrow> (\<forall>i \<in> set (producer_slots (sb_fifo b)). \<not> sb_pending b addr sz (age rob_id rob_id_stage) i) \<and>
         carries rm (load_bytes addr sz (map (sb_access b)
           (filter (sb_visible b (age rob_id rob_id_stage)) (producer_slots (sb_fifo b))))))"
proof -
  let ?t = "age rob_id rob_id_stage"
  have "sb_get_feedback_value b addr sz rob_id rob_id_stage
      = Some (case body_fold (sb_feedback_body b addr sz ?t) (producer_slots (sb_fifo b)) (0, 0) of Inl u \<Rightarrow> None | Inr rm \<Rightarrow> Some rm)"
    unfolding sb_get_feedback_value_def producer_walk_front[OF assms(1)] by simp
  then show ?thesis
    using sb_body_fold[OF assms(2,3,4) carries_start, of ?t] by (auto split: sum.splits)
qed

definition demo_store :: store_buffer_item_t where
  "demo_store = store_buffer_item_make\<lparr>sb_data_valid := True, sb_rob_id := 3, sb_data := 0xAABBCCDD\<rparr>"

definition demo_sb :: store_buffer where
  "demo_sb = (let b = store_buffer_make 4 in
     store_buffer_sync (the (sb_write_addr 0 0x80000002 2 True (b\<lparr>sb_fifo := snd (fifo_push demo_store (sb_fifo b))\<rparr>))))"

theorem store_buffer_forwarding_witness:
  "\<exists>rm. sb_get_feedback_value demo_sb 0x80000000 4 5 False = Some (Some rm) \<and>
     byte_of (fst rm) 2 = 0xDD \<and> byte_of (fst rm) 3 = 0xCC \<and> byte_of (snd rm) 0 = 0"
proof -
  have s: "sb_access demo_sb 0 = \<lparr>sa_addr = 0x80000002, sa_size = 2, sa_data = 0xAABBCCDD\<rparr>" by code_simp
  have g: "good_access (sb_access demo_sb 0)" unfolding s by (simp add: good_access_def access_size_def no_wrap_def)
  have h: "fifo_inv (sb_fifo demo_sb)" "producer_slots (sb_fifo demo_sb) = [0]"
    "sb_data_valid (dff_get_new (buffer (sb_fifo demo_sb) ! 0))" "sb_visible demo_sb (age 5 False) 0"
    by code_simp+
  have n: "\<not> sb_pending demo_sb 0x80000000 4 (age 5 False) 0" using h(3) by (simp add: sb_pending_def Let_def)
  have l: "load_bytes 0x80000000 4 [sb_access demo_sb 0] 2 = Some 0xDD"
    "load_bytes 0x80000000 4 [sb_access demo_sb 0] 3 = Some 0xCC"
    "load_bytes 0x80000000 4 [sb_access demo_sb 0] 0 = None"
    unfolding s by (simp_all add: load_bytes_def covers_def store_byte_def byte_of_def drop_bit_eq_div unsigned_ucast_eq)
  have a: "access_size 4" "no_wrap 0x80000000 4" by (simp_all add: access_size_def no_wrap_def)
  obtain r where r: "sb_get_feedback_value demo_sb 0x80000000 4 5 False = Some r"
    and c: "case r of None \<Rightarrow> \<exists>i \<in> set (producer_slots (sb_fifo demo_sb)). sb_pending demo_sb 0x80000000 4 (age 5 False) i
     | Some rm \<Rightarrow> (\<forall>i \<in> set (producer_slots (sb_fifo demo_sb)). \<not> sb_pending demo_sb 0x80000000 4 (age 5 False) i) \<and>
         carries rm (load_bytes 0x80000000 4 (map (sb_access demo_sb)
           (filter (sb_visible demo_sb (age 5 False)) (producer_slots (sb_fifo demo_sb)))))"
    using store_buffer_forwarding[OF h(1) a, of 5 False] h(2) g by auto
  obtain rm where rm: "r = Some rm" using c h(2) n by (cases r) simp_all
  then have k: "carries rm (load_bytes 0x80000000 4 [sb_access demo_sb 0])" using c h(2,4) by simp
  have "byte_of (fst rm) 2 = 0xDD" "byte_of (fst rm) 3 = 0xCC" "byte_of (snd rm) 0 = 0"
    using carriesD(1)[OF k _ l(1)] carriesD(1)[OF k _ l(2)] carriesD(2)[OF k _ l(3)] by simp_all
  then show ?thesis using r rm by blast
qed

text \<open>
  Forwarding from the retired stores is exact as well: the search ends and gives, for each byte of
  the load, the byte of the last retired store that covers it.
\<close>

theorem retired_store_forwarding:
  assumes "fifo_inv f" and "access_size sz" and "no_wrap addr sz" and "\<forall>i \<in> set (producer_slots f). good_access (rs_access f i)"
  shows "\<exists>rm. rs_get_feedback_value f addr sz = Some rm \<and>
    carries rm (load_bytes addr sz (map (rs_access f) (producer_slots f)))"
  unfolding rs_get_feedback_value_def producer_walk_front[OF assms(1)]
  using rs_body_fold[OF assms(2,3,4) carries_start] by auto

definition demo_retired :: "retired_store_buffer_item_t fifo" where
  "demo_retired = fifo_sync (snd (fifo_push \<lparr>rs_inst_common_info = \<lparr>inst_id = 0\<rparr>, rs_addr = 0x7FFFFFFE, rs_size = 4, rs_data = 0x11223344\<rparr>
     (fifo_make 4 \<lparr>rs_inst_common_info = \<lparr>inst_id = 0\<rparr>, rs_addr = 0, rs_size = 0, rs_data = 0\<rparr>)))"

end
