(* ===== verification/Load_Queue.thy ===== *)
theory Load_Queue
  imports Store_Forward Fifo_Walk Age_Compare
begin

text \<open>
  \<^verbatim>\<open>component/load_queue.h\<close>: the loads in flight. A store whose address becomes known searches the
  queue for a younger load that has already read an overlapping address; that load has read
  stale data and the pipeline is flushed from it.
\<close>

record load_queue_item_t =
  lq_addr_valid :: bool
  lq_pc :: u32
  lq_rob_id :: nat
  lq_rob_id_stage :: bool
  lq_addr :: u32
  lq_size :: u32
  lq_checkpoint_id_valid :: bool
  lq_checkpoint_id :: nat

definition load_queue_item_make :: load_queue_item_t where
  "load_queue_item_make =
     \<lparr>lq_addr_valid = False, lq_pc = 0, lq_rob_id = 0, lq_rob_id_stage = False, lq_addr = 0, lq_size = 0,
      lq_checkpoint_id_valid = False, lq_checkpoint_id = 0\<rparr>"

record load_queue =
  lq_fifo :: "load_queue_item_t fifo"
  lq_item_conflict :: "bool dff list"
  lq_replay_num :: "u32 dff list"

definition load_queue_reset :: "load_queue \<Rightarrow> load_queue" where
  "load_queue_reset q =
     q\<lparr>lq_fifo := fifo_reset (lq_fifo q), lq_item_conflict := map (dff_set False) (lq_item_conflict q),
       lq_replay_num := map (dff_set 0) (lq_replay_num q)\<rparr>"

definition load_queue_flush :: "load_queue \<Rightarrow> load_queue" where
  "load_queue_flush q =
     q\<lparr>lq_fifo := fifo_flush (lq_fifo q), lq_item_conflict := map (dff_set False) (lq_item_conflict q),
       lq_replay_num := map (dff_set 0) (lq_replay_num q)\<rparr>"

definition load_queue_make :: "nat \<Rightarrow> load_queue" where
  "load_queue_make n =
     load_queue_reset \<lparr>lq_fifo = fifo_make n load_queue_item_make, lq_item_conflict = replicate n (dff_make False),
       lq_replay_num = replicate n (dff_make 0)\<rparr>"

definition load_queue_sync :: "load_queue \<Rightarrow> load_queue" where
  "load_queue_sync q =
     q\<lparr>lq_fifo := fifo_sync (lq_fifo q), lq_item_conflict := map dff_sync (lq_item_conflict q),
       lq_replay_num := map dff_sync (lq_replay_num q)\<rparr>"

text \<open>The slot accessors have no test; a slot beyond the arrays is \<open>None\<close>.\<close>

definition lq_write_conflict :: "nat \<Rightarrow> bool \<Rightarrow> load_queue \<Rightarrow> load_queue option" where
  "lq_write_conflict i conflict q =
     (if i < length (lq_item_conflict q)
      then Some (q\<lparr>lq_item_conflict := (lq_item_conflict q)[i := dff_set conflict (lq_item_conflict q ! i)]\<rparr>)
      else None)"

definition lq_get_conflict :: "load_queue \<Rightarrow> nat \<Rightarrow> bool option" where
  "lq_get_conflict q i = (if i < length (lq_item_conflict q) then Some (dff_get (lq_item_conflict q ! i)) else None)"

definition lq_add_replay_num :: "nat \<Rightarrow> load_queue \<Rightarrow> load_queue option" where
  "lq_add_replay_num i q =
     (if i < length (lq_replay_num q)
      then Some (q\<lparr>lq_replay_num := (lq_replay_num q)[i := dff_set (dff_get (lq_replay_num q ! i) + 1) (lq_replay_num q ! i)]\<rparr>)
      else None)"

definition lq_clear_replay_num :: "nat \<Rightarrow> load_queue \<Rightarrow> load_queue option" where
  "lq_clear_replay_num i q =
     (if i < length (lq_replay_num q)
      then Some (q\<lparr>lq_replay_num := (lq_replay_num q)[i := dff_set 0 (lq_replay_num q ! i)]\<rparr>)
      else None)"

definition lq_get_replay_num :: "load_queue \<Rightarrow> nat \<Rightarrow> u32 option" where
  "lq_get_replay_num q i = (if i < length (lq_replay_num q) then Some (dff_get (lq_replay_num q ! i)) else None)"

text \<open>The body of the search loop: \<open>Inl\<close> is the return with the conflicting load.\<close>

definition lq_conflict_body ::
    "load_queue \<Rightarrow> u32 \<Rightarrow> u32 \<Rightarrow> age_compare \<Rightarrow> nat \<Rightarrow> bool \<Rightarrow> unit \<Rightarrow> (nat \<times> bool \<times> load_queue_item_t) + unit" where
  "lq_conflict_body q addr sz store_age cur_id cur_stage u =
     (let cur_item = dff_get_new (buffer (lq_fifo q) ! cur_id) in
      if lq_addr_valid cur_item \<and> age_less (age (lq_rob_id cur_item) (lq_rob_id_stage cur_item)) store_age \<and>
         max (lq_addr cur_item) addr < min (lq_addr cur_item + lq_size cur_item) (addr + sz)
      then Inl (cur_id, cur_stage, cur_item) else Inr ())"

definition get_conflict_item ::
    "load_queue \<Rightarrow> u32 \<Rightarrow> u32 \<Rightarrow> nat \<Rightarrow> bool \<Rightarrow> (nat \<times> bool \<times> load_queue_item_t) option option" where
  "get_conflict_item q addr sz rob_id rob_id_stage =
     map_option (\<lambda>r. case r of Inl x \<Rightarrow> Some x | Inr u \<Rightarrow> None)
       (case producer_get_front_id_stage (lq_fifo q) of
          None \<Rightarrow> Some (Inr ())
        | Some (cur_id, cur_stage) \<Rightarrow>
            producer_walk_stage (lq_fifo q) (lq_conflict_body q addr sz (age rob_id rob_id_stage)) cur_id cur_id cur_stage ())"

subsection \<open>The search finds the oldest violated load\<close>

definition lq_entry :: "load_queue \<Rightarrow> nat \<Rightarrow> nat \<times> bool \<times> load_queue_item_t" where
  "lq_entry q c = (c mod fsize (lq_fifo q), odd (c div fsize (lq_fifo q)),
     dff_get_new (buffer (lq_fifo q) ! (c mod fsize (lq_fifo q))))"

definition lq_entries :: "load_queue \<Rightarrow> (nat \<times> bool \<times> load_queue_item_t) list" where
  "lq_entries q = map (\<lambda>i. lq_entry q (ring_pos (fsize (lq_fifo q)) (r_cur (lq_fifo q)) + i))
     [0..<ring_dist (fsize (lq_fifo q)) (r_cur (lq_fifo q)) (w_new (lq_fifo q))]"

text \<open>A load that has read an address before an older store to it: it is younger and a byte is common to both.\<close>

definition violates :: "u32 \<Rightarrow> u32 \<Rightarrow> age_compare \<Rightarrow> load_queue_item_t \<Rightarrow> bool" where
  "violates addr sz store_age item \<longleftrightarrow>
     lq_addr_valid item \<and> age_less (age (lq_rob_id item) (lq_rob_id_stage item)) store_age \<and>
     (\<exists>x. unat (lq_addr item) \<le> x \<and> x < unat (lq_addr item) + unat (lq_size item) \<and>
          unat addr \<le> x \<and> x < unat addr + unat sz)"

lemma lq_entries_window:
  assumes w: "fifo_window (lq_fifo q) rc rn wc wn"
  shows "lq_entries q = map (lq_entry q) [rc..<wn]"
proof -
  let ?f = "lq_fifo q"
  note d = w[unfolded fifo_window_def]
  have "ring_at (fsize ?f) (ring_pos (fsize ?f) (r_cur ?f) + i) = ring_at (fsize ?f) (rc + i)" for i
    using d by (simp add: ring_at_eq_iff_mod ring_pos_at mod_add_left_eq)
  then have "lq_entry q (ring_pos (fsize ?f) (r_cur ?f) + i) = lq_entry q (rc + i)" for i
    by (simp add: lq_entry_def ring_at_def)
  moreover have "ring_dist (fsize ?f) (r_cur ?f) (w_new ?f) = wn - rc"
    using d ring_dist_at[of "fsize ?f" rc wn] by simp
  ultimately show ?thesis by (auto simp: lq_entries_def intro: nth_equalityI)
qed

lemma overlap_exists:
  assumes "no_wrap a n" and "no_wrap addr sz"
  shows "max a addr < min (a + n) (addr + sz) \<longleftrightarrow>
    (\<exists>x. unat a \<le> x \<and> x < unat a + unat n \<and> unat addr \<le> x \<and> x < unat addr + unat sz)"
proof -
  have "max a addr < min (a + n) (addr + sz) \<longleftrightarrow>
      unat a < unat a + unat n \<and> unat a < unat addr + unat sz \<and> unat addr < unat a + unat n \<and> unat addr < unat addr + unat sz"
    unfolding max_less_iff_conj min_less_iff_conj
    by (auto simp: word_less_nat_alt no_wrap_add[OF assms(1)] no_wrap_add[OF assms(2)])
  also have "\<dots> \<longleftrightarrow> (\<exists>x. unat a \<le> x \<and> x < unat a + unat n \<and> unat addr \<le> x \<and> x < unat addr + unat sz)"
    by (auto intro!: exI[of _ "max (unat a) (unat addr)"])
  finally show ?thesis .
qed

lemma conflict_fold:
  assumes "no_wrap addr sz" and "\<forall>c \<in> set cs. lq_addr_valid (snd (snd (lq_entry q c))) \<longrightarrow>
      no_wrap (lq_addr (snd (snd (lq_entry q c)))) (lq_size (snd (snd (lq_entry q c))))"
  shows "body_fold (\<lambda>c. lq_conflict_body q addr sz t (c mod fsize (lq_fifo q)) (odd (c div fsize (lq_fifo q)))) cs ()
    = (case find (\<lambda>e. violates addr sz t (snd (snd e))) (map (lq_entry q) cs) of None \<Rightarrow> Inr () | Some e \<Rightarrow> Inl e)"
  using assms(2)
proof (induction cs)
  case (Cons c cs)
  have "lq_conflict_body q addr sz t (c mod fsize (lq_fifo q)) (odd (c div fsize (lq_fifo q))) ()
      = (if violates addr sz t (snd (snd (lq_entry q c))) then Inl (lq_entry q c) else Inr ())"
  proof (cases "lq_addr_valid (snd (snd (lq_entry q c)))")
    case True
    let ?it = "snd (snd (lq_entry q c))"
    have "no_wrap (lq_addr ?it) (lq_size ?it)" using Cons.prems True by simp
    note o = overlap_exists[OF this assms(1)]
    show ?thesis
      using True unfolding lq_conflict_body_def Let_def violates_def o[unfolded lq_entry_def snd_conv] lq_entry_def snd_conv
      by simp
  qed (simp add: lq_conflict_body_def Let_def violates_def lq_entry_def)
  then show ?case using Cons by simp
qed simp

text \<open>
  C33. Memory order violations are found: the search that a store makes in the load queue always
  ends; it returns the oldest load in the queue that is younger than the store, knows its address and
  shares a byte with the store, with its slot and stage, and returns nothing exactly if there is none.
\<close>

theorem load_queue_conflict_exact:
  assumes "fifo_inv (lq_fifo q)" and "no_wrap addr sz"
    and "\<forall>e \<in> set (lq_entries q). lq_addr_valid (snd (snd e)) \<longrightarrow> no_wrap (lq_addr (snd (snd e))) (lq_size (snd (snd e)))"
  shows "get_conflict_item q addr sz rob_id rob_id_stage
    = Some (find (\<lambda>e. violates addr sz (age rob_id rob_id_stage) (snd (snd e))) (lq_entries q))"
proof -
  let ?f = "lq_fifo q"
  obtain rc rn wc wn where w: "fifo_window ?f rc rn wc wn" using assms(1) by (rule fifo_windowE)
  have d: "dff_get (rptr ?f) = rc mod fsize ?f" "dff_get (rstage ?f) = odd (rc div fsize ?f)" "rc \<le> wn"
    using w by (auto simp: fifo_window_def pos_defs ring_at_def)
  note e = lq_entries_window[OF w]
  show ?thesis
  proof (cases "rc = wn")
    case True
    then show ?thesis using window_flags(2)[OF w] e by (simp add: get_conflict_item_def producer_get_front_id_stage_def)
  next
    case False
    have g: "\<forall>c \<in> set [rc..<wn]. lq_addr_valid (snd (snd (lq_entry q c))) \<longrightarrow>
        no_wrap (lq_addr (snd (snd (lq_entry q c)))) (lq_size (snd (snd (lq_entry q c))))"
      using assms(3) e by simp
    have "rc < wn" using False d(3) by simp
    note walk = producer_walk_stage_window[OF w order_refl this]
    have "get_conflict_item q addr sz rob_id rob_id_stage = map_option (\<lambda>r. case r of Inl x \<Rightarrow> Some x | Inr u \<Rightarrow> None)
        (producer_walk_stage ?f (lq_conflict_body q addr sz (age rob_id rob_id_stage)) (rc mod fsize ?f) (rc mod fsize ?f)
          (odd (rc div fsize ?f)) ())"
      using False d(1,2) window_flags(2)[OF w] by (simp add: get_conflict_item_def producer_get_front_id_stage_def)
    then show ?thesis
      unfolding walk conflict_fold[OF assms(2) g] e
      by (cases "find (\<lambda>e. violates addr sz (age rob_id rob_id_stage) (snd (snd e))) (map (lq_entry q) [rc..<wn])") simp_all
  qed
qed

definition demo_lq :: load_queue where
  "demo_lq = (let q = load_queue_make 4 in
     load_queue_sync (q\<lparr>lq_fifo := snd (fifo_push
       (load_queue_item_make\<lparr>lq_addr_valid := True, lq_rob_id := 9, lq_addr := 0x80000004, lq_size := 4\<rparr>) (lq_fifo q))\<rparr>))"

theorem load_queue_conflict_exact_witness:
  "\<exists>item. get_conflict_item demo_lq 0x80000006 2 5 False = Some (Some (0, False, item)) \<and> lq_rob_id item = 9"
proof -
  let ?i = "load_queue_item_make\<lparr>lq_addr_valid := True, lq_rob_id := 9, lq_addr := 0x80000004, lq_size := 4\<rparr>"
  have h: "fifo_inv (lq_fifo demo_lq)" "lq_entries demo_lq = [(0, False, ?i)]" by code_simp+
  have "no_wrap (0x80000004 :: u32) 4" "no_wrap (0x80000006 :: u32) 2" by (simp_all add: no_wrap_def)
  moreover have "age_less (age 9 False) (age 5 False)" by code_simp
  then have "violates 0x80000006 2 (age 5 False) ?i"
    by (auto simp: violates_def load_queue_item_make_def intro!: exI[of _ "0x80000006"])
  ultimately show ?thesis
    using load_queue_conflict_exact[OF h(1), of "0x80000006" 2 5 False] h(2) by (simp add: load_queue_item_make_def)
qed

end
