(* ===== verification/Exec_Packs.thy ===== *)
theory Exec_Packs
  imports Rob
begin

text \<open>
  The packs that pass between register read, the execution units, write back and commit:
  \<^verbatim>\<open>integer_readreg_execute.h\<close>, \<^verbatim>\<open>execute_wb.h\<close>, \<^verbatim>\<open>execute.h\<close>, \<^verbatim>\<open>bru_define.h\<close>, \<^verbatim>\<open>sau_define.h\<close> and
  \<^verbatim>\<open>commit_feedback_pack_t\<close> of \<^verbatim>\<open>commit.h\<close>, and what every execution unit does with them: copy the
  operation into the pack for write back, and drop it when a flush of this cycle covers it.
\<close>

record integer_readreg_execute_pack_t =
  re_inst_common_info :: inst_common_info_t
  re_enable :: bool
  re_value :: u32
  re_valid :: bool
  re_last_uop :: bool
  re_rob_id :: nat
  re_rob_id_stage :: bool
  re_pc :: u32
  re_imm :: u32
  re_has_exception :: bool
  re_exception_id :: riscv_exception_t
  re_exception_value :: u32
  re_branch_predictor_info_pack :: branch_predictor_info_pack_t
  re_rs1 :: u32
  re_arg1_src :: arg_src_t
  re_rs1_need_map :: bool
  re_rs1_phy :: nat
  re_src1_value :: u32
  re_rs2 :: u32
  re_arg2_src :: arg_src_t
  re_rs2_need_map :: bool
  re_rs2_phy :: nat
  re_src2_value :: u32
  re_rd :: u32
  re_rd_enable :: bool
  re_need_rename :: bool
  re_rd_phy :: nat
  re_csr :: u32
  re_op :: op_t
  re_op_unit :: cycle_unit_t
  re_sub_op :: cycle_sub_op_t

definition integer_readreg_execute_pack_make :: integer_readreg_execute_pack_t where
  "integer_readreg_execute_pack_make =
     \<lparr>re_inst_common_info = \<lparr>inst_id = 0\<rparr>, re_enable = False, re_value = 0, re_valid = False, re_last_uop = False,
      re_rob_id = 0, re_rob_id_stage = False, re_pc = 0, re_imm = 0, re_has_exception = False,
      re_exception_id = instruction_address_misaligned, re_exception_value = 0,
      re_branch_predictor_info_pack = branch_predictor_info_pack_make,
      re_rs1 = 0, re_arg1_src = Arg_reg, re_rs1_need_map = False, re_rs1_phy = 0, re_src1_value = 0,
      re_rs2 = 0, re_arg2_src = Arg_reg, re_rs2_need_map = False, re_rs2_phy = 0, re_src2_value = 0,
      re_rd = 0, re_rd_enable = False, re_need_rename = False, re_rd_phy = 0,
      re_csr = 0, re_op = Op_add, re_op_unit = Cunit_alu, re_sub_op = Csub_alu Alu_add\<rparr>"

record execute_wb_pack_t =
  wb_inst_common_info :: inst_common_info_t
  wb_enable :: bool
  wb_value :: u32
  wb_valid :: bool
  wb_last_uop :: bool
  wb_rob_id :: nat
  wb_rob_id_stage :: bool
  wb_pc :: u32
  wb_imm :: u32
  wb_has_exception :: bool
  wb_exception_id :: riscv_exception_t
  wb_exception_value :: u32
  wb_branch_predictor_info_pack :: branch_predictor_info_pack_t
  wb_bru_jump :: bool
  wb_bru_next_pc :: u32
  wb_rs1 :: u32
  wb_arg1_src :: arg_src_t
  wb_rs1_need_map :: bool
  wb_rs1_phy :: nat
  wb_src1_value :: u32
  wb_rs2 :: u32
  wb_arg2_src :: arg_src_t
  wb_rs2_need_map :: bool
  wb_rs2_phy :: nat
  wb_src2_value :: u32
  wb_rd :: u32
  wb_rd_enable :: bool
  wb_need_rename :: bool
  wb_rd_phy :: nat
  wb_rd_value :: u32
  wb_csr :: u32
  wb_csr_newvalue :: u32
  wb_csr_newvalue_valid :: bool
  wb_load_queue_id :: nat
  wb_op :: op_t
  wb_op_unit :: cycle_unit_t
  wb_sub_op :: cycle_sub_op_t

definition execute_wb_pack_make :: execute_wb_pack_t where
  "execute_wb_pack_make =
     \<lparr>wb_inst_common_info = \<lparr>inst_id = 0\<rparr>, wb_enable = False, wb_value = 0, wb_valid = False, wb_last_uop = False,
      wb_rob_id = 0, wb_rob_id_stage = False, wb_pc = 0, wb_imm = 0, wb_has_exception = False,
      wb_exception_id = instruction_address_misaligned, wb_exception_value = 0,
      wb_branch_predictor_info_pack = branch_predictor_info_pack_make, wb_bru_jump = False, wb_bru_next_pc = 0,
      wb_rs1 = 0, wb_arg1_src = Arg_reg, wb_rs1_need_map = False, wb_rs1_phy = 0, wb_src1_value = 0,
      wb_rs2 = 0, wb_arg2_src = Arg_reg, wb_rs2_need_map = False, wb_rs2_phy = 0, wb_src2_value = 0,
      wb_rd = 0, wb_rd_enable = False, wb_need_rename = False, wb_rd_phy = 0, wb_rd_value = 0,
      wb_csr = 0, wb_csr_newvalue = 0, wb_csr_newvalue_valid = False, wb_load_queue_id = 0,
      wb_op = Op_add, wb_op_unit = Cunit_alu, wb_sub_op = Csub_alu Alu_add\<rparr>"

record execute_feedback_channel_t =
  fb_enable :: bool
  fb_phy_id :: nat
  fb_value :: u32
  fb_rob_id :: nat
  fb_rob_id_stage :: bool

definition execute_feedback_channel_make :: execute_feedback_channel_t where
  "execute_feedback_channel_make =
     \<lparr>fb_enable = False, fb_phy_id = 0, fb_value = 0, fb_rob_id = 0, fb_rob_id_stage = False\<rparr>"

record bru_feedback_pack_t =
  bru_flush :: bool
  bru_next_pc :: u32
  bru_rob_id_stage :: bool
  bru_rob_id :: nat

record sau_feedback_pack_t =
  sau_flush :: bool
  sau_next_pc :: u32
  sau_rob_id_stage :: bool
  sau_rob_id :: nat

text \<open>The two fields for the debugger are left out.\<close>

record commit_feedback_pack_t =
  cf_idle :: bool
  cf_next_handle_rob_id_valid :: bool
  cf_next_handle_rob_id :: nat
  cf_has_exception :: bool
  cf_exception_pc :: u32
  cf_flush :: bool
  cf_committed_rob_id :: "nat list"
  cf_committed_rob_id_valid :: "bool list"
  cf_jump_enable :: bool
  cf_jump :: bool
  cf_jump_next_pc :: u32
  cf_waiting_for_interrupt :: bool

subsection \<open>Flushes\<close>

text \<open>
  A mispredicted branch flushes what is younger than it, a store that finds a violated load
  flushes that load as well.
\<close>

definition bru_kills :: "bru_feedback_pack_t \<Rightarrow> nat \<Rightarrow> bool \<Rightarrow> bool" where
  "bru_kills b rob_id rob_id_stage \<longleftrightarrow>
     bru_flush b \<and> age_less (age rob_id rob_id_stage) (age (bru_rob_id b) (bru_rob_id_stage b))"

definition sau_kills :: "sau_feedback_pack_t \<Rightarrow> nat \<Rightarrow> bool \<Rightarrow> bool" where
  "sau_kills s rob_id rob_id_stage \<longleftrightarrow>
     sau_flush s \<and> age_less_equal (age rob_id rob_id_stage) (age (sau_rob_id s) (sau_rob_id_stage s))"

subsection \<open>The copy into the pack for write back\<close>

definition execute_pass :: "integer_readreg_execute_pack_t \<Rightarrow> execute_wb_pack_t \<Rightarrow> execute_wb_pack_t" where
  "execute_pass rev_pack send =
     send\<lparr>wb_inst_common_info := re_inst_common_info rev_pack, wb_enable := re_enable rev_pack, wb_value := re_value rev_pack,
       wb_valid := re_valid rev_pack, wb_last_uop := re_last_uop rev_pack, wb_rob_id := re_rob_id rev_pack,
       wb_rob_id_stage := re_rob_id_stage rev_pack, wb_pc := re_pc rev_pack, wb_imm := re_imm rev_pack,
       wb_has_exception := re_has_exception rev_pack, wb_exception_id := re_exception_id rev_pack,
       wb_exception_value := re_exception_value rev_pack,
       wb_branch_predictor_info_pack := re_branch_predictor_info_pack rev_pack,
       wb_rs1 := re_rs1 rev_pack, wb_arg1_src := re_arg1_src rev_pack, wb_rs1_need_map := re_rs1_need_map rev_pack,
       wb_rs1_phy := re_rs1_phy rev_pack, wb_src1_value := re_src1_value rev_pack,
       wb_rs2 := re_rs2 rev_pack, wb_arg2_src := re_arg2_src rev_pack, wb_rs2_need_map := re_rs2_need_map rev_pack,
       wb_rs2_phy := re_rs2_phy rev_pack, wb_src2_value := re_src2_value rev_pack,
       wb_rd := re_rd rev_pack, wb_rd_enable := re_rd_enable rev_pack, wb_need_rename := re_need_rename rev_pack,
       wb_rd_phy := re_rd_phy rev_pack, wb_csr := re_csr rev_pack, wb_op := re_op rev_pack, wb_op_unit := re_op_unit rev_pack,
       wb_sub_op := re_sub_op rev_pack\<rparr>"

definition execute_feedback :: "execute_wb_pack_t \<Rightarrow> execute_feedback_channel_t" where
  "execute_feedback send =
     \<lparr>fb_enable = (wb_enable send \<and> wb_valid send \<and> wb_need_rename send \<and> \<not> wb_has_exception send),
      fb_phy_id = wb_rd_phy send, fb_value = wb_rd_value send, fb_rob_id = wb_rob_id send,
      fb_rob_id_stage = wb_rob_id_stage send\<rparr>"

end
