(* ===== verification/Exec_Units.thy ===== *)
theory Exec_Units
  imports Exec_Packs Isa_Model
begin

text \<open>
  \<^verbatim>\<open>pipeline/execute/alu.cpp\<close>, \<^verbatim>\<open>mul.cpp\<close> and \<^verbatim>\<open>div.cpp\<close>: the execution units without access to
  shared state. Each takes an operation from its \<^verbatim>\<open>handshake_dff\<close>, drops it if a flush of this
  cycle covers it, computes the result and writes it to its port. They are compared with the
  units of the ISA model, which are separate code.
\<close>

record exec_unit =
  eu_hdff :: "integer_readreg_execute_pack_t handshake_dff"
  eu_port :: "execute_wb_pack_t port"

definition exec_unit_sync :: "exec_unit \<Rightarrow> exec_unit" where
  "exec_unit_sync u = u\<lparr>eu_hdff := hs_sync (eu_hdff u), eu_port := port_sync (eu_port u)\<rparr>"

subsection \<open>Arithmetic and logic\<close>

fun cycle_alu_op :: "alu_op_t \<Rightarrow> integer_readreg_execute_pack_t \<Rightarrow> execute_wb_pack_t \<Rightarrow> execute_wb_pack_t" where
  "cycle_alu_op Alu_add rev_pack send = send\<lparr>wb_rd_value := re_src1_value rev_pack + re_src2_value rev_pack\<rparr>"
| "cycle_alu_op Alu_and rev_pack send = send\<lparr>wb_rd_value := re_src1_value rev_pack AND re_src2_value rev_pack\<rparr>"
| "cycle_alu_op Alu_auipc rev_pack send = send\<lparr>wb_rd_value := re_imm rev_pack + re_pc rev_pack\<rparr>"
| "cycle_alu_op Alu_ebreak rev_pack send =
     send\<lparr>wb_rd_value := 0, wb_has_exception := True, wb_exception_id := breakpoint, wb_exception_value := 0\<rparr>"
| "cycle_alu_op Alu_ecall rev_pack send =
     send\<lparr>wb_rd_value := 0, wb_has_exception := True, wb_exception_id := environment_call_from_m_mode,
          wb_exception_value := 0\<rparr>"
| "cycle_alu_op Alu_fence rev_pack send = send\<lparr>wb_rd_value := 0\<rparr>"
| "cycle_alu_op Alu_fence_i rev_pack send = send\<lparr>wb_rd_value := 0\<rparr>"
| "cycle_alu_op Alu_lui rev_pack send = send\<lparr>wb_rd_value := re_imm rev_pack\<rparr>"
| "cycle_alu_op Alu_or rev_pack send = send\<lparr>wb_rd_value := re_src1_value rev_pack OR re_src2_value rev_pack\<rparr>"
| "cycle_alu_op Alu_sll rev_pack send =
     send\<lparr>wb_rd_value := push_bit (unat (re_src2_value rev_pack AND 0x1f)) (re_src1_value rev_pack)\<rparr>"
| "cycle_alu_op Alu_slt rev_pack send =
     send\<lparr>wb_rd_value := (if sint (re_src1_value rev_pack) < sint (re_src2_value rev_pack) then 1 else 0)\<rparr>"
| "cycle_alu_op Alu_sltu rev_pack send =
     send\<lparr>wb_rd_value := (if re_src1_value rev_pack < re_src2_value rev_pack then 1 else 0)\<rparr>"
| "cycle_alu_op Alu_sra rev_pack send =
     send\<lparr>wb_rd_value := word_of_int (drop_bit (unat (re_src2_value rev_pack AND 0x1f)) (sint (re_src1_value rev_pack)))\<rparr>"
| "cycle_alu_op Alu_srl rev_pack send =
     send\<lparr>wb_rd_value := drop_bit (unat (re_src2_value rev_pack AND 0x1f)) (re_src1_value rev_pack)\<rparr>"
| "cycle_alu_op Alu_sub rev_pack send = send\<lparr>wb_rd_value := re_src1_value rev_pack - re_src2_value rev_pack\<rparr>"
| "cycle_alu_op Alu_xor rev_pack send = send\<lparr>wb_rd_value := re_src1_value rev_pack XOR re_src2_value rev_pack\<rparr>"

definition alu_exec :: "integer_readreg_execute_pack_t \<Rightarrow> execute_wb_pack_t \<Rightarrow> execute_wb_pack_t option" where
  "alu_exec rev_pack send =
     do {
       verify (re_enable rev_pack \<longrightarrow> re_op_unit rev_pack = Cunit_alu);
       if re_enable rev_pack \<and> \<not> re_has_exception rev_pack
       then (if \<not> re_valid rev_pack
             then Some (send\<lparr>wb_has_exception := True, wb_exception_id := illegal_instruction, wb_exception_value := 0\<rparr>)
             else (case re_sub_op rev_pack of Csub_alu f \<Rightarrow> Some (cycle_alu_op f rev_pack send) | _ \<Rightarrow> None))
       else Some send
     }"

subsection \<open>Multiplication\<close>

fun cycle_mul_value :: "mul_op_t \<Rightarrow> u32 \<Rightarrow> u32 \<Rightarrow> u32" where
  "cycle_mul_value Mul_mul a b = ucast (((scast a :: u64) * scast b) AND 0xffffffff)"
| "cycle_mul_value Mul_mulh a b = ucast (drop_bit 32 ((scast a :: u64) * scast b) AND 0xffffffff)"
| "cycle_mul_value Mul_mulhsu a b = ucast (drop_bit 32 ((scast a :: u64) * ucast b) AND 0xffffffff)"
| "cycle_mul_value Mul_mulhu a b = ucast (drop_bit 32 ((ucast a :: u64) * ucast b) AND 0xffffffff)"

definition mul_exec :: "integer_readreg_execute_pack_t \<Rightarrow> execute_wb_pack_t \<Rightarrow> execute_wb_pack_t option" where
  "mul_exec rev_pack send =
     (if re_enable rev_pack
      then do {
        verify (re_valid rev_pack);
        verify (re_op_unit rev_pack = Cunit_mul);
        (case re_sub_op rev_pack of
           Csub_mul f \<Rightarrow> Some (send\<lparr>wb_rd_value := cycle_mul_value f (re_src1_value rev_pack) (re_src2_value rev_pack)\<rparr>)
         | _ \<Rightarrow> None)
      }
      else Some send)"

text \<open>\<^verbatim>\<open>run\<close> is the same text in \<^verbatim>\<open>alu.cpp\<close> and \<^verbatim>\<open>mul.cpp\<close> but for the computation in the middle.\<close>

definition unit_run ::
    "(integer_readreg_execute_pack_t \<Rightarrow> execute_wb_pack_t \<Rightarrow> execute_wb_pack_t option) \<Rightarrow> bru_feedback_pack_t \<Rightarrow>
     sau_feedback_pack_t \<Rightarrow> commit_feedback_pack_t \<Rightarrow> exec_unit \<Rightarrow> (execute_feedback_channel_t \<times> exec_unit) option" where
  "unit_run exec bru sau commit u =
     do {
       (send_pack, h) \<leftarrow>
         (if \<not> hs_is_empty (eu_hdff u) \<and> \<not> cf_flush commit
          then (case hs_pop (eu_hdff u) of
                  (None, h) \<Rightarrow> None
                | (Some rev_pack, h) \<Rightarrow>
                    if bru_kills bru (re_rob_id rev_pack) (re_rob_id_stage rev_pack) then Some (execute_wb_pack_make, h)
                    else if sau_kills sau (re_rob_id rev_pack) (re_rob_id_stage rev_pack) then Some (execute_wb_pack_make, h)
                    else do { send \<leftarrow> exec rev_pack (execute_pass rev_pack execute_wb_pack_make); Some (send, h) })
          else Some (execute_wb_pack_make, eu_hdff u));
       Some (execute_feedback send_pack, u\<lparr>eu_hdff := h, eu_port := port_set send_pack (eu_port u)\<rparr>)
     }"

definition alu_run :: "bru_feedback_pack_t \<Rightarrow> sau_feedback_pack_t \<Rightarrow> commit_feedback_pack_t \<Rightarrow> exec_unit \<Rightarrow>
    (execute_feedback_channel_t \<times> exec_unit) option" where
  "alu_run = unit_run alu_exec"

definition mul_run :: "bru_feedback_pack_t \<Rightarrow> sau_feedback_pack_t \<Rightarrow> commit_feedback_pack_t \<Rightarrow> exec_unit \<Rightarrow>
    (execute_feedback_channel_t \<times> exec_unit) option" where
  "mul_run = unit_run mul_exec"

subsection \<open>Division\<close>

text \<open>
  The divider keeps the operation in \<^verbatim>\<open>send_pack\<close> and counts \<^verbatim>\<open>progress\<close> down from
  \<^verbatim>\<open>DIV_LATENCY - 1\<close>.
\<close>

record div_unit =
  dv_hdff :: "integer_readreg_execute_pack_t handshake_dff"
  dv_port :: "execute_wb_pack_t port"
  dv_progress :: nat
  dv_busy :: bool
  dv_send_pack :: execute_wb_pack_t

definition div_reset :: "div_unit \<Rightarrow> div_unit" where
  "div_reset d = d\<lparr>dv_send_pack := execute_wb_pack_make, dv_busy := False, dv_progress := 0\<rparr>"

definition div_sync :: "div_unit \<Rightarrow> div_unit" where
  "div_sync d = d\<lparr>dv_hdff := hs_sync (dv_hdff d), dv_port := port_sync (dv_port d)\<rparr>"

fun cycle_div_value :: "div_op_t \<Rightarrow> u32 \<Rightarrow> u32 \<Rightarrow> u32" where
  "cycle_div_value Div_div a b =
     (if b = 0 then 0xFFFFFFFF else if a = 0x80000000 \<and> b = 0xFFFFFFFF then 0x80000000
      else word_of_int (sint a sdiv sint b))"
| "cycle_div_value Div_divu a b = (if b = 0 then 0xFFFFFFFF else a div b)"
| "cycle_div_value Div_rem a b =
     (if b = 0 then a else if a = 0x80000000 \<and> b = 0xFFFFFFFF then 0 else word_of_int (sint a smod sint b))"
| "cycle_div_value Div_remu a b = (if b = 0 then a else word_of_int (sint a) mod word_of_int (sint b))"

definition div_exec :: "integer_readreg_execute_pack_t \<Rightarrow> execute_wb_pack_t \<Rightarrow> execute_wb_pack_t option" where
  "div_exec rev_pack send =
     (if re_enable rev_pack
      then do {
        verify (re_valid rev_pack);
        verify (re_op_unit rev_pack = Cunit_div);
        (case re_sub_op rev_pack of
           Csub_div f \<Rightarrow> Some (send\<lparr>wb_rd_value := cycle_div_value f (re_src1_value rev_pack) (re_src2_value rev_pack)\<rparr>)
         | _ \<Rightarrow> None)
      }
      else Some send)"

definition div_idle_port :: "div_unit \<Rightarrow> div_unit" where
  "div_idle_port d = d\<lparr>dv_port := port_set execute_wb_pack_make (dv_port d)\<rparr>"

text \<open>
  The first half of \<^verbatim>\<open>run\<close>: take a new operation when there is none or the last one is due. The
  first component of the result tells that the function has returned early.
\<close>

definition div_accept :: "bru_feedback_pack_t \<Rightarrow> sau_feedback_pack_t \<Rightarrow> div_unit \<Rightarrow> (bool \<times> div_unit) option" where
  "div_accept bru sau d =
     (if \<not> dv_busy d \<or> dv_progress d = 0
      then (if \<not> hs_is_empty (dv_hdff d)
            then (case hs_pop (dv_hdff d) of
                    (None, h) \<Rightarrow> None
                  | (Some rev_pack, h) \<Rightarrow>
                      let d1 = d\<lparr>dv_hdff := h\<rparr> in
                      if bru_kills bru (re_rob_id rev_pack) (re_rob_id_stage rev_pack) \<or> sau_kills sau (re_rob_id rev_pack) (re_rob_id_stage rev_pack)
                      then Some (True, div_idle_port d1)
                      else do {
                        send \<leftarrow> div_exec rev_pack (execute_pass rev_pack (dv_send_pack d1));
                        Some (False, div_idle_port (d1\<lparr>dv_send_pack := send, dv_busy := True, dv_progress := DIV_LATENCY - 1\<rparr>))
                      })
            else Some (False, div_idle_port d))
      else Some (False, d))"

definition div_advance :: "bru_feedback_pack_t \<Rightarrow> sau_feedback_pack_t \<Rightarrow> div_unit \<Rightarrow> execute_feedback_channel_t \<times> div_unit" where
  "div_advance bru sau d =
     (let s = dv_send_pack d in
      if \<not> dv_busy d then (execute_feedback_channel_make, d)
      else if bru_kills bru (wb_rob_id s) (wb_rob_id_stage s) \<or> sau_kills sau (wb_rob_id s) (wb_rob_id_stage s)
      then (execute_feedback_channel_make, div_idle_port (d\<lparr>dv_busy := False, dv_progress := 0\<rparr>))
      else if dv_progress d = 0
      then (execute_feedback s, d\<lparr>dv_port := port_set s (dv_port d), dv_busy := False\<rparr>)
      else (execute_feedback_channel_make, div_idle_port (d\<lparr>dv_progress := dv_progress d - 1\<rparr>)))"

definition div_run :: "bru_feedback_pack_t \<Rightarrow> sau_feedback_pack_t \<Rightarrow> commit_feedback_pack_t \<Rightarrow> div_unit \<Rightarrow>
    (execute_feedback_channel_t \<times> div_unit) option" where
  "div_run bru sau commit d =
     (if \<not> cf_flush commit
      then do {
        (returned, d1) \<leftarrow> div_accept bru sau d;
        Some (if returned then (execute_feedback_channel_make, d1) else div_advance bru sau d1)
      }
      else Some (execute_feedback_channel_make, div_idle_port (d\<lparr>dv_busy := False, dv_progress := 0\<rparr>)))"

subsection \<open>Agreement with the units of the ISA model\<close>

text \<open>The state in which the ISA model would execute the same operation on the same operands.\<close>

definition isa_view :: "integer_readreg_execute_pack_t \<Rightarrow> sub_op_t \<Rightarrow> isa_state_t" where
  "isa_view p f =
     isa_state_make\<lparr>i_valid := re_valid p, i_pc := re_pc p, i_imm := re_imm p, i_has_exception := re_has_exception p,
       i_exception_id := re_exception_id p, i_exception_value := re_exception_value p,
       i_src1_value := re_src1_value p, i_src2_value := re_src2_value p, i_sub_op := f\<rparr>"

text \<open>An operation that the unit takes in this cycle and that no flush covers.\<close>

definition takes :: "bru_feedback_pack_t \<Rightarrow> sau_feedback_pack_t \<Rightarrow> commit_feedback_pack_t \<Rightarrow>
    integer_readreg_execute_pack_t handshake_dff \<Rightarrow> integer_readreg_execute_pack_t \<Rightarrow> bool" where
  "takes bru sau commit h p \<longleftrightarrow> hs_get_data h = Some p \<and> \<not> cf_flush commit \<and>
     \<not> bru_kills bru (re_rob_id p) (re_rob_id_stage p) \<and> \<not> sau_kills sau (re_rob_id p) (re_rob_id_stage p)"

lemma takes_pop:
  "takes bru sau commit h p \<Longrightarrow> \<exists>h'. hs_pop h = (Some p, h') \<and> \<not> hs_is_empty h \<and> hs_is_empty (hs_sync h')"
  by (auto simp: takes_def hs_get_data_def hs_pop_def hs_is_empty_def hs_sync_def dff_get_def dff_set_def dff_sync_def
      split: if_splits)

lemma unit_run_takes:
  assumes "takes bru sau commit (eu_hdff u) p" and "exec p (execute_pass p execute_wb_pack_make) = Some q"
  shows "\<exists>u'. unit_run exec bru sau commit u = Some (execute_feedback q, u') \<and>
    port_get (eu_port (exec_unit_sync u')) = q \<and> hs_is_empty (eu_hdff (exec_unit_sync u'))"
proof -
  obtain h where h: "hs_pop (eu_hdff u) = (Some p, h)" "\<not> hs_is_empty (eu_hdff u)" "hs_is_empty (hs_sync h)"
    using takes_pop[OF assms(1)] by blast
  then show ?thesis
    using assms by (simp add: unit_run_def takes_def exec_unit_sync_def port_get_def port_sync_def port_set_def
        dff_get_def dff_sync_def dff_set_def)
qed

lemma unit_run_drops:
  assumes "hs_get_data (eu_hdff u) = Some p"
    and "cf_flush commit \<or> bru_kills bru (re_rob_id p) (re_rob_id_stage p) \<or> sau_kills sau (re_rob_id p) (re_rob_id_stage p)"
  shows "\<exists>u'. unit_run exec bru sau commit u = Some (execute_feedback execute_wb_pack_make, u') \<and>
    port_get (eu_port (exec_unit_sync u')) = execute_wb_pack_make"
  using assms
  by (auto simp: unit_run_def hs_get_data_def hs_pop_def exec_unit_sync_def port_get_def port_sync_def port_set_def
      dff_get_def dff_sync_def dff_set_def split: if_splits)

lemma execute_pass_sel [simp]:
  "wb_enable (execute_pass p s) = re_enable p" "wb_valid (execute_pass p s) = re_valid p"
  "wb_rob_id (execute_pass p s) = re_rob_id p" "wb_rob_id_stage (execute_pass p s) = re_rob_id_stage p"
  "wb_has_exception (execute_pass p s) = re_has_exception p" "wb_exception_id (execute_pass p s) = re_exception_id p"
  "wb_exception_value (execute_pass p s) = re_exception_value p" "wb_rd_phy (execute_pass p s) = re_rd_phy p"
  "wb_need_rename (execute_pass p s) = re_need_rename p" "wb_pc (execute_pass p s) = re_pc p"
  by (simp_all add: execute_pass_def)

lemma alu_exec_isa:
  assumes "re_enable p" and "re_op_unit p = Cunit_alu" and "re_sub_op p = Csub_alu f"
  shows "\<exists>q s. alu_exec p (execute_pass p execute_wb_pack_make) = Some q \<and> execute_alu (isa_view p (Sub_alu f)) = Some s \<and>
    wb_has_exception q = i_has_exception s \<and>
    (if i_has_exception s then wb_exception_id q = i_exception_id s \<and> wb_exception_value q = i_exception_value s
     else wb_rd_value q = i_rd_value s) \<and>
    wb_enable q \<and> wb_rob_id q = re_rob_id p \<and> wb_rob_id_stage q = re_rob_id_stage p \<and> wb_rd_phy q = re_rd_phy p"
proof (cases "re_has_exception p \<or> \<not> re_valid p")
  case True
  then show ?thesis
    using assms by (auto simp: alu_exec_def execute_alu_def isa_view_def)
next
  case False
  then show ?thesis
    using assms by (cases f) (simp_all add: alu_exec_def execute_alu_def isa_view_def isa_state_make_def)
qed

lemma cycle_mul_value_isa: "cycle_mul_value f a b = mul_result f a b"
  by (cases f) simp_all

lemma cycle_div_value_isa: "cycle_div_value f a b = div_result f a b"
  by (cases f) simp_all

subsection \<open>Waiting for the divider\<close>

text \<open>Cycles of the divider in which nothing new is offered: the feedback and the port after the edge.\<close>

primrec div_cycles :: "(bru_feedback_pack_t \<times> sau_feedback_pack_t \<times> commit_feedback_pack_t) list \<Rightarrow> div_unit \<Rightarrow>
    ((execute_feedback_channel_t \<times> execute_wb_pack_t) list \<times> div_unit) option" where
  "div_cycles [] d = Some ([], d)"
| "div_cycles (e # es) d =
     do {
       (fb, d1) \<leftarrow> div_run (fst e) (fst (snd e)) (snd (snd e)) d;
       (outs, d2) \<leftarrow> div_cycles es (div_sync d1);
       Some ((fb, port_get (dv_port (div_sync d1))) # outs, d2)
     }"

definition spares :: "nat \<Rightarrow> bool \<Rightarrow> bru_feedback_pack_t \<times> sau_feedback_pack_t \<times> commit_feedback_pack_t \<Rightarrow> bool" where
  "spares rob_id rob_id_stage e \<longleftrightarrow> \<not> cf_flush (snd (snd e)) \<and> \<not> bru_kills (fst e) rob_id rob_id_stage \<and>
     \<not> sau_kills (fst (snd e)) rob_id rob_id_stage"

definition dividing :: "nat \<Rightarrow> execute_wb_pack_t \<Rightarrow> div_unit \<Rightarrow> bool" where
  "dividing n s d \<longleftrightarrow> dv_busy d \<and> dv_progress d = n \<and> dv_send_pack d = s \<and> hs_is_empty (dv_hdff d) \<and>
     \<not> hs_is_full (dv_hdff d)"

lemmas div_step_defs = div_run_def div_accept_def div_advance_def div_idle_port_def div_sync_def spares_def dividing_def
  port_get_def port_sync_def port_set_def dff_get_def dff_get_new_def dff_sync_def dff_set_def hs_is_empty_def hs_is_full_def hs_sync_def

lemma div_step_wait:
  assumes "dividing (Suc n) s d" and "spares (wb_rob_id s) (wb_rob_id_stage s) e"
  shows "\<exists>d1. div_run (fst e) (fst (snd e)) (snd (snd e)) d = Some (execute_feedback_channel_make, d1) \<and>
    port_get (dv_port (div_sync d1)) = execute_wb_pack_make \<and> dividing n s (div_sync d1)"
  using assms by (auto simp: div_step_defs Let_def)

lemma div_step_done:
  assumes "dividing 0 s d" and "spares (wb_rob_id s) (wb_rob_id_stage s) e"
  shows "\<exists>d1. div_run (fst e) (fst (snd e)) (snd (snd e)) d = Some (execute_feedback s, d1) \<and>
    port_get (dv_port (div_sync d1)) = s \<and> \<not> dv_busy (div_sync d1)"
  using assms by (auto simp: div_step_defs Let_def)

lemma div_wait:
  assumes "dividing (length es) s d" and "\<forall>e \<in> set es. spares (wb_rob_id s) (wb_rob_id_stage s) e"
  shows "\<exists>d1. div_cycles es d = Some (replicate (length es) (execute_feedback_channel_make, execute_wb_pack_make), d1) \<and>
    dividing 0 s d1"
  using assms
proof (induction es arbitrary: d)
  case (Cons e es)
  obtain d1 where d1: "div_run (fst e) (fst (snd e)) (snd (snd e)) d = Some (execute_feedback_channel_make, d1)"
    "port_get (dv_port (div_sync d1)) = execute_wb_pack_make" "dividing (length es) s (div_sync d1)"
    using div_step_wait[of "length es" s d e] Cons.prems by auto
  then show ?case using Cons.IH[OF d1(3)] Cons.prems(2) by auto
qed simp

lemma div_step_accept:
  assumes "\<not> dv_busy d" and "takes (fst e) (fst (snd e)) (snd (snd e)) (dv_hdff d) p"
    and "re_enable p" and "re_valid p" and "re_op_unit p = Cunit_div" and "re_sub_op p = Csub_div f"
  shows "\<exists>d1 q. div_run (fst e) (fst (snd e)) (snd (snd e)) d = Some (execute_feedback_channel_make, d1) \<and>
    port_get (dv_port (div_sync d1)) = execute_wb_pack_make \<and> dividing (DIV_LATENCY - 2) q (div_sync d1) \<and>
    q = (execute_pass p (dv_send_pack d))\<lparr>wb_rd_value := div_result f (re_src1_value p) (re_src2_value p)\<rparr>"
proof -
  let ?q = "(execute_pass p (dv_send_pack d))\<lparr>wb_rd_value := div_result f (re_src1_value p) (re_src2_value p)\<rparr>"
  have t: "\<not> hs_is_empty (dv_hdff d)" "hs_pop (dv_hdff d) = (Some p, (dv_hdff d)\<lparr>hs_has_data := dff_set False (hs_has_data (dv_hdff d))\<rparr>)"
    "\<not> cf_flush (snd (snd e))" "\<not> bru_kills (fst e) (re_rob_id p) (re_rob_id_stage p)"
    "\<not> sau_kills (fst (snd e)) (re_rob_id p) (re_rob_id_stage p)"
    using assms(2) by (auto simp: takes_def hs_get_data_def hs_pop_def split: if_splits)
  let ?d1 = "d\<lparr>dv_hdff := (dv_hdff d)\<lparr>hs_has_data := dff_set False (hs_has_data (dv_hdff d))\<rparr>\<rparr>"
  let ?d2 = "div_idle_port (?d1\<lparr>dv_send_pack := ?q, dv_busy := True, dv_progress := DIV_LATENCY - 1\<rparr>)"
  have "div_exec p (execute_pass p (dv_send_pack d)) = Some ?q"
    using assms(3-6) by (simp add: div_exec_def cycle_div_value_isa)
  then have a: "div_accept (fst e) (fst (snd e)) d = Some (False, ?d2)"
    using assms(1) t by (simp add: div_accept_def Let_def)
  let ?d3 = "div_idle_port (?d2\<lparr>dv_progress := DIV_LATENCY - 2\<rparr>)"
  have "div_advance (fst e) (fst (snd e)) ?d2 = (execute_feedback_channel_make, ?d3)"
    using t by (simp add: div_advance_def div_idle_port_def config_defs)
  then have "div_run (fst e) (fst (snd e)) (snd (snd e)) d = Some (execute_feedback_channel_make, ?d3)"
    using a t(3) by (simp add: div_run_def)
  moreover have "port_get (dv_port (div_sync ?d3)) = execute_wb_pack_make" "dividing (DIV_LATENCY - 2) ?q (div_sync ?d3)"
    by (simp_all add: div_step_defs)
  ultimately show ?thesis by blast
qed

subsection \<open>Properties\<close>

text \<open>
  C34. The arithmetic unit of the pipeline computes what the ISA model computes: an operation that the
  unit takes and no flush covers leaves the unit after the clock edge with the result, or the
  exception, that the ISA model gives for the same operation and operands, under the same reorder
  buffer position and destination; the forwarded value is the one written to the port; and an operation that a
  flush covers leaves nothing.
\<close>

theorem alu_unit_matches_isa:
  assumes "hs_get_data (eu_hdff u) = Some p" and "re_enable p" and "re_op_unit p = Cunit_alu" and "re_sub_op p = Csub_alu f"
  shows "\<exists>s fb u'. execute_alu (isa_view p (Sub_alu f)) = Some s \<and> alu_run bru sau commit u = Some (fb, u') \<and>
    (let q = port_get (eu_port (exec_unit_sync u')) in
     fb = execute_feedback q \<and>
     (if takes bru sau commit (eu_hdff u) p
      then wb_has_exception q = i_has_exception s \<and>
        (if i_has_exception s then wb_exception_id q = i_exception_id s \<and> wb_exception_value q = i_exception_value s
         else wb_rd_value q = i_rd_value s) \<and>
        wb_rob_id q = re_rob_id p \<and> wb_rob_id_stage q = re_rob_id_stage p \<and> wb_rd_phy q = re_rd_phy p
      else q = execute_wb_pack_make))"
proof -
  obtain q s where x: "alu_exec p (execute_pass p execute_wb_pack_make) = Some q" "execute_alu (isa_view p (Sub_alu f)) = Some s"
    and y: "wb_has_exception q = i_has_exception s"
    "if i_has_exception s then wb_exception_id q = i_exception_id s \<and> wb_exception_value q = i_exception_value s
     else wb_rd_value q = i_rd_value s"
    "wb_rob_id q = re_rob_id p" "wb_rob_id_stage q = re_rob_id_stage p" "wb_rd_phy q = re_rd_phy p"
    using alu_exec_isa[OF assms(2-4)] by blast
  show ?thesis
  proof (cases "takes bru sau commit (eu_hdff u) p")
    case True
    then show ?thesis using unit_run_takes[OF True, where exec = alu_exec, OF x(1)] x(2) y by (auto simp: alu_run_def Let_def)
  next
    case False
    then have "cf_flush commit \<or> bru_kills bru (re_rob_id p) (re_rob_id_stage p) \<or> sau_kills sau (re_rob_id p) (re_rob_id_stage p)"
      using assms(1) by (auto simp: takes_def)
    from unit_run_drops[OF assms(1) this, of alu_exec] show ?thesis using False x(2) by (auto simp: alu_run_def Let_def)
  qed
qed

definition quiet_bru :: bru_feedback_pack_t where
  "quiet_bru = \<lparr>bru_flush = False, bru_next_pc = 0, bru_rob_id_stage = False, bru_rob_id = 0\<rparr>"

definition quiet_sau :: sau_feedback_pack_t where
  "quiet_sau = \<lparr>sau_flush = False, sau_next_pc = 0, sau_rob_id_stage = False, sau_rob_id = 0\<rparr>"

definition quiet_commit :: commit_feedback_pack_t where
  "quiet_commit = \<lparr>cf_idle = False, cf_next_handle_rob_id_valid = False, cf_next_handle_rob_id = 0, cf_has_exception = False,
     cf_exception_pc = 0, cf_flush = False, cf_committed_rob_id = [], cf_committed_rob_id_valid = [], cf_jump_enable = False,
     cf_jump = False, cf_jump_next_pc = 0, cf_waiting_for_interrupt = False\<rparr>"

definition demo_slot :: "integer_readreg_execute_pack_t \<Rightarrow> integer_readreg_execute_pack_t handshake_dff" where
  "demo_slot p = hs_sync (snd (hs_push p (hs_make integer_readreg_execute_pack_make)))"

lemma demo_slot_data: "hs_get_data (demo_slot p) = Some p"
  by (simp add: demo_slot_def hs_get_data_def hs_push_def hs_make_def hs_sync_def hs_is_full_def hs_is_empty_def dff_get_def
      dff_get_new_def dff_set_def dff_sync_def dff_make_def)

definition demo_alu_pack :: integer_readreg_execute_pack_t where
  "demo_alu_pack = integer_readreg_execute_pack_make\<lparr>re_enable := True, re_valid := True, re_src1_value := 0xFFFFFFFF,
     re_src2_value := 2, re_rob_id := 7\<rparr>"

theorem alu_unit_matches_isa_witness:
  "\<exists>fb u'. alu_run quiet_bru quiet_sau quiet_commit \<lparr>eu_hdff = demo_slot demo_alu_pack, eu_port = port_make execute_wb_pack_make\<rparr> = Some (fb, u') \<and>
     fb_value fb = 1 \<and> fb_rob_id fb = 7"
proof -
  let ?u = "\<lparr>eu_hdff = demo_slot demo_alu_pack, eu_port = port_make execute_wb_pack_make\<rparr>"
  have g: "hs_get_data (eu_hdff ?u) = Some demo_alu_pack" by (simp add: demo_slot_data)
  have p: "re_enable demo_alu_pack" "re_op_unit demo_alu_pack = Cunit_alu" "re_sub_op demo_alu_pack = Csub_alu Alu_add"
    "re_rob_id demo_alu_pack = 7"
    by (simp_all add: demo_alu_pack_def integer_readreg_execute_pack_make_def)
  have t: "takes quiet_bru quiet_sau quiet_commit (eu_hdff ?u) demo_alu_pack"
    using g by (simp add: takes_def quiet_commit_def quiet_bru_def quiet_sau_def bru_kills_def sau_kills_def)
  have i: "execute_alu (isa_view demo_alu_pack (Sub_alu Alu_add))
      = Some ((isa_view demo_alu_pack (Sub_alu Alu_add))\<lparr>i_rd_value := 1\<rparr>)"
    "\<not> i_has_exception (isa_view demo_alu_pack (Sub_alu Alu_add))"
    by (simp_all add: execute_alu_def isa_view_def demo_alu_pack_def integer_readreg_execute_pack_make_def)
  show ?thesis
    using alu_unit_matches_isa[OF g p(1-3), of quiet_bru quiet_sau quiet_commit] t i p(4)
    by (auto simp: Let_def execute_feedback_def)
qed

text \<open>
  The multiplier of the pipeline computes what the ISA model computes, for all four
  instructions, and drops an operation that a flush covers.
\<close>

theorem mul_unit_matches_isa:
  assumes "hs_get_data (eu_hdff u) = Some p" and "re_enable p" and "re_valid p" and "re_op_unit p = Cunit_mul"
    and "re_sub_op p = Csub_mul f" and "\<not> re_has_exception p"
  shows "\<exists>s fb u'. execute_mul (isa_view p (Sub_mul f)) = Some s \<and> mul_run bru sau commit u = Some (fb, u') \<and>
    (let q = port_get (eu_port (exec_unit_sync u')) in
     fb = execute_feedback q \<and>
     (if takes bru sau commit (eu_hdff u) p
      then wb_rd_value q = i_rd_value s \<and> \<not> wb_has_exception q \<and> wb_rob_id q = re_rob_id p \<and>
        wb_rob_id_stage q = re_rob_id_stage p \<and> wb_rd_phy q = re_rd_phy p
      else q = execute_wb_pack_make))"
proof -
  let ?q = "(execute_pass p execute_wb_pack_make)\<lparr>wb_rd_value := mul_result f (re_src1_value p) (re_src2_value p)\<rparr>"
  let ?s = "(isa_view p (Sub_mul f))\<lparr>i_rd_value := mul_result f (re_src1_value p) (re_src2_value p)\<rparr>"
  have x: "mul_exec p (execute_pass p execute_wb_pack_make) = Some ?q" "execute_mul (isa_view p (Sub_mul f)) = Some ?s"
    using assms(2-6) by (simp_all add: mul_exec_def cycle_mul_value_isa execute_mul_def isa_view_def)
  show ?thesis
  proof (cases "takes bru sau commit (eu_hdff u) p")
    case True
    then show ?thesis using unit_run_takes[OF True, where exec = mul_exec, OF x(1)] x(2) assms(6) by (auto simp: mul_run_def Let_def)
  next
    case False
    then have "cf_flush commit \<or> bru_kills bru (re_rob_id p) (re_rob_id_stage p) \<or> sau_kills sau (re_rob_id p) (re_rob_id_stage p)"
      using assms(1) by (auto simp: takes_def)
    from unit_run_drops[OF assms(1) this, of mul_exec] show ?thesis using False x(2) by (auto simp: mul_run_def Let_def)
  qed
qed

definition demo_mul_pack :: integer_readreg_execute_pack_t where
  "demo_mul_pack = integer_readreg_execute_pack_make\<lparr>re_enable := True, re_valid := True, re_src1_value := 6,
     re_src2_value := 7, re_op_unit := Cunit_mul, re_sub_op := Csub_mul Mul_mul\<rparr>"

text \<open>
  C38. The divider delivers after exactly \<^verbatim>\<open>DIV_LATENCY\<close> cycles: an idle divider that is
  offered an operation, and nothing further while it works, and that no flush hits, shows nothing on its port and forwards nothing for
  \<^verbatim>\<open>DIV_LATENCY - 1\<close> cycles, then delivers the quotient or remainder of the ISA model with the
  operation's reorder buffer position and destination, and is idle again.
\<close>

theorem div_delivers_after_latency:
  assumes "\<not> dv_busy d" and "hs_get_data (dv_hdff d) = Some p" and "re_enable p" and "re_valid p"
    and "re_op_unit p = Cunit_div" and "re_sub_op p = Csub_div f"
    and "length es = DIV_LATENCY" and "\<forall>e \<in> set es. spares (re_rob_id p) (re_rob_id_stage p) e"
  shows "\<exists>q d'. div_cycles es d = Some (replicate (DIV_LATENCY - 1) (execute_feedback_channel_make, execute_wb_pack_make)
      @ [(execute_feedback q, q)], d') \<and>
    wb_rd_value q = div_result f (re_src1_value p) (re_src2_value p) \<and> wb_enable q \<and> wb_rob_id q = re_rob_id p \<and>
    wb_rob_id_stage q = re_rob_id_stage p \<and> wb_rd_phy q = re_rd_phy p \<and> \<not> dv_busy d'"
proof -
  define n where "n = DIV_LATENCY - 2"
  obtain e es1 el where es: "es = e # es1 @ [el]" "length es1 = n"
  proof -
    have len: "length es = Suc (Suc n)" using assms(7) by (simp add: n_def config_defs)
    then obtain e es' where "es = e # es'" "length es' = Suc n" by (metis length_Suc_conv)
    moreover then obtain es1 el where "es' = es1 @ [el]" by (metis length_0_conv nat.simps(3) rev_exhaust)
    ultimately show thesis using that[of e es1 el] by simp
  qed
  have t: "takes (fst e) (fst (snd e)) (snd (snd e)) (dv_hdff d) p"
    using assms(2,8) es(1) by (simp add: takes_def spares_def)
  obtain d1 q where s1: "div_run (fst e) (fst (snd e)) (snd (snd e)) d = Some (execute_feedback_channel_make, d1)"
    "port_get (dv_port (div_sync d1)) = execute_wb_pack_make" "dividing n q (div_sync d1)"
    and q: "q = (execute_pass p (dv_send_pack d))\<lparr>wb_rd_value := div_result f (re_src1_value p) (re_src2_value p)\<rparr>"
    using div_step_accept[OF assms(1) t assms(3-6)] unfolding n_def by blast
  have id: "wb_rob_id q = re_rob_id p" "wb_rob_id_stage q = re_rob_id_stage p" by (simp_all add: q)
  obtain d2 where s2: "div_cycles es1 (div_sync d1) = Some (replicate n (execute_feedback_channel_make, execute_wb_pack_make), d2)"
    "dividing 0 q d2"
    using div_wait[of es1 q "div_sync d1"] s1(3) es assms(8) id by auto
  obtain d3 where s3: "div_run (fst el) (fst (snd el)) (snd (snd el)) d2 = Some (execute_feedback q, d3)"
    "port_get (dv_port (div_sync d3)) = q" "\<not> dv_busy (div_sync d3)"
    using div_step_done[OF s2(2), of el] es assms(8) id by auto
  have app: "div_cycles (xs @ [el]) x = do { (outs, y) \<leftarrow> div_cycles xs x; (o2, z) \<leftarrow> div_cycles [el] y; Some (outs @ o2, z) }" for xs x
    by (induction xs arbitrary: x) (auto split: Option.bind_splits)
  have "div_cycles es d = Some ((execute_feedback_channel_make, execute_wb_pack_make) #
      replicate n (execute_feedback_channel_make, execute_wb_pack_make) @ [(execute_feedback q, q)], div_sync d3)"
    unfolding es(1) using s1 s2(1) s3 by (simp add: app)
  moreover have "DIV_LATENCY - 1 = Suc n" by (simp add: n_def config_defs)
  ultimately have "div_cycles es d = Some (replicate (DIV_LATENCY - 1) (execute_feedback_channel_make, execute_wb_pack_make)
      @ [(execute_feedback q, q)], div_sync d3)" by simp
  then show ?thesis using q s3(3) assms(3) by (intro exI[of _ q] exI[of _ "div_sync d3"]) simp
qed

definition demo_div_pack :: integer_readreg_execute_pack_t where
  "demo_div_pack = integer_readreg_execute_pack_make\<lparr>re_enable := True, re_valid := True, re_src1_value := 43,
     re_src2_value := 5, re_op_unit := Cunit_div, re_sub_op := Csub_div Div_divu\<rparr>"

theorem div_delivers_after_latency_witness:
  "\<exists>outs d'. div_cycles (replicate DIV_LATENCY (quiet_bru, quiet_sau, quiet_commit))
      \<lparr>dv_hdff = demo_slot demo_div_pack, dv_port = port_make execute_wb_pack_make, dv_progress = 0, dv_busy = False,
       dv_send_pack = execute_wb_pack_make\<rparr> = Some (outs, d') \<and> length outs = 8 \<and> wb_rd_value (snd (last outs)) = 8"
proof -
  let ?d = "\<lparr>dv_hdff = demo_slot demo_div_pack, dv_port = port_make execute_wb_pack_make, dv_progress = 0, dv_busy = False,
       dv_send_pack = execute_wb_pack_make\<rparr>"
  let ?es = "replicate DIV_LATENCY (quiet_bru, quiet_sau, quiet_commit)"
  have p: "\<not> dv_busy ?d" "hs_get_data (dv_hdff ?d) = Some demo_div_pack" "re_enable demo_div_pack" "re_valid demo_div_pack"
    "re_op_unit demo_div_pack = Cunit_div" "re_sub_op demo_div_pack = Csub_div Div_divu"
    "re_src1_value demo_div_pack = 43" "re_src2_value demo_div_pack = 5"
    by (simp_all add: demo_slot_data demo_div_pack_def integer_readreg_execute_pack_make_def)
  have "\<forall>e \<in> set ?es. spares (re_rob_id demo_div_pack) (re_rob_id_stage demo_div_pack) e"
    by (simp add: spares_def quiet_commit_def quiet_bru_def quiet_sau_def bru_kills_def sau_kills_def)
  then obtain q d' where q: "div_cycles ?es ?d = Some (replicate (DIV_LATENCY - 1) (execute_feedback_channel_make, execute_wb_pack_make)
      @ [(execute_feedback q, q)], d')" "wb_rd_value q = div_result Div_divu 43 5"
    using div_delivers_after_latency[OF p(1-6), of ?es] p(7,8) by auto
  moreover have "div_result Div_divu 43 5 = 8" by simp
  moreover have "length (replicate (DIV_LATENCY - 1) (execute_feedback_channel_make, execute_wb_pack_make) @ [(execute_feedback q, q)]) = 8"
    by (simp add: config_defs)
  ultimately show ?thesis by (metis last_snoc snd_conv)
qed

end
