(* ===== verification/Write_Back.thy ===== *)
theory Write_Back
  imports Exec_Packs Phy_Regfile
begin

text \<open>
  \<^verbatim>\<open>pipeline/wb.cpp\<close>: the write back stage. It reads the ports of all units that produce a result
  (\<^verbatim>\<open>wb::init\<close> lists them: arithmetic, branch, CSR, divider, multiplier, load), drops what a flush
  of this cycle covers, writes the rest into the physical register file and reports each on a
  feedback channel.
\<close>

definition EXECUTE_UNIT_NUM :: nat where "EXECUTE_UNIT_NUM = 10"

record wb_feedback_channel_t =
  wf_enable :: bool
  wf_phy_id :: nat
  wf_value :: u32
  wf_rob_id :: nat
  wf_rob_id_stage :: bool

definition wb_feedback_channel_make :: wb_feedback_channel_t where
  "wb_feedback_channel_make =
     \<lparr>wf_enable = False, wf_phy_id = 0, wf_value = 0, wf_rob_id = 0, wf_rob_id_stage = False\<rparr>"

definition wb_init :: "execute_wb_pack_t port list \<Rightarrow> execute_wb_pack_t port list \<Rightarrow> execute_wb_pack_t port list \<Rightarrow>
    execute_wb_pack_t port list \<Rightarrow> execute_wb_pack_t port list \<Rightarrow> execute_wb_pack_t port list \<Rightarrow> execute_wb_pack_t port list" where
  "wb_init alu bru csr dv mul lu = alu @ bru @ csr @ dv @ mul @ lu"

definition wb_channel :: "execute_wb_pack_t \<Rightarrow> wb_feedback_channel_t" where
  "wb_channel q =
     \<lparr>wf_enable = (wb_enable q \<and> wb_valid q \<and> wb_need_rename q \<and> \<not> wb_has_exception q),
      wf_phy_id = wb_rd_phy q, wf_value = wb_rd_value q, wf_rob_id = wb_rob_id q, wf_rob_id_stage = wb_rob_id_stage q\<rparr>"

text \<open>The body of the loop over the ports; a channel index beyond the array is \<open>None\<close>.\<close>

fun wb_loop :: "bru_feedback_pack_t \<Rightarrow> sau_feedback_pack_t \<Rightarrow> execute_wb_pack_t list \<Rightarrow> nat \<Rightarrow>
    wb_feedback_channel_t list \<Rightarrow> u32 phy_regfile \<Rightarrow> (wb_feedback_channel_t list \<times> u32 phy_regfile) option" where
  "wb_loop bru sau [] i ch rf = Some (ch, rf)"
| "wb_loop bru sau (rev_pack # packs) i ch rf =
     (if bru_kills bru (wb_rob_id rev_pack) (wb_rob_id_stage rev_pack) then wb_loop bru sau packs (i + 1) ch rf
      else if sau_kills sau (wb_rob_id rev_pack) (wb_rob_id_stage rev_pack) then wb_loop bru sau packs (i + 1) ch rf
      else do {
        rf' \<leftarrow> (if wb_enable rev_pack \<and> wb_valid rev_pack \<and> \<not> wb_has_exception rev_pack \<and> wb_need_rename rev_pack
                then phy_regfile_write (wb_rd_phy rev_pack) (wb_rd_value rev_pack) True (wb_rob_id rev_pack)
                       (wb_rob_id_stage rev_pack) False rf
                else Some rf);
        verify (i < length ch);
        wb_loop bru sau packs (i + 1) (ch[i := wb_channel rev_pack]) rf'
      })"

definition wb_run :: "bru_feedback_pack_t \<Rightarrow> sau_feedback_pack_t \<Rightarrow> commit_feedback_pack_t \<Rightarrow> execute_wb_pack_t port list \<Rightarrow>
    u32 phy_regfile \<Rightarrow> (wb_feedback_channel_t list \<times> u32 phy_regfile) option" where
  "wb_run bru sau commit ports rf =
     (let ch = replicate EXECUTE_UNIT_NUM wb_feedback_channel_make in
      if \<not> cf_flush commit then wb_loop bru sau (map port_get ports) 0 ch rf else Some (ch, rf))"

subsection \<open>What is written\<close>

definition survives :: "bru_feedback_pack_t \<Rightarrow> sau_feedback_pack_t \<Rightarrow> execute_wb_pack_t \<Rightarrow> bool" where
  "survives bru sau q \<longleftrightarrow> \<not> bru_kills bru (wb_rob_id q) (wb_rob_id_stage q) \<and> \<not> sau_kills sau (wb_rob_id q) (wb_rob_id_stage q)"

definition writes :: "execute_wb_pack_t \<Rightarrow> bool" where
  "writes q \<longleftrightarrow> wb_enable q \<and> wb_valid q \<and> \<not> wb_has_exception q \<and> wb_need_rename q"

text \<open>The results that reach the register file in this cycle.\<close>

definition wb_live :: "bru_feedback_pack_t \<Rightarrow> sau_feedback_pack_t \<Rightarrow> commit_feedback_pack_t \<Rightarrow> execute_wb_pack_t port list \<Rightarrow>
    execute_wb_pack_t list" where
  "wb_live bru sau commit ports =
     filter (\<lambda>q. \<not> cf_flush commit \<and> survives bru sau q \<and> writes q) (map port_get ports)"

text \<open>What can be read of a register after the clock edge: data, valid bit and age.\<close>

definition reg_after :: "'a phy_regfile \<Rightarrow> nat \<Rightarrow> ('a \<times> bool \<times> nat \<times> bool \<times> bool) option" where
  "reg_after rf i =
     do {
       v \<leftarrow> phy_regfile_read (phy_regfile_sync rf) i;
       d \<leftarrow> read_data_valid (phy_regfile_sync rf) i;
       a \<leftarrow> read_age_information (phy_regfile_sync rf) i;
       Some (v, d, a)
     }"

definition pack_entry :: "execute_wb_pack_t \<Rightarrow> u32 \<times> bool \<times> nat \<times> bool \<times> bool" where
  "pack_entry q = (wb_rd_value q, True, wb_rob_id q, wb_rob_id_stage q, False)"

lemma reg_after_eq:
  "phy_regfile_shape rf \<Longrightarrow> i < rf_size rf \<Longrightarrow> reg_after rf i = Some (dff_get_new (reg_data rf ! i),
     dff_get_new (reg_data_valid rf ! i), dff_get_new (reg_rob_id rf ! i), dff_get_new (reg_rob_id_stage rf ! i),
     dff_get_new (reg_oldest rf ! i))"
  by (simp add: reg_after_def phy_regfile_read_def read_data_valid_def read_age_information_def phy_regfile_sync_def
      phy_regfile_shape_def)

lemma write_after:
  assumes "phy_regfile_shape rf" and "a < rf_size rf"
  obtains rf' where "phy_regfile_write a v True r st False rf = Some rf'" "phy_regfile_shape rf'" "rf_size rf' = rf_size rf"
    "\<And>i. i < rf_size rf \<Longrightarrow> reg_after rf' i = (if i = a then Some (v, True, r, st, False) else reg_after rf i)"
proof -
  let ?rf = "rf\<lparr>reg_data := reg_put a v (reg_data rf), reg_data_valid := reg_put a True (reg_data_valid rf),
     reg_rob_id := reg_put a r (reg_rob_id rf), reg_rob_id_stage := reg_put a st (reg_rob_id_stage rf),
     reg_oldest := reg_put a False (reg_oldest rf)\<rparr>"
  have w: "phy_regfile_write a v True r st False rf = Some ?rf" using assms(2) by (simp add: phy_regfile_write_def)
  have sh: "phy_regfile_shape ?rf" "rf_size ?rf = rf_size rf" using assms(1) by (simp_all add: phy_regfile_shape_def)
  have "reg_after ?rf i = (if i = a then Some (v, True, r, st, False) else reg_after rf i)" if "i < rf_size rf" for i
    using that assms reg_after_eq[OF sh(1)] reg_after_eq[OF assms(1)]
    by (simp add: phy_regfile_shape_def reg_put_get_new)
  then show thesis using that[OF w sh] by blast
qed

lemma wb_loop_eq:
  assumes "phy_regfile_shape rf" and "i + length packs \<le> length ch"
    and "\<forall>q \<in> set packs. survives bru sau q \<and> writes q \<longrightarrow> wb_rd_phy q < rf_size rf"
    and "distinct (map wb_rd_phy (filter (\<lambda>q. survives bru sau q \<and> writes q) packs))"
  shows "\<exists>ch' rf'. wb_loop bru sau packs i ch rf = Some (ch', rf') \<and> phy_regfile_shape rf' \<and> rf_size rf' = rf_size rf \<and>
    length ch' = length ch \<and>
    (\<forall>j < length ch. ch' ! j = (if i \<le> j \<and> j < i + length packs \<and> survives bru sau (packs ! (j - i))
       then wb_channel (packs ! (j - i)) else ch ! j)) \<and>
    (\<forall>q \<in> set packs. survives bru sau q \<and> writes q \<longrightarrow> reg_after rf' (wb_rd_phy q) = Some (pack_entry q)) \<and>
    (\<forall>k < rf_size rf. (\<forall>q \<in> set packs. survives bru sau q \<and> writes q \<longrightarrow> wb_rd_phy q \<noteq> k) \<longrightarrow> reg_after rf' k = reg_after rf k)"
  using assms
proof (induction packs arbitrary: i ch rf)
  case (Cons q qs)
  have nth': "Suc i \<le> j \<Longrightarrow> (q # qs) ! (j - i) = qs ! (j - Suc i)" for j by (simp add: nth_Cons')
  have nth: "i \<le> j \<and> j < i + length (q # qs) \<and> survives bru sau ((q # qs) ! (j - i)) \<longleftrightarrow>
      j = i \<and> survives bru sau q \<or> Suc i \<le> j \<and> j < Suc i + length qs \<and> survives bru sau (qs ! (j - Suc i))" for j
    using nth'[of j] by (cases "j = i"; cases "Suc i \<le> j") auto
  show ?case
  proof (cases "survives bru sau q")
    case False
    have l: "wb_loop bru sau (q # qs) i ch rf = wb_loop bru sau qs (Suc i) ch rf" using False by (auto simp: survives_def)
    have "Suc i + length qs \<le> length ch" using Cons.prems(2) by simp
    moreover have "\<forall>q \<in> set qs. survives bru sau q \<and> writes q \<longrightarrow> wb_rd_phy q < rf_size rf"
      "distinct (map wb_rd_phy (filter (\<lambda>q. survives bru sau q \<and> writes q) qs))"
      using Cons.prems(3,4) False by simp_all
    ultimately show ?thesis
      using Cons.IH[OF Cons.prems(1), of "Suc i" ch] False unfolding l nth by (auto simp: nth')
  next
    case True
    have i: "i < length ch" "Suc i + length qs \<le> length (ch[i := wb_channel q])" using Cons.prems(2) by simp_all
    have d: "distinct (map wb_rd_phy (filter (\<lambda>q. survives bru sau q \<and> writes q) qs))" using Cons.prems(4) by (simp split: if_splits)
    obtain rf1 where rf1: "(if writes q then phy_regfile_write (wb_rd_phy q) (wb_rd_value q) True (wb_rob_id q) (wb_rob_id_stage q) False rf
        else Some rf) = Some rf1" "phy_regfile_shape rf1" "rf_size rf1 = rf_size rf"
      "\<And>k. k < rf_size rf \<Longrightarrow> reg_after rf1 k = (if writes q \<and> k = wb_rd_phy q then Some (pack_entry q) else reg_after rf k)"
    proof (cases "writes q")
      case w: True
      then have "wb_rd_phy q < rf_size rf" using Cons.prems(3) True by simp
      then obtain rfx where "phy_regfile_write (wb_rd_phy q) (wb_rd_value q) True (wb_rob_id q) (wb_rob_id_stage q) False rf = Some rfx"
        "phy_regfile_shape rfx" "rf_size rfx = rf_size rf"
        "\<And>k. k < rf_size rf \<Longrightarrow> reg_after rfx k = (if k = wb_rd_phy q then Some (pack_entry q) else reg_after rf k)"
        using write_after[OF Cons.prems(1), of "wb_rd_phy q" "wb_rd_value q" "wb_rob_id q" "wb_rob_id_stage q"]
        unfolding pack_entry_def by blast
      then show thesis using that[of rfx] w by simp
    qed (use that Cons.prems(1) in simp)
    have l: "wb_loop bru sau (q # qs) i ch rf = wb_loop bru sau qs (Suc i) (ch[i := wb_channel q]) rf1"
      using True rf1(1) i(1) by (simp add: survives_def writes_def)
    have b: "\<forall>q \<in> set qs. survives bru sau q \<and> writes q \<longrightarrow> wb_rd_phy q < rf_size rf1" using Cons.prems(3) rf1(3) by simp
    obtain ch' rf' where r: "wb_loop bru sau qs (Suc i) (ch[i := wb_channel q]) rf1 = Some (ch', rf')" "phy_regfile_shape rf'"
      "rf_size rf' = rf_size rf1" "length ch' = length ch"
      and rch: "\<And>j. j < length ch \<Longrightarrow> ch' ! j = (if Suc i \<le> j \<and> j < Suc i + length qs \<and> survives bru sau (qs ! (j - Suc i))
         then wb_channel (qs ! (j - Suc i)) else ch[i := wb_channel q] ! j)"
      and rq: "\<And>p. p \<in> set qs \<Longrightarrow> survives bru sau p \<and> writes p \<Longrightarrow> reg_after rf' (wb_rd_phy p) = Some (pack_entry p)"
      and rk: "\<And>k. k < rf_size rf1 \<Longrightarrow> (\<forall>p \<in> set qs. survives bru sau p \<and> writes p \<longrightarrow> wb_rd_phy p \<noteq> k) \<Longrightarrow>
         reg_after rf' k = reg_after rf1 k"
      using Cons.IH[OF rf1(2) i(2) b d] by auto
    have own: "reg_after rf' (wb_rd_phy q) = Some (pack_entry q)" if "writes q"
    proof -
      have "\<forall>p \<in> set qs. survives bru sau p \<and> writes p \<longrightarrow> wb_rd_phy p \<noteq> wb_rd_phy q"
        using Cons.prems(4) that True by (auto simp: image_iff)
      moreover have "wb_rd_phy q < rf_size rf" using Cons.prems(3) that True by simp
      ultimately show ?thesis using rk[of "wb_rd_phy q"] rf1(3,4) that by simp
    qed
    have "ch' ! j = (if i \<le> j \<and> j < i + length (q # qs) \<and> survives bru sau ((q # qs) ! (j - i))
        then wb_channel ((q # qs) ! (j - i)) else ch ! j)" if "j < length ch" for j
      unfolding nth using rch[OF that] that True nth'[of j] by (cases "j = i") auto
    moreover have "reg_after rf' k = reg_after rf k"
      if "k < rf_size rf" "\<forall>p \<in> set (q # qs). survives bru sau p \<and> writes p \<longrightarrow> wb_rd_phy p \<noteq> k" for k
      using rk[of k] rf1(3,4) that True by auto
    moreover have "reg_after rf' (wb_rd_phy p) = Some (pack_entry p)"
      if "p \<in> set (q # qs)" "survives bru sau p \<and> writes p" for p
      using that own rq by auto
    ultimately show ?thesis unfolding l using r(1,2,4) r(3)[unfolded rf1(3)] by blast
  qed
qed auto

text \<open>
  C39. Write back writes exactly the results that survive: as long as no two of them have the same
  destination, the stage does not abort; after the clock edge every result that no flush covers,
  that is valid and without exception, is in its destination register with its reorder buffer
  position and is reported on its channel; every other register is what it would have been without the stage, and a
  pack that a flush covers, or any pack during a flush by commit, leaves no trace.
\<close>

theorem wb_writes_survivors:
  assumes "phy_regfile_shape rf" and "length ports \<le> EXECUTE_UNIT_NUM"
    and "\<forall>q \<in> set (wb_live bru sau commit ports). wb_rd_phy q < rf_size rf"
    and "distinct (map wb_rd_phy (wb_live bru sau commit ports))"
  shows "\<exists>ch rf'. wb_run bru sau commit ports rf = Some (ch, rf') \<and> length ch = EXECUTE_UNIT_NUM \<and>
    (\<forall>q \<in> set (wb_live bru sau commit ports). reg_after rf' (wb_rd_phy q) = Some (pack_entry q)) \<and>
    (\<forall>k < rf_size rf. k \<notin> wb_rd_phy ` set (wb_live bru sau commit ports) \<longrightarrow> reg_after rf' k = reg_after rf k) \<and>
    (\<forall>i < length ports. ch ! i = (if \<not> cf_flush commit \<and> survives bru sau (port_get (ports ! i))
       then wb_channel (port_get (ports ! i)) else wb_feedback_channel_make))"
proof (cases "cf_flush commit")
  case True
  then show ?thesis using assms(2) by (auto simp: wb_run_def wb_live_def Let_def)
next
  case False
  let ?ch = "replicate EXECUTE_UNIT_NUM wb_feedback_channel_make"
  let ?p = "map port_get ports"
  have live: "wb_live bru sau commit ports = filter (\<lambda>q. survives bru sau q \<and> writes q) ?p" using False by (simp add: wb_live_def)
  have len: "0 + length ?p \<le> length ?ch" using assms(2) by simp
  have b: "\<forall>q \<in> set ?p. survives bru sau q \<and> writes q \<longrightarrow> wb_rd_phy q < rf_size rf" using assms(3) unfolding live by auto
  obtain ch' rf' where r: "wb_loop bru sau ?p 0 ?ch rf = Some (ch', rf')" "length ch' = length ?ch"
    and rch: "\<forall>j < length ?ch. ch' ! j = (if 0 \<le> j \<and> j < 0 + length ?p \<and> survives bru sau (?p ! (j - 0))
       then wb_channel (?p ! (j - 0)) else ?ch ! j)"
    and rq: "\<forall>q \<in> set ?p. survives bru sau q \<and> writes q \<longrightarrow> reg_after rf' (wb_rd_phy q) = Some (pack_entry q)"
    and rk: "\<forall>k < rf_size rf. (\<forall>q \<in> set ?p. survives bru sau q \<and> writes q \<longrightarrow> wb_rd_phy q \<noteq> k) \<longrightarrow> reg_after rf' k = reg_after rf k"
    using wb_loop_eq[OF assms(1) len b assms(4)[unfolded live]] by blast
  have "wb_run bru sau commit ports rf = Some (ch', rf')" using False r(1) by (simp add: wb_run_def Let_def)
  moreover have "\<forall>q \<in> set (wb_live bru sau commit ports). reg_after rf' (wb_rd_phy q) = Some (pack_entry q)" using rq unfolding live by auto
  moreover have "\<forall>k < rf_size rf. k \<notin> wb_rd_phy ` set (wb_live bru sau commit ports) \<longrightarrow> reg_after rf' k = reg_after rf k" using rk unfolding live by auto
  moreover have "\<forall>i < length ports. ch' ! i = (if \<not> cf_flush commit \<and> survives bru sau (port_get (ports ! i))
       then wb_channel (port_get (ports ! i)) else wb_feedback_channel_make)"
    using rch False assms(2) by simp
  ultimately show ?thesis using r(2) by auto
qed

definition demo_result :: execute_wb_pack_t where
  "demo_result = execute_wb_pack_make\<lparr>wb_enable := True, wb_valid := True, wb_need_rename := True, wb_rd_phy := 2, wb_rd_value := 99,
     wb_rob_id := 4\<rparr>"

definition no_bru_flush :: bru_feedback_pack_t where
  "no_bru_flush = \<lparr>bru_flush = False, bru_next_pc = 0, bru_rob_id_stage = False, bru_rob_id = 0\<rparr>"

definition no_sau_flush :: sau_feedback_pack_t where
  "no_sau_flush = \<lparr>sau_flush = False, sau_next_pc = 0, sau_rob_id_stage = False, sau_rob_id = 0\<rparr>"

definition no_commit_flush :: commit_feedback_pack_t where
  "no_commit_flush = \<lparr>cf_idle = False, cf_next_handle_rob_id_valid = False, cf_next_handle_rob_id = 0, cf_has_exception = False,
     cf_exception_pc = 0, cf_flush = False, cf_committed_rob_id = [], cf_committed_rob_id_valid = [], cf_jump_enable = False,
     cf_jump = False, cf_jump_next_pc = 0, cf_waiting_for_interrupt = False\<rparr>"

theorem wb_writes_survivors_witness:
  "\<exists>ch rf'. wb_run no_bru_flush no_sau_flush no_commit_flush [port_make demo_result] (phy_regfile_make 4) = Some (ch, rf') \<and>
     reg_after rf' 2 = Some (99, True, 4, False, False)"
proof -
  have p: "port_get (port_make demo_result) = demo_result" by (simp add: port_get_def port_make_def dff_get_def dff_make_def)
  have s: "\<not> cf_flush no_commit_flush \<and> survives no_bru_flush no_sau_flush demo_result \<and> writes demo_result"
    by (simp add: no_commit_flush_def survives_def bru_kills_def sau_kills_def no_bru_flush_def no_sau_flush_def writes_def demo_result_def execute_wb_pack_make_def)
  have live: "wb_live no_bru_flush no_sau_flush no_commit_flush [port_make demo_result] = [demo_result]"
    using p s by (simp add: wb_live_def)
  have f: "wb_rd_phy demo_result = 2" "pack_entry demo_result = (99, True, 4, False, False)" "rf_size (phy_regfile_make 4 :: u32 phy_regfile) = 4"
    by (simp_all add: demo_result_def execute_wb_pack_make_def pack_entry_def phy_regfile_make_def phy_regfile_reset_def)
  show ?thesis
    using wb_writes_survivors[OF phy_regfile_make_shape[of 4], of "[port_make demo_result]" no_bru_flush no_sau_flush no_commit_flush]
    unfolding live by (auto simp: f EXECUTE_UNIT_NUM_def)
qed

end
