(* ===== verification/Rename.thy ===== *)
theory Rename
  imports Free_List Reg_Alias Load_Queue Store_Buffer Exec_Packs
begin

text \<open>
  \<^verbatim>\<open>pipeline/rename.cpp\<close> and the packs of \<^verbatim>\<open>rename_dispatch.h\<close>. In every cycle the stage takes up to
  \<^verbatim>\<open>RENAME_WIDTH\<close> micro-operations from \<^verbatim>\<open>decode_rename_fifo\<close>, looks up their source registers in the
  speculative alias table, gives each destination a register of the free list, and enters them
  into the reorder buffer, the load queue, the store buffer and the checkpoint buffer.

  The first part is the code, with its assertions. The second part is the bookkeeping of physical
  registers it keeps: every one of them is free, mapped, or waiting in the reorder buffer to be
  freed, and exactly one of these. The text of the operation that the debugger shows is left out.
\<close>

record rename_dispatch_op_info_t =
  rn_inst_common_info :: inst_common_info_t
  rn_enable :: bool
  rn_value :: u32
  rn_valid :: bool
  rn_last_uop :: bool
  rn_rob_id :: nat
  rn_rob_id_stage :: bool
  rn_pc :: u32
  rn_imm :: u32
  rn_has_exception :: bool
  rn_exception_id :: riscv_exception_t
  rn_exception_value :: u32
  rn_branch_predictor_info_pack :: branch_predictor_info_pack_t
  rn_rs1 :: u32
  rn_arg1_src :: arg_src_t
  rn_rs1_need_map :: bool
  rn_rs1_phy :: nat
  rn_rs2 :: u32
  rn_arg2_src :: arg_src_t
  rn_rs2_need_map :: bool
  rn_rs2_phy :: nat
  rn_rd :: u32
  rn_rd_enable :: bool
  rn_need_rename :: bool
  rn_rd_phy :: nat
  rn_csr :: u32
  rn_store_buffer_id :: nat
  rn_load_queue_id :: nat
  rn_op :: op_t
  rn_op_unit :: cycle_unit_t
  rn_sub_op :: cycle_sub_op_t

definition rename_dispatch_op_info_make :: rename_dispatch_op_info_t where
  "rename_dispatch_op_info_make =
     \<lparr>rn_inst_common_info = \<lparr>inst_id = 0\<rparr>, rn_enable = False, rn_value = 0, rn_valid = False, rn_last_uop = False,
      rn_rob_id = 0, rn_rob_id_stage = False, rn_pc = 0, rn_imm = 0, rn_has_exception = False,
      rn_exception_id = instruction_address_misaligned, rn_exception_value = 0,
      rn_branch_predictor_info_pack = branch_predictor_info_pack_make,
      rn_rs1 = 0, rn_arg1_src = Arg_reg, rn_rs1_need_map = False, rn_rs1_phy = 0,
      rn_rs2 = 0, rn_arg2_src = Arg_reg, rn_rs2_need_map = False, rn_rs2_phy = 0,
      rn_rd = 0, rn_rd_enable = False, rn_need_rename = False, rn_rd_phy = 0,
      rn_csr = 0, rn_store_buffer_id = 0, rn_load_queue_id = 0,
      rn_op = Op_add, rn_op_unit = Cunit_alu, rn_sub_op = Csub_alu Alu_add\<rparr>"

type_synonym uop = "branch_predictor_info_pack_t decode_rename_pack_t"
type_synonym rename_dispatch_pack_t = "rename_dispatch_op_info_t list"

record rename_feedback_pack_t =
  rf_idle :: bool

record rename =
  ren_fifo :: "uop fifo"
  ren_port :: "rename_dispatch_pack_t port"
  ren_rat :: rat
  ren_rob :: rob
  ren_free :: free_list
  ren_checkpoint :: "checkpoint_t fifo"
  ren_load_queue :: load_queue
  ren_store_buffer :: store_buffer

subsection \<open>Which operations may be renamed together\<close>

text \<open>
  The tests before an operation leaves the queue: \<open>None\<close> is the \<^verbatim>\<open>break\<close>, otherwise the new values of
  \<^verbatim>\<open>ready_to_stop_rename\<close> and \<^verbatim>\<open>found_fence\<close>. A CSR access or \<^verbatim>\<open>mret\<close> goes alone, and memory operations
  wait behind a fence of the same group.
\<close>

definition rename_gate :: "nat \<Rightarrow> uop \<Rightarrow> bool \<Rightarrow> bool \<Rightarrow> rename \<Rightarrow> (bool \<times> bool) option" where
  "rename_gate i rev_pack ready found_fence s =
     (if d_enable rev_pack \<and> d_valid rev_pack \<and> \<not> d_has_exception rev_pack then
        (if d_op_unit rev_pack = Cunit_csr \<or> d_op rev_pack = Op_mret
         then (if i = 0 then Some (True, found_fence) else None)
         else if d_op rev_pack = Op_fence then Some (ready, True)
         else if found_fence \<and> (d_op_unit rev_pack = Cunit_lu \<or> d_op_unit rev_pack = Cunit_sau \<or> d_op_unit rev_pack = Cunit_sdu)
         then None
         else if d_op_unit rev_pack = Cunit_lu
         then (if producer_is_full (lq_fifo (ren_load_queue s)) then None else Some (ready, found_fence))
         else if d_op_unit rev_pack = Cunit_sdu
         then (if producer_is_full (sb_fifo (ren_store_buffer s)) then None else Some (ready, found_fence))
         else Some (ready, found_fence))
      else Some (ready, found_fence))"

subsection \<open>One operation\<close>

definition rename_copy :: "uop \<Rightarrow> rename_dispatch_op_info_t" where
  "rename_copy rev_pack =
     rename_dispatch_op_info_make
       \<lparr>rn_inst_common_info := d_inst_common_info rev_pack, rn_enable := d_enable rev_pack, rn_value := d_value rev_pack,
        rn_valid := d_valid rev_pack, rn_last_uop := d_last_uop rev_pack, rn_pc := d_pc rev_pack, rn_imm := d_imm rev_pack,
        rn_has_exception := d_has_exception rev_pack, rn_exception_id := d_exception_id rev_pack,
        rn_exception_value := d_exception_value rev_pack,
        rn_branch_predictor_info_pack := d_branch_predictor_info_pack rev_pack,
        rn_rs1 := d_rs1 rev_pack, rn_arg1_src := d_arg1_src rev_pack, rn_rs1_need_map := d_rs1_need_map rev_pack,
        rn_rs2 := d_rs2 rev_pack, rn_arg2_src := d_arg2_src rev_pack, rn_rs2_need_map := d_rs2_need_map rev_pack,
        rn_rd := d_rd rev_pack, rn_rd_enable := d_rd_enable rev_pack, rn_need_rename := d_need_rename rev_pack,
        rn_csr := d_csr rev_pack, rn_op := d_op rev_pack, rn_op_unit := d_op_unit rev_pack, rn_sub_op := d_sub_op rev_pack\<rparr>"

text \<open>\<^verbatim>\<open>verify(speculative_rat->producer_get_phy_id(...))\<close>\<close>

definition rename_lookup :: "rat \<Rightarrow> u32 \<Rightarrow> nat option" where
  "rename_lookup r a = do { (ret, phy_id) \<leftarrow> producer_get_phy_id r (unat a) 0; verify ret; Some phy_id }"

definition rename_source :: "bool \<Rightarrow> u32 \<Rightarrow> rat \<Rightarrow> nat option" where
  "rename_source need_map rs r = (if need_map then rename_lookup r rs else Some 0)"

text \<open>
  The destination: the fields \<^verbatim>\<open>old_phy_reg_id_valid\<close> and \<^verbatim>\<open>old_phy_reg_id\<close> of the reorder buffer item
  and \<^verbatim>\<open>rd_phy\<close>, with the alias table and the free list after the allocation.
\<close>

definition rename_dest :: "uop \<Rightarrow> rat \<Rightarrow> free_list \<Rightarrow> (bool \<times> nat \<times> nat \<times> rat \<times> free_list) option" where
  "rename_dest rev_pack r fl =
     (if d_valid rev_pack \<and> d_need_rename rev_pack then
        do {
          old_phy_reg_id \<leftarrow> rename_lookup r (d_rd rev_pack);
          (x, fl') \<leftarrow> free_list_pop fl;
          rd_phy \<leftarrow> x;
          (_, r') \<leftarrow> set_map (unat (d_rd rev_pack)) rd_phy r;
          Some (True, old_phy_reg_id, rd_phy, r', fl')
        }
      else Some (False, 0, 0, r, fl))"

definition rename_rob_item :: "uop \<Rightarrow> bool \<Rightarrow> nat \<Rightarrow> nat \<Rightarrow> nat \<times> bool \<Rightarrow> nat \<times> bool \<Rightarrow> rob_item_t" where
  "rename_rob_item rev_pack old_valid old_id rd_phy old_rptr new_rptr =
     rob_item_make
       \<lparr>ri_old_phy_id_free_list_rptr := fst old_rptr, ri_old_phy_id_free_list_rstage := snd old_rptr,
        ri_inst_common_info := d_inst_common_info rev_pack,
        ri_old_phy_reg_id_valid := old_valid, ri_old_phy_reg_id := old_id,
        ri_finish := False, ri_new_phy_reg_id := rd_phy, ri_pc := d_pc rev_pack, ri_inst_value := d_value rev_pack,
        ri_last_uop := d_last_uop rev_pack, ri_rd := d_rd rev_pack, ri_has_exception := d_has_exception rev_pack,
        ri_exception_id := d_exception_id rev_pack, ri_exception_value := d_exception_value rev_pack,
        ri_bru_op := (d_op_unit rev_pack = Cunit_bru), ri_bru_jump := False, ri_bru_next_pc := 0,
        ri_is_mret := (d_op rev_pack = Op_mret), ri_csr_addr := d_csr rev_pack, ri_csr_newvalue := 0,
        ri_csr_newvalue_valid := False,
        ri_new_phy_id_free_list_rptr := fst new_rptr, ri_new_phy_id_free_list_rstage := snd new_rptr\<rparr>"

text \<open>
  A load takes a slot of the load queue, the data part of a store one of the store buffer. The
  slot is entered into the reorder buffer item and into the pack for dispatch.
\<close>

definition rename_load :: "rename_dispatch_op_info_t \<Rightarrow> rob_item_t \<Rightarrow> load_queue \<Rightarrow>
    (rename_dispatch_op_info_t \<times> rob_item_t \<times> load_queue) option" where
  "rename_load info item q =
     do {
       let w = producer_get_wptr (lq_fifo q);
       let (ok, f) = fifo_push load_queue_item_make (lq_fifo q);
       verify ok;
       q' \<leftarrow> lq_clear_replay_num w (q\<lparr>lq_fifo := f\<rparr>);
       Some (info\<lparr>rn_load_queue_id := w\<rparr>, item\<lparr>ri_load_queue_id_valid := True, ri_load_queue_id := w\<rparr>, q')
     }"

definition rename_store :: "rename_dispatch_op_info_t \<Rightarrow> rob_item_t \<Rightarrow> store_buffer \<Rightarrow>
    (rename_dispatch_op_info_t \<times> rob_item_t \<times> store_buffer) option" where
  "rename_store info item b =
     do {
       let w = producer_get_wptr (sb_fifo b);
       let (ok, f) = fifo_push (store_buffer_item_make\<lparr>sb_inst_common_info := rn_inst_common_info info,
                                  sb_rob_id := rn_rob_id info, sb_rob_id_stage := rn_rob_id_stage info\<rparr>) (sb_fifo b);
       verify ok;
       t \<leftarrow> producer_get_tail_id f;
       b' \<leftarrow> sb_write_addr t 0 0 False (b\<lparr>sb_fifo := f\<rparr>);
       Some (info\<lparr>rn_store_buffer_id := t\<rparr>, item\<lparr>ri_store_buffer_id_valid := True, ri_store_buffer_id := w\<rparr>, b')
     }"

definition rename_lsq :: "uop \<Rightarrow> rename_dispatch_op_info_t \<Rightarrow> rob_item_t \<Rightarrow> rename \<Rightarrow>
    (rename_dispatch_op_info_t \<times> rob_item_t \<times> rename) option" where
  "rename_lsq rev_pack info item s =
     (if d_enable rev_pack \<and> d_valid rev_pack \<and> \<not> d_has_exception rev_pack then
        (if d_op_unit rev_pack = Cunit_lu then
           do {
             (info', item', q) \<leftarrow> rename_load info item (ren_load_queue s);
             Some (info', item', s\<lparr>ren_load_queue := q\<rparr>)
           }
         else if d_op_unit rev_pack = Cunit_sdu then
           do {
             (info', item', b) \<leftarrow> rename_store info item (ren_store_buffer s);
             Some (info', item', s\<lparr>ren_store_buffer := b\<rparr>)
           }
         else Some (info, item, s))
      else Some (info, item, s))"

text \<open>
  A predicted branch and a load get a checkpoint when there is room. The return value of
  \<^verbatim>\<open>producer_get_tail_id_stage\<close> is not looked at: on an empty buffer the fields keep their initial values.
  \<open>s0\<close> is the state before the queues were touched. The valid bits of a new checkpoint are not
  initialised in the code; the save overwrites all of them.
\<close>

definition checkpoint_make :: checkpoint_t where
  "checkpoint_make =
     \<lparr>cp_phy_map_table_valid = replicate PHY_REG_NUM False,
      cp_old_phy_id_free_list_rptr = 0, cp_old_phy_id_free_list_rstage = False,
      cp_new_phy_id_free_list_rptr = 0, cp_new_phy_id_free_list_rstage = False,
      cp_old_checkpoint_buffer_wptr = 0, cp_old_checkpoint_buffer_wstage = False,
      cp_new_checkpoint_buffer_wptr = 0, cp_new_checkpoint_buffer_wstage = False,
      cp_old_load_queue_wptr = 0, cp_old_load_queue_wstage = False,
      cp_old_store_buffer_wptr = 0, cp_old_store_buffer_wstage = False\<rparr>"

definition rename_checkpoint_item :: "rob_item_t \<Rightarrow> rename \<Rightarrow> rename \<Rightarrow> checkpoint_t \<Rightarrow> checkpoint_t" where
  "rename_checkpoint_item item s0 s cp =
     (let f = ren_checkpoint s;
          next_ptr = static_get_next_id_stage f (producer_get_wptr f) (producer_get_wstage f);
          tail = (case producer_get_tail_id_stage f of
                    Some t \<Rightarrow> t
                  | None \<Rightarrow> (cp_old_checkpoint_buffer_wptr cp, cp_old_checkpoint_buffer_wstage cp))
      in cp\<lparr>cp_old_phy_id_free_list_rptr := ri_old_phy_id_free_list_rptr item,
            cp_old_phy_id_free_list_rstage := ri_old_phy_id_free_list_rstage item,
            cp_new_phy_id_free_list_rptr := ri_new_phy_id_free_list_rptr item,
            cp_new_phy_id_free_list_rstage := ri_new_phy_id_free_list_rstage item,
            cp_old_checkpoint_buffer_wptr := fst tail, cp_old_checkpoint_buffer_wstage := snd tail,
            cp_new_checkpoint_buffer_wptr := fst next_ptr, cp_new_checkpoint_buffer_wstage := snd next_ptr,
            cp_old_load_queue_wptr := producer_get_wptr (lq_fifo (ren_load_queue s0)),
            cp_old_load_queue_wstage := producer_get_wstage (lq_fifo (ren_load_queue s0)),
            cp_old_store_buffer_wptr := producer_get_wptr (sb_fifo (ren_store_buffer s0)),
            cp_old_store_buffer_wstage := producer_get_wstage (sb_fifo (ren_store_buffer s0))\<rparr>)"

definition rename_checkpoint :: "uop \<Rightarrow> rename_dispatch_op_info_t \<Rightarrow> rob_item_t \<Rightarrow> rename \<Rightarrow> rename \<Rightarrow>
    (rename_dispatch_op_info_t \<times> rename) option" where
  "rename_checkpoint rev_pack info item s0 s =
     (if d_enable rev_pack \<and> d_valid rev_pack \<and>
         (bp_predicted (d_branch_predictor_info_pack rev_pack) \<or> d_op_unit rev_pack = Cunit_lu) \<and>
         \<not> producer_is_full (ren_checkpoint s)
      then do {
        cp \<leftarrow> producer_save_to_checkpoint (ren_rat s) checkpoint_make;
        let (ok, f) = fifo_push (rename_checkpoint_item item s0 s cp) (ren_checkpoint s);
        verify ok;
        t \<leftarrow> producer_get_tail_id f;
        Some (info\<lparr>rn_branch_predictor_info_pack := (rn_branch_predictor_info_pack info)
                     \<lparr>bp_checkpoint_id_valid := True, bp_checkpoint_id := t\<rparr>\<rparr>, s\<lparr>ren_checkpoint := f\<rparr>)
      }
      else Some (info, s))"

definition rename_one :: "uop \<Rightarrow> rename \<Rightarrow> (rename_dispatch_op_info_t \<times> rename) option" where
  "rename_one rev_pack s =
     (if d_enable rev_pack then
        do {
          rs1_phy \<leftarrow> rename_source (d_rs1_need_map rev_pack) (d_rs1 rev_pack) (ren_rat s);
          rs2_phy \<leftarrow> rename_source (d_rs2_need_map rev_pack) (d_rs2 rev_pack) (ren_rat s);
          (old_valid, old_id, rd_phy, r, fl) \<leftarrow> rename_dest rev_pack (ren_rat s) (ren_free s);
          rob_id \<leftarrow> get_new_id (ren_rob s);
          rob_id_stage \<leftarrow> get_new_id_stage (ren_rob s);
          let s1 = s\<lparr>ren_rat := r, ren_free := fl\<rparr>;
          let info = (rename_copy rev_pack)\<lparr>rn_rs1_phy := rs1_phy, rn_rs2_phy := rs2_phy, rn_rd_phy := rd_phy,
                       rn_rob_id := rob_id, rn_rob_id_stage := rob_id_stage\<rparr>;
          let item = rename_rob_item rev_pack old_valid old_id rd_phy (free_list_save (ren_free s)) (free_list_save fl);
          (info', item', s2) \<leftarrow> rename_lsq rev_pack info item s1;
          let (ok, b) = rob_push item' (ren_rob s2);
          verify ok;
          rename_checkpoint rev_pack info' item' s1 (s2\<lparr>ren_rob := b\<rparr>)
        }
      else Some (rename_copy rev_pack, s))"

subsection \<open>The loop of a cycle\<close>

fun rename_loop :: "nat \<Rightarrow> nat \<Rightarrow> bool \<Rightarrow> bool \<Rightarrow> rename \<Rightarrow> (rename_dispatch_op_info_t list \<times> rename) option" where
  "rename_loop 0 i ready found_fence s = Some ([], s)"
| "rename_loop (Suc n) i ready found_fence s =
     (if \<not> customer_is_empty (ren_fifo s) \<and> \<not> producer_is_empty (fl_fifo (ren_free s)) \<and>
         \<not> producer_is_full (rob_fifo (ren_rob s))
      then do {
        front \<leftarrow> customer_get_front (ren_fifo s);
        case rename_gate i front ready found_fence s of
          None \<Rightarrow> Some ([], s)
        | Some (ready', found_fence') \<Rightarrow>
            do {
              let (x, f) = fifo_pop (ren_fifo s);
              rev_pack \<leftarrow> x;
              (info, s') \<leftarrow> rename_one rev_pack (s\<lparr>ren_fifo := f\<rparr>);
              if ready' then Some ([info], s')
              else do {
                (infos, s'') \<leftarrow> rename_loop n (i + 1) ready' found_fence' s';
                Some (info # infos, s'')
              }
            }
      }
      else Some ([], s))"

definition rename_pad :: "rename_dispatch_op_info_t list \<Rightarrow> rename_dispatch_pack_t" where
  "rename_pad infos = infos @ replicate (RENAME_WIDTH - length infos) rename_dispatch_op_info_make"

text \<open>The assertions at the end of \<^verbatim>\<open>run\<close>.\<close>

definition rename_live :: "rename_dispatch_op_info_t \<Rightarrow> bool" where
  "rename_live info \<longleftrightarrow> rn_enable info \<and> rn_valid info \<and> \<not> rn_has_exception info"

fun rename_assert_fence :: "nat \<Rightarrow> bool \<Rightarrow> rename_dispatch_op_info_t list \<Rightarrow> bool" where
  "rename_assert_fence i found_fence [] = True"
| "rename_assert_fence i found_fence (info # infos) =
     (if rename_live info
      then (i = 0 \<or> rn_op_unit info \<noteq> Cunit_csr) \<and>
           (\<not> found_fence \<or> rn_op_unit info \<noteq> Cunit_lu \<and> rn_op_unit info \<noteq> Cunit_sau \<and> rn_op_unit info \<noteq> Cunit_sdu) \<and>
           rename_assert_fence (i + 1) (found_fence \<or> rn_op info = Op_fence) infos
      else rename_assert_fence (i + 1) found_fence infos)"

definition rename_assert :: "rename_dispatch_pack_t \<Rightarrow> bool" where
  "rename_assert infos \<longleftrightarrow>
     (rename_live (infos ! 0) \<and> rn_op_unit (infos ! 0) = Cunit_csr \<longrightarrow> list_all (\<lambda>x. \<not> rn_enable x) (tl infos)) \<and>
     rename_assert_fence 0 False infos"

definition rename_run :: "bool \<Rightarrow> bru_feedback_pack_t \<Rightarrow> sau_feedback_pack_t \<Rightarrow> commit_feedback_pack_t \<Rightarrow> rename \<Rightarrow>
    (rename_feedback_pack_t \<times> rename) option" where
  "rename_run stall bru sau commit s =
     do {
       let feedback = \<lparr>rf_idle = customer_is_empty (ren_fifo s)\<rparr>;
       (send_pack, s') \<leftarrow>
         (if \<not> cf_flush commit \<and> \<not> bru_flush bru \<and> \<not> sau_flush sau then
            (if \<not> stall then
               do {
                 (infos, s1) \<leftarrow> (if \<not> cf_waiting_for_interrupt commit then rename_loop RENAME_WIDTH 0 False False s
                                  else Some ([], s));
                 Some (rename_pad infos, s1\<lparr>ren_port := port_set (rename_pad infos) (ren_port s1)\<rparr>)
               }
             else Some (rename_pad [], s))
          else Some (rename_pad [], s\<lparr>ren_port := port_set (rename_pad []) (ren_port s)\<rparr>));
       verify (rename_assert send_pack);
       Some (feedback, s')
     }"

subsection \<open>Where every physical register is\<close>

text \<open>
  The registers that the reorder buffer will free: those replaced by instructions in flight. A
  state of the machine keeps every physical register in exactly one place.
\<close>

definition rob_olds :: "rob_item_t list \<Rightarrow> nat list" where
  "rob_olds items = map ri_old_phy_reg_id (filter ri_old_phy_reg_id_valid items)"

definition regs_partition :: "(nat \<rightharpoonup> nat) \<Rightarrow> nat list \<Rightarrow> nat list \<Rightarrow> bool" where
  "regs_partition m free olds \<longleftrightarrow>
     distinct (free @ olds) \<and> (set free \<union> set olds) \<inter> ran m = {} \<and>
     set free \<union> set olds \<union> ran m = {0..<PHY_REG_NUM}"

lemma rob_olds_simps [simp]:
  "rob_olds [] = []" "rob_olds (a @ b) = rob_olds a @ rob_olds b"
  "rob_olds (x # xs) = (if ri_old_phy_reg_id_valid x then [ri_old_phy_reg_id x] else []) @ rob_olds xs"
  by (simp_all add: rob_olds_def)

lemma partition_allocate:
  assumes "regs_partition m (d # free) olds" and "m a = Some old" and "ran (m(a \<mapsto> d)) = insert d (ran m - {old})"
  shows "regs_partition (m(a \<mapsto> d)) free (olds @ [old])"
proof -
  have "old \<in> ran m" using assms(2) by (rule ranI)
  then show ?thesis using assms(1) unfolding regs_partition_def assms(3) by auto
qed

text \<open>
  With 31 registers mapped and at most \<^verbatim>\<open>ROB_SIZE\<close> waiting, at least 33 are free, so that rename
  never runs out of them, whatever the free list says of itself.
\<close>

lemma partition_free:
  assumes "regs_partition m free olds" and "dom m = {0<..<ARCH_REG_NUM}" and "length olds \<le> ROB_SIZE"
  shows "33 \<le> length free"
proof -
  have "ran m = (\<lambda>a. the (m a)) ` dom m" by (auto simp: ran_def dom_def image_def)
  then have "card (ran m) \<le> card (dom m)" by (metis assms(2) card_image_le finite_greaterThanLessThan)
  then have r: "card (ran m) \<le> 31" using assms(2) by (simp add: config_defs)
  have "set (free @ olds) \<union> ran m = {0..<PHY_REG_NUM}" "set (free @ olds) \<inter> ran m = {}"
    using assms(1) by (auto simp: regs_partition_def)
  then have "card (set (free @ olds)) + card (ran m) = PHY_REG_NUM"
    by (metis card_Un_disjoint card_atLeastLessThan diff_zero finite_Un finite_atLeastLessThan)
  moreover have "card (set (free @ olds)) = length free + length olds"
    using assms(1) by (metis distinct_card length_append regs_partition_def)
  ultimately show ?thesis using r assms(3) by (simp add: config_defs)
qed

definition lsq_ok :: "rename \<Rightarrow> bool" where
  "lsq_ok s \<longleftrightarrow>
     fifo_inv (ren_checkpoint s) \<and> fifo_inv (lq_fifo (ren_load_queue s)) \<and> fifo_inv (sb_fifo (ren_store_buffer s)) \<and>
     length (lq_replay_num (ren_load_queue s)) = fsize (lq_fifo (ren_load_queue s)) \<and>
     length (sb_item_addr (ren_store_buffer s)) = fsize (sb_fifo (ren_store_buffer s))"

definition regs_ok :: "rename \<Rightarrow> bool" where
  "regs_ok s \<longleftrightarrow>
     free_list_inv (ren_free s) \<and> fsize (fl_fifo (ren_free s)) = PHY_REG_NUM \<and>
     length (free_regs (ren_free s)) \<le> length (fifo_avail (fl_fifo (ren_free s))) + COMMIT_WIDTH \<and>
     fifo_inv (rob_fifo (ren_rob s)) \<and> fsize (rob_fifo (ren_rob s)) = ROB_SIZE \<and>
     rat_inv (ren_rat s) \<and> phy_reg_num (ren_rat s) = PHY_REG_NUM \<and> arch_reg_num (ren_rat s) = ARCH_REG_NUM \<and>
     dom (rat_abs (ren_rat s)) = {0<..<ARCH_REG_NUM} \<and>
     regs_partition (rat_abs (ren_rat s)) (free_regs (ren_free s)) (rob_olds (fifo_next (rob_fifo (ren_rob s))))"

text \<open>
  What decode guarantees of an operation: it is enabled, the registers to be mapped exist and are
  not \<open>x0\<close>, and neither a fence nor \<^verbatim>\<open>mret\<close> is a memory operation.
\<close>

definition uop_ok :: "uop \<Rightarrow> bool" where
  "uop_ok p \<longleftrightarrow>
     d_enable p \<and> (d_op p = Op_fence \<or> d_op p = Op_mret \<longrightarrow> d_op_unit p \<notin> {Cunit_lu, Cunit_sau, Cunit_sdu}) \<and>
     (d_rs1_need_map p \<longrightarrow> 0 < unat (d_rs1 p) \<and> unat (d_rs1 p) < ARCH_REG_NUM) \<and>
     (d_rs2_need_map p \<longrightarrow> 0 < unat (d_rs2 p) \<and> unat (d_rs2 p) < ARCH_REG_NUM) \<and>
     (d_need_rename p \<longrightarrow> 0 < unat (d_rd p) \<and> unat (d_rd p) < ARCH_REG_NUM)"

text \<open>
  The specification of renaming, over the map and the list of free registers: the source
  registers, the new register of the destination and the one it replaces.
\<close>

definition spec_source :: "bool \<Rightarrow> u32 \<Rightarrow> (nat \<rightharpoonup> nat) \<Rightarrow> nat" where
  "spec_source need rs m = (if need then the (m (unat rs)) else 0)"

fun rename_spec :: "uop \<Rightarrow> (nat \<rightharpoonup> nat) \<times> nat list \<Rightarrow>
    (nat \<times> nat \<times> nat \<times> nat option) \<times> (nat \<rightharpoonup> nat) \<times> nat list" where
  "rename_spec p (m, free) =
     (let s1 = spec_source (d_rs1_need_map p) (d_rs1 p) m; s2 = spec_source (d_rs2_need_map p) (d_rs2 p) m in
      if d_valid p \<and> d_need_rename p
      then ((s1, s2, hd free, m (unat (d_rd p))), m(unat (d_rd p) \<mapsto> hd free), tl free)
      else ((s1, s2, 0, None), m, free))"

fun rename_specs :: "uop list \<Rightarrow> (nat \<rightharpoonup> nat) \<times> nat list \<Rightarrow>
    (nat \<times> nat \<times> nat \<times> nat option) list \<times> (nat \<rightharpoonup> nat) \<times> nat list" where
  "rename_specs [] st = ([], st)"
| "rename_specs (p # ps) st =
     (let (out, st1) = rename_spec p st; (outs, st2) = rename_specs ps st1 in (out # outs, st2))"

declare rename_spec.simps [simp del]

text \<open>
  The pack for dispatch and the reorder buffer item of an operation, against the specification:
  \<open>w\<close> is the reorder buffer slot.
\<close>

definition renamed_as :: "nat \<Rightarrow> uop \<Rightarrow> nat \<times> nat \<times> nat \<times> nat option \<Rightarrow> rename_dispatch_op_info_t \<Rightarrow> rob_item_t \<Rightarrow> bool" where
  "renamed_as w p out info item \<longleftrightarrow>
     rn_enable info = d_enable p \<and> rn_valid info = d_valid p \<and> rn_has_exception info = d_has_exception p \<and>
     rn_op info = d_op p \<and> rn_op_unit info = d_op_unit p \<and> rn_pc info = d_pc p \<and> rn_rob_id info = w \<and>
     ri_pc item = d_pc p \<and> ri_rd item = d_rd p \<and> ri_new_phy_reg_id item = rn_rd_phy info \<and>
     (rn_rs1_phy info, rn_rs2_phy info, rn_rd_phy info,
      if ri_old_phy_reg_id_valid item then Some (ri_old_phy_reg_id item) else None) = out"

fun renamed_all :: "nat \<Rightarrow> uop list \<Rightarrow> (nat \<times> nat \<times> nat \<times> nat option) list \<Rightarrow> rename_dispatch_op_info_t list \<Rightarrow>
    rob_item_t list \<Rightarrow> bool" where
  "renamed_all w [] [] [] [] = True"
| "renamed_all w (p # ps) (out # outs) (info # infos) (item # items) =
     (renamed_as w p out info item \<and> renamed_all ((w + 1) mod ROB_SIZE) ps outs infos items)"
| "renamed_all w ps outs infos items = False"

lemma rename_lookup_abs:
  assumes "rat_inv r" and "0 < unat a" and "unat a < arch_reg_num r" and "rat_abs r (unat a) = Some q"
  shows "rename_lookup r a = Some q"
  using producer_get_phy_id_abs[OF assms(1-3), of 0] assms(4) by (simp add: rename_lookup_def)

lemma mapped_reg:
  assumes "regs_ok s" and "0 < a" and "a < ARCH_REG_NUM"
  obtains q where "rat_abs (ren_rat s) a = Some q"
proof -
  have "a \<in> dom (rat_abs (ren_rat s))" using assms by (simp add: regs_ok_def)
  then show thesis using that by blast
qed

lemma rename_source_spec:
  assumes "regs_ok s" and "need \<Longrightarrow> 0 < unat a \<and> unat a < ARCH_REG_NUM"
  shows "rename_source need a (ren_rat s) = Some (spec_source need a (rat_abs (ren_rat s)))"
proof (cases need)
  case True
  then have a: "0 < unat a" "unat a < ARCH_REG_NUM" using assms(2) by auto
  then obtain q where "rat_abs (ren_rat s) (unat a) = Some q" using mapped_reg[OF assms(1)] by blast
  moreover have "rat_inv (ren_rat s)" "arch_reg_num (ren_rat s) = ARCH_REG_NUM" using assms(1) by (simp_all add: regs_ok_def)
  ultimately show ?thesis using rename_lookup_abs[of "ren_rat s" a q] a True
    by (simp add: rename_source_def spec_source_def)
qed (simp add: rename_source_def spec_source_def)

text \<open>The allocation of a destination.\<close>

lemma rename_dest_spec:
  assumes ok: "regs_ok s" and "d_need_rename p \<Longrightarrow> 0 < unat (d_rd p) \<and> unat (d_rd p) < ARCH_REG_NUM"
  obtains old_id r fl where
    "rename_dest p (ren_rat s) (ren_free s) =
       Some (d_valid p \<and> d_need_rename p, old_id, fst (snd (snd (fst (rename_spec p (rat_abs (ren_rat s), free_regs (ren_free s)))))), r, fl)"
    "(if d_valid p \<and> d_need_rename p then Some old_id else None) =
       snd (snd (snd (fst (rename_spec p (rat_abs (ren_rat s), free_regs (ren_free s))))))"
    "(rat_abs r, free_regs fl) = snd (rename_spec p (rat_abs (ren_rat s), free_regs (ren_free s)))"
    "\<And>b item. fifo_inv (rob_fifo b) \<Longrightarrow> fsize (rob_fifo b) = ROB_SIZE \<Longrightarrow>
       fifo_next (rob_fifo b) = fifo_next (rob_fifo (ren_rob s)) @ [item] \<Longrightarrow>
       ri_old_phy_reg_id_valid item = (d_valid p \<and> d_need_rename p) \<Longrightarrow> ri_old_phy_reg_id item = old_id \<Longrightarrow>
       regs_ok (s\<lparr>ren_rat := r, ren_free := fl, ren_rob := b\<rparr>)"
proof (cases "d_valid p \<and> d_need_rename p")
  case False
  show thesis
    by (rule that[of 0 "ren_rat s" "ren_free s"]) (use False ok in \<open>auto simp: rename_dest_def rename_spec.simps Let_def regs_ok_def\<close>)
next
  case True
  let ?r = "ren_rat s" and ?fl = "ren_free s" and ?a = "unat (d_rd p)"
  let ?olds = "rob_olds (fifo_next (rob_fifo (ren_rob s)))"
  have i: "rat_inv ?r" "free_list_inv ?fl" "phy_reg_num ?r = PHY_REG_NUM" "arch_reg_num ?r = ARCH_REG_NUM"
    "dom (rat_abs ?r) = {0<..<ARCH_REG_NUM}" "regs_partition (rat_abs ?r) (free_regs ?fl) ?olds"
    "length (free_regs ?fl) \<le> length (fifo_avail (fl_fifo ?fl)) + COMMIT_WIDTH" "fsize (fl_fifo ?fl) = PHY_REG_NUM"
    using ok by (simp_all add: regs_ok_def)
  have a: "0 < ?a" "?a < ARCH_REG_NUM" using assms(2) True by auto
  obtain old where old: "rat_abs ?r ?a = Some old" using mapped_reg[OF ok a] .
  have look: "rename_lookup ?r (d_rd p) = Some old" using rename_lookup_abs[OF i(1)] a i(4) old by simp
  have "length ?olds \<le> length (fifo_next (rob_fifo (ren_rob s)))" by (simp add: rob_olds_def)
  also have "\<dots> \<le> ROB_SIZE" using ok fifo_next_length[of "rob_fifo (ren_rob s)"] by (simp add: regs_ok_def)
  finally have "33 \<le> length (free_regs ?fl)" using partition_free[OF i(6,5)] by simp
  then have "fifo_avail (fl_fifo ?fl) \<noteq> []" using i(7) by (auto simp: config_defs)
  then obtain d fl where pop: "free_list_pop ?fl = Some (Some d, fl)" "free_list_inv fl" "free_regs ?fl = d # free_regs fl"
      "fifo_pop (fl_fifo ?fl) = (Some d, fl_fifo fl)"
    using free_list_pop_abs[OF i(2)] by (auto split: option.splits)
  have d: "d \<notin> ran (rat_abs ?r)" "d < PHY_REG_NUM" using i(6) pop(3) by (auto simp: regs_partition_def)
  have lg: "rat_legal ?r ?a d" using d old i(3) by (simp add: rat_legal_def)
  obtain r where r: "set_map ?a d ?r = Some (old, r)" "rat_inv r" "rat_abs r = (rat_abs ?r)(?a \<mapsto> d)" "remapped ?a d ?r r"
    using set_map_law[OF i(1) lg d(1)] old by auto
  have ran: "ran (rat_abs r) = insert d (ran (rat_abs ?r) - {old})"
    using rm.upd_ran[OF i(1) old d(1)] r(3) by simp
  have part: "regs_partition (rat_abs r) (free_regs fl) (?olds @ [old])"
    unfolding r(3) by (rule partition_allocate) (use i(6) pop(3) old ran r(3) in simp_all)
  have av: "length (free_regs fl) \<le> length (fifo_avail (fl_fifo fl)) + COMMIT_WIDTH" "fsize (fl_fifo fl) = PHY_REG_NUM"
    using i(2,7,8) pop(3) fifo_pop_abs(3,4)[OF _ pop(4)] \<open>fifo_avail (fl_fifo ?fl) \<noteq> []\<close>
    by (auto simp: free_list_inv_def fifo_settled_def)
  have keep: "phy_reg_num r = PHY_REG_NUM" "arch_reg_num r = ARCH_REG_NUM" "dom (rat_abs r) = {0<..<ARCH_REG_NUM}"
    using r(3,4) i(3,4,5) a by (auto simp: remapped_def)
  show thesis
  proof (rule that[of old r fl])
    show "rename_dest p ?r ?fl = Some (d_valid p \<and> d_need_rename p, old,
        fst (snd (snd (fst (rename_spec p (rat_abs ?r, free_regs ?fl))))), r, fl)"
      using True look pop(1,3) r(1) by (simp add: rename_dest_def rename_spec.simps Let_def)
    show "regs_ok (s\<lparr>ren_rat := r, ren_free := fl, ren_rob := b\<rparr>)"
      if "fifo_inv (rob_fifo b)" "fsize (rob_fifo b) = ROB_SIZE"
        "fifo_next (rob_fifo b) = fifo_next (rob_fifo (ren_rob s)) @ [item]"
        "ri_old_phy_reg_id_valid item = (d_valid p \<and> d_need_rename p)" "ri_old_phy_reg_id item = old" for b item
      using that True part av keep r(2) pop(2) by (simp add: regs_ok_def)
  qed (use True old pop(3) r(3) in \<open>simp_all add: rename_spec.simps Let_def\<close>)
qed

text \<open>The queues take their entries, and leave everything else alone.\<close>

lemma wptr_less: "fifo_inv f \<Longrightarrow> producer_get_wptr f < fsize f"
  by (simp add: fifo_inv_def producer_get_wptr_def pos_defs)

lemma push_not_full:
  assumes "fifo_inv f" and "\<not> producer_is_full f"
  obtains f' where "fifo_push x f = (True, f')" "fifo_inv f'" "fsize f' = fsize f" "fifo_next f' = fifo_next f @ [x]"
    "producer_get_tail_id f' = Some (producer_get_wptr f)"
proof -
  obtain ok f' where p: "fifo_push x f = (ok, f')" by fastforce
  have ok: "ok" using push_free_space(1)[OF assms(1) p] producer_is_full_free[OF assms(1)] assms(2) by simp
  obtain rc rn wc wn where w: "fifo_window f rc rn wc wn" using assms(1) by (rule fifo_windowE)
  have lt: "wn < rc + fsize f" using assms(2) window_flags(1)[OF w] w by (auto simp: fifo_window_def)
  have f': "f' = fifo_advance_wptr (fifo_write_slot (wn mod fsize f) x f)"
    using p lt by (simp add: fifo_push_window[OF w])
  have w': "fifo_window f' rc rn wc (Suc wn)" unfolding f' by (rule window_advance_wptr[OF w lt])
  have sz: "fsize f' = fsize f" "0 < fsize f" using fifo_push_abs(3)[OF assms(1) p] w by (auto simp: fifo_window_def)
  have ptr: "dff_get_new (wptr f') = Suc wn mod fsize f" "producer_get_wptr f = wn mod fsize f"
    using w' w sz by (simp_all add: fifo_window_def pos_defs ring_at_def producer_get_wptr_def)
  have "(Suc wn mod fsize f + fsize f - 1) mod fsize f = wn mod fsize f"
    using sz(2) mod_less_divisor[of "fsize f" wn] by (auto simp: mod_Suc)
  moreover have "\<not> producer_is_empty f'" using window_flags(2)[OF w'] w by (auto simp: fifo_window_def)
  ultimately have "producer_get_tail_id f' = Some (producer_get_wptr f)"
    using ptr sz by (simp add: producer_get_tail_id_def)
  then show thesis using that p ok fifo_push_abs(2,3,6)[OF assms(1) p] by simp
qed

lemma rename_load_ok:
  assumes "lsq_ok s" and "\<not> producer_is_full (lq_fifo (ren_load_queue s))"
  obtains x q where "rename_load info item (ren_load_queue s) =
      Some (info\<lparr>rn_load_queue_id := x\<rparr>, item\<lparr>ri_load_queue_id_valid := True, ri_load_queue_id := x\<rparr>, q)"
    "lsq_ok (s\<lparr>ren_load_queue := q\<rparr>)"
proof -
  let ?q = "ren_load_queue s"
  have i: "fifo_inv (lq_fifo ?q)" "length (lq_replay_num ?q) = fsize (lq_fifo ?q)" using assms(1) by (auto simp: lsq_ok_def)
  obtain f where f: "fifo_push load_queue_item_make (lq_fifo ?q) = (True, f)" "fifo_inv f" "fsize f = fsize (lq_fifo ?q)"
    using push_not_full[OF i(1) assms(2)] .
  let ?w = "producer_get_wptr (lq_fifo ?q)"
  let ?q' = "?q\<lparr>lq_fifo := f, lq_replay_num := (lq_replay_num ?q)[?w := dff_set 0 (lq_replay_num ?q ! ?w)]\<rparr>"
  show thesis
    by (rule that[of ?w ?q'])
      (use f i wptr_less[OF i(1)] assms(1) in \<open>simp_all add: rename_load_def lq_clear_replay_num_def lsq_ok_def Let_def\<close>)
qed

lemma rename_store_ok:
  assumes "lsq_ok s" and "\<not> producer_is_full (sb_fifo (ren_store_buffer s))"
  obtains x b where "rename_store info item (ren_store_buffer s) =
      Some (info\<lparr>rn_store_buffer_id := x\<rparr>, item\<lparr>ri_store_buffer_id_valid := True, ri_store_buffer_id := x\<rparr>, b)"
    "lsq_ok (s\<lparr>ren_store_buffer := b\<rparr>)"
proof -
  let ?b = "ren_store_buffer s"
  let ?x = "store_buffer_item_make\<lparr>sb_inst_common_info := rn_inst_common_info info, sb_rob_id := rn_rob_id info,
    sb_rob_id_stage := rn_rob_id_stage info\<rparr>"
  let ?w = "producer_get_wptr (sb_fifo ?b)"
  have i: "fifo_inv (sb_fifo ?b)" "length (sb_item_addr ?b) = fsize (sb_fifo ?b)" using assms(1) by (auto simp: lsq_ok_def)
  obtain f where f: "fifo_push ?x (sb_fifo ?b) = (True, f)" "fifo_inv f" "fsize f = fsize (sb_fifo ?b)"
      "producer_get_tail_id f = Some ?w"
    using push_not_full[OF i(1) assms(2)] .
  obtain b where b: "sb_write_addr ?w 0 0 False (?b\<lparr>sb_fifo := f\<rparr>) = Some b" "sb_fifo b = f"
      "length (sb_item_addr b) = fsize f"
    using i f(3) wptr_less[OF i(1)] by (simp add: sb_write_addr_def)
  show thesis
    by (rule that[of ?w b]) (use f b assms(1) in \<open>simp_all add: rename_store_def lsq_ok_def Let_def\<close>)
qed

text \<open>What the later steps of \<open>rename_one\<close> keep of the pack, of the item and of the state.\<close>

definition same_op :: "rename_dispatch_op_info_t \<Rightarrow> rename_dispatch_op_info_t \<Rightarrow> bool" where
  "same_op i j \<longleftrightarrow> rn_enable i = rn_enable j \<and> rn_valid i = rn_valid j \<and> rn_has_exception i = rn_has_exception j \<and>
     rn_op i = rn_op j \<and> rn_op_unit i = rn_op_unit j \<and> rn_pc i = rn_pc j \<and> rn_rob_id i = rn_rob_id j \<and>
     rn_rs1_phy i = rn_rs1_phy j \<and> rn_rs2_phy i = rn_rs2_phy j \<and> rn_rd_phy i = rn_rd_phy j"

definition same_item :: "rob_item_t \<Rightarrow> rob_item_t \<Rightarrow> bool" where
  "same_item i j \<longleftrightarrow> ri_pc i = ri_pc j \<and> ri_rd i = ri_rd j \<and> ri_new_phy_reg_id i = ri_new_phy_reg_id j \<and>
     ri_old_phy_reg_id_valid i = ri_old_phy_reg_id_valid j \<and> ri_old_phy_reg_id i = ri_old_phy_reg_id j"

definition same_core :: "rename \<Rightarrow> rename \<Rightarrow> bool" where
  "same_core s t \<longleftrightarrow> ren_fifo s = ren_fifo t \<and> ren_port s = ren_port t \<and> ren_rat s = ren_rat t \<and>
     ren_rob s = ren_rob t \<and> ren_free s = ren_free t"

definition lsq_room :: "uop \<Rightarrow> rename \<Rightarrow> bool" where
  "lsq_room p s \<longleftrightarrow> d_enable p \<and> d_valid p \<and> \<not> d_has_exception p \<longrightarrow>
     (d_op_unit p = Cunit_lu \<longrightarrow> \<not> producer_is_full (lq_fifo (ren_load_queue s))) \<and>
     (d_op_unit p = Cunit_sdu \<longrightarrow> \<not> producer_is_full (sb_fifo (ren_store_buffer s)))"

lemma rename_lsq_ok:
  assumes "lsq_ok s" and "lsq_room p s"
  obtains info' item' s' where "rename_lsq p info item s = Some (info', item', s')" "lsq_ok s'"
    "same_op info' info" "same_item item' item" "same_core s' s"
proof (cases "d_enable p \<and> d_valid p \<and> \<not> d_has_exception p \<and> (d_op_unit p = Cunit_lu \<or> d_op_unit p = Cunit_sdu)")
  case False
  then have "rename_lsq p info item s = Some (info, item, s)" by (auto simp: rename_lsq_def)
  then show thesis using that assms(1) by (simp add: same_op_def same_item_def same_core_def)
next
  case True
  then consider (lu) "d_op_unit p = Cunit_lu" | (sdu) "d_op_unit p = Cunit_sdu" by blast
  then show thesis
  proof cases
    case lu
    then have nf: "\<not> producer_is_full (lq_fifo (ren_load_queue s))" using assms(2) True by (simp add: lsq_room_def)
    obtain x q where "rename_load info item (ren_load_queue s) =
        Some (info\<lparr>rn_load_queue_id := x\<rparr>, item\<lparr>ri_load_queue_id_valid := True, ri_load_queue_id := x\<rparr>, q)"
      "lsq_ok (s\<lparr>ren_load_queue := q\<rparr>)" using rename_load_ok[OF assms(1) nf] .
    then show thesis using that True lu by (simp add: rename_lsq_def same_op_def same_item_def same_core_def)
  next
    case sdu
    then have nf: "\<not> producer_is_full (sb_fifo (ren_store_buffer s))" using assms(2) True by (simp add: lsq_room_def)
    obtain x b where "rename_store info item (ren_store_buffer s) =
        Some (info\<lparr>rn_store_buffer_id := x\<rparr>, item\<lparr>ri_store_buffer_id_valid := True, ri_store_buffer_id := x\<rparr>, b)"
      "lsq_ok (s\<lparr>ren_store_buffer := b\<rparr>)" using rename_store_ok[OF assms(1) nf] .
    then show thesis using that True sdu by (simp add: rename_lsq_def same_op_def same_item_def same_core_def)
  qed
qed

lemma rename_checkpoint_ok:
  assumes "lsq_ok s" and "phy_reg_num (ren_rat s) = PHY_REG_NUM"
  obtains info' s' where "rename_checkpoint p info item s0 s = Some (info', s')" "lsq_ok s'"
    "same_op info' info" "same_core s' s"
proof (cases "d_enable p \<and> d_valid p \<and> (bp_predicted (d_branch_predictor_info_pack p) \<or> d_op_unit p = Cunit_lu) \<and>
    \<not> producer_is_full (ren_checkpoint s)")
  case False
  then have "rename_checkpoint p info item s0 s = Some (info, s)" by (simp only: rename_checkpoint_def if_False)
  then show thesis using that assms(1) by (simp add: same_op_def same_core_def)
next
  case True
  have i: "fifo_inv (ren_checkpoint s)" "\<not> producer_is_full (ren_checkpoint s)" using assms(1) True by (simp_all add: lsq_ok_def)
  obtain cp where cp: "producer_save_to_checkpoint (ren_rat s) checkpoint_make = Some cp"
    using assms(2) by (simp add: producer_save_to_checkpoint_def)
  let ?c = "rename_checkpoint_item item s0 s cp"
  obtain f where f: "fifo_push ?c (ren_checkpoint s) = (True, f)" "fifo_inv f"
      "producer_get_tail_id f = Some (producer_get_wptr (ren_checkpoint s))"
    using push_not_full[OF i] .
  have "rename_checkpoint p info item s0 s =
      Some (info\<lparr>rn_branch_predictor_info_pack := (rn_branch_predictor_info_pack info)
              \<lparr>bp_checkpoint_id_valid := True, bp_checkpoint_id := producer_get_wptr (ren_checkpoint s)\<rparr>\<rparr>,
            s\<lparr>ren_checkpoint := f\<rparr>)"
    using True cp f by (simp add: rename_checkpoint_def)
  then show thesis using that assms(1) f(2) by (simp add: same_op_def same_core_def lsq_ok_def)
qed

lemma rob_push_ok:
  assumes "fifo_inv (rob_fifo b)" and "\<not> producer_is_full (rob_fifo b)"
  obtains b' where "rob_push x b = (True, b')" "fifo_inv (rob_fifo b')" "fsize (rob_fifo b') = fsize (rob_fifo b)"
    "fifo_next (rob_fifo b') = fifo_next (rob_fifo b) @ [x]"
    "producer_get_wptr (rob_fifo b') = (producer_get_wptr (rob_fifo b) + 1) mod fsize (rob_fifo b)"
proof -
  obtain f where f: "fifo_push x (rob_fifo b) = (True, f)" "fifo_inv f" "fsize f = fsize (rob_fifo b)"
      "fifo_next f = fifo_next (rob_fifo b) @ [x]"
    using push_not_full[OF assms] .
  have "producer_get_wptr f = (producer_get_wptr (rob_fifo b) + 1) mod fsize (rob_fifo b)"
    using f(1) wptr_less[OF assms(1)]
    by (auto simp: fifo_push_def fifo_advance_wptr_def fifo_write_slot_def producer_get_wptr_def mod_Suc split: if_splits)
  then show thesis using that[of "b\<lparr>rob_fifo := f\<rparr>"] f by (simp add: rob_push_def)
qed

lemma regs_ok_core:
  "same_core s t \<Longrightarrow> regs_ok s = regs_ok t"
  by (simp add: same_core_def regs_ok_def)

text \<open>One operation: no assertion fails, the invariants hold again, and the result is the specified one.\<close>

lemma rename_one_ok:
  assumes ok: "regs_ok s" "lsq_ok s" "uop_ok p" and nf: "\<not> producer_is_full (rob_fifo (ren_rob s))" and room: "lsq_room p s"
  obtains info item s' where "rename_one p s = Some (info, s')" "regs_ok s'" "lsq_ok s'"
    "ren_fifo s' = ren_fifo s" "ren_port s' = ren_port s"
    "(rat_abs (ren_rat s'), free_regs (ren_free s')) = snd (rename_spec p (rat_abs (ren_rat s), free_regs (ren_free s)))"
    "fifo_next (rob_fifo (ren_rob s')) = fifo_next (rob_fifo (ren_rob s)) @ [item]"
    "producer_get_wptr (rob_fifo (ren_rob s')) = (producer_get_wptr (rob_fifo (ren_rob s)) + 1) mod ROB_SIZE"
    "renamed_as (producer_get_wptr (rob_fifo (ren_rob s))) p
       (fst (rename_spec p (rat_abs (ren_rat s), free_regs (ren_free s)))) info item"
proof -
  let ?st = "(rat_abs (ren_rat s), free_regs (ren_free s))"
  let ?out = "fst (rename_spec p ?st)"
  have p: "d_enable p" and need: "d_rs1_need_map p \<Longrightarrow> 0 < unat (d_rs1 p) \<and> unat (d_rs1 p) < ARCH_REG_NUM"
    "d_rs2_need_map p \<Longrightarrow> 0 < unat (d_rs2 p) \<and> unat (d_rs2 p) < ARCH_REG_NUM"
    "d_need_rename p \<Longrightarrow> 0 < unat (d_rd p) \<and> unat (d_rd p) < ARCH_REG_NUM" using ok(3) by (auto simp: uop_ok_def)
  note src = rename_source_spec[OF ok(1) need(1)] rename_source_spec[OF ok(1) need(2)]
  obtain old_id r fl where dest: "rename_dest p (ren_rat s) (ren_free s) =
       Some (d_valid p \<and> d_need_rename p, old_id, fst (snd (snd ?out)), r, fl)"
    "(if d_valid p \<and> d_need_rename p then Some old_id else None) = snd (snd (snd ?out))"
    "(rat_abs r, free_regs fl) = snd (rename_spec p ?st)"
    and regs: "\<And>b item. fifo_inv (rob_fifo b) \<Longrightarrow> fsize (rob_fifo b) = ROB_SIZE \<Longrightarrow>
       fifo_next (rob_fifo b) = fifo_next (rob_fifo (ren_rob s)) @ [item] \<Longrightarrow>
       ri_old_phy_reg_id_valid item = (d_valid p \<and> d_need_rename p) \<Longrightarrow> ri_old_phy_reg_id item = old_id \<Longrightarrow>
       regs_ok (s\<lparr>ren_rat := r, ren_free := fl, ren_rob := b\<rparr>)"
    by (rule rename_dest_spec[OF ok(1) need(3)]) blast+
  have rob: "fifo_inv (rob_fifo (ren_rob s))" "fsize (rob_fifo (ren_rob s)) = ROB_SIZE" using ok(1) by (auto simp: regs_ok_def)
  have ids: "get_new_id (ren_rob s) = Some (producer_get_wptr (rob_fifo (ren_rob s)))"
    "get_new_id_stage (ren_rob s) = Some (producer_get_wstage (rob_fifo (ren_rob s)))"
    using nf by (simp_all add: get_new_id_def get_new_id_stage_def producer_get_wptr_def producer_get_wstage_def)
  let ?s1 = "s\<lparr>ren_rat := r, ren_free := fl\<rparr>"
  let ?info = "(rename_copy p)\<lparr>rn_rs1_phy := spec_source (d_rs1_need_map p) (d_rs1 p) (rat_abs (ren_rat s)),
    rn_rs2_phy := spec_source (d_rs2_need_map p) (d_rs2 p) (rat_abs (ren_rat s)), rn_rd_phy := fst (snd (snd ?out)),
    rn_rob_id := producer_get_wptr (rob_fifo (ren_rob s)), rn_rob_id_stage := producer_get_wstage (rob_fifo (ren_rob s))\<rparr>"
  let ?item = "rename_rob_item p (d_valid p \<and> d_need_rename p) old_id (fst (snd (snd ?out))) (free_list_save (ren_free s)) (free_list_save fl)"
  have l1: "lsq_ok ?s1" "lsq_room p ?s1" using ok(2) room by (simp_all add: lsq_ok_def lsq_room_def)
  obtain info' item s2 where lsq: "rename_lsq p ?info ?item ?s1 = Some (info', item, s2)" "lsq_ok s2"
      "same_op info' ?info" "same_item item ?item" "same_core s2 ?s1"
    using rename_lsq_ok[OF l1] .
  have rob2: "ren_rob s2 = ren_rob s" using lsq(5) by (simp add: same_core_def)
  obtain b where b: "rob_push item (ren_rob s) = (True, b)" "fifo_inv (rob_fifo b)" "fsize (rob_fifo b) = fsize (rob_fifo (ren_rob s))"
      "fifo_next (rob_fifo b) = fifo_next (rob_fifo (ren_rob s)) @ [item]"
      "producer_get_wptr (rob_fifo b) = (producer_get_wptr (rob_fifo (ren_rob s)) + 1) mod fsize (rob_fifo (ren_rob s))"
    using rob_push_ok[OF rob(1) nf] .
  let ?s3 = "s2\<lparr>ren_rob := b\<rparr>" and ?t = "s\<lparr>ren_rat := r, ren_free := fl, ren_rob := b\<rparr>"
  have core: "same_core ?s3 ?t" using lsq(5) by (simp add: same_core_def)
  have it: "ri_old_phy_reg_id_valid item = (d_valid p \<and> d_need_rename p)" "ri_old_phy_reg_id item = old_id"
    using lsq(4) by (auto simp: same_item_def rename_rob_item_def)
  have regs3: "regs_ok ?s3" using regs[OF b(2) _ b(4) it] b(3) rob(2) regs_ok_core[OF core] by simp
  have l3: "lsq_ok ?s3" "phy_reg_num (ren_rat ?s3) = PHY_REG_NUM" using lsq(2) regs3 by (simp_all add: lsq_ok_def regs_ok_def)
  obtain info s' where cp: "rename_checkpoint p info' item ?s1 ?s3 = Some (info, s')" "lsq_ok s'"
      "same_op info info'" "same_core s' ?s3"
    using rename_checkpoint_ok[OF l3] .
  have "rename_one p s = Some (info, s')"
    using p src dest(1) ids lsq(1) b(1) rob2 cp(1) by (simp add: rename_one_def Let_def)
  moreover have "regs_ok s'" using regs3 regs_ok_core[OF cp(4)] by simp
  moreover have "ren_fifo s' = ren_fifo s" "ren_port s' = ren_port s" "ren_rat s' = r" "ren_free s' = fl" "ren_rob s' = b"
    using cp(4) core by (simp_all add: same_core_def)
  moreover have "fst ?out = spec_source (d_rs1_need_map p) (d_rs1 p) (rat_abs (ren_rat s))"
    "fst (snd ?out) = spec_source (d_rs2_need_map p) (d_rs2 p) (rat_abs (ren_rat s))" by (simp_all add: rename_spec.simps Let_def)
  then have "renamed_as (producer_get_wptr (rob_fifo (ren_rob s))) p ?out info item"
    using lsq(3,4) cp(3) dest(2)[symmetric] it
    unfolding renamed_as_def same_op_def same_item_def by (simp add: rename_copy_def rename_rob_item_def prod_eq_iff)
  ultimately show thesis using that[of info s' item] cp(2) b(4,5) rob(2) dest(3)
    by (simp)
qed

subsection \<open>The loop\<close>

text \<open>What the gate lets through has room in the queues and respects the rules of the assertions.\<close>

lemma gate_room: "uop_ok p \<Longrightarrow> rename_gate i p ready fence s = Some x \<Longrightarrow> lsq_room p s"
  by (auto simp: rename_gate_def lsq_room_def uop_ok_def split: if_splits)

lemma gate_live:
  assumes "rename_gate i p ready fence s = Some (ready', fence')" and "uop_ok p"
  shows "d_enable p \<and> d_valid p \<and> \<not> d_has_exception p \<Longrightarrow>
      (d_op_unit p = Cunit_csr \<longrightarrow> i = 0 \<and> ready') \<and> (\<not> ready' \<longrightarrow> fence' = (fence \<or> d_op p = Op_fence)) \<and>
      (fence \<longrightarrow> d_op_unit p \<noteq> Cunit_lu \<and> d_op_unit p \<noteq> Cunit_sau \<and> d_op_unit p \<noteq> Cunit_sdu)"
    and "\<not> (d_enable p \<and> d_valid p \<and> \<not> d_has_exception p) \<Longrightarrow> fence' = fence"
    and "ready' \<Longrightarrow> ready \<or> i = 0"
  using assms by (auto simp: rename_gate_def uop_ok_def split: if_splits)

definition rename_ok :: "rename \<Rightarrow> bool" where
  "rename_ok s \<longleftrightarrow> regs_ok s \<and> lsq_ok s \<and> fifo_settled (ren_fifo s) \<and> list_all uop_ok (fifo_next (ren_fifo s))"

text \<open>Renaming a prefix \<open>ps\<close> of the queue, from state to state.\<close>

definition renames :: "uop list \<Rightarrow> rename_dispatch_op_info_t list \<Rightarrow> rename \<Rightarrow> rename \<Rightarrow> bool" where
  "renames ps infos s s' \<longleftrightarrow>
     fifo_avail (ren_fifo s) = ps @ fifo_avail (ren_fifo s') \<and> fifo_next (ren_fifo s) = ps @ fifo_next (ren_fifo s') \<and>
     ren_port s' = ren_port s \<and>
     (rat_abs (ren_rat s'), free_regs (ren_free s')) = snd (rename_specs ps (rat_abs (ren_rat s), free_regs (ren_free s))) \<and>
     (\<exists>items. fifo_next (rob_fifo (ren_rob s')) = fifo_next (rob_fifo (ren_rob s)) @ items \<and>
        renamed_all (producer_get_wptr (rob_fifo (ren_rob s))) ps
          (fst (rename_specs ps (rat_abs (ren_rat s), free_regs (ren_free s)))) infos items)"

lemma renames_Nil: "renames [] [] s s"
  by (simp add: renames_def)

lemma pop_front:
  assumes "fifo_settled f" and "\<not> customer_is_empty f"
  obtains x f' where "fifo_pop f = (Some x, f')" "customer_get_front f = Some x" "fifo_settled f'"
    "fifo_avail f = x # fifo_avail f'" "fifo_next f = x # fifo_next f'"
proof -
  have i: "fifo_inv f" using assms(1) by (simp add: fifo_settled_def)
  obtain r f' where p: "fifo_pop f = (r, f')" by fastforce
  obtain x xs where av: "fifo_avail f = x # xs"
    using customer_is_empty_avail[OF i] assms(2) by (cases "fifo_avail f") auto
  note l = fq.pop_law[OF assms(1) p] fq.pop_held[OF assms(1) p]
  have "r = Some x" using l(1) av by simp
  then show thesis using that[of x f'] p l av customer_get_front_avail[OF i] by simp
qed

lemma renames_step:
  assumes "rename_ok s" and "fifo_avail (ren_fifo s) = p # fifo_avail f" and "fifo_next (ren_fifo s) = p # fifo_next f"
    and "fifo_settled f" and "\<not> producer_is_full (rob_fifo (ren_rob s))" and "lsq_room p s"
  obtains info s' where "rename_one p (s\<lparr>ren_fifo := f\<rparr>) = Some (info, s')" "rename_ok s'" "renames [p] [info] s s'"
    "\<And>ps infos s''. renames ps infos s' s'' \<Longrightarrow> renames (p # ps) (info # infos) s s''"
proof -
  let ?s = "s\<lparr>ren_fifo := f\<rparr>"
  have u: "uop_ok p" "list_all uop_ok (fifo_next f)" using assms(1,3) by (simp_all add: rename_ok_def)
  have ok: "regs_ok ?s" "lsq_ok ?s" "lsq_room p ?s" "\<not> producer_is_full (rob_fifo (ren_rob ?s))"
    using assms by (simp_all add: rename_ok_def regs_ok_def lsq_ok_def lsq_room_def)
  obtain info item s' where o: "rename_one p ?s = Some (info, s')" "regs_ok s'" "lsq_ok s'"
    "ren_fifo s' = ren_fifo ?s" "ren_port s' = ren_port ?s"
    "(rat_abs (ren_rat s'), free_regs (ren_free s')) = snd (rename_spec p (rat_abs (ren_rat ?s), free_regs (ren_free ?s)))"
    "fifo_next (rob_fifo (ren_rob s')) = fifo_next (rob_fifo (ren_rob ?s)) @ [item]"
    "producer_get_wptr (rob_fifo (ren_rob s')) = (producer_get_wptr (rob_fifo (ren_rob ?s)) + 1) mod ROB_SIZE"
    "renamed_as (producer_get_wptr (rob_fifo (ren_rob ?s))) p
       (fst (rename_spec p (rat_abs (ren_rat ?s), free_regs (ren_free ?s)))) info item"
    by (rule rename_one_ok[OF ok(1,2) u(1) ok(4,3)]) blast
  have ok': "rename_ok s'" using o assms(4) u(2) by (simp add: rename_ok_def)
  have ext: "renames (p # ps) (info # infos) s s''" if rn: "renames ps infos s' s''" for ps infos s''
  proof -
    obtain items where it: "fifo_next (rob_fifo (ren_rob s'')) = fifo_next (rob_fifo (ren_rob s')) @ items"
      "renamed_all (producer_get_wptr (rob_fifo (ren_rob s'))) ps
          (fst (rename_specs ps (rat_abs (ren_rat s'), free_regs (ren_free s')))) infos items"
      using rn by (auto simp: renames_def)
    show ?thesis
      unfolding renames_def
    proof (intro conjI exI[of _ "item # items"])
      show "renamed_all (producer_get_wptr (rob_fifo (ren_rob s))) (p # ps)
          (fst (rename_specs (p # ps) (rat_abs (ren_rat s), free_regs (ren_free s)))) (info # infos) (item # items)"
        using it(2) o(6,8,9) by (simp add: split_beta Let_def)
    qed (use rn o it(1) assms(2,3) in \<open>simp_all add: renames_def split_beta Let_def\<close>)
  qed
  then show thesis using that[OF o(1) ok'] ext[OF renames_Nil] by blast
qed

lemma free_not_empty:
  assumes "rename_ok s"
  shows "\<not> producer_is_empty (fl_fifo (ren_free s))"
proof -
  let ?olds = "rob_olds (fifo_next (rob_fifo (ren_rob s)))" and ?f = "fl_fifo (ren_free s)"
  have r: "regs_ok s" using assms by (simp add: rename_ok_def)
  have "length ?olds \<le> length (fifo_next (rob_fifo (ren_rob s)))" by (simp add: rob_olds_def)
  also have "\<dots> \<le> ROB_SIZE" using r fifo_next_length[of "rob_fifo (ren_rob s)"] by (simp add: regs_ok_def)
  finally have "33 \<le> length (free_regs (ren_free s))" using partition_free r by (auto simp: regs_ok_def)
  then have "fifo_next ?f \<noteq> []" by (auto simp: free_regs_def)
  moreover have "fifo_inv ?f" using r by (simp add: regs_ok_def free_list_inv_def fifo_settled_def)
  then obtain rc rn wc wn where w: "fifo_window ?f rc rn wc wn" by (rule fifo_windowE)
  ultimately show ?thesis using window_flags(2)[OF w] window_lists(3)[OF w] by (auto simp: fifo_window_def)
qed

lemma info_fields:
  assumes "renames [p] [info] s s'"
  shows "rn_enable info = d_enable p \<and> rn_valid info = d_valid p \<and> rn_has_exception info = d_has_exception p \<and>
    rn_op info = d_op p \<and> rn_op_unit info = d_op_unit p"
proof -
  obtain w out items where "renamed_all w [p] out [info] items" using assms by (auto simp: renames_def)
  then show ?thesis by (cases out; cases items) (auto simp: renamed_as_def)
qed

lemma rename_loop_ok:
  assumes "rename_ok s"
  shows "\<exists>ps infos s'. rename_loop n i ready fence s = Some (infos, s') \<and> rename_ok s' \<and> renames ps infos s s' \<and>
    length ps \<le> n \<and> length infos = length ps \<and> rename_assert_fence i fence infos \<and>
    (infos \<noteq> [] \<and> rename_live (hd infos) \<and> rn_op_unit (hd infos) = Cunit_csr \<longrightarrow> tl infos = []) \<and>
    (0 < n \<and> fifo_avail (ren_fifo s) \<noteq> [] \<and> \<not> producer_is_full (rob_fifo (ren_rob s)) \<and>
     rename_gate i (hd (fifo_avail (ren_fifo s))) ready fence s \<noteq> None \<longrightarrow> ps \<noteq> [])"
  using assms
proof (induction n arbitrary: i ready fence s)
  case 0
  then show ?case using renames_Nil[of s] by auto
next
  case (Suc n)
  let ?go = "\<not> customer_is_empty (ren_fifo s) \<and> \<not> producer_is_empty (fl_fifo (ren_free s)) \<and>
         \<not> producer_is_full (rob_fifo (ren_rob s))"
  have free: "\<not> producer_is_empty (fl_fifo (ren_free s))" using free_not_empty Suc.prems by blast
  have emp: "customer_is_empty (ren_fifo s) \<longleftrightarrow> fifo_avail (ren_fifo s) = []"
    using Suc.prems by (intro customer_is_empty_avail) (simp add: rename_ok_def fifo_settled_def)
  show ?case
  proof (cases "?go \<and> rename_gate i (hd (fifo_avail (ren_fifo s))) ready fence s \<noteq> None")
    case False
    then have "rename_loop (Suc n) i ready fence s = Some ([], s)"
      using customer_get_front_avail[of "ren_fifo s"] Suc.prems emp
      by (auto simp: rename_ok_def fifo_settled_def neq_Nil_conv split: option.splits)
    then show ?thesis using Suc.prems renames_Nil[of s] False free emp by (intro exI[of _ "[]"] exI[of _ s]) auto
  next
    case True
    have st: "fifo_settled (ren_fifo s)" using Suc.prems by (simp add: rename_ok_def)
    obtain p f where p: "fifo_pop (ren_fifo s) = (Some p, f)" "customer_get_front (ren_fifo s) = Some p" "fifo_settled f"
        "fifo_avail (ren_fifo s) = p # fifo_avail f" "fifo_next (ren_fifo s) = p # fifo_next f"
      using pop_front[OF st] True by blast
    obtain ready' fence' where g: "rename_gate i p ready fence s = Some (ready', fence')" using True p(4) by auto
    have u: "uop_ok p" using Suc.prems p(5) by (simp add: rename_ok_def)
    have nf: "\<not> producer_is_full (rob_fifo (ren_rob s))" using True by blast
    obtain info s1 where o: "rename_one p (s\<lparr>ren_fifo := f\<rparr>) = Some (info, s1)" "rename_ok s1" "renames [p] [info] s s1"
      and ext: "\<And>ps infos s''. renames ps infos s1 s'' \<Longrightarrow> renames (p # ps) (info # infos) s s''"
      using renames_step[OF Suc.prems p(4,5,3) nf gate_room[OF u g]] by blast
    have info: "rn_enable info = d_enable p" "rn_valid info = d_valid p" "rn_has_exception info = d_has_exception p"
      "rn_op info = d_op p" "rn_op_unit info = d_op_unit p" by (use info_fields[OF o(3)] in blast)+
    have asrt: "rename_assert_fence i fence (info # infos)" if "if ready' then infos = [] else rename_assert_fence (i + 1) fence' infos" for infos
      using that gate_live[OF g u] by (auto simp: rename_live_def info split: if_splits)
    have csr: "rename_live info \<and> rn_op_unit info = Cunit_csr \<longrightarrow> ready'"
      using gate_live(1)[OF g u] by (simp add: rename_live_def info)
    show ?thesis
    proof (cases ready')
      case True
      then have "rename_loop (Suc n) i ready fence s = Some ([info], s1)"
        using \<open>?go \<and> _\<close> p g o(1) by simp
      then show ?thesis using o(2,3) asrt[of "[]"] True by (intro exI[of _ "[p]"] exI[of _ "[info]"] exI[of _ s1]) simp
    next
      case False
      obtain ps infos s2 where r: "rename_loop n (i + 1) ready' fence' s1 = Some (infos, s2)" "rename_ok s2"
          "renames ps infos s1 s2" "length ps \<le> n" "length infos = length ps" "rename_assert_fence (i + 1) fence' infos"
        using Suc.IH[OF o(2), of "i + 1" ready' fence'] by blast
      then have "rename_loop (Suc n) i ready fence s = Some (info # infos, s2)"
        using \<open>?go \<and> _\<close> p g o(1) False by simp
      moreover have "rename_assert_fence i fence (info # infos)" by (rule asrt) (use r(6) False in simp)
      ultimately show ?thesis using r(2,4,5) ext[OF r(3)] csr False
        by (intro exI[of _ "p # ps"] exI[of _ "info # infos"] exI[of _ s2])
          (auto simp del: rename_loop.simps rename_assert_fence.simps)
    qed
  qed
qed

lemma assert_fence_padded:
  "rename_assert_fence i fence (infos @ replicate k rename_dispatch_op_info_make) = rename_assert_fence i fence infos"
proof (induction infos arbitrary: i fence)
  case Nil
  show ?case by (induction k arbitrary: i) (simp_all add: rename_live_def rename_dispatch_op_info_make_def)
qed simp

lemma rename_assert_ok:
  assumes "rename_assert_fence 0 False infos"
    and "infos \<noteq> [] \<and> rename_live (hd infos) \<and> rn_op_unit (hd infos) = Cunit_csr \<longrightarrow> tl infos = []"
  shows "rename_assert (rename_pad infos)"
proof (cases infos)
  case Nil
  then show ?thesis
    using assert_fence_padded[of 0 False "[]"]
    by (auto simp: rename_assert_def rename_pad_def rename_live_def rename_dispatch_op_info_make_def config_defs)
next
  case (Cons a as)
  then show ?thesis
    using assms assert_fence_padded[of 0 False infos]
    by (auto simp: rename_assert_def rename_pad_def rename_dispatch_op_info_make_def list_all_iff)
qed

subsection \<open>Decode keeps its side of the contract\<close>

lemma field_bounds:
  "unat (rs1_of w) < 32" "unat (rs2_of w) < 32" "unat (rd_of w) < 32"
proof -
  have "unat (x AND 0x1f) < 32" for x :: u32
    by (simp only: masks take_bit_eq_mask[symmetric] unsigned_take_bit_eq) (simp add: take_bit_eq_mod)
  then show "unat (rs1_of w) < 32" "unat (rs2_of w) < 32" "unat (rd_of w) < 32"
    by (simp_all add: rs1_of_def rs2_of_def rd_of_def)
qed

definition fields_ok :: "'b decode_rename_pack_t \<Rightarrow> bool" where
  "fields_ok p \<longleftrightarrow> unat (d_rs1 p) < 32 \<and> unat (d_rs2 p) < 32 \<and> unat (d_rd p) < 32 \<and>
     (d_op p = Op_fence \<or> d_op p = Op_mret \<longrightarrow> d_op_unit p \<notin> {Cunit_lu, Cunit_sau, Cunit_sdu})"

definition untouched :: "'b decode_rename_pack_t \<Rightarrow> bool" where
  "untouched p \<longleftrightarrow> d_rs1 p = 0 \<and> d_rs2 p = 0 \<and> d_rd p = 0 \<and> d_op p = Op_add"

lemma decode_fields_pure:
  assumes "untouched s"
  shows "fields_ok (decode_lui w s)" "fields_ok (decode_auipc w s)" "fields_ok (decode_op w s)"
    "fields_ok (decode_fence w s)" "fields_ok (decode_system w s)" "fields_ok (s\<lparr>d_valid := False\<rparr>)"
  using assms field_bounds[of w]
  by (simp_all add: untouched_def fields_ok_def decode_lui_def decode_auipc_def decode_op_def decode_fence_def
      decode_system_def decode_priv_def Let_def)

lemma decode_fields_imm:
  assumes "untouched s"
  shows "pred_option fields_ok (decode_jal w s)" "pred_option fields_ok (decode_jalr w s)"
    "pred_option fields_ok (decode_branch w s)" "pred_option fields_ok (decode_load w s)"
    "pred_option fields_ok (decode_store w s)" "pred_option fields_ok (decode_op_imm w s)"
proof -
  obtain i1 i2 i3 i4 where i: "sign_extend (imm_i_of w) 12 = Some i1" "sign_extend (imm_s_of w) 12 = Some i2"
    "sign_extend (imm_b_of w) 13 = Some i3" "sign_extend (imm_j_of w) 21 = Some i4"
    using sign_extend_total[of 12 "imm_i_of w"] sign_extend_total[of 12 "imm_s_of w"]
      sign_extend_total[of 13 "imm_b_of w"] sign_extend_total[of 21 "imm_j_of w"] by auto
  show "pred_option fields_ok (decode_jal w s)" "pred_option fields_ok (decode_jalr w s)"
    "pred_option fields_ok (decode_branch w s)" "pred_option fields_ok (decode_load w s)"
    "pred_option fields_ok (decode_store w s)" "pred_option fields_ok (decode_op_imm w s)"
    using assms field_bounds[of w]
    by (simp_all add: i untouched_def fields_ok_def decode_jal_def decode_jalr_def decode_branch_def decode_load_def
        decode_store_def decode_op_imm_def Let_def)
qed

lemma decode_fields: "untouched s \<Longrightarrow> pred_option fields_ok (decode_opcode w s)"
  by (simp add: decode_opcode_def decode_fields_pure decode_fields_imm)

lemma decode_result_ok:
  assumes "f_enable r"
  shows "uop_ok (decode_result r)"
proof -
  let ?s = "(decode_init r (decode_rename_pack_make (f_branch_predictor_info_pack r)))\<lparr>d_enable := True\<rparr>"
  have "untouched ?s" by (simp add: untouched_def decode_init_def)
  then obtain t where t: "decode_opcode (f_value r) ?s = Some t" "d_enable t" "fields_ok t"
    using decode_opcode_total[of "f_value r" ?s] decode_fields[of ?s "f_value r"] by auto
  have "the (decode_uops r) ! 0 = decode_finish r (if d_valid t then t else t\<lparr>d_op_unit := Cunit_alu\<rparr>)"
    using t assms by (auto simp: decode_uops_def Let_def)
  then show ?thesis using t(2,3)
    by (simp add: decode_result_def uop_ok_def fields_ok_def decode_finish_def config_defs word_less_nat_alt)
qed

subsection \<open>The clock edge\<close>

definition rename_sync :: "rename \<Rightarrow> rename" where
  "rename_sync s =
     s\<lparr>ren_fifo := fifo_sync (ren_fifo s), ren_port := port_sync (ren_port s), ren_rat := rat_sync (ren_rat s),
       ren_rob := rob_sync (ren_rob s), ren_free := free_list_sync (ren_free s), ren_checkpoint := fifo_sync (ren_checkpoint s),
       ren_load_queue := load_queue_sync (ren_load_queue s), ren_store_buffer := store_buffer_sync (ren_store_buffer s)\<rparr>"

lemma rename_ok_sync:
  assumes "rename_ok s"
  shows "rename_ok (rename_sync s)"
proof -
  have r: "regs_ok s" "lsq_ok s" "fifo_settled (ren_fifo s)" using assms by (simp_all add: rename_ok_def)
  have sh: "rat_shape (ren_rat s)" using r(1) by (simp add: regs_ok_def rat_inv_def)
  have i: "free_list_inv (ren_free s)" using r(1) by (simp add: regs_ok_def)
  then have fi: "fifo_inv (fl_fifo (ren_free s))" by (simp add: free_list_inv_def fifo_settled_def)
  have fl: "free_list_inv (free_list_sync (ren_free s))" "free_regs (free_list_sync (ren_free s)) = free_regs (ren_free s)"
    "fifo_avail (fl_fifo (free_list_sync (ren_free s))) = free_regs (ren_free s)"
    "fsize (fl_fifo (free_list_sync (ren_free s))) = fsize (fl_fifo (ren_free s))"
    using free_list_sync_abs[OF i] fifo_sync_abs(2,4)[OF fi] by (simp_all add: free_list_sync_def free_regs_def)
  have "regs_ok (rename_sync s)"
    using r(1) fl rat_sync_views[OF sh] fifo_sync_abs[of "rob_fifo (ren_rob s)"]
    by (simp add: regs_ok_def rename_sync_def rob_sync_def) (simp add: rat_sync_def)
  moreover have "lsq_ok (rename_sync s)"
    using r(2) fifo_sync_abs(1,2)[of "ren_checkpoint s"] fifo_sync_abs(1,2)[of "lq_fifo (ren_load_queue s)"]
      fifo_sync_abs(1,2)[of "sb_fifo (ren_store_buffer s)"]
    by (simp add: lsq_ok_def rename_sync_def load_queue_sync_def store_buffer_sync_def)
  ultimately show ?thesis
    using assms fq.clock_law[OF r(3)] by (simp add: rename_ok_def rename_sync_def)
qed

end
