(* ===== verification/Rename_Laws.thy ===== *)
theory Rename_Laws
  imports Rename Phy_Regfile
begin

text \<open>
  Reset of the register state in \<^verbatim>\<open>cycle_model::reset\<close>, which gives the architectural registers their
  first physical registers, and the properties of the rename stage: reset establishes its
  invariant, decode feeds it legal operations, and a cycle refines the specification.
\<close>

subsection \<open>The registers of one component under \<^verbatim>\<open>dff_base::reset_all\<close>\<close>

definition fifo_reset_all :: "'a fifo \<Rightarrow> 'a fifo" where
  "fifo_reset_all f =
     f\<lparr>buffer := map dff_reset (buffer f), wptr := dff_reset (wptr f), wstage := dff_reset (wstage f),
       rptr := dff_reset (rptr f), rstage := dff_reset (rstage f)\<rparr>"

definition rat_reset_all :: "rat \<Rightarrow> rat" where
  "rat_reset_all r =
     r\<lparr>phy_map_table := map dff_reset (phy_map_table r), phy_map_table_valid := map dff_reset (phy_map_table_valid r)\<rparr>"

definition phy_regfile_reset_all :: "'a phy_regfile \<Rightarrow> 'a phy_regfile" where
  "phy_regfile_reset_all rf =
     rf\<lparr>reg_data := map dff_reset (reg_data rf), reg_data_valid := map dff_reset (reg_data_valid rf),
        reg_rob_id := map dff_reset (reg_rob_id rf), reg_rob_id_stage := map dff_reset (reg_rob_id_stage rf),
        reg_oldest := map dff_reset (reg_oldest rf)\<rparr>"

text \<open>The register part of \<^verbatim>\<open>cycle_model::reset\<close>.\<close>

record reset_regs =
  rr_free :: free_list
  rr_speculative_rat :: rat
  rr_retire_rat :: rat
  rr_phy_regfile :: "u32 phy_regfile"

definition reset_sync :: "reset_regs \<Rightarrow> reset_regs" where
  "reset_sync s =
     \<lparr>rr_free = free_list_sync (rr_free s), rr_speculative_rat = rat_sync (rr_speculative_rat s),
      rr_retire_rat = rat_sync (rr_retire_rat s), rr_phy_regfile = phy_regfile_sync (rr_phy_regfile s)\<rparr>"

fun reset_loop :: "nat list \<Rightarrow> reset_regs \<Rightarrow> reset_regs option" where
  "reset_loop [] s = Some s"
| "reset_loop (i # is) s =
     do {
       (x, fl) \<leftarrow> free_list_pop (rr_free s);
       phy_id \<leftarrow> x;
       (_, sr) \<leftarrow> set_map i phy_id (rr_speculative_rat s);
       (_, rr) \<leftarrow> set_map i phy_id (rr_retire_rat s);
       rf \<leftarrow> phy_regfile_write phy_id 0 True 0 False True (rr_phy_regfile s);
       reset_loop is (reset_sync \<lparr>rr_free = fl, rr_speculative_rat = sr, rr_retire_rat = rr, rr_phy_regfile = rf\<rparr>)
     }"

definition reset_registers :: "reset_regs \<Rightarrow> reset_regs option" where
  "reset_registers s =
     do {
       fl \<leftarrow> free_list_reset ((rr_free s)\<lparr>fl_fifo := fifo_reset_all (fl_fifo (rr_free s))\<rparr>);
       s' \<leftarrow> reset_loop [1..<ARCH_REG_NUM] (reset_sync
         \<lparr>rr_free = fl, rr_speculative_rat = rat_init_start (rat_reset (rat_reset_all (rr_speculative_rat s))),
          rr_retire_rat = rat_init_start (rat_reset (rat_reset_all (rr_retire_rat s))),
          rr_phy_regfile = phy_regfile_reset (phy_regfile_reset_all (rr_phy_regfile s))\<rparr>);
       Some (s'\<lparr>rr_speculative_rat := rat_init_finish (rr_speculative_rat s'),
                rr_retire_rat := rat_init_finish (rr_retire_rat s')\<rparr>)
     }"

subsection \<open>Register \<open>i\<close> starts in physical register \<open>i - 1\<close>\<close>

definition first_map :: "nat \<Rightarrow> nat \<rightharpoonup> nat" where
  "first_map k a = (if 0 < a \<and> a \<le> k then Some (a - 1) else None)"

lemma first_map_Suc: "first_map (Suc k) = (first_map k)(Suc k \<mapsto> k)"
  by (auto simp: first_map_def fun_eq_iff)

lemma first_map_ran: "ran (first_map k) = {0..<k}"
proof
  show "ran (first_map k) \<subseteq> {0..<k}" by (auto simp: ran_def first_map_def split: if_splits)
  have "x \<in> ran (first_map k)" if "x < k" for x
    using that by (intro ranI[of _ "Suc x"]) (simp add: first_map_def)
  then show "{0..<k} \<subseteq> ran (first_map k)" by auto
qed

lemma first_map_dom: "dom (first_map k) = {0<..<Suc k}"
  by (auto simp: first_map_def dom_def)

definition rat_started :: "nat \<Rightarrow> rat \<Rightarrow> bool" where
  "rat_started k r \<longleftrightarrow> rat_inv r \<and> init_rat r \<and> phy_reg_num r = PHY_REG_NUM \<and> arch_reg_num r = ARCH_REG_NUM \<and>
     rat_abs r = first_map k"

definition file_started :: "nat \<Rightarrow> u32 phy_regfile \<Rightarrow> bool" where
  "file_started k rf \<longleftrightarrow> phy_regfile_shape rf \<and> rf_size rf = PHY_REG_NUM \<and>
     (\<forall>i < k. dff_get (reg_data rf ! i) = 0 \<and> dff_get_new (reg_data rf ! i) = 0 \<and>
              dff_get (reg_data_valid rf ! i) \<and> dff_get_new (reg_data_valid rf ! i))"

definition started :: "nat \<Rightarrow> reset_regs \<Rightarrow> bool" where
  "started k s \<longleftrightarrow> free_list_inv (rr_free s) \<and> fsize (fl_fifo (rr_free s)) = PHY_REG_NUM \<and>
     free_regs (rr_free s) = [k..<PHY_REG_NUM] \<and> fifo_avail (fl_fifo (rr_free s)) = [k..<PHY_REG_NUM] \<and>
     rat_started k (rr_speculative_rat s) \<and> rat_started k (rr_retire_rat s) \<and> file_started k (rr_phy_regfile s)"

lemma rat_started_step:
  assumes "rat_started k r" and "Suc k < ARCH_REG_NUM"
  obtains old r' where "set_map (Suc k) k r = Some (old, r')" "rat_started (Suc k) (rat_sync r')"
proof -
  have i: "rat_inv r" "init_rat r" "phy_reg_num r = PHY_REG_NUM" "arch_reg_num r = ARCH_REG_NUM" "rat_abs r = first_map k"
    using assms(1) by (simp_all add: rat_started_def)
  have k: "k < PHY_REG_NUM" using assms(2) by (simp add: config_defs)
  have nv: "\<not> vld r k" using rat_abs_ran[OF i(1)] i(5) first_map_ran[of k] by auto
  obtain r' where r': "set_map (Suc k) k r = Some (case rat_abs r (Suc k) of None \<Rightarrow> 0 | Some q \<Rightarrow> q, r')"
      "remapped (Suc k) k r r'"
    using set_map_entries[OF i(1) _ _ _ nv, of "Suc k"] i k assms(2) by auto
  have a: "Suc k < arch_reg_num r" "k < phy_reg_num r" using i k assms(2) by simp_all
  have inv: "rat_inv r'" "rat_abs r' = (rat_abs r)(Suc k \<mapsto> k)" using remapped_inv[OF i(1) r'(2) _ a nv] by simp_all
  have sh: "rat_shape r'" using inv(1) by (simp add: rat_inv_def)
  have "rat_started (Suc k) (rat_sync r')"
    using inv rat_sync_views[OF sh] r'(2) i first_map_Suc[of k]
    by (simp add: rat_started_def remapped_def) (simp add: rat_sync_def)
  then show thesis using that r'(1) by blast
qed

lemma file_started_step:
  assumes "file_started k rf" and "k < PHY_REG_NUM"
  obtains rf' where "phy_regfile_write k 0 True 0 False True rf = Some rf'" "file_started (Suc k) (phy_regfile_sync rf')"
proof -
  let ?rf = "rf\<lparr>reg_data := reg_put k 0 (reg_data rf), reg_data_valid := reg_put k True (reg_data_valid rf),
    reg_rob_id := reg_put k 0 (reg_rob_id rf), reg_rob_id_stage := reg_put k False (reg_rob_id_stage rf),
    reg_oldest := reg_put k True (reg_oldest rf)\<rparr>"
  have sh: "phy_regfile_shape rf" "rf_size rf = PHY_REG_NUM" using assms(1) by (simp_all add: file_started_def)
  have len: "k < length (reg_data rf)" "k < length (reg_data_valid rf)" using sh assms(2) by (simp_all add: phy_regfile_shape_def)
  have "file_started (Suc k) (phy_regfile_sync ?rf)"
    using assms sh len
    by (auto simp: file_started_def phy_regfile_shape_def phy_regfile_sync_def reg_put_get_new less_Suc_eq)
  then show thesis using that[of ?rf] assms(2) sh(2) by (simp add: phy_regfile_write_def)
qed

lemma started_step:
  assumes "started k s" and "Suc k < ARCH_REG_NUM"
  obtains s' where "reset_loop (Suc k # is) s = reset_loop is s'" "started (Suc k) s'"
proof -
  have i: "free_list_inv (rr_free s)" "fsize (fl_fifo (rr_free s)) = PHY_REG_NUM"
    "free_regs (rr_free s) = [k..<PHY_REG_NUM]" "fifo_avail (fl_fifo (rr_free s)) = [k..<PHY_REG_NUM]"
    and rats: "rat_started k (rr_speculative_rat s)" "rat_started k (rr_retire_rat s)" and regs: "file_started k (rr_phy_regfile s)"
    using assms(1) by (simp_all add: started_def)
  have k: "k < PHY_REG_NUM" using assms(2) by (simp add: config_defs)
  obtain r fl where pop: "free_list_pop (rr_free s) = Some (r, fl)" "free_list_inv fl"
      "free_regs (rr_free s) = (case r of None \<Rightarrow> [] | Some d \<Rightarrow> [d]) @ free_regs fl"
      "fifo_pop (fl_fifo (rr_free s)) = (r, fl_fifo fl)" "r = None \<longleftrightarrow> fifo_avail (fl_fifo (rr_free s)) = []"
    using free_list_pop_abs[OF i(1)] by blast
  have r: "r = Some k" "free_regs fl = [Suc k..<PHY_REG_NUM]" using pop(3,5) i(3,4) k by (auto simp: upt_conv_Cons)
  have fi: "fifo_inv (fl_fifo (rr_free s))" "fifo_inv (fl_fifo fl)"
    using i(1) pop(2) by (simp_all add: free_list_inv_def fifo_settled_def)
  obtain o1 sr where sr: "set_map (Suc k) k (rr_speculative_rat s) = Some (o1, sr)" "rat_started (Suc k) (rat_sync sr)"
    using rat_started_step[OF rats(1) assms(2)] .
  obtain o2 rr where rr: "set_map (Suc k) k (rr_retire_rat s) = Some (o2, rr)" "rat_started (Suc k) (rat_sync rr)"
    using rat_started_step[OF rats(2) assms(2)] .
  obtain rf where rf: "phy_regfile_write k 0 True 0 False True (rr_phy_regfile s) = Some rf"
      "file_started (Suc k) (phy_regfile_sync rf)"
    using file_started_step[OF regs k] .
  let ?s = "reset_sync \<lparr>rr_free = fl, rr_speculative_rat = sr, rr_retire_rat = rr, rr_phy_regfile = rf\<rparr>"
  have "fifo_avail (fl_fifo (free_list_sync fl)) = [Suc k..<PHY_REG_NUM]" "fsize (fl_fifo (free_list_sync fl)) = PHY_REG_NUM"
    using fifo_sync_abs(2,4)[OF fi(2)] fifo_pop_abs(3)[OF fi(1) pop(4)] r(2) i(2)
    by (simp_all add: free_list_sync_def free_regs_def)
  then have "started (Suc k) ?s"
    using free_list_sync_abs[OF pop(2)] r(2) sr(2) rr(2) rf(2) by (simp add: started_def reset_sync_def)
  moreover have "reset_loop (Suc k # is) s = reset_loop is ?s" using pop(1) r(1) sr(1) rr(1) rf(1) by simp
  ultimately show thesis using that by blast
qed

lemma reset_loop_started:
  assumes "started k s" and "k + n < ARCH_REG_NUM"
  shows "\<exists>s'. reset_loop [Suc k..<Suc k + n] s = Some s' \<and> started (k + n) s'"
  using assms
proof (induction n arbitrary: k s)
  case (Suc n)
  have lt: "Suc k < ARCH_REG_NUM" using Suc.prems(2) by simp
  obtain s' where s': "reset_loop (Suc k # [Suc (Suc k)..<Suc k + Suc n]) s = reset_loop [Suc (Suc k)..<Suc k + Suc n] s'"
      "started (Suc k) s'"
    using started_step[OF Suc.prems(1)] lt by blast
  have "[Suc k..<Suc k + Suc n] = Suc k # [Suc (Suc k)..<Suc k + Suc n]" by (simp add: upt_conv_Cons del: upt_Suc)
  moreover have "Suc (Suc k) + n = Suc k + Suc n" by simp
  ultimately show ?case using Suc.IH[OF s'(2)] Suc.prems(2) s'(1) by (metis add_Suc add_Suc_right)
qed simp

text \<open>What every state of the machine has and reset relies on: the sizes, and initial pointers of zero.\<close>

definition resettable :: "reset_regs \<Rightarrow> bool" where
  "resettable s \<longleftrightarrow>
     (let f = fl_fifo (rr_free s) in fsize f = PHY_REG_NUM \<and> length (buffer f) = PHY_REG_NUM \<and>
        init_value (wptr f) = 0 \<and> init_value (rptr f) = 0 \<and> \<not> init_value (wstage f) \<and> \<not> init_value (rstage f)) \<and>
     (\<forall>r \<in> {rr_speculative_rat s, rr_retire_rat s}. rat_shape r \<and> phy_reg_num r = PHY_REG_NUM \<and> arch_reg_num r = ARCH_REG_NUM) \<and>
     phy_regfile_shape (rr_phy_regfile s) \<and> rf_size (rr_phy_regfile s) = PHY_REG_NUM"

lemma free_list_reset_abs:
  assumes "fifo_window (fifo_reset f) 0 0 0 0" and "fsize f = n"
  shows "\<exists>fl'. free_list_reset (fl\<lparr>fl_fifo := f\<rparr>) = Some fl' \<and> free_list_inv fl' \<and> free_regs fl' = [0..<n] \<and>
    fsize (fl_fifo fl') = n"
proof -
  let ?f = "fifo_reset f"
  let ?fl = "fl\<lparr>fl_fifo := ?f, fl_set := {}\<rparr>"
  have sz: "fsize ?f = n" using assms(2) by (simp add: fifo_reset_def)
  have e: "fifo_settled ?f" "free_regs ?fl = []"
    using window_inv[OF assms(1)] by (simp_all add: fifo_settled_def window_lists[OF assms(1)] free_regs_def)
  have a: "fifo_settled (fl_fifo (free_list_fill [0..<n] ?fl))" "free_regs (free_list_fill [0..<n] ?fl) = [0..<n]"
    "fl_set (free_list_fill [0..<n] ?fl) = set [0..<n]" "fsize (fl_fifo (free_list_fill [0..<n] ?fl)) = n"
    using free_list_fill_abs[of ?fl 0 "[0..<n]"] e assms(1) sz by simp_all
  then have inv: "free_list_inv (free_list_fill [0..<n] ?fl)" by (simp add: free_list_inv_def)
  then show ?thesis using a free_list_inv_check[OF inv] assms(2) by (simp add: free_list_reset_def)
qed

lemma rat_reset_started:
  assumes "rat_shape r" and "phy_reg_num r = PHY_REG_NUM" and "arch_reg_num r = ARCH_REG_NUM"
  shows "rat_started 0 (rat_sync (rat_init_start (rat_reset (rat_reset_all r))))"
proof -
  let ?r = "rat_reset (rat_reset_all r)"
  have sh: "rat_shape ?r" using assms(1) by (simp add: rat_shape_def rat_reset_def rat_reset_all_def)
  note v = rat_init_views(1,2)[OF sh]
  have sh2: "rat_shape (rat_init_start ?r)" using v(1) by (simp add: rat_inv_def)
  have "first_map 0 = Map.empty" by (rule ext) (auto simp: first_map_def)
  then show ?thesis
    using v rat_sync_views(1,3)[OF sh2] assms(2,3)
    by (simp add: rat_started_def) (simp add: rat_sync_def rat_init_start_def rat_reset_def rat_reset_all_def)
qed

lemma reset_registers_started:
  assumes "resettable s"
  obtains s' where "reset_registers s = Some s'"
    "free_list_inv (rr_free s')" "fsize (fl_fifo (rr_free s')) = PHY_REG_NUM"
    "free_regs (rr_free s') = [31..<PHY_REG_NUM]" "fifo_avail (fl_fifo (rr_free s')) = [31..<PHY_REG_NUM]"
    "\<And>r. r \<in> {rr_speculative_rat s', rr_retire_rat s'} \<Longrightarrow> rat_inv r \<and> \<not> init_rat r \<and> phy_reg_num r = PHY_REG_NUM \<and>
       arch_reg_num r = ARCH_REG_NUM \<and> rat_abs r = first_map 31"
    "file_started 31 (rr_phy_regfile s')"
proof -
  let ?f = "fifo_reset_all (fl_fifo (rr_free s))"
  have w: "fifo_window (fifo_reset ?f) 0 0 0 0" "fsize ?f = PHY_REG_NUM"
    using assms by (simp_all add: resettable_def Let_def fifo_window_def fifo_reset_def fifo_reset_all_def pos_defs ring_at_def
        dff_reset_def dff_set_def dff_get_def dff_get_new_def config_defs)
  obtain fl where fl: "free_list_reset ((rr_free s)\<lparr>fl_fifo := ?f\<rparr>) = Some fl" "free_list_inv fl"
      "free_regs fl = [0..<PHY_REG_NUM]" "fsize (fl_fifo fl) = PHY_REG_NUM"
    using free_list_reset_abs[OF w] by blast
  let ?s0 = "reset_sync \<lparr>rr_free = fl, rr_speculative_rat = rat_init_start (rat_reset (rat_reset_all (rr_speculative_rat s))),
    rr_retire_rat = rat_init_start (rat_reset (rat_reset_all (rr_retire_rat s))),
    rr_phy_regfile = phy_regfile_reset (phy_regfile_reset_all (rr_phy_regfile s))\<rparr>"
  have fi: "fifo_inv (fl_fifo fl)" using fl(2) by (simp add: free_list_inv_def fifo_settled_def)
  have "fifo_avail (fl_fifo (free_list_sync fl)) = [0..<PHY_REG_NUM]" "fsize (fl_fifo (free_list_sync fl)) = PHY_REG_NUM"
    using fifo_sync_abs(2,4)[OF fi] fl(3,4) by (simp_all add: free_list_sync_def free_regs_def)
  moreover have "file_started 0 (phy_regfile_sync (phy_regfile_reset (phy_regfile_reset_all (rr_phy_regfile s))))"
    using assms by (simp add: resettable_def file_started_def phy_regfile_shape_def phy_regfile_sync_def phy_regfile_reset_def
        phy_regfile_reset_all_def)
  moreover have "rat_started 0 (rat_sync (rat_init_start (rat_reset (rat_reset_all r))))"
    if "r \<in> {rr_speculative_rat s, rr_retire_rat s}" for r
    using assms that by (intro rat_reset_started) (auto simp: resettable_def)
  ultimately have "started 0 ?s0"
    using free_list_sync_abs[OF fl(2)] fl(3) by (simp add: started_def reset_sync_def)
  then obtain s1 where s1: "reset_loop [Suc 0..<Suc 0 + 31] ?s0 = Some s1" "started (0 + 31) s1"
    using reset_loop_started[of 0 ?s0 31] by (auto simp: config_defs)
  have rng: "[1..<ARCH_REG_NUM] = [Suc 0..<Suc 0 + 31]" by (simp add: config_defs del: upt_Suc)
  let ?s = "s1\<lparr>rr_speculative_rat := rat_init_finish (rr_speculative_rat s1), rr_retire_rat := rat_init_finish (rr_retire_rat s1)\<rparr>"
  have fin: "rat_inv (rat_init_finish r) \<and> \<not> init_rat (rat_init_finish r) \<and> phy_reg_num (rat_init_finish r) = PHY_REG_NUM \<and>
      arch_reg_num (rat_init_finish r) = ARCH_REG_NUM \<and> rat_abs (rat_init_finish r) = first_map 31"
    if "rat_started 31 r" for r
  proof -
    have i: "rat_inv r" "rat_abs r = first_map 31" "phy_reg_num r = PHY_REG_NUM" "arch_reg_num r = ARCH_REG_NUM"
      using that by (simp_all add: rat_started_def)
    have v: "vld (rat_init_finish r) = vld r" "arch_of (rat_init_finish r) = arch_of r"
      by (simp_all add: fun_eq_iff vld_def arch_of_def rat_init_finish_def)
    have "rat_inv (rat_init_finish r)"
      using i(1) unfolding rat_inv_def v by (simp add: rat_shape_def rat_init_finish_def)
    moreover have "rat_abs (rat_init_finish r) = rat_abs r"
      by (simp add: fun_eq_iff rat_abs_def v) (simp add: rat_init_finish_def)
    ultimately show ?thesis using i by (simp add: rat_init_finish_def)
  qed
  have "reset_registers s = Some ?s" using fl(1) s1(1) rng by (simp only: reset_registers_def Option.bind_lunit)
  then show thesis using that[of ?s] s1(2) fin by (auto simp: started_def)
qed

subsection \<open>The stage after reset\<close>

text \<open>The queues as the constructor of \<^verbatim>\<open>cycle_model\<close> makes them, with the registers of \<open>s\<close>.\<close>

definition rename_make :: "reset_regs \<Rightarrow> rename" where
  "rename_make s =
     \<lparr>ren_fifo = fifo_make DECODE_RENAME_FIFO_SIZE (decode_rename_pack_make branch_predictor_info_pack_make),
      ren_port = port_make (replicate RENAME_WIDTH rename_dispatch_op_info_make),
      ren_rat = rr_speculative_rat s, ren_rob = rob_make ROB_SIZE, ren_free = rr_free s,
      ren_checkpoint = fifo_make CHECKPOINT_BUFFER_SIZE checkpoint_make,
      ren_load_queue = load_queue_make LOAD_QUEUE_SIZE, ren_store_buffer = store_buffer_make STORE_BUFFER_SIZE\<rparr>"

definition regs_make :: "reset_regs option" where
  "regs_make =
     do {
       fl \<leftarrow> free_list_make PHY_REG_NUM;
       Some \<lparr>rr_free = fl, rr_speculative_rat = rat_make PHY_REG_NUM ARCH_REG_NUM,
             rr_retire_rat = rat_make PHY_REG_NUM ARCH_REG_NUM, rr_phy_regfile = phy_regfile_make PHY_REG_NUM\<rparr>
     }"

lemma fifo_reset_make [simp]: "fifo_reset (fifo_make n v) = fifo_make n v"
  by (simp add: fifo_make_def fifo_reset_def dff_set_def)

lemma fill_keeps:
  "length (buffer (fl_fifo (free_list_fill xs fl))) = length (buffer (fl_fifo fl))"
  "fsize (fl_fifo (free_list_fill xs fl)) = fsize (fl_fifo fl)"
  "init_value (wptr (fl_fifo (free_list_fill xs fl))) = init_value (wptr (fl_fifo fl))"
  "init_value (rptr (fl_fifo (free_list_fill xs fl))) = init_value (rptr (fl_fifo fl))"
  "init_value (wstage (fl_fifo (free_list_fill xs fl))) = init_value (wstage (fl_fifo fl))"
  "init_value (rstage (fl_fifo (free_list_fill xs fl))) = init_value (rstage (fl_fifo fl))"
  by (induction xs arbitrary: fl)
    (simp_all add: new_push_def fifo_advance_wptr_def fifo_write_slot_def dff_set_def)

lemma regs_make_resettable: "\<exists>s. regs_make = Some s \<and> resettable s"
proof -
  obtain fl where fl: "free_list_make PHY_REG_NUM = Some fl" using free_list_make_abs[of PHY_REG_NUM] by (auto simp: config_defs)
  have e: "fl = free_list_fill [0..<PHY_REG_NUM] \<lparr>fl_fifo = fifo_make PHY_REG_NUM 0, fl_set = {}\<rparr>"
    using fl by (auto simp: free_list_make_def free_list_reset_def Let_def split: if_splits)
  have "resettable \<lparr>rr_free = fl, rr_speculative_rat = rat_make PHY_REG_NUM ARCH_REG_NUM,
      rr_retire_rat = rat_make PHY_REG_NUM ARCH_REG_NUM, rr_phy_regfile = phy_regfile_make PHY_REG_NUM\<rparr>"
    by (simp add: e resettable_def fill_keeps Let_def rat_make_shape phy_regfile_make_shape)
      (simp add: fifo_make_def fifo_reset_def dff_make_def dff_set_def rat_make_def rat_reset_def phy_regfile_make_def
        phy_regfile_reset_def)
  then show ?thesis using fl by (simp add: regs_make_def)
qed

lemma rename_make_ok:
  assumes "free_list_inv (rr_free s)" and "fsize (fl_fifo (rr_free s)) = PHY_REG_NUM"
    and "free_regs (rr_free s) = [31..<PHY_REG_NUM]" and "fifo_avail (fl_fifo (rr_free s)) = [31..<PHY_REG_NUM]"
    and "rat_inv (rr_speculative_rat s)" and "phy_reg_num (rr_speculative_rat s) = PHY_REG_NUM"
    and "arch_reg_num (rr_speculative_rat s) = ARCH_REG_NUM" and "rat_abs (rr_speculative_rat s) = first_map 31"
  shows "rename_ok (rename_make s)"
proof -
  have le: "31 \<le> PHY_REG_NUM" by (simp add: config_defs)
  have part: "regs_partition (first_map 31) [31..<PHY_REG_NUM] []"
    using le by (auto simp: regs_partition_def first_map_ran)
  have "regs_ok (rename_make s)"
    using assms part
    by (simp add: regs_ok_def rename_make_def rob_make_def rob_reset_def first_map_dom config_defs)
  moreover have "lsq_ok (rename_make s)"
    by (simp add: lsq_ok_def rename_make_def load_queue_make_def load_queue_reset_def store_buffer_make_def
        store_buffer_reset_def config_defs)
  ultimately show ?thesis
    by (simp add: rename_ok_def) (simp add: rename_make_def settled_make config_defs)
qed

subsection \<open>Properties\<close>

lemma rename_ok_port: "rename_ok (t\<lparr>ren_port := x\<rparr>) = rename_ok t"
  by (simp add: rename_ok_def regs_ok_def lsq_ok_def)

lemma rename_pad_nil: "rename_assert (rename_pad [])"
  using rename_assert_ok[of "[]"] by simp

lemma rename_cycle_ok:
  assumes "rename_ok s"
  shows "\<exists>rf s'. rename_run stall bru sau commit s = Some (rf, s') \<and> rename_ok s'"
proof -
  obtain infos s1 where l: "rename_loop RENAME_WIDTH 0 False False s = Some (infos, s1)" "rename_ok s1"
      "rename_assert_fence 0 False infos"
      "infos \<noteq> [] \<and> rename_live (hd infos) \<and> rn_op_unit (hd infos) = Cunit_csr \<longrightarrow> tl infos = []"
    using rename_loop_ok[OF assms, of RENAME_WIDTH 0 False False] by blast
  then show ?thesis using assms rename_assert_ok[OF l(3,4)] by (simp add: rename_run_def rename_pad_nil rename_ok_port)
qed

lemma rename_ok_queue:
  assumes "rename_ok s" and "fifo_settled (fifo_sync f)" and "list_all uop_ok (fifo_next (fifo_sync f))"
  shows "rename_ok (rename_sync (s\<lparr>ren_fifo := f\<rparr>))"
  using rename_ok_sync[OF assms(1)] assms(2,3)
  by (simp add: rename_ok_def rename_sync_def regs_ok_def lsq_ok_def)

text \<open>
  C11. Rename refines its specification over a register map and a list of free registers. In every
  cycle, from a state in which each physical register is in exactly one place, the stage renames
  a prefix \<open>ps\<close> of at most \<^verbatim>\<open>RENAME_WIDTH\<close> operations of its queue, in order: the sources are
  the registers the map holds after the operations before them, the destinations are taken
  from the front of the free list, each operation gets the next reorder buffer slot with the
  register it replaces, and the pack for dispatch holds the results. No assertion fails (so that the
  free list never runs out), and the invariant holds again. A flush, a stall or a pending interrupt
  stops it, and otherwise an operation is renamed unless the queue is empty, the reorder buffer is
  full or the gate holds the first operation back.
\<close>

theorem rename_refines_spec:
  fixes s :: rename and bru :: bru_feedback_pack_t and sau :: sau_feedback_pack_t and commit :: commit_feedback_pack_t
  assumes "rename_ok s"
  shows "\<exists>ps infos s1 s'. rename_run stall bru sau commit s = Some (\<lparr>rf_idle = customer_is_empty (ren_fifo s)\<rparr>, s') \<and>
    rename_ok s' \<and> renames ps infos s s1 \<and> length ps \<le> RENAME_WIDTH \<and>
    s' = (if stall \<and> \<not> (cf_flush commit \<or> bru_flush bru \<or> sau_flush sau) then s1
          else s1\<lparr>ren_port := port_set (rename_pad infos) (ren_port s)\<rparr>) \<and>
    (cf_flush commit \<or> bru_flush bru \<or> sau_flush sau \<or> stall \<or> cf_waiting_for_interrupt commit \<longrightarrow> ps = []) \<and>
    (ps = [] \<longrightarrow> cf_flush commit \<or> bru_flush bru \<or> sau_flush sau \<or> stall \<or> cf_waiting_for_interrupt commit \<or>
       fifo_avail (ren_fifo s) = [] \<or> producer_is_full (rob_fifo (ren_rob s)) \<or>
       rename_gate 0 (hd (fifo_avail (ren_fifo s))) False False s = None)"
proof -
  note pad = rename_pad_nil and port = rename_ok_port
  show ?thesis
  proof (cases "cf_flush commit \<or> bru_flush bru \<or> sau_flush sau \<or> stall \<or> cf_waiting_for_interrupt commit")
    case True
    let ?t = "if stall \<and> \<not> (cf_flush commit \<or> bru_flush bru \<or> sau_flush sau) then s
      else s\<lparr>ren_port := port_set (rename_pad []) (ren_port s)\<rparr>"
    have run: "rename_run stall bru sau commit s = Some (\<lparr>rf_idle = customer_is_empty (ren_fifo s)\<rparr>, ?t)"
      using True pad by (auto simp: rename_run_def)
    have ok: "rename_ok ?t" using assms port[where t = s] by simp
    show ?thesis
      by (rule exI[of _ "[]"], rule exI[of _ "[]"], rule exI[of _ s], rule exI[of _ ?t])
        (use run ok renames_Nil[of s] True in \<open>simp; blast\<close>)
  next
    case False
    obtain ps infos s1 where l: "rename_loop RENAME_WIDTH 0 False False s = Some (infos, s1)" "rename_ok s1"
      "renames ps infos s s1" "length ps \<le> RENAME_WIDTH" "rename_assert_fence 0 False infos"
      "infos \<noteq> [] \<and> rename_live (hd infos) \<and> rn_op_unit (hd infos) = Cunit_csr \<longrightarrow> tl infos = []"
      "0 < RENAME_WIDTH \<and> fifo_avail (ren_fifo s) \<noteq> [] \<and> \<not> producer_is_full (rob_fifo (ren_rob s)) \<and>
         rename_gate 0 (hd (fifo_avail (ren_fifo s))) False False s \<noteq> None \<longrightarrow> ps \<noteq> []"
      using rename_loop_ok[OF assms, of RENAME_WIDTH 0 False False] by blast
    have "0 < RENAME_WIDTH" by (simp add: config_defs)
    have "ren_port s1 = ren_port s" using l(3) by (simp add: renames_def)
    then have "rename_run stall bru sau commit s =
        Some (\<lparr>rf_idle = customer_is_empty (ren_fifo s)\<rparr>, s1\<lparr>ren_port := port_set (rename_pad infos) (ren_port s)\<rparr>)"
      using False l(1) rename_assert_ok[OF l(5,6)] by (simp add: rename_run_def)
    moreover have "rename_ok (s1\<lparr>ren_port := port_set (rename_pad infos) (ren_port s)\<rparr>)" using l(2) port by blast
    ultimately show ?thesis using l(3,4,7) \<open>0 < RENAME_WIDTH\<close> False by auto
  qed
qed

text \<open>One addition to \<open>x1\<close> in the queue of a machine that has just been reset.\<close>

definition demo_uop :: uop where
  "demo_uop = (decode_rename_pack_make branch_predictor_info_pack_make)
     \<lparr>d_enable := True, d_valid := True, d_rs1 := 1, d_rs1_need_map := True, d_rd := 1, d_rd_enable := True,
      d_need_rename := True, d_last_uop := True\<rparr>"

definition demo_rename :: rename where
  "demo_rename =
     (let s = rename_make (the (reset_registers (the regs_make)))
      in s\<lparr>ren_fifo := fifo_sync (snd (fifo_push demo_uop (ren_fifo s)))\<rparr>)"

definition no_bru :: bru_feedback_pack_t where
  "no_bru = \<lparr>bru_flush = False, bru_next_pc = 0, bru_rob_id_stage = False, bru_rob_id = 0\<rparr>"

definition no_sau :: sau_feedback_pack_t where
  "no_sau = \<lparr>sau_flush = False, sau_next_pc = 0, sau_rob_id_stage = False, sau_rob_id = 0\<rparr>"

definition no_commit :: commit_feedback_pack_t where
  "no_commit = \<lparr>cf_idle = True, cf_next_handle_rob_id_valid = False, cf_next_handle_rob_id = 0, cf_has_exception = False,
     cf_exception_pc = 0, cf_flush = False, cf_committed_rob_id = replicate COMMIT_WIDTH 0,
     cf_committed_rob_id_valid = replicate COMMIT_WIDTH False, cf_jump_enable = False, cf_jump = False, cf_jump_next_pc = 0,
     cf_waiting_for_interrupt = False\<rparr>"

lemma demo_rename_ok:
  "rename_ok demo_rename" "fifo_avail (ren_fifo demo_rename) = [demo_uop]" "\<not> producer_is_full (rob_fifo (ren_rob demo_rename))"
proof -
  obtain s0 where s0: "regs_make = Some s0" "resettable s0" using regs_make_resettable by blast
  obtain s where s: "reset_registers s0 = Some s" "rename_ok (rename_make s)"
    using reset_registers_started[OF s0(2)] rename_make_ok by (metis insertCI)
  let ?f = "fifo_make DECODE_RENAME_FIFO_SIZE (decode_rename_pack_make branch_predictor_info_pack_make) :: uop fifo"
  have f: "ren_fifo (rename_make s) = ?f" by (simp add: rename_make_def)
  have st: "fifo_settled ?f" by (rule settled_make) (simp add: config_defs)
  have nf: "\<not> producer_is_full ?f"
    by (simp add: producer_is_full_def fifo_make_def fifo_reset_def config_defs)
  obtain f' where p: "fifo_push demo_uop ?f = (True, f')" "fifo_next f' = fifo_next ?f @ [demo_uop]"
    using push_not_full[OF _ nf] st by (metis fifo_settled_def)
  have st': "fifo_settled f'" using fq.push_law[OF st p(1)] by blast
  have e: "fifo_next f' = [demo_uop]" using p(2) by (simp add: config_defs)
  have d: "demo_rename = (rename_make s)\<lparr>ren_fifo := fifo_sync f'\<rparr>"
    by (simp add: demo_rename_def s0(1) s(1) f p(1) Let_def)
  have "uop_ok demo_uop" by (simp add: uop_ok_def demo_uop_def decode_rename_pack_make_def config_defs)
  then show "rename_ok demo_rename" "fifo_avail (ren_fifo demo_rename) = [demo_uop]"
    using s(2) fq.clock_law[OF st'] e by (simp_all add: d rename_ok_def regs_ok_def lsq_ok_def)
  show "\<not> producer_is_full (rob_fifo (ren_rob demo_rename))"
    by (simp add: d rename_make_def rob_make_def rob_reset_def producer_is_full_def fifo_make_def fifo_reset_def config_defs)
qed

theorem rename_refines_spec_witness:
  "\<exists>infos s1 s'. rename_run False no_bru no_sau no_commit demo_rename = Some (\<lparr>rf_idle = False\<rparr>, s') \<and>
     rename_ok s' \<and> renames [demo_uop] infos demo_rename s1 \<and> port_get_new (ren_port s') = rename_pad infos"
proof -
  have idle: "customer_is_empty (ren_fifo demo_rename) = False"
    using demo_rename_ok(1,2) by (subst customer_is_empty_avail) (simp_all add: rename_ok_def fifo_settled_def)
  have gate: "rename_gate 0 demo_uop False False demo_rename \<noteq> None"
    by (simp add: rename_gate_def demo_uop_def decode_rename_pack_make_def)
  obtain ps infos s1 where r: "rename_run False no_bru no_sau no_commit demo_rename =
      Some (\<lparr>rf_idle = False\<rparr>, s1\<lparr>ren_port := port_set (rename_pad infos) (ren_port demo_rename)\<rparr>)"
    "rename_ok (s1\<lparr>ren_port := port_set (rename_pad infos) (ren_port demo_rename)\<rparr>)"
    "renames ps infos demo_rename s1" "ps \<noteq> []"
    using rename_refines_spec[OF demo_rename_ok(1), of False no_bru no_sau no_commit] gate demo_rename_ok(2,3)
    by (auto simp: no_bru_def no_sau_def no_commit_def idle)
  have "ps = [demo_uop]" using r(3,4) demo_rename_ok(2) by (cases ps) (auto simp: renames_def)
  moreover have "port_get_new (port_set v p) = v" for v and p :: "'a port" by (simp add: port_get_new_def port_set_def)
  ultimately show ?thesis using r(1-3)
    by (intro exI[of _ infos] exI[of _ s1] exI[of _ "s1\<lparr>ren_port := port_set (rename_pad infos) (ren_port demo_rename)\<rparr>"])
      (simp add: port_get_new_def port_set_def)
qed

text \<open>
  C13. Reset succeeds from every state and puts the machine into a state from which rename
  works: every architectural register from \<open>x1\<close> on is mapped to the same physical register in the
  speculative and in the retired table, that register reads as a valid zero, and every
  physical register is mapped or free, none of them both.
\<close>

theorem reset_establishes_registers:
  fixes s :: reset_regs
  assumes "resettable s"
  shows "\<exists>s'. reset_registers s = Some s' \<and> rename_ok (rename_make s') \<and>
    (\<forall>a. 0 < a \<and> a < ARCH_REG_NUM \<longrightarrow> (\<exists>p. producer_get_phy_id (rr_speculative_rat s') a 0 = Some (True, p) \<and>
       producer_get_phy_id (rr_retire_rat s') a 0 = Some (True, p) \<and>
       phy_regfile_read (rr_phy_regfile s') p = Some 0 \<and> read_data_valid (rr_phy_regfile s') p = Some True))"
proof -
  obtain s' where s': "reset_registers s = Some s'"
    "free_list_inv (rr_free s')" "fsize (fl_fifo (rr_free s')) = PHY_REG_NUM"
    "free_regs (rr_free s') = [31..<PHY_REG_NUM]" "fifo_avail (fl_fifo (rr_free s')) = [31..<PHY_REG_NUM]"
    and r: "\<And>r. r \<in> {rr_speculative_rat s', rr_retire_rat s'} \<Longrightarrow> rat_inv r \<and> \<not> init_rat r \<and> phy_reg_num r = PHY_REG_NUM \<and>
       arch_reg_num r = ARCH_REG_NUM \<and> rat_abs r = first_map 31"
    and rf: "file_started 31 (rr_phy_regfile s')"
    using reset_registers_started[OF assms] by blast
  have ok: "rename_ok (rename_make s')" using s' r[of "rr_speculative_rat s'"] by (intro rename_make_ok) auto
  have map: "producer_get_phy_id x a 0 = Some (True, a - 1)"
    if "0 < a" "a < ARCH_REG_NUM" "x \<in> {rr_speculative_rat s', rr_retire_rat s'}" for x a
    using producer_get_phy_id_abs[of x a 0] r[OF that(3)] that(1,2) by (simp add: first_map_def config_defs)
  have rd: "phy_regfile_read (rr_phy_regfile s') (a - 1) = Some 0 \<and> read_data_valid (rr_phy_regfile s') (a - 1) = Some True"
    if "0 < a" "a < ARCH_REG_NUM" for a
    using rf that by (simp add: file_started_def phy_regfile_read_def read_data_valid_def config_defs)
  show ?thesis using s'(1) ok map rd by (intro exI[of _ s']) auto
qed

theorem reset_establishes_registers_witness:
  "\<exists>s s'. regs_make = Some s \<and> reset_registers s = Some s' \<and> rename_ok (rename_make s') \<and>
     (\<exists>p. producer_get_phy_id (rr_speculative_rat s') 5 0 = Some (True, p))"
proof -
  obtain s where s: "regs_make = Some s" "resettable s" using regs_make_resettable by blast
  have "(0::nat) < 5 \<and> 5 < ARCH_REG_NUM" by (simp add: config_defs)
  then show ?thesis using reset_establishes_registers[OF s(2)] s(1) by blast
qed

text \<open>
  C12. Decode and rename together, in the order of \<^verbatim>\<open>cycle_model::run\<close>: in every cycle in which the
  fetched instructions are enabled, rename and then decode succeed, and after the clock edge
  the invariant holds again, so that rename never meets an operation it cannot handle. A flush empties
  the queue between them.
\<close>

theorem front_end_cycle:
  fixes s :: rename and a :: "branch_predictor_info_pack_t fetch2_decode_pack_t fifo"
    and bru :: bru_feedback_pack_t and sau :: sau_feedback_pack_t and commit :: commit_feedback_pack_t
  assumes "rename_ok s" and "fifo_inv a" and "list_all f_enable (fifo_avail a)"
  shows "\<exists>rf s' df a' b'. rename_run stall bru sau commit s = Some (rf, s') \<and>
    decode_run (bru_flush bru) (sau_flush sau) (cf_flush commit) a (ren_fifo s') = Some (df, a', b') \<and>
    rename_ok (rename_sync (s'\<lparr>ren_fifo := b'\<rparr>)) \<and>
    (bru_flush bru \<or> sau_flush sau \<or> cf_flush commit \<longrightarrow> fifo_avail (ren_fifo (rename_sync (s'\<lparr>ren_fifo := b'\<rparr>))) = [])"
proof -
  obtain rf s' where r: "rename_run stall bru sau commit s = Some (rf, s')" "rename_ok s'"
    using rename_cycle_ok[OF assms(1)] by blast
  let ?b = "ren_fifo s'"
  have b: "fifo_settled ?b" "fifo_inv ?b" "list_all uop_ok (fifo_next ?b)"
    using r(2) by (simp_all add: rename_ok_def fifo_settled_def)
  show ?thesis
  proof (cases "bru_flush bru \<or> sau_flush sau \<or> cf_flush commit")
    case True
    then have d: "decode_run (bru_flush bru) (sau_flush sau) (cf_flush commit) a ?b =
        Some (\<lparr>df_idle = customer_is_empty a\<rparr>, a, fifo_flush ?b)" by (auto simp: decode_run_def)
    have "rename_ok (rename_sync (s'\<lparr>ren_fifo := fifo_flush ?b\<rparr>))"
      by (rule rename_ok_queue[OF r(2)]) (use fifo_flush_abs[OF b(2)] in \<open>simp_all add: fifo_settled_def\<close>)
    then show ?thesis using r(1) d fifo_flush_abs(2)[OF b(2)] by (auto simp: rename_sync_def)
  next
    case False
    obtain a' b' where d: "decode_loop DECODE_WIDTH 0 a ?b = Some (a', b')" "fifo_inv b'" "fifo_avail b' = fifo_avail ?b"
        "fifo_next b' = fifo_next ?b @ map decode_result
           (take (min DECODE_WIDTH (min (length (fifo_avail a)) (producer_get_free_space ?b))) (fifo_avail a))"
      using decode_loop_moves[OF assms(2) b(2) assms(3), of DECODE_WIDTH 0, OF _ refl] by auto
    have u: "list_all uop_ok (fifo_next b')"
      using b(3) d(4) assms(3) decode_result_ok by (auto simp: list_all_iff dest: in_set_takeD)
    have st: "fifo_settled b'" using b(1) d(2,3,4) take_length_le by (auto simp: fifo_settled_def)
    have "rename_ok (rename_sync (s'\<lparr>ren_fifo := b'\<rparr>))"
      by (rule rename_ok_queue[OF r(2)]) (use fq.clock_law[OF st] u in simp_all)
    then show ?thesis using False r(1) d(1) by (auto simp: decode_run_def)
  qed
qed

definition demo_instruction :: "branch_predictor_info_pack_t fetch2_decode_pack_t" where
  "demo_instruction = \<lparr>f_inst_common_info = \<lparr>inst_id = 1\<rparr>, f_enable = True, f_pc = 0x80000000,
     f_value = 0x00500093, f_has_exception = False, f_exception_id = illegal_instruction,
     f_exception_value = 0, f_branch_predictor_info_pack = branch_predictor_info_pack_make\<rparr>"

theorem front_end_cycle_witness:
  "\<exists>rf s' df a' b'. rename_run False no_bru no_sau no_commit demo_rename = Some (rf, s') \<and>
    decode_run False False False (fifo_sync (snd (fifo_push demo_instruction (fifo_make 4 demo_instruction)))) (ren_fifo s') =
      Some (df, a', b') \<and> rename_ok (rename_sync (s'\<lparr>ren_fifo := b'\<rparr>))"
proof -
  let ?f = "fifo_make 4 demo_instruction"
  have nf: "\<not> producer_is_full ?f" by (simp add: producer_is_full_def fifo_make_def fifo_reset_def)
  have i: "fifo_inv ?f" by simp
  obtain f where p: "fifo_push demo_instruction ?f = (True, f)" "fifo_inv f" "fifo_next f = fifo_next ?f @ [demo_instruction]"
    using push_not_full[OF i nf] .
  have "fifo_inv (fifo_sync f)" "fifo_avail (fifo_sync f) = [demo_instruction]" using fifo_sync_abs[OF p(2)] p(3) by simp_all
  then show ?thesis
    using front_end_cycle[OF demo_rename_ok(1), of "fifo_sync f" False no_bru no_sau no_commit] p(1)
    by (auto simp: demo_instruction_def[THEN arg_cong, of f_enable] no_bru_def no_sau_def no_commit_def)
qed

end
