(* ===== verification/Cycle_Csr.thy ===== *)
theory Cycle_Csr
  imports Isa_Csr Dff
begin

text \<open>
  The CSRs of the cycle model: \<^verbatim>\<open>cycle_model/component/csr_base.h\<close>, \<^verbatim>\<open>csrfile.h\<close>,
  \<^verbatim>\<open>csr_all.h\<close>, \<^verbatim>\<open>interrupt_interface.h\<close>, and the part of \<^verbatim>\<open>cycle_model.cpp\<close> that fills
  the file and updates its counters. The register classes are the same as those of the ISA
  model (initial values, filters, bit accessors), but the value of a register is clocked: a
  write is seen by \<^verbatim>\<open>read\<close> in the next cycle and by \<^verbatim>\<open>read_new\<close> at once. The table is a hash
  map without a bound on the address.
\<close>

subsection \<open>A clocked register\<close>

record ccsr_base =
  ccsr_cls :: csr_class
  ccsr_value :: "u32 dff"

definition ccsr_reset :: "ccsr_base \<Rightarrow> ccsr_base" where
  "ccsr_reset c = c\<lparr>ccsr_value := dff_set (csr_init_value (ccsr_cls c)) (ccsr_value c)\<rparr>"

definition ccsr_make :: "csr_class \<Rightarrow> ccsr_base" where
  "ccsr_make k = ccsr_reset \<lparr>ccsr_cls = k, ccsr_value = dff_make (csr_init_value k)\<rparr>"

definition ccsr_load :: "u32 \<Rightarrow> ccsr_base \<Rightarrow> ccsr_base" where
  "ccsr_load v c = c\<lparr>ccsr_value := dff_set v (ccsr_value c)\<rparr>"

definition ccsr_get_value :: "ccsr_base \<Rightarrow> u32" where
  "ccsr_get_value c = dff_get_new (ccsr_value c)"

definition ccsr_write :: "u32 \<Rightarrow> ccsr_base \<times> char_io \<Rightarrow> ccsr_base \<times> char_io" where
  "ccsr_write v c =
     ((fst c)\<lparr>ccsr_value := dff_set (csr_filter (ccsr_cls (fst c)) v) (ccsr_value (fst c))\<rparr>,
      if ccsr_cls (fst c) = charfifo then charfifo_filter v (snd c) else snd c)"

text \<open>\<^verbatim>\<open>charfifo\<close> overrides \<^verbatim>\<open>read\<close> only, so \<^verbatim>\<open>read_new\<close> of it is the stored value.\<close>

definition ccsr_read :: "ccsr_base \<Rightarrow> char_io \<Rightarrow> u32" where
  "ccsr_read c io =
     (if ccsr_cls c = charfifo
      then (case rev_fifo io of [] \<Rightarrow> 0 | ch # _ \<Rightarrow> 0x80000000 OR scast ch)
      else dff_get (ccsr_value c))"

definition ccsr_read_new :: "ccsr_base \<Rightarrow> u32" where
  "ccsr_read_new c = dff_get_new (ccsr_value c)"

definition ccsr_sync :: "ccsr_base \<Rightarrow> ccsr_base" where
  "ccsr_sync c = c\<lparr>ccsr_value := dff_sync (ccsr_value c)\<rparr>"

subsection \<open>The CSR file\<close>

record ccsr_item_t =
  ccsr_readonly :: bool
  ccsr_obj :: ccsr_base

record ccsrfile =
  ccsr_map_table :: "u32 \<rightharpoonup> ccsr_item_t"
  ccsr_io :: char_io

definition ccsrfile_make :: "8 word list \<Rightarrow> 8 word list \<Rightarrow> ccsrfile" where
  "ccsrfile_make s r = \<lparr>ccsr_map_table = Map.empty, ccsr_io = \<lparr>send_fifo = s, rev_fifo = r\<rparr>\<rparr>"

definition ccsrfile_on_all :: "(ccsr_base \<Rightarrow> ccsr_base) \<Rightarrow> ccsrfile \<Rightarrow> ccsrfile" where
  "ccsrfile_on_all g f = f\<lparr>ccsr_map_table :=
     (\<lambda>a. map_option (\<lambda>i. i\<lparr>ccsr_obj := g (ccsr_obj i)\<rparr>) (ccsr_map_table f a))\<rparr>"

definition ccsrfile_reset :: "ccsrfile \<Rightarrow> ccsrfile" where
  "ccsrfile_reset f = ccsrfile_on_all ccsr_reset f"

definition ccsrfile_sync :: "ccsrfile \<Rightarrow> ccsrfile" where
  "ccsrfile_sync f = ccsrfile_on_all ccsr_sync f"

definition ccsrfile_map :: "u32 \<Rightarrow> bool \<Rightarrow> ccsr_base \<Rightarrow> ccsrfile \<Rightarrow> ccsrfile option" where
  "ccsrfile_map addr ro c f =
     do {
       verify (ccsr_map_table f addr = None);
       Some (f\<lparr>ccsr_map_table := (ccsr_map_table f)(addr \<mapsto> \<lparr>ccsr_readonly = ro, ccsr_obj = c\<rparr>)\<rparr>)
     }"

definition ccsrfile_store :: "u32 \<Rightarrow> ccsr_item_t \<Rightarrow> u32 \<Rightarrow> ccsrfile \<Rightarrow> ccsrfile" where
  "ccsrfile_store addr i v f =
     (case ccsr_write v (ccsr_obj i, ccsr_io f) of (c, io) \<Rightarrow>
        f\<lparr>ccsr_map_table := (ccsr_map_table f)(addr \<mapsto> i\<lparr>ccsr_obj := c\<rparr>), ccsr_io := io\<rparr>)"

definition ccsrfile_write_sys :: "u32 \<Rightarrow> u32 \<Rightarrow> ccsrfile \<Rightarrow> ccsrfile option" where
  "ccsrfile_write_sys addr v f =
     do { i \<leftarrow> ccsr_map_table f addr; Some (ccsrfile_store addr i v f) }"

definition ccsrfile_read_sys :: "u32 \<Rightarrow> ccsrfile \<Rightarrow> u32 option" where
  "ccsrfile_read_sys addr f =
     do { i \<leftarrow> ccsr_map_table f addr; Some (ccsr_read (ccsr_obj i) (ccsr_io f)) }"

definition ccsrfile_read_sys_new :: "u32 \<Rightarrow> ccsrfile \<Rightarrow> u32 option" where
  "ccsrfile_read_sys_new addr f =
     do { i \<leftarrow> ccsr_map_table f addr; Some (ccsr_read_new (ccsr_obj i)) }"

definition ccsrfile_write_check :: "u32 \<Rightarrow> u32 \<Rightarrow> ccsrfile \<Rightarrow> bool" where
  "ccsrfile_write_check addr v f =
     (case ccsr_map_table f addr of None \<Rightarrow> False | Some i \<Rightarrow> \<not> ccsr_readonly i)"

definition ccsrfile_write :: "u32 \<Rightarrow> u32 \<Rightarrow> ccsrfile \<Rightarrow> bool \<times> ccsrfile" where
  "ccsrfile_write addr v f =
     (if \<not> ccsrfile_write_check addr v f then (False, f)
      else (case ccsr_map_table f addr of None \<Rightarrow> (False, f)
            | Some i \<Rightarrow> (True, ccsrfile_store addr i v f)))"

definition ccsrfile_read :: "u32 \<Rightarrow> ccsrfile \<Rightarrow> u32 option" where
  "ccsrfile_read addr f =
     map_option (\<lambda>i. ccsr_read (ccsr_obj i) (ccsr_io f)) (ccsr_map_table f addr)"

subsection \<open>The registers of the core\<close>

definition CSR_LOADNUM :: u32 where "CSR_LOADNUM = 0xB10"
definition CSR_LOADNUMH :: u32 where "CSR_LOADNUMH = 0xB90"
definition CSR_REPLAYNUM :: u32 where "CSR_REPLAYNUM = 0xB11"
definition CSR_REPLAYNUMH :: u32 where "CSR_REPLAYNUMH = 0xB91"
definition CSR_REPLAYLOADNUM :: u32 where "CSR_REPLAYLOADNUM = 0xB12"
definition CSR_REPLAYLOADNUMH :: u32 where "CSR_REPLAYLOADNUMH = 0xB92"
definition CSR_CONFLICTLOADNUM :: u32 where "CSR_CONFLICTLOADNUM = 0xB13"
definition CSR_CONFLICTLOADNUMH :: u32 where "CSR_CONFLICTLOADNUMH = 0xB93"

lemmas ccsr_addr_defs [model_defs] =
  CSR_LOADNUM_def CSR_LOADNUMH_def CSR_REPLAYNUM_def CSR_REPLAYNUMH_def CSR_REPLAYLOADNUM_def
  CSR_REPLAYLOADNUMH_def CSR_CONFLICTLOADNUM_def CSR_CONFLICTLOADNUMH_def

definition cycle_csrs :: "(u32 \<times> bool \<times> csr_class) list" where
  "cycle_csrs =
     [(CSR_MVENDORID, True, mvendorid), (CSR_MARCHID, True, marchid), (CSR_MIMPID, True, mimpid),
      (CSR_MHARTID, True, mhartid), (CSR_MCONFIGPTR, True, mconfigptr), (CSR_MSTATUS, False, mstatus),
      (CSR_MISA, False, misa), (CSR_MIE, False, mie), (CSR_MTVEC, False, mtvec),
      (CSR_MCOUNTEREN, False, mcounteren), (CSR_MSTATUSH, False, mstatush),
      (CSR_MSCRATCH, False, mscratch), (CSR_MEPC, False, mepc), (CSR_MCAUSE, False, mcause),
      (CSR_MTVAL, False, mtval), (CSR_MIP, False, mip), (CSR_CHARFIFO, False, charfifo),
      (CSR_FINISH, False, finish), (CSR_MCYCLE, False, mcycle), (CSR_MINSTRET, False, minstret),
      (CSR_MCYCLEH, False, mcycleh), (CSR_MINSTRETH, False, minstreth),
      (CSR_BRANCHNUM, True, mhpmcounter), (CSR_BRANCHNUMH, True, mhpmcounterh),
      (CSR_BRANCHPREDICTED, True, mhpmcounter), (CSR_BRANCHPREDICTEDH, True, mhpmcounterh),
      (CSR_BRANCHHIT, True, mhpmcounter), (CSR_BRANCHHITH, True, mhpmcounterh),
      (CSR_BRANCHMISS, True, mhpmcounter), (CSR_BRANCHMISSH, True, mhpmcounterh),
      (CSR_LOADNUM, True, mhpmcounter), (CSR_LOADNUMH, True, mhpmcounterh),
      (CSR_REPLAYNUM, True, mhpmcounter), (CSR_REPLAYNUMH, True, mhpmcounterh),
      (CSR_REPLAYLOADNUM, True, mhpmcounter), (CSR_REPLAYLOADNUMH, True, mhpmcounterh),
      (CSR_CONFLICTLOADNUM, True, mhpmcounter), (CSR_CONFLICTLOADNUMH, True, mhpmcounterh)]
     @ map (\<lambda>i. (0x3A0 + of_nat i, False, pmpcfg)) [0..<16]
     @ map (\<lambda>i. (0x3B0 + of_nat i, False, pmpaddr)) [0..<64]"

fun ccsrfile_map_all :: "(u32 \<times> bool \<times> csr_class) list \<Rightarrow> ccsrfile \<Rightarrow> ccsrfile option" where
  "ccsrfile_map_all [] f = Some f"
| "ccsrfile_map_all ((addr, ro, k) # xs) f =
     do { f1 \<leftarrow> ccsrfile_map addr ro (ccsr_make k) f; ccsrfile_map_all xs f1 }"

text \<open>The counters \<^verbatim>\<open>cycle_model::run\<close> copies into the file at the end of each cycle.\<close>

record perf_counters =
  cpu_clock_cycle :: u64
  committed_instruction_num :: u64
  branch_num :: u64
  branch_predicted :: u64
  branch_hit :: u64
  branch_miss :: u64
  load_num :: u64
  replay_num :: u64
  replay_load_num :: u64
  conflict_load_num :: u64

definition low_word :: "u64 \<Rightarrow> u32" where "low_word c = ucast (c AND 0xffffffff)"
definition high_word :: "u64 \<Rightarrow> u32" where "high_word c = ucast (drop_bit 32 c)"

definition counter_writes :: "perf_counters \<Rightarrow> (u32 \<times> u32) list" where
  "counter_writes p =
     [(CSR_MCYCLE, low_word (cpu_clock_cycle p)), (CSR_MCYCLEH, high_word (cpu_clock_cycle p)),
      (CSR_MINSTRET, low_word (committed_instruction_num p)),
      (CSR_MINSTRETH, high_word (committed_instruction_num p)),
      (CSR_BRANCHNUM, low_word (branch_num p)), (CSR_BRANCHNUMH, high_word (branch_num p)),
      (CSR_BRANCHPREDICTED, low_word (branch_predicted p)),
      (CSR_BRANCHPREDICTEDH, high_word (branch_predicted p)),
      (CSR_BRANCHHIT, low_word (branch_hit p)), (CSR_BRANCHHITH, high_word (branch_hit p)),
      (CSR_BRANCHMISS, low_word (branch_miss p)), (CSR_BRANCHMISSH, high_word (branch_miss p)),
      (CSR_LOADNUM, low_word (load_num p)), (CSR_LOADNUMH, high_word (load_num p)),
      (CSR_REPLAYNUM, low_word (replay_num p)), (CSR_REPLAYNUMH, high_word (replay_num p)),
      (CSR_REPLAYLOADNUM, low_word (replay_load_num p)),
      (CSR_REPLAYLOADNUMH, high_word (replay_load_num p)),
      (CSR_CONFLICTLOADNUM, low_word (conflict_load_num p)),
      (CSR_CONFLICTLOADNUMH, high_word (conflict_load_num p))]"

fun ccsrfile_write_all :: "(u32 \<times> u32) list \<Rightarrow> ccsrfile \<Rightarrow> ccsrfile option" where
  "ccsrfile_write_all [] f = Some f"
| "ccsrfile_write_all ((addr, v) # xs) f =
     do { f1 \<leftarrow> ccsrfile_write_sys addr v f; ccsrfile_write_all xs f1 }"

subsection \<open>The interrupt interface\<close>

record cinterrupt_interface =
  ci_pending :: interrupt_interface
  ci_mei_ack :: "bool dff"
  ci_msi_ack :: "bool dff"
  ci_mti_ack :: "bool dff"

text \<open>Assigning a value to a register replaces it by a fresh one.\<close>

definition cinterrupt_reset :: "cinterrupt_interface \<Rightarrow> cinterrupt_interface" where
  "cinterrupt_reset ci =
     ci\<lparr>ci_mei_ack := dff_make False, ci_msi_ack := dff_make False, ci_mti_ack := dff_make False\<rparr>"

definition cinterrupt_make :: cinterrupt_interface where
  "cinterrupt_make = cinterrupt_reset
     \<lparr>ci_pending = interrupt_make, ci_mei_ack = dff_make False, ci_msi_ack = dff_make False,
      ci_mti_ack = dff_make False\<rparr>"

definition cinterrupt_get_cause ::
    "cinterrupt_interface \<Rightarrow> ccsrfile \<Rightarrow> riscv_interrupt_t option option" where
  "cinterrupt_get_cause ci f =
     do {
       mie_v \<leftarrow> ccsrfile_read_sys CSR_MIE f;
       mstatus_v \<leftarrow> ccsrfile_read_sys CSR_MSTATUS f;
       Some (if \<not> mstatus_get_mie mstatus_v then None
             else if ii_meip (ci_pending ci) \<and> mie_get_meie mie_v then Some machine_external
             else if ii_msip (ci_pending ci) \<and> mie_get_msie mie_v then Some machine_software
             else if ii_mtip (ci_pending ci) \<and> mie_get_mtie mie_v then Some machine_timer
             else None)
     }"

definition cinterrupt_has_interrupt :: "cinterrupt_interface \<Rightarrow> ccsrfile \<Rightarrow> bool option" where
  "cinterrupt_has_interrupt ci f =
     do {
       mie_v \<leftarrow> ccsrfile_read_sys CSR_MIE f;
       mstatus_v \<leftarrow> ccsrfile_read_sys CSR_MSTATUS f;
       Some (mstatus_get_mie mstatus_v \<and>
             ((ii_meip (ci_pending ci) \<and> mie_get_meie mie_v) \<or>
              (ii_msip (ci_pending ci) \<and> mie_get_msie mie_v) \<or>
              (ii_mtip (ci_pending ci) \<and> mie_get_mtie mie_v)))
     }"

definition cinterrupt_set_pending ::
    "riscv_interrupt_t \<Rightarrow> bool \<Rightarrow> cinterrupt_interface \<Rightarrow> cinterrupt_interface option" where
  "cinterrupt_set_pending cause pending ci =
     do { p \<leftarrow> interrupt_set_pending cause pending (ci_pending ci); Some (ci\<lparr>ci_pending := p\<rparr>) }"

fun cinterrupt_set_ack ::
    "riscv_interrupt_t \<Rightarrow> cinterrupt_interface \<Rightarrow> cinterrupt_interface option" where
  "cinterrupt_set_ack machine_external ci = Some (ci\<lparr>ci_mei_ack := dff_set True (ci_mei_ack ci)\<rparr>)"
| "cinterrupt_set_ack machine_software ci = Some (ci\<lparr>ci_msi_ack := dff_set True (ci_msi_ack ci)\<rparr>)"
| "cinterrupt_set_ack machine_timer ci = Some (ci\<lparr>ci_mti_ack := dff_set True (ci_mti_ack ci)\<rparr>)"
| "cinterrupt_set_ack _ ci = None"

fun cinterrupt_get_ack :: "riscv_interrupt_t \<Rightarrow> cinterrupt_interface \<Rightarrow> bool" where
  "cinterrupt_get_ack machine_external ci = dff_get (ci_mei_ack ci)"
| "cinterrupt_get_ack machine_software ci = dff_get (ci_msi_ack ci)"
| "cinterrupt_get_ack machine_timer ci = dff_get (ci_mti_ack ci)"
| "cinterrupt_get_ack _ ci = False"

definition cinterrupt_run ::
    "cinterrupt_interface \<Rightarrow> ccsrfile \<Rightarrow> (cinterrupt_interface \<times> ccsrfile) option" where
  "cinterrupt_run ci f =
     do {
       let ci' = ci\<lparr>ci_mei_ack := dff_set False (ci_mei_ack ci),
                    ci_msi_ack := dff_set False (ci_msi_ack ci),
                    ci_mti_ack := dff_set False (ci_mti_ack ci)\<rparr>;
       let p = ci_pending ci;
       mip_v \<leftarrow> ccsrfile_read_sys CSR_MIP f;
       f' \<leftarrow> ccsrfile_write_sys CSR_MIP
         (mip_set_mtip (ii_mtip p) (mip_set_msip (ii_msip p) (mip_set_meip (ii_meip p) mip_v))) f;
       Some (ci', f')
     }"

definition cinterrupt_sync :: "cinterrupt_interface \<Rightarrow> cinterrupt_interface" where
  "cinterrupt_sync ci =
     ci\<lparr>ci_mei_ack := dff_sync (ci_mei_ack ci), ci_msi_ack := dff_sync (ci_msi_ack ci),
        ci_mti_ack := dff_sync (ci_mti_ack ci)\<rparr>"

subsection \<open>The file as the ISA model has it\<close>

text \<open>
  Between two cycles every register holds one value, and the file is a file of the ISA model.
  The view forgets the clock; the addresses of the core fit the table of the ISA model.
\<close>

definition csr_view :: "ccsrfile \<Rightarrow> csrfile" where
  "csr_view f =
     \<lparr>csr_map_table = (\<lambda>a. map_option (\<lambda>i. \<lparr>csr_readonly = ccsr_readonly i,
        csr_obj = \<lparr>csr_cls = ccsr_cls (ccsr_obj i), csr_value = dff_get (ccsr_value (ccsr_obj i))\<rparr>\<rparr>) (ccsr_map_table f a)),
      csr_io = ccsr_io f\<rparr>"

definition csr_settled :: "ccsrfile \<Rightarrow> bool" where
  "csr_settled f \<longleftrightarrow> (\<forall>a i. ccsr_map_table f a = Some i \<longrightarrow> a < CSR_TABLE_SIZE \<and>
     dff_get_new (ccsr_value (ccsr_obj i)) = dff_get (ccsr_value (ccsr_obj i)))"

lemma csr_view_enabled:
  assumes "csr_settled f"
  shows "csrfile_enabled (csr_view f) a \<longleftrightarrow> ccsr_map_table f a \<noteq> None"
  using assms by (auto simp: csrfile_enabled_def csr_view_def csr_settled_def)

lemma csr_view_store:
  assumes "csr_settled f" and "ccsr_map_table f a = Some i"
  shows "csr_view (ccsrfile_sync (ccsrfile_store a i v f)) = csrfile_store a v (csr_view f)"
    and "csr_settled (ccsrfile_sync (ccsrfile_store a i v f))"
  using assms
  by (auto simp: csr_view_def csrfile_store_def ccsrfile_store_def ccsrfile_sync_def ccsrfile_on_all_def ccsr_write_def csr_write_def
      csr_settled_def ccsr_sync_def dff_sync_def dff_set_def dff_get_def dff_get_new_def fun_eq_iff option.map_comp comp_def
      split: option.splits intro!: option.map_cong)

lemma csr_view_load:
  assumes "ccsr_map_table f a = Some i"
  shows "csrfile_load a (csr_view f) = ccsr_read (ccsr_obj i) (ccsr_io f)"
  using assms by (simp add: csrfile_load_def csr_view_def csr_read_def ccsr_read_def)

lemma csr_view_read:
  assumes "csr_settled f"
  shows "csrfile_read a (csr_view f) = ccsrfile_read a f" and "csrfile_read_sys a (csr_view f) = ccsrfile_read_sys a f"
  using csr_view_enabled[OF assms, of a] csr_view_load[of f a]
  by (cases "ccsr_map_table f a"; simp add: csrfile_read_def csrfile_read_sys_def ccsrfile_read_def ccsrfile_read_sys_def)+

lemma csr_view_write:
  assumes "csr_settled f" and "ccsrfile_write a v f = (ok, f')"
  shows "csrfile_write a v (csr_view f) = (ok, csr_view (ccsrfile_sync f'))" and "csr_settled (ccsrfile_sync f')"
proof -
  have id: "csr_view (ccsrfile_sync f) = csr_view f" "csr_settled (ccsrfile_sync f)"
    using assms(1)
    by (auto simp: csr_view_def ccsrfile_sync_def ccsrfile_on_all_def csr_settled_def ccsr_sync_def dff_sync_def dff_get_def
        dff_get_new_def fun_eq_iff option.map_comp comp_def intro!: option.map_cong)
  show "csrfile_write a v (csr_view f) = (ok, csr_view (ccsrfile_sync f'))" "csr_settled (ccsrfile_sync f')"
    using assms(2) id csr_view_store[OF assms(1), of a] csr_view_enabled[OF assms(1), of a]
    by (auto simp: ccsrfile_write_def ccsrfile_write_check_def csrfile_write_def csrfile_write_check_def csr_view_def
        split: option.splits if_splits)
qed

lemma cycle_csrs_distinct: "distinct (map fst cycle_csrs)" "\<forall>(a, ro, k) \<in> set cycle_csrs. a < CSR_TABLE_SIZE"
  by (simp_all add: cycle_csrs_def csr_addr_defs ccsr_addr_defs upt_rec CSR_TABLE_SIZE_def)

lemma ccsrfile_map_all_ok:
  assumes "distinct (map fst xs)" and "\<forall>(a, ro, k) \<in> set xs. ccsr_map_table f a = None"
  shows "\<exists>f'. ccsrfile_map_all xs f = Some f' \<and> ccsr_io f' = ccsr_io f \<and>
    (\<forall>a. ccsr_map_table f' a = (case map_of xs a of
       Some (ro, k) \<Rightarrow> Some \<lparr>ccsr_readonly = ro, ccsr_obj = ccsr_make k\<rparr> | None \<Rightarrow> ccsr_map_table f a))"
  using assms
proof (induction xs arbitrary: f)
  case (Cons x xs)
  obtain a ro k where x: "x = (a, ro, k)" by (cases x)
  let ?f = "f\<lparr>ccsr_map_table := (ccsr_map_table f)(a \<mapsto> \<lparr>ccsr_readonly = ro, ccsr_obj = ccsr_make k\<rparr>)\<rparr>"
  have "\<forall>(b, ro, k) \<in> set xs. ccsr_map_table ?f b = None" using Cons.prems x by force
  from Cons.IH[OF _ this] Cons.prems(1) obtain f' where
    "ccsrfile_map_all xs ?f = Some f'" "ccsr_io f' = ccsr_io f"
    "\<forall>a. ccsr_map_table f' a = (case map_of xs a of
       Some (ro, k) \<Rightarrow> Some \<lparr>ccsr_readonly = ro, ccsr_obj = ccsr_make k\<rparr> | None \<Rightarrow> ccsr_map_table ?f a)" by auto
  moreover have "map_of xs a = None" using Cons.prems(1) x by (simp add: map_of_eq_None_iff)
  ultimately show ?case using Cons.prems(2) x by (auto simp: ccsrfile_map_def split: option.split)
qed simp

subsection \<open>Properties\<close>

text \<open>
  C37. The CSR file of the cycle model, one write per cycle, is the CSR file of the ISA model: the same writes are
  accepted, the same values are read and the same interrupt is chosen. The file the constructor fills is in a state this holds for,
  and every write leads to one again.
\<close>

theorem cycle_csr_refines_isa:
  assumes "csr_settled f" and "ccsrfile_write a v f = (ok, f')"
  shows "csrfile_write a v (csr_view f) = (ok, csr_view (ccsrfile_sync f')) \<and> csr_settled (ccsrfile_sync f') \<and>
    csrfile_read b (csr_view f) = ccsrfile_read b f \<and>
    interrupt_get_cause (ci_pending ci) (csr_view f) = cinterrupt_get_cause ci f"
  using csr_view_write[OF assms] csr_view_read[OF assms(1)]
  by (simp add: interrupt_get_cause_def cinterrupt_get_cause_def)

theorem cycle_csr_refines_isa_witness:
  "\<exists>f f'. ccsrfile_map_all cycle_csrs (ccsrfile_make [] []) = Some f \<and>
     ccsrfile_write CSR_MSTATUS 0xFF (ccsrfile_sync f) = (True, f') \<and>
     csrfile_write CSR_MSTATUS 0xFF (csr_view (ccsrfile_sync f)) = (True, csr_view (ccsrfile_sync f'))"
proof -
  have e: "ccsr_map_table (ccsrfile_make [] []) a = None" for a by (simp add: ccsrfile_make_def)
  obtain f where f: "ccsrfile_map_all cycle_csrs (ccsrfile_make [] []) = Some f"
    "\<forall>a. ccsr_map_table f a = (case map_of cycle_csrs a of
       Some (ro, k) \<Rightarrow> Some \<lparr>ccsr_readonly = ro, ccsr_obj = ccsr_make k\<rparr> | None \<Rightarrow> None)"
    using ccsrfile_map_all_ok[OF cycle_csrs_distinct(1), of "ccsrfile_make [] []", unfolded e] by auto
  have s: "csr_settled (ccsrfile_sync f)"
    using f(2) cycle_csrs_distinct(2)
    by (auto simp: csr_settled_def ccsrfile_sync_def ccsrfile_on_all_def ccsr_sync_def dff_sync_def dff_get_def dff_get_new_def
        split: option.splits dest!: map_of_SomeD)
  have "map_of cycle_csrs CSR_MSTATUS = Some (False, mstatus)" by (simp add: cycle_csrs_def csr_addr_defs)
  then have "ccsr_map_table f CSR_MSTATUS = Some \<lparr>ccsr_readonly = False, ccsr_obj = ccsr_make mstatus\<rparr>" using f(2) by simp
  then obtain f' where w: "ccsrfile_write CSR_MSTATUS 0xFF (ccsrfile_sync f) = (True, f')"
    by (simp add: ccsrfile_write_def ccsrfile_write_check_def ccsrfile_sync_def ccsrfile_on_all_def)
  show ?thesis using f(1) w cycle_csr_refines_isa[OF s w] by blast
qed

end
