(* ===== verification/Branch_Unit.thy ===== *)
theory Branch_Unit
  imports Exec_Units Rename Phy_Regfile Isa_Inv Cycle_Csr
begin

text \<open>
  \<^verbatim>\<open>pipeline/execute/bru.cpp\<close> and \<^verbatim>\<open>pipeline/execute/csr.cpp\<close>: the execution units for branches and
  for CSR accesses. The branch unit compares the outcome with the prediction the operation carries;
  on a difference it restores the speculative state from the checkpoint of the branch. The CSR unit
  reads the register and computes the value that commit writes later.

  The components a misprediction restores are one record here. The two calls that train the
  predictors are returned as a value. The reads the CSR unit records for the comparison with the
  ISA model are left out.
\<close>

record spec_state =
  sp_rat :: rat
  sp_rob :: rob
  sp_regfile :: "u32 phy_regfile"
  sp_free :: free_list
  sp_checkpoint :: "checkpoint_t fifo"
  sp_load_queue :: load_queue
  sp_store_buffer :: store_buffer

definition spec_sync :: "spec_state \<Rightarrow> spec_state" where
  "spec_sync s =
     s\<lparr>sp_rat := rat_sync (sp_rat s), sp_rob := rob_sync (sp_rob s), sp_regfile := phy_regfile_sync (sp_regfile s),
       sp_free := free_list_sync (sp_free s), sp_checkpoint := fifo_sync (sp_checkpoint s),
       sp_load_queue := load_queue_sync (sp_load_queue s), sp_store_buffer := store_buffer_sync (sp_store_buffer s)\<rparr>"

definition rob_update_wptr :: "nat \<Rightarrow> bool \<Rightarrow> rob \<Rightarrow> rob" where
  "rob_update_wptr p st r = r\<lparr>rob_fifo := update_wptr p st (rob_fifo r)\<rparr>"

definition lq_update_wptr :: "nat \<Rightarrow> bool \<Rightarrow> load_queue \<Rightarrow> load_queue" where
  "lq_update_wptr p st q = q\<lparr>lq_fifo := update_wptr p st (lq_fifo q)\<rparr>"

definition sb_update_wptr :: "nat \<Rightarrow> bool \<Rightarrow> store_buffer \<Rightarrow> store_buffer" where
  "sb_update_wptr p st b = b\<lparr>sb_fifo := update_wptr p st (sb_fifo b)\<rparr>"

subsection \<open>Branches\<close>

definition bru_op ::
    "ccsrfile \<Rightarrow> integer_readreg_execute_pack_t \<Rightarrow> bru_op_t \<Rightarrow> execute_wb_pack_t \<Rightarrow> execute_wb_pack_t option" where
  "bru_op csr p f send =
     (let a = re_src1_value p; b = re_src2_value p in
      case f of
        Bru_beq \<Rightarrow> Some (send\<lparr>wb_bru_jump := (a = b)\<rparr>)
      | Bru_bge \<Rightarrow> Some (send\<lparr>wb_bru_jump := (sint a \<ge> sint b)\<rparr>)
      | Bru_bgeu \<Rightarrow> Some (send\<lparr>wb_bru_jump := (a \<ge> b)\<rparr>)
      | Bru_blt \<Rightarrow> Some (send\<lparr>wb_bru_jump := (sint a < sint b)\<rparr>)
      | Bru_bltu \<Rightarrow> Some (send\<lparr>wb_bru_jump := (a < b)\<rparr>)
      | Bru_bne \<Rightarrow> Some (send\<lparr>wb_bru_jump := (a \<noteq> b)\<rparr>)
      | Bru_jal \<Rightarrow> Some (send\<lparr>wb_rd_value := re_pc p + 4, wb_bru_jump := True\<rparr>)
      | Bru_jalr \<Rightarrow> Some (send\<lparr>wb_rd_value := re_pc p + 4, wb_bru_jump := True,
                         wb_bru_next_pc := (re_imm p + a) AND NOT 0x01\<rparr>)
      | Bru_mret \<Rightarrow> do { pc \<leftarrow> ccsrfile_read_sys CSR_MEPC csr;
                         Some (send\<lparr>wb_bru_jump := True, wb_bru_next_pc := pc\<rparr>) })"

definition bru_exec :: "ccsrfile \<Rightarrow> integer_readreg_execute_pack_t \<Rightarrow> execute_wb_pack_t \<Rightarrow> execute_wb_pack_t option" where
  "bru_exec csr p send =
     do {
       let send1 = send\<lparr>wb_bru_next_pc := re_pc p + re_imm p\<rparr>;
       send2 \<leftarrow> (if re_enable p
         then do {
           verify (re_valid p);
           verify (re_op_unit p = Cunit_bru);
           (case re_sub_op p of Csub_bru f \<Rightarrow> bru_op csr p f send1 | _ \<Rightarrow> None)
         }
         else Some send1);
       Some (if \<not> wb_bru_jump send2 then send2\<lparr>wb_bru_next_pc := re_pc p + 4\<rparr> else send2)
     }"

definition bru_feedback :: "execute_wb_pack_t \<Rightarrow> bru_feedback_pack_t" where
  "bru_feedback send =
     (let bp = wb_branch_predictor_info_pack send in
      \<lparr>bru_flush = (wb_enable send \<and> wb_valid send \<and> \<not> wb_has_exception send \<and>
         (bp_jump bp \<noteq> wb_bru_jump send \<or> bp_next_pc bp \<noteq> wb_bru_next_pc send) \<and> bp_checkpoint_id_valid bp),
       bru_next_pc = wb_bru_next_pc send, bru_rob_id_stage = wb_rob_id_stage send, bru_rob_id = wb_rob_id send\<rparr>)"

definition bru_recover :: "execute_wb_pack_t \<Rightarrow> spec_state \<Rightarrow> spec_state option" where
  "bru_recover send s =
     do {
       cp \<leftarrow> customer_get_item (sp_checkpoint s) (bp_checkpoint_id (wb_branch_predictor_info_pack send));
       rat \<leftarrow> restore_from_checkpoint cp (sp_rat s);
       (new_rob_id, new_rob_id_stage, _) \<leftarrow>
         customer_get_next_id_stage (rob_fifo (sp_rob s)) (wb_rob_id send) (wb_rob_id_stage send);
       free \<leftarrow> free_list_restore (cp_new_phy_id_free_list_rptr cp) (cp_new_phy_id_free_list_rstage cp) (sp_free s);
       Some (s\<lparr>sp_rat := rat, sp_rob := rob_update_wptr new_rob_id new_rob_id_stage (sp_rob s),
         sp_regfile := phy_regfile_restore (wb_rob_id send) (wb_rob_id_stage send) (sp_regfile s),
         sp_checkpoint := update_wptr (cp_new_checkpoint_buffer_wptr cp) (cp_new_checkpoint_buffer_wstage cp) (sp_checkpoint s),
         sp_free := free,
         sp_load_queue := lq_update_wptr (cp_old_load_queue_wptr cp) (cp_old_load_queue_wstage cp) (sp_load_queue s),
         sp_store_buffer := sb_update_wptr (cp_old_store_buffer_wptr cp) (cp_old_store_buffer_wstage cp) (sp_store_buffer s)\<rparr>)
     }"

text \<open>The arguments of the two calls of \<^verbatim>\<open>bru_speculative_update_sync\<close>.\<close>

record predictor_update =
  pu_pc :: u32
  pu_jump :: bool
  pu_next_pc :: u32
  pu_hit :: bool
  pu_info :: branch_predictor_info_pack_t

definition bru_update :: "execute_wb_pack_t \<Rightarrow> predictor_update" where
  "bru_update send = \<lparr>pu_pc = wb_pc send, pu_jump = wb_bru_jump send, pu_next_pc = wb_bru_next_pc send, pu_hit = False,
     pu_info = wb_branch_predictor_info_pack send\<rparr>"

text \<open>
  The first half of \<^verbatim>\<open>run\<close>, up to the label \<^verbatim>\<open>exit\<close>. With \<^verbatim>\<open>need_bru_feedback_only\<close> the operation
  stays in the register between the stages.
\<close>

definition bru_take ::
    "bool \<Rightarrow> integer_readreg_execute_pack_t handshake_dff \<Rightarrow>
     (integer_readreg_execute_pack_t option \<times> integer_readreg_execute_pack_t handshake_dff)" where
  "bru_take only h = (if only then (hs_get_data h, h) else hs_pop h)"

definition bru_compute ::
    "sau_feedback_pack_t \<Rightarrow> commit_feedback_pack_t \<Rightarrow> bool \<Rightarrow> ccsrfile \<Rightarrow> exec_unit \<Rightarrow> (execute_wb_pack_t \<times> exec_unit) option" where
  "bru_compute sau commit only csr u =
     (if \<not> hs_is_empty (eu_hdff u) \<and> \<not> cf_flush commit
      then (case bru_take only (eu_hdff u) of
              (None, h) \<Rightarrow> None
            | (Some p, h) \<Rightarrow>
                if sau_kills sau (re_rob_id p) (re_rob_id_stage p) then Some (execute_wb_pack_make, u\<lparr>eu_hdff := h\<rparr>)
                else do {
                  send \<leftarrow> bru_exec csr p (execute_pass p execute_wb_pack_make);
                  Some (send, u\<lparr>eu_hdff := h\<rparr>)
                })
      else Some (execute_wb_pack_make, u))"

text \<open>\<^verbatim>\<open>run\<close> with \<^verbatim>\<open>need_bru_feedback_only\<close>, and without.\<close>

definition bru_run_feedback ::
    "sau_feedback_pack_t \<Rightarrow> commit_feedback_pack_t \<Rightarrow> ccsrfile \<Rightarrow> exec_unit \<Rightarrow> bru_feedback_pack_t option" where
  "bru_run_feedback sau commit csr u =
     do { (send, u') \<leftarrow> bru_compute sau commit True csr u; Some (bru_feedback send) }"

definition bru_run ::
    "sau_feedback_pack_t \<Rightarrow> commit_feedback_pack_t \<Rightarrow> ccsrfile \<Rightarrow> exec_unit \<Rightarrow> spec_state \<Rightarrow>
     (execute_feedback_channel_t \<times> exec_unit \<times> spec_state \<times> predictor_update option) option" where
  "bru_run sau commit csr u s =
     do {
       (send, u1) \<leftarrow> bru_compute sau commit False csr u;
       let u2 = u1\<lparr>eu_port := port_set send (eu_port u1)\<rparr>;
       (if bru_flush (bru_feedback send)
        then do { s' \<leftarrow> bru_recover send s; Some (execute_feedback send, u2, s', Some (bru_update send)) }
        else Some (execute_feedback send, u2, s, None))
     }"

subsection \<open>CSR accesses\<close>

definition csr_op_value :: "csr_op_t \<Rightarrow> u32 \<Rightarrow> u32 \<Rightarrow> u32" where
  "csr_op_value f v src =
     (case f of Csr_csrrc \<Rightarrow> v AND NOT src | Csr_csrrs \<Rightarrow> v OR src | Csr_csrrw \<Rightarrow> src)"

definition csr_illegal :: "integer_readreg_execute_pack_t \<Rightarrow> execute_wb_pack_t \<Rightarrow> execute_wb_pack_t" where
  "csr_illegal p send =
     send\<lparr>wb_has_exception := True, wb_exception_id := illegal_instruction, wb_exception_value := re_value p\<rparr>"

definition csr_exec :: "ccsrfile \<Rightarrow> integer_readreg_execute_pack_t \<Rightarrow> execute_wb_pack_t \<Rightarrow> execute_wb_pack_t option" where
  "csr_exec f p send =
     (if re_enable p
      then do {
        verify (re_valid p);
        verify (re_op_unit p = Cunit_csr);
        let r = ccsrfile_read (re_csr p) f;
        let csr_value = (case r of Some v \<Rightarrow> v | None \<Rightarrow> 0);
        (if re_need_rename p \<and> r = None then Some (csr_illegal p send)
         else do {
           let send1 = send\<lparr>wb_rd_value := csr_value, wb_csr_newvalue_valid := False\<rparr>;
           (if \<not> (wb_arg1_src send1 = Arg_reg \<and> \<not> wb_rs1_need_map send1)
            then (case re_sub_op p of
                    Csub_csr g \<Rightarrow>
                      let v = csr_op_value g csr_value (re_src1_value p) in
                      Some (if \<not> ccsrfile_write_check (re_csr p) v f then csr_illegal p send1
                            else send1\<lparr>wb_csr_newvalue := v, wb_csr_newvalue_valid := True\<rparr>)
                  | _ \<Rightarrow> None)
            else Some send1)
         })
      }
      else Some send)"

definition csr_run :: "commit_feedback_pack_t \<Rightarrow> ccsrfile \<Rightarrow> exec_unit \<Rightarrow> (execute_feedback_channel_t \<times> exec_unit) option" where
  "csr_run commit f u =
     do {
       (send, h) \<leftarrow>
         (if \<not> cf_flush commit \<and> \<not> hs_is_empty (eu_hdff u)
          then (case hs_pop (eu_hdff u) of
                  (None, h) \<Rightarrow> None
                | (Some p, h) \<Rightarrow> do { send \<leftarrow> csr_exec f p (execute_pass p execute_wb_pack_make); Some (send, h) })
          else Some (execute_wb_pack_make, eu_hdff u));
       Some (execute_feedback send, u\<lparr>eu_hdff := h, eu_port := port_set send (eu_port u)\<rparr>)
     }"

subsection \<open>Agreement with the ISA model\<close>

text \<open>An operation the branch or the CSR unit takes in this cycle.\<close>

definition unit_takes ::
    "sau_feedback_pack_t \<Rightarrow> commit_feedback_pack_t \<Rightarrow> exec_unit \<Rightarrow> integer_readreg_execute_pack_t \<Rightarrow> bool" where
  "unit_takes sau commit u p \<longleftrightarrow> hs_get_data (eu_hdff u) = Some p \<and> \<not> cf_flush commit \<and>
     \<not> sau_kills sau (re_rob_id p) (re_rob_id_stage p) \<and> re_enable p \<and> re_valid p \<and> \<not> re_has_exception p"

lemma bru_exec_isa:
  assumes "re_enable p" and "re_valid p" and "\<not> re_has_exception p" and "re_op_unit p = Cunit_bru" and "re_sub_op p = Csub_bru g"
    and "csr_settled f" and "csr_view f = m_csr_file m" and "m_pc m = re_pc p + 4"
    and "execute_bru (isa_view p (Sub_bru g)) m = Some (s', m')"
  shows "\<exists>q. bru_exec f p (execute_pass p execute_wb_pack_make) = Some q \<and> wb_bru_next_pc q = m_pc m' \<and>
    wb_bru_jump q = bru_taken g (re_src1_value p) (re_src2_value p) \<and> wb_rd_value q = i_rd_value s' \<and>
    wb_enable q \<and> wb_valid q \<and> \<not> wb_has_exception q \<and> wb_rob_id q = re_rob_id p \<and> wb_rob_id_stage q = re_rob_id_stage p \<and>
    wb_branch_predictor_info_pack q = re_branch_predictor_info_pack p"
proof -
  have r: "csr_inst_read CSR_MEPC m = ccsrfile_read_sys CSR_MEPC f"
    using csr_view_read(2)[OF assms(6), of CSR_MEPC] assms(7) by (simp add: csr_inst_read_def)
  have pc: "csr_inst_write a v m0 = Some m1 \<Longrightarrow> m_pc m1 = m_pc m0" for a v m0 m1
    by (auto simp: csr_inst_write_def split: Option.bind_splits)
  show ?thesis
    using assms(1-5,8,9)
    by (cases g) (auto simp: bru_exec_def bru_op_def execute_bru_def isa_mret_def isa_view_def isa_state_make_def execute_pass_def
        execute_wb_pack_make_def Let_def r dest: pc split: Option.bind_splits)
qed

lemma csr_op_value_isa: "csr_op_value g v a = csr_new_value g v a"
  by (cases g) (simp_all add: csr_op_value_def)

text \<open>The state in which the ISA model would execute the same access.\<close>

definition isa_csr_view :: "integer_readreg_execute_pack_t \<Rightarrow> csr_op_t \<Rightarrow> isa_state_t" where
  "isa_csr_view p g =
     (isa_view p (Sub_csr g))\<lparr>i_csr := re_csr p, i_rd := re_rd p, i_rd_enable := re_rd_enable p, i_rs1 := re_rs1 p,
        i_arg1_src := re_arg1_src p\<rparr>"

lemma csr_exec_isa:
  assumes "re_enable p" and "re_valid p" and "\<not> re_has_exception p" and "re_op_unit p = Cunit_csr" and "re_sub_op p = Csub_csr g"
    and "csr_settled f" and "csr_view f = m_csr_file m"
    and "re_need_rename p \<longleftrightarrow> re_rd_enable p \<and> re_rd p \<noteq> 0" and "re_rs1_need_map p \<longleftrightarrow> re_rs1 p \<noteq> 0"
  shows "\<exists>q s' m'. csr_exec f p (execute_pass p execute_wb_pack_make) = Some q \<and>
    execute_csr (isa_csr_view p g) m = Some (s', m') \<and>
    wb_has_exception q = i_has_exception s' \<and> (i_has_exception s' \<longrightarrow> wb_exception_id q = i_exception_id s') \<and>
    wb_rd_value q = i_rd_value s' \<and> wb_need_rename q = re_need_rename p \<and>
    (if wb_csr_newvalue_valid q
     then \<exists>f'. ccsrfile_write (re_csr p) (wb_csr_newvalue q) f = (True, f') \<and> csr_view (ccsrfile_sync f') = m_csr_file m'
     else m' = m)"
proof -
  have w: "fst (ccsrfile_write a v f) = ccsrfile_write_check a v f" for a v
    by (auto simp: ccsrfile_write_def ccsrfile_write_check_def split: option.splits)
  have c: "csrfile_write a v (m_csr_file m) = (ok, csr_view (ccsrfile_sync f'))" if "ccsrfile_write a v f = (ok, f')" for a v ok f'
    using csr_view_write(1)[OF assms(6) that] assms(7) by simp
  have rd: "csrfile_read a (m_csr_file m) = ccsrfile_read a f" for a
    using csr_view_read(1)[OF assms(6), of a] assms(7) by simp
  define v where "v = csr_new_value g (case ccsrfile_read (re_csr p) f of Some v \<Rightarrow> v | None \<Rightarrow> 0) (re_src1_value p)"
  obtain ok f' where wr: "ccsrfile_write (re_csr p) v f = (ok, f')" by fastforce
  have ok: "ccsrfile_write_check (re_csr p) v f = ok" using w[of "re_csr p" v] wr by simp
  have cv: "(case ccsrfile_read (re_csr p) f of None \<Rightarrow> 0 | Some v \<Rightarrow> v) = (case ccsrfile_read (re_csr p) f of Some v \<Rightarrow> v | None \<Rightarrow> 0)"
    by (rule refl)
  consider "re_need_rename p \<and> ccsrfile_read (re_csr p) f = None"
    | "\<not> (re_need_rename p \<and> ccsrfile_read (re_csr p) f = None)" "re_arg1_src p = Arg_reg \<and> \<not> re_rs1_need_map p"
    | "\<not> (re_need_rename p \<and> ccsrfile_read (re_csr p) f = None)" "\<not> (re_arg1_src p = Arg_reg \<and> \<not> re_rs1_need_map p)"
    by blast
  then show ?thesis
  proof cases
    case 1
    then show ?thesis using assms(1-5,8)
      by (simp add: csr_exec_def execute_csr_def isa_csr_view_def isa_view_def isa_state_make_def execute_pass_def
          execute_wb_pack_make_def csr_illegal_def rd Let_def)
  next
    case 2
    then show ?thesis using assms(1-5,8,9)
      by (auto simp: csr_exec_def execute_csr_def isa_csr_view_def isa_view_def isa_state_make_def execute_pass_def
          execute_wb_pack_make_def rd Let_def)
  next
    case 3
    then show ?thesis using assms(1-5,8,9) c[OF wr] wr ok
      by (auto simp: csr_exec_def execute_csr_def isa_csr_view_def isa_view_def isa_state_make_def execute_pass_def
          execute_wb_pack_make_def csr_illegal_def rd Let_def csr_op_value_isa v_def)
  qed
qed

lemma bru_compute_takes:
  assumes "unit_takes sau commit u p" and "bru_exec f p (execute_pass p execute_wb_pack_make) = Some q"
  shows "\<exists>h. bru_compute sau commit only f u = Some (q, u\<lparr>eu_hdff := h\<rparr>)"
  using assms
  by (cases only; intro exI[of _ "snd (bru_take only (eu_hdff u))"])
    (auto simp: bru_compute_def unit_takes_def bru_take_def hs_get_data_def hs_pop_def split: if_splits)

subsection \<open>Properties\<close>

text \<open>
  C35. The branch unit agrees with the ISA model on every branch, jump and return: the program counter it sends is the
  one the ISA model continues at and the link value is the same. It asks for a flush exactly when the prediction the operation
  carries differs from this outcome and the operation has a checkpoint; both calls of a cycle see the same outcome.
\<close>

theorem bru_unit_matches_isa:
  assumes "unit_takes sau commit u p" and "re_op_unit p = Cunit_bru" and "re_sub_op p = Csub_bru g"
    and "csr_settled f" and "csr_view f = m_csr_file m" and "m_pc m = re_pc p + 4"
    and "execute_bru (isa_view p (Sub_bru g)) m = Some (s', m')"
  shows "\<exists>q u'. bru_run_feedback sau commit f u = Some (bru_feedback q) \<and>
    bru_run sau commit f u st =
      (if bru_flush (bru_feedback q)
       then map_option (\<lambda>st'. (execute_feedback q, u', st', Some (bru_update q))) (bru_recover q st)
       else Some (execute_feedback q, u', st, None)) \<and>
    port_get (eu_port (exec_unit_sync u')) = q \<and> bru_next_pc (bru_feedback q) = m_pc m' \<and> wb_bru_next_pc q = m_pc m' \<and>
    wb_rd_value q = i_rd_value s' \<and>
    (let bp = re_branch_predictor_info_pack p in
     bru_flush (bru_feedback q) \<longleftrightarrow> bp_checkpoint_id_valid bp \<and>
       (bp_next_pc bp \<noteq> m_pc m' \<or> bp_jump bp \<noteq> bru_taken g (re_src1_value p) (re_src2_value p)))"
proof -
  have t: "re_enable p" "re_valid p" "\<not> re_has_exception p" using assms(1) by (simp_all add: unit_takes_def)
  obtain q where q: "bru_exec f p (execute_pass p execute_wb_pack_make) = Some q" "wb_bru_next_pc q = m_pc m'"
    "wb_bru_jump q = bru_taken g (re_src1_value p) (re_src2_value p)" "wb_rd_value q = i_rd_value s'"
    "wb_enable q" "wb_valid q" "\<not> wb_has_exception q" "wb_branch_predictor_info_pack q = re_branch_predictor_info_pack p"
    using bru_exec_isa[OF t assms(2-7)] by blast
  obtain h1 h2 where c: "bru_compute sau commit True f u = Some (q, u\<lparr>eu_hdff := h1\<rparr>)"
    "bru_compute sau commit False f u = Some (q, u\<lparr>eu_hdff := h2\<rparr>)"
    using bru_compute_takes[OF assms(1) q(1)] by blast
  let ?u = "u\<lparr>eu_hdff := h2, eu_port := port_set q (eu_port u)\<rparr>"
  have port: "port_get (eu_port (exec_unit_sync ?u)) = q"
    by (simp add: exec_unit_sync_def port_get_def port_sync_def port_set_def dff_get_def dff_sync_def dff_set_def)
  have f1: "bru_run_feedback sau commit f u = Some (bru_feedback q)" using c(1) by (simp add: bru_run_feedback_def)
  have f2: "bru_run sau commit f u st =
      (if bru_flush (bru_feedback q)
       then map_option (\<lambda>st'. (execute_feedback q, ?u, st', Some (bru_update q))) (bru_recover q st)
       else Some (execute_feedback q, ?u, st, None))"
    using c(2) by (cases "bru_recover q st") (simp_all add: bru_run_def)
  show ?thesis using f1 f2 port q by (intro exI[of _ q] exI[of _ ?u]) (auto simp: bru_feedback_def Let_def)
qed

definition demo_branch :: integer_readreg_execute_pack_t where
  "demo_branch = integer_readreg_execute_pack_make\<lparr>re_enable := True, re_valid := True, re_op_unit := Cunit_bru, re_sub_op := Csub_bru Bru_blt,
     re_pc := 0x80000000, re_imm := 0x40, re_src1_value := 0xFFFFFFFF, re_src2_value := 1,
     re_branch_predictor_info_pack := branch_predictor_info_pack_make\<lparr>bp_checkpoint_id_valid := True, bp_next_pc := 0x80000004\<rparr>\<rparr>"

theorem bru_unit_matches_isa_witness:
  "\<exists>fb. bru_run_feedback quiet_sau quiet_commit (ccsrfile_make [] [])
      \<lparr>eu_hdff = demo_slot demo_branch, eu_port = port_make execute_wb_pack_make\<rparr> = Some fb \<and>
     bru_flush fb \<and> bru_next_pc fb = 0x80000040"
proof -
  let ?u = "\<lparr>eu_hdff = demo_slot demo_branch, eu_port = port_make execute_wb_pack_make\<rparr>"
  let ?f = "ccsrfile_make [] []"
  obtain m0 where "isa_make [] [] = Some m0" using isa_make_wf[of "[]" "[]"] by blast
  let ?m = "m0\<lparr>m_csr_file := csr_view ?f, m_pc := 0x80000004\<rparr>"
  have t: "unit_takes quiet_sau quiet_commit ?u demo_branch"
    by (simp add: unit_takes_def demo_slot_data quiet_commit_def quiet_sau_def sau_kills_def demo_branch_def
        integer_readreg_execute_pack_make_def)
  have d: "re_op_unit demo_branch = Cunit_bru" "re_sub_op demo_branch = Csub_bru Bru_blt" "m_pc ?m = re_pc demo_branch + 4"
    "csr_settled ?f" "csr_view ?f = m_csr_file ?m"
    by (simp_all add: demo_branch_def csr_settled_def ccsrfile_make_def)
  have e: "execute_bru (isa_view demo_branch (Sub_bru Bru_blt)) ?m = Some (isa_view demo_branch (Sub_bru Bru_blt), ?m\<lparr>m_pc := 0x80000040\<rparr>)"
    by (simp add: execute_bru_def isa_view_def demo_branch_def integer_readreg_execute_pack_make_def isa_state_make_def)
  show ?thesis
    using bru_unit_matches_isa[OF t d(1,2,4,5,3) e, of undefined]
    by (auto simp: Let_def demo_branch_def branch_predictor_info_pack_make_def)
qed

text \<open>
  C36. The CSR unit agrees with the ISA model: the same value is read, the same accesses are illegal, and the value it leaves for
  commit to write leads to the CSR file of the ISA model after the instruction.
\<close>

theorem csr_unit_matches_isa:
  assumes "unit_takes quiet_sau commit u p" and "re_op_unit p = Cunit_csr" and "re_sub_op p = Csub_csr g"
    and "csr_settled f" and "csr_view f = m_csr_file m"
    and "re_need_rename p \<longleftrightarrow> re_rd_enable p \<and> re_rd p \<noteq> 0" and "re_rs1_need_map p \<longleftrightarrow> re_rs1 p \<noteq> 0"
  shows "\<exists>q u' s' m'. csr_run commit f u = Some (execute_feedback q, u') \<and> port_get (eu_port (exec_unit_sync u')) = q \<and>
    execute_csr (isa_csr_view p g) m = Some (s', m') \<and>
    wb_has_exception q = i_has_exception s' \<and> (i_has_exception s' \<longrightarrow> wb_exception_id q = i_exception_id s') \<and>
    wb_rd_value q = i_rd_value s' \<and>
    (if wb_csr_newvalue_valid q
     then \<exists>f'. ccsrfile_write (re_csr p) (wb_csr_newvalue q) f = (True, f') \<and> csr_view (ccsrfile_sync f') = m_csr_file m'
     else m' = m)"
proof -
  have t: "re_enable p" "re_valid p" "\<not> re_has_exception p" using assms(1) by (simp_all add: unit_takes_def)
  obtain q s' m' where q: "csr_exec f p (execute_pass p execute_wb_pack_make) = Some q" "execute_csr (isa_csr_view p g) m = Some (s', m')"
    "wb_has_exception q = i_has_exception s'" "i_has_exception s' \<longrightarrow> wb_exception_id q = i_exception_id s'"
    "wb_rd_value q = i_rd_value s'"
    "if wb_csr_newvalue_valid q
     then \<exists>f'. ccsrfile_write (re_csr p) (wb_csr_newvalue q) f = (True, f') \<and> csr_view (ccsrfile_sync f') = m_csr_file m' else m' = m"
    using csr_exec_isa[OF t assms(2-7)] by blast
  obtain h where h: "hs_pop (eu_hdff u) = (Some p, h)" "\<not> hs_is_empty (eu_hdff u)" "\<not> cf_flush commit"
    using assms(1) by (auto simp: unit_takes_def hs_get_data_def hs_pop_def split: if_splits)
  let ?u = "u\<lparr>eu_hdff := h, eu_port := port_set q (eu_port u)\<rparr>"
  have "csr_run commit f u = Some (execute_feedback q, ?u)" using h q(1) by (simp add: csr_run_def)
  moreover have "port_get (eu_port (exec_unit_sync ?u)) = q"
    by (simp add: exec_unit_sync_def port_get_def port_sync_def port_set_def dff_get_def dff_sync_def dff_set_def)
  ultimately show ?thesis using q(2-6) by blast
qed

definition demo_csr :: integer_readreg_execute_pack_t where
  "demo_csr = integer_readreg_execute_pack_make\<lparr>re_enable := True, re_valid := True, re_op_unit := Cunit_csr, re_sub_op := Csub_csr Csr_csrrw,
     re_csr := 0x305, re_rd := 5, re_rd_enable := True, re_need_rename := True, re_rs1 := 6, re_rs1_need_map := True, re_src1_value := 0x80000100\<rparr>"

theorem csr_unit_matches_isa_witness:
  "\<exists>fb u'. csr_run quiet_commit (ccsrfile_make [] []) \<lparr>eu_hdff = demo_slot demo_csr, eu_port = port_make execute_wb_pack_make\<rparr> = Some (fb, u') \<and>
     wb_has_exception (port_get (eu_port (exec_unit_sync u'))) \<and>
     wb_exception_id (port_get (eu_port (exec_unit_sync u'))) = illegal_instruction"
proof -
  let ?u = "\<lparr>eu_hdff = demo_slot demo_csr, eu_port = port_make execute_wb_pack_make\<rparr>"
  let ?f = "ccsrfile_make [] []"
  obtain m0 where "isa_make [] [] = Some m0" using isa_make_wf[of "[]" "[]"] by blast
  let ?m = "m0\<lparr>m_csr_file := csr_view ?f\<rparr>"
  have t: "unit_takes quiet_sau quiet_commit ?u demo_csr"
    by (simp add: unit_takes_def demo_slot_data quiet_commit_def quiet_sau_def sau_kills_def demo_csr_def
        integer_readreg_execute_pack_make_def)
  have d: "re_op_unit demo_csr = Cunit_csr" "re_sub_op demo_csr = Csub_csr Csr_csrrw" "csr_settled ?f" "csr_view ?f = m_csr_file ?m"
    "re_need_rename demo_csr \<longleftrightarrow> re_rd_enable demo_csr \<and> re_rd demo_csr \<noteq> 0" "re_rs1_need_map demo_csr \<longleftrightarrow> re_rs1 demo_csr \<noteq> 0"
    by (simp_all add: demo_csr_def csr_settled_def ccsrfile_make_def)
  have e: "\<exists>s. execute_csr (isa_csr_view demo_csr Csr_csrrw) ?m = Some (s, ?m) \<and> i_has_exception s \<and> i_exception_id s = illegal_instruction"
    by (simp add: execute_csr_def isa_csr_view_def isa_view_def demo_csr_def integer_readreg_execute_pack_make_def isa_state_make_def
        csrfile_read_def csrfile_enabled_def csr_view_def ccsrfile_make_def)
  show ?thesis using csr_unit_matches_isa[OF t d] e by auto
qed

end
