(* ===== verification/Cycle_Bus.thy ===== *)
theory Cycle_Bus
  imports Cycle_Csr Isa_Bus
begin

text \<open>
  The two buses of the cycle model and what they reach: \<^verbatim>\<open>cycle_model/component/bus.h\<close>,
  \<^verbatim>\<open>slave_base.h\<close>, \<^verbatim>\<open>slave/memory.h\<close>, \<^verbatim>\<open>slave/clint.h\<close> and \<^verbatim>\<open>pma_unit.h\<close>.

  A request goes to the slave at once; the answer comes later, when the slave writes the
  response registers of the bus it is connected to (\<^verbatim>\<open>bus_if\<close>). The response registers are a
  record of their own, which the operations of a slave take and return; the slave objects are
  held by the entries of the slave list. The memory delays its answers by two shift
  registers, one for reads and one for writes; the bytes and their size are the record
  \<open>memory\<close> of the ISA model, which has the same byte array.

  An access that fails the check of \<^verbatim>\<open>slave_base\<close> is dropped without an answer.
\<close>

subsection \<open>Response registers\<close>

datatype bus_errno_t = Bus_none | Bus_error

record cerror_msg_t =
  cerr_addr :: u32
  cerr_size :: u32
  cerr_value :: u32
  cerr_is_write :: bool
  cerr_is_fetch :: bool

record bus_if =
  instruction_value :: "u32 dff list"
  instruction_value_valid :: "bool dff"
  data_value :: "u32 dff"
  data_value_valid :: "bool dff"
  data_write_ack :: "bool dff"
  data_write_errno :: "bus_errno_t dff"
  revoke_data_cnt :: u32
  cerror_msg_queue :: "cerror_msg_t list"

definition FETCH_WIDTH :: nat where "FETCH_WIDTH = 4"

text \<open>The registers without an explicit initial value start at the zero of their type.\<close>

definition bus_if_make :: bus_if where
  "bus_if_make =
     \<lparr>instruction_value = replicate FETCH_WIDTH (dff_make 0),
      instruction_value_valid = dff_make False, data_value = dff_make 0,
      data_value_valid = dff_make False, data_write_ack = dff_make False,
      data_write_errno = dff_make Bus_none, revoke_data_cnt = 0, cerror_msg_queue = []\<rparr>"

definition get_instruction_value :: "bus_if \<Rightarrow> u32 list option" where
  "get_instruction_value b =
     (if dff_get (instruction_value_valid b) then Some (map dff_get (instruction_value b)) else None)"

definition get_data_value :: "bus_if \<Rightarrow> u32 option" where
  "get_data_value b = (if dff_get (data_value_valid b) then Some (dff_get (data_value b)) else None)"

text \<open>
  \<^verbatim>\<open>instruction_value[i] = value[i]\<close> and \<^verbatim>\<open>data_value = value\<close> assign a new register, whose
  current value is the argument at once; only the valid flags wait for the clock.
\<close>

definition set_instruction_value :: "u32 list \<Rightarrow> bus_if \<Rightarrow> bus_if" where
  "set_instruction_value vs b =
     b\<lparr>instruction_value_valid := dff_set True (instruction_value_valid b),
       instruction_value := map dff_make vs\<rparr>"

definition set_data_value :: "u32 \<Rightarrow> bus_if \<Rightarrow> bus_if" where
  "set_data_value v b =
     (if revoke_data_cnt b > 0 then b\<lparr>revoke_data_cnt := revoke_data_cnt b - 1\<rparr>
      else b\<lparr>data_value_valid := dff_set True (data_value_valid b), data_value := dff_make v\<rparr>)"

definition revoke_data_request :: "bus_if \<Rightarrow> bus_if" where
  "revoke_data_request b =
     (if \<not> dff_get (data_value_valid b) then b\<lparr>revoke_data_cnt := revoke_data_cnt b + 1\<rparr> else b)"

definition get_data_write_ack :: "bus_if \<Rightarrow> bus_errno_t option" where
  "get_data_write_ack b =
     (if dff_get (data_write_ack b) then Some (dff_get (data_write_errno b)) else None)"

definition set_data_write_ack :: "bus_errno_t \<Rightarrow> bus_if \<Rightarrow> bus_if" where
  "set_data_write_ack e b =
     b\<lparr>data_write_ack := dff_set True (data_write_ack b),
       data_write_errno := dff_set e (data_write_errno b)\<rparr>"

definition clear_unchanged :: "bool dff \<Rightarrow> bool dff" where
  "clear_unchanged d = (if \<not> dff_is_changed d then dff_set False d else d)"

definition bus_if_run :: "bus_if \<Rightarrow> bus_if" where
  "bus_if_run b =
     b\<lparr>instruction_value_valid := clear_unchanged (instruction_value_valid b),
       data_value_valid := clear_unchanged (data_value_valid b),
       data_write_ack := clear_unchanged (data_write_ack b)\<rparr>"

definition bus_if_sync :: "bus_if \<Rightarrow> bus_if" where
  "bus_if_sync b =
     b\<lparr>instruction_value := map dff_sync (instruction_value b),
       instruction_value_valid := dff_sync (instruction_value_valid b),
       data_value := dff_sync (data_value b), data_value_valid := dff_sync (data_value_valid b),
       data_write_ack := dff_sync (data_write_ack b),
       data_write_errno := dff_sync (data_write_errno b)\<rparr>"

subsection \<open>The memory\<close>

record write_request =
  wr_addr :: u32
  wr_value :: u32
  wr_size :: u32
  wr_valid :: bool

record cmemory =
  cmem_bytes :: memory
  data_read_latency :: nat
  read_data :: "(u32 \<times> bool) list"
  data_write_latency :: nat
  write_data :: "write_request list"

text \<open>
  The arrays \<^verbatim>\<open>read_data_value\<close>, \<^verbatim>\<open>read_data_valid\<close> are one list of pairs, the four write
  arrays one list of records. \<^verbatim>\<open>_reset\<close> clears \<^verbatim>\<open>data_read_latency + 1\<close> entries of both
  valid arrays, the one for writes too.
\<close>

definition clear_read :: "nat \<Rightarrow> (u32 \<times> bool) list \<Rightarrow> (u32 \<times> bool) list" where
  "clear_read n xs = map (\<lambda>(v, _). (v, False)) (take n xs) @ drop n xs"

definition clear_write :: "nat \<Rightarrow> write_request list \<Rightarrow> write_request list" where
  "clear_write n xs = map (\<lambda>w. w\<lparr>wr_valid := False\<rparr>) (take n xs) @ drop n xs"

definition cmemory_reset :: "cmemory \<Rightarrow> cmemory option" where
  "cmemory_reset m =
     do {
       verify (data_read_latency m + 1 \<le> length (write_data m));
       Some (m\<lparr>cmem_bytes := memory_reset (cmem_bytes m),
               read_data := clear_read (data_read_latency m + 1) (read_data m),
               write_data := clear_write (data_read_latency m + 1) (write_data m)\<rparr>)
     }"

text \<open>\<^verbatim>\<open>new\<close> leaves the arrays uninitialised; their contents are parameters here.\<close>

definition cmemory_make ::
    "nat \<Rightarrow> nat \<Rightarrow> (u32 \<times> bool) list \<Rightarrow> write_request list \<Rightarrow> cmemory option" where
  "cmemory_make rl wl rd wd = cmemory_reset
     \<lparr>cmem_bytes = memory_init 0, data_read_latency = rl, read_data = rd,
      data_write_latency = wl, write_data = wd\<rparr>"

definition cmemory_init :: "u32 \<Rightarrow> cmemory \<Rightarrow> cmemory" where
  "cmemory_init sz m = m\<lparr>cmem_bytes := memory_init sz\<rparr>"

definition cmemory_post_write :: "u32 \<Rightarrow> u32 \<Rightarrow> u32 \<Rightarrow> cmemory \<Rightarrow> cmemory" where
  "cmemory_post_write addr sz v m =
     m\<lparr>write_data := (write_data m)
        [0 := \<lparr>wr_addr = addr, wr_value = v, wr_size = sz, wr_valid = True\<rparr>]\<rparr>"

definition cmemory_write8 :: "u32 \<Rightarrow> u8 \<Rightarrow> cmemory \<Rightarrow> cmemory" where
  "cmemory_write8 addr v m = cmemory_post_write addr 1 (ucast v) m"

definition cmemory_write16 :: "u32 \<Rightarrow> u16 \<Rightarrow> cmemory \<Rightarrow> cmemory" where
  "cmemory_write16 addr v m = cmemory_post_write addr 2 (ucast v) m"

definition cmemory_write32 :: "u32 \<Rightarrow> u32 \<Rightarrow> cmemory \<Rightarrow> cmemory" where
  "cmemory_write32 addr v m = cmemory_post_write addr 4 v m"

definition cmemory_post_read :: "u32 \<Rightarrow> cmemory \<Rightarrow> cmemory" where
  "cmemory_post_read v m = m\<lparr>read_data := (read_data m)[0 := (v, True)]\<rparr>"

definition cmemory_read8 :: "u32 \<Rightarrow> cmemory \<Rightarrow> cmemory" where
  "cmemory_read8 addr m = cmemory_post_read (ucast (memory_read8 addr (cmem_bytes m))) m"

definition cmemory_read16 :: "u32 \<Rightarrow> cmemory \<Rightarrow> cmemory" where
  "cmemory_read16 addr m = cmemory_post_read (ucast (memory_read16 addr (cmem_bytes m))) m"

definition cmemory_read32 :: "u32 \<Rightarrow> cmemory \<Rightarrow> cmemory" where
  "cmemory_read32 addr m = cmemory_post_read (memory_read32 addr (cmem_bytes m)) m"

text \<open>
  \<^verbatim>\<open>_read_instruction\<close> hands the bus a pointer into the array, from which it copies
  \<open>FETCH_WIDTH\<close> words; a group that passes the end of the array is undefined.
\<close>

definition cmemory_read_instruction :: "u32 \<Rightarrow> cmemory \<Rightarrow> bus_if \<Rightarrow> bus_if option" where
  "cmemory_read_instruction addr m b =
     do {
       verify (unat addr + 4 * FETCH_WIDTH \<le> unat (mem_size (cmem_bytes m)));
       Some (set_instruction_value
         (map (\<lambda>i. memory_read32 (addr + 4 * of_nat i) (cmem_bytes m)) [0..<FETCH_WIDTH]) b)
     }"

text \<open>The shift loops of \<^verbatim>\<open>run_post\<close> move every entry one place up and clear the first.\<close>

definition shift_read :: "(u32 \<times> bool) list \<Rightarrow> (u32 \<times> bool) list" where
  "shift_read xs = (fst (hd xs), False) # butlast xs"

definition shift_write :: "write_request list \<Rightarrow> write_request list" where
  "shift_write xs = (hd xs)\<lparr>wr_valid := False\<rparr> # butlast xs"

definition memory_apply :: "write_request \<Rightarrow> memory \<Rightarrow> memory option" where
  "memory_apply w m =
     (if wr_size w = 1 then Some (memory_write8 (wr_addr w) (ucast (wr_value w)) m)
      else if wr_size w = 2 then Some (memory_write16 (wr_addr w) (ucast (wr_value w)) m)
      else if wr_size w = 4 then Some (memory_write32 (wr_addr w) (wr_value w) m)
      else None)"

definition cmemory_run_post :: "cmemory \<Rightarrow> bus_if \<Rightarrow> (cmemory \<times> bus_if) option" where
  "cmemory_run_post m b =
     do {
       let (rv, rvalid) = read_data m ! data_read_latency m;
       let b1 = (if rvalid then set_data_value rv b else b);
       let m1 = m\<lparr>read_data := shift_read (read_data m)\<rparr>;
       let w = write_data m ! data_write_latency m;
       (m2, b2) \<leftarrow> (if wr_valid w
          then do { bytes \<leftarrow> memory_apply w (cmem_bytes m1);
                    Some (m1\<lparr>cmem_bytes := bytes\<rparr>, set_data_write_ack Bus_none b1) }
          else Some (m1, b1));
       Some (m2\<lparr>write_data := shift_write (write_data m2)\<rparr>, b2)
     }"

subsection \<open>The timer\<close>

record cclint =
  cclint_size :: u32
  cclint_msip :: "bool dff"
  cclint_mtimecmp :: "u64 dff"
  cclint_mtime :: "u64 dff"

definition cclint_reset :: "cclint \<Rightarrow> cclint" where
  "cclint_reset c =
     c\<lparr>cclint_msip := dff_set False (cclint_msip c), cclint_mtimecmp := dff_set 0 (cclint_mtimecmp c),
       cclint_mtime := dff_set 0 (cclint_mtime c)\<rparr>"

definition cclint_make :: cclint where
  "cclint_make = cclint_reset
     \<lparr>cclint_size = 0, cclint_msip = dff_make False, cclint_mtimecmp = dff_make 0,
      cclint_mtime = dff_make 0\<rparr>"

definition with_low :: "u64 \<Rightarrow> u32 \<Rightarrow> u64" where
  "with_low x v = (x AND 0xFFFFFFFF00000000) OR ucast v"

definition with_high :: "u64 \<Rightarrow> u32 \<Rightarrow> u64" where
  "with_high x v = (x AND 0xFFFFFFFF) OR push_bit 32 (ucast v)"

definition cclint_write32 :: "u32 \<Rightarrow> u32 \<Rightarrow> cclint \<Rightarrow> bus_if \<Rightarrow> cclint \<times> bus_if" where
  "cclint_write32 addr v c b =
     (if addr = MSIP_ADDR
      then (c\<lparr>cclint_msip := dff_set (v AND 0x01 \<noteq> 0) (cclint_msip c)\<rparr>, set_data_write_ack Bus_none b)
      else if addr = MTIMECMP_ADDR
      then (c\<lparr>cclint_mtimecmp := dff_set (with_low (dff_get (cclint_mtimecmp c)) v) (cclint_mtimecmp c)\<rparr>,
            set_data_write_ack Bus_none b)
      else if addr = MTIMECMP_ADDR + 4
      then (c\<lparr>cclint_mtimecmp := dff_set (with_high (dff_get (cclint_mtimecmp c)) v) (cclint_mtimecmp c)\<rparr>,
            set_data_write_ack Bus_none b)
      else if addr = MTIME_ADDR
      then (c\<lparr>cclint_mtime := dff_set (with_low (dff_get (cclint_mtime c)) v) (cclint_mtime c)\<rparr>,
            set_data_write_ack Bus_none b)
      else if addr = MTIME_ADDR + 4
      then (c\<lparr>cclint_mtime := dff_set (with_high (dff_get (cclint_mtime c)) v) (cclint_mtime c)\<rparr>,
            set_data_write_ack Bus_none b)
      else (c, set_data_write_ack Bus_error b))"

definition cclint_read32 :: "u32 \<Rightarrow> cclint \<Rightarrow> bus_if \<Rightarrow> bus_if" where
  "cclint_read32 addr c b =
     set_data_value
       (if addr = MSIP_ADDR then (if dff_get (cclint_msip c) then 1 else 0)
        else if addr = MTIMECMP_ADDR then ucast (dff_get (cclint_mtimecmp c) AND 0xFFFFFFFF)
        else if addr = MTIMECMP_ADDR + 4 then ucast (drop_bit 32 (dff_get (cclint_mtimecmp c)))
        else if addr = MTIME_ADDR then ucast (dff_get (cclint_mtime c) AND 0xFFFFFFFF)
        else if addr = MTIME_ADDR + 4 then ucast (drop_bit 32 (dff_get (cclint_mtime c)))
        else 0) b"

definition cclint_run_pre ::
    "cclint \<Rightarrow> cinterrupt_interface \<Rightarrow> cinterrupt_interface option" where
  "cclint_run_pre c ci =
     do {
       ci1 \<leftarrow> cinterrupt_set_pending machine_timer
                (dff_get (cclint_mtime c) \<ge> dff_get (cclint_mtimecmp c)) ci;
       cinterrupt_set_pending machine_software (dff_get (cclint_msip c)) ci1
     }"

definition cclint_run_post :: "cclint \<Rightarrow> cclint" where
  "cclint_run_post c =
     (if \<not> dff_is_changed (cclint_mtime c)
      then c\<lparr>cclint_mtime := dff_set (dff_get (cclint_mtime c) + 1) (cclint_mtime c)\<rparr> else c)"

definition cclint_sync :: "cclint \<Rightarrow> cclint" where
  "cclint_sync c =
     c\<lparr>cclint_msip := dff_sync (cclint_msip c), cclint_mtimecmp := dff_sync (cclint_mtimecmp c),
       cclint_mtime := dff_sync (cclint_mtime c)\<rparr>"

subsection \<open>Slaves\<close>

datatype cslave = CMemory cmemory | CClint cclint

fun cslave_size :: "cslave \<Rightarrow> u32" where
  "cslave_size (CMemory m) = mem_size (cmem_bytes m)"
| "cslave_size (CClint c) = cclint_size c"

definition cslave_check :: "cslave \<Rightarrow> u32 \<Rightarrow> u32 \<Rightarrow> bool" where
  "cslave_check s addr access_size \<longleftrightarrow>
     \<not> (addr AND (access_size - 1) \<noteq> 0 \<or> addr \<ge> cslave_size s \<or> cslave_size s - addr < access_size)"

definition check_boundary :: "cslave \<Rightarrow> u32 \<Rightarrow> u32 \<Rightarrow> bool" where
  "check_boundary s addr access_size \<longleftrightarrow>
     addr < cslave_size s \<and> cslave_size s - addr \<ge> access_size"

fun cslave_init :: "u32 \<Rightarrow> cslave \<Rightarrow> cslave" where
  "cslave_init sz (CMemory m) = CMemory (cmemory_init sz m)"
| "cslave_init sz (CClint c) = CClint (c\<lparr>cclint_size := sz\<rparr>)"

fun cslave_reset :: "cslave \<Rightarrow> cslave option" where
  "cslave_reset (CMemory m) = map_option CMemory (cmemory_reset m)"
| "cslave_reset (CClint c) = Some (CClint (cclint_reset c))"

fun cslave_do_write8 :: "u32 \<Rightarrow> u8 \<Rightarrow> cslave \<Rightarrow> bus_if \<Rightarrow> cslave \<times> bus_if" where
  "cslave_do_write8 addr v (CMemory m) b = (CMemory (cmemory_write8 addr v m), b)"
| "cslave_do_write8 addr v (CClint c) b = (CClint c, set_data_write_ack Bus_error b)"

fun cslave_do_write16 :: "u32 \<Rightarrow> u16 \<Rightarrow> cslave \<Rightarrow> bus_if \<Rightarrow> cslave \<times> bus_if" where
  "cslave_do_write16 addr v (CMemory m) b = (CMemory (cmemory_write16 addr v m), b)"
| "cslave_do_write16 addr v (CClint c) b = (CClint c, set_data_write_ack Bus_error b)"

fun cslave_do_write32 :: "u32 \<Rightarrow> u32 \<Rightarrow> cslave \<Rightarrow> bus_if \<Rightarrow> cslave \<times> bus_if" where
  "cslave_do_write32 addr v (CMemory m) b = (CMemory (cmemory_write32 addr v m), b)"
| "cslave_do_write32 addr v (CClint c) b = (case cclint_write32 addr v c b of (c', b') \<Rightarrow> (CClint c', b'))"

fun cslave_do_read8 :: "u32 \<Rightarrow> cslave \<Rightarrow> bus_if \<Rightarrow> cslave \<times> bus_if" where
  "cslave_do_read8 addr (CMemory m) b = (CMemory (cmemory_read8 addr m), b)"
| "cslave_do_read8 addr (CClint c) b = (CClint c, b)"

fun cslave_do_read16 :: "u32 \<Rightarrow> cslave \<Rightarrow> bus_if \<Rightarrow> cslave \<times> bus_if" where
  "cslave_do_read16 addr (CMemory m) b = (CMemory (cmemory_read16 addr m), b)"
| "cslave_do_read16 addr (CClint c) b = (CClint c, b)"

fun cslave_do_read32 :: "u32 \<Rightarrow> cslave \<Rightarrow> bus_if \<Rightarrow> cslave \<times> bus_if" where
  "cslave_do_read32 addr (CMemory m) b = (CMemory (cmemory_read32 addr m), b)"
| "cslave_do_read32 addr (CClint c) b = (CClint c, cclint_read32 addr c b)"

fun cslave_do_write_sys :: "u32 \<Rightarrow> (memory \<Rightarrow> memory) \<Rightarrow> cslave \<Rightarrow> cslave" where
  "cslave_do_write_sys addr g (CMemory m) = CMemory (m\<lparr>cmem_bytes := g (cmem_bytes m)\<rparr>)"
| "cslave_do_write_sys addr g (CClint c) = CClint c"

fun cslave_do_read_sys :: "(memory \<Rightarrow> 'a) \<Rightarrow> 'a \<Rightarrow> cslave \<Rightarrow> 'a" where
  "cslave_do_read_sys g z (CMemory m) = g (cmem_bytes m)"
| "cslave_do_read_sys g z (CClint c) = z"

text \<open>The public operations: the check, then the virtual function of the class.\<close>

definition cslave_write8 :: "u32 \<Rightarrow> u8 \<Rightarrow> cslave \<Rightarrow> bus_if \<Rightarrow> cslave \<times> bus_if" where
  "cslave_write8 addr v s b = (if cslave_check s addr 1 then cslave_do_write8 addr v s b else (s, b))"

definition cslave_write16 :: "u32 \<Rightarrow> u16 \<Rightarrow> cslave \<Rightarrow> bus_if \<Rightarrow> cslave \<times> bus_if" where
  "cslave_write16 addr v s b = (if cslave_check s addr 2 then cslave_do_write16 addr v s b else (s, b))"

definition cslave_write32 :: "u32 \<Rightarrow> u32 \<Rightarrow> cslave \<Rightarrow> bus_if \<Rightarrow> cslave \<times> bus_if" where
  "cslave_write32 addr v s b = (if cslave_check s addr 4 then cslave_do_write32 addr v s b else (s, b))"

definition cslave_write8_sys :: "u32 \<Rightarrow> u8 \<Rightarrow> cslave \<Rightarrow> cslave" where
  "cslave_write8_sys addr v s =
     (if cslave_check s addr 1 then cslave_do_write_sys addr (memory_write8 addr v) s else s)"

definition cslave_write16_sys :: "u32 \<Rightarrow> u16 \<Rightarrow> cslave \<Rightarrow> cslave" where
  "cslave_write16_sys addr v s =
     (if cslave_check s addr 2 then cslave_do_write_sys addr (memory_write16 addr v) s else s)"

definition cslave_write32_sys :: "u32 \<Rightarrow> u32 \<Rightarrow> cslave \<Rightarrow> cslave" where
  "cslave_write32_sys addr v s =
     (if cslave_check s addr 4 then cslave_do_write_sys addr (memory_write32 addr v) s else s)"

definition cslave_read8 :: "u32 \<Rightarrow> cslave \<Rightarrow> bus_if \<Rightarrow> cslave \<times> bus_if" where
  "cslave_read8 addr s b = (if cslave_check s addr 1 then cslave_do_read8 addr s b else (s, b))"

definition cslave_read16 :: "u32 \<Rightarrow> cslave \<Rightarrow> bus_if \<Rightarrow> cslave \<times> bus_if" where
  "cslave_read16 addr s b = (if cslave_check s addr 2 then cslave_do_read16 addr s b else (s, b))"

definition cslave_read32 :: "u32 \<Rightarrow> cslave \<Rightarrow> bus_if \<Rightarrow> cslave \<times> bus_if" where
  "cslave_read32 addr s b = (if cslave_check s addr 4 then cslave_do_read32 addr s b else (s, b))"

definition cslave_read8_sys :: "u32 \<Rightarrow> cslave \<Rightarrow> u8" where
  "cslave_read8_sys addr s =
     (if cslave_check s addr 1 then cslave_do_read_sys (memory_read8 addr) 0 s else 0)"

definition cslave_read16_sys :: "u32 \<Rightarrow> cslave \<Rightarrow> u16" where
  "cslave_read16_sys addr s =
     (if cslave_check s addr 2 then cslave_do_read_sys (memory_read16 addr) 0 s else 0)"

definition cslave_read32_sys :: "u32 \<Rightarrow> cslave \<Rightarrow> u32" where
  "cslave_read32_sys addr s =
     (if cslave_check s addr 4 then cslave_do_read_sys (memory_read32 addr) 0 s else 0)"

fun cslave_do_read_instruction :: "u32 \<Rightarrow> cslave \<Rightarrow> bus_if \<Rightarrow> bus_if option" where
  "cslave_do_read_instruction addr (CMemory m) b = cmemory_read_instruction addr m b"
| "cslave_do_read_instruction addr (CClint c) b = Some b"

definition cslave_read_instruction :: "u32 \<Rightarrow> cslave \<Rightarrow> bus_if \<Rightarrow> bus_if option" where
  "cslave_read_instruction addr s b =
     (if cslave_check s addr 4 then cslave_do_read_instruction addr s b else Some b)"

subsection \<open>The bus\<close>

record cslave_info_t =
  csi_base :: u32
  csi_size :: u32
  csi_slave :: cslave
  csi_support_fetch :: bool

datatype sync_request_t = Sync_write8 u32 u8 | Sync_write16 u32 u16 | Sync_write32 u32 u32

record cbus =
  sync_request_q :: "sync_request_t list"
  cslave_info_list :: "cslave_info_t list"
  cbus_if :: bus_if

definition cbus_reset :: "cbus \<Rightarrow> cbus" where
  "cbus_reset b = b\<lparr>sync_request_q := [], cbus_if := (cbus_if b)\<lparr>revoke_data_cnt := 0\<rparr>\<rparr>"

definition cbus_make :: cbus where
  "cbus_make = cbus_reset \<lparr>sync_request_q = [], cslave_info_list = [], cbus_if = bus_if_make\<rparr>"

definition ccheck_addr_override :: "u32 \<Rightarrow> u32 \<Rightarrow> cbus \<Rightarrow> bool" where
  "ccheck_addr_override base sz b \<longleftrightarrow>
     (\<exists>s \<in> set (cslave_info_list b).
        (base \<ge> csi_base s \<and> base < csi_base s + csi_size s) \<or>
        (base < csi_base s \<and> base + sz > csi_base s))"

fun find_from :: "u32 \<Rightarrow> bool \<Rightarrow> nat \<Rightarrow> cslave_info_t list \<Rightarrow> nat option" where
  "find_from addr is_fetch i [] = None"
| "find_from addr is_fetch i (s # ss) =
     (if addr \<ge> csi_base s \<and> addr < csi_base s + csi_size s \<and> (\<not> is_fetch \<or> csi_support_fetch s)
      then Some i else find_from addr is_fetch (i + 1) ss)"

definition cfind_slave_info :: "u32 \<Rightarrow> bool \<Rightarrow> cbus \<Rightarrow> nat option" where
  "cfind_slave_info addr is_fetch b = find_from addr is_fetch 0 (cslave_info_list b)"

definition cget_slave_obj :: "u32 \<Rightarrow> bool \<Rightarrow> cbus \<Rightarrow> cslave option" where
  "cget_slave_obj addr is_fetch b =
     map_option (\<lambda>i. csi_slave (cslave_info_list b ! i)) (cfind_slave_info addr is_fetch b)"

definition cconvert_to_slave_addr :: "u32 \<Rightarrow> bool \<Rightarrow> cbus \<Rightarrow> u32" where
  "cconvert_to_slave_addr addr is_fetch b =
     (case cfind_slave_info addr is_fetch b of
        None \<Rightarrow> addr | Some i \<Rightarrow> addr - csi_base (cslave_info_list b ! i))"

definition cbus_map :: "u32 \<Rightarrow> u32 \<Rightarrow> cslave \<Rightarrow> bool \<Rightarrow> cbus \<Rightarrow> cbus option" where
  "cbus_map base sz slave support_fetch b =
     do {
       verify (\<not> ccheck_addr_override base sz b);
       Some (b\<lparr>cslave_info_list := cslave_info_list b @
         [\<lparr>csi_base = base, csi_size = sz, csi_slave = cslave_init sz slave,
           csi_support_fetch = support_fetch\<rparr>]\<rparr>)
     }"

definition ccheck_align :: "u32 \<Rightarrow> u32 \<Rightarrow> bool" where
  "ccheck_align addr access_size \<longleftrightarrow> addr AND (access_size - 1) = 0"

text \<open>A call of an operation of the slave in entry \<open>i\<close>, with the address relative to its base.\<close>

definition cbus_on_slave ::
    "nat \<Rightarrow> (cslave \<Rightarrow> bus_if \<Rightarrow> cslave \<times> bus_if) \<Rightarrow> cbus \<Rightarrow> cbus" where
  "cbus_on_slave i g b =
     (case g (csi_slave (cslave_info_list b ! i)) (cbus_if b) of (s, r) \<Rightarrow>
        b\<lparr>cslave_info_list := (cslave_info_list b)[i := (cslave_info_list b ! i)\<lparr>csi_slave := s\<rparr>],
          cbus_if := r\<rparr>)"

definition bus_if_error :: "u32 \<Rightarrow> u32 \<Rightarrow> u32 \<Rightarrow> bool \<Rightarrow> bool \<Rightarrow> bus_if \<Rightarrow> bus_if" where
  "bus_if_error addr sz v is_write is_fetch b =
     b\<lparr>cerror_msg_queue := cerror_msg_queue b @
        [\<lparr>cerr_addr = addr, cerr_size = sz, cerr_value = v, cerr_is_write = is_write,
          cerr_is_fetch = is_fetch\<rparr>]\<rparr>"

definition cbus_write_error :: "u32 \<Rightarrow> u32 \<Rightarrow> u32 \<Rightarrow> cbus \<Rightarrow> cbus" where
  "cbus_write_error addr sz v b =
     b\<lparr>cbus_if := set_data_write_ack Bus_error (bus_if_error addr sz v True False (cbus_if b))\<rparr>"

definition cbus_read_error :: "u32 \<Rightarrow> u32 \<Rightarrow> cbus \<Rightarrow> cbus" where
  "cbus_read_error addr sz b =
     b\<lparr>cbus_if := (let r = bus_if_error addr sz 0 False False (cbus_if b)
        in r\<lparr>data_value_valid := dff_set True (data_value_valid r),
             data_value := dff_set 0 (data_value r)\<rparr>)\<rparr>"

definition cbus_write8 :: "u32 \<Rightarrow> u8 \<Rightarrow> cbus \<Rightarrow> cbus" where
  "cbus_write8 addr v b =
     (case cfind_slave_info addr False b of
        Some i \<Rightarrow> cbus_on_slave i (cslave_write8 (addr - csi_base (cslave_info_list b ! i)) v) b
      | None \<Rightarrow> cbus_write_error addr 1 (ucast v) b)"

definition cbus_write16 :: "u32 \<Rightarrow> u16 \<Rightarrow> cbus \<Rightarrow> cbus" where
  "cbus_write16 addr v b =
     (case cfind_slave_info addr False b of
        Some i \<Rightarrow> cbus_on_slave i (cslave_write16 (addr - csi_base (cslave_info_list b ! i)) v) b
      | None \<Rightarrow> cbus_write_error addr 2 (ucast v) b)"

definition cbus_write32 :: "u32 \<Rightarrow> u32 \<Rightarrow> cbus \<Rightarrow> cbus" where
  "cbus_write32 addr v b =
     (case cfind_slave_info addr False b of
        Some i \<Rightarrow> cbus_on_slave i (cslave_write32 (addr - csi_base (cslave_info_list b ! i)) v) b
      | None \<Rightarrow> cbus_write_error addr 4 v b)"

definition cbus_write8_sync :: "u32 \<Rightarrow> u8 \<Rightarrow> cbus \<Rightarrow> cbus" where
  "cbus_write8_sync addr v b = b\<lparr>sync_request_q := sync_request_q b @ [Sync_write8 addr v]\<rparr>"

definition cbus_write16_sync :: "u32 \<Rightarrow> u16 \<Rightarrow> cbus \<Rightarrow> cbus" where
  "cbus_write16_sync addr v b = b\<lparr>sync_request_q := sync_request_q b @ [Sync_write16 addr v]\<rparr>"

definition cbus_write32_sync :: "u32 \<Rightarrow> u32 \<Rightarrow> cbus \<Rightarrow> cbus" where
  "cbus_write32_sync addr v b = b\<lparr>sync_request_q := sync_request_q b @ [Sync_write32 addr v]\<rparr>"

definition cbus_write8_sys :: "u32 \<Rightarrow> u8 \<Rightarrow> cbus \<Rightarrow> cbus" where
  "cbus_write8_sys addr v b =
     (case cfind_slave_info addr False b of
        Some i \<Rightarrow> cbus_on_slave i
          (\<lambda>s r. (cslave_write8_sys (addr - csi_base (cslave_info_list b ! i)) v s, r)) b
      | None \<Rightarrow> b)"

definition cbus_write16_sys :: "u32 \<Rightarrow> u16 \<Rightarrow> cbus \<Rightarrow> cbus" where
  "cbus_write16_sys addr v b =
     (case cfind_slave_info addr False b of
        Some i \<Rightarrow> cbus_on_slave i
          (\<lambda>s r. (cslave_write16_sys (addr - csi_base (cslave_info_list b ! i)) v s, r)) b
      | None \<Rightarrow> b)"

definition cbus_write32_sys :: "u32 \<Rightarrow> u32 \<Rightarrow> cbus \<Rightarrow> cbus" where
  "cbus_write32_sys addr v b =
     (case cfind_slave_info addr False b of
        Some i \<Rightarrow> cbus_on_slave i
          (\<lambda>s r. (cslave_write32_sys (addr - csi_base (cslave_info_list b ! i)) v s, r)) b
      | None \<Rightarrow> b)"

definition cbus_read8 :: "u32 \<Rightarrow> cbus \<Rightarrow> cbus" where
  "cbus_read8 addr b =
     (case cfind_slave_info addr False b of
        Some i \<Rightarrow> cbus_on_slave i (cslave_read8 (addr - csi_base (cslave_info_list b ! i))) b
      | None \<Rightarrow> cbus_read_error addr 1 b)"

definition cbus_read16 :: "u32 \<Rightarrow> cbus \<Rightarrow> cbus" where
  "cbus_read16 addr b =
     (case cfind_slave_info addr False b of
        Some i \<Rightarrow> cbus_on_slave i (cslave_read16 (addr - csi_base (cslave_info_list b ! i))) b
      | None \<Rightarrow> cbus_read_error addr 2 b)"

definition cbus_read32 :: "u32 \<Rightarrow> cbus \<Rightarrow> cbus" where
  "cbus_read32 addr b =
     (case cfind_slave_info addr False b of
        Some i \<Rightarrow> cbus_on_slave i (cslave_read32 (addr - csi_base (cslave_info_list b ! i))) b
      | None \<Rightarrow> cbus_read_error addr 4 b)"

definition cbus_read8_sys :: "u32 \<Rightarrow> cbus \<Rightarrow> u8" where
  "cbus_read8_sys addr b =
     (case cfind_slave_info addr False b of
        Some i \<Rightarrow> cslave_read8_sys (addr - csi_base (cslave_info_list b ! i)) (csi_slave (cslave_info_list b ! i))
      | None \<Rightarrow> 0)"

definition cbus_read16_sys :: "u32 \<Rightarrow> cbus \<Rightarrow> u16" where
  "cbus_read16_sys addr b =
     (case cfind_slave_info addr False b of
        Some i \<Rightarrow> cslave_read16_sys (addr - csi_base (cslave_info_list b ! i)) (csi_slave (cslave_info_list b ! i))
      | None \<Rightarrow> 0)"

text \<open>\<^verbatim>\<open>read32_sys\<close> is declared to return 16 bits.\<close>

definition cbus_read32_sys :: "u32 \<Rightarrow> cbus \<Rightarrow> u16" where
  "cbus_read32_sys addr b =
     (case cfind_slave_info addr False b of
        Some i \<Rightarrow> ucast (cslave_read32_sys (addr - csi_base (cslave_info_list b ! i))
                          (csi_slave (cslave_info_list b ! i)))
      | None \<Rightarrow> 0)"

definition cbus_read_instruction :: "u32 \<Rightarrow> cbus \<Rightarrow> cbus option" where
  "cbus_read_instruction addr b =
     (case cfind_slave_info addr True b of
        Some i \<Rightarrow>
          do {
            r \<leftarrow> cslave_read_instruction (addr - csi_base (cslave_info_list b ! i))
                   (csi_slave (cslave_info_list b ! i)) (cbus_if b);
            Some (b\<lparr>cbus_if := r\<rparr>)
          }
      | None \<Rightarrow> Some (b\<lparr>cbus_if := (let r = bus_if_error addr 4 0 False True (cbus_if b)
          in r\<lparr>instruction_value_valid := dff_set True (instruction_value_valid r),
               instruction_value := map (dff_set 0) (instruction_value r)\<rparr>)\<rparr>))"

definition cbus_run :: "cbus \<Rightarrow> cbus" where
  "cbus_run b = b\<lparr>cbus_if := bus_if_run (cbus_if b)\<rparr>"

fun cbus_serve :: "sync_request_t \<Rightarrow> cbus \<Rightarrow> cbus" where
  "cbus_serve (Sync_write8 addr v) b = cbus_write8 addr v b"
| "cbus_serve (Sync_write16 addr v) b = cbus_write16 addr v b"
| "cbus_serve (Sync_write32 addr v) b = cbus_write32 addr v b"

text \<open>\<^verbatim>\<open>sync\<close> serves the queued writes; it is not the clock edge, which is \<open>cbus_clock\<close>.\<close>

definition cbus_sync :: "cbus \<Rightarrow> cbus" where
  "cbus_sync b = fold cbus_serve (sync_request_q b) (b\<lparr>sync_request_q := []\<rparr>)"

fun cslave_clock :: "cslave \<Rightarrow> cslave" where
  "cslave_clock (CMemory m) = CMemory m"
| "cslave_clock (CClint c) = CClint (cclint_sync c)"

definition cbus_clock :: "cbus \<Rightarrow> cbus" where
  "cbus_clock b =
     b\<lparr>cslave_info_list := map (\<lambda>s. s\<lparr>csi_slave := cslave_clock (csi_slave s)\<rparr>) (cslave_info_list b),
       cbus_if := bus_if_sync (cbus_if b)\<rparr>"

text \<open>\<^verbatim>\<open>memory.run_post()\<close> and \<^verbatim>\<open>clint.run_post()\<close>, called on the object in entry \<open>i\<close>.\<close>

definition cbus_run_post :: "nat \<Rightarrow> cbus \<Rightarrow> cbus option" where
  "cbus_run_post i b =
     (if i < length (cslave_info_list b) then
        (case csi_slave (cslave_info_list b ! i) of
           CMemory m \<Rightarrow>
             do {
               (m', r) \<leftarrow> cmemory_run_post m (cbus_if b);
               Some (cbus_on_slave i (\<lambda>_ _. (CMemory m', r)) b)
             }
         | CClint c \<Rightarrow> Some (cbus_on_slave i (\<lambda>_ r. (CClint (cclint_run_post c), r)) b))
      else None)"

subsection \<open>Physical memory attributes\<close>

record pma_item_t =
  pma_addr :: u32
  pma_size :: u32
  pma_is_cacheable :: bool

definition get_pma_item :: "u32 \<Rightarrow> pma_item_t list \<Rightarrow> pma_item_t option" where
  "get_pma_item addr ps =
     List.find (\<lambda>p. addr \<ge> pma_addr p \<and> addr \<le> pma_addr p + pma_size p - 1) ps"

definition add_fixed_pma_item :: "pma_item_t \<Rightarrow> pma_item_t list \<Rightarrow> pma_item_t list option" where
  "add_fixed_pma_item p ps =
     do {
       verify (\<forall>t \<in> set ps.
         \<not> (pma_addr p \<ge> pma_addr t \<and> pma_addr p < pma_addr t + pma_size t) \<and>
         \<not> (pma_addr t \<ge> pma_addr p \<and> pma_addr t < pma_addr p + pma_size p));
       Some (ps @ [p])
     }"

definition is_cacheable :: "u32 \<Rightarrow> pma_item_t list \<Rightarrow> bool" where
  "is_cacheable addr ps =
     (case get_pma_item addr ps of Some p \<Rightarrow> pma_is_cacheable p | None \<Rightarrow> False)"

definition cycle_pma :: "pma_item_t list option" where
  "cycle_pma =
     do {
       p1 \<leftarrow> add_fixed_pma_item \<lparr>pma_addr = 0, pma_size = 0x80000000, pma_is_cacheable = False\<rparr> [];
       add_fixed_pma_item \<lparr>pma_addr = 0x80000000, pma_size = 0x80000000, pma_is_cacheable = True\<rparr> p1
     }"

text \<open>The construction of the two buses: memory on the first, the timer on the second.\<close>

definition cacheable_bus_make ::
    "(u32 \<times> bool) list \<Rightarrow> write_request list \<Rightarrow> cbus option" where
  "cacheable_bus_make rd wd =
     do {
       m \<leftarrow> cmemory_make 10 10 rd wd;
       cbus_map MEMORY_BASE MEMORY_SIZE (CMemory m) True cbus_make
     }"

definition noncacheable_bus_make :: "cbus option" where
  "noncacheable_bus_make = cbus_map CLINT_BASE CLINT_SIZE (CClint cclint_make) False cbus_make"

fun cycle_load_loop :: "u8 list \<Rightarrow> u32 \<Rightarrow> cbus \<Rightarrow> cbus" where
  "cycle_load_loop [] i b = b"
| "cycle_load_loop (x # xs) i b = cycle_load_loop xs (i + 1) (cbus_write8_sys (MEMORY_BASE + i) x b)"

definition cycle_load :: "u8 list \<Rightarrow> cbus \<Rightarrow> cbus option" where
  "cycle_load bytes b =
     do { verify (length bytes < unat MEMORY_SIZE); Some (cycle_load_loop bytes 0 b) }"

end
