(* ===== verification/Store_Drain.thy ===== *)
theory Store_Drain
  imports Cycle_Bus Store_Buffer
begin

text \<open>
  The rest of \<^verbatim>\<open>cycle_model/component/retired_store_buffer.h\<close> (its forwarding is in
  Store\_Buffer), and the path a retired store takes to memory: the buffer sends its front store to
  the cacheable bus and waits for the acknowledgement, the memory holds the store in its shift
  register for the write latency, writes the bytes and acknowledges. The lemmas show that what
  the memory holds together with the stores still in the buffer is at every cycle the memory
  after all retired stores, and that the buffer drains.
\<close>

subsection \<open>The buffer\<close>

record retired_store_buffer =
  rsb_fifo :: "retired_store_buffer_item_t fifo"
  is_waiting_ack :: bool

definition retired_store_buffer_item_make :: retired_store_buffer_item_t where
  "retired_store_buffer_item_make =
     \<lparr>rs_inst_common_info = \<lparr>inst_id = 0\<rparr>, rs_addr = 0, rs_size = 0, rs_data = 0\<rparr>"

definition rsb_reset :: "retired_store_buffer \<Rightarrow> retired_store_buffer" where
  "rsb_reset r = r\<lparr>rsb_fifo := fifo_reset (rsb_fifo r), is_waiting_ack := False\<rparr>"

definition rsb_make :: "nat \<Rightarrow> retired_store_buffer" where
  "rsb_make n = rsb_reset
     \<lparr>rsb_fifo = fifo_make n retired_store_buffer_item_make, is_waiting_ack = False\<rparr>"

definition rsb_sync :: "retired_store_buffer \<Rightarrow> retired_store_buffer" where
  "rsb_sync r = r\<lparr>rsb_fifo := fifo_sync (rsb_fifo r)\<rparr>"

definition rsb_check_id_valid :: "retired_store_buffer \<Rightarrow> nat \<Rightarrow> bool" where
  "rsb_check_id_valid r i =
     (let f = rsb_fifo r in
      if customer_is_empty f then False
      else if dff_get (wstage f) = dff_get_new (rstage f)
      then i \<ge> dff_get_new (rptr f) \<and> i < dff_get (wptr f)
      else (i \<ge> dff_get_new (rptr f) \<and> i < fsize f) \<or> i < dff_get (wptr f))"

definition rsb_set_item ::
    "nat \<Rightarrow> retired_store_buffer_item_t \<Rightarrow> retired_store_buffer \<Rightarrow> retired_store_buffer option" where
  "rsb_set_item i v r =
     do { verify (rsb_check_id_valid r i); Some (r\<lparr>rsb_fifo := fifo_write_slot i v (rsb_fifo r)\<rparr>) }"

definition rsb_get_item :: "retired_store_buffer \<Rightarrow> nat \<Rightarrow> retired_store_buffer_item_t option" where
  "rsb_get_item r i =
     do { verify (rsb_check_id_valid r i); Some (dff_get (buffer (rsb_fifo r) ! i)) }"

definition rsb_take_ack :: "retired_store_buffer \<Rightarrow> cbus \<Rightarrow> retired_store_buffer option" where
  "rsb_take_ack r b =
     (if is_waiting_ack r then
        (case get_data_write_ack (cbus_if b) of
           None \<Rightarrow> Some r
         | Some write_errno \<Rightarrow>
             (case fifo_pop (rsb_fifo r) of
                (None, f) \<Rightarrow> None
              | (Some item, f) \<Rightarrow> Some (r\<lparr>rsb_fifo := f, is_waiting_ack := False\<rparr>)))
      else Some r)"

definition rsb_send ::
    "retired_store_buffer_item_t \<Rightarrow> cbus \<Rightarrow> cbus option" where
  "rsb_send item b =
     do {
       verify (rs_size item = 1 \<or> rs_size item = 2 \<or> rs_size item = 4);
       Some (if rs_size item = 1 then cbus_write8 (rs_addr item) (ucast (rs_data item)) b
             else if rs_size item = 2 then cbus_write16 (rs_addr item) (ucast (rs_data item)) b
             else cbus_write32 (rs_addr item) (rs_data item) b)
     }"

definition rsb_run ::
    "retired_store_buffer \<Rightarrow> cbus \<Rightarrow> (retired_store_buffer \<times> cbus) option" where
  "rsb_run r b =
     do {
       r1 \<leftarrow> rsb_take_ack r b;
       (if \<not> is_waiting_ack r1 then
          (case customer_get_front (rsb_fifo r1) of
             None \<Rightarrow> Some (r1, b)
           | Some item \<Rightarrow> do { b' \<leftarrow> rsb_send item b; Some (r1\<lparr>is_waiting_ack := True\<rparr>, b') })
        else Some (r1, b))
     }"

subsection \<open>One cycle of the store path\<close>

text \<open>
  What the rest of the core does to the buffer and the cacheable bus within a cycle: the load
  unit and the fetch unit send read requests, a flush revokes a read, commit retires stores.
  After all stages have run, \<^verbatim>\<open>cycle_model::run\<close> runs the memory, the buffer and the bus, and
  the clock ticks. The second result lists the stores the buffer accepted.
\<close>

record store_path =
  sp_bus :: cbus
  sp_rsb :: retired_store_buffer

datatype path_request =
    Req_read8 u32 | Req_read16 u32 | Req_read32 u32 | Req_fetch u32 | Req_revoke
  | Req_store retired_store_buffer_item_t

fun path_serve ::
    "path_request \<Rightarrow> store_path \<Rightarrow> (store_path \<times> retired_store_buffer_item_t list) option" where
  "path_serve (Req_read8 a) s = Some (s\<lparr>sp_bus := cbus_read8 a (sp_bus s)\<rparr>, [])"
| "path_serve (Req_read16 a) s = Some (s\<lparr>sp_bus := cbus_read16 a (sp_bus s)\<rparr>, [])"
| "path_serve (Req_read32 a) s = Some (s\<lparr>sp_bus := cbus_read32 a (sp_bus s)\<rparr>, [])"
| "path_serve (Req_fetch a) s =
     do { b \<leftarrow> cbus_read_instruction a (sp_bus s); Some (s\<lparr>sp_bus := b\<rparr>, []) }"
| "path_serve Req_revoke s =
     Some (s\<lparr>sp_bus := (sp_bus s)\<lparr>cbus_if := revoke_data_request (cbus_if (sp_bus s))\<rparr>\<rparr>, [])"
| "path_serve (Req_store it) s =
     (case fifo_push it (rsb_fifo (sp_rsb s)) of (ok, f) \<Rightarrow>
        Some (s\<lparr>sp_rsb := (sp_rsb s)\<lparr>rsb_fifo := f\<rparr>\<rparr>, if ok then [it] else []))"

fun path_serve_all ::
    "path_request list \<Rightarrow> store_path \<Rightarrow> (store_path \<times> retired_store_buffer_item_t list) option" where
  "path_serve_all [] s = Some (s, [])"
| "path_serve_all (q # qs) s =
     do {
       (s1, a1) \<leftarrow> path_serve q s;
       (s2, a2) \<leftarrow> path_serve_all qs s1;
       Some (s2, a1 @ a2)
     }"

definition path_end :: "store_path \<Rightarrow> store_path option" where
  "path_end s =
     do {
       b1 \<leftarrow> cbus_run_post 0 (sp_bus s);
       (r2, b2) \<leftarrow> rsb_run (sp_rsb s) b1;
       Some \<lparr>sp_bus = cbus_clock (cbus_sync (cbus_run b2)), sp_rsb = rsb_sync r2\<rparr>
     }"

definition path_cycle ::
    "path_request list \<Rightarrow> store_path \<Rightarrow> (store_path \<times> retired_store_buffer_item_t list) option" where
  "path_cycle qs s =
     do {
       (s1, acc) \<leftarrow> path_serve_all qs s;
       s2 \<leftarrow> path_end s1;
       Some (s2, acc)
     }"

fun path_run ::
    "path_request list list \<Rightarrow> store_path \<Rightarrow> (store_path \<times> retired_store_buffer_item_t list) option" where
  "path_run [] s = Some (s, [])"
| "path_run (qs # qss) s =
     do {
       (s1, a1) \<leftarrow> path_cycle qs s;
       (s2, a2) \<leftarrow> path_run qss s1;
       Some (s2, a1 @ a2)
     }"

subsection \<open>Bytes\<close>

definition item_access :: "retired_store_buffer_item_t \<Rightarrow> store_access" where
  "item_access it = \<lparr>sa_addr = rs_addr it, sa_size = rs_size it, sa_data = rs_data it\<rparr>"

definition put_store :: "store_access \<Rightarrow> (u32 \<Rightarrow> u8) \<Rightarrow> u32 \<Rightarrow> u8" where
  "put_store s g a = (if covers s (unat a) then store_byte s (unat a) else g a)"

definition ram_view :: "memory \<Rightarrow> u32 \<Rightarrow> u8" where
  "ram_view m a = mem m (a - MEMORY_BASE)"

definition ram_store :: "retired_store_buffer_item_t \<Rightarrow> bool" where
  "ram_store it \<longleftrightarrow> access_size (rs_size it) \<and> in_ram (rs_addr it) \<and> unat (rs_addr it) mod unat (rs_size it) = 0"

definition item_request :: "retired_store_buffer_item_t \<Rightarrow> write_request" where
  "item_request it =
     \<lparr>wr_addr = rs_addr it - MEMORY_BASE,
      wr_value = (if rs_size it = 1 then ucast (ucast (rs_data it) :: u8)
                  else if rs_size it = 2 then ucast (ucast (rs_data it) :: u16) else rs_data it),
      wr_size = rs_size it, wr_valid = True\<rparr>"

lemma put_store_twice [simp]: "put_store s (put_store s g) = put_store s g"
  by (simp add: put_store_def fun_eq_iff)

lemma ram_store_no_wrap:
  assumes "ram_store it"
  shows "no_wrap (rs_addr it) (rs_size it)"
proof -
  have "unat (rs_addr it) < 2147483648 + 1048576"
    using assms by (simp add: ram_store_def in_ram_def config_defs word_less_nat_alt)
  moreover have "unat (rs_size it) \<le> 4" using assms by (auto simp: ram_store_def elim: access_sizeE)
  ultimately show ?thesis by (simp add: no_wrap_def)
qed

lemma covers_offset:
  assumes "no_wrap (sa_addr s) (sa_size s)"
  shows "covers s (unat a) \<longleftrightarrow> unat (a - sa_addr s) < unat (sa_size s)"
    and "covers s (unat a) \<Longrightarrow> store_byte s (unat a) = byte_of (sa_data s) (unat (a - sa_addr s))"
proof -
  have le: "unat (a - sa_addr s) = unat a - unat (sa_addr s)" if "sa_addr s \<le> a"
    using that by (rule unat_sub)
  have lt: "unat (a - sa_addr s) = 2 ^ 32 + unat a - unat (sa_addr s)" if "a < sa_addr s"
    using that by (simp add: unat_sub_if_size word_size word_less_nat_alt)
  have b: "unat a < 2 ^ 32" using unsigned_less[of a] by simp
  show c: "covers s (unat a) \<longleftrightarrow> unat (a - sa_addr s) < unat (sa_size s)"
  proof (cases "sa_addr s \<le> a")
    case True
    then show ?thesis using le by (auto simp: covers_def word_le_nat_alt)
  next
    case False
    then have "a < sa_addr s" by simp
    then show ?thesis using lt assms by (auto simp: covers_def no_wrap_def word_less_nat_alt)
  qed
  show "store_byte s (unat a) = byte_of (sa_data s) (unat (a - sa_addr s))" if "covers s (unat a)"
    using that le by (simp add: covers_def store_byte_def word_le_nat_alt)
qed

lemma small_offset:
  fixes d :: u32
  shows "unat d < 1 \<longleftrightarrow> d = 0" and "unat d < 2 \<longleftrightarrow> d = 0 \<or> d = 1"
    and "unat d < 4 \<longleftrightarrow> d = 0 \<or> d = 1 \<or> d = 2 \<or> d = 3"
proof -
  have e: "d = of_nat (unat d)" by simp
  have "d = 0" if "unat d = 0" using e that by simp
  moreover have "d = 1" if "unat d = 1" using e that by simp
  moreover have "d = 2" if "unat d = 2" using e that by simp
  moreover have "d = 3" if "unat d = 3" using e that by simp
  moreover have "unat d < 4 \<Longrightarrow> unat d = 0 \<or> unat d = 1 \<or> unat d = 2 \<or> unat d = 3"
    "unat d < 2 \<Longrightarrow> unat d = 0 \<or> unat d = 1" "unat d < 1 \<Longrightarrow> unat d = 0" by linarith+
  ultimately show "unat d < 1 \<longleftrightarrow> d = 0" "unat d < 2 \<longleftrightarrow> d = 0 \<or> d = 1"
    "unat d < 4 \<longleftrightarrow> d = 0 \<or> d = 1 \<or> d = 2 \<or> d = 3" by auto
qed

lemma byte_of_low:
  "byte_of w 0 = ucast w" "byte_of w 1 = ucast (drop_bit 8 w)" "byte_of w (Suc 0) = ucast (drop_bit 8 w)"
  "byte_of w 2 = ucast (drop_bit 16 w)" "byte_of w 3 = ucast (drop_bit 24 w)"
  by (simp_all add: byte_of_def)

lemma ucast_half:
  "ucast (ucast (w :: u32) :: u16) = (ucast w :: u8)" "ucast (drop_bit 8 (ucast (w :: u32) :: u16)) = (ucast (drop_bit 8 w) :: u8)"
  "ucast (ucast (ucast (w :: u32) :: u16) :: u32) = (ucast w :: u16)" "ucast (ucast (ucast (w :: u32) :: u8) :: u32) = (ucast w :: u8)"
  by (rule bit_word_eqI; auto simp: bit_simps)+

lemma memory_apply_store:
  assumes "ram_store it"
  shows "\<exists>m'. memory_apply (item_request it) m = Some m' \<and> mem_size m' = mem_size m \<and>
    ram_view m' = put_store (item_access it) (ram_view m)"
proof -
  have z: "access_size (rs_size it)" using assms by (simp add: ram_store_def)
  note c = covers_offset[of "item_access it", unfolded item_access_def store_access.simps, folded item_access_def,
      OF ram_store_no_wrap[OF assms]]
  have off: "(a - MEMORY_BASE = rs_addr it - MEMORY_BASE + k) = (a - rs_addr it = k)" for a k
    by (auto simp: algebra_simps)
  have off0: "(a - MEMORY_BASE = rs_addr it - MEMORY_BASE) = (a - rs_addr it = 0)" for a by auto
  have p: "put_store (item_access it) g a = (if unat (a - rs_addr it) < unat (rs_size it)
      then byte_of (rs_data it) (unat (a - rs_addr it)) else g a)" for g a
    using c[of a] by (simp add: put_store_def)
  show ?thesis using z
    by (cases rule: access_sizeE)
      (auto simp: memory_apply_def item_request_def fun_eq_iff p ram_view_def small_offset unat_eq_zero off off0 ucast_half byte_of_low
        memory_write8_def memory_write16_def memory_write32_def)
qed

subsection \<open>The bus of the memory\<close>

definition mem_bus :: "cmemory \<Rightarrow> bus_if \<Rightarrow> cbus" where
  "mem_bus m r =
     \<lparr>sync_request_q = [],
      cslave_info_list = [\<lparr>csi_base = MEMORY_BASE, csi_size = MEMORY_SIZE, csi_slave = CMemory m,
        csi_support_fetch = True\<rparr>],
      cbus_if = r\<rparr>"

definition cmem_ok :: "cmemory \<Rightarrow> bool" where
  "cmem_ok m \<longleftrightarrow> mem_size (cmem_bytes m) = MEMORY_SIZE \<and>
     length (read_data m) = Suc (data_read_latency m) \<and> length (write_data m) = Suc (data_write_latency m)"

text \<open>What the write path of memory and bus consists of; requests other than stores keep it.\<close>

definition same_writes :: "cmemory \<Rightarrow> bus_if \<Rightarrow> cmemory \<Rightarrow> bus_if \<Rightarrow> bool" where
  "same_writes m r m' r' \<longleftrightarrow> cmem_bytes m' = cmem_bytes m \<and> write_data m' = write_data m \<and>
     data_write_latency m' = data_write_latency m \<and> data_write_ack r' = data_write_ack r \<and> (cmem_ok m \<longrightarrow> cmem_ok m')"

lemma same_writes_refl [simp]: "same_writes m r m r"
  by (simp add: same_writes_def)

lemma same_writes_trans: "same_writes m r m1 r1 \<Longrightarrow> same_writes m1 r1 m2 r2 \<Longrightarrow> same_writes m r m2 r2"
  by (simp add: same_writes_def)

lemma mem_bus_find:
  "cfind_slave_info a fe (mem_bus m r) = (if in_ram a then Some 0 else None)"
  by (simp add: cfind_slave_info_def mem_bus_def in_ram_def)

lemma mem_bus_on_slave:
  "cbus_on_slave 0 g (mem_bus m r) = (case g (CMemory m) r of (s, r') \<Rightarrow>
     \<lparr>sync_request_q = [], cslave_info_list = [\<lparr>csi_base = MEMORY_BASE, csi_size = MEMORY_SIZE, csi_slave = s,
        csi_support_fetch = True\<rparr>], cbus_if = r'\<rparr>)"
  by (simp add: cbus_on_slave_def mem_bus_def split: prod.splits)

lemma mem_bus_sel [simp]:
  "cslave_info_list (mem_bus m r) ! 0 = \<lparr>csi_base = MEMORY_BASE, csi_size = MEMORY_SIZE, csi_slave = CMemory m,
        csi_support_fetch = True\<rparr>"
  "length (cslave_info_list (mem_bus m r)) = 1" "cbus_if (mem_bus m r) = r" "sync_request_q (mem_bus m r) = []"
  "(mem_bus m r)\<lparr>cbus_if := r'\<rparr> = mem_bus m r'" "mem_bus m r = mem_bus m' r' \<longleftrightarrow> m = m' \<and> r = r'"
  by (simp_all add: mem_bus_def)

lemma post_read_same [simp]: "same_writes m r (cmemory_post_read v m) r"
  by (simp add: same_writes_def cmemory_post_read_def cmem_ok_def)

lemma set_value_ack [simp]:
  "data_write_ack (set_data_value v r) = data_write_ack r"
  "data_write_ack (set_instruction_value vs r) = data_write_ack r"
  "data_write_ack (revoke_data_request r) = data_write_ack r"
  "data_write_ack (bus_if_error a z v w f r) = data_write_ack r"
  by (simp_all add: set_data_value_def set_instruction_value_def revoke_data_request_def bus_if_error_def)

lemma mem_bus_reads:
  "\<exists>m' r'. cbus_read8 a (mem_bus m r) = mem_bus m' r' \<and> same_writes m r m' r'"
  "\<exists>m' r'. cbus_read16 a (mem_bus m r) = mem_bus m' r' \<and> same_writes m r m' r'"
  "\<exists>m' r'. cbus_read32 a (mem_bus m r) = mem_bus m' r' \<and> same_writes m r m' r'"
proof -
  have e: "\<exists>m' r'. cbus_read_error a z (mem_bus m r) = mem_bus m' r' \<and> same_writes m r m' r'" for z
    by (rule exI[of _ m]) (auto simp: cbus_read_error_def Let_def same_writes_def)
  have k: "\<exists>m' r'. \<lparr>sync_request_q = [], cslave_info_list = [\<lparr>csi_base = MEMORY_BASE, csi_size = MEMORY_SIZE,
        csi_slave = CMemory m1, csi_support_fetch = True\<rparr>], cbus_if = r\<rparr> = mem_bus m' r' \<and> same_writes m r m' r'"
    if "same_writes m r m1 r" for m1
    using that by (intro exI[of _ m1] exI[of _ r]) (simp add: mem_bus_def)
  show "\<exists>m' r'. cbus_read8 a (mem_bus m r) = mem_bus m' r' \<and> same_writes m r m' r'"
    "\<exists>m' r'. cbus_read16 a (mem_bus m r) = mem_bus m' r' \<and> same_writes m r m' r'"
    "\<exists>m' r'. cbus_read32 a (mem_bus m r) = mem_bus m' r' \<and> same_writes m r m' r'"
    unfolding cbus_read8_def cbus_read16_def cbus_read32_def mem_bus_find
    by (simp_all add: e k mem_bus_on_slave cslave_read8_def cslave_read16_def cslave_read32_def
        cmemory_read8_def cmemory_read16_def cmemory_read32_def split: if_splits)
qed

text \<open>
  A group of instructions that lies in memory, or is not of the memory at all. A group that starts in the last three words of the
  memory is excluded: the memory checks an instruction read for 4 bytes and copies \<open>FETCH_WIDTH\<close> words, and the model
  aborts where the copy passes the end of the buffer.
\<close>

definition fetch_ok :: "u32 \<Rightarrow> bool" where
  "fetch_ok a \<longleftrightarrow> (in_ram a \<longrightarrow> unat a + 4 * FETCH_WIDTH \<le> unat (MEMORY_BASE + MEMORY_SIZE))"

lemma mem_bus_fetch:
  assumes "cmem_ok m" and "fetch_ok a"
  shows "\<exists>r'. cbus_read_instruction a (mem_bus m r) = Some (mem_bus m r') \<and> same_writes m r m r'"
proof (cases "in_ram a")
  case True
  have "unat (a - MEMORY_BASE) + 4 * FETCH_WIDTH \<le> unat MEMORY_SIZE"
    using assms(2) True unat_offset[OF True] by (simp add: fetch_ok_def config_defs)
  then show ?thesis using True assms(1)
    by (auto simp: cbus_read_instruction_def mem_bus_find cslave_read_instruction_def cmemory_read_instruction_def
        cmem_ok_def same_writes_def)
next
  case False
  then show ?thesis
    by (auto simp: cbus_read_instruction_def mem_bus_find Let_def same_writes_def)
qed

lemma ram_store_check:
  assumes "ram_store it" and "cmem_ok m"
  shows "cslave_check (CMemory m) (rs_addr it - MEMORY_BASE) (rs_size it)"
proof -
  have r: "in_ram (rs_addr it)" and z: "access_size (rs_size it)" using assms(1) by (simp_all add: ram_store_def)
  have "slave_check MEMORY_SIZE (rs_addr it - MEMORY_BASE) (rs_size it) = Some ()"
    using z assms(1) ram_off_mod[OF r] by (cases rule: access_sizeE)
      (auto simp: slave_check_simps[OF ram_size_4(1) ram_offset[OF r]] ram_store_def ram_off_def)
  then show ?thesis using assms(2)
    by (auto simp: slave_check_def cslave_check_def cmem_ok_def not_less not_le split: if_splits)
qed

lemma mem_bus_send:
  assumes "ram_store it" and "cmem_ok m"
  shows "rsb_send it (mem_bus m r) = Some (mem_bus (m\<lparr>write_data := (write_data m)[0 := item_request it]\<rparr>) r)"
proof -
  have r: "in_ram (rs_addr it)" and z: "access_size (rs_size it)" using assms(1) by (simp_all add: ram_store_def)
  show ?thesis using z ram_store_check[OF assms]
    by (cases rule: access_sizeE)
      (simp_all add: rsb_send_def cbus_write8_def cbus_write16_def cbus_write32_def mem_bus_find r mem_bus_on_slave
        cslave_write8_def cslave_write16_def cslave_write32_def cmemory_write8_def cmemory_write16_def
        cmemory_write32_def cmemory_post_write_def item_request_def mem_bus_def[symmetric])
qed

subsection \<open>The phases of a store on its way\<close>

text \<open>
  Between two cycles the front store is in one of three phases: not yet sent, in entry \<open>k\<close> of the
  shift register, or written and acknowledged.
\<close>

datatype phase = Idle | Flying nat | Acked

definition in_flight :: "write_request list \<Rightarrow> nat option \<Rightarrow> bool" where
  "in_flight ws k \<longleftrightarrow> (\<forall>i < length ws. wr_valid (ws ! i) \<longleftrightarrow> k = Some i)"

fun phase_ok :: "phase \<Rightarrow> cmemory \<Rightarrow> bool \<Rightarrow> bool \<Rightarrow> retired_store_buffer_item_t list \<Rightarrow> bool" where
  "phase_ok Idle m ack waiting xs \<longleftrightarrow> \<not> waiting \<and> \<not> ack \<and> in_flight (write_data m) None"
| "phase_ok (Flying k) m ack waiting xs \<longleftrightarrow> waiting \<and> \<not> ack \<and> k \<le> data_write_latency m \<and> xs \<noteq> [] \<and>
     in_flight (write_data m) (Some k) \<and> write_data m ! k = item_request (hd xs)"
| "phase_ok Acked m ack waiting xs \<longleftrightarrow> waiting \<and> ack \<and> xs \<noteq> [] \<and> in_flight (write_data m) None \<and>
     put_store (item_access (hd xs)) (ram_view (cmem_bytes m)) = ram_view (cmem_bytes m)"

lemma in_flight_shift:
  assumes "length ws = Suc n"
  shows "in_flight ws None \<Longrightarrow> in_flight (shift_write ws) None"
    and "in_flight ws (Some k) \<Longrightarrow> k < n \<Longrightarrow> in_flight (shift_write ws) (Some (Suc k)) \<and> shift_write ws ! Suc k = ws ! k"
    and "in_flight ws (Some n) \<Longrightarrow> in_flight (shift_write ws) None"
    and "length (shift_write ws) = Suc n"
  using assms by (auto simp: in_flight_def shift_write_def nth_Cons nth_butlast split: nat.splits)

lemma in_flight_post:
  assumes "length ws = Suc n" and "in_flight ws None" and "wr_valid w"
  shows "in_flight (ws[0 := w]) (Some 0)"
  using assms by (auto simp: in_flight_def nth_list_update)

text \<open>The memory at the end of the cycle, and whether it acknowledges.\<close>

lemma run_post_mem_bus:
  assumes "cmem_ok m" and "phase_ok p m ack waiting xs" and "\<forall>it \<in> set xs. ram_store it"
  shows "\<exists>m' r'. cbus_run_post 0 (mem_bus m r) = Some (mem_bus m' r') \<and> cmem_ok m' \<and>
      data_write_latency m' = data_write_latency m \<and>
      write_data m' = shift_write (write_data m) \<and>
      data_write_ack r' = (if p = Flying (data_write_latency m) then dff_set True (data_write_ack r) else data_write_ack r) \<and>
      ram_view (cmem_bytes m') = (if p = Flying (data_write_latency m)
        then put_store (item_access (hd xs)) (ram_view (cmem_bytes m)) else ram_view (cmem_bytes m))"
proof -
  have len: "length (write_data m) = Suc (data_write_latency m)" "length (read_data m) = Suc (data_read_latency m)"
    using assms(1) by (simp_all add: cmem_ok_def)
  have sr: "length (shift_read (read_data m)) = Suc (data_read_latency m)" using len by (simp add: shift_read_def)
  let ?w = "write_data m ! data_write_latency m"
  obtain rv rvalid where rd: "read_data m ! data_read_latency m = (rv, rvalid)" by fastforce
  define r1 where "r1 = (if rvalid then set_data_value rv r else r)"
  have r1: "data_write_ack r1 = data_write_ack r" by (simp add: r1_def)
  have valid: "wr_valid ?w \<longleftrightarrow> p = Flying (data_write_latency m)"
    using assms(2) len by (cases p) (auto simp: in_flight_def)
  show ?thesis
  proof (cases "p = Flying (data_write_latency m)")
    case True
    then have w: "?w = item_request (hd xs)" and g: "ram_store (hd xs)" using assms(2,3) by auto
    obtain b where b: "memory_apply (item_request (hd xs)) (cmem_bytes m) = Some b" "mem_size b = mem_size (cmem_bytes m)"
      "ram_view b = put_store (item_access (hd xs)) (ram_view (cmem_bytes m))"
      using memory_apply_store[OF g] by blast
    let ?m = "m\<lparr>read_data := shift_read (read_data m), cmem_bytes := b, write_data := shift_write (write_data m)\<rparr>"
    have "cbus_run_post 0 (mem_bus m r) = Some (mem_bus ?m (set_data_write_ack Bus_none r1))"
      using True valid b(1) by (simp add: cbus_run_post_def cmemory_run_post_def rd w r1_def Let_def mem_bus_on_slave
          mem_bus_def[symmetric])
    then show ?thesis
      using True b sr in_flight_shift(4)[OF len(1)] assms(1) r1
      by (intro exI[of _ ?m] exI[of _ "set_data_write_ack Bus_none r1"]) (simp add: cmem_ok_def set_data_write_ack_def)
  next
    case False
    let ?m = "m\<lparr>read_data := shift_read (read_data m), write_data := shift_write (write_data m)\<rparr>"
    have "cbus_run_post 0 (mem_bus m r) = Some (mem_bus ?m r1)"
      using False valid by (simp add: cbus_run_post_def cmemory_run_post_def rd r1_def Let_def mem_bus_on_slave
          mem_bus_def[symmetric])
    then show ?thesis
      using False sr in_flight_shift(4)[OF len(1)] assms(1) r1
      by (intro exI[of _ ?m] exI[of _ r1]) (simp add: cmem_ok_def)
  qed
qed

subsection \<open>Cycles\<close>

fun request_ok :: "path_request \<Rightarrow> bool" where
  "request_ok (Req_store it) = ram_store it"
| "request_ok (Req_fetch a) = fetch_ok a"
| "request_ok _ = True"

fun is_store :: "path_request \<Rightarrow> bool" where
  "is_store (Req_store it) = True"
| "is_store _ = False"

lemma path_serve_ok:
  assumes "sp_bus s = mem_bus m r" and "cmem_ok m" and "fifo_inv (rsb_fifo (sp_rsb s))" and "request_ok q"
  shows "\<exists>m' r' s' acc. path_serve q s = Some (s', acc) \<and> sp_bus s' = mem_bus m' r' \<and> same_writes m r m' r' \<and>
    fifo_inv (rsb_fifo (sp_rsb s')) \<and> is_waiting_ack (sp_rsb s') = is_waiting_ack (sp_rsb s) \<and>
    fifo_start (rsb_fifo (sp_rsb s')) = fifo_start (rsb_fifo (sp_rsb s)) \<and>
    fifo_avail (rsb_fifo (sp_rsb s')) = fifo_avail (rsb_fifo (sp_rsb s)) \<and>
    fifo_next (rsb_fifo (sp_rsb s')) = fifo_next (rsb_fifo (sp_rsb s)) @ acc \<and>
    (\<forall>it \<in> set acc. ram_store it) \<and> (\<not> is_store q \<longrightarrow> acc = [])"
proof (cases q)
  case (Req_read8 a)
  then show ?thesis using assms(1,3) mem_bus_reads(1)[of a m r] by auto
next
  case (Req_read16 a)
  then show ?thesis using assms(1,3) mem_bus_reads(2)[of a m r] by auto
next
  case (Req_read32 a)
  then show ?thesis using assms(1,3) mem_bus_reads(3)[of a m r] by auto
next
  case (Req_fetch a)
  then have "fetch_ok a" using assms(4) by simp
  from mem_bus_fetch[OF assms(2) this, of r] show ?thesis using assms(1,3) Req_fetch
    by (intro exI[of _ m]) auto
next
  case Req_revoke
  have "same_writes m r m (revoke_data_request r)" by (simp add: same_writes_def)
  then show ?thesis using assms(1,3) Req_revoke by auto
next
  case (Req_store it)
  obtain ok f where p: "fifo_push it (rsb_fifo (sp_rsb s)) = (ok, f)" by fastforce
  have "ram_store it" using assms(4) Req_store by simp
  then show ?thesis using fifo_push_abs[OF assms(3) p] p Req_store assms(1)
    by (intro exI[of _ m] exI[of _ r]) auto
qed

lemma path_serve_all_ok:
  assumes "sp_bus s = mem_bus m r" and "cmem_ok m" and "fifo_inv (rsb_fifo (sp_rsb s))" and "\<forall>q \<in> set qs. request_ok q"
  shows "\<exists>m' r' s' acc. path_serve_all qs s = Some (s', acc) \<and> sp_bus s' = mem_bus m' r' \<and> same_writes m r m' r' \<and>
    fifo_inv (rsb_fifo (sp_rsb s')) \<and> is_waiting_ack (sp_rsb s') = is_waiting_ack (sp_rsb s) \<and>
    fifo_start (rsb_fifo (sp_rsb s')) = fifo_start (rsb_fifo (sp_rsb s)) \<and>
    fifo_avail (rsb_fifo (sp_rsb s')) = fifo_avail (rsb_fifo (sp_rsb s)) \<and>
    fifo_next (rsb_fifo (sp_rsb s')) = fifo_next (rsb_fifo (sp_rsb s)) @ acc \<and>
    (\<forall>it \<in> set acc. ram_store it) \<and> ((\<forall>q \<in> set qs. \<not> is_store q) \<longrightarrow> acc = [])"
  using assms
proof (induction qs arbitrary: s m r)
  case Nil
  then show ?case by (auto intro!: exI[of _ m] exI[of _ r])
next
  case (Cons q qs)
  obtain m1 r1 s1 a1 where 1: "path_serve q s = Some (s1, a1)" "sp_bus s1 = mem_bus m1 r1" "same_writes m r m1 r1"
    "fifo_inv (rsb_fifo (sp_rsb s1))" "is_waiting_ack (sp_rsb s1) = is_waiting_ack (sp_rsb s)"
    "fifo_start (rsb_fifo (sp_rsb s1)) = fifo_start (rsb_fifo (sp_rsb s))"
    "fifo_avail (rsb_fifo (sp_rsb s1)) = fifo_avail (rsb_fifo (sp_rsb s))"
    "fifo_next (rsb_fifo (sp_rsb s1)) = fifo_next (rsb_fifo (sp_rsb s)) @ a1"
    "\<forall>it \<in> set a1. ram_store it" "\<not> is_store q \<longrightarrow> a1 = []"
    using path_serve_ok[OF Cons.prems(1,2,3), of q] Cons.prems(4) by auto
  have "cmem_ok m1" using 1(3) Cons.prems(2) by (simp add: same_writes_def)
  from Cons.IH[OF 1(2) this 1(4)] list.set_intros(2)[of _ qs q] Cons.prems(4) obtain m2 r2 s2 a2 where
    2: "path_serve_all qs s1 = Some (s2, a2)" "sp_bus s2 = mem_bus m2 r2" "same_writes m1 r1 m2 r2"
    "fifo_inv (rsb_fifo (sp_rsb s2))" "is_waiting_ack (sp_rsb s2) = is_waiting_ack (sp_rsb s1)"
    "fifo_start (rsb_fifo (sp_rsb s2)) = fifo_start (rsb_fifo (sp_rsb s1))"
    "fifo_avail (rsb_fifo (sp_rsb s2)) = fifo_avail (rsb_fifo (sp_rsb s1))"
    "fifo_next (rsb_fifo (sp_rsb s2)) = fifo_next (rsb_fifo (sp_rsb s1)) @ a2"
    "\<forall>it \<in> set a2. ram_store it" "(\<forall>q \<in> set qs. \<not> is_store q) \<longrightarrow> a2 = []"
    by blast
  show ?case
    by (rule exI[of _ m2], rule exI[of _ r2], rule exI[of _ s2], rule exI[of _ "a1 @ a2"])
      (use 1 2 same_writes_trans[OF 1(3) 2(3)] in auto)
qed

lemma in_set_tl: "x \<in> set (tl xs) \<Longrightarrow> x \<in> set xs"
  by (cases xs) auto

text \<open>The buffer at the end of the cycle.\<close>

definition next_phase :: "phase \<Rightarrow> nat \<Rightarrow> retired_store_buffer_item_t list \<Rightarrow> phase" where
  "next_phase p wl xs =
     (case p of Idle \<Rightarrow> if xs = [] then Idle else Flying 0
      | Flying k \<Rightarrow> if k = wl then Acked else Flying (Suc k)
      | Acked \<Rightarrow> if tl xs = [] then Idle else Flying 0)"

lemma rsb_run_mem_bus:
  assumes "cmem_ok m" and "phase_ok p m0 (dff_get (data_write_ack r)) (is_waiting_ack b) (fifo_avail (rsb_fifo b))"
    and "data_write_latency m0 = data_write_latency m" and "write_data m = shift_write (write_data m0)" and "cmem_ok m0"
    and "ram_view (cmem_bytes m) = (if p = Flying (data_write_latency m)
        then put_store (item_access (hd (fifo_avail (rsb_fifo b)))) (ram_view (cmem_bytes m0)) else ram_view (cmem_bytes m0))"
    and "fifo_inv (rsb_fifo b)" and "\<forall>it \<in> set (fifo_avail (rsb_fifo b)). ram_store it"
    and "fifo_avail (rsb_fifo b) \<noteq> [] \<longrightarrow> fifo_next (rsb_fifo b) \<noteq> []"
  shows "\<exists>m' b'. rsb_run b (mem_bus m r) = Some (b', mem_bus m' r) \<and> cmem_ok m' \<and>
    cmem_bytes m' = cmem_bytes m \<and> data_write_latency m' = data_write_latency m \<and> fifo_inv (rsb_fifo b') \<and>
    fifo_next (rsb_fifo b') = (if p = Acked then tl else id) (fifo_next (rsb_fifo b)) \<and>
    fifo_avail (rsb_fifo b') = (if p = Acked then tl else id) (fifo_avail (rsb_fifo b)) \<and>
    phase_ok (next_phase p (data_write_latency m) (fifo_avail (rsb_fifo b))) m' (p = Flying (data_write_latency m))
      (is_waiting_ack b') (fifo_avail (rsb_fifo b'))"
proof -
  let ?q = "rsb_fifo b"
  have len: "length (write_data m0) = Suc (data_write_latency m)" using assms(3,5) by (simp add: cmem_ok_def)
  note sh = in_flight_shift[OF len]
  have send: "\<exists>m' b'. (case customer_get_front (rsb_fifo b1) of None \<Rightarrow> Some (b1, mem_bus m r)
       | Some item \<Rightarrow> do { b' \<leftarrow> rsb_send item (mem_bus m r); Some (b1\<lparr>is_waiting_ack := True\<rparr>, b') }) = Some (b', mem_bus m' r) \<and>
       cmem_ok m' \<and> cmem_bytes m' = cmem_bytes m \<and> data_write_latency m' = data_write_latency m \<and> rsb_fifo b' = rsb_fifo b1 \<and>
       phase_ok (if fifo_avail (rsb_fifo b1) = [] then Idle else Flying 0) m' False (is_waiting_ack b') (fifo_avail (rsb_fifo b'))"
    if "fifo_inv (rsb_fifo b1)" "\<not> is_waiting_ack b1" "in_flight (write_data m) None"
      "\<forall>it \<in> set (fifo_avail (rsb_fifo b1)). ram_store it" for b1
  proof (cases "fifo_avail (rsb_fifo b1)")
    case Nil
    then show ?thesis using that(2,3) customer_get_front_avail[OF that(1)] assms(1)
      by (intro exI[of _ m] exI[of _ b1]) simp
  next
    case (Cons it xs)
    then have g: "ram_store it" using that(4) by simp
    let ?m = "m\<lparr>write_data := (write_data m)[0 := item_request it]\<rparr>"
    have "length (write_data m) = Suc (data_write_latency m)" using assms(1) by (simp add: cmem_ok_def)
    from in_flight_post[OF this that(3), of "item_request it"]
    have "in_flight (write_data ?m) (Some 0)" by (simp add: item_request_def)
    then show ?thesis using Cons customer_get_front_avail[OF that(1)] mem_bus_send[OF g assms(1)] assms(1)
      by (intro exI[of _ ?m] exI[of _ "b1\<lparr>is_waiting_ack := True\<rparr>"]) (auto simp: cmem_ok_def)
  qed
  show ?thesis
  proof (cases p)
    case Idle
    then have "\<not> is_waiting_ack b" "in_flight (write_data m) None" using assms(2,4) sh by auto
    with send[of b] assms(7,8) obtain m' b' where
      "rsb_run b (mem_bus m r) = Some (b', mem_bus m' r)" "cmem_ok m'" "cmem_bytes m' = cmem_bytes m"
      "data_write_latency m' = data_write_latency m" "rsb_fifo b' = rsb_fifo b"
      "phase_ok (if fifo_avail ?q = [] then Idle else Flying 0) m' False (is_waiting_ack b') (fifo_avail (rsb_fifo b'))"
      by (auto simp: rsb_run_def rsb_take_ack_def)
    then show ?thesis using Idle assms(7) by (intro exI[of _ m'] exI[of _ b']) (simp add: next_phase_def)
  next
    case (Flying k)
    then have w: "is_waiting_ack b" "\<not> dff_get (data_write_ack r)" "k \<le> data_write_latency m" using assms(2,3) by auto
    then have run: "rsb_run b (mem_bus m r) = Some (b, mem_bus m r)"
      by (simp add: rsb_run_def rsb_take_ack_def get_data_write_ack_def)
    have "phase_ok (next_phase p (data_write_latency m) (fifo_avail ?q)) m (p = Flying (data_write_latency m))
      (is_waiting_ack b) (fifo_avail ?q)"
      using Flying assms(2,3,4,6) w sh by (auto simp: next_phase_def)
    then show ?thesis using run assms(1,7) Flying by (intro exI[of _ m] exI[of _ b]) simp
  next
    case Acked
    then have w: "is_waiting_ack b" "dff_get (data_write_ack r)" "fifo_avail ?q \<noteq> []" "in_flight (write_data m) None"
      using assms(2,4) sh by auto
    obtain x f where f: "fifo_pop ?q = (x, f)" by fastforce
    note pop = fifo_pop_abs[OF assms(7) f]
    have x: "x = Some (hd (fifo_avail ?q))" using pop(1) w(3) by (cases "fifo_avail ?q") auto
    let ?b = "b\<lparr>rsb_fifo := f, is_waiting_ack := False\<rparr>"
    have t: "rsb_take_ack b (mem_bus m r) = Some ?b"
      using w(1,2) f x by (simp add: rsb_take_ack_def get_data_write_ack_def)
    have "\<forall>it \<in> set (fifo_avail f). ram_store it" using assms(8) pop(4) by (auto dest: in_set_tl)
    with send[of ?b] pop w(4) obtain m' b' where
      "rsb_run b (mem_bus m r) = Some (b', mem_bus m' r)" "cmem_ok m'" "cmem_bytes m' = cmem_bytes m"
      "data_write_latency m' = data_write_latency m" "rsb_fifo b' = f"
      "phase_ok (if fifo_avail f = [] then Idle else Flying 0) m' False (is_waiting_ack b') (fifo_avail (rsb_fifo b'))"
      by (auto simp: rsb_run_def t)
    then show ?thesis using Acked pop w(3) by (intro exI[of _ m'] exI[of _ b']) (simp add: next_phase_def)
  qed
qed

text \<open>
  The state between two cycles. The stores the buffer holds, applied in order to the memory, give
  what a load has to see of the retired stores.
\<close>

definition held :: "store_path \<Rightarrow> retired_store_buffer_item_t list" where
  "held s = fifo_next (rsb_fifo (sp_rsb s))"

definition path_memory :: "store_path \<Rightarrow> memory" where
  "path_memory s = (case csi_slave (cslave_info_list (sp_bus s) ! 0) of
     CMemory m \<Rightarrow> cmem_bytes m | CClint c \<Rightarrow> memory_init 0)"

definition write_latency :: "store_path \<Rightarrow> nat" where
  "write_latency s = (case csi_slave (cslave_info_list (sp_bus s) ! 0) of
     CMemory m \<Rightarrow> data_write_latency m | CClint c \<Rightarrow> 0)"

definition put_all :: "retired_store_buffer_item_t list \<Rightarrow> (u32 \<Rightarrow> u8) \<Rightarrow> u32 \<Rightarrow> u8" where
  "put_all xs g = fold (\<lambda>it. put_store (item_access it)) xs g"

definition path_view :: "store_path \<Rightarrow> u32 \<Rightarrow> u8" where
  "path_view s = put_all (held s) (ram_view (path_memory s))"

definition path_ok :: "phase \<Rightarrow> store_path \<Rightarrow> bool" where
  "path_ok p s \<longleftrightarrow> (\<exists>m r. sp_bus s = mem_bus m r \<and> cmem_ok m \<and> \<not> dff_is_changed (data_write_ack r) \<and>
     phase_ok p m (dff_get (data_write_ack r)) (is_waiting_ack (sp_rsb s)) (held s) \<and>
     fifo_inv (rsb_fifo (sp_rsb s)) \<and> fifo_start (rsb_fifo (sp_rsb s)) = held s \<and>
     fifo_avail (rsb_fifo (sp_rsb s)) = held s \<and> (\<forall>it \<in> set (held s). ram_store it))"

lemma put_all_simps [simp]:
  "put_all [] g = g" "put_all (x # xs) g = put_all xs (put_store (item_access x) g)"
  "put_all (xs @ ys) g = put_all ys (put_all xs g)"
  by (simp_all add: put_all_def)

lemma path_sel [simp]:
  "sp_bus s = mem_bus m r \<Longrightarrow> path_memory s = cmem_bytes m"
  "sp_bus s = mem_bus m r \<Longrightarrow> write_latency s = data_write_latency m"
  by (simp_all add: path_memory_def write_latency_def)

lemma mem_bus_clock:
  "cbus_clock (cbus_sync (cbus_run (mem_bus m r))) = mem_bus m (bus_if_sync (bus_if_run r))"
  by (simp add: cbus_clock_def cbus_sync_def cbus_run_def mem_bus_def)

lemma clocked_ack:
  "data_write_ack (bus_if_sync (bus_if_run r)) = dff_sync (clear_unchanged (data_write_ack r))"
  by (simp add: bus_if_sync_def bus_if_run_def)

lemma path_cycle_ok:
  assumes "path_ok p s" and "\<forall>q \<in> set qs. request_ok q"
  shows "\<exists>s' acc. path_cycle qs s = Some (s', acc) \<and> path_ok (next_phase p (write_latency s) (held s)) s' \<and>
    write_latency s' = write_latency s \<and> held s' = (if p = Acked then tl else id) (held s) @ acc \<and>
    path_view s' = put_all acc (path_view s) \<and> ((\<forall>q \<in> set qs. \<not> is_store q) \<longrightarrow> acc = [])"
proof -
  obtain m r where s: "sp_bus s = mem_bus m r" "cmem_ok m" "\<not> dff_is_changed (data_write_ack r)"
    and ph: "phase_ok p m (dff_get (data_write_ack r)) (is_waiting_ack (sp_rsb s)) (held s)"
    and q: "fifo_inv (rsb_fifo (sp_rsb s))" "fifo_avail (rsb_fifo (sp_rsb s)) = held s" "\<forall>it \<in> set (held s). ram_store it"
    using assms(1) unfolding path_ok_def by blast
  obtain m1 r1 s1 acc where 1: "path_serve_all qs s = Some (s1, acc)" "sp_bus s1 = mem_bus m1 r1" "same_writes m r m1 r1"
    "fifo_inv (rsb_fifo (sp_rsb s1))" "is_waiting_ack (sp_rsb s1) = is_waiting_ack (sp_rsb s)"
    "fifo_avail (rsb_fifo (sp_rsb s1)) = held s" "fifo_next (rsb_fifo (sp_rsb s1)) = held s @ acc"
    "\<forall>it \<in> set acc. ram_store it" "(\<forall>q \<in> set qs. \<not> is_store q) \<longrightarrow> acc = []"
    using path_serve_all_ok[OF s(1,2) q(1) assms(2), unfolded q(2) held_def[of s, symmetric]] by blast
  have ok1: "cmem_ok m1" and w1: "data_write_latency m1 = data_write_latency m" "data_write_ack r1 = data_write_ack r"
    "cmem_bytes m1 = cmem_bytes m" using 1(3) s(2) by (simp_all add: same_writes_def)
  have ph1: "phase_ok p m1 (dff_get (data_write_ack r1)) (is_waiting_ack (sp_rsb s1)) (fifo_avail (rsb_fifo (sp_rsb s1)))"
    using ph 1(3,5,6) by (cases p) (simp_all add: same_writes_def)
  have g1: "\<forall>it \<in> set (fifo_avail (rsb_fifo (sp_rsb s1))). ram_store it" using q(3) 1(6) by simp
  obtain m2 r2 where 2: "cbus_run_post 0 (mem_bus m1 r1) = Some (mem_bus m2 r2)" "cmem_ok m2"
    "data_write_latency m2 = data_write_latency m1" "write_data m2 = shift_write (write_data m1)"
    "data_write_ack r2 = (if p = Flying (data_write_latency m1) then dff_set True (data_write_ack r1) else data_write_ack r1)"
    "ram_view (cmem_bytes m2) = (if p = Flying (data_write_latency m1)
        then put_store (item_access (hd (fifo_avail (rsb_fifo (sp_rsb s1))))) (ram_view (cmem_bytes m1)) else ram_view (cmem_bytes m1))"
    using run_post_mem_bus[OF ok1 ph1 g1, of r1] by blast
  have ph2: "phase_ok p m1 (dff_get (data_write_ack r2)) (is_waiting_ack (sp_rsb s1)) (fifo_avail (rsb_fifo (sp_rsb s1)))"
    using ph1 2(5) by (simp add: dff_set_def dff_get_def split: if_splits)
  have ne: "fifo_avail (rsb_fifo (sp_rsb s1)) \<noteq> [] \<longrightarrow> fifo_next (rsb_fifo (sp_rsb s1)) \<noteq> []" using 1(6,7) by simp
  obtain m3 b3 where 3: "rsb_run (sp_rsb s1) (mem_bus m2 r2) = Some (b3, mem_bus m3 r2)" "cmem_ok m3"
    "cmem_bytes m3 = cmem_bytes m2" "data_write_latency m3 = data_write_latency m2" "fifo_inv (rsb_fifo b3)"
    "fifo_next (rsb_fifo b3) = (if p = Acked then tl else id) (fifo_next (rsb_fifo (sp_rsb s1)))"
    "fifo_avail (rsb_fifo b3) = (if p = Acked then tl else id) (fifo_avail (rsb_fifo (sp_rsb s1)))"
    "phase_ok (next_phase p (data_write_latency m2) (fifo_avail (rsb_fifo (sp_rsb s1)))) m3 (p = Flying (data_write_latency m2))
      (is_waiting_ack b3) (fifo_avail (rsb_fifo b3))"
    using rsb_run_mem_bus[OF 2(2) ph2 2(3)[symmetric] 2(4) ok1 2(6)[folded 2(3)] 1(4) g1 ne] by blast
  define s' where "s' = \<lparr>sp_bus = mem_bus m3 (bus_if_sync (bus_if_run r2)), sp_rsb = rsb_sync b3\<rparr>"
  have run: "path_cycle qs s = Some (s', acc)"
    using 1(1,2) 2(1) 3(1) by (simp add: path_cycle_def path_end_def mem_bus_clock s'_def)
  note sy = fifo_sync_abs[OF 3(5)]
  have ack: "dff_get (data_write_ack (bus_if_sync (bus_if_run r2))) = (p = Flying (data_write_latency m2))"
    "\<not> dff_is_changed (data_write_ack (bus_if_sync (bus_if_run r2)))"
    using 2(3,5) w1 s(3)
    by (auto simp: clocked_ack dff_sync_def dff_get_def clear_unchanged_def dff_is_changed_def dff_set_def)
  have held': "held s' = (if p = Acked then tl else id) (held s) @ acc"
    using sy 3(6) 1(7) ph by (cases "held s") (auto simp: held_def s'_def rsb_sync_def)
  have av': "(if p = Acked then tl else id) (held s) = fifo_avail (rsb_fifo b3)" using 3(7) 1(6) by simp
  have phase': "phase_ok (next_phase p (write_latency s) (held s)) m3 (p = Flying (data_write_latency m2)) (is_waiting_ack b3) (held s')"
    using 3(8) 1(6) av' held' s(1) w1 2(3)
    by (cases "next_phase p (write_latency s) (held s)") (auto simp: hd_append)
  have ok': "path_ok (next_phase p (write_latency s) (held s)) s'"
    unfolding path_ok_def
    using phase' ack 3(2) sy held' q(3) 1(8)
    by (intro exI[of _ m3] exI[of _ "bus_if_sync (bus_if_run r2)"])
      (auto simp: s'_def rsb_sync_def held_def dest: in_set_tl)
  have mem': "ram_view (path_memory s') = (if p = Flying (data_write_latency m)
      then put_store (item_access (hd (held s))) (ram_view (path_memory s)) else ram_view (path_memory s))"
    using 3(3) 2(6) w1 1(6) s(1) by (simp add: s'_def)
  have "path_view s' = put_all acc (path_view s)"
    unfolding path_view_def held' mem' using ph s(1) by (cases p; cases "held s") auto
  then show ?thesis using run ok' held' 3(4) 2(3) w1(1) s(1) 1(9) by (auto simp: s'_def)
qed

lemma path_run_ok:
  assumes "path_ok p s" and "\<forall>qs \<in> set qss. \<forall>q \<in> set qs. request_ok q"
  shows "\<exists>p' s' acc. path_run qss s = Some (s', acc) \<and> path_ok p' s' \<and> path_view s' = put_all acc (path_view s)"
  using assms
proof (induction qss arbitrary: p s)
  case Nil
  then show ?case by auto
next
  case (Cons qs qss)
  obtain p1 s1 a1 where 1: "path_cycle qs s = Some (s1, a1)" "path_ok p1 s1" "path_view s1 = put_all a1 (path_view s)"
    using path_cycle_ok[OF Cons.prems(1), of qs] Cons.prems(2) by auto
  with Cons.IH[OF 1(2)] Cons.prems(2) show ?case by fastforce
qed

text \<open>The number of cycles until the buffer is empty, when no store comes in.\<close>

fun drain_time :: "phase \<Rightarrow> nat \<Rightarrow> nat \<Rightarrow> nat" where
  "drain_time Idle wl n = (if n = 0 then 0 else 1 + n * (wl + 2))"
| "drain_time (Flying k) wl n = (wl - k) + 2 + (n - 1) * (wl + 2)"
| "drain_time Acked wl n = 1 + (n - 1) * (wl + 2)"

lemma drain_time_step:
  assumes "path_ok p s" and "xs = (if p = Acked then tl else id) (held s)"
  shows "drain_time (next_phase p (write_latency s) (held s)) (write_latency s) (length xs)
    = drain_time p (write_latency s) (length (held s)) - 1"
proof -
  obtain m r where "sp_bus s = mem_bus m r" "phase_ok p m (dff_get (data_write_ack r)) (is_waiting_ack (sp_rsb s)) (held s)"
    using assms(1) unfolding path_ok_def by blast
  then show ?thesis using assms(2) 
    by (cases p; cases "held s"; cases "tl (held s)") (auto simp: next_phase_def Suc_diff_Suc)
qed

lemma drain_time_bound: "path_ok p s \<Longrightarrow> drain_time p (write_latency s) (length (held s)) \<le> 1 + length (held s) * (write_latency s + 2)"
proof -
  assume "path_ok p s"
  then obtain m r where "sp_bus s = mem_bus m r" "phase_ok p m (dff_get (data_write_ack r)) (is_waiting_ack (sp_rsb s)) (held s)"
    unfolding path_ok_def by blast
  then show ?thesis by (cases p; cases "held s") auto
qed

lemma drain_time_0: "path_ok p s \<Longrightarrow> drain_time p (write_latency s) (length (held s)) = 0 \<Longrightarrow> held s = []"
  by (cases p) (auto split: if_splits)

lemma path_drain:
  assumes "path_ok p s" and "\<forall>qs \<in> set qss. \<forall>q \<in> set qs. request_ok q \<and> \<not> is_store q"
    and "drain_time p (write_latency s) (length (held s)) \<le> length qss"
  shows "\<exists>p' s'. path_run qss s = Some (s', []) \<and> path_ok p' s' \<and> held s' = [] \<and> path_view s' = path_view s"
  using assms
proof (induction qss arbitrary: p s)
  case Nil
  then show ?case using drain_time_0 by auto
next
  case (Cons qs qss)
  obtain s1 where 1: "path_cycle qs s = Some (s1, [])" "path_ok (next_phase p (write_latency s) (held s)) s1"
    "write_latency s1 = write_latency s" "held s1 = (if p = Acked then tl else id) (held s)" "path_view s1 = path_view s"
    using path_cycle_ok[OF Cons.prems(1), of qs] Cons.prems(2) by auto
  have "drain_time (next_phase p (write_latency s) (held s)) (write_latency s1) (length (held s1)) \<le> length qss"
    using drain_time_step[OF Cons.prems(1) 1(4)] Cons.prems(3) 1(3) by simp
  from Cons.IH[OF 1(2) _ this] Cons.prems(2) show ?case using 1(1,5) by simp
qed

subsection \<open>The state after construction\<close>

definition RETIRED_STORE_BUFFER_SIZE :: nat where "RETIRED_STORE_BUFFER_SIZE = 16"

text \<open>The steps of \<^verbatim>\<open>cycle_model::reset\<close> on the bus, the buffer and the memory, with the clock edge at its end.\<close>

definition store_path_reset :: "store_path \<Rightarrow> store_path option" where
  "store_path_reset s =
     do {
       let b = cbus_reset (sp_bus s);
       let r = rsb_reset (sp_rsb s);
       i \<leftarrow> cfind_slave_info 0x80000000 False b;
       sl \<leftarrow> cslave_reset (csi_slave (cslave_info_list b ! i));
       Some \<lparr>sp_bus = cbus_clock (cbus_on_slave i (\<lambda>_ r. (sl, r)) b), sp_rsb = rsb_sync r\<rparr>
     }"

definition store_path_make :: "(u32 \<times> bool) list \<Rightarrow> write_request list \<Rightarrow> store_path option" where
  "store_path_make rd wd =
     do {
       b \<leftarrow> cacheable_bus_make rd wd;
       store_path_reset \<lparr>sp_bus = b, sp_rsb = rsb_make RETIRED_STORE_BUFFER_SIZE\<rparr>
     }"

lemma clear_all:
  "length ws = n \<Longrightarrow> clear_write n ws = map (\<lambda>w. w\<lparr>wr_valid := False\<rparr>) ws"
  "length rs = n \<Longrightarrow> clear_read n rs = map (\<lambda>(v, _). (v, False)) rs"
  by (simp_all add: clear_write_def clear_read_def)

lemma rsb_make_abs:
  "fifo_inv (rsb_fifo (rsb_sync (rsb_reset (rsb_make RETIRED_STORE_BUFFER_SIZE))))"
  "fifo_start (rsb_fifo (rsb_sync (rsb_reset (rsb_make RETIRED_STORE_BUFFER_SIZE)))) = []"
  "fifo_avail (rsb_fifo (rsb_sync (rsb_reset (rsb_make RETIRED_STORE_BUFFER_SIZE)))) = []"
  "fifo_next (rsb_fifo (rsb_sync (rsb_reset (rsb_make RETIRED_STORE_BUFFER_SIZE)))) = []"
  by code_simp+

definition fresh_memory :: "(u32 \<times> bool) list \<Rightarrow> write_request list \<Rightarrow> cmemory" where
  "fresh_memory rd wd = \<lparr>cmem_bytes = memory_init MEMORY_SIZE, data_read_latency = 10, read_data = map (\<lambda>(v, _). (v, False)) rd,
      data_write_latency = 10, write_data = map (\<lambda>w. w\<lparr>wr_valid := False\<rparr>) wd\<rparr>"

lemma store_path_make_state:
  assumes "length rd = 11" and "length wd = 11"
  shows "store_path_make rd wd = Some \<lparr>sp_bus = mem_bus (fresh_memory rd wd) (bus_if_sync bus_if_make),
    sp_rsb = rsb_sync (rsb_reset (rsb_make RETIRED_STORE_BUFFER_SIZE))\<rparr>"
proof -
  let ?m = "fresh_memory rd wd"
  have cr: "(case case x of (v, _) \<Rightarrow> (v, False) of (v, _) \<Rightarrow> (v, False)) = (case x of (v, _) \<Rightarrow> (v, False))" for x :: "u32 \<times> bool"
    by (cases x) simp
  have mk: "cacheable_bus_make rd wd = Some (mem_bus ?m bus_if_make)"
    using assms by (simp add: cacheable_bus_make_def cmemory_make_def cmemory_reset_def clear_all cbus_map_def cbus_make_def
        ccheck_addr_override_def cbus_reset_def mem_bus_def cmemory_init_def fresh_memory_def bus_if_make_def)
  have rs: "cmemory_reset ?m = Some ?m"
    using assms by (simp add: cmemory_reset_def fresh_memory_def clear_all memory_reset_def memory_init_def comp_def split_def)
  have r: "cbus_reset (mem_bus ?m bus_if_make) = mem_bus ?m bus_if_make"
    by (simp add: cbus_reset_def mem_bus_def bus_if_make_def)
  have ck: "cbus_clock (mem_bus ?m b) = mem_bus ?m (bus_if_sync b)" for b by (simp add: cbus_clock_def mem_bus_def)
  have f: "in_ram 0x80000000" by (simp add: in_ram_def config_defs)
  show ?thesis
    by (simp add: store_path_make_def store_path_reset_def mk r mem_bus_find f rs mem_bus_on_slave Let_def
        mem_bus_def[symmetric] ck)
qed

lemma store_path_make_ok:
  assumes "length rd = 11" and "length wd = 11"
  shows "\<exists>s. store_path_make rd wd = Some s \<and> path_ok Idle s \<and> held s = [] \<and> path_view s = (\<lambda>_. 0) \<and> write_latency s = 10"
proof -
  define m where "m = fresh_memory rd wd"
  define s where "s = \<lparr>sp_bus = mem_bus m (bus_if_sync bus_if_make), sp_rsb = rsb_sync (rsb_reset (rsb_make RETIRED_STORE_BUFFER_SIZE))\<rparr>"
  have m: "cmem_ok m" "in_flight (write_data m) None" using assms by (simp_all add: m_def fresh_memory_def cmem_ok_def in_flight_def memory_init_def)
  have s: "store_path_make rd wd = Some s" unfolding s_def m_def by (rule store_path_make_state[OF assms])
  have ack: "data_write_ack (bus_if_sync bus_if_make) = dff_sync (dff_make False)" by (simp add: bus_if_sync_def bus_if_make_def)
  have idle: "\<not> is_waiting_ack (rsb_sync (rsb_reset b))" for b by (simp add: rsb_sync_def rsb_reset_def)
  have h: "held s = []" by (simp add: held_def s_def rsb_make_abs)
  have "path_ok Idle s" unfolding path_ok_def
    using m h by (intro exI[of _ m] exI[of _ "bus_if_sync bus_if_make"])
      (simp add: s_def rsb_make_abs ack idle dff_sync_def dff_make_def dff_is_changed_def dff_get_def)
  moreover have "path_view s = (\<lambda>_. 0)"
    unfolding path_view_def h by (simp add: s_def m_def fresh_memory_def ram_view_def memory_init_def fun_eq_iff)
  moreover have "write_latency s = 10" by (simp add: s_def m_def fresh_memory_def)
  ultimately show ?thesis using s h by blast
qed

subsection \<open>Loads\<close>

text \<open>The word a read of \<open>sz\<close> bytes answers.\<close>

definition ram_read :: "u32 \<Rightarrow> u32 \<Rightarrow> memory \<Rightarrow> u32" where
  "ram_read sz off m =
     (if sz = 1 then ucast (memory_read8 off m) else if sz = 2 then ucast (memory_read16 off m) else memory_read32 off m)"

lemma byte_or_and:
  "byte_of (x OR y) k = byte_of x k OR byte_of y k" "byte_of (x AND y) k = byte_of x k AND byte_of y k"
  by (rule byte_eqI; auto simp: bit_byte_of bit_or_iff bit_and_iff)+

lemma byte_not: "k < 4 \<Longrightarrow> byte_of (NOT x) k = NOT (byte_of x k)"
  by (rule byte_eqI) (auto simp: bit_byte_of bit_not_iff)

lemma byte_of_read:
  assumes "access_size sz" and "k < unat sz"
  shows "byte_of (ram_read sz off m) k = mem m (off + of_nat k)"
proof -
  have b: "byte_of (ucast (x :: u8)) 0 = x" for x by (rule byte_eqI) (auto simp: bit_byte_of bit_simps)
  have h: "byte_of (ucast (ucast x0 OR push_bit 8 (ucast x1) :: u16)) 0 = x0"
    "byte_of (ucast (ucast x0 OR push_bit 8 (ucast x1) :: u16)) 1 = x1" for x0 x1 :: u8
    by (rule byte_eqI; auto simp: bit_byte_of bit_simps dest: bit_imp_le_length)+
  have w: "byte_of (ucast x0 OR push_bit 8 (ucast x1) OR push_bit 16 (ucast x2) OR push_bit 24 (ucast x3)) 0 = x0"
    "byte_of (ucast x0 OR push_bit 8 (ucast x1) OR push_bit 16 (ucast x2) OR push_bit 24 (ucast x3)) 1 = x1"
    "byte_of (ucast x0 OR push_bit 8 (ucast x1) OR push_bit 16 (ucast x2) OR push_bit 24 (ucast x3)) 2 = x2"
    "byte_of (ucast x0 OR push_bit 8 (ucast x1) OR push_bit 16 (ucast x2) OR push_bit 24 (ucast x3)) 3 = x3"
    for x0 x1 x2 x3 :: u8 by (rule byte_eqI; auto simp: bit_byte_of bit_simps dest: bit_imp_le_length)+
  from assms(1) show ?thesis
  proof (cases rule: access_sizeE)
    case 1
    then have "k = 0" using assms(2) by simp
    then show ?thesis using 1 b by (simp add: ram_read_def memory_read8_def)
  next
    case 2
    then have "k = 0 \<or> k = 1" using assms(2) by auto
    then show ?thesis using 2 h by (auto simp: ram_read_def memory_read16_def)
  next
    case 3
    then have "k = 0 \<or> k = 1 \<or> k = 2 \<or> k = 3" using assms(2) by auto
    then show ?thesis using 3 w by (auto simp: ram_read_def memory_read32_def)
  qed
qed

lemma merged_byte:
  assumes "carries rm (load_bytes addr sz ss)" and "access_size sz" and "k < unat sz"
  shows "byte_of ((v AND NOT (snd rm)) OR fst rm) k =
    (case last_store ss (unat addr + k) of Some b \<Rightarrow> b | None \<Rightarrow> byte_of v k)"
proof -
  have k: "k < 4" using assms(2,3) by (auto elim!: access_sizeE)
  have l: "load_bytes addr sz ss k = last_store ss (unat addr + k)" using assms(3) by (simp add: load_bytes_def)
  show ?thesis
  proof (cases "last_store ss (unat addr + k)")
    case None
    then show ?thesis using carriesD(2)[OF assms(1) k] l by (simp add: byte_or_and byte_not k)
  next
    case (Some b)
    then show ?thesis using carriesD(1)[OF assms(1) k, of b] l by (simp add: byte_or_and byte_not k)
  qed
qed

lemma put_all_last:
  "put_all xs g a = (case last_store (map item_access xs) (unat a) of Some v \<Rightarrow> v | None \<Rightarrow> g a)"
  by (induction xs arbitrary: g) (auto simp: put_store_def split: option.splits)

lemma path_slots:
  assumes "fifo_inv f" and "fifo_start f = fifo_avail f"
  shows "map (rs_access f) (producer_slots f) = map item_access (fifo_next f)"
    and "i \<in> set (producer_slots f) \<Longrightarrow> \<exists>it \<in> set (fifo_next f). rs_access f i = item_access it"
proof -
  obtain rc rn wc wn where w: "fifo_window f rc rn wc wn" using assms(1) by (rule fifo_windowE)
  note l = window_lists[OF w]
  have "wc - rc = wc - rn" using arg_cong[OF assms(2), of length] by (simp add: l)
  then have e: "rc = rn" using w by (auto simp: fifo_window_def)
  show m: "map (rs_access f) (producer_slots f) = map item_access (fifo_next f)"
    by (simp add: producer_slots_window[OF w] l e rs_access_def item_access_def Let_def)
  show "\<exists>it \<in> set (fifo_next f). rs_access f i = item_access it" if "i \<in> set (producer_slots f)"
    using that m by (metis (mono_tags, lifting) image_iff image_set)
qed

lemma ram_store_good: "ram_store it \<Longrightarrow> good_access (item_access it)"
  using ram_store_no_wrap[of it] by (simp add: good_access_def ram_store_def item_access_def)

lemma ram_addr_add:
  assumes "no_wrap addr sz" and "k < unat sz"
  shows "unat (addr + of_nat k) = unat addr + k"
proof -
  have "unat (of_nat k :: u32) = k" using assms by (simp add: no_wrap_def unat_of_nat)
  then show ?thesis using assms by (simp add: no_wrap_def unat_word_ariths)
qed

lemma path_carries:
  assumes "fifo_inv (rsb_fifo (sp_rsb s))"
    and "fifo_start (rsb_fifo (sp_rsb s)) = fifo_avail (rsb_fifo (sp_rsb s))"
    and "\<forall>it \<in> set (held s). ram_store it" and "access_size sz" and "no_wrap addr sz"
  shows "\<exists>rm. rs_get_feedback_value (rsb_fifo (sp_rsb s)) addr sz = Some rm \<and>
    carries rm (load_bytes addr sz (map item_access (held s)))"
proof -
  let ?f = "rsb_fifo (sp_rsb s)"
  note sl = path_slots[OF assms(1,2)]
  have g: "\<forall>i \<in> set (producer_slots ?f). good_access (rs_access ?f i)"
    using sl(2) assms(3) ram_store_good by (fastforce simp: held_def)
  show ?thesis
    unfolding rs_get_feedback_value_def producer_walk_front[OF assms(1)]
    using rs_body_fold[OF assms(4,5) g carries_start] sl(1) by (auto simp: held_def)
qed

text \<open>Where the stores in the buffer say nothing the memory decides.\<close>

lemma path_view_byte:
  assumes "access_size sz" and "no_wrap addr sz" and "k < unat sz"
  shows "path_view s (addr + of_nat k) =
    (case last_store (map item_access (held s)) (unat addr + k) of
       Some b \<Rightarrow> b | None \<Rightarrow> byte_of (ram_read sz (addr - MEMORY_BASE) (path_memory s)) k)"
  unfolding byte_of_read[OF assms(1,3)] path_view_def put_all_last
  by (simp add: ram_addr_add[OF assms(2,3)] ram_view_def algebra_simps split: option.split)

lemma path_load_view:
  assumes "sp_bus s = mem_bus m r" and "fifo_inv (rsb_fifo (sp_rsb s))"
    and "fifo_start (rsb_fifo (sp_rsb s)) = fifo_avail (rsb_fifo (sp_rsb s))"
    and "\<forall>it \<in> set (held s). ram_store it" and "access_size sz" and "no_wrap addr sz"
  shows "\<exists>rm. rs_get_feedback_value (rsb_fifo (sp_rsb s)) addr sz = Some rm \<and>
    (\<forall>k < unat sz. byte_of ((ram_read sz (addr - MEMORY_BASE) (path_memory s) AND NOT (snd rm)) OR fst rm) k
       = path_view s (addr + of_nat k))"
proof -
  obtain rm where rm: "rs_get_feedback_value (rsb_fifo (sp_rsb s)) addr sz = Some rm"
    and c: "carries rm (load_bytes addr sz (map item_access (held s)))"
    using path_carries[OF assms(2-6)] by blast
  show ?thesis
    using rm by (auto simp: merged_byte[OF c assms(5)] path_view_byte[OF assms(5,6)])
qed

subsection \<open>Properties\<close>

text \<open>
  C29. Retired stores reach the memory in order and none is lost. Start between two cycles, with the front store
  of the buffer not yet sent, on its way, or written and acknowledged, and let the core send any reads,
  fetch groups from any address but the last three words of the memory (where the model aborts), revoke reads,
  and retire stores of 1, 2 or 4 bytes to aligned addresses of the memory, over any number of cycles.
  Under these requests no assertion fails, the state is again such a state, and the memory overwritten by the stores still in the
  buffer is what it was before, overwritten by the stores the buffer accepted, in the order of their retirement.
\<close>

theorem store_path_coherent:
  assumes "path_ok p s" and "\<forall>qs \<in> set qss. \<forall>q \<in> set qs. request_ok q"
  shows "\<exists>p' s' acc. path_run qss s = Some (s', acc) \<and> path_ok p' s' \<and> path_view s' = put_all acc (path_view s)"
  by (rule path_run_ok[OF assms])

definition demo_item :: "u32 \<Rightarrow> u32 \<Rightarrow> u32 \<Rightarrow> retired_store_buffer_item_t" where
  "demo_item a n d = \<lparr>rs_inst_common_info = \<lparr>inst_id = 0\<rparr>, rs_addr = a, rs_size = n, rs_data = d\<rparr>"

definition demo_writes :: "write_request list" where
  "demo_writes = replicate 11 \<lparr>wr_addr = 7, wr_value = 9, wr_size = 3, wr_valid = True\<rparr>"

lemma demo_stores: "ram_store (demo_item 0x80000010 4 0xAABBCCDD)" "ram_store (demo_item 0x80000012 1 0x11)"
  by (simp_all add: ram_store_def demo_item_def access_size_def in_ram_def config_defs)

theorem store_path_coherent_witness:
  "\<exists>s s' acc. store_path_make (replicate 11 (0, True)) demo_writes = Some s \<and>
    path_run [[Req_store (demo_item 0x80000010 4 0xAABBCCDD), Req_read32 0x80000010],
      [Req_store (demo_item 0x80000012 1 0x11)], [], [Req_revoke]] s = Some (s', acc) \<and> path_view s' = put_all acc (\<lambda>_. 0)"
proof -
  obtain s where s: "store_path_make (replicate 11 (0, True)) demo_writes = Some s" "path_ok Idle s" "path_view s = (\<lambda>_. 0)"
    using store_path_make_ok[of "replicate 11 (0, True)" demo_writes] by (auto simp: demo_writes_def)
  show ?thesis
    using store_path_coherent[OF s(2), of "[[Req_store (demo_item 0x80000010 4 0xAABBCCDD), Req_read32 0x80000010],
      [Req_store (demo_item 0x80000012 1 0x11)], [], [Req_revoke]]"] s(1,3) demo_stores by auto
qed

text \<open>
  C30. The buffer drains: when no store is retired any more, whatever reads go on and whatever groups are fetched that
  do not start in the last three words of the memory, then after one cycle and two cycles more than the write latency for each store in the buffer the buffer is empty and the memory
  holds all of them.
\<close>

theorem store_path_drains:
  assumes "path_ok p s" and "\<forall>qs \<in> set qss. \<forall>q \<in> set qs. request_ok q \<and> \<not> is_store q"
    and "1 + length (held s) * (write_latency s + 2) \<le> length qss"
  shows "\<exists>s'. path_run qss s = Some (s', []) \<and> held s' = [] \<and> ram_view (path_memory s') = path_view s"
proof -
  have "drain_time p (write_latency s) (length (held s)) \<le> length qss" using drain_time_bound[OF assms(1)] assms(3) by simp
  from path_drain[OF assms(1,2) this] obtain p' s' where "path_run qss s = Some (s', [])" "held s' = []" "path_view s' = path_view s"
    by blast
  then show ?thesis by (auto simp: path_view_def)
qed

theorem store_path_drains_witness:
  "\<exists>s s1 s2. store_path_make (replicate 11 (0, True)) demo_writes = Some s \<and>
    path_cycle [Req_store (demo_item 0x80000010 4 0xAABBCCDD)] s = Some (s1, [demo_item 0x80000010 4 0xAABBCCDD]) \<and>
    path_run (replicate 13 []) s1 = Some (s2, []) \<and> ram_view (path_memory s2) 0x80000012 = 0xBB"
proof -
  let ?it = "demo_item 0x80000010 4 0xAABBCCDD"
  obtain s where s: "store_path_make (replicate 11 (0, True)) demo_writes = Some s" "path_ok Idle s" "path_view s = (\<lambda>_. 0)"
    "held s = []" "write_latency s = 10"
    using store_path_make_ok[of "replicate 11 (0, True)" demo_writes] by (auto simp: demo_writes_def)
  have r: "rsb_fifo (sp_rsb s) = fifo_sync (fifo_reset (rsb_fifo (rsb_make RETIRED_STORE_BUFFER_SIZE)))"
    using s(1) by (auto simp: store_path_make_def store_path_reset_def Let_def rsb_sync_def rsb_reset_def
        split: option.splits Option.bind_splits)
  have full: "\<not> producer_is_full (fifo_sync (fifo_reset (rsb_fifo (rsb_make RETIRED_STORE_BUFFER_SIZE))))" by code_simp
  obtain s1 acc where 1: "path_cycle [Req_store ?it] s = Some (s1, acc)" "path_ok (next_phase Idle (write_latency s) (held s)) s1"
    "write_latency s1 = write_latency s" "held s1 = acc" "path_view s1 = put_all acc (path_view s)"
    using path_cycle_ok[OF s(2), of "[Req_store ?it]"] demo_stores(1) s(4) by auto
  have acc: "acc = [?it]"
    using 1(1) full by (auto simp: path_cycle_def r fifo_push_def split: Option.bind_splits prod.splits)
  obtain s2 where 2: "path_run (replicate 13 []) s1 = Some (s2, [])" "ram_view (path_memory s2) = path_view s1"
    using store_path_drains[OF 1(2), of "replicate 13 []"] 1(3,4) acc s(5) by auto
  have "path_view s1 0x80000012 = 0xBB"
    unfolding 1(5) acc s(3) by (simp add: put_store_def item_access_def demo_item_def covers_def store_byte_def byte_of_def drop_bit_eq_div
        unsigned_ucast_eq)
  then show ?thesis using s(1) 1(1) acc 2 by auto
qed

text \<open>
  C31. Loads see the retired stores. At any point of a cycle, after any requests of that cycle (stores to aligned
  addresses of the memory, no fetch from its last three words), a load of 1, 2 or 4 bytes that reads the memory, and puts what the retired store buffer forwards over it, has in each byte
  the byte of the last retired store, even while that store is on its way to the memory.
\<close>

theorem load_sees_retired_stores:
  assumes "path_ok p s" and "\<forall>q \<in> set qs. request_ok q" and "path_serve_all qs s = Some (s1, acc)"
    and "access_size sz" and "no_wrap addr sz"
  shows "\<exists>rm. rs_get_feedback_value (rsb_fifo (sp_rsb s1)) addr sz = Some rm \<and>
    (\<forall>k < unat sz. byte_of ((ram_read sz (addr - MEMORY_BASE) (path_memory s1) AND NOT (snd rm)) OR fst rm) k
       = put_all acc (path_view s) (addr + of_nat k))"
proof -
  obtain m r where s: "sp_bus s = mem_bus m r" "cmem_ok m" "fifo_inv (rsb_fifo (sp_rsb s))"
    "fifo_start (rsb_fifo (sp_rsb s)) = held s" "fifo_avail (rsb_fifo (sp_rsb s)) = held s" "\<forall>it \<in> set (held s). ram_store it"
    using assms(1) unfolding path_ok_def by blast
  obtain m1 r1 where 1: "sp_bus s1 = mem_bus m1 r1" "same_writes m r m1 r1" "fifo_inv (rsb_fifo (sp_rsb s1))"
    "fifo_start (rsb_fifo (sp_rsb s1)) = fifo_avail (rsb_fifo (sp_rsb s1))" "held s1 = held s @ acc" "\<forall>it \<in> set acc. ram_store it"
    using path_serve_all_ok[OF s(1,2,3) assms(2)] assms(3) s(4,5) by (auto simp: held_def)
  have "path_view s1 = put_all acc (path_view s)"
    using 1(1,2,5) s(1) by (simp add: path_view_def same_writes_def)
  moreover have "\<forall>it \<in> set (held s1). ram_store it" using 1(5,6) s(6) by auto
  ultimately show ?thesis using path_load_view[OF 1(1,3,4) _ assms(4,5)] by simp
qed

theorem load_sees_retired_stores_witness:
  "\<exists>s s1 acc rm. store_path_make (replicate 11 (0, True)) demo_writes = Some s \<and>
    path_serve_all [Req_store (demo_item 0x80000010 4 0xAABBCCDD)] s = Some (s1, acc) \<and>
    rs_get_feedback_value (rsb_fifo (sp_rsb s1)) 0x80000010 2 = Some rm \<and>
    byte_of ((ram_read 2 0x10 (path_memory s1) AND NOT (snd rm)) OR fst rm) 1 = put_all acc (\<lambda>_. 0) 0x80000011"
proof -
  obtain s where s: "store_path_make (replicate 11 (0, True)) demo_writes = Some s" "path_ok Idle s" "path_view s = (\<lambda>_. 0)"
    using store_path_make_ok[of "replicate 11 (0, True)" demo_writes] by (auto simp: demo_writes_def)
  have q: "\<forall>q \<in> set [Req_store (demo_item 0x80000010 4 0xAABBCCDD)]. request_ok q" using demo_stores by simp
  obtain s1 acc where 1: "path_serve_all [Req_store (demo_item 0x80000010 4 0xAABBCCDD)] s = Some (s1, acc)"
    by (cases "fifo_push (demo_item 0x80000010 4 0xAABBCCDD) (rsb_fifo (sp_rsb s))") auto
  have a: "access_size 2" "no_wrap 0x80000010 2" by (simp_all add: access_size_def no_wrap_def)
  obtain rm where rm: "rs_get_feedback_value (rsb_fifo (sp_rsb s1)) 0x80000010 2 = Some rm"
    "\<forall>k < unat (2 :: u32). byte_of ((ram_read 2 (0x80000010 - MEMORY_BASE) (path_memory s1) AND NOT (snd rm)) OR fst rm) k
       = put_all acc (path_view s) (0x80000010 + of_nat k)"
    using load_sees_retired_stores[OF s(2) q 1 a] by blast
  have "byte_of ((ram_read 2 0x10 (path_memory s1) AND NOT (snd rm)) OR fst rm) 1 = put_all acc (\<lambda>_. 0) 0x80000011"
    using rm(2)[rule_format, of 1] s(3) by (simp add: config_defs)
  then show ?thesis using s(1) 1 rm(1) by blast
qed

end
