(* ===== verification/Lsu_Units.thy ===== *)
theory Lsu_Units
  imports Branch_Unit Store_Drain
begin

text \<open>
  \<^verbatim>\<open>pipeline/execute/lu.cpp\<close>, \<^verbatim>\<open>sau.cpp\<close> and \<^verbatim>\<open>sdu.cpp\<close>, the units for loads, store addresses and
  store data, with \<^verbatim>\<open>lsu_readreg_execute.h\<close>, \<^verbatim>\<open>lu_define.h\<close> and \<^verbatim>\<open>component/wait_table.h\<close>.

  The load unit has two stages. The first computes the address, asks the bus for the data and
  both store buffers for what they forward; the second waits for the answer of the bus, puts the
  forwarded bytes over it and sends the result to write back. The copy of the timer registers that
  the load unit keeps for the comparison with the ISA model is left out.
\<close>

subsection \<open>Packs\<close>

record lsu_readreg_execute_pack_t =
  lp_inst_common_info :: inst_common_info_t
  lp_enable :: bool
  lp_value :: u32
  lp_valid :: bool
  lp_last_uop :: bool
  lp_rob_id :: nat
  lp_rob_id_stage :: bool
  lp_pc :: u32
  lp_imm :: u32
  lp_has_exception :: bool
  lp_exception_id :: riscv_exception_t
  lp_exception_value :: u32
  lp_branch_predictor_info_pack :: branch_predictor_info_pack_t
  lp_rs1 :: u32
  lp_arg1_src :: arg_src_t
  lp_rs1_need_map :: bool
  lp_rs1_phy :: nat
  lp_src1_value :: u32
  lp_rs2 :: u32
  lp_arg2_src :: arg_src_t
  lp_rs2_need_map :: bool
  lp_rs2_phy :: nat
  lp_src2_value :: u32
  lp_rd :: u32
  lp_rd_enable :: bool
  lp_need_rename :: bool
  lp_rd_phy :: nat
  lp_csr :: u32
  lp_store_buffer_id :: nat
  lp_load_queue_id :: nat
  lp_op :: op_t
  lp_op_unit :: cycle_unit_t
  lp_sub_op :: cycle_sub_op_t

definition lsu_readreg_execute_pack_make :: lsu_readreg_execute_pack_t where
  "lsu_readreg_execute_pack_make =
     \<lparr>lp_inst_common_info = \<lparr>inst_id = 0\<rparr>, lp_enable = False, lp_value = 0, lp_valid = False, lp_last_uop = False,
      lp_rob_id = 0, lp_rob_id_stage = False, lp_pc = 0, lp_imm = 0, lp_has_exception = False,
      lp_exception_id = instruction_address_misaligned, lp_exception_value = 0,
      lp_branch_predictor_info_pack = branch_predictor_info_pack_make,
      lp_rs1 = 0, lp_arg1_src = Arg_reg, lp_rs1_need_map = False, lp_rs1_phy = 0, lp_src1_value = 0,
      lp_rs2 = 0, lp_arg2_src = Arg_reg, lp_rs2_need_map = False, lp_rs2_phy = 0, lp_src2_value = 0,
      lp_rd = 0, lp_rd_enable = False, lp_need_rename = False, lp_rd_phy = 0,
      lp_csr = 0, lp_store_buffer_id = 0, lp_load_queue_id = 0, lp_op = Op_add, lp_op_unit = Cunit_alu,
      lp_sub_op = Csub_alu Alu_add\<rparr>"

text \<open>What the three units copy; the load unit copies the prediction and the load queue slot too.\<close>

definition lsu_pass :: "lsu_readreg_execute_pack_t \<Rightarrow> execute_wb_pack_t \<Rightarrow> execute_wb_pack_t" where
  "lsu_pass p send =
     send\<lparr>wb_inst_common_info := lp_inst_common_info p, wb_enable := lp_enable p, wb_value := lp_value p,
       wb_valid := lp_valid p, wb_last_uop := lp_last_uop p, wb_rob_id := lp_rob_id p,
       wb_rob_id_stage := lp_rob_id_stage p, wb_pc := lp_pc p, wb_imm := lp_imm p,
       wb_has_exception := lp_has_exception p, wb_exception_id := lp_exception_id p,
       wb_exception_value := lp_exception_value p,
       wb_rs1 := lp_rs1 p, wb_arg1_src := lp_arg1_src p, wb_rs1_need_map := lp_rs1_need_map p,
       wb_rs1_phy := lp_rs1_phy p, wb_src1_value := lp_src1_value p,
       wb_rs2 := lp_rs2 p, wb_arg2_src := lp_arg2_src p, wb_rs2_need_map := lp_rs2_need_map p,
       wb_rs2_phy := lp_rs2_phy p, wb_src2_value := lp_src2_value p,
       wb_rd := lp_rd p, wb_rd_enable := lp_rd_enable p, wb_need_rename := lp_need_rename p,
       wb_rd_phy := lp_rd_phy p, wb_csr := lp_csr p, wb_op := lp_op p, wb_op_unit := lp_op_unit p,
       wb_sub_op := lp_sub_op p\<rparr>"

definition lu_pass :: "lsu_readreg_execute_pack_t \<Rightarrow> execute_wb_pack_t \<Rightarrow> execute_wb_pack_t" where
  "lu_pass p send =
     (lsu_pass p send)\<lparr>wb_branch_predictor_info_pack := lp_branch_predictor_info_pack p,
       wb_load_queue_id := lp_load_queue_id p\<rparr>"

definition store_pass :: "lsu_readreg_execute_pack_t \<Rightarrow> execute_wb_pack_t \<Rightarrow> execute_wb_pack_t" where
  "store_pass p send =
     (let s = lsu_pass p send
      in s\<lparr>wb_branch_predictor_info_pack := (wb_branch_predictor_info_pack s)\<lparr>bp_predicted := False\<rparr>\<rparr>)"

record lu_feedback_pack_t =
  luf_replay :: bool
  luf_replay_following_only :: bool
  luf_rob_id :: nat
  luf_rob_id_stage :: bool
  luf_stall :: bool

subsection \<open>The wait table\<close>

record wait_table =
  wt_size :: nat
  wt_addr_mask :: u32
  wt_buffer :: "bool dff list"

definition wait_table_reset :: "wait_table \<Rightarrow> wait_table" where
  "wait_table_reset t = t\<lparr>wt_buffer := map (dff_set False) (wt_buffer t)\<rparr>"

definition wait_table_make :: "nat \<Rightarrow> wait_table" where
  "wait_table_make n = wait_table_reset
     \<lparr>wt_size = n, wt_addr_mask = of_nat n - 1, wt_buffer = replicate n (dff_make False)\<rparr>"

definition wait_table_run :: "u64 \<Rightarrow> wait_table \<Rightarrow> wait_table" where
  "wait_table_run cycle t = (if cycle AND 0x3fff = 0x3fff then wait_table_reset t else t)"

definition wait_slot :: "u32 \<Rightarrow> wait_table \<Rightarrow> nat" where
  "wait_slot addr t = unat (drop_bit 2 addr AND wt_addr_mask t)"

definition set_wait_bit :: "u32 \<Rightarrow> wait_table \<Rightarrow> wait_table option" where
  "set_wait_bit addr t =
     (let i = wait_slot addr t in
      if i < length (wt_buffer t) then Some (t\<lparr>wt_buffer := (wt_buffer t)[i := dff_set True (wt_buffer t ! i)]\<rparr>) else None)"

definition get_wait_bit :: "u32 \<Rightarrow> wait_table \<Rightarrow> bool option" where
  "get_wait_bit addr t =
     (let i = wait_slot addr t in if i < length (wt_buffer t) then Some (dff_get (wt_buffer t ! i)) else None)"

definition wait_table_sync :: "wait_table \<Rightarrow> wait_table" where
  "wait_table_sync t = t\<lparr>wt_buffer := map dff_sync (wt_buffer t)\<rparr>"

subsection \<open>The load unit\<close>

record lu =
  lu_hdff :: "lsu_readreg_execute_pack_t handshake_dff"
  lu_port :: "execute_wb_pack_t port"
  l2_stall :: bool
  l2_last_stall :: bool
  l2_last_last_stall :: bool
  l2_rev_pack :: lsu_readreg_execute_pack_t
  l2_addr :: u32
  l2_feedback_value :: u32
  l2_feedback_mask :: u32
  l2_conflict_found :: bool
  l2_length :: u32
  l2_is_cacheable :: bool

definition lu_reset :: "lu \<Rightarrow> lu" where
  "lu_reset u = u\<lparr>l2_stall := False, l2_last_stall := False, l2_last_last_stall := False,
     l2_rev_pack := lsu_readreg_execute_pack_make, l2_addr := 0\<rparr>"

definition lu_sync :: "lu \<Rightarrow> lu" where
  "lu_sync u = u\<lparr>lu_hdff := hs_sync (lu_hdff u), lu_port := port_sync (lu_port u)\<rparr>"

text \<open>What the load unit shares with other components.\<close>

record lu_shared =
  ls_cacheable :: cbus
  ls_noncacheable :: cbus
  ls_store_buffer :: store_buffer
  ls_retired :: retired_store_buffer
  ls_load_queue :: load_queue
  ls_wait_table :: wait_table
  ls_pma :: "pma_item_t list"

definition lu_bus :: "bool \<Rightarrow> lu_shared \<Rightarrow> cbus" where
  "lu_bus cacheable sh = (if cacheable then ls_cacheable sh else ls_noncacheable sh)"

definition lu_on_bus :: "bool \<Rightarrow> (cbus \<Rightarrow> cbus) \<Rightarrow> lu_shared \<Rightarrow> lu_shared" where
  "lu_on_bus cacheable g sh =
     (if cacheable then sh\<lparr>ls_cacheable := g (ls_cacheable sh)\<rparr> else sh\<lparr>ls_noncacheable := g (ls_noncacheable sh)\<rparr>)"

fun lu_extend :: "lu_op_t \<Rightarrow> u32 \<Rightarrow> u32 option" where
  "lu_extend Lu_lb v = sign_extend v 8"
| "lu_extend Lu_lh v = sign_extend v 16"
| "lu_extend _ v = Some v"

text \<open>The second stage: the operation is alive unless it waits for a store or a flush covers it.\<close>

definition l2_alive :: "bru_feedback_pack_t \<Rightarrow> sau_feedback_pack_t \<Rightarrow> commit_feedback_pack_t \<Rightarrow> lu \<Rightarrow> bool" where
  "l2_alive bru sau commit u \<longleftrightarrow>
     (let p = l2_rev_pack u; a = age (lp_rob_id p) (lp_rob_id_stage p) in
      lp_enable p \<and> \<not> l2_conflict_found u \<and> \<not> cf_flush commit \<and>
      (\<not> bru_flush bru \<or> age_greater_equal a (age (bru_rob_id bru) (bru_rob_id_stage bru))) \<and>
      (\<not> sau_flush sau \<or> age_greater a (age (sau_rob_id sau) (sau_rob_id_stage sau))))"

text \<open>The result of the second stage: the pack, whether the unit stalls, and the feedback flags.\<close>

definition l2_result :: "lu \<Rightarrow> lu_shared \<Rightarrow> lu_feedback_pack_t \<Rightarrow> (execute_wb_pack_t \<times> bool \<times> lu_feedback_pack_t) option" where
  "l2_result u sh fb =
     do {
       let p = l2_rev_pack u;
       verify (lp_valid p);
       let send = lu_pass p execute_wb_pack_make;
       (if \<not> lp_has_exception p
        then do {
          let r = get_data_value (cbus_if (lu_bus (l2_is_cacheable u) sh));
          let bus_value = (case r of Some v \<Rightarrow> v | None \<Rightarrow> 0);
          let feedback_value = (bus_value AND NOT (l2_feedback_mask u)) OR l2_feedback_value u;
          rd_value \<leftarrow> (case lp_sub_op p of Csub_lu f \<Rightarrow> lu_extend f feedback_value | _ \<Rightarrow> None);
          Some (if r = None
                then (execute_wb_pack_make, True, fb\<lparr>luf_replay := True, luf_replay_following_only := True\<rparr>)
                else (send\<lparr>wb_rd_value := rd_value\<rparr>, False,
                      if l2_last_last_stall u then fb\<lparr>luf_replay := True, luf_replay_following_only := True\<rparr> else fb))
        }
        else Some (send, False, fb))
     }"

definition lu_level2 ::
    "bru_feedback_pack_t \<Rightarrow> sau_feedback_pack_t \<Rightarrow> commit_feedback_pack_t \<Rightarrow> bool \<Rightarrow> lu \<Rightarrow> lu_shared \<Rightarrow>
     (execute_wb_pack_t \<times> lu_feedback_pack_t \<times> lu \<times> lu_shared) option" where
  "lu_level2 bru sau commit only u0 sh0 =
     do {
       let u1 = (if \<not> only then u0\<lparr>l2_last_stall := l2_stall u0\<rparr> else u0);
       let p = l2_rev_pack u1;
       let fb = \<lparr>luf_replay = l2_conflict_found u1, luf_replay_following_only = False, luf_rob_id = lp_rob_id p,
                 luf_rob_id_stage = lp_rob_id_stage p, luf_stall = False\<rparr>;
       sh1 \<leftarrow> (if lp_enable p \<and> l2_conflict_found u1 \<and> \<not> only
         then do {
           q \<leftarrow> lq_add_replay_num (lp_load_queue_id p) (ls_load_queue sh0);
           t \<leftarrow> set_wait_bit (lp_pc p) (ls_wait_table sh0);
           Some (sh0\<lparr>ls_load_queue := q, ls_wait_table := t\<rparr>)
         }
         else Some sh0);
       (send, load_stall, fb1) \<leftarrow>
         (if l2_alive bru sau commit u1 then l2_result u1 sh1 fb else Some (execute_wb_pack_make, False, fb));
       let sh2 = (if \<not> l2_alive bru sau commit u1 \<and> \<not> only \<and> lp_enable p \<and> \<not> lp_has_exception p
                  then lu_on_bus (l2_is_cacheable u1) (\<lambda>b. b\<lparr>cbus_if := revoke_data_request (cbus_if b)\<rparr>) sh1 else sh1);
       let u2 = (if \<not> only
                 then u1\<lparr>l2_last_last_stall := (\<not> load_stall \<and> l2_last_stall u1), l2_stall := load_stall,
                         lu_port := port_set send (lu_port u1)\<rparr>
                 else u1);
       Some (send, fb1\<lparr>luf_stall := load_stall\<rparr>, u2, sh2)
     }"

text \<open>The first stage.\<close>

fun lu_size :: "lu_op_t \<Rightarrow> u32" where
  "lu_size Lu_lb = 1"
| "lu_size Lu_lbu = 1"
| "lu_size Lu_lh = 2"
| "lu_size Lu_lhu = 2"
| "lu_size Lu_lw = 4"

fun lu_read :: "lu_op_t \<Rightarrow> u32 \<Rightarrow> cbus \<Rightarrow> cbus" where
  "lu_read Lu_lb a b = cbus_read8 a b"
| "lu_read Lu_lbu a b = cbus_read8 a b"
| "lu_read Lu_lh a b = cbus_read16 a b"
| "lu_read Lu_lhu a b = cbus_read16 a b"
| "lu_read Lu_lw a b = cbus_read32 a b"

definition byte_lane :: "nat \<Rightarrow> u32" where
  "byte_lane i = push_bit i 0xff"

definition combine_byte :: "u32 \<times> u32 \<Rightarrow> nat \<Rightarrow> u32 \<times> u32 \<Rightarrow> u32 \<times> u32" where
  "combine_byte r i vm =
     (if snd r AND byte_lane i \<noteq> 0 \<and> snd vm AND byte_lane i = 0
      then (fst vm OR (fst r AND byte_lane i), snd vm OR byte_lane i) else vm)"

definition combine_feedback :: "u32 \<times> u32 \<Rightarrow> u32 \<times> u32 \<Rightarrow> u32 \<times> u32" where
  "combine_feedback r vm = fold (combine_byte r) [0, 8, 16, 24] vm"

definition lu_start :: "lsu_readreg_execute_pack_t \<Rightarrow> lu_op_t \<Rightarrow> lu \<Rightarrow> lu_shared \<Rightarrow> (lu \<times> lu_shared) option" where
  "lu_start p f u sh =
     do {
       let addr = lp_src1_value p + lp_imm p;
       let cacheable = is_cacheable addr (ls_pma sh);
       let misaligned = \<not> ccheck_align addr (lu_size f);
       let p1 = p\<lparr>lp_exception_value := addr, lp_has_exception := misaligned,
                  lp_exception_id := (if misaligned then load_address_misaligned else load_access_fault)\<rparr>;
       let sh1 = (if \<not> misaligned then lu_on_bus cacheable (lu_read f addr) sh else sh);
       retired \<leftarrow> rs_get_feedback_value (rsb_fifo (ls_retired sh1)) addr (lu_size f);
       feedback_param \<leftarrow> sb_get_feedback_value (ls_store_buffer sh1) addr (lu_size f) (lp_rob_id p) (lp_rob_id_stage p);
       let (fv, fm) = combine_feedback retired
             (case feedback_param of Some vm \<Rightarrow> vm | None \<Rightarrow> (l2_feedback_value u, l2_feedback_mask u));
       let item = \<lparr>lq_addr_valid = True, lq_pc = lp_pc p, lq_rob_id = lp_rob_id p, lq_rob_id_stage = lp_rob_id_stage p,
                   lq_addr = addr, lq_size = lu_size f,
                   lq_checkpoint_id_valid = bp_checkpoint_id_valid (lp_branch_predictor_info_pack p),
                   lq_checkpoint_id = bp_checkpoint_id (lp_branch_predictor_info_pack p)\<rparr>;
       q \<leftarrow> fifo_set_item (lp_load_queue_id p) item (lq_fifo (ls_load_queue sh1));
       q' \<leftarrow> lq_write_conflict (lp_load_queue_id p) False ((ls_load_queue sh1)\<lparr>lq_fifo := q\<rparr>);
       Some (u\<lparr>l2_addr := addr, l2_is_cacheable := cacheable, l2_rev_pack := p1, l2_length := lu_size f,
               l2_conflict_found := (feedback_param = None), l2_feedback_value := fv, l2_feedback_mask := fm\<rparr>,
             sh1\<lparr>ls_load_queue := q'\<rparr>)
     }"

definition lu_empty :: "lu \<Rightarrow> lu" where
  "lu_empty u = u\<lparr>l2_addr := 0, l2_rev_pack := lsu_readreg_execute_pack_make\<rparr>"

definition lu_level1 ::
    "bru_feedback_pack_t \<Rightarrow> sau_feedback_pack_t \<Rightarrow> commit_feedback_pack_t \<Rightarrow> lu \<Rightarrow> lu_shared \<Rightarrow> (lu \<times> lu_shared) option" where
  "lu_level1 bru sau commit u sh =
     (if \<not> cf_flush commit
      then (if \<not> l2_stall u
            then (case hs_pop (lu_hdff u) of
                    (None, h) \<Rightarrow> Some (lu_empty (u\<lparr>lu_hdff := h\<rparr>), sh)
                  | (Some p, h) \<Rightarrow>
                      let u1 = u\<lparr>lu_hdff := h\<rparr> in
                      if bru_kills bru (lp_rob_id p) (lp_rob_id_stage p) \<or> sau_kills sau (lp_rob_id p) (lp_rob_id_stage p)
                      then Some (lu_empty u1, sh)
                      else do {
                        let u2 = u1\<lparr>l2_addr := 0, l2_rev_pack := p\<rparr>;
                        (if lp_enable p
                         then do {
                           verify (lp_valid p);
                           verify (lp_op_unit p = Cunit_lu);
                           (if \<not> lp_has_exception p
                            then (case lp_sub_op p of Csub_lu f \<Rightarrow> lu_start p f u2 sh | _ \<Rightarrow> None)
                            else Some (u2, sh))
                         }
                         else Some (u2, sh))
                      })
            else Some (u, sh))
      else Some (lu_empty u, sh))"

definition lu_run ::
    "bru_feedback_pack_t \<Rightarrow> sau_feedback_pack_t \<Rightarrow> commit_feedback_pack_t \<Rightarrow> bool \<Rightarrow> lu \<Rightarrow> lu_shared \<Rightarrow>
     (execute_feedback_channel_t \<times> lu_feedback_pack_t \<times> lu \<times> lu_shared) option" where
  "lu_run bru sau commit only u sh =
     do {
       (send, fb, u1, sh1) \<leftarrow> lu_level2 bru sau commit only u sh;
       (u2, sh2) \<leftarrow> (if \<not> only then lu_level1 bru sau commit u1 sh1 else Some (u1, sh1));
       Some (execute_feedback send, fb, u2, sh2)
     }"

subsection \<open>The store address unit\<close>

record lsu_unit =
  lu_in :: "lsu_readreg_execute_pack_t handshake_dff"
  lu_out :: "execute_wb_pack_t port"

definition lsu_unit_sync :: "lsu_unit \<Rightarrow> lsu_unit" where
  "lsu_unit_sync u = u\<lparr>lu_in := hs_sync (lu_in u), lu_out := port_sync (lu_out u)\<rparr>"

fun sau_size :: "sau_op_t \<Rightarrow> u32" where
  "sau_size Sau_stab = 1"
| "sau_size Sau_stah = 2"
| "sau_size Sau_staw = 4"

definition sau_recover :: "load_queue_item_t \<Rightarrow> spec_state \<Rightarrow> spec_state option" where
  "sau_recover item s =
     do {
       cp \<leftarrow> customer_get_item (sp_checkpoint s) (lq_checkpoint_id item);
       rat \<leftarrow> restore_from_checkpoint cp (sp_rat s);
       free \<leftarrow> free_list_restore (cp_old_phy_id_free_list_rptr cp) (cp_old_phy_id_free_list_rstage cp) (sp_free s);
       Some (s\<lparr>sp_rat := rat, sp_rob := rob_update_wptr (lq_rob_id item) (lq_rob_id_stage item) (sp_rob s),
         sp_regfile := phy_regfile_restore_equal (lq_rob_id item) (lq_rob_id_stage item) (sp_regfile s),
         sp_checkpoint := update_wptr (cp_old_checkpoint_buffer_wptr cp) (cp_old_checkpoint_buffer_wstage cp) (sp_checkpoint s),
         sp_free := free,
         sp_load_queue := lq_update_wptr (cp_old_load_queue_wptr cp) (cp_old_load_queue_wstage cp) (sp_load_queue s),
         sp_store_buffer := sb_update_wptr (cp_old_store_buffer_wptr cp) (cp_old_store_buffer_wstage cp) (sp_store_buffer s)\<rparr>)
     }"

definition sau_no_flush :: sau_feedback_pack_t where
  "sau_no_flush = \<lparr>sau_flush = False, sau_next_pc = 0, sau_rob_id_stage = False, sau_rob_id = 0\<rparr>"

text \<open>What follows the address: note the address in the store buffer and look for a younger load that ran ahead.\<close>

definition sau_conflict ::
    "bool \<Rightarrow> lsu_readreg_execute_pack_t \<Rightarrow> u32 \<Rightarrow> u32 \<Rightarrow> spec_state \<Rightarrow> wait_table \<Rightarrow>
     (sau_feedback_pack_t \<times> spec_state \<times> wait_table) option" where
  "sau_conflict only p addr sz s t =
     do {
       conflict_ret \<leftarrow> get_conflict_item (sp_load_queue s) addr sz (lp_rob_id p) (lp_rob_id_stage p);
       (case conflict_ret of
          None \<Rightarrow> Some (sau_no_flush, s, t)
        | Some (item_id, item_stage, item) \<Rightarrow>
            do {
              q \<leftarrow> lq_write_conflict item_id True (sp_load_queue s);
              t' \<leftarrow> set_wait_bit (lq_pc item) t;
              let s1 = s\<lparr>sp_load_queue := q\<rparr>;
              (if lq_checkpoint_id_valid item
               then do {
                 s2 \<leftarrow> (if \<not> only then sau_recover item s1 else Some s1);
                 Some (\<lparr>sau_flush = True, sau_next_pc = lq_pc item, sau_rob_id_stage = lq_rob_id_stage item,
                        sau_rob_id = lq_rob_id item\<rparr>, s2, t')
               }
               else Some (sau_no_flush, s1, t'))
            })
     }"

definition sau_exec ::
    "bool \<Rightarrow> lsu_readreg_execute_pack_t \<Rightarrow> execute_wb_pack_t \<Rightarrow> spec_state \<Rightarrow> wait_table \<Rightarrow>
     (execute_wb_pack_t \<times> sau_feedback_pack_t \<times> spec_state \<times> wait_table) option" where
  "sau_exec only p send s t =
     (if lp_enable p
      then do {
        verify (lp_valid p);
        verify (lp_op_unit p = Cunit_sau);
        (if \<not> lp_has_exception p
         then (case lp_sub_op p of
                 Csub_sau f \<Rightarrow>
                   do {
                     let addr = lp_src1_value p + lp_imm p;
                     let misaligned = \<not> ccheck_align addr (sau_size f);
                     let send1 = send\<lparr>wb_exception_value := addr, wb_has_exception := misaligned,
                       wb_exception_id := (if misaligned then store_amo_address_misaligned else store_amo_access_fault)\<rparr>;
                     b \<leftarrow> sb_write_addr (lp_store_buffer_id p) addr (sau_size f) True (sp_store_buffer s);
                     (fb, s1, t1) \<leftarrow> sau_conflict only p addr (sau_size f) (s\<lparr>sp_store_buffer := b\<rparr>) t;
                     Some (send1, fb, s1, t1)
                   }
               | _ \<Rightarrow> None)
         else Some (send, sau_no_flush, s, t))
      }
      else Some (send, sau_no_flush, s, t))"

definition sau_run ::
    "bru_feedback_pack_t \<Rightarrow> commit_feedback_pack_t \<Rightarrow> bool \<Rightarrow> lsu_unit \<Rightarrow> spec_state \<Rightarrow> wait_table \<Rightarrow>
     (sau_feedback_pack_t \<times> lsu_unit \<times> spec_state \<times> wait_table) option" where
  "sau_run bru commit only u s t =
     do {
       (send, fb, h, s1, t1) \<leftarrow>
         (if \<not> hs_is_empty (lu_in u) \<and> \<not> cf_flush commit
          then (case (if only then (hs_get_data (lu_in u), lu_in u) else hs_pop (lu_in u)) of
                  (None, h) \<Rightarrow> None
                | (Some p, h) \<Rightarrow>
                    if bru_kills bru (lp_rob_id p) (lp_rob_id_stage p)
                    then Some (execute_wb_pack_make, sau_no_flush, h, s, t)
                    else do {
                      verify (lp_valid p);
                      (send, fb, s1, t1) \<leftarrow> sau_exec only p (store_pass p execute_wb_pack_make) s t;
                      Some (send, fb, h, s1, t1)
                    })
          else Some (execute_wb_pack_make, sau_no_flush, lu_in u, s, t));
       Some (fb, u\<lparr>lu_in := h, lu_out := (if \<not> only then port_set send (lu_out u) else lu_out u)\<rparr>, s1, t1)
     }"

subsection \<open>The store data unit\<close>

fun sdu_data :: "sdu_op_t \<Rightarrow> u32 \<Rightarrow> u32" where
  "sdu_data Sdu_sb v = v AND 0xff"
| "sdu_data Sdu_sh v = v AND 0xffff"
| "sdu_data Sdu_sw v = v"

definition sdu_exec :: "u64 \<Rightarrow> lsu_readreg_execute_pack_t \<Rightarrow> store_buffer \<Rightarrow> store_buffer option" where
  "sdu_exec cycle p b =
     (if lp_enable p
      then do {
        verify (lp_valid p);
        verify (lp_op_unit p = Cunit_sdu);
        (if \<not> lp_has_exception p
         then (case lp_sub_op p of
                 Csub_sdu f \<Rightarrow>
                   do {
                     item \<leftarrow> sb_get_item b (lp_store_buffer_id p);
                     sb_set_item (lp_store_buffer_id p)
                       (item\<lparr>sb_data_valid := True, sb_data := sdu_data f (lp_src2_value p), sb_committed := False,
                         sb_pc := lp_pc p, sb_rob_id := lp_rob_id p, sb_rob_id_stage := lp_rob_id_stage p, sb_cycle := cycle\<rparr>) b
                   }
               | _ \<Rightarrow> None)
         else Some b)
      }
      else Some b)"

definition sdu_run ::
    "u64 \<Rightarrow> bru_feedback_pack_t \<Rightarrow> sau_feedback_pack_t \<Rightarrow> commit_feedback_pack_t \<Rightarrow> lsu_unit \<Rightarrow> store_buffer \<Rightarrow>
     (lsu_unit \<times> store_buffer) option" where
  "sdu_run cycle bru sau commit u b =
     do {
       (send, h, b1) \<leftarrow>
         (if \<not> cf_flush commit
          then (case hs_pop (lu_in u) of
                  (None, h) \<Rightarrow> Some (execute_wb_pack_make, h, b)
                | (Some p, h) \<Rightarrow>
                    if bru_kills bru (lp_rob_id p) (lp_rob_id_stage p) \<or> sau_kills sau (lp_rob_id p) (lp_rob_id_stage p)
                    then Some (execute_wb_pack_make, h, b)
                    else do {
                      verify (lp_valid p);
                      b1 \<leftarrow> sdu_exec cycle p b;
                      Some (store_pass p execute_wb_pack_make, h, b1)
                    })
          else Some (execute_wb_pack_make, lu_in u, b));
       Some (u\<lparr>lu_in := h, lu_out := port_set send (lu_out u)\<rparr>, b1)
     }"

end
