(* ===== verification/Load_Path.thy ===== *)
theory Load_Path
  imports Lsu_Units
begin

text \<open>
  What becomes of a load: the answer of the memory to a read request, and the load unit together with
  the store path. A read request takes the bytes of the memory at once, and the answer arrives after
  the read latency; answers of revoked requests are dropped by count. The load unit adds what the
  store buffers forward at the time of the request. The lemmas show that the value it sends to write
  back has, in each byte, the byte of the youngest older store that the store buffer shows, and where
  there is none the byte of the last retired store.
\<close>

subsection \<open>Answers of the memory\<close>

definition same_reads :: "cmemory \<Rightarrow> bus_if \<Rightarrow> cmemory \<Rightarrow> bus_if \<Rightarrow> bool" where
  "same_reads m r m' r' \<longleftrightarrow> read_data m' = read_data m \<and> data_read_latency m' = data_read_latency m \<and>
     data_value r' = data_value r \<and> data_value_valid r' = data_value_valid r \<and> revoke_data_cnt r' = revoke_data_cnt r"

lemma same_reads_refl [simp]: "same_reads m r m r"
  by (simp add: same_reads_def)

lemma same_reads_trans: "same_reads m r m1 r1 \<Longrightarrow> same_reads m1 r1 m2 r2 \<Longrightarrow> same_reads m r m2 r2"
  by (simp add: same_reads_def)

lemma same_reads_ack [simp]: "same_reads m r m (set_data_write_ack e r)" "same_reads m r m (bus_if_error a z v w f r)"
  by (simp_all add: same_reads_def set_data_write_ack_def bus_if_error_def)

lemma write_error_bus: "cbus_write_error a z v (mem_bus m r) = mem_bus m (set_data_write_ack Bus_error (bus_if_error a z v True False r))"
  by (simp add: cbus_write_error_def)

lemma post_write_reads [simp]: "same_reads m r (cmemory_post_write a z v m) r"
  by (simp add: same_reads_def cmemory_post_write_def)

lemma mem_bus_writes:
  "\<exists>m' r'. cbus_write8 a v8 (mem_bus m r) = mem_bus m' r' \<and> same_reads m r m' r'"
  "\<exists>m' r'. cbus_write16 a v16 (mem_bus m r) = mem_bus m' r' \<and> same_reads m r m' r'"
  "\<exists>m' r'. cbus_write32 a v32 (mem_bus m r) = mem_bus m' r' \<and> same_reads m r m' r'"
proof -
  have e: "\<exists>m' r'. cbus_write_error a z v (mem_bus m r) = mem_bus m' r' \<and> same_reads m r m' r'" for z v
    unfolding write_error_bus using same_reads_trans[OF same_reads_ack(2) same_reads_ack(1)] by blast
  have k: "\<exists>m' r'. \<lparr>sync_request_q = [], cslave_info_list = [\<lparr>csi_base = MEMORY_BASE, csi_size = MEMORY_SIZE,
        csi_slave = CMemory m1, csi_support_fetch = True\<rparr>], cbus_if = r\<rparr> = mem_bus m' r' \<and> same_reads m r m' r'"
    if "same_reads m r m1 r" for m1
    using that by (intro exI[of _ m1] exI[of _ r]) (simp add: mem_bus_def)
  show "\<exists>m' r'. cbus_write8 a v8 (mem_bus m r) = mem_bus m' r' \<and> same_reads m r m' r'"
    "\<exists>m' r'. cbus_write16 a v16 (mem_bus m r) = mem_bus m' r' \<and> same_reads m r m' r'"
    "\<exists>m' r'. cbus_write32 a v32 (mem_bus m r) = mem_bus m' r' \<and> same_reads m r m' r'"
    unfolding cbus_write8_def cbus_write16_def cbus_write32_def mem_bus_find
    by (simp_all add: e k mem_bus_on_slave cslave_write8_def cslave_write16_def cslave_write32_def
        cmemory_write8_def cmemory_write16_def cmemory_write32_def split: if_splits)
qed

lemma rsb_run_reads:
  assumes "rsb_run b (mem_bus m r) = Some (b', x)"
  shows "\<exists>m' r'. x = mem_bus m' r' \<and> same_reads m r m' r'"
  using assms mem_bus_writes[of _ _ m r]
  by (fastforce simp: rsb_run_def rsb_send_def split: Option.bind_splits option.splits if_splits)

lemma run_post_reads:
  assumes "cbus_run_post 0 (mem_bus m r) = Some x"
  shows "\<exists>m' r'. x = mem_bus m' r' \<and> read_data m' = shift_read (read_data m) \<and> data_read_latency m' = data_read_latency m \<and>
    same_reads m' (if snd (read_data m ! data_read_latency m) then set_data_value (fst (read_data m ! data_read_latency m)) r else r) m' r'"
proof -
  obtain v valid where rd: "read_data m ! data_read_latency m = (v, valid)" by fastforce
  define r1 where "r1 = (if valid then set_data_value v r else r)"
  let ?m = "m\<lparr>read_data := shift_read (read_data m)\<rparr>"
  let ?w = "write_data m ! data_write_latency m"
  show ?thesis
  proof (cases "wr_valid ?w")
    case True
    then obtain bytes where b: "memory_apply ?w (cmem_bytes m) = Some bytes"
      and x: "x = mem_bus (?m\<lparr>cmem_bytes := bytes, write_data := shift_write (write_data m)\<rparr>) (set_data_write_ack Bus_none r1)"
      using assms by (auto simp: cbus_run_post_def cmemory_run_post_def rd Let_def mem_bus_on_slave r1_def mem_bus_def[symmetric]
          split: Option.bind_splits)
    then show ?thesis
      by (intro exI[of _ "?m\<lparr>cmem_bytes := bytes, write_data := shift_write (write_data m)\<rparr>"] exI[of _ "set_data_write_ack Bus_none r1"])
        (simp add: rd r1_def)
  next
    case False
    then have "x = mem_bus (?m\<lparr>write_data := shift_write (write_data m)\<rparr>) r1"
      using assms by (auto simp: cbus_run_post_def cmemory_run_post_def rd Let_def mem_bus_on_slave r1_def mem_bus_def[symmetric])
    then show ?thesis
      by (intro exI[of _ "?m\<lparr>write_data := shift_write (write_data m)\<rparr>"] exI[of _ r1]) (simp add: rd r1_def)
  qed
qed

text \<open>
  The requests on their way, oldest last: as many as are revoked and nothing else, or one more, which
  is younger than the revoked ones and is in entry \<open>k\<close>.
\<close>

definition pending_reads :: "(u32 \<times> bool) list \<Rightarrow> nat" where
  "pending_reads rd = length (filter snd rd)"

definition reads_idle :: "cmemory \<Rightarrow> bus_if \<Rightarrow> bool" where
  "reads_idle m r \<longleftrightarrow> pending_reads (read_data m) = unat (revoke_data_cnt r) \<and> \<not> snd (read_data m ! 0) \<and>
     \<not> dff_is_changed (data_value_valid r)"

definition reads_at :: "nat \<Rightarrow> u32 \<Rightarrow> cmemory \<Rightarrow> bus_if \<Rightarrow> bool" where
  "reads_at k v m r \<longleftrightarrow> k \<le> data_read_latency m \<and> read_data m ! k = (v, True) \<and> pending_reads (take k (read_data m)) = 0 \<and>
     pending_reads (drop (Suc k) (read_data m)) = unat (revoke_data_cnt r) \<and> \<not> dff_is_changed (data_value_valid r)"

lemma reads_post:
  assumes "cmem_ok m" and "reads_idle m r"
  shows "reads_at 0 v (cmemory_post_read v m) r"
proof -
  obtain x xs where rd: "read_data m = x # xs" using assms(1) by (cases "read_data m") (auto simp: cmem_ok_def)
  then show ?thesis using assms(2) by (auto simp: reads_at_def reads_idle_def cmemory_post_read_def pending_reads_def split: if_splits)
qed

lemma pending_shift:
  assumes "length rd = Suc n"
  shows "pending_reads (shift_read rd) + (if snd (rd ! n) then 1 else 0) = pending_reads rd"
proof -
  obtain xs x where "rd = xs @ [x]" "length xs = n" using assms by (metis length_Suc_conv_rev)
  then show ?thesis by (simp add: pending_reads_def shift_read_def nth_append)
qed

lemma clocked_valid:
  assumes "\<not> dff_is_changed d"
  shows "dff_get (dff_sync (clear_unchanged d)) = False" and "\<not> dff_is_changed (dff_sync (clear_unchanged d))"
    and "dff_get (dff_sync (clear_unchanged (dff_set True d)))" and "\<not> dff_is_changed (dff_sync (clear_unchanged (dff_set True d)))"
  using assms by (simp_all add: clear_unchanged_def dff_is_changed_def dff_set_def dff_sync_def dff_get_def)


lemma pending_append [simp]: "pending_reads (xs @ ys) = pending_reads xs + pending_reads ys"
  by (simp add: pending_reads_def)

lemma shift_split:
  assumes "length rd = Suc n" and "k < n"
  shows "shift_read rd ! Suc k = rd ! k" and "pending_reads (take (Suc k) (shift_read rd)) = pending_reads (take k rd)"
    and "pending_reads (drop (Suc (Suc k)) (shift_read rd)) + (if snd (rd ! n) then 1 else 0) = pending_reads (drop (Suc k) rd)"
proof -
  obtain xs x where r: "rd = xs @ [x]" "length xs = n" using assms(1) by (metis length_Suc_conv_rev)
  show "shift_read rd ! Suc k = rd ! k" using r assms(2) by (simp add: shift_read_def nth_append)
  show "pending_reads (take (Suc k) (shift_read rd)) = pending_reads (take k rd)"
    using r assms(2) by (simp add: shift_read_def pending_reads_def)
  show "pending_reads (drop (Suc (Suc k)) (shift_read rd)) + (if snd (rd ! n) then 1 else 0) = pending_reads (drop (Suc k) rd)"
    using r assms(2) by (simp add: shift_read_def nth_append pending_reads_def)
qed

text \<open>The end of a cycle moves the request one entry on, or delivers its answer.\<close>

lemma path_end_mem_bus:
  assumes "path_end s = Some s'" and "sp_bus s = mem_bus m r"
  shows "\<exists>m' r1 r'. sp_bus s' = mem_bus m' r' \<and> read_data m' = shift_read (read_data m) \<and>
    data_read_latency m' = data_read_latency m \<and>
    r1 = (if snd (read_data m ! data_read_latency m) then set_data_value (fst (read_data m ! data_read_latency m)) r else r) \<and>
    revoke_data_cnt r' = revoke_data_cnt r1 \<and> data_value r' = dff_sync (data_value r1) \<and>
    data_value_valid r' = dff_sync (clear_unchanged (data_value_valid r1))"
proof -
  obtain b1 r2 b2 where 1: "cbus_run_post 0 (mem_bus m r) = Some b1" "rsb_run (sp_rsb s) b1 = Some (r2, b2)"
    "s' = \<lparr>sp_bus = cbus_clock (cbus_sync (cbus_run b2)), sp_rsb = rsb_sync r2\<rparr>"
    using assms by (auto simp: path_end_def split: Option.bind_splits)
  obtain m1 r1 where 2: "b1 = mem_bus m1 r1" "read_data m1 = shift_read (read_data m)" "data_read_latency m1 = data_read_latency m"
    "same_reads m1 (if snd (read_data m ! data_read_latency m) then set_data_value (fst (read_data m ! data_read_latency m)) r else r) m1 r1"
    using run_post_reads[OF 1(1)] by blast
  obtain m2 r3 where 3: "b2 = mem_bus m2 r3" "same_reads m1 r1 m2 r3" using rsb_run_reads[OF 1(2)[unfolded 2(1)]] by blast
  show ?thesis
    using 1(3) 2(2-4) 3 mem_bus_clock[of m2 r3]
    by (intro exI[of _ m2] exI[of _ "if snd (read_data m ! data_read_latency m) then set_data_value (fst (read_data m ! data_read_latency m)) r else r"]
        exI[of _ "bus_if_sync (bus_if_run r3)"]) (simp add: same_reads_def bus_if_sync_def bus_if_run_def)
qed

lemma reads_advance:
  assumes "path_end s = Some s'" and "sp_bus s = mem_bus m r" and "cmem_ok m" and "reads_at k v m r"
  shows "\<exists>m' r'. sp_bus s' = mem_bus m' r' \<and> data_read_latency m' = data_read_latency m \<and>
    (if k < data_read_latency m then reads_at (Suc k) v m' r' \<and> get_data_value r' = None
     else get_data_value r' = Some v \<and> reads_idle m' r')"
proof -
  let ?n = "data_read_latency m"
  have len: "length (read_data m) = Suc ?n" using assms(3) by (simp add: cmem_ok_def)
  obtain m' r1 r' where 1: "sp_bus s' = mem_bus m' r'" "read_data m' = shift_read (read_data m)" "data_read_latency m' = ?n"
    "r1 = (if snd (read_data m ! ?n) then set_data_value (fst (read_data m ! ?n)) r else r)"
    "revoke_data_cnt r' = revoke_data_cnt r1" "data_value r' = dff_sync (data_value r1)"
    "data_value_valid r' = dff_sync (clear_unchanged (data_value_valid r1))"
    using path_end_mem_bus[OF assms(1,2)] by blast
  have a: "read_data m ! k = (v, True)" "pending_reads (take k (read_data m)) = 0" "k \<le> ?n"
    "pending_reads (drop (Suc k) (read_data m)) = unat (revoke_data_cnt r)" "\<not> dff_is_changed (data_value_valid r)"
    using assms(4) by (simp_all add: reads_at_def)
  show ?thesis
  proof (cases "k < ?n")
    case True
    note sh = shift_split[OF len True]
    have "snd (read_data m ! ?n) \<longrightarrow> revoke_data_cnt r > 0"
      using sh(3) a(4) by (auto simp: word_neq_0_conv[symmetric] unat_eq_0[symmetric] simp del: unat_eq_0 split: if_splits)
    moreover have "Suc (unat w - Suc 0) = unat w" if "w \<noteq> 0" for w :: u32
      using that by (simp add: Suc_pred unat_gt_0)
    ultimately have r1: "data_value_valid r1 = data_value_valid r"
      "unat (revoke_data_cnt r1) + (if snd (read_data m ! ?n) then 1 else 0) = unat (revoke_data_cnt r)"
      using 1(4) by (auto simp: set_data_value_def unat_minus_one word_neq_0_conv[symmetric])
    have "pending_reads (drop (Suc (Suc k)) (read_data m')) = unat (revoke_data_cnt r')"
      using sh(3) a(4) r1(2) 1(2,5) by simp
    then show ?thesis
      using True 1 r1(1) sh(1,2) a clocked_valid(1,2)[OF a(5)]
      by (intro exI[of _ m'] exI[of _ r']) (simp add: reads_at_def get_data_value_def)
  next
    case False
    then have k: "k = ?n" using a(3) by simp
    have z: "revoke_data_cnt r = 0" using a(4) len k by (simp add: unat_eq_0[symmetric] pending_reads_def)
    have "r1 = r\<lparr>data_value_valid := dff_set True (data_value_valid r), data_value := dff_make v\<rparr>"
      using 1(4) a(1) k z by (simp add: set_data_value_def)
    then have "get_data_value r' = Some v" "\<not> dff_is_changed (data_value_valid r')" "revoke_data_cnt r' = 0"
      using 1(5,6,7) clocked_valid(3,4)[OF a(5)] z by (simp_all add: get_data_value_def dff_sync_def dff_get_def dff_make_def)
    moreover have "pending_reads (read_data m') = 0" "\<not> snd (read_data m' ! 0)"
    proof -
      have "read_data m = take k (read_data m) @ [(v, True)]" using take_Suc_conv_app_nth[of k "read_data m"] a(1) len k by simp
      then have "pending_reads (read_data m) = 1" using a(2) by (metis pending_append pending_reads_def list.size(3,4) filter.simps snd_conv One_nat_def add_0)
      then show "pending_reads (read_data m') = 0" using pending_shift[OF len] a(1) k 1(2) by simp
      show "\<not> snd (read_data m' ! 0)" using 1(2) by (simp add: shift_read_def)
    qed
    ultimately show ?thesis using False 1(1,3) by (intro exI[of _ m'] exI[of _ r']) (simp add: reads_idle_def)
  qed
qed

text \<open>Requests of the rest of the core, which sends no reads of data, leave the answers alone.\<close>

fun is_read :: "path_request \<Rightarrow> bool" where
  "is_read (Req_fetch a) = False"
| "is_read (Req_store it) = False"
| "is_read _ = True"

lemma serve_reads:
  assumes "path_serve q s = Some (s', acc)" and "sp_bus s = mem_bus m r" and "\<not> is_read q"
  shows "\<exists>m' r'. sp_bus s' = mem_bus m' r' \<and> same_reads m r m' r'"
proof (cases q)
  case (Req_fetch a)
  then show ?thesis using assms
    by (auto simp: cbus_read_instruction_def mem_bus_find cslave_read_instruction_def cmemory_read_instruction_def same_reads_def
        set_instruction_value_def bus_if_error_def Let_def split: option.splits if_splits Option.bind_splits)
next
  case (Req_store it)
  then show ?thesis using assms by (auto split: prod.splits)
qed (use assms in auto)

lemma serve_all_reads:
  assumes "path_serve_all qs s = Some (s', acc)" and "sp_bus s = mem_bus m r" and "\<forall>q \<in> set qs. \<not> is_read q"
  shows "\<exists>m' r'. sp_bus s' = mem_bus m' r' \<and> same_reads m r m' r'"
  using assms
proof (induction qs arbitrary: s m r acc)
  case (Cons q qs)
  obtain s1 a1 a2 where 1: "path_serve q s = Some (s1, a1)" "path_serve_all qs s1 = Some (s', a2)"
    using Cons.prems(1) by (auto split: Option.bind_splits)
  obtain m1 r1 where 2: "sp_bus s1 = mem_bus m1 r1" "same_reads m r m1 r1"
    using serve_reads[OF 1(1) Cons.prems(2)] Cons.prems(3) by auto
  from Cons.IH[OF 1(2) 2(1)] Cons.prems(3) same_reads_trans[OF 2(2)] show ?case by auto
qed auto

lemma reads_at_same: "same_reads m r m' r' \<Longrightarrow> reads_at k v m' r' = reads_at k v m r"
  by (simp add: same_reads_def reads_at_def)


subsection \<open>Putting forwarded bytes together\<close>

lemma byte_lane_byte:
  assumes "j < 4" and "k < 4"
  shows "byte_of (byte_lane (8 * j)) k = (if k = j then - 1 else 0)"
proof -
  have "j = 0 \<or> j = 1 \<or> j = 2 \<or> j = 3" "k = 0 \<or> k = 1 \<or> k = 2 \<or> k = 3" using assms by auto
  then show ?thesis by (elim disjE) (simp_all add: byte_lane_def byte_of_def)
qed

lemma word_byte_eqI:
  assumes "\<And>k. k < 4 \<Longrightarrow> byte_of x k = byte_of y k"
  shows "x = y"
proof (rule bit_word_eqI)
  fix n assume "n < LENGTH(32)"
  then have "n div 8 < 4" by simp
  from assms[OF this] have "bit (byte_of x (n div 8)) (n mod 8) = bit (byte_of y (n div 8)) (n mod 8)" by simp
  then show "bit x n = bit y n" by (simp add: bit_byte_of)
qed

lemma byte_lane_zero:
  assumes "j < 4"
  shows "w AND byte_lane (8 * j) = 0 \<longleftrightarrow> byte_of w j = 0"
proof
  assume "w AND byte_lane (8 * j) = 0"
  then have "byte_of (w AND byte_lane (8 * j)) j = 0" by simp
  then show "byte_of w j = 0" by (simp add: byte_or_and byte_lane_byte assms)
next
  assume "byte_of w j = 0"
  then show "w AND byte_lane (8 * j) = 0"
    by (intro word_byte_eqI) (auto simp: byte_or_and byte_lane_byte assms)
qed

lemma combine_byte_bytes:
  assumes "j < 4" and "k < 4"
  shows "byte_of (fst (combine_byte r (8 * j) vm)) k =
      (if k = j \<and> byte_of (snd r) j \<noteq> 0 \<and> byte_of (snd vm) j = 0 then byte_of (fst vm) k OR byte_of (fst r) k else byte_of (fst vm) k)"
    and "byte_of (snd (combine_byte r (8 * j) vm)) k =
      (if k = j \<and> byte_of (snd r) j \<noteq> 0 \<and> byte_of (snd vm) j = 0 then - 1 else byte_of (snd vm) k)"
  by (auto simp: combine_byte_def byte_lane_zero assms byte_or_and byte_lane_byte)

text \<open>The answer of the store buffer goes before that of the retired stores.\<close>

lemma combine_bytes:
  assumes "distinct js" and "set js \<subseteq> {..<4}" and "k < 4"
  shows "byte_of (fst (fold (\<lambda>j. combine_byte r (8 * j)) js vm)) k =
      (if k \<in> set js \<and> byte_of (snd r) k \<noteq> 0 \<and> byte_of (snd vm) k = 0
       then byte_of (fst vm) k OR byte_of (fst r) k else byte_of (fst vm) k) \<and>
    byte_of (snd (fold (\<lambda>j. combine_byte r (8 * j)) js vm)) k =
      (if k \<in> set js \<and> byte_of (snd r) k \<noteq> 0 \<and> byte_of (snd vm) k = 0 then - 1 else byte_of (snd vm) k)"
  using assms(1,2)
proof (induction js arbitrary: vm)
  case (Cons j js)
  then have j: "j < 4" by simp
  show ?case using Cons.IH[of "combine_byte r (8 * j) vm"] Cons.prems
    by (auto simp: combine_byte_bytes[OF j assms(3)] combine_byte_bytes[OF j j])
qed simp

lemma combine_carries:
  assumes "carries r h" and "carries vm g"
  shows "carries (combine_feedback r vm) (\<lambda>k. case g k of Some b \<Rightarrow> Some b | None \<Rightarrow> h k)"
proof -
  have f: "combine_feedback r vm = fold (\<lambda>j. combine_byte r (8 * j)) [0, 1, 2, 3] vm" by (simp add: combine_feedback_def)
  have "case (case g k of Some b \<Rightarrow> Some b | None \<Rightarrow> h k) of
      Some b \<Rightarrow> byte_of (fst (combine_feedback r vm)) k = b \<and> byte_of (snd (combine_feedback r vm)) k = - 1
    | None \<Rightarrow> byte_of (fst (combine_feedback r vm)) k = 0 \<and> byte_of (snd (combine_feedback r vm)) k = 0" if k: "k < 4" for k
  proof -
    have "k \<in> set [0, 1, 2, 3 :: nat]" using k by auto
    then have c: "byte_of (fst (combine_feedback r vm)) k =
        (if byte_of (snd r) k \<noteq> 0 \<and> byte_of (snd vm) k = 0 then byte_of (fst vm) k OR byte_of (fst r) k else byte_of (fst vm) k)"
      "byte_of (snd (combine_feedback r vm)) k = (if byte_of (snd r) k \<noteq> 0 \<and> byte_of (snd vm) k = 0 then - 1 else byte_of (snd vm) k)"
      unfolding f using combine_bytes[of "[0, 1, 2, 3]" k r vm] k by (auto simp del: fold.simps)
    show ?thesis
      using carriesD[OF assms(1) k] carriesD[OF assms(2) k] by (cases "g k"; cases "h k") (simp_all add: c)
  qed
  then show ?thesis unfolding carries_def by blast
qed

lemma carried_byte:
  assumes "carries rm g" and "k < 4"
  shows "byte_of ((v AND NOT (snd rm)) OR fst rm) k = (case g k of Some b \<Rightarrow> b | None \<Rightarrow> byte_of v k)"
  using carriesD[OF assms] assms(2) by (cases "g k") (simp_all add: byte_or_and byte_not)

lemma read_high_bytes:
  assumes "access_size sz" and "unat sz \<le> k" and "k < 4"
  shows "byte_of (ram_read sz off m) k = 0"
  using assms(1)
proof (cases rule: access_sizeE)
  case 1
  then show ?thesis using assms(2) by (intro byte_eqI) (auto simp: ram_read_def bit_byte_of bit_simps dest: bit_imp_le_length)
next
  case 2
  then show ?thesis using assms(2) by (intro byte_eqI) (auto simp: ram_read_def bit_byte_of bit_simps dest: bit_imp_le_length)
next
  case 3
  then show ?thesis using assms(2,3) by simp
qed


subsection \<open>The load unit and the store path together\<close>

text \<open>
  What the rest of the core gives the load unit and the cacheable bus in one cycle: the flush signals,
  the requests before the load unit runs and after it, and the components the unit shares
  with others, of which the bus and the retired store buffer are those of the store path.
\<close>

record lu_input =
  li_bru :: bru_feedback_pack_t
  li_sau :: sau_feedback_pack_t
  li_commit :: commit_feedback_pack_t
  li_before :: "path_request list"
  li_after :: "path_request list"
  li_others :: lu_shared

definition lu_view :: "lu_input \<Rightarrow> store_path \<Rightarrow> lu_shared" where
  "lu_view x s = (li_others x)\<lparr>ls_cacheable := sp_bus s, ls_retired := sp_rsb s\<rparr>"

definition lu_cycle :: "lu_input \<Rightarrow> lu \<Rightarrow> store_path \<Rightarrow> (lu \<times> store_path) option" where
  "lu_cycle x u s =
     do {
       (s1, acc1) \<leftarrow> path_serve_all (li_before x) s;
       (ch, fb, u1, sh) \<leftarrow> lu_run (li_bru x) (li_sau x) (li_commit x) False u (lu_view x s1);
       (s2, acc2) \<leftarrow> path_serve_all (li_after x) \<lparr>sp_bus = ls_cacheable sh, sp_rsb = ls_retired sh\<rparr>;
       s3 \<leftarrow> path_end s2;
       Some (lu_sync u1, s3)
     }"

fun lu_cycles :: "lu_input list \<Rightarrow> lu \<Rightarrow> store_path \<Rightarrow> (lu \<times> store_path) option" where
  "lu_cycles [] u s = Some (u, s)"
| "lu_cycles (x # xs) u s = do { (u1, s1) \<leftarrow> lu_cycle x u s; lu_cycles xs u1 s1 }"

text \<open>No flush of the cycle covers the load, and the rest of the core sends no reads of data.\<close>

definition lu_spares :: "lu_input \<Rightarrow> lsu_readreg_execute_pack_t \<Rightarrow> bool" where
  "lu_spares x p \<longleftrightarrow>
     (let a = age (lp_rob_id p) (lp_rob_id_stage p) in
      \<not> cf_flush (li_commit x) \<and>
      (\<not> bru_flush (li_bru x) \<or> age_greater_equal a (age (bru_rob_id (li_bru x)) (bru_rob_id_stage (li_bru x)))) \<and>
      (\<not> sau_flush (li_sau x) \<or> age_greater a (age (sau_rob_id (li_sau x)) (sau_rob_id_stage (li_sau x)))))"

definition input_ok :: "lu_input \<Rightarrow> bool" where
  "input_ok x \<longleftrightarrow> (\<forall>q \<in> set (li_before x) \<union> set (li_after x). request_ok q \<and> \<not> is_read q)"

lemma spared_alive:
  assumes "lu_spares x p"
  shows "\<not> bru_kills (li_bru x) (lp_rob_id p) (lp_rob_id_stage p)" and "\<not> sau_kills (li_sau x) (lp_rob_id p) (lp_rob_id_stage p)"
  using assms by (auto simp: lu_spares_def Let_def bru_kills_def sau_kills_def age_defs split: if_splits)

text \<open>The load in the second stage, its request in entry \<open>k\<close> with the bytes \<open>v\<close>.\<close>

definition l2_holds :: "lsu_readreg_execute_pack_t \<Rightarrow> u32 \<times> u32 \<Rightarrow> lu \<Rightarrow> bool" where
  "l2_holds p vm u \<longleftrightarrow> l2_rev_pack u = p \<and> lp_enable p \<and> lp_valid p \<and> \<not> lp_has_exception p \<and> \<not> l2_conflict_found u \<and>
     l2_is_cacheable u \<and> (l2_feedback_value u, l2_feedback_mask u) = vm"

definition load_waits :: "nat \<Rightarrow> u32 \<Rightarrow> store_path \<Rightarrow> bool" where
  "load_waits k v s \<longleftrightarrow> (\<exists>ph m r. path_ok ph s \<and> sp_bus s = mem_bus m r \<and> reads_at k v m r \<and> get_data_value r = None)"

definition load_answered :: "u32 \<Rightarrow> store_path \<Rightarrow> bool" where
  "load_answered v s \<longleftrightarrow> (\<exists>ph m r. path_ok ph s \<and> sp_bus s = mem_bus m r \<and> get_data_value r = Some v)"

definition read_latency :: "store_path \<Rightarrow> nat" where
  "read_latency s = (case csi_slave (cslave_info_list (sp_bus s) ! 0) of
     CMemory m \<Rightarrow> data_read_latency m | CClint c \<Rightarrow> 0)"

lemma read_latency_bus [simp]: "sp_bus s = mem_bus m r \<Longrightarrow> read_latency s = data_read_latency m"
  by (simp add: read_latency_def)

lemma lu_sync_holds [simp]: "l2_holds p vm (lu_sync u) = l2_holds p vm u"
  by (simp add: l2_holds_def lu_sync_def)

lemma lu_extend_total: "\<exists>v'. lu_extend f w = Some v'"
  by (cases f) (simp_all add: sign_extend_def Let_def)

lemma lu_run_waits:
  assumes "l2_holds p vm u" and "lu_spares x p" and "lp_sub_op p = Csub_lu f"
    and "get_data_value (cbus_if (ls_cacheable sh)) = None"
  shows "\<exists>ch fb u'. lu_run (li_bru x) (li_sau x) (li_commit x) False u sh = Some (ch, fb, u', sh) \<and> l2_holds p vm u' \<and> luf_stall fb"
proof -
  obtain v' where v': "lu_extend f (l2_feedback_value u) = Some v'" using lu_extend_total by blast
  have c: "\<not> cf_flush (li_commit x)" using assms(2) by (simp add: lu_spares_def Let_def)
  have al: "l2_alive (li_bru x) (li_sau x) (li_commit x) (u\<lparr>l2_last_stall := l2_stall u\<rparr>)"
    using assms(1,2) by (simp add: l2_alive_def l2_holds_def lu_spares_def Let_def)
  show ?thesis
    using assms(1,3,4) al c v'
    by (auto simp: lu_run_def lu_level2_def l2_result_def lu_level1_def l2_holds_def lu_bus_def Let_def)
qed


text \<open>A cycle of the path, with requests in three groups.\<close>

lemma serve_append:
  "path_serve_all (xs @ ys) s =
     do { (t1, a1) \<leftarrow> path_serve_all xs s; (t2, a2) \<leftarrow> path_serve_all ys t1; Some (t2, a1 @ a2) }"
  by (induction xs arbitrary: s) (auto simp: Option.bind_assoc split: prod.splits option.splits Option.bind_splits)

lemma path_cycle_split:
  assumes "path_ok ph s" and "\<forall>q \<in> set (b @ c @ a). request_ok q"
  shows "\<exists>s1 acc1 s2 acc2 s3 acc3 s4 ph'. path_serve_all b s = Some (s1, acc1) \<and> path_serve_all c s1 = Some (s2, acc2) \<and>
    path_serve_all a s2 = Some (s3, acc3) \<and> path_end s3 = Some s4 \<and> path_ok ph' s4"
proof -
  obtain s4 acc ph' where "path_cycle (b @ c @ a) s = Some (s4, acc)" "path_ok ph' s4" using path_cycle_ok[OF assms] by blast
  then show ?thesis unfolding path_cycle_def serve_append by (fastforce split: Option.bind_splits)
qed

lemma path_ok_bus: "path_ok ph s \<Longrightarrow> \<exists>m r. sp_bus s = mem_bus m r \<and> cmem_ok m"
  unfolding path_ok_def by blast

lemma serve_all_cmem:
  assumes "path_ok ph s" and "\<forall>q \<in> set qs. request_ok q" and "path_serve_all qs s = Some (s', acc)" and "sp_bus s' = mem_bus m' r'"
  shows "cmem_ok m'"
proof -
  obtain m r where "sp_bus s = mem_bus m r" "cmem_ok m" "fifo_inv (rsb_fifo (sp_rsb s))" using assms(1) unfolding path_ok_def by blast
  from path_serve_all_ok[OF this assms(2)] show ?thesis using assms(3,4) \<open>cmem_ok m\<close> by (auto simp: same_writes_def)
qed

lemma lu_cycle_waits:
  assumes "l2_holds p vm u" and "lu_spares x p" and "lp_sub_op p = Csub_lu f" and "input_ok x" and "load_waits k v s"
  shows "\<exists>u' s'. lu_cycle x u s = Some (u', s') \<and> l2_holds p vm u' \<and> read_latency s' = read_latency s \<and>
    (if k < read_latency s then load_waits (Suc k) v s' else load_answered v s')"
proof -
  obtain ph m r where s: "path_ok ph s" "sp_bus s = mem_bus m r" "reads_at k v m r" "get_data_value r = None"
    using assms(5) unfolding load_waits_def by blast
  have q: "\<forall>q \<in> set (li_before x @ [] @ li_after x). request_ok q" "\<forall>q \<in> set (li_before x). \<not> is_read q" "\<forall>q \<in> set (li_after x). \<not> is_read q"
    using assms(4) by (auto simp: input_ok_def)
  obtain s1 a1 s3 a3 s4 ph' where 1: "path_serve_all (li_before x) s = Some (s1, a1)" "path_serve_all (li_after x) s1 = Some (s3, a3)"
    "path_end s3 = Some s4" "path_ok ph' s4"
    using path_cycle_split[OF s(1) q(1)] by auto
  obtain m1 r1 where m1: "sp_bus s1 = mem_bus m1 r1" "same_reads m r m1 r1" using serve_all_reads[OF 1(1) s(2) q(2)] by blast
  obtain m3 r3 where m3: "sp_bus s3 = mem_bus m3 r3" "same_reads m1 r1 m3 r3" using serve_all_reads[OF 1(2) m1(1) q(3)] by blast
  note sr = same_reads_trans[OF m1(2) m3(2)]
  have "path_serve_all (li_before x @ li_after x) s = Some (s3, a1 @ a3)" using 1(1,2) by (simp add: serve_append)
  from serve_all_cmem[OF s(1) _ this m3(1)] have ok: "cmem_ok m3" using q(1) by simp
  have "get_data_value (cbus_if (ls_cacheable (lu_view x s1))) = None"
    using m1 s(4) by (simp add: lu_view_def same_reads_def get_data_value_def split: if_splits)
  from lu_run_waits[OF assms(1-3) this] obtain ch fb u' where
    l: "lu_run (li_bru x) (li_sau x) (li_commit x) False u (lu_view x s1) = Some (ch, fb, u', lu_view x s1)" "l2_holds p vm u'" by blast
  have "\<lparr>sp_bus = ls_cacheable (lu_view x s1), sp_rsb = ls_retired (lu_view x s1)\<rparr> = s1" by (simp add: lu_view_def)
  then have run: "lu_cycle x u s = Some (lu_sync u', s4)" using 1(1-3) l(1) by (simp add: lu_cycle_def)
  obtain m4 r4 where m4: "sp_bus s4 = mem_bus m4 r4" "data_read_latency m4 = data_read_latency m3"
    "if k < data_read_latency m3 then reads_at (Suc k) v m4 r4 \<and> get_data_value r4 = None
     else get_data_value r4 = Some v \<and> reads_idle m4 r4"
    using reads_advance[OF 1(3) m3(1) ok] s(3) reads_at_same[OF sr] by blast
  have "data_read_latency m3 = data_read_latency m" using sr by (simp add: same_reads_def)
  then show ?thesis
    using run l(2) m4 1(4) s(2)
    by (intro exI[of _ "lu_sync u'"] exI[of _ s4]) (auto simp: load_waits_def load_answered_def split: if_splits)
qed

lemma lu_cycles_wait:
  assumes "l2_holds p vm u" and "\<forall>x \<in> set xs. lu_spares x p \<and> input_ok x" and "lp_sub_op p = Csub_lu f"
    and "if k \<le> read_latency s then load_waits k v s else load_answered v s" and "k + length xs = Suc (read_latency s)"
  shows "\<exists>u' s'. lu_cycles xs u s = Some (u', s') \<and> l2_holds p vm u' \<and> load_answered v s'"
  using assms
proof (induction xs arbitrary: u s k)
  case (Cons x xs)
  then have k: "k \<le> read_latency s" "load_waits k v s" by auto
  obtain u1 s1 where 1: "lu_cycle x u s = Some (u1, s1)" "l2_holds p vm u1" "read_latency s1 = read_latency s"
    "if k < read_latency s then load_waits (Suc k) v s1 else load_answered v s1"
    using lu_cycle_waits[OF Cons.prems(1) _ Cons.prems(3) _ k(2), of x] Cons.prems(2) by auto
  have "if Suc k \<le> read_latency s1 then load_waits (Suc k) v s1 else load_answered v s1" using 1(3,4) by (simp add: Suc_le_eq)
  from Cons.IH[OF 1(2) _ Cons.prems(3) this] Cons.prems(2,5) 1(1,3) show ?case by simp
qed simp


text \<open>The first stage takes the load.\<close>

fun lu_request :: "lu_op_t \<Rightarrow> u32 \<Rightarrow> path_request" where
  "lu_request Lu_lb a = Req_read8 a"
| "lu_request Lu_lbu a = Req_read8 a"
| "lu_request Lu_lh a = Req_read16 a"
| "lu_request Lu_lhu a = Req_read16 a"
| "lu_request Lu_lw a = Req_read32 a"

lemma lu_request_serve: "path_serve (lu_request f a) s = Some (s\<lparr>sp_bus := lu_read f a (sp_bus s)\<rparr>, [])"
  by (cases f) simp_all

lemma lu_request_ok [simp]: "request_ok (lu_request f a)"
  by (cases f) simp_all

lemma lu_size_access [simp]: "access_size (lu_size f)"
  by (cases f) (simp_all add: access_size_def)

lemma align_mod:
  assumes "access_size n"
  shows "ccheck_align a n \<longleftrightarrow> unat a mod unat n = 0"
proof -
  have "a AND (2 ^ k - 1) = 0 \<longleftrightarrow> unat a mod 2 ^ k = 0" if "k < 32" for k :: nat
  proof -
    have "a AND (2 ^ k - 1) = take_bit k a" by (simp add: take_bit_eq_mask mask_eq_exp_minus_1)
    moreover have "take_bit k a = 0 \<longleftrightarrow> take_bit k (unat a) = 0" by (metis unsigned_take_bit_eq unsigned_eq_0_iff)
    ultimately show ?thesis by (simp add: take_bit_eq_mod)
  qed
  from this[of 0] this[of 1] this[of 2] assms show ?thesis
    by (auto simp: ccheck_align_def elim!: access_sizeE)
qed

lemma lu_read_ram:
  assumes "in_ram a" and "ccheck_align a (lu_size f)" and "cmem_ok m"
  shows "lu_read f a (mem_bus m r) = mem_bus (cmemory_post_read (ram_read (lu_size f) (a - MEMORY_BASE) (cmem_bytes m)) m) r"
proof -
  have "ram_store \<lparr>rs_inst_common_info = i, rs_addr = a, rs_size = lu_size f, rs_data = 0\<rparr>" for i
    using assms(1,2) by (simp add: ram_store_def align_mod)
  from ram_store_check[OF this assms(3)] have "cslave_check (CMemory m) (a - MEMORY_BASE) (lu_size f)" by simp
  then show ?thesis using assms(1)
    by (cases f) (simp_all add: cbus_read8_def cbus_read16_def cbus_read32_def mem_bus_find mem_bus_on_slave cslave_read8_def
        cslave_read16_def cslave_read32_def cmemory_read8_def cmemory_read16_def cmemory_read32_def ram_read_def mem_bus_def[symmetric])
qed


definition load_addr :: "lsu_readreg_execute_pack_t \<Rightarrow> u32" where
  "load_addr p = lp_src1_value p + lp_imm p"

definition load_enters :: "lu_input \<Rightarrow> lu \<Rightarrow> lsu_readreg_execute_pack_t \<Rightarrow> lu_op_t \<Rightarrow> bool" where
  "load_enters x u p f \<longleftrightarrow> hs_get_data (lu_hdff u) = Some p \<and> \<not> lp_enable (l2_rev_pack u) \<and> lp_enable p \<and> lp_valid p \<and>
     \<not> lp_has_exception p \<and> lp_op_unit p = Cunit_lu \<and> lp_sub_op p = Csub_lu f \<and> lu_spares x p \<and>
     is_cacheable (load_addr p) (ls_pma (li_others x)) \<and> ccheck_align (load_addr p) (lu_size f) \<and> in_ram (load_addr p) \<and>
     lp_load_queue_id p < length (buffer (lq_fifo (ls_load_queue (li_others x)))) \<and>
     lp_load_queue_id p < length (lq_item_conflict (ls_load_queue (li_others x)))"

definition load_taken :: "lsu_readreg_execute_pack_t \<Rightarrow> lsu_readreg_execute_pack_t" where
  "load_taken p = p\<lparr>lp_exception_value := load_addr p, lp_has_exception := False, lp_exception_id := load_access_fault\<rparr>"

lemma lu_run_takes:
  assumes "load_enters x u p f"
    and "rs_get_feedback_value (rsb_fifo (sp_rsb s)) (load_addr p) (lu_size f) = Some rt"
    and "sb_get_feedback_value (ls_store_buffer (li_others x)) (load_addr p) (lu_size f) (lp_rob_id p) (lp_rob_id_stage p) = Some (Some vm)"
  shows "\<exists>ch fb u' sh. lu_run (li_bru x) (li_sau x) (li_commit x) False u (lu_view x s) = Some (ch, fb, u', sh) \<and>
    ls_cacheable sh = lu_read f (load_addr p) (sp_bus s) \<and> ls_retired sh = sp_rsb s \<and>
    l2_holds (load_taken p) (combine_feedback rt vm) u'"
proof -
  let ?u1 = "u\<lparr>l2_last_stall := l2_stall u\<rparr>"
  let ?u2 = "?u1\<lparr>l2_last_last_stall := l2_stall u, l2_stall := False, lu_port := port_set execute_wb_pack_make (lu_port u)\<rparr>"
  have e: "hs_get_data (lu_hdff u) = Some p" "\<not> lp_enable (l2_rev_pack u)" "lp_enable p" "lp_valid p" "\<not> lp_has_exception p"
    "lp_op_unit p = Cunit_lu" "lp_sub_op p = Csub_lu f" "is_cacheable (load_addr p) (ls_pma (li_others x))"
    "ccheck_align (load_addr p) (lu_size f)" "lp_load_queue_id p < length (buffer (lq_fifo (ls_load_queue (li_others x))))"
    "lp_load_queue_id p < length (lq_item_conflict (ls_load_queue (li_others x)))" "\<not> cf_flush (li_commit x)"
    and sp: "lu_spares x p" using assms(1) by (auto simp: load_enters_def lu_spares_def Let_def)
  obtain h where h: "hs_pop (lu_hdff u) = (Some p, h)" using e(1) by (auto simp: hs_get_data_def hs_pop_def split: if_splits)
  have l2: "\<exists>fb. lu_level2 (li_bru x) (li_sau x) (li_commit x) False u (lu_view x s) = Some (execute_wb_pack_make, fb, ?u2, lu_view x s)"
    using e(2) by (simp add: lu_level2_def l2_alive_def Let_def)
  obtain fv fm where cf: "combine_feedback rt vm = (fv, fm)" by fastforce
  obtain u' sh where st: "lu_start p f (?u2\<lparr>lu_hdff := h, l2_addr := 0, l2_rev_pack := p\<rparr>) (lu_view x s) = Some (u', sh)"
    "ls_cacheable sh = lu_read f (load_addr p) (sp_bus s)" "ls_retired sh = sp_rsb s" "l2_holds (load_taken p) (combine_feedback rt vm) u'"
    using assms(2,3) e(3-11)
    by (auto simp: lu_start_def Let_def lu_view_def lu_on_bus_def load_addr_def[symmetric] fifo_set_item_def lq_write_conflict_def
        l2_holds_def load_taken_def cf)
  have l1: "lu_level1 (li_bru x) (li_sau x) (li_commit x) ?u2 (lu_view x s) = Some (u', sh)"
    using e(3-7,12) h st(1) spared_alive[OF sp] by (simp add: lu_level1_def Let_def)
  from l2 show ?thesis using l1 st(2-4) by (auto simp: lu_run_def)
qed

lemma ram_no_wrap: "in_ram a \<Longrightarrow> access_size n \<Longrightarrow> no_wrap a n"
  by (auto simp: in_ram_def config_defs word_less_nat_alt no_wrap_def elim!: access_sizeE)


text \<open>The bytes of the memory under those of the retired stores under those of the stores in flight.\<close>

lemma merged_view:
  assumes "carries rt (load_bytes a (lu_size f) (map item_access (held s)))" and "carries vm g" and "no_wrap a (lu_size f)" and k: "k < 4"
  shows "byte_of ((ram_read (lu_size f) (a - MEMORY_BASE) (path_memory s) AND NOT (snd (combine_feedback rt vm)))
       OR fst (combine_feedback rt vm)) k =
     (case g k of Some b \<Rightarrow> b | None \<Rightarrow> if k < unat (lu_size f) then path_view s (a + of_nat k) else 0)"
proof (cases "k < unat (lu_size f)")
  case True
  then show ?thesis
    using path_view_byte[OF lu_size_access assms(3) True, of s] unfolding carried_byte[OF combine_carries[OF assms(1,2)] k]
    by (simp add: load_bytes_def split: option.split)
next
  case False
  then show ?thesis
    using read_high_bytes[OF lu_size_access _ k, of f] unfolding carried_byte[OF combine_carries[OF assms(1,2)] k]
    by (simp add: load_bytes_def split: option.split)
qed

text \<open>The cycle in which the load enters.\<close>

lemma lu_cycle_enters:
  assumes "path_ok ph s" and "sp_bus s = mem_bus m r" and "reads_idle m r" and "load_enters x u p f" and "input_ok x"
    and "sb_get_feedback_value (ls_store_buffer (li_others x)) (load_addr p) (lu_size f) (lp_rob_id p) (lp_rob_id_stage p) = Some (Some vm)"
    and "carries vm g" and "path_serve_all (li_before x) s = Some (s1, acc)"
  shows "\<exists>u' s' rm v. lu_cycle x u s = Some (u', s') \<and> l2_holds (load_taken p) rm u' \<and> read_latency s' = read_latency s \<and>
    (if 0 < read_latency s then load_waits (Suc 0) v s' else load_answered v s') \<and>
    (\<forall>k < 4. byte_of ((v AND NOT (snd rm)) OR fst rm) k =
       (case g k of Some b \<Rightarrow> b
        | None \<Rightarrow> if k < unat (lu_size f) then put_all acc (path_view s) (load_addr p + of_nat k) else 0))"
proof -
  let ?a = "load_addr p" and ?z = "lu_size f"
  have e: "in_ram ?a" "ccheck_align ?a ?z" using assms(4) by (simp_all add: load_enters_def)
  have nw: "no_wrap ?a ?z" by (rule ram_no_wrap[OF e(1)]) simp
  have q: "\<forall>q \<in> set (li_before x @ [lu_request f ?a] @ li_after x). request_ok q" "\<forall>q \<in> set (li_before x). request_ok q"
    "\<forall>q \<in> set (li_before x). \<not> is_read q" "\<forall>q \<in> set (li_after x). \<not> is_read q"
    using assms(5) by (auto simp: input_ok_def)
  have i: "cmem_ok m" "fifo_inv (rsb_fifo (sp_rsb s))" "fifo_start (rsb_fifo (sp_rsb s)) = fifo_avail (rsb_fifo (sp_rsb s))"
    "\<forall>it \<in> set (held s). ram_store it"
    using assms(1,2) unfolding path_ok_def by auto
  obtain m1 r1 where 1: "sp_bus s1 = mem_bus m1 r1" "same_writes m r m1 r1" "fifo_inv (rsb_fifo (sp_rsb s1))"
    "fifo_start (rsb_fifo (sp_rsb s1)) = fifo_avail (rsb_fifo (sp_rsb s1))" "held s1 = held s @ acc" "\<forall>it \<in> set acc. ram_store it"
    using path_serve_all_ok[OF assms(2) i(1,2) q(2)] assms(8) i(3) by (auto simp: held_def)
  have sr: "same_reads m r m1 r1" using serve_all_reads[OF assms(8,2) q(3)] 1(1) by auto
  have ok1: "cmem_ok m1" using 1(2) i(1) by (simp add: same_writes_def)
  have view: "path_view s1 = put_all acc (path_view s)" using 1(1,2,5) assms(2) by (simp add: path_view_def same_writes_def)
  have good: "\<forall>it \<in> set (held s1). ram_store it" using 1(5,6) i(4) by auto
  obtain rt where rt: "rs_get_feedback_value (rsb_fifo (sp_rsb s1)) ?a ?z = Some rt"
    "carries rt (load_bytes ?a ?z (map item_access (held s1)))"
    using path_carries[OF 1(3,4) good lu_size_access nw] by blast
  define v where "v = ram_read ?z (?a - MEMORY_BASE) (cmem_bytes m1)"
  let ?m2 = "cmemory_post_read v m1"
  let ?s2 = "s1\<lparr>sp_bus := mem_bus ?m2 r1\<rparr>"
  have rd: "lu_read f ?a (sp_bus s1) = mem_bus ?m2 r1" unfolding 1(1) v_def by (rule lu_read_ram[OF e ok1])
  have idle: "reads_at 0 v ?m2 r1" using reads_post[OF ok1] assms(3) sr by (simp add: reads_idle_def same_reads_def)
  obtain s3 a3 s4 ph' where 3: "path_serve_all (li_after x) ?s2 = Some (s3, a3)" "path_end s3 = Some s4" "path_ok ph' s4"
    using path_cycle_split[OF assms(1) q(1)] assms(8) by (auto simp: lu_request_serve rd)
  obtain m3 r3 where m3: "sp_bus s3 = mem_bus m3 r3" "same_reads ?m2 r1 m3 r3" using serve_all_reads[OF 3(1) _ q(4)] by auto
  have "path_serve_all (li_before x @ [lu_request f ?a] @ li_after x) s = Some (s3, acc @ a3)"
    using assms(8) 3(1) by (simp add: serve_append lu_request_serve rd)
  from serve_all_cmem[OF assms(1) q(1) this m3(1)] have ok3: "cmem_ok m3" .
  obtain ch fb u' sh where l: "lu_run (li_bru x) (li_sau x) (li_commit x) False u (lu_view x s1) = Some (ch, fb, u', sh)"
    "ls_cacheable sh = lu_read f ?a (sp_bus s1)" "ls_retired sh = sp_rsb s1" "l2_holds (load_taken p) (combine_feedback rt vm) u'"
    using lu_run_takes[OF assms(4) rt(1) assms(6)] by blast
  have "\<lparr>sp_bus = ls_cacheable sh, sp_rsb = ls_retired sh\<rparr> = ?s2" using l(2,3) rd by simp
  then have run: "lu_cycle x u s = Some (lu_sync u', s4)" using assms(8) l(1) 3(1,2) by (simp add: lu_cycle_def)
  obtain m4 r4 where m4: "sp_bus s4 = mem_bus m4 r4" "data_read_latency m4 = data_read_latency m3"
    "if 0 < data_read_latency m3 then reads_at (Suc 0) v m4 r4 \<and> get_data_value r4 = None
     else get_data_value r4 = Some v \<and> reads_idle m4 r4"
    using reads_advance[OF 3(2) m3(1) ok3] idle reads_at_same[OF m3(2)] by blast
  have lat: "data_read_latency m3 = data_read_latency m" using m3(2) sr by (simp add: same_reads_def cmemory_post_read_def)
  have pm: "path_memory s1 = cmem_bytes m1" using 1(1) by simp
  have "\<forall>k < 4. byte_of ((v AND NOT (snd (combine_feedback rt vm))) OR fst (combine_feedback rt vm)) k =
       (case g k of Some b \<Rightarrow> b | None \<Rightarrow> if k < unat ?z then put_all acc (path_view s) (?a + of_nat k) else 0)"
    using merged_view[OF rt(2) assms(7) nw] unfolding v_def pm view by blast
  then show ?thesis
    using run l(4) m4 3(3) assms(2) lat
    by (intro exI[of _ "lu_sync u'"] exI[of _ s4] exI[of _ "combine_feedback rt vm"] exI[of _ v])
      (auto simp: load_waits_def load_answered_def split: if_splits)
qed


lemma sb_answers:
  assumes "fifo_inv (sb_fifo b)" and "access_size sz" and "no_wrap addr sz"
    and "\<forall>i \<in> set (producer_slots (sb_fifo b)). dff_get_new (sb_item_addr_valid b ! i) \<longrightarrow> good_access (sb_access b i)"
    and "\<forall>i \<in> set (producer_slots (sb_fifo b)). \<not> sb_pending b addr sz (age rob_id rob_id_stage) i"
  shows "\<exists>vm. sb_get_feedback_value b addr sz rob_id rob_id_stage = Some (Some vm) \<and>
    carries vm (load_bytes addr sz (map (sb_access b) (filter (sb_visible b (age rob_id rob_id_stage)) (producer_slots (sb_fifo b)))))"
  unfolding sb_get_feedback_value_def producer_walk_front[OF assms(1)]
  using sb_body_fold[OF assms(2,3,4) carries_start, of "age rob_id rob_id_stage"] assms(5) by (auto split: sum.splits)

text \<open>The cycle in which the answer is there.\<close>

lemma lu_level2_delivers:
  assumes "l2_holds p rm u" and "load_answered v s" and "lu_spares y p" and "lp_sub_op p = Csub_lu f"
    and "\<forall>q \<in> set (li_before y). request_ok q \<and> \<not> is_read q"
  shows "\<exists>s' acc send fb u' sh. path_serve_all (li_before y) s = Some (s', acc) \<and>
    lu_level2 (li_bru y) (li_sau y) (li_commit y) False u (lu_view y s') = Some (send, fb, u', sh) \<and> \<not> luf_stall fb \<and>
    lu_extend f ((v AND NOT (snd rm)) OR fst rm) = Some (wb_rd_value send) \<and> port_get (lu_port (lu_sync u')) = send \<and>
    wb_enable send \<and> wb_valid send \<and> \<not> wb_has_exception send \<and> wb_rob_id send = lp_rob_id p \<and> wb_rd_phy send = lp_rd_phy p"
proof -
  obtain ph m r where s: "path_ok ph s" "sp_bus s = mem_bus m r" "get_data_value r = Some v" using assms(2) unfolding load_answered_def by blast
  obtain s' acc where 1: "path_serve_all (li_before y) s = Some (s', acc)" using path_cycle_split[OF s(1), of "li_before y" "[]" "[]"] assms(5) by auto
  obtain m' r' where "sp_bus s' = mem_bus m' r'" "same_reads m r m' r'" using serve_all_reads[OF 1 s(2)] assms(5) by auto
  then have g: "get_data_value (cbus_if (ls_cacheable (lu_view y s'))) = Some v"
    using s(3) by (simp add: lu_view_def same_reads_def get_data_value_def split: if_splits)
  obtain v' where v': "lu_extend f ((v AND NOT (snd rm)) OR fst rm) = Some v'" using lu_extend_total by blast
  have al: "l2_alive (li_bru y) (li_sau y) (li_commit y) (u\<lparr>l2_last_stall := l2_stall u\<rparr>)"
    using assms(1,3) by (simp add: l2_alive_def l2_holds_def lu_spares_def Let_def)
  have rm: "snd rm = l2_feedback_mask u" "fst rm = l2_feedback_value u" using assms(1) by (auto simp: l2_holds_def)
  show ?thesis
    using 1 assms(1,4) al g v' unfolding rm
    by (auto simp: lu_level2_def l2_result_def l2_holds_def lu_bus_def Let_def lu_pass_def lsu_pass_def lu_sync_def port_get_def
        port_sync_def port_set_def dff_get_def dff_sync_def dff_set_def)
qed


subsection \<open>Properties\<close>

text \<open>
  C32. A load returns the value memory order demands. Let a load of an aligned address of the memory enter the empty load unit while no
  older store that overlaps it waits for its data, whatever stores to aligned addresses of the memory the rest of the core retires and
  whatever groups it fetches that do not start in the last three words of the memory, and while no flush covers the load. Then no
  assertion fails; after the read latency of the memory and one more cycle, the unit sends the load
  to write back with the extension of a word whose bytes are, for each byte of the load, that of the youngest older store in flight, where
  there is none that of the last store retired before the request, wherever on its way to the memory that is, and zero above.
\<close>

theorem load_returns_view:
  assumes "path_ok ph s" and "sp_bus s = mem_bus m r" and "reads_idle m r" and "load_enters x u p f" and "input_ok x"
    and "path_serve_all (li_before x) s = Some (s1, acc)" and "b = ls_store_buffer (li_others x)" and "fifo_inv (sb_fifo b)"
    and "\<forall>i \<in> set (producer_slots (sb_fifo b)). dff_get_new (sb_item_addr_valid b ! i) \<longrightarrow> good_access (sb_access b i)"
    and "\<forall>i \<in> set (producer_slots (sb_fifo b)). \<not> sb_pending b (load_addr p) (lu_size f) (age (lp_rob_id p) (lp_rob_id_stage p)) i"
    and "\<forall>y \<in> set (ys @ [y]). lu_spares y p \<and> input_ok y" and "length ys = read_latency s"
    and "older = map (sb_access b) (filter (sb_visible b (age (lp_rob_id p) (lp_rob_id_stage p))) (producer_slots (sb_fifo b)))"
  shows "\<exists>u1 s2 s3 acc' send fb u2 sh w. lu_cycles (x # ys) u s = Some (u1, s2) \<and> path_serve_all (li_before y) s2 = Some (s3, acc') \<and>
    lu_level2 (li_bru y) (li_sau y) (li_commit y) False u1 (lu_view y s3) = Some (send, fb, u2, sh) \<and> \<not> luf_stall fb \<and>
    port_get (lu_port (lu_sync u2)) = send \<and> wb_enable send \<and> wb_valid send \<and> \<not> wb_has_exception send \<and>
    wb_rob_id send = lp_rob_id p \<and> wb_rd_phy send = lp_rd_phy p \<and> lu_extend f w = Some (wb_rd_value send) \<and>
    (\<forall>k < 4. byte_of w k =
       (if k < unat (lu_size f)
        then (case last_store older (unat (load_addr p) + k) of
                Some v \<Rightarrow> v | None \<Rightarrow> put_all acc (path_view s) (load_addr p + of_nat k))
        else 0))"
proof -
  let ?a = "load_addr p"
  have e: "in_ram ?a" "lp_sub_op p = Csub_lu f" using assms(4) by (simp_all add: load_enters_def)
  obtain vm where vm: "sb_get_feedback_value b ?a (lu_size f) (lp_rob_id p) (lp_rob_id_stage p) = Some (Some vm)"
    "carries vm (load_bytes ?a (lu_size f) older)"
    using sb_answers[OF assms(8) lu_size_access ram_no_wrap[OF e(1) lu_size_access] assms(9,10)] assms(13) by blast
  obtain u0 s0 rm v where 0: "lu_cycle x u s = Some (u0, s0)" "l2_holds (load_taken p) rm u0" "read_latency s0 = read_latency s"
    "if 0 < read_latency s then load_waits (Suc 0) v s0 else load_answered v s0"
    "\<forall>k < 4. byte_of ((v AND NOT (snd rm)) OR fst rm) k = (case load_bytes ?a (lu_size f) older k of Some b \<Rightarrow> b
        | None \<Rightarrow> if k < unat (lu_size f) then put_all acc (path_view s) (?a + of_nat k) else 0)"
    using lu_cycle_enters[OF assms(1-5) vm(1)[unfolded assms(7)] vm(2) assms(6)] by blast
  have t: "lp_sub_op (load_taken p) = Csub_lu f" "lu_spares z (load_taken p) = lu_spares z p" "lp_rob_id (load_taken p) = lp_rob_id p"
    "lp_rd_phy (load_taken p) = lp_rd_phy p" for z
    using e(2) by (simp_all add: load_taken_def lu_spares_def)
  have w: "if Suc 0 \<le> read_latency s0 then load_waits (Suc 0) v s0 else load_answered v s0"
    "Suc 0 + length ys = Suc (read_latency s0)" "\<forall>z \<in> set ys. lu_spares z (load_taken p) \<and> input_ok z"
    using 0(3,4) assms(11,12) by (auto simp: Suc_le_eq t)
  obtain u1 s2 where 1: "lu_cycles ys u0 s0 = Some (u1, s2)" "l2_holds (load_taken p) rm u1" "load_answered v s2"
    using lu_cycles_wait[OF 0(2) w(3) t(1) w(1,2)] by blast
  have y: "lu_spares y (load_taken p)" "\<forall>q \<in> set (li_before y). request_ok q \<and> \<not> is_read q"
    using assms(11) by (auto simp: t input_ok_def)
  have run: "lu_cycles (x # ys) u s = Some (u1, s2)" using 0(1) 1(1) by simp
  have bytes: "\<forall>k < 4. byte_of ((v AND NOT (snd rm)) OR fst rm) k =
      (if k < unat (lu_size f) then (case last_store older (unat ?a + k) of
         Some v \<Rightarrow> v | None \<Rightarrow> put_all acc (path_view s) (?a + of_nat k)) else 0)"
    using 0(5) by (simp add: load_bytes_def)
  from lu_level2_delivers[OF 1(2,3) y(1) t(1) y(2)] show ?thesis unfolding t using run bytes by blast
qed

definition demo_load :: lsu_readreg_execute_pack_t where
  "demo_load = lsu_readreg_execute_pack_make\<lparr>lp_enable := True, lp_valid := True, lp_op_unit := Cunit_lu, lp_sub_op := Csub_lu Lu_lhu,
     lp_rob_id := 5, lp_src1_value := 0x80000000, lp_imm := 0x12\<rparr>"

definition demo_shared :: lu_shared where
  "demo_shared = \<lparr>ls_cacheable = cbus_make, ls_noncacheable = cbus_make, ls_store_buffer = store_buffer_make 4, ls_retired = rsb_make 4,
     ls_load_queue = load_queue_make 4, ls_wait_table = wait_table_make 4,
     ls_pma = [\<lparr>pma_addr = 0x80000000, pma_size = 0x80000000, pma_is_cacheable = True\<rparr>]\<rparr>"

definition demo_input :: "path_request list \<Rightarrow> lu_input" where
  "demo_input qs = \<lparr>li_bru = quiet_bru, li_sau = quiet_sau, li_commit = quiet_commit, li_before = qs, li_after = [], li_others = demo_shared\<rparr>"

definition demo_lu :: lu where
  "demo_lu = \<lparr>lu_hdff = hs_sync (snd (hs_push demo_load (hs_make lsu_readreg_execute_pack_make))), lu_port = port_make execute_wb_pack_make,
     l2_stall = False, l2_last_stall = False, l2_last_last_stall = False, l2_rev_pack = lsu_readreg_execute_pack_make, l2_addr = 0,
     l2_feedback_value = 0, l2_feedback_mask = 0, l2_conflict_found = False, l2_length = 0, l2_is_cacheable = False\<rparr>"

lemma store_path_make_idle:
  assumes "length rd = 11" and "length wd = 11" and "store_path_make rd wd = Some s"
  shows "\<exists>m r. sp_bus s = mem_bus m r \<and> reads_idle m r" and "read_latency s = 10"
proof -
  let ?m = "fresh_memory rd wd"
  have s: "sp_bus s = mem_bus ?m (bus_if_sync bus_if_make)" using store_path_make_state[OF assms(1,2)] assms(3) by auto
  have "filter snd (map (\<lambda>(v, _). (v, False)) rd) = []" by (auto simp: filter_empty_conv)
  then have "reads_idle ?m (bus_if_sync bus_if_make)"
    using assms(1) by (cases rd) (simp_all add: reads_idle_def pending_reads_def fresh_memory_def bus_if_sync_def bus_if_make_def
        dff_is_changed_def dff_sync_def dff_make_def split: prod.splits)
  then show "\<exists>m r. sp_bus s = mem_bus m r \<and> reads_idle m r" using s by blast
  show "read_latency s = 10" using s by (simp add: fresh_memory_def)
qed

theorem load_returns_view_witness:
  "\<exists>s u' s'. store_path_make (replicate 11 (0, True)) demo_writes = Some s \<and>
    lu_cycles (demo_input [Req_store (demo_item 0x80000010 4 0xAABBCCDD)] # replicate 10 (demo_input [])) demo_lu s = Some (u', s') \<and>
    (\<exists>send fb u'' sh. lu_level2 quiet_bru quiet_sau quiet_commit False u' (lu_view (demo_input []) s') = Some (send, fb, u'', sh) \<and>
       wb_rd_value send = 0xAABB)"
proof -
  let ?x = "demo_input [Req_store (demo_item 0x80000010 4 0xAABBCCDD)]"
  obtain s where s: "store_path_make (replicate 11 (0, True)) demo_writes = Some s" "path_ok Idle s" "path_view s = (\<lambda>_. 0)"
    using store_path_make_ok[of "replicate 11 (0, True)" demo_writes] by (auto simp: demo_writes_def)
  obtain m r where m: "sp_bus s = mem_bus m r" "reads_idle m r" and l: "read_latency s = 10"
    using store_path_make_idle[OF _ _ s(1)] by (auto simp: demo_writes_def)
  have a: "load_addr demo_load = 0x80000012" "lp_rob_id demo_load = 5" by (simp_all add: load_addr_def demo_load_def)
  have sp: "lu_spares (demo_input qs) demo_load" for qs
    by (simp add: lu_spares_def demo_input_def quiet_bru_def quiet_sau_def quiet_commit_def Let_def)
  have "hs_get_data (lu_hdff demo_lu) = Some demo_load"
    by (simp add: demo_lu_def hs_get_data_def hs_push_def hs_make_def hs_sync_def hs_is_full_def hs_is_empty_def dff_get_def
        dff_get_new_def dff_set_def dff_sync_def dff_make_def)
  moreover have "\<not> lp_enable (l2_rev_pack demo_lu)" "lp_enable demo_load" "lp_valid demo_load" "\<not> lp_has_exception demo_load"
    "lp_op_unit demo_load = Cunit_lu" "lp_sub_op demo_load = Csub_lu Lu_lhu" "lp_load_queue_id demo_load = 0"
    by (simp_all add: demo_lu_def demo_load_def lsu_readreg_execute_pack_make_def)
  moreover have "is_cacheable 0x80000012 (ls_pma demo_shared)" by (simp add: is_cacheable_def get_pma_item_def demo_shared_def)
  moreover have "ccheck_align 0x80000012 2" "in_ram 0x80000012" by (simp_all add: ccheck_align_def in_ram_def config_defs)
  moreover have "0 < length (buffer (lq_fifo (ls_load_queue demo_shared)))" "0 < length (lq_item_conflict (ls_load_queue demo_shared))"
    by code_simp+
  ultimately have ent: "load_enters ?x demo_lu demo_load Lu_lhu" using sp by (simp add: load_enters_def a demo_input_def)
  have ok: "input_ok ?x" "input_ok (demo_input [])" using demo_stores(1) by (simp_all add: input_ok_def demo_input_def)
  have full: "\<not> producer_is_full (rsb_fifo (rsb_sync (rsb_reset (rsb_make RETIRED_STORE_BUFFER_SIZE))))" by code_simp
  obtain s1 where acc: "path_serve_all (li_before ?x) s = Some (s1, [demo_item 0x80000010 4 0xAABBCCDD])"
    using store_path_make_state[of "replicate 11 (0, True)" demo_writes] s(1) full
    by (auto simp: demo_input_def fifo_push_def demo_writes_def)
  have sb: "fifo_inv (sb_fifo (ls_store_buffer (li_others ?x)))" "producer_slots (sb_fifo (ls_store_buffer (li_others ?x))) = []"
    unfolding demo_input_def by code_simp+
  have q: "\<forall>y \<in> set (replicate 10 (demo_input []) @ [demo_input []]). lu_spares y demo_load \<and> input_ok y" using sp ok(2) by simp
  have n: "length (replicate 10 (demo_input [])) = read_latency s" using l by simp
  obtain u' s' s3 acc' send fb u2 sh w where
    1: "lu_cycles (?x # replicate 10 (demo_input [])) demo_lu s = Some (u', s')" "path_serve_all (li_before (demo_input [])) s' = Some (s3, acc')"
    "lu_level2 (li_bru (demo_input [])) (li_sau (demo_input [])) (li_commit (demo_input [])) False u' (lu_view (demo_input []) s3)
       = Some (send, fb, u2, sh)" "lu_extend Lu_lhu w = Some (wb_rd_value send)"
    "\<forall>k < 4. byte_of w k = (if k < unat (lu_size Lu_lhu) then (case last_store [] (unat (load_addr demo_load) + k) of
        Some v \<Rightarrow> v | None \<Rightarrow> put_all [demo_item 0x80000010 4 0xAABBCCDD] (path_view s) (load_addr demo_load + of_nat k)) else 0)"
    using load_returns_view[OF s(2) m ent ok(1) acc refl sb(1) _ _ q n refl] unfolding sb(2) by auto
  have w: "byte_of w 0 = 0xBB" "byte_of w 1 = 0xAA" "byte_of w 2 = 0" "byte_of w 3 = 0"
    using 1(5)[rule_format, of 0] 1(5)[rule_format, of 1] 1(5)[rule_format, of 2] 1(5)[rule_format, of 3] unfolding a s(3)
    by (simp_all add: put_store_def item_access_def demo_item_def covers_def store_byte_def byte_of_def drop_bit_eq_div unsigned_ucast_eq)
  have b: "byte_of 0xAABB 0 = 0xBB" "byte_of 0xAABB 1 = 0xAA" "byte_of 0xAABB 2 = 0" "byte_of 0xAABB 3 = 0" by code_simp+
  have "w = 0xAABB"
  proof (intro word_byte_eqI)
    fix k :: nat assume "k < 4"
    then have "k = 0 \<or> k = 1 \<or> k = 2 \<or> k = 3" by auto
    then show "byte_of w k = byte_of 0xAABB k" using w b by (elim disjE) simp_all
  qed
  then show ?thesis using s(1) 1(1-4) by (auto simp: demo_input_def)
qed

end
