(* ===== verification/Commit.thy ===== *)
theory Commit
  imports Lsu_Units
begin

text \<open>
  \<^verbatim>\<open>pipeline/commit.cpp\<close> with \<^verbatim>\<open>execute_commit.h\<close>: the last stage. In every cycle it takes an interrupt when the
  reorder buffer is empty, retires up to \<^verbatim>\<open>COMMIT_WIDTH\<close> finished operations from the front of
  the reorder buffer in order, and notes the operations that have been executed. An exception, a
  mispredicted branch without checkpoint and a load that ran ahead of a store without checkpoint flush the
  speculative state.

  The calls that train the predictors are collected as values, and so are the retired
  entries that the source records for the comparison of the two models. Flags only the debugger reads are left out.
\<close>

subsection \<open>The pack from the units\<close>

record execute_commit_pack_t =
  ec_inst_common_info :: inst_common_info_t
  ec_enable :: bool
  ec_value :: u32
  ec_valid :: bool
  ec_last_uop :: bool
  ec_rob_id :: nat
  ec_rob_id_stage :: bool
  ec_pc :: u32
  ec_imm :: u32
  ec_has_exception :: bool
  ec_exception_id :: riscv_exception_t
  ec_exception_value :: u32
  ec_branch_predictor_info_pack :: branch_predictor_info_pack_t
  ec_bru_jump :: bool
  ec_bru_next_pc :: u32
  ec_rs1 :: u32
  ec_arg1_src :: arg_src_t
  ec_rs1_need_map :: bool
  ec_rs1_phy :: nat
  ec_src1_value :: u32
  ec_rs2 :: u32
  ec_arg2_src :: arg_src_t
  ec_rs2_need_map :: bool
  ec_rs2_phy :: nat
  ec_src2_value :: u32
  ec_rd :: u32
  ec_rd_enable :: bool
  ec_need_rename :: bool
  ec_rd_phy :: nat
  ec_rd_value :: u32
  ec_csr :: u32
  ec_csr_newvalue :: u32
  ec_csr_newvalue_valid :: bool
  ec_load_queue_id :: nat
  ec_op :: op_t
  ec_op_unit :: cycle_unit_t
  ec_sub_op :: cycle_sub_op_t

definition execute_wb_to_commit_pack :: "execute_wb_pack_t \<Rightarrow> execute_commit_pack_t" where
  "execute_wb_to_commit_pack p =
     \<lparr>ec_inst_common_info = wb_inst_common_info p, ec_enable = wb_enable p, ec_value = wb_value p, ec_valid = wb_valid p,
      ec_last_uop = wb_last_uop p, ec_rob_id = wb_rob_id p, ec_rob_id_stage = wb_rob_id_stage p, ec_pc = wb_pc p,
      ec_imm = wb_imm p, ec_has_exception = wb_has_exception p, ec_exception_id = wb_exception_id p,
      ec_exception_value = wb_exception_value p, ec_branch_predictor_info_pack = wb_branch_predictor_info_pack p,
      ec_bru_jump = wb_bru_jump p, ec_bru_next_pc = wb_bru_next_pc p,
      ec_rs1 = wb_rs1 p, ec_arg1_src = wb_arg1_src p, ec_rs1_need_map = wb_rs1_need_map p, ec_rs1_phy = wb_rs1_phy p,
      ec_src1_value = wb_src1_value p,
      ec_rs2 = wb_rs2 p, ec_arg2_src = wb_arg2_src p, ec_rs2_need_map = wb_rs2_need_map p, ec_rs2_phy = wb_rs2_phy p,
      ec_src2_value = wb_src2_value p,
      ec_rd = wb_rd p, ec_rd_enable = wb_rd_enable p, ec_need_rename = wb_need_rename p, ec_rd_phy = wb_rd_phy p,
      ec_rd_value = wb_rd_value p, ec_csr = wb_csr p, ec_csr_newvalue = wb_csr_newvalue p,
      ec_csr_newvalue_valid = wb_csr_newvalue_valid p, ec_load_queue_id = wb_load_queue_id p, ec_op = wb_op p,
      ec_op_unit = wb_op_unit p, ec_sub_op = wb_sub_op p\<rparr>"

definition execute_commit_pack_make :: execute_commit_pack_t where
  "execute_commit_pack_make = execute_wb_to_commit_pack execute_wb_pack_make"

definition commit_feedback_pack_make :: commit_feedback_pack_t where
  "commit_feedback_pack_make =
     \<lparr>cf_idle = False, cf_next_handle_rob_id_valid = False, cf_next_handle_rob_id = 0, cf_has_exception = False,
      cf_exception_pc = 0, cf_flush = False, cf_committed_rob_id = replicate COMMIT_WIDTH 0,
      cf_committed_rob_id_valid = replicate COMMIT_WIDTH False, cf_jump_enable = False, cf_jump = False,
      cf_jump_next_pc = 0, cf_waiting_for_interrupt = False\<rparr>"

subsection \<open>State\<close>

text \<open>The components a flush restores are those of the branch unit.\<close>

record commit =
  cm_port :: "execute_commit_pack_t port list"
  cm_spec :: spec_state
  cm_retire_rat :: rat
  cm_csr :: ccsrfile
  cm_interrupt :: cinterrupt_interface
  cm_retired :: retired_store_buffer
  cm_fifo :: "uop fifo"
  cm_bus :: cbus
  cm_pma :: "pma_item_t list"
  cm_counters :: perf_counters
  cm_is_waiting_ack :: bool
  cm_updates :: "predictor_update list"
  rob_retire_queue :: "(nat \<times> rob_item_t) list"

definition commit_reset :: "commit \<Rightarrow> commit" where
  "commit_reset c = c\<lparr>cm_is_waiting_ack := False\<rparr>"

text \<open>\<^verbatim>\<open>init\<close> lists the ports of the units in the order in which the stage reads them.\<close>

definition commit_init ::
    "execute_commit_pack_t port list \<Rightarrow> execute_commit_pack_t port list \<Rightarrow> execute_commit_pack_t port list \<Rightarrow>
     execute_commit_pack_t port list \<Rightarrow> execute_commit_pack_t port list \<Rightarrow> execute_commit_pack_t port list \<Rightarrow>
     execute_commit_pack_t port list \<Rightarrow> execute_commit_pack_t port list \<Rightarrow> commit \<Rightarrow> commit" where
  "commit_init alu bru csr div_port mul lu sau sdu c =
     c\<lparr>cm_port := cm_port c @ alu @ bru @ csr @ div_port @ mul @ lu @ sau @ sdu\<rparr>"

definition on_spec :: "(spec_state \<Rightarrow> spec_state) \<Rightarrow> commit \<Rightarrow> commit" where
  "on_spec g c = c\<lparr>cm_spec := g (cm_spec c)\<rparr>"

definition on_rob :: "(rob \<Rightarrow> rob) \<Rightarrow> commit \<Rightarrow> commit" where
  "on_rob g = on_spec (\<lambda>s. s\<lparr>sp_rob := g (sp_rob s)\<rparr>)"

definition count_commit :: "commit \<Rightarrow> commit" where
  "count_commit = on_rob (\<lambda>r. add_commit_num 1 (rob_set_committed True r))"

subsection \<open>Traps and flushes\<close>

definition write_trap :: "u32 \<Rightarrow> u32 \<Rightarrow> u32 \<Rightarrow> ccsrfile \<Rightarrow> ccsrfile option" where
  "write_trap pc val cause f =
     do {
       f1 \<leftarrow> ccsrfile_write_sys CSR_MEPC pc f;
       f2 \<leftarrow> ccsrfile_write_sys CSR_MTVAL val f1;
       ccsrfile_write_sys CSR_MCAUSE cause f2
     }"

definition commit_squash :: "nat \<Rightarrow> bool \<Rightarrow> commit \<Rightarrow> commit option" where
  "commit_squash rp rst c =
     do {
       let s = cm_spec c;
       rf \<leftarrow> phy_regfile_restore_rat (cm_retire_rat c) (sp_regfile s);
       free \<leftarrow> free_list_restore rp rst (sp_free s);
       Some (c\<lparr>cm_spec := s\<lparr>sp_rat := rat_load (cm_retire_rat c) (sp_rat s),
         sp_rob := (sp_rob s)\<lparr>rob_fifo := fifo_flush (rob_fifo (sp_rob s))\<rparr>, sp_regfile := rf, sp_free := free,
         sp_load_queue := load_queue_flush (sp_load_queue s),
         sp_store_buffer := (sp_store_buffer s)\<lparr>sb_fifo := fifo_flush (sb_fifo (sp_store_buffer s))\<rparr>,
         sp_checkpoint := fifo_flush (sp_checkpoint s)\<rparr>\<rparr>)
     }"

definition commit_trap ::
    "nat \<Rightarrow> rob_item_t \<Rightarrow> u32 \<Rightarrow> riscv_exception_t \<Rightarrow> commit_feedback_pack_t \<Rightarrow> commit \<Rightarrow> (commit_feedback_pack_t \<times> commit) option" where
  "commit_trap i item val ex fb c =
     do {
       let c1 = c\<lparr>rob_retire_queue := rob_retire_queue c @ [(i, item)]\<rparr>;
       f \<leftarrow> write_trap (ri_pc item) val (exception_code ex) (cm_csr c1);
       tvec \<leftarrow> ccsrfile_read_sys CSR_MTVEC f;
       c2 \<leftarrow> commit_squash (ri_new_phy_id_free_list_rptr item) (ri_new_phy_id_free_list_rstage item) (c1\<lparr>cm_csr := f\<rparr>);
       Some (fb\<lparr>cf_has_exception := True, cf_exception_pc := tvec, cf_flush := True\<rparr>, count_commit c2)
     }"

definition commit_interrupt ::
    "commit_feedback_pack_t \<Rightarrow> commit \<Rightarrow> (bool \<times> commit_feedback_pack_t \<times> commit) option" where
  "commit_interrupt fb c =
     do {
       cause \<leftarrow> cinterrupt_get_cause (cm_interrupt c) (cm_csr c);
       (case cause of
          None \<Rightarrow> Some (False, fb, c)
        | Some interrupt_id \<Rightarrow>
            if \<not> customer_is_empty (rob_fifo (sp_rob (cm_spec c))) \<or> customer_is_empty (cm_fifo c)
            then Some (False, fb\<lparr>cf_waiting_for_interrupt := True\<rparr>, c)
            else do {
              t_pack \<leftarrow> customer_get_front (cm_fifo c);
              f1 \<leftarrow> write_trap (d_pc t_pack) 0 (0x80000000 OR interrupt_code interrupt_id) (cm_csr c);
              v \<leftarrow> ccsrfile_read_sys CSR_MSTATUS f1;
              f2 \<leftarrow> ccsrfile_write_sys CSR_MSTATUS (mstatus_set_mie False (mstatus_set_mpie (mstatus_get_mie v) v)) f1;
              ci \<leftarrow> cinterrupt_set_ack interrupt_id (cm_interrupt c);
              tvec \<leftarrow> ccsrfile_read_sys CSR_MTVEC f2;
              Some (True, fb\<lparr>cf_has_exception := True, cf_exception_pc := tvec, cf_flush := True\<rparr>,
                    on_rob (rob_set_committed True) (c\<lparr>cm_csr := f2, cm_interrupt := ci\<rparr>))
            })
     }"

subsection \<open>One operation\<close>

text \<open>
  The parts of the loop body. Each gives what comes next, \<open>Inl\<close> with \<^verbatim>\<open>need_flush\<close> for a \<^verbatim>\<open>break\<close> and \<open>Inr\<close> to go on, with the feedback
  and the state.
\<close>

type_synonym commit_result = "(bool + unit) \<times> commit_feedback_pack_t \<times> commit"

definition on_counters :: "(perf_counters \<Rightarrow> perf_counters) \<Rightarrow> commit \<Rightarrow> commit" where
  "on_counters g c = c\<lparr>cm_counters := g (cm_counters c)\<rparr>"

definition count_load :: "u32 \<Rightarrow> bool \<Rightarrow> perf_counters \<Rightarrow> perf_counters" where
  "count_load replays conflict n =
     n\<lparr>load_num := load_num n + 1,
       replay_load_num := replay_load_num n + (if replays > 0 then 1 else 0),
       replay_num := replay_num n + (if replays > 0 then ucast replays else 0),
       conflict_load_num := conflict_load_num n + (if conflict then 1 else 0)\<rparr>"

definition commit_load ::
    "rob_item_t \<Rightarrow> commit_feedback_pack_t \<Rightarrow> commit \<Rightarrow> commit_result option" where
  "commit_load item fb c =
     (if ri_load_queue_id_valid item
      then do {
        let q = sp_load_queue (cm_spec c);
        replays \<leftarrow> lq_get_replay_num q (ri_load_queue_id item);
        conflict \<leftarrow> lq_get_conflict q (ri_load_queue_id item);
        let c1 = on_counters (count_load replays conflict) c;
        let has_checkpoint = bp_checkpoint_id_valid (ri_branch_predictor_info_pack item);
        (if conflict \<and> \<not> has_checkpoint
         then do {
           c2 \<leftarrow> commit_squash (ri_old_phy_id_free_list_rptr item) (ri_old_phy_id_free_list_rstage item) c1;
           Some (Inl True, fb\<lparr>cf_jump_enable := True, cf_jump := True, cf_jump_next_pc := ri_pc item, cf_flush := True\<rparr>, c2)
         }
         else Some (Inr (), fb, on_spec (\<lambda>s. s\<lparr>
           sp_checkpoint := (if has_checkpoint then snd (fifo_pop (sp_checkpoint s)) else sp_checkpoint s),
           sp_load_queue := (sp_load_queue s)\<lparr>lq_fifo := snd (fifo_pop (lq_fifo (sp_load_queue s)))\<rparr>\<rparr>) c1))
      }
      else Some (Inr (), fb, c))"

definition write_sync :: "u32 \<Rightarrow> u32 \<Rightarrow> u32 \<Rightarrow> cbus \<Rightarrow> cbus" where
  "write_sync addr n v b =
     (if n = 1 then cbus_write8_sync addr (ucast v) b
      else if n = 2 then cbus_write16_sync addr (ucast v) b
      else if n = 4 then cbus_write32_sync addr v b else b)"

definition pop_store :: "commit \<Rightarrow> commit" where
  "pop_store = on_spec (\<lambda>s. s\<lparr>sp_store_buffer := (sp_store_buffer s)\<lparr>sb_fifo := snd (fifo_pop (sb_fifo (sp_store_buffer s)))\<rparr>\<rparr>)"

definition commit_store ::
    "nat \<Rightarrow> rob_item_t \<Rightarrow> commit_feedback_pack_t \<Rightarrow> commit \<Rightarrow> commit_result option" where
  "commit_store i item fb c =
     (if ri_store_buffer_id_valid item
      then do {
        let b = sp_store_buffer (cm_spec c);
        t_item \<leftarrow> sb_get_item b (ri_store_buffer_id item);
        t_addr \<leftarrow> sb_get_addr b (ri_store_buffer_id item);
        t_size \<leftarrow> sb_get_size b (ri_store_buffer_id item);
        verify (t_size = 1 \<or> t_size = 2 \<or> t_size = 4);
        (if cm_is_waiting_ack c
         then (case get_data_write_ack (cbus_if (cm_bus c)) of
                 None \<Rightarrow> Some (Inl False, fb, c)
               | Some write_errno \<Rightarrow>
                   do {
                     let c1 = c\<lparr>cm_is_waiting_ack := False\<rparr>;
                     (if write_errno = Bus_error
                      then do {
                        (fb', c2) \<leftarrow> commit_trap i item t_addr store_amo_access_fault fb c1;
                        Some (Inl True, fb', c2)
                      }
                      else Some (Inr (), fb, pop_store c1))
                   })
         else if is_cacheable t_addr (cm_pma c)
         then do {
           let (ok, f) = fifo_push \<lparr>rs_inst_common_info = sb_inst_common_info t_item, rs_addr = t_addr, rs_size = t_size,
                                    rs_data = sb_data t_item\<rparr> (rsb_fifo (cm_retired c));
           verify ok;
           Some (Inr (), fb, pop_store (c\<lparr>cm_retired := (cm_retired c)\<lparr>rsb_fifo := f\<rparr>\<rparr>))
         }
         else Some (Inl False, fb, c\<lparr>cm_bus := write_sync t_addr t_size (sb_data t_item) (cm_bus c), cm_is_waiting_ack := True\<rparr>))
      }
      else Some (Inr (), fb, c))"

definition retire_dest :: "rob_item_t \<Rightarrow> commit \<Rightarrow> commit option" where
  "retire_dest item c =
     (if ri_old_phy_reg_id_valid item
      then do {
        (old, rat) \<leftarrow> set_map (unat (ri_rd item)) (ri_new_phy_reg_id item) (cm_retire_rat c);
        rf1 \<leftarrow> phy_regfile_write (ri_old_phy_reg_id item) 0 False 0 False True (sp_regfile (cm_spec c));
        rf2 \<leftarrow> write_age_information (ri_new_phy_reg_id item) 0 False True rf1;
        (ok, free) \<leftarrow> free_list_push (ri_old_phy_reg_id item) (sp_free (cm_spec c));
        Some (on_spec (\<lambda>s. s\<lparr>sp_regfile := rf2, sp_free := free\<rparr>) (c\<lparr>cm_retire_rat := rat\<rparr>))
      }
      else Some c)"

definition commit_retire :: "nat \<Rightarrow> rob_item_t \<Rightarrow> commit \<Rightarrow> commit option" where
  "commit_retire i item c =
     do {
       let c1 = on_rob (\<lambda>r. snd (rob_pop r)) (c\<lparr>rob_retire_queue := rob_retire_queue c @ [(i, item)]\<rparr>);
       c2 \<leftarrow> retire_dest item c1;
       let c3 = (if ri_last_uop item then count_commit c2 else c2);
       Some (if ri_csr_newvalue_valid item
             then c3\<lparr>cm_csr := snd (ccsrfile_write (ri_csr_addr item) (ri_csr_newvalue item) (cm_csr c3))\<rparr> else c3)
     }"

definition commit_mret :: "ccsrfile \<Rightarrow> ccsrfile option" where
  "commit_mret f =
     do {
       v \<leftarrow> ccsrfile_read_sys CSR_MSTATUS f;
       ccsrfile_write_sys CSR_MSTATUS (mstatus_set_mie (mstatus_get_mpie v) v) f
     }"

definition commit_update :: "bool \<Rightarrow> rob_item_t \<Rightarrow> commit \<Rightarrow> commit" where
  "commit_update hit item c =
     c\<lparr>cm_updates := cm_updates c @ [\<lparr>pu_pc = ri_pc item, pu_jump = ri_bru_jump item, pu_next_pc = ri_bru_next_pc item,
         pu_hit = hit, pu_info = ri_branch_predictor_info_pack item\<rparr>]\<rparr>"

definition count_branch :: "rob_item_t \<Rightarrow> (perf_counters \<Rightarrow> perf_counters) \<Rightarrow> commit \<Rightarrow> commit" where
  "count_branch item g = (if bp_condition_jump (ri_branch_predictor_info_pack item) then on_counters g else id)"

definition commit_predicted ::
    "rob_item_t \<Rightarrow> commit_feedback_pack_t \<Rightarrow> commit \<Rightarrow> (bool \<times> commit_feedback_pack_t \<times> commit) option" where
  "commit_predicted item fb c0 =
     do {
       let bp = ri_branch_predictor_info_pack item;
       let c = count_branch item (\<lambda>n. n\<lparr>branch_predicted := branch_predicted n + 1\<rparr>) c0;
       (need_flush, fb1, c1) \<leftarrow>
         (if ri_bru_jump item = bp_jump bp \<and> ri_bru_next_pc item = bp_next_pc bp
          then Some (False, fb, commit_update True item (count_branch item (\<lambda>n. n\<lparr>branch_hit := branch_hit n + 1\<rparr>) c))
          else if ri_bru_jump item = bp_jump bp \<and> bp_condition_jump bp then None
          else do {
            let c2 = commit_update False item (count_branch item (\<lambda>n. n\<lparr>branch_miss := branch_miss n + 1\<rparr>) c);
            (if \<not> bp_checkpoint_id_valid bp
             then do {
               c3 \<leftarrow> commit_squash (ri_new_phy_id_free_list_rptr item) (ri_new_phy_id_free_list_rstage item) c2;
               Some (True, fb\<lparr>cf_jump_enable := True, cf_jump := True, cf_jump_next_pc := ri_bru_next_pc item, cf_flush := True\<rparr>, c3)
             }
             else Some (False, fb, c2))
          });
       Some (need_flush, fb1,
         if bp_checkpoint_id_valid bp
         then on_spec (\<lambda>s. s\<lparr>sp_checkpoint := snd (fifo_pop (sp_checkpoint s))\<rparr>) c1 else c1)
     }"

definition commit_branch ::
    "rob_item_t \<Rightarrow> commit_feedback_pack_t \<Rightarrow> commit \<Rightarrow> commit_result option" where
  "commit_branch item fb c =
     (if ri_bru_op item
      then do {
        let c1 = count_branch item (\<lambda>n. n\<lparr>branch_num := branch_num n + 1\<rparr>) c;
        f \<leftarrow> (if ri_is_mret item then commit_mret (cm_csr c1) else Some (cm_csr c1));
        let c2 = c1\<lparr>cm_csr := f\<rparr>;
        (if bp_predicted (ri_branch_predictor_info_pack item)
         then do { (need_flush, fb1, c3) \<leftarrow> commit_predicted item fb c2; Some (Inl need_flush, fb1, c3) }
         else Some (Inl False, fb\<lparr>cf_jump_enable := True, cf_jump := ri_bru_jump item,
                cf_jump_next_pc := (if ri_bru_jump item then ri_bru_next_pc item else ri_pc item + 4)\<rparr>, c2))
      }
      else Some (Inr (), fb, c))"

text \<open>An operation without exception: the tests before it leaves, the load or store, the retirement, the branch.\<close>

definition commit_normal ::
    "nat \<Rightarrow> nat \<Rightarrow> rob_item_t \<Rightarrow> commit_feedback_pack_t \<Rightarrow> commit \<Rightarrow> commit_result option" where
  "commit_normal i rob_item_id item fb c =
     (if ri_store_buffer_id_valid item \<and> i \<noteq> 0 then Some (Inl False, fb, c)
      else do {
        blocked \<leftarrow> (if ri_store_buffer_id_valid item
                    then do { a \<leftarrow> sb_get_addr (sp_store_buffer (cm_spec c)) (ri_store_buffer_id item);
                              Some (is_cacheable a (cm_pma c) \<and> producer_is_full (rsb_fifo (cm_retired c))) }
                    else Some False);
        (if blocked then Some (Inl False, fb, c)
         else do {
           (x1, fb1, c1) \<leftarrow> commit_load item fb c;
           (case x1 of Inl nf \<Rightarrow> Some (Inl nf, fb1, c1)
            | Inr _ \<Rightarrow>
                do {
                  (x2, fb2, c2) \<leftarrow> commit_store rob_item_id item fb1 c1;
                  (case x2 of Inl nf \<Rightarrow> Some (Inl nf, fb2, c2)
                   | Inr _ \<Rightarrow>
                       do {
                         c3 \<leftarrow> commit_retire rob_item_id item c2;
                         commit_branch item fb2 c3
                       })
                })
         })
      })"

text \<open>The loop over the commit width, in which \<open>i\<close> operations have retired.\<close>

definition mark_committed :: "nat \<Rightarrow> nat \<Rightarrow> nat \<Rightarrow> rob \<Rightarrow> commit_feedback_pack_t \<Rightarrow> commit_feedback_pack_t option" where
  "mark_committed i rob_item_id first_id r fb =
     do {
       (next_id, valid) \<leftarrow> get_next_id r rob_item_id;
       Some (fb\<lparr>cf_next_handle_rob_id := next_id, cf_next_handle_rob_id_valid := (valid \<and> next_id \<noteq> first_id),
                cf_committed_rob_id_valid := (cf_committed_rob_id_valid fb)[i := True],
                cf_committed_rob_id := (cf_committed_rob_id fb)[i := rob_item_id]\<rparr>)
     }"

fun commit_loop ::
    "nat \<Rightarrow> nat \<Rightarrow> nat \<Rightarrow> commit_feedback_pack_t \<Rightarrow> commit \<Rightarrow> (bool \<times> commit_feedback_pack_t \<times> commit) option" where
  "commit_loop 0 i first_id fb c = Some (False, fb, c)"
| "commit_loop (Suc n) i first_id fb c =
     (case get_front_id (sp_rob (cm_spec c)) of
        None \<Rightarrow> commit_loop n (i + 1) first_id fb c
      | Some rob_item_id \<Rightarrow>
          do {
            item \<leftarrow> rob_get_item (sp_rob (cm_spec c)) rob_item_id;
            (if \<not> ri_finish item then Some (False, fb, c)
             else do {
               fb1 \<leftarrow> mark_committed i rob_item_id first_id (sp_rob (cm_spec c)) fb;
               (if ri_has_exception item
                then do {
                  (fb2, c2) \<leftarrow> commit_trap rob_item_id item (ri_exception_value item) (ri_exception_id item) fb1 c;
                  Some (True, fb2, c2)
                }
                else do {
                  (x, fb2, c2) \<leftarrow> commit_normal i rob_item_id item fb1 c;
                  (case x of Inl need_flush \<Rightarrow> Some (need_flush, fb2, c2) | Inr _ \<Rightarrow> commit_loop n (i + 1) first_id fb2 c2)
                })
             })
          })"

subsection \<open>Finished operations\<close>

definition finish_item :: "execute_commit_pack_t \<Rightarrow> rob_item_t \<Rightarrow> rob_item_t" where
  "finish_item p item =
     (let it1 = (if ec_last_uop p then item\<lparr>ri_finish := True\<rparr> else item);
          it2 = (if \<not> ri_has_exception it1
                 then it1\<lparr>ri_has_exception := ec_has_exception p, ri_exception_id := ec_exception_id p,
                          ri_exception_value := ec_exception_value p\<rparr> else it1)
      in it2\<lparr>ri_branch_predictor_info_pack := ec_branch_predictor_info_pack p, ri_bru_op := (ec_op_unit p = Cunit_bru),
             ri_bru_jump := ec_bru_jump p, ri_bru_next_pc := ec_bru_next_pc p, ri_csr_newvalue := ec_csr_newvalue p,
             ri_csr_newvalue_valid := ec_csr_newvalue_valid p\<rparr>)"

definition finish_one :: "execute_commit_pack_t \<Rightarrow> rob \<Rightarrow> rob option" where
  "finish_one p r =
     (if ec_enable p
      then do {
        item \<leftarrow> rob_get_item r (ec_rob_id p);
        f \<leftarrow> fifo_set_item (ec_rob_id p) (finish_item p item) (rob_fifo r);
        Some (r\<lparr>rob_fifo := f\<rparr>)
      }
      else Some r)"

fun finish_all :: "execute_commit_pack_t list \<Rightarrow> rob \<Rightarrow> rob option" where
  "finish_all [] r = Some r"
| "finish_all (p # ps) r = do { r1 \<leftarrow> finish_one p r; finish_all ps r1 }"

subsection \<open>The stage\<close>

definition commit_run :: "commit \<Rightarrow> (commit_feedback_pack_t \<times> commit) option" where
  "commit_run c =
     do {
       (nf0, fb0, c0) \<leftarrow> commit_interrupt (commit_feedback_pack_make\<lparr>cf_idle := True\<rparr>) c;
       (if \<not> customer_is_empty (rob_fifo (sp_rob (cm_spec c0)))
        then do {
          rob_item_id \<leftarrow> get_front_id (sp_rob (cm_spec c0));
          let fb1 = fb0\<lparr>cf_idle := False, cf_next_handle_rob_id := rob_item_id, cf_next_handle_rob_id_valid := True\<rparr>;
          (nf1, fb2, c1) \<leftarrow> commit_loop COMMIT_WIDTH 0 rob_item_id fb1 c0;
          (if \<not> (nf0 \<or> nf1)
           then do {
             r \<leftarrow> finish_all (map port_get (cm_port c1)) (sp_rob (cm_spec c1));
             Some (fb2, on_rob (\<lambda>_. r) c1)
           }
           else Some (fb2, c1))
        }
        else Some (fb0, c0))
     }"

end
