(* ===== verification/Speculation.thy ===== *)
theory Speculation
  imports Commit Rename_Laws
begin

text \<open>
  How rename, retirement, flushes and the recovery of the branch unit keep the two register maps, the free list and the
  reorder buffer together. The reorder buffer links the maps: applying its entries in order to the retired map gives
  the speculative one, and each entry holds the register it replaced. The free list still holds, behind its read pointer, the
  registers the entries have taken, in the same order, and each entry has saved the pointer before and after.
\<close>

subsection \<open>The chain of maps\<close>

definition rob_apply :: "rob_item_t \<Rightarrow> (nat \<rightharpoonup> nat) \<Rightarrow> (nat \<rightharpoonup> nat)" where
  "rob_apply x m = (if ri_old_phy_reg_id_valid x then m(unat (ri_rd x) \<mapsto> ri_new_phy_reg_id x) else m)"

definition rob_news :: "rob_item_t list \<Rightarrow> nat list" where
  "rob_news items = map ri_new_phy_reg_id (filter ri_old_phy_reg_id_valid items)"

fun chained :: "(nat \<rightharpoonup> nat) \<Rightarrow> rob_item_t list \<Rightarrow> bool" where
  "chained m [] = True"
| "chained m (x # xs) =
     ((ri_old_phy_reg_id_valid x \<longrightarrow> m (unat (ri_rd x)) = Some (ri_old_phy_reg_id x)) \<and> chained (rob_apply x m) xs)"

definition inj_map :: "(nat \<rightharpoonup> nat) \<Rightarrow> bool" where
  "inj_map m \<longleftrightarrow> (\<forall>a b p. m a = Some p \<longrightarrow> m b = Some p \<longrightarrow> a = b)"

lemma rob_news_simps [simp]:
  "rob_news [] = []" "rob_news (a @ b) = rob_news a @ rob_news b"
  "rob_news (x # xs) = (if ri_old_phy_reg_id_valid x then [ri_new_phy_reg_id x] else []) @ rob_news xs"
  by (simp_all add: rob_news_def)

lemma news_olds_length: "length (rob_news xs) = length (rob_olds xs)"
  by (simp add: rob_news_def rob_olds_def)

lemma chained_append: "chained m (xs @ ys) \<longleftrightarrow> chained m xs \<and> chained (fold rob_apply xs m) ys"
  by (induction xs arbitrary: m) auto

lemma apply_dom: "chained m xs \<Longrightarrow> dom (fold rob_apply xs m) = dom m"
  by (induction xs arbitrary: m) (auto simp: rob_apply_def insert_absorb domIff)

lemma ran_upd:
  assumes "inj_map m" and "m a = Some p"
  shows "ran (m(a \<mapsto> q)) = insert q (ran m - {p})"
proof -
  have "b \<noteq> a \<and> m b = Some x \<longleftrightarrow> x \<noteq> p \<and> m b = Some x" if "m b = Some x" for b x
    using assms that unfolding inj_map_def by fastforce
  then show ?thesis using assms(2) unfolding ran_def by (auto 4 4)
qed

text \<open>
  Along a chain no register is lost or doubled: the registers of the first map and those the entries have taken are
  the registers of the last map and those the entries have replaced.
\<close>

lemma chain_registers:
  assumes "chained m xs" and "m' = fold rob_apply xs m" and "inj_map m'" and "distinct (rob_olds xs)"
    and "set (rob_olds xs) \<inter> ran m' = {}"
  shows "inj_map m \<and> distinct (rob_news xs) \<and> set (rob_news xs) \<inter> ran m = {} \<and>
    ran m \<union> set (rob_news xs) = ran m' \<union> set (rob_olds xs)"
  using assms
proof (induction xs arbitrary: m)
  case (Cons x xs)
  let ?m1 = "rob_apply x m"
  have ih: "inj_map ?m1" "distinct (rob_news xs)" "set (rob_news xs) \<inter> ran ?m1 = {}"
    "ran ?m1 \<union> set (rob_news xs) = ran m' \<union> set (rob_olds xs)"
    using Cons.IH[of ?m1] Cons.prems by (auto split: if_splits)
  show ?case
  proof (cases "ri_old_phy_reg_id_valid x")
    case False
    then show ?thesis using ih by (simp add: rob_apply_def)
  next
    case True
    let ?a = "unat (ri_rd x)" and ?old = "ri_old_phy_reg_id x" and ?n = "ri_new_phy_reg_id x"
    have m1: "?m1 = m(?a \<mapsto> ?n)" and ma: "m ?a = Some ?old" using True Cons.prems(1) by (simp_all add: rob_apply_def)
    have od: "?old \<notin> ran ?m1" "?old \<notin> set (rob_news xs)" using Cons.prems(4,5) True ih(4) by auto
    have bk: "m = ?m1(?a \<mapsto> ?old)" using ma m1 by (simp add: fun_eq_iff)
    have r: "ran m = insert ?old (ran ?m1 - {?n})"
      using ran_upd[OF ih(1), of ?a ?n ?old] bk m1 by simp
    have n: "?n \<in> ran ?m1" unfolding m1 by (simp add: ran_def) (metis fun_upd_same)
    have inj: "inj_map m"
      unfolding inj_map_def
    proof (intro allI impI)
      fix a b p assume h: "m a = Some p" "m b = Some p"
      show "a = b"
      proof (cases "a = ?a \<or> b = ?a")
        case True
        then have p: "p = ?old" using h ma by auto
        have "c = ?a" if "m c = Some p" for c
        proof (rule ccontr)
          assume "c \<noteq> ?a"
          then have "?m1 c = Some ?old" using that p m1 by simp
          then show False using od(1) by (auto simp: ran_def)
        qed
        from this[OF h(1)] this[OF h(2)] show ?thesis by simp
      next
        case False
        then show ?thesis using h ih(1) m1 unfolding inj_map_def by (metis fun_upd_other)
      qed
    qed
    show ?thesis using inj ih(2-4) od n True unfolding r by (auto split: if_splits)
  qed
qed (simp add: inj_map_def)

lemma partition_truncate:
  assumes "chained m (xs @ ys)" and "inj_map (fold rob_apply (xs @ ys) m)"
    and "regs_partition (fold rob_apply (xs @ ys) m) free (rob_olds (xs @ ys))"
  shows "regs_partition (fold rob_apply xs m) (rob_news ys @ free) (rob_olds xs)" and "inj_map (fold rob_apply xs m)"
proof -
  let ?m1 = "fold rob_apply xs m" and ?m2 = "fold rob_apply (xs @ ys) m"
  have c: "chained ?m1 ys" "?m2 = fold rob_apply ys ?m1" using assms(1) by (simp_all add: chained_append)
  have d: "distinct (rob_olds ys)" "set (rob_olds ys) \<inter> ran ?m2 = {}" using assms(3) by (auto simp: regs_partition_def)
  have k: "inj_map ?m1" "distinct (rob_news ys)" "set (rob_news ys) \<inter> ran ?m1 = {}"
    "ran ?m1 \<union> set (rob_news ys) = ran ?m2 \<union> set (rob_olds ys)"
    using chain_registers[OF c assms(2) d] by auto
  show "inj_map ?m1" by (rule k(1))
  have p: "distinct free" "distinct (rob_olds xs)" "set free \<inter> set (rob_olds xs) = {}" "set free \<inter> set (rob_olds ys) = {}"
    "set (rob_olds xs) \<inter> set (rob_olds ys) = {}" "(set free \<union> set (rob_olds xs) \<union> set (rob_olds ys)) \<inter> ran ?m2 = {}"
    "set free \<union> set (rob_olds xs) \<union> set (rob_olds ys) \<union> ran ?m2 = {0..<PHY_REG_NUM}"
    using assms(3) by (auto simp: regs_partition_def)
  have out: "(set free \<union> set (rob_olds xs)) \<inter> (ran ?m1 \<union> set (rob_news ys)) = {}" unfolding k(4) using p(3-6) by blast
  have all: "set free \<union> set (rob_olds xs) \<union> (ran ?m1 \<union> set (rob_news ys)) = {0..<PHY_REG_NUM}" unfolding k(4) using p(7) by blast
  show "regs_partition ?m1 (rob_news ys @ free) (rob_olds xs)"
    unfolding regs_partition_def using p(1-3) k(2,3) out all by auto
qed

subsection \<open>The link between the maps\<close>

text \<open>
  The pointers an entry saves: the read pointer of the free list, as a position counted from the start, before and after its register was taken.
\<close>

fun saved_ptrs :: "nat \<Rightarrow> rob_item_t list \<Rightarrow> bool" where
  "saved_ptrs c [] = True"
| "saved_ptrs c (x # xs) =
     (let c' = c + length (rob_news [x]) in
      (ri_old_phy_id_free_list_rptr x, ri_old_phy_id_free_list_rstage x) = ring_at PHY_REG_NUM c \<and>
      (ri_new_phy_id_free_list_rptr x, ri_new_phy_id_free_list_rstage x) = ring_at PHY_REG_NUM c' \<and> saved_ptrs c' xs)"

definition tagged :: "rat \<Rightarrow> (nat \<rightharpoonup> nat) \<Rightarrow> rob_item_t list \<Rightarrow> bool" where
  "tagged r m items \<longleftrightarrow> (\<forall>a p. m a = Some p \<longrightarrow> arch_of r p = a) \<and>
     (\<forall>x \<in> set items. ri_old_phy_reg_id_valid x \<longrightarrow> arch_of r (ri_new_phy_reg_id x) = unat (ri_rd x))"

definition rat_total :: "rat \<Rightarrow> bool" where
  "rat_total r \<longleftrightarrow> rat_inv r \<and> phy_reg_num r = PHY_REG_NUM \<and> arch_reg_num r = ARCH_REG_NUM \<and>
     dom (rat_abs r) = {0<..<ARCH_REG_NUM}"

definition linked :: "rat \<Rightarrow> rat \<Rightarrow> free_list \<Rightarrow> rob_item_t list \<Rightarrow> nat \<Rightarrow> nat \<Rightarrow> nat \<Rightarrow> nat \<Rightarrow> bool" where
  "linked R S F items c rc rn wc \<longleftrightarrow>
     rat_total R \<and> rat_total S \<and> rat_abs S = fold rob_apply items (rat_abs R) \<and> tagged S (rat_abs R) items \<and>
     chained (rat_abs R) items \<and> free_list_inv F \<and> fsize (fl_fifo F) = PHY_REG_NUM \<and>
     regs_partition (rat_abs S) (free_regs F) (rob_olds items) \<and>
     fifo_log (fl_fifo F) c (rob_news items @ free_regs F) rc rn wc \<and> rn = c + length (rob_news items) \<and> saved_ptrs c items"

lemma total_inj: "rat_total r \<Longrightarrow> inj_map (rat_abs r)"
  unfolding rat_total_def inj_map_def using rat_abs_inj by blast

lemma log_tl:
  assumes "fifo_log f c (x # L) rc rn wc" and "c < rn"
  shows "fifo_log f (Suc c) L rc rn wc"
proof -
  note l = assms(1)[unfolded fifo_log_def]
  have "dff_get_new (buffer f ! ((Suc c + i) mod fsize f)) = L ! i" if "i < length L" for i
    using l that by (auto dest!: spec[where x = "Suc i"])
  moreover have "dff_get (buffer f ! ((Suc c + i) mod fsize f)) = L ! i" if "Suc c + i < wc" for i
    using l that by (auto dest!: spec[where x = "Suc i"])
  ultimately show ?thesis using l assms(2) by (simp add: fifo_log_def)
qed

lemma linked_retired_map:
  assumes "linked R S F items c rc rn wc"
  shows "regs_partition (rat_abs R) (rob_news items @ free_regs F) []" and "chained (rat_abs R) items"
    and "distinct (rob_news items @ free_regs F)" and "set (rob_news items) \<inter> ran (rat_abs R) = {}"
    and "\<forall>p \<in> set (rob_news items @ free_regs F). p < PHY_REG_NUM"
proof -
  note l = assms[unfolded linked_def]
  have e: "rat_abs S = fold rob_apply items (rat_abs R)" "regs_partition (rat_abs S) (free_regs F) (rob_olds items)"
    "inj_map (rat_abs S)" using l total_inj[of S] by blast+
  show p: "regs_partition (rat_abs R) (rob_news items @ free_regs F) []"
    using partition_truncate(1)[of "rat_abs R" "[]" items "free_regs F"] e(2,3) l unfolding e(1) by simp
  show "chained (rat_abs R) items" using l by simp
  have "set (rob_news items @ free_regs F) \<subseteq> {0..<PHY_REG_NUM}" using p unfolding regs_partition_def by blast
  then show "\<forall>p \<in> set (rob_news items @ free_regs F). p < PHY_REG_NUM" by (auto simp only: subset_iff atLeastLessThan_iff)
  show "distinct (rob_news items @ free_regs F)" "set (rob_news items) \<inter> ran (rat_abs R) = {}"
    using p by (auto simp: regs_partition_def)
qed

lemma linked_retire:
  assumes "linked R S F (x # xs) c rc rc wc" and "ri_old_phy_reg_id_valid x"
  obtains old R' F' where "set_map (unat (ri_rd x)) (ri_new_phy_reg_id x) R = Some (old, R')"
    "free_list_push (ri_old_phy_reg_id x) F = Some (True, F')"
    "rat_abs R' = rob_apply x (rat_abs R)" "linked R' S F' xs (Suc c) rc rc wc"
    "free_regs F' = free_regs F @ [ri_old_phy_reg_id x]" "fifo_avail (fl_fifo F') = fifo_avail (fl_fifo F)"
proof -
  let ?a = "unat (ri_rd x)" and ?n = "ri_new_phy_reg_id x" and ?old = "ri_old_phy_reg_id x"
  note l = assms(1)[unfolded linked_def] and r = linked_retired_map[OF assms(1)]
  have R: "rat_inv R" "phy_reg_num R = PHY_REG_NUM" "arch_reg_num R = ARCH_REG_NUM" "dom (rat_abs R) = {0<..<ARCH_REG_NUM}"
    using l by (auto simp: rat_total_def)
  have m: "rat_abs R ?a = Some ?old" using r(2) assms(2) by simp
  have n: "?n < PHY_REG_NUM" "?n \<notin> ran (rat_abs R)" using r(4,5) assms(2) by auto
  obtain old R' where s: "set_map ?a ?n R = Some (old, R')" "rat_inv R'" "rat_abs R' = (rat_abs R)(?a \<mapsto> ?n)" "remapped ?a ?n R R'"
    using set_map_law[OF R(1), of ?a ?n] m n R(2) by (auto simp: rat_legal_def)
  have app: "rat_abs R' = rob_apply x (rat_abs R)" using s(3) assms(2) by (simp add: rob_apply_def)
  have R': "rat_total R'"
    using s R m by (auto simp: rat_total_def remapped_def)
  have p: "regs_partition (rat_abs S) (free_regs F) (rob_olds (x # xs))" using l by blast
  have old: "?old < PHY_REG_NUM" "?old \<notin> set (free_regs F)"
    using p assms(2) unfolding regs_partition_def by auto
  have "fifo_log (fl_fifo F) c (rob_news (x # xs) @ free_regs F) rc rc wc" "rc = c + length (rob_news (x # xs))"
    using l by blast+
  then have log: "fifo_log (fl_fifo F) c (?n # rob_news xs @ free_regs F) rc rc wc" "rc = c + Suc (length (rob_news xs))"
    using assms(2) by simp_all
  have len: "Suc (length (rob_news xs @ free_regs F)) \<le> PHY_REG_NUM" using log(1) l by (simp add: fifo_log_def)
  have fl: "free_list_inv F" "fsize (fl_fifo F) = PHY_REG_NUM" using l by simp_all
  obtain ret F' where f: "free_list_push ?old F = Some (ret, F')" "free_list_inv F'"
      "ret = (producer_get_used_space (fl_fifo F) < PHY_REG_NUM)" "free_regs F' = free_regs F @ (if ret then [?old] else [])"
      "fifo_push ?old (fl_fifo F) = (ret, fl_fifo F')"
    using free_list_push_abs[OF fl(1), of ?old] old fl(2) by auto
  have w: "fifo_window (fl_fifo F) rc rc wc (c + length (?n # rob_news xs @ free_regs F))"
    using log(1) by (simp add: fifo_log_def)
  have ret: "ret" unfolding f(3) window_used(1)[OF w] using len log(2) by simp
  have log': "fifo_log (fl_fifo F') (Suc c) (rob_news xs @ free_regs F') rc rc wc"
    using log_push[OF log_tl[OF log(1)] _ f(5)[unfolded ret[THEN eqTrueI]]] len fl(2) log(2) f(4) ret by simp
  have sz: "fsize (fl_fifo F') = PHY_REG_NUM" using f(5) fifo_push_abs(3) fl free_list_inv_def fifo_settled_def by metis
  have part: "regs_partition (rat_abs S) (free_regs F') (rob_olds xs)"
    using p assms(2) f(4) ret unfolding regs_partition_def by auto
  have tag: "tagged S (rat_abs R') xs" using l assms(2) s(3) by (auto simp: tagged_def)
  have "linked R' S F' xs (Suc c) rc rc wc"
    using R' l app tag f(2) sz part log' log(2) assms(2) by (simp add: linked_def Let_def)
  moreover have "fifo_avail (fl_fifo F') = fifo_avail (fl_fifo F)"
    using fl(1) fifo_push_abs(4)[OF _ f(5)] by (simp add: free_list_inv_def fifo_settled_def)
  ultimately show thesis using that s(1) f(1,4) ret app by simp
qed

lemma linked_skip:
  assumes "linked R S F (x # xs) c rc rn wc" and "\<not> ri_old_phy_reg_id_valid x"
  shows "linked R S F xs c rc rn wc"
  using assms by (auto simp: linked_def rob_apply_def tagged_def Let_def)

lemma total_sync: "rat_total r \<Longrightarrow> rat_total (rat_sync r) \<and> rat_abs (rat_sync r) = rat_abs r"
  unfolding rat_total_def rat_inv_def[of r] using rat_sync_views[of r] by (auto simp: rat_sync_def rat_inv_def[of r])

lemma tagged_sync:
  assumes "rat_total r" and "\<forall>p \<in> ran m \<union> set (rob_news items). p < PHY_REG_NUM"
  shows "tagged (rat_sync r) m items = tagged r m items"
proof -
  have "arch_of (rat_sync r) p = arch_of r p" if "p < PHY_REG_NUM" for p
    using assms(1) that by (simp add: rat_total_def rat_inv_def rat_shape_def arch_of_def rat_sync_def)
  moreover have "m a = Some p \<Longrightarrow> p < PHY_REG_NUM" for a p using assms(2) by (blast intro: ranI)
  moreover have "x \<in> set items \<Longrightarrow> ri_old_phy_reg_id_valid x \<Longrightarrow> ri_new_phy_reg_id x < PHY_REG_NUM" for x
    using assms(2) by (auto simp: rob_news_def)
  ultimately have "(m a = Some p \<longrightarrow> arch_of (rat_sync r) p = a) = (m a = Some p \<longrightarrow> arch_of r p = a)"
    "x \<in> set items \<Longrightarrow> (ri_old_phy_reg_id_valid x \<longrightarrow> arch_of (rat_sync r) (ri_new_phy_reg_id x) = unat (ri_rd x)) =
       (ri_old_phy_reg_id_valid x \<longrightarrow> arch_of r (ri_new_phy_reg_id x) = unat (ri_rd x))" for a p x
    by auto
  then show ?thesis unfolding tagged_def by simp
qed

lemma linked_bound:
  assumes "linked R S F items c rc rn wc"
  shows "\<forall>p \<in> ran (rat_abs R) \<union> set (rob_news items). p < PHY_REG_NUM"
  using linked_retired_map(1)[OF assms] by (auto simp: regs_partition_def)

lemma linked_sync:
  assumes "linked R S F items c rc rn wc"
  shows "linked (rat_sync R) (rat_sync S) (free_list_sync F) items c rn rn (rn + length (free_regs F))"
proof -
  note l = assms[unfolded linked_def]
  have f: "free_list_inv (free_list_sync F)" "free_regs (free_list_sync F) = free_regs F" "fsize (fl_fifo (free_list_sync F)) = PHY_REG_NUM"
    using free_list_sync_abs[of F] l by (auto simp: free_list_sync_def)
  have log: "fifo_log (fl_fifo F) c (rob_news items @ free_regs F) rc rn wc" "rn = c + length (rob_news items)" using l by blast+
  have "fifo_log (fl_fifo (free_list_sync F)) c (rob_news items @ free_regs F) rn rn (rn + length (free_regs F))"
    using log_sync[OF log(1)] log(2) by (simp add: free_list_sync_def add.assoc)
  then show ?thesis
    using l f total_sync[of R] total_sync[of S] tagged_sync[of S, OF _ linked_bound[OF assms]]
    by (elim conjE) (simp add: linked_def)
qed

lemma sync_twice: "fifo_sync (fifo_sync f) = fifo_sync f"
  by (simp add: fifo_sync_def dff_sync_def comp_def)

lemma linked_squash:
  assumes "linked R S F items c rc rc wc"
  obtains F' c' wc' where "free_list_restore (c mod PHY_REG_NUM) (odd (c div PHY_REG_NUM)) F = Some F'"
    "linked (rat_sync R) (rat_sync (rat_load R S)) (free_list_sync F') [] c' c' c' wc'"
    "free_regs (free_list_sync F') = rob_news items @ free_regs F"
proof -
  note l = assms[unfolded linked_def] and r = linked_retired_map[OF assms]
  let ?L = "rob_news items @ free_regs F"
  have fl: "fl_set F = set (free_regs F)" "\<forall>x \<in> set ?L. x < fsize (fl_fifo F)" using l r(5) by (auto simp: free_list_inv_def)
  obtain F' where F': "free_list_restore (c mod PHY_REG_NUM) (odd (c div PHY_REG_NUM)) F = Some F'"
      "free_list_inv (free_list_sync F')" "free_regs (free_list_sync F') = ?L"
    using free_list_restore_log[of F c ?L rc wc] l r(3) fl by auto
  have sz: "fsize (fl_fifo (free_list_sync F')) = PHY_REG_NUM"
    using F'(1) l by (auto simp: free_list_restore_def free_list_sync_def Let_def split: if_splits Option.bind_splits)
  have set: "fifo_settled (fl_fifo (free_list_sync F'))" using F'(2) by (simp add: free_list_inv_def)
  obtain rc' c' wc' where log: "fifo_log (fl_fifo (free_list_sync F')) c' ?L rc' c' wc'"
    using log_start[OF set] F'(3) unfolding free_regs_def by metis
  have log2: "fifo_log (fl_fifo (free_list_sync F')) c' ?L c' c' (c' + length ?L)"
  proof -
    have "fifo_log (fifo_sync (fl_fifo (free_list_sync F'))) c' ?L c' c' (c' + length ?L)" by (rule log_sync[OF log])
    then show ?thesis by (simp add: free_list_sync_def sync_twice)
  qed
  have R: "rat_total R" "rat_total (rat_load R S)" "rat_abs (rat_load R S) = rat_abs R"
    using l rat_load_views[of R S] by (auto simp: rat_total_def rat_load_def)
  have tag: "tagged (rat_sync (rat_load R S)) (rat_abs R) []"
    using rat_abs_iff[of "rat_sync (rat_load R S)"] total_sync[OF R(2)] R(3) unfolding tagged_def rat_total_def by auto
  have "linked (rat_sync R) (rat_sync (rat_load R S)) (free_list_sync F') [] c' c' c' (c' + length ?L)"
    unfolding linked_def using total_sync[OF R(1)] total_sync[OF R(2)] R(3) F'(2,3) sz r(1) log2 tag by simp
  then show thesis using that F' by blast
qed

end
