(* ===== verification/Commit_Laws.thy ===== *)
theory Commit_Laws
  imports Speculation
begin

text \<open>
  The commit stage on linked register maps. Operations leave the reorder buffer in order, each finished; the retired map
  follows them. When the stage flushes, the speculative map becomes the retired map and all registers taken
  since are free again, but for one: an operation that traps after rename has given it a destination loses that register.
  Otherwise the remaining entries stay linked.
\<close>

definition traps_ok :: "ccsrfile \<Rightarrow> bool" where
  "traps_ok f \<longleftrightarrow> {CSR_MIE, CSR_MEPC, CSR_MTVAL, CSR_MCAUSE, CSR_MTVEC, CSR_MSTATUS} \<subseteq> dom (ccsr_map_table f)"

text \<open>
  What the entries hold: slots of the load queue; no destination for a store (decode gives it none); and for a conditional
  branch whose direction was predicted right, the target that the branch unit has computed is the predicted one. An
  operation with an exception may have a destination, as a load that faults or an illegal access to a CSR has.
\<close>

definition item_ok :: "rob_item_t \<Rightarrow> bool" where
  "item_ok x \<longleftrightarrow>
     (ri_load_queue_id_valid x \<longrightarrow> ri_load_queue_id x < LOAD_QUEUE_SIZE) \<and>
     (ri_store_buffer_id_valid x \<longrightarrow> \<not> ri_old_phy_reg_id_valid x) \<and>
     (let bp = ri_branch_predictor_info_pack x in
      ri_bru_op x \<and> bp_predicted bp \<and> bp_condition_jump bp \<and> ri_bru_jump x = bp_jump bp \<longrightarrow> ri_bru_next_pc x = bp_next_pc bp)"

definition store_ok :: "store_buffer \<Rightarrow> rob_item_t \<Rightarrow> bool" where
  "store_ok b x \<longleftrightarrow> (ri_finish x \<and> ri_store_buffer_id_valid x \<longrightarrow>
     sb_check_id_valid (sb_fifo b) (ri_store_buffer_id x) \<and> dff_get (sb_item_size b ! ri_store_buffer_id x) \<in> {1, 2, 4})"

definition commit_inv :: "commit \<Rightarrow> rob_item_t list \<Rightarrow> nat \<Rightarrow> nat \<Rightarrow> nat \<Rightarrow> bool" where
  "commit_inv c items p rc wc \<longleftrightarrow>
     (let s = cm_spec c; f = rob_fifo (sp_rob s) in
      linked (cm_retire_rat c) (sp_rat s) (sp_free s) items p rc rc wc \<and>
      fifo_inv f \<and> fsize f = ROB_SIZE \<and> fifo_avail f = items \<and> fifo_next f = items \<and> map dff_sync (buffer f) = buffer f \<and>
      phy_regfile_shape (sp_regfile s) \<and> rf_size (sp_regfile s) = PHY_REG_NUM \<and>
      length (lq_item_conflict (sp_load_queue s)) = LOAD_QUEUE_SIZE \<and> length (lq_replay_num (sp_load_queue s)) = LOAD_QUEUE_SIZE \<and>
      traps_ok (cm_csr c))"

text \<open>A flushed state, seen after the clock edge: nothing is in flight.\<close>

definition squashed_commit :: "commit \<Rightarrow> bool" where
  "squashed_commit c \<longleftrightarrow>
     (let s = spec_sync (cm_spec c); f = rob_fifo (sp_rob s) in
      (\<exists>p wc. linked (rat_sync (cm_retire_rat c)) (sp_rat s) (sp_free s) [] p p p wc) \<and>
      fifo_inv f \<and> fsize f = ROB_SIZE \<and> fifo_next f = [])"

text \<open>
  The state after the trap of an operation for which rename took the register \<open>d\<close>: nothing is in flight and the
  speculative map is the retired one, but \<open>d\<close> is neither mapped nor free, while every other register is.
\<close>

definition register_lost :: "rat \<Rightarrow> spec_state \<Rightarrow> nat \<Rightarrow> bool" where
  "register_lost R s d \<longleftrightarrow>
     rat_total R \<and> rat_total (sp_rat s) \<and> rat_abs (sp_rat s) = rat_abs R \<and>
     free_list_inv (sp_free s) \<and> fsize (fl_fifo (sp_free s)) = PHY_REG_NUM \<and> distinct (free_regs (sp_free s)) \<and>
     set (free_regs (sp_free s)) \<inter> ran (rat_abs R) = {} \<and> d < PHY_REG_NUM \<and>
     set (free_regs (sp_free s)) \<union> ran (rat_abs R) = {0..<PHY_REG_NUM} - {d} \<and>
     fifo_next (rob_fifo (sp_rob s)) = [] \<and> fifo_inv (rob_fifo (sp_rob s)) \<and> fsize (rob_fifo (sp_rob s)) = ROB_SIZE"

text \<open>What a flush leaves, by the entry that trapped, if one did.\<close>

definition flushed :: "rob_item_t list \<Rightarrow> commit \<Rightarrow> bool" where
  "flushed tr c \<longleftrightarrow>
     (case filter ri_old_phy_reg_id_valid tr of
        [] \<Rightarrow> squashed_commit c
      | x # _ \<Rightarrow> register_lost (rat_sync (cm_retire_rat c)) (spec_sync (cm_spec c)) (ri_new_phy_reg_id x))"

lemma flushed_simps [simp]:
  "flushed [] c = squashed_commit c"
  "\<not> ri_old_phy_reg_id_valid x \<Longrightarrow> flushed [x] c = squashed_commit c"
  "ri_old_phy_reg_id_valid x \<Longrightarrow> flushed [x] c = register_lost (rat_sync (cm_retire_rat c)) (spec_sync (cm_spec c)) (ri_new_phy_reg_id x)"
  by (simp_all add: flushed_def)

lemma trap_csr:
  assumes "traps_ok f" and "a \<in> {CSR_MIE, CSR_MEPC, CSR_MTVAL, CSR_MCAUSE, CSR_MTVEC, CSR_MSTATUS}"
  obtains i where "ccsr_map_table f a = Some i"
  using assms unfolding traps_ok_def subset_iff domIff by (meson option.exhaust)

lemma write_sys_ok:
  assumes "traps_ok f" and "a \<in> {CSR_MIE, CSR_MEPC, CSR_MTVAL, CSR_MCAUSE, CSR_MTVEC, CSR_MSTATUS}"
  shows "\<exists>f'. ccsrfile_write_sys a v f = Some f' \<and> traps_ok f'"
proof -
  obtain i where i: "ccsr_map_table f a = Some i" by (rule trap_csr[OF assms])
  then have "ccsrfile_write_sys a v f = Some (ccsrfile_store a i v f)" by (simp add: ccsrfile_write_sys_def)
  moreover have "dom (ccsr_map_table (ccsrfile_store a i v f)) = insert a (dom (ccsr_map_table f))"
    by (simp add: ccsrfile_store_def split: prod.split)
  ultimately show ?thesis using assms(1) unfolding traps_ok_def by (intro exI[of _ "ccsrfile_store a i v f"]) simp
qed

lemma read_sys_ok:
  assumes "traps_ok f" and "a \<in> {CSR_MIE, CSR_MEPC, CSR_MTVAL, CSR_MCAUSE, CSR_MTVEC, CSR_MSTATUS}"
  shows "\<exists>v. ccsrfile_read_sys a f = Some v"
proof -
  obtain i where "ccsr_map_table f a = Some i" by (rule trap_csr[OF assms])
  then show ?thesis by (simp add: ccsrfile_read_sys_def)
qed

lemma write_trap_ok:
  assumes "traps_ok f"
  shows "\<exists>f'. write_trap pc v cause f = Some f' \<and> traps_ok f'"
proof -
  obtain f1 where f1: "ccsrfile_write_sys CSR_MEPC pc f = Some f1" "traps_ok f1" using write_sys_ok[OF assms] by blast
  obtain f2 where f2: "ccsrfile_write_sys CSR_MTVAL v f1 = Some f2" "traps_ok f2" using write_sys_ok[OF f1(2)] by blast
  obtain f3 where "ccsrfile_write_sys CSR_MCAUSE cause f2 = Some f3" "traps_ok f3" using write_sys_ok[OF f2(2)] by blast
  then show ?thesis using f1(1) f2(1) by (simp add: write_trap_def)
qed

lemma csr_write_keeps: "traps_ok f \<Longrightarrow> traps_ok (snd (ccsrfile_write a v f))"
  unfolding traps_ok_def by (auto simp: ccsrfile_write_def ccsrfile_store_def split: prod.split option.split)

text \<open>The registers freed in this cycle.\<close>

definition slack :: "commit \<Rightarrow> nat" where
  "slack c = (let F = sp_free (cm_spec c) in length (free_regs F) - length (fifo_avail (fl_fifo F)))"

subsection \<open>The parts of a step\<close>

lemma commit_squash_ok:
  assumes "commit_inv c items p rc wc" and "(rp, rst) = ring_at PHY_REG_NUM p"
  shows "\<exists>c'. commit_squash rp rst c = Some c' \<and> squashed_commit c' \<and> cm_retire_rat c' = cm_retire_rat c \<and>
    rob_retire_queue c' = rob_retire_queue c \<and> cm_csr c' = cm_csr c"
proof -
  let ?s = "cm_spec c"
  note i = assms(1)[unfolded commit_inv_def Let_def]
  have link: "linked (cm_retire_rat c) (sp_rat ?s) (sp_free ?s) items p rc rc wc" using i by blast
  have ptr: "rp = p mod PHY_REG_NUM" "rst = odd (p div PHY_REG_NUM)" using assms(2) by (simp_all add: ring_at_def)
  obtain F' c' wc' where F: "free_list_restore rp rst (sp_free ?s) = Some F'"
    "linked (rat_sync (cm_retire_rat c)) (rat_sync (rat_load (cm_retire_rat c) (sp_rat ?s))) (free_list_sync F') [] c' c' c' wc'"
    using linked_squash[OF link] unfolding ptr by blast
  have "phy_reg_num (cm_retire_rat c) = PHY_REG_NUM" using link by (simp add: linked_def rat_total_def)
  then obtain rf where rf: "phy_regfile_restore_rat (cm_retire_rat c) (sp_regfile ?s) = Some rf"
    using restore_rat_loop_eq[of "sp_regfile ?s" "cm_retire_rat c" "[0..<rf_size (sp_regfile ?s)]"] i
    by (auto simp: phy_regfile_restore_rat_def)
  have rob: "fifo_inv (rob_fifo (sp_rob ?s))" "fsize (rob_fifo (sp_rob ?s)) = ROB_SIZE" using i by blast+
  show ?thesis
    unfolding commit_squash_def Let_def rf F(1)
    using F(2) fifo_flush_abs(1,3)[OF rob(1)] rob(2)
    by (auto simp: squashed_commit_def Let_def spec_sync_def rob_sync_def fifo_flush_def fifo_reset_def)
qed

lemma commit_trap_ok:
  assumes "commit_inv c (x # xs) p rc wc" and "\<not> ri_old_phy_reg_id_valid x"
  shows "\<exists>fb' c'. commit_trap i x v ex fb c = Some (fb', c') \<and> squashed_commit c' \<and> cm_retire_rat c' = cm_retire_rat c \<and>
    rob_retire_queue c' = rob_retire_queue c @ [(i, x)] \<and> cf_flush fb'"
proof -
  have t: "traps_ok (cm_csr c)" and link: "linked (cm_retire_rat c) (sp_rat (cm_spec c)) (sp_free (cm_spec c)) (x # xs) p rc rc wc"
    using assms(1) unfolding commit_inv_def Let_def by blast+
  obtain f where f: "write_trap (ri_pc x) v (exception_code ex) (cm_csr c) = Some f" "traps_ok f" using write_trap_ok[OF t] by blast
  obtain tv where tv: "ccsrfile_read_sys CSR_MTVEC f = Some tv" using read_sys_ok[OF f(2)] by blast
  let ?c = "c\<lparr>rob_retire_queue := rob_retire_queue c @ [(i, x)], cm_csr := f\<rparr>"
  have inv: "commit_inv ?c (x # xs) p rc wc" using assms(1) f(2) by (simp add: commit_inv_def Let_def)
  have "(ri_new_phy_id_free_list_rptr x, ri_new_phy_id_free_list_rstage x) = ring_at PHY_REG_NUM p"
    using link assms(2) by (simp add: linked_def Let_def)
  from commit_squash_ok[OF inv this] obtain c' where c': "commit_squash (ri_new_phy_id_free_list_rptr x) (ri_new_phy_id_free_list_rstage x) ?c = Some c'"
    "squashed_commit c'" "cm_retire_rat c' = cm_retire_rat c" "rob_retire_queue c' = rob_retire_queue c @ [(i, x)]" by auto
  have "squashed_commit (count_commit c')"
    using c'(2) by (simp add: squashed_commit_def Let_def count_commit_def on_rob_def on_spec_def spec_sync_def rob_sync_def
        add_commit_num_def rob_set_committed_def)
  then show ?thesis
    using f(1) tv c' by (simp add: commit_trap_def count_commit_def on_rob_def on_spec_def)
qed

text \<open>
  A trap restores the free list to the pointer after the trapping operation and the map to that before it, so that a
  destination register it has taken is in neither.
\<close>

lemma commit_trap_lost:
  assumes "commit_inv c (x # xs) p rc wc" and "ri_old_phy_reg_id_valid x"
  shows "\<exists>fb' c'. commit_trap i x v ex fb c = Some (fb', c') \<and>
    register_lost (rat_sync (cm_retire_rat c')) (spec_sync (cm_spec c')) (ri_new_phy_reg_id x) \<and> cm_retire_rat c' = cm_retire_rat c \<and>
    rob_retire_queue c' = rob_retire_queue c @ [(i, x)] \<and> cf_flush fb'"
proof -
  let ?s = "cm_spec c" and ?n = "ri_new_phy_reg_id x"
  let ?rp = "ri_new_phy_id_free_list_rptr x" and ?rst = "ri_new_phy_id_free_list_rstage x" and ?L = "rob_news xs @ free_regs (sp_free (cm_spec c))"
  note v = assms(1)[unfolded commit_inv_def Let_def]
  have link: "linked (cm_retire_rat c) (sp_rat ?s) (sp_free ?s) (x # xs) p rc rc wc" using v by blast
  note l = link[unfolded linked_def] and r = linked_retired_map[OF link]
  have log: "fifo_log (fl_fifo (sp_free ?s)) p (?n # ?L) rc rc wc" "p < rc" "(?rp, ?rst) = ring_at PHY_REG_NUM (Suc p)"
    "fsize (fl_fifo (sp_free ?s)) = PHY_REG_NUM" "fl_set (sp_free ?s) = set (free_regs (sp_free ?s))"
    using l assms(2) by (auto simp: Let_def free_list_inv_def)
  have ptr: "?rp = Suc p mod PHY_REG_NUM" "?rst = odd (Suc p div PHY_REG_NUM)" using log(3) by (simp_all add: ring_at_def)
  have d: "distinct ?L" "?n \<notin> set ?L" "\<forall>x \<in> set ?L. x < fsize (fl_fifo (sp_free ?s))" "?n \<notin> ran (rat_abs (cm_retire_rat c))"
    using r(3-5) assms(2) log(4) by auto
  obtain F where F: "free_list_restore ?rp ?rst (sp_free ?s) = Some F" "free_list_inv (free_list_sync F)" "free_regs (free_list_sync F) = ?L"
    using free_list_restore_log[OF log_tl[OF log(1,2)] _ d(1) log(5) d(3)] log(2,4) unfolding ptr by auto
  obtain f where f: "write_trap (ri_pc x) v (exception_code ex) (cm_csr c) = Some f" "traps_ok f" using write_trap_ok v by blast
  obtain tv where tv: "ccsrfile_read_sys CSR_MTVEC f = Some tv" using read_sys_ok[OF f(2), of CSR_MTVEC] by blast
  have t: "rat_total (cm_retire_rat c)" "rat_total (sp_rat ?s)" using l by blast+
  then have n: "phy_reg_num (cm_retire_rat c) = PHY_REG_NUM" by (simp add: rat_total_def)
  obtain rf where rf: "phy_regfile_restore_rat (cm_retire_rat c) (sp_regfile ?s) = Some rf"
    using restore_rat_loop_eq[of "sp_regfile ?s" "cm_retire_rat c" "[0..<rf_size (sp_regfile ?s)]"] v n
    by (auto simp: phy_regfile_restore_rat_def)
  have m: "rat_abs (rat_load (cm_retire_rat c) (sp_rat ?s)) = rat_abs (cm_retire_rat c)" "rat_total (rat_load (cm_retire_rat c) (sp_rat ?s))"
    using rat_load_views[of "cm_retire_rat c" "sp_rat ?s"] t by (auto simp: rat_total_def rat_load_def)
  have sz: "fsize (fl_fifo (free_list_sync F)) = PHY_REG_NUM"
    using F(1) log(4) by (auto simp: free_list_restore_def free_list_sync_def Let_def split: if_splits Option.bind_splits)
  have part: "set ?L \<union> ran (rat_abs (cm_retire_rat c)) = {0..<PHY_REG_NUM} - {?n}" "?n < PHY_REG_NUM" "set ?L \<inter> ran (rat_abs (cm_retire_rat c)) = {}"
    using r(1) d(2,4) assms(2) unfolding regs_partition_def by auto
  have rob: "fifo_inv (rob_fifo (sp_rob ?s))" "fsize (rob_fifo (sp_rob ?s)) = ROB_SIZE" using v by blast+
  let ?c = "c\<lparr>rob_retire_queue := rob_retire_queue c @ [(i, x)], cm_csr := f\<rparr>"
  obtain c1 where c1: "commit_squash ?rp ?rst ?c = Some c1" "cm_retire_rat c1 = cm_retire_rat c" "rob_retire_queue c1 = rob_retire_queue c @ [(i, x)]"
    "sp_rat (cm_spec c1) = rat_load (cm_retire_rat c) (sp_rat ?s)" "sp_free (cm_spec c1) = F"
    "rob_fifo (sp_rob (cm_spec c1)) = fifo_flush (rob_fifo (sp_rob ?s))"
    using rf F(1) by (simp add: commit_squash_def Let_def)
  let ?c2 = "count_commit c1"
  have s2: "cm_retire_rat ?c2 = cm_retire_rat c" "rob_retire_queue ?c2 = rob_retire_queue c @ [(i, x)]"
    "sp_rat (spec_sync (cm_spec ?c2)) = rat_sync (rat_load (cm_retire_rat c) (sp_rat ?s))" "sp_free (spec_sync (cm_spec ?c2)) = free_list_sync F"
    "rob_fifo (sp_rob (spec_sync (cm_spec ?c2))) = fifo_sync (fifo_flush (rob_fifo (sp_rob ?s)))"
    using c1(2-6) by (simp_all add: count_commit_def on_rob_def on_spec_def spec_sync_def rob_sync_def add_commit_num_def rob_set_committed_def)
  have fl: "fifo_next (fifo_sync (fifo_flush (rob_fifo (sp_rob ?s)))) = []" "fifo_inv (fifo_sync (fifo_flush (rob_fifo (sp_rob ?s))))"
    "fsize (fifo_sync (fifo_flush (rob_fifo (sp_rob ?s)))) = ROB_SIZE"
    using fifo_flush_abs(1,3)[OF rob(1)] rob(2) by (simp_all add: fifo_flush_def fifo_reset_def)
  have "register_lost (rat_sync (cm_retire_rat ?c2)) (spec_sync (cm_spec ?c2)) ?n"
    unfolding register_lost_def s2
    using total_sync[OF t(1)] total_sync[OF m(2)] m(1) F(2,3) sz part d(1) fl by simp
  then show ?thesis
    using f(1) tv c1(1) s2(1,2) by (simp add: commit_trap_def)
qed

lemma commit_trap_flushed:
  assumes "commit_inv c (x # xs) p rc wc"
  shows "\<exists>fb' c'. commit_trap i x v ex fb c = Some (fb', c') \<and> flushed [x] c' \<and> cm_retire_rat c' = cm_retire_rat c \<and>
    rob_retire_queue c' = rob_retire_queue c @ [(i, x)] \<and> cf_flush fb'"
  using commit_trap_ok[OF assms, of i v ex fb] commit_trap_lost[OF assms, of i v ex fb] by (cases "ri_old_phy_reg_id_valid x") simp_all

lemma file_write_ok:
  assumes "phy_regfile_shape rf" and "rf_size rf = PHY_REG_NUM" and "d < PHY_REG_NUM" and "e < PHY_REG_NUM"
  shows "\<exists>rf1 rf2. phy_regfile_write d 0 False 0 False True rf = Some rf1 \<and> write_age_information e 0 False True rf1 = Some rf2 \<and>
    phy_regfile_shape rf2 \<and> rf_size rf2 = PHY_REG_NUM"
  using assms by (simp add: phy_regfile_write_def write_age_information_def phy_regfile_shape_def)

lemma pop_clocked:
  assumes "fifo_inv f" and "fifo_avail f = x # xs" and "fifo_next f = x # xs"
  obtains f' where "fifo_pop f = (Some x, f')" "fifo_inv f'" "fsize f' = fsize f" "fifo_avail f' = xs" "fifo_next f' = xs"
    "buffer f' = buffer f"
proof -
  obtain y f' where p: "fifo_pop f = (y, f')" by fastforce
  note a = fifo_pop_abs[OF assms(1) p]
  have "buffer f' = buffer f" using p by (auto simp: fifo_pop_def split: if_splits)
  then show thesis using that p a assms(2,3) by simp
qed

lemma retire_dest_ok:
  assumes link: "linked (cm_retire_rat c) (sp_rat (cm_spec c)) (sp_free (cm_spec c)) (x # xs) p rc rc wc"
    and rf: "phy_regfile_shape (sp_regfile (cm_spec c))" "rf_size (sp_regfile (cm_spec c)) = PHY_REG_NUM"
  shows "\<exists>R F rf. retire_dest x c = Some (on_spec (\<lambda>s. s\<lparr>sp_regfile := rf, sp_free := F\<rparr>) (c\<lparr>cm_retire_rat := R\<rparr>)) \<and>
    linked R (sp_rat (cm_spec c)) F xs (p + length (rob_news [x])) rc rc wc \<and> rat_abs R = rob_apply x (rat_abs (cm_retire_rat c)) \<and>
    phy_regfile_shape rf \<and> rf_size rf = PHY_REG_NUM \<and> length (free_regs F) \<le> length (free_regs (sp_free (cm_spec c))) + 1 \<and>
    fifo_avail (fl_fifo F) = fifo_avail (fl_fifo (sp_free (cm_spec c)))"
proof (cases "ri_old_phy_reg_id_valid x")
  case False
  show ?thesis
    by (intro exI[of _ "cm_retire_rat c"] exI[of _ "sp_free (cm_spec c)"] exI[of _ "sp_regfile (cm_spec c)"])
      (use False rf linked_skip[OF link False] in \<open>simp add: retire_dest_def on_spec_def rob_apply_def\<close>)
next
  case True
  obtain old R F where r: "set_map (unat (ri_rd x)) (ri_new_phy_reg_id x) (cm_retire_rat c) = Some (old, R)"
    "free_list_push (ri_old_phy_reg_id x) (sp_free (cm_spec c)) = Some (True, F)"
    "rat_abs R = rob_apply x (rat_abs (cm_retire_rat c))" "linked R (sp_rat (cm_spec c)) F xs (Suc p) rc rc wc"
    "free_regs F = free_regs (sp_free (cm_spec c)) @ [ri_old_phy_reg_id x]"
    "fifo_avail (fl_fifo F) = fifo_avail (fl_fifo (sp_free (cm_spec c)))"
    by (rule linked_retire[OF link True])
  have "ri_old_phy_reg_id x \<in> ran (rat_abs (cm_retire_rat c))" using linked_retired_map(2)[OF link] True by (auto simp: ran_def)
  then have b: "ri_old_phy_reg_id x < PHY_REG_NUM" "ri_new_phy_reg_id x < PHY_REG_NUM" using linked_bound[OF link] True by auto
  obtain rf1 rf2 where f: "phy_regfile_write (ri_old_phy_reg_id x) 0 False 0 False True (sp_regfile (cm_spec c)) = Some rf1"
    "write_age_information (ri_new_phy_reg_id x) 0 False True rf1 = Some rf2" "phy_regfile_shape rf2" "rf_size rf2 = PHY_REG_NUM"
    using file_write_ok[OF rf b] by blast
  show ?thesis using True r f by (intro exI[of _ R] exI[of _ F] exI[of _ rf2]) (simp add: retire_dest_def)
qed

lemma commit_retire_ok:
  assumes "commit_inv c (x # xs) p rc wc"
  shows "\<exists>c'. commit_retire i x c = Some c' \<and> commit_inv c' xs (p + length (rob_news [x])) rc wc \<and>
    rat_abs (cm_retire_rat c') = rob_apply x (rat_abs (cm_retire_rat c)) \<and>
    rob_retire_queue c' = rob_retire_queue c @ [(i, x)] \<and> slack c' \<le> slack c + 1"
proof -
  let ?f = "rob_fifo (sp_rob (cm_spec c))"
  note v = assms[unfolded commit_inv_def Let_def]
  obtain f where f: "fifo_pop ?f = (Some x, f)" "fifo_inv f" "fsize f = fsize ?f" "fifo_avail f = xs" "fifo_next f = xs"
    "buffer f = buffer ?f" using pop_clocked[of ?f x xs] v by blast
  let ?c = "on_rob (\<lambda>r. snd (rob_pop r)) (c\<lparr>rob_retire_queue := rob_retire_queue c @ [(i, x)]\<rparr>)"
  obtain R F rf where d: "retire_dest x ?c = Some (on_spec (\<lambda>s. s\<lparr>sp_regfile := rf, sp_free := F\<rparr>) (?c\<lparr>cm_retire_rat := R\<rparr>))"
    "linked R (sp_rat (cm_spec c)) F xs (p + length (rob_news [x])) rc rc wc" "rat_abs R = rob_apply x (rat_abs (cm_retire_rat c))"
    "phy_regfile_shape rf" "rf_size rf = PHY_REG_NUM" "length (free_regs F) \<le> length (free_regs (sp_free (cm_spec c))) + 1"
    "fifo_avail (fl_fifo F) = fifo_avail (fl_fifo (sp_free (cm_spec c)))"
    using retire_dest_ok[of ?c x xs p rc wc] v by (auto simp: on_rob_def on_spec_def)
  show ?thesis
    unfolding commit_retire_def Let_def d(1)
    using v f d(2-7) csr_write_keeps[of "cm_csr c"]
    by (auto simp: commit_inv_def Let_def count_commit_def on_rob_def on_spec_def rob_pop_def add_commit_num_def rob_set_committed_def
        slack_def simp del: rob_news_simps)
qed

text \<open>
  What a part of the stage has done: \<open>k\<close> of the entries have retired, after them \<open>tr\<close> was noted as trapped (an operation
  with an exception, or a store that the bus has refused), and either everything was flushed or the rest is still there.
\<close>

definition commit_live :: "commit \<Rightarrow> rob_item_t list \<Rightarrow> bool" where
  "commit_live c items \<longleftrightarrow> (\<exists>p rc wc. commit_inv c items p rc wc)"

definition retires ::
    "rob_item_t list \<Rightarrow> nat \<Rightarrow> rob_item_t list \<Rightarrow> bool \<Rightarrow> commit_feedback_pack_t \<Rightarrow> commit \<Rightarrow> commit_feedback_pack_t \<Rightarrow> commit \<Rightarrow> bool" where
  "retires items k tr nf fb c fb' c' \<longleftrightarrow>
     k \<le> length items \<and> list_all (\<lambda>x. ri_finish x \<and> \<not> ri_has_exception x) (take k items) \<and> (tr = [] \<or> tr = take 1 (drop k items)) \<and>
     list_all (\<lambda>x. ri_finish x \<and> (ri_has_exception x \<or> ri_store_buffer_id_valid x)) tr \<and>
     rat_abs (cm_retire_rat c') = fold rob_apply (take k items) (rat_abs (cm_retire_rat c)) \<and>
     map snd (rob_retire_queue c') = map snd (rob_retire_queue c) @ take k items @ tr \<and>
     (if nf then flushed tr c' \<and> cf_flush fb'
      else cf_flush fb' = cf_flush fb \<and> tr = [] \<and> commit_live c' (drop k items) \<and> slack c' \<le> slack c + k)"

lemma retires_trans:
  assumes "retires items k [] False fb c fb1 c1" and "retires (drop k items) j tr nf fb1 c1 fb2 c2"
  shows "retires items (k + j) tr nf fb c fb2 c2"
proof -
  have t: "take (k + j) items = take k items @ take j (drop k items)" by (simp add: take_add)
  have "k + j \<le> length items" using assms by (auto simp: retires_def)
  moreover have "list_all (\<lambda>x. ri_finish x \<and> \<not> ri_has_exception x) (take (k + j) items)" using assms unfolding t by (simp add: retires_def)
  ultimately show ?thesis
    using assms unfolding retires_def t by (cases nf) (auto simp: add.commute)
qed

lemma retires_stay: "commit_inv c items p rc wc \<Longrightarrow> retires items 0 [] False fb c fb c"
  by (auto simp: retires_def commit_live_def)

lemma commit_load_ok:
  assumes "commit_inv c (x # xs) p rc wc" and "item_ok x"
  shows "\<exists>r fb' c'. commit_load x fb c = Some (r, fb', c') \<and> cm_retire_rat c' = cm_retire_rat c \<and>
    rob_retire_queue c' = rob_retire_queue c \<and>
    (case r of Inr _ \<Rightarrow> fb' = fb \<and> commit_inv c' (x # xs) p rc wc \<and> sp_store_buffer (cm_spec c') = sp_store_buffer (cm_spec c) \<and>
         cm_pma c' = cm_pma c \<and> cm_retired c' = cm_retired c \<and> slack c' = slack c
     | Inl nf \<Rightarrow> nf \<and> cf_flush fb' \<and> squashed_commit c')"
proof (cases "ri_load_queue_id_valid x")
  case False
  then show ?thesis using assms(1) by (simp add: commit_load_def)
next
  case True
  let ?q = "sp_load_queue (cm_spec c)"
  note v = assms(1)[unfolded commit_inv_def Let_def]
  have id: "ri_load_queue_id x < LOAD_QUEUE_SIZE" using assms(2) True by (simp add: item_ok_def)
  obtain n where n: "lq_get_replay_num ?q (ri_load_queue_id x) = Some n" using v id by (simp add: lq_get_replay_num_def)
  obtain cf where cf: "lq_get_conflict ?q (ri_load_queue_id x) = Some cf" using v id by (simp add: lq_get_conflict_def)
  let ?c = "on_counters (count_load n cf) c"
  have inv: "commit_inv ?c (x # xs) p rc wc" using v by (simp add: commit_inv_def Let_def on_counters_def)
  have ptr: "(ri_old_phy_id_free_list_rptr x, ri_old_phy_id_free_list_rstage x) = ring_at PHY_REG_NUM p"
    using v by (auto simp: linked_def Let_def)
  show ?thesis
  proof (cases "cf \<and> \<not> bp_checkpoint_id_valid (ri_branch_predictor_info_pack x)")
    case conflict: True
    from commit_squash_ok[OF inv ptr] obtain c' where
      "commit_squash (ri_old_phy_id_free_list_rptr x) (ri_old_phy_id_free_list_rstage x) ?c = Some c'"
      "squashed_commit c'" "cm_retire_rat c' = cm_retire_rat ?c" "rob_retire_queue c' = rob_retire_queue ?c" by blast
    then show ?thesis using True n cf conflict by (simp add: commit_load_def on_counters_def)
  next
    case False
    then show ?thesis
      using True n cf v by (cases cf) (simp_all add: commit_load_def commit_inv_def Let_def on_spec_def on_counters_def slack_def)
  qed
qed

lemma commit_store_ok:
  assumes "commit_inv c (x # xs) p rc wc" and "item_ok x" and "ri_finish x" and "store_ok (sp_store_buffer (cm_spec c)) x"
    and "ri_store_buffer_id_valid x \<Longrightarrow> \<not> (is_cacheable (dff_get (sb_item_addr (sp_store_buffer (cm_spec c)) ! ri_store_buffer_id x)) (cm_pma c) \<and>
      producer_is_full (rsb_fifo (cm_retired c)))"
  shows "\<exists>r fb' c'. commit_store i x fb c = Some (r, fb', c') \<and>
    (case r of Inr _ \<Rightarrow> fb' = fb \<and> commit_inv c' (x # xs) p rc wc \<and> cm_retire_rat c' = cm_retire_rat c \<and> rob_retire_queue c' = rob_retire_queue c \<and>
         slack c' = slack c
     | Inl nf \<Rightarrow> ri_store_buffer_id_valid x \<and> (\<exists>tr. retires (x # xs) 0 tr nf fb c fb' c'))"
proof (cases "ri_store_buffer_id_valid x")
  case False
  then show ?thesis using assms(1) by (simp add: commit_store_def)
next
  case True
  let ?b = "sp_store_buffer (cm_spec c)" and ?id = "ri_store_buffer_id x"
  let ?a = "dff_get (sb_item_addr ?b ! ?id)" and ?n = "dff_get (sb_item_size ?b ! ?id)" and ?it = "dff_get (buffer (sb_fifo ?b) ! ?id)"
  have id: "sb_check_id_valid (sb_fifo ?b) ?id" "?n = 1 \<or> ?n = 2 \<or> ?n = 4" using assms(3,4) True by (auto simp: store_ok_def)
  have nd: "\<not> ri_old_phy_reg_id_valid x" using assms(2) True by (simp add: item_ok_def)
  note v = assms(1)[unfolded commit_inv_def Let_def]
  consider (none) "cm_is_waiting_ack c" "get_data_write_ack (cbus_if (cm_bus c)) = None"
    | (err) "cm_is_waiting_ack c" "get_data_write_ack (cbus_if (cm_bus c)) = Some Bus_error"
    | (ack) e where "cm_is_waiting_ack c" "get_data_write_ack (cbus_if (cm_bus c)) = Some e" "e \<noteq> Bus_error"
    | (ram) "\<not> cm_is_waiting_ack c" "is_cacheable ?a (cm_pma c)" | (io) "\<not> cm_is_waiting_ack c" "\<not> is_cacheable ?a (cm_pma c)"
    by blast
  then show ?thesis
  proof cases
    case none
    then have "commit_store i x fb c = Some (Inl False, fb, c)"
      using True id by (simp add: commit_store_def sb_get_item_def sb_get_addr_def sb_get_size_def)
    then show ?thesis using retires_stay[OF assms(1), of fb] True by (simp add: exI[of _ "[]"])
  next
    case err
    have "commit_inv (c\<lparr>cm_is_waiting_ack := False\<rparr>) (x # xs) p rc wc" using v by (simp add: commit_inv_def Let_def)
    from commit_trap_ok[OF this nd, of i ?a store_amo_access_fault fb] obtain fb' c' where
      "commit_trap i x ?a store_amo_access_fault fb (c\<lparr>cm_is_waiting_ack := False\<rparr>) = Some (fb', c')" "squashed_commit c'"
      "cm_retire_rat c' = cm_retire_rat c" "rob_retire_queue c' = rob_retire_queue c @ [(i, x)]" "cf_flush fb'" by auto
    then show ?thesis
      using err True id nd assms(3) by (auto simp: commit_store_def sb_get_item_def sb_get_addr_def sb_get_size_def retires_def)
  next
    case ack
    then have "commit_store i x fb c = Some (Inr (), fb, pop_store (c\<lparr>cm_is_waiting_ack := False\<rparr>))"
      using True id by (simp add: commit_store_def sb_get_item_def sb_get_addr_def sb_get_size_def)
    then show ?thesis using v by (simp add: commit_inv_def Let_def pop_store_def on_spec_def slack_def)
  next
    case ram
    then have nf: "\<not> producer_is_full (rsb_fifo (cm_retired c))" using assms(5) True by blast
    then have "\<exists>f. commit_store i x fb c = Some (Inr (), fb, pop_store (c\<lparr>cm_retired := (cm_retired c)\<lparr>rsb_fifo := f\<rparr>\<rparr>))"
      using True id ram by (auto simp: commit_store_def sb_get_item_def sb_get_addr_def sb_get_size_def fifo_push_def Let_def)
    then show ?thesis using v by (auto simp: commit_inv_def Let_def pop_store_def on_spec_def slack_def)
  next
    case io
    let ?c = "c\<lparr>cm_bus := write_sync ?a ?n (sb_data ?it) (cm_bus c), cm_is_waiting_ack := True\<rparr>"
    have "commit_store i x fb c = Some (Inl False, fb, ?c)"
      using True id io by (simp add: commit_store_def sb_get_item_def sb_get_addr_def sb_get_size_def Let_def)
    moreover have "commit_inv ?c (x # xs) p rc wc" using v by (simp add: commit_inv_def Let_def)
    ultimately show ?thesis
      using True by (intro exI[of _ "Inl False"] exI[of _ fb] exI[of _ ?c]) (auto simp: retires_def commit_live_def slack_def intro!: exI[of _ "[]"])
  qed
qed

lemma count_branch_keeps [simp]:
  "commit_inv (count_branch x g c) = commit_inv c" "cm_retire_rat (count_branch x g c) = cm_retire_rat c"
  "rob_retire_queue (count_branch x g c) = rob_retire_queue c" "cm_csr (count_branch x g c) = cm_csr c"
  "slack (count_branch x g c) = slack c"
  by (auto simp: slack_def count_branch_def on_counters_def commit_inv_def fun_eq_iff)

lemma commit_update_keeps [simp]:
  "commit_inv (commit_update h x c) = commit_inv c" "cm_retire_rat (commit_update h x c) = cm_retire_rat c"
  "rob_retire_queue (commit_update h x c) = rob_retire_queue c" "slack (commit_update h x c) = slack c"
  by (auto simp: slack_def commit_update_def commit_inv_def fun_eq_iff)

lemma commit_predicted_ok:
  assumes "commit_inv c xs p rc wc" and "item_ok x" and "ri_bru_op x" and "bp_predicted (ri_branch_predictor_info_pack x)"
    and ptr: "(ri_new_phy_id_free_list_rptr x, ri_new_phy_id_free_list_rstage x) = ring_at PHY_REG_NUM p"
  shows "\<exists>nf fb' c'. commit_predicted x fb c = Some (nf, fb', c') \<and> retires xs 0 [] nf fb c fb' c'"
proof -
  let ?bp = "ri_branch_predictor_info_pack x"
  let ?c = "count_branch x (\<lambda>n. n\<lparr>branch_predicted := branch_predicted n + 1\<rparr>) c"
  let ?pop = "on_spec (\<lambda>s. s\<lparr>sp_checkpoint := snd (fifo_pop (sp_checkpoint s))\<rparr>)"
  have keep: "commit_live (if b then ?pop d else d) xs" if "commit_inv d xs p rc wc" for b d
    using that by (auto simp: commit_live_def commit_inv_def Let_def on_spec_def)
  have same: "cm_retire_rat (if b then ?pop d else d) = cm_retire_rat d" "rob_retire_queue (if b then ?pop d else d) = rob_retire_queue d"
    "slack (if b then ?pop d else d) = slack d" for b d
    by (simp_all add: on_spec_def slack_def)
  show ?thesis
  proof (cases "ri_bru_jump x = bp_jump ?bp \<and> ri_bru_next_pc x = bp_next_pc ?bp")
    case True
    let ?c1 = "commit_update True x (count_branch x (\<lambda>n. n\<lparr>branch_hit := branch_hit n + 1\<rparr>) ?c)"
    let ?d = "if bp_checkpoint_id_valid ?bp then ?pop ?c1 else ?c1"
    have "commit_predicted x fb c = Some (False, fb, ?d)" using True by (simp add: commit_predicted_def Let_def)
    moreover have "retires xs 0 [] False fb c fb ?d"
      using keep[of ?c1 "bp_checkpoint_id_valid ?bp"] assms(1) unfolding retires_def same by simp
    ultimately show ?thesis by blast
  next
    case miss: False
    then have nv: "\<not> (ri_bru_jump x = bp_jump ?bp \<and> bp_condition_jump ?bp)" using assms(2-4) by (auto simp: item_ok_def Let_def)
    let ?c2 = "commit_update False x (count_branch x (\<lambda>n. n\<lparr>branch_miss := branch_miss n + 1\<rparr>) ?c)"
    have inv: "commit_inv ?c2 xs p rc wc" using assms(1) by simp
    show ?thesis
    proof (cases "bp_checkpoint_id_valid ?bp")
      case True
      have "commit_predicted x fb c = Some (False, fb, ?pop ?c2)" using True miss nv by (auto simp: commit_predicted_def Let_def)
      moreover have "retires xs 0 [] False fb c fb (?pop ?c2)"
        using keep[OF inv, of True] same[of True ?c2] unfolding retires_def by simp
      ultimately show ?thesis by blast
    next
      case False
      obtain c' where c': "commit_squash (ri_new_phy_id_free_list_rptr x) (ri_new_phy_id_free_list_rstage x) ?c2 = Some c'"
        "squashed_commit c'" "cm_retire_rat c' = cm_retire_rat c" "rob_retire_queue c' = rob_retire_queue c"
        using commit_squash_ok[OF inv ptr] by auto
      let ?fb = "fb\<lparr>cf_jump_enable := True, cf_jump := True, cf_jump_next_pc := ri_bru_next_pc x, cf_flush := True\<rparr>"
      have "commit_predicted x fb c = Some (True, ?fb, c')" using c'(1) miss nv False by (auto simp: commit_predicted_def Let_def)
      moreover have "retires xs 0 [] True fb c ?fb c'" using c' by (simp add: retires_def)
      ultimately show ?thesis by blast
    qed
  qed
qed

lemma slack_csr: "slack (c\<lparr>cm_csr := f\<rparr>) = slack c"
  by (simp add: slack_def)

lemma commit_mret_ok:
  assumes "traps_ok f"
  shows "\<exists>f'. commit_mret f = Some f' \<and> traps_ok f'"
proof -
  obtain v where "ccsrfile_read_sys CSR_MSTATUS f = Some v" using read_sys_ok[OF assms, of CSR_MSTATUS] by blast
  then show ?thesis
    using write_sys_ok[OF assms, of CSR_MSTATUS "mstatus_set_mie (mstatus_get_mpie v) v"] by (simp add: commit_mret_def)
qed

lemma commit_branch_ok:
  assumes "commit_inv c xs p rc wc" and "item_ok x"
    and ptr: "(ri_new_phy_id_free_list_rptr x, ri_new_phy_id_free_list_rstage x) = ring_at PHY_REG_NUM p"
  shows "\<exists>r fb' c'. commit_branch x fb c = Some (r, fb', c') \<and> retires xs 0 [] (r = Inl True) fb c fb' c'"
proof (cases "ri_bru_op x")
  case False
  then show ?thesis using retires_stay[OF assms(1)] by (simp add: commit_branch_def)
next
  case True
  let ?c = "count_branch x (\<lambda>n. n\<lparr>branch_num := branch_num n + 1\<rparr>) c"
  have t: "traps_ok (cm_csr c)" using assms(1) by (simp add: commit_inv_def Let_def)
  obtain f where f: "(if ri_is_mret x then commit_mret (cm_csr c) else Some (cm_csr c)) = Some f" "traps_ok f"
    using commit_mret_ok[OF t] t by (cases "ri_is_mret x") auto
  have inv: "commit_inv (?c\<lparr>cm_csr := f\<rparr>) xs p rc wc" using assms(1) f(2) by (auto simp: commit_inv_def Let_def count_branch_def on_counters_def)
  show ?thesis
  proof (cases "bp_predicted (ri_branch_predictor_info_pack x)")
    case pred: True
    from commit_predicted_ok[OF inv assms(2) True pred ptr, of fb] obtain nf fb' c' where
      "commit_predicted x fb (?c\<lparr>cm_csr := f\<rparr>) = Some (nf, fb', c')" "retires xs 0 [] nf fb (?c\<lparr>cm_csr := f\<rparr>) fb' c'" by blast
    moreover from this(2) have "retires xs 0 [] nf fb c fb' c'" by (cases nf) (simp_all add: retires_def slack_csr)
    ultimately show ?thesis using True pred f(1) by (auto simp: commit_branch_def Let_def)
  next
    case False
    let ?fb = "fb\<lparr>cf_jump_enable := True, cf_jump := ri_bru_jump x,
      cf_jump_next_pc := (if ri_bru_jump x then ri_bru_next_pc x else ri_pc x + 4)\<rparr>"
    have "commit_branch x fb c = Some (Inl False, ?fb, ?c\<lparr>cm_csr := f\<rparr>)" 
      using False True f(1) by (cases "ri_is_mret x") (simp_all add: commit_branch_def Let_def)
    moreover have "commit_live (?c\<lparr>cm_csr := f\<rparr>) xs" using inv unfolding commit_live_def by blast
    then have "retires xs 0 [] False fb c ?fb (?c\<lparr>cm_csr := f\<rparr>)" by (simp add: retires_def slack_csr)
    ultimately show ?thesis by force
  qed
qed

text \<open>One operation at the front that is finished and does not trap.\<close>

lemma commit_normal_ok:
  assumes "commit_inv c (x # xs) p rc wc" and "item_ok x" and "ri_finish x" and "\<not> ri_has_exception x" and "i = 0 \<longrightarrow> store_ok (sp_store_buffer (cm_spec c)) x"
  shows "\<exists>r fb' c' k tr. commit_normal i n x fb c = Some (r, fb', c') \<and> k \<le> 1 \<and> retires (x # xs) k tr (r = Inl True) fb c fb' c' \<and>
    (r = Inr () \<longrightarrow> k = 1) \<and> (k = 0 \<longrightarrow> ri_store_buffer_id_valid x \<or> r = Inl True)"
proof -
  let ?b = "sp_store_buffer (cm_spec c)"
  let ?a = "dff_get (sb_item_addr ?b ! ri_store_buffer_id x)"
  let ?blocked = "ri_store_buffer_id_valid x \<and> (i \<noteq> 0 \<or> is_cacheable ?a (cm_pma c) \<and> producer_is_full (rsb_fifo (cm_retired c)))"
  have sb: "sb_get_addr ?b (ri_store_buffer_id x) = Some ?a" if "ri_store_buffer_id_valid x" "i = 0"
    using assms(3,5) that by (simp add: store_ok_def sb_get_addr_def)
  show ?thesis
  proof (cases ?blocked)
    case True
    then have "commit_normal i n x fb c = Some (Inl False, fb, c)" using sb by (cases "i = 0") (simp_all add: commit_normal_def)
    then show ?thesis using retires_stay[OF assms(1), of fb] True by force
  next
    case free: False
    obtain r1 fb1 c1 where l: "commit_load x fb c = Some (r1, fb1, c1)" "cm_retire_rat c1 = cm_retire_rat c" "rob_retire_queue c1 = rob_retire_queue c"
      "case r1 of Inr _ \<Rightarrow> fb1 = fb \<and> commit_inv c1 (x # xs) p rc wc \<and> sp_store_buffer (cm_spec c1) = ?b \<and>
         cm_pma c1 = cm_pma c \<and> cm_retired c1 = cm_retired c \<and> slack c1 = slack c
       | Inl nf \<Rightarrow> nf \<and> cf_flush fb1 \<and> squashed_commit c1"
      using commit_load_ok[OF assms(1,2), of fb] by blast
    have run: "commit_normal i n x fb c =
        (case r1 of Inl nf \<Rightarrow> Some (Inl nf, fb1, c1)
         | Inr _ \<Rightarrow> do { (x2, fb2, c2) \<leftarrow> commit_store n x fb1 c1;
                        (case x2 of Inl nf \<Rightarrow> Some (Inl nf, fb2, c2)
                         | Inr _ \<Rightarrow> do { c3 \<leftarrow> commit_retire n x c2; commit_branch x fb2 c3 }) })"
      using free sb l(1) by (cases "ri_store_buffer_id_valid x") (auto simp: commit_normal_def)
    show ?thesis
    proof (cases r1)
      case (Inl nf)
      then have "commit_normal i n x fb c = Some (Inl True, fb1, c1)" "retires (x # xs) 0 [] True fb c fb1 c1"
        using run l by (simp_all add: retires_def)
      then show ?thesis by force
    next
      case (Inr u)
      then have l2: "fb1 = fb" "commit_inv c1 (x # xs) p rc wc" "sp_store_buffer (cm_spec c1) = ?b" "cm_pma c1 = cm_pma c" "cm_retired c1 = cm_retired c"
        "slack c1 = slack c" using l(4) by simp_all
      obtain r2 fb2 c2 where s: "commit_store n x fb c1 = Some (r2, fb2, c2)"
        "case r2 of Inr _ \<Rightarrow> fb2 = fb \<and> commit_inv c2 (x # xs) p rc wc \<and> cm_retire_rat c2 = cm_retire_rat c1 \<and> rob_retire_queue c2 = rob_retire_queue c1 \<and>
           slack c2 = slack c1
         | Inl nf \<Rightarrow> ri_store_buffer_id_valid x \<and> (\<exists>tr. retires (x # xs) 0 tr nf fb c1 fb2 c2)"
        using commit_store_ok[OF l2(2) assms(2,3), of n fb] assms(5) free l2(3-5)
        by (cases "ri_store_buffer_id_valid x") (auto simp: store_ok_def)
      show ?thesis
      proof (cases r2)
        case (Inl nf)
        then obtain tr where "ri_store_buffer_id_valid x" "retires (x # xs) 0 tr nf fb c1 fb2 c2" using s(2) by auto
        moreover from this have "retires (x # xs) 0 tr nf fb c fb2 c2" using l(2,3) l2(6) by (cases nf) (simp_all add: retires_def)
        moreover have "commit_normal i n x fb c = Some (Inl nf, fb2, c2)" using run Inr s(1) l2(1) Inl by simp
        ultimately show ?thesis by (cases nf) force+
      next
        case ok: (Inr u2)
        then have s2: "fb2 = fb" "commit_inv c2 (x # xs) p rc wc" "cm_retire_rat c2 = cm_retire_rat c" "rob_retire_queue c2 = rob_retire_queue c"
          "slack c2 = slack c" using s(2) l(2,3) l2(6) by simp_all
        obtain c3 where c3: "commit_retire n x c2 = Some c3" "commit_inv c3 xs (p + length (rob_news [x])) rc wc"
          "rat_abs (cm_retire_rat c3) = rob_apply x (rat_abs (cm_retire_rat c2))" "rob_retire_queue c3 = rob_retire_queue c2 @ [(n, x)]"
          "slack c3 \<le> slack c2 + 1" using commit_retire_ok[OF s2(2)] by blast
        have "linked (cm_retire_rat c) (sp_rat (cm_spec c)) (sp_free (cm_spec c)) (x # xs) p rc rc wc"
          using assms(1) unfolding commit_inv_def Let_def by blast
        then have ptr: "(ri_new_phy_id_free_list_rptr x, ri_new_phy_id_free_list_rstage x) = ring_at PHY_REG_NUM (p + length (rob_news [x]))"
          unfolding linked_def saved_ptrs.simps Let_def by blast
        obtain r fb' c' where b: "commit_branch x fb c3 = Some (r, fb', c')" "retires xs 0 [] (r = Inl True) fb c3 fb' c'"
          using commit_branch_ok[OF c3(2) assms(2) ptr] by blast
        have one: "retires (x # xs) 1 [] False fb c fb c3"
          using c3 s2(3-5) assms(3,4) by (auto simp: retires_def commit_live_def)
        have "retires (x # xs) 1 [] (r = Inl True) fb c fb' c'"
          using retires_trans[OF one, of 0] b(2) by simp
        moreover have "commit_normal i n x fb c = Some (r, fb', c')"
          using run Inr s(1) l2(1) ok c3(1) b(1) s2(1) by simp
        ultimately show ?thesis by force
      qed
    qed
  qed
qed

lemma front_item:
  assumes "commit_inv c (x # xs) p rc wc"
  obtains n where "get_front_id (sp_rob (cm_spec c)) = Some n" "rob_get_item (sp_rob (cm_spec c)) n = Some x"
    "\<And>i first fb. \<exists>fb'. mark_committed i n first (sp_rob (cm_spec c)) fb = Some fb' \<and> cf_flush fb' = cf_flush fb"
proof -
  let ?r = "sp_rob (cm_spec c)"
  have i: "fifo_inv (rob_fifo ?r)" "fifo_avail (rob_fifo ?r) = x # xs" using assms by (simp_all add: commit_inv_def Let_def)
  obtain ra rn wa wn where w: "fifo_window (rob_fifo ?r) ra rn wa wn" using i(1) by (rule fifo_windowE)
  let ?n = "rn mod fsize (rob_fifo ?r)"
  have lt: "rn < wa" using i(2) by (auto simp: window_lists[OF w] intro: ccontr)
  have x: "dff_get (buffer (rob_fifo ?r) ! ?n) = x" using i(2) lt by (simp add: window_lists[OF w] upt_conv_Cons)
  have p: "dff_get_new (rptr (rob_fifo ?r)) = ?n" "?n < length (buffer (rob_fifo ?r))"
    using w by (auto simp: fifo_window_def pos_defs ring_at_def)
  have valid: "customer_check_id_valid (rob_fifo ?r) ?n" using lt by (auto simp: window_check_id(2)[OF w])
  show thesis
  proof (rule that[of ?n])
    show "get_front_id ?r = Some ?n"
      using lt p(1) by (simp add: get_front_id_def customer_get_front_id_def window_flags[OF w])
    show "rob_get_item ?r ?n = Some x" using p(2) x by (simp add: rob_get_item_def customer_get_item_def)
    show "\<exists>fb'. mark_committed i ?n first ?r fb = Some fb' \<and> cf_flush fb' = cf_flush fb" for i first fb
      using valid by (simp add: mark_committed_def get_next_id_def Let_def)
  qed
qed

lemma commit_loop_ok:
  assumes "commit_inv c items p rc wc" and "\<forall>x \<in> set items. item_ok x" and "i = 0 \<and> items \<noteq> [] \<longrightarrow> store_ok (sp_store_buffer (cm_spec c)) (hd items)"
  shows "\<exists>nf fb' c' k tr. commit_loop n i first fb c = Some (nf, fb', c') \<and> k \<le> n \<and> retires items k tr nf fb c fb' c' \<and>
    (0 < n \<and> items \<noteq> [] \<and> ri_finish (hd items) \<and> \<not> ri_store_buffer_id_valid (hd items) \<longrightarrow> 0 < k \<or> nf) \<and>
    (0 < n \<and> items \<noteq> [] \<and> ri_finish (hd items) \<and> ri_has_exception (hd items) \<longrightarrow> tr = [hd items] \<and> nf)"
  using assms
proof (induction n arbitrary: i c items p rc wc fb)
  case 0
  have "commit_loop 0 i first fb c = Some (False, fb, c)" by simp
  then show ?case using retires_stay[OF "0.prems"(1), of fb] by blast
next
  case (Suc n)
  show ?case
  proof (cases items)
    case Nil
    have "get_front_id (sp_rob (cm_spec c)) = None"
      using Suc.prems(1) Nil by (simp add: get_front_id_def customer_get_front_id_def customer_is_empty_avail commit_inv_def Let_def)
    moreover from Suc.IH[OF Suc.prems(1,2), of "Suc i" fb, simplified] obtain nf fb' c' k tr where
      "commit_loop n (Suc i) first fb c = Some (nf, fb', c')" "k \<le> n" "retires items k tr nf fb c fb' c'" by blast
    ultimately show ?thesis using Nil by (intro exI[of _ nf] exI[of _ fb'] exI[of _ c'] exI[of _ k] exI[of _ tr]) simp
  next
    case (Cons x xs)
    have inv: "commit_inv c (x # xs) p rc wc" and ok: "item_ok x" using Suc.prems Cons by simp_all
    obtain m where m: "get_front_id (sp_rob (cm_spec c)) = Some m" "rob_get_item (sp_rob (cm_spec c)) m = Some x"
      "\<And>i first fb. \<exists>fb'. mark_committed i m first (sp_rob (cm_spec c)) fb = Some fb' \<and> cf_flush fb' = cf_flush fb"
      using front_item[OF inv] by metis
    show ?thesis
    proof (cases "ri_finish x")
      case False
      then have "commit_loop (Suc n) i first fb c = Some (False, fb, c)" using m(1,2) by simp
      then show ?thesis using retires_stay[OF Suc.prems(1), of fb] Cons False by force
    next
      case fin: True
      obtain fb1 where fb1: "mark_committed i m first (sp_rob (cm_spec c)) fb = Some fb1" "cf_flush fb1 = cf_flush fb" using m(3) by blast
      show ?thesis
      proof (cases "ri_has_exception x")
        case True
        obtain fb2 c2 where t: "commit_trap m x (ri_exception_value x) (ri_exception_id x) fb1 c = Some (fb2, c2)" "flushed [x] c2"
          "cm_retire_rat c2 = cm_retire_rat c" "rob_retire_queue c2 = rob_retire_queue c @ [(m, x)]" "cf_flush fb2"
          using commit_trap_flushed[OF inv] by blast
        have "commit_loop (Suc n) i first fb c = Some (True, fb2, c2)" using m(1,2) fin fb1(1) True t(1) by simp
        moreover have "retires items 0 [x] True fb c fb2 c2" using t Cons fin True by (simp add: retires_def)
        ultimately show ?thesis using Cons by force
      next
        case False
        have st: "i = 0 \<longrightarrow> store_ok (sp_store_buffer (cm_spec c)) x" using Suc.prems(3) Cons by simp
        obtain r fb2 c2 k tr where s: "commit_normal i m x fb1 c = Some (r, fb2, c2)" "k \<le> 1" "retires (x # xs) k tr (r = Inl True) fb1 c fb2 c2"
          "r = Inr () \<longrightarrow> k = 1" "k = 0 \<longrightarrow> ri_store_buffer_id_valid x \<or> r = Inl True"
          using commit_normal_ok[OF inv ok fin False st, of m fb1] by (elim exE conjE) (rule that)
        have s3: "retires items k tr (r = Inl True) fb c fb2 c2" using s(3) fb1(2) Cons by (simp add: retires_def)
        show ?thesis
        proof (cases r)
          case (Inl nf)
          then have "commit_loop (Suc n) i first fb c = Some (nf, fb2, c2)" using m(1,2) fin fb1(1) False s(1) by simp
          moreover have "retires items k tr nf fb c fb2 c2" using s3 Inl by simp
          ultimately show ?thesis
            using s(2,5) Inl Cons False by (intro exI[of _ nf] exI[of _ fb2] exI[of _ c2] exI[of _ k] exI[of _ tr]) auto
        next
          case (Inr u)
          then have k: "k = 1" and one: "retires items 1 [] False fb c fb2 c2" using s(4) s3 by (auto simp: retires_def)
          then obtain p' rc' wc' where inv': "commit_inv c2 xs p' rc' wc'" using Cons by (auto simp: retires_def commit_live_def)
          have "\<forall>x \<in> set xs. item_ok x" using Suc.prems(2) Cons by simp
          from Suc.IH[OF inv' this, of "Suc i" fb2, simplified] obtain nf fb' c' j tr' where l:
            "commit_loop n (Suc i) first fb2 c2 = Some (nf, fb', c')" "j \<le> n" "retires xs j tr' nf fb2 c2 fb' c'" by blast
          have "retires items (1 + j) tr' nf fb c fb' c'" using retires_trans[OF one, of j] l(3) Cons by simp
          moreover have "commit_loop (Suc n) i first fb c = Some (nf, fb', c')" using m(1,2) fin fb1(1) False s(1) Inr l(1) by simp
          ultimately show ?thesis using l(2) Cons False by (intro exI[of _ nf] exI[of _ fb'] exI[of _ c'] exI[of _ "1 + j"] exI[of _ tr']) simp
        qed
      qed
    qed
  qed
qed

subsection \<open>Noting the finished operations\<close>

text \<open>The fields of an entry that rename has set; the entries of executed operations keep them.\<close>

definition rob_key :: "rob_item_t \<Rightarrow> (bool \<times> nat \<times> nat \<times> u32) \<times> (nat \<times> bool) \<times> (nat \<times> bool)" where
  "rob_key x = ((ri_old_phy_reg_id_valid x, ri_old_phy_reg_id x, ri_new_phy_reg_id x, ri_rd x),
     (ri_old_phy_id_free_list_rptr x, ri_old_phy_id_free_list_rstage x),
     (ri_new_phy_id_free_list_rptr x, ri_new_phy_id_free_list_rstage x))"

lemma key_cong:
  assumes "map rob_key xs = map rob_key ys"
  shows "rob_news xs = rob_news ys \<and> rob_olds xs = rob_olds ys \<and> fold rob_apply xs m = fold rob_apply ys m \<and>
    chained m xs = chained m ys \<and> saved_ptrs p xs = saved_ptrs p ys \<and> tagged r n xs = tagged r n ys"
  using assms
proof (induction xs arbitrary: ys m p)
  case (Cons x xs)
  then obtain y zs where y: "ys = y # zs" "rob_key x = rob_key y" "map rob_key xs = map rob_key zs" by (cases ys) auto
  note ih = Cons.IH[OF y(3)]
  have e: "rob_apply x = rob_apply y" using y(2) by (auto simp: rob_key_def rob_apply_def fun_eq_iff)
  have t: "tagged r n (x # xs) = tagged r n (y # zs)" using ih y(2) unfolding tagged_def by (auto simp: rob_key_def)
  show ?case unfolding y(1) t using ih y(2) e by (auto simp: rob_key_def)
qed simp

lemma linked_key: "map rob_key xs = map rob_key ys \<Longrightarrow> linked R S F xs c rc rn wc = linked R S F ys c rc rn wc"
  unfolding linked_def using key_cong[of xs ys] by metis

lemma finish_key: "rob_key (finish_item p x) = rob_key x"
  by (simp add: finish_item_def rob_key_def Let_def)

definition keys_kept :: "rob_item_t fifo \<Rightarrow> bool" where
  "keys_kept f \<longleftrightarrow> (\<forall>d \<in> set (buffer f). rob_key (dff_get_new d) = rob_key (dff_get d))"

definition same_entries :: "rob_item_t fifo \<Rightarrow> rob_item_t fifo \<Rightarrow> bool" where
  "same_entries f g \<longleftrightarrow> fifo_inv g \<and> fsize g = fsize f \<and> keys_kept g \<and> map rob_key (fifo_next g) = map rob_key (fifo_next f)"

lemma finish_one_ok:
  assumes "fifo_inv (rob_fifo r)" and "keys_kept (rob_fifo r)" and "ec_enable p \<Longrightarrow> ec_rob_id p < fsize (rob_fifo r)"
  shows "\<exists>r'. finish_one p r = Some r' \<and> same_entries (rob_fifo r) (rob_fifo r')"
proof (cases "ec_enable p")
  case False
  then show ?thesis using assms by (simp add: finish_one_def same_entries_def)
next
  case True
  let ?f = "rob_fifo r" and ?i = "ec_rob_id p"
  obtain rc rn wc wn where w: "fifo_window ?f rc rn wc wn" using assms(1) by (rule fifo_windowE)
  have i: "?i < length (buffer ?f)" using w assms(3) True by (simp add: fifo_window_def)
  let ?v = "finish_item p (dff_get (buffer ?f ! ?i))"
  let ?g = "fifo_write_slot ?i ?v ?f"
  have v: "rob_key ?v = rob_key (dff_get_new (buffer ?f ! ?i))" using assms(2) i by (simp add: finish_key keys_kept_def)
  have step: "finish_one p r = Some (r\<lparr>rob_fifo := ?g\<rparr>)"
    using True i by (simp add: finish_one_def rob_get_item_def customer_get_item_def fifo_set_item_def)
  note w' = window_write_slot[OF w, of ?i ?v]
  have "map rob_key (fifo_next ?g) = map rob_key (fifo_next ?f)"
    unfolding window_lists(3)[OF w] window_lists(3)[OF w'] using i v by (auto simp: nth_list_update)
  moreover have "keys_kept ?g"
    using assms(2) i unfolding keys_kept_def by (auto simp: fifo_write_slot_def finish_key dest!: set_update_subset_insert[THEN subsetD])
  ultimately show ?thesis using step window_inv[OF w'] by (simp add: same_entries_def)
qed

lemma finish_all_ok:
  assumes "fifo_inv (rob_fifo r)" and "keys_kept (rob_fifo r)" and "\<forall>p \<in> set ps. ec_enable p \<longrightarrow> ec_rob_id p < fsize (rob_fifo r)"
  shows "\<exists>r'. finish_all ps r = Some r' \<and> same_entries (rob_fifo r) (rob_fifo r')"
  using assms
proof (induction ps arbitrary: r)
  case (Cons p ps)
  obtain r1 where r1: "finish_one p r = Some r1" "same_entries (rob_fifo r) (rob_fifo r1)" using finish_one_ok[of r p] Cons.prems by auto
  then have "\<exists>r'. finish_all ps r1 = Some r' \<and> same_entries (rob_fifo r1) (rob_fifo r')"
    using Cons.IH[of r1] Cons.prems(3) by (simp add: same_entries_def)
  then show ?case using r1 by (auto simp: same_entries_def)
qed (simp add: same_entries_def)

subsection \<open>A cycle of the stage\<close>

text \<open>A state between two cycles in which the register maps, the free list and the reorder buffer belong together.\<close>

abbreviation rob_items :: "spec_state \<Rightarrow> rob_item_t list" where
  "rob_items s \<equiv> fifo_next (rob_fifo (sp_rob s))"

definition speculation_ok :: "rat \<Rightarrow> spec_state \<Rightarrow> bool" where
  "speculation_ok R s \<longleftrightarrow>
     (\<exists>p rc wc. linked R (sp_rat s) (sp_free s) (rob_items s) p rc rc wc) \<and>
     fifo_inv (rob_fifo (sp_rob s)) \<and> fsize (rob_fifo (sp_rob s)) = ROB_SIZE"

text \<open>The same within a cycle, in which some have retired and some have been renamed.\<close>

definition spec_linked :: "rat \<Rightarrow> spec_state \<Rightarrow> bool" where
  "spec_linked R s \<longleftrightarrow>
     (\<exists>p rc rn wc. linked R (sp_rat s) (sp_free s) (rob_items s) p rc rn wc) \<and>
     fifo_inv (rob_fifo (sp_rob s)) \<and> fsize (rob_fifo (sp_rob s)) = ROB_SIZE"

lemma spec_linked_sync:
  assumes "spec_linked R s"
  shows "speculation_ok (rat_sync R) (spec_sync s)" and "rob_items (spec_sync s) = rob_items s"
proof -
  obtain p rc rn wc where i: "linked R (sp_rat s) (sp_free s) (rob_items s) p rc rn wc" "fifo_inv (rob_fifo (sp_rob s))"
    "fsize (rob_fifo (sp_rob s)) = ROB_SIZE" using assms unfolding spec_linked_def by blast
  note f = fifo_sync_abs[OF i(2)]
  show r: "rob_items (spec_sync s) = rob_items s" using f(5) by (simp add: spec_sync_def rob_sync_def)
  show "speculation_ok (rat_sync R) (spec_sync s)"
    unfolding speculation_ok_def r using linked_sync[OF i(1)] f(1,2) i(3) by (auto simp: spec_sync_def rob_sync_def)
qed

definition commit_ready :: "commit \<Rightarrow> bool" where
  "commit_ready c \<longleftrightarrow>
     (let s = cm_spec c; f = rob_fifo (sp_rob s) in
      speculation_ok (cm_retire_rat c) s \<and> fifo_avail (fl_fifo (sp_free s)) = free_regs (sp_free s) \<and> fifo_avail f = fifo_next f \<and> map dff_sync (buffer f) = buffer f \<and>
      phy_regfile_shape (sp_regfile s) \<and> rf_size (sp_regfile s) = PHY_REG_NUM \<and>
      length (lq_item_conflict (sp_load_queue s)) = LOAD_QUEUE_SIZE \<and> length (lq_replay_num (sp_load_queue s)) = LOAD_QUEUE_SIZE \<and>
      fifo_inv (cm_fifo c) \<and> traps_ok (cm_csr c) \<and> list_all item_ok (rob_items s) \<and>
      (rob_items s \<noteq> [] \<longrightarrow> store_ok (sp_store_buffer s) (hd (rob_items s))) \<and>
      list_all (\<lambda>p. ec_enable p \<longrightarrow> ec_rob_id p < ROB_SIZE) (map port_get (cm_port c)))"

lemma commit_interrupt_ok:
  assumes "traps_ok (cm_csr c)"
  shows "\<exists>nf fb' c'. commit_interrupt fb c = Some (nf, fb', c') \<and> cm_retire_rat c' = cm_retire_rat c \<and>
    rob_retire_queue c' = rob_retire_queue c \<and> cm_port c' = cm_port c \<and> cm_fifo c' = cm_fifo c \<and> traps_ok (cm_csr c') \<and>
    (\<exists>r. cm_spec c' = (cm_spec c)\<lparr>sp_rob := r\<rparr> \<and> rob_fifo r = rob_fifo (sp_rob (cm_spec c))) \<and>
    (if nf then customer_is_empty (rob_fifo (sp_rob (cm_spec c))) \<and> cf_flush fb' else cf_flush fb' = cf_flush fb)"
proof -
  let ?idle = "\<exists>r. cm_spec c = (cm_spec c)\<lparr>sp_rob := r\<rparr> \<and> rob_fifo r = rob_fifo (sp_rob (cm_spec c))"
  have idle: ?idle by (rule exI[of _ "sp_rob (cm_spec c)"]) simp
  obtain cause where cause: "cinterrupt_get_cause (cm_interrupt c) (cm_csr c) = Some cause"
  proof -
    obtain a b where "ccsrfile_read_sys CSR_MIE (cm_csr c) = Some a" "ccsrfile_read_sys CSR_MSTATUS (cm_csr c) = Some b"
      using read_sys_ok[OF assms, of CSR_MIE] read_sys_ok[OF assms, of CSR_MSTATUS] by blast
    then show thesis using that by (simp add: cinterrupt_get_cause_def)
  qed
  show ?thesis
  proof (cases cause)
    case None
    then have "commit_interrupt fb c = Some (False, fb, c)" using cause by (simp add: commit_interrupt_def)
    then show ?thesis using assms idle by (intro exI[of _ False] exI[of _ fb] exI[of _ c]) simp
  next
    case (Some id)
    show ?thesis
    proof (cases "customer_is_empty (rob_fifo (sp_rob (cm_spec c))) \<and> \<not> customer_is_empty (cm_fifo c)")
      case False
      then have "commit_interrupt fb c = Some (False, fb\<lparr>cf_waiting_for_interrupt := True\<rparr>, c)"
        using cause Some by (auto simp: commit_interrupt_def)
      then show ?thesis
        using assms idle by (intro exI[of _ False] exI[of _ "fb\<lparr>cf_waiting_for_interrupt := True\<rparr>"] exI[of _ c]) simp
    next
      case True
      obtain t where t: "customer_get_front (cm_fifo c) = Some t" using True by (simp add: customer_get_front_def)
      obtain ci where ci: "cinterrupt_set_ack id (cm_interrupt c) = Some ci"
        using cause Some by (auto simp: cinterrupt_get_cause_def split: Option.bind_splits if_splits)
      obtain f1 where f1: "write_trap (d_pc t) 0 (0x80000000 OR interrupt_code id) (cm_csr c) = Some f1" "traps_ok f1"
        using write_trap_ok[OF assms] by blast
      obtain v where v: "ccsrfile_read_sys CSR_MSTATUS f1 = Some v" using read_sys_ok[OF f1(2), of CSR_MSTATUS] by blast
      obtain f2 where f2: "ccsrfile_write_sys CSR_MSTATUS (mstatus_set_mie False (mstatus_set_mpie (mstatus_get_mie v) v)) f1 = Some f2" "traps_ok f2"
        using write_sys_ok[OF f1(2), of CSR_MSTATUS] by blast
      obtain tv where tv: "ccsrfile_read_sys CSR_MTVEC f2 = Some tv" using read_sys_ok[OF f2(2), of CSR_MTVEC] by blast
      have "commit_interrupt fb c = Some (True, fb\<lparr>cf_has_exception := True, cf_exception_pc := tv, cf_flush := True\<rparr>,
          on_rob (rob_set_committed True) (c\<lparr>cm_csr := f2, cm_interrupt := ci\<rparr>))"
        using cause Some True t ci f1(1) v f2(1) tv by (simp add: commit_interrupt_def)
      then show ?thesis using f2(2) True
        by (simp add: on_rob_def on_spec_def exI[of _ "rob_set_committed True (sp_rob (cm_spec c))"] rob_set_committed_def) blast
    qed
  qed
qed

lemma squash_port: "commit_squash rp rst c = Some c' \<Longrightarrow> cm_port c' = cm_port c \<and> cm_fifo c' = cm_fifo c"
  by (auto simp: commit_squash_def Let_def split: Option.bind_splits)

lemma trap_port: "commit_trap i x v ex fb c = Some (fb', c') \<Longrightarrow> cm_port c' = cm_port c \<and> cm_fifo c' = cm_fifo c"
  by (auto simp: commit_trap_def count_commit_def on_rob_def on_spec_def dest!: squash_port split: Option.bind_splits)

lemma load_port: "commit_load x fb c = Some (r, fb', c') \<Longrightarrow> cm_port c' = cm_port c \<and> cm_fifo c' = cm_fifo c"
  by (auto simp: commit_load_def on_spec_def on_counters_def Let_def dest!: squash_port split: Option.bind_splits if_splits)

lemma store_port: "commit_store i x fb c = Some (r, fb', c') \<Longrightarrow> cm_port c' = cm_port c \<and> cm_fifo c' = cm_fifo c"
  by (auto simp: commit_store_def pop_store_def on_spec_def Let_def dest!: trap_port
      split: Option.bind_splits if_splits option.splits prod.splits)

lemma retire_port: "commit_retire i x c = Some c' \<Longrightarrow> cm_port c' = cm_port c \<and> cm_fifo c' = cm_fifo c"
  by (auto simp: commit_retire_def retire_dest_def count_commit_def on_rob_def on_spec_def Let_def split: Option.bind_splits if_splits)

lemma count_port [simp]:
  "cm_port (count_branch x g c) = cm_port c" "cm_port (commit_update h x c) = cm_port c"
  "cm_fifo (count_branch x g c) = cm_fifo c" "cm_fifo (commit_update h x c) = cm_fifo c"
  by (simp_all add: count_branch_def on_counters_def commit_update_def)

lemma predicted_port: "commit_predicted x fb c = Some (nf, fb', c') \<Longrightarrow> cm_port c' = cm_port c \<and> cm_fifo c' = cm_fifo c"
  by (auto simp: commit_predicted_def on_spec_def Let_def dest!: squash_port split: Option.bind_splits if_splits)

lemma branch_port: "commit_branch x fb c = Some (r, fb', c') \<Longrightarrow> cm_port c' = cm_port c \<and> cm_fifo c' = cm_fifo c"
  by (auto simp: commit_branch_def Let_def dest!: predicted_port split: Option.bind_splits if_splits)

lemma normal_port: "commit_normal i n x fb c = Some (r, fb', c') \<Longrightarrow> cm_port c' = cm_port c \<and> cm_fifo c' = cm_fifo c"
  by (auto simp: commit_normal_def dest!: load_port store_port retire_port branch_port split: Option.bind_splits if_splits sum.splits)

lemma loop_port: "commit_loop n i first fb c = Some (nf, fb', c') \<Longrightarrow> cm_port c' = cm_port c \<and> cm_fifo c' = cm_fifo c"
  by (induction n arbitrary: i fb c) (auto dest!: trap_port normal_port split: option.splits Option.bind_splits if_splits sum.splits)

lemma live_ok: "commit_live c items \<Longrightarrow> spec_linked (cm_retire_rat c) (cm_spec c) \<and> rob_items (cm_spec c) = items"
  unfolding commit_live_def commit_inv_def spec_linked_def Let_def by (elim exE conjE) (simp, blast)

lemma finish_live:
  assumes "commit_live c items" and "\<forall>p \<in> set ps. ec_enable p \<longrightarrow> ec_rob_id p < ROB_SIZE"
  shows "\<exists>r. finish_all ps (sp_rob (cm_spec c)) = Some r \<and>
    spec_linked (cm_retire_rat c) (cm_spec (on_rob (\<lambda>_. r) c)) \<and>
    map rob_key (rob_items (cm_spec (on_rob (\<lambda>_. r) c))) = map rob_key items"
proof -
  let ?s = "cm_spec c"
  obtain p rc wc where i: "linked (cm_retire_rat c) (sp_rat ?s) (sp_free ?s) items p rc rc wc" "fifo_inv (rob_fifo (sp_rob ?s))"
    "fsize (rob_fifo (sp_rob ?s)) = ROB_SIZE" "fifo_next (rob_fifo (sp_rob ?s)) = items"
    "map dff_sync (buffer (rob_fifo (sp_rob ?s))) = buffer (rob_fifo (sp_rob ?s))"
    using assms(1) unfolding commit_live_def commit_inv_def Let_def by blast
  have "keys_kept (rob_fifo (sp_rob ?s))"
    unfolding keys_kept_def by (subst i(5)[symmetric]) auto
  then obtain r where r: "finish_all ps (sp_rob ?s) = Some r" "same_entries (rob_fifo (sp_rob ?s)) (rob_fifo r)"
    using finish_all_ok[of "sp_rob ?s" ps] i(2,3) assms(2) by auto
  have k: "map rob_key (fifo_next (rob_fifo r)) = map rob_key items" "fifo_inv (rob_fifo r)" "fsize (rob_fifo r) = ROB_SIZE"
    using r(2) i(3,4) by (simp_all add: same_entries_def)
  have "spec_linked (cm_retire_rat c) (?s\<lparr>sp_rob := r\<rparr>)"
    unfolding spec_linked_def using i(1) k(2,3) linked_key[OF k(1)] by (simp, blast)
  then show ?thesis using r(1) k(1) by (simp add: on_rob_def on_spec_def)
qed

lemma flushed_ok:
  "flushed tr c \<Longrightarrow> rob_items (spec_sync (cm_spec c)) = [] \<and>
     (case filter ri_old_phy_reg_id_valid tr of
        [] \<Rightarrow> speculation_ok (rat_sync (cm_retire_rat c)) (spec_sync (cm_spec c))
      | x # _ \<Rightarrow> register_lost (rat_sync (cm_retire_rat c)) (spec_sync (cm_spec c)) (ri_new_phy_reg_id x))"
  by (auto simp: flushed_def squashed_commit_def speculation_ok_def register_lost_def Let_def split: list.splits)

text \<open>
  What a cycle of the stage does to the entries \<open>items\<close>: \<open>k\<close> of them retire, \<open>tr\<close> is the one that traps. A flush leaves the
  register state linked, with nothing in flight, unless the entry that traps has a destination: then its register is lost.
\<close>

definition commit_outcome ::
    "rob_item_t list \<Rightarrow> nat \<Rightarrow> rob_item_t list \<Rightarrow> commit \<Rightarrow> commit_feedback_pack_t \<Rightarrow> commit \<Rightarrow> bool" where
  "commit_outcome items k tr c fb c' \<longleftrightarrow>
     k \<le> COMMIT_WIDTH \<and> k \<le> length items \<and> list_all (\<lambda>x. ri_finish x \<and> \<not> ri_has_exception x) (take k items) \<and>
     (tr = [] \<or> tr = take 1 (drop k items)) \<and> list_all (\<lambda>x. ri_finish x \<and> (ri_has_exception x \<or> ri_store_buffer_id_valid x)) tr \<and>
     map snd (rob_retire_queue c') = map snd (rob_retire_queue c) @ take k items @ tr \<and>
     rat_abs (cm_retire_rat c') = fold rob_apply (take k items) (rat_abs (cm_retire_rat c)) \<and>
     (if cf_flush fb
      then rob_items (spec_sync (cm_spec c')) = [] \<and>
        (case filter ri_old_phy_reg_id_valid tr of
           [] \<Rightarrow> speculation_ok (rat_sync (cm_retire_rat c')) (spec_sync (cm_spec c'))
         | x # _ \<Rightarrow> register_lost (rat_sync (cm_retire_rat c')) (spec_sync (cm_spec c')) (ri_new_phy_reg_id x))
      else tr = [] \<and> spec_linked (cm_retire_rat c') (cm_spec c') \<and> map rob_key (rob_items (cm_spec c')) = map rob_key (drop k items) \<and>
        slack c' \<le> COMMIT_WIDTH) \<and>
     (items \<noteq> [] \<and> ri_finish (hd items) \<and> \<not> ri_store_buffer_id_valid (hd items) \<longrightarrow> 0 < k \<or> cf_flush fb) \<and>
     (items \<noteq> [] \<and> ri_finish (hd items) \<and> ri_has_exception (hd items) \<longrightarrow> tr = [hd items] \<and> cf_flush fb)"

lemma commit_run_ok:
  assumes "commit_ready c"
  shows "\<exists>k tr fb c'. commit_run c = Some (fb, c') \<and> commit_outcome (rob_items (cm_spec c)) k tr c fb c' \<and> cm_fifo c' = cm_fifo c"
proof -
  let ?s = "cm_spec c" and ?fb = "commit_feedback_pack_make\<lparr>cf_idle := True\<rparr>"
  let ?items = "rob_items ?s"
  note r = assms[unfolded commit_ready_def Let_def speculation_ok_def]
  obtain p rc wc where l: "linked (cm_retire_rat c) (sp_rat ?s) (sp_free ?s) ?items p rc rc wc" using r by blast
  have t: "traps_ok (cm_csr c)" using r by blast
  obtain nf0 fb0 c0 b where i: "commit_interrupt ?fb c = Some (nf0, fb0, c0)" "cm_retire_rat c0 = cm_retire_rat c"
    "rob_retire_queue c0 = rob_retire_queue c" "cm_port c0 = cm_port c" "cm_fifo c0 = cm_fifo c" "traps_ok (cm_csr c0)"
    "cm_spec c0 = ?s\<lparr>sp_rob := b\<rparr>" "rob_fifo b = rob_fifo (sp_rob ?s)"
    "if nf0 then customer_is_empty (rob_fifo (sp_rob ?s)) \<and> cf_flush fb0 else cf_flush fb0 = cf_flush ?fb"
    using commit_interrupt_ok[OF t, of ?fb] by (elim exE conjE) (rule that)
  have inv: "commit_inv c0 ?items p rc wc" using l r i(2,6,7,8) by (simp add: commit_inv_def Let_def)
  have sl: "slack c0 = 0" using r i(7) by (simp add: slack_def)
  have ce: "customer_is_empty (rob_fifo (sp_rob ?s)) \<longleftrightarrow> ?items = []" using r customer_is_empty_avail by metis
  have ce0: "customer_is_empty (rob_fifo (sp_rob (cm_spec c0))) \<longleftrightarrow> ?items = []" using i(7,8) ce by simp
  show ?thesis
  proof (cases "?items = []")
    case True
    have run: "commit_run c = Some (fb0, c0)" using i(1) ce0 True by (simp add: commit_run_def)
    have "commit_live c0 []" using inv True unfolding commit_live_def by metis
    then have lv: "spec_linked (cm_retire_rat c0) (cm_spec c0)" "rob_items (cm_spec c0) = []" using live_ok by blast+
    show ?thesis
      by (intro exI[of _ 0] exI[of _ "[]"] exI[of _ fb0] exI[of _ c0])
        (use run lv spec_linked_sync[OF lv(1)] i(2-5) True sl in \<open>simp add: commit_outcome_def\<close>)
  next
    case False
    then have nf0: "\<not> nf0" "\<not> cf_flush fb0" using i(9) ce by (auto simp: commit_feedback_pack_make_def split: if_splits)
    obtain n where n: "get_front_id (sp_rob (cm_spec c0)) = Some n"
      using ce0 False by (simp add: get_front_id_def customer_get_front_id_def)
    let ?fb1 = "fb0\<lparr>cf_idle := False, cf_next_handle_rob_id := n, cf_next_handle_rob_id_valid := True\<rparr>"
    have ok: "\<forall>x \<in> set ?items. item_ok x" using r by (simp add: list_all_iff)
    have st: "(0::nat) = 0 \<and> ?items \<noteq> [] \<longrightarrow> store_ok (sp_store_buffer (cm_spec c0)) (hd ?items)" using r False i(7) by simp
    obtain nf fb2 c1 k tr where lp: "commit_loop COMMIT_WIDTH 0 n ?fb1 c0 = Some (nf, fb2, c1)" "k \<le> COMMIT_WIDTH"
      "retires ?items k tr nf ?fb1 c0 fb2 c1"
      "0 < COMMIT_WIDTH \<and> ?items \<noteq> [] \<and> ri_finish (hd ?items) \<and> \<not> ri_store_buffer_id_valid (hd ?items) \<longrightarrow> 0 < k \<or> nf"
      "0 < COMMIT_WIDTH \<and> ?items \<noteq> [] \<and> ri_finish (hd ?items) \<and> ri_has_exception (hd ?items) \<longrightarrow> tr = [hd ?items] \<and> nf"
      using commit_loop_ok[OF inv ok st, of COMMIT_WIDTH n ?fb1] by (elim exE conjE) (rule that)
    have run: "commit_run c = (if nf then Some (fb2, c1)
        else do { r \<leftarrow> finish_all (map port_get (cm_port c1)) (sp_rob (cm_spec c1)); Some (fb2, on_rob (\<lambda>_. r) c1) })"
      using i(1) ce0 False n lp(1) nf0 by (simp add: commit_run_def Let_def)
    have w: "0 < COMMIT_WIDTH" by (simp add: config_defs)
    show ?thesis
    proof (cases nf)
      case True
      then show ?thesis
        using w run lp flushed_ok[of tr c1] i(2-5) loop_port[OF lp(1)]
        by (intro exI[of _ k] exI[of _ tr] exI[of _ fb2] exI[of _ c1]) (simp add: commit_outcome_def retires_def)
    next
      case nf: False
      then have lv: "commit_live c1 (drop k ?items)" "slack c1 \<le> COMMIT_WIDTH" and tr: "tr = []" "\<not> cf_flush fb2"
        using lp(2,3) nf0 sl by (auto simp: retires_def)
      have "\<forall>p \<in> set (map port_get (cm_port c1)). ec_enable p \<longrightarrow> ec_rob_id p < ROB_SIZE"
        using r i(4) loop_port[OF lp(1)] by (simp add: list_all_iff)
      from finish_live[OF lv(1) this] obtain q where q: "finish_all (map port_get (cm_port c1)) (sp_rob (cm_spec c1)) = Some q"
        "spec_linked (cm_retire_rat c1) (cm_spec (on_rob (\<lambda>_. q) c1))"
        "map rob_key (rob_items (cm_spec (on_rob (\<lambda>_. q) c1))) = map rob_key (drop k ?items)" by blast
      have same: "cm_retire_rat (on_rob (\<lambda>_. q) c1) = cm_retire_rat c1" "rob_retire_queue (on_rob (\<lambda>_. q) c1) = rob_retire_queue c1"
        "slack (on_rob (\<lambda>_. q) c1) = slack c1" "cm_fifo (on_rob (\<lambda>_. q) c1) = cm_fifo c1"
        by (simp_all add: on_rob_def on_spec_def slack_def)
      have "commit_run c = Some (fb2, on_rob (\<lambda>_. q) c1)" using run nf q(1) by simp
      then show ?thesis
        using w lp tr q i(2-5) nf lv(2) loop_port[OF lp(1)]
        by (intro exI[of _ k] exI[of _ tr] exI[of _ fb2] exI[of _ "on_rob (\<lambda>_. q) c1"]) (simp add: commit_outcome_def retires_def same)
    qed
  qed
qed

end
