(* ===== verification/Reg_Lifecycle.thy ===== *)
theory Reg_Lifecycle
  imports Commit_Laws
begin

text \<open>
  The life of a physical register over cycles of the machine: rename takes it from the free list and enters it into the
  reorder buffer, commit moves it into the retired map or frees it. Both stages keep the link of
  \<open>Speculation\<close>, and so does the cycle in which commit, and after it rename, work on the same components, but for
  the trap of an operation that has a destination: it loses the register taken for it.
\<close>

subsection \<open>Rename keeps the link\<close>

definition rename_linked :: "rat \<Rightarrow> rename \<Rightarrow> bool" where
  "rename_linked R s \<longleftrightarrow>
     (\<exists>p rc rn wc. linked R (ren_rat s) (ren_free s) (fifo_next (rob_fifo (ren_rob s))) p rc rn wc) \<and>
     fifo_inv (rob_fifo (ren_rob s)) \<and> fsize (rob_fifo (ren_rob s)) = ROB_SIZE"

lemma saved_ptrs_append: "saved_ptrs c (xs @ ys) \<longleftrightarrow> saved_ptrs c xs \<and> saved_ptrs (c + length (rob_news xs)) ys"
  by (induction xs arbitrary: c) (auto simp: Let_def)

lemma lsq_keeps:
  "rename_lsq p info item s = Some (info', item', s') \<Longrightarrow>
   rob_key item' = rob_key item \<and> ren_rat s' = ren_rat s \<and> ren_free s' = ren_free s \<and> ren_rob s' = ren_rob s"
  by (auto simp: rename_lsq_def rename_load_def rename_store_def rob_key_def Let_def
      split: if_splits Option.bind_splits prod.splits)

lemma checkpoint_keeps:
  "rename_checkpoint p info item s0 s = Some (info', s') \<Longrightarrow>
   ren_rat s' = ren_rat s \<and> ren_free s' = ren_free s \<and> ren_rob s' = ren_rob s"
  by (auto simp: rename_checkpoint_def Let_def split: if_splits Option.bind_splits prod.splits)

lemma linked_extend:
  assumes "linked R S F items c rc rn wc" and "\<not> ri_old_phy_reg_id_valid x"
    and "(ri_old_phy_id_free_list_rptr x, ri_old_phy_id_free_list_rstage x) = ring_at PHY_REG_NUM rn"
    and "(ri_new_phy_id_free_list_rptr x, ri_new_phy_id_free_list_rstage x) = ring_at PHY_REG_NUM rn"
  shows "linked R S F (items @ [x]) c rc rn wc"
  using assms by (auto simp: linked_def chained_append saved_ptrs_append tagged_def rob_apply_def Let_def)

lemma linked_save:
  assumes "linked R S F items c rc rn wc"
  shows "free_list_save F = ring_at PHY_REG_NUM rn"
proof -
  have "fifo_log (fl_fifo F) c (rob_news items @ free_regs F) rc rn wc" "fsize (fl_fifo F) = PHY_REG_NUM"
    using assms unfolding linked_def by blast+
  then show ?thesis by (auto simp: free_list_save_def fifo_log_def fifo_window_def pos_defs)
qed

lemma linked_allocate:
  assumes "linked R S F items c rc rn wc" and "free_list_pop F = Some (Some d, F')" and "set_map a d S = Some (old', S')"
    and "rat_abs S a = Some old"
    and x: "ri_old_phy_reg_id_valid x" "ri_old_phy_reg_id x = old" "ri_new_phy_reg_id x = d" "unat (ri_rd x) = a"
      "(ri_old_phy_id_free_list_rptr x, ri_old_phy_id_free_list_rstage x) = free_list_save F"
      "(ri_new_phy_id_free_list_rptr x, ri_new_phy_id_free_list_rstage x) = free_list_save F'"
  shows "linked R S' F' (items @ [x]) c rc (Suc rn) wc"
proof -
  note l = assms(1)[unfolded linked_def] and r = linked_retired_map[OF assms(1)]
  have t: "rat_total R" "rat_total S" and S: "rat_inv S" "phy_reg_num S = PHY_REG_NUM" "arch_reg_num S = ARCH_REG_NUM" "dom (rat_abs S) = {0<..<ARCH_REG_NUM}"
    and e: "rat_abs S = fold rob_apply items (rat_abs R)" and tag: "tagged S (rat_abs R) items" and part: "regs_partition (rat_abs S) (free_regs F) (rob_olds items)"
    and log: "fifo_log (fl_fifo F) c (rob_news items @ free_regs F) rc rn wc" "rn = c + length (rob_news items)" "saved_ptrs c items"
    and F: "free_list_inv F" "fsize (fl_fifo F) = PHY_REG_NUM" and ch: "chained (rat_abs R) items"
    using l unfolding rat_total_def by blast+
  obtain F1 y where p: "free_list_pop F = Some (y, F1)" "free_list_inv F1" "free_regs F = (case y of None \<Rightarrow> [] | Some d \<Rightarrow> [d]) @ free_regs F1"
    "fifo_pop (fl_fifo F) = (y, fl_fifo F1)" using free_list_pop_abs[OF F(1)] by blast
  then have p: "free_list_inv F'" "free_regs F = d # free_regs F'" "fifo_pop (fl_fifo F) = (Some d, fl_fifo F')" using assms(2) by auto
  have s: "rat_inv S'" "rat_abs S' = (rat_abs S)(a \<mapsto> d)" "remapped a d S S'" using set_map_success[OF S(1) assms(3)] by simp_all
  have S': "rat_total S'" using s S assms(4) by (auto simp: rat_total_def remapped_def)
  have app: "rob_apply x m = m(a \<mapsto> d)" for m using x by (simp add: rob_apply_def)
  have dn: "d \<notin> ran (rat_abs R)" "d \<notin> set (rob_news items)" "d < PHY_REG_NUM" using r p(2) by (auto simp: regs_partition_def)
  have arch: "arch_of S' i = (if i = d then a else arch_of S i)" if "i < PHY_REG_NUM" for i using s(3) S(2) that by (simp add: remapped_def)
  have tag': "tagged S' (rat_abs R) (items @ [x])"
  proof -
    have "arch_of S' q = b" if "rat_abs R b = Some q" for b q
    proof -
      have "q \<in> ran (rat_abs R)" using that by (rule ranI)
      then show ?thesis using that tag dn(1) arch[of q] linked_bound[OF assms(1)] by (auto simp: tagged_def)
    qed
    moreover have "arch_of S' (ri_new_phy_reg_id z) = unat (ri_rd z)" if "z \<in> set items" "ri_old_phy_reg_id_valid z" for z
    proof -
      have "ri_new_phy_reg_id z \<in> set (rob_news items)" using that by (auto simp: rob_news_def)
      then show ?thesis using that tag dn(2) arch linked_bound[OF assms(1)] by (auto simp: tagged_def)
    qed
    ultimately show ?thesis using x(3,4) arch[OF dn(3)] by (auto simp: tagged_def)
  qed
  have part': "regs_partition (rat_abs S') (free_regs F') (rob_olds (items @ [x]))"
    using partition_allocate[OF part[unfolded p(2)] assms(4) ran_upd[OF total_inj[OF t(2)] assms(4)]] s(2) x by simp
  have log': "fifo_log (fl_fifo F') c (rob_news (items @ [x]) @ free_regs F') rc (Suc rn) wc"
    using log_pop[OF log(1) p(3)] p(2) x by simp
  have sz: "fsize (fl_fifo F') = PHY_REG_NUM"
    using p(3) F fifo_pop_abs(3)[of "fl_fifo F"] by (auto simp: free_list_inv_def fifo_settled_def)
  have "free_list_save F' = ring_at PHY_REG_NUM (Suc rn)"
    using log' sz by (auto simp: free_list_save_def fifo_log_def fifo_window_def pos_defs)
  then have ptr: "saved_ptrs c (items @ [x])"
    using log(2,3) x linked_save[OF assms(1)] by (simp add: saved_ptrs_append Let_def)
  have "chained (rat_abs R) (items @ [x])" using ch assms(4) e x by (simp add: chained_append)
  moreover have "rat_abs S' = fold rob_apply (items @ [x]) (rat_abs R)" using s(2) e app by simp
  ultimately show ?thesis using t(1) S' tag' part' log' sz p(1) ptr log(2) x unfolding linked_def by simp
qed

lemma rename_one_linked:
  assumes "rename_linked R s" and "rename_one p s = Some (info, s')" and "d_enable p"
    and "d_need_rename p \<Longrightarrow> 0 < unat (d_rd p) \<and> unat (d_rd p) < ARCH_REG_NUM"
  shows "rename_linked R s'"
proof -
  obtain c rc rn wc where l: "linked R (ren_rat s) (ren_free s) (fifo_next (rob_fifo (ren_rob s))) c rc rn wc"
    and rob: "fifo_inv (rob_fifo (ren_rob s))" "fsize (rob_fifo (ren_rob s)) = ROB_SIZE"
    using assms(1) unfolding rename_linked_def by blast
  obtain v old d S F info1 info2 item s2 b i0 s0 where e: "rename_dest p (ren_rat s) (ren_free s) = Some (v, old, d, S, F)"
    "rename_lsq p info1 (rename_rob_item p v old d (free_list_save (ren_free s)) (free_list_save F)) (s\<lparr>ren_rat := S, ren_free := F\<rparr>) = Some (info2, item, s2)"
    "rob_push item (ren_rob s2) = (True, b)" "rename_checkpoint p info2 item s0 (s2\<lparr>ren_rob := b\<rparr>) = Some (info, s')"
    using assms(2,3) by (auto simp: rename_one_def Let_def split: Option.bind_splits prod.splits if_splits)
  let ?x = "rename_rob_item p v old d (free_list_save (ren_free s)) (free_list_save F)"
  let ?items = "fifo_next (rob_fifo (ren_rob s))"
  have k: "rob_key item = rob_key ?x" "ren_rat s2 = S" "ren_free s2 = F" "ren_rob s2 = ren_rob s" using lsq_keeps[OF e(2)] by simp_all
  have s': "ren_rat s' = S" "ren_free s' = F" "ren_rob s' = b" using checkpoint_keeps[OF e(4)] k by simp_all
  have x: "ri_old_phy_reg_id_valid ?x = v" "ri_old_phy_reg_id ?x = old" "ri_new_phy_reg_id ?x = d" "ri_rd ?x = d_rd p"
    "(ri_old_phy_id_free_list_rptr ?x, ri_old_phy_id_free_list_rstage ?x) = free_list_save (ren_free s)"
    "(ri_new_phy_id_free_list_rptr ?x, ri_new_phy_id_free_list_rstage ?x) = free_list_save F"
    by (simp_all add: rename_rob_item_def)
  have link: "\<exists>rn'. linked R S F (?items @ [?x]) c rc rn' wc"
  proof (cases "d_valid p \<and> d_need_rename p")
    case False
    then have "\<not> v" "S = ren_rat s" "F = ren_free s" using e(1) by (auto simp: rename_dest_def split: if_splits)
    then show ?thesis using linked_extend[OF l, of ?x] x linked_save[OF l] by auto
  next
    case True
    have rd: "0 < unat (d_rd p)" "unat (d_rd p) < ARCH_REG_NUM" using assms(4) True by simp_all
    have t: "rat_total (ren_rat s)" using l unfolding linked_def by blast
    then obtain q where q: "rat_abs (ren_rat s) (unat (d_rd p)) = Some q" using rd unfolding rat_total_def by (metis domD greaterThanLessThan_iff)
    have look: "rename_lookup (ren_rat s) (d_rd p) = Some q" using rename_lookup_abs[of "ren_rat s" "d_rd p" q] t rd q by (simp add: rat_total_def)
    obtain old' where "v" "old = q" "free_list_pop (ren_free s) = Some (Some d, F)" "set_map (unat (d_rd p)) d (ren_rat s) = Some (old', S)"
      using e(1) True look by (auto simp: rename_dest_def split: Option.bind_splits prod.splits)
    then show ?thesis using linked_allocate[OF l _ _ q, of d F old' S ?x] x by auto
  qed
  have push: "fifo_push item (rob_fifo (ren_rob s)) = (True, rob_fifo b)" using e(3) k(4) by (auto simp: rob_push_def split: prod.splits)
  note f = fifo_push_abs[OF rob(1) push]
  have "map rob_key (fifo_next (rob_fifo b)) = map rob_key (?items @ [?x])" using f(6) k(1) by simp
  from linked_key[OF this] link show ?thesis using f(2,3) rob(2) s' unfolding rename_linked_def by (simp, blast)
qed

lemma rename_one_queue: "rename_one p s = Some (info, s') \<Longrightarrow> ren_fifo s' = ren_fifo s"
  by (auto simp: rename_one_def rename_lsq_def rename_checkpoint_def Let_def split: if_splits Option.bind_splits prod.splits)

lemma rename_loop_linked:
  assumes "rename_linked R s" and "rename_loop n i ready fence s = Some (infos, s')" and "fifo_settled (ren_fifo s)"
    and "list_all uop_ok (fifo_next (ren_fifo s))"
  shows "rename_linked R s'"
  using assms
proof (induction n arbitrary: i ready fence s infos)
  case (Suc n)
  show ?case
  proof (cases "\<not> customer_is_empty (ren_fifo s) \<and> \<not> producer_is_empty (fl_fifo (ren_free s)) \<and> \<not> producer_is_full (rob_fifo (ren_rob s))")
    case False
    then show ?thesis using Suc.prems(1,2) by (auto split: if_splits)
  next
    case True
    then have ne: "\<not> customer_is_empty (ren_fifo s)" by blast
    obtain x f where f: "fifo_pop (ren_fifo s) = (Some x, f)" "customer_get_front (ren_fifo s) = Some x" "fifo_settled f"
      "fifo_next (ren_fifo s) = x # fifo_next f" by (rule pop_front[OF Suc.prems(3) ne])
    show ?thesis
    proof (cases "rename_gate i x ready fence s")
      case None
      then show ?thesis using Suc.prems(1,2) True f(2) by simp
    next
      case (Some g)
      obtain ready' fence' where g: "g = (ready', fence')" by fastforce
      obtain info s1 where r: "rename_one x (s\<lparr>ren_fifo := f\<rparr>) = Some (info, s1)"
        "if ready' then s' = s1 else \<exists>infos'. rename_loop n (i + 1) ready' fence' s1 = Some (infos', s')"
        using Suc.prems(2) True f(1,2) Some g by (auto split: Option.bind_splits if_splits)
      have ok: "uop_ok x" "list_all uop_ok (fifo_next f)" using Suc.prems(4) f(4) by simp_all
      have "rename_linked R (s\<lparr>ren_fifo := f\<rparr>)" using Suc.prems(1) by (simp add: rename_linked_def)
      then have l: "rename_linked R s1" using rename_one_linked[OF _ r(1)] ok(1) by (simp add: uop_ok_def)
      have q: "ren_fifo s1 = f" using rename_one_queue[OF r(1)] by simp
      show ?thesis using r(2) l Suc.IH[OF l] f(3) ok(2) q by (auto split: if_splits)
    qed
  qed
qed simp

lemma rename_run_linked:
  assumes "rename_linked R s" and "rename_run stall bru sau commit s = Some (rf, s')" and "fifo_settled (ren_fifo s)"
    and "list_all uop_ok (fifo_next (ren_fifo s))"
  shows "rename_linked R s'"
proof -
  have p: "rename_linked R (t\<lparr>ren_port := x\<rparr>) = rename_linked R t" for t x by (simp add: rename_linked_def)
  show ?thesis
    using assms(1,2) rename_loop_linked[OF assms(1) _ assms(3,4)]
    by (auto simp: rename_run_def p Let_def split: if_splits Option.bind_splits)
qed

subsection \<open>The start\<close>

lemma reset_linked:
  assumes "resettable s"
  obtains s' p rc wc where "reset_registers s = Some s'"
    "linked (rr_retire_rat s') (rr_speculative_rat s') (rr_free s') [] p rc p wc"
    "free_regs (rr_free s') = [31..<PHY_REG_NUM]" "fifo_avail (fl_fifo (rr_free s')) = [31..<PHY_REG_NUM]"
    "rat_abs (rr_speculative_rat s') = first_map 31" "file_started 31 (rr_phy_regfile s')"
proof -
  obtain s' where s: "reset_registers s = Some s'" "free_list_inv (rr_free s')" "fsize (fl_fifo (rr_free s')) = PHY_REG_NUM"
    "free_regs (rr_free s') = [31..<PHY_REG_NUM]" "fifo_avail (fl_fifo (rr_free s')) = [31..<PHY_REG_NUM]"
    "file_started 31 (rr_phy_regfile s')"
    "\<forall>r \<in> {rr_speculative_rat s', rr_retire_rat s'}. rat_inv r \<and> phy_reg_num r = PHY_REG_NUM \<and>
       arch_reg_num r = ARCH_REG_NUM \<and> rat_abs r = first_map 31"
    using reset_registers_started[OF assms] by metis
  obtain rc p wc where log: "fifo_log (fl_fifo (rr_free s')) p (free_regs (rr_free s')) rc p wc"
    using log_start[of "fl_fifo (rr_free s')"] s(2) unfolding free_list_inv_def free_regs_def by metis
  have r: "rat_total (rr_speculative_rat s')" "rat_total (rr_retire_rat s')" "rat_abs (rr_speculative_rat s') = first_map 31"
    "rat_abs (rr_retire_rat s') = first_map 31"
    using s(7) by (auto simp: rat_total_def first_map_dom config_defs)
  have part: "regs_partition (first_map 31) [31..<PHY_REG_NUM] []"
  proof -
    have "31 \<le> PHY_REG_NUM" by (simp add: config_defs)
    then show ?thesis by (auto simp: regs_partition_def first_map_ran)
  qed
  have tag: "tagged (rr_speculative_rat s') (first_map 31) []"
  proof -
    have "rat_inv (rr_speculative_rat s')" using r(1) by (simp add: rat_total_def)
    from rat_abs_iff[OF this] r(3) show ?thesis unfolding tagged_def by (metis empty_iff empty_set)
  qed
  have "linked (rr_retire_rat s') (rr_speculative_rat s') (rr_free s') [] p rc p wc"
    unfolding linked_def using r part tag log s(2-4) by simp
  then show thesis by (rule that[OF s(1) _ s(4,5) r(3) s(6)])
qed

subsection \<open>Commit and rename in one cycle\<close>

text \<open>Rename works on the components that commit has left, and puts its results back.\<close>

definition rename_view :: "rename_dispatch_pack_t port \<Rightarrow> commit \<Rightarrow> rename" where
  "rename_view port c =
     (let s = cm_spec c in
      \<lparr>ren_fifo = cm_fifo c, ren_port = port, ren_rat = sp_rat s, ren_rob = sp_rob s, ren_free = sp_free s,
       ren_checkpoint = sp_checkpoint s, ren_load_queue = sp_load_queue s, ren_store_buffer = sp_store_buffer s\<rparr>)"

definition with_rename :: "rename \<Rightarrow> spec_state \<Rightarrow> spec_state" where
  "with_rename t s =
     s\<lparr>sp_rat := ren_rat t, sp_rob := ren_rob t, sp_free := ren_free t, sp_checkpoint := ren_checkpoint t,
       sp_load_queue := ren_load_queue t, sp_store_buffer := ren_store_buffer t\<rparr>"

lemma view_linked: "spec_linked (cm_retire_rat c) (cm_spec c) \<Longrightarrow> rename_linked (cm_retire_rat c) (rename_view port c)"
  by (simp add: spec_linked_def rename_linked_def rename_view_def Let_def)

lemma linked_view: "rename_linked R t \<Longrightarrow> spec_linked R (with_rename t s)"
  by (simp add: spec_linked_def rename_linked_def with_rename_def)

lemma view_regs_ok:
  assumes "spec_linked (cm_retire_rat c) (cm_spec c)" and "slack c \<le> COMMIT_WIDTH"
  shows "regs_ok (rename_view port c)"
proof -
  obtain p rc rn wc where l: "linked (cm_retire_rat c) (sp_rat (cm_spec c)) (sp_free (cm_spec c)) (rob_items (cm_spec c)) p rc rn wc"
    using assms(1) unfolding spec_linked_def by blast
  have "regs_partition (rat_abs (sp_rat (cm_spec c))) (free_regs (sp_free (cm_spec c))) (rob_olds (rob_items (cm_spec c)))"
    "free_list_inv (sp_free (cm_spec c))" "fsize (fl_fifo (sp_free (cm_spec c))) = PHY_REG_NUM" "rat_total (sp_rat (cm_spec c))"
    using l unfolding linked_def by blast+
  then show ?thesis
    using assms unfolding spec_linked_def regs_ok_def rename_view_def by (auto simp: rat_total_def slack_def Let_def)
qed

text \<open>A cycle of commit that does not flush leaves the queues of loads, stores and checkpoints as rename expects them.\<close>

definition queues_ok :: "commit_feedback_pack_t \<Rightarrow> commit \<Rightarrow> bool" where
  "queues_ok fb c \<longleftrightarrow> cf_flush fb \<or> (let s = cm_spec c in
     fifo_inv (sp_checkpoint s) \<and> fifo_inv (lq_fifo (sp_load_queue s)) \<and> fifo_inv (sb_fifo (sp_store_buffer s)) \<and>
     length (lq_replay_num (sp_load_queue s)) = fsize (lq_fifo (sp_load_queue s)) \<and>
     length (sb_item_addr (sp_store_buffer s)) = fsize (sb_fifo (sp_store_buffer s)))"

lemma queues_ok_view: "queues_ok fb c \<longleftrightarrow> cf_flush fb \<or> lsq_ok (rename_view port c)"
  by (simp add: queues_ok_def lsq_ok_def rename_view_def Let_def)

lemma pop_inv: "fifo_inv f \<Longrightarrow> fifo_inv (snd (fifo_pop f)) \<and> fsize (snd (fifo_pop f)) = fsize f"
  by (metis fifo_pop_abs(2,3) prod.collapse)

lemma queues_flush: "cf_flush fb \<Longrightarrow> queues_ok fb c" by (simp add: queues_ok_def)

lemma queues_cong:
  assumes "queues_ok fb c" and "cf_flush fb' = cf_flush fb"
    and "sp_checkpoint (cm_spec c') = sp_checkpoint (cm_spec c)" "sp_load_queue (cm_spec c') = sp_load_queue (cm_spec c)"
      "sp_store_buffer (cm_spec c') = sp_store_buffer (cm_spec c)"
  shows "queues_ok fb' c'"
  using assms by (simp add: queues_ok_def Let_def)

definition queue_step :: "spec_state \<Rightarrow> spec_state \<Rightarrow> bool" where
  "queue_step s s' \<longleftrightarrow>
     (sp_checkpoint s' = sp_checkpoint s \<or> sp_checkpoint s' = snd (fifo_pop (sp_checkpoint s))) \<and>
     (let q = sp_load_queue s in sp_load_queue s' = q \<or> sp_load_queue s' = q\<lparr>lq_fifo := snd (fifo_pop (lq_fifo q))\<rparr>) \<and>
     (let b = sp_store_buffer s in sp_store_buffer s' = b \<or> sp_store_buffer s' = b\<lparr>sb_fifo := snd (fifo_pop (sb_fifo b))\<rparr>)"

lemma queue_step_refl: "queue_step s s" by (simp add: queue_step_def Let_def)

lemma queues_step:
  assumes "queues_ok fb c" and "cf_flush fb' \<or> cf_flush fb' = cf_flush fb \<and> queue_step (cm_spec c) (cm_spec c')"
  shows "queues_ok fb' c'"
proof (cases "cf_flush fb'")
  case False
  let ?s = "cm_spec c" and ?t = "cm_spec c'"
  have q: "fifo_inv (sp_checkpoint ?s)" "fifo_inv (lq_fifo (sp_load_queue ?s))" "fifo_inv (sb_fifo (sp_store_buffer ?s))"
    "length (lq_replay_num (sp_load_queue ?s)) = fsize (lq_fifo (sp_load_queue ?s))"
    "length (sb_item_addr (sp_store_buffer ?s)) = fsize (sb_fifo (sp_store_buffer ?s))"
    using assms False by (simp_all add: queues_ok_def Let_def)
  have st: "queue_step ?s ?t" using assms(2) False by blast
  have "fifo_inv (sp_checkpoint ?t)" using st pop_inv[OF q(1)] q(1) unfolding queue_step_def by metis
  moreover have "fifo_inv (lq_fifo (sp_load_queue ?t)) \<and> length (lq_replay_num (sp_load_queue ?t)) = fsize (lq_fifo (sp_load_queue ?t))"
    using st pop_inv[OF q(2)] q(2,4) unfolding queue_step_def Let_def by auto
  moreover have "fifo_inv (sb_fifo (sp_store_buffer ?t)) \<and> length (sb_item_addr (sp_store_buffer ?t)) = fsize (sb_fifo (sp_store_buffer ?t))"
    using st pop_inv[OF q(3)] q(3,5) unfolding queue_step_def Let_def by auto
  ultimately show ?thesis by (simp add: queues_ok_def Let_def)
qed (simp add: queues_ok_def)

lemma trap_flushes: "commit_trap i x v ex fb c = Some (fb', c') \<Longrightarrow> cf_flush fb'"
  by (auto simp: commit_trap_def Let_def split: Option.bind_splits)

lemma load_queues:
  assumes "commit_load x fb c = Some (r, fb', c')" and "queues_ok fb c"
  shows "queues_ok fb' c'"
proof (rule queues_step[OF assms(2)])
  show "cf_flush fb' \<or> cf_flush fb' = cf_flush fb \<and> queue_step (cm_spec c) (cm_spec c')"
    using assms(1) by (auto simp: commit_load_def queue_step_def on_spec_def on_counters_def Let_def split: if_splits Option.bind_splits)
qed

lemma store_queues:
  assumes "commit_store i x fb c = Some (r, fb', c')" and "queues_ok fb c"
  shows "queues_ok fb' c'"
proof (rule queues_step[OF assms(2)])
  have p: "queue_step (cm_spec c) (cm_spec (pop_store d))" if "cm_spec d = cm_spec c" for d
    using that by (simp add: pop_store_def queue_step_def on_spec_def Let_def)
  show "cf_flush fb' \<or> cf_flush fb' = cf_flush fb \<and> queue_step (cm_spec c) (cm_spec c')"
    using assms(1)
    by (auto simp: commit_store_def Let_def p queue_step_refl split: if_splits Option.bind_splits option.splits prod.splits dest!: trap_flushes)
qed

lemma retire_queues:
  assumes "commit_retire i x c = Some c'" and "queues_ok fb c"
  shows "queues_ok fb c'"
proof (rule queues_step[OF assms(2)])
  show "cf_flush fb \<or> cf_flush fb = cf_flush fb \<and> queue_step (cm_spec c) (cm_spec c')"
    using assms(1) by (auto simp: commit_retire_def retire_dest_def count_commit_def on_rob_def on_spec_def queue_step_def Let_def
        split: if_splits Option.bind_splits)
qed

lemma predicted_queues:
  assumes "commit_predicted x fb c = Some (nf, fb', c')" and "queues_ok fb c"
  shows "queues_ok fb' c'"
proof (rule queues_step[OF assms(2)])
  have u: "cm_spec (count_branch x g d) = cm_spec d" "cm_spec (commit_update h x d) = cm_spec d" for g h d
    by (simp_all add: count_branch_def on_counters_def commit_update_def)
  show "cf_flush fb' \<or> cf_flush fb' = cf_flush fb \<and> queue_step (cm_spec c) (cm_spec c')"
    using assms(1) by (auto simp: commit_predicted_def queue_step_def u on_spec_def Let_def split: if_splits Option.bind_splits)
qed

lemma branch_queues:
  assumes "commit_branch x fb c = Some (r, fb', c')" and "queues_ok fb c"
  shows "queues_ok fb' c'"
proof -
  have u: "cm_spec (count_branch x g d) = cm_spec d" for g d by (simp add: count_branch_def on_counters_def)
  have q: "queues_ok fb1 d" if "cm_spec d = cm_spec c" "cf_flush fb1 = cf_flush fb" for d fb1 using queues_cong[OF assms(2)] that by simp
  show ?thesis
  proof (cases "ri_bru_op x \<and> bp_predicted (ri_branch_predictor_info_pack x)")
    case True
    then obtain f nf where "commit_predicted x fb ((count_branch x (\<lambda>n. n\<lparr>branch_num := branch_num n + 1\<rparr>) c)\<lparr>cm_csr := f\<rparr>) = Some (nf, fb', c')"
      using assms(1) by (auto simp: commit_branch_def Let_def split: Option.bind_splits)
    then show ?thesis by (rule predicted_queues) (rule q, simp_all add: u)
  next
    case False
    then have "cm_spec c' = cm_spec c \<and> cf_flush fb' = cf_flush fb"
      using assms(1) by (auto simp: commit_branch_def u Let_def split: if_splits Option.bind_splits)
    then show ?thesis using q by blast
  qed
qed

lemma normal_queues:
  assumes "commit_normal i j x fb c = Some (r, fb', c')" and "queues_ok fb c"
  shows "queues_ok fb' c'"
  using assms
  by (auto simp: commit_normal_def Let_def split: if_splits Option.bind_splits sum.splits
      dest!: load_queues store_queues retire_queues branch_queues)

lemma mark_flush: "mark_committed i j n r fb = Some fb' \<Longrightarrow> cf_flush fb' = cf_flush fb"
  by (auto simp: mark_committed_def split: Option.bind_splits)

lemma loop_queues:
  assumes "commit_loop n i j fb c = Some (nf, fb', c')" and "queues_ok fb c"
  shows "queues_ok fb' c'"
  using assms
proof (induction n arbitrary: i fb c)
  case (Suc n)
  show ?case
  proof (cases "get_front_id (sp_rob (cm_spec c))")
    case None
    then show ?thesis using Suc.prems Suc.IH by simp
  next
    case (Some k)
    have m: "queues_ok fb1 c" if "mark_committed i k j (sp_rob (cm_spec c)) fb = Some fb1" for fb1
      using queues_cong[OF Suc.prems(2)] mark_flush[OF that] by simp
    show ?thesis
      using Suc.prems Some
      by (auto split: if_splits Option.bind_splits sum.splits prod.splits
          dest!: m normal_queues dest: trap_flushes intro: queues_flush Suc.IH)
  qed
qed simp

lemma commit_run_queues:
  assumes "commit_run c = Some (fb, c')" and "lsq_ok (rename_view port c)"
  shows "cf_flush fb \<or> lsq_ok (rename_view port c')"
proof -
  have q: "queues_ok fb0 c" for fb0 using assms(2) queues_ok_view by blast
  have i: "queues_ok fb1 c1" if "commit_interrupt fb0 c = Some (nf, fb1, c1)" for fb0 nf fb1 c1
  proof -
    have "cf_flush fb1 \<or> cm_spec c1 = cm_spec c" using that by (auto simp: commit_interrupt_def Let_def split: if_splits Option.bind_splits option.splits)
    then show ?thesis using queues_flush queues_cong[OF q[of fb1]] by auto
  qed
  have j: "queues_ok (fb1\<lparr>cf_idle := x, cf_next_handle_rob_id := y, cf_next_handle_rob_id_valid := z\<rparr>) c1" if "queues_ok fb1 c1" for fb1 c1 x y z
    using queues_cong[OF that] by simp
  have k: "queues_ok fb1 (on_rob g c1)" if "queues_ok fb1 c1" for fb1 c1 g using queues_cong[OF that] by (simp add: on_rob_def on_spec_def)
  let ?fb = "commit_feedback_pack_make\<lparr>cf_idle := True\<rparr>"
  obtain nf0 fb0 c0 where i0: "commit_interrupt ?fb c = Some (nf0, fb0, c0)" using assms(1) by (auto simp: commit_run_def split: Option.bind_splits)
  have "queues_ok fb c'"
  proof (cases "customer_is_empty (rob_fifo (sp_rob (cm_spec c0)))")
    case True
    then show ?thesis using assms(1) i0 i[OF i0] by (simp add: commit_run_def)
  next
    case False
    then obtain n where n: "get_front_id (sp_rob (cm_spec c0)) = Some n"
      using assms(1) i0 by (auto simp: commit_run_def Let_def split: Option.bind_splits)
    let ?fb1 = "fb0\<lparr>cf_idle := False, cf_next_handle_rob_id := n, cf_next_handle_rob_id_valid := True\<rparr>"
    obtain nf fb2 c1 where l1: "commit_loop COMMIT_WIDTH 0 n ?fb1 c0 = Some (nf, fb2, c1)"
      using assms(1) i0 n False by (auto simp: commit_run_def Let_def split: Option.bind_splits)
    have l: "commit_loop COMMIT_WIDTH 0 n ?fb1 c0 = Some (nf, fb, c1)" "c' = c1 \<or> (\<exists>r. c' = on_rob (\<lambda>_. r) c1)"
      using assms(1) i0 n False l1 by (auto simp: commit_run_def Let_def split: if_splits Option.bind_splits)
    then show ?thesis using loop_queues[OF l(1) j[OF i[OF i0]]] k by blast
  qed
  then show ?thesis using queues_ok_view by blast
qed

lemma rename_after_commit:
  assumes "commit_outcome items k tr c0 fb c" and "fifo_settled (cm_fifo c)" and "list_all uop_ok (fifo_next (cm_fifo c))"
    and "cf_flush fb \<or> lsq_ok (rename_view port c)"
  shows "\<exists>rf t. rename_run stall bru sau fb (rename_view port c) = Some (rf, t) \<and>
    (case filter ri_old_phy_reg_id_valid tr of
       [] \<Rightarrow> speculation_ok (rat_sync (cm_retire_rat c)) (spec_sync (with_rename t (cm_spec c)))
     | x # _ \<Rightarrow> register_lost (rat_sync (cm_retire_rat c)) (spec_sync (with_rename t (cm_spec c))) (ri_new_phy_reg_id x))"
proof (cases "cf_flush fb")
  case True
  let ?t = "(rename_view port c)\<lparr>ren_port := port_set (rename_pad []) port\<rparr>"
  have "rename_run stall bru sau fb (rename_view port c) = Some (\<lparr>rf_idle = customer_is_empty (cm_fifo c)\<rparr>, ?t)"
    using True rename_pad_nil by (simp add: rename_run_def rename_view_def Let_def)
  moreover have "with_rename ?t (cm_spec c) = cm_spec c" by (simp add: with_rename_def rename_view_def Let_def)
  ultimately show ?thesis using assms(1) True by (simp add: commit_outcome_def split: list.splits)
next
  case False
  then have sp: "spec_linked (cm_retire_rat c) (cm_spec c)" "slack c \<le> COMMIT_WIDTH" "tr = []" using assms(1) by (simp_all add: commit_outcome_def)
  have q: "fifo_settled (ren_fifo (rename_view port c))" "list_all uop_ok (fifo_next (ren_fifo (rename_view port c)))"
    using assms(2,3) by (simp_all add: rename_view_def Let_def)
  have "rename_ok (rename_view port c)" using view_regs_ok[OF sp(1,2)] q assms(4) False by (simp add: rename_ok_def)
  from rename_cycle_ok[OF this] obtain rf t where r: "rename_run stall bru sau fb (rename_view port c) = Some (rf, t)" by blast
  have "rename_linked (cm_retire_rat c) t" by (rule rename_run_linked[OF view_linked[OF sp(1)] r q])
  then show ?thesis using r spec_linked_sync(1)[OF linked_view] sp(3) by auto
qed

text \<open>An entry that traps and has a destination has an exception, since a store has none, and is the last one recorded.\<close>

lemma trapped_dest:
  assumes "commit_outcome items k tr c fb c'" and "list_all item_ok items" and "filter ri_old_phy_reg_id_valid tr = x # ys"
  shows "x \<in> set items \<and> ri_finish x \<and> ri_has_exception x \<and> ri_old_phy_reg_id_valid x \<and> cf_flush fb \<and> snd (last (rob_retire_queue c')) = x"
proof -
  note o = assms(1)[unfolded commit_outcome_def]
  have "x \<in> set (filter ri_old_phy_reg_id_valid tr)" unfolding assms(3) by simp
  then have x: "x \<in> set tr" "ri_old_phy_reg_id_valid x" by simp_all
  then have one: "tr = take 1 (drop k items)" using o by auto
  then have t: "tr = [x]" using x(1) by (cases "drop k items") auto
  have "set tr \<subseteq> set items" unfolding one by (meson order_trans set_drop_subset set_take_subset)
  then have "x \<in> set items" "item_ok x" using assms(2) t by (auto simp: list_all_iff)
  moreover have "ri_finish x" "ri_has_exception x \<or> ri_store_buffer_id_valid x" using o t by simp_all
  moreover have "snd (last (rob_retire_queue c')) = x"
  proof -
    have m: "map snd (rob_retire_queue c') = (map snd (rob_retire_queue c) @ take k items) @ [x]" using o t by simp
    then have "rob_retire_queue c' \<noteq> []" by (metis Nil_is_map_conv append_is_Nil_conv not_Cons_self2)
    then have "snd (last (rob_retire_queue c')) = last (map snd (rob_retire_queue c'))" by (simp add: last_map)
    then show ?thesis unfolding m by simp
  qed
  moreover have "cf_flush fb" using o t by (cases "cf_flush fb") simp_all
  ultimately show ?thesis using x(2) by (auto simp: item_ok_def)
qed

subsection \<open>A state with one operation in flight\<close>

text \<open>After reset, rename has given \<open>x1\<close> the next free register, and the operation is finished, with or without an exception.\<close>

definition demo_entry :: "bool \<Rightarrow> free_list \<Rightarrow> free_list \<Rightarrow> rob_item_t" where
  "demo_entry e F F' = (rename_rob_item demo_uop True 0 31 (free_list_save F) (free_list_save F'))
     \<lparr>ri_finish := True, ri_has_exception := e, ri_exception_id := illegal_instruction\<rparr>"

definition demo_commit :: "bool \<Rightarrow> reset_regs \<Rightarrow> free_list \<Rightarrow> rat \<Rightarrow> ccsrfile \<Rightarrow> commit" where
  "demo_commit e s F' S' csr =
     \<lparr>cm_port = [], cm_spec = spec_sync \<lparr>sp_rat = S',
        sp_rob = (rob_make ROB_SIZE)\<lparr>rob_fifo := snd (fifo_push (demo_entry e (rr_free s) F') (fifo_make ROB_SIZE rob_item_make))\<rparr>,
        sp_regfile = rr_phy_regfile s, sp_free = F', sp_checkpoint = fifo_make CHECKPOINT_BUFFER_SIZE checkpoint_make,
        sp_load_queue = load_queue_make LOAD_QUEUE_SIZE, sp_store_buffer = store_buffer_make STORE_BUFFER_SIZE\<rparr>,
      cm_retire_rat = rat_sync (rr_retire_rat s), cm_csr = csr, cm_interrupt = cinterrupt_make,
      cm_retired = rsb_make RETIRED_STORE_BUFFER_SIZE,
      cm_fifo = fifo_make DECODE_RENAME_FIFO_SIZE (decode_rename_pack_make branch_predictor_info_pack_make),
      cm_bus = cbus_make, cm_pma = [], cm_counters = \<lparr>cpu_clock_cycle = 0, committed_instruction_num = 0, branch_num = 0,
        branch_predicted = 0, branch_hit = 0, branch_miss = 0, load_num = 0, replay_num = 0, replay_load_num = 0, conflict_load_num = 0\<rparr>,
      cm_is_waiting_ack = False, cm_updates = [], rob_retire_queue = []\<rparr>"

lemma demo_traps: "\<exists>f. traps_ok f"
proof -
  have e: "ccsr_map_table (ccsrfile_make [] []) a = None" for a by (simp add: ccsrfile_make_def)
  have h: "\<forall>(a, ro, k) \<in> set cycle_csrs. ccsr_map_table (ccsrfile_make [] []) a = None" using e by auto
  obtain f where "ccsrfile_map_all cycle_csrs (ccsrfile_make [] []) = Some f" and f: "\<forall>a. ccsr_map_table f a = (case map_of cycle_csrs a of
       Some (ro, k) \<Rightarrow> Some \<lparr>ccsr_readonly = ro, ccsr_obj = ccsr_make k\<rparr> | None \<Rightarrow> None)"
    using ccsrfile_map_all_ok[OF cycle_csrs_distinct(1) h] unfolding e by auto
  have "traps_ok f" unfolding traps_ok_def by (auto simp: f dom_def cycle_csrs_def csr_addr_defs)
  then show ?thesis by blast
qed

lemma demo_commit_ok:
  "\<exists>c x. commit_ready c \<and> rob_items (cm_spec c) = [x] \<and> ri_finish x \<and> ri_has_exception x = e \<and> ri_old_phy_reg_id_valid x \<and>
     \<not> ri_store_buffer_id_valid x \<and> fifo_next (cm_fifo c) = [] \<and> fifo_settled (cm_fifo c) \<and> rat_abs (cm_retire_rat c) = first_map 31 \<and>
     lsq_ok (rename_view (port_make []) c)"
proof -
  obtain s0 where s0: "resettable s0" using regs_make_resettable by blast
  obtain s p rc wc where "reset_registers s0 = Some s" and s: "linked (rr_retire_rat s) (rr_speculative_rat s) (rr_free s) [] p rc p wc"
    "free_regs (rr_free s) = [31..<PHY_REG_NUM]" "fifo_avail (fl_fifo (rr_free s)) = [31..<PHY_REG_NUM]"
    "rat_abs (rr_speculative_rat s) = first_map 31" "file_started 31 (rr_phy_regfile s)"
    by (rule reset_linked[OF s0])
  note l = s(1)[unfolded linked_def]
  have fl: "free_list_inv (rr_free s)" and S: "rat_total (rr_speculative_rat s)" "rat_total (rr_retire_rat s)" using l by blast+
  obtain y F' where p: "free_list_pop (rr_free s) = Some (y, F')" "free_regs (rr_free s) = (case y of None \<Rightarrow> [] | Some d \<Rightarrow> [d]) @ free_regs F'"
    "y = None \<longleftrightarrow> fifo_avail (fl_fifo (rr_free s)) = []"
    using free_list_pop_abs[OF fl] by blast
  have y: "y = Some 31" using p(2,3) s(2,3) by (cases y) (auto simp: upt_rec config_defs)
  have m: "rat_abs (rr_speculative_rat s) 1 = Some 0" using s(4) by (simp add: first_map_def)
  have n: "(31::nat) \<notin> ran (rat_abs (rr_speculative_rat s))" using s(4) by (simp add: first_map_ran)
  have legal: "rat_legal (rr_speculative_rat s) 1 31" using m S(1) by (simp add: rat_legal_def rat_total_def config_defs)
  obtain old S' where S': "set_map 1 31 (rr_speculative_rat s) = Some (old, S')"
    using set_map_law[of "rr_speculative_rat s", OF _ legal n] S(1) by (auto simp: rat_total_def)
  obtain csr where csr: "traps_ok csr" using demo_traps by blast
  let ?x = "demo_entry e (rr_free s) F'"
  let ?c = "demo_commit e s F' S' csr"
  have x: "ri_old_phy_reg_id_valid ?x" "ri_old_phy_reg_id ?x = 0" "ri_new_phy_reg_id ?x = 31" "unat (ri_rd ?x) = 1" "ri_finish ?x"
    "(ri_old_phy_id_free_list_rptr ?x, ri_old_phy_id_free_list_rstage ?x) = free_list_save (rr_free s)"
    "(ri_new_phy_id_free_list_rptr ?x, ri_new_phy_id_free_list_rstage ?x) = free_list_save F'" "\<not> ri_store_buffer_id_valid ?x"
    "\<not> ri_load_queue_id_valid ?x" "ri_has_exception ?x = e" "\<not> ri_bru_op ?x"
    by (simp_all add: demo_entry_def rename_rob_item_def demo_uop_def decode_rename_pack_make_def rob_item_make_def)
  have link: "linked (rr_retire_rat s) S' F' [?x] p rc (Suc p) wc"
    using linked_allocate[OF s(1) p(1)[unfolded y] S' m x(1-4,6,7)] by simp
  let ?f0 = "fifo_make ROB_SIZE rob_item_make"
  have f0: "fifo_inv ?f0" "fifo_next ?f0 = []" "fsize ?f0 = ROB_SIZE" "\<not> producer_is_full ?f0"
    by (simp_all add: config_defs producer_is_full_def) (simp_all add: fifo_make_def fifo_reset_def)
  obtain f where f: "fifo_push ?x ?f0 = (True, f)" "fifo_inv f" "fsize f = ROB_SIZE" "fifo_next f = [?x]"
    using push_not_full[OF f0(1,4), of ?x] f0(2,3) by (metis append_Nil)
  note fs = fifo_sync_abs[OF f(2)]
  have spec: "sp_rat (cm_spec ?c) = rat_sync S'" "sp_free (cm_spec ?c) = free_list_sync F'" "rob_fifo (sp_rob (cm_spec ?c)) = fifo_sync f"
    "sp_regfile (cm_spec ?c) = phy_regfile_sync (rr_phy_regfile s)" "sp_load_queue (cm_spec ?c) = load_queue_sync (load_queue_make LOAD_QUEUE_SIZE)"
    using f(1) by (simp_all add: demo_commit_def spec_sync_def rob_sync_def)
  have items: "rob_items (cm_spec ?c) = [?x]" using fs(5) f(4) spec(3) by simp
  have sok: "speculation_ok (cm_retire_rat ?c) (cm_spec ?c)"
    unfolding speculation_ok_def spec using linked_sync[OF link] fs(1,2,5) f(3,4) by (simp add: demo_commit_def) blast
  have "fifo_inv (fl_fifo F')" "free_list_inv F'" using link by (auto simp: linked_def free_list_inv_def fifo_settled_def)
  then have av: "fifo_avail (fl_fifo (free_list_sync F')) = free_regs (free_list_sync F')"
    using fifo_sync_abs(4,5)[of "fl_fifo F'"] by (simp add: free_list_sync_def free_regs_def)
  have buf: "map dff_sync (buffer (fifo_sync f)) = buffer (fifo_sync f)" by (simp add: dff_sync_def comp_def)
  have rf: "phy_regfile_shape (phy_regfile_sync (rr_phy_regfile s))" "rf_size (phy_regfile_sync (rr_phy_regfile s)) = PHY_REG_NUM"
    using s(5) by (simp_all add: file_started_def phy_regfile_sync_def phy_regfile_shape_def)
  have lq: "length (lq_item_conflict (load_queue_sync (load_queue_make LOAD_QUEUE_SIZE))) = LOAD_QUEUE_SIZE"
    "length (lq_replay_num (load_queue_sync (load_queue_make LOAD_QUEUE_SIZE))) = LOAD_QUEUE_SIZE"
    by (simp_all add: load_queue_sync_def load_queue_make_def load_queue_reset_def)
  have q: "fifo_settled (cm_fifo ?c)" "fifo_next (cm_fifo ?c) = []"
    by (simp_all add: demo_commit_def settled_make config_defs)
  have iok: "item_ok ?x" using x by (simp add: item_ok_def)
  have fs0: "fifo_reset (fifo_make n v) = fifo_make n v" for n and v :: store_buffer_item_t by (simp add: fifo_make_def fifo_reset_def dff_set_def dff_make_def)
  have "commit_ready ?c"
    unfolding commit_ready_def Let_def items spec
    using sok av fs(4,5) f(4) buf rf lq q(1) csr iok x(8)
    by (simp add: store_ok_def fifo_settled_def) (simp add: demo_commit_def)
  moreover have "rat_abs (cm_retire_rat ?c) = first_map 31"
    using total_sync[OF S(2)] l s(4) by (simp add: demo_commit_def)
  moreover have "lsq_ok (rename_view (port_make []) ?c)"
    unfolding lsq_ok_def rename_view_def demo_commit_def spec_sync_def
    by (simp add: load_queue_sync_def load_queue_make_def load_queue_reset_def store_buffer_sync_def store_buffer_make_def
        store_buffer_reset_def config_defs fifo_sync_abs(1) fs0 Let_def)
  ultimately show ?thesis using items q x by blast
qed

subsection \<open>Properties\<close>

text \<open>
  C14. Commit retires in order and keeps the register state together. From a state in which the reorder buffer links the retired
  map to the speculative map (and whose entries have load queue slots within the queue, no destination on a store, the store at the front in the store buffer, and the predicted
  target on a conditional branch that went the predicted way), a cycle of the stage does not abort: it retires at most \<^verbatim>\<open>COMMIT_WIDTH\<close>
  entries from the front of the reorder buffer, all of them finished and without exception, and the retired map is the old one with
  exactly their destinations applied in order. The entries it records are those, and after them at most one that traps: an entry with an
  exception, or a store that the bus has refused. If it flushes, after the clock edge nothing is in flight, the
  speculative map is the retired map, and every register is mapped or free, unless the entry that trapped has a destination: then exactly the
  register that rename took for it is neither mapped nor free. If it does not flush, the remaining entries still
  link the two maps. A finished entry at the front that is not a store leaves in this cycle, unless the stage flushes; one with an exception
  traps.
\<close>

theorem commit_retires_in_order:
  assumes "commit_ready c"
  shows "\<exists>k tr fb c'. commit_run c = Some (fb, c') \<and> commit_outcome (rob_items (cm_spec c)) k tr c fb c'"
  using commit_run_ok[OF assms] by blast

theorem commit_retires_in_order_witness:
  "\<exists>c fb c'. commit_ready c \<and> length (rob_items (cm_spec c)) = 1 \<and> commit_run c = Some (fb, c') \<and>
     (\<exists>k tr. commit_outcome (rob_items (cm_spec c)) k tr c fb c' \<and> (0 < k \<or> cf_flush fb))"
proof -
  obtain c x where c: "commit_ready c" "rob_items (cm_spec c) = [x]" "ri_finish x" "\<not> ri_store_buffer_id_valid x"
    using demo_commit_ok[of False] by blast
  from commit_retires_in_order[OF c(1)] obtain k tr fb c' where r:
    "commit_run c = Some (fb, c')" "commit_outcome (rob_items (cm_spec c)) k tr c fb c'" by blast
  moreover have "0 < k \<or> cf_flush fb" using r(2) c unfolding commit_outcome_def by simp
  ultimately show ?thesis using c(1,2) by (intro exI[of _ c] exI[of _ fb] exI[of _ c']) auto
qed

text \<open>
  C15. Commit and, after it, rename in the same cycle: neither stage aborts, whatever the stall and flush signals are, and after
  the clock edge the reorder buffer links the two maps again, each register is mapped, free or waits in the reorder buffer to be freed, and
  the pointers that the entries have saved lead the free list back to where it was before them. The one exception is a cycle in which an
  entry with an exception and a destination traps: then nothing is in flight, and exactly the register of that entry is neither
  mapped nor free.
\<close>

theorem commit_rename_cycle:
  assumes "commit_ready c" and "fifo_settled (cm_fifo c)" and "list_all uop_ok (fifo_next (cm_fifo c))"
    and "lsq_ok (rename_view port c)"
  shows "\<exists>fb c' rf t. commit_run c = Some (fb, c') \<and> rename_run stall bru sau fb (rename_view port c') = Some (rf, t) \<and>
    (speculation_ok (rat_sync (cm_retire_rat c')) (spec_sync (with_rename t (cm_spec c'))) \<or>
     (\<exists>x \<in> set (rob_items (cm_spec c)). ri_finish x \<and> ri_has_exception x \<and> ri_old_phy_reg_id_valid x \<and> cf_flush fb \<and>
        snd (last (rob_retire_queue c')) = x \<and>
        register_lost (rat_sync (cm_retire_rat c')) (spec_sync (with_rename t (cm_spec c'))) (ri_new_phy_reg_id x)))"
proof -
  obtain k tr fb c' where r: "commit_run c = Some (fb, c')" "commit_outcome (rob_items (cm_spec c)) k tr c fb c'" "cm_fifo c' = cm_fifo c"
    using commit_run_ok[OF assms(1)] by blast
  obtain rf t where t: "rename_run stall bru sau fb (rename_view port c') = Some (rf, t)"
    "case filter ri_old_phy_reg_id_valid tr of
       [] \<Rightarrow> speculation_ok (rat_sync (cm_retire_rat c')) (spec_sync (with_rename t (cm_spec c')))
     | x # _ \<Rightarrow> register_lost (rat_sync (cm_retire_rat c')) (spec_sync (with_rename t (cm_spec c'))) (ri_new_phy_reg_id x)"
    using rename_after_commit[OF r(2), of port stall bru sau] commit_run_queues[OF r(1) assms(4)] assms(2,3) r(3) by auto
  show ?thesis
  proof (cases "filter ri_old_phy_reg_id_valid tr")
    case Nil
    then show ?thesis using r(1) t by auto
  next
    case (Cons x ys)
    have i: "list_all item_ok (rob_items (cm_spec c))" using assms(1) by (simp add: commit_ready_def Let_def)
    note x = trapped_dest[OF r(2) i Cons]
    have "register_lost (rat_sync (cm_retire_rat c')) (spec_sync (with_rename t (cm_spec c'))) (ri_new_phy_reg_id x)" using t(2) Cons by simp
    then show ?thesis using r(1) t(1) x by blast
  qed
qed

theorem commit_rename_cycle_witness:
  "\<exists>c fb c' rf t. length (rob_items (cm_spec c)) = 1 \<and> commit_run c = Some (fb, c') \<and>
     rename_run False \<lparr>bru_flush = False, bru_next_pc = 0, bru_rob_id_stage = False, bru_rob_id = 0\<rparr> \<lparr>sau_flush = False, sau_next_pc = 0, sau_rob_id_stage = False, sau_rob_id = 0\<rparr> fb (rename_view (port_make []) c') = Some (rf, t) \<and>
     speculation_ok (rat_sync (cm_retire_rat c')) (spec_sync (with_rename t (cm_spec c')))"
proof -
  obtain c x where c: "commit_ready c" "rob_items (cm_spec c) = [x]" "fifo_next (cm_fifo c) = []" "fifo_settled (cm_fifo c)"
    "lsq_ok (rename_view (port_make []) c)" "\<not> ri_has_exception x" using demo_commit_ok[of False] by blast
  from commit_rename_cycle[OF c(1,4) _ c(5), of False "\<lparr>bru_flush = False, bru_next_pc = 0, bru_rob_id_stage = False, bru_rob_id = 0\<rparr>" "\<lparr>sau_flush = False, sau_next_pc = 0, sau_rob_id_stage = False, sau_rob_id = 0\<rparr>"] c(2,3,6) show ?thesis
    by (intro exI[of _ c]) simp
qed

text \<open>
  C16. A trap loses a register. When the entry at the front is finished with an exception and has a destination (as an illegal access to
  a CSR, or a load that faults, has), the next cycle of commit traps it, and after the clock edge the register that rename took for
  it is neither mapped nor free, while nothing is left in flight that could free it and every other register is mapped or free: the retired
  map does not have it, and the free list is restored to the pointer behind it.
\<close>

theorem trap_loses_register:
  assumes "commit_ready c" and "rob_items (cm_spec c) = x # xs" and "ri_finish x" and "ri_has_exception x" and "ri_old_phy_reg_id_valid x"
  shows "\<exists>fb c'. commit_run c = Some (fb, c') \<and> cf_flush fb \<and> snd (last (rob_retire_queue c')) = x \<and>
    (let s' = spec_sync (cm_spec c') in rob_items s' = [] \<and> rat_abs (sp_rat s') = rat_abs (rat_sync (cm_retire_rat c')) \<and>
      ri_new_phy_reg_id x < PHY_REG_NUM \<and> ri_new_phy_reg_id x \<notin> ran (rat_abs (sp_rat s')) \<union> set (free_regs (sp_free s')) \<and>
      ran (rat_abs (sp_rat s')) \<union> set (free_regs (sp_free s')) = {0..<PHY_REG_NUM} - {ri_new_phy_reg_id x})"
proof -
  obtain k tr fb c' where r: "commit_run c = Some (fb, c')" "commit_outcome (rob_items (cm_spec c)) k tr c fb c'"
    using commit_run_ok[OF assms(1)] by blast
  have i: "list_all item_ok (rob_items (cm_spec c))" using assms(1) by (simp add: commit_ready_def Let_def)
  have t: "tr = [x]" using r(2) assms(2-4) by (simp add: commit_outcome_def)
  then have f: "filter ri_old_phy_reg_id_valid tr = [x]" using assms(5) by simp
  have "cf_flush fb" "snd (last (rob_retire_queue c')) = x" using trapped_dest[OF r(2) i f] by blast+
  moreover from this have "register_lost (rat_sync (cm_retire_rat c')) (spec_sync (cm_spec c')) (ri_new_phy_reg_id x)"
    using r(2) f by (simp add: commit_outcome_def)
  ultimately show ?thesis using r(1) unfolding register_lost_def Let_def by auto
qed

theorem trap_loses_register_witness:
  "\<exists>c x fb c'. commit_ready c \<and> rob_items (cm_spec c) = [x] \<and> ri_finish x \<and> ri_has_exception x \<and> ri_old_phy_reg_id_valid x \<and>
     commit_run c = Some (fb, c') \<and> cf_flush fb \<and>
     ri_new_phy_reg_id x \<notin> ran (rat_abs (sp_rat (spec_sync (cm_spec c')))) \<union> set (free_regs (sp_free (spec_sync (cm_spec c'))))"
proof -
  obtain c x where c: "commit_ready c" "rob_items (cm_spec c) = [x]" "ri_finish x" "ri_has_exception x" "ri_old_phy_reg_id_valid x"
    using demo_commit_ok[of True] by blast
  from trap_loses_register[OF c] show ?thesis using c by (auto simp: Let_def)
qed

end
