(* ===== verification/Recovery.thy ===== *)
theory Recovery
  imports Reg_Lifecycle
begin

text \<open>
  Recovery from a checkpoint. The branch unit, on a wrong prediction, and the store address unit, on a load that ran
  ahead, bring the alias table, the free list and the reorder buffer back to what they were when
  rename saved the checkpoint; the link of \<open>Speculation\<close> says whether the three belong together afterwards.
\<close>

subsection \<open>The free list\<close>

lemma log_drop:
  "fifo_log f c (xs @ L) rc rn wc \<Longrightarrow> c + length xs \<le> rn \<Longrightarrow> fifo_log f (c + length xs) L rc rn wc"
proof (induction xs arbitrary: c)
  case (Cons x xs)
  then have "fifo_log f (Suc c) (xs @ L) rc rn wc" using log_tl[of f c x "xs @ L"] by simp
  then show ?case using Cons.IH[of "Suc c"] Cons.prems(2) by simp
qed simp

lemma log_rewind:
  assumes "fifo_log f c L rc rc wc" and "c \<le> k" and "k \<le> rc"
  shows "fifo_log (fifo_sync (f\<lparr>rptr := dff_set (k mod fsize f) (rptr f), rstage := dff_set (odd (k div fsize f)) (rstage f)\<rparr>))
    c L k k (c + length L)"
proof -
  note l = assms(1)[unfolded fifo_log_def fifo_window_def]
  let ?g = "f\<lparr>rptr := dff_set (k mod fsize f) (rptr f), rstage := dff_set (odd (k div fsize f)) (rstage f)\<rparr>"
  have "fifo_window (fifo_sync ?g) k k (c + length L) (c + length L)"
    using l assms(2,3) by (auto simp: fifo_window_def fifo_sync_def pos_defs ring_at_def)
  then show ?thesis using l assms(2) by (simp add: fifo_log_def)
qed

lemma restore_shape:
  assumes "free_list_restore p st F = Some F'"
  shows "fl_fifo F' = (fl_fifo F)\<lparr>rptr := dff_set p (rptr (fl_fifo F)), rstage := dff_set st (rstage (fl_fifo F))\<rparr>"
  using assms by (auto simp: free_list_restore_def Let_def split: if_splits Option.bind_splits)

subsection \<open>The alias table\<close>

definition checkpoint_of :: "(nat \<rightharpoonup> nat) \<Rightarrow> checkpoint_t \<Rightarrow> bool" where
  "checkpoint_of m cp \<longleftrightarrow> (\<forall>q < PHY_REG_NUM. cp_phy_map_table_valid cp ! q \<longleftrightarrow> q \<in> ran m)"

lemma save_checkpoint_of:
  assumes "rat_total S" and "producer_save_to_checkpoint S cp0 = Some cp"
  shows "checkpoint_of (rat_abs S) cp"
proof -
  have S: "rat_inv S" "phy_reg_num S = PHY_REG_NUM" using assms(1) by (simp_all add: rat_total_def)
  have "q \<in> ran (rat_abs S) \<longleftrightarrow> vld S q" for q by (simp add: ran_def rat_abs_iff[OF S(1)])
  moreover have "cp_phy_map_table_valid cp = map (\<lambda>i. dff_get_new (phy_map_table_valid S ! i)) [0..<PHY_REG_NUM]"
    using assms(2) S(2) by (auto simp: producer_save_to_checkpoint_def)
  ultimately show ?thesis unfolding checkpoint_of_def by (simp add: vld_def S(2))
qed

lemma fold_entry:
  "fold rob_apply xs m a = Some q \<Longrightarrow>
   m a = Some q \<or> (\<exists>x \<in> set xs. ri_old_phy_reg_id_valid x \<and> ri_new_phy_reg_id x = q \<and> unat (ri_rd x) = a)"
proof (induction xs arbitrary: m)
  case (Cons x xs)
  then have "rob_apply x m a = Some q \<or> (\<exists>x \<in> set xs. ri_old_phy_reg_id_valid x \<and> ri_new_phy_reg_id x = q \<and> unat (ri_rd x) = a)"
    by simp
  then show ?case by (auto simp: rob_apply_def split: if_splits)
qed simp

lemma rat_prefix:
  assumes "linked R S F (pre @ post) c rc rn wc" and "checkpoint_of (fold rob_apply pre (rat_abs R)) cp"
  obtains S' where "restore_from_checkpoint cp S = Some S'" "rat_total S'" "rat_abs S' = fold rob_apply pre (rat_abs R)"
    "\<forall>q. arch_of S' q = arch_of S q"
proof -
  note l = assms(1)[unfolded linked_def]
  let ?m = "fold rob_apply pre (rat_abs R)"
  have t: "rat_total R" "rat_total S" and tag: "tagged S (rat_abs R) (pre @ post)"
    and ch: "chained (rat_abs R) (pre @ post)" using l by blast+
  have S: "rat_inv S" "phy_reg_num S = PHY_REG_NUM" "arch_reg_num S = ARCH_REG_NUM" using t(2) by (simp_all add: rat_total_def)
  define S' where "S' = S\<lparr>phy_map_table_valid := map (\<lambda>i. if i < PHY_REG_NUM
     then dff_set (cp_phy_map_table_valid cp ! i) (phy_map_table_valid S ! i)
     else phy_map_table_valid S ! i) [0..<phy_reg_num S]\<rparr>"
  have r: "restore_from_checkpoint cp S = Some S'" by (simp add: restore_from_checkpoint_def S S'_def)
  have a: "arch_of S' q = arch_of S q" for q by (simp add: arch_of_def S'_def)
  have n: "phy_reg_num S' = PHY_REG_NUM" "arch_reg_num S' = ARCH_REG_NUM" "rat_shape S'"
    using S by (simp_all add: S'_def rat_inv_def rat_shape_def)
  have dom: "dom ?m = {0<..<ARCH_REG_NUM}" using apply_dom[of "rat_abs R" pre] ch t(1) by (simp add: chained_append rat_total_def)
  have inj: "inj_map ?m"
    using partition_truncate(2)[of "rat_abs R" pre post "free_regs F"] ch l total_inj[OF t(2)] by auto
  have tagm: "arch_of S q = b" if "?m b = Some q" for b q
    using fold_entry[OF that] tag by (auto simp: tagged_def)
  have bound: "q < PHY_REG_NUM" if "?m b = Some q" for b q
  proof -
    have "q \<in> ran (rat_abs R) \<union> set (rob_news (pre @ post))" using fold_entry[OF that] by (auto simp: rob_news_def intro: ranI)
    then show ?thesis using linked_bound[OF assms(1)] by blast
  qed
  have v: "vld S' q \<longleftrightarrow> q \<in> ran ?m" for q
    using assms(2) n S bound by (auto simp: vld_def S'_def checkpoint_of_def ran_def)
  have one: "vld S' q \<and> arch_of S' q = b \<longleftrightarrow> ?m b = Some q" for q b
    unfolding v a using tagm by (auto simp: ran_def)
  have inv: "rat_inv S'"
    unfolding rat_inv_def n
  proof (intro conjI allI impI)
    show "rat_shape S'" by (rule n(3))
    fix i assume "vld S' i"
    then have "?m (arch_of S' i) = Some i" using one by blast
    then have "arch_of S' i \<in> {0<..<ARCH_REG_NUM}" using dom by blast
    then show "0 < arch_of S' i" "arch_of S' i < ARCH_REG_NUM" by simp_all
  next
    fix i j assume "vld S' i" "vld S' j" "arch_of S' i = arch_of S' j"
    then have "?m (arch_of S' i) = Some i" "?m (arch_of S' i) = Some j" using one by metis+
    then show "i = j" by simp
  qed
  have "rat_abs S' = ?m"
  proof
    fix b show "rat_abs S' b = ?m b" using rat_abs_iff[OF inv, of b] one[of _ b] by (metis option.exhaust)
  qed
  moreover from this have "rat_total S'" using inv n dom by (simp add: rat_total_def)
  ultimately show thesis using that r a by blast
qed

subsection \<open>Registers\<close>

text \<open>What a recovery to the state after \<open>pre\<close> leaves: the link over \<open>pre\<close>, and the registers of the rest free again, in order.\<close>

lemma free_recover:
  assumes "linked R S F (pre @ post) c rc rc wc" and "(p, st) = ring_at PHY_REG_NUM (c + length (rob_news pre))"
  obtains F' wc' where "free_list_restore p st F = Some F'" "free_list_inv (free_list_sync F')"
    "fsize (fl_fifo (free_list_sync F')) = PHY_REG_NUM" "free_regs (free_list_sync F') = rob_news post @ free_regs F"
    "fifo_log (fl_fifo (free_list_sync F')) c (rob_news pre @ rob_news post @ free_regs F)
      (c + length (rob_news pre)) (c + length (rob_news pre)) wc'"
proof -
  note l = assms(1)[unfolded linked_def] and r = linked_retired_map[OF assms(1)]
  let ?k = "c + length (rob_news pre)" and ?L = "rob_news post @ free_regs F"
  have F: "free_list_inv F" "fsize (fl_fifo F) = PHY_REG_NUM" and rc: "rc = c + length (rob_news (pre @ post))" using l by blast+
  have log: "fifo_log (fl_fifo F) c (rob_news pre @ ?L) rc rc wc"
  proof -
    have "fifo_log (fl_fifo F) c (rob_news (pre @ post) @ free_regs F) rc rc wc" using l by blast
    then show ?thesis by simp
  qed
  have ptr: "p = ?k mod fsize (fl_fifo F)" "st = odd (?k div fsize (fl_fifo F))" using assms(2) F(2) by (simp_all add: ring_at_def)
  have log1: "fifo_log (fl_fifo F) ?k ?L rc rc wc" by (rule log_drop[OF log]) (simp add: rc)
  have set: "fl_set F = set (free_regs F)" using F(1) by (simp add: free_list_inv_def)
  have d: "distinct ?L" "\<forall>x \<in> set ?L. x < fsize (fl_fifo F)" using r(3,5) F(2) by auto
  have kr: "?k \<le> rc" by (simp add: rc)
  obtain F' where F': "free_list_restore p st F = Some F'" "free_list_inv (free_list_sync F')" "free_regs (free_list_sync F') = ?L"
    using free_list_restore_log[OF log1 kr d(1) set d(2)] unfolding ptr by blast
  have log2: "fifo_log (fl_fifo (free_list_sync F')) c (rob_news pre @ ?L) ?k ?k (c + length (rob_news pre @ ?L))"
    using log_rewind[OF log _ kr] unfolding free_list_sync_def restore_shape[OF F'(1)] ptr by simp
  have "fsize (fl_fifo (free_list_sync F')) = PHY_REG_NUM" using restore_shape[OF F'(1)] F(2) by (simp add: free_list_sync_def)
  then show thesis using that F' log2 by blast
qed

lemma linked_recover:
  assumes "linked R S F (pre @ post) c rc rc wc" and "checkpoint_of (fold rob_apply pre (rat_abs R)) cp"
    and "(p, st) = ring_at PHY_REG_NUM (c + length (rob_news pre))"
  obtains S' F' k wc' where "restore_from_checkpoint cp S = Some S'" "free_list_restore p st F = Some F'"
    "linked (rat_sync R) (rat_sync S') (free_list_sync F') pre c k k wc'"
    "free_regs (free_list_sync F') = rob_news post @ free_regs F" "rat_abs (rat_sync S') = fold rob_apply pre (rat_abs R)"
proof -
  note l = assms(1)[unfolded linked_def]
  let ?L = "rob_news post @ free_regs F" and ?m = "fold rob_apply pre (rat_abs R)"
  have t: "rat_total R" "rat_total S" and ch: "chained (rat_abs R) (pre @ post)"
    and sp: "saved_ptrs c (pre @ post)" and tag: "tagged S (rat_abs R) (pre @ post)" using l by blast+
  obtain F' wc' where F': "free_list_restore p st F = Some F'" "free_list_inv (free_list_sync F')"
    "fsize (fl_fifo (free_list_sync F')) = PHY_REG_NUM" "free_regs (free_list_sync F') = ?L"
    "fifo_log (fl_fifo (free_list_sync F')) c (rob_news pre @ ?L) (c + length (rob_news pre)) (c + length (rob_news pre)) wc'"
    by (rule free_recover[OF assms(1,3)])
  obtain S' where S': "restore_from_checkpoint cp S = Some S'" "rat_total S'" "rat_abs S' = ?m" "\<forall>q. arch_of S' q = arch_of S q"
    by (rule rat_prefix[OF assms(1,2)])
  have part: "regs_partition ?m ?L (rob_olds pre)"
    using partition_truncate(1)[of "rat_abs R" pre post "free_regs F"] ch l total_inj[OF t(2)] by auto
  have tag': "tagged S' (rat_abs R) pre" using tag S'(4) by (simp add: tagged_def)
  have "\<forall>q \<in> ran (rat_abs R) \<union> set (rob_news pre). q < PHY_REG_NUM" using linked_bound[OF assms(1)] by auto
  from tagged_sync[OF S'(2) this] tag' have tag2: "tagged (rat_sync S') (rat_abs R) pre" by simp
  have m: "rat_abs (rat_sync S') = ?m" using total_sync[OF S'(2)] S'(3) by simp
  have "linked (rat_sync R) (rat_sync S') (free_list_sync F') pre c (c + length (rob_news pre)) (c + length (rob_news pre)) wc'"
    unfolding linked_def
    using total_sync[OF t(1)] total_sync[OF S'(2)] m tag2 ch F'(2-5) part sp by (simp add: chained_append saved_ptrs_append)
  then show thesis using that S'(1) F'(1,4) m by blast
qed

subsection \<open>The reorder buffer\<close>

text \<open>The identifier and stage of the entry \<open>n\<close> places behind the front.\<close>

definition entry_id :: "'a fifo \<Rightarrow> nat \<Rightarrow> nat \<times> bool" where
  "entry_id f n = ring_at (fsize f) (ring_pos (fsize f) (r_new f) + n)"

lemma entry_id_window: "fifo_window f rc rn wc wn \<Longrightarrow> entry_id f n = ring_at (fsize f) (rn + n)"
  by (simp add: entry_id_def fifo_window_def ring_at_eq_iff_mod ring_pos_at mod_add_left_eq)

lemma truncate_fifo:
  assumes "fifo_inv f" and "fifo_avail f = fifo_next f" and "n \<le> length (fifo_next f)" and "(p, st) = entry_id f n"
  shows "fifo_inv (fifo_sync (update_wptr p st f)) \<and> fifo_next (fifo_sync (update_wptr p st f)) = take n (fifo_next f)"
proof -
  obtain rc rn wc wn where w: "fifo_window f rc rn wc wn" using assms(1) by (rule fifo_windowE)
  note d = w[unfolded fifo_window_def] and ls = window_lists[OF w]
  have "length (fifo_avail f) = length (fifo_next f)" using assms(2) by simp
  then have len: "wc = wn" "n \<le> wn - rn" using assms(3) d unfolding ls by auto
  have rnn: "rn + n \<le> wn" using len d by linarith
  have w': "fifo_window (fifo_sync (update_wptr p st f)) rn rn (rn + n) (rn + n)"
    using d len assms(4) entry_id_window[OF w, of n] by (auto simp: fifo_window_def fifo_sync_def update_wptr_def pos_defs ring_at_def)
  have b: "dff_get_new (buffer (fifo_sync (update_wptr p st f)) ! (i mod fsize f)) = dff_get_new (buffer f ! (i mod fsize f))" for i
    using d by (simp add: fifo_sync_def update_wptr_def)
  have sz: "fsize (fifo_sync (update_wptr p st f)) = fsize f" by (simp add: fifo_sync_def update_wptr_def)
  have "fifo_next (fifo_sync (update_wptr p st f)) = map (\<lambda>i. dff_get_new (buffer f ! (i mod fsize f))) [rn..<rn + n]"
    unfolding window_lists(3)[OF w'] sz b by (rule refl)
  also have "\<dots> = take n (fifo_next f)" using rnn unfolding ls(3) take_map by (simp only: take_upt)
  finally show ?thesis using window_inv[OF w'] by blast
qed

lemma next_entry:
  assumes "fifo_inv f" and "fifo_avail f = fifo_next f" and "n < length (fifo_next f)" and "(p, st) = entry_id f n"
  shows "\<exists>q st' b. customer_get_next_id_stage f p st = Some (q, st', b) \<and> (q, st') = entry_id f (Suc n)"
proof -
  obtain rc rn wc wn where w: "fifo_window f rc rn wc wn" using assms(1) by (rule fifo_windowE)
  note d = w[unfolded fifo_window_def]
  have "n < wc - rn" using assms(2,3) unfolding window_lists[OF w] by (metis length_map length_upt)
  then have "customer_check_id_valid f p"
    using assms(4) entry_id_window[OF w, of n] unfolding window_check_id(2)[OF w] by (auto simp: ring_at_def)
  moreover have "((p + 1) mod fsize f, (fsize f \<le> p + 1) \<noteq> st) = ring_at (fsize f) (Suc (rn + n))"
    using assms(4) entry_id_window[OF w, of n] ring_at_Suc[of "fsize f" "rn + n"] d
    by (auto simp: ring_at_def mod_Suc) 
  ultimately show ?thesis using entry_id_window[OF w, of "Suc n"] by (simp add: customer_get_next_id_stage_def Let_def)
qed

subsection \<open>What rename saves\<close>

definition saved_for :: "checkpoint_t \<Rightarrow> rob_item_t \<Rightarrow> (nat \<rightharpoonup> nat) \<Rightarrow> bool" where
  "saved_for cp x m \<longleftrightarrow>
     checkpoint_of m cp \<and>
     (cp_old_phy_id_free_list_rptr cp, cp_old_phy_id_free_list_rstage cp) =
       (ri_old_phy_id_free_list_rptr x, ri_old_phy_id_free_list_rstage x) \<and>
     (cp_new_phy_id_free_list_rptr cp, cp_new_phy_id_free_list_rstage cp) =
       (ri_new_phy_id_free_list_rptr x, ri_new_phy_id_free_list_rstage x)"

text \<open>The checkpoint of an operation, a load included, holds the map with the operation's own destination.\<close>

lemma rename_saves:
  assumes "rename_checkpoint p info item s0 s = Some (info', s')" and "rat_total (ren_rat s)" and "fifo_inv (ren_checkpoint s)"
    and "d_enable p \<and> d_valid p \<and> (bp_predicted (d_branch_predictor_info_pack p) \<or> d_op_unit p = Cunit_lu)"
    and "\<not> producer_is_full (ren_checkpoint s)"
  shows "\<exists>cp. fifo_next (ren_checkpoint s') = fifo_next (ren_checkpoint s) @ [cp] \<and> saved_for cp item (rat_abs (ren_rat s))"
proof -
  obtain cp f t where e: "producer_save_to_checkpoint (ren_rat s) checkpoint_make = Some cp"
    "fifo_push (rename_checkpoint_item item s0 s cp) (ren_checkpoint s) = (True, f)" "ren_checkpoint s' = f"
    using assms(1,4,5) by (auto simp: rename_checkpoint_def Let_def split: Option.bind_splits prod.splits if_splits)
  have "checkpoint_of (rat_abs (ren_rat s)) cp" by (rule save_checkpoint_of[OF assms(2) e(1)])
  then have "saved_for (rename_checkpoint_item item s0 s cp) item (rat_abs (ren_rat s))"
    by (simp add: saved_for_def checkpoint_of_def rename_checkpoint_item_def Let_def)
  then show ?thesis using fifo_push_abs(6)[OF assms(3) e(2)] e(3) by auto
qed

subsection \<open>A state with two operations in flight\<close>

definition demo_item :: "free_list \<Rightarrow> free_list \<Rightarrow> nat \<Rightarrow> nat \<Rightarrow> rob_item_t" where
  "demo_item F F' old new = rename_rob_item demo_uop True old new (free_list_save F) (free_list_save F')"

lemma demo_item:
  "ri_old_phy_reg_id_valid (demo_item F F' old new)" "ri_old_phy_reg_id (demo_item F F' old new) = old"
  "ri_new_phy_reg_id (demo_item F F' old new) = new" "unat (ri_rd (demo_item F F' old new)) = 1"
  "(ri_old_phy_id_free_list_rptr (demo_item F F' old new), ri_old_phy_id_free_list_rstage (demo_item F F' old new)) = free_list_save F"
  "(ri_new_phy_id_free_list_rptr (demo_item F F' old new), ri_new_phy_id_free_list_rstage (demo_item F F' old new)) = free_list_save F'"
  by (simp_all add: demo_item_def rename_rob_item_def demo_uop_def decode_rename_pack_make_def)

lemma demo_allocate:
  assumes "linked R S F items c rc rn wc" and "rat_abs S 1 = Some old" and "fifo_avail (fl_fifo F) \<noteq> []"
  obtains d old' S' F' where "linked R S' F' (items @ [demo_item F F' old d]) c rc (Suc rn) wc" "rat_abs S' = (rat_abs S)(1 \<mapsto> d)"
    "fifo_avail (fl_fifo F') = tl (fifo_avail (fl_fifo F))"
proof -
  have F: "free_list_inv F" and S: "rat_total S" and part: "regs_partition (rat_abs S) (free_regs F) (rob_olds items)"
    using assms(1) unfolding linked_def by blast+
  obtain y F' where p: "free_list_pop F = Some (y, F')" "free_regs F = (case y of None \<Rightarrow> [] | Some d \<Rightarrow> [d]) @ free_regs F'"
    "fifo_pop (fl_fifo F) = (y, fl_fifo F')" "y = None \<longleftrightarrow> fifo_avail (fl_fifo F) = []"
    using free_list_pop_abs[OF F] by blast
  obtain d where d: "y = Some d" using p(4) assms(3) by blast
  have new: "d \<notin> ran (rat_abs S)" "d < PHY_REG_NUM" using part p(2) d by (auto simp: regs_partition_def)
  have inv: "rat_inv S" using S by (simp add: rat_total_def)
  have legal: "rat_legal S 1 d" using assms(2) S new(2) by (simp add: rat_legal_def rat_total_def config_defs)
  obtain old' S' where S': "set_map 1 d S = Some (old', S')" using set_map_law[OF inv legal new(1)] by blast
  have "fifo_inv (fl_fifo F)" using F by (simp add: free_list_inv_def fifo_settled_def)
  from fifo_pop_abs(4)[OF this p(3)] have "fifo_avail (fl_fifo F') = tl (fifo_avail (fl_fifo F))" .
  then show thesis
    using that linked_allocate[OF assms(1) p(1)[unfolded d] S' assms(2), of "demo_item F F' old d"] demo_item[of F F' old d]
      set_map_success(2)[OF inv S'] by auto
qed

definition demo_spec :: "reset_regs \<Rightarrow> rat \<Rightarrow> free_list \<Rightarrow> rob_item_t fifo \<Rightarrow> checkpoint_t fifo \<Rightarrow> spec_state" where
  "demo_spec s S F f cps =
     spec_sync \<lparr>sp_rat = S, sp_rob = (rob_make ROB_SIZE)\<lparr>rob_fifo := f\<rparr>, sp_regfile = rr_phy_regfile s, sp_free = F, sp_checkpoint = cps,
       sp_load_queue = load_queue_make LOAD_QUEUE_SIZE, sp_store_buffer = store_buffer_make STORE_BUFFER_SIZE\<rparr>"

lemma push_room:
  assumes "fifo_window f 0 0 0 n" and "n < fsize f"
  obtains g where "fifo_push x f = (True, g)" "fifo_window g 0 0 0 (Suc n)" "fifo_next g = fifo_next f @ [x]" "fsize g = fsize f"
proof -
  obtain ok g where p: "fifo_push x f = (ok, g)" by fastforce
  have nf: "\<not> producer_is_full f" using window_flags(1)[OF assms(1)] assms(2) by simp
  have g: "ok" "g = fifo_advance_wptr (fifo_write_slot (dff_get_new (wptr f)) x f)" using p nf by (auto simp: fifo_push_def)
  have "dff_get_new (wptr f) = n mod fsize f" using assms(1) by (simp add: fifo_window_def pos_defs ring_at_def)
  then have w: "fifo_window g 0 0 0 (Suc n)" unfolding g using window_advance_wptr[OF assms(1)] assms(2) by simp
  note a = fifo_push_abs[OF window_inv[OF assms(1)] p]
  show thesis using that[OF _ w] p g(1) a(3,6) by simp
qed

lemma demo_two:
  "\<exists>s R x y cp. speculation_ok R s \<and> fifo_avail (rob_fifo (sp_rob s)) = rob_items s \<and> rob_items s = [x, y] \<and>
     entry_id (rob_fifo (sp_rob s)) 0 = (0, False) \<and> customer_get_item (sp_checkpoint s) 0 = Some cp \<and>
     saved_for cp x (rob_apply x (rat_abs R)) \<and> ri_old_phy_reg_id_valid x \<and> ri_old_phy_reg_id_valid y"
proof -
  obtain s0 where s0: "resettable s0" using regs_make_resettable by blast
  obtain s p rc wc where "reset_registers s0 = Some s" and s: "linked (rr_retire_rat s) (rr_speculative_rat s) (rr_free s) [] p rc p wc"
    "free_regs (rr_free s) = [31..<PHY_REG_NUM]" "fifo_avail (fl_fifo (rr_free s)) = [31..<PHY_REG_NUM]"
    "rat_abs (rr_speculative_rat s) = first_map 31" "file_started 31 (rr_phy_regfile s)"
    by (rule reset_linked[OF s0])
  let ?R = "rr_retire_rat s" and ?F = "rr_free s"
  have m: "rat_abs (rr_speculative_rat s) 1 = Some 0" using s(4) by (simp add: first_map_def)
  have av: "fifo_avail (fl_fifo ?F) \<noteq> []" "tl (fifo_avail (fl_fifo ?F)) \<noteq> []" using s(3) by (auto simp: upt_rec config_defs)
  obtain d S1 F1 where a: "linked ?R S1 F1 ([] @ [demo_item ?F F1 0 d]) p rc (Suc p) wc" "rat_abs S1 = (rat_abs (rr_speculative_rat s))(1 \<mapsto> d)"
    "fifo_avail (fl_fifo F1) = tl (fifo_avail (fl_fifo ?F))" by (rule demo_allocate[OF s(1) m av(1)])
  have m1: "rat_abs S1 1 = Some d" and av1: "fifo_avail (fl_fifo F1) \<noteq> []" using a(2,3) av(2) by simp_all
  obtain e S2 F2 where b: "linked ?R S2 F2 (([] @ [demo_item ?F F1 0 d]) @ [demo_item F1 F2 d e]) p rc (Suc (Suc p)) wc"
    by (rule demo_allocate[OF a(1) m1 av1])
  let ?x = "demo_item ?F F1 0 d" and ?y = "demo_item F1 F2 d e"
  have l: "linked ?R S2 F2 [?x, ?y] p rc (Suc (Suc p)) wc" using b by simp
  have S1: "rat_total S1" and S1m: "rat_abs S1 = rob_apply ?x (rat_abs ?R)" using a(1) unfolding linked_def by simp_all
  have n1: "phy_reg_num S1 = PHY_REG_NUM" using S1 by (simp add: rat_total_def)
  obtain cp0 where cp0: "producer_save_to_checkpoint S1 checkpoint_make = Some cp0" using n1 by (simp add: producer_save_to_checkpoint_def)
  have c0: "checkpoint_of (rat_abs S1) cp0" by (rule save_checkpoint_of[OF S1 cp0])
  let ?cp = "cp0\<lparr>cp_old_phy_id_free_list_rptr := ri_old_phy_id_free_list_rptr ?x, cp_old_phy_id_free_list_rstage := ri_old_phy_id_free_list_rstage ?x,
    cp_new_phy_id_free_list_rptr := ri_new_phy_id_free_list_rptr ?x, cp_new_phy_id_free_list_rstage := ri_new_phy_id_free_list_rstage ?x\<rparr>"
  have sv: "saved_for ?cp ?x (rob_apply ?x (rat_abs ?R))" using c0 S1m by (simp add: saved_for_def checkpoint_of_def)
  let ?f0 = "fifo_make ROB_SIZE rob_item_make"
  have w0: "fifo_window ?f0 0 0 0 0" "fsize ?f0 = ROB_SIZE" "fifo_next ?f0 = []" "1 < ROB_SIZE"
    using fifo_make_window[of ROB_SIZE rob_item_make] by (simp_all add: config_defs)
  obtain f1 where f1: "fifo_window f1 0 0 0 (Suc 0)" "fifo_next f1 = [?x]" "fsize f1 = ROB_SIZE"
    using push_room[OF w0(1), of ?x] w0 by auto
  obtain f where f: "fifo_window f 0 0 0 (Suc (Suc 0))" "fifo_next f = [?x, ?y]" "fsize f = ROB_SIZE"
    using push_room[OF f1(1), of ?y] f1(2,3) w0(4) by auto
  note fw = window_sync[OF f(1)] and fs = fifo_sync_abs[OF window_inv[OF f(1)]]
  let ?cps = "snd (fifo_push ?cp (fifo_make CHECKPOINT_BUFFER_SIZE checkpoint_make))"
  let ?s = "demo_spec s S2 F2 f ?cps"
  have v: "rob_fifo (sp_rob ?s) = fifo_sync f" "sp_rat ?s = rat_sync S2" "sp_free ?s = free_list_sync F2" "sp_checkpoint ?s = fifo_sync ?cps"
    by (simp_all add: demo_spec_def spec_sync_def rob_sync_def)
  have "customer_get_item (sp_checkpoint ?s) 0 = Some ?cp"
    unfolding v by (simp add: customer_get_item_def fifo_push_def producer_is_full_def fifo_make_def fifo_reset_def fifo_sync_def config_defs
        fifo_advance_wptr_def fifo_write_slot_def)
  moreover have "entry_id (rob_fifo (sp_rob ?s)) 0 = (0, False)" unfolding v using entry_id_window[OF fw, of 0] by (simp add: ring_at_def)
  moreover have "speculation_ok (rat_sync ?R) ?s"
    unfolding speculation_ok_def v using linked_sync[OF l] fs(1,2,5) f(2,3) by (auto)
  moreover have "rat_abs (rat_sync ?R) = rat_abs ?R" using total_sync l unfolding linked_def by blast
  moreover have "rob_items ?s = [?x, ?y]" "fifo_avail (rob_fifo (sp_rob ?s)) = rob_items ?s" unfolding v using fs(4,5) f(2) by simp_all
  ultimately show ?thesis using sv demo_item(1) by (intro exI[of _ ?s] exI[of _ "rat_sync ?R"] exI[of _ ?x] exI[of _ ?y] exI[of _ ?cp]) simp
qed

subsection \<open>Properties\<close>

lemma saved_at:
  assumes "linked R S F (pre @ x # post) c rc rn wc"
  shows "(ri_old_phy_id_free_list_rptr x, ri_old_phy_id_free_list_rstage x) = ring_at PHY_REG_NUM (c + length (rob_news pre)) \<and>
    (ri_new_phy_id_free_list_rptr x, ri_new_phy_id_free_list_rstage x) = ring_at PHY_REG_NUM (c + length (rob_news (pre @ [x])))"
  using assms unfolding linked_def by (auto simp: saved_ptrs_append Let_def add.assoc)

text \<open>
  C17. A wrong prediction is undone exactly. When the branch unit recovers from the checkpoint that rename saved with the entry of
  a branch, nothing aborts; after the clock edge the reorder buffer holds the entries up to the branch and no others, the map is the retired map with the
  destinations of these entries applied in order, the registers the dropped entries had taken are free again, in the order in which they were
  taken, and in front of those that were free; and the retired map, the reorder buffer, the map and the free list still belong
  together, so that commit and rename go on from there.
\<close>

theorem bru_recovery_exact:
  assumes "speculation_ok R s" and "fifo_avail (rob_fifo (sp_rob s)) = rob_items s" and "rob_items s = pre @ x # post"
    and "customer_get_item (sp_checkpoint s) (bp_checkpoint_id (wb_branch_predictor_info_pack send)) = Some cp"
    and "saved_for cp x (fold rob_apply (pre @ [x]) (rat_abs R))"
    and "(wb_rob_id send, wb_rob_id_stage send) = entry_id (rob_fifo (sp_rob s)) (length pre)"
  shows "\<exists>s'. bru_recover send s = Some s' \<and> speculation_ok (rat_sync R) (spec_sync s') \<and>
    rob_items (spec_sync s') = pre @ [x] \<and> rat_abs (sp_rat (spec_sync s')) = fold rob_apply (pre @ [x]) (rat_abs R) \<and>
    free_regs (sp_free (spec_sync s')) = rob_news post @ free_regs (sp_free s)"
proof -
  let ?f = "rob_fifo (sp_rob s)"
  obtain c rc wc where l: "linked R (sp_rat s) (sp_free s) (pre @ x # post) c rc rc wc" and f: "fifo_inv ?f" "fsize ?f = ROB_SIZE"
    using assms(1,3) unfolding speculation_ok_def by auto
  have l': "linked R (sp_rat s) (sp_free s) ((pre @ [x]) @ post) c rc rc wc" using l by simp
  have sv: "checkpoint_of (fold rob_apply (pre @ [x]) (rat_abs R)) cp" using assms(5) by (simp add: saved_for_def)
  have ptr: "(cp_new_phy_id_free_list_rptr cp, cp_new_phy_id_free_list_rstage cp) = ring_at PHY_REG_NUM (c + length (rob_news (pre @ [x])))"
    using assms(5) saved_at[OF l] by (simp add: saved_for_def)
  obtain S' F' k wc' where r: "restore_from_checkpoint cp (sp_rat s) = Some S'"
    "free_list_restore (cp_new_phy_id_free_list_rptr cp) (cp_new_phy_id_free_list_rstage cp) (sp_free s) = Some F'"
    "linked (rat_sync R) (rat_sync S') (free_list_sync F') (pre @ [x]) c k k wc'"
    "free_regs (free_list_sync F') = rob_news post @ free_regs (sp_free s)" "rat_abs (rat_sync S') = fold rob_apply (pre @ [x]) (rat_abs R)"
    by (rule linked_recover[OF l' sv ptr])
  obtain q st b where n: "customer_get_next_id_stage ?f (wb_rob_id send) (wb_rob_id_stage send) = Some (q, st, b)"
    "(q, st) = entry_id ?f (Suc (length pre))"
    using next_entry[OF f(1) assms(2) _ assms(6)] assms(3) by auto
  have t: "fifo_inv (fifo_sync (update_wptr q st ?f))" "fifo_next (fifo_sync (update_wptr q st ?f)) = pre @ [x]"
    using truncate_fifo[OF f(1) assms(2) _ n(2)] assms(3) by auto
  obtain s' where s': "bru_recover send s = Some s'" "sp_rat s' = S'" "sp_free s' = F'" "rob_fifo (sp_rob s') = update_wptr q st ?f"
    using assms(4) r(1,2) n(1) by (simp add: bru_recover_def rob_update_wptr_def)
  have "fsize (fifo_sync (update_wptr q st ?f)) = ROB_SIZE" using f(2) by (simp add: fifo_sync_def update_wptr_def)
  then show ?thesis
    using s' r(3-5) t unfolding speculation_ok_def by (auto simp: spec_sync_def rob_sync_def)
qed

theorem bru_recovery_exact_witness:
  "\<exists>s R x y s'. speculation_ok R s \<and> rob_items s = [x, y] \<and> bru_recover execute_wb_pack_make s = Some s' \<and>
     rob_items (spec_sync s') = [x] \<and> free_regs (sp_free (spec_sync s')) = ri_new_phy_reg_id y # free_regs (sp_free s)"
proof -
  obtain s R x y cp where d: "speculation_ok R s" "fifo_avail (rob_fifo (sp_rob s)) = rob_items s" "rob_items s = [x, y]"
    "entry_id (rob_fifo (sp_rob s)) 0 = (0, False)" "customer_get_item (sp_checkpoint s) 0 = Some cp"
    "saved_for cp x (rob_apply x (rat_abs R))" "ri_old_phy_reg_id_valid y"
    using demo_two by (elim exE conjE) (rule that)
  have k: "rob_items s = [] @ x # [y]" "saved_for cp x (fold rob_apply ([] @ [x]) (rat_abs R))" using d(3,6) by simp_all
  have i: "customer_get_item (sp_checkpoint s) (bp_checkpoint_id (wb_branch_predictor_info_pack execute_wb_pack_make)) = Some cp"
    "(wb_rob_id execute_wb_pack_make, wb_rob_id_stage execute_wb_pack_make) = entry_id (rob_fifo (sp_rob s)) (length ([] :: rob_item_t list))"
    using d(4,5) by (simp_all add: execute_wb_pack_make_def branch_predictor_info_pack_make_def)
  from bru_recovery_exact[OF d(1,2) k(1) i(1) k(2) i(2)] obtain s' where r: "bru_recover execute_wb_pack_make s = Some s'"
    "rob_items (spec_sync s') = [] @ [x]" "free_regs (sp_free (spec_sync s')) = rob_news [y] @ free_regs (sp_free s)" by blast
  have "rob_items (spec_sync s') = [x]" "free_regs (sp_free (spec_sync s')) = ri_new_phy_reg_id y # free_regs (sp_free s)"
    using r(2,3) d(7) by simp_all
  with d(1,3) r(1) show ?thesis by blast
qed

lemma set_map_live:
  assumes "d \<in> ran (rat_abs r)" and "rat_inv r"
  shows "set_map a d r = None"
proof -
  have v: "vld r d" using assms rat_abs_iff[OF assms(2)] by (auto simp: ran_def)
  then have "producer_get_valid r d = Some True" by (simp add: vld_def producer_get_valid_def)
  then show ?thesis by (simp add: set_map_def)
qed

text \<open>
  C18. A load that ran ahead of a store and has a checkpoint is not undone exactly. The checkpoint was saved after the load's own destination
  had been mapped, but the free list goes back to before that: when the store address unit has recovered, the load's register is
  mapped and at the head of the free list at once, and rename aborts on the next operation with a destination.
\<close>

theorem load_recovery_aborts_rename:
  assumes "speculation_ok R s" and "fifo_avail (rob_fifo (sp_rob s)) = rob_items s" and "rob_items s = pre @ x # post"
    and "customer_get_item (sp_checkpoint s) (lq_checkpoint_id item) = Some cp"
    and "saved_for cp x (fold rob_apply (pre @ [x]) (rat_abs R))"
    and "(lq_rob_id item, lq_rob_id_stage item) = entry_id (rob_fifo (sp_rob s)) (length pre)"
    and "ri_old_phy_reg_id_valid x"
  shows "\<exists>s'. sau_recover item s = Some s' \<and>
    (let t = spec_sync s' in rob_items t = pre \<and> ri_new_phy_reg_id x \<in> ran (rat_abs (sp_rat t)) \<and>
      (\<exists>ys. free_regs (sp_free t) = ri_new_phy_reg_id x # ys) \<and>
      (\<forall>p. d_valid p \<and> d_need_rename p \<longrightarrow> rename_dest p (sp_rat t) (sp_free t) = None))"
proof -
  let ?f = "rob_fifo (sp_rob s)" and ?n = "ri_new_phy_reg_id x" and ?m = "fold rob_apply (pre @ [x]) (rat_abs R)"
  obtain c rc wc where l: "linked R (sp_rat s) (sp_free s) (pre @ x # post) c rc rc wc" and f: "fifo_inv ?f" "fsize ?f = ROB_SIZE"
    using assms(1,3) unfolding speculation_ok_def by auto
  have l': "linked R (sp_rat s) (sp_free s) ((pre @ [x]) @ post) c rc rc wc" using l by simp
  have sv: "checkpoint_of ?m cp" using assms(5) by (simp add: saved_for_def)
  have ptr: "(cp_old_phy_id_free_list_rptr cp, cp_old_phy_id_free_list_rstage cp) = ring_at PHY_REG_NUM (c + length (rob_news pre))"
    using assms(5) saved_at[OF l] by (simp add: saved_for_def)
  obtain F' wc' where F': "free_list_restore (cp_old_phy_id_free_list_rptr cp) (cp_old_phy_id_free_list_rstage cp) (sp_free s) = Some F'"
    "free_list_inv (free_list_sync F')" "free_regs (free_list_sync F') = rob_news (x # post) @ free_regs (sp_free s)"
    using free_recover[OF l ptr] by metis
  obtain S' where S': "restore_from_checkpoint cp (sp_rat s) = Some S'" "rat_total S'" "rat_abs S' = ?m"
    using rat_prefix[OF l' sv] by metis
  have t: "fifo_next (fifo_sync (update_wptr (lq_rob_id item) (lq_rob_id_stage item) ?f)) = pre"
    using truncate_fifo[OF f(1) assms(2) _ assms(6)] assms(3) by simp
  have hd: "free_regs (free_list_sync F') = ?n # rob_news post @ free_regs (sp_free s)" using F'(3) assms(7) by simp
  have live: "?n \<in> ran (rat_abs (rat_sync S'))" using S'(3) total_sync[OF S'(2)] assms(7) by (auto simp: rob_apply_def intro!: ranI[of _ "unat (ri_rd x)"])
  have inv: "rat_inv (rat_sync S')" using total_sync[OF S'(2)] by (simp add: rat_total_def)
  have dead: "rename_dest p (rat_sync S') (free_list_sync F') = None" if "d_valid p \<and> d_need_rename p" for p
  proof -
    obtain y F'' where y: "free_list_pop (free_list_sync F') = Some (y, F'')"
      "free_regs (free_list_sync F') = (case y of None \<Rightarrow> [] | Some d \<Rightarrow> [d]) @ free_regs F''"
      using free_list_pop_abs[OF F'(2)] by blast
    have "y = None \<or> y = Some ?n" using y(2) hd by (cases y) auto
    then show ?thesis using that y(1) set_map_live[OF live inv] by (cases "rename_lookup (rat_sync S') (d_rd p)") (auto simp: rename_dest_def)
  qed
  obtain s' where s': "sau_recover item s = Some s'" "sp_rat s' = S'" "sp_free s' = F'"
    "rob_fifo (sp_rob s') = update_wptr (lq_rob_id item) (lq_rob_id_stage item) ?f"
    using assms(4) S'(1) F'(1) by (simp add: sau_recover_def rob_update_wptr_def)
  then have v: "sp_rat (spec_sync s') = rat_sync S'" "sp_free (spec_sync s') = free_list_sync F'" "rob_items (spec_sync s') = pre"
    using t by (simp_all add: spec_sync_def rob_sync_def)
  show ?thesis using s'(1) hd live dead by (intro exI[of _ s'], unfold Let_def v) blast
qed

theorem load_recovery_aborts_rename_witness:
  "\<exists>s R x y s'. speculation_ok R s \<and> rob_items s = [x, y] \<and> sau_recover load_queue_item_make s = Some s' \<and>
     rename_dest demo_uop (sp_rat (spec_sync s')) (sp_free (spec_sync s')) = None"
proof -
  obtain s R x y cp where d: "speculation_ok R s" "fifo_avail (rob_fifo (sp_rob s)) = rob_items s" "rob_items s = [x, y]"
    "entry_id (rob_fifo (sp_rob s)) 0 = (0, False)" "customer_get_item (sp_checkpoint s) 0 = Some cp"
    "saved_for cp x (rob_apply x (rat_abs R))" "ri_old_phy_reg_id_valid x"
    using demo_two by (elim exE conjE) (rule that)
  have k: "rob_items s = [] @ x # [y]" "saved_for cp x (fold rob_apply ([] @ [x]) (rat_abs R))" using d(3,6) by simp_all
  have i: "customer_get_item (sp_checkpoint s) (lq_checkpoint_id load_queue_item_make) = Some cp"
    "(lq_rob_id load_queue_item_make, lq_rob_id_stage load_queue_item_make) = entry_id (rob_fifo (sp_rob s)) (length ([] :: rob_item_t list))"
    using d(4,5) by (simp_all add: load_queue_item_make_def)
  have "d_valid demo_uop \<and> d_need_rename demo_uop" by (simp add: demo_uop_def)
  with load_recovery_aborts_rename[OF d(1,2) k(1) i(1) k(2) i(2) d(7)] d(1,3) show ?thesis unfolding Let_def by blast
qed

end
