(* ===== verification/Read_Reg.thy ===== *)
theory Read_Reg
  imports Lsu_Units Write_Back
begin

text \<open>
  \<^verbatim>\<open>pipeline/integer_readreg.cpp\<close> and \<^verbatim>\<open>pipeline/lsu_readreg.cpp\<close> with \<^verbatim>\<open>integer_issue_readreg.h\<close> and
  \<^verbatim>\<open>lsu_issue_readreg.h\<close>: an issued operation gets its operands, from the results that the units and write back report in this
  cycle or from the physical register file, and enters the unit that executes it.
\<close>

subsection \<open>Packs\<close>

definition INTEGER_ISSUE_WIDTH :: nat where "INTEGER_ISSUE_WIDTH = 2"
definition LSU_ISSUE_WIDTH :: nat where "LSU_ISSUE_WIDTH = 3"
definition FEEDBACK_EXECUTE_UNIT_NUM :: nat where "FEEDBACK_EXECUTE_UNIT_NUM = 8"

record integer_issue_readreg_op_info_t =
  ir_inst_common_info :: inst_common_info_t
  ir_enable :: bool
  ir_value :: u32
  ir_valid :: bool
  ir_last_uop :: bool
  ir_rob_id :: nat
  ir_rob_id_stage :: bool
  ir_pc :: u32
  ir_imm :: u32
  ir_has_exception :: bool
  ir_exception_id :: riscv_exception_t
  ir_exception_value :: u32
  ir_branch_predictor_info_pack :: branch_predictor_info_pack_t
  ir_rs1 :: u32
  ir_arg1_src :: arg_src_t
  ir_rs1_need_map :: bool
  ir_rs1_phy :: nat
  ir_rs2 :: u32
  ir_arg2_src :: arg_src_t
  ir_rs2_need_map :: bool
  ir_rs2_phy :: nat
  ir_rd :: u32
  ir_rd_enable :: bool
  ir_need_rename :: bool
  ir_rd_phy :: nat
  ir_csr :: u32
  ir_lpv :: u32
  ir_op :: op_t
  ir_op_unit :: cycle_unit_t
  ir_sub_op :: cycle_sub_op_t

definition integer_issue_readreg_op_info_make :: integer_issue_readreg_op_info_t where
  "integer_issue_readreg_op_info_make =
     \<lparr>ir_inst_common_info = \<lparr>inst_id = 0\<rparr>, ir_enable = False, ir_value = 0, ir_valid = False, ir_last_uop = False,
      ir_rob_id = 0, ir_rob_id_stage = False, ir_pc = 0, ir_imm = 0, ir_has_exception = False,
      ir_exception_id = instruction_address_misaligned, ir_exception_value = 0,
      ir_branch_predictor_info_pack = branch_predictor_info_pack_make,
      ir_rs1 = 0, ir_arg1_src = Arg_reg, ir_rs1_need_map = False, ir_rs1_phy = 0,
      ir_rs2 = 0, ir_arg2_src = Arg_reg, ir_rs2_need_map = False, ir_rs2_phy = 0,
      ir_rd = 0, ir_rd_enable = False, ir_need_rename = False, ir_rd_phy = 0, ir_csr = 0, ir_lpv = 0,
      ir_op = Op_add, ir_op_unit = Cunit_alu, ir_sub_op = Csub_alu Alu_add\<rparr>"

record lsu_issue_readreg_op_info_t =
  lr_inst_common_info :: inst_common_info_t
  lr_enable :: bool
  lr_value :: u32
  lr_valid :: bool
  lr_last_uop :: bool
  lr_rob_id :: nat
  lr_rob_id_stage :: bool
  lr_pc :: u32
  lr_imm :: u32
  lr_has_exception :: bool
  lr_exception_id :: riscv_exception_t
  lr_exception_value :: u32
  lr_branch_predictor_info_pack :: branch_predictor_info_pack_t
  lr_rs1 :: u32
  lr_arg1_src :: arg_src_t
  lr_rs1_need_map :: bool
  lr_rs1_phy :: nat
  lr_rs2 :: u32
  lr_arg2_src :: arg_src_t
  lr_rs2_need_map :: bool
  lr_rs2_phy :: nat
  lr_rd :: u32
  lr_rd_enable :: bool
  lr_need_rename :: bool
  lr_rd_phy :: nat
  lr_csr :: u32
  lr_store_buffer_id :: nat
  lr_load_queue_id :: nat
  lr_lpv :: u32
  lr_op :: op_t
  lr_op_unit :: cycle_unit_t
  lr_sub_op :: cycle_sub_op_t

definition lsu_issue_readreg_op_info_make :: lsu_issue_readreg_op_info_t where
  "lsu_issue_readreg_op_info_make =
     \<lparr>lr_inst_common_info = \<lparr>inst_id = 0\<rparr>, lr_enable = False, lr_value = 0, lr_valid = False, lr_last_uop = False,
      lr_rob_id = 0, lr_rob_id_stage = False, lr_pc = 0, lr_imm = 0, lr_has_exception = False,
      lr_exception_id = instruction_address_misaligned, lr_exception_value = 0,
      lr_branch_predictor_info_pack = branch_predictor_info_pack_make,
      lr_rs1 = 0, lr_arg1_src = Arg_reg, lr_rs1_need_map = False, lr_rs1_phy = 0,
      lr_rs2 = 0, lr_arg2_src = Arg_reg, lr_rs2_need_map = False, lr_rs2_phy = 0,
      lr_rd = 0, lr_rd_enable = False, lr_need_rename = False, lr_rd_phy = 0, lr_csr = 0,
      lr_store_buffer_id = 0, lr_load_queue_id = 0, lr_lpv = 0,
      lr_op = Op_add, lr_op_unit = Cunit_alu, lr_sub_op = Csub_alu Alu_add\<rparr>"

subsection \<open>Operands\<close>

text \<open>
  The loop over the feedback channels: in each channel the units come before write back. The arrays have at least
  \<^verbatim>\<open>FEEDBACK_EXECUTE_UNIT_NUM\<close> entries.
\<close>

fun feedback_value :: "nat \<Rightarrow> execute_feedback_channel_t list \<Rightarrow> wb_feedback_channel_t list \<Rightarrow> u32 option" where
  "feedback_value p (e # es) (w # ws) =
     (if fb_enable e \<and> fb_phy_id e = p then Some (fb_value e)
      else if wf_enable w \<and> wf_phy_id w = p then Some (wf_value w)
      else feedback_value p es ws)"
| "feedback_value p _ _ = None"

text \<open>The value, and whether it comes from the register file (\<^verbatim>\<open>from_prf\<close>).\<close>

definition read_source ::
    "bool \<Rightarrow> nat \<Rightarrow> bool \<Rightarrow> u32 \<Rightarrow> execute_feedback_channel_t list \<Rightarrow> wb_feedback_channel_t list \<Rightarrow> u32 phy_regfile \<Rightarrow>
     (u32 \<times> bool) option" where
  "read_source need_map p from_imm imm es ws rf =
     (if need_map
      then do {
        v \<leftarrow> phy_regfile_read rf p;
        Some (case feedback_value p (take FEEDBACK_EXECUTE_UNIT_NUM es) (take FEEDBACK_EXECUTE_UNIT_NUM ws) of
                Some x \<Rightarrow> (x, False) | None \<Rightarrow> (v, True))
      }
      else Some (if from_imm then imm else 0, False))"

subsection \<open>The integer stage\<close>

record integer_readreg =
  ird_port :: "integer_issue_readreg_op_info_t list port"
  ird_alu :: "integer_readreg_execute_pack_t handshake_dff list"
  ird_bru :: "integer_readreg_execute_pack_t handshake_dff list"
  ird_csr :: "integer_readreg_execute_pack_t handshake_dff list"
  ird_div :: "integer_readreg_execute_pack_t handshake_dff list"
  ird_mul :: "integer_readreg_execute_pack_t handshake_dff list"

definition ird_sync :: "integer_readreg \<Rightarrow> integer_readreg" where
  "ird_sync s = s\<lparr>ird_alu := map hs_sync (ird_alu s), ird_bru := map hs_sync (ird_bru s), ird_csr := map hs_sync (ird_csr s),
     ird_div := map hs_sync (ird_div s), ird_mul := map hs_sync (ird_mul s)\<rparr>"

text \<open>A flush empties the register of a unit that holds an operation it covers.\<close>

definition kill_held :: "bru_feedback_pack_t \<Rightarrow> sau_feedback_pack_t \<Rightarrow> ('a \<Rightarrow> nat \<times> bool) \<Rightarrow> 'a handshake_dff \<Rightarrow> 'a handshake_dff" where
  "kill_held bru sau age_of h =
     (case hs_get_data h of
        None \<Rightarrow> h
      | Some p \<Rightarrow>
          let (rob_id, stage) = age_of p;
              h1 = (if bru_kills bru rob_id stage then hs_flush h else h)
          in if sau_kills sau rob_id stage then hs_flush h1 else h1)"

definition on_units :: "(integer_readreg_execute_pack_t handshake_dff \<Rightarrow> integer_readreg_execute_pack_t handshake_dff) \<Rightarrow>
    integer_readreg \<Rightarrow> integer_readreg" where
  "on_units g s = s\<lparr>ird_alu := map g (ird_alu s), ird_bru := map g (ird_bru s), ird_csr := map g (ird_csr s),
     ird_div := map g (ird_div s), ird_mul := map g (ird_mul s)\<rparr>"

definition push_at :: "nat \<Rightarrow> 'a \<Rightarrow> 'a handshake_dff list \<Rightarrow> 'a handshake_dff list option" where
  "push_at k p hs =
     (if k < length hs then do { let (ok, h) = hs_push p (hs ! k); verify ok; Some (hs[k := h]) } else None)"

text \<open>The first lane feeds the first alu, bru, csr and mul unit, the second the second alu, the div and the second mul unit.\<close>

definition int_send :: "nat \<Rightarrow> integer_readreg_execute_pack_t \<Rightarrow> integer_readreg \<Rightarrow> integer_readreg option" where
  "int_send i p s =
     (if i = 0
      then (case re_op_unit p of
              Cunit_alu \<Rightarrow> do { hs \<leftarrow> push_at 0 p (ird_alu s); Some (s\<lparr>ird_alu := hs\<rparr>) }
            | Cunit_bru \<Rightarrow> do { hs \<leftarrow> push_at 0 p (ird_bru s); Some (s\<lparr>ird_bru := hs\<rparr>) }
            | Cunit_csr \<Rightarrow> do { hs \<leftarrow> push_at 0 p (ird_csr s); Some (s\<lparr>ird_csr := hs\<rparr>) }
            | Cunit_mul \<Rightarrow> do { hs \<leftarrow> push_at 0 p (ird_mul s); Some (s\<lparr>ird_mul := hs\<rparr>) }
            | _ \<Rightarrow> None)
      else (case re_op_unit p of
              Cunit_alu \<Rightarrow> do { hs \<leftarrow> push_at 1 p (ird_alu s); Some (s\<lparr>ird_alu := hs\<rparr>) }
            | Cunit_div \<Rightarrow> do { hs \<leftarrow> push_at 0 p (ird_div s); Some (s\<lparr>ird_div := hs\<rparr>) }
            | Cunit_mul \<Rightarrow> do { hs \<leftarrow> push_at 1 p (ird_mul s); Some (s\<lparr>ird_mul := hs\<rparr>) }
            | _ \<Rightarrow> None))"

definition int_copy :: "integer_issue_readreg_op_info_t \<Rightarrow> integer_readreg_execute_pack_t" where
  "int_copy q =
     \<lparr>re_inst_common_info = ir_inst_common_info q, re_enable = ir_enable q, re_value = ir_value q, re_valid = ir_valid q,
      re_last_uop = ir_last_uop q, re_rob_id = ir_rob_id q, re_rob_id_stage = ir_rob_id_stage q, re_pc = ir_pc q,
      re_imm = ir_imm q, re_has_exception = ir_has_exception q, re_exception_id = ir_exception_id q,
      re_exception_value = ir_exception_value q, re_branch_predictor_info_pack = ir_branch_predictor_info_pack q,
      re_rs1 = ir_rs1 q, re_arg1_src = ir_arg1_src q, re_rs1_need_map = ir_rs1_need_map q, re_rs1_phy = ir_rs1_phy q,
      re_src1_value = 0,
      re_rs2 = ir_rs2 q, re_arg2_src = ir_arg2_src q, re_rs2_need_map = ir_rs2_need_map q, re_rs2_phy = ir_rs2_phy q,
      re_src2_value = 0,
      re_rd = ir_rd q, re_rd_enable = ir_rd_enable q, re_need_rename = ir_need_rename q, re_rd_phy = ir_rd_phy q,
      re_csr = ir_csr q, re_op = ir_op q, re_op_unit = ir_op_unit q, re_sub_op = ir_sub_op q\<rparr>"

definition int_skipped ::
    "bru_feedback_pack_t \<Rightarrow> lu_feedback_pack_t \<Rightarrow> sau_feedback_pack_t \<Rightarrow> integer_issue_readreg_op_info_t \<Rightarrow> bool" where
  "int_skipped bru lf sau q \<longleftrightarrow>
     bru_kills bru (ir_rob_id q) (ir_rob_id_stage q) \<or> sau_kills sau (ir_rob_id q) (ir_rob_id_stage q) \<or>
     luf_replay lf \<and> ir_lpv q AND 1 \<noteq> 0"

text \<open>An operand that is neither reported nor valid in the register file switches the operation off.\<close>

definition available :: "nat \<Rightarrow> bool \<Rightarrow> u32 phy_regfile \<Rightarrow> bool option" where
  "available p from_prf rf = (if from_prf then read_data_valid rf p else Some True)"

definition int_operands ::
    "execute_feedback_channel_t list \<Rightarrow> wb_feedback_channel_t list \<Rightarrow> u32 phy_regfile \<Rightarrow> integer_issue_readreg_op_info_t \<Rightarrow>
     integer_readreg_execute_pack_t \<Rightarrow> integer_readreg_execute_pack_t option" where
  "int_operands es ws rf q send =
     (if ir_valid q \<and> \<not> ir_has_exception q
      then do {
        (v1, prf1) \<leftarrow> read_source (ir_rs1_need_map q) (ir_rs1_phy q) (ir_arg1_src q = Arg_imm) (ir_imm q) es ws rf;
        ok1 \<leftarrow> available (ir_rs1_phy q) prf1 rf;
        (v2, prf2) \<leftarrow> read_source (ir_rs2_need_map q) (ir_rs2_phy q) (ir_arg2_src q = Arg_imm) (ir_imm q) es ws rf;
        ok2 \<leftarrow> available (ir_rs2_phy q) prf2 rf;
        Some (send\<lparr>re_src1_value := v1, re_src2_value := v2, re_enable := (re_enable send \<and> ok1 \<and> ok2)\<rparr>)
      }
      else Some send)"

fun int_lanes ::
    "bru_feedback_pack_t \<Rightarrow> lu_feedback_pack_t \<Rightarrow> sau_feedback_pack_t \<Rightarrow> execute_feedback_channel_t list \<Rightarrow> wb_feedback_channel_t list \<Rightarrow>
     u32 phy_regfile \<Rightarrow> nat \<Rightarrow> integer_issue_readreg_op_info_t list \<Rightarrow> integer_readreg \<Rightarrow> integer_readreg option" where
  "int_lanes bru lf sau es ws rf i [] s = Some s"
| "int_lanes bru lf sau es ws rf i (q # qs) s =
     (if \<not> ir_enable q \<or> int_skipped bru lf sau q then int_lanes bru lf sau es ws rf (i + 1) qs s
      else do {
        p \<leftarrow> int_operands es ws rf q (int_copy q);
        s1 \<leftarrow> int_send i p s;
        int_lanes bru lf sau es ws rf (i + 1) qs s1
      })"

definition integer_readreg_run ::
    "bru_feedback_pack_t \<Rightarrow> lu_feedback_pack_t \<Rightarrow> sau_feedback_pack_t \<Rightarrow> execute_feedback_channel_t list \<Rightarrow> wb_feedback_channel_t list \<Rightarrow>
     commit_feedback_pack_t \<Rightarrow> u32 phy_regfile \<Rightarrow> integer_readreg \<Rightarrow> integer_readreg option" where
  "integer_readreg_run bru lf sau es ws commit rf s =
     (if \<not> cf_flush commit
      then let s1 = (if bru_flush bru \<or> sau_flush sau
                     then on_units (kill_held bru sau (\<lambda>p. (re_rob_id p, re_rob_id_stage p))) s else s)
           in int_lanes bru lf sau es ws rf 0 (take INTEGER_ISSUE_WIDTH (port_get (ird_port s))) s1
      else Some (on_units hs_flush s))"

subsection \<open>The load and store stage\<close>

record lsu_readreg =
  lrd_port :: "lsu_issue_readreg_op_info_t list port"
  lrd_lu :: "lsu_readreg_execute_pack_t handshake_dff list"
  lrd_sau :: "lsu_readreg_execute_pack_t handshake_dff list"
  lrd_sdu :: "lsu_readreg_execute_pack_t handshake_dff list"
  lrd_busy :: bool
  lrd_hold :: "lsu_issue_readreg_op_info_t list"

definition lrd_sync :: "lsu_readreg \<Rightarrow> lsu_readreg" where
  "lrd_sync s = s\<lparr>lrd_port := (lrd_port s)\<lparr>port_value := dff_sync (port_value (lrd_port s))\<rparr>,
     lrd_lu := map hs_sync (lrd_lu s), lrd_sau := map hs_sync (lrd_sau s), lrd_sdu := map hs_sync (lrd_sdu s)\<rparr>"

definition lsu_readreg_reset :: "lsu_readreg \<Rightarrow> lsu_readreg" where
  "lsu_readreg_reset s = s\<lparr>lrd_busy := False, lrd_hold := replicate LSU_ISSUE_WIDTH lsu_issue_readreg_op_info_make\<rparr>"

definition on_lsu_units :: "(lsu_readreg_execute_pack_t handshake_dff \<Rightarrow> lsu_readreg_execute_pack_t handshake_dff) \<Rightarrow>
    lsu_readreg \<Rightarrow> lsu_readreg" where
  "on_lsu_units g s = s\<lparr>lrd_lu := map g (lrd_lu s), lrd_sau := map g (lrd_sau s), lrd_sdu := map g (lrd_sdu s)\<rparr>"

definition lsu_send :: "lsu_readreg_execute_pack_t \<Rightarrow> lsu_readreg \<Rightarrow> lsu_readreg option" where
  "lsu_send p s =
     (case lp_op_unit p of
        Cunit_lu \<Rightarrow> do { hs \<leftarrow> push_at 0 p (lrd_lu s); Some (s\<lparr>lrd_lu := hs\<rparr>) }
      | Cunit_sau \<Rightarrow> do { hs \<leftarrow> push_at 0 p (lrd_sau s); Some (s\<lparr>lrd_sau := hs\<rparr>) }
      | Cunit_sdu \<Rightarrow> do { hs \<leftarrow> push_at 0 p (lrd_sdu s); Some (s\<lparr>lrd_sdu := hs\<rparr>) }
      | _ \<Rightarrow> None)"

definition lsu_copy :: "lsu_issue_readreg_op_info_t \<Rightarrow> lsu_readreg_execute_pack_t" where
  "lsu_copy q =
     \<lparr>lp_inst_common_info = lr_inst_common_info q, lp_enable = lr_enable q, lp_value = lr_value q, lp_valid = lr_valid q,
      lp_last_uop = lr_last_uop q, lp_rob_id = lr_rob_id q, lp_rob_id_stage = lr_rob_id_stage q, lp_pc = lr_pc q,
      lp_imm = lr_imm q, lp_has_exception = lr_has_exception q, lp_exception_id = lr_exception_id q,
      lp_exception_value = lr_exception_value q, lp_branch_predictor_info_pack = lr_branch_predictor_info_pack q,
      lp_rs1 = lr_rs1 q, lp_arg1_src = lr_arg1_src q, lp_rs1_need_map = lr_rs1_need_map q, lp_rs1_phy = lr_rs1_phy q,
      lp_src1_value = 0,
      lp_rs2 = lr_rs2 q, lp_arg2_src = lr_arg2_src q, lp_rs2_need_map = lr_rs2_need_map q, lp_rs2_phy = lr_rs2_phy q,
      lp_src2_value = 0,
      lp_rd = lr_rd q, lp_rd_enable = lr_rd_enable q, lp_need_rename = lr_need_rename q, lp_rd_phy = lr_rd_phy q,
      lp_csr = lr_csr q, lp_store_buffer_id = lr_store_buffer_id q, lp_load_queue_id = lr_load_queue_id q,
      lp_op = lr_op q, lp_op_unit = lr_op_unit q, lp_sub_op = lr_sub_op q\<rparr>"

definition lsu_skipped ::
    "bru_feedback_pack_t \<Rightarrow> lu_feedback_pack_t \<Rightarrow> sau_feedback_pack_t \<Rightarrow> lsu_issue_readreg_op_info_t \<Rightarrow> bool" where
  "lsu_skipped bru lf sau q \<longleftrightarrow>
     bru_kills bru (lr_rob_id q) (lr_rob_id_stage q) \<or> sau_kills sau (lr_rob_id q) (lr_rob_id_stage q) \<or>
     luf_replay lf \<and> lr_lpv q AND 1 \<noteq> 0"

text \<open>The second operand looks at \<^verbatim>\<open>arg1_src\<close>, as the source does.\<close>

definition lsu_operands ::
    "execute_feedback_channel_t list \<Rightarrow> wb_feedback_channel_t list \<Rightarrow> u32 phy_regfile \<Rightarrow> lsu_issue_readreg_op_info_t \<Rightarrow>
     lsu_readreg_execute_pack_t \<Rightarrow> lsu_readreg_execute_pack_t option" where
  "lsu_operands es ws rf q send =
     (if lr_valid q \<and> \<not> lr_has_exception q
      then do {
        (v1, prf1) \<leftarrow> read_source (lr_rs1_need_map q) (lr_rs1_phy q) (lr_arg1_src q = Arg_imm) (lr_imm q) es ws rf;
        (v2, prf2) \<leftarrow> read_source (lr_rs2_need_map q) (lr_rs2_phy q) (lr_arg1_src q = Arg_imm) (lr_imm q) es ws rf;
        Some (send\<lparr>lp_src1_value := v1, lp_src2_value := v2\<rparr>)
      }
      else Some send)"

fun lsu_lanes ::
    "bru_feedback_pack_t \<Rightarrow> lu_feedback_pack_t \<Rightarrow> sau_feedback_pack_t \<Rightarrow> execute_feedback_channel_t list \<Rightarrow> wb_feedback_channel_t list \<Rightarrow>
     u32 phy_regfile \<Rightarrow> lsu_issue_readreg_op_info_t list \<Rightarrow> lsu_readreg \<Rightarrow> lsu_readreg option" where
  "lsu_lanes bru lf sau es ws rf [] s = Some s"
| "lsu_lanes bru lf sau es ws rf (q # qs) s =
     (if \<not> lr_enable q \<or> lsu_skipped bru lf sau q then lsu_lanes bru lf sau es ws rf qs s
      else do {
        p \<leftarrow> lsu_operands es ws rf q (lsu_copy q);
        s1 \<leftarrow> lsu_send p s;
        lsu_lanes bru lf sau es ws rf qs s1
      })"

text \<open>
  While the load unit stalls, the stage keeps what has not been flushed or replayed; a lane that is dropped keeps
  the rest of its old contents with \<^verbatim>\<open>enable\<close> cleared.
\<close>

definition lsu_hold_lane ::
    "bru_feedback_pack_t \<Rightarrow> lu_feedback_pack_t \<Rightarrow> sau_feedback_pack_t \<Rightarrow> lsu_issue_readreg_op_info_t \<Rightarrow> lsu_issue_readreg_op_info_t \<Rightarrow>
     lsu_issue_readreg_op_info_t" where
  "lsu_hold_lane bru lf sau old q = (if lr_enable q \<and> lsu_skipped bru lf sau q then old\<lparr>lr_enable := False\<rparr> else q)"

definition lsu_readreg_run ::
    "bru_feedback_pack_t \<Rightarrow> lu_feedback_pack_t \<Rightarrow> sau_feedback_pack_t \<Rightarrow> execute_feedback_channel_t list \<Rightarrow> wb_feedback_channel_t list \<Rightarrow>
     commit_feedback_pack_t \<Rightarrow> u32 phy_regfile \<Rightarrow> lsu_readreg \<Rightarrow> (bool \<times> lsu_readreg) option" where
  "lsu_readreg_run bru lf sau es ws commit rf s =
     (let stall = lrd_busy s in
      if \<not> cf_flush commit
      then do {
        let s1 = (if bru_flush bru \<or> sau_flush sau
                  then on_lsu_units (kill_held bru sau (\<lambda>p. (lp_rob_id p, lp_rob_id_stage p))) s else s);
        let rev_pack = (if lrd_busy s then lrd_hold s else port_get (lrd_port s));
        let s2 = s1\<lparr>lrd_busy := False\<rparr>;
        (if \<not> luf_stall lf
         then do { s3 \<leftarrow> lsu_lanes bru lf sau es ws rf (take LSU_ISSUE_WIDTH rev_pack) s2; Some (stall, s3) }
         else Some (stall, s2\<lparr>lrd_busy := True,
                lrd_hold := map2 (lsu_hold_lane bru lf sau) (lrd_hold s) (take LSU_ISSUE_WIDTH rev_pack)\<rparr>))
      }
      else Some (stall, lsu_readreg_reset (on_lsu_units hs_flush s)))"

subsection \<open>Properties\<close>

text \<open>\<open>V\<close> gives the value each physical register stands for: what is reported and what the file marks as valid agrees with it.\<close>

definition sources_agree ::
    "(nat \<Rightarrow> u32) \<Rightarrow> execute_feedback_channel_t list \<Rightarrow> wb_feedback_channel_t list \<Rightarrow> u32 phy_regfile \<Rightarrow> bool" where
  "sources_agree V es ws rf \<longleftrightarrow>
     (\<forall>e \<in> set (take FEEDBACK_EXECUTE_UNIT_NUM es). fb_enable e \<longrightarrow> fb_value e = V (fb_phy_id e)) \<and>
     (\<forall>w \<in> set (take FEEDBACK_EXECUTE_UNIT_NUM ws). wf_enable w \<longrightarrow> wf_value w = V (wf_phy_id w)) \<and>
     (\<forall>p. read_data_valid rf p = Some True \<longrightarrow> phy_regfile_read rf p = Some (V p))"

definition ready :: "bool \<Rightarrow> nat \<Rightarrow> execute_feedback_channel_t list \<Rightarrow> wb_feedback_channel_t list \<Rightarrow> u32 phy_regfile \<Rightarrow> bool" where
  "ready need_map p es ws rf \<longleftrightarrow> need_map \<longrightarrow>
     feedback_value p (take FEEDBACK_EXECUTE_UNIT_NUM es) (take FEEDBACK_EXECUTE_UNIT_NUM ws) \<noteq> None \<or> read_data_valid rf p = Some True"

definition operand :: "(nat \<Rightarrow> u32) \<Rightarrow> bool \<Rightarrow> nat \<Rightarrow> bool \<Rightarrow> u32 \<Rightarrow> u32" where
  "operand V need_map p from_imm imm = (if need_map then V p else if from_imm then imm else 0)"

lemma feedback_agrees:
  "feedback_value p es ws = Some x \<Longrightarrow> \<forall>e \<in> set es. fb_enable e \<longrightarrow> fb_value e = V (fb_phy_id e) \<Longrightarrow>
   \<forall>w \<in> set ws. wf_enable w \<longrightarrow> wf_value w = V (wf_phy_id w) \<Longrightarrow> x = V p"
  by (induction p es ws rule: feedback_value.induct) (auto split: if_splits)

lemma read_source_exact:
  assumes "sources_agree V es ws rf" and "need_map \<longrightarrow> p < rf_size rf"
  shows "\<exists>v prf ok. read_source need_map p from_imm imm es ws rf = Some (v, prf) \<and> available p prf rf = Some ok \<and>
    ok = ready need_map p es ws rf \<and> (ok \<longrightarrow> v = operand V need_map p from_imm imm)"
proof (cases need_map)
  case True
  let ?f = "feedback_value p (take FEEDBACK_EXECUTE_UNIT_NUM es) (take FEEDBACK_EXECUTE_UNIT_NUM ws)"
  obtain v where v: "phy_regfile_read rf p = Some v" using assms(2) True by (simp add: phy_regfile_read_def)
  obtain b where b: "read_data_valid rf p = Some b" using assms(2) True by (simp add: read_data_valid_def)
  have x: "?f = Some x \<Longrightarrow> x = V p" for x using feedback_agrees[of p _ _ x V] assms(1) by (auto simp: sources_agree_def)
  have "b \<Longrightarrow> v = V p" using v b assms(1) by (auto simp: sources_agree_def)
  then show ?thesis using True v b x by (cases ?f) (auto simp: read_source_def available_def ready_def operand_def)
next
  case False
  then show ?thesis
    by (intro exI[of _ "if from_imm then imm else 0"] exI[of _ False] exI[of _ True])
      (simp add: read_source_def available_def ready_def operand_def)
qed

definition int_slot :: "nat \<Rightarrow> cycle_unit_t \<Rightarrow> integer_readreg \<Rightarrow> integer_readreg_execute_pack_t handshake_dff option" where
  "int_slot i u s =
     (if i = 0
      then (case u of Cunit_alu \<Rightarrow> Some (ird_alu s ! 0) | Cunit_bru \<Rightarrow> Some (ird_bru s ! 0) | Cunit_csr \<Rightarrow> Some (ird_csr s ! 0)
            | Cunit_mul \<Rightarrow> Some (ird_mul s ! 0) | _ \<Rightarrow> None)
      else (case u of Cunit_alu \<Rightarrow> Some (ird_alu s ! 1) | Cunit_div \<Rightarrow> Some (ird_div s ! 0)
            | Cunit_mul \<Rightarrow> Some (ird_mul s ! 1) | _ \<Rightarrow> None))"

definition units_free :: "integer_readreg \<Rightarrow> bool" where
  "units_free s \<longleftrightarrow> length (ird_alu s) = 2 \<and> length (ird_bru s) = 1 \<and> length (ird_csr s) = 1 \<and> length (ird_div s) = 1 \<and>
     length (ird_mul s) = 2 \<and>
     (\<forall>h \<in> set (ird_alu s @ ird_bru s @ ird_csr s @ ird_div s @ ird_mul s). \<not> hs_is_full h)"

text \<open>What a unit gets of the operation \<open>q\<close>.\<close>

definition received ::
    "(nat \<Rightarrow> u32) \<Rightarrow> execute_feedback_channel_t list \<Rightarrow> wb_feedback_channel_t list \<Rightarrow> u32 phy_regfile \<Rightarrow>
     integer_issue_readreg_op_info_t \<Rightarrow> integer_readreg_execute_pack_t \<Rightarrow> bool" where
  "received V es ws rf q p \<longleftrightarrow>
     p\<lparr>re_src1_value := 0, re_src2_value := 0, re_enable := True\<rparr> = int_copy q \<and>
     (ir_valid q \<and> \<not> ir_has_exception q \<longrightarrow>
        re_enable p = (ready (ir_rs1_need_map q) (ir_rs1_phy q) es ws rf \<and> ready (ir_rs2_need_map q) (ir_rs2_phy q) es ws rf) \<and>
        (re_enable p \<longrightarrow>
          re_src1_value p = operand V (ir_rs1_need_map q) (ir_rs1_phy q) (ir_arg1_src q = Arg_imm) (ir_imm q) \<and>
          re_src2_value p = operand V (ir_rs2_need_map q) (ir_rs2_phy q) (ir_arg2_src q = Arg_imm) (ir_imm q)))"

lemma int_operands_received:
  assumes "sources_agree V es ws rf" and "ir_enable q"
    and "ir_rs1_need_map q \<longrightarrow> ir_rs1_phy q < rf_size rf" and "ir_rs2_need_map q \<longrightarrow> ir_rs2_phy q < rf_size rf"
  shows "\<exists>p. int_operands es ws rf q (int_copy q) = Some p \<and> received V es ws rf q p \<and> re_op_unit p = ir_op_unit q"
proof (cases "ir_valid q \<and> \<not> ir_has_exception q")
  case True
  obtain v1 prf1 ok1 where a: "read_source (ir_rs1_need_map q) (ir_rs1_phy q) (ir_arg1_src q = Arg_imm) (ir_imm q) es ws rf = Some (v1, prf1)"
    "available (ir_rs1_phy q) prf1 rf = Some ok1" "ok1 = ready (ir_rs1_need_map q) (ir_rs1_phy q) es ws rf"
    "ok1 \<longrightarrow> v1 = operand V (ir_rs1_need_map q) (ir_rs1_phy q) (ir_arg1_src q = Arg_imm) (ir_imm q)"
    using read_source_exact[OF assms(1,3), of "ir_arg1_src q = Arg_imm" "ir_imm q"] by (elim exE conjE) (rule that; assumption)
  obtain v2 prf2 ok2 where b: "read_source (ir_rs2_need_map q) (ir_rs2_phy q) (ir_arg2_src q = Arg_imm) (ir_imm q) es ws rf = Some (v2, prf2)"
    "available (ir_rs2_phy q) prf2 rf = Some ok2" "ok2 = ready (ir_rs2_need_map q) (ir_rs2_phy q) es ws rf"
    "ok2 \<longrightarrow> v2 = operand V (ir_rs2_need_map q) (ir_rs2_phy q) (ir_arg2_src q = Arg_imm) (ir_imm q)"
    using read_source_exact[OF assms(1,4), of "ir_arg2_src q = Arg_imm" "ir_imm q"] by (elim exE conjE) (rule that; assumption)
  let ?p = "(int_copy q)\<lparr>re_src1_value := v1, re_src2_value := v2, re_enable := ok1 \<and> ok2\<rparr>"
  have "int_operands es ws rf q (int_copy q) = Some ?p" using True a(1,2) b(1,2) assms(2) by (simp add: int_operands_def int_copy_def)
  moreover have "received V es ws rf q ?p" using a(3,4) b(3,4) assms(2) by (simp add: received_def int_copy_def)
  ultimately show ?thesis by (simp add: int_copy_def)
next
  case False
  then have "int_operands es ws rf q (int_copy q) = Some (int_copy q)" by (auto simp: int_operands_def)
  moreover have "(int_copy q)\<lparr>re_src1_value := 0, re_src2_value := 0, re_enable := True\<rparr> = int_copy q"
    using assms(2) by (simp add: int_copy_def)
  moreover have "re_op_unit (int_copy q) = ir_op_unit q" by (simp add: int_copy_def)
  moreover have "received V es ws rf q (int_copy q)" unfolding received_def using False calculation(2) by blast
  ultimately show ?thesis by blast
qed

lemma kill_held_free: "\<not> hs_is_full h \<Longrightarrow> \<not> hs_is_full (kill_held bru sau f h)"
  by (auto simp: kill_held_def hs_is_full_def hs_flush_def dff_get_new_def dff_set_def Let_def split: option.split prod.split)

lemma kill_units_free: "units_free s \<Longrightarrow> units_free (on_units (kill_held bru sau f) s)"
  by (auto simp: units_free_def on_units_def kill_held_free)

lemma free_empty: "\<not> hs_is_full h \<Longrightarrow> hs_get_data (hs_sync h) = None"
  by (simp add: hs_is_full_def hs_get_data_def hs_is_empty_def hs_sync_def dff_get_def dff_get_new_def dff_sync_def)

lemma push_free:
  "\<not> hs_is_full h \<Longrightarrow> \<exists>h'. hs_push p h = (True, h') \<and> hs_get_data (hs_sync h') = Some p"
  by (simp add: hs_push_def hs_get_data_def hs_is_empty_def hs_sync_def dff_get_def dff_set_def dff_sync_def)

text \<open>One lane fills its own register and leaves the others, so that the second finds what it needs.\<close>

lemma int_send_slot:
  assumes "int_slot i (re_op_unit p) s = Some h" and "\<not> hs_is_full h" and "i < 2"
    and len: "length (ird_alu s) = 2" "length (ird_bru s) = 1" "length (ird_csr s) = 1" "length (ird_div s) = 1" "length (ird_mul s) = 2"
  shows "\<exists>s' h'. int_send i p s = Some s' \<and> int_slot i (re_op_unit p) s' = Some h' \<and> hs_get_data (hs_sync h') = Some p \<and>
    (\<forall>j u. j < 2 \<and> (j, u) \<noteq> (i, re_op_unit p) \<longrightarrow> int_slot j u s' = int_slot j u s) \<and>
    length (ird_alu s') = 2 \<and> length (ird_bru s') = 1 \<and> length (ird_csr s') = 1 \<and> length (ird_div s') = 1 \<and> length (ird_mul s') = 2"
proof -
  obtain h' where h': "hs_push p h = (True, h')" "hs_get_data (hs_sync h') = Some p" using push_free[OF assms(2)] by blast
  have i: "i = 0 \<or> i = 1" using assms(3) by auto
  from i show ?thesis
    using assms(1) h' len
    by (elim disjE; cases "re_op_unit p")
      (auto simp: int_send_def int_slot_def push_at_def nth_list_update split: cycle_unit_t.split)
qed

definition lane_ok :: "u32 phy_regfile \<Rightarrow> nat \<Rightarrow> integer_issue_readreg_op_info_t \<Rightarrow> bool" where
  "lane_ok rf i q \<longleftrightarrow> ir_enable q \<longrightarrow>
     (if i = 0 then ir_op_unit q \<in> {Cunit_alu, Cunit_bru, Cunit_csr, Cunit_mul} else ir_op_unit q \<in> {Cunit_alu, Cunit_div, Cunit_mul}) \<and>
     (ir_rs1_need_map q \<longrightarrow> ir_rs1_phy q < rf_size rf) \<and> (ir_rs2_need_map q \<longrightarrow> ir_rs2_phy q < rf_size rf)"

definition lane_live :: "bru_feedback_pack_t \<Rightarrow> lu_feedback_pack_t \<Rightarrow> sau_feedback_pack_t \<Rightarrow> integer_issue_readreg_op_info_t \<Rightarrow> bool" where
  "lane_live bru lf sau q \<longleftrightarrow> ir_enable q \<and> \<not> int_skipped bru lf sau q"

lemma lane_step:
  assumes "sources_agree V es ws rf" and "lane_ok rf i q" and "i < 2" and "\<forall>u h. int_slot i u s = Some h \<longrightarrow> \<not> hs_is_full h"
    and len: "length (ird_alu s) = 2" "length (ird_bru s) = 1" "length (ird_csr s) = 1" "length (ird_div s) = 1" "length (ird_mul s) = 2"
  shows "\<exists>s'. int_lanes bru lf sau es ws rf i (q # qs) s = int_lanes bru lf sau es ws rf (i + 1) qs s' \<and>
    (\<forall>u h. int_slot i u s' = Some h \<longrightarrow> (case hs_get_data (hs_sync h) of
        None \<Rightarrow> \<not> (lane_live bru lf sau q \<and> ir_op_unit q = u)
      | Some p \<Rightarrow> lane_live bru lf sau q \<and> ir_op_unit q = u \<and> received V es ws rf q p)) \<and>
    (\<forall>j u. j < 2 \<and> j \<noteq> i \<longrightarrow> int_slot j u s' = int_slot j u s) \<and>
    length (ird_alu s') = 2 \<and> length (ird_bru s') = 1 \<and> length (ird_csr s') = 1 \<and> length (ird_div s') = 1 \<and> length (ird_mul s') = 2"
proof (cases "lane_live bru lf sau q")
  case False
  have "hs_get_data (hs_sync h) = None" if "int_slot i u s = Some h" for u h using assms(4) that free_empty by blast
  then show ?thesis using False len by (intro exI[of _ s]) (auto simp: lane_live_def)
next
  case True
  then have en: "ir_enable q" "\<not> int_skipped bru lf sau q" by (simp_all add: lane_live_def)
  have b: "ir_rs1_need_map q \<longrightarrow> ir_rs1_phy q < rf_size rf" "ir_rs2_need_map q \<longrightarrow> ir_rs2_phy q < rf_size rf"
    using assms(2) en(1) by (simp_all add: lane_ok_def)
  obtain p where p: "int_operands es ws rf q (int_copy q) = Some p" "received V es ws rf q p" "re_op_unit p = ir_op_unit q"
    using int_operands_received[OF assms(1) en(1) b] by blast
  have "int_slot i (ir_op_unit q) s \<noteq> None"
    using assms(2) en(1) by (auto simp: lane_ok_def int_slot_def split: if_splits)
  then obtain h where h: "int_slot i (re_op_unit p) s = Some h" using p(3) by auto
  have hf: "\<not> hs_is_full h" using assms(4) h by blast
  obtain s' h' where s': "int_send i p s = Some s'" "int_slot i (re_op_unit p) s' = Some h'" "hs_get_data (hs_sync h') = Some p"
    "\<forall>j u. j < 2 \<and> (j, u) \<noteq> (i, re_op_unit p) \<longrightarrow> int_slot j u s' = int_slot j u s"
    "length (ird_alu s') = 2" "length (ird_bru s') = 1" "length (ird_csr s') = 1" "length (ird_div s') = 1" "length (ird_mul s') = 2"
    using int_send_slot[OF h hf assms(3) len] by blast
  have run: "int_lanes bru lf sau es ws rf i (q # qs) s = int_lanes bru lf sau es ws rf (i + 1) qs s'"
    using en p(1) s'(1) by simp
  have slots: "case hs_get_data (hs_sync g) of None \<Rightarrow> \<not> (lane_live bru lf sau q \<and> ir_op_unit q = u)
      | Some p \<Rightarrow> lane_live bru lf sau q \<and> ir_op_unit q = u \<and> received V es ws rf q p" if "int_slot i u s' = Some g" for u g
  proof (cases "u = re_op_unit p")
    case True
    then have "g = h'" using that s'(2) by simp
    then show ?thesis using s'(3) p \<open>lane_live bru lf sau q\<close> True by simp
  next
    case u: False
    then have "int_slot i u s = Some g" using that s'(4) assms(3) by auto
    then have "hs_get_data (hs_sync g) = None" using assms(4) free_empty by blast
    then show ?thesis using u p(3) by auto
  qed
  show ?thesis using run slots s'(4-9) by (intro exI[of _ s']) auto
qed

text \<open>
  C21. Register read gives every operation its operands. Let every physical register stand for a value, with which
  what the units and write back report, and what the register file holds as valid, agree. If the units have taken what they had and the two lanes
  hold operations their units can execute, the cycle does not abort, and after the clock edge a unit of a lane has something exactly when
  the operation of the lane is for this unit and neither flushed nor replayed; that operation then arrives unchanged, with the values of
  its source registers or its immediate, and it is enabled exactly when both sources were reported or valid.
\<close>

theorem integer_readreg_exact:
  assumes "sources_agree V es ws rf" and "\<not> cf_flush commit" and "units_free s" and "port_get (ird_port s) = [q0, q1]"
    and "lane_ok rf 0 q0" and "lane_ok rf 1 q1"
  shows "\<exists>s'. integer_readreg_run bru lf sau es ws commit rf s = Some s' \<and>
    (\<forall>i < 2. \<forall>u h. int_slot i u s' = Some h \<longrightarrow> (let q = [q0, q1] ! i in
       case hs_get_data (hs_sync h) of
         None \<Rightarrow> \<not> (lane_live bru lf sau q \<and> ir_op_unit q = u)
       | Some p \<Rightarrow> lane_live bru lf sau q \<and> ir_op_unit q = u \<and> received V es ws rf q p))"
proof -
  define s1 where "s1 = (if bru_flush bru \<or> sau_flush sau
    then on_units (kill_held bru sau (\<lambda>p. (re_rob_id p, re_rob_id_stage p))) s else s)"
  have fr: "units_free s1" using kill_units_free[OF assms(3)] assms(3) by (simp add: s1_def)
  then have len: "length (ird_alu s1) = 2" "length (ird_bru s1) = 1" "length (ird_csr s1) = 1" "length (ird_div s1) = 1" "length (ird_mul s1) = 2"
    by (simp_all add: units_free_def)
  have free: "\<not> hs_is_full h" if "int_slot i u s1 = Some h" for i u h
    using that fr len by (auto simp: int_slot_def units_free_def split: if_splits cycle_unit_t.splits)
  have free1: "\<forall>u h. int_slot 0 u s1 = Some h \<longrightarrow> \<not> hs_is_full h" using free by blast
  have two: "(0::nat) < 2" "(1::nat) < 2" by simp_all
  obtain s2 where a: "int_lanes bru lf sau es ws rf 0 [q0, q1] s1 = int_lanes bru lf sau es ws rf (0 + 1) [q1] s2"
    "\<forall>u h. int_slot 0 u s2 = Some h \<longrightarrow> (case hs_get_data (hs_sync h) of
        None \<Rightarrow> \<not> (lane_live bru lf sau q0 \<and> ir_op_unit q0 = u)
      | Some p \<Rightarrow> lane_live bru lf sau q0 \<and> ir_op_unit q0 = u \<and> received V es ws rf q0 p)"
    "\<forall>j u. j < 2 \<and> j \<noteq> 0 \<longrightarrow> int_slot j u s2 = int_slot j u s1"
    "length (ird_alu s2) = 2" "length (ird_bru s2) = 1" "length (ird_csr s2) = 1" "length (ird_div s2) = 1" "length (ird_mul s2) = 2"
    using lane_step[OF assms(1,5) two(1) free1 len, of bru lf sau "[q1]"] by (elim exE conjE) (rule that; assumption)
  have free2: "\<forall>u h. int_slot 1 u s2 = Some h \<longrightarrow> \<not> hs_is_full h" using a(3) free by auto
  obtain s3 where b: "int_lanes bru lf sau es ws rf 1 [q1] s2 = int_lanes bru lf sau es ws rf (1 + 1) [] s3"
    "\<forall>u h. int_slot 1 u s3 = Some h \<longrightarrow> (case hs_get_data (hs_sync h) of
        None \<Rightarrow> \<not> (lane_live bru lf sau q1 \<and> ir_op_unit q1 = u)
      | Some p \<Rightarrow> lane_live bru lf sau q1 \<and> ir_op_unit q1 = u \<and> received V es ws rf q1 p)"
    "\<forall>j u. j < 2 \<and> j \<noteq> 1 \<longrightarrow> int_slot j u s3 = int_slot j u s2"
    using lane_step[OF assms(1,6) two(2) free2 a(4-8), of bru lf sau "[]"] by (elim exE conjE) (rule that; assumption)
  have run: "integer_readreg_run bru lf sau es ws commit rf s = Some s3"
    using assms(2,4) a(1) b(1) by (simp add: integer_readreg_run_def s1_def[symmetric] Let_def INTEGER_ISSUE_WIDTH_def)
  have "case hs_get_data (hs_sync h) of None \<Rightarrow> \<not> (lane_live bru lf sau ([q0, q1] ! i) \<and> ir_op_unit ([q0, q1] ! i) = u)
      | Some p \<Rightarrow> lane_live bru lf sau ([q0, q1] ! i) \<and> ir_op_unit ([q0, q1] ! i) = u \<and> received V es ws rf ([q0, q1] ! i) p"
    if "i < 2" "int_slot i u s3 = Some h" for i u h
  proof (cases "i = 0")
    case True
    then have "int_slot 0 u s2 = Some h" and e: "[q0, q1] ! i = q0" using that b(3) by simp_all
    then show ?thesis unfolding e using a(2) by blast
  next
    case False
    then have "i = 1" using that(1) by linarith
    then have "int_slot 1 u s3 = Some h" and e: "[q0, q1] ! i = q1" using that(2) by simp_all
    then show ?thesis unfolding e using b(2) by blast
  qed
  then show ?thesis using run unfolding Let_def by blast
qed

definition demo_int_op :: "integer_issue_readreg_op_info_t" where
  "demo_int_op = integer_issue_readreg_op_info_make
     \<lparr>ir_enable := True, ir_valid := True, ir_rob_id := 3, ir_rs1_need_map := True, ir_rs1_phy := 5, ir_arg2_src := Arg_imm, ir_imm := 8\<rparr>"

definition demo_channel :: execute_feedback_channel_t where
  "demo_channel = \<lparr>fb_enable = True, fb_phy_id = 5, fb_value = 7, fb_rob_id = 2, fb_rob_id_stage = False\<rparr>"

definition demo_readreg :: integer_readreg where
  "demo_readreg =
     (let h = hs_make integer_readreg_execute_pack_make
      in \<lparr>ird_port = port_make [demo_int_op, integer_issue_readreg_op_info_make],
          ird_alu = [h, h], ird_bru = [h], ird_csr = [h], ird_div = [h], ird_mul = [h, h]\<rparr>)"

definition no_lu :: lu_feedback_pack_t where
  "no_lu = \<lparr>luf_replay = False, luf_replay_following_only = False, luf_rob_id = 0, luf_rob_id_stage = False, luf_stall = False\<rparr>"

lemma demo_readreg:
  "units_free demo_readreg" "port_get (ird_port demo_readreg) = [demo_int_op, integer_issue_readreg_op_info_make]"
  "sources_agree (\<lambda>p. if p = 5 then 7 else 0) [demo_channel] [wb_feedback_channel_make] (phy_regfile_make 8)"
  "lane_ok (phy_regfile_make 8 :: u32 phy_regfile) 0 demo_int_op" "lane_ok (phy_regfile_make 8 :: u32 phy_regfile) 1 integer_issue_readreg_op_info_make"
  "lane_live no_bru_flush no_lu no_sau_flush demo_int_op"
proof -
  have f: "\<not> hs_is_full (hs_make v)" for v :: 'b by (simp add: hs_is_full_def hs_make_def dff_get_new_def dff_set_def)
  show "units_free demo_readreg" by (simp add: units_free_def demo_readreg_def f Let_def)
  show "port_get (ird_port demo_readreg) = [demo_int_op, integer_issue_readreg_op_info_make]"
    by (simp add: demo_readreg_def port_get_def port_make_def dff_get_def dff_make_def Let_def)
  have "read_data_valid (phy_regfile_make 8 :: u32 phy_regfile) p \<noteq> Some True" for p
    by (auto simp: read_data_valid_def phy_regfile_make_def phy_regfile_reset_def dff_get_def dff_set_def dff_make_def nth_Cons'
        numeral_eq_Suc less_Suc_eq split: if_splits)
  then show "sources_agree (\<lambda>p. if p = 5 then 7 else 0) [demo_channel] [wb_feedback_channel_make] (phy_regfile_make 8)"
    by (simp add: sources_agree_def demo_channel_def wb_feedback_channel_make_def FEEDBACK_EXECUTE_UNIT_NUM_def)
  show "lane_ok (phy_regfile_make 8 :: u32 phy_regfile) 0 demo_int_op" "lane_ok (phy_regfile_make 8 :: u32 phy_regfile) 1 integer_issue_readreg_op_info_make"
    by (simp_all add: lane_ok_def demo_int_op_def integer_issue_readreg_op_info_make_def phy_regfile_make_def phy_regfile_reset_def)
  show "lane_live no_bru_flush no_lu no_sau_flush demo_int_op"
    by (simp add: lane_live_def int_skipped_def demo_int_op_def bru_kills_def sau_kills_def no_bru_flush_def no_sau_flush_def no_lu_def)
qed

theorem integer_readreg_exact_witness:
  "\<exists>s' h p. integer_readreg_run no_bru_flush no_lu no_sau_flush [demo_channel] [wb_feedback_channel_make] no_commit_flush
       (phy_regfile_make 8) demo_readreg = Some s' \<and>
     int_slot 0 Cunit_alu s' = Some h \<and> hs_get_data (hs_sync h) = Some p \<and> re_src1_value p = 7 \<and> re_src2_value p = 8"
proof -
  have c: "\<not> cf_flush no_commit_flush" by (simp add: no_commit_flush_def)
  from integer_readreg_exact[OF demo_readreg(3) c demo_readreg(1,2,4,5)] obtain s' where s':
    "integer_readreg_run no_bru_flush no_lu no_sau_flush [demo_channel] [wb_feedback_channel_make] no_commit_flush
       (phy_regfile_make 8) demo_readreg = Some s'"
    "\<forall>i < 2. \<forall>u h. int_slot i u s' = Some h \<longrightarrow> (let q = [demo_int_op, integer_issue_readreg_op_info_make] ! i in
       case hs_get_data (hs_sync h) of
         None \<Rightarrow> \<not> (lane_live no_bru_flush no_lu no_sau_flush q \<and> ir_op_unit q = u)
       | Some p \<Rightarrow> lane_live no_bru_flush no_lu no_sau_flush q \<and> ir_op_unit q = u \<and>
           received (\<lambda>p. if p = 5 then 7 else 0) [demo_channel] [wb_feedback_channel_make] (phy_regfile_make 8) q p)"
    by blast
  obtain h where h: "int_slot 0 Cunit_alu s' = Some h" by (simp add: int_slot_def)
  have u: "ir_op_unit demo_int_op = Cunit_alu" by (simp add: demo_int_op_def integer_issue_readreg_op_info_make_def)
  have "case hs_get_data (hs_sync h) of None \<Rightarrow> False
    | Some p \<Rightarrow> received (\<lambda>p. if p = 5 then 7 else 0) [demo_channel] [wb_feedback_channel_make] (phy_regfile_make 8) demo_int_op p"
    using s'(2)[rule_format, of 0 Cunit_alu h] h u demo_readreg(6) by (simp split: option.splits)
  then obtain p where p: "hs_get_data (hs_sync h) = Some p"
    "received (\<lambda>p. if p = 5 then 7 else 0) [demo_channel] [wb_feedback_channel_make] (phy_regfile_make 8) demo_int_op p"
    by (auto split: option.splits)
  have "re_src1_value p = 7 \<and> re_src2_value p = 8"
    using p(2) by (simp add: received_def demo_int_op_def integer_issue_readreg_op_info_make_def ready_def operand_def
        demo_channel_def wb_feedback_channel_make_def FEEDBACK_EXECUTE_UNIT_NUM_def)
  then show ?thesis using s'(1) h p(1) by blast
qed

subsection \<open>Stalled loads and stores\<close>

text \<open>A cycle in which the load unit stalls the stage: the feedback of the cycle, and what issue puts into the port.\<close>

type_synonym stall_cycle =
  "bru_feedback_pack_t \<times> lu_feedback_pack_t \<times> sau_feedback_pack_t \<times> execute_feedback_channel_t list \<times> wb_feedback_channel_t list \<times>
   commit_feedback_pack_t \<times> u32 phy_regfile \<times> lsu_issue_readreg_op_info_t list port"

definition stalls :: "stall_cycle \<Rightarrow> bool" where
  "stalls x = (case x of (bru, lf, sau, es, ws, commit, rf, port) \<Rightarrow> luf_stall lf \<and> \<not> cf_flush commit)"

definition spared :: "stall_cycle \<Rightarrow> lsu_issue_readreg_op_info_t \<Rightarrow> bool" where
  "spared x q = (case x of (bru, lf, sau, es, ws, commit, rf, port) \<Rightarrow> \<not> lsu_skipped bru lf sau q)"

fun stall_run :: "stall_cycle list \<Rightarrow> lsu_readreg \<Rightarrow> lsu_readreg option" where
  "stall_run [] s = Some s"
| "stall_run ((bru, lf, sau, es, ws, commit, rf, port) # xs) s =
     do { (stall, s1) \<leftarrow> lsu_readreg_run bru lf sau es ws commit rf s; stall_run xs (lrd_sync (s1\<lparr>lrd_port := port\<rparr>)) }"

lemma hold_lanes:
  "length old = length qs \<Longrightarrow> filter lr_enable (map2 (lsu_hold_lane bru lf sau) old qs) =
     filter (\<lambda>q. lr_enable q \<and> \<not> lsu_skipped bru lf sau q) qs"
  by (induction old qs rule: list_induct2) (auto simp: lsu_hold_lane_def)

lemma lanes_enabled: "lsu_lanes bru lf sau es ws rf qs s = lsu_lanes bru lf sau es ws rf (filter lr_enable qs) s"
proof (induction qs arbitrary: s)
  case (Cons q qs)
  show ?case
  proof (cases "lr_enable q \<and> \<not> lsu_skipped bru lf sau q")
    case True
    then show ?thesis using Cons.IH by (auto split: Option.bind_splits)
  next
    case False
    then show ?thesis using Cons.IH[of s] by auto
  qed
qed simp

lemma stall_step:
  assumes "stalls (bru, lf, sau, es, ws, commit, rf, port)" and "length (lrd_hold s) = LSU_ISSUE_WIDTH"
    and "length (if lrd_busy s then lrd_hold s else port_get (lrd_port s)) = LSU_ISSUE_WIDTH"
  shows "\<exists>s1. lsu_readreg_run bru lf sau es ws commit rf s = Some (lrd_busy s, s1) \<and> lrd_busy s1 \<and> length (lrd_hold s1) = LSU_ISSUE_WIDTH \<and>
    filter lr_enable (lrd_hold s1) =
      filter (\<lambda>q. lr_enable q \<and> \<not> lsu_skipped bru lf sau q) (if lrd_busy s then lrd_hold s else port_get (lrd_port s))"
proof -
  let ?q = "if lrd_busy s then lrd_hold s else port_get (lrd_port s)"
  have t: "take LSU_ISSUE_WIDTH ?q = ?q" using assms(3) by simp
  have "filter lr_enable (map2 (lsu_hold_lane bru lf sau) (lrd_hold s) (take LSU_ISSUE_WIDTH ?q)) =
      filter (\<lambda>q. lr_enable q \<and> \<not> lsu_skipped bru lf sau q) ?q"
    unfolding t by (rule hold_lanes) (use assms(2,3) in simp)
  then show ?thesis using assms unfolding stalls_def lsu_readreg_run_def Let_def by simp
qed

lemma stall_run_holds:
  assumes "\<forall>x \<in> set xs. stalls x" and "lrd_busy s" and "length (lrd_hold s) = LSU_ISSUE_WIDTH"
  shows "\<exists>s'. stall_run xs s = Some s' \<and> lrd_busy s' \<and> length (lrd_hold s') = LSU_ISSUE_WIDTH \<and>
    filter lr_enable (lrd_hold s') = filter (\<lambda>q. lr_enable q \<and> (\<forall>x \<in> set xs. spared x q)) (lrd_hold s)"
  using assms
proof (induction xs arbitrary: s)
  case (Cons x xs)
  obtain bru lf sau es ws commit rf port where x: "x = (bru, lf, sau, es, ws, commit, rf, port)" by (cases x) auto
  have st: "stalls (bru, lf, sau, es, ws, commit, rf, port)" using Cons.prems(1) x by simp
  obtain s1 where s1: "lsu_readreg_run bru lf sau es ws commit rf s = Some (True, s1)" "lrd_busy s1" "length (lrd_hold s1) = LSU_ISSUE_WIDTH"
    "filter lr_enable (lrd_hold s1) = filter (\<lambda>q. lr_enable q \<and> \<not> lsu_skipped bru lf sau q) (lrd_hold s)"
    using stall_step[OF st Cons.prems(3)] Cons.prems(2,3) by auto
  let ?s = "lrd_sync (s1\<lparr>lrd_port := port\<rparr>)"
  have h: "lrd_busy ?s" "lrd_hold ?s = lrd_hold s1" using s1(2) by (simp_all add: lrd_sync_def)
  obtain s' where s': "stall_run xs ?s = Some s'" "lrd_busy s'" "length (lrd_hold s') = LSU_ISSUE_WIDTH"
    "filter lr_enable (lrd_hold s') = filter (\<lambda>q. lr_enable q \<and> (\<forall>x \<in> set xs. spared x q)) (lrd_hold ?s)"
    using Cons.IH[of ?s] Cons.prems(1) h s1(3) by auto
  have "filter (\<lambda>q. lr_enable q \<and> (\<forall>x \<in> set xs. spared x q)) (lrd_hold s1)
      = filter (\<lambda>q. \<forall>x \<in> set xs. spared x q) (filter lr_enable (lrd_hold s1))" by (simp add: conj_commute)
  also have "\<dots> = filter (\<lambda>q. lr_enable q \<and> (\<forall>x \<in> set (x # xs). spared x q)) (lrd_hold s)"
    unfolding s1(4) by (auto simp: x spared_def intro: filter_cong)
  finally show ?case using s' s1(1) h by (intro exI[of _ s']) (simp add: x)
qed simp

text \<open>
  C22. A stalled load or store is neither lost nor executed twice. While the load unit stalls, for any number of cycles, and whatever
  issue puts into the port meanwhile, the stage keeps the operations it had taken; in the first cycle without a stall it sends to the
  units exactly those of them that no flush or replay of the stalled cycles covers, in their order, and reads their operands then.
\<close>

theorem lsu_readreg_keeps_stalled:
  assumes "cs \<noteq> []" and "\<forall>x \<in> set cs. stalls x" and "\<not> lrd_busy s" and "length (lrd_hold s) = LSU_ISSUE_WIDTH"
    and "length (port_get (lrd_port s)) = LSU_ISSUE_WIDTH" and "\<not> luf_stall lf" and "\<not> cf_flush commit"
  shows "\<exists>s'. stall_run cs s = Some s' \<and>
    lsu_readreg_run bru lf sau es ws commit rf s' =
      (let s1 = (if bru_flush bru \<or> sau_flush sau
                 then on_lsu_units (kill_held bru sau (\<lambda>p. (lp_rob_id p, lp_rob_id_stage p))) s' else s')
       in do {
         s2 \<leftarrow> lsu_lanes bru lf sau es ws rf
           (filter (\<lambda>q. lr_enable q \<and> (\<forall>x \<in> set cs. spared x q)) (port_get (lrd_port s))) (s1\<lparr>lrd_busy := False\<rparr>);
         Some (True, s2)
       })"
proof -
  obtain x xs where cs: "x # xs = cs" using assms(1) by (cases cs) auto
  obtain bru1 lf1 sau1 es1 ws1 commit1 rf1 port1 where x: "x = (bru1, lf1, sau1, es1, ws1, commit1, rf1, port1)" by (cases x) auto
  have st: "stalls (bru1, lf1, sau1, es1, ws1, commit1, rf1, port1)" and rest: "\<forall>x \<in> set xs. stalls x" using cs assms(2) x by auto
  obtain s1 where s1: "lsu_readreg_run bru1 lf1 sau1 es1 ws1 commit1 rf1 s = Some (False, s1)" "lrd_busy s1" "length (lrd_hold s1) = LSU_ISSUE_WIDTH"
    "filter lr_enable (lrd_hold s1) = filter (\<lambda>q. lr_enable q \<and> \<not> lsu_skipped bru1 lf1 sau1 q) (port_get (lrd_port s))"
    using stall_step[OF st assms(4)] assms(3,5) by auto
  let ?s = "lrd_sync (s1\<lparr>lrd_port := port1\<rparr>)" and ?Q = "filter (\<lambda>q. lr_enable q \<and> (\<forall>x \<in> set cs. spared x q)) (port_get (lrd_port s))"
  have h: "lrd_busy ?s" "lrd_hold ?s = lrd_hold s1" "length (lrd_hold ?s) = LSU_ISSUE_WIDTH" using s1(2,3) by (simp_all add: lrd_sync_def)
  obtain s' where s': "stall_run xs ?s = Some s'" "lrd_busy s'" "length (lrd_hold s') = LSU_ISSUE_WIDTH"
    "filter lr_enable (lrd_hold s') = filter (\<lambda>q. lr_enable q \<and> (\<forall>x \<in> set xs. spared x q)) (lrd_hold ?s)"
    using stall_run_holds[OF rest h(1,3)] by blast
  have "filter (\<lambda>q. lr_enable q \<and> (\<forall>x \<in> set xs. spared x q)) (lrd_hold s1)
      = filter (\<lambda>q. \<forall>x \<in> set xs. spared x q) (filter lr_enable (lrd_hold s1))" by (simp add: conj_commute)
  also have "\<dots> = ?Q" unfolding s1(4) using cs by (auto simp: x spared_def intro: filter_cong)
  finally have q: "filter lr_enable (lrd_hold s') = ?Q" using s'(4) h(2) by simp
  have "stall_run cs s = Some s'" using cs s1(1) s'(1) x by auto
  then show ?thesis
    using s'(2,3) assms(6,7) lanes_enabled[of bru lf sau es ws rf "lrd_hold s'"] q
    by (intro exI[of _ s']) (simp add: lsu_readreg_run_def Let_def)
qed

definition demo_lsu_op :: lsu_issue_readreg_op_info_t where
  "demo_lsu_op = lsu_issue_readreg_op_info_make\<lparr>lr_enable := True, lr_valid := True, lr_rob_id := 1, lr_op_unit := Cunit_lu\<rparr>"

definition demo_lsu :: lsu_readreg where
  "demo_lsu =
     (let h = hs_make lsu_readreg_execute_pack_make
      in lsu_readreg_reset \<lparr>lrd_port = port_make [demo_lsu_op, lsu_issue_readreg_op_info_make, lsu_issue_readreg_op_info_make],
           lrd_lu = [h], lrd_sau = [h], lrd_sdu = [h], lrd_busy = False, lrd_hold = []\<rparr>)"

definition demo_stall :: stall_cycle where
  "demo_stall = (no_bru_flush, no_lu\<lparr>luf_stall := True\<rparr>, no_sau_flush, [], [], no_commit_flush, phy_regfile_make 8,
     port_make (replicate LSU_ISSUE_WIDTH lsu_issue_readreg_op_info_make))"

theorem lsu_readreg_keeps_stalled_witness:
  "\<exists>s' s2. stall_run [demo_stall] demo_lsu = Some s' \<and>
     lsu_readreg_run no_bru_flush no_lu no_sau_flush [] [] no_commit_flush (phy_regfile_make 8) s' = Some (True, s2) \<and>
     map (hs_get_data \<circ> hs_sync) (lrd_lu s2) = [Some (lsu_copy demo_lsu_op)]"
proof -
  have p: "[demo_stall] \<noteq> []" "\<forall>x \<in> set [demo_stall]. stalls x" "\<not> lrd_busy demo_lsu" "length (lrd_hold demo_lsu) = LSU_ISSUE_WIDTH"
    "length (port_get (lrd_port demo_lsu)) = LSU_ISSUE_WIDTH" "\<not> luf_stall no_lu" "\<not> cf_flush no_commit_flush"
    by (simp_all add: stalls_def demo_stall_def no_commit_flush_def no_lu_def demo_lsu_def lsu_readreg_reset_def port_get_def port_make_def
        dff_get_def dff_make_def LSU_ISSUE_WIDTH_def Let_def)
  let ?Q = "filter (\<lambda>q. lr_enable q \<and> (\<forall>x \<in> set [demo_stall]. spared x q)) (port_get (lrd_port demo_lsu))"
  have sp: "spared demo_stall q" for q
    by (simp add: spared_def demo_stall_def lsu_skipped_def no_bru_flush_def no_sau_flush_def no_lu_def bru_kills_def sau_kills_def)
  have q: "?Q = [demo_lsu_op]"
    using sp by (simp add: demo_lsu_def lsu_readreg_reset_def port_get_def port_make_def dff_get_def dff_make_def demo_lsu_op_def
        lsu_issue_readreg_op_info_make_def Let_def)
  have nf: "\<not> (bru_flush no_bru_flush \<or> sau_flush no_sau_flush)" by (simp add: no_bru_flush_def no_sau_flush_def)
  from lsu_readreg_keeps_stalled[OF p, of no_bru_flush no_sau_flush "[]" "[]" "phy_regfile_make 8"] obtain s' where s':
    "stall_run [demo_stall] demo_lsu = Some s'"
    "lsu_readreg_run no_bru_flush no_lu no_sau_flush [] [] no_commit_flush (phy_regfile_make 8) s' =
      do { s2 \<leftarrow> lsu_lanes no_bru_flush no_lu no_sau_flush [] [] (phy_regfile_make 8) [demo_lsu_op] (s'\<lparr>lrd_busy := False\<rparr>); Some (True, s2) }"
    unfolding q using nf by (auto simp: Let_def)
  have sk: "\<not> lsu_skipped no_bru_flush no_lu no_sau_flush demo_lsu_op"
    by (simp add: lsu_skipped_def no_bru_flush_def no_sau_flush_def no_lu_def bru_kills_def sau_kills_def)
  have lu: "lrd_lu s' = [hs_sync (hs_make lsu_readreg_execute_pack_make)]"
    using s'(1) by (simp add: demo_stall_def demo_lsu_def lsu_readreg_reset_def lsu_readreg_run_def lrd_sync_def no_lu_def no_commit_flush_def
        no_bru_flush_def no_sau_flush_def Let_def) auto
  have "\<not> hs_is_full (hs_sync (hs_make lsu_readreg_execute_pack_make))"
    by (simp add: hs_is_full_def hs_sync_def hs_make_def dff_get_new_def dff_sync_def dff_set_def)
  from push_free[OF this] obtain h where h: "hs_push (lsu_copy demo_lsu_op) (hs_sync (hs_make lsu_readreg_execute_pack_make)) = (True, h)"
    "hs_get_data (hs_sync h) = Some (lsu_copy demo_lsu_op)" by blast
  have en: "lr_enable demo_lsu_op" by (simp add: demo_lsu_op_def)
  have op: "lsu_operands [] [] (phy_regfile_make 8) demo_lsu_op (lsu_copy demo_lsu_op) = Some (lsu_copy demo_lsu_op)"
    by (simp add: lsu_operands_def read_source_def demo_lsu_op_def lsu_issue_readreg_op_info_make_def lsu_copy_def)
  have un: "lp_op_unit (lsu_copy demo_lsu_op) = Cunit_lu" by (simp add: lsu_copy_def demo_lsu_op_def)
  have "lsu_lanes no_bru_flush no_lu no_sau_flush [] [] (phy_regfile_make 8) [demo_lsu_op] (s'\<lparr>lrd_busy := False\<rparr>)
      = Some (s'\<lparr>lrd_busy := False, lrd_lu := [h]\<rparr>)"
    using sk op en un h(1) lu by (simp add: lsu_send_def push_at_def)
  then show ?thesis using s' h(2) by simp
qed

end
