(* ===== verification/Dispatch.thy ===== *)
theory Dispatch
  imports Rename_Laws Exec_Units
begin

text \<open>
  \<^verbatim>\<open>pipeline/dispatch.cpp\<close> with \<^verbatim>\<open>dispatch_issue.h\<close>: the renamed operations of a cycle are split into a pack for the integer issue
  stage and one for the issue stage of loads and stores. A pack that its stage does not take is held. A CSR operation or mret waits until it is
  the next to commit, and what follows it waits until it has committed; what follows a fence waits for that and for
  the store buffer to be empty.
\<close>

subsection \<open>Packs\<close>

record dispatch_issue_op_info_t =
  di_inst_common_info :: inst_common_info_t
  di_enable :: bool
  di_value :: u32
  di_valid :: bool
  di_last_uop :: bool
  di_rob_id :: nat
  di_rob_id_stage :: bool
  di_pc :: u32
  di_imm :: u32
  di_has_exception :: bool
  di_exception_id :: riscv_exception_t
  di_exception_value :: u32
  di_branch_predictor_info_pack :: branch_predictor_info_pack_t
  di_rs1 :: u32
  di_arg1_src :: arg_src_t
  di_rs1_need_map :: bool
  di_rs1_phy :: nat
  di_rs2 :: u32
  di_arg2_src :: arg_src_t
  di_rs2_need_map :: bool
  di_rs2_phy :: nat
  di_rd :: u32
  di_rd_enable :: bool
  di_need_rename :: bool
  di_rd_phy :: nat
  di_csr :: u32
  di_store_buffer_id :: nat
  di_load_queue_id :: nat
  di_op :: op_t
  di_op_unit :: cycle_unit_t
  di_sub_op :: cycle_sub_op_t

definition dispatch_issue_op_info_make :: dispatch_issue_op_info_t where
  "dispatch_issue_op_info_make =
     \<lparr>di_inst_common_info = \<lparr>inst_id = 0\<rparr>, di_enable = False, di_value = 0, di_valid = False, di_last_uop = False,
      di_rob_id = 0, di_rob_id_stage = False, di_pc = 0, di_imm = 0, di_has_exception = False,
      di_exception_id = instruction_address_misaligned, di_exception_value = 0,
      di_branch_predictor_info_pack = branch_predictor_info_pack_make,
      di_rs1 = 0, di_arg1_src = Arg_reg, di_rs1_need_map = False, di_rs1_phy = 0,
      di_rs2 = 0, di_arg2_src = Arg_reg, di_rs2_need_map = False, di_rs2_phy = 0,
      di_rd = 0, di_rd_enable = False, di_need_rename = False, di_rd_phy = 0,
      di_csr = 0, di_store_buffer_id = 0, di_load_queue_id = 0,
      di_op = Op_add, di_op_unit = Cunit_alu, di_sub_op = Csub_alu Alu_add\<rparr>"

type_synonym dispatch_issue_pack_t = "dispatch_issue_op_info_t list"

definition dispatch_pad :: "dispatch_issue_op_info_t list \<Rightarrow> dispatch_issue_pack_t" where
  "dispatch_pad ops = ops @ replicate (DISPATCH_WIDTH - length ops) dispatch_issue_op_info_make"

subsection \<open>State\<close>

record dispatch =
  ds_rename_port :: "rename_dispatch_pack_t port"
  ds_integer_port :: "dispatch_issue_pack_t port"
  ds_lsu_port :: "dispatch_issue_pack_t port"
  ds_integer_busy :: bool
  ds_lsu_busy :: bool
  ds_busy :: bool
  ds_hold_integer :: dispatch_issue_pack_t
  ds_hold_lsu :: dispatch_issue_pack_t
  ds_rev_pack :: rename_dispatch_pack_t
  ds_inst_waiting :: bool
  ds_inst_waiting_rob_id :: nat
  ds_inst_waiting_rob_id_stage :: bool
  ds_stbuf_waiting :: bool
  ds_stbuf_waiting_rob_id :: nat
  ds_stbuf_waiting_rob_id_stage :: bool

text \<open>\<^verbatim>\<open>reset\<close> leaves \<^verbatim>\<open>rev_pack\<close>, which is read only after it has been written.\<close>

definition dispatch_reset :: "dispatch \<Rightarrow> dispatch" where
  "dispatch_reset s =
     s\<lparr>ds_integer_busy := False, ds_lsu_busy := False, ds_busy := False, ds_hold_integer := dispatch_pad [],
       ds_hold_lsu := dispatch_pad [], ds_inst_waiting := False, ds_inst_waiting_rob_id := 0, ds_inst_waiting_rob_id_stage := False,
       ds_stbuf_waiting := False, ds_stbuf_waiting_rob_id := 0, ds_stbuf_waiting_rob_id_stage := False\<rparr>"

definition set_integer :: "bool \<Rightarrow> dispatch_issue_pack_t \<Rightarrow> dispatch \<Rightarrow> dispatch" where
  "set_integer stall p s = (if stall then s else s\<lparr>ds_integer_port := port_set p (ds_integer_port s)\<rparr>)"

definition set_lsu :: "bool \<Rightarrow> dispatch_issue_pack_t \<Rightarrow> dispatch \<Rightarrow> dispatch" where
  "set_lsu stall p s = (if stall then s else s\<lparr>ds_lsu_port := port_set p (ds_lsu_port s)\<rparr>)"

definition set_empty :: "bool \<Rightarrow> bool \<Rightarrow> dispatch \<Rightarrow> dispatch" where
  "set_empty int_stall lsu_stall s = set_lsu lsu_stall (dispatch_pad []) (set_integer int_stall (dispatch_pad []) s)"

subsection \<open>Splitting the renamed operations\<close>

definition is_lsu :: "cycle_unit_t \<Rightarrow> bool" where
  "is_lsu u \<longleftrightarrow> u = Cunit_lu \<or> u = Cunit_sau \<or> u = Cunit_sdu"

definition dispatch_integer :: "rename_dispatch_op_info_t \<Rightarrow> dispatch_issue_op_info_t" where
  "dispatch_integer p =
     dispatch_issue_op_info_make
       \<lparr>di_inst_common_info := rn_inst_common_info p, di_enable := rn_enable p, di_value := rn_value p, di_valid := rn_valid p,
        di_last_uop := rn_last_uop p, di_rob_id := rn_rob_id p, di_rob_id_stage := rn_rob_id_stage p, di_pc := rn_pc p,
        di_imm := rn_imm p, di_has_exception := rn_has_exception p, di_exception_id := rn_exception_id p,
        di_exception_value := rn_exception_value p, di_branch_predictor_info_pack := rn_branch_predictor_info_pack p,
        di_rs1 := rn_rs1 p, di_arg1_src := rn_arg1_src p, di_rs1_need_map := rn_rs1_need_map p, di_rs1_phy := rn_rs1_phy p,
        di_rs2 := rn_rs2 p, di_arg2_src := rn_arg2_src p, di_rs2_need_map := rn_rs2_need_map p, di_rs2_phy := rn_rs2_phy p,
        di_rd := rn_rd p, di_rd_enable := rn_rd_enable p, di_need_rename := rn_need_rename p, di_rd_phy := rn_rd_phy p,
        di_csr := rn_csr p, di_op := rn_op p, di_op_unit := rn_op_unit p, di_sub_op := rn_sub_op p\<rparr>"

text \<open>For a load or store the slots of its queues are copied, and the predictor record is not.\<close>

definition dispatch_lsu :: "rename_dispatch_op_info_t \<Rightarrow> dispatch_issue_op_info_t" where
  "dispatch_lsu p =
     (dispatch_integer p)
       \<lparr>di_branch_predictor_info_pack := branch_predictor_info_pack_make,
        di_store_buffer_id := rn_store_buffer_id p, di_load_queue_id := rn_load_queue_id p\<rparr>"

record dispatch_found =
  fo_integer :: dispatch_issue_pack_t
  fo_lsu :: dispatch_issue_pack_t
  fo_inst_waiting :: bool
  fo_fence :: bool
  fo_rob_id :: nat
  fo_rob_id_stage :: bool

definition found_none :: dispatch_found where
  "found_none = \<lparr>fo_integer = [], fo_lsu = [], fo_inst_waiting = False, fo_fence = False, fo_rob_id = 0, fo_rob_id_stage = False\<rparr>"

fun dispatch_loop :: "nat \<Rightarrow> rename_dispatch_op_info_t list \<Rightarrow> dispatch_found \<Rightarrow> dispatch_found option" where
  "dispatch_loop i [] f = Some f"
| "dispatch_loop i (p # ps) f =
     (if rn_enable p
      then let f1 = (if \<not> is_lsu (rn_op_unit p) then f\<lparr>fo_integer := fo_integer f @ [dispatch_integer p]\<rparr>
                     else f\<lparr>fo_lsu := fo_lsu f @ [dispatch_lsu p]\<rparr>);
               f2 = f1\<lparr>fo_rob_id := rn_rob_id p, fo_rob_id_stage := rn_rob_id_stage p\<rparr>
           in if rn_valid p \<and> \<not> rn_has_exception p
              then (if rn_op_unit p = Cunit_csr \<or> rn_op p = Op_mret
                    then do { verify (i = 0); Some (f2\<lparr>fo_inst_waiting := True\<rparr>) }
                    else if rn_op p = Op_fence then dispatch_loop (i + 1) ps (f2\<lparr>fo_fence := True\<rparr>)
                    else dispatch_loop (i + 1) ps f1)
              else dispatch_loop (i + 1) ps f1
      else dispatch_loop (i + 1) ps f)"

subsection \<open>A flush from the execution stages\<close>

definition disable :: "bool \<Rightarrow> dispatch_issue_op_info_t \<Rightarrow> dispatch_issue_op_info_t" where
  "disable b p = (if di_enable p \<and> b then p\<lparr>di_enable := False\<rparr> else p)"

definition sau_older :: "sau_feedback_pack_t \<Rightarrow> dispatch_issue_op_info_t \<Rightarrow> bool" where
  "sau_older sau p \<longleftrightarrow>
     sau_flush sau \<and> age_less (age (di_rob_id p) (di_rob_id_stage p)) (age (sau_rob_id sau) (sau_rob_id_stage sau))"

text \<open>For the held integer operations the source looks at the age of the held loads and stores.\<close>

definition dispatch_squash :: "bru_feedback_pack_t \<Rightarrow> sau_feedback_pack_t \<Rightarrow> dispatch \<Rightarrow> dispatch" where
  "dispatch_squash bru sau s =
     (let kills_int = (\<lambda>p. bru_flush bru \<or> sau_older sau p);
          kills_lsu = (\<lambda>p. bru_kills bru (di_rob_id p) (di_rob_id_stage p) \<or> sau_flush sau);
          hold_integer = map2 (\<lambda>p q. disable (kills_int q) p) (ds_hold_integer s) (ds_hold_lsu s);
          hold_lsu = map (\<lambda>p. disable (kills_lsu p) p) (ds_hold_lsu s)
      in s\<lparr>ds_hold_integer := hold_integer, ds_hold_lsu := hold_lsu,
           ds_integer_port := port_set (map (\<lambda>p. disable (kills_int p) p) (port_get (ds_integer_port s))) (ds_integer_port s),
           ds_lsu_port := port_set (map (\<lambda>p. disable (kills_lsu p) p) (port_get (ds_lsu_port s))) (ds_lsu_port s),
           ds_integer_busy := False,
           ds_lsu_busy := (ds_lsu_busy s \<and> list_ex di_enable hold_lsu)\<rparr>)"

subsection \<open>Sending\<close>

definition send_new ::
    "bool \<Rightarrow> bool \<Rightarrow> commit_feedback_pack_t \<Rightarrow> dispatch_found \<Rightarrow> dispatch \<Rightarrow> dispatch" where
  "send_new int_stall lsu_stall commit f s =
     (if fo_inst_waiting f
      then (if \<not> (\<not> int_stall \<and> cf_next_handle_rob_id_valid commit \<and> cf_next_handle_rob_id commit = fo_rob_id f)
            then set_empty int_stall lsu_stall (s\<lparr>ds_busy := True\<rparr>)
            else (set_lsu lsu_stall (dispatch_pad []) (set_integer int_stall (dispatch_pad (fo_integer f)) s))
                   \<lparr>ds_inst_waiting := True, ds_inst_waiting_rob_id := fo_rob_id f, ds_inst_waiting_rob_id_stage := fo_rob_id_stage f\<rparr>)
      else if fo_fence f \<and> (fo_integer f \<noteq> [] \<and> int_stall \<or> fo_lsu f \<noteq> [] \<and> lsu_stall)
      then set_empty int_stall lsu_stall (s\<lparr>ds_busy := True\<rparr>)
      else
        let s1 = (if fo_fence f
                  then s\<lparr>ds_stbuf_waiting := True, ds_stbuf_waiting_rob_id := fo_rob_id f, ds_stbuf_waiting_rob_id_stage := fo_rob_id_stage f,
                         ds_inst_waiting := True, ds_inst_waiting_rob_id := fo_rob_id f, ds_inst_waiting_rob_id_stage := fo_rob_id_stage f\<rparr>
                  else s);
            s2 = (if fo_integer f \<noteq> [] \<and> int_stall
                  then s1\<lparr>ds_hold_integer := dispatch_pad (fo_integer f), ds_integer_busy := True\<rparr>
                  else set_integer int_stall (dispatch_pad (fo_integer f)) s1)
        in (if fo_lsu f \<noteq> [] \<and> lsu_stall
            then s2\<lparr>ds_hold_lsu := dispatch_pad (fo_lsu f), ds_lsu_busy := True\<rparr>
            else set_lsu lsu_stall (dispatch_pad (fo_lsu f)) s2))"

definition send_held :: "bool \<Rightarrow> bool \<Rightarrow> dispatch \<Rightarrow> dispatch" where
  "send_held int_stall lsu_stall s =
     (let s1 = (if int_stall then s
                else if ds_integer_busy s then (set_integer False (ds_hold_integer s) s)\<lparr>ds_integer_busy := False\<rparr>
                else set_integer False (dispatch_pad []) s)
      in if lsu_stall then s1
         else if ds_lsu_busy s1 then (set_lsu False (ds_hold_lsu s1) s1)\<lparr>ds_lsu_busy := False\<rparr>
         else set_lsu False (dispatch_pad []) s1)"

subsection \<open>The stage\<close>

definition inst_waiting_ok :: "commit_feedback_pack_t \<Rightarrow> dispatch \<Rightarrow> bool" where
  "inst_waiting_ok commit s \<longleftrightarrow>
     list_ex (\<lambda>(valid, rob_id). valid \<and> rob_id = ds_inst_waiting_rob_id s)
       (take COMMIT_WIDTH (zip (cf_committed_rob_id_valid commit) (cf_committed_rob_id commit)))"

definition dispatch_stall :: "commit_feedback_pack_t \<Rightarrow> bool \<Rightarrow> dispatch \<Rightarrow> bool" where
  "dispatch_stall commit sb_empty s \<longleftrightarrow>
     ds_integer_busy s \<or> ds_lsu_busy s \<or> ds_busy s \<or> ds_inst_waiting s \<and> \<not> inst_waiting_ok commit s \<or>
     ds_stbuf_waiting s \<and> \<not> sb_empty"

definition stbuf_wait_over :: "bru_feedback_pack_t \<Rightarrow> sau_feedback_pack_t \<Rightarrow> bool \<Rightarrow> dispatch \<Rightarrow> bool" where
  "stbuf_wait_over bru sau sb_empty s \<longleftrightarrow>
     sb_empty \<or> bru_kills bru (ds_stbuf_waiting_rob_id s) (ds_stbuf_waiting_rob_id_stage s) \<or>
     sau_kills sau (ds_stbuf_waiting_rob_id s) (ds_stbuf_waiting_rob_id_stage s)"

definition dispatch_run ::
    "bool \<Rightarrow> bool \<Rightarrow> bru_feedback_pack_t \<Rightarrow> sau_feedback_pack_t \<Rightarrow> commit_feedback_pack_t \<Rightarrow> bool \<Rightarrow> dispatch \<Rightarrow>
     (bool \<times> dispatch) option" where
  "dispatch_run int_stall lsu_stall bru sau commit sb_empty s =
     (let ok = inst_waiting_ok commit s;
          stall = dispatch_stall commit sb_empty s
      in if \<not> cf_flush commit
         then let s1 = (if bru_flush bru \<or> sau_flush sau then dispatch_squash bru sau s else s)
              in if (\<not> ds_inst_waiting s1 \<or> ok) \<and> (\<not> ds_stbuf_waiting s1 \<or> sb_empty)
                 then let s2 = s1\<lparr>ds_inst_waiting := False, ds_stbuf_waiting := False\<rparr>
                      in if \<not> (ds_integer_busy s2 \<or> ds_lsu_busy s2)
                         then do {
                           let s3 = (if \<not> ds_busy s2 then s2\<lparr>ds_rev_pack := port_get (ds_rename_port s2)\<rparr> else s2\<lparr>ds_busy := False\<rparr>);
                           f \<leftarrow> (if \<not> bru_flush bru \<and> \<not> sau_flush sau
                                 then dispatch_loop 0 (take DISPATCH_WIDTH (ds_rev_pack s3)) found_none else Some found_none);
                           Some (stall, send_new int_stall lsu_stall commit f s3)
                         }
                         else Some (stall, send_held int_stall lsu_stall s2)
                 else if ds_inst_waiting s1
                 then let s2 = set_empty int_stall lsu_stall s1
                      in if ok \<or> bru_kills bru (ds_inst_waiting_rob_id s2) (ds_inst_waiting_rob_id_stage s2) \<or>
                            sau_kills sau (ds_inst_waiting_rob_id s2) (ds_inst_waiting_rob_id_stage s2)
                         then Some (stall, s2\<lparr>ds_inst_waiting := False, ds_inst_waiting_rob_id := 0,
                                ds_stbuf_waiting := (ds_stbuf_waiting s2 \<and> \<not> stbuf_wait_over bru sau sb_empty s2)\<rparr>)
                         else Some (stall, s2)
                 else if ds_stbuf_waiting s1
                 then let s2 = set_empty int_stall lsu_stall s1
                      in Some (stall, if stbuf_wait_over bru sau sb_empty s2 then s2\<lparr>ds_stbuf_waiting := False\<rparr> else s2)
                 else None
         else Some (stall, (dispatch_reset s)
                \<lparr>ds_integer_port := port_set (dispatch_pad []) (ds_integer_port s), ds_lsu_port := port_set (dispatch_pad []) (ds_lsu_port s),
                 ds_rev_pack := replicate RENAME_WIDTH rename_dispatch_op_info_make\<rparr>))"

subsection \<open>What is sent\<close>

definition enabled :: "dispatch_issue_pack_t \<Rightarrow> dispatch_issue_op_info_t list" where
  "enabled = filter di_enable"

definition ints :: "rename_dispatch_op_info_t list \<Rightarrow> dispatch_issue_op_info_t list" where
  "ints ops = map dispatch_integer (filter (\<lambda>p. rn_enable p \<and> \<not> is_lsu (rn_op_unit p)) ops)"

definition lsus :: "rename_dispatch_op_info_t list \<Rightarrow> dispatch_issue_op_info_t list" where
  "lsus ops = map dispatch_lsu (filter (\<lambda>p. rn_enable p \<and> is_lsu (rn_op_unit p)) ops)"

lemma split_simps [simp]:
  "ints [] = []" "lsus [] = []" "ints (xs @ ys) = ints xs @ ints ys" "lsus (xs @ ys) = lsus xs @ lsus ys"
  "ints (p # ps) = (if rn_enable p \<and> \<not> is_lsu (rn_op_unit p) then [dispatch_integer p] else []) @ ints ps"
  "lsus (p # ps) = (if rn_enable p \<and> is_lsu (rn_op_unit p) then [dispatch_lsu p] else []) @ lsus ps"
  by (simp_all add: ints_def lsus_def)

lemma enabled_pad: "enabled (dispatch_pad (ints ops)) = ints ops" "enabled (dispatch_pad (lsus ops)) = lsus ops" "enabled (dispatch_pad []) = []"
proof -
  have d: "enabled (replicate n dispatch_issue_op_info_make) = []" for n
    by (induction n) (simp_all add: enabled_def dispatch_issue_op_info_make_def)
  have "enabled (ints ops) = ints ops" "enabled (lsus ops) = lsus ops"
    by (induction ops) (simp_all add: enabled_def dispatch_integer_def dispatch_lsu_def)
  then show "enabled (dispatch_pad (ints ops)) = ints ops" "enabled (dispatch_pad (lsus ops)) = lsus ops" "enabled (dispatch_pad []) = []"
    using d by (simp_all add: dispatch_pad_def enabled_def)
qed

text \<open>An operation that has to be alone, and what rename guarantees of a group.\<close>

definition serial :: "rename_dispatch_op_info_t \<Rightarrow> bool" where
  "serial p \<longleftrightarrow> rn_enable p \<and> rn_valid p \<and> \<not> rn_has_exception p \<and> (rn_op_unit p = Cunit_csr \<or> rn_op p = Op_mret)"

definition group_ok :: "rename_dispatch_op_info_t list \<Rightarrow> bool" where
  "group_ok ops \<longleftrightarrow> length ops \<le> DISPATCH_WIDTH \<and>
     (case ops of [] \<Rightarrow> True
      | p # ps \<Rightarrow> list_all (\<lambda>q. \<not> serial q) ps \<and> (serial p \<longrightarrow> \<not> is_lsu (rn_op_unit p) \<and> list_all (\<lambda>q. \<not> rn_enable q) ps))"

lemma not_enabled: "list_all (\<lambda>q. \<not> rn_enable q) ps \<Longrightarrow> ints ps = [] \<and> lsus ps = []"
  by (induction ps) simp_all

lemma loop_plain:
  assumes "list_all (\<lambda>q. \<not> serial q) ps"
  shows "\<exists>f'. dispatch_loop i ps f = Some f' \<and> fo_integer f' = fo_integer f @ ints ps \<and> fo_lsu f' = fo_lsu f @ lsus ps \<and>
    fo_inst_waiting f' = fo_inst_waiting f"
  using assms
proof (induction ps arbitrary: i f)
  case (Cons p ps)
  show ?case
  proof (cases "rn_enable p")
    case False
    then show ?thesis using Cons by simp
  next
    case True
    let ?f1 = "if \<not> is_lsu (rn_op_unit p) then f\<lparr>fo_integer := fo_integer f @ [dispatch_integer p]\<rparr>
               else f\<lparr>fo_lsu := fo_lsu f @ [dispatch_lsu p]\<rparr>"
    have "\<exists>f2. dispatch_loop i (p # ps) f = dispatch_loop (i + 1) ps f2 \<and> fo_integer f2 = fo_integer ?f1 \<and>
        fo_lsu f2 = fo_lsu ?f1 \<and> fo_inst_waiting f2 = fo_inst_waiting f"
      using True Cons.prems by (auto simp: serial_def Let_def)
    then obtain f2 where f2: "dispatch_loop i (p # ps) f = dispatch_loop (i + 1) ps f2" "fo_integer f2 = fo_integer ?f1"
      "fo_lsu f2 = fo_lsu ?f1" "fo_inst_waiting f2 = fo_inst_waiting f" by blast
    obtain f' where "dispatch_loop (i + 1) ps f2 = Some f'" "fo_integer f' = fo_integer f2 @ ints ps" "fo_lsu f' = fo_lsu f2 @ lsus ps"
      "fo_inst_waiting f' = fo_inst_waiting f2" using Cons.IH[of "i + 1" f2] Cons.prems by auto
    then show ?thesis using f2 True by simp
  qed
qed simp

lemma loop_split:
  assumes "group_ok ops"
  shows "\<exists>f. dispatch_loop 0 (take DISPATCH_WIDTH ops) found_none = Some f \<and> fo_integer f = ints ops \<and> fo_lsu f = lsus ops \<and>
    (fo_inst_waiting f \<longleftrightarrow> (\<exists>p ps. ops = p # ps \<and> serial p)) \<and>
    (fo_inst_waiting f \<longrightarrow> fo_lsu f = [] \<and> fo_rob_id f = rn_rob_id (hd ops) \<and> fo_integer f = [dispatch_integer (hd ops)])"
proof (cases ops)
  case Nil
  then show ?thesis by (simp add: found_none_def)
next
  case (Cons p ps)
  have t: "take DISPATCH_WIDTH ops = ops" using assms by (simp add: group_ok_def)
  have ps: "list_all (\<lambda>q. \<not> serial q) ps" using assms Cons by (simp add: group_ok_def)
  show ?thesis
  proof (cases "serial p")
    case True
    then have d: "\<not> is_lsu (rn_op_unit p)" "ints ps = [] \<and> lsus ps = []" "rn_enable p"
      using assms Cons not_enabled by (auto simp: group_ok_def serial_def)
    have t': "take DISPATCH_WIDTH (p # ps) = p # ps" using t Cons by simp
    show ?thesis using True d unfolding Cons t' by (auto simp: serial_def found_none_def Let_def)
  next
    case False
    then have "list_all (\<lambda>q. \<not> serial q) ops" using ps Cons by simp
    from loop_plain[OF this, of 0 found_none] show ?thesis unfolding t using False Cons by (auto simp: found_none_def)
  qed
qed

subsection \<open>Rename guarantees the groups\<close>

lemma rename_one_fields:
  assumes "rename_one p s = Some (info, s')" and "d_enable p"
  shows "rn_enable info = d_enable p \<and> rn_valid info = d_valid p \<and> rn_has_exception info = d_has_exception p \<and>
    rn_op_unit info = d_op_unit p \<and> rn_op info = d_op p"
  using assms
  by (auto simp: rename_one_def rename_lsq_def rename_load_def rename_store_def rename_checkpoint_def rename_copy_def Let_def
      split: if_splits Option.bind_splits prod.splits)

lemma rename_one_enable: "rename_one p s = Some (info, s') \<Longrightarrow> rn_enable info = d_enable p"
  using rename_one_fields[of p s info s'] by (cases "d_enable p") (auto simp: rename_one_def rename_copy_def rename_dispatch_op_info_make_def)

lemma rename_loop_length: "rename_loop n i ready fence s = Some (infos, s') \<Longrightarrow> length infos \<le> n"
proof (induction n arbitrary: i ready fence s infos)
  case (Suc n)
  then show ?case by (auto split: if_splits Option.bind_splits option.splits prod.splits dest!: Suc.IH)
qed simp

lemma rename_step:
  assumes "rename_loop (Suc n) i ready fence s = Some (infos, s'')" and "fifo_settled (ren_fifo s)" and "infos \<noteq> []"
  obtains p info infos' s' ready' fence' f where "infos = info # infos'" "rename_gate i p ready fence s = Some (ready', fence')"
    "rename_one p (s\<lparr>ren_fifo := f\<rparr>) = Some (info, s')" "fifo_settled f" "fifo_next (ren_fifo s) = p # fifo_next f"
    "if ready' then infos' = [] \<and> s'' = s' else rename_loop n (i + 1) ready' fence' s' = Some (infos', s'')"
    "ren_fifo s' = f"
proof -
  have ne: "\<not> customer_is_empty (ren_fifo s)" using assms(1,3) by (auto split: if_splits)
  obtain x f where f: "fifo_pop (ren_fifo s) = (Some x, f)" "customer_get_front (ren_fifo s) = Some x" "fifo_settled f"
    "fifo_next (ren_fifo s) = x # fifo_next f" by (rule pop_front[OF assms(2) ne])
  have "\<exists>ready' fence' info s' infos'. rename_gate i x ready fence s = Some (ready', fence') \<and>
      rename_one x (s\<lparr>ren_fifo := f\<rparr>) = Some (info, s') \<and> infos = info # infos' \<and>
      (if ready' then infos' = [] \<and> s'' = s' else rename_loop n (i + 1) ready' fence' s' = Some (infos', s''))"
    using assms(1,3) f(1,2) by (auto split: if_splits Option.bind_splits option.splits prod.splits)
  then obtain ready' fence' info s' infos' where r: "rename_gate i x ready fence s = Some (ready', fence')"
    "rename_one x (s\<lparr>ren_fifo := f\<rparr>) = Some (info, s')" "infos = info # infos'"
    "if ready' then infos' = [] \<and> s'' = s' else rename_loop n (i + 1) ready' fence' s' = Some (infos', s'')" by blast
  have "ren_fifo s' = f"
    using r(2) by (auto simp: rename_one_def rename_lsq_def rename_load_def rename_store_def rename_checkpoint_def Let_def
        split: if_splits Option.bind_splits prod.splits)
  then show thesis using that r f(3,4) by blast
qed

lemma rename_later:
  assumes "rename_loop n i ready fence s = Some (infos, s')" and "fifo_settled (ren_fifo s)" and "0 < i"
  shows "list_all (\<lambda>q. \<not> serial q) infos"
  using assms
proof (induction n arbitrary: i ready fence s infos)
  case (Suc n)
  show ?case
  proof (cases "infos = []")
    case False
    obtain p info infos' s1 ready' fence' f where r: "infos = info # infos'" "rename_gate i p ready fence s = Some (ready', fence')"
      "rename_one p (s\<lparr>ren_fifo := f\<rparr>) = Some (info, s1)" "fifo_settled f" "fifo_next (ren_fifo s) = p # fifo_next f"
      "if ready' then infos' = [] \<and> s' = s1 else rename_loop n (i + 1) ready' fence' s1 = Some (infos', s')"
      "ren_fifo s1 = f" by (rule rename_step[OF Suc.prems(1,2) False])
    have "\<not> serial info"
      using r(2) rename_one_enable[OF r(3)] rename_one_fields[OF r(3)] Suc.prems(3) by (auto simp: serial_def rename_gate_def)
    moreover have "list_all (\<lambda>q. \<not> serial q) infos'"
      using r(6) Suc.IH[of "i + 1" ready' fence' s1 infos'] r(4,7) by (cases ready') auto
    ultimately show ?thesis using r(1) by simp
  qed simp
qed simp

text \<open>The groups that rename hands over are of the form dispatch relies on.\<close>

lemma rename_groups:
  assumes "rename_loop RENAME_WIDTH 0 False fence s = Some (infos, s')" and "fifo_settled (ren_fifo s)"
    and "list_all uop_ok (fifo_next (ren_fifo s))"
  shows "group_ok (rename_pad infos)"
proof -
  have w: "RENAME_WIDTH = Suc 3" "DISPATCH_WIDTH = RENAME_WIDTH" by (simp_all add: config_defs)
  have len: "length (rename_pad infos) \<le> DISPATCH_WIDTH" using rename_loop_length[OF assms(1)] w by (simp add: rename_pad_def)
  have off: "list_all (\<lambda>q. \<not> serial q) (replicate k rename_dispatch_op_info_make)"
    "list_all (\<lambda>q. \<not> rn_enable q) (replicate k rename_dispatch_op_info_make)" for k
    by (simp_all add: list_all_iff serial_def rename_dispatch_op_info_make_def)
  show ?thesis
  proof (cases infos)
    case Nil
    have "rename_pad infos = rename_dispatch_op_info_make # replicate 3 rename_dispatch_op_info_make"
      unfolding rename_pad_def Nil w(1) by (simp only: list.size diff_zero replicate_Suc append_Nil)
    moreover have "\<not> serial rename_dispatch_op_info_make" by (simp add: serial_def rename_dispatch_op_info_make_def)
    ultimately show ?thesis using len off unfolding group_ok_def by (simp only:) simp
  next
    case (Cons info0 infos0)
    have l: "rename_loop (Suc 3) 0 False fence s = Some (infos, s')" using assms(1) w by simp
    obtain p info infos' s1 ready' fence' f where r: "infos = info # infos'" "rename_gate 0 p False fence s = Some (ready', fence')"
      "rename_one p (s\<lparr>ren_fifo := f\<rparr>) = Some (info, s1)" "fifo_settled f" "fifo_next (ren_fifo s) = p # fifo_next f"
      "if ready' then infos' = [] \<and> s' = s1 else rename_loop 3 (0 + 1) ready' fence' s1 = Some (infos', s')"
      "ren_fifo s1 = f" by (rule rename_step[OF l assms(2)]) (use Cons in blast)
    have "list_all (\<lambda>q. \<not> serial q) infos'"
    proof (cases ready')
      case False
      then have r6: "rename_loop 3 (0 + 1) ready' fence' s1 = Some (infos', s')" using r(6) by simp
      show ?thesis by (rule rename_later[OF r6]) (use r(4,7) in simp_all)
    qed (use r(6) in simp)
    moreover have "serial info \<longrightarrow> \<not> is_lsu (rn_op_unit info) \<and> infos' = []"
    proof
      assume s: "serial info"
      have u: "uop_ok p" using assms(3) r(5) by simp
      then have "d_enable p" by (simp add: uop_ok_def)
      note fd = rename_one_fields[OF r(3) this]
      have "ready'" using s r(2) fd by (auto simp: serial_def rename_gate_def split: if_splits)
      moreover have "\<not> is_lsu (rn_op_unit info)" using s u fd by (auto simp: serial_def uop_ok_def is_lsu_def)
      ultimately show "\<not> is_lsu (rn_op_unit info) \<and> infos' = []" using r(6) by simp
    qed
    ultimately show ?thesis using len off r(1) by (auto simp: group_ok_def rename_pad_def)
  qed
qed

subsection \<open>A cycle without flush\<close>

definition dispatch_inv :: "dispatch \<Rightarrow> bool" where
  "dispatch_inv s \<longleftrightarrow> (ds_busy s \<longrightarrow> \<not> ds_integer_busy s \<and> \<not> ds_lsu_busy s \<and> group_ok (ds_rev_pack s))"

definition int_pending :: "dispatch \<Rightarrow> dispatch_issue_op_info_t list" where
  "int_pending s = (if ds_integer_busy s then enabled (ds_hold_integer s) else []) @ (if ds_busy s then ints (ds_rev_pack s) else [])"

definition lsu_pending :: "dispatch \<Rightarrow> dispatch_issue_op_info_t list" where
  "lsu_pending s = (if ds_lsu_busy s then enabled (ds_hold_lsu s) else []) @ (if ds_busy s then lsus (ds_rev_pack s) else [])"

text \<open>What a stage that does not stall finds in its port after the clock edge.\<close>

definition int_sent :: "bool \<Rightarrow> dispatch \<Rightarrow> dispatch_issue_op_info_t list" where
  "int_sent stall s = (if stall then [] else enabled (port_get_new (ds_integer_port s)))"

definition lsu_sent :: "bool \<Rightarrow> dispatch \<Rightarrow> dispatch_issue_op_info_t list" where
  "lsu_sent stall s = (if stall then [] else enabled (port_get_new (ds_lsu_port s)))"

lemma port_new [simp]: "port_get_new (port_set v p) = v"
  by (simp add: port_get_new_def port_set_def dff_get_new_def dff_set_def)

lemmas send_defs = set_empty_def set_lsu_def set_integer_def int_pending_def lsu_pending_def int_sent_def lsu_sent_def

lemma set_empty_pending:
  "int_pending (set_empty a b s) = int_pending s \<and> lsu_pending (set_empty a b s) = lsu_pending s \<and>
   int_sent a (set_empty a b s) = [] \<and> lsu_sent b (set_empty a b s) = [] \<and> dispatch_inv (set_empty a b s) = dispatch_inv s"
  by (simp add: send_defs enabled_pad dispatch_inv_def)

lemma send_held_pending:
  assumes "\<not> ds_busy s"
  shows "int_pending s = int_sent a (send_held a b s) @ int_pending (send_held a b s) \<and>
    lsu_pending s = lsu_sent b (send_held a b s) @ lsu_pending (send_held a b s) \<and> dispatch_inv (send_held a b s) \<and>
    ds_inst_waiting (send_held a b s) = ds_inst_waiting s"
  using assms by (simp add: send_held_def send_defs enabled_pad dispatch_inv_def Let_def)

lemma send_new_pending:
  assumes "\<not> ds_integer_busy s" and "\<not> ds_lsu_busy s" and "\<not> ds_busy s" and "group_ok (ds_rev_pack s)"
    and "fo_integer f = ints (ds_rev_pack s)" and "fo_lsu f = lsus (ds_rev_pack s)" and "fo_inst_waiting f \<longrightarrow> fo_lsu f = []"
    and t: "t = send_new a b commit f s"
  shows "ints (ds_rev_pack s) = int_sent a t @ int_pending t \<and> lsus (ds_rev_pack s) = lsu_sent b t @ lsu_pending t \<and> dispatch_inv t"
proof -
  have p: "enabled (dispatch_pad (fo_integer f)) = ints (ds_rev_pack s)" "enabled (dispatch_pad (fo_lsu f)) = lsus (ds_rev_pack s)"
    using assms(5,6) enabled_pad by simp_all
  show ?thesis
  proof (cases "fo_inst_waiting f")
    case True
    then show ?thesis using assms(1-7) p unfolding t by (auto simp: send_new_def send_defs enabled_pad dispatch_inv_def Let_def)
  next
    case False
    then show ?thesis using assms(1-6) p unfolding t by (auto simp: send_new_def send_defs enabled_pad dispatch_inv_def Let_def)
  qed
qed

definition no_flush :: "bru_feedback_pack_t \<Rightarrow> sau_feedback_pack_t \<Rightarrow> commit_feedback_pack_t \<Rightarrow> bool" where
  "no_flush bru sau commit \<longleftrightarrow> \<not> bru_flush bru \<and> \<not> sau_flush sau \<and> \<not> cf_flush commit"

lemma dispatch_cycle:
  assumes "dispatch_inv s" and "no_flush bru sau commit" and "group_ok (port_get (ds_rename_port s))"
  shows "\<exists>s'. dispatch_run a b bru sau commit sb_empty s = Some (dispatch_stall commit sb_empty s, s') \<and> dispatch_inv s' \<and>
    ds_rename_port s' = ds_rename_port s \<and>
    int_pending s @ (if dispatch_stall commit sb_empty s then [] else ints (port_get (ds_rename_port s))) = int_sent a s' @ int_pending s' \<and>
    lsu_pending s @ (if dispatch_stall commit sb_empty s then [] else lsus (port_get (ds_rename_port s))) = lsu_sent b s' @ lsu_pending s'"
proof -
  let ?ok = "inst_waiting_ok commit s" and ?stall = "dispatch_stall commit sb_empty s"
  note n = assms(2)[unfolded no_flush_def] and kills = bru_kills_def sau_kills_def
  show ?thesis
  proof (cases "(\<not> ds_inst_waiting s \<or> ?ok) \<and> (\<not> ds_stbuf_waiting s \<or> sb_empty)")
    case False
    then have st: "?stall" by (auto simp: dispatch_stall_def)
    let ?t = "set_empty a b s"
    have wt: "ds_inst_waiting ?t = ds_inst_waiting s" "ds_stbuf_waiting ?t = ds_stbuf_waiting s" "ds_rename_port ?t = ds_rename_port s"
      by (simp_all add: send_defs)
    have keep: "int_pending (u\<lparr>ds_inst_waiting := x, ds_inst_waiting_rob_id := y, ds_stbuf_waiting := z\<rparr>) = int_pending u \<and>
        lsu_pending (u\<lparr>ds_inst_waiting := x, ds_inst_waiting_rob_id := y, ds_stbuf_waiting := z\<rparr>) = lsu_pending u \<and>
        int_sent a (u\<lparr>ds_inst_waiting := x, ds_inst_waiting_rob_id := y, ds_stbuf_waiting := z\<rparr>) = int_sent a u \<and>
        lsu_sent b (u\<lparr>ds_inst_waiting := x, ds_inst_waiting_rob_id := y, ds_stbuf_waiting := z\<rparr>) = lsu_sent b u \<and>
        dispatch_inv (u\<lparr>ds_inst_waiting := x, ds_inst_waiting_rob_id := y, ds_stbuf_waiting := z\<rparr>) = dispatch_inv u" for u x y z
      by (simp add: int_pending_def lsu_pending_def int_sent_def lsu_sent_def dispatch_inv_def)
    have "\<exists>x y z. dispatch_run a b bru sau commit sb_empty s = Some (?stall, ?t\<lparr>ds_inst_waiting := x, ds_inst_waiting_rob_id := y, ds_stbuf_waiting := z\<rparr>)"
    proof (cases "ds_inst_waiting s")
      case w: True
      show ?thesis
      proof (cases ?ok)
        case True
        then show ?thesis using n False w wt
          by (intro exI[of _ False] exI[of _ 0] exI[of _ "ds_stbuf_waiting ?t \<and> \<not> stbuf_wait_over bru sau sb_empty ?t"])
            (simp add: dispatch_run_def Let_def)
      next
        case nok: False
        show ?thesis using n False w nok wt
          by (intro exI[of _ "ds_inst_waiting ?t"] exI[of _ "ds_inst_waiting_rob_id ?t"] exI[of _ "ds_stbuf_waiting ?t"])
            (simp add: dispatch_run_def kills Let_def)
      qed
    next
      case nw: False
      then have "ds_stbuf_waiting s" "\<not> sb_empty" using False by auto
      then show ?thesis using n False nw wt
        by (intro exI[of _ "ds_inst_waiting ?t"] exI[of _ "ds_inst_waiting_rob_id ?t"] exI[of _ "ds_stbuf_waiting ?t"])
          (simp add: dispatch_run_def kills stbuf_wait_over_def Let_def)
    qed
    then obtain x y z where r: "dispatch_run a b bru sau commit sb_empty s =
      Some (?stall, ?t\<lparr>ds_inst_waiting := x, ds_inst_waiting_rob_id := y, ds_stbuf_waiting := z\<rparr>)" by blast
    show ?thesis using r st set_empty_pending[of a b s] keep[where u = ?t and x = x and y = y and z = z] assms(1) wt(3) by simp
  next
    case go: True
    let ?s2 = "s\<lparr>ds_inst_waiting := False, ds_stbuf_waiting := False\<rparr>"
    have eq: "int_pending ?s2 = int_pending s" "lsu_pending ?s2 = lsu_pending s" "dispatch_inv ?s2 = dispatch_inv s"
      by (simp_all add: int_pending_def lsu_pending_def dispatch_inv_def)
    show ?thesis
    proof (cases "ds_integer_busy s \<or> ds_lsu_busy s")
      case True
      then have nb: "\<not> ds_busy ?s2" and st: "?stall" using assms(1) by (auto simp: dispatch_inv_def dispatch_stall_def)
      have r: "dispatch_run a b bru sau commit sb_empty s = Some (?stall, send_held a b ?s2)"
        using n go True by (auto simp: dispatch_run_def Let_def)
      have rp: "ds_rename_port (send_held a b ?s2) = ds_rename_port s" by (simp add: send_held_def send_defs Let_def)
      show ?thesis using r st send_held_pending[OF nb, of a b] eq rp by simp
    next
      case False
      define s3 where "s3 = (if \<not> ds_busy ?s2 then ?s2\<lparr>ds_rev_pack := port_get (ds_rename_port ?s2)\<rparr> else ?s2\<lparr>ds_busy := False\<rparr>)"
      have g: "group_ok (ds_rev_pack s3)" using assms(1,3) by (simp add: s3_def dispatch_inv_def)
      obtain f where f: "dispatch_loop 0 (take DISPATCH_WIDTH (ds_rev_pack s3)) found_none = Some f" "fo_integer f = ints (ds_rev_pack s3)"
        "fo_lsu f = lsus (ds_rev_pack s3)" "fo_inst_waiting f \<longrightarrow> fo_lsu f = []" using loop_split[OF g] by blast
      have idle: "\<not> ds_integer_busy s3" "\<not> ds_lsu_busy s3" "\<not> ds_busy s3" using False by (simp_all add: s3_def)
      have r: "dispatch_run a b bru sau commit sb_empty s = Some (?stall, send_new a b commit f s3)"
        using n go False f(1) by (cases "ds_busy s") (simp_all add: dispatch_run_def s3_def Let_def)
      have st: "?stall = ds_busy s" using go False by (auto simp: dispatch_stall_def)
      have rp: "ds_rename_port (send_new a b commit f s3) = ds_rename_port s"
        by (simp add: send_new_def send_defs s3_def Let_def)
      have pend: "int_pending s @ (if ?stall then [] else ints (port_get (ds_rename_port s))) = ints (ds_rev_pack s3)"
        "lsu_pending s @ (if ?stall then [] else lsus (port_get (ds_rename_port s))) = lsus (ds_rev_pack s3)"
        using False st by (simp_all add: int_pending_def lsu_pending_def s3_def)
      show ?thesis using r send_new_pending[OF idle g f(2,3,4) refl, of a b commit] pend rp by simp
    qed
  qed
qed

subsection \<open>Properties\<close>

definition dispatch_sync :: "dispatch \<Rightarrow> dispatch" where
  "dispatch_sync s =
     s\<lparr>ds_rename_port := (ds_rename_port s)\<lparr>port_value := dff_sync (port_value (ds_rename_port s))\<rparr>,
       ds_integer_port := (ds_integer_port s)\<lparr>port_value := dff_sync (port_value (ds_integer_port s))\<rparr>,
       ds_lsu_port := (ds_lsu_port s)\<lparr>port_value := dff_sync (port_value (ds_lsu_port s))\<rparr>\<rparr>"

text \<open>
  A run of cycles without flush. In each, the two issue stages stall or not, commit reports, the store buffer is empty or not, and rename has a
  new group, which it puts into its port unless dispatch stalls it. The results are the groups taken over and what the
  issue stages got.
\<close>

type_synonym dispatch_cycle = "bool \<times> bool \<times> bru_feedback_pack_t \<times> sau_feedback_pack_t \<times> commit_feedback_pack_t \<times> bool \<times> rename_dispatch_pack_t"

definition calm :: "dispatch_cycle \<Rightarrow> bool" where
  "calm x = (case x of (a, b, bru, sau, commit, sb_empty, pack) \<Rightarrow> no_flush bru sau commit \<and> group_ok pack)"

fun dispatch_cycles :: "dispatch_cycle list \<Rightarrow> dispatch \<Rightarrow>
    (rename_dispatch_op_info_t list \<times> dispatch_issue_op_info_t list \<times> dispatch_issue_op_info_t list \<times> dispatch) option" where
  "dispatch_cycles [] s = Some ([], [], [], s)"
| "dispatch_cycles ((a, b, bru, sau, commit, sb_empty, pack) # xs) s =
     do {
       (stall, s1) \<leftarrow> dispatch_run a b bru sau commit sb_empty s;
       let taken = (if stall then [] else port_get (ds_rename_port s));
       let s2 = dispatch_sync (if stall then s1 else s1\<lparr>ds_rename_port := port_set pack (ds_rename_port s1)\<rparr>);
       (group, is, ls, s') \<leftarrow> dispatch_cycles xs s2;
       Some (taken @ group, int_sent a s1 @ is, lsu_sent b s1 @ ls, s')
     }"

text \<open>
  C19. Dispatch loses nothing, doubles nothing and keeps the order. Over any cycles without flush, whatever the issue stages,
  commit and the store buffer do, no assertion fails, and the integer operations of the groups taken over are exactly those sent to the integer
  issue stage followed by those still held, in order, and likewise the loads and stores; a group is taken over in
  the cycles in which rename is not stalled. The groups are of the form that rename guarantees: an operation that waits for commit is alone.
\<close>

theorem dispatch_conserves:
  assumes "dispatch_inv s" and "\<forall>x \<in> set xs. calm x" and "group_ok (port_get (ds_rename_port s))"
    and "port_get_new (ds_rename_port s) = port_get (ds_rename_port s)"
  shows "\<exists>group is ls s'. dispatch_cycles xs s = Some (group, is, ls, s') \<and> dispatch_inv s' \<and>
    int_pending s @ ints group = is @ int_pending s' \<and> lsu_pending s @ lsus group = ls @ lsu_pending s'"
  using assms
proof (induction xs arbitrary: s)
  case (Cons x xs)
  obtain a b bru sau commit sb_empty pack where x: "x = (a, b, bru, sau, commit, sb_empty, pack)" by (cases x) auto
  have c: "no_flush bru sau commit" "group_ok pack" using Cons.prems(2) by (simp_all add: x calm_def)
  let ?stall = "dispatch_stall commit sb_empty s" and ?p = "port_get (ds_rename_port s)"
  obtain s1 where s1: "dispatch_run a b bru sau commit sb_empty s = Some (?stall, s1)" "dispatch_inv s1"
    "ds_rename_port s1 = ds_rename_port s"
    "int_pending s @ (if ?stall then [] else ints ?p) = int_sent a s1 @ int_pending s1"
    "lsu_pending s @ (if ?stall then [] else lsus ?p) = lsu_sent b s1 @ lsu_pending s1"
    using dispatch_cycle[OF Cons.prems(1) c(1) Cons.prems(3), of a b sb_empty] by blast
  let ?u = "if ?stall then s1 else s1\<lparr>ds_rename_port := port_set pack (ds_rename_port s1)\<rparr>"
  let ?s2 = "dispatch_sync ?u"
  have e: "dispatch_inv ?s2 = dispatch_inv s1" "int_pending ?s2 = int_pending s1" "lsu_pending ?s2 = lsu_pending s1"
    by (simp_all add: dispatch_sync_def dispatch_inv_def int_pending_def lsu_pending_def)
  have g: "group_ok (port_get (ds_rename_port ?s2))" "port_get_new (ds_rename_port ?s2) = port_get (ds_rename_port ?s2)"
    using Cons.prems(3,4) c(2) s1(3)
    by (auto simp: dispatch_sync_def port_get_def port_get_new_def port_set_def dff_get_def dff_get_new_def dff_sync_def dff_set_def)
  obtain group "is" ls s' where r: "dispatch_cycles xs ?s2 = Some (group, is, ls, s')" "dispatch_inv s'"
    "int_pending ?s2 @ ints group = is @ int_pending s'" "lsu_pending ?s2 @ lsus group = ls @ lsu_pending s'"
    using Cons.IH[of ?s2] s1(2) e(1) g Cons.prems(2) by (simp only: list.set insert_iff) blast
  let ?t = "if ?stall then [] else ?p"
  have t: "ints ?t = (if ?stall then [] else ints ?p)" "lsus ?t = (if ?stall then [] else lsus ?p)" by simp_all
  have i: "int_pending s @ ints (?t @ group) = (int_sent a s1 @ is) @ int_pending s'"
    using arg_cong[OF s1(4), of "\<lambda>l. l @ ints group"] r(3) e(2) t(1) by (simp only: split_simps append_assoc)
  have l: "lsu_pending s @ lsus (?t @ group) = (lsu_sent b s1 @ ls) @ lsu_pending s'"
    using arg_cong[OF s1(5), of "\<lambda>l. l @ lsus group"] r(4) e(3) t(2) by (simp only: split_simps append_assoc)
  have run: "dispatch_cycles (x # xs) s = Some (?t @ group, int_sent a s1 @ is, lsu_sent b s1 @ ls, s')"
    using s1(1) r(1) by (simp add: x Let_def)
  show ?case using run r(2) i l by blast
qed simp

definition demo_alu :: rename_dispatch_op_info_t where
  "demo_alu = rename_dispatch_op_info_make\<lparr>rn_enable := True, rn_valid := True, rn_rob_id := 4\<rparr>"

definition demo_load :: rename_dispatch_op_info_t where
  "demo_load = demo_alu\<lparr>rn_op := Op_lw, rn_op_unit := Cunit_lu, rn_rob_id := 5\<rparr>"

definition demo_mret :: rename_dispatch_op_info_t where
  "demo_mret = demo_alu\<lparr>rn_op := Op_mret, rn_op_unit := Cunit_bru, rn_rob_id := 6\<rparr>"

definition demo_dispatch :: "rename_dispatch_pack_t \<Rightarrow> dispatch" where
  "demo_dispatch g =
     \<lparr>ds_rename_port = port_make g, ds_integer_port = port_make (dispatch_pad []), ds_lsu_port = port_make (dispatch_pad []),
      ds_integer_busy = False, ds_lsu_busy = False, ds_busy = False, ds_hold_integer = dispatch_pad [], ds_hold_lsu = dispatch_pad [],
      ds_rev_pack = [], ds_inst_waiting = False, ds_inst_waiting_rob_id = 0, ds_inst_waiting_rob_id_stage = False,
      ds_stbuf_waiting = False, ds_stbuf_waiting_rob_id = 0, ds_stbuf_waiting_rob_id_stage = False\<rparr>"

lemma demo_groups: "group_ok [demo_alu, demo_load]" "group_ok [demo_mret]" "group_ok []"
  by (simp_all add: group_ok_def serial_def demo_alu_def demo_load_def demo_mret_def rename_dispatch_op_info_make_def is_lsu_def config_defs)

lemma demo_ports: "port_get (port_make v) = v" "port_get_new (port_make v) = v"
  by (simp_all add: port_get_def port_get_new_def port_make_def dff_make_def dff_get_def dff_get_new_def)

lemma demo_inv: "dispatch_inv (demo_dispatch g)"
  by (simp add: dispatch_inv_def demo_dispatch_def)

lemma demo_calm: "no_flush quiet_bru quiet_sau quiet_commit"
  by (simp add: no_flush_def quiet_bru_def quiet_sau_def quiet_commit_def)

theorem dispatch_conserves_witness:
  "\<exists>group is ls s'. dispatch_cycles [(False, True, quiet_bru, quiet_sau, quiet_commit, True, [demo_mret])]
     (demo_dispatch [demo_alu, demo_load]) = Some (group, is, ls, s') \<and> ints group = is @ int_pending s' \<and> lsus group = ls @ lsu_pending s'"
proof -
  let ?s = "demo_dispatch [demo_alu, demo_load]" and ?xs = "[(False, True, quiet_bru, quiet_sau, quiet_commit, True, [demo_mret])]"
  have p: "port_get (ds_rename_port ?s) = [demo_alu, demo_load]" "port_get_new (ds_rename_port ?s) = port_get (ds_rename_port ?s)"
    "int_pending ?s = []" "lsu_pending ?s = []"
    by (simp_all add: demo_dispatch_def demo_ports int_pending_def lsu_pending_def)
  have g: "group_ok (port_get (ds_rename_port ?s))" using p(1) demo_groups(1) by simp
  have c: "\<forall>x \<in> set ?xs. calm x" using demo_calm demo_groups by (simp add: calm_def)
  from dispatch_conserves[OF demo_inv c g p(2)] show ?thesis unfolding p(3,4) append_Nil by blast
qed

text \<open>
  C20. A CSR operation or mret runs alone. In a cycle without flush in which nothing is held or waited for, a group headed by such
  an operation is sent exactly when the integer issue stage does not stall and commit reports that operation as the next to commit: then it
  is all that is sent and the stage starts to wait for it; otherwise the group is kept and nothing is sent. While the stage waits and commit does not
  report the operation as committed, rename is stalled, nothing at all is sent and the stage goes on waiting for the same operation.
\<close>

theorem dispatch_serialises:
  assumes "dispatch_inv s" and "no_flush bru sau commit" and "group_ok (port_get (ds_rename_port s))"
    and "dispatch_run a b bru sau commit sb_empty s = Some (stall, s')"
    and "g = (if ds_busy s then ds_rev_pack s else port_get (ds_rename_port s))"
  shows "(ds_inst_waiting s \<and> \<not> inst_waiting_ok commit s \<longrightarrow>
      stall \<and> int_sent a s' = [] \<and> lsu_sent b s' = [] \<and> ds_inst_waiting s' \<and> ds_inst_waiting_rob_id s' = ds_inst_waiting_rob_id s) \<and>
    (\<not> ds_inst_waiting s \<and> \<not> ds_stbuf_waiting s \<and> \<not> ds_integer_busy s \<and> \<not> ds_lsu_busy s \<and> g \<noteq> [] \<and> serial (hd g) \<longrightarrow>
      lsu_sent b s' = [] \<and>
      (if \<not> a \<and> cf_next_handle_rob_id_valid commit \<and> cf_next_handle_rob_id commit = rn_rob_id (hd g)
       then int_sent a s' = [dispatch_integer (hd g)] \<and> ds_inst_waiting s' \<and> ds_inst_waiting_rob_id s' = rn_rob_id (hd g) \<and> \<not> ds_busy s'
       else int_sent a s' = [] \<and> ds_busy s' \<and> ds_rev_pack s' = g))"
proof (rule conjI; rule impI)
  assume "ds_inst_waiting s \<and> \<not> inst_waiting_ok commit s"
  then show "stall \<and> int_sent a s' = [] \<and> lsu_sent b s' = [] \<and> ds_inst_waiting s' \<and> ds_inst_waiting_rob_id s' = ds_inst_waiting_rob_id s"
    using assms(2,4) set_empty_pending[of a b s]
    by (auto simp: dispatch_run_def no_flush_def dispatch_stall_def bru_kills_def sau_kills_def Let_def send_defs)
next
  assume h: "\<not> ds_inst_waiting s \<and> \<not> ds_stbuf_waiting s \<and> \<not> ds_integer_busy s \<and> \<not> ds_lsu_busy s \<and> g \<noteq> [] \<and> serial (hd g)"
  have g: "group_ok g" using assms(1,3,5) by (simp add: dispatch_inv_def)
  obtain f where f: "dispatch_loop 0 (take DISPATCH_WIDTH g) found_none = Some f" "fo_lsu f = []" "fo_inst_waiting f"
    "fo_rob_id f = rn_rob_id (hd g)" "fo_integer f = [dispatch_integer (hd g)]"
    using loop_split[OF g] h by (cases g) auto
  have nl: "\<not> is_lsu (rn_op_unit (hd g))" "rn_enable (hd g)" using g h by (cases g; simp add: group_ok_def serial_def)+
  have p: "enabled (dispatch_pad [dispatch_integer (hd g)]) = [dispatch_integer (hd g)]"
    using nl enabled_pad(1)[of "[hd g]"] by simp
  define s3 where "s3 = (if \<not> ds_busy s then s\<lparr>ds_inst_waiting := False, ds_stbuf_waiting := False, ds_rev_pack := g\<rparr>
    else s\<lparr>ds_inst_waiting := False, ds_stbuf_waiting := False, ds_busy := False\<rparr>)"
  have s3: "ds_rev_pack s3 = g" "\<not> ds_busy s3" using assms(5) by (simp_all add: s3_def)
  have "s' = send_new a b commit f s3"
    using assms(2,4,5) h f(1) by (cases "ds_busy s") (simp_all add: dispatch_run_def no_flush_def s3_def Let_def)
  then show "lsu_sent b s' = [] \<and>
    (if \<not> a \<and> cf_next_handle_rob_id_valid commit \<and> cf_next_handle_rob_id commit = rn_rob_id (hd g)
     then int_sent a s' = [dispatch_integer (hd g)] \<and> ds_inst_waiting s' \<and> ds_inst_waiting_rob_id s' = rn_rob_id (hd g) \<and> \<not> ds_busy s'
     else int_sent a s' = [] \<and> ds_busy s' \<and> ds_rev_pack s' = g)"
    using f s3 p enabled_pad(3) by (simp add: send_new_def send_defs)
qed

theorem dispatch_serialises_witness:
  "\<exists>stall s'. dispatch_run False False quiet_bru quiet_sau (quiet_commit\<lparr>cf_next_handle_rob_id_valid := True, cf_next_handle_rob_id := 6\<rparr>) True
     (demo_dispatch [demo_mret]) = Some (stall, s') \<and> int_sent False s' = [dispatch_integer demo_mret] \<and> ds_inst_waiting s'"
proof -
  let ?s = "demo_dispatch [demo_mret]" and ?c = "quiet_commit\<lparr>cf_next_handle_rob_id_valid := True, cf_next_handle_rob_id := 6\<rparr>"
  have n: "no_flush quiet_bru quiet_sau ?c" using demo_calm by (simp add: no_flush_def)
  have v: "port_get (ds_rename_port ?s) = [demo_mret]" "\<not> ds_inst_waiting ?s" "\<not> ds_stbuf_waiting ?s" "\<not> ds_integer_busy ?s"
    "\<not> ds_lsu_busy ?s" "\<not> ds_busy ?s"
    by (simp_all add: demo_dispatch_def demo_ports)
  have g: "group_ok (port_get (ds_rename_port ?s))" using v demo_groups by simp
  obtain stall s' where r: "dispatch_run False False quiet_bru quiet_sau ?c True ?s = Some (stall, s')"
    using dispatch_cycle[OF demo_inv n g, of False False True] by blast
  have m: "serial demo_mret" "rn_rob_id demo_mret = 6" by (simp_all add: demo_mret_def demo_alu_def rename_dispatch_op_info_make_def serial_def)
  show ?thesis using dispatch_serialises[OF demo_inv n g r refl] r v m by simp
qed

end
