(* ===== verification/Predictors.thy ===== *)
theory Predictors
  imports Rob Cycle_Bus
begin

text \<open>
  The branch predictors: \<^verbatim>\<open>branch_predictor_base.h\<close> with its queue of requests for the end of the cycle,
  \<^verbatim>\<open>bi_modal.h\<close>, \<^verbatim>\<open>bi_mode.h\<close>, \<^verbatim>\<open>l0_btb.h\<close>, \<^verbatim>\<open>l1_btb.h\<close>, and the return address stack, \<^verbatim>\<open>stack.h\<close> and \<^verbatim>\<open>ras.h\<close>. The
  predictors are separate objects; the calls on all of them in turn do not depend on the order.
\<close>

definition L0_BTB_ADDR_WIDTH :: nat where "L0_BTB_ADDR_WIDTH = 4"
definition L0_BTB_SIZE :: nat where "L0_BTB_SIZE = 2 ^ L0_BTB_ADDR_WIDTH"
definition L0_BTB_ADDR_MASK :: u32 where "L0_BTB_ADDR_MASK = mask L0_BTB_ADDR_WIDTH"
definition BI_MODAL_ADDR_WIDTH :: nat where "BI_MODAL_ADDR_WIDTH = 4"
definition BI_MODAL_SIZE :: nat where "BI_MODAL_SIZE = 2 ^ BI_MODAL_ADDR_WIDTH"
definition BI_MODAL_ADDR_MASK :: u32 where "BI_MODAL_ADDR_MASK = mask BI_MODAL_ADDR_WIDTH"
definition BI_MODE_GLOBAL_HISTORY_LENGTH :: nat where "BI_MODE_GLOBAL_HISTORY_LENGTH = 16"
definition BI_MODE_BRANCH_PC_LENGTH :: nat where "BI_MODE_BRANCH_PC_LENGTH = 16"
definition BI_MODE_PHT_CHOICE_LENGTH :: nat where "BI_MODE_PHT_CHOICE_LENGTH = 6"
definition BI_MODE_PHT_SIZE :: nat where "BI_MODE_PHT_SIZE = 2 ^ BI_MODE_BRANCH_PC_LENGTH"
definition BI_MODE_PHT_CHOICE_ADDR_MASK :: u32 where "BI_MODE_PHT_CHOICE_ADDR_MASK = mask BI_MODE_PHT_CHOICE_LENGTH"
definition BI_MODE_BRANCH_PC_MASK :: u32 where "BI_MODE_BRANCH_PC_MASK = mask BI_MODE_BRANCH_PC_LENGTH"
definition BI_MODE_GLOBAL_HISTORY_MASK :: u32 where "BI_MODE_GLOBAL_HISTORY_MASK = mask BI_MODE_GLOBAL_HISTORY_LENGTH"
definition RAS_SIZE :: nat where "RAS_SIZE = 256"

subsection \<open>Tables\<close>

definition table_get :: "nat \<Rightarrow> 'a list \<Rightarrow> 'a option" where
  "table_get i t = (if i < length t then Some (t ! i) else None)"

definition table_set :: "nat \<Rightarrow> 'a \<Rightarrow> 'a list \<Rightarrow> 'a list option" where
  "table_set i v t = (if i < length t then Some (t[i := v]) else None)"

definition count_up :: "nat \<Rightarrow> nat" where
  "count_up n = (if n < 3 then n + 1 else n)"

definition count_down :: "nat \<Rightarrow> nat" where
  "count_down n = (if n > 0 then n - 1 else n)"

text \<open>A two-bit counter of a table is moved towards the outcome of the branch.\<close>

definition train :: "nat \<Rightarrow> bool \<Rightarrow> nat list \<Rightarrow> nat list option" where
  "train i jump t = do { n \<leftarrow> table_get i t; table_set i (if jump then count_up n else count_down n) t }"

definition branch_target :: "u32 \<Rightarrow> u32 \<Rightarrow> u32 option" where
  "branch_target pc inst = do { offset \<leftarrow> sign_extend (imm_b_of inst) 13; Some (pc + offset) }"

subsection \<open>\<^verbatim>\<open>bi_modal.h\<close>\<close>

record bi_modal =
  bm_predict_next_pc :: "u32 list"
  bm_predict_jump :: "bool list"
  bm_pht :: "nat list"

definition bi_modal_reset :: "bi_modal \<Rightarrow> bi_modal" where
  "bi_modal_reset b =
     b\<lparr>bm_predict_next_pc := replicate FETCH_WIDTH 0, bm_predict_jump := replicate FETCH_WIDTH False,
       bm_pht := replicate BI_MODAL_SIZE 0\<rparr>"

definition bi_modal_index :: "u32 \<Rightarrow> nat" where
  "bi_modal_index pc = unat (drop_bit 2 pc AND BI_MODAL_ADDR_MASK)"

definition bi_modal_update :: "u32 \<Rightarrow> bool \<Rightarrow> branch_predictor_info_pack_t \<Rightarrow> bi_modal \<Rightarrow> bi_modal option" where
  "bi_modal_update pc jump bp b =
     (if bp_condition_jump bp
      then do { t \<leftarrow> train (bi_modal_index pc) jump (bm_pht b); Some (b\<lparr>bm_pht := t\<rparr>) }
      else Some b)"

definition bi_modal_predict :: "nat \<Rightarrow> u32 \<Rightarrow> u32 \<Rightarrow> bi_modal \<Rightarrow> bi_modal option" where
  "bi_modal_predict port pc inst b =
     do {
       verify (port < FETCH_WIDTH);
       target \<leftarrow> branch_target pc inst;
       n \<leftarrow> table_get (bi_modal_index pc) (bm_pht b);
       verify (n \<le> 3);
       let jump = (n \<ge> 2);
       js \<leftarrow> table_set port jump (bm_predict_jump b);
       ns \<leftarrow> table_set port (if jump then target else pc + 4) (bm_predict_next_pc b);
       Some (b\<lparr>bm_predict_jump := js, bm_predict_next_pc := ns\<rparr>)
     }"

definition bi_modal_get_next_pc :: "nat \<Rightarrow> bi_modal \<Rightarrow> u32 option" where
  "bi_modal_get_next_pc port b = do { verify (port < FETCH_WIDTH); table_get port (bm_predict_next_pc b) }"

definition bi_modal_is_jump :: "nat \<Rightarrow> bi_modal \<Rightarrow> bool option" where
  "bi_modal_is_jump port b = do { verify (port < FETCH_WIDTH); table_get port (bm_predict_jump b) }"

definition bi_modal_fill :: "branch_predictor_info_pack_t \<Rightarrow> branch_predictor_info_pack_t" where
  "bi_modal_fill bp = bp\<lparr>bp_condition_jump := True\<rparr>"

subsection \<open>\<^verbatim>\<open>bi_mode.h\<close>\<close>

record bi_mode =
  bo_predict_next_pc :: "u32 dff list"
  bo_predict_jump :: "bool dff list"
  bo_global_history :: u32
  bo_global_history_retired :: u32
  bo_pht_left :: "nat list"
  bo_pht_right :: "nat list"
  bo_pht_choice :: "nat list"

definition bi_mode_reset :: "bi_mode \<Rightarrow> bi_mode" where
  "bi_mode_reset b =
     b\<lparr>bo_predict_next_pc := map (dff_set 0) (bo_predict_next_pc b), bo_predict_jump := map (dff_set False) (bo_predict_jump b),
       bo_global_history := 0, bo_global_history_retired := 0, bo_pht_left := replicate BI_MODE_PHT_SIZE 0,
       bo_pht_right := replicate BI_MODE_PHT_SIZE 0, bo_pht_choice := replicate BI_MODE_PHT_SIZE 0\<rparr>"

definition pht_addr :: "u32 \<Rightarrow> u32 \<Rightarrow> nat" where
  "pht_addr history pc = unat (history XOR (drop_bit 2 pc AND BI_MODE_BRANCH_PC_MASK))"

definition pht_choice_addr :: "u32 \<Rightarrow> nat" where
  "pht_choice_addr pc = unat (drop_bit 2 pc AND BI_MODE_PHT_CHOICE_ADDR_MASK)"

definition history_push :: "u32 \<Rightarrow> bool \<Rightarrow> u32" where
  "history_push history jump = (push_bit 1 history AND BI_MODE_GLOBAL_HISTORY_MASK) OR (if jump then 1 else 0)"

definition bi_mode_train :: "u32 \<Rightarrow> u32 \<Rightarrow> bool \<Rightarrow> bool \<Rightarrow> branch_predictor_info_pack_t \<Rightarrow> bi_mode \<Rightarrow> bi_mode option" where
  "bi_mode_train history pc jump hit bp b =
     (if bp_condition_jump bp
      then do {
        choice \<leftarrow> table_get (pht_choice_addr pc) (bo_pht_choice b);
        b1 \<leftarrow> (if choice \<le> 1
               then do { t \<leftarrow> train (pht_addr history pc) jump (bo_pht_left b); Some (b\<lparr>bo_pht_left := t\<rparr>) }
               else do { t \<leftarrow> train (pht_addr history pc) jump (bo_pht_right b); Some (b\<lparr>bo_pht_right := t\<rparr>) });
        if \<not> ((choice \<ge> 2) \<noteq> jump \<and> hit)
        then do { t \<leftarrow> train (pht_choice_addr pc) jump (bo_pht_choice b1); Some (b1\<lparr>bo_pht_choice := t\<rparr>) }
        else Some b1
      }
      else Some b)"

definition bi_mode_update :: "u32 \<Rightarrow> bool \<Rightarrow> bool \<Rightarrow> branch_predictor_info_pack_t \<Rightarrow> bi_mode \<Rightarrow> bi_mode option" where
  "bi_mode_update pc jump hit bp b =
     do {
       b1 \<leftarrow> bi_mode_train (bp_bi_mode_global_history bp) pc jump hit bp b;
       if bp_condition_jump bp
       then let b2 = (if \<not> hit \<and> \<not> bp_checkpoint_id_valid bp
                      then b1\<lparr>bo_global_history := bo_global_history_retired b1\<rparr> else b1)
            in Some (b2\<lparr>bo_global_history_retired := history_push (bo_global_history_retired b2) jump\<rparr>)
       else Some b1
     }"

definition bi_mode_bru_speculative_update :: "bool \<Rightarrow> bool \<Rightarrow> branch_predictor_info_pack_t \<Rightarrow> bi_mode \<Rightarrow> bi_mode" where
  "bi_mode_bru_speculative_update jump hit bp b =
     (if bp_condition_jump bp \<and> \<not> hit
      then b\<lparr>bo_global_history := history_push (bp_bi_mode_global_history bp) jump\<rparr> else b)"

definition bi_mode_speculative_update :: "bool \<Rightarrow> bi_mode \<Rightarrow> bi_mode" where
  "bi_mode_speculative_update jump b = b\<lparr>bo_global_history := history_push (bo_global_history b) jump\<rparr>"

definition get_pht :: "u32 \<Rightarrow> u32 \<Rightarrow> bi_mode \<Rightarrow> nat option" where
  "get_pht pc history b =
     do {
       choice \<leftarrow> table_get (pht_choice_addr pc) (bo_pht_choice b);
       if choice \<le> 1 then table_get (pht_addr history pc) (bo_pht_left b) else table_get (pht_addr history pc) (bo_pht_right b)
     }"

definition bi_mode_predict :: "nat \<Rightarrow> u32 \<Rightarrow> u32 \<Rightarrow> bi_mode \<Rightarrow> bi_mode option" where
  "bi_mode_predict port pc inst b =
     do {
       verify (port < FETCH_WIDTH);
       target \<leftarrow> branch_target pc inst;
       n \<leftarrow> get_pht pc (bo_global_history b) b;
       let jump = (n \<ge> 2);
       j \<leftarrow> table_get port (bo_predict_jump b);
       a \<leftarrow> table_get port (bo_predict_next_pc b);
       Some (b\<lparr>bo_predict_jump := (bo_predict_jump b)[port := dff_set jump j],
               bo_predict_next_pc := (bo_predict_next_pc b)[port := dff_set (if jump then target else pc + 4) a]\<rparr>)
     }"

definition bi_mode_get_next_pc :: "nat \<Rightarrow> bi_mode \<Rightarrow> u32 option" where
  "bi_mode_get_next_pc port b =
     do { verify (port < FETCH_WIDTH); d \<leftarrow> table_get port (bo_predict_next_pc b); Some (dff_get d) }"

definition bi_mode_is_jump :: "nat \<Rightarrow> bi_mode \<Rightarrow> bool option" where
  "bi_mode_is_jump port b =
     do { verify (port < FETCH_WIDTH); d \<leftarrow> table_get port (bo_predict_jump b); Some (dff_get d) }"

definition bi_mode_fill :: "bi_mode \<Rightarrow> branch_predictor_info_pack_t \<Rightarrow> branch_predictor_info_pack_t" where
  "bi_mode_fill b bp = bp\<lparr>bp_condition_jump := True, bp_bi_mode_global_history := bo_global_history b\<rparr>"

definition bi_mode_fill_debug :: "u32 \<Rightarrow> bi_mode \<Rightarrow> branch_predictor_info_pack_t \<Rightarrow> branch_predictor_info_pack_t option" where
  "bi_mode_fill_debug pc b bp =
     do { n \<leftarrow> get_pht pc (bo_global_history b) b; Some ((bi_mode_fill b bp)\<lparr>bp_bi_mode_pht_value := of_nat n\<rparr>) }"

definition bi_mode_restore :: "branch_predictor_info_pack_t \<Rightarrow> bi_mode \<Rightarrow> bi_mode" where
  "bi_mode_restore bp b = b\<lparr>bo_global_history := bp_bi_mode_global_history bp\<rparr>"

subsection \<open>\<^verbatim>\<open>l0_btb.h\<close> and \<^verbatim>\<open>l1_btb.h\<close>\<close>

text \<open>The second level keeps nothing: its target is 0 and it is not asked.\<close>

record l0_btb =
  l0_predict_next_pc :: "u32 list"
  l0_tag :: "u32 list"
  l0_target_addr :: "u32 list"
  l0_valid :: "bool list"

definition l0_btb_reset :: "l0_btb \<Rightarrow> l0_btb" where
  "l0_btb_reset b =
     b\<lparr>l0_tag := replicate L0_BTB_SIZE 0, l0_target_addr := replicate L0_BTB_SIZE 0, l0_valid := replicate L0_BTB_SIZE False\<rparr>"

definition l0_index :: "u32 \<Rightarrow> nat" where
  "l0_index pc = unat (drop_bit 2 pc AND L0_BTB_ADDR_MASK)"

definition l0_btb_update :: "u32 \<Rightarrow> u32 \<Rightarrow> branch_predictor_info_pack_t \<Rightarrow> l0_btb \<Rightarrow> l0_btb option" where
  "l0_btb_update pc next_pc bp b =
     (if bp_uncondition_indirect_jump bp
      then do {
        ts \<leftarrow> table_set (l0_index pc) (drop_bit (L0_BTB_ADDR_WIDTH + 2) pc) (l0_tag b);
        as \<leftarrow> table_set (l0_index pc) (drop_bit 2 next_pc) (l0_target_addr b);
        vs \<leftarrow> table_set (l0_index pc) True (l0_valid b);
        Some (b\<lparr>l0_tag := ts, l0_target_addr := as, l0_valid := vs\<rparr>)
      }
      else Some b)"

definition l0_btb_predict :: "nat \<Rightarrow> u32 \<Rightarrow> l0_btb \<Rightarrow> l0_btb option" where
  "l0_btb_predict port pc b =
     do {
       v \<leftarrow> table_get (l0_index pc) (l0_valid b);
       t \<leftarrow> table_get (l0_index pc) (l0_tag b);
       a \<leftarrow> table_get (l0_index pc) (l0_target_addr b);
       ns \<leftarrow> table_set port (if v \<and> t = drop_bit (L0_BTB_ADDR_WIDTH + 2) pc then push_bit 2 a else pc + 4) (l0_predict_next_pc b);
       Some (b\<lparr>l0_predict_next_pc := ns\<rparr>)
     }"

definition l0_btb_get_next_pc :: "nat \<Rightarrow> l0_btb \<Rightarrow> u32 option" where
  "l0_btb_get_next_pc port b = do { verify (port < FETCH_WIDTH); table_get port (l0_predict_next_pc b) }"

definition l0_btb_fill :: "branch_predictor_info_pack_t \<Rightarrow> branch_predictor_info_pack_t" where
  "l0_btb_fill bp = bp\<lparr>bp_uncondition_indirect_jump := True\<rparr>"

subsection \<open>\<^verbatim>\<open>stack.h\<close> and \<^verbatim>\<open>ras.h\<close>\<close>

record 'a stack =
  stk_buffer :: "'a dff list"
  stk_size :: nat
  stk_top_ptr :: "nat dff"

definition stack_make :: "'a \<Rightarrow> nat \<Rightarrow> 'a stack" where
  "stack_make v n = \<lparr>stk_buffer = replicate n (dff_make v), stk_size = n, stk_top_ptr = dff_set 0 (dff_make 0)\<rparr>"

definition stack_reset :: "'a stack \<Rightarrow> 'a stack" where
  "stack_reset s = s\<lparr>stk_top_ptr := dff_set 0 (stk_top_ptr s)\<rparr>"

definition stack_flush :: "'a stack \<Rightarrow> 'a stack" where
  "stack_flush s = s\<lparr>stk_top_ptr := dff_set 0 (stk_top_ptr s)\<rparr>"

definition stack_is_empty :: "'a stack \<Rightarrow> bool" where
  "stack_is_empty s \<longleftrightarrow> dff_get (stk_top_ptr s) = 0"

definition stack_is_full :: "'a stack \<Rightarrow> bool" where
  "stack_is_full s \<longleftrightarrow> dff_get (stk_top_ptr s) = stk_size s"

definition stack_set :: "nat \<Rightarrow> 'a \<Rightarrow> 'a stack \<Rightarrow> 'a stack option" where
  "stack_set i v s =
     do { d \<leftarrow> table_get i (stk_buffer s); Some (s\<lparr>stk_buffer := (stk_buffer s)[i := dff_set v d]\<rparr>) }"

definition stack_push :: "'a \<Rightarrow> 'a stack \<Rightarrow> (bool \<times> 'a stack) option" where
  "stack_push v s =
     (if stack_is_full s then Some (False, s)
      else do {
        s1 \<leftarrow> stack_set (dff_get (stk_top_ptr s)) v s;
        Some (True, s1\<lparr>stk_top_ptr := dff_set (dff_get (stk_top_ptr s1) + 1) (stk_top_ptr s1)\<rparr>)
      })"

definition stack_get_top :: "'a stack \<Rightarrow> 'a option option" where
  "stack_get_top s =
     (if stack_is_empty s then Some None
      else do { d \<leftarrow> table_get (dff_get (stk_top_ptr s) - 1) (stk_buffer s); Some (Some (dff_get d)) })"

definition stack_pop :: "'a stack \<Rightarrow> ('a option \<times> 'a stack) option" where
  "stack_pop s =
     (if stack_is_empty s then Some (None, s)
      else do {
        d \<leftarrow> table_get (dff_get (stk_top_ptr s) - 1) (stk_buffer s);
        Some (Some (dff_get d), s\<lparr>stk_top_ptr := dff_set (dff_get (stk_top_ptr s) - 1) (stk_top_ptr s)\<rparr>)
      })"

record ras_item_t =
  ras_addr :: u32
  ras_cnt :: u32

record ras =
  ras_stack :: "ras_item_t stack"
  ras_last_addr :: "u32 dff"

definition ras_make :: "nat \<Rightarrow> ras" where
  "ras_make n = \<lparr>ras_stack = stack_make \<lparr>ras_addr = 0, ras_cnt = 0\<rparr> n, ras_last_addr = dff_set 0 (dff_make 0)\<rparr>"

definition ras_reset :: "ras \<Rightarrow> ras" where
  "ras_reset r = r\<lparr>ras_last_addr := dff_set 0 (ras_last_addr r), ras_stack := stack_reset (ras_stack r)\<rparr>"

definition ras_set_item :: "nat \<Rightarrow> ras_item_t \<Rightarrow> ras \<Rightarrow> ras option" where
  "ras_set_item i v r = do { s \<leftarrow> stack_set i v (ras_stack r); Some (r\<lparr>ras_stack := s\<rparr>) }"

definition get_top_id :: "ras \<Rightarrow> nat option" where
  "get_top_id r = (if stack_is_empty (ras_stack r) then None else Some (dff_get (stk_top_ptr (ras_stack r)) - 1))"

text \<open>The loop bound is an unsigned difference, so that an empty stack would run far out of the array.\<close>

fun throw_loop :: "nat list \<Rightarrow> ras_item_t dff list \<Rightarrow> ras_item_t dff list" where
  "throw_loop [] b = b"
| "throw_loop (i # is) b = throw_loop is (b[i - 1 := dff_set (dff_get (b ! i)) (b ! (i - 1))])"

definition throw_push :: "ras_item_t \<Rightarrow> ras \<Rightarrow> ras option" where
  "throw_push v r =
     (let s = ras_stack r; top = dff_get (stk_top_ptr s) in
      do {
        verify (0 < top \<and> top \<le> length (stk_buffer s));
        s1 \<leftarrow> stack_set (top - 1) v (s\<lparr>stk_buffer := throw_loop [1..<top - 1] (stk_buffer s)\<rparr>);
        Some (r\<lparr>ras_stack := s1\<rparr>)
      })"

definition push_addr :: "u32 \<Rightarrow> ras \<Rightarrow> ras option" where
  "push_addr a r =
     do {
       top \<leftarrow> stack_get_top (ras_stack r);
       case top of
         Some t \<Rightarrow>
           if ras_addr t = a \<and> ras_cnt t < 0xFFFFFFFF
           then do { i \<leftarrow> get_top_id r; ras_set_item i (t\<lparr>ras_cnt := ras_cnt t + 1\<rparr>) r }
           else if stack_is_full (ras_stack r) then throw_push \<lparr>ras_addr = a, ras_cnt = 1\<rparr> r
           else do { (b, s) \<leftarrow> stack_push \<lparr>ras_addr = a, ras_cnt = 1\<rparr> (ras_stack r); Some (r\<lparr>ras_stack := s\<rparr>) }
       | None \<Rightarrow>
           if stack_is_full (ras_stack r) then throw_push \<lparr>ras_addr = a, ras_cnt = 1\<rparr> r
           else do { (b, s) \<leftarrow> stack_push \<lparr>ras_addr = a, ras_cnt = 1\<rparr> (ras_stack r); Some (r\<lparr>ras_stack := s\<rparr>) }
     }"

definition pop_addr :: "ras \<Rightarrow> (u32 \<times> ras) option" where
  "pop_addr r =
     do {
       top \<leftarrow> stack_get_top (ras_stack r);
       case top of
         Some t \<Rightarrow>
           if ras_cnt t = 1
           then do {
             (t', s) \<leftarrow> stack_pop (ras_stack r);
             Some (ras_addr t, r\<lparr>ras_last_addr := dff_set (ras_addr t) (ras_last_addr r), ras_stack := s\<rparr>)
           }
           else do {
             i \<leftarrow> get_top_id r;
             r1 \<leftarrow> ras_set_item i (t\<lparr>ras_cnt := ras_cnt t - 1\<rparr>) r;
             Some (ras_addr t, r1)
           }
       | None \<Rightarrow> Some (dff_get (ras_last_addr r), r)
     }"

definition ras_sync :: "ras \<Rightarrow> ras" where
  "ras_sync r =
     r\<lparr>ras_stack := (ras_stack r)\<lparr>stk_buffer := map dff_sync (stk_buffer (ras_stack r)), stk_top_ptr := dff_sync (stk_top_ptr (ras_stack r))\<rparr>,
       ras_last_addr := dff_sync (ras_last_addr r)\<rparr>"

subsection \<open>Requests for the end of the cycle\<close>

datatype sync_request_type_t = Req_update | Req_speculative_update | Req_bru_speculative_update | Req_restore

record bp_request_t =
  rq_req :: sync_request_type_t
  rq_pc :: u32
  rq_jump :: bool
  rq_next_pc :: u32
  rq_hit :: bool
  rq_bp_pack :: branch_predictor_info_pack_t

definition bp_request_make :: bp_request_t where
  "bp_request_make = \<lparr>rq_req = Req_update, rq_pc = 0, rq_jump = False, rq_next_pc = 0, rq_hit = False,
     rq_bp_pack = branch_predictor_info_pack_make\<rparr>"

definition update_request :: "u32 \<Rightarrow> bool \<Rightarrow> u32 \<Rightarrow> bool \<Rightarrow> branch_predictor_info_pack_t \<Rightarrow> bp_request_t" where
  "update_request pc jump next_pc hit bp = \<lparr>rq_req = Req_update, rq_pc = pc, rq_jump = jump, rq_next_pc = next_pc, rq_hit = hit,
     rq_bp_pack = bp\<rparr>"

definition speculative_request :: "u32 \<Rightarrow> bool \<Rightarrow> bp_request_t" where
  "speculative_request pc jump = bp_request_make\<lparr>rq_req := Req_speculative_update, rq_pc := pc, rq_jump := jump\<rparr>"

definition bru_request :: "u32 \<Rightarrow> bool \<Rightarrow> u32 \<Rightarrow> bool \<Rightarrow> branch_predictor_info_pack_t \<Rightarrow> bp_request_t" where
  "bru_request pc jump next_pc hit bp = (update_request pc jump next_pc hit bp)\<lparr>rq_req := Req_bru_speculative_update\<rparr>"

definition restore_request :: "branch_predictor_info_pack_t \<Rightarrow> bp_request_t" where
  "restore_request bp = bp_request_make\<lparr>rq_req := Req_restore, rq_bp_pack := bp\<rparr>"

text \<open>Each predictor has a queue of its own; that of the second level target buffer has no effect and is left out.\<close>

record branch_predictor_set =
  bs_l0_btb :: l0_btb
  bs_l0_btb_q :: "bp_request_t list"
  bs_bi_modal :: bi_modal
  bs_bi_modal_q :: "bp_request_t list"
  bs_bi_mode :: bi_mode
  bs_bi_mode_q :: "bp_request_t list"
  bs_main_ras :: ras

definition batch_request :: "bp_request_t \<Rightarrow> branch_predictor_set \<Rightarrow> branch_predictor_set" where
  "batch_request r s = s\<lparr>bs_l0_btb_q := bs_l0_btb_q s @ [r], bs_bi_modal_q := bs_bi_modal_q s @ [r], bs_bi_mode_q := bs_bi_mode_q s @ [r]\<rparr>"

definition bi_modal_apply :: "bp_request_t \<Rightarrow> bi_modal \<Rightarrow> bi_modal option" where
  "bi_modal_apply r b = (case rq_req r of Req_update \<Rightarrow> bi_modal_update (rq_pc r) (rq_jump r) (rq_bp_pack r) b | _ \<Rightarrow> Some b)"

definition l0_btb_apply :: "bp_request_t \<Rightarrow> l0_btb \<Rightarrow> l0_btb option" where
  "l0_btb_apply r b = (case rq_req r of Req_update \<Rightarrow> l0_btb_update (rq_pc r) (rq_next_pc r) (rq_bp_pack r) b | _ \<Rightarrow> Some b)"

definition bi_mode_apply :: "bp_request_t \<Rightarrow> bi_mode \<Rightarrow> bi_mode option" where
  "bi_mode_apply r b =
     (case rq_req r of
        Req_update \<Rightarrow> bi_mode_update (rq_pc r) (rq_jump r) (rq_hit r) (rq_bp_pack r) b
      | Req_speculative_update \<Rightarrow> Some (bi_mode_speculative_update (rq_jump r) b)
      | Req_bru_speculative_update \<Rightarrow> Some (bi_mode_bru_speculative_update (rq_jump r) (rq_hit r) (rq_bp_pack r) b)
      | Req_restore \<Rightarrow> Some (bi_mode_restore (rq_bp_pack r) b))"

fun apply_all :: "('r \<Rightarrow> 'p \<Rightarrow> 'p option) \<Rightarrow> 'r list \<Rightarrow> 'p \<Rightarrow> 'p option" where
  "apply_all f [] p = Some p"
| "apply_all f (r # rs) p = do { p' \<leftarrow> f r p; apply_all f rs p' }"

definition batch_sync :: "branch_predictor_set \<Rightarrow> branch_predictor_set option" where
  "batch_sync s =
     do {
       l0 \<leftarrow> apply_all l0_btb_apply (bs_l0_btb_q s) (bs_l0_btb s);
       bm \<leftarrow> apply_all bi_modal_apply (bs_bi_modal_q s) (bs_bi_modal s);
       bo \<leftarrow> apply_all bi_mode_apply (bs_bi_mode_q s) (bs_bi_mode s);
       Some (s\<lparr>bs_l0_btb := l0, bs_l0_btb_q := [], bs_bi_modal := bm, bs_bi_modal_q := [], bs_bi_mode := bo, bs_bi_mode_q := []\<rparr>)
     }"

definition batch_predict :: "nat \<Rightarrow> u32 \<Rightarrow> u32 \<Rightarrow> branch_predictor_set \<Rightarrow> branch_predictor_set option" where
  "batch_predict port pc inst s =
     do {
       l0 \<leftarrow> l0_btb_predict port pc (bs_l0_btb s);
       bm \<leftarrow> bi_modal_predict port pc inst (bs_bi_modal s);
       bo \<leftarrow> bi_mode_predict port pc inst (bs_bi_mode s);
       Some (s\<lparr>bs_l0_btb := l0, bs_bi_modal := bm, bs_bi_mode := bo\<rparr>)
     }"

definition batch_reset :: "branch_predictor_set \<Rightarrow> branch_predictor_set" where
  "batch_reset s = s\<lparr>bs_l0_btb := l0_btb_reset (bs_l0_btb s), bs_bi_modal := bi_modal_reset (bs_bi_modal s),
     bs_bi_mode := bi_mode_reset (bs_bi_mode s)\<rparr>"

definition predictors_sync :: "branch_predictor_set \<Rightarrow> branch_predictor_set" where
  "predictors_sync s =
     s\<lparr>bs_bi_mode := (bs_bi_mode s)\<lparr>bo_predict_next_pc := map dff_sync (bo_predict_next_pc (bs_bi_mode s)),
         bo_predict_jump := map dff_sync (bo_predict_jump (bs_bi_mode s))\<rparr>,
       bs_main_ras := ras_sync (bs_main_ras s)\<rparr>"

text \<open>The constructed predictors, with the arrays that no constructor or reset writes as arguments.\<close>

definition predictors_make :: "u32 list \<Rightarrow> branch_predictor_set" where
  "predictors_make junk =
     batch_reset
       \<lparr>bs_l0_btb = \<lparr>l0_predict_next_pc = junk, l0_tag = [], l0_target_addr = [], l0_valid = []\<rparr>, bs_l0_btb_q = [],
        bs_bi_modal = \<lparr>bm_predict_next_pc = [], bm_predict_jump = [], bm_pht = []\<rparr>, bs_bi_modal_q = [],
        bs_bi_mode = \<lparr>bo_predict_next_pc = replicate FETCH_WIDTH (dff_make 0), bo_predict_jump = replicate FETCH_WIDTH (dff_make False),
          bo_global_history = 0, bo_global_history_retired = 0, bo_pht_left = [], bo_pht_right = [], bo_pht_choice = []\<rparr>,
        bs_bi_mode_q = [], bs_main_ras = ras_make RAS_SIZE\<rparr>"

subsection \<open>The tables stay in range\<close>

definition counters :: "nat \<Rightarrow> nat list \<Rightarrow> bool" where
  "counters n t \<longleftrightarrow> length t = n \<and> list_all (\<lambda>c. c \<le> 3) t"

definition history_ok :: "u32 \<Rightarrow> bool" where
  "history_ok h \<longleftrightarrow> h AND BI_MODE_GLOBAL_HISTORY_MASK = h"

definition predictors_ok :: "branch_predictor_set \<Rightarrow> bool" where
  "predictors_ok s \<longleftrightarrow>
     length (l0_predict_next_pc (bs_l0_btb s)) = FETCH_WIDTH \<and> length (l0_tag (bs_l0_btb s)) = L0_BTB_SIZE \<and>
     length (l0_target_addr (bs_l0_btb s)) = L0_BTB_SIZE \<and> length (l0_valid (bs_l0_btb s)) = L0_BTB_SIZE \<and>
     length (bm_predict_next_pc (bs_bi_modal s)) = FETCH_WIDTH \<and> length (bm_predict_jump (bs_bi_modal s)) = FETCH_WIDTH \<and>
     counters BI_MODAL_SIZE (bm_pht (bs_bi_modal s)) \<and>
     length (bo_predict_next_pc (bs_bi_mode s)) = FETCH_WIDTH \<and> length (bo_predict_jump (bs_bi_mode s)) = FETCH_WIDTH \<and>
     counters BI_MODE_PHT_SIZE (bo_pht_left (bs_bi_mode s)) \<and> counters BI_MODE_PHT_SIZE (bo_pht_right (bs_bi_mode s)) \<and>
     counters BI_MODE_PHT_SIZE (bo_pht_choice (bs_bi_mode s)) \<and>
     history_ok (bo_global_history (bs_bi_mode s)) \<and> history_ok (bo_global_history_retired (bs_bi_mode s)) \<and>
     list_all (\<lambda>r. history_ok (bp_bi_mode_global_history (rq_bp_pack r))) (bs_bi_mode_q s)"

lemmas bp_consts = FETCH_WIDTH_def L0_BTB_ADDR_WIDTH_def L0_BTB_SIZE_def L0_BTB_ADDR_MASK_def BI_MODAL_ADDR_WIDTH_def BI_MODAL_SIZE_def
  BI_MODAL_ADDR_MASK_def BI_MODE_GLOBAL_HISTORY_LENGTH_def BI_MODE_BRANCH_PC_LENGTH_def BI_MODE_PHT_CHOICE_LENGTH_def BI_MODE_PHT_SIZE_def
  BI_MODE_PHT_CHOICE_ADDR_MASK_def BI_MODE_BRANCH_PC_MASK_def BI_MODE_GLOBAL_HISTORY_MASK_def RAS_SIZE_def

lemma mask_bound: "n < 32 \<Longrightarrow> unat (x AND mask n :: u32) < 2 ^ n"
  by (simp add: take_bit_eq_mask[symmetric] unsigned_take_bit_eq)

lemma index_bounds: "bi_modal_index pc < BI_MODAL_SIZE" "l0_index pc < L0_BTB_SIZE" "pht_choice_addr pc < BI_MODE_PHT_SIZE"
proof -
  show "bi_modal_index pc < BI_MODAL_SIZE" "l0_index pc < L0_BTB_SIZE"
    using mask_bound[of 4 "drop_bit 2 pc"] by (simp_all add: bi_modal_index_def l0_index_def bp_consts)
  have "pht_choice_addr pc < 2 ^ 6" using mask_bound[of 6 "drop_bit 2 pc"] by (simp add: pht_choice_addr_def bp_consts)
  also have "(2::nat) ^ 6 \<le> BI_MODE_PHT_SIZE" by (simp add: bp_consts)
  finally show "pht_choice_addr pc < BI_MODE_PHT_SIZE" .
qed

lemma pht_addr_bound:
  assumes "history_ok h"
  shows "pht_addr h pc < BI_MODE_PHT_SIZE"
proof -
  have "(h AND m) XOR (x AND m) = (h XOR x) AND m" for x m :: u32
    by (rule bit_word_eqI) (auto simp: bit_simps)
  then have "h XOR (x AND mask 16) = (h XOR x) AND mask 16" for x
    using assms unfolding history_ok_def bp_consts by metis
  then show ?thesis using mask_bound[of 16] by (simp add: pht_addr_def bp_consts)
qed

lemma history_push_ok [simp]: "history_ok (history_push h jump)"
proof -
  have "(1 :: u32) AND mask 16 = 1" by (simp add: take_bit_eq_mask[symmetric])
  then show ?thesis by (simp add: history_ok_def history_push_def bp_consts bit.conj_disj_distrib2 and.assoc)
qed

lemma history_zero [simp]: "history_ok 0"
  by (simp add: history_ok_def)

lemma table_get_Some: "i < length t \<Longrightarrow> table_get i t = Some (t ! i)"
  by (simp add: table_get_def)

lemma train_ok:
  assumes "counters n t" and "i < n"
  obtains t' where "train i jump t = Some t'" and "counters n t'"
proof
  let ?t = "t[i := if jump then count_up (t ! i) else count_down (t ! i)]"
  show "train i jump t = Some ?t" using assms by (simp add: train_def table_get_def table_set_def counters_def)
  have "t ! i \<le> 3" using assms by (simp add: counters_def list_all_length)
  then have "count_up (t ! i) \<le> 3" "count_down (t ! i) \<le> 3" by (auto simp: count_up_def count_down_def)
  then show "counters n ?t" using assms by (auto simp: counters_def list_all_length nth_list_update)
qed

lemma counters_replicate: "counters n (replicate n 0)"
  by (simp add: counters_def list_all_iff)

lemma branch_target_total: "\<exists>target. branch_target pc inst = Some target"
  by (simp add: branch_target_def sign_extend_def Let_def)

definition mode_ok :: "bi_mode \<Rightarrow> bool" where
  "mode_ok b \<longleftrightarrow>
     length (bo_predict_next_pc b) = FETCH_WIDTH \<and> length (bo_predict_jump b) = FETCH_WIDTH \<and>
     counters BI_MODE_PHT_SIZE (bo_pht_left b) \<and> counters BI_MODE_PHT_SIZE (bo_pht_right b) \<and>
     counters BI_MODE_PHT_SIZE (bo_pht_choice b) \<and> history_ok (bo_global_history b) \<and> history_ok (bo_global_history_retired b)"

definition modal_ok :: "bi_modal \<Rightarrow> bool" where
  "modal_ok b \<longleftrightarrow> length (bm_predict_next_pc b) = FETCH_WIDTH \<and> length (bm_predict_jump b) = FETCH_WIDTH \<and> counters BI_MODAL_SIZE (bm_pht b)"

definition btb_ok :: "l0_btb \<Rightarrow> bool" where
  "btb_ok b \<longleftrightarrow> length (l0_predict_next_pc b) = FETCH_WIDTH \<and> length (l0_tag b) = L0_BTB_SIZE \<and>
     length (l0_target_addr b) = L0_BTB_SIZE \<and> length (l0_valid b) = L0_BTB_SIZE"

lemma predictors_ok_parts:
  "predictors_ok s \<longleftrightarrow> btb_ok (bs_l0_btb s) \<and> modal_ok (bs_bi_modal s) \<and> mode_ok (bs_bi_mode s) \<and>
     list_all (\<lambda>r. history_ok (bp_bi_mode_global_history (rq_bp_pack r))) (bs_bi_mode_q s)"
  by (auto simp: predictors_ok_def btb_ok_def modal_ok_def mode_ok_def)

lemma get_pht_total:
  assumes "mode_ok b" and "history_ok h"
  shows "\<exists>n. get_pht pc h b = Some n"
  using assms index_bounds(3)[of pc] pht_addr_bound[of h pc]
  by (auto simp: get_pht_def mode_ok_def counters_def table_get_Some)

lemma bi_mode_predict_ok:
  assumes "mode_ok b" and "port < FETCH_WIDTH"
  shows "\<exists>b'. bi_mode_predict port pc inst b = Some b' \<and> mode_ok b' \<and> bo_global_history b' = bo_global_history b"
proof -
  obtain n where "get_pht pc (bo_global_history b) b = Some n" using get_pht_total[OF assms(1)] assms(1) by (auto simp: mode_ok_def)
  moreover obtain a where "branch_target pc inst = Some a" using branch_target_total by blast
  ultimately show ?thesis using assms by (simp add: bi_mode_predict_def mode_ok_def table_get_Some Let_def)
qed

lemma bi_modal_predict_ok:
  assumes "modal_ok b" and "port < FETCH_WIDTH"
  shows "\<exists>b'. bi_modal_predict port pc inst b = Some b' \<and> modal_ok b'"
proof -
  obtain a where "branch_target pc inst = Some a" using branch_target_total by blast
  moreover have "bm_pht b ! bi_modal_index pc \<le> 3" using assms(1) index_bounds(1)[of pc] by (simp add: modal_ok_def counters_def list_all_length)
  ultimately show ?thesis using assms index_bounds(1)[of pc]
    by (simp add: bi_modal_predict_def modal_ok_def counters_def table_get_Some table_set_def Let_def)
qed

lemma l0_btb_predict_ok:
  assumes "btb_ok b" and "port < FETCH_WIDTH"
  shows "\<exists>b'. l0_btb_predict port pc b = Some b' \<and> btb_ok b'"
  using assms index_bounds(2)[of pc] by (simp add: l0_btb_predict_def btb_ok_def table_get_Some table_set_def)

lemma bi_mode_train_ok:
  assumes "mode_ok b" and "history_ok h"
  shows "\<exists>b'. bi_mode_train h pc jump hit bp b = Some b' \<and> mode_ok b' \<and> bo_global_history_retired b' = bo_global_history_retired b"
proof (cases "bp_condition_jump bp")
  case True
  let ?c = "bo_pht_choice b ! pht_choice_addr pc"
  have c: "table_get (pht_choice_addr pc) (bo_pht_choice b) = Some ?c"
    using assms(1) index_bounds(3)[of pc] by (simp add: mode_ok_def counters_def table_get_Some)
  have i: "pht_addr h pc < BI_MODE_PHT_SIZE" "pht_choice_addr pc < BI_MODE_PHT_SIZE"
    using pht_addr_bound[OF assms(2)] index_bounds(3) by blast+
  obtain l where l: "train (pht_addr h pc) jump (bo_pht_left b) = Some l" "counters BI_MODE_PHT_SIZE l"
    using train_ok[OF _ i(1)] assms(1) unfolding mode_ok_def by metis
  obtain r where r: "train (pht_addr h pc) jump (bo_pht_right b) = Some r" "counters BI_MODE_PHT_SIZE r"
    using train_ok[OF _ i(1)] assms(1) unfolding mode_ok_def by metis
  obtain d where d: "train (pht_choice_addr pc) jump (bo_pht_choice b) = Some d" "counters BI_MODE_PHT_SIZE d"
    using train_ok[OF _ i(2)] assms(1) unfolding mode_ok_def by metis
  show ?thesis using assms(1) True c l r d by (cases jump; cases hit; simp add: bi_mode_train_def mode_ok_def)
qed (use assms in \<open>simp add: bi_mode_train_def\<close>)

lemma bi_mode_apply_ok:
  assumes "mode_ok b" and "history_ok (bp_bi_mode_global_history (rq_bp_pack r))"
  shows "\<exists>b'. bi_mode_apply r b = Some b' \<and> mode_ok b'"
proof (cases "rq_req r")
  case Req_update
  obtain b' where "bi_mode_train (bp_bi_mode_global_history (rq_bp_pack r)) (rq_pc r) (rq_jump r) (rq_hit r) (rq_bp_pack r) b = Some b'"
    "mode_ok b'" using bi_mode_train_ok[OF assms] by blast
  then show ?thesis using Req_update by (simp add: bi_mode_apply_def bi_mode_update_def mode_ok_def Let_def)
qed (use assms in \<open>simp_all add: bi_mode_apply_def bi_mode_speculative_update_def bi_mode_bru_speculative_update_def
  bi_mode_restore_def mode_ok_def\<close>)

lemma bi_modal_apply_ok: "modal_ok b \<Longrightarrow> \<exists>b'. bi_modal_apply r b = Some b' \<and> modal_ok b'"
proof -
  assume b: "modal_ok b"
  then obtain t where "train (bi_modal_index (rq_pc r)) (rq_jump r) (bm_pht b) = Some t" "counters BI_MODAL_SIZE t"
    using train_ok[OF _ index_bounds(1)] unfolding modal_ok_def by metis
  with b show ?thesis by (simp add: bi_modal_apply_def bi_modal_update_def modal_ok_def split: sync_request_type_t.split)
qed

lemma l0_btb_apply_ok: "btb_ok b \<Longrightarrow> \<exists>b'. l0_btb_apply r b = Some b' \<and> btb_ok b'"
  using index_bounds(2)[of "rq_pc r"]
  by (simp add: l0_btb_apply_def l0_btb_update_def btb_ok_def table_set_def split: sync_request_type_t.split)

lemma apply_all_ok:
  assumes "\<And>r b. r \<in> set rs \<Longrightarrow> I b \<Longrightarrow> \<exists>b'. f r b = Some b' \<and> I b'" and "I b"
  shows "\<exists>b'. apply_all f rs b = Some b' \<and> I b'"
  using assms
proof (induction rs arbitrary: b)
  case (Cons r rs)
  obtain b1 where b1: "f r b = Some b1" "I b1" using Cons.prems by auto
  have "\<exists>b'. apply_all f rs b1 = Some b' \<and> I b'" using Cons.IH[OF _ b1(2)] Cons.prems(1) by simp
  then show ?case using b1 by simp
qed simp

lemma apply_all_keeps:
  assumes "apply_all f rs b = Some b'" and "\<And>r b b'. f r b = Some b' \<Longrightarrow> g b' = g b"
  shows "g b' = g b"
  using assms(1) by (induction rs arbitrary: b) (auto split: Option.bind_splits dest: assms(2))

lemma bi_mode_apply_keeps:
  "bi_mode_apply r b = Some b' \<Longrightarrow> (bo_predict_jump b', bo_predict_next_pc b') = (bo_predict_jump b, bo_predict_next_pc b)"
  by (auto simp: bi_mode_apply_def bi_mode_update_def bi_mode_train_def bi_mode_speculative_update_def bi_mode_bru_speculative_update_def
      bi_mode_restore_def Let_def split: sync_request_type_t.splits Option.bind_splits if_splits)

lemma batch_sync_ok:
  assumes "predictors_ok s"
  shows "\<exists>s'. batch_sync s = Some s' \<and> predictors_ok s' \<and> bs_bi_mode_q s' = [] \<and> bs_main_ras s' = bs_main_ras s \<and>
    bo_predict_jump (bs_bi_mode s') = bo_predict_jump (bs_bi_mode s) \<and> bo_predict_next_pc (bs_bi_mode s') = bo_predict_next_pc (bs_bi_mode s)"
proof -
  have p: "btb_ok (bs_l0_btb s)" "modal_ok (bs_bi_modal s)" "mode_ok (bs_bi_mode s)"
    and q: "\<forall>r \<in> set (bs_bi_mode_q s). history_ok (bp_bi_mode_global_history (rq_bp_pack r))"
    using assms by (simp_all add: predictors_ok_parts list_all_iff)
  obtain l0 where l0: "apply_all l0_btb_apply (bs_l0_btb_q s) (bs_l0_btb s) = Some l0" "btb_ok l0"
    using apply_all_ok[where I = btb_ok and f = l0_btb_apply, OF _ p(1)] l0_btb_apply_ok by blast
  obtain bm where bm: "apply_all bi_modal_apply (bs_bi_modal_q s) (bs_bi_modal s) = Some bm" "modal_ok bm"
    using apply_all_ok[where I = modal_ok and f = bi_modal_apply, OF _ p(2)] bi_modal_apply_ok by blast
  obtain bo where bo: "apply_all bi_mode_apply (bs_bi_mode_q s) (bs_bi_mode s) = Some bo" "mode_ok bo"
    using apply_all_ok[where I = mode_ok and f = bi_mode_apply and rs = "bs_bi_mode_q s", OF _ p(3)] bi_mode_apply_ok q by blast
  have "bo_predict_jump bo = bo_predict_jump (bs_bi_mode s)" "bo_predict_next_pc bo = bo_predict_next_pc (bs_bi_mode s)"
    using apply_all_keeps[OF bo(1), of "\<lambda>b. (bo_predict_jump b, bo_predict_next_pc b)"] bi_mode_apply_keeps by auto
  then show ?thesis using l0 bm bo by (simp add: batch_sync_def predictors_ok_parts)
qed

lemma batch_request_ok:
  "predictors_ok s \<Longrightarrow> history_ok (bp_bi_mode_global_history (rq_bp_pack (r :: bp_request_t))) \<Longrightarrow> predictors_ok (batch_request r s)"
  by (simp add: batch_request_def predictors_ok_parts)

lemma predictors_sync_ok: "predictors_ok s \<Longrightarrow> predictors_ok (predictors_sync s)"
  by (simp add: predictors_ok_parts predictors_sync_def mode_ok_def)

lemma predictors_make_ok: "length junk = FETCH_WIDTH \<Longrightarrow> predictors_ok (predictors_make junk)"
  by (simp add: predictors_make_def batch_reset_def predictors_ok_def l0_btb_reset_def bi_modal_reset_def bi_mode_reset_def counters_replicate)

text \<open>
  C8. The predictors never read or write outside their tables and every counter stays between 0 and 3: the constructed predictors have this
  property, predictions and the end of the cycle, whatever was requested, always succeed and keep it, as long as the requests
  carry a history of 16 bits, which the record filled in at a prediction does.
\<close>

theorem predictors_in_range:
  assumes "length junk = FETCH_WIDTH"
  shows "predictors_ok (predictors_make junk) \<and>
    (\<forall>s. predictors_ok s \<longrightarrow>
      (\<forall>port < FETCH_WIDTH. \<forall>pc inst. \<exists>s'. batch_predict port pc inst s = Some s' \<and> predictors_ok s') \<and>
      (\<exists>s'. batch_sync s = Some s' \<and> predictors_ok s' \<and> bs_bi_mode_q s' = []) \<and>
      (\<forall>r :: bp_request_t. history_ok (bp_bi_mode_global_history (rq_bp_pack r)) \<longrightarrow> predictors_ok (batch_request r s)) \<and>
      (\<forall>pc bp. \<exists>bp'. bi_mode_fill_debug pc (bs_bi_mode s) bp = Some bp' \<and> history_ok (bp_bi_mode_global_history bp')) \<and>
      predictors_ok (predictors_sync s))"
proof (intro conjI allI impI)
  show "predictors_ok (predictors_make junk)" by (rule predictors_make_ok[OF assms])
next
  fix s port pc inst
  assume s: "predictors_ok s" and "port < FETCH_WIDTH"
  then have p: "btb_ok (bs_l0_btb s)" "modal_ok (bs_bi_modal s)" "mode_ok (bs_bi_mode s)" and port: "port < FETCH_WIDTH"
    by (simp_all add: predictors_ok_parts)
  obtain l0 bm bo where "l0_btb_predict port pc (bs_l0_btb s) = Some l0" "btb_ok l0"
    "bi_modal_predict port pc inst (bs_bi_modal s) = Some bm" "modal_ok bm"
    "bi_mode_predict port pc inst (bs_bi_mode s) = Some bo" "mode_ok bo"
    using l0_btb_predict_ok[OF p(1) port] bi_modal_predict_ok[OF p(2) port] bi_mode_predict_ok[OF p(3) port] by metis
  then show "\<exists>s'. batch_predict port pc inst s = Some s' \<and> predictors_ok s'"
    using s by (simp add: batch_predict_def predictors_ok_parts)
next
  fix s
  assume "predictors_ok s"
  from batch_sync_ok[OF this] show "\<exists>s'. batch_sync s = Some s' \<and> predictors_ok s' \<and> bs_bi_mode_q s' = []" by blast
next
  fix s pc bp
  assume "predictors_ok s"
  then have m: "mode_ok (bs_bi_mode s)" by (simp add: predictors_ok_parts)
  then obtain n where "get_pht pc (bo_global_history (bs_bi_mode s)) (bs_bi_mode s) = Some n"
    using get_pht_total[OF m] by (auto simp: mode_ok_def)
  then show "\<exists>bp'. bi_mode_fill_debug pc (bs_bi_mode s) bp = Some bp' \<and> history_ok (bp_bi_mode_global_history bp')"
    using m by (simp add: bi_mode_fill_debug_def bi_mode_fill_def mode_ok_def)
qed (auto intro: batch_request_ok predictors_sync_ok)

theorem predictors_in_range_witness: "predictors_ok (predictors_make [0, 0, 0, 0])"
  using predictors_in_range[of "[0, 0, 0, 0]"] by (simp add: FETCH_WIDTH_def)

subsection \<open>Calls and returns\<close>

definition settled :: "'a dff \<Rightarrow> bool" where
  "settled d \<longleftrightarrow> dff_get_new d = dff_get d"

definition ras_items :: "ras \<Rightarrow> ras_item_t list" where
  "ras_items r = take (dff_get (stk_top_ptr (ras_stack r))) (map dff_get (stk_buffer (ras_stack r)))"

definition ras_ok :: "ras \<Rightarrow> bool" where
  "ras_ok r \<longleftrightarrow>
     (let s = ras_stack r in
        length (stk_buffer s) = stk_size s \<and> dff_get (stk_top_ptr s) \<le> stk_size s \<and> list_all settled (stk_buffer s) \<and>
        settled (stk_top_ptr s) \<and> settled (ras_last_addr r) \<and> list_all (\<lambda>it. ras_cnt it \<noteq> 0) (ras_items r))"

text \<open>The pending calls, the last one first: an item stands for as many equal return addresses as it counts.\<close>

definition ras_calls :: "ras_item_t list \<Rightarrow> u32 list" where
  "ras_calls its = concat (map (\<lambda>it. replicate (unat (ras_cnt it)) (ras_addr it)) (rev its))"

lemmas dff_simps = settled_def dff_get_def dff_get_new_def dff_set_def dff_sync_def dff_make_def

lemma settle_list:
  assumes "list_all settled b"
  shows "map dff_get (map dff_sync b) = map dff_get b" "list_all settled (map dff_sync b)"
    "map dff_get (map dff_sync (b[i := dff_set v d])) = (map dff_get b)[i := v]" "list_all settled (map dff_sync (b[i := dff_set v d]))"
proof -
  have m: "map dff_get (map dff_sync c) = map dff_get_new c" for c :: "'b dff list" by (simp add: dff_simps)
  show e: "map dff_get (map dff_sync b) = map dff_get b" using assms by (simp add: m list_all_iff settled_def)
  show "map dff_get (map dff_sync (b[i := dff_set v d])) = (map dff_get b)[i := v]"
  proof -
    have n: "map dff_get_new b = map dff_get b" using assms by (simp add: list_all_iff settled_def)
    show ?thesis unfolding m map_update n by (simp add: dff_get_new_def dff_set_def)
  qed
  show "list_all settled (map dff_sync b)" "list_all settled (map dff_sync (b[i := dff_set v d]))"
    by (simp_all add: list_all_iff dff_simps)
qed

lemma ras_top:
  assumes "ras_ok r"
  shows "stack_get_top (ras_stack r) = Some (if ras_items r = [] then None else Some (last (ras_items r)))"
    "stack_is_empty (ras_stack r) \<longleftrightarrow> ras_items r = []" "length (ras_items r) = dff_get (stk_top_ptr (ras_stack r))"
    "stack_is_full (ras_stack r) \<longleftrightarrow> length (ras_items r) = stk_size (ras_stack r)"
proof -
  let ?s = "ras_stack r"
  have l: "length (stk_buffer ?s) = stk_size ?s" "dff_get (stk_top_ptr ?s) \<le> stk_size ?s" using assms by (simp_all add: ras_ok_def Let_def)
  show n: "length (ras_items r) = dff_get (stk_top_ptr ?s)" using l by (simp add: ras_items_def)
  then show e: "stack_is_empty ?s \<longleftrightarrow> ras_items r = []" "stack_is_full ?s \<longleftrightarrow> length (ras_items r) = stk_size ?s"
    by (auto simp: stack_is_empty_def stack_is_full_def)
  have "last (ras_items r) = dff_get (stk_buffer ?s ! (dff_get (stk_top_ptr ?s) - 1))" if "ras_items r \<noteq> []"
    using that n l by (subst last_conv_nth) (auto simp: ras_items_def)
  then show "stack_get_top ?s = Some (if ras_items r = [] then None else Some (last (ras_items r)))"
    using e(1) n l length_greater_0_conv[of "ras_items r"] by (auto simp: stack_get_top_def table_get_def simp del: length_greater_0_conv)
qed

definition push_items :: "u32 \<Rightarrow> ras_item_t list \<Rightarrow> ras_item_t list" where
  "push_items a its =
     (if its \<noteq> [] \<and> ras_addr (last its) = a \<and> ras_cnt (last its) < 0xFFFFFFFF
      then butlast its @ [(last its)\<lparr>ras_cnt := ras_cnt (last its) + 1\<rparr>] else its @ [\<lparr>ras_addr = a, ras_cnt = 1\<rparr>])"

lemma update_last: "xs \<noteq> [] \<Longrightarrow> xs[length xs - 1 := v] = butlast xs @ [v]"
  by (metis append_butlast_last_id length_butlast list_update_length)

lemma set_top_step:
  assumes "ras_ok r" and "ras_items r \<noteq> []" and "ras_cnt v \<noteq> 0"
  shows "\<exists>i r'. get_top_id r = Some i \<and> ras_set_item i v r = Some r' \<and> ras_ok (ras_sync r') \<and>
    ras_items (ras_sync r') = butlast (ras_items r) @ [v] \<and> dff_get (ras_last_addr (ras_sync r')) = dff_get (ras_last_addr r) \<and>
    stk_size (ras_stack (ras_sync r')) = stk_size (ras_stack r)"
proof -
  let ?s = "ras_stack r" and ?t = "dff_get (stk_top_ptr (ras_stack r))"
  note o = assms(1)[unfolded ras_ok_def Let_def] and top = ras_top[OF assms(1)]
  have t: "0 < ?t" "?t \<le> length (stk_buffer ?s)" using top(3) assms(2) o by (auto simp flip: length_greater_0_conv)
  let ?r = "r\<lparr>ras_stack := ?s\<lparr>stk_buffer := (stk_buffer ?s)[?t - 1 := dff_set v (stk_buffer ?s ! (?t - 1))]\<rparr>\<rparr>"
  have k: "list_all settled (stk_buffer ?s)" using o by simp
  have its: "ras_items (ras_sync ?r) = (ras_items r)[?t - 1 := v]"
    using t o settle_list(3)[OF k] by (simp add: ras_items_def ras_sync_def take_update_swap dff_simps)
  then have its': "ras_items (ras_sync ?r) = butlast (ras_items r) @ [v]" using update_last[OF assms(2)] top(3) by simp
  have "list_all (\<lambda>it. ras_cnt it \<noteq> 0) (butlast (ras_items r) @ [v])" using o assms(3) by (auto simp: list_all_iff dest: in_set_butlastD)
  then have "ras_ok (ras_sync ?r)"
    using o settle_list(4)[OF k] unfolding ras_ok_def Let_def its' by (simp add: ras_sync_def dff_simps)
  moreover have "get_top_id r = Some (?t - 1)" "ras_set_item (?t - 1) v r = Some ?r"
    using t top(2) assms(2) by (simp_all add: get_top_id_def ras_set_item_def stack_set_def table_get_def)
  ultimately show ?thesis using its' o by (intro exI[of _ "?t - 1"] exI[of _ ?r]) (simp add: ras_sync_def dff_simps)
qed

lemma count_word:
  fixes c :: u32
  assumes "c < 0xFFFFFFFF"
  shows "c + 1 \<noteq> 0" "unat (c + 1) = Suc (unat c)"
proof -
  show n: "c + 1 \<noteq> 0"
  proof
    assume "c + 1 = 0"
    then have "c = - 1" by (simp add: eq_neg_iff_add_eq_0)
    then show False using assms by simp
  qed
  then show "unat (c + 1) = Suc (unat c)" using unatSuc[of c] by (simp add: add.commute)
qed

lemma push_addr_step:
  assumes "ras_ok r" and "length (ras_items r) < stk_size (ras_stack r)"
  shows "\<exists>r'. push_addr a r = Some r' \<and> ras_ok (ras_sync r') \<and> ras_items (ras_sync r') = push_items a (ras_items r) \<and>
    dff_get (ras_last_addr (ras_sync r')) = dff_get (ras_last_addr r) \<and> stk_size (ras_stack (ras_sync r')) = stk_size (ras_stack r)"
proof -
  let ?s = "ras_stack r" and ?t = "dff_get (stk_top_ptr (ras_stack r))" and ?its = "ras_items r"
  note o = assms(1)[unfolded ras_ok_def Let_def] and top = ras_top[OF assms(1)]
  show ?thesis
  proof (cases "?its \<noteq> [] \<and> ras_addr (last ?its) = a \<and> ras_cnt (last ?its) < 0xFFFFFFFF")
    case True
    then have "ras_cnt ((last ?its)\<lparr>ras_cnt := ras_cnt (last ?its) + 1\<rparr>) \<noteq> 0"
      using count_word(1) by simp
    from set_top_step[OF assms(1) conjunct1[OF True] this] True top(1) show ?thesis
      by (auto simp: push_addr_def push_items_def)
  next
    case False
    let ?v = "\<lparr>ras_addr = a, ras_cnt = 1\<rparr>"
    let ?r = "r\<lparr>ras_stack := ?s\<lparr>stk_buffer := (stk_buffer ?s)[?t := dff_set ?v (stk_buffer ?s ! ?t)], stk_top_ptr := dff_set (?t + 1) (stk_top_ptr ?s)\<rparr>\<rparr>"
    have t: "?t < length (stk_buffer ?s)" using assms(2) top(3) o by simp
    have k: "list_all settled (stk_buffer ?s)" using o by simp
    have p: "push_addr a r = Some ?r"
      using False top(1,4) assms(2) t by (auto simp: push_addr_def stack_push_def stack_set_def table_get_def)
    have its: "ras_items (ras_sync ?r) = ?its @ [?v]"
      using t settle_list(3)[OF k] by (simp add: ras_items_def ras_sync_def dff_simps take_Suc_conv_app_nth)
    have "list_all (\<lambda>it. ras_cnt it \<noteq> 0) (?its @ [?v])" using o by simp
    then have ok: "ras_ok (ras_sync ?r)"
      using o t settle_list(4)[OF k] unfolding ras_ok_def Let_def its by (simp add: ras_sync_def dff_simps)
    have same: "dff_get (ras_last_addr (ras_sync ?r)) = dff_get (ras_last_addr r)" "stk_size (ras_stack (ras_sync ?r)) = stk_size ?s"
      using o by (simp_all add: ras_sync_def dff_simps)
    show ?thesis using p its ok same unfolding push_items_def if_not_P[OF False] by blast
  qed
qed

lemma pop_addr_step:
  assumes "ras_ok r"
  shows "\<exists>r'. pop_addr r = Some (if ras_items r = [] then dff_get (ras_last_addr r) else ras_addr (last (ras_items r)), r') \<and>
    ras_ok (ras_sync r') \<and> stk_size (ras_stack (ras_sync r')) = stk_size (ras_stack r) \<and>
    ras_items (ras_sync r') =
      (if ras_items r = [] then []
       else if ras_cnt (last (ras_items r)) = 1 then butlast (ras_items r)
       else butlast (ras_items r) @ [(last (ras_items r))\<lparr>ras_cnt := ras_cnt (last (ras_items r)) - 1\<rparr>]) \<and>
    dff_get (ras_last_addr (ras_sync r')) =
      (if ras_items r \<noteq> [] \<and> ras_cnt (last (ras_items r)) = 1 then ras_addr (last (ras_items r)) else dff_get (ras_last_addr r))"
proof -
  let ?s = "ras_stack r" and ?t = "dff_get (stk_top_ptr (ras_stack r))" and ?its = "ras_items r"
  note o = assms[unfolded ras_ok_def Let_def] and top = ras_top[OF assms]
  have k: "list_all settled (stk_buffer ?s)" using o by simp
  consider "?its = []" | "?its \<noteq> []" "ras_cnt (last ?its) = 1" | "?its \<noteq> []" "ras_cnt (last ?its) \<noteq> 1" by blast
  then show ?thesis
  proof cases
    case 1
    have its: "ras_items (ras_sync r) = []"
      using 1 o settle_list(1)[OF k] by (simp add: ras_items_def ras_sync_def dff_simps)
    have "ras_ok (ras_sync r)" using o settle_list(2)[OF k] unfolding ras_ok_def Let_def its by (simp add: ras_sync_def dff_simps)
    moreover have "pop_addr r = Some (dff_get (ras_last_addr r), r)" using 1 top(1) by (simp add: pop_addr_def)
    moreover have "dff_get (ras_last_addr (ras_sync r)) = dff_get (ras_last_addr r)" "stk_size (ras_stack (ras_sync r)) = stk_size ?s"
      using o by (simp_all add: ras_sync_def dff_simps)
    ultimately show ?thesis using 1 its by simp
  next
    case 2
    let ?r = "r\<lparr>ras_last_addr := dff_set (ras_addr (last ?its)) (ras_last_addr r), ras_stack := ?s\<lparr>stk_top_ptr := dff_set (?t - 1) (stk_top_ptr ?s)\<rparr>\<rparr>"
    have t: "0 < ?t" "?t \<le> length (stk_buffer ?s)" using top(3) 2(1) o by (auto simp flip: length_greater_0_conv)
    have p: "pop_addr r = Some (ras_addr (last ?its), ?r)"
      using 2 top(1,2) t by (simp add: pop_addr_def stack_pop_def table_get_def)
    have its: "ras_items (ras_sync ?r) = butlast ?its"
      using t o settle_list(1)[OF k] by (simp add: ras_items_def ras_sync_def dff_simps butlast_take del: map_map)
    have "list_all (\<lambda>it. ras_cnt it \<noteq> 0) (butlast ?its)" using o by (auto simp: list_all_iff dest: in_set_butlastD)
    then have ok: "ras_ok (ras_sync ?r)"
      using o t settle_list(2)[OF k] unfolding ras_ok_def Let_def its by (auto simp: ras_sync_def dff_simps)
    have l: "dff_get (ras_last_addr (ras_sync ?r)) = ras_addr (last ?its)" "stk_size (ras_stack (ras_sync ?r)) = stk_size ?s"
      using o by (simp_all add: ras_sync_def dff_simps)
    show ?thesis using p its ok l 2 by auto
  next
    case 3
    have n: "ras_cnt (last ?its) \<noteq> 0" using o 3(1) by (auto simp: list_all_iff)
    have "ras_cnt ((last ?its)\<lparr>ras_cnt := ras_cnt (last ?its) - 1\<rparr>) \<noteq> 0" using 3(2) by simp
    from set_top_step[OF assms 3(1) this] show ?thesis using 3 top(1) by (auto simp: pop_addr_def)
  qed
qed

lemma calls_snoc: "ras_calls (its @ [it]) = replicate (unat (ras_cnt it)) (ras_addr it) @ ras_calls its"
  by (simp add: ras_calls_def)

lemma calls_push: "list_all (\<lambda>it. ras_cnt it \<noteq> 0) its \<Longrightarrow> ras_calls (push_items a its) = a # ras_calls its"
  using count_word(2)[of "ras_cnt (last its)"]
  by (cases its rule: rev_cases) (auto simp: push_items_def ras_calls_def)

lemma calls_length: "list_all (\<lambda>it. ras_cnt it \<noteq> 0) its \<Longrightarrow> length its \<le> length (ras_calls its)"
proof (induction its rule: rev_induct)
  case (snoc it its)
  then have "0 < unat (ras_cnt it)" by (simp add: unat_gt_0)
  with snoc show ?case by (simp add: calls_snoc)
qed simp

lemma calls_pop:
  assumes "its \<noteq> []" and "ras_cnt (last its) \<noteq> 0"
  shows "ras_calls its = ras_addr (last its) #
    ras_calls (if ras_cnt (last its) = 1 then butlast its else butlast its @ [(last its)\<lparr>ras_cnt := ras_cnt (last its) - 1\<rparr>])"
proof -
  obtain xs it where x: "its = xs @ [it]" using assms(1) by (cases its rule: rev_cases) auto
  have "unat (ras_cnt it) = Suc (unat (ras_cnt it - 1))" using assms(2) x unat_minus_one[of "ras_cnt it"] by (simp add: unat_gt_0)
  then show ?thesis by (simp add: x calls_snoc)
qed

datatype ras_op = Ras_call u32 | Ras_return

text \<open>One operation in each cycle.\<close>

fun ras_run :: "ras_op list \<Rightarrow> ras \<Rightarrow> (u32 list \<times> ras) option" where
  "ras_run [] r = Some ([], r)"
| "ras_run (Ras_call a # xs) r = do { r1 \<leftarrow> push_addr a r; ras_run xs (ras_sync r1) }"
| "ras_run (Ras_return # xs) r = do { (a, r1) \<leftarrow> pop_addr r; (as, r2) \<leftarrow> ras_run xs (ras_sync r1); Some (a # as, r2) }"

text \<open>The stack that is meant: its pending calls and the address it answers with when there is none.\<close>

fun ras_spec :: "ras_op list \<Rightarrow> u32 list \<Rightarrow> u32 \<Rightarrow> u32 list" where
  "ras_spec [] cs l = []"
| "ras_spec (Ras_call a # xs) cs l = ras_spec xs (a # cs) l"
| "ras_spec (Ras_return # xs) (c # cs) l = c # ras_spec xs cs c"
| "ras_spec (Ras_return # xs) [] l = l # ras_spec xs [] l"

fun within :: "nat \<Rightarrow> ras_op list \<Rightarrow> nat \<Rightarrow> bool" where
  "within n [] d = True"
| "within n (Ras_call a # xs) d = (d < n \<and> within n xs (d + 1))"
| "within n (Ras_return # xs) d = within n xs (d - 1)"

lemma ras_run_spec:
  assumes "ras_ok r" and "within (stk_size (ras_stack r)) ops (length (ras_calls (ras_items r)))"
    and "ras_items r = [] \<Longrightarrow> dff_get (ras_last_addr r) = l"
  shows "\<exists>r'. ras_run ops r = Some (ras_spec ops (ras_calls (ras_items r)) l, r') \<and> ras_ok r'"
  using assms
proof (induction ops arbitrary: r l)
  case (Cons x ops)
  let ?its = "ras_items r"
  have nz: "list_all (\<lambda>it. ras_cnt it \<noteq> 0) ?its" using Cons.prems(1) by (simp add: ras_ok_def Let_def)
  show ?case
  proof (cases x)
    case (Ras_call a)
    then have "length ?its < stk_size (ras_stack r)" using Cons.prems(2) calls_length[OF nz] by simp
    from push_addr_step[OF Cons.prems(1) this, of a] obtain r1 where r1: "push_addr a r = Some r1" "ras_ok (ras_sync r1)"
      "ras_items (ras_sync r1) = push_items a ?its" "stk_size (ras_stack (ras_sync r1)) = stk_size (ras_stack r)" by blast
    have c: "ras_calls (ras_items (ras_sync r1)) = a # ras_calls ?its" using calls_push[OF nz] r1(3) by simp
    have "ras_items (ras_sync r1) \<noteq> []" using r1(3) by (simp add: push_items_def)
    from Cons.IH[OF r1(2), of l] this Cons.prems(2) r1(1,4) c Ras_call show ?thesis by simp
  next
    case Ras_return
    from pop_addr_step[OF Cons.prems(1)] obtain r1 where r1:
      "pop_addr r = Some (if ?its = [] then dff_get (ras_last_addr r) else ras_addr (last ?its), r1)" "ras_ok (ras_sync r1)"
      "stk_size (ras_stack (ras_sync r1)) = stk_size (ras_stack r)"
      "ras_items (ras_sync r1) = (if ?its = [] then [] else if ras_cnt (last ?its) = 1 then butlast ?its
         else butlast ?its @ [(last ?its)\<lparr>ras_cnt := ras_cnt (last ?its) - 1\<rparr>])"
      "dff_get (ras_last_addr (ras_sync r1)) =
        (if ?its \<noteq> [] \<and> ras_cnt (last ?its) = 1 then ras_addr (last ?its) else dff_get (ras_last_addr r))" by blast
    show ?thesis
    proof (cases "?its = []")
      case True
      then have "ras_calls ?its = []" by (simp add: ras_calls_def)
      with Cons.IH[OF r1(2), of l] True r1 Cons.prems(2,3) Ras_return show ?thesis by auto
    next
      case False
      then have "ras_cnt (last ?its) \<noteq> 0" using nz by (auto simp: list_all_iff)
      from calls_pop[OF False this] have c: "ras_calls ?its = ras_addr (last ?its) # ras_calls (ras_items (ras_sync r1))"
        using r1(4) False by simp
      have "dff_get (ras_last_addr (ras_sync r1)) = ras_addr (last ?its)" if "ras_items (ras_sync r1) = []"
        using that r1(4,5) False by (auto split: if_splits)
      with Cons.IH[OF r1(2), of "ras_addr (last ?its)"] c False r1(1,3) Cons.prems(2) Ras_return show ?thesis by auto
    qed
  qed
qed simp

lemma ras_make_ok: "ras_ok (ras_sync (ras_make n))" "ras_items (ras_sync (ras_make n)) = []" "stk_size (ras_stack (ras_sync (ras_make n))) = n"
  "dff_get (ras_last_addr (ras_sync (ras_make n))) = 0"
  by (simp_all add: ras_ok_def ras_items_def ras_sync_def ras_make_def stack_make_def dff_simps list_all_iff)

text \<open>
  C7. The return address stack predicts the returns of nested calls: with one operation in a cycle and never more pending calls than it has
  entries, a new stack aborts on no sequence of calls and returns and answers every return with the address of the last call
  that is pending, recursive calls included, which share an entry; with no call pending it answers with the last address
  returned.
\<close>

theorem ras_matches_calls:
  assumes "within n ops 0"
  shows "\<exists>r. ras_run ops (ras_sync (ras_make n)) = Some (ras_spec ops [] 0, r) \<and> ras_ok r"
  using ras_run_spec[OF ras_make_ok(1), of n ops 0] assms by (simp add: ras_make_ok ras_calls_def)

theorem ras_matches_calls_witness:
  "\<exists>r. ras_run [Ras_call 8, Ras_call 8, Ras_call 20, Ras_return, Ras_return, Ras_return, Ras_return] (ras_sync (ras_make 3)) =
     Some ([20, 8, 8, 8], r)"
  using ras_matches_calls[of 3 "[Ras_call 8, Ras_call 8, Ras_call 20, Ras_return, Ras_return, Ras_return, Ras_return]"] by auto

text \<open>
  When the stack is full the source means to shift out the oldest call. The loop stops one entry early, so that the new call replaces the
  youngest one and the one below it is doubled.
\<close>

lemma ras_full_push:
  "\<exists>r. ras_run [Ras_call 1, Ras_call 2, Ras_call 3, Ras_call 4, Ras_call 5, Ras_return, Ras_return, Ras_return, Ras_return]
     (ras_sync (ras_make 4)) = Some ([5, 3, 3, 2], r)"
  by (simp add: ras_make_def stack_make_def ras_sync_def push_addr_def pop_addr_def stack_get_top_def stack_is_empty_def stack_is_full_def
      stack_push_def stack_pop_def stack_set_def table_get_def throw_push_def dff_simps numeral_eq_Suc upt_rec)

text \<open>
  A jump that leaves one coroutine for another pops and pushes in the same cycle. The push does not see the pop, and the popped entry
  stays below the new one.
\<close>

lemma ras_coroutine:
  "\<exists>r r1 r2 r3 r'. push_addr 1 (ras_sync (ras_make 4)) = Some r \<and> pop_addr (ras_sync r) = Some (1, r1) \<and> push_addr 2 r1 = Some r2 \<and>
     ras_calls (ras_items (ras_sync r2)) = [2, 1]"
  by (simp add: ras_make_def stack_make_def ras_sync_def push_addr_def pop_addr_def stack_get_top_def stack_is_empty_def stack_is_full_def
      stack_push_def stack_pop_def stack_set_def table_get_def dff_simps ras_items_def ras_calls_def numeral_eq_Suc)

end
