(* ===== verification/Fetch.thy ===== *)
theory Fetch
  imports Predictors Rename Exec_Packs Store_Drain
begin

text \<open>
  \<^verbatim>\<open>pipeline/fetch1.cpp\<close>, \<^verbatim>\<open>pipeline/fetch2.cpp\<close> and their packs. The first stage takes a group of words from the bus and
  predicts where the program goes on; the second looks at the slower predictor of conditional branches, sends the first stage elsewhere when it
  disagrees, and pushes the instructions into the queue of decode.
\<close>

subsection \<open>Packs and state\<close>

record fetch1_fetch2_op_info_t =
  ff_inst_common_info :: inst_common_info_t
  ff_enable :: bool
  ff_id :: u64
  ff_pc :: u32
  ff_value :: u32
  ff_has_exception :: bool
  ff_exception_id :: riscv_exception_t
  ff_exception_value :: u32
  ff_branch_predictor_info_pack :: branch_predictor_info_pack_t

definition fetch1_fetch2_op_info_make :: fetch1_fetch2_op_info_t where
  "fetch1_fetch2_op_info_make =
     \<lparr>ff_inst_common_info = \<lparr>inst_id = 0\<rparr>, ff_enable = False, ff_id = 0, ff_pc = 0, ff_value = 0, ff_has_exception = False,
      ff_exception_id = instruction_address_misaligned, ff_exception_value = 0,
      ff_branch_predictor_info_pack = branch_predictor_info_pack_make\<rparr>"

type_synonym fetch1_fetch2_pack_t = "fetch1_fetch2_op_info_t list"

definition fetch_pad :: "fetch1_fetch2_op_info_t list \<Rightarrow> fetch1_fetch2_pack_t" where
  "fetch_pad ops = ops @ replicate (FETCH_WIDTH - length ops) fetch1_fetch2_op_info_make"

record fetch2_feedback_pack_t =
  f2_idle :: bool
  f2_stall :: bool
  f2_pc_redirect :: bool
  f2_new_pc :: u32

record fetch1 =
  fe_port :: "fetch1_fetch2_pack_t port"
  fe_init_pc :: u32
  fe_pc :: u32
  fe_jump_wait :: bool
  fe_next_inst_id :: u64

definition fetch1_reset :: "fetch1 \<Rightarrow> fetch1" where
  "fetch1_reset s = s\<lparr>fe_pc := fe_init_pc s, fe_jump_wait := False, fe_next_inst_id := 0\<rparr>"

definition fetch1_make :: "u32 \<Rightarrow> fetch1" where
  "fetch1_make pc = fetch1_reset \<lparr>fe_port = port_make (fetch_pad []), fe_init_pc = pc, fe_pc = 0, fe_jump_wait = False, fe_next_inst_id = 0\<rparr>"

subsection \<open>The prediction of the first stage\<close>

definition is_link :: "u32 \<Rightarrow> bool" where
  "is_link r \<longleftrightarrow> r = 1 \<or> r = 5"

definition opcode7 :: "u32 \<Rightarrow> u32" where
  "opcode7 w = w AND 0x7f"

definition is_jump_inst :: "u32 \<Rightarrow> bool" where
  "is_jump_inst w \<longleftrightarrow> opcode7 w = 0x6f \<or> opcode7 w = 0x67 \<or> opcode7 w = 0x63 \<or> w = 0x30200073"

definition is_fence_i :: "u32 \<Rightarrow> bool" where
  "is_fence_i w \<longleftrightarrow> opcode7 w = 0x0f \<and> drop_bit 12 w AND 0x07 = 0x01"

definition predict_target ::
    "bool \<Rightarrow> u32 \<Rightarrow> branch_predictor_info_pack_t \<Rightarrow> branch_predictor_info_pack_t" where
  "predict_target jump next_pc bp = bp\<lparr>bp_predicted := True, bp_jump := jump, bp_next_pc := next_pc\<rparr>"

definition predict_btb :: "nat \<Rightarrow> branch_predictor_set \<Rightarrow> branch_predictor_info_pack_t \<Rightarrow> branch_predictor_info_pack_t option" where
  "predict_btb i ps bp = do { a \<leftarrow> l0_btb_get_next_pc i (bs_l0_btb ps); Some (l0_btb_fill (predict_target True a bp)) }"

definition ras_push :: "u32 \<Rightarrow> branch_predictor_set \<Rightarrow> branch_predictor_set option" where
  "ras_push a ps = do { r \<leftarrow> push_addr a (bs_main_ras ps); Some (ps\<lparr>bs_main_ras := r\<rparr>) }"

definition ras_pop :: "branch_predictor_set \<Rightarrow> (u32 \<times> branch_predictor_set) option" where
  "ras_pop ps = do { (a, r) \<leftarrow> pop_addr (bs_main_ras ps); Some (a, ps\<lparr>bs_main_ras := r\<rparr>) }"

definition predict_jalr ::
    "nat \<Rightarrow> u32 \<Rightarrow> u32 \<Rightarrow> branch_predictor_set \<Rightarrow> (branch_predictor_info_pack_t \<times> branch_predictor_set) option" where
  "predict_jalr i cur_pc opcode ps =
     (if is_link (rd_of opcode)
      then (if is_link (rs1_of opcode)
            then (if rs1_of opcode = rd_of opcode
                  then do { bp \<leftarrow> predict_btb i ps branch_predictor_info_pack_make; ps' \<leftarrow> ras_push (cur_pc + 4) ps; Some (bp, ps') }
                  else do { (a, ps1) \<leftarrow> ras_pop ps; ps' \<leftarrow> ras_push (cur_pc + 4) ps1;
                            Some (predict_target True a branch_predictor_info_pack_make, ps') })
            else do { bp \<leftarrow> predict_btb i ps branch_predictor_info_pack_make; ps' \<leftarrow> ras_push (cur_pc + 4) ps; Some (bp, ps') })
      else (if is_link (rs1_of opcode)
            then do { (a, ps') \<leftarrow> ras_pop ps; Some (predict_target True a branch_predictor_info_pack_make, ps') }
            else do { bp \<leftarrow> predict_btb i ps branch_predictor_info_pack_make; Some (bp, ps) }))"

definition predict_branch ::
    "nat \<Rightarrow> u32 \<Rightarrow> u32 \<Rightarrow> branch_predictor_set \<Rightarrow> (branch_predictor_info_pack_t \<times> branch_predictor_set) option" where
  "predict_branch i cur_pc opcode ps =
     do {
       jump \<leftarrow> bi_modal_is_jump i (bs_bi_modal ps);
       next_pc \<leftarrow> bi_modal_get_next_pc i (bs_bi_modal ps);
       bp \<leftarrow> bi_mode_fill_debug cur_pc (bs_bi_mode ps) (bi_modal_fill (predict_target jump next_pc branch_predictor_info_pack_make));
       verify (funct3_of opcode \<in> {0x0, 0x1, 0x4, 0x5, 0x6, 0x7});
       Some (bp, ps)
     }"

definition predict_inst ::
    "nat \<Rightarrow> u32 \<Rightarrow> u32 \<Rightarrow> branch_predictor_set \<Rightarrow> (branch_predictor_info_pack_t \<times> branch_predictor_set) option" where
  "predict_inst i cur_pc opcode ps =
     (if opcode7 opcode = 0x6f
      then do {
        offset \<leftarrow> sign_extend (imm_j_of opcode) 21;
        ps' \<leftarrow> (if is_link (rd_of opcode) then ras_push (cur_pc + 4) ps else Some ps);
        Some (predict_target True (cur_pc + offset) branch_predictor_info_pack_make, ps')
      }
      else if opcode7 opcode = 0x67 then predict_jalr i cur_pc opcode ps
      else if opcode7 opcode = 0x63 then predict_branch i cur_pc opcode ps
      else Some (branch_predictor_info_pack_make, ps))"

definition fetch1_item :: "u32 \<Rightarrow> u32 \<Rightarrow> u64 \<Rightarrow> branch_predictor_info_pack_t \<Rightarrow> fetch1_fetch2_op_info_t" where
  "fetch1_item cur_pc opcode n bp =
     fetch1_fetch2_op_info_make
       \<lparr>ff_inst_common_info := \<lparr>inst_id = n\<rparr>, ff_enable := True, ff_value := opcode, ff_pc := cur_pc,
        ff_has_exception := \<not> ccheck_align cur_pc 4,
        ff_exception_id := (if \<not> ccheck_align cur_pc 4 then instruction_address_misaligned else instruction_access_fault),
        ff_exception_value := cur_pc, ff_branch_predictor_info_pack := bp\<rparr>"

text \<open>
  The words of the group in turn; a fence.i has to come first, with everything before it finished. The result is the items sent.
\<close>

fun fetch1_loop :: "nat \<Rightarrow> u32 \<Rightarrow> bool \<Rightarrow> u32 list \<Rightarrow> branch_predictor_set \<Rightarrow> fetch1 \<Rightarrow>
    (fetch1_fetch2_op_info_t list \<times> branch_predictor_set \<times> fetch1) option" where
  "fetch1_loop i old_pc quiet [] ps s = Some ([], ps, s)"
| "fetch1_loop i old_pc quiet (v # vs) ps s =
     (let cur_pc = old_pc + of_nat i * 4;
          opcode = (if \<not> ccheck_align cur_pc 4 then 0 else v)
      in if is_fence_i opcode \<and> (i \<noteq> 0 \<or> \<not> quiet) then Some ([], ps, s)
         else do {
           ps1 \<leftarrow> batch_predict i cur_pc opcode ps;
           (bp, ps2) \<leftarrow> predict_inst i cur_pc opcode ps1;
           let item = fetch1_item cur_pc opcode (fe_next_inst_id s) bp;
           let s1 = s\<lparr>fe_next_inst_id := fe_next_inst_id s + 1,
                      fe_jump_wait := (fe_jump_wait s \<or> opcode = 0x30200073), fe_pc := cur_pc + 4\<rparr>;
           if is_fence_i opcode then Some ([item], ps2, s1)
           else if is_jump_inst opcode \<and> bp_predicted bp \<and> bp_jump bp \<and> bp_next_pc bp \<noteq> cur_pc + 4
           then Some ([item], ps2, s1\<lparr>fe_pc := bp_next_pc bp\<rparr>)
           else if is_jump_inst opcode \<and> \<not> bp_predicted bp then Some ([item], ps2, s1)
           else do { (items, ps', s') \<leftarrow> fetch1_loop (i + 1) old_pc quiet vs ps2 s1; Some (item # items, ps', s') }
         })"

fun speculate :: "fetch1_fetch2_op_info_t list \<Rightarrow> branch_predictor_set \<Rightarrow> branch_predictor_set" where
  "speculate [] ps = ps"
| "speculate (p # qs) ps =
     speculate qs
       (if ff_enable p \<and> bp_predicted (ff_branch_predictor_info_pack p) \<and> bp_condition_jump (ff_branch_predictor_info_pack p)
        then batch_request (speculative_request (ff_pc p) (bp_jump (ff_branch_predictor_info_pack p))) ps else ps)"

definition fetch1_go :: "u32 \<Rightarrow> fetch1 \<Rightarrow> fetch1" where
  "fetch1_go pc s = s\<lparr>fe_jump_wait := False, fe_pc := pc, fe_port := port_set (fetch_pad []) (fe_port s)\<rparr>"

definition fetch1_group ::
    "bool \<Rightarrow> fetch2_feedback_pack_t \<Rightarrow> commit_feedback_pack_t \<Rightarrow> u32 list option \<Rightarrow> branch_predictor_set \<Rightarrow> fetch1 \<Rightarrow>
     (fetch1_fetch2_op_info_t list \<times> branch_predictor_set \<times> fetch1) option" where
  "fetch1_group quiet fb commit values ps s =
     (if fe_jump_wait s
      then Some ([], ps, if cf_jump_enable commit
                         then s\<lparr>fe_jump_wait := False, fe_pc := (if cf_jump commit then cf_jump_next_pc commit else fe_pc s)\<rparr> else s)
      else case values of
             None \<Rightarrow> Some ([], ps, s)
           | Some vs \<Rightarrow> if f2_stall fb then Some ([], ps, s) else fetch1_loop 0 (fe_pc s) quiet (take FETCH_WIDTH vs) ps s)"

definition fetch1_step ::
    "bool \<Rightarrow> fetch2_feedback_pack_t \<Rightarrow> bru_feedback_pack_t \<Rightarrow> sau_feedback_pack_t \<Rightarrow> commit_feedback_pack_t \<Rightarrow> u32 list option \<Rightarrow>
     branch_predictor_set \<Rightarrow> fetch1 \<Rightarrow> (branch_predictor_set \<times> fetch1) option" where
  "fetch1_step quiet fb bru sau commit values ps s =
     (if \<not> cf_flush commit \<and> \<not> bru_flush bru \<and> \<not> sau_flush sau \<and> \<not> f2_pc_redirect fb
      then do {
        (items, ps1, s1) \<leftarrow> fetch1_group quiet fb commit values ps s;
        Some (if f2_stall fb then (ps1, s1)
              else (speculate items ps1, s1\<lparr>fe_port := port_set (fetch_pad items) (fe_port s1)\<rparr>))
      }
      else if cf_flush commit
      then (if cf_has_exception commit then Some (ps, fetch1_go (cf_exception_pc commit) s)
            else if cf_jump_enable commit
            then do { verify (cf_jump commit); Some (ps, fetch1_go (cf_jump_next_pc commit) s) }
            else Some (ps, fetch1_go (fe_pc s) s))
      else if bru_flush bru then Some (ps, fetch1_go (bru_next_pc bru) s)
      else if sau_flush sau then Some (ps, fetch1_go (sau_next_pc sau) s)
      else Some (ps, fetch1_go (f2_new_pc fb) s))"

definition fetch1_run ::
    "fetch2_feedback_pack_t \<Rightarrow> decode_feedback_pack_t \<Rightarrow> rename_feedback_pack_t \<Rightarrow> bru_feedback_pack_t \<Rightarrow> sau_feedback_pack_t \<Rightarrow>
     commit_feedback_pack_t \<Rightarrow> bool \<Rightarrow> bool \<Rightarrow> cbus \<Rightarrow> branch_predictor_set \<Rightarrow> fetch1 \<Rightarrow>
     (cbus \<times> branch_predictor_set \<times> fetch1) option" where
  "fetch1_run fb df rf bru sau commit sb_empty rsb_empty b ps s =
     do {
       let quiet = (f2_idle fb \<and> df_idle df \<and> rf_idle rf \<and> cf_idle commit \<and> sb_empty \<and> rsb_empty);
       (ps', s') \<leftarrow> fetch1_step quiet fb bru sau commit (get_instruction_value (cbus_if b)) ps s;
       b' \<leftarrow> cbus_read_instruction (fe_pc s') b;
       Some (b', ps', s')
     }"

subsection \<open>The second stage\<close>

type_synonym decode_fifo = "branch_predictor_info_pack_t fetch2_decode_pack_t fifo"

record fetch2 =
  fs_fifo :: decode_fifo
  fs_rev_pack :: fetch1_fetch2_pack_t
  fs_busy :: bool

definition fetch2_reset :: "fetch2 \<Rightarrow> fetch2" where
  "fetch2_reset s = s\<lparr>fs_busy := False, fs_rev_pack := fetch_pad []\<rparr>"

text \<open>The first conditional branch on which the two predictors disagree, with the prediction of the second.\<close>

fun fetch2_find :: "nat \<Rightarrow> fetch1_fetch2_op_info_t list \<Rightarrow> bi_mode \<Rightarrow> (nat \<times> bool \<times> u32) option option" where
  "fetch2_find i [] b = Some None"
| "fetch2_find i (p # qs) b =
     (let bp = ff_branch_predictor_info_pack p in
      if ff_enable p \<and> bp_predicted bp \<and> \<not> bp_uncondition_indirect_jump bp \<and> bp_condition_jump bp
      then do {
        new_next_pc \<leftarrow> bi_mode_get_next_pc i b;
        new_jump \<leftarrow> bi_mode_is_jump i b;
        if new_jump \<noteq> bp_jump bp \<or> new_next_pc \<noteq> bp_next_pc bp then Some (Some (i, new_jump, new_next_pc))
        else fetch2_find (i + 1) qs b
      }
      else fetch2_find (i + 1) qs b)"

definition ff_disable :: "fetch1_fetch2_op_info_t \<Rightarrow> fetch1_fetch2_op_info_t" where
  "ff_disable p = p\<lparr>ff_enable := False\<rparr>"

definition fetch2_correct :: "nat \<Rightarrow> bool \<Rightarrow> u32 \<Rightarrow> fetch1_fetch2_pack_t \<Rightarrow> fetch1_fetch2_pack_t" where
  "fetch2_correct i jump next_pc ops =
     (let p = ops ! i
      in take i ops @
         [p\<lparr>ff_branch_predictor_info_pack := (ff_branch_predictor_info_pack p)\<lparr>bp_jump := jump, bp_next_pc := next_pc\<rparr>\<rparr>] @
         map ff_disable (drop (i + 1) ops))"

definition fetch2_take ::
    "fetch1_fetch2_pack_t \<Rightarrow> branch_predictor_set \<Rightarrow> (fetch1_fetch2_pack_t \<times> u32 option \<times> branch_predictor_set) option" where
  "fetch2_take ops ps =
     do {
       found \<leftarrow> fetch2_find 0 ops (bs_bi_mode ps);
       case found of
         None \<Rightarrow> Some (ops, None, ps)
       | Some (i, jump, next_pc) \<Rightarrow>
           do {
             let bp = ff_branch_predictor_info_pack (ops ! i);
             let ps1 = ps\<lparr>bs_bi_modal_q := bs_bi_modal_q ps @ [update_request (ff_pc (ops ! i)) jump next_pc False bp]\<rparr>;
             let ps2 = batch_request (restore_request bp) ps1;
             let ops' = fetch2_correct i jump next_pc ops;
             Some (ops', Some next_pc, speculate ops' ps2)
           }
     }"

definition fetch2_send :: "fetch1_fetch2_op_info_t \<Rightarrow> branch_predictor_info_pack_t fetch2_decode_pack_t" where
  "fetch2_send p =
     \<lparr>f_inst_common_info = ff_inst_common_info p, f_enable = ff_enable p, f_pc = ff_pc p, f_value = ff_value p,
      f_has_exception = ff_has_exception p, f_exception_id = ff_exception_id p, f_exception_value = ff_exception_value p,
      f_branch_predictor_info_pack = ff_branch_predictor_info_pack p\<rparr>"

fun fetch2_push :: "nat \<Rightarrow> fetch1_fetch2_op_info_t list \<Rightarrow> decode_fifo \<Rightarrow> nat option \<times> decode_fifo" where
  "fetch2_push i [] f = (None, f)"
| "fetch2_push i (p # qs) f =
     (if ff_enable p
      then (case fifo_push (fetch2_send p) f of
              (False, f') \<Rightarrow> (Some i, f')
            | (True, f') \<Rightarrow> fetch2_push (i + 1) qs f')
      else fetch2_push (i + 1) qs f)"

definition fetch2_shift :: "nat \<Rightarrow> fetch1_fetch2_pack_t \<Rightarrow> fetch1_fetch2_pack_t" where
  "fetch2_shift k ops = drop k ops @ map ff_disable (drop (length ops - k) ops)"

definition fetch2_run ::
    "bru_feedback_pack_t \<Rightarrow> sau_feedback_pack_t \<Rightarrow> commit_feedback_pack_t \<Rightarrow> fetch1_fetch2_pack_t port \<Rightarrow> branch_predictor_set \<Rightarrow>
     fetch2 \<Rightarrow> (fetch2_feedback_pack_t \<times> branch_predictor_set \<times> fetch2) option" where
  "fetch2_run bru sau commit port ps s =
     (let fb = \<lparr>f2_idle = True, f2_stall = fs_busy s, f2_pc_redirect = False, f2_new_pc = 0\<rparr> in
      if \<not> cf_flush commit \<and> \<not> bru_flush bru \<and> \<not> sau_flush sau
      then do {
        (ops, redirect, ps') \<leftarrow> (if \<not> fs_busy s then fetch2_take (port_get port) ps else Some (fs_rev_pack s, None, ps));
        let fb1 = (case redirect of None \<Rightarrow> fb | Some pc \<Rightarrow> fb\<lparr>f2_pc_redirect := True, f2_new_pc := pc\<rparr>);
        let (fail, f) = fetch2_push 0 ops (fs_fifo s);
        Some (fb1\<lparr>f2_idle := \<not> list_ex ff_enable ops\<rparr>, ps',
          s\<lparr>fs_fifo := f, fs_busy := (fail \<noteq> None), fs_rev_pack := fetch2_shift (case fail of None \<Rightarrow> 0 | Some k \<Rightarrow> k) ops\<rparr>)
      }
      else Some (fb, ps, s\<lparr>fs_busy := False, fs_fifo := fifo_flush (fs_fifo s)\<rparr>))"

subsection \<open>The prediction never aborts\<close>

definition ras_safe :: "ras \<Rightarrow> bool" where
  "ras_safe r \<longleftrightarrow> (let s = ras_stack r in
     length (stk_buffer s) = stk_size s \<and> 0 < stk_size s \<and> dff_get (stk_top_ptr s) \<le> stk_size s \<and> dff_get_new (stk_top_ptr s) \<le> stk_size s)"

lemma throw_loop_length [simp]: "length (throw_loop is b) = length b"
  by (induction "is" b rule: throw_loop.induct) simp_all

lemma ras_push_safe:
  assumes "ras_safe r"
  shows "\<exists>r'. push_addr a r = Some r' \<and> ras_safe r'"
proof -
  let ?s = "ras_stack r"
  note o = assms[unfolded ras_safe_def Let_def]
  have throw: "\<exists>r'. throw_push v r = Some r' \<and> ras_safe r'" if "stack_is_full ?s" for v
    using o that by (simp add: throw_push_def stack_set_def table_get_def stack_is_full_def ras_safe_def Let_def)
  have push: "\<exists>r'. (do { (b, s) \<leftarrow> stack_push v ?s; Some (r\<lparr>ras_stack := s\<rparr>) }) = Some r' \<and> ras_safe r'" if "\<not> stack_is_full ?s" for v
    using o that by (simp add: stack_push_def stack_set_def table_get_def stack_is_full_def ras_safe_def Let_def dff_simps)
  show ?thesis
  proof (cases "stack_is_empty ?s")
    case True
    then show ?thesis using throw push by (cases "stack_is_full ?s") (auto simp: push_addr_def stack_get_top_def)
  next
    case False
    then have t: "dff_get (stk_top_ptr ?s) - 1 < length (stk_buffer ?s)" using o by (simp add: stack_is_empty_def) linarith
    have set: "\<exists>r'. ras_set_item (dff_get (stk_top_ptr ?s) - 1) v r = Some r' \<and> ras_safe r'" for v
      using o t by (simp add: ras_set_item_def stack_set_def table_get_def ras_safe_def Let_def)
    show ?thesis using False throw push set t
      by (cases "stack_is_full ?s") (auto simp: push_addr_def stack_get_top_def table_get_def get_top_id_def)
  qed
qed

lemma ras_pop_safe:
  assumes "ras_safe r"
  shows "\<exists>a r'. pop_addr r = Some (a, r') \<and> ras_safe r'"
proof -
  let ?s = "ras_stack r"
  note o = assms[unfolded ras_safe_def Let_def]
  show ?thesis
  proof (cases "stack_is_empty ?s")
    case False
    then have t: "dff_get (stk_top_ptr ?s) - 1 < length (stk_buffer ?s)" using o by (simp add: stack_is_empty_def) linarith
    then show ?thesis using False o
      by (auto simp: pop_addr_def stack_get_top_def stack_pop_def table_get_def get_top_id_def ras_set_item_def stack_set_def
          ras_safe_def Let_def dff_simps)
  qed (use assms in \<open>simp add: pop_addr_def stack_get_top_def\<close>)
qed

lemma ras_safe_sync: "ras_safe r \<Longrightarrow> ras_safe (ras_sync r)"
  by (simp add: ras_safe_def ras_sync_def Let_def dff_simps)

definition branch_word_ok :: "u32 \<Rightarrow> bool" where
  "branch_word_ok w \<longleftrightarrow> (opcode7 w = 0x63 \<longrightarrow> funct3_of w \<in> {0x0, 0x1, 0x4, 0x5, 0x6, 0x7})"

lemma predict_inst_ok:
  assumes "predictors_ok ps" and "ras_safe (bs_main_ras ps)" and "i < FETCH_WIDTH" and "branch_word_ok w"
  shows "\<exists>bp r. predict_inst i pc w ps = Some (bp, ps\<lparr>bs_main_ras := r\<rparr>) \<and> ras_safe r \<and>
    (bp_condition_jump bp \<longrightarrow> opcode7 w = 0x63) \<and> history_ok (bp_bi_mode_global_history bp) \<and>
    (if is_jump_inst w \<and> w \<noteq> 0x30200073 then bp_predicted bp else bp = branch_predictor_info_pack_make)"
proof -
  have same: "ps\<lparr>bs_main_ras := bs_main_ras ps\<rparr> = ps" by simp
  have mret: "opcode7 0x30200073 = 0x73" by (simp add: opcode7_def)
  note parts = assms(1)[unfolded predictors_ok_parts btb_ok_def modal_ok_def]
  have bd: "bp_condition_jump branch_predictor_info_pack_make = False" "bp_bi_mode_global_history branch_predictor_info_pack_make = 0"
    by (simp_all add: branch_predictor_info_pack_make_def)
  obtain rp where rp: "push_addr (pc + 4) (bs_main_ras ps) = Some rp" "ras_safe rp" using ras_push_safe[OF assms(2)] by blast
  obtain a rq where rq: "pop_addr (bs_main_ras ps) = Some (a, rq)" "ras_safe rq" using ras_pop_safe[OF assms(2)] by blast
  obtain rr where rr: "push_addr (pc + 4) rq = Some rr" "ras_safe rr" using ras_push_safe[OF rq(2)] by blast
  have btb: "\<exists>bp. predict_btb i ps branch_predictor_info_pack_make = Some bp \<and> bp_predicted bp \<and> \<not> bp_condition_jump bp \<and>
      bp_bi_mode_global_history bp = 0"
    using parts assms(3) bd by (simp add: predict_btb_def l0_btb_get_next_pc_def table_get_def l0_btb_fill_def predict_target_def)
  have intro: ?thesis if "predict_inst i pc w ps = Some (bp, ps\<lparr>bs_main_ras := r\<rparr>)" "ras_safe r" "bp_condition_jump bp \<longrightarrow> opcode7 w = 0x63"
    "history_ok (bp_bi_mode_global_history bp)"
    "if is_jump_inst w \<and> w \<noteq> 0x30200073 then bp_predicted bp else bp = branch_predictor_info_pack_make" for bp r
    using that by blast
  consider "opcode7 w = 0x6f" | "opcode7 w = 0x67" | "opcode7 w = 0x63" | "opcode7 w \<notin> {0x6f, 0x67, 0x63}" by blast
  then show ?thesis
  proof cases
    case 1
    then have n: "is_jump_inst w \<and> w \<noteq> 0x30200073" using mret by (auto simp: is_jump_inst_def)
    obtain off where "sign_extend (imm_j_of w) 21 = Some off" by (simp add: sign_extend_def Let_def)
    then have "predict_inst i pc w ps = Some (predict_target True (pc + off) branch_predictor_info_pack_make,
        ps\<lparr>bs_main_ras := if is_link (rd_of w) then rp else bs_main_ras ps\<rparr>)"
      using 1 rp same by (simp add: predict_inst_def ras_push_def)
    then show ?thesis by (rule intro) (use n rp assms(2) bd in \<open>auto simp: predict_target_def\<close>)
  next
    case 2
    then have n: "is_jump_inst w \<and> w \<noteq> 0x30200073" using mret by (auto simp: is_jump_inst_def)
    obtain bp where bp: "predict_btb i ps branch_predictor_info_pack_make = Some bp" "bp_predicted bp" "\<not> bp_condition_jump bp"
      "bp_bi_mode_global_history bp = 0"
      using btb by blast
    let ?pop = "predict_target True a branch_predictor_info_pack_make"
    have "predict_inst i pc w ps =
      (if is_link (rd_of w) then (if is_link (rs1_of w) \<and> rs1_of w \<noteq> rd_of w then Some (?pop, ps\<lparr>bs_main_ras := rr\<rparr>)
         else Some (bp, ps\<lparr>bs_main_ras := rp\<rparr>))
       else if is_link (rs1_of w) then Some (?pop, ps\<lparr>bs_main_ras := rq\<rparr>) else Some (bp, ps\<lparr>bs_main_ras := bs_main_ras ps\<rparr>))"
      using 2 bp(1) rp rq rr same by (simp add: predict_inst_def predict_jalr_def ras_push_def ras_pop_def)
    moreover have "bp_predicted ?pop" "\<not> bp_condition_jump ?pop" "bp_bi_mode_global_history ?pop = 0" using bd by (simp_all add: predict_target_def)
    moreover have "\<exists>r. ps = ps\<lparr>bs_main_ras := r\<rparr> \<and> ras_safe r" using assms(2) by (intro exI[of _ "bs_main_ras ps"]) simp
    ultimately show ?thesis using n bp(2-4) rp(2) rq(2) rr(2) assms(2) by (auto split: if_splits intro: intro)
  next
    case 3
    then have n: "is_jump_inst w \<and> w \<noteq> 0x30200073" using mret by (auto simp: is_jump_inst_def)
    obtain j m where "bi_modal_is_jump i (bs_bi_modal ps) = Some j" "bi_modal_get_next_pc i (bs_bi_modal ps) = Some m"
      using parts assms(3) by (auto simp: bi_modal_is_jump_def bi_modal_get_next_pc_def table_get_def)
    moreover obtain k where "get_pht pc (bo_global_history (bs_bi_mode ps)) (bs_bi_mode ps) = Some k"
      using get_pht_total[of "bs_bi_mode ps"] parts by (auto simp: mode_ok_def)
    ultimately have "predict_inst i pc w ps = Some ((bi_mode_fill (bs_bi_mode ps) (bi_modal_fill (predict_target j m
        branch_predictor_info_pack_make)))\<lparr>bp_bi_mode_pht_value := of_nat k\<rparr>, ps\<lparr>bs_main_ras := bs_main_ras ps\<rparr>)"
      using 3 assms(4) same by (simp add: predict_inst_def predict_branch_def branch_word_ok_def bi_mode_fill_debug_def)
    then show ?thesis
      by (rule intro) (use n 3 assms(2) parts in \<open>auto simp: bi_mode_fill_def bi_modal_fill_def predict_target_def mode_ok_def\<close>)
  next
    case 4
    then have "predict_inst i pc w ps = Some (branch_predictor_info_pack_make, ps\<lparr>bs_main_ras := bs_main_ras ps\<rparr>)"
      using same by (simp add: predict_inst_def)
    then show ?thesis by (rule intro) (use 4 assms(2) bd in \<open>auto simp: is_jump_inst_def\<close>)
  qed
qed

lemma batch_predict_ok:
  assumes "predictors_ok ps" and "port < FETCH_WIDTH"
  shows "\<exists>l0 bm bo. batch_predict port pc w ps = Some (ps\<lparr>bs_l0_btb := l0, bs_bi_modal := bm, bs_bi_mode := bo\<rparr>) \<and>
    predictors_ok (ps\<lparr>bs_l0_btb := l0, bs_bi_modal := bm, bs_bi_mode := bo\<rparr>) \<and>
    (\<forall>j < FETCH_WIDTH. j \<noteq> port \<longrightarrow> bo_predict_jump bo ! j = bo_predict_jump (bs_bi_mode ps) ! j \<and>
       bo_predict_next_pc bo ! j = bo_predict_next_pc (bs_bi_mode ps) ! j) \<and>
    (\<not> dff_get_new (bo_predict_jump bo ! port) \<longrightarrow> dff_get_new (bo_predict_next_pc bo ! port) = pc + 4)"
proof -
  note p = assms(1)[unfolded predictors_ok_parts]
  obtain l0 bm bo where s: "l0_btb_predict port pc (bs_l0_btb ps) = Some l0" "btb_ok l0"
    "bi_modal_predict port pc w (bs_bi_modal ps) = Some bm" "modal_ok bm"
    "bi_mode_predict port pc w (bs_bi_mode ps) = Some bo" "mode_ok bo"
    using l0_btb_predict_ok[OF _ assms(2)] bi_modal_predict_ok[OF _ assms(2)] bi_mode_predict_ok[OF _ assms(2)] p by metis
  have "\<forall>j < FETCH_WIDTH. j \<noteq> port \<longrightarrow> bo_predict_jump bo ! j = bo_predict_jump (bs_bi_mode ps) ! j \<and>
       bo_predict_next_pc bo ! j = bo_predict_next_pc (bs_bi_mode ps) ! j"
    "\<not> dff_get_new (bo_predict_jump bo ! port) \<longrightarrow> dff_get_new (bo_predict_next_pc bo ! port) = pc + 4"
    using s(5) assms(2) p by (auto simp: bi_mode_predict_def mode_ok_def table_get_def Let_def dff_simps split: Option.bind_splits if_splits)
  then show ?thesis using s p by (intro exI[of _ l0] exI[of _ bm] exI[of _ bo]) (simp add: batch_predict_def predictors_ok_parts)
qed

subsection \<open>The path of the program\<close>

text \<open>Where the record of an instruction says that the program goes on; after an mret this is not known.\<close>

definition pred_next :: "fetch1_fetch2_op_info_t \<Rightarrow> u32 option" where
  "pred_next x =
     (let bp = ff_branch_predictor_info_pack x in
      if ff_value x = 0x30200073 then None
      else Some (if bp_predicted bp \<and> bp_jump bp then bp_next_pc bp else ff_pc x + 4))"

fun path :: "u32 option \<Rightarrow> fetch1_fetch2_op_info_t list \<Rightarrow> u32 option \<Rightarrow> bool" where
  "path a [] b \<longleftrightarrow> b = a"
| "path a (x # xs) b \<longleftrightarrow> (a = None \<or> a = Some (ff_pc x)) \<and> path (pred_next x) xs b"

lemma path_append: "path a (xs @ ys) c \<longleftrightarrow> (\<exists>b. path a xs b \<and> path b ys c)"
  by (induction xs arbitrary: a) auto

definition goes_on :: "u32 option \<Rightarrow> fetch1 \<Rightarrow> bool" where
  "goes_on b s \<longleftrightarrow> b = None \<or> b = Some (fe_pc s) \<and> \<not> fe_jump_wait s"

text \<open>What the second predictor says of the conditional branches of a group that starts at port \<open>i\<close>: not taken means the next instruction.\<close>

definition group_agrees :: "(bool dff \<Rightarrow> bool) \<Rightarrow> (u32 dff \<Rightarrow> u32) \<Rightarrow> nat \<Rightarrow> fetch1_fetch2_op_info_t list \<Rightarrow> bi_mode \<Rightarrow> bool" where
  "group_agrees gj gn i xs b \<longleftrightarrow>
     (\<forall>k < length xs. i + k < FETCH_WIDTH \<and>
        (bp_condition_jump (ff_branch_predictor_info_pack (xs ! k)) \<longrightarrow>
           ff_value (xs ! k) \<noteq> 0x30200073 \<and>
           (\<not> gj (bo_predict_jump b ! (i + k)) \<longrightarrow> gn (bo_predict_next_pc b ! (i + k)) = ff_pc (xs ! k) + 4)))"

definition history_item :: "fetch1_fetch2_op_info_t \<Rightarrow> bool" where
  "history_item x \<longleftrightarrow> history_ok (bp_bi_mode_global_history (ff_branch_predictor_info_pack x))"

lemma fetch1_loop_path:
  assumes "predictors_ok ps" and "ras_safe (bs_main_ras ps)" and "i + length vs \<le> FETCH_WIDTH" and "list_all branch_word_ok vs"
    and "fe_pc s = old + of_nat i * 4" and "\<not> fe_jump_wait s"
  shows "\<exists>items ps' s'. fetch1_loop i old quiet vs ps s = Some (items, ps', s') \<and> predictors_ok ps' \<and> ras_safe (bs_main_ras ps') \<and>
    bs_bi_mode_q ps' = bs_bi_mode_q ps \<and> length items \<le> length vs \<and> list_all ff_enable items \<and> list_all history_item items \<and> fe_port s' = fe_port s \<and>
    (\<forall>j < i. bo_predict_jump (bs_bi_mode ps') ! j = bo_predict_jump (bs_bi_mode ps) ! j \<and>
      bo_predict_next_pc (bs_bi_mode ps') ! j = bo_predict_next_pc (bs_bi_mode ps) ! j) \<and>
    group_agrees dff_get_new dff_get_new i items (bs_bi_mode ps') \<and>
    (\<exists>b. path (Some (old + of_nat i * 4)) items b \<and> goes_on b s')"
  using assms
proof (induction vs arbitrary: i ps s)
  case Nil
  then show ?case by (simp add: group_agrees_def goes_on_def)
next
  case (Cons v vs)
  define pc where "pc = old + of_nat i * 4"
  define w where "w = (if \<not> ccheck_align pc 4 then 0 else v)"
  have run0: "fetch1_loop i old quiet (v # vs) ps s =
    (if is_fence_i w \<and> (i \<noteq> 0 \<or> \<not> quiet) then Some ([], ps, s)
     else do {
       ps1 \<leftarrow> batch_predict i pc w ps;
       (bp, ps2) \<leftarrow> predict_inst i pc w ps1;
       let s1 = s\<lparr>fe_next_inst_id := fe_next_inst_id s + 1, fe_jump_wait := (fe_jump_wait s \<or> w = 0x30200073), fe_pc := pc + 4\<rparr>;
       if is_fence_i w then Some ([fetch1_item pc w (fe_next_inst_id s) bp], ps2, s1)
       else if is_jump_inst w \<and> bp_predicted bp \<and> bp_jump bp \<and> bp_next_pc bp \<noteq> pc + 4
       then Some ([fetch1_item pc w (fe_next_inst_id s) bp], ps2, s1\<lparr>fe_pc := bp_next_pc bp\<rparr>)
       else if is_jump_inst w \<and> \<not> bp_predicted bp then Some ([fetch1_item pc w (fe_next_inst_id s) bp], ps2, s1)
       else do { (items, ps', s') \<leftarrow> fetch1_loop (i + 1) old quiet vs ps2 s1; Some (fetch1_item pc w (fe_next_inst_id s) bp # items, ps', s') }
     })"
    by (simp only: fetch1_loop.simps Let_def w_def pc_def)
  show ?case
  proof (cases "is_fence_i w \<and> (i \<noteq> 0 \<or> \<not> quiet)")
    case True
    then have "fetch1_loop i old quiet (v # vs) ps s = Some ([], ps, s)" unfolding run0 by simp
    then show ?thesis using Cons.prems by (simp add: group_agrees_def goes_on_def pc_def)
  next
    case False
    have i: "i < FETCH_WIDTH" using Cons.prems(3) by simp
    have w: "branch_word_ok w" using Cons.prems(4) by (simp add: branch_word_ok_def opcode7_def w_def)
    obtain l0 bm bo where ps1: "batch_predict i pc w ps = Some (ps\<lparr>bs_l0_btb := l0, bs_bi_modal := bm, bs_bi_mode := bo\<rparr>)"
      "predictors_ok (ps\<lparr>bs_l0_btb := l0, bs_bi_modal := bm, bs_bi_mode := bo\<rparr>)"
      "\<forall>j < FETCH_WIDTH. j \<noteq> i \<longrightarrow> bo_predict_jump bo ! j = bo_predict_jump (bs_bi_mode ps) ! j \<and>
         bo_predict_next_pc bo ! j = bo_predict_next_pc (bs_bi_mode ps) ! j"
      "\<not> dff_get_new (bo_predict_jump bo ! i) \<longrightarrow> dff_get_new (bo_predict_next_pc bo ! i) = pc + 4"
      using batch_predict_ok[OF Cons.prems(1) i, of pc w] by (elim exE conjE) (rule that; assumption)
    let ?ps1 = "ps\<lparr>bs_l0_btb := l0, bs_bi_modal := bm, bs_bi_mode := bo\<rparr>"
    obtain bp r where bp: "predict_inst i pc w ?ps1 = Some (bp, ?ps1\<lparr>bs_main_ras := r\<rparr>)" "ras_safe r"
      "bp_condition_jump bp \<longrightarrow> opcode7 w = 0x63"
      "if is_jump_inst w \<and> w \<noteq> 0x30200073 then bp_predicted bp else bp = branch_predictor_info_pack_make"
      "history_ok (bp_bi_mode_global_history bp)"
      using predict_inst_ok[OF ps1(2) _ i w, of pc] Cons.prems(2) by (simp del: if_split) (elim exE conjE, rule that; assumption)
    let ?ps2 = "?ps1\<lparr>bs_main_ras := r\<rparr>"
    let ?x = "fetch1_item pc w (fe_next_inst_id s) bp"
    let ?s1 = "s\<lparr>fe_next_inst_id := fe_next_inst_id s + 1, fe_jump_wait := (fe_jump_wait s \<or> w = 0x30200073), fe_pc := pc + 4\<rparr>"
    have x: "ff_enable ?x" "ff_pc ?x = pc" "ff_value ?x = w" "ff_branch_predictor_info_pack ?x = bp" "history_item ?x"
      using bp(5) by (simp_all add: fetch1_item_def history_item_def)
    have ok: "predictors_ok ?ps2" using ps1(2) by (simp add: predictors_ok_parts)
    have cond: "bp_condition_jump bp \<longrightarrow> w \<noteq> 0x30200073" using bp(3) by (auto simp: opcode7_def)
    have default: "\<not> bp_predicted branch_predictor_info_pack_make" by (simp add: branch_predictor_info_pack_make_def)
    have mret: "is_jump_inst 0x30200073" "\<not> is_fence_i 0x30200073" by (simp_all add: is_jump_inst_def is_fence_i_def opcode7_def)
    have pn: "pred_next ?x = (if w = 0x30200073 then None else Some (if bp_predicted bp \<and> bp_jump bp then bp_next_pc bp else pc + 4))"
      by (simp add: pred_next_def x Let_def)
    let ?redirect = "is_jump_inst w \<and> bp_predicted bp \<and> bp_jump bp \<and> bp_next_pc bp \<noteq> pc + 4"
    let ?unknown = "is_jump_inst w \<and> \<not> bp_predicted bp"
    have run: "fetch1_loop i old quiet (v # vs) ps s =
      (if is_fence_i w then Some ([?x], ?ps2, ?s1)
       else if ?redirect then Some ([?x], ?ps2, ?s1\<lparr>fe_pc := bp_next_pc bp\<rparr>)
       else if ?unknown then Some ([?x], ?ps2, ?s1)
       else do { (items, ps', s') \<leftarrow> fetch1_loop (i + 1) old quiet vs ?ps2 ?s1; Some (?x # items, ps', s') })"
      unfolding run0 if_not_P[OF False] ps1(1) Option.bind.simps bp(1) by (simp add: Let_def)
    show ?thesis
    proof (cases "is_fence_i w \<or> ?redirect \<or> ?unknown")
      case stop: True
      let ?s' = "if \<not> is_fence_i w \<and> ?redirect then ?s1\<lparr>fe_pc := bp_next_pc bp\<rparr> else ?s1"
      have r: "fetch1_loop i old quiet (v # vs) ps s = Some ([?x], ?ps2, ?s')" unfolding run using stop by auto
      have fence: "\<not> is_jump_inst w \<and> w \<noteq> 0x30200073" if "is_fence_i w"
        using that by (auto simp: is_fence_i_def is_jump_inst_def opcode7_def)
      have "goes_on (pred_next ?x) ?s'"
      proof (cases "w = 0x30200073")
        case True
        then show ?thesis unfolding pn goes_on_def by simp
      next
        case nm: False
        have "\<not> ?unknown" using bp(4) nm by auto
        then have "is_fence_i w \<or> ?redirect" using stop by blast
        moreover have "\<not> fe_jump_wait ?s'" using nm Cons.prems(6) by simp
        moreover have "\<not> bp_predicted bp" if "is_fence_i w" using fence[OF that] bp(4) default by auto
        ultimately show ?thesis unfolding pn goes_on_def using nm by auto
      qed
      moreover have "group_agrees dff_get_new dff_get_new i [?x] (bs_bi_mode ?ps2)"
        using ps1(4) cond i by (simp add: group_agrees_def x)
      moreover have "path (Some pc) [?x] (pred_next ?x)" by (simp add: x)
      moreover have "fe_port ?s' = fe_port s" by simp
      ultimately show ?thesis unfolding r pc_def[symmetric] using ok bp(2) x(1,5) ps1(3) Cons.prems(3) by (intro exI[of _ "[?x]"] exI[of _ ?ps2] exI[of _ ?s']) auto
    next
      case go: False
      then have nm: "w \<noteq> 0x30200073" using mret bp(4) default by (cases "w = 0x30200073") auto
      have p4: "pred_next ?x = Some (pc + 4)"
      proof (cases "is_jump_inst w")
        case True
        then show ?thesis unfolding pn using go nm by auto
      next
        case False
        then have "bp = branch_predictor_info_pack_make" using bp(4) by simp
        then show ?thesis unfolding pn using nm default by simp
      qed
      have pc4: "pc + 4 = old + of_nat (i + 1) * 4" by (simp add: pc_def algebra_simps)
      have IH: "\<exists>items ps' s'. fetch1_loop (i + 1) old quiet vs ?ps2 ?s1 = Some (items, ps', s') \<and> predictors_ok ps' \<and> ras_safe (bs_main_ras ps') \<and>
        bs_bi_mode_q ps' = bs_bi_mode_q ?ps2 \<and> length items \<le> length vs \<and> list_all ff_enable items \<and> list_all history_item items \<and> fe_port s' = fe_port ?s1 \<and>
        (\<forall>j < i + 1. bo_predict_jump (bs_bi_mode ps') ! j = bo_predict_jump (bs_bi_mode ?ps2) ! j \<and>
          bo_predict_next_pc (bs_bi_mode ps') ! j = bo_predict_next_pc (bs_bi_mode ?ps2) ! j) \<and>
        group_agrees dff_get_new dff_get_new (i + 1) items (bs_bi_mode ps') \<and>
        (\<exists>b. path (Some (old + of_nat (i + 1) * 4)) items b \<and> goes_on b s')"
        by (rule Cons.IH) (use ok bp(2) Cons.prems nm pc4 in simp_all)
      then obtain items ps' s' b where r: "fetch1_loop (i + 1) old quiet vs ?ps2 ?s1 = Some (items, ps', s')" "predictors_ok ps'"
        "ras_safe (bs_main_ras ps')" "bs_bi_mode_q ps' = bs_bi_mode_q ps" "length items \<le> length vs" "list_all ff_enable items" "fe_port s' = fe_port s"
        "list_all history_item items"
        "\<forall>j < i + 1. bo_predict_jump (bs_bi_mode ps') ! j = bo_predict_jump bo ! j \<and>
          bo_predict_next_pc (bs_bi_mode ps') ! j = bo_predict_next_pc bo ! j"
        "group_agrees dff_get_new dff_get_new (i + 1) items (bs_bi_mode ps')" "path (Some (old + of_nat (i + 1) * 4)) items b" "goes_on b s'"
        by auto
      have "fetch1_loop i old quiet (v # vs) ps s = Some (?x # items, ps', s')" unfolding run using go r(1) by auto
      moreover have "path (Some pc) (?x # items) b" using p4 r(11)[folded pc4] x(2) by simp
      moreover have "group_agrees dff_get_new dff_get_new i (?x # items) (bs_bi_mode ps')"
        unfolding group_agrees_def
      proof (intro allI impI)
        fix k
        assume k: "k < length (?x # items)"
        show "i + k < FETCH_WIDTH \<and> (bp_condition_jump (ff_branch_predictor_info_pack ((?x # items) ! k)) \<longrightarrow>
          ff_value ((?x # items) ! k) \<noteq> 0x30200073 \<and> (\<not> dff_get_new (bo_predict_jump (bs_bi_mode ps') ! (i + k)) \<longrightarrow>
            dff_get_new (bo_predict_next_pc (bs_bi_mode ps') ! (i + k)) = ff_pc ((?x # items) ! k) + 4))"
        proof (cases k)
          case 0
          then show ?thesis using i cond ps1(4) r(9) by (simp add: x)
        next
          case (Suc m)
          then show ?thesis using r(10) k by (auto simp: group_agrees_def)
        qed
      qed
      moreover have "\<forall>j < i. bo_predict_jump (bs_bi_mode ps') ! j = bo_predict_jump (bs_bi_mode ps) ! j \<and>
        bo_predict_next_pc (bs_bi_mode ps') ! j = bo_predict_next_pc (bs_bi_mode ps) ! j" using r(9) ps1(3) i by simp
      ultimately show ?thesis unfolding pc_def[symmetric] using r(2-8,12) x(1,5) by (intro exI[of _ "?x # items"] exI[of _ ps'] exI[of _ s']) auto
    qed
  qed
qed

subsection \<open>The second stage in a cycle\<close>

lemma group_pad: "group_agrees gj gn 0 items b \<Longrightarrow> length items \<le> FETCH_WIDTH \<Longrightarrow> group_agrees gj gn 0 (fetch_pad items) b"
  by (auto simp: group_agrees_def fetch_pad_def nth_append fetch1_fetch2_op_info_make_def branch_predictor_info_pack_make_def)

lemma pad_facts:
  assumes "length items \<le> FETCH_WIDTH" and "list_all ff_enable items"
  shows "length (fetch_pad items) = FETCH_WIDTH" "filter ff_enable (fetch_pad items) = items"
    "list_all history_item items \<Longrightarrow> list_all history_item (fetch_pad items)"
proof -
  have "filter ff_enable (replicate k fetch1_fetch2_op_info_make) = []" for k
    by (induction k) (simp_all add: fetch1_fetch2_op_info_make_def)
  then show "length (fetch_pad items) = FETCH_WIDTH" "filter ff_enable (fetch_pad items) = items"
    using assms by (auto simp: fetch_pad_def list_all_iff intro: filter_True)
  show "list_all history_item items \<Longrightarrow> list_all history_item (fetch_pad items)"
    by (auto simp: fetch_pad_def list_all_iff history_item_def fetch1_fetch2_op_info_make_def branch_predictor_info_pack_make_def)
qed

lemma filter_disable: "filter ff_enable (map ff_disable xs) = []"
  by (induction xs) (simp_all add: ff_disable_def)

lemma find_ok:
  assumes "mode_ok b" and "group_agrees dff_get dff_get i qs b"
  shows "\<exists>r. fetch2_find i qs b = Some r \<and>
    (\<forall>j jump next_pc. r = Some (j, jump, next_pc) \<longrightarrow> i \<le> j \<and> j - i < length qs \<and> ff_enable (qs ! (j - i)) \<and>
       bp_predicted (ff_branch_predictor_info_pack (qs ! (j - i))) \<and> ff_value (qs ! (j - i)) \<noteq> 0x30200073 \<and>
       (\<not> jump \<longrightarrow> next_pc = ff_pc (qs ! (j - i)) + 4))"
  using assms(2)
proof (induction qs arbitrary: i)
  case (Cons p qs)
  have g: "i < FETCH_WIDTH" "bp_condition_jump (ff_branch_predictor_info_pack p) \<longrightarrow> ff_value p \<noteq> 0x30200073 \<and>
      (\<not> dff_get (bo_predict_jump b ! i) \<longrightarrow> dff_get (bo_predict_next_pc b ! i) = ff_pc p + 4)"
    using Cons.prems by (auto simp: group_agrees_def dest: spec[of _ 0])
  have "group_agrees dff_get dff_get (i + 1) qs b"
    unfolding group_agrees_def
  proof (intro allI impI)
    fix k
    assume "k < length qs"
    then show "i + 1 + k < FETCH_WIDTH \<and> (bp_condition_jump (ff_branch_predictor_info_pack (qs ! k)) \<longrightarrow> ff_value (qs ! k) \<noteq> 0x30200073 \<and>
        (\<not> dff_get (bo_predict_jump b ! (i + 1 + k)) \<longrightarrow> dff_get (bo_predict_next_pc b ! (i + 1 + k)) = ff_pc (qs ! k) + 4))"
      using spec[OF Cons.prems[unfolded group_agrees_def], of "Suc k"] by simp
  qed
  from Cons.IH[OF this] obtain r where r: "fetch2_find (i + 1) qs b = Some r"
    "\<forall>j jump next_pc. r = Some (j, jump, next_pc) \<longrightarrow> i + 1 \<le> j \<and> j - (i + 1) < length qs \<and> ff_enable (qs ! (j - (i + 1))) \<and>
       bp_predicted (ff_branch_predictor_info_pack (qs ! (j - (i + 1)))) \<and> ff_value (qs ! (j - (i + 1))) \<noteq> 0x30200073 \<and>
       (\<not> jump \<longrightarrow> next_pc = ff_pc (qs ! (j - (i + 1))) + 4)" by blast
  have rest: "\<forall>j jump next_pc. r = Some (j, jump, next_pc) \<longrightarrow> i \<le> j \<and> j - i < length (p # qs) \<and> ff_enable ((p # qs) ! (j - i)) \<and>
       bp_predicted (ff_branch_predictor_info_pack ((p # qs) ! (j - i))) \<and> ff_value ((p # qs) ! (j - i)) \<noteq> 0x30200073 \<and>
       (\<not> jump \<longrightarrow> next_pc = ff_pc ((p # qs) ! (j - i)) + 4)"
    using r(2) by (auto simp: nth_Cons' Suc_diff_Suc)
  have get: "bi_mode_get_next_pc i b = Some (dff_get (bo_predict_next_pc b ! i))" "bi_mode_is_jump i b = Some (dff_get (bo_predict_jump b ! i))"
    using assms(1) g(1) by (simp_all add: bi_mode_get_next_pc_def bi_mode_is_jump_def mode_ok_def table_get_def)
  show ?case using r(1) rest get g by (auto simp: Let_def)
qed simp

lemma push_group:
  assumes "fifo_settled f" and "fetch2_push i ops f = (fail, f')"
  shows "fifo_settled f' \<and> (\<exists>k \<le> length ops. fail = (if k < length ops then Some (i + k) else None) \<and>
    fifo_next f' = fifo_next f @ map fetch2_send (filter ff_enable (take k ops)))"
  using assms
proof (induction ops arbitrary: i f)
  case (Cons p ops)
  have step: "\<exists>k \<le> length (p # ops). fail = (if k < length (p # ops) then Some (i + k) else None) \<and>
      fifo_next f' = fifo_next f @ map fetch2_send (filter ff_enable (take k (p # ops)))"
    if "\<exists>k \<le> length ops. fail = (if k < length ops then Some (i + 1 + k) else None) \<and>
      fifo_next f' = (fifo_next f @ map fetch2_send (filter ff_enable [p])) @ map fetch2_send (filter ff_enable (take k ops))"
    using that by (elim exE conjE, rule_tac x = "Suc k" in exI) auto
  show ?case
  proof (cases "ff_enable p")
    case False
    from Cons.IH[OF Cons.prems(1), of "i + 1"] Cons.prems(2) False show ?thesis using step by simp
  next
    case True
    obtain ok f1 where f1: "fifo_push (fetch2_send p) f = (ok, f1)" by (cases "fifo_push (fetch2_send p) f") auto
    note law = fq.push_law[OF Cons.prems(1) f1]
    show ?thesis
    proof (cases ok)
      case False
      then show ?thesis using True f1 law Cons.prems(2) by (intro conjI exI[of _ 0]) auto
    next
      case ok: True
      from Cons.IH[of f1 "i + 1"] law ok Cons.prems(2) True f1 show ?thesis using step by simp
    qed
  qed
qed simp

lemma shift_enabled: "filter ff_enable (fetch2_shift k ops) = filter ff_enable (drop k ops)"
  by (simp add: fetch2_shift_def filter_disable)

lemma shift_length: "k \<le> length ops \<Longrightarrow> length (fetch2_shift k ops) = length ops"
  by (simp add: fetch2_shift_def)

subsection \<open>The front end in a cycle\<close>

record front =
  fr_f1 :: fetch1
  fr_f2 :: fetch2
  fr_ps :: branch_predictor_set

text \<open>
  What a cycle brings to the two stages: how many instructions decode takes, whether decode, rename and the two store buffers are idle, what the
  later stages report, the bus as the first stage finds it, and the requests that the later stages have left for the predictor of two modes.
\<close>

record front_input =
  in_take :: nat
  in_decode :: decode_feedback_pack_t
  in_rename :: rename_feedback_pack_t
  in_bru :: bru_feedback_pack_t
  in_sau :: sau_feedback_pack_t
  in_commit :: commit_feedback_pack_t
  in_sb_empty :: bool
  in_rsb_empty :: bool
  in_bus :: cbus
  in_requests :: "bp_request_t list"

fun pop_n :: "nat \<Rightarrow> 'a fifo \<Rightarrow> 'a list \<times> 'a fifo" where
  "pop_n 0 f = ([], f)"
| "pop_n (Suc n) f = (case fifo_pop f of (None, f') \<Rightarrow> ([], f') | (Some x, f') \<Rightarrow> let (xs, f'') = pop_n n f' in (x # xs, f''))"

definition in_flush :: "front_input \<Rightarrow> bool" where
  "in_flush x \<longleftrightarrow> cf_flush (in_commit x) \<or> bru_flush (in_bru x) \<or> sau_flush (in_sau x)"

definition fetch1_sync :: "fetch1 \<Rightarrow> fetch1" where
  "fetch1_sync s = s\<lparr>fe_port := (fe_port s)\<lparr>port_value := dff_sync (port_value (fe_port s))\<rparr>\<rparr>"

definition front_cycle :: "front_input \<Rightarrow> front
    \<Rightarrow> (branch_predictor_info_pack_t fetch2_decode_pack_t list \<times> front) option" where
  "front_cycle x s =
     do {
       let (out, f) = (if in_flush x then ([], fs_fifo (fr_f2 s)) else pop_n (in_take x) (fs_fifo (fr_f2 s)));
       let ps = (fr_ps s)\<lparr>bs_bi_mode_q := bs_bi_mode_q (fr_ps s) @ in_requests x\<rparr>;
       (fb, ps1, f2) \<leftarrow> fetch2_run (in_bru x) (in_sau x) (in_commit x) (fe_port (fr_f1 s)) ps ((fr_f2 s)\<lparr>fs_fifo := f\<rparr>);
       (b', ps2, f1) \<leftarrow> fetch1_run fb (in_decode x) (in_rename x) (in_bru x) (in_sau x) (in_commit x) (in_sb_empty x) (in_rsb_empty x)
                         (in_bus x) ps1 (fr_f1 s);
       ps3 \<leftarrow> batch_sync ps2;
       Some (out, \<lparr>fr_f1 = fetch1_sync f1, fr_f2 = f2\<lparr>fs_fifo := fifo_sync (fs_fifo f2)\<rparr>, fr_ps = predictors_sync ps3\<rparr>)
     }"

fun front_cycles :: "front_input list \<Rightarrow> front \<Rightarrow> (branch_predictor_info_pack_t fetch2_decode_pack_t list \<times> front) option" where
  "front_cycles [] s = Some ([], s)"
| "front_cycles (x # xs) s = do { (out, s1) \<leftarrow> front_cycle x s; (outs, s') \<leftarrow> front_cycles xs s1; Some (out @ outs, s') }"

definition modes_settled :: "bi_mode \<Rightarrow> bool" where
  "modes_settled b \<longleftrightarrow> list_all settled (bo_predict_jump b) \<and> list_all settled (bo_predict_next_pc b)"

definition front_ok :: "front \<Rightarrow> bool" where
  "front_ok s \<longleftrightarrow>
     fifo_settled (fs_fifo (fr_f2 s)) \<and> length (fs_rev_pack (fr_f2 s)) = FETCH_WIDTH \<and>
     predictors_ok (fr_ps s) \<and> ras_safe (bs_main_ras (fr_ps s)) \<and> modes_settled (bs_bi_mode (fr_ps s)) \<and>
     length (port_get (fe_port (fr_f1 s))) = FETCH_WIDTH \<and> port_get_new (fe_port (fr_f1 s)) = port_get (fe_port (fr_f1 s)) \<and>
     list_all history_item (port_get (fe_port (fr_f1 s))) \<and>
     group_agrees dff_get dff_get 0 (port_get (fe_port (fr_f1 s))) (bs_bi_mode (fr_ps s))"

definition pending :: "front \<Rightarrow> fetch1_fetch2_op_info_t list" where
  "pending s = (if fs_busy (fr_f2 s) then filter ff_enable (fs_rev_pack (fr_f2 s)) else []) @ filter ff_enable (port_get (fe_port (fr_f1 s)))"

text \<open>The instructions fetched since the program was at \<open>pc\<close>, of which decode has taken \<open>taken\<close>.\<close>

definition on_path :: "u32 \<Rightarrow> branch_predictor_info_pack_t fetch2_decode_pack_t list \<Rightarrow> front \<Rightarrow> bool" where
  "on_path pc taken s \<longleftrightarrow>
     (\<exists>dn b. path (Some pc) (dn @ pending s) b \<and> goes_on b (fr_f1 s) \<and>
        map fetch2_send dn = taken @ fifo_next (fs_fifo (fr_f2 s)))"

text \<open>The words that the bus has on offer, none of them with the opcode of branches and a reserved function code.\<close>

definition words_legal :: "cbus \<Rightarrow> bool" where
  "words_legal b \<longleftrightarrow> (\<forall>vs. get_instruction_value (cbus_if b) = Some vs \<longrightarrow> list_all branch_word_ok vs)"

definition input_ok :: "front_input \<Rightarrow> bool" where
  "input_ok x \<longleftrightarrow> words_legal (in_bus x) \<and> list_all (\<lambda>r. history_ok (bp_bi_mode_global_history (rq_bp_pack r))) (in_requests x) \<and>
     (cf_flush (in_commit x) \<and> \<not> cf_has_exception (in_commit x) \<and> cf_jump_enable (in_commit x) \<longrightarrow> cf_jump (in_commit x))"

text \<open>
  The address whose group the first stage asks the bus for at the end of a cycle, and the runs in which the bus can read every such
  group.
\<close>

definition fetch_request :: "front_input \<Rightarrow> front \<Rightarrow> u32 option" where
  "fetch_request x s =
     do {
       let f = (if in_flush x then fs_fifo (fr_f2 s) else snd (pop_n (in_take x) (fs_fifo (fr_f2 s))));
       let ps = (fr_ps s)\<lparr>bs_bi_mode_q := bs_bi_mode_q (fr_ps s) @ in_requests x\<rparr>;
       (fb, ps1, f2) \<leftarrow> fetch2_run (in_bru x) (in_sau x) (in_commit x) (fe_port (fr_f1 s)) ps ((fr_f2 s)\<lparr>fs_fifo := f\<rparr>);
       (ps2, f1) \<leftarrow> fetch1_step (f2_idle fb \<and> df_idle (in_decode x) \<and> rf_idle (in_rename x) \<and> cf_idle (in_commit x) \<and>
                         in_sb_empty x \<and> in_rsb_empty x)
                       fb (in_bru x) (in_sau x) (in_commit x) (get_instruction_value (cbus_if (in_bus x))) ps1 (fr_f1 s);
       Some (fe_pc f1)
     }"

fun served :: "front_input list \<Rightarrow> front \<Rightarrow> bool" where
  "served [] s = True"
| "served (x # xs) s =
     ((case fetch_request x s of None \<Rightarrow> True | Some a \<Rightarrow> cbus_read_instruction a (in_bus x) \<noteq> None) \<and>
      (case front_cycle x s of None \<Rightarrow> True | Some (out, s') \<Rightarrow> served xs s'))"

lemma pop_group:
  assumes "fifo_settled f" and "pop_n n f = (xs, f')"
  shows "fifo_settled f' \<and> fifo_next f = xs @ fifo_next f'"
  using assms
proof (induction n arbitrary: f xs f')
  case (Suc n)
  obtain r f1 where f1: "fifo_pop f = (r, f1)" by (cases "fifo_pop f") auto
  note law = fq.pop_law[OF Suc.prems(1) f1] and held = fq.avail_held[OF Suc.prems(1)]
  show ?case
  proof (cases r)
    case None
    then show ?thesis using Suc.prems(2) f1 law by (auto split: list.splits)
  next
    case (Some x)
    obtain ys f2 where p: "pop_n n f1 = (ys, f2)" by (cases "pop_n n f1") auto
    obtain zs where "fifo_avail f = x # zs" using law Some by (auto split: list.splits)
    then have "fifo_next f = x # fifo_next f1" using law held Some by (cases "fifo_next f") auto
    then show ?thesis using Suc.IH[OF _ p] Suc.prems(2) f1 Some p law by simp
  qed
qed simp

lemma speculate_keeps:
  "bs_bi_mode (speculate items ps) = bs_bi_mode ps \<and> bs_main_ras (speculate items ps) = bs_main_ras ps \<and>
   (predictors_ok ps \<longrightarrow> predictors_ok (speculate items ps))"
proof (induction items ps rule: speculate.induct)
  case (2 p qs ps)
  have "predictors_ok ps \<longrightarrow> predictors_ok (batch_request (speculative_request pc j) ps)" for pc j
    using batch_request_ok by (simp add: speculative_request_def bp_request_make_def branch_predictor_info_pack_make_def)
  then show ?case using 2 by (simp add: batch_request_def)
qed simp

lemma path_from_unknown:
  assumes "path (Some p) xs b"
  shows "\<exists>b'. path None xs b' \<and> (b' = None \<or> b' = b)"
  using assms by (cases xs) auto

lemma path_extend:
  assumes "path a xs b" and "b = None \<or> b = Some p" and "path (Some p) ys c"
  shows "\<exists>c'. path a (xs @ ys) c' \<and> (c' = None \<or> c' = c)"
  using assms path_from_unknown[OF assms(3)] by (auto simp: path_append)

text \<open>The correction of a prediction cuts the path behind the branch.\<close>

lemma path_correct:
  assumes "path a (filter ff_enable ops) b" and "i < length ops" and "ff_enable (ops ! i)" and "bp_predicted (ff_branch_predictor_info_pack (ops ! i))"
    and "ff_value (ops ! i) \<noteq> 0x30200073" and "\<not> jump \<longrightarrow> next_pc = ff_pc (ops ! i) + 4"
  shows "path a (filter ff_enable (fetch2_correct i jump next_pc ops)) (Some next_pc)"
proof -
  let ?p = "ops ! i"
  have "ops = take i ops @ ?p # drop (i + 1) ops" using assms(2) by (simp add: id_take_nth_drop)
  then have "filter ff_enable ops = filter ff_enable (take i ops) @ ?p # filter ff_enable (drop (i + 1) ops)"
    using assms(3) by (metis filter.simps(2) filter_append)
  then obtain c where c: "path a (filter ff_enable (take i ops)) c" "c = None \<or> c = Some (ff_pc ?p)"
    using assms(1) by (auto simp: path_append)
  show ?thesis using assms(3-6) c by (auto simp: fetch2_correct_def path_append filter_disable pred_next_def Let_def)
qed

lemma take_ok:
  assumes "predictors_ok ps" and "group_agrees dff_get dff_get 0 ops (bs_bi_mode ps)" and "length ops = FETCH_WIDTH"
    and "list_all history_item ops"
  shows "\<exists>ops' redirect ps'. fetch2_take ops ps = Some (ops', redirect, ps') \<and> length ops' = FETCH_WIDTH \<and> predictors_ok ps' \<and>
    bs_bi_mode ps' = bs_bi_mode ps \<and> bs_main_ras ps' = bs_main_ras ps \<and>
    (case redirect of None \<Rightarrow> ops' = ops
     | Some pc \<Rightarrow> \<forall>a b. path a (filter ff_enable ops) b \<longrightarrow> path a (filter ff_enable ops') (Some pc))"
proof -
  have m: "mode_ok (bs_bi_mode ps)" using assms(1) by (simp add: predictors_ok_parts)
  obtain r where r: "fetch2_find 0 ops (bs_bi_mode ps) = Some r"
    "\<forall>j jump next_pc. r = Some (j, jump, next_pc) \<longrightarrow> j < length ops \<and> ff_enable (ops ! j) \<and>
       bp_predicted (ff_branch_predictor_info_pack (ops ! j)) \<and> ff_value (ops ! j) \<noteq> 0x30200073 \<and>
       (\<not> jump \<longrightarrow> next_pc = ff_pc (ops ! j) + 4)" using find_ok[OF m assms(2)] by auto
  show ?thesis
  proof (cases r)
    case None
    then show ?thesis using r(1) assms by (simp add: fetch2_take_def)
  next
    case (Some t)
    obtain j jump next_pc where t: "t = (j, jump, next_pc)" by (cases t) auto
    note f = r(2)[rule_format, OF Some[unfolded t]]
    let ?bp = "ff_branch_predictor_info_pack (ops ! j)"
    let ?ps1 = "ps\<lparr>bs_bi_modal_q := bs_bi_modal_q ps @ [update_request (ff_pc (ops ! j)) jump next_pc False ?bp]\<rparr>"
    let ?ps2 = "batch_request (restore_request ?bp) ?ps1" and ?ops = "fetch2_correct j jump next_pc ops"
    have "predictors_ok ?ps1" using assms(1) by (simp add: predictors_ok_parts)
    then have ok: "predictors_ok ?ps2"
      by (rule batch_request_ok) (use assms(4) f in \<open>auto simp: restore_request_def list_all_length history_item_def\<close>)
    have run: "fetch2_take ops ps = Some (?ops, Some next_pc, speculate ?ops ?ps2)"
      using r(1) Some t by (simp add: fetch2_take_def Let_def)
    have len: "length ?ops = FETCH_WIDTH" using assms(3) f by (simp add: fetch2_correct_def Let_def)
    have cut: "\<forall>a b. path a (filter ff_enable ops) b \<longrightarrow> path a (filter ff_enable ?ops) (Some next_pc)"
      using path_correct f by blast
    have same: "bs_bi_mode ?ps2 = bs_bi_mode ps" "bs_main_ras ?ps2 = bs_main_ras ps" by (simp_all add: batch_request_def)
    have k: "bs_bi_mode (speculate ?ops ?ps2) = bs_bi_mode ps" "bs_main_ras (speculate ?ops ?ps2) = bs_main_ras ps"
      "predictors_ok (speculate ?ops ?ps2)"
      using speculate_keeps[of ?ops ?ps2] ok same by simp_all
    show ?thesis unfolding run using len k cut by (intro exI[of _ ?ops] exI[of _ "Some next_pc"] exI[of _ "speculate ?ops ?ps2"]) simp
  qed
qed

lemma group_empty: "group_agrees gj gn 0 [] b"
  by (simp add: group_agrees_def)

lemma fetch1_calm:
  assumes "predictors_ok ps" and "ras_safe (bs_main_ras ps)" and "words_legal b"
    and "\<not> cf_flush commit \<and> \<not> bru_flush bru \<and> \<not> sau_flush sau \<and> \<not> f2_pc_redirect fb"
  shows "\<exists>ps' s' items. fetch1_step quiet fb bru sau commit (get_instruction_value (cbus_if b)) ps s = Some (ps', s') \<and> predictors_ok ps' \<and>
    ras_safe (bs_main_ras ps') \<and> length items \<le> FETCH_WIDTH \<and> list_all ff_enable items \<and> list_all history_item items \<and>
    (if f2_stall fb then items = [] \<and> fe_port s' = fe_port s \<and> bs_bi_mode ps' = bs_bi_mode ps
     else fe_port s' = port_set (fetch_pad items) (fe_port s)) \<and>
    group_agrees dff_get_new dff_get_new 0 items (bs_bi_mode ps') \<and>
    (\<forall>a xs c. path a xs c \<and> goes_on c s \<longrightarrow> (\<exists>c'. path a (xs @ items) c' \<and> goes_on c' s'))"
proof -
  let ?word_at = "get_instruction_value (cbus_if b)"
  have "\<exists>items ps1 s1. fetch1_group quiet fb commit ?word_at ps s = Some (items, ps1, s1) \<and> predictors_ok ps1 \<and> ras_safe (bs_main_ras ps1) \<and>
    length items \<le> FETCH_WIDTH \<and> list_all ff_enable items \<and> list_all history_item items \<and> fe_port s1 = fe_port s \<and>
    (f2_stall fb \<longrightarrow> items = [] \<and> bs_bi_mode ps1 = bs_bi_mode ps) \<and> group_agrees dff_get_new dff_get_new 0 items (bs_bi_mode ps1) \<and>
    (\<forall>a xs c. path a xs c \<and> goes_on c s \<longrightarrow> (\<exists>c'. path a (xs @ items) c' \<and> goes_on c' s1))"
  proof (cases "fe_jump_wait s \<or> ?word_at = None \<or> f2_stall fb")
    case True
    then have "\<exists>s1. fetch1_group quiet fb commit ?word_at ps s = Some ([], ps, s1) \<and> fe_port s1 = fe_port s \<and>
        (\<forall>c. goes_on c s \<longrightarrow> goes_on c s1)"
      by (auto simp: fetch1_group_def goes_on_def split: option.splits)
    then show ?thesis using assms(1,2) group_empty by (elim exE conjE) (intro exI, auto)
  next
    case False
    then obtain vs where vs: "?word_at = Some vs" by auto
    have n: "0 + length (take FETCH_WIDTH vs) \<le> FETCH_WIDTH" by simp
    have w: "list_all branch_word_ok (take FETCH_WIDTH vs)"
      using assms(3) vs by (auto simp: words_legal_def list_all_iff dest: in_set_takeD)
    have p: "fe_pc s = fe_pc s + of_nat 0 * 4" by simp
    have j: "\<not> fe_jump_wait s" using False by blast
    obtain items ps1 s1 c1 where l: "fetch1_loop 0 (fe_pc s) quiet (take FETCH_WIDTH vs) ps s = Some (items, ps1, s1)" "predictors_ok ps1"
      "ras_safe (bs_main_ras ps1)" "length items \<le> length (take FETCH_WIDTH vs)" "list_all ff_enable items" "list_all history_item items"
      "fe_port s1 = fe_port s" "group_agrees dff_get_new dff_get_new 0 items (bs_bi_mode ps1)"
      "path (Some (fe_pc s + of_nat 0 * 4)) items c1" "goes_on c1 s1"
      using fetch1_loop_path[OF assms(1,2) n w p j, of quiet] by (elim exE conjE) (rule that; assumption)
    have go: "fetch1_group quiet fb commit ?word_at ps s = Some (items, ps1, s1)"
      using l(1) False vs by (simp add: fetch1_group_def)
    have "\<exists>c'. path a (xs @ items) c' \<and> goes_on c' s1" if "path a xs c \<and> goes_on c s" for a xs c
    proof -
      have "c = None \<or> c = Some (fe_pc s)" using that by (auto simp: goes_on_def)
      moreover have "path (Some (fe_pc s)) items c1" using l(9) by simp
      ultimately show ?thesis using path_extend[of a xs c "fe_pc s" items c1] that l(10) by (auto simp: goes_on_def)
    qed
    then show ?thesis using go l False n by (intro exI[of _ items] exI[of _ ps1] exI[of _ s1]) auto
  qed
  then obtain items ps1 s1 where g: "fetch1_group quiet fb commit ?word_at ps s = Some (items, ps1, s1)" "predictors_ok ps1"
    "ras_safe (bs_main_ras ps1)" "length items \<le> FETCH_WIDTH" "list_all ff_enable items" "list_all history_item items" "fe_port s1 = fe_port s"
    "f2_stall fb \<longrightarrow> items = [] \<and> bs_bi_mode ps1 = bs_bi_mode ps" "group_agrees dff_get_new dff_get_new 0 items (bs_bi_mode ps1)"
    "\<forall>a xs c. path a xs c \<and> goes_on c s \<longrightarrow> (\<exists>c'. path a (xs @ items) c' \<and> goes_on c' s1)"
    by (elim exE conjE) (rule that; assumption)
  let ?ps = "if f2_stall fb then ps1 else speculate items ps1"
  let ?s = "if f2_stall fb then s1 else s1\<lparr>fe_port := port_set (fetch_pad items) (fe_port s1)\<rparr>"
  have step: "fetch1_step quiet fb bru sau commit ?word_at ps s = Some (?ps, ?s)"
    using assms(4) g(1) by (simp add: fetch1_step_def)
  have "goes_on c ?s = goes_on c s1" for c by (simp add: goes_on_def)
  then show ?thesis using step g group_empty speculate_keeps[of items ps1]
    by (intro exI[of _ ?ps] exI[of _ ?s] exI[of _ items]) simp
qed

lemma sync_facts:
  "port_get (fe_port (fetch1_sync f)) = port_get_new (fe_port f)" "port_get_new (fe_port (fetch1_sync f)) = port_get_new (fe_port f)"
  "goes_on b (fetch1_sync f) = goes_on b f"
  by (simp_all add: fetch1_sync_def port_get_def port_get_new_def goes_on_def dff_simps)

lemma group_sync:
  assumes "group_agrees dff_get_new dff_get_new 0 xs (bs_bi_mode ps)" and "predictors_ok ps"
  shows "group_agrees dff_get dff_get 0 xs (bs_bi_mode (predictors_sync ps))"
proof -
  have "length (bo_predict_jump (bs_bi_mode ps)) = FETCH_WIDTH" "length (bo_predict_next_pc (bs_bi_mode ps)) = FETCH_WIDTH"
    using assms(2) by (simp_all add: predictors_ok_def)
  then show ?thesis using assms(1) by (auto simp: group_agrees_def predictors_sync_def dff_simps)
qed

lemma group_settled:
  assumes "modes_settled b" and "mode_ok b"
  shows "group_agrees dff_get_new dff_get_new 0 xs b = group_agrees dff_get dff_get 0 xs b"
  using assms by (auto simp: group_agrees_def modes_settled_def mode_ok_def list_all_length settled_def)

lemma modes_settled_sync: "modes_settled (bs_bi_mode (predictors_sync ps))"
  by (simp add: modes_settled_def predictors_sync_def list_all_iff dff_simps)

lemma set_port: "port_get_new (port_set v p) = v"
  by (simp add: port_get_new_def port_set_def dff_simps)

text \<open>The end of a cycle, from what the two stages have left.\<close>

lemma front_end:
  assumes "fifo_settled (fifo_sync f)" and "length kept = FETCH_WIDTH" and "predictors_ok ps" and "ras_safe (bs_main_ras ps)"
    and "length (port_get_new (fe_port f1)) = FETCH_WIDTH" and "list_all history_item (port_get_new (fe_port f1))"
    and "group_agrees dff_get_new dff_get_new 0 (port_get_new (fe_port f1)) (bs_bi_mode ps)"
  shows "\<exists>ps3. batch_sync ps = Some ps3 \<and>
    front_ok \<lparr>fr_f1 = fetch1_sync f1, fr_f2 = \<lparr>fs_fifo = fifo_sync f, fs_rev_pack = kept, fs_busy = busy\<rparr>, fr_ps = predictors_sync ps3\<rparr>"
proof -
  obtain ps3 where p: "batch_sync ps = Some ps3" "predictors_ok ps3" "bs_main_ras ps3 = bs_main_ras ps"
    "bo_predict_jump (bs_bi_mode ps3) = bo_predict_jump (bs_bi_mode ps)"
    "bo_predict_next_pc (bs_bi_mode ps3) = bo_predict_next_pc (bs_bi_mode ps)"
    using batch_sync_ok[OF assms(3)] by blast
  have "group_agrees dff_get_new dff_get_new 0 (port_get_new (fe_port f1)) (bs_bi_mode ps3)"
    using assms(7) p(4,5) by (simp add: group_agrees_def)
  from group_sync[OF this p(2)] show ?thesis
    using p assms predictors_sync_ok[OF p(2)] modes_settled_sync ras_safe_sync[OF assms(4)]
    by (simp add: front_ok_def sync_facts) (simp add: predictors_sync_def)
qed

lemma front_cycle_calm:
  assumes "front_ok s" and "\<not> in_flush x" and "input_ok x"
  shows "\<exists>a out s'. fetch_request x s = Some a \<and>
    front_cycle x s = (if cbus_read_instruction a (in_bus x) = None then None else Some (out, s')) \<and>
    front_ok s' \<and> (\<forall>pc taken. on_path pc taken s \<longrightarrow> on_path pc (taken @ out) s')"
proof -
  note s = assms(1)[unfolded front_ok_def] and x = assms(3)[unfolded input_ok_def] and n = assms(2)[unfolded in_flush_def]
  let ?f2 = "fr_f2 s" and ?f1 = "fr_f1 s" and ?port = "port_get (fe_port (fr_f1 s))"
  obtain out f where pop: "pop_n (in_take x) (fs_fifo ?f2) = (out, f)" by (cases "pop_n (in_take x) (fs_fifo ?f2)") auto
  have f: "fifo_settled f" "fifo_next (fs_fifo ?f2) = out @ fifo_next f" using pop_group[OF _ pop] s by simp_all
  define ps where "ps = (fr_ps s)\<lparr>bs_bi_mode_q := bs_bi_mode_q (fr_ps s) @ in_requests x\<rparr>"
  have ps: "predictors_ok ps" "ras_safe (bs_main_ras ps)" "bs_bi_mode ps = bs_bi_mode (fr_ps s)" "mode_ok (bs_bi_mode ps)"
    using s x by (auto simp: ps_def predictors_ok_parts)
  have "\<exists>ops redirect ps1. (if \<not> fs_busy ?f2 then fetch2_take ?port ps else Some (fs_rev_pack ?f2, None, ps)) = Some (ops, redirect, ps1) \<and>
    length ops = FETCH_WIDTH \<and> predictors_ok ps1 \<and> bs_bi_mode ps1 = bs_bi_mode ps \<and> bs_main_ras ps1 = bs_main_ras ps \<and>
    (fs_busy ?f2 \<longrightarrow> redirect = None \<and> ops = fs_rev_pack ?f2) \<and>
    (\<not> fs_busy ?f2 \<longrightarrow> (case redirect of None \<Rightarrow> ops = ?port
     | Some pc \<Rightarrow> \<forall>a b. path a (filter ff_enable ?port) b \<longrightarrow> path a (filter ff_enable ops) (Some pc)))"
  proof (cases "fs_busy ?f2")
    case False
    have "group_agrees dff_get dff_get 0 ?port (bs_bi_mode ps)" using s ps(3) by simp
    from take_ok[OF ps(1) this] s False show ?thesis by simp
  qed (use s ps in simp)
  then obtain ops redirect ps1 where t:
    "(if \<not> fs_busy ?f2 then fetch2_take ?port ps else Some (fs_rev_pack ?f2, None, ps)) = Some (ops, redirect, ps1)"
    "length ops = FETCH_WIDTH" "predictors_ok ps1" "bs_bi_mode ps1 = bs_bi_mode ps" "bs_main_ras ps1 = bs_main_ras ps"
    "fs_busy ?f2 \<longrightarrow> redirect = None \<and> ops = fs_rev_pack ?f2"
    "\<not> fs_busy ?f2 \<longrightarrow> (case redirect of None \<Rightarrow> ops = ?port
     | Some pc \<Rightarrow> \<forall>a b. path a (filter ff_enable ?port) b \<longrightarrow> path a (filter ff_enable ops) (Some pc))"
    by (elim exE conjE) (rule that; assumption)
  obtain fail f' where push: "fetch2_push 0 ops f = (fail, f')" by (cases "fetch2_push 0 ops f") auto
  obtain k where k: "fifo_settled f'" "k \<le> length ops" "fail = (if k < length ops then Some k else None)"
    "fifo_next f' = fifo_next f @ map fetch2_send (filter ff_enable (take k ops))"
    using push_group[OF f(1) push] by auto
  define fb where "fb = \<lparr>f2_idle = \<not> list_ex ff_enable ops, f2_stall = fs_busy ?f2, f2_pc_redirect = (redirect \<noteq> None),
    f2_new_pc = (case redirect of None \<Rightarrow> 0 | Some pc \<Rightarrow> pc)\<rparr>"
  let ?rev = "fetch2_shift (case fail of None \<Rightarrow> 0 | Some k \<Rightarrow> k) ops"
  let ?g2 = "\<lparr>fs_fifo = f', fs_rev_pack = ?rev, fs_busy = (fail \<noteq> None)\<rparr>"
  have two: "fetch2_run (in_bru x) (in_sau x) (in_commit x) (fe_port ?f1) ps (?f2\<lparr>fs_fifo := f\<rparr>) = Some (fb, ps1, ?g2)"
  proof -
    have "?f2\<lparr>fs_fifo := f', fs_busy := (fail \<noteq> None), fs_rev_pack := ?rev\<rparr> = ?g2" by (cases ?f2) simp
    then show ?thesis using n t(1) push by (cases redirect; cases "fs_busy ?f2") (simp_all add: fetch2_run_def fb_def Let_def)
  qed
  have rev: "length ?rev = FETCH_WIDTH" using t(2) k(2) by (subst shift_length) (auto split: option.splits simp: k(3))
  have held: "filter ff_enable (take k ops) @ (if fail \<noteq> None then filter ff_enable ?rev else []) = filter ff_enable ops"
    using k(2,3) by (auto simp: shift_enabled filter_append[symmetric] simp del: filter_append)
  have ras1: "ras_safe (bs_main_ras ps1)" using ps(2) t(5) by simp
  let ?quiet = "f2_idle fb \<and> df_idle (in_decode x) \<and> rf_idle (in_rename x) \<and> cf_idle (in_commit x) \<and> in_sb_empty x \<and> in_rsb_empty x"
  let ?words = "get_instruction_value (cbus_if (in_bus x))"
  have "\<exists>ps2 g1. fetch1_step ?quiet fb (in_bru x) (in_sau x) (in_commit x) ?words ps1 ?f1 = Some (ps2, g1) \<and> predictors_ok ps2 \<and> ras_safe (bs_main_ras ps2) \<and>
    length (port_get_new (fe_port g1)) = FETCH_WIDTH \<and> list_all history_item (port_get_new (fe_port g1)) \<and>
    group_agrees dff_get_new dff_get_new 0 (port_get_new (fe_port g1)) (bs_bi_mode ps2) \<and>
    (\<forall>a xs b. path a (xs @ pending s) b \<and> goes_on b ?f1 \<longrightarrow>
       (\<exists>b'. path a (xs @ filter ff_enable ops @ filter ff_enable (port_get_new (fe_port g1))) b' \<and> goes_on b' g1))"
  proof (cases redirect)
    case None
    have c: "\<not> cf_flush (in_commit x) \<and> \<not> bru_flush (in_bru x) \<and> \<not> sau_flush (in_sau x) \<and> \<not> f2_pc_redirect fb"
      using n None by (simp add: fb_def)
    obtain ps2 g1 items where r: "fetch1_step ?quiet fb (in_bru x) (in_sau x) (in_commit x) ?words ps1 ?f1 = Some (ps2, g1)" "predictors_ok ps2" "ras_safe (bs_main_ras ps2)" "length items \<le> FETCH_WIDTH"
      "list_all ff_enable items" "list_all history_item items"
      "if f2_stall fb then items = [] \<and> fe_port g1 = fe_port ?f1 \<and> bs_bi_mode ps2 = bs_bi_mode ps1
       else fe_port g1 = port_set (fetch_pad items) (fe_port ?f1)"
      "group_agrees dff_get_new dff_get_new 0 items (bs_bi_mode ps2)"
      "\<forall>a xs c. path a xs c \<and> goes_on c ?f1 \<longrightarrow> (\<exists>c'. path a (xs @ items) c' \<and> goes_on c' g1)"
      using fetch1_calm[OF t(3) ras1 conjunct1[OF x] c, of ?quiet ?f1] by (elim exE conjE) (rule that; assumption)
    show ?thesis
    proof (cases "fs_busy ?f2")
      case True
      then have i: "items = []" "fe_port g1 = fe_port ?f1" "bs_bi_mode ps2 = bs_bi_mode ps" using r(7) t(4) by (simp_all add: fb_def)
      have "group_agrees dff_get_new dff_get_new 0 ?port (bs_bi_mode ps2)"
        using s ps(3,4) group_settled[of "bs_bi_mode ps"] i(3) by simp
      then show ?thesis using r(1-3,9) s i True t(6)
        by (intro exI[of _ ps2] exI[of _ g1]) (simp add: pending_def)
    next
      case False
      then have i: "fe_port g1 = port_set (fetch_pad items) (fe_port ?f1)" and o: "ops = ?port" using r(7) t(7) None by (simp_all add: fb_def)
      have "\<forall>a xs b. path a (xs @ pending s) b \<and> goes_on b ?f1 \<longrightarrow> (\<exists>b'. path a (xs @ filter ff_enable ops @ items) b' \<and> goes_on b' g1)"
      proof -
        have pd: "pending s = filter ff_enable ops" using False o by (simp add: pending_def)
        show ?thesis using r(9) unfolding pd append_assoc[symmetric] by blast
      qed
      then show ?thesis using r(1-3) i pad_facts[OF r(4,5)] r(6) group_pad[OF r(8,4)]
        by (intro exI[of _ ps2] exI[of _ g1]) (simp add: set_port)
    qed
  next
    case (Some pc')
    then have nb: "\<not> fs_busy ?f2" using t(6) by auto
    let ?g1 = "fetch1_go pc' ?f1"
    have run: "fetch1_step ?quiet fb (in_bru x) (in_sau x) (in_commit x) ?words ps1 ?f1 = Some (ps1, ?g1)"
      using n Some by (simp add: fetch1_step_def fb_def)
    have new: "port_get_new (fe_port ?g1) = fetch_pad []" by (simp add: fetch1_go_def set_port)
    have "\<exists>b'. path a (xs @ filter ff_enable ops) b' \<and> goes_on b' ?g1" if p: "path a (xs @ pending s) b" for a xs b
    proof -
      obtain c where "path a xs c" "path c (filter ff_enable ?port) b" using p nb by (auto simp: pending_def path_append)
      then have "path a (xs @ filter ff_enable ops) (Some pc')" using t(7) nb Some by (auto simp: path_append)
      then show ?thesis by (auto simp: goes_on_def fetch1_go_def)
    qed
    then show ?thesis using run t(3) ras1 new pad_facts[of "[]"] group_pad[OF group_empty]
      by (intro exI[of _ ps1] exI[of _ ?g1]) auto
  qed
  then obtain ps2 g1 where one: "fetch1_step ?quiet fb (in_bru x) (in_sau x) (in_commit x) ?words ps1 ?f1 = Some (ps2, g1)" "predictors_ok ps2" "ras_safe (bs_main_ras ps2)"
    "length (port_get_new (fe_port g1)) = FETCH_WIDTH" "list_all history_item (port_get_new (fe_port g1))"
    "group_agrees dff_get_new dff_get_new 0 (port_get_new (fe_port g1)) (bs_bi_mode ps2)"
    "\<forall>a xs b. path a (xs @ pending s) b \<and> goes_on b ?f1 \<longrightarrow>
       (\<exists>b'. path a (xs @ filter ff_enable ops @ filter ff_enable (port_get_new (fe_port g1))) b' \<and> goes_on b' g1)"
    by (elim exE conjE) (rule that; assumption)
  obtain ps3 where e: "batch_sync ps2 = Some ps3"
    "front_ok \<lparr>fr_f1 = fetch1_sync g1, fr_f2 = \<lparr>fs_fifo = fifo_sync f', fs_rev_pack = ?rev, fs_busy = (fail \<noteq> None)\<rparr>, fr_ps = predictors_sync ps3\<rparr>"
    using front_end[OF conjunct1[OF fq.clock_law[OF k(1)]] rev one(2-6)] by blast
  let ?s' = "\<lparr>fr_f1 = fetch1_sync g1, fr_f2 = \<lparr>fs_fifo = fifo_sync f', fs_rev_pack = ?rev, fs_busy = (fail \<noteq> None)\<rparr>, fr_ps = predictors_sync ps3\<rparr>"
  have ask: "fetch_request x s = Some (fe_pc g1)"
    using assms(2) pop two one(1) by (simp add: fetch_request_def ps_def[symmetric] Let_def)
  have cycle: "front_cycle x s = (if cbus_read_instruction (fe_pc g1) (in_bus x) = None then None else Some (out, ?s'))"
    using assms(2) pop two one(1) e(1) by (auto simp: front_cycle_def fetch1_run_def ps_def[symmetric] Let_def)
  have "on_path pc (taken @ out) ?s'" if p: "on_path pc taken s" for pc taken
  proof -
    obtain dn b where d: "path (Some pc) (dn @ pending s) b" "goes_on b ?f1" "map fetch2_send dn = taken @ fifo_next (fs_fifo ?f2)"
      using p by (auto simp: on_path_def)
    let ?done = "dn @ filter ff_enable (take k ops)"
    have pend: "?done @ pending ?s' = dn @ filter ff_enable ops @ filter ff_enable (port_get_new (fe_port g1))"
      using held by (cases fail) (simp_all add: pending_def sync_facts)
    have "map fetch2_send ?done = (taken @ out) @ fifo_next (fs_fifo (fr_f2 ?s'))"
      using d(3) f(2) k(4) fq.clock_law[OF k(1)] by simp
    moreover obtain b'' where "path (Some pc) (?done @ pending ?s') b''" "goes_on b'' g1"
      using one(7) d(1,2) unfolding pend by blast
    ultimately show ?thesis unfolding on_path_def by (intro exI[of _ ?done] exI[of _ b'']) (simp add: sync_facts)
  qed
  then show ?thesis using ask cycle e(2) by (intro exI[of _ "fe_pc g1"] exI[of _ out] exI[of _ ?s']) simp
qed

text \<open>Where a flush sends the program: commit first, then the branch unit, then the store address unit.\<close>

definition flush_target :: "front_input \<Rightarrow> front \<Rightarrow> u32" where
  "flush_target x s =
     (if cf_flush (in_commit x)
      then (if cf_has_exception (in_commit x) then cf_exception_pc (in_commit x)
            else if cf_jump_enable (in_commit x) then cf_jump_next_pc (in_commit x) else fe_pc (fr_f1 s))
      else if bru_flush (in_bru x) then bru_next_pc (in_bru x) else sau_next_pc (in_sau x))"

definition fresh :: "u32 \<Rightarrow> front \<Rightarrow> bool" where
  "fresh pc s \<longleftrightarrow> fe_pc (fr_f1 s) = pc \<and> \<not> fe_jump_wait (fr_f1 s) \<and> pending s = [] \<and> fifo_next (fs_fifo (fr_f2 s)) = []"

lemma fresh_path: "fresh pc s \<Longrightarrow> on_path pc [] s"
  by (auto simp: fresh_def on_path_def goes_on_def intro!: exI[of _ "[]"])

lemma front_cycle_flush:
  assumes "front_ok s" and "in_flush x" and "input_ok x"
  shows "fetch_request x s = Some (flush_target x s) \<and>
    (\<exists>s'. front_cycle x s = (if cbus_read_instruction (flush_target x s) (in_bus x) = None then None else Some ([], s')) \<and>
      front_ok s' \<and> fresh (flush_target x s) s')"
proof -
  note s = assms(1)[unfolded front_ok_def] and x = assms(3)[unfolded input_ok_def] and n = assms(2)[unfolded in_flush_def]
  let ?f2 = "fr_f2 s" and ?f1 = "fr_f1 s"
  define ps where "ps = (fr_ps s)\<lparr>bs_bi_mode_q := bs_bi_mode_q (fr_ps s) @ in_requests x\<rparr>"
  have ps: "predictors_ok ps" "ras_safe (bs_main_ras ps)" using s x by (auto simp: ps_def predictors_ok_parts)
  let ?f = "fifo_flush (fs_fifo ?f2)" and ?fb = "\<lparr>f2_idle = True, f2_stall = fs_busy ?f2, f2_pc_redirect = False, f2_new_pc = 0\<rparr>"
  let ?g2 = "\<lparr>fs_fifo = ?f, fs_rev_pack = fs_rev_pack ?f2, fs_busy = False\<rparr>" and ?g1 = "fetch1_go (flush_target x s) ?f1"
  have inv: "fifo_inv (fs_fifo ?f2)" using s by (simp add: fifo_settled_def)
  note fl = fifo_flush_abs[OF inv]
  have f: "fifo_settled (fifo_sync ?f)" using fl by (simp add: fifo_settled_def)
  have two: "fetch2_run (in_bru x) (in_sau x) (in_commit x) (fe_port ?f1) ps (?f2\<lparr>fs_fifo := fs_fifo ?f2\<rparr>) = Some (?fb, ps, ?g2)"
  proof -
    have "?f2\<lparr>fs_busy := False, fs_fifo := ?f\<rparr> = ?g2" by (cases ?f2) simp
    then show ?thesis using n by (auto simp: fetch2_run_def Let_def)
  qed
  have one: "fetch1_step q ?fb (in_bru x) (in_sau x) (in_commit x) v ps ?f1 = Some (ps, ?g1)" for q v
    using n x by (auto simp: fetch1_step_def flush_target_def)
  have at: "fe_pc ?g1 = flush_target x s" by (simp add: fetch1_go_def)
  have new: "port_get_new (fe_port ?g1) = fetch_pad []" by (simp add: fetch1_go_def set_port)
  have "\<exists>ps3. batch_sync ps = Some ps3 \<and>
      front_ok \<lparr>fr_f1 = fetch1_sync ?g1, fr_f2 = \<lparr>fs_fifo = fifo_sync ?f, fs_rev_pack = fs_rev_pack ?f2, fs_busy = False\<rparr>, fr_ps = predictors_sync ps3\<rparr>"
    by (rule front_end[OF f _ ps]) (use s new pad_facts[of "[]"] group_pad[OF group_empty] in simp_all)
  then obtain ps3 where e: "batch_sync ps = Some ps3"
    "front_ok \<lparr>fr_f1 = fetch1_sync ?g1, fr_f2 = \<lparr>fs_fifo = fifo_sync ?f, fs_rev_pack = fs_rev_pack ?f2, fs_busy = False\<rparr>, fr_ps = predictors_sync ps3\<rparr>"
    by blast
  let ?s' = "\<lparr>fr_f1 = fetch1_sync ?g1, fr_f2 = \<lparr>fs_fifo = fifo_sync ?f, fs_rev_pack = fs_rev_pack ?f2, fs_busy = False\<rparr>, fr_ps = predictors_sync ps3\<rparr>"
  have ask: "fetch_request x s = Some (flush_target x s)"
    using assms(2) two one at by (simp add: fetch_request_def ps_def[symmetric] Let_def)
  have "front_cycle x s = (if cbus_read_instruction (flush_target x s) (in_bus x) = None then None else Some ([], ?s'))"
    using assms(2) two one at e(1) by (auto simp: front_cycle_def fetch1_run_def ps_def[symmetric] Let_def)
  moreover have "fresh (flush_target x s) ?s'"
    using fl(3) new pad_facts[of "[]"] by (simp add: fresh_def pending_def sync_facts) (simp add: fetch1_sync_def fetch1_go_def)
  ultimately show ?thesis using ask e(2) by blast
qed

lemma front_cycles_calm:
  assumes "front_ok s" and "\<forall>x \<in> set xs. \<not> in_flush x \<and> input_ok x" and "on_path pc taken s"
  shows "if served xs s then \<exists>out s'. front_cycles xs s = Some (out, s') \<and> front_ok s' \<and> on_path pc (taken @ out) s'
    else front_cycles xs s = None"
  using assms
proof (induction xs arbitrary: s taken)
  case (Cons x xs)
  have c: "\<not> in_flush x" "input_ok x" using Cons.prems(2) by simp_all
  obtain a out s1 where s1: "fetch_request x s = Some a"
    "front_cycle x s = (if cbus_read_instruction a (in_bus x) = None then None else Some (out, s1))" "front_ok s1" "on_path pc (taken @ out) s1"
    using front_cycle_calm[OF Cons.prems(1) c] Cons.prems(3) by blast
  show ?case
  proof (cases "cbus_read_instruction a (in_bus x)")
    case (Some b)
    have "if served xs s1 then \<exists>outs s'. front_cycles xs s1 = Some (outs, s') \<and> front_ok s' \<and> on_path pc ((taken @ out) @ outs) s'
      else front_cycles xs s1 = None"
      using Cons.IH[OF s1(3) _ s1(4)] Cons.prems(2) by simp
    then show ?thesis using s1(1,2) Some by (auto split: if_splits)
  qed (use s1(1,2) in simp)
qed simp

text \<open>The bus of the memory reads every group but those that start in the last three words.\<close>

lemma mem_bus_readable: "cmem_ok m \<Longrightarrow> fetch_ok a \<Longrightarrow> cbus_read_instruction a (mem_bus m r) \<noteq> None"
  using mem_bus_fetch[of m a r] by auto

subsection \<open>Properties\<close>

text \<open>
  C6. The front end follows the predicted path. From a state that has just been sent to an address, over any cycles without flush, however
  often decode stops and whenever the second predictor overrules the first, the instructions that decode has taken, those in its queue and
  those still in the two stages form one path: the first is the one at that address, and each next one is where the record of the one before
  it says the program goes on (only after an mret is this left to commit). The address fetched next continues the path. The run fails
  exactly if the bus cannot read a group that the first stage asks for (the memory of the model cannot where the group starts in its last
  three words). The words that the bus delivers are assumed to hold none with the opcode of branches and a reserved function code, on which
  the first stage aborts. A flush succeeds under the same condition on the address it goes to, drops everything and sends the program to
  the address of the oldest unit that asks for it, so that the path starts anew there.
\<close>

theorem fetch_follows_path:
  assumes "front_ok s"
  shows "(\<forall>pc xs. fresh pc s \<and> (\<forall>x \<in> set xs. \<not> in_flush x \<and> input_ok x) \<longrightarrow>
      (if served xs s
       then \<exists>out s'. front_cycles xs s = Some (out, s') \<and> front_ok s' \<and>
         (\<exists>items b. path (Some pc) items b \<and> goes_on b (fr_f1 s') \<and>
            map fetch2_send items = out @ fifo_next (fs_fifo (fr_f2 s')) @ map fetch2_send (pending s'))
       else front_cycles xs s = None)) \<and>
    (\<forall>x. in_flush x \<and> input_ok x \<longrightarrow>
      (if cbus_read_instruction (flush_target x s) (in_bus x) \<noteq> None
       then \<exists>s'. front_cycle x s = Some ([], s') \<and> front_ok s' \<and> fresh (flush_target x s) s'
       else front_cycle x s = None))"
proof (intro conjI allI impI)
  fix pc xs
  assume h: "fresh pc s \<and> (\<forall>x \<in> set xs. \<not> in_flush x \<and> input_ok x)"
  then have r: "if served xs s then \<exists>out s'. front_cycles xs s = Some (out, s') \<and> front_ok s' \<and> on_path pc out s'
    else front_cycles xs s = None"
    using front_cycles_calm[OF assms, of xs pc "[]"] fresh_path by auto
  have whole: "\<exists>items b. path (Some pc) items b \<and> goes_on b (fr_f1 s') \<and>
      map fetch2_send items = out @ fifo_next (fs_fifo (fr_f2 s')) @ map fetch2_send (pending s')" if on: "on_path pc out s'" for out s'
  proof -
    from on obtain dn b where "path (Some pc) (dn @ pending s') b" "goes_on b (fr_f1 s')"
      "map fetch2_send dn = out @ fifo_next (fs_fifo (fr_f2 s'))" by (auto simp: on_path_def)
    then show ?thesis by (intro exI[of _ "dn @ pending s'"] exI[of _ b]) simp
  qed
  show "if served xs s
      then \<exists>out s'. front_cycles xs s = Some (out, s') \<and> front_ok s' \<and>
        (\<exists>items b. path (Some pc) items b \<and> goes_on b (fr_f1 s') \<and>
           map fetch2_send items = out @ fifo_next (fs_fifo (fr_f2 s')) @ map fetch2_send (pending s'))
      else front_cycles xs s = None"
  proof (cases "served xs s")
    case True
    then obtain out s' where "front_cycles xs s = Some (out, s')" "front_ok s'" "on_path pc out s'" using r by auto
    then show ?thesis using True whole by auto
  qed (use r in simp)
next
  fix x
  assume "in_flush x \<and> input_ok x"
  then show "if cbus_read_instruction (flush_target x s) (in_bus x) \<noteq> None
      then \<exists>s'. front_cycle x s = Some ([], s') \<and> front_ok s' \<and> fresh (flush_target x s) s'
      else front_cycle x s = None"
    using front_cycle_flush[OF assms, of x] by (cases "cbus_read_instruction (flush_target x s) (in_bus x)") simp_all
qed

text \<open>The two stages as constructed, after the clock edge that follows.\<close>

definition front_make :: "u32 \<Rightarrow> nat \<Rightarrow> branch_predictor_info_pack_t fetch2_decode_pack_t \<Rightarrow> u32 list \<Rightarrow> front" where
  "front_make pc n junk_item junk =
     \<lparr>fr_f1 = fetch1_sync (fetch1_make pc),
      fr_f2 = fetch2_reset \<lparr>fs_fifo = fifo_make n junk_item, fs_rev_pack = [], fs_busy = False\<rparr>,
      fr_ps = predictors_sync (predictors_make junk)\<rparr>"

lemma front_make_ok:
  assumes "0 < n" and "length junk = FETCH_WIDTH"
  shows "front_ok (front_make pc n junk_item junk)" "fresh pc (front_make pc n junk_item junk)"
proof -
  have p: "port_get_new (fe_port (fetch1_make pc)) = fetch_pad []"
    by (simp add: fetch1_make_def fetch1_reset_def port_make_def port_get_new_def dff_simps)
  have r: "ras_safe (bs_main_ras (predictors_make junk))"
    by (simp add: predictors_make_def batch_reset_def ras_safe_def ras_make_def stack_make_def Let_def dff_simps RAS_SIZE_def)
  have m: "bs_main_ras (predictors_sync ps) = ras_sync (bs_main_ras ps)" for ps by (simp add: predictors_sync_def)
  show "front_ok (front_make pc n junk_item junk)"
    using assms predictors_sync_ok[OF predictors_make_ok[OF assms(2)]] modes_settled_sync ras_safe_sync[OF r] pad_facts[of "[]"]
      group_pad[OF group_empty] settled_make
    by (simp add: front_ok_def front_make_def sync_facts p m fetch2_reset_def)
  show "fresh pc (front_make pc n junk_item junk)"
    using pad_facts[of "[]"] assms(1)
    by (simp add: fresh_def front_make_def pending_def sync_facts p fetch2_reset_def) (simp add: fetch1_sync_def fetch1_make_def fetch1_reset_def)
qed

text \<open>The memory has delivered a group with a jump to itself as its third word.\<close>

definition demo_group :: "u32 list" where
  "demo_group = [0x13, 0x13, 0x6f, 0x13]"

definition demo_bus :: cbus where
  "demo_bus = mem_bus
     \<lparr>cmem_bytes = \<lparr>mem_size = MEMORY_SIZE, mem = (\<lambda>_. 0)\<rparr>, data_read_latency = 0, read_data = [(0, False)],
      data_write_latency = 0, write_data = [\<lparr>wr_addr = 0, wr_value = 0, wr_size = 0, wr_valid = False\<rparr>]\<rparr>
     (bus_if_make\<lparr>instruction_value := map dff_make demo_group, instruction_value_valid := dff_make True\<rparr>)"

definition demo_input :: front_input where
  "demo_input =
     \<lparr>in_take = 2, in_decode = \<lparr>df_idle = True\<rparr>, in_rename = \<lparr>rf_idle = True\<rparr>,
      in_bru = \<lparr>bru_flush = False, bru_next_pc = 0, bru_rob_id_stage = False, bru_rob_id = 0\<rparr>,
      in_sau = \<lparr>sau_flush = False, sau_next_pc = 0, sau_rob_id_stage = False, sau_rob_id = 0\<rparr>,
      in_commit = \<lparr>cf_idle = False, cf_next_handle_rob_id_valid = False, cf_next_handle_rob_id = 0, cf_has_exception = False,
        cf_exception_pc = 0, cf_flush = False, cf_committed_rob_id = [], cf_committed_rob_id_valid = [], cf_jump_enable = False,
        cf_jump = False, cf_jump_next_pc = 0, cf_waiting_for_interrupt = False\<rparr>,
      in_sb_empty = True, in_rsb_empty = True, in_bus = demo_bus, in_requests = []\<rparr>"

definition demo_front :: front where
  "demo_front = front_make 0x80000000 4
     \<lparr>f_inst_common_info = \<lparr>inst_id = 0\<rparr>, f_enable = False, f_pc = 0, f_value = 0, f_has_exception = False,
      f_exception_id = instruction_address_misaligned, f_exception_value = 0, f_branch_predictor_info_pack = branch_predictor_info_pack_make\<rparr>
     [0, 0, 0, 0]"

lemma demo_front_ok: "front_ok demo_front" "fresh 0x80000000 demo_front"
  using front_make_ok[where n=4 and junk="[0, 0, 0, 0]"] by (simp_all add: demo_front_def FETCH_WIDTH_def)

lemma demo_words: "get_instruction_value (cbus_if demo_bus) = Some demo_group"
  by (simp add: demo_bus_def demo_group_def get_instruction_value_def dff_simps comp_def)

lemma demo_input_ok: "\<not> in_flush demo_input \<and> input_ok demo_input"
proof -
  have "words_legal demo_bus"
    by (simp add: words_legal_def demo_words) (simp add: demo_group_def branch_word_ok_def opcode7_def)
  then show ?thesis by (simp add: demo_input_def in_flush_def input_ok_def)
qed

lemma demo_readable: "fetch_ok a \<Longrightarrow> cbus_read_instruction a demo_bus \<noteq> None"
  unfolding demo_bus_def by (rule mem_bus_readable) (simp_all add: cmem_ok_def)

lemma demo_loop:
  assumes "predictors_ok ps"
  shows "\<exists>items ps' s'. fetch1_loop 0 0x80000000 quiet demo_group ps s = Some (items, ps', s') \<and> fe_pc s' = 0x80000008"
proof -
  have w: "(0 :: nat) < FETCH_WIDTH" "1 < FETCH_WIDTH" "2 < FETCH_WIDTH" by (simp_all add: FETCH_WIDTH_def)
  obtain ps1 where 1: "batch_predict 0 0x80000000 0x13 ps = Some ps1" "predictors_ok ps1"
    using batch_predict_ok[OF assms w(1)] by blast
  obtain ps2 where 2: "batch_predict 1 0x80000004 0x13 ps1 = Some ps2" "predictors_ok ps2"
    using batch_predict_ok[OF 1(2) w(2)] by blast
  obtain ps3 where 3: "batch_predict 2 0x80000008 0x6f ps2 = Some ps3"
    using batch_predict_ok[OF 2(2) w(3)] by blast
  have off: "sign_extend (imm_j_of 0x6f) 21 = Some 0"
    by (simp add: imm_j_of_def sign_extend_def)
  show ?thesis
    using 1(1) 2(1) 3 off
    by (simp add: demo_group_def ccheck_align_def is_fence_i_def is_jump_inst_def predict_inst_def opcode7_def predict_target_def
        numeral_2_eq_2[symmetric] branch_predictor_info_pack_make_def rd_of_def is_link_def)
qed

lemma demo_served: "served [demo_input] demo_front"
proof -
  let ?ps = "(fr_ps demo_front)\<lparr>bs_bi_mode_q := bs_bi_mode_q (fr_ps demo_front)\<rparr>"
  have p: "predictors_ok ?ps" using demo_front_ok(1) by (simp add: front_ok_def)
  have port: "port_get (fe_port (fr_f1 demo_front)) = fetch_pad []"
    by (simp add: demo_front_def front_make_def sync_facts) (simp add: fetch1_make_def fetch1_reset_def port_make_def port_get_new_def dff_simps)
  have s: "fe_pc (fr_f1 demo_front) = 0x80000000" "\<not> fe_jump_wait (fr_f1 demo_front)" "\<not> fs_busy (fr_f2 demo_front)"
    using demo_front_ok(2) by (simp_all add: fresh_def demo_front_def front_make_def fetch2_reset_def)
  have find: "fetch2_find i (replicate n fetch1_fetch2_op_info_make) b = Some None" for i n b
    by (induction n arbitrary: i) (simp_all add: fetch1_fetch2_op_info_make_def)
  have take: "fetch2_take (fetch_pad []) ps = Some (fetch_pad [], None, ps)" for ps
    by (simp add: fetch2_take_def fetch_pad_def find)
  obtain fail f where push: "fetch2_push 0 (fetch_pad []) (snd (pop_n 2 (fs_fifo (fr_f2 demo_front)))) = (fail, f)" by fastforce
  obtain fb f2 where two: "fetch2_run (in_bru demo_input) (in_sau demo_input) (in_commit demo_input) (fe_port (fr_f1 demo_front)) ?ps
      ((fr_f2 demo_front)\<lparr>fs_fifo := snd (pop_n 2 (fs_fifo (fr_f2 demo_front)))\<rparr>) = Some (fb, ?ps, f2)"
    "\<not> f2_stall fb" "\<not> f2_pc_redirect fb"
    using s(3) by (simp add: fetch2_run_def demo_input_def port take Let_def push)
  have words: "take FETCH_WIDTH demo_group = demo_group" by (simp add: demo_group_def FETCH_WIDTH_def)
  have one: "\<exists>ps' g. fetch1_step q fb (in_bru demo_input) (in_sau demo_input) (in_commit demo_input)
      (Some demo_group) ?ps (fr_f1 demo_front) = Some (ps', g) \<and> fe_pc g = 0x80000008" for q
  proof -
    obtain items ps' g where l: "fetch1_loop 0 0x80000000 q demo_group ?ps (fr_f1 demo_front) = Some (items, ps', g)" "fe_pc g = 0x80000008"
      using demo_loop[OF p] by blast
    then have "fetch1_group q fb (in_commit demo_input) (Some demo_group) ?ps (fr_f1 demo_front) = Some (items, ps', g)"
      using s two(2) words by (simp add: fetch1_group_def)
    then show ?thesis using two(2,3) l(2) by (simp add: fetch1_step_def) (simp add: demo_input_def)
  qed
  have "fetch_request demo_input demo_front = Some 0x80000008"
  proof -
    obtain ps' g where g: "fetch1_step (f2_idle fb \<and> df_idle (in_decode demo_input) \<and> rf_idle (in_rename demo_input) \<and>
        cf_idle (in_commit demo_input) \<and> in_sb_empty demo_input \<and> in_rsb_empty demo_input)
        fb (in_bru demo_input) (in_sau demo_input) (in_commit demo_input) (Some demo_group) ?ps (fr_f1 demo_front) = Some (ps', g)"
      "fe_pc g = 0x80000008" using one by blast
    have i: "\<not> in_flush demo_input" "in_requests demo_input = []" "in_take demo_input = 2" "in_bus demo_input = demo_bus"
      using demo_input_ok by (simp_all add: demo_input_def)
    show ?thesis using two(1) g by (simp add: fetch_request_def i demo_words del: Option.bind_eq_Some_conv)
  qed
  moreover have "cbus_read_instruction 0x80000008 (in_bus demo_input) \<noteq> None"
    using demo_readable by (simp add: demo_input_def fetch_ok_def config_defs FETCH_WIDTH_def)
  ultimately show ?thesis by (simp split: option.splits prod.splits)
qed

theorem fetch_follows_path_witness:
  "(\<exists>out s'. front_cycles [demo_input] demo_front = Some (out, s') \<and>
      (\<exists>items b. path (Some 0x80000000) items b \<and> goes_on b (fr_f1 s') \<and>
         map fetch2_send items = out @ fifo_next (fs_fifo (fr_f2 s')) @ map fetch2_send (pending s'))) \<and>
   (\<exists>s'. front_cycle (demo_input\<lparr>in_bru := \<lparr>bru_flush = True, bru_next_pc = 0x80000100, bru_rob_id_stage = False, bru_rob_id = 0\<rparr>\<rparr>)
      demo_front = Some ([], s') \<and> fresh 0x80000100 s')"
proof
  have "\<forall>x \<in> set [demo_input]. \<not> in_flush x \<and> input_ok x" using demo_input_ok by simp
  with conjunct1[OF fetch_follows_path[OF demo_front_ok(1)]] demo_front_ok(2) demo_served
  show "\<exists>out s'. front_cycles [demo_input] demo_front = Some (out, s') \<and>
      (\<exists>items b. path (Some 0x80000000) items b \<and> goes_on b (fr_f1 s') \<and>
         map fetch2_send items = out @ fifo_next (fs_fifo (fr_f2 s')) @ map fetch2_send (pending s'))"
    by (metis (no_types, lifting))
next
  let ?x = "demo_input\<lparr>in_bru := \<lparr>bru_flush = True, bru_next_pc = 0x80000100, bru_rob_id_stage = False, bru_rob_id = 0\<rparr>\<rparr>"
  have "in_flush ?x \<and> input_ok ?x" using demo_input_ok by (simp add: in_flush_def input_ok_def demo_input_def)
  moreover have "flush_target ?x demo_front = 0x80000100" by (simp add: flush_target_def demo_input_def)
  moreover have "cbus_read_instruction 0x80000100 (in_bus ?x) \<noteq> None"
    using demo_readable by (simp add: demo_input_def fetch_ok_def config_defs FETCH_WIDTH_def)
  ultimately show "\<exists>s'. front_cycle ?x demo_front = Some ([], s') \<and> fresh 0x80000100 s'"
    using conjunct2[OF fetch_follows_path[OF demo_front_ok(1)]] by (metis (no_types, lifting))
qed

text \<open>
  A word with the opcode of branches and a reserved function code makes the first stage abort. It need not be an instruction of the
  program: the stage meets whatever lies behind a jump it has not predicted.
\<close>

lemma reserved_branch_aborts:
  "opcode7 w = 0x63 \<Longrightarrow> funct3_of w \<in> {2, 3} \<Longrightarrow> predict_inst i pc w ps = None"
  by (auto simp: predict_inst_def predict_branch_def split: Option.bind_splits)

end
