(* ===== verification/Spec2Isabelle.thy ===== *)
theory Spec2Isabelle
  imports Isa_Laws Cycle_Decode Age_Compare Free_List Phy_Regfile Rob Store_Buffer Load_Queue Exec_Units Write_Back Rename_Laws Load_Path Reg_Lifecycle Recovery Read_Reg Dispatch Fetch
begin

text \<open>
  A verification development for DreamCoreV2, a simulator of an out-of-order RV32IM core
  (src/model/model). The program runs two models side by side: an \<^emph>\<open>ISA model\<close>, which
  executes one instruction per step, and a \<^emph>\<open>cycle model\<close>, a pipeline with register renaming,
  a reorder buffer, store buffer and load queue, built from clocked components. The main program
  compares the two at every retired instruction. The build modelled is the one that compares,
  with assertions and checkpoints enabled.

  \<^bold>\<open>Conventions.\<close> A 32-bit value of the source is a 32 word, so that addition wraps and
  signed comparison is written out; array indices, pointers into queues and identifiers, which
  the source keeps below a small bound, are natural numbers, and the wrap of a pointer at the
  buffer size is written out as in the source. A failed assertion (verify, verify_only) is the
  value None of the option type and every access out of the range of an array is None too, so
  that a theorem saying that an operation returns Some says that no assertion fails. A clocked
  register (dff.h) is a record of its current and next value; the global synchronisation of the
  simulator is the sync operation of each component. A class derived from the queue has the
  queue as its first field. Code that prints, writes json, traces or serves the debugger is left
  out everywhere. The memory of the ISA model is a function from addresses to bytes.

  \<^bold>\<open>Theories and the code they model.\<close>
  \<^item> Prelude: the assertion, the bind rules and the named collections used by the others.
  \<^item> Common: common.h and config.h (exception numbers, alignment, sign extension, constants).
  \<^item> Dff: dff.h, port.h, handshake_dff.h. Ring: arithmetic of a pointer with a stage bit on a
    ring. Fifo: fifo.h, with the window invariant of a queue whose read and write pointers have a
    current and a next value, the abstract contents on both sides of the clock edge
    (fifo_avail, fifo_next), and the locale clocked_queue, which fq interprets on the code's
    queue. Fifo_Walk: the loop over a queue with get_front_id and get_next_id that the store
    buffer, the retired store buffer and the load queue share.
  \<^item> Isa_Csr, Isa_Bus: csr_base.h, csr_all.h, csrfile.h, interrupt_interface.h and bus.h,
    slave_base.h, memory.h, clint.h, regfile.h of the ISA model. The locale memory_port states
    what a client relies on when it stores and loads; byte_port and word_port interpret it on the
    bus operations.
  \<^item> Ops, Isa_Decode, Isa_Model: isa_model.h and isa_model.cpp: decode, the six execution units,
    fetch, execute, interrupt entry, the step, construction, reset, load and run.
  \<^item> Riscv_Spec: the abstract instructions and their encoding, not taken from the code.
    Isa_Sem: the arithmetic of the instructions over the integers, and what fetch, decode and execute of the
    code do with each instruction, in closed form. Riscv_Effect: the effect the manual gives to each instruction,
    written without the code, the list of the cases in which the code departs from it (conforms), and
    the comparison. Isa_Inv, Isa_Reach: the invariant and the reachable states (an inductive predicate over
    construction, load, reset, run, interrupts).
    Isa_Laws: the properties of the ISA model.
  \<^item> Cycle_Decode: decode.cpp and its packs; equality with the decoder of the ISA model and the
    behaviour of the stage between its two queues.
  \<^item> Age_Compare: age_compare.h, the order of reorder buffer positions.
  \<^item> Free_List: free_list.h. The lemmas keep a log of all pushes and pops, from which the list
    of free registers before any saved read pointer can be read off.
  \<^item> Reg_Alias: rat.h and checkpoint.h. The bit matrix of valid bits is abstracted to a partial
    map (rat_abs); the locale register_map states what renaming relies on, rm interprets it.
  \<^item> Phy_Regfile: regfile.h of the cycle model, with restoration after a flush.
  \<^item> Rob: rob.h. Store_Forward, Store_Buffer: store_buffer.h and the forwarding of
    retired_store_buffer.h, with a byte-wise specification of store-to-load forwarding.
    Load_Queue: load_queue.h.
  \<^item> Exec_Packs, Exec_Units: the packs of the execution stages, alu.cpp, mul.cpp, div.cpp.
    Branch_Unit: bru.cpp and csr.cpp. Lsu_Units: sau.cpp, sdu.cpp and wait_table.h, with the packs of the load and store units.
    Write_Back: wb.cpp.
  \<^item> Cycle_Csr: csr_base.h, csrfile.h, csr_all.h and interrupt_interface.h of the cycle model, on clocked registers.
    Cycle_Bus: bus.h, pma_unit.h, slave_base.h, slave/memory.h, slave/clint.h with the latencies of the memory.
    Store_Drain: the rest of retired_store_buffer.h and the way of a retired store to the memory.
    Load_Path: lu.cpp, and the way of a load through both buffers and the memory.
  \<^item> Rename, Rename_Laws: rename.cpp and the reset of the register state; the specification over a register map and a
    free list. Speculation: the link between the retired map, the reorder buffer, the free list and the speculative
    map. Commit, Commit_Laws: commit.cpp and what a cycle of it does to linked maps. Reg_Lifecycle: commit and rename
    in one cycle. Recovery: the recoveries of the branch unit and the store address unit.
  \<^item> Dispatch: dispatch.cpp. Read_Reg: integer_readreg.cpp and lsu_readreg.cpp.
  \<^item> Predictors: stack.h, ras.h and the branch predictors with their queues of requests. Fetch: fetch1.cpp and fetch2.cpp.

  \<^bold>\<open>What the theorems show.\<close> A step of the ISA model has the effect the RISC-V manual gives to the instruction, with
  two kinds of exceptions that the theorem names: a trap leaves mstatus alone, and the cases outside conforms (jumps to
  misaligned addresses, misaligned or unmapped accesses, mret with mpie clear, some CSR instructions with x0 or the immediate
  0, and writes to the branch counters). The ISA model never aborts on legal instructions with aligned accesses, keeps its invariant in every
  reachable state, decodes exactly the encodings of the instructions (and every word with the
  opcode of jalr), and returns from an interrupt to where it was taken. The cycle model's decoder
  agrees with it on every word, and so do the results of the arithmetic, multiply and divide
  units. Queues are first in, first out over any sequence of operations and cycles. The free list
  never hands out a register twice and a restore undoes the allocations since the save. The alias
  table implements a map under groups of renames, and a checkpoint restores it. Forwarding gives
  each byte of a load the youngest older store of that byte. The conflict search finds the oldest
  younger load that overlaps a store. Write back writes exactly the results no flush covers.
  Rename refines a map and a free list, and commit retires a finished prefix in order; together they keep every
  physical register mapped, free or waiting in the reorder buffer, except that the trap of an operation with a
  destination loses its register. The recovery of the branch unit is exact; that of the store address unit, were it
  reached with a checkpoint, would leave a register both mapped and free. Dispatch loses, doubles and reorders
  nothing and sends CSR operations alone. Register read supplies the operands that the units or the file hold.
  The branch and CSR units agree with the ISA model, and the clocked CSR file refines its CSR file. Retired stores reach the
  memory in order and within a bounded time, and a load returns the bytes of the youngest older stores over them;
  both for cores that store to aligned addresses of the memory and do not fetch from its last three words, where the model
  aborts. The return address stack matches calls and returns, the predictors stay in their tables,
  and the instructions that fetch delivers form the predicted path, as long as the bus can read the groups asked
  for and delivers no branch with a reserved function code, on which the first stage aborts.

  \<^bold>\<open>Bounds and termination.\<close> Loops over arrays are structural recursions over their
  indices. The loops over queues (customer_foreach, the walks of Fifo_Walk, the restore loop of
  the free list) follow pointers until they meet a mark; they are partial functions into the
  option type, so that not ending is None, and the theorems about them show that the value is
  Some: each step moves the position by one and the window of a queue is at most its size.

  \<^bold>\<open>Not modelled.\<close> The two issue stages with their queues (integer_issue.cpp, lsu_issue.cpp, io_issue_queue.h,
  ooo_issue_queue.h), and the part of cycle_model.cpp that builds the components and runs all stages in one cycle; the parts
  of it that reset the register state, move retired stores and run fetch are modelled. The network server, the ELF loader,
  the breakpoint and trace code and the main program are input and output. The vendored
  libraries (capstone, boost, asio, json) and the test programs are not code of the simulator.
\<close>

end
